(* ===== verification/Prelude.thy ===== *)
theory Prelude
  imports Main "HOL-Library.Word" "HOL-Library.Multiset" "HOL-Library.Sublist"
begin

text \<open>
  What every component of the development shares: the outcome type of a piece of C code
  (a value, or the fault that the execution runs into), the sequencing of such outcomes,
  the type synonyms for the machine integers, and generic lemmas on lists and words.

  A fault is a value: a dereference of a null or stale pointer, an access outside an
  object, a division by zero, a signed overflow, a failed \<open>assert\<close>, an overrun of a
  fixed-size buffer, the release of storage that was not allocated, the use of storage after
  its release, a recursion deeper than the bound of the model. Every branch of the modelled code that can run into one returns it,
  so that a theorem \<open>f x = Inr y\<close> also says that the code runs into none of them.
\<close>

named_theorems c_simps \<open>evaluation of sequenced C outcomes\<close>
named_theorems cmp_intros \<open>laws of three-way comparison functions\<close>

section \<open>Outcomes\<close>

datatype fault = NullDeref | OutOfBounds | DivByZero | IntOverflow | AssertFail | BufferOverflow | BadFree
  | UseAfterFree | StackOverflow

type_synonym 'a outcome = "fault + 'a"

type_synonym u8 = "8 word"
type_synonym u16 = "16 word"
type_synonym u32 = "32 word"
type_synonym u64 = "64 word"

abbreviation ok :: "'a \<Rightarrow> 'a outcome" where
  "ok x \<equiv> Inr x"

definition andThen :: "'a outcome \<Rightarrow> ('a \<Rightarrow> 'b outcome) \<Rightarrow> 'b outcome" where
  "andThen m f = (case m of Inl e \<Rightarrow> Inl e | Inr x \<Rightarrow> f x)"

lemma andThen_simps [simp, c_simps]:
  "andThen (Inl e) f = Inl e"
  "andThen (Inr x) f = f x"
  by (simp_all add: andThen_def)

lemma andThen_Inr_iff [c_simps]:
  "andThen m f = Inr y \<longleftrightarrow> (\<exists>x. m = Inr x \<and> f x = Inr y)"
  by (cases m) simp_all

lemma andThen_assoc: "andThen (andThen m f) g = andThen m (\<lambda>x. andThen (f x) g)"
  by (cases m) simp_all

text \<open>A check that faults when its condition does not hold (an \<open>assert\<close>, a bound).\<close>

definition guardC :: "fault \<Rightarrow> bool \<Rightarrow> 'a outcome \<Rightarrow> 'a outcome" where
  "guardC e b m = (if b then m else Inl e)"

lemma guardC_simps [simp, c_simps]:
  "guardC e True m = m"
  "guardC e False m = Inl e"
  by (simp_all add: guardC_def)

lemma guardC_Inr_iff [c_simps]: "guardC e b m = Inr y \<longleftrightarrow> b \<and> m = Inr y"
  by (simp add: guardC_def)

lemma andThen_cong [fundef_cong]:
  "m = m' \<Longrightarrow> (\<And>x. m' = Inr x \<Longrightarrow> f x = g x) \<Longrightarrow> andThen m f = andThen m' g"
  by (cases m') simp_all

text \<open>An access to an array of known size, and a null pointer that is dereferenced.\<close>

definition slot :: "'a list \<Rightarrow> int \<Rightarrow> 'a outcome" where
  "slot xs i = (if 0 \<le> i \<and> nat i < length xs then Inr (xs ! nat i) else Inl OutOfBounds)"

definition nonnull :: "'a option \<Rightarrow> 'a outcome" where
  "nonnull p = (case p of None \<Rightarrow> Inl NullDeref | Some x \<Rightarrow> Inr x)"

definition put_slot :: "'a list \<Rightarrow> int \<Rightarrow> 'a \<Rightarrow> 'a list outcome" where
  "put_slot xs i x = (if 0 \<le> i \<and> nat i < length xs then Inr (xs[nat i := x]) else Inl OutOfBounds)"

lemma slot_nat [simp]: "slot xs (int k) = (if k < length xs then Inr (xs ! k) else Inl OutOfBounds)"
  by (simp add: slot_def)

lemma nonnull_simps [simp, c_simps]:
  "nonnull None = Inl NullDeref"
  "nonnull (Some x) = Inr x"
  by (simp_all add: nonnull_def)

lemma put_slot_nat [simp]:
  "put_slot xs (int k) x = (if k < length xs then Inr (xs[k := x]) else Inl OutOfBounds)"
  by (simp add: put_slot_def)

section \<open>Lists\<close>

lemma length_dropWhile_hd:
  "xs \<noteq> [] \<Longrightarrow> P (hd xs) \<Longrightarrow> length (dropWhile P xs) < length xs"
  by (cases xs) (simp_all add: le_imp_less_Suc length_dropWhile_le)

lemma set_dropWhileD': "x \<in> set (dropWhile P xs) \<Longrightarrow> x \<in> set xs"
  by (induction xs) (auto split: if_splits)

lemma dropWhile_hd: "dropWhile P xs = y # ys \<Longrightarrow> \<not> P y"
  by (induction xs) (auto split: if_splits)

lemma takeWhile_nonempty: "P x \<Longrightarrow> takeWhile P (x # xs) \<noteq> []"
  by simp

lemma takeWhile_dropWhile_nil [simp]: "takeWhile P (dropWhile P xs) = []"
  by (induction xs) auto

lemma insert_at_length:
  "i \<le> length xs \<Longrightarrow> length (take i xs @ x # drop i xs) = Suc (length xs)"
  by simp

lemma last_index_take: "i < length xs \<Longrightarrow> drop i xs = xs ! i # drop (Suc i) xs"
  by (simp add: Cons_nth_drop_Suc)

section \<open>Signs\<close>

text \<open>The idiom \<open>(rc > 0 ? 1 : rc < 0 ? -1 : 0)\<close>.\<close>

definition strict_sign :: "int \<Rightarrow> int" where
  "strict_sign rc = (if rc > 0 then 1 else if rc < 0 then -1 else 0)"

lemma strict_sign_sgn: "strict_sign rc = sgn rc"
  by (simp add: strict_sign_def sgn_if)

lemma sgn_eq_iff:
  "sgn (x::int) = sgn y \<longleftrightarrow> (x < 0 \<longleftrightarrow> y < 0) \<and> (x > 0 \<longleftrightarrow> y > 0)"
  by (auto simp: sgn_if split: if_splits)

end
