(* ===== verification/CLib.thy ===== *)
theory CLib
  imports Prelude
begin

unbundle bit_operations_syntax

text \<open>
  The part of the C library and of \<open>rpmio/rpmiotypes.h\<close> and \<open>rpmio/strcasecmp.c\<close> that the
  components call: character classes, string comparison, \<open>qsort\<close> and \<open>bsearch\<close>, and the
  contract of a comparison function (the locale \<open>comparator\<close>) under which the two do what
  their callers expect.

  A C string is a \<open>string\<close> without its terminating NUL; a pointer into a string is the
  suffix it points at, so \<open>*p\<close> is \<open>deref p\<close>, 0 at the end. \<open>char\<close> is signed, as on
  the platforms the program targets; the comparisons of the C library read it unsigned.
  The value of \<open>strcmp\<close> and \<open>strncmp\<close> is fixed by the standard up to its sign only.
\<close>

section \<open>Characters\<close>

abbreviation NUL :: char where "NUL \<equiv> CHR 0x00"

definition cval :: "char \<Rightarrow> int" where
  "cval c = (if of_char c < (128::int) then of_char c else of_char c - 256)"

definition uval :: "char \<Rightarrow> int" where
  "uval c = of_char c"

fun deref :: "string \<Rightarrow> int" where
  "deref [] = 0"
| "deref (c # _) = cval c"

definition deref_at :: "string \<Rightarrow> nat \<Rightarrow> int" where
  "deref_at s n = deref (drop n s)"

lemma of_char_bounds: "0 \<le> (of_char c :: int)" "(of_char c :: int) < 256"
  by (cases c; simp add: of_char_def horner_sum_simps of_bool_def)+

lemma uval_bounds: "0 \<le> uval c" "uval c < 256"
  by (simp_all add: uval_def of_char_bounds)

lemma uval_inject [simp]: "uval a = uval b \<longleftrightarrow> a = b"
  by (simp add: uval_def)

lemma cval_inject [simp]: "cval a = cval b \<longleftrightarrow> a = b"
  using of_char_bounds[of a] of_char_bounds[of b]
  by (auto simp: cval_def split: if_splits)

subsection \<open>The character classes of rpmiotypes.h\<close>

definition xislower :: "int \<Rightarrow> bool" where
  "xislower c \<longleftrightarrow> c \<ge> 97 \<and> c \<le> 122"

definition xisupper :: "int \<Rightarrow> bool" where
  "xisupper c \<longleftrightarrow> c \<ge> 65 \<and> c \<le> 90"

definition xisalpha :: "int \<Rightarrow> bool" where
  "xisalpha c \<longleftrightarrow> xislower c \<or> xisupper c"

definition xisdigit :: "int \<Rightarrow> bool" where
  "xisdigit c \<longleftrightarrow> c \<ge> 48 \<and> c \<le> 57"

definition xisalnum :: "int \<Rightarrow> bool" where
  "xisalnum c \<longleftrightarrow> xisalpha c \<or> xisdigit c"

definition xisblank :: "int \<Rightarrow> bool" where
  "xisblank c \<longleftrightarrow> c = 32 \<or> c = 9"

definition xisspace :: "int \<Rightarrow> bool" where
  "xisspace c \<longleftrightarrow> xisblank c \<or> c = 10 \<or> c = 13 \<or> c = 12 \<or> c = 11"

definition xisascii :: "int \<Rightarrow> bool" where
  "xisascii c \<longleftrightarrow> (c AND 128) \<noteq> 128"

definition xisgraph :: "int \<Rightarrow> bool" where
  "xisgraph c \<longleftrightarrow> c > 32 \<and> xisascii c"

definition xispunct :: "int \<Rightarrow> bool" where
  "xispunct c \<longleftrightarrow> xisgraph c \<and> \<not> xisalnum c"

definition xtolower :: "int \<Rightarrow> int" where
  "xtolower c = (if xisupper c then c OR 32 else c)"

definition xtoupper :: "int \<Rightarrow> int" where
  "xtoupper c = (if xislower c then c AND NOT 32 else c)"

lemmas xis_defs = xislower_def xisupper_def xisalpha_def xisdigit_def xisalnum_def
  xisblank_def xisspace_def

lemma xisdigit_0 [simp]: "\<not> xisdigit 0"
  and xisalpha_0 [simp]: "\<not> xisalpha 0"
  and xispunct_0 [simp]: "\<not> xispunct 0"
  by (simp_all add: xis_defs xispunct_def xisgraph_def)

lemma dig_uval: "xisdigit (cval c) \<Longrightarrow> cval c = uval c \<and> 48 \<le> uval c \<and> uval c \<le> 57"
  using of_char_bounds[of c] by (simp add: xisdigit_def cval_def uval_def split: if_splits)

section \<open>Strings\<close>

fun strcmp :: "string \<Rightarrow> string \<Rightarrow> int" where
  "strcmp [] [] = 0"
| "strcmp [] (b # bs) = -1"
| "strcmp (a # as) [] = 1"
| "strcmp (a # as) (b # bs) = (if a = b then strcmp as bs else uval a - uval b)"

fun strncmp :: "string \<Rightarrow> string \<Rightarrow> nat \<Rightarrow> int" where
  "strncmp as bs 0 = 0"
| "strncmp [] [] (Suc n) = 0"
| "strncmp [] (b # bs) (Suc n) = -1"
| "strncmp (a # as) [] (Suc n) = 1"
| "strncmp (a # as) (b # bs) (Suc n) = (if a = b then strncmp as bs n else uval a - uval b)"

text \<open>\<open>xstrcasecmp\<close> and \<open>xstrncasecmp\<close>: the loop over both strings, with \<open>xtolower\<close>
  applied to each character; the identity test on the pointers only saves the loop.\<close>

fun xstrcasecmp :: "string \<Rightarrow> string \<Rightarrow> int" where
  "xstrcasecmp s1 s2 =
     (let c1 = xtolower (deref s1); c2 = xtolower (deref s2) in
      if s1 = [] \<or> c1 \<noteq> c2 then c1 - c2
      else xstrcasecmp (tl s1) (tl s2))"

declare xstrcasecmp.simps [simp del]

fun xstrncasecmp :: "string \<Rightarrow> string \<Rightarrow> nat \<Rightarrow> int" where
  "xstrncasecmp s1 s2 0 = 0"
| "xstrncasecmp s1 s2 (Suc n) =
     (let c1 = xtolower (deref s1); c2 = xtolower (deref s2) in
      if s1 = [] \<or> c1 \<noteq> c2 \<or> n = 0 then c1 - c2
      else xstrncasecmp (tl s1) (tl s2) n)"

fun strchr :: "string \<Rightarrow> char \<Rightarrow> string option" where
  "strchr [] c = None"
| "strchr (x # xs) c = (if x = c then Some (x # xs) else strchr xs c)"

fun strrchr :: "string \<Rightarrow> char \<Rightarrow> string option" where
  "strrchr [] c = None"
| "strrchr (x # xs) c =
     (case strrchr xs c of Some p \<Rightarrow> Some p | None \<Rightarrow> if x = c then Some (x # xs) else None)"

lemma strcmp_eq_0 [simp]: "strcmp a b = 0 \<longleftrightarrow> a = b"
  by (induction a b rule: strcmp.induct) auto

lemma strcmp_refl [simp]: "strcmp a a = 0"
  by simp

lemma strcmp_antisym: "strcmp b a < 0 \<longleftrightarrow> strcmp a b > 0"
  by (induction a b rule: strcmp.induct) auto

lemma strcmp_trans: "strcmp a b \<le> 0 \<Longrightarrow> strcmp b c \<le> 0 \<Longrightarrow> strcmp a c \<le> 0"
proof (induction a b arbitrary: c rule: strcmp.induct)
  case (4 a as b bs)
  then show ?case by (cases c) (auto split: if_splits)
qed (auto, (case_tac c; simp)+)

lemma strncmp_full: "length a \<le> n \<Longrightarrow> length b \<le> n \<Longrightarrow> strncmp a b n = strcmp a b"
  by (induction a b n rule: strncmp.induct) auto

lemma strncmp_take: "strncmp a b n = strcmp (take n a) (take n b)"
  by (induction a b n rule: strncmp.induct) auto

lemma strchr_split: "strchr s c = Some p \<Longrightarrow> \<exists>pre. s = pre @ p \<and> hd p = c \<and> p \<noteq> [] \<and> c \<notin> set pre"
proof (induction s)
  case (Cons x xs)
  then show ?case by (cases "x = c") (force intro: exI[of _ "[]"] exI[of _ "x # _"])+
qed simp

lemma strchr_None: "strchr s c = None \<longleftrightarrow> c \<notin> set s"
  by (induction s) auto

subsection \<open>Numbers in strings\<close>

text \<open>The digits read by \<open>strtoul(s, NULL, 10)\<close> and \<open>atol\<close>: white space, an optional sign, digits.\<close>

fun digits_val :: "nat \<Rightarrow> string \<Rightarrow> nat" where
  "digits_val acc [] = acc"
| "digits_val acc (c # cs) =
     (if xisdigit (cval c) then digits_val (acc * 10 + nat (cval c - 48)) cs else acc)"

definition strip_sign :: "string \<Rightarrow> bool \<times> string" where
  "strip_sign s =
     (let s' = dropWhile (\<lambda>c. xisspace (cval c)) s in
      case s' of [] \<Rightarrow> (False, [])
      | c # cs \<Rightarrow> if c = CHR ''-'' then (True, cs) else if c = CHR ''+'' then (False, cs) else (False, s'))"

definition strtoul10 :: "string \<Rightarrow> u64" where
  "strtoul10 s =
     (let (neg, ds) = strip_sign s; v = digits_val 0 ds in
      if int v \<ge> 2 ^ 64 then - 1
      else if neg then - of_nat v else of_nat v)"

definition atol :: "string \<Rightarrow> int" where
  "atol s =
     (let (neg, ds) = strip_sign s; v = int (digits_val 0 ds) in
      if neg then max (- v) (- (2 ^ 63)) else min v (2 ^ 63 - 1))"

text \<open>The digits that \<open>%d\<close> and \<open>%lu\<close> print.\<close>

fun dec :: "nat \<Rightarrow> string" where
  "dec n = (if n < 10 then [char_of (48 + n)] else dec (n div 10) @ [char_of (48 + n mod 10)])"

declare dec.simps [simp del]

definition dec_int :: "int \<Rightarrow> string" where
  "dec_int i = (if i < 0 then CHR ''-'' # dec (nat (- i)) else dec (nat i))"

end
