(* ===== verification/Cmp.thy ===== *)
theory Cmp
  imports CLib
begin

text \<open>
  Three-way comparison functions, and \<open>qsort\<close> and \<open>bsearch\<close> over them. The locale
  \<open>comparator\<close> is the contract that the C standard asks of the function passed to
  \<open>qsort\<close> and \<open>bsearch\<close>; the components that sort or search discharge it for their own
  comparison function and obtain the facts proved here.

  The order in which \<open>qsort\<close> leaves elements that compare equal is unspecified in C. The
  model keeps their original order; no property below depends on that choice.
\<close>

section \<open>qsort and bsearch\<close>

fun insertc :: "('a \<Rightarrow> 'a \<Rightarrow> int) \<Rightarrow> 'a \<Rightarrow> 'a list \<Rightarrow> 'a list" where
  "insertc cmp x [] = [x]"
| "insertc cmp x (y # ys) = (if cmp x y \<le> 0 then x # y # ys else y # insertc cmp x ys)"

definition qsort :: "('a \<Rightarrow> 'a \<Rightarrow> int) \<Rightarrow> 'a list \<Rightarrow> 'a list" where
  "qsort cmp xs = foldr (insertc cmp) xs []"

text \<open>The search of the C library: probe the middle of \<open>[l, u)\<close>.\<close>

function bsearch_loop :: "('k \<Rightarrow> 'a \<Rightarrow> int) \<Rightarrow> 'k \<Rightarrow> 'a list \<Rightarrow> nat \<Rightarrow> nat \<Rightarrow> nat option" where
  "bsearch_loop cmp key xs l u =
     (if l < u then
        let idx = (l + u) div 2; c = cmp key (xs ! idx) in
        if c < 0 then bsearch_loop cmp key xs l idx
        else if c > 0 then bsearch_loop cmp key xs (Suc idx) u
        else Some idx
      else None)"
  by pat_completeness auto
termination
  by (relation "measure (\<lambda>(cmp, key, xs, l, u). u - l)") auto

declare bsearch_loop.simps [simp del]

definition bsearch :: "('k \<Rightarrow> 'a \<Rightarrow> int) \<Rightarrow> 'k \<Rightarrow> 'a list \<Rightarrow> nat option" where
  "bsearch cmp key xs = bsearch_loop cmp key xs 0 (length xs)"

lemma mset_insertc [simp]: "mset (insertc cmp x ys) = add_mset x (mset ys)"
  by (induction ys) auto

lemma set_insertc [simp]: "set (insertc cmp x ys) = insert x (set ys)"
  by (induction ys) auto

lemma mset_qsort [simp]: "mset (qsort cmp xs) = mset xs"
  by (induction xs) (auto simp: qsort_def)

lemma set_qsort [simp]: "set (qsort cmp xs) = set xs"
  by (metis mset_qsort set_mset_mset)

lemma length_qsort [simp]: "length (qsort cmp xs) = length xs"
  by (metis mset_qsort size_mset)

lemma bsearch_loop_Some:
  "bsearch_loop cmp key xs l u = Some i \<Longrightarrow> l \<le> i \<and> i < u \<and> cmp key (xs ! i) = 0"
proof (induction cmp key xs l u rule: bsearch_loop.induct)
  case (1 cmp key xs l u)
  show ?case
  proof (cases "l < u")
    case True
    with "1.prems" show ?thesis
      using "1.IH"[OF True refl refl]
      by (subst (asm) bsearch_loop.simps) (auto simp: Let_def split: if_splits)
  next
    case False
    with "1.prems" show ?thesis by (subst (asm) bsearch_loop.simps) simp
  qed
qed

lemma bsearch_Some: "bsearch cmp key xs = Some i \<Longrightarrow> i < length xs \<and> cmp key (xs ! i) = 0"
  using bsearch_loop_Some unfolding bsearch_def by fastforce

text \<open>The search depends on the signs of the comparisons only.\<close>

lemma bsearch_loop_cong:
  "u \<le> length xs \<Longrightarrow> length ys = length xs \<Longrightarrow>
     \<forall>i<length xs. sgn (cmp key (xs ! i)) = sgn (cmp' key' (ys ! i)) \<Longrightarrow>
     bsearch_loop cmp key xs l u = bsearch_loop cmp' key' ys l u"
proof (induction cmp key xs l u rule: bsearch_loop.induct)
  case (1 cmp key xs l u)
  show ?case
  proof (cases "l < u")
    case True
    let ?m = "(l + u) div 2"
    have m: "?m < length xs" using True 1(3) by auto
    have s: "cmp key (xs ! ?m) < 0 \<longleftrightarrow> cmp' key' (ys ! ?m) < 0" "cmp key (xs ! ?m) > 0 \<longleftrightarrow> cmp' key' (ys ! ?m) > 0"
      using 1(5) m sgn_eq_iff by blast+
    have "cmp key (xs ! ?m) < 0 \<Longrightarrow> bsearch_loop cmp key xs l ?m = bsearch_loop cmp' key' ys l ?m"
      by (rule "1.IH"(1)[OF True refl refl]) (use 1(3-5) True in auto)
    moreover have "\<not> cmp key (xs ! ?m) < 0 \<Longrightarrow> cmp key (xs ! ?m) > 0 \<Longrightarrow>
        bsearch_loop cmp key xs (Suc ?m) u = bsearch_loop cmp' key' ys (Suc ?m) u"
      by (rule "1.IH"(2)[OF True refl refl]) (use 1(3-5) in auto)
    ultimately show ?thesis
      using True s by (simp add: Let_def bsearch_loop.simps[of cmp key xs l u] bsearch_loop.simps[of cmp' key' ys l u])
  next
    case False
    then show ?thesis
      by (simp add: bsearch_loop.simps[of cmp key xs l u] bsearch_loop.simps[of cmp' key' ys l u])
  qed
qed

lemma bsearch_cong:
  "length ys = length xs \<Longrightarrow> \<forall>i<length xs. sgn (cmp key (xs ! i)) = sgn (cmp' key' (ys ! i)) \<Longrightarrow>
     bsearch cmp key xs = bsearch cmp' key' ys"
  unfolding bsearch_def using bsearch_loop_cong[of "length xs" xs ys] by simp

section \<open>The contract of a comparison function\<close>

locale comparator =
  fixes cmp :: "'a \<Rightarrow> 'a \<Rightarrow> int"
    and dom :: "'a \<Rightarrow> bool"
  assumes anti: "dom a \<Longrightarrow> dom b \<Longrightarrow> cmp b a < 0 \<longleftrightarrow> cmp a b > 0"
    and trans: "dom a \<Longrightarrow> dom b \<Longrightarrow> dom c \<Longrightarrow> cmp a b \<le> 0 \<Longrightarrow> cmp b c \<le> 0 \<Longrightarrow> cmp a c \<le> 0"
begin

definition ordered :: "'a list \<Rightarrow> bool" where
  "ordered xs \<longleftrightarrow> sorted_wrt (\<lambda>x y. cmp x y \<le> 0) xs"

lemma refl_0: "dom a \<Longrightarrow> cmp a a = 0"
  using anti[of a a] by linarith

lemma eq_sym: "dom a \<Longrightarrow> dom b \<Longrightarrow> cmp a b = 0 \<Longrightarrow> cmp b a = 0"
  using anti[of a b] anti[of b a] by linarith

lemma sgn_anti: "dom a \<Longrightarrow> dom b \<Longrightarrow> sgn (cmp b a) = - sgn (cmp a b)"
  using anti[of a b] anti[of b a] by (auto simp: sgn_if)

lemma total: "dom a \<Longrightarrow> dom b \<Longrightarrow> cmp a b \<le> 0 \<or> cmp b a \<le> 0"
  using anti[of a b] by linarith

lemma ge_trans: "dom a \<Longrightarrow> dom b \<Longrightarrow> dom c \<Longrightarrow> cmp a b \<ge> 0 \<Longrightarrow> cmp b c \<ge> 0 \<Longrightarrow> cmp a c \<ge> 0"
  using anti trans by (metis linorder_not_less)

lemma less_le_trans: "dom a \<Longrightarrow> dom b \<Longrightarrow> dom c \<Longrightarrow> cmp a b < 0 \<Longrightarrow> cmp b c \<le> 0 \<Longrightarrow> cmp a c < 0"
  using anti trans by (metis linorder_not_less)

lemma le_less_trans: "dom a \<Longrightarrow> dom b \<Longrightarrow> dom c \<Longrightarrow> cmp a b \<le> 0 \<Longrightarrow> cmp b c < 0 \<Longrightarrow> cmp a c < 0"
  using anti trans by (metis linorder_not_less)

lemma eq_trans: "dom a \<Longrightarrow> dom b \<Longrightarrow> dom c \<Longrightarrow> cmp a b = 0 \<Longrightarrow> cmp b c = 0 \<Longrightarrow> cmp a c = 0"
  using ge_trans[of a b c] trans[of a b c] by simp

lemma eq_cong: "dom a \<Longrightarrow> dom b \<Longrightarrow> dom c \<Longrightarrow> cmp a b = 0 \<Longrightarrow> sgn (cmp a c) = sgn (cmp b c)"
  using eq_sym[of a b] less_le_trans[of c a b] trans[of a b c] trans[of b a c]
    ge_trans[of a b c] ge_trans[of b a c] by (force simp: sgn_if)

lemma ordered_insertc:
  "dom x \<Longrightarrow> \<forall>y\<in>set ys. dom y \<Longrightarrow> ordered ys \<Longrightarrow> ordered (insertc cmp x ys)"
proof (induction ys)
  case (Cons y ys)
  show ?case
  proof (cases "cmp x y \<le> 0")
    case True
    with Cons.prems show ?thesis by (auto simp: ordered_def intro: trans)
  next
    case False
    then have "cmp y x \<le> 0" using Cons.prems anti[of x y] by auto
    with False Cons show ?thesis by (auto simp: ordered_def)
  qed
qed (simp add: ordered_def)

lemma ordered_qsort: "\<forall>x\<in>set xs. dom x \<Longrightarrow> ordered (qsort cmp xs)"
proof (induction xs)
  case (Cons x xs)
  then have "ordered (insertc cmp x (qsort cmp xs))"
    by (intro ordered_insertc) auto
  then show ?case by (simp add: qsort_def)
qed (simp add: qsort_def ordered_def)

lemma bsearch_loop_complete:
  assumes "\<forall>x\<in>set xs. dom x" "dom key" "ordered xs" "u \<le> length xs"
    and "l \<le> i" "i < u" "cmp key (xs ! i) = 0"
  shows "bsearch_loop cmp key xs l u \<noteq> None"
  using assms
proof (induction cmp\<equiv>cmp key xs l u rule: bsearch_loop.induct)
  case (1 key xs l u)
  let ?m = "(l + u) div 2"
  have m: "l < u" "?m < u" "?m < length xs" "i < length xs" using "1.prems" by auto
  have d: "dom (xs ! ?m)" "dom (xs ! i)" using "1.prems"(1) m by auto
  consider "cmp key (xs ! ?m) < 0" | "cmp key (xs ! ?m) > 0" | "cmp key (xs ! ?m) = 0" by linarith
  then show ?case
  proof cases
    case 1
    have "i < ?m"
    proof (rule ccontr)
      assume "\<not> i < ?m"
      then have "cmp (xs ! ?m) (xs ! i) \<le> 0"
        using "1.prems"(3) m d refl_0
        by (cases "i = ?m") (auto simp: ordered_def sorted_wrt_iff_nth_less)
      then have "cmp key (xs ! i) < 0" using less_le_trans[of key "xs ! ?m" "xs ! i"] 1 d \<open>dom key\<close> by blast
      then show False using "1.prems" by simp
    qed
    then have "bsearch_loop cmp key xs l ?m \<noteq> None"
      using "1.hyps"(1)[OF m(1) refl refl 1] "1.prems" m by auto
    with m 1 show ?thesis by (subst bsearch_loop.simps) (simp add: Let_def)
  next
    case 2
    have "?m < i"
    proof (rule ccontr)
      assume "\<not> ?m < i"
      then have le: "cmp (xs ! i) (xs ! ?m) \<le> 0"
        using "1.prems"(3) m d refl_0
        by (cases "i = ?m") (auto simp: ordered_def sorted_wrt_iff_nth_less)
      have "cmp key (xs ! ?m) \<le> 0"
        using trans[OF \<open>dom key\<close> d(2) d(1) _ le] "1.prems" by simp
      then show False using 2 by simp
    qed
    then have "bsearch_loop cmp key xs (Suc ?m) u \<noteq> None"
      using "1.hyps"(2)[OF m(1) refl refl _ 2] 2 "1.prems" m by auto
    with m 2 show ?thesis by (subst bsearch_loop.simps) (simp add: Let_def)
  next
    case 3
    with m show ?thesis by (subst bsearch_loop.simps) (simp add: Let_def)
  qed
qed

lemma bsearch_finds:
  assumes "\<forall>x\<in>set xs. dom x" "dom key" "ordered xs"
  shows "(\<exists>i. bsearch cmp key xs = Some i) \<longleftrightarrow> (\<exists>x\<in>set xs. cmp key x = 0)"
proof
  assume "\<exists>i. bsearch cmp key xs = Some i"
  then show "\<exists>x\<in>set xs. cmp key x = 0" using bsearch_Some by (metis nth_mem)
next
  assume "\<exists>x\<in>set xs. cmp key x = 0"
  then obtain i where "i < length xs" "cmp key (xs ! i) = 0" by (auto simp: in_set_conv_nth)
  then show "\<exists>i. bsearch cmp key xs = Some i"
    unfolding bsearch_def using bsearch_loop_complete[OF assms order_refl, of 0 i] by auto
qed

end

text \<open>Where comparing equal is being equal, the sorted list is unique up to nothing.\<close>

locale eq_comparator = comparator +
  assumes eq: "dom a \<Longrightarrow> dom b \<Longrightarrow> cmp a b = 0 \<Longrightarrow> a = b"
begin

lemma bsearch_mem:
  assumes "\<forall>x\<in>set xs. dom x" "dom key" "ordered xs"
  shows "(\<exists>i. bsearch cmp key xs = Some i) \<longleftrightarrow> key \<in> set xs"
  using bsearch_finds[OF assms] assms(1,2) eq refl_0 by metis

lemma ordered_unique:
  assumes "ordered xs" "ordered ys" "mset xs = mset ys" "\<forall>x\<in>set xs. dom x"
  shows "xs = ys"
  using assms
proof (induction xs arbitrary: ys)
  case (Cons x xs)
  then obtain y ys' where ys: "ys = y # ys'" by (cases ys) auto
  have doms: "\<forall>z\<in>set ys. dom z" using Cons.prems by (metis set_mset_mset)
  have "x \<in> set ys" "y \<in> set (x # xs)" using Cons.prems ys by (metis list.set_intros(1) set_mset_mset)+
  then have "x = y \<or> (cmp x y \<le> 0 \<and> cmp y x \<le> 0)"
    using Cons.prems ys by (auto simp: ordered_def)
  moreover have "dom x" "dom y" using Cons.prems(4) doms ys by auto
  ultimately have "x = y" using eq[of x y] anti[of x y] anti[of y x] by (cases "x = y") auto
  then show ?case using Cons ys by (auto simp: ordered_def)
qed simp

end

section \<open>Lexicographic comparison\<close>

text \<open>The idiom \<open>rc = cmp1(...); if (rc == 0) rc = cmp2(...);\<close> keeps the contract.\<close>

fun lexcmp :: "('a \<Rightarrow> 'a \<Rightarrow> int) \<Rightarrow> ('b \<Rightarrow> 'b \<Rightarrow> int) \<Rightarrow> 'a \<times> 'b \<Rightarrow> 'a \<times> 'b \<Rightarrow> int" where
  "lexcmp c d (a, b) (a', b') = (if c a a' \<noteq> 0 then c a a' else d b b')"

lemma comparator_lexcmp [cmp_intros]:
  assumes "comparator c p" "comparator d q"
  shows "comparator (lexcmp c d) (\<lambda>(a, b). p a \<and> q b)"
proof (unfold_locales, goal_cases)
  case (1 x y)
  then show ?case
    using comparator.anti[OF assms(1), of "fst x" "fst y"] comparator.anti[OF assms(1), of "fst y" "fst x"]
      comparator.anti[OF assms(2), of "snd x" "snd y"]
    by (cases x; cases y; force)
next
  case (2 x y z)
  obtain a b where x: "x = (a, b)" by (cases x)
  obtain a' b' where y: "y = (a', b')" by (cases y)
  obtain a'' b'' where z: "z = (a'', b'')" by (cases z)
  have p: "p a" "p a'" "p a''" and q: "q b" "q b'" "q b''" using 2 x y z by auto
  have le: "c a a' \<le> 0" "c a' a'' \<le> 0" using 2 x y z by (auto split: if_splits)
  have lt: "c a a'' = 0 \<Longrightarrow> c a a' = 0 \<and> c a' a'' = 0"
    using le comparator.less_le_trans[OF assms(1) p(1-3)] comparator.le_less_trans[OF assms(1) p(1-3)] by force
  show ?case
    using comparator.trans[OF assms(1) p le] lt comparator.trans[OF assms(2) q] 2 x y z by auto
qed

lemma eq_comparator_lexcmp [cmp_intros]:
  assumes "eq_comparator c p" "eq_comparator d q"
  shows "eq_comparator (lexcmp c d) (\<lambda>(a, b). p a \<and> q b)"
proof -
  have "comparator c p" "comparator d q" using assms by (auto simp: eq_comparator_def)
  then have "comparator (lexcmp c d) (\<lambda>(a, b). p a \<and> q b)" by (rule comparator_lexcmp)
  then show ?thesis
    using eq_comparator.eq[OF assms(1)] eq_comparator.eq[OF assms(2)]
    by (auto simp: eq_comparator_def eq_comparator_axioms_def split: if_splits)
qed

interpretation strc: eq_comparator strcmp "\<lambda>_. True"
  by unfold_locales (auto simp: strcmp_antisym intro: strcmp_trans)

end
