(* ===== verification/Evr.thy ===== *)
theory Evr
  imports Cmp
begin

unbundle bit_operations_syntax

text \<open>
  Epoch, version and release: \<open>rpmdb/rpmevr.c\<close> and \<open>rpmdb/rpmevr.h\<close>, in the default
  configuration (no \<open>RPM_VENDOR_*\<close> macro defined, digits compare by \<open>+1\<close>). This theory
  holds the model: the container \<open>EVR_s\<close>, the segment-wise comparison \<open>rpmEVRcmp\<close>, the
  parser \<open>rpmEVRparse\<close> over the offsets of the regular expression engine, the tuple
  comparison, the overlap test of two ranges and the parser of comparison operators.

  \<open>rpmExpand\<close> of \<open>evr_tuple_order\<close> is the argument \<open>order\<close> (\<open>''EVR''\<close> unless configured),
  and the match of the compiled pattern is the argument \<open>regexec\<close>: a function from the
  subject to the vector of group offsets.
\<close>

named_theorems sense_defs \<open>the dependency sense bits\<close>

section \<open>Sense flags\<close>

definition RPMSENSE_LESS :: u32 where [sense_defs]: "RPMSENSE_LESS = 2"
definition RPMSENSE_GREATER :: u32 where [sense_defs]: "RPMSENSE_GREATER = 4"
definition RPMSENSE_EQUAL :: u32 where [sense_defs]: "RPMSENSE_EQUAL = 8"
definition RPMSENSE_SENSEMASK :: u32 where [sense_defs]: "RPMSENSE_SENSEMASK = 14"
definition RPMSENSE_NOTEQUAL :: u32 where
  [sense_defs]: "RPMSENSE_NOTEQUAL = RPMSENSE_EQUAL XOR RPMSENSE_SENSEMASK"

abbreviation has :: "u32 \<Rightarrow> u32 \<Rightarrow> bool" where
  "has flags m \<equiv> flags AND m \<noteq> 0"

section \<open>The container\<close>

text \<open>\<open>F\<close> is the array of field pointers, indexed by the four constants; \<open>None\<close> is a null pointer.\<close>

record EVR =
  evr_str :: "string option"
  Elong :: u64
  Flags :: u32
  F :: "nat \<Rightarrow> string option"

abbreviation (input) RPMEVR_E :: nat where "RPMEVR_E \<equiv> 1"
abbreviation (input) RPMEVR_V :: nat where "RPMEVR_V \<equiv> 2"
abbreviation (input) RPMEVR_R :: nat where "RPMEVR_R \<equiv> 3"
abbreviation (input) RPMEVR_D :: nat where "RPMEVR_D \<equiv> 4"

definition rpmEVRzero :: EVR where
  "rpmEVRzero = \<lparr>evr_str = None, Elong = 0, Flags = 0, F = (\<lambda>_. None)\<rparr>"

definition rpmEVRnew :: "u32 \<Rightarrow> bool \<Rightarrow> EVR" where
  "rpmEVRnew flags initialize =
     (let evr = rpmEVRzero\<lparr>Flags := flags\<rparr> in
      if initialize then
        evr\<lparr>F := (F evr)(RPMEVR_E := Some ''0'', RPMEVR_V := Some [], RPMEVR_R := Some [], RPMEVR_D := Some [])\<rparr>
      else evr)"

section \<open>Segment-wise comparison\<close>

definition rpmnotalpha :: string where "rpmnotalpha = ''.:-''"

definition xisrpmalpha :: "char \<Rightarrow> bool" where
  "xisrpmalpha c =
     (let rc = xisalpha (cval c);
          rc = (if \<not> rc then xispunct (cval c) else rc)
      in if rc \<and> rpmnotalpha \<noteq> [] then strchr rpmnotalpha c = None else rc)"

abbreviation dig :: "char \<Rightarrow> bool" where "dig c \<equiv> xisdigit (cval c)"

text \<open>The first loop of an iteration: skip what is neither a digit nor alphabetic.\<close>

definition evr_skip :: "string \<Rightarrow> string" where
  "evr_skip s = dropWhile (\<lambda>c. \<not> (dig c \<or> xisrpmalpha c)) s"

text \<open>\<open>while (a[0] == '0' && xisdigit(a[1])) a++;\<close>\<close>

fun evr_zeroes :: "string \<Rightarrow> string" where
  "evr_zeroes (a # b # s) = (if a = CHR ''0'' \<and> dig b then evr_zeroes (b # s) else a # b # s)"
| "evr_zeroes s = s"

text \<open>The digit string comparison: discard leading zeroes, longer wins, then digit by digit.\<close>

definition evr_digits :: "string \<Rightarrow> string \<Rightarrow> string \<times> string \<times> int" where
  "evr_digits a b =
     (let a = evr_zeroes a; b = evr_zeroes b;
          ae = dropWhile dig a; be = dropWhile dig b;
          na = length a - length ae; nb = length b - length be;
          rc = (if na = 0 \<or> nb = 0 then deref a - deref b
                else if int na - int nb \<noteq> 0 then int na - int nb
                else strncmp a b na)
      in (ae, be, rc))"

definition evr_alphas :: "string \<Rightarrow> string \<Rightarrow> string \<times> string \<times> int" where
  "evr_alphas a b =
     (let ae = dropWhile xisrpmalpha a; be = dropWhile xisrpmalpha b
      in (ae, be, strncmp a b (max (length a - length ae) (length b - length be))))"

text \<open>
  One iteration of the loop: from \<open>a\<close>, \<open>b\<close> and the pointers \<open>ae\<close>, \<open>be\<close> left by the iteration
  before (null at first), the new \<open>ae\<close>, \<open>be\<close> and \<open>rc\<close>. The wildcard branches set one of
  the two pointers only.
\<close>

definition evr_segment ::
    "string \<Rightarrow> string \<Rightarrow> string option \<Rightarrow> string option \<Rightarrow> string option \<times> string option \<times> int" where
  "evr_segment a b ae be =
     (let a = evr_skip a; b = evr_skip b in
      if a = ''*'' then (ae, Some [], 0)
      else if b = ''*'' then (Some [], be, 0)
      else if xisdigit (deref a) \<or> xisdigit (deref b) then
        (case evr_digits a b of (ae, be, rc) \<Rightarrow> (Some ae, Some be, rc))
      else
        (case evr_alphas a b of (ae, be, rc) \<Rightarrow> (Some ae, Some be, rc)))"

definition evr_measure :: "string option \<Rightarrow> string option \<Rightarrow> int \<Rightarrow> nat" where
  "evr_measure a b rc =
     (case (a, b) of
        (Some sa, Some sb) \<Rightarrow> if sa = [] \<or> sb = [] \<or> rc \<noteq> 0 then 0 else length sa + length sb
      | _ \<Rightarrow> 0)"

lemma length_evr_zeroes_le: "length (evr_zeroes s) \<le> length s"
  by (induction s rule: evr_zeroes.induct) auto

lemma length_evr_skip_le: "length (evr_skip s) \<le> length s"
  by (simp add: evr_skip_def length_dropWhile_le)

lemma digit_evr_zeroes [simp]: "xisdigit (deref (evr_zeroes s)) = xisdigit (deref s)"
  by (induction s rule: evr_zeroes.induct) (auto simp: xisdigit_def cval_def)

lemma run_empty: "length s - length (dropWhile P s) = 0 \<longleftrightarrow> s = [] \<or> \<not> P (hd s)"
  by (cases s) (auto simp: Suc_diff_le length_dropWhile_le not_less_eq_eq[symmetric])

lemma deref_hd: "s \<noteq> [] \<Longrightarrow> deref s = cval (hd s)"
  by (cases s) auto

lemma digit_run: "length s - length (dropWhile dig s) = 0 \<longleftrightarrow> \<not> xisdigit (deref s)"
  unfolding run_empty by (cases s) auto

lemma evr_digits_decreases:
  assumes "evr_digits a b = (ae, be, 0)" "xisdigit (deref a) \<or> xisdigit (deref b)"
  shows "length ae < length a \<and> length be < length b"
proof -
  let ?a = "evr_zeroes a" and ?b = "evr_zeroes b"
  have e: "ae = dropWhile dig ?a" "be = dropWhile dig ?b"
    and rc: "(if \<not> xisdigit (deref a) \<or> \<not> xisdigit (deref b) then deref ?a - deref ?b = 0 else True)"
    using assms(1) unfolding evr_digits_def Let_def digit_run by (auto split: if_splits)
  have both: "xisdigit (deref a) \<and> xisdigit (deref b)"
    using rc assms(2) digit_evr_zeroes[of a] digit_evr_zeroes[of b]
    by (metis diff_eq_diff_eq diff_self eq_iff_diff_eq_0)
  then have "length ae < length ?a" "length be < length ?b"
    using e digit_run[of ?a] digit_run[of ?b] by auto
  then show ?thesis using length_evr_zeroes_le le_trans less_le_trans by blast
qed

lemma evr_skip_alpha: "\<not> xisdigit (deref (evr_skip s)) \<Longrightarrow> evr_skip s = [] \<or> xisrpmalpha (hd (evr_skip s))"
  by (cases "evr_skip s") (auto simp: evr_skip_def dest: dropWhile_hd)

lemma alpha_run:
  "\<not> xisdigit (deref (evr_skip s)) \<Longrightarrow>
     dropWhile xisrpmalpha (evr_skip s) = [] \<or> length (dropWhile xisrpmalpha (evr_skip s)) < length s"
  using evr_skip_alpha[of s] length_dropWhile_hd[of "evr_skip s" xisrpmalpha] length_evr_skip_le[of s]
  by (metis dropWhile.simps(1) less_le_trans)

lemma evr_segment_decreases:
  assumes ne: "sa \<noteq> []" "sb \<noteq> []"
    and step: "evr_segment sa sb ae be = (ae', be', rc)"
  shows "evr_measure ae' be' rc < length sa + length sb"
proof -
  have pos: "0 < length sa + length sb" using ne by simp
  let ?a = "evr_skip sa" and ?b = "evr_skip sb"
  consider (wild) "?a = ''*'' \<or> ?b = ''*''"
    | (digit) "?a \<noteq> ''*''" "?b \<noteq> ''*''" "xisdigit (deref ?a) \<or> xisdigit (deref ?b)"
    | (alpha) "?a \<noteq> ''*''" "?b \<noteq> ''*''" "\<not> xisdigit (deref ?a)" "\<not> xisdigit (deref ?b)"
    by blast
  then show ?thesis
  proof cases
    case wild
    then have "ae' = Some [] \<or> be' = Some []"
      using step unfolding evr_segment_def Let_def by (simp split: if_splits)
    then show ?thesis using pos by (auto simp: evr_measure_def split: option.splits)
  next
    case digit
    obtain x y r where d: "evr_digits ?a ?b = (x, y, r)" by (cases "evr_digits ?a ?b")
    with digit step have "ae' = Some x" "be' = Some y" "rc = r"
      unfolding evr_segment_def Let_def by simp_all
    then show ?thesis
      using d digit(3) pos evr_digits_decreases[of ?a ?b x y]
        length_evr_skip_le[of sa] length_evr_skip_le[of sb]
      by (auto simp: evr_measure_def)
  next
    case alpha
    have "ae' = Some (dropWhile xisrpmalpha ?a)" "be' = Some (dropWhile xisrpmalpha ?b)"
      using alpha step unfolding evr_segment_def evr_alphas_def Let_def by simp_all
    then show ?thesis
      using pos alpha_run[OF alpha(3)] length_evr_skip_le[of sb]
        length_dropWhile_le[of xisrpmalpha ?b]
      by (auto simp: evr_measure_def)
  qed
qed

lemma evr_step_measure:
  "(ae', be', rc') = evr_segment sa sb ae be \<Longrightarrow> sa \<noteq> [] \<Longrightarrow> sb \<noteq> [] \<Longrightarrow>
     evr_measure ae' be' rc' < evr_measure (Some sa) (Some sb) 0"
  using evr_segment_decreases[of sa sb ae be ae' be' rc'] by (simp add: evr_measure_def[of "Some sa"])

text \<open>
  The loop and the code after it. The condition reads \<open>*a\<close>, then \<open>*b\<close>; the final difference
  reads both. Reading through a pointer that no iteration has set is the null dereference
  that the code runs into.
\<close>

function rpmEVRcmp_loop ::
    "string option \<Rightarrow> string option \<Rightarrow> string option \<Rightarrow> string option \<Rightarrow> int \<Rightarrow> int outcome" where
  "rpmEVRcmp_loop a b ae be rc =
     (case a of None \<Rightarrow> Inl NullDeref
      | Some sa \<Rightarrow>
          if sa \<noteq> [] \<and> b = None then Inl NullDeref
          else if sa \<noteq> [] \<and> b \<noteq> Some [] \<and> rc = 0 then
            (case evr_segment sa (the b) ae be of (ae', be', rc') \<Rightarrow> rpmEVRcmp_loop ae' be' ae' be' rc')
          else if rc \<noteq> 0 then ok (strict_sign rc)
          else (case b of None \<Rightarrow> Inl NullDeref | Some sb \<Rightarrow> ok (strict_sign (deref sa - deref sb))))"
  by pat_completeness auto
termination
proof (relation "measure (\<lambda>(a, b, ae, be, rc). evr_measure a b rc)", goal_cases)
  case (2 a b ae be rc sa x y xa ya)
  then show ?case using evr_step_measure[of x xa ya sa "the b" ae be] by (cases b) (auto split: prod.split)
qed simp

declare rpmEVRcmp_loop.simps [simp del]

definition rpmEVRcmp :: "string \<Rightarrow> string \<Rightarrow> int outcome" where
  "rpmEVRcmp a b = rpmEVRcmp_loop (Some a) (Some b) None None 0"

text \<open>The dressed comparison \<open>compare_values\<close>, through the pointer \<open>rpmvercmp\<close> set to \<open>rpmEVRcmp\<close>.\<close>

definition compare_values :: "string \<Rightarrow> string \<Rightarrow> int outcome" where
  "compare_values a b = rpmEVRcmp a b"

section \<open>Parsing\<close>

text \<open>
  The subject is copied into a buffer with its terminator; for every group the regular
  expression engine reports, the field pointer is set to the start offset and a NUL is
  written at the end offset. \<open>cstr_at\<close> is what such a pointer reads as afterwards.
\<close>

definition cstr_at :: "string \<Rightarrow> nat \<Rightarrow> string" where
  "cstr_at buf off = takeWhile (\<lambda>c. c \<noteq> NUL) (drop off buf)"

fun evr_group :: "nat \<Rightarrow> nat option" where
  "evr_group i =
     (if i = 1 then Some RPMEVR_E else if i = 2 then Some RPMEVR_V
      else if i = 3 then Some RPMEVR_R else if i = 4 then Some RPMEVR_D else None)"

fun evr_groups ::
    "nat \<Rightarrow> nat \<Rightarrow> (int \<times> int) list \<Rightarrow> string \<Rightarrow> (nat \<Rightarrow> nat option) \<Rightarrow>
       (string \<times> (nat \<Rightarrow> nat option)) outcome" where
  "evr_groups nb i [] buf P = ok (buf, P)"
| "evr_groups nb i ((so, eo) # rest) buf P =
     (if so < 0 then evr_groups nb (Suc i) rest buf P
      else case evr_group i of
        None \<Rightarrow> evr_groups nb (Suc i) rest buf P
      | Some ix \<Rightarrow>
          guardC AssertFail (so \<ge> 0 \<and> so \<le> int nb)
            (guardC AssertFail (eo \<ge> 0 \<and> eo \<le> int nb)
              (evr_groups nb (Suc i) rest (buf[nat eo := NUL]) (P(ix := Some (nat so))))))"

definition evr_default :: "nat \<Rightarrow> string option \<Rightarrow> string option" where
  "evr_default ix v =
     (case v of Some x \<Rightarrow> Some x
      | None \<Rightarrow> if ix = RPMEVR_E then Some ''0'' else if ix \<in> {RPMEVR_V, RPMEVR_R, RPMEVR_D} then Some [] else None)"

definition rpmEVRparse :: "(string \<Rightarrow> (int \<times> int) list) \<Rightarrow> string \<Rightarrow> EVR outcome" where
  "rpmEVRparse regexec evrstr =
     andThen (evr_groups (length evrstr) 0 (take 9 (regexec evrstr)) (evrstr @ [NUL]) (\<lambda>_. None))
       (\<lambda>(buf, P).
          let fields = (\<lambda>ix. evr_default ix (map_option (cstr_at buf) (P ix))) in
          ok \<lparr>evr_str = Some (cstr_at buf 0), Elong = strtoul10 (the (fields RPMEVR_E)), Flags = 0, F = fields\<rparr>)"

section \<open>Tuple comparison and overlap\<close>

fun evr_tuple_index :: "char \<Rightarrow> nat option" where
  "evr_tuple_index c =
     (if c = CHR ''E'' then Some RPMEVR_E else if c = CHR ''V'' then Some RPMEVR_V
      else if c = CHR ''R'' then Some RPMEVR_R else if c = CHR ''D'' then Some RPMEVR_D else None)"

fun compare_fields :: "string \<Rightarrow> (nat \<Rightarrow> string option) \<Rightarrow> (nat \<Rightarrow> string option) \<Rightarrow> int outcome" where
  "compare_fields [] fa fb = ok 0"
| "compare_fields (c # s) fa fb =
     (case evr_tuple_index c of
        None \<Rightarrow> compare_fields s fa fb
      | Some ix \<Rightarrow>
          andThen (compare_values (the (fa ix)) (the (fb ix)))
            (\<lambda>rc. if rc \<noteq> 0 then ok rc else compare_fields s fa fb))"

definition evr_all_set :: "EVR \<Rightarrow> bool" where
  "evr_all_set e \<longleftrightarrow> F e RPMEVR_E \<noteq> None \<and> F e RPMEVR_V \<noteq> None \<and> F e RPMEVR_R \<noteq> None \<and> F e RPMEVR_D \<noteq> None"

definition rpmEVRcompare :: "string \<Rightarrow> EVR \<Rightarrow> EVR \<Rightarrow> int outcome" where
  "rpmEVRcompare order a b =
     guardC AssertFail (evr_all_set a \<and> evr_all_set b) (compare_fields order (F a) (F b))"

definition evr_fill :: "EVR \<Rightarrow> EVR" where
  "evr_fill e = e\<lparr>F := (\<lambda>ix. evr_default ix (F e ix))\<rparr>"

text \<open>The overlap of two ranges, from their flags and the sense of their comparison.\<close>

definition range_overlap :: "u32 \<Rightarrow> u32 \<Rightarrow> int \<Rightarrow> bool" where
  "range_overlap aF bF sense =
     (if aF = RPMSENSE_NOTEQUAL \<or> bF = RPMSENSE_NOTEQUAL then sense \<noteq> 0
      else if sense < 0 \<and> (has aF RPMSENSE_GREATER \<or> has bF RPMSENSE_LESS) then True
      else if sense > 0 \<and> (has aF RPMSENSE_LESS \<or> has bF RPMSENSE_GREATER) then True
      else if sense = 0 \<and>
          ((has aF RPMSENSE_EQUAL \<and> has bF RPMSENSE_EQUAL) \<or>
           (has aF RPMSENSE_LESS \<and> has bF RPMSENSE_LESS) \<or>
           (has aF RPMSENSE_GREATER \<and> has bF RPMSENSE_GREATER)) then True
      else False)"

text \<open>The missing fields of both arguments are filled in place, so both are returned.\<close>

definition rpmEVRoverlap :: "string \<Rightarrow> EVR \<Rightarrow> EVR \<Rightarrow> (bool \<times> EVR \<times> EVR) outcome" where
  "rpmEVRoverlap order a b =
     (let aF = Flags a; bF = Flags b; a = evr_fill a; b = evr_fill b in
      andThen (rpmEVRcompare order a b) (\<lambda>sense. ok (range_overlap aF bF sense, a, b)))"

section \<open>Comparison operators\<close>

definition cops :: "(string \<times> u32) list" where
  "cops =
     [(''<='', RPMSENSE_LESS XOR RPMSENSE_EQUAL), (''=<'', RPMSENSE_LESS XOR RPMSENSE_EQUAL),
      (''=='', RPMSENSE_EQUAL), (''!='', RPMSENSE_NOTEQUAL),
      (''>='', RPMSENSE_GREATER XOR RPMSENSE_EQUAL), (''=>'', RPMSENSE_GREATER XOR RPMSENSE_EQUAL),
      (''<'', RPMSENSE_LESS), (''='', RPMSENSE_EQUAL), (''>'', RPMSENSE_GREATER)]"

fun find_cop :: "(string \<times> u32) list \<Rightarrow> string \<Rightarrow> u32 \<times> string option" where
  "find_cop [] op = (0, None)"
| "find_cop ((name, sense) # rest) op =
     (if strncmp op name (length name) \<noteq> 0 then find_cop rest op
      else (sense, Some (drop (length name) op)))"

text \<open>The flags, and the value stored through \<open>end\<close> where the code stores one.\<close>

definition rpmEVRflags :: "string option \<Rightarrow> u32 \<times> string option" where
  "rpmEVRflags op =
     (case op of
        None \<Rightarrow> (RPMSENSE_EQUAL, None)
      | Some s \<Rightarrow> if s = [] then (RPMSENSE_EQUAL, None) else find_cop cops s)"

section \<open>Comparing the versions of two headers\<close>

text \<open>What \<open>headerGet\<close> returns for the four tags: \<open>None\<close> when the tag is missing.\<close>

record evr_tags =
  tag_epoch :: "u32 option"
  tag_version :: "string option"
  tag_release :: "string option"
  tag_distepoch :: "string option"

definition or_empty :: "string option \<Rightarrow> string" where
  "or_empty v = (case v of Some s \<Rightarrow> s | None \<Rightarrow> [])"

definition epoch_cmp :: "evr_tags \<Rightarrow> evr_tags \<Rightarrow> int" where
  "epoch_cmp A B =
     (let Eone = (case tag_epoch A of Some e \<Rightarrow> e | None \<Rightarrow> 0);
          Etwo = (case tag_epoch B of Some e \<Rightarrow> e | None \<Rightarrow> 0)
      in if Eone < Etwo then -1 else if Eone > Etwo then 1 else 0)"

fun rpmVersionCompare :: "string \<Rightarrow> evr_tags \<Rightarrow> evr_tags \<Rightarrow> int outcome" where
  "rpmVersionCompare [] A B = ok 0"
| "rpmVersionCompare (c # s) A B =
     (let next = (\<lambda>rc. if rc \<noteq> 0 then ok rc else rpmVersionCompare s A B) in
      if c = CHR ''E'' then next (epoch_cmp A B)
      else if c = CHR ''V'' then
        andThen (rpmEVRcmp (or_empty (tag_version A)) (or_empty (tag_version B))) next
      else if c = CHR ''R'' then
        andThen (rpmEVRcmp (or_empty (tag_release A)) (or_empty (tag_release B))) next
      else if c = CHR ''D'' then
        andThen (rpmEVRcmp (or_empty (tag_distepoch A)) (or_empty (tag_distepoch B))) next
      else rpmVersionCompare s A B)"

end
