(* ===== verification/EvrOrder.thy ===== *)
theory EvrOrder
  imports Evr
begin

text \<open>
  What \<open>rpmEVRcmp\<close> computes, as an order. A version is read as a list of tokens: the runs of
  digits without leading zeroes, the runs of alphabetic characters, and an end marker that
  remembers whether separators follow the last run. On version strings (\<open>verstr\<close>: digits,
  the separators \<open>. : -\<close>, and the printable characters above them, so letters, \<open>_\<close>, \<open>~\<close>,
  \<open>^\<close>), the segment loop never faults and computes the lexicographic order of the tokens;
  with it \<open>rpmEVRcmp\<close> satisfies the contract \<open>comparator\<close>.
\<close>

section \<open>Version strings and their tokens\<close>

definition verchar :: "char \<Rightarrow> bool" where
  "verchar c \<longleftrightarrow> dig c \<or> c \<in> set rpmnotalpha \<or> (59 \<le> cval c \<and> cval c \<le> 126)"

definition verstr :: "string \<Rightarrow> bool" where
  "verstr s \<longleftrightarrow> (\<forall>c\<in>set s. verchar c)"

datatype tok = TEnd | TSep | TNum string | TAlpha string

function evr_tokens :: "string \<Rightarrow> tok list" where
  "evr_tokens s =
     (if s = [] then [TEnd]
      else let s' = evr_skip s in
        if s' = [] then [TSep]
        else if xisdigit (deref s') then
          (let z = evr_zeroes s' in TNum (takeWhile dig z) # evr_tokens (dropWhile dig z))
        else TAlpha (takeWhile xisrpmalpha s') # evr_tokens (dropWhile xisrpmalpha s'))"
  by pat_completeness auto
termination
proof (relation "measure length", goal_cases)
  case (2 s x y)
  then have "length (dropWhile dig (evr_zeroes (evr_skip s))) < length (evr_zeroes (evr_skip s))"
    by (intro length_dropWhile_hd) (metis digit_evr_zeroes deref.simps(1) xisdigit_0, metis deref_hd digit_evr_zeroes deref.simps(1) xisdigit_0)
  then show ?case
    using 2 length_evr_zeroes_le[of "evr_skip s"] length_evr_skip_le[of s] by simp
next
  case (3 s x)
  then have "dropWhile xisrpmalpha x = [] \<or> length (dropWhile xisrpmalpha x) < length s"
    using alpha_run[of s] by simp
  with 3 show ?case by (metis in_measure length_greater_0_conv list.size(3))
qed simp

declare evr_tokens.simps [simp del]

fun tok_rank :: "tok \<Rightarrow> int" where
  "tok_rank TEnd = 0"
| "tok_rank TSep = 1"
| "tok_rank (TNum _) = 2"
| "tok_rank (TAlpha _) = 3"

definition num_cmp :: "string \<Rightarrow> string \<Rightarrow> int" where
  "num_cmp x y = (if length x \<noteq> length y then int (length x) - int (length y) else strcmp x y)"

fun tok_cmp :: "tok \<Rightarrow> tok \<Rightarrow> int" where
  "tok_cmp (TNum x) (TNum y) = num_cmp x y"
| "tok_cmp (TAlpha x) (TAlpha y) = strcmp x y"
| "tok_cmp t u = tok_rank t - tok_rank u"

fun toks_cmp :: "tok list \<Rightarrow> tok list \<Rightarrow> int" where
  "toks_cmp (t # ts) (u # us) = (if tok_cmp t u \<noteq> 0 then tok_cmp t u else toks_cmp ts us)"
| "toks_cmp [] [] = 0"
| "toks_cmp [] (u # us) = -1"
| "toks_cmp (t # ts) [] = 1"

section \<open>The order of tokens\<close>

interpretation num: eq_comparator num_cmp "\<lambda>_. True"
proof
  fix x y z :: string
  show "(num_cmp y x < 0) = (num_cmp x y > 0)"
    by (auto simp: num_cmp_def strcmp_antisym)
  show "num_cmp x y \<le> 0 \<Longrightarrow> num_cmp y z \<le> 0 \<Longrightarrow> num_cmp x z \<le> 0"
    by (auto simp: num_cmp_def split: if_splits intro: strcmp_trans)
  show "num_cmp x y = 0 \<Longrightarrow> x = y"
    by (auto simp: num_cmp_def split: if_splits)
qed

interpretation tok: eq_comparator tok_cmp "\<lambda>_. True"
proof
  fix x y z :: tok
  show "(tok_cmp y x < 0) = (tok_cmp x y > 0)"
    by (cases x; cases y) (auto simp: strcmp_antisym num.anti)
  show "tok_cmp x y \<le> 0 \<Longrightarrow> tok_cmp y z \<le> 0 \<Longrightarrow> tok_cmp x z \<le> 0"
    by (cases x; cases y; cases z) (auto intro: strcmp_trans num.trans)
  show "tok_cmp x y = 0 \<Longrightarrow> x = y"
    by (cases x; cases y) (auto intro: num.eq)
qed

interpretation toks: eq_comparator toks_cmp "\<lambda>_. True"
proof
  fix x y z :: "tok list"
  show "(toks_cmp y x < 0) = (toks_cmp x y > 0)"
  proof (induction x y rule: toks_cmp.induct)
    case (1 t ts u us)
    have "tok_cmp t u = 0 \<longleftrightarrow> tok_cmp u t = 0" using tok.eq tok.refl_0 by blast
    then show ?case using 1 tok.anti[of t u] tok.anti[of u t] by (cases "tok_cmp t u = 0") auto
  qed simp_all
  show "toks_cmp x y = 0 \<Longrightarrow> x = y"
  proof (induction x y rule: toks_cmp.induct)
    case (1 t ts u us)
    then show ?case using tok.eq[of t u] by (cases "tok_cmp t u = 0") simp_all
  qed simp_all
  show "toks_cmp x y \<le> 0 \<Longrightarrow> toks_cmp y z \<le> 0 \<Longrightarrow> toks_cmp x z \<le> 0"
  proof (induction x y arbitrary: z rule: toks_cmp.induct)
    case (1 t ts u us)
    show ?case
    proof (cases z)
      case (Cons v vs)
      show ?thesis
      proof (cases "t = u")
        case True
        then show ?thesis
          using 1 Cons tok.refl_0[of u] by (cases "tok_cmp u v = 0") auto
      next
        case False
        then have "tok_cmp t u < 0" using 1 tok.eq[of t u] by (auto split: if_splits)
        moreover have "tok_cmp u v \<le> 0" using 1 Cons by (auto split: if_splits)
        ultimately have "tok_cmp t v < 0" by (rule tok.less_le_trans[OF TrueI TrueI TrueI])
        then show ?thesis using Cons by simp
      qed
    qed (use 1 in simp)
  next
    case (3 u us)
    then show ?case by (cases z) auto
  qed (case_tac z; auto)+
qed

section \<open>rpmEVRcmp computes the order of the tokens\<close>

lemma verchar_pos: "verchar c \<Longrightarrow> 0 < cval c"
  by (auto simp: verchar_def xisdigit_def rpmnotalpha_def cval_def)

lemma verchar_cval: "verchar c \<Longrightarrow> cval c = uval c"
  using verchar_pos[of c] of_char_bounds[of c] by (auto simp: cval_def uval_def split: if_splits)

lemma xisascii_low: "0 \<le> x \<Longrightarrow> x < 128 \<Longrightarrow> xisascii x"
proof -
  assume "0 \<le> x" "x < 128"
  then have "\<not> bit x 7" by (simp add: bit_iff_odd)
  then have "x AND 2 ^ 7 = 0" by (metis and_exp_eq_0_iff_not_bit)
  moreover have "(2::int) ^ 7 = 128" by simp
  ultimately have "x AND 128 = 0" by argo
  then show "xisascii x" unfolding xisascii_def by linarith
qed

lemma alpha_verchar:
  assumes "verchar c"
  shows "xisrpmalpha c \<longleftrightarrow> 59 \<le> cval c"
proof (cases "59 \<le> cval c")
  case True
  then have "cval c \<le> 126" using assms by (auto simp: verchar_def xisdigit_def rpmnotalpha_def cval_def)
  with True have "xisalpha (cval c) \<or> xispunct (cval c)"
    by (simp add: xispunct_def xisgraph_def xisascii_low xisalnum_def xisdigit_def)
  moreover have "c \<notin> set rpmnotalpha" using True by (auto simp: rpmnotalpha_def cval_def)
  ultimately show ?thesis using True by (auto simp: xisrpmalpha_def Let_def strchr_None)
next
  case False
  then have "dig c \<or> c \<in> set rpmnotalpha" using assms by (simp add: verchar_def)
  then show ?thesis
  proof
    assume "dig c"
    then have "\<not> xisalpha (cval c)" "\<not> xispunct (cval c)"
      by (auto simp: xis_defs xispunct_def)
    then show ?thesis using False by (simp add: xisrpmalpha_def Let_def)
  next
    assume "c \<in> set rpmnotalpha"
    then show ?thesis using False by (auto simp: xisrpmalpha_def Let_def rpmnotalpha_def)
  qed
qed

lemma run_length: "length s - length (dropWhile P s) = length (takeWhile P s)"
  by (metis add_diff_cancel_right' length_append takeWhile_dropWhile_id)

lemma take_run: "take (length (takeWhile P s)) s = takeWhile P s"
  by (simp add: takeWhile_eq_take[symmetric])

lemma verstr_simps [simp]: "verstr []" "verstr (c # s) \<longleftrightarrow> verchar c \<and> verstr s"
  by (auto simp: verstr_def)

lemma verstr_dropWhile [intro]: "verstr s \<Longrightarrow> verstr (dropWhile P s)"
  by (auto simp: verstr_def dest: set_dropWhileD)

lemma verstr_skip [intro]: "verstr s \<Longrightarrow> verstr (evr_skip s)"
  by (auto simp: evr_skip_def)

lemma verstr_zeroes [intro]: "verstr s \<Longrightarrow> verstr (evr_zeroes s)"
  by (induction s rule: evr_zeroes.induct) auto

lemma deref_verstr: "verstr s \<Longrightarrow> s \<noteq> [] \<Longrightarrow> 0 < deref s"
  by (cases s) (auto dest: verchar_pos)

lemma not_wild: "verstr s \<Longrightarrow> evr_skip s \<noteq> ''*''"
  using verstr_skip[of s] by (auto simp: verchar_def xisdigit_def rpmnotalpha_def cval_def)

lemma zeroes_nodigit: "\<not> xisdigit (deref s) \<Longrightarrow> evr_zeroes s = s"
  by (induction s rule: evr_zeroes.induct) (auto simp: xisdigit_def cval_def)

lemma tokens_Nil [simp]: "evr_tokens [] = [TEnd]"
  by (subst evr_tokens.simps) simp

lemma tokens_sep: "s \<noteq> [] \<Longrightarrow> evr_skip s = [] \<Longrightarrow> evr_tokens s = [TSep]"
  by (subst evr_tokens.simps) simp

lemma skip_Nil [simp]: "evr_skip [] = []"
  by (simp add: evr_skip_def)

lemma deref_nonempty: "xisdigit (deref s) \<Longrightarrow> s \<noteq> []"
  by auto

lemma tokens_num:
  "xisdigit (deref (evr_skip s)) \<Longrightarrow>
     evr_tokens s = TNum (takeWhile dig (evr_zeroes (evr_skip s))) # evr_tokens (dropWhile dig (evr_zeroes (evr_skip s)))"
  using deref_nonempty[of "evr_skip s"]
  by (subst evr_tokens.simps) (cases "s = []"; simp add: Let_def)

lemma tokens_alpha:
  "evr_skip s \<noteq> [] \<Longrightarrow> \<not> xisdigit (deref (evr_skip s)) \<Longrightarrow>
     evr_tokens s = TAlpha (takeWhile xisrpmalpha (evr_skip s)) # evr_tokens (dropWhile xisrpmalpha (evr_skip s))"
  by (subst evr_tokens.simps) (cases "s = []"; simp add: Let_def)

lemma strncmp_Nil: "b \<noteq> [] \<Longrightarrow> 0 < n \<Longrightarrow> strncmp [] b n = -1"
  by (cases b; cases n) auto

lemma strncmp_Nil2: "a \<noteq> [] \<Longrightarrow> 0 < n \<Longrightarrow> strncmp a [] n = 1"
  by (cases a; cases n) auto

lemma alpha_runs:
  "verstr a \<Longrightarrow> verstr b \<Longrightarrow>
     sgn (strncmp a b (max (length (takeWhile xisrpmalpha a)) (length (takeWhile xisrpmalpha b))))
       = sgn (strcmp (takeWhile xisrpmalpha a) (takeWhile xisrpmalpha b))"
proof (induction a b rule: strcmp.induct)
  case (4 a as b bs)
  then have v: "verchar a" "verchar b" by auto
  show ?case
  proof (cases "a = b")
    case True
    then show ?thesis using 4 by (cases "xisrpmalpha b") simp_all
  next
    case False
    have "xisrpmalpha a \<Longrightarrow> \<not> xisrpmalpha b \<Longrightarrow> uval b < uval a"
      "xisrpmalpha b \<Longrightarrow> \<not> xisrpmalpha a \<Longrightarrow> uval a < uval b"
      using v alpha_verchar verchar_cval by force+
    with False show ?thesis
      by (cases "xisrpmalpha a"; cases "xisrpmalpha b") simp_all
  qed
qed simp_all

text \<open>What one iteration of the loop does to the tokens.\<close>

lemma evr_digits_tokens:
  assumes "xisdigit (deref a)" "xisdigit (deref b)"
  shows "evr_digits a b = (dropWhile dig (evr_zeroes a), dropWhile dig (evr_zeroes b),
           num_cmp (takeWhile dig (evr_zeroes a)) (takeWhile dig (evr_zeroes b)))"
proof -
  let ?ra = "takeWhile dig (evr_zeroes a)" and ?rb = "takeWhile dig (evr_zeroes b)"
  have run: "takeWhile dig (evr_zeroes s) \<noteq> []" if "xisdigit (deref s)" for s
    using that digit_evr_zeroes[of s] by (cases "evr_zeroes s") auto
  have ne: "length ?ra \<noteq> 0" "length ?rb \<noteq> 0" using run assms by blast+
  have "strncmp (evr_zeroes a) (evr_zeroes b) (length ?ra) = strcmp ?ra ?rb" if "length ?ra = length ?rb"
    using that by (metis strncmp_take take_run)
  then show ?thesis
    unfolding evr_digits_def Let_def run_length num_cmp_def using ne by simp
qed

lemma evr_digits_mixed:
  assumes "xisdigit (deref a) \<noteq> xisdigit (deref b)"
  shows "evr_digits a b =
    (dropWhile dig (evr_zeroes a), dropWhile dig (evr_zeroes b), deref (evr_zeroes a) - deref (evr_zeroes b))"
  using assms digit_run[of "evr_zeroes a"] digit_run[of "evr_zeroes b"]
  by (auto simp: evr_digits_def Let_def)

lemma evr_segment_tokens:
  assumes ver: "verstr a" "verstr b" and ne: "a \<noteq> []" "b \<noteq> []"
  shows "\<exists>x y rc. evr_segment a b ae be = (Some x, Some y, rc) \<and> verstr x \<and> verstr y \<and>
    sgn (toks_cmp (evr_tokens a) (evr_tokens b)) =
      (if rc \<noteq> 0 then sgn rc else sgn (toks_cmp (evr_tokens x) (evr_tokens y)))"
proof -
  let ?a = "evr_skip a" and ?b = "evr_skip b"
  have v: "verstr ?a" "verstr ?b" and w: "?a \<noteq> ''*''" "?b \<noteq> ''*''"
    using ver not_wild by auto
  have seg: "evr_segment a b ae be =
      (if xisdigit (deref ?a) \<or> xisdigit (deref ?b)
       then (case evr_digits ?a ?b of (ae, be, rc) \<Rightarrow> (Some ae, Some be, rc))
       else (case evr_alphas ?a ?b of (ae, be, rc) \<Rightarrow> (Some ae, Some be, rc)))"
    using w unfolding evr_segment_def Let_def by simp
  have nd: "deref (evr_zeroes s) = 0 \<or> 59 \<le> deref (evr_zeroes s)" "evr_zeroes s = s"
    if "s = evr_skip t" "verstr s" "\<not> xisdigit (deref s)" for s t
  proof -
    show "evr_zeroes s = s" using that zeroes_nodigit by blast
    then show "deref (evr_zeroes s) = 0 \<or> 59 \<le> deref (evr_zeroes s)"
      using that evr_skip_alpha[of t] alpha_verchar by (cases "evr_skip t") auto
  qed
  have dd: "48 \<le> deref (evr_zeroes s)" "deref (evr_zeroes s) \<le> 57" if "xisdigit (deref s)" for s
    using that digit_evr_zeroes[of s] by (simp_all add: xisdigit_def)
  consider (both) "xisdigit (deref ?a)" "xisdigit (deref ?b)"
    | (left) "xisdigit (deref ?a)" "\<not> xisdigit (deref ?b)"
    | (right) "\<not> xisdigit (deref ?a)" "xisdigit (deref ?b)"
    | (none) "\<not> xisdigit (deref ?a)" "\<not> xisdigit (deref ?b)" by blast
  then show ?thesis
  proof cases
    case both
    then show ?thesis using seg v by (auto simp: evr_digits_tokens tokens_num)
  next
    case left
    have "deref ?b = 0 \<longleftrightarrow> ?b = []" using deref_verstr[OF v(2)] by (cases ?b) auto
    then show ?thesis
      using seg v left ne dd[OF left(1)] nd[OF refl v(2) left(2)]
      by (cases "?b = []") (auto simp: evr_digits_mixed tokens_num tokens_sep tokens_alpha)
  next
    case right
    have "deref ?a = 0 \<longleftrightarrow> ?a = []" using deref_verstr[OF v(1)] by (cases ?a) auto
    then show ?thesis
      using seg v right ne dd[OF right(2)] nd[OF refl v(1) right(1)]
      by (cases "?a = []") (auto simp: evr_digits_mixed tokens_num tokens_sep tokens_alpha)
  next
    case none
    let ?ra = "takeWhile xisrpmalpha ?a" and ?rb = "takeWhile xisrpmalpha ?b"
    have run: "takeWhile xisrpmalpha (evr_skip t) \<noteq> []"
      if "evr_skip t \<noteq> []" "\<not> xisdigit (deref (evr_skip t))" for t
      using that evr_skip_alpha[of t] by (cases "evr_skip t") auto
    have seg': "evr_segment a b ae be = (Some (dropWhile xisrpmalpha ?a), Some (dropWhile xisrpmalpha ?b),
        strncmp ?a ?b (max (length ?ra) (length ?rb)))"
      using seg none by (simp add: evr_alphas_def Let_def run_length)
    have cmp: "sgn (strncmp ?a ?b (max (length ?ra) (length ?rb))) = sgn (strcmp ?ra ?rb)"
      using alpha_runs v by blast
    show ?thesis
    proof (cases "?a = [] \<or> ?b = []")
      case True
      then show ?thesis
        using seg' none ne v run[of a] run[of b] strncmp_Nil[of ?b "length ?rb"] strncmp_Nil2[of ?a "length ?ra"]
        by (cases "?a = []"; cases "?b = []") (auto simp: tokens_sep tokens_alpha)
    next
      case False
      then show ?thesis
        using seg' none v cmp by (auto simp: tokens_alpha sgn_0_0)
    qed
  qed
qed

section \<open>The loop\<close>

lemma rpmEVRcmp_loop_end:
  "a = [] \<or> b = [] \<Longrightarrow> rpmEVRcmp_loop (Some a) (Some b) ae be 0 = ok (sgn (deref a - deref b))"
  by (subst rpmEVRcmp_loop.simps) (auto simp: strict_sign_sgn)

lemma rpmEVRcmp_loop_rc:
  "rc \<noteq> 0 \<Longrightarrow> rpmEVRcmp_loop (Some a) (Some b) ae be rc = ok (sgn rc)"
  by (subst rpmEVRcmp_loop.simps) (simp add: strict_sign_sgn)

lemma rpmEVRcmp_loop_step:
  "a \<noteq> [] \<Longrightarrow> b \<noteq> [] \<Longrightarrow> evr_segment a b ae be = (ae', be', rc) \<Longrightarrow>
     rpmEVRcmp_loop (Some a) (Some b) ae be 0 = rpmEVRcmp_loop ae' be' ae' be' rc"
  by (subst rpmEVRcmp_loop.simps) simp

lemma tokens_rank: "s \<noteq> [] \<Longrightarrow> \<exists>t ts. evr_tokens s = t # ts \<and> 0 < tok_rank t"
  by (cases "evr_skip s = []"; cases "xisdigit (deref (evr_skip s))")
    (auto simp: tokens_sep tokens_num tokens_alpha)

lemma tokens_end:
  assumes "verstr a" "verstr b" "a = [] \<or> b = []"
  shows "sgn (toks_cmp (evr_tokens a) (evr_tokens b)) = sgn (deref a - deref b)"
proof -
  have end_less: "toks_cmp [TEnd] (evr_tokens s) < 0" if s: "s \<noteq> []" for s
  proof -
    obtain t ts where "evr_tokens s = t # ts" "0 < tok_rank t" using tokens_rank[OF s] by blast
    then show ?thesis by (cases t) auto
  qed
  show ?thesis
    using assms(3)
  proof
    assume a: "a = []"
    then show ?thesis using end_less[of b] deref_verstr[of b] assms by (cases "b = []") auto
  next
    assume b: "b = []"
    then show ?thesis
      using end_less[of a] deref_verstr[of a] assms toks.anti[of "[TEnd]" "evr_tokens a"]
        toks.anti[of "evr_tokens a" "[TEnd]"]
      by (cases "a = []") auto
  qed
qed

lemma rpmEVRcmp_loop_tokens:
  "verstr a \<Longrightarrow> verstr b \<Longrightarrow>
     rpmEVRcmp_loop (Some a) (Some b) ae be 0 = ok (sgn (toks_cmp (evr_tokens a) (evr_tokens b)))"
proof (induction "length a + length b" arbitrary: a b ae be rule: less_induct)
  case less
  show ?case
  proof (cases "a = [] \<or> b = []")
    case True
    then show ?thesis using less.prems tokens_end[of a b] by (simp add: rpmEVRcmp_loop_end)
  next
    case False
    then obtain x y rc where step: "evr_segment a b ae be = (Some x, Some y, rc)"
      and v: "verstr x" "verstr y"
      and toks: "sgn (toks_cmp (evr_tokens a) (evr_tokens b)) =
        (if rc \<noteq> 0 then sgn rc else sgn (toks_cmp (evr_tokens x) (evr_tokens y)))"
      using evr_segment_tokens[of a b ae be] less.prems by metis
    have dec: "evr_measure (Some x) (Some y) rc < length a + length b"
      using evr_segment_decreases[OF _ _ step] False by blast
    have "rpmEVRcmp_loop (Some x) (Some y) (Some x) (Some y) 0 = ok (sgn (toks_cmp (evr_tokens x) (evr_tokens y)))"
      if "rc = 0"
    proof (cases "x = [] \<or> y = []")
      case True
      then show ?thesis using v tokens_end[of x y] by (simp add: rpmEVRcmp_loop_end)
    next
      case nonempty: False
      then have "length x + length y < length a + length b"
        using dec that by (simp add: evr_measure_def)
      then show ?thesis using less.hyps v by blast
    qed
    then show ?thesis
      using False toks rpmEVRcmp_loop_step[OF _ _ step] rpmEVRcmp_loop_rc[of rc]
      by (cases "rc = 0") auto
  qed
qed

lemma rpmEVRcmp_tokens_lemma:
  "verstr a \<Longrightarrow> verstr b \<Longrightarrow> rpmEVRcmp a b = ok (sgn (toks_cmp (evr_tokens a) (evr_tokens b)))"
  unfolding rpmEVRcmp_def by (rule rpmEVRcmp_loop_tokens)

text \<open>The value of \<open>rpmEVRcmp\<close>, for use as a comparison function; 0 where it faults.\<close>

definition evr_cmp :: "string \<Rightarrow> string \<Rightarrow> int" where
  "evr_cmp a b = (case rpmEVRcmp a b of Inr r \<Rightarrow> r | Inl _ \<Rightarrow> 0)"

lemma evr_cmp_ok: "verstr a \<Longrightarrow> verstr b \<Longrightarrow> rpmEVRcmp a b = ok (evr_cmp a b)"
  by (simp add: evr_cmp_def rpmEVRcmp_tokens_lemma)

lemma evr_cmp_toks: "verstr a \<Longrightarrow> verstr b \<Longrightarrow> evr_cmp a b = sgn (toks_cmp (evr_tokens a) (evr_tokens b))"
  by (simp add: evr_cmp_def rpmEVRcmp_tokens_lemma)

interpretation evr: comparator evr_cmp verstr
proof
  fix a b c
  assume v: "verstr a" "verstr b"
  then show "(evr_cmp b a < 0) = (evr_cmp a b > 0)"
    using toks.anti[of "evr_tokens a" "evr_tokens b"] toks.anti[of "evr_tokens b" "evr_tokens a"]
    by (simp add: evr_cmp_toks)
  assume "verstr c" "evr_cmp a b \<le> 0" "evr_cmp b c \<le> 0"
  then show "evr_cmp a c \<le> 0"
    using v toks.trans[of "evr_tokens a" "evr_tokens b" "evr_tokens c"]
    by (auto simp: evr_cmp_toks sgn_if split: if_splits)
qed

end
