(* ===== verification/EvrProps.thy ===== *)
theory EvrProps
  imports EvrOrder
begin

unbundle bit_operations_syntax

text \<open>
  The properties of \<open>rpmdb/rpmevr.c\<close>: \<open>rpmEVRcmp\<close> as a total preorder and as a numeric
  comparison, its faults on wildcards, the tuple comparison, the overlap test against the
  ranges it stands for, the parser over the offsets of the regular expression engine, and
  the operator parser.
\<close>

section \<open>Tuples of fields\<close>

definition fields_ok :: "(nat \<Rightarrow> string option) \<Rightarrow> bool" where
  "fields_ok f \<longleftrightarrow> (\<forall>ix\<in>{1..4}. \<exists>s. f ix = Some s \<and> verstr s)"

definition fields_cmp :: "string \<Rightarrow> (nat \<Rightarrow> string option) \<Rightarrow> (nat \<Rightarrow> string option) \<Rightarrow> int" where
  "fields_cmp order fa fb = (case compare_fields order fa fb of Inr r \<Rightarrow> r | Inl _ \<Rightarrow> 0)"

lemma tuple_index_range: "evr_tuple_index c = Some ix \<Longrightarrow> ix \<in> {1..4}"
  by (auto split: if_splits)

lemma fields_okD: "fields_ok f \<Longrightarrow> evr_tuple_index c = Some ix \<Longrightarrow> f ix = Some (the (f ix)) \<and> verstr (the (f ix))"
  using tuple_index_range[of c ix] unfolding fields_ok_def by (metis option.sel)

lemma compare_fields_ok:
  "fields_ok fa \<Longrightarrow> fields_ok fb \<Longrightarrow> compare_fields order fa fb = ok (fields_cmp order fa fb)"
proof (induction order)
  case (Cons c s)
  then show ?case
    using fields_okD[OF Cons.prems(1)] fields_okD[OF Cons.prems(2)]
    by (auto simp: fields_cmp_def compare_values_def evr_cmp_ok simp del: evr_tuple_index.simps
        split: option.splits sum.splits)
qed (simp add: fields_cmp_def)

lemma fields_cmp_Nil: "fields_cmp [] fa fb = 0"
  by (simp add: fields_cmp_def)

lemma fields_cmp_Cons:
  "fields_ok fa \<Longrightarrow> fields_ok fb \<Longrightarrow> fields_cmp (c # s) fa fb =
    (case evr_tuple_index c of None \<Rightarrow> fields_cmp s fa fb
     | Some ix \<Rightarrow> let r = evr_cmp (the (fa ix)) (the (fb ix)) in if r \<noteq> 0 then r else fields_cmp s fa fb)"
  using fields_okD[of fa c] fields_okD[of fb c]
  by (auto simp: fields_cmp_def compare_values_def evr_cmp_ok Let_def simp del: evr_tuple_index.simps
      split: option.splits)

lemma fields_cmp_skip:
  "fields_ok fa \<Longrightarrow> fields_ok fb \<Longrightarrow> evr_tuple_index c = None \<Longrightarrow> fields_cmp (c # s) fa fb = fields_cmp s fa fb"
  by (simp add: fields_cmp_Cons del: evr_tuple_index.simps)

lemma fields_cmp_field:
  "fields_ok fa \<Longrightarrow> fields_ok fb \<Longrightarrow> evr_tuple_index c = Some ix \<Longrightarrow>
    fields_cmp (c # s) fa fb =
      (if evr_cmp (the (fa ix)) (the (fb ix)) \<noteq> 0 then evr_cmp (the (fa ix)) (the (fb ix)) else fields_cmp s fa fb)"
  by (simp add: fields_cmp_Cons Let_def del: evr_tuple_index.simps)

lemma fields_anti:
  "fields_ok a \<Longrightarrow> fields_ok b \<Longrightarrow> fields_cmp order b a < 0 \<longleftrightarrow> fields_cmp order a b > 0"
proof (induction order)
  case (Cons c s)
  show ?case
  proof (cases "evr_tuple_index c")
    case (Some ix)
    have v: "verstr (the (a ix))" "verstr (the (b ix))" using fields_okD Cons.prems Some by blast+
    show ?thesis
      using Cons Some evr.anti[OF v] evr.anti[OF v(2,1)]
      by (cases "evr_cmp (the (a ix)) (the (b ix)) = 0") (auto simp: fields_cmp_field)
  qed (use Cons in \<open>simp add: fields_cmp_skip\<close>)
qed (simp add: fields_cmp_Nil)

lemma fields_trans:
  "fields_ok a \<Longrightarrow> fields_ok b \<Longrightarrow> fields_ok c \<Longrightarrow>
     fields_cmp order a b \<le> 0 \<Longrightarrow> fields_cmp order b c \<le> 0 \<Longrightarrow> fields_cmp order a c \<le> 0"
proof (induction order)
  case (Cons x s)
  show ?case
  proof (cases "evr_tuple_index x")
    case (Some ix)
    let ?a = "the (a ix)" and ?b = "the (b ix)" and ?c = "the (c ix)"
    have v: "verstr ?a" "verstr ?b" "verstr ?c" using fields_okD Cons.prems Some by blast+
    have ab: "fields_cmp (x # s) a b = (if evr_cmp ?a ?b \<noteq> 0 then evr_cmp ?a ?b else fields_cmp s a b)"
      and bc: "fields_cmp (x # s) b c = (if evr_cmp ?b ?c \<noteq> 0 then evr_cmp ?b ?c else fields_cmp s b c)"
      and ac: "fields_cmp (x # s) a c = (if evr_cmp ?a ?c \<noteq> 0 then evr_cmp ?a ?c else fields_cmp s a c)"
      using Some Cons.prems by (simp_all add: fields_cmp_field)
    have le: "evr_cmp ?a ?b \<le> 0" "evr_cmp ?b ?c \<le> 0"
      using Cons.prems(4,5) ab bc by (auto split: if_splits)
    show ?thesis
    proof (cases "evr_cmp ?a ?b = 0 \<and> evr_cmp ?b ?c = 0")
      case True
      then have "evr_cmp ?a ?c = 0" using evr.eq_trans v by blast
      then show ?thesis using Cons ab bc ac True by simp
    next
      case False
      then have "evr_cmp ?a ?c < 0"
        using le evr.less_le_trans[OF v] evr.le_less_trans[OF v] by (metis order_less_le)
      then show ?thesis using ac by simp
    qed
  qed (use Cons in \<open>simp add: fields_cmp_skip\<close>)
qed (simp add: fields_cmp_Nil)

interpretation fields: comparator "fields_cmp order" fields_ok for order
  by unfold_locales (auto intro: fields_trans simp: fields_anti)

text \<open>The versions a range \<open>(flags, e)\<close> stands for.\<close>

definition in_range :: "string \<Rightarrow> EVR \<Rightarrow> u32 \<Rightarrow> EVR \<Rightarrow> bool" where
  "in_range order x flags e \<longleftrightarrow>
     (let s = fields_cmp order (F x) (F e) in
      (s < 0 \<and> has flags RPMSENSE_LESS) \<or> (s = 0 \<and> has flags RPMSENSE_EQUAL) \<or>
      (s > 0 \<and> has flags RPMSENSE_GREATER))"

lemma evr_fill_id: "evr_all_set e \<Longrightarrow> evr_fill e = e"
  by (cases e) (auto simp: evr_fill_def evr_default_def evr_all_set_def fun_eq_iff split: option.splits)

lemma fields_ok_set: "fields_ok (F e) \<Longrightarrow> evr_all_set e"
  by (force simp: fields_ok_def evr_all_set_def)

lemma rpmEVRoverlap_value:
  "fields_ok (F a) \<Longrightarrow> fields_ok (F b) \<Longrightarrow>
     rpmEVRoverlap order a b = ok (range_overlap (Flags a) (Flags b) (fields_cmp order (F a) (F b)), a, b)"
  by (simp add: rpmEVRoverlap_def Let_def evr_fill_id fields_ok_set rpmEVRcompare_def compare_fields_ok)

lemma range_overlap_complete:
  fixes xa xb ab :: int
  assumes "aF \<noteq> RPMSENSE_NOTEQUAL" "bF \<noteq> RPMSENSE_NOTEQUAL"
    and "xa < 0 \<and> has aF RPMSENSE_LESS \<or> xa = 0 \<and> has aF RPMSENSE_EQUAL \<or> xa > 0 \<and> has aF RPMSENSE_GREATER"
    and "xb < 0 \<and> has bF RPMSENSE_LESS \<or> xb = 0 \<and> has bF RPMSENSE_EQUAL \<or> xb > 0 \<and> has bF RPMSENSE_GREATER"
    and "xa < 0 \<Longrightarrow> xb \<ge> 0 \<Longrightarrow> ab > 0" "xa \<le> 0 \<Longrightarrow> xb > 0 \<Longrightarrow> ab > 0"
    and "xb < 0 \<Longrightarrow> xa \<ge> 0 \<Longrightarrow> ab < 0" "xb \<le> 0 \<Longrightarrow> xa > 0 \<Longrightarrow> ab < 0"
    and "xa = 0 \<Longrightarrow> xb = 0 \<Longrightarrow> ab = 0"
  shows "range_overlap aF bF ab"
  using assms unfolding range_overlap_def
  by (cases xa "0::int" rule: linorder_cases; cases xb "0::int" rule: linorder_cases;
      cases ab "0::int" rule: linorder_cases) simp_all

lemma overlap_complete:
  assumes "fields_ok (F a)" "fields_ok (F b)" "fields_ok (F x)"
    and "Flags a \<noteq> RPMSENSE_NOTEQUAL" "Flags b \<noteq> RPMSENSE_NOTEQUAL"
    and "in_range order x (Flags a) a" "in_range order x (Flags b) b"
  shows "range_overlap (Flags a) (Flags b) (fields_cmp order (F a) (F b))"
proof -
  let ?xa = "fields_cmp order (F x) (F a)" and ?xb = "fields_cmp order (F x) (F b)"
    and ?ab = "fields_cmp order (F a) (F b)"
  have xa: "?xa < 0 \<Longrightarrow> ?xb \<ge> 0 \<Longrightarrow> ?ab > 0" "?xa \<le> 0 \<Longrightarrow> ?xb > 0 \<Longrightarrow> ?ab > 0"
    using fields.less_le_trans[of "F b" "F x" "F a" order] fields.le_less_trans[of "F b" "F x" "F a" order]
      fields.anti[of "F a" "F b" order] fields.anti[of "F b" "F a" order]
      fields.anti[of "F b" "F x" order] fields.anti[of "F x" "F b" order] assms(1,2,3)
    by linarith+
  have xb: "?xb < 0 \<Longrightarrow> ?xa \<ge> 0 \<Longrightarrow> ?ab < 0" "?xb \<le> 0 \<Longrightarrow> ?xa > 0 \<Longrightarrow> ?ab < 0"
    using fields.less_le_trans[of "F a" "F x" "F b" order] fields.le_less_trans[of "F a" "F x" "F b" order]
      fields.anti[of "F a" "F x" order] fields.anti[of "F x" "F a" order] assms(1,2,3)
    by linarith+
  have eq: "?xa = 0 \<Longrightarrow> ?xb = 0 \<Longrightarrow> ?ab = 0"
    using fields.eq_trans[of "F a" "F x" "F b" order] fields.eq_sym[of "F x" "F a" order] assms(1,2,3) by blast
  show ?thesis
    using assms(6,7) unfolding in_range_def Let_def
    by (rule range_overlap_complete[OF assms(4,5) _ _ xa xb eq])
qed

section \<open>Numbers\<close>

abbreviation dval :: "string \<Rightarrow> nat" where "dval s \<equiv> digits_val 0 s"

lemma digits_val_acc: "\<forall>c\<in>set s. dig c \<Longrightarrow> digits_val acc s = acc * 10 ^ length s + dval s"
proof (induction s arbitrary: acc)
  case (Cons c s)
  have "digits_val (acc * 10 + nat (cval c - 48)) s = (acc * 10 + nat (cval c - 48)) * 10 ^ length s + dval s"
    and "digits_val (nat (cval c - 48)) s = nat (cval c - 48) * 10 ^ length s + dval s"
    by (rule Cons.IH, use Cons.prems in simp)+
  moreover have "digits_val acc (c # s) = digits_val (acc * 10 + nat (cval c - 48)) s"
    "digits_val 0 (c # s) = digits_val (nat (cval c - 48)) s"
    using Cons.prems by simp_all
  ultimately show ?case by (simp add: algebra_simps del: digits_val.simps)
qed simp

lemma dval_Cons: "\<forall>x\<in>set (c # s). dig x \<Longrightarrow> dval (c # s) = nat (cval c - 48) * 10 ^ length s + dval s"
  using digits_val_acc[of s "nat (cval c - 48)"] by simp

lemma dval_less: "\<forall>c\<in>set s. dig c \<Longrightarrow> dval s < 10 ^ length s"
proof (induction s)
  case (Cons c s)
  then have "dval s < 10 ^ length s" "nat (cval c - 48) \<le> 9" by (auto simp: xisdigit_def)
  then have "nat (cval c - 48) * 10 ^ length s + dval s < 9 * 10 ^ length s + 10 ^ length s"
    by (metis add_le_less_mono mult_le_mono1)
  then show ?case using dval_Cons[OF Cons.prems] by simp
qed simp

lemma dval_ge: "\<forall>x\<in>set (c # s). dig x \<Longrightarrow> c \<noteq> CHR ''0'' \<Longrightarrow> 10 ^ length s \<le> dval (c # s)"
proof -
  assume d: "\<forall>x\<in>set (c # s). dig x" and c: "c \<noteq> CHR ''0''"
  have "cval c \<noteq> cval CHR ''0''" using c by (simp only: cval_inject) simp
  then have "1 \<le> nat (cval c - 48)" using d by (auto simp: xisdigit_def cval_def)
  then have "1 * 10 ^ length s \<le> nat (cval c - 48) * 10 ^ length s" by (rule mult_le_mono1)
  then show ?thesis unfolding dval_Cons[OF d] by linarith
qed

lemma dval_strcmp:
  "length x = length y \<Longrightarrow> \<forall>c\<in>set x. dig c \<Longrightarrow> \<forall>c\<in>set y. dig c \<Longrightarrow>
     (strcmp x y < 0 \<longleftrightarrow> dval x < dval y) \<and> (strcmp x y = 0 \<longleftrightarrow> dval x = dval y)"
proof (induction x y rule: list_induct2)
  case (Cons c x d y)
  have vals: "dval (c # x) = nat (cval c - 48) * 10 ^ length x + dval x"
    "dval (d # y) = nat (cval d - 48) * 10 ^ length x + dval y"
    using dval_Cons Cons.prems Cons.hyps by metis+
  have lt: "dval x < 10 ^ length x" "dval y < 10 ^ length x"
    using dval_less[of x] dval_less[of y] Cons by auto
  have cv: "cval c = uval c" "cval d = uval d" "48 \<le> uval c" "48 \<le> uval d"
    using Cons.prems dig_uval[of c] dig_uval[of d] by simp_all
  have less: "m * 10 ^ length x + u < n * 10 ^ length x + v"
    if "m < n" "u < 10 ^ length x" for m n u v :: nat
  proof -
    have "m * 10 ^ length x + u < (m + 1) * 10 ^ length x" using that by simp
    also have "\<dots> \<le> n * 10 ^ length x" using that by (intro mult_le_mono1) simp
    finally show ?thesis by simp
  qed
  show ?case
  proof (cases "c = d")
    case True
    then show ?thesis using Cons vals by simp
  next
    case False
    then have "uval c \<noteq> uval d" by simp
    then consider "uval c < uval d" | "uval d < uval c" by linarith
    then show ?thesis
    proof cases
      case 1
      then have "dval (c # x) < dval (d # y)" unfolding vals using less lt cv by simp
      then show ?thesis using False 1 by (simp del: digits_val.simps)
    next
      case 2
      then have "dval (d # y) < dval (c # x)" unfolding vals using less lt cv by simp
      then show ?thesis using False 2 by (simp del: digits_val.simps)
    qed
  qed
qed simp

definition no_lead :: "string \<Rightarrow> bool" where
  "no_lead s \<longleftrightarrow> s \<noteq> [] \<and> (\<forall>c\<in>set s. dig c) \<and> (hd s = CHR ''0'' \<longrightarrow> tl s = [])"

lemma dval_shorter:
  assumes "no_lead x" "no_lead y" "length x < length y"
  shows "dval x < dval y"
proof -
  obtain c s where y: "y = c # s" using assms by (cases y) (auto simp: no_lead_def)
  then have "c \<noteq> CHR ''0''" using assms by (auto simp: no_lead_def)
  then have "10 ^ length s \<le> dval y" using dval_ge[of c s] y assms(2) by (simp add: no_lead_def)
  moreover have "dval x < 10 ^ length x" using dval_less assms(1) by (simp add: no_lead_def)
  moreover have "(10::nat) ^ length x \<le> 10 ^ length s" using assms(3) y by simp
  ultimately show ?thesis by linarith
qed

lemma num_cmp_dval:
  assumes "no_lead x" "no_lead y"
  shows "sgn (num_cmp x y) = sgn (int (dval x) - int (dval y))"
proof (cases "length x = length y")
  case True
  then have "(strcmp x y < 0 \<longleftrightarrow> dval x < dval y) \<and> (strcmp x y = 0 \<longleftrightarrow> dval x = dval y)"
    using dval_strcmp assms by (auto simp: no_lead_def)
  then show ?thesis using True by (auto simp: num_cmp_def sgn_if)
next
  case False
  then show ?thesis
    using dval_shorter[OF assms] dval_shorter[OF assms(2,1)] by (auto simp: num_cmp_def sgn_if)
qed

lemma zeroes_no_lead:
  "s \<noteq> [] \<Longrightarrow> \<forall>c\<in>set s. dig c \<Longrightarrow> no_lead (evr_zeroes s) \<and> dval (evr_zeroes s) = dval s"
proof (induction s rule: evr_zeroes.induct)
  case (1 a b s)
  show ?case
  proof (cases "a = CHR ''0''")
    case True
    then have "dval (a # b # s) = dval (b # s)" using dval_Cons[OF 1(3)] by (simp add: cval_def)
    then show ?thesis using 1 True by simp
  qed (use 1 in \<open>simp add: no_lead_def\<close>)
qed (auto simp: no_lead_def)

lemma dig_verstr: "\<forall>c\<in>set s. dig c \<Longrightarrow> verstr s"
  by (simp add: verstr_def verchar_def)

lemma skip_digits: "\<forall>c\<in>set s. dig c \<Longrightarrow> evr_skip s = s"
  by (cases s) (auto simp: evr_skip_def)

lemma tokens_digits:
  assumes "s \<noteq> []" "\<forall>c\<in>set s. dig c"
  shows "evr_tokens s = [TNum (evr_zeroes s), TEnd]"
proof -
  have z: "\<forall>c\<in>set (evr_zeroes s). dig c" using zeroes_no_lead[OF assms] by (simp add: no_lead_def)
  then have "takeWhile dig (evr_zeroes s) = evr_zeroes s" "dropWhile dig (evr_zeroes s) = []"
    by (simp_all add: takeWhile_eq_all_conv del: dropWhile_eq_Nil_conv) (simp add: dropWhile_eq_Nil_conv)
  moreover have "xisdigit (deref s)" using assms by (cases s) auto
  ultimately show ?thesis using tokens_num[of s] assms by (simp only: skip_digits tokens_Nil)
qed

section \<open>The offset vector of the parser\<close>

text \<open>
  The groups of a match, as options of start and end: the offsets the engine reports, in the
  order of the subject, two groups always separated by at least one character.
\<close>

definition group_off :: "(nat \<times> nat) option \<Rightarrow> int \<times> int" where
  "group_off g = (case g of None \<Rightarrow> (-1, -1) | Some (a, b) \<Rightarrow> (int a, int b))"

fun ordered_groups :: "nat \<Rightarrow> nat \<Rightarrow> (nat \<times> nat) option list \<Rightarrow> bool" where
  "ordered_groups lo n [] \<longleftrightarrow> True"
| "ordered_groups lo n (None # gs) \<longleftrightarrow> ordered_groups lo n gs"
| "ordered_groups lo n (Some (a, b) # gs) \<longleftrightarrow> lo \<le> a \<and> a \<le> b \<and> b \<le> n \<and> ordered_groups (Suc b) n gs"

definition group_text :: "string \<Rightarrow> (nat \<times> nat) option \<Rightarrow> string option" where
  "group_text s g = map_option (\<lambda>(a, b). take (b - a) (drop a s)) g"

fun write_ends :: "(nat \<times> nat) option list \<Rightarrow> string \<Rightarrow> string" where
  "write_ends [] buf = buf"
| "write_ends (None # gs) buf = write_ends gs buf"
| "write_ends (Some (a, b) # gs) buf = write_ends gs (buf[b := NUL])"

lemma length_write_ends [simp]: "length (write_ends gs buf) = length buf"
  by (induction gs buf rule: write_ends.induct) simp_all

lemma write_ends_below: "ordered_groups lo n gs \<Longrightarrow> k < lo \<Longrightarrow> write_ends gs buf ! k = buf ! k"
  by (induction gs buf arbitrary: lo rule: write_ends.induct) auto

lemma evr_groups_tail: "5 \<le> i \<Longrightarrow> evr_groups nb i rest buf P = ok (buf, P)"
proof (induction rest arbitrary: i)
  case (Cons p rest)
  then show ?case by (cases p) simp
qed simp

lemma evr_group_id: "1 \<le> i \<Longrightarrow> i \<le> 4 \<Longrightarrow> evr_group i = Some i"
  by (cases "i = 1"; cases "i = 2"; cases "i = 3"; simp)

fun group_ptrs :: "nat \<Rightarrow> (nat \<times> nat) option list \<Rightarrow> (nat \<Rightarrow> nat option) \<Rightarrow> nat \<Rightarrow> nat option" where
  "group_ptrs i [] P = P"
| "group_ptrs i (None # gs) P = group_ptrs (Suc i) gs P"
| "group_ptrs i (Some (a, b) # gs) P = group_ptrs (Suc i) gs (P(i := Some a))"

lemma group_ptrs_fields:
  "group_ptrs 1 [e, v, r, d] (\<lambda>_. None) 1 = map_option fst e"
  "group_ptrs 1 [e, v, r, d] (\<lambda>_. None) 2 = map_option fst v"
  "group_ptrs 1 [e, v, r, d] (\<lambda>_. None) 3 = map_option fst r"
  "group_ptrs 1 [e, v, r, d] (\<lambda>_. None) 4 = map_option fst d"
  by (cases e; cases v; cases r; cases d; auto)+

lemma evr_groups_run:
  "1 \<le> i \<Longrightarrow> i + length gs \<le> 5 \<Longrightarrow> ordered_groups lo nb gs \<Longrightarrow>
     evr_groups nb i (map group_off gs @ rest) buf P =
       evr_groups nb (i + length gs) rest (write_ends gs buf) (group_ptrs i gs P)"
proof (induction gs arbitrary: i buf P lo)
  case (Cons g gs)
  show ?case
  proof (cases g)
    case None
    then show ?thesis using Cons.IH[of "Suc i" lo buf P] Cons.prems by (simp add: group_off_def)
  next
    case (Some ab)
    obtain a b where ab: "ab = (a, b)" by fastforce
    have "evr_groups nb i (map group_off (g # gs) @ rest) buf P
        = evr_groups nb (Suc i) (map group_off gs @ rest) (buf[b := NUL]) (P(i := Some a))"
      using Some ab Cons.prems evr_group_id[of i]
      by (simp add: group_off_def guardC_def del: evr_group.simps)
    also have "\<dots> = evr_groups nb (Suc i + length gs) rest (write_ends gs (buf[b := NUL]))
        (group_ptrs (Suc i) gs (P(i := Some a)))"
      by (rule Cons.IH[where lo = "Suc b"]) (use Cons.prems Some ab in simp_all)
    finally show ?thesis using Some ab by simp
  qed
qed simp

lemma cstr_at_slice:
  assumes "a \<le> b" "b < length buf" "buf ! b = NUL" "\<forall>k. a \<le> k \<and> k < b \<longrightarrow> buf ! k \<noteq> NUL"
  shows "cstr_at buf a = take (b - a) (drop a buf)"
proof -
  have "drop b buf = NUL # drop (Suc b) buf" using assms(2,3) by (metis Cons_nth_drop_Suc)
  then have split: "drop a buf = take (b - a) (drop a buf) @ NUL # drop (Suc b) buf"
    using append_take_drop_id[of "b - a" "drop a buf"] assms(1) by simp
  have pre: "x \<noteq> NUL" if "x \<in> set (take (b - a) (drop a buf))" for x
    using that assms(2,4) by (auto simp: in_set_conv_nth)
  have "takeWhile (\<lambda>c. c \<noteq> NUL) (drop a buf)
      = take (b - a) (drop a buf) @ takeWhile (\<lambda>c. c \<noteq> NUL) (NUL # drop (Suc b) buf)"
    by (subst split) (rule takeWhile_append2, rule pre)
  then show ?thesis by (simp add: cstr_at_def)
qed

lemma write_ends_text:
  assumes "ordered_groups lo n gs" "length buf = Suc n" "n = length s" "NUL \<notin> set s"
    and "\<forall>k. lo \<le> k \<and> k < n \<longrightarrow> buf ! k = s ! k" "j < length gs" "gs ! j = Some (a, b)"
  shows "cstr_at (write_ends gs buf) a = take (b - a) (drop a s)"
  using assms
proof (induction gs buf arbitrary: lo j rule: write_ends.induct)
  case (2 gs buf)
  then show ?case by (cases j) auto
next
  case (3 x y gs buf)
  show ?case
  proof (cases j)
    case 0
    then have xy: "x = a" "y = b" using 3 by auto
    let ?w = "write_ends gs (buf[b := NUL])"
    have og: "ordered_groups (Suc b) n gs" "lo \<le> a" "a \<le> b" "b \<le> n" using 3 xy by auto
    have below: "?w ! k = (buf[b := NUL]) ! k" if "k \<le> b" for k
      using write_ends_below[OF og(1)] that by simp
    have tx: "?w ! k = s ! k" if "a \<le> k" "k < b" for k
      using below[of k] that 3 og by simp
    have nul: "?w ! b = NUL" using below[of b] og 3 by simp
    have ne: "\<forall>k. a \<le> k \<and> k < b \<longrightarrow> ?w ! k \<noteq> NUL"
    proof (intro allI impI)
      fix k assume k: "a \<le> k \<and> k < b"
      then have "s ! k \<in> set s" using og 3(4) by simp
      then show "?w ! k \<noteq> NUL" using tx[of k] k 3(5) by metis
    qed
    have "cstr_at ?w a = take (b - a) (drop a ?w)"
      using cstr_at_slice[OF og(3) _ nul ne] 3 og by simp
    also have "\<dots> = take (b - a) (drop a s)"
    proof (rule nth_equalityI)
      show "length (take (b - a) (drop a ?w)) = length (take (b - a) (drop a s))"
        using og 3(3,4) by simp
      fix i assume "i < length (take (b - a) (drop a ?w))"
      then show "take (b - a) (drop a ?w) ! i = take (b - a) (drop a s) ! i"
        using tx[of "a + i"] og 3(3,4) by simp
    qed
    finally show ?thesis using xy by simp
  next
    case (Suc j')
    then show ?thesis using 3 by (auto intro!: "3.IH"[of "Suc y" j'])
  qed
qed simp

section \<open>Properties\<close>

text \<open>C1: on version strings (digits, the separators \<open>. : -\<close>, letters and the other printable characters above
  them) \<open>rpmEVRcmp\<close> runs into no fault and is a total preorder with values -1, 0 and 1:
  comparing the other way round negates the value, a string equals itself, and "not newer"
  is transitive.\<close>

theorem rpmEVRcmp_total_preorder:
  assumes "verstr a" "verstr b" "verstr c"
  shows "\<exists>ab bc ac. rpmEVRcmp a b = ok ab \<and> rpmEVRcmp b c = ok bc \<and> rpmEVRcmp a c = ok ac \<and>
    ab \<in> {-1, 0, 1} \<and> rpmEVRcmp b a = ok (- ab) \<and> rpmEVRcmp a a = ok 0 \<and>
    (ab \<le> 0 \<and> bc \<le> 0 \<longrightarrow> ac \<le> 0)"
proof -
  have vals: "evr_cmp x y = sgn (toks_cmp (evr_tokens x) (evr_tokens y))" if "verstr x" "verstr y" for x y
    using that evr_cmp_toks by blast
  have "evr_cmp b a = - evr_cmp a b"
    using toks.sgn_anti[OF TrueI TrueI, of "evr_tokens b" "evr_tokens a"] vals assms by simp
  moreover have "evr_cmp a b \<in> {-1, 0, 1}" using vals[OF assms(1,2)] by (auto simp: sgn_if)
  moreover have "evr_cmp a a = 0" "evr_cmp a b \<le> 0 \<Longrightarrow> evr_cmp b c \<le> 0 \<Longrightarrow> evr_cmp a c \<le> 0"
    using evr.refl_0 evr.trans assms by blast+
  ultimately show ?thesis using assms by (simp add: evr_cmp_ok)
qed

theorem rpmEVRcmp_total_preorder_witness:
  "verstr ''1.9'' \<and> verstr ''1.10'' \<and> verstr ''2.0rc1'' \<and> rpmEVRcmp ''1.9'' ''2.0rc1'' = ok (-1)"
proof -
  have v: "verstr ''1.9''" "verstr ''1.10''" "verstr ''2.0rc1''" by code_simp+
  have "rpmEVRcmp ''1.9'' ''1.10'' = ok (-1)" "rpmEVRcmp ''1.10'' ''2.0rc1'' = ok (-1)"
    "rpmEVRcmp ''1.9'' ''2.0rc1'' = ok (-1)" by code_simp+
  then show ?thesis using rpmEVRcmp_total_preorder[OF v] v by auto
qed

text \<open>C2: the segment loop implements its specification: on version strings its value is the sign of the
  lexicographic comparison of the two token lists (an end marker below a trailing separator
  below a number below an alphabetic run).\<close>

theorem rpmEVRcmp_refines_tokens:
  assumes "verstr a" "verstr b"
  shows "rpmEVRcmp a b = ok (sgn (toks_cmp (evr_tokens a) (evr_tokens b)))"
  using assms by (rule rpmEVRcmp_tokens_lemma)

theorem rpmEVRcmp_refines_tokens_witness:
  "verstr ''1.0a'' \<and> verstr ''1.0.2'' \<and>
   rpmEVRcmp ''1.0a'' ''1.0.2'' = ok (sgn (toks_cmp (evr_tokens ''1.0a'') (evr_tokens ''1.0.2'')))"
proof -
  have v: "verstr ''1.0a''" "verstr ''1.0.2''" by code_simp+
  show ?thesis using v rpmEVRcmp_refines_tokens[OF v] by blast
qed

text \<open>Two strings of digits compare by the numbers they denote, whatever their leading zeroes and
  their lengths (so beyond every machine integer).\<close>

theorem rpmEVRcmp_numeric:
  assumes "a \<noteq> []" "b \<noteq> []" "\<forall>c\<in>set a. dig c" "\<forall>c\<in>set b. dig c"
  shows "rpmEVRcmp a b = ok (sgn (int (dval a) - int (dval b)))"
proof -
  have z: "no_lead (evr_zeroes a)" "no_lead (evr_zeroes b)"
    "dval (evr_zeroes a) = dval a" "dval (evr_zeroes b) = dval b"
    using zeroes_no_lead assms by blast+
  have "rpmEVRcmp a b = ok (sgn (toks_cmp (evr_tokens a) (evr_tokens b)))"
    using assms by (intro rpmEVRcmp_tokens_lemma dig_verstr)
  also have "sgn (toks_cmp (evr_tokens a) (evr_tokens b)) = sgn (num_cmp (evr_zeroes a) (evr_zeroes b))"
    using assms by (simp add: tokens_digits)
  also have "\<dots> = sgn (int (dval a) - int (dval b))" using num_cmp_dval[OF z(1,2)] z(3,4) by simp
  finally show ?thesis .
qed

theorem rpmEVRcmp_numeric_witness:
  "rpmEVRcmp ''0010'' ''9'' = ok (sgn (int (dval ''0010'') - int (dval ''9''))) \<and> dval ''0010'' = 10"
proof -
  have d: "\<forall>c\<in>set ''0010''. dig c" "\<forall>c\<in>set ''9''. dig c" by code_simp+
  have "dval ''0010'' = 10" by code_simp
  then show ?thesis using rpmEVRcmp_numeric[OF _ _ d] by simp
qed

text \<open>C25: no dependency is missed by the overlap test: if some version lies in both ranges, then
  \<open>rpmEVRoverlap\<close> reports an overlap, for ranges whose flags are not \<open>RPMSENSE_NOTEQUAL\<close>
  and fields that are version strings.\<close>

theorem rpmEVRoverlap_complete:
  assumes "fields_ok (F a)" "fields_ok (F b)" "fields_ok (F x)"
    and "Flags a \<noteq> RPMSENSE_NOTEQUAL" "Flags b \<noteq> RPMSENSE_NOTEQUAL"
    and "in_range order x (Flags a) a" "in_range order x (Flags b) b"
  shows "rpmEVRoverlap order a b = ok (True, a, b)"
  using overlap_complete[OF assms] rpmEVRoverlap_value[OF assms(1,2)] by simp

definition evr3 :: "u32 \<Rightarrow> string \<Rightarrow> string \<Rightarrow> string \<Rightarrow> EVR" where
  "evr3 fl e v r = (rpmEVRnew fl True)\<lparr>F := (F (rpmEVRnew fl True))(1 := Some e, 2 := Some v, 3 := Some r)\<rparr>"

lemma fields_ok_evr3: "verstr e \<Longrightarrow> verstr v \<Longrightarrow> verstr r \<Longrightarrow> fields_ok (F (evr3 fl e v r))"
proof -
  assume v: "verstr e" "verstr v" "verstr r"
  have "{1..4} = {1, 2, 3, 4::nat}" by auto
  then show ?thesis using v by (simp add: fields_ok_def evr3_def rpmEVRnew_def Let_def)
qed

theorem rpmEVRoverlap_complete_witness:
  "rpmEVRoverlap ''EVR'' (evr3 12 ''0'' ''1.2'' ''1'') (evr3 2 ''0'' ''2'' ''1'') =
     ok (True, evr3 12 ''0'' ''1.2'' ''1'', evr3 2 ''0'' ''2'' ''1'')"
proof (rule rpmEVRoverlap_complete[where x = "evr3 8 ''0'' ''1.10'' ''3''"])
  have v: "verstr ''0''" "verstr ''1.2''" "verstr ''1''" "verstr ''2''" "verstr ''3''" "verstr ''1.10''"
    by code_simp+
  show "fields_ok (F (evr3 12 ''0'' ''1.2'' ''1''))" "fields_ok (F (evr3 2 ''0'' ''2'' ''1''))"
    "fields_ok (F (evr3 8 ''0'' ''1.10'' ''3''))" using v by (intro fields_ok_evr3; simp)+
  show "in_range ''EVR'' (evr3 8 ''0'' ''1.10'' ''3'') (Flags (evr3 12 ''0'' ''1.2'' ''1'')) (evr3 12 ''0'' ''1.2'' ''1'')"
    "in_range ''EVR'' (evr3 8 ''0'' ''1.10'' ''3'') (Flags (evr3 2 ''0'' ''2'' ''1'')) (evr3 2 ''0'' ''2'' ''1'')"
    "Flags (evr3 12 ''0'' ''1.2'' ''1'') \<noteq> RPMSENSE_NOTEQUAL" "Flags (evr3 2 ''0'' ''2'' ''1'') \<noteq> RPMSENSE_NOTEQUAL"
    by code_simp+
qed

text \<open>the wildcard branches of \<open>rpmEVRcmp\<close> leave one pointer as it was: a lone wildcard against any
  other non-empty version string dereferences a null pointer, on either side, and a wildcard
  suffix after an equal prefix compares unequal instead of equal.\<close>

theorem rpmEVRcmp_wildcard:
  assumes "verstr v" "v \<noteq> []"
  shows "rpmEVRcmp ''*'' v = Inl NullDeref \<and> rpmEVRcmp v ''*'' = Inl NullDeref \<and>
    rpmEVRcmp ''1.*'' ''1.5'' = ok 1 \<and> rpmEVRcmp ''1.5'' ''1.*'' = ok (-1)"
proof (intro conjI)
  have star: "evr_skip ''*'' = ''*''" by code_simp
  have v: "evr_skip v \<noteq> ''*''" using not_wild assms by blast
  show "rpmEVRcmp ''*'' v = Inl NullDeref"
    unfolding rpmEVRcmp_def using assms star
    by (subst rpmEVRcmp_loop.simps) (simp add: evr_segment_def Let_def rpmEVRcmp_loop.simps[of None])
  show "rpmEVRcmp v ''*'' = Inl NullDeref"
    unfolding rpmEVRcmp_def using assms star v
    by (subst rpmEVRcmp_loop.simps) (simp add: evr_segment_def Let_def rpmEVRcmp_loop.simps[of "Some []"])
qed code_simp+

theorem rpmEVRcmp_wildcard_witness: "verstr ''1.5'' \<and> rpmEVRcmp ''*'' ''1.5'' = Inl NullDeref"
proof -
  have v: "verstr ''1.5''" by code_simp
  show ?thesis using rpmEVRcmp_wildcard[OF v] v by simp
qed

text \<open>Outside version strings \<open>rpmEVRcmp\<close> is not an order: with a punctuation character that lies between
  two separators, two strings that compare equal stand on different sides of a third.\<close>

theorem rpmEVRcmp_not_an_order:
  "rpmEVRcmp ''a.x'' ''a:x'' = ok 0 \<and> rpmEVRcmp ''a/'' ''a.x'' = ok 1 \<and> rpmEVRcmp ''a/'' ''a:x'' = ok (-1)"
  by (intro conjI) code_simp+

text \<open>Cutting at groups that follow each other: no assertion fails, and every field is the text of its group.\<close>

lemma rpmEVRparse_groups:
  assumes "NUL \<notin> set s" "ordered_groups 0 (length s) [e, v, r, d]"
    and "regexec s = (0, int (length s)) # map group_off [e, v, r, d] @ rest"
  shows "\<exists>evr. rpmEVRparse regexec s = ok evr \<and>
    F evr RPMEVR_E = Some (case group_text s e of Some t \<Rightarrow> t | None \<Rightarrow> ''0'') \<and>
    F evr RPMEVR_V = Some (or_empty (group_text s v)) \<and> F evr RPMEVR_R = Some (or_empty (group_text s r)) \<and>
    F evr RPMEVR_D = Some (or_empty (group_text s d)) \<and> Elong evr = strtoul10 (the (F evr RPMEVR_E))"
proof -
  let ?gs = "[e, v, r, d]" and ?buf = "s @ [NUL]"
  let ?P = "group_ptrs 1 ?gs (\<lambda>_. None)" and ?w = "write_ends ?gs ?buf"
  have "evr_groups (length s) 0 (take 9 (regexec s)) ?buf (\<lambda>_. None)
      = evr_groups (length s) 1 (map group_off ?gs @ take 4 rest) ?buf (\<lambda>_. None)"
    using assms(3) by simp
  also have "\<dots> = evr_groups (length s) (1 + length ?gs) (take 4 rest) ?w ?P"
    by (rule evr_groups_run[OF _ _ assms(2)]) simp_all
  also have "\<dots> = ok (?w, ?P)" by (rule evr_groups_tail) simp
  finally have run: "evr_groups (length s) 0 (take 9 (regexec s)) ?buf (\<lambda>_. None) = ok (?w, ?P)" .
  have tx: "cstr_at ?w a = take (b - a) (drop a s)" if "j < 4" "?gs ! j = Some (a, b)" for j a b
    using write_ends_text[OF assms(2), of ?buf s j a b] assms(1) that by (simp add: nth_append)
  have fld: "map_option (cstr_at ?w) (map_option fst (?gs ! j)) = group_text s (?gs ! j)" if "j < 4" for j
    using that tx[of j] by (cases "?gs ! j") (auto simp: group_text_def)
  have f: "map_option (cstr_at ?w) (?P 1) = group_text s e" "map_option (cstr_at ?w) (?P 2) = group_text s v"
    "map_option (cstr_at ?w) (?P 3) = group_text s r" "map_option (cstr_at ?w) (?P 4) = group_text s d"
    unfolding group_ptrs_fields using fld[of 0] fld[of 1] fld[of 2] fld[of 3] by (simp_all add: numeral_nat)
  let ?f = "\<lambda>ix. evr_default ix (map_option (cstr_at ?w) (?P ix))"
  have fe: "?f 1 = Some (case group_text s e of Some t \<Rightarrow> t | None \<Rightarrow> ''0'')"
    unfolding f evr_default_def by (simp split: option.split)
  have fv: "?f 2 = Some (or_empty (group_text s v))"
    unfolding f evr_default_def or_empty_def by (simp split: option.split)
  have fr: "?f 3 = Some (or_empty (group_text s r))"
    unfolding f evr_default_def or_empty_def by (simp split: option.split)
  have fd: "?f 4 = Some (or_empty (group_text s d))"
    unfolding f evr_default_def or_empty_def by (simp split: option.split)
  have "rpmEVRparse regexec s = ok \<lparr>evr_str = Some (cstr_at ?w 0), Elong = strtoul10 (the (?f 1)), Flags = 0, F = ?f\<rparr>"
    unfolding rpmEVRparse_def run andThen_simps prod.case Let_def by (rule refl)
  then show ?thesis using fe fv fr fd by (intro exI conjI) (assumption, simp_all only: EVR.simps)
qed

text \<open>The default pattern \<open>_evr_tuple_match\<close> matches \<open>E:V-R:D\<close>, where all but V may be missing and no component is
  empty or has a colon or a hyphen. Two components with a colon between them are E and V. The
  offsets of the groups of such a match, as \<open>regexec\<close> and \<open>pcre_exec\<close> report them.\<close>

definition evr_component :: "string \<Rightarrow> bool" where
  "evr_component x \<longleftrightarrow> x \<noteq> [] \<and> CHR '':'' \<notin> set x \<and> CHR ''-'' \<notin> set x \<and> NUL \<notin> set x"

definition evr_components :: "string option \<Rightarrow> string \<Rightarrow> string option \<Rightarrow> string option \<Rightarrow> bool" where
  "evr_components e v r d \<longleftrightarrow> evr_component v \<and> pred_option evr_component e \<and> pred_option evr_component r \<and>
     pred_option evr_component d \<and> (d \<noteq> None \<longrightarrow> e \<noteq> None \<or> r \<noteq> None)"

definition evr_string :: "string option \<Rightarrow> string \<Rightarrow> string option \<Rightarrow> string option \<Rightarrow> string" where
  "evr_string e v r d =
     (case e of None \<Rightarrow> [] | Some x \<Rightarrow> x @ '':'') @ v @ (case r of None \<Rightarrow> [] | Some x \<Rightarrow> ''-'' @ x) @
     (case d of None \<Rightarrow> [] | Some x \<Rightarrow> '':'' @ x)"

definition tuple_match :: "string option \<Rightarrow> string \<Rightarrow> string option \<Rightarrow> string option \<Rightarrow> (nat \<times> nat) option list" where
  "tuple_match e v r d =
     (let b = (case e of None \<Rightarrow> 0 | Some x \<Rightarrow> length x + 1); n = b + length v;
          m = (case r of None \<Rightarrow> n | Some x \<Rightarrow> n + 1 + length x) in
      [map_option (\<lambda>x. (0, length x)) e, Some (b, n), map_option (\<lambda>x. (n + 1, n + 1 + length x)) r,
       map_option (\<lambda>x. (m + 1, m + 1 + length x)) d])"

text \<open>The string has no NUL, the groups follow each other, and their texts are the components.\<close>

lemma tuple_match_groups:
  assumes "evr_components e v r d"
  shows "NUL \<notin> set (evr_string e v r d)"
    "ordered_groups 0 (length (evr_string e v r d)) (tuple_match e v r d)"
    "map (group_text (evr_string e v r d)) (tuple_match e v r d) = [e, Some v, r, d]"
  using assms
  by (auto simp: evr_components_def evr_component_def evr_string_def tuple_match_def Let_def group_text_def split: option.splits)

text \<open>C35: \<open>rpmEVRparse\<close> takes a version apart. For a string \<open>E:V-R:D\<close>, where the epoch, the release and
  the distribution may be missing and the components are not empty and have no colon and no hyphen, and a regular expression
  engine that reports the groups of the default pattern at the places of the components: no assertion fails, every field is
  exactly its component, although the code writes a NUL behind each of them into the same buffer, a missing
  epoch reads \<open>0\<close> and the other missing fields are empty.\<close>

theorem rpmEVRparse_fields:
  assumes "evr_components e v r d"
    and "regexec (evr_string e v r d) =
      (0, int (length (evr_string e v r d))) # map group_off (tuple_match e v r d) @ replicate 4 (-1, -1)"
  shows "\<exists>evr. rpmEVRparse regexec (evr_string e v r d) = ok evr \<and>
    F evr RPMEVR_E = Some (case e of Some x \<Rightarrow> x | None \<Rightarrow> ''0'') \<and>
    F evr RPMEVR_V = Some v \<and> F evr RPMEVR_R = Some (or_empty r) \<and> F evr RPMEVR_D = Some (or_empty d) \<and>
    Elong evr = strtoul10 (case e of Some x \<Rightarrow> x | None \<Rightarrow> ''0'')"
proof -
  let ?s = "evr_string e v r d"
  obtain ge gv gr gd where g: "tuple_match e v r d = [ge, gv, gr, gd]" by (simp add: tuple_match_def Let_def)
  note t = tuple_match_groups[OF assms(1), unfolded g]
  have x: "group_text ?s ge = e" "group_text ?s gv = Some v" "group_text ?s gr = r" "group_text ?s gd = d"
    using t(3) by simp_all
  have v: "or_empty (Some v) = v" by (simp only: or_empty_def option.case)
  from rpmEVRparse_groups[where s = ?s and regexec = regexec, OF t(1,2) assms(2)[unfolded g]] show ?thesis unfolding x v by (elim exE conjE) (metis option.sel)
qed

theorem rpmEVRparse_fields_witness:
  "\<exists>evr. rpmEVRparse (\<lambda>_. [(0, 7), (0, 1), (2, 5), (6, 7), (-1, -1), (-1, -1), (-1, -1), (-1, -1), (-1, -1)]) ''1:2.0-3'' = ok evr \<and>
     F evr RPMEVR_E = Some ''1'' \<and> F evr RPMEVR_V = Some ''2.0'' \<and> F evr RPMEVR_R = Some ''3'' \<and> F evr RPMEVR_D = Some []"
proof -
  let ?re = "\<lambda>_ :: string. [(0, 7), (0, 1), (2, 5), (6, 7), (-1, -1), (-1, -1), (-1, -1), (-1, -1), (-1, -1)] :: (int \<times> int) list"
  have s: "evr_string (Some ''1'') ''2.0'' (Some ''3'') None = ''1:2.0-3''" by (simp add: evr_string_def)
  have c: "evr_components (Some ''1'') ''2.0'' (Some ''3'') None" by (simp add: evr_components_def evr_component_def)
  have m: "?re (evr_string (Some ''1'') ''2.0'' (Some ''3'') None) =
      (0, int (length (evr_string (Some ''1'') ''2.0'' (Some ''3'') None))) #
        map group_off (tuple_match (Some ''1'') ''2.0'' (Some ''3'') None) @ replicate 4 (-1, -1)"
    unfolding s by (simp add: tuple_match_def Let_def group_off_def numeral_eq_Suc)
  have o: "or_empty (Some ''3'') = ''3''" "or_empty None = []" by (simp_all only: or_empty_def option.case)
  from rpmEVRparse_fields[where regexec = ?re, OF c m] show ?thesis unfolding s o option.case by blast
qed

end
