(* ===== verification/Ns.thy ===== *)
theory Ns
  imports Evr
begin

text \<open>
  Dependency name spaces: the classification and the parsing of a dependency name in
  \<open>rpmdb/rpmns.c\<close> (\<open>rpmnsArch\<close>, \<open>rpmnsProbe\<close>, \<open>rpmnsClassify\<close>, \<open>rpmnsParse\<close>), without
  the vendor variants. The verification of signatures in the same file is not modelled.

  The parsed name points into a buffer that \<open>rpmExpand\<close> allocates with exactly the size of
  its content, and into which the parser writes NULs. The model keeps the whole buffer and
  the offsets of the pointers, so that a read past its end is visible.
\<close>

section \<open>Types\<close>

datatype nsType =
    NS_UNKNOWN | NS_STRING | NS_PATH | NS_DSO | NS_FUNCTION | NS_ARCH | NS_VERSION | NS_COMPOUND
  | NS_NAMESPACE | NS_RPMLIB | NS_CPUINFO | NS_GETCONF | NS_UNAME | NS_SONAME | NS_ACCESS | NS_TAG
  | NS_USER | NS_GROUP | NS_MOUNTED | NS_DISKSPACE | NS_DIGEST | NS_GNUPG | NS_MACRO | NS_ENVVAR
  | NS_RUNNING | NS_SANITY | NS_VCHECK | NS_SIGNATURE | NS_VERIFY | NS_CONFIG

record rpmns =
  ns_str :: "string option"
  ns_Type :: nsType
  ns_NS :: "nat option"
  ns_N :: "nat option"
  ns_A :: "nat option"
  ns_Flags :: u32

definition rpmns_zero :: rpmns where
  "rpmns_zero = \<lparr>ns_str = None, ns_Type = NS_UNKNOWN, ns_NS = None, ns_N = None, ns_A = None, ns_Flags = 0\<rparr>"

definition rpmns_N_at_A :: char where "rpmns_N_at_A = CHR ''.''"

section \<open>Architectures and probes\<close>

definition rpmnsArches :: "string list" where
  "rpmnsArches =
    [''i386'', ''i486'', ''i586'', ''i686'', ''athlon'', ''pentium3'', ''pentium4'',
     ''x86_64'', ''amd64'', ''ia32e'',
     ''alpha'', ''alphaev5'', ''alphaev56'', ''alphapca56'', ''alphaev6'', ''alphaev67'',
     ''sparc'', ''sun4'', ''sun4m'', ''sun4c'', ''sun4d'', ''sparcv8'',
     ''sparcv9'', ''sparcv9b'', ''sparcv9v'', ''sparcv9v2'',
     ''sparc64'', ''sun4u'', ''sparc64v'',
     ''mips'', ''mipsel'', ''IP'',
     ''ppc'', ''ppciseries'', ''ppcpseries'',
     ''ppc64'', ''ppc64iseries'', ''ppc64pseries'',
     ''m68k'', ''rs6000'', ''ia64'',
     ''armv3l'', ''armv4b'', ''armv4l'',
     ''armv5teb'', ''armv5tel'', ''armv5tejl'', ''armv6l'',
     ''s390'', ''i370'', ''s390x'',
     ''sh'', ''sh3'', ''sh4'', ''sh4a'', ''xtensa'',
     ''noarch'', ''fat'']"

definition rpmnsArch :: "string \<Rightarrow> nsType" where
  "rpmnsArch s = (if list_ex (\<lambda>av. strcmp s av = 0) rpmnsArches then NS_ARCH else NS_UNKNOWN)"

definition rpmnsProbes :: "(string \<times> nsType) list" where
  "rpmnsProbes =
    [(''RWX'', NS_ACCESS), (''RW_'', NS_ACCESS), (''RWx'', NS_ACCESS),
     (''R_X'', NS_ACCESS), (''R__'', NS_ACCESS), (''R_x'', NS_ACCESS),
     (''RwX'', NS_ACCESS), (''Rw_'', NS_ACCESS), (''Rwx'', NS_ACCESS),
     (''_WX'', NS_ACCESS), (''_W_'', NS_ACCESS), (''_Wx'', NS_ACCESS),
     (''__X'', NS_ACCESS), (''___'', NS_ACCESS), (''__x'', NS_ACCESS),
     (''_wX'', NS_ACCESS), (''_w_'', NS_ACCESS), (''_wx'', NS_ACCESS),
     (''config'', NS_CONFIG), (''cpuinfo'', NS_CPUINFO), (''digest'', NS_DIGEST),
     (''diskspace'', NS_DISKSPACE), (''envvar'', NS_ENVVAR), (''executable'', NS_ACCESS),
     (''exists'', NS_ACCESS), (''getconf'', NS_GETCONF), (''gnupg'', NS_GNUPG),
     (''group'', NS_GROUP), (''macro'', NS_MACRO), (''mounted'', NS_MOUNTED),
     (''rWX'', NS_ACCESS), (''rW_'', NS_ACCESS), (''rWx'', NS_ACCESS),
     (''r_X'', NS_ACCESS), (''r__'', NS_ACCESS), (''r_x'', NS_ACCESS),
     (''readable'', NS_ACCESS), (''rpmlib'', NS_RPMLIB), (''running'', NS_RUNNING),
     (''rwX'', NS_ACCESS), (''rw_'', NS_ACCESS), (''rwx'', NS_ACCESS),
     (''sanitycheck'', NS_SANITY), (''signature'', NS_SIGNATURE), (''soname'', NS_SONAME),
     (''uname'', NS_UNAME), (''user'', NS_USER), (''vcheck'', NS_VCHECK),
     (''verify'', NS_VERIFY), (''writable'', NS_ACCESS)]"

text \<open>The comparison of the probe loop, against the first \<open>NSlen\<close> characters of the entry.\<close>

definition probe_cmp :: "nat \<Rightarrow> string \<Rightarrow> string \<times> nsType \<Rightarrow> int" where
  "probe_cmp slen s av = strncmp s (fst av) (if slen > length (fst av) then length (fst av) else slen)"

definition rpmnsProbe :: "string \<Rightarrow> nsType" where
  "rpmnsProbe s =
     (case strchr s (CHR '')'') of
        None \<Rightarrow> NS_UNKNOWN
      | Some se \<Rightarrow>
          let slen = length s - length se in
          if slen < length ''ABC()'' then NS_UNKNOWN
          else (case bsearch (probe_cmp slen) s rpmnsProbes of
            None \<Rightarrow> NS_UNKNOWN
          | Some i \<Rightarrow>
              let av = rpmnsProbes ! i; NSlen = (if slen > length (fst av) then length (fst av) else slen) in
              if deref_at s NSlen = cval (CHR ''('') then snd av else NS_UNKNOWN))"

section \<open>Classification\<close>

definition starts :: "string \<Rightarrow> string \<Rightarrow> bool" where
  "starts p s \<longleftrightarrow> take (length p) s = p"

text \<open>
  The scan of \<open>rpmnsClassify\<close>: \<open>prev\<close> is the character before \<open>se\<close> in memory (\<open>None\<close> before the
  first byte of the buffer). The expression \<open>se[--slen]\<close> steps back as \<open>se\<close> steps forward, so it
  reads the last character every time; \<open>last_paren\<close> says whether that is a parenthesis.
\<close>

fun classify_scan :: "bool \<Rightarrow> char option \<Rightarrow> string \<Rightarrow> nsType outcome" where
  "classify_scan last_paren prev [] = ok NS_STRING"
| "classify_scan last_paren prev (c # se) =
     (if c = CHR ''('' \<or> last_paren then ok NS_NAMESPACE
      else if starts ''.so'' (c # se) then ok NS_DSO
      else if c = CHR ''.'' \<and> prev = None then Inl OutOfBounds
      else if c = CHR ''.'' \<and> dig (the prev) \<and> xisdigit (deref se) then ok NS_VERSION
      else if c = rpmns_N_at_A \<and> rpmnsArch se \<noteq> NS_UNKNOWN then ok NS_ARCH
      else if c = CHR ''.'' then ok NS_COMPOUND
      else classify_scan last_paren (Some c) se)"

text \<open>The caller passes the length of the string.\<close>

definition rpmnsClassify :: "string \<Rightarrow> nsType outcome" where
  "rpmnsClassify str =
     (let neg = (str \<noteq> [] \<and> hd str = CHR ''!'');
          s = (if neg then tl str else str);
          prev = (if neg then Some (CHR ''!'') else None);
          slen = length s in
      if s \<noteq> [] \<and> hd s = CHR ''/'' then ok NS_PATH
      else if starts ''%{'' s \<and> last s = CHR ''}'' then ok NS_FUNCTION
      else if slen > 3 \<and> drop (slen - 3) s = ''.so'' then ok NS_DSO
      else let Type = rpmnsProbe s in
        if Type \<noteq> NS_UNKNOWN then ok Type
        else classify_scan (s \<noteq> [] \<and> last s = CHR '')'') prev s)"

section \<open>Parsing\<close>

definition ns_is_probe :: "nsType \<Rightarrow> bool" where
  "ns_is_probe t \<longleftrightarrow> t \<in> {NS_RPMLIB, NS_CPUINFO, NS_GETCONF, NS_UNAME, NS_SONAME, NS_ACCESS, NS_USER,
     NS_GROUP, NS_MOUNTED, NS_DISKSPACE, NS_DIGEST, NS_GNUPG, NS_MACRO, NS_ENVVAR, NS_RUNNING,
     NS_SANITY, NS_VCHECK, NS_SIGNATURE, NS_VERIFY}"

definition index_of :: "string \<Rightarrow> string option \<Rightarrow> nat option" where
  "index_of s p = map_option (\<lambda>q. length s - length q) p"

text \<open>
  \<open>str\<close> is the expanded name. Where the last character of the name inside the parentheses is
  cut, \<open>t[strlen(t)-1]\<close>, an empty rest would be written one byte before \<open>t\<close>, at the NUL just
  written; the model writes there too.
\<close>

definition rpmnsParse :: "(string \<Rightarrow> string) \<Rightarrow> string \<Rightarrow> rpmns outcome" where
  "rpmnsParse expand s =
     (let t = expand s; buf = t @ [NUL]; start = (if starts ''!'' t then 1 else 0) in
      andThen (rpmnsClassify t) (\<lambda>Type.
        if Type = NS_ARCH then
          (case index_of t (strrchr t rpmns_N_at_A) of
             Some k \<Rightarrow> ok \<lparr>ns_str = Some (buf[k := NUL]), ns_Type = Type, ns_NS = None, ns_N = Some start,
                          ns_A = Some (Suc k), ns_Flags = 0\<rparr>
           | None \<Rightarrow> ok \<lparr>ns_str = Some buf, ns_Type = Type, ns_NS = None, ns_N = Some start,
                         ns_A = None, ns_Flags = 0\<rparr>)
        else if ns_is_probe Type then
          (case index_of t (strchr t (CHR ''('')) of
             Some k \<Rightarrow>
               let e = k + length (drop (Suc k) t) in
               ok \<lparr>ns_str = Some (buf[k := NUL, e := NUL]), ns_Type = Type, ns_NS = Some start,
                   ns_N = Some (Suc k), ns_A = None, ns_Flags = 0\<rparr>
           | None \<Rightarrow> ok \<lparr>ns_str = Some buf, ns_Type = Type, ns_NS = Some start, ns_N = None,
                         ns_A = None, ns_Flags = 0\<rparr>)
        else ok \<lparr>ns_str = Some buf, ns_Type = Type, ns_NS = None, ns_N = Some start, ns_A = None,
                 ns_Flags = 0\<rparr>))"

text \<open>What a pointer of the parsed name reads as.\<close>

definition ns_read :: "rpmns \<Rightarrow> nat option \<Rightarrow> string option" where
  "ns_read ns p = (case (ns_str ns, p) of (Some buf, Some off) \<Rightarrow> Some (cstr_at buf off) | _ \<Rightarrow> None)"

section \<open>The probe table\<close>

lemma strncmp_noprefix:
  "\<not> prefix a b \<Longrightarrow> \<not> prefix b a \<Longrightarrow> min (length a) (length b) \<le> n \<Longrightarrow> strncmp (a @ r) b n = strcmp a b"
proof (induction a b arbitrary: n rule: strcmp.induct)
  case (4 a as b bs)
  then show ?case by (cases n) auto
qed auto

lemma probes_sorted: "sorted_wrt (\<lambda>x y. strcmp (fst x) (fst y) < 0) rpmnsProbes"
  by code_simp

lemma probes_noprefix: "\<forall>x\<in>set rpmnsProbes. \<forall>y\<in>set rpmnsProbes. prefix (fst x) (fst y) \<longrightarrow> x = y"
  unfolding Ball_set[symmetric] by code_simp

lemma probes_names: "\<forall>x\<in>set rpmnsProbes. 3 \<le> length (fst x) \<and> (\<forall>c\<in>set (fst x). c \<notin> set ''()/%!.'')"
  unfolding Ball_set[symmetric] by code_simp

lemma probe_cmp_entry:
  assumes "x \<in> set rpmnsProbes" "y \<in> set rpmnsProbes" "length (fst x) < slen"
  shows "probe_cmp slen (fst x @ r) y = strcmp (fst x) (fst y)"
proof (cases "x = y")
  case True
  then show ?thesis using assms strncmp_take[of "fst y @ r" "fst y" "length (fst y)"] by (simp add: probe_cmp_def)
next
  case False
  then have "\<not> prefix (fst x) (fst y)" "\<not> prefix (fst y) (fst x)" using probes_noprefix assms by blast+
  then show ?thesis using assms(3) by (simp add: probe_cmp_def strncmp_noprefix)
qed

lemma probe_search:
  assumes "x \<in> set rpmnsProbes" "length (fst x) < slen"
  shows "\<exists>i. bsearch (probe_cmp slen) (fst x @ r) rpmnsProbes = Some i \<and> rpmnsProbes ! i = x"
proof -
  have eq: "bsearch (probe_cmp slen) (fst x @ r) rpmnsProbes = bsearch strcmp (fst x) (map fst rpmnsProbes)"
    by (rule bsearch_cong) (use probe_cmp_entry[OF assms(1) _ assms(2)] in simp_all)
  have ord: "strc.ordered (map fst rpmnsProbes)"
    using probes_sorted unfolding strc.ordered_def sorted_wrt_map by (rule sorted_wrt_mono_rel[rotated]) simp
  obtain i where i: "bsearch strcmp (fst x) (map fst rpmnsProbes) = Some i"
    using strc.bsearch_mem[OF _ TrueI ord, of "fst x"] assms by auto
  then have "i < length rpmnsProbes" "fst x = fst (rpmnsProbes ! i)"
    using bsearch_Some[OF i] by auto
  then have "rpmnsProbes ! i = x"
    using probes_noprefix assms(1) by (metis nth_mem prefix_order.refl)
  then show ?thesis using eq i by auto
qed

lemma strchr_first: "c \<notin> set a \<Longrightarrow> strchr (a @ c # r) c = Some (c # r)"
  by (induction a) auto

lemma rpmnsProbe_entry:
  assumes "x \<in> set rpmnsProbes" "CHR '')'' \<notin> set arg" "arg \<noteq> []"
  shows "rpmnsProbe (fst x @ CHR ''('' # arg @ CHR '')'' # r) = snd x"
proof -
  let ?s = "fst x @ CHR ''('' # arg @ CHR '')'' # r"
  have n: "3 \<le> length (fst x)" "CHR '')'' \<notin> set (fst x @ CHR ''('' # arg)" "length (fst x) < length (fst x) + Suc (length arg)"
    using probes_names assms by auto
  have c: "strchr ?s (CHR '')'') = Some (CHR '')'' # r)"
    using strchr_first[OF n(2), of r] by simp
  obtain i where i: "bsearch (probe_cmp (length (fst x) + Suc (length arg))) ?s rpmnsProbes = Some i"
    "rpmnsProbes ! i = x" using probe_search[OF assms(1) n(3)] by blast
  have len: "\<not> length (fst x) + Suc (length arg) < length ''ABC()''" using n assms(3) by (cases arg) auto
  show ?thesis using c i len by (simp add: rpmnsProbe_def Let_def deref_at_def)
qed

section \<open>Properties\<close>

lemma cstr_at_sep: "NUL \<notin> set a \<Longrightarrow> cstr_at (pre @ a @ NUL # r) (length pre) = a"
  unfolding cstr_at_def by (simp, subst takeWhile_append2) auto

text \<open>A probe dependency \<open>NS(arg)\<close> is split into its parts: the binary search over the probe table
  finds every entry, and the parser stores the name space and the argument, without
  architecture, for every probe of the table but \<open>config\<close> (which the parser leaves whole).\<close>

theorem rpmnsParse_probe:
  assumes "(ns, ty) \<in> set rpmnsProbes" "ty \<noteq> NS_CONFIG"
    and "arg \<noteq> []" "CHR '')'' \<notin> set arg" "NUL \<notin> set arg"
    and "expand s = ns @ CHR ''('' # arg @ '')''"
  shows "\<exists>r. rpmnsParse expand s = ok r \<and> ns_Type r = ty \<and> ns_read r (ns_NS r) = Some ns \<and>
    ns_read r (ns_N r) = Some arg \<and> ns_A r = None"
proof -
  let ?t = "ns @ CHR ''('' # arg @ '')''"
  have nm: "3 \<le> length ns" "\<forall>c\<in>set ns. c \<notin> set ''()/%!.''" using probes_names assms(1) by force+
  obtain c cs where ns: "ns = c # cs" "c \<noteq> CHR ''!''" "c \<noteq> CHR ''/''" "c \<noteq> CHR ''%''"
    using nm by (cases ns) auto
  have nn: "NUL \<notin> set ns"
  proof -
    have "\<forall>x\<in>set rpmnsProbes. NUL \<notin> set (fst x)" unfolding Ball_set[symmetric] by code_simp
    then show ?thesis using assms(1) by force
  qed
  have types: "\<forall>x\<in>set rpmnsProbes. snd x \<noteq> NS_CONFIG \<longrightarrow> ns_is_probe (snd x) \<and> snd x \<noteq> NS_UNKNOWN \<and> snd x \<noteq> NS_ARCH"
    unfolding Ball_set[symmetric] by code_simp
  then have ty: "ns_is_probe ty" "ty \<noteq> NS_UNKNOWN" "ty \<noteq> NS_ARCH" using assms(1,2) by force+
  have so: "drop (length ?t - 3) ?t \<noteq> ''.so''"
  proof
    assume "drop (length ?t - 3) ?t = ''.so''"
    then have "last (drop (length ?t - 3) ?t) = CHR ''o''" by simp
    then show False by (simp add: last_drop)
  qed
  have pr: "rpmnsProbe ?t = ty" using rpmnsProbe_entry[OF assms(1,4,3), of "[]"] by simp
  have cl: "rpmnsClassify ?t = ok ty"
    using ns so pr ty unfolding rpmnsClassify_def Let_def by (simp add: starts_def)
  have "CHR ''('' \<notin> set ns" using nm by auto
  then have ix: "index_of ?t (strchr ?t (CHR ''('')) = Some (length ns)"
    by (simp add: index_of_def strchr_first)
  let ?e = "length ns + length (arg @ '')'')"
  have buf: "(?t @ [NUL])[length ns := NUL, ?e := NUL] = ns @ NUL # arg @ [NUL, NUL]"
    by (simp add: list_update_append)
  let ?r = "\<lparr>ns_str = Some (ns @ NUL # arg @ [NUL, NUL]), ns_Type = ty, ns_NS = Some 0, ns_N = Some (Suc (length ns)),
      ns_A = None, ns_Flags = 0\<rparr>"
  have "rpmnsParse expand s = ok ?r"
    using assms(6) cl ty ix buf ns unfolding rpmnsParse_def Let_def by (simp add: starts_def)
  moreover have "ns_read ?r (ns_NS ?r) = Some ns"
    using cstr_at_sep[OF nn, of "[]" "arg @ [NUL, NUL]"] by (simp add: ns_read_def)
  moreover have "ns_read ?r (ns_N ?r) = Some arg"
    using cstr_at_sep[OF assms(5), of "ns @ [NUL]" "[NUL]"] by (simp add: ns_read_def)
  ultimately show ?thesis by (intro exI[of _ ?r]) simp
qed

theorem rpmnsParse_probe_witness:
  "\<exists>r. rpmnsParse id ''rpmlib(VersionedDependencies)'' = ok r \<and> ns_read r (ns_N r) = Some ''VersionedDependencies''"
proof -
  have m: "(''rpmlib'', NS_RPMLIB) \<in> set rpmnsProbes" by (simp add: rpmnsProbes_def)
  have "\<exists>r. rpmnsParse id ''rpmlib(VersionedDependencies)'' = ok r \<and> ns_Type r = NS_RPMLIB \<and>
      ns_read r (ns_NS r) = Some ''rpmlib'' \<and> ns_read r (ns_N r) = Some ''VersionedDependencies'' \<and> ns_A r = None"
    by (rule rpmnsParse_probe[OF m]) simp_all
  then show ?thesis by blast
qed

text \<open>a dependency name that starts with a dot, and is neither a probe nor in parentheses nor a shared
  object, makes the classifier read the byte before the buffer.\<close>

theorem rpmnsClassify_leading_dot:
  assumes "CHR '')'' \<notin> set s" "\<not> starts ''so'' s" "drop (length s - 2) (CHR ''.'' # s) \<noteq> ''.so''"
  shows "rpmnsClassify (CHR ''.'' # s) = Inl OutOfBounds"
proof -
  have "rpmnsProbe (CHR ''.'' # s) = NS_UNKNOWN"
    using assms(1) strchr_None[of "CHR ''.'' # s" "CHR '')''"] by (simp add: rpmnsProbe_def)
  moreover have "last (CHR ''.'' # s) \<noteq> CHR '')''"
    using assms(1) last_in_set[of "CHR ''.'' # s"] by auto
  ultimately show ?thesis
    using assms(2,3) by (auto simp: rpmnsClassify_def Let_def starts_def)
qed

theorem rpmnsClassify_leading_dot_witness: "rpmnsClassify ''.config'' = Inl OutOfBounds"
  by (rule rpmnsClassify_leading_dot) (simp_all add: starts_def)

end
