(* ===== verification/Url.thy ===== *)
theory Url
  imports CLib
begin

text \<open>
  The path of a URL (\<open>rpmio/url.c\<close>): a suffix of it, or \<open>None\<close> for the static empty string that
  stands for a missing path. \<open>url_type\<close> is the kind that \<open>urlPath\<close> returns beside the path.
\<close>

definition urlstrings :: "string list" where
  "urlstrings = [''file://'', ''ftp://'', ''hkp://'', ''http://'', ''https://'', ''mongo://'', ''mongodb://'', ''-'']"

fun url_leadin :: "string list \<Rightarrow> string \<Rightarrow> string option" where
  "url_leadin [] url = Some url"
| "url_leadin (u # us) url =
     (if strncmp url u (length u) \<noteq> 0 then url_leadin us url
      else strchr (drop (length u) url) (CHR ''/''))"

definition urlPath :: "string \<Rightarrow> string option" where
  "urlPath url = (if url \<noteq> [] \<and> hd url \<noteq> CHR ''/'' then url_leadin urlstrings url else Some url)"

text \<open>The kinds of \<open>urltype\<close>, in the order of \<open>urlstrings\<close>; 0 is an unknown one, 1 the dash.\<close>

definition url_types :: "nat list" where
  "url_types = [2, 3, 6, 4, 5, 7, 7, 1]"

fun url_kind :: "(string \<times> nat) list \<Rightarrow> string \<Rightarrow> nat" where
  "url_kind [] url = 0"
| "url_kind ((u, t) # us) url = (if strncmp url u (length u) \<noteq> 0 then url_kind us url else t)"

definition urlIsURL :: "string \<Rightarrow> nat" where
  "urlIsURL url =
     (if url \<noteq> [] \<and> hd url \<noteq> CHR ''/'' then url_kind (zip urlstrings url_types) url else 0)"

lemma url_leadin_suffix: "url_leadin us url = Some p \<Longrightarrow> \<exists>q. url = q @ p"
proof (induction us)
  case (Cons u us)
  show ?case
  proof (cases "strncmp url u (length u) = 0")
    case True
    then obtain pre where "drop (length u) url = pre @ p"
      using Cons.prems strchr_split[of "drop (length u) url" "CHR ''/''" p] by auto
    then have "url = (take (length u) url @ pre) @ p" by (metis append.assoc append_take_drop_id)
    then show ?thesis by blast
  next
    case False
    with Cons show ?thesis by simp
  qed
qed auto

lemma urlPath_suffix: "urlPath url = Some p \<Longrightarrow> \<exists>q. url = q @ p"
  using url_leadin_suffix by (auto simp: urlPath_def split: if_splits)

end
