(* ===== verification/Ds.thy ===== *)
theory Ds
  imports Ns Url
begin

unbundle bit_operations_syntax

text \<open>
  Dependency sets: \<open>lib/rpmds.c\<close> with the structures of \<open>lib/rpmds.h\<close>. This theory holds the
  model: construction (\<open>rpmdsNew\<close>, \<open>rpmdsThis\<close>, \<open>rpmdsSingle\<close>), the accessors, iteration,
  the formatted name \<open>DNEVR\<close>, search and merge of sorted sets, the collections \<open>rpmPRCO\<close>, and
  the comparison of two dependencies with the matching built on it.

  A set is a record with the arrays of the structure. An array of pointers is the list of
  its slots, with the terminating null pointer only where the code allocates one, so that a
  write past the last slot is a fault of the model; \<open>None\<close> in a slot is a null pointer. A set
  that may be a null pointer is an \<open>option\<close>. Every operation returns the sets it changes.

  The environment \<open>dsenv\<close> holds what the code takes from elsewhere: macro expansion, the
  tuple order, the pattern matcher of \<open>rpmEVRparse\<close>, the functions behind the two function
  pointers (by number), tag names, and the path generator \<open>rpmGenPath\<close>. The record \<open>hdr\<close>
  is what \<open>headerGet\<close> returns for a package header.
\<close>

section \<open>Types\<close>

record dsenv =
  rpmExpand :: "string \<Rightarrow> string"
  evr_tuple_order :: string
  evr_regexec :: "string \<Rightarrow> (int \<times> int) list"
  evr_parsers :: "nat \<Rightarrow> string \<Rightarrow> EVR outcome"
  evr_cmps :: "nat \<Rightarrow> string \<Rightarrow> string \<Rightarrow> int outcome"
  tagName :: "nat \<Rightarrow> string"
  rpmGenPath :: "string \<Rightarrow> string \<Rightarrow> string"

record hdr =
  h_argv :: "nat \<Rightarrow> string list option"
  h_ui32 :: "nat \<Rightarrow> u32 list option"
  h_str :: "nat \<Rightarrow> string option"

record rpmds =
  ds_Type :: "string option"
  ds_DNEVR :: "string option"
  ds_N :: "string option list"
  ds_EVR :: "string option list option"
  ds_Flags :: "u32 list option"
  ds_Color :: "u32 list option"
  ds_Refs :: "u32 list option"
  ds_Result :: "u32 list option"
  ds_EVRparse :: "nat option"
  ds_EVRcmp :: "nat option"
  ds_ns :: rpmns
  ds_A :: "string option"
  ds_BT :: u32
  ds_tagN :: nat
  ds_Count :: nat
  ds_i :: int
  ds_l :: nat
  ds_u :: nat
  ds_nopromote :: bool

text \<open>\<open>rpmdsGetPool\<close> returns a zeroed structure.\<close>

definition rpmdsGetPool :: rpmds where
  "rpmdsGetPool =
     \<lparr>ds_Type = None, ds_DNEVR = None, ds_N = [], ds_EVR = None, ds_Flags = None, ds_Color = None,
      ds_Refs = None, ds_Result = None, ds_EVRparse = None, ds_EVRcmp = None, ds_ns = rpmns_zero,
      ds_A = None, ds_BT = 0, ds_tagN = 0, ds_Count = 0, ds_i = 0, ds_l = 0, ds_u = 0,
      ds_nopromote = False\<rparr>"

abbreviation (input) "RPMTAG_NAME \<equiv> 1000 :: nat"
abbreviation (input) "RPMTAG_VERSION \<equiv> 1001 :: nat"
abbreviation (input) "RPMTAG_RELEASE \<equiv> 1002 :: nat"
abbreviation (input) "RPMTAG_EPOCH \<equiv> 1003 :: nat"
abbreviation (input) "RPMTAG_BUILDTIME \<equiv> 1006 :: nat"
abbreviation (input) "RPMTAG_ARCH \<equiv> 1022 :: nat"
abbreviation (input) "RPMTAG_FILELINKTOS \<equiv> 1036 :: nat"
abbreviation (input) "RPMTAG_PROVIDENAME \<equiv> 1047 :: nat"
abbreviation (input) "RPMTAG_REQUIREFLAGS \<equiv> 1048 :: nat"
abbreviation (input) "RPMTAG_REQUIRENAME \<equiv> 1049 :: nat"
abbreviation (input) "RPMTAG_REQUIREVERSION \<equiv> 1050 :: nat"
abbreviation (input) "RPMTAG_CONFLICTFLAGS \<equiv> 1053 :: nat"
abbreviation (input) "RPMTAG_CONFLICTNAME \<equiv> 1054 :: nat"
abbreviation (input) "RPMTAG_CONFLICTVERSION \<equiv> 1055 :: nat"
abbreviation (input) "RPMTAG_TRIGGERNAME \<equiv> 1066 :: nat"
abbreviation (input) "RPMTAG_TRIGGERVERSION \<equiv> 1067 :: nat"
abbreviation (input) "RPMTAG_TRIGGERFLAGS \<equiv> 1068 :: nat"
abbreviation (input) "RPMTAG_OBSOLETENAME \<equiv> 1090 :: nat"
abbreviation (input) "RPMTAG_PROVIDEFLAGS \<equiv> 1112 :: nat"
abbreviation (input) "RPMTAG_PROVIDEVERSION \<equiv> 1113 :: nat"
abbreviation (input) "RPMTAG_OBSOLETEFLAGS \<equiv> 1114 :: nat"
abbreviation (input) "RPMTAG_OBSOLETEVERSION \<equiv> 1115 :: nat"
abbreviation (input) "RPMTAG_DIRINDEXES \<equiv> 1116 :: nat"
abbreviation (input) "RPMTAG_BASENAMES \<equiv> 1117 :: nat"
abbreviation (input) "RPMTAG_DIRNAMES \<equiv> 1118 :: nat"
abbreviation (input) "RPMTAG_SUGGESTSNAME \<equiv> 1156 :: nat"
abbreviation (input) "RPMTAG_SUGGESTSVERSION \<equiv> 1157 :: nat"
abbreviation (input) "RPMTAG_SUGGESTSFLAGS \<equiv> 1158 :: nat"
abbreviation (input) "RPMTAG_ENHANCESNAME \<equiv> 1159 :: nat"
abbreviation (input) "RPMTAG_ENHANCESVERSION \<equiv> 1160 :: nat"
abbreviation (input) "RPMTAG_ENHANCESFLAGS \<equiv> 1161 :: nat"

definition rpmdsTagName :: "dsenv \<Rightarrow> nat \<Rightarrow> string" where
  "rpmdsTagName e tagN =
     (if tagN = RPMTAG_PROVIDENAME then ''Provides''
      else if tagN = RPMTAG_REQUIRENAME then ''Requires''
      else if tagN = RPMTAG_CONFLICTNAME then ''Conflicts''
      else if tagN = RPMTAG_OBSOLETENAME then ''Obsoletes''
      else if tagN = RPMTAG_TRIGGERNAME then ''Triggers''
      else if tagN = RPMTAG_SUGGESTSNAME then ''Suggests''
      else if tagN = RPMTAG_ENHANCESNAME then ''Enhances''
      else if tagN = RPMTAG_DIRNAMES then ''Dirs''
      else if tagN = RPMTAG_BASENAMES then ''Files''
      else if tagN = RPMTAG_FILELINKTOS then ''Linktos''
      else if tagN = 0 then ''Unknown''
      else tagName e tagN)"

section \<open>Arrays of strings\<close>

definition str_slot :: "string option list \<Rightarrow> int \<Rightarrow> string outcome" where
  "str_slot av i = andThen (slot av i) nonnull"

fun dup_argv :: "string option list \<Rightarrow> nat \<Rightarrow> string option list outcome" where
  "dup_argv av 0 = ok [None]"
| "dup_argv [] (Suc argc) = Inl OutOfBounds"
| "dup_argv (None # av) (Suc argc) = Inl AssertFail"
| "dup_argv (Some s # av) (Suc argc) = andThen (dup_argv av argc) (\<lambda>r. ok (Some s # r))"

definition rpmdsDupArgv :: "string option list option \<Rightarrow> nat \<Rightarrow> string option list option outcome" where
  "rpmdsDupArgv argv argc =
     (case argv of None \<Rightarrow> ok None | Some av \<Rightarrow> andThen (dup_argv av argc) (\<lambda>r. ok (Some r)))"

section \<open>The formatted dependency\<close>

definition rpmdsNewN :: "dsenv \<Rightarrow> rpmds \<Rightarrow> (rpmds \<times> string option) outcome" where
  "rpmdsNewN e ds =
     andThen (str_slot (ds_N ds) (ds_i ds)) (\<lambda>Name.
     andThen (rpmnsParse (rpmExpand e) Name) (\<lambda>ns.
     ok (ds\<lparr>ds_ns := ns\<rparr>, ns_read ns (ns_N ns))))"

text \<open>\<open>ds->Flags[ds->i] & RPMSENSE_SENSEMASK\<close>, and \<open>ds->EVR[ds->i]\<close> where it is not empty.\<close>

definition cur_sense :: "rpmds \<Rightarrow> u32 outcome" where
  "cur_sense ds =
     (case ds_Flags ds of None \<Rightarrow> ok 0
      | Some fl \<Rightarrow> andThen (slot fl (ds_i ds)) (\<lambda>f. ok (f AND RPMSENSE_SENSEMASK)))"

definition cur_evr :: "rpmds \<Rightarrow> string option outcome" where
  "cur_evr ds =
     (case ds_EVR ds of None \<Rightarrow> ok None
      | Some ev \<Rightarrow> andThen (slot ev (ds_i ds)) (\<lambda>p. ok (if p = Some [] then None else p)))"

text \<open>The size of the buffer is computed first, part by part: \<open>nb\<close> is the size so far.\<close>

definition name_size :: "string option \<Rightarrow> bool \<Rightarrow> string option \<Rightarrow> string option \<Rightarrow> string option \<Rightarrow> nat" where
  "name_size dspfx neg NS N A =
     (let nb = 0;
          nb = (case dspfx of Some p \<Rightarrow> nb + length p + 1 | None \<Rightarrow> nb);
          nb = (if neg then nb + 1 else nb);
          nb = (case NS of Some s \<Rightarrow> nb + length s + (3 - 1) | None \<Rightarrow> nb);
          nb = (case N of Some s \<Rightarrow> nb + length s | None \<Rightarrow> nb)
      in case A of Some s \<Rightarrow> nb + 1 + length s | None \<Rightarrow> nb)"

definition sense_size :: "nat \<Rightarrow> u32 \<Rightarrow> nat" where
  "sense_size nb dsFlags =
     (if dsFlags \<noteq> 0 then
        let nb = (if nb \<noteq> 0 then nb + 1 else nb) in
        if dsFlags = RPMSENSE_NOTEQUAL then nb + 2
        else let nb = (if has dsFlags RPMSENSE_LESS then nb + 1 else nb);
                 nb = (if has dsFlags RPMSENSE_GREATER then nb + 1 else nb)
             in if has dsFlags RPMSENSE_EQUAL then nb + 1 else nb
      else nb)"

definition evr_size :: "nat \<Rightarrow> string option \<Rightarrow> nat" where
  "evr_size nb evr =
     (case evr of Some v \<Rightarrow> (if nb \<noteq> 0 then nb + 1 else nb) + length v | None \<Rightarrow> nb)"

text \<open>Then the parts are written: \<open>t\<close> is the text so far.\<close>

definition name_text :: "string option \<Rightarrow> bool \<Rightarrow> string option \<Rightarrow> string option \<Rightarrow> string option \<Rightarrow> string" where
  "name_text dspfx neg NS N A =
     (let t = [];
          t = (case dspfx of Some p \<Rightarrow> t @ p @ '' '' | None \<Rightarrow> t);
          t = (if neg then t @ ''!'' else t);
          t = (case NS of Some s \<Rightarrow> t @ s @ ''('' | None \<Rightarrow> t);
          t = (case N of Some s \<Rightarrow> t @ s | None \<Rightarrow> t);
          t = (case NS of Some s \<Rightarrow> t @ '')'' | None \<Rightarrow> t)
      in case A of Some s \<Rightarrow> t @ [rpmns_N_at_A] @ s | None \<Rightarrow> t)"

definition sense_text :: "string \<Rightarrow> u32 \<Rightarrow> string" where
  "sense_text t dsFlags =
     (if dsFlags \<noteq> 0 then
        let t = (if t \<noteq> [] then t @ '' '' else t) in
        if dsFlags = RPMSENSE_NOTEQUAL then t @ ''!=''
        else let t = (if has dsFlags RPMSENSE_LESS then t @ ''<'' else t);
                 t = (if has dsFlags RPMSENSE_GREATER then t @ ''>'' else t)
             in if has dsFlags RPMSENSE_EQUAL then t @ ''='' else t
      else t)"

definition evr_text :: "string \<Rightarrow> string option \<Rightarrow> string" where
  "evr_text t evr = (case evr of Some v \<Rightarrow> (if t \<noteq> [] then t @ '' '' else t) @ v | None \<Rightarrow> t)"

text \<open>The buffer has \<open>nb + 1\<close> bytes; the text is written into it with its terminator.\<close>

definition rpmdsNewDNEVR :: "dsenv \<Rightarrow> string option \<Rightarrow> rpmds \<Rightarrow> (rpmds \<times> string) outcome" where
  "rpmdsNewDNEVR e dspfx ds =
     andThen (rpmdsNewN e ds) (\<lambda>(ds, N).
     andThen (cur_sense ds) (\<lambda>dsFlags.
     andThen (cur_evr ds) (\<lambda>evr.
       let ns = ds_ns ds; NS = ns_read ns (ns_NS ns); A = ns_read ns (ns_A ns);
           neg = starts ''!'' (the (ns_str ns));
           nb = evr_size (sense_size (name_size dspfx neg NS N A) dsFlags) evr;
           t = evr_text (sense_text (name_text dspfx neg NS N A) dsFlags) evr
       in guardC BufferOverflow (length t + 1 \<le> nb + 1)
            (ok (ds\<lparr>ds_ns := ns\<lparr>ns_Flags := dsFlags\<rparr>\<rparr>, t)))))"

section \<open>Construction\<close>

definition tag_evr :: "nat \<Rightarrow> (nat \<times> nat) option" where
  "tag_evr tagN =
     (if tagN = RPMTAG_PROVIDENAME then Some (RPMTAG_PROVIDEVERSION, RPMTAG_PROVIDEFLAGS)
      else if tagN = RPMTAG_REQUIRENAME then Some (RPMTAG_REQUIREVERSION, RPMTAG_REQUIREFLAGS)
      else if tagN = RPMTAG_CONFLICTNAME then Some (RPMTAG_CONFLICTVERSION, RPMTAG_CONFLICTFLAGS)
      else if tagN = RPMTAG_OBSOLETENAME then Some (RPMTAG_OBSOLETEVERSION, RPMTAG_OBSOLETEFLAGS)
      else if tagN = RPMTAG_TRIGGERNAME then Some (RPMTAG_TRIGGERVERSION, RPMTAG_TRIGGERFLAGS)
      else if tagN = RPMTAG_SUGGESTSNAME then Some (RPMTAG_SUGGESTSVERSION, RPMTAG_SUGGESTSFLAGS)
      else if tagN = RPMTAG_ENHANCESNAME then Some (RPMTAG_ENHANCESVERSION, RPMTAG_ENHANCESFLAGS)
      else if tagN = RPMTAG_DIRNAMES then Some (0, 0)
      else if tagN = RPMTAG_BASENAMES then Some (RPMTAG_DIRNAMES, RPMTAG_DIRINDEXES)
      else if tagN = RPMTAG_FILELINKTOS then Some (RPMTAG_DIRNAMES, RPMTAG_DIRINDEXES)
      else None)"

text \<open>
  Directory names lose their trailing slash, unless they are \<open>/\<close> or \<open>delslash\<close> is off. The
  static empty string lies below the heap, so it does not replace a name.
\<close>

definition trim_dirname :: "string \<Rightarrow> string" where
  "trim_dirname n =
     (let dn = (case urlPath n of Some p \<Rightarrow> p | None \<Rightarrow> n) in
      if length dn > 1 \<and> last dn = CHR ''/'' then butlast dn else dn)"

definition dir_slot :: "rpmds \<Rightarrow> nat \<Rightarrow> string outcome" where
  "dir_slot ds i =
     andThen (nonnull (ds_Flags ds)) (\<lambda>fl. andThen (slot fl (int i)) (\<lambda>f.
     andThen (nonnull (ds_EVR ds)) (\<lambda>ev. str_slot ev (uint f))))"

fun base_paths :: "dsenv \<Rightarrow> rpmds \<Rightarrow> nat \<Rightarrow> string list \<Rightarrow> string option list outcome" where
  "base_paths e ds i [] = ok []"
| "base_paths e ds i (n # ns) =
     andThen (dir_slot ds i) (\<lambda>d.
       let dn = (case urlPath d of Some p \<Rightarrow> p | None \<Rightarrow> []) in
       andThen (base_paths e ds (Suc i) ns) (\<lambda>r. ok (Some (rpmGenPath e dn n) # r)))"

fun linkto_paths :: "dsenv \<Rightarrow> rpmds \<Rightarrow> nat \<Rightarrow> string list \<Rightarrow> string option list outcome" where
  "linkto_paths e ds i [] = ok []"
| "linkto_paths e ds i (n # ns) =
     andThen
       (if n = [] then ok []
        else if hd n = CHR ''/'' then ok n
        else if ds_EVR ds \<noteq> None \<and> ds_Flags ds \<noteq> None then
          andThen (dir_slot ds i) (\<lambda>d. ok (rpmGenPath e d n))
        else ok [])
       (\<lambda>p. andThen (linkto_paths e ds (Suc i) ns) (\<lambda>r. ok (Some p # r)))"

definition hdr_u32 :: "hdr \<Rightarrow> nat \<Rightarrow> u32" where
  "hdr_u32 h tag = (case h_ui32 h tag of Some (x # _) \<Rightarrow> x | _ \<Rightarrow> 0)"

text \<open>The set of a package itself: its name, \<open>=\<close>, and \<open>epoch:version-release\<close>.\<close>

definition this_evr :: "u32 \<Rightarrow> string \<Rightarrow> string \<Rightarrow> string" where
  "this_evr E V R = dec_int (sint E) @ '':'' @ V @ ''-'' @ R"

definition rpmdsThis :: "dsenv \<Rightarrow> hdr \<Rightarrow> nat \<Rightarrow> u32 \<Rightarrow> rpmds outcome" where
  "rpmdsThis e h tagN fl =
     (let tagN = (if tagN = RPMTAG_NAME then RPMTAG_PROVIDENAME else tagN);
          Type = rpmdsTagName e tagN;
          E = hdr_u32 h RPMTAG_EPOCH;
          Name = (case h_str h RPMTAG_NAME of Some s \<Rightarrow> s | None \<Rightarrow> ''N'');
          V = (case h_str h RPMTAG_VERSION of Some s \<Rightarrow> s | None \<Rightarrow> ''V'');
          R = (case h_str h RPMTAG_RELEASE of Some s \<Rightarrow> s | None \<Rightarrow> ''R'');
          t = this_evr E V R in
      guardC BufferOverflow (length t + 1 \<le> 20 + length V + length R + 2)
        (let ds = rpmdsGetPool\<lparr>ds_Type := Some Type, ds_tagN := tagN, ds_Count := 1,
                    ds_N := [Some Name], ds_EVR := Some [Some t], ds_Flags := Some [fl],
                    ds_A := h_str h RPMTAG_ARCH, ds_BT := hdr_u32 h RPMTAG_BUILDTIME, ds_i := 0\<rparr> in
         andThen (rpmdsNewDNEVR e (Some (take 1 Type)) ds) (\<lambda>(ds, d). ok (ds\<lparr>ds_DNEVR := Some d\<rparr>))))"

definition rpmdsSingle ::
    "dsenv \<Rightarrow> u32 \<Rightarrow> nat \<Rightarrow> string option \<Rightarrow> string option \<Rightarrow> u32 \<Rightarrow> rpmds outcome" where
  "rpmdsSingle e now tagN N EVR fl =
     (let Type = rpmdsTagName e tagN;
          ds = rpmdsGetPool\<lparr>ds_Type := Some Type, ds_tagN := tagN, ds_A := None, ds_BT := now,
                 ds_Count := 1, ds_N := [N, None], ds_EVR := Some [EVR, None], ds_Flags := Some [fl],
                 ds_i := 0\<rparr> in
      andThen (rpmdsNewDNEVR e (Some (take 1 Type)) ds) (\<lambda>(ds, d). ok (ds\<lparr>ds_DNEVR := Some d\<rparr>)))"

text \<open>
  The set of a header's tag. The arrays that \<open>headerGet\<close> returns have one slot per element
  and no terminator. \<open>delslash\<close> is the negation of the flag bit 2.
\<close>

definition rpmdsNew :: "dsenv \<Rightarrow> bool \<Rightarrow> hdr \<Rightarrow> nat \<Rightarrow> bool \<Rightarrow> rpmds option outcome" where
  "rpmdsNew e nopromote h tagN delslash =
     (if tagN = RPMTAG_NAME then andThen (rpmdsThis e h tagN RPMSENSE_EQUAL) (\<lambda>ds. ok (Some ds))
      else case tag_evr tagN of None \<Rightarrow> ok None
      | Some (tagEVR, tagF) \<Rightarrow>
        (case h_argv h tagN of None \<Rightarrow> ok None
         | Some N \<Rightarrow>
           if N = [] then ok None
           else
             let Count = length N;
                 ds = rpmdsGetPool\<lparr>ds_Type := Some (rpmdsTagName e tagN), ds_i := -1, ds_DNEVR := None,
                        ds_tagN := tagN, ds_N := map Some N, ds_Count := Count, ds_nopromote := nopromote,
                        ds_EVR := (if tagEVR > 0 then map_option (map Some) (h_argv h tagEVR) else None),
                        ds_Flags := (if tagF > 0 then h_ui32 h tagF else None),
                        ds_A := h_str h RPMTAG_ARCH, ds_BT := hdr_u32 h RPMTAG_BUILDTIME\<rparr> in
             if tagN = RPMTAG_DIRNAMES then
               ok (Some (if delslash then ds\<lparr>ds_N := map (\<lambda>n. Some (trim_dirname n)) N\<rparr> else ds))
             else if tagN = RPMTAG_BASENAMES then
               andThen (base_paths e ds 0 N) (\<lambda>av. andThen (dup_argv av Count) (\<lambda>N'.
                 ok (Some (ds\<lparr>ds_N := N', ds_EVR := None, ds_Flags := None\<rparr>))))
             else if tagN = RPMTAG_FILELINKTOS then
               andThen (linkto_paths e ds 0 N) (\<lambda>av. andThen (dup_argv av Count) (\<lambda>N'.
                 ok (Some (ds\<lparr>ds_N := N', ds_EVR := None, ds_Flags := None\<rparr>))))
             else ok (Some ds)))"

section \<open>Accessors\<close>

definition ds_valid :: "rpmds \<Rightarrow> bool" where
  "ds_valid ds \<longleftrightarrow> ds_i ds \<ge> 0 \<and> ds_i ds < int (ds_Count ds)"

definition rpmdsCount :: "rpmds option \<Rightarrow> nat" where
  "rpmdsCount ds = (case ds of Some d \<Rightarrow> ds_Count d | None \<Rightarrow> 0)"

definition rpmdsIx :: "rpmds option \<Rightarrow> int" where
  "rpmdsIx ds = (case ds of Some d \<Rightarrow> ds_i d | None \<Rightarrow> -1)"

definition rpmdsSetIx :: "rpmds option \<Rightarrow> int \<Rightarrow> rpmds option \<times> int" where
  "rpmdsSetIx ds ix = (case ds of Some d \<Rightarrow> (Some (d\<lparr>ds_i := ix\<rparr>), ds_i d) | None \<Rightarrow> (None, -1))"

definition rpmdsDNEVR :: "rpmds option \<Rightarrow> string option" where
  "rpmdsDNEVR ds = (case ds of Some d \<Rightarrow> if ds_valid d then ds_DNEVR d else None | None \<Rightarrow> None)"

definition rpmdsN :: "dsenv \<Rightarrow> rpmds option \<Rightarrow> (rpmds option \<times> string option) outcome" where
  "rpmdsN e ds =
     (case ds of None \<Rightarrow> ok (None, None)
      | Some d \<Rightarrow>
          if ds_valid d then
            (if ns_N (ds_ns d) \<noteq> None then ok (Some d, ns_read (ds_ns d) (ns_N (ds_ns d)))
             else andThen (rpmdsNewN e d) (\<lambda>(d, N). ok (Some d, N)))
          else ok (Some d, None))"

definition rpmdsEVR :: "rpmds option \<Rightarrow> string option outcome" where
  "rpmdsEVR ds =
     (case ds of None \<Rightarrow> ok None
      | Some d \<Rightarrow> if ds_valid d then (case ds_EVR d of Some ev \<Rightarrow> slot ev (ds_i d) | None \<Rightarrow> ok None) else ok None)"

definition rpmdsFlags :: "rpmds option \<Rightarrow> u32 outcome" where
  "rpmdsFlags ds =
     (case ds of None \<Rightarrow> ok 0
      | Some d \<Rightarrow> if ds_valid d then (case ds_Flags d of Some fl \<Rightarrow> slot fl (ds_i d) | None \<Rightarrow> ok 0) else ok 0)"

definition rpmdsTagN :: "rpmds option \<Rightarrow> nat" where
  "rpmdsTagN ds = (case ds of Some d \<Rightarrow> ds_tagN d | None \<Rightarrow> 0)"

definition rpmdsA :: "rpmds option \<Rightarrow> string option" where
  "rpmdsA ds = (case ds of Some d \<Rightarrow> ds_A d | None \<Rightarrow> None)"

definition rpmdsBT :: "rpmds option \<Rightarrow> nat" where
  "rpmdsBT ds = (case ds of Some d \<Rightarrow> if ds_BT d > 0 then unat (ds_BT d) else 0 | None \<Rightarrow> 0)"

definition rpmdsSetBT :: "rpmds option \<Rightarrow> int \<Rightarrow> rpmds option \<times> nat" where
  "rpmdsSetBT ds BT =
     (case ds of Some d \<Rightarrow> (Some (d\<lparr>ds_BT := word_of_int BT\<rparr>), unat (ds_BT d)) | None \<Rightarrow> (None, 0))"

definition rpmdsNSType :: "rpmds option \<Rightarrow> nsType" where
  "rpmdsNSType ds = (case ds of Some d \<Rightarrow> ns_Type (ds_ns d) | None \<Rightarrow> NS_UNKNOWN)"

definition rpmdsNoPromote :: "rpmds option \<Rightarrow> bool" where
  "rpmdsNoPromote ds = (case ds of Some d \<Rightarrow> ds_nopromote d | None \<Rightarrow> False)"

definition rpmdsSetNoPromote :: "rpmds option \<Rightarrow> bool \<Rightarrow> rpmds option \<times> bool" where
  "rpmdsSetNoPromote ds b =
     (case ds of Some d \<Rightarrow> (Some (d\<lparr>ds_nopromote := b\<rparr>), ds_nopromote d) | None \<Rightarrow> (None, False))"

definition rpmdsSetEVRparse :: "rpmds option \<Rightarrow> nat option \<Rightarrow> rpmds option \<times> nat option" where
  "rpmdsSetEVRparse ds f =
     (case ds of Some d \<Rightarrow> (Some (d\<lparr>ds_EVRparse := f\<rparr>), ds_EVRparse d) | None \<Rightarrow> (None, None))"

definition rpmdsSetEVRcmp :: "rpmds option \<Rightarrow> nat option \<Rightarrow> rpmds option \<times> nat option" where
  "rpmdsSetEVRcmp ds f =
     (case ds of Some d \<Rightarrow> (Some (d\<lparr>ds_EVRcmp := f\<rparr>), ds_EVRcmp d) | None \<Rightarrow> (None, None))"

text \<open>The three lazily allocated arrays share their shape: a zeroed array of \<open>Count\<close> elements.\<close>

definition lazy_get :: "u32 list option \<Rightarrow> rpmds \<Rightarrow> u32 outcome" where
  "lazy_get arr d = (if ds_valid d then (case arr of Some a \<Rightarrow> slot a (ds_i d) | None \<Rightarrow> ok 0) else ok 0)"

definition lazy_set :: "u32 list option \<Rightarrow> rpmds \<Rightarrow> u32 \<Rightarrow> (u32 list option \<times> u32) outcome" where
  "lazy_set arr d v =
     (let arr = (if arr = None \<and> ds_Count d > 0 then Some (replicate (ds_Count d) 0) else arr) in
      if ds_valid d then
        (case arr of
           Some a \<Rightarrow> andThen (slot a (ds_i d)) (\<lambda>old. andThen (put_slot a (ds_i d) v) (\<lambda>a. ok (Some a, old)))
         | None \<Rightarrow> ok (None, 0))
      else ok (arr, 0))"

definition rpmdsColor :: "rpmds option \<Rightarrow> u32 outcome" where
  "rpmdsColor ds = (case ds of Some d \<Rightarrow> lazy_get (ds_Color d) d | None \<Rightarrow> ok 0)"

definition rpmdsSetColor :: "rpmds option \<Rightarrow> u32 \<Rightarrow> (rpmds option \<times> u32) outcome" where
  "rpmdsSetColor ds v =
     (case ds of None \<Rightarrow> ok (None, 0)
      | Some d \<Rightarrow> andThen (lazy_set (ds_Color d) d v) (\<lambda>(arr, old). ok (Some (d\<lparr>ds_Color := arr\<rparr>), old)))"

definition rpmdsRefs :: "rpmds option \<Rightarrow> u32 outcome" where
  "rpmdsRefs ds = (case ds of Some d \<Rightarrow> lazy_get (ds_Refs d) d | None \<Rightarrow> ok 0)"

definition rpmdsSetRefs :: "rpmds option \<Rightarrow> u32 \<Rightarrow> (rpmds option \<times> u32) outcome" where
  "rpmdsSetRefs ds v =
     (case ds of None \<Rightarrow> ok (None, 0)
      | Some d \<Rightarrow> andThen (lazy_set (ds_Refs d) d v) (\<lambda>(arr, old). ok (Some (d\<lparr>ds_Refs := arr\<rparr>), old)))"

definition rpmdsResult :: "rpmds option \<Rightarrow> u32 outcome" where
  "rpmdsResult ds = (case ds of Some d \<Rightarrow> lazy_get (ds_Result d) d | None \<Rightarrow> ok 0)"

definition rpmdsSetResult :: "rpmds option \<Rightarrow> u32 \<Rightarrow> (rpmds option \<times> u32) outcome" where
  "rpmdsSetResult ds v =
     (case ds of None \<Rightarrow> ok (None, 0)
      | Some d \<Rightarrow> andThen (lazy_set (ds_Result d) d v) (\<lambda>(arr, old). ok (Some (d\<lparr>ds_Result := arr\<rparr>), old)))"

section \<open>Iteration\<close>

definition rpmdsNext :: "dsenv \<Rightarrow> rpmds \<Rightarrow> (rpmds \<times> int) outcome" where
  "rpmdsNext e ds =
     (let ds = ds\<lparr>ds_i := ds_i ds + 1\<rparr> in
      if ds_i ds \<ge> 0 then
        if ds_i ds < int (ds_Count ds) then
          let ds = ds\<lparr>ds_DNEVR := None, ds_ns := rpmns_zero\<rparr>;
              t = (case ds_Type ds of Some ty \<Rightarrow> take 1 ty | None \<Rightarrow> []) in
          andThen (rpmdsNewDNEVR e (Some t) ds) (\<lambda>(ds, d). ok (ds\<lparr>ds_DNEVR := Some d\<rparr>, ds_i ds))
        else ok (ds\<lparr>ds_i := -1\<rparr>, -1)
      else ok (ds, -1))"

definition rpmdsInit :: "rpmds \<Rightarrow> rpmds" where
  "rpmdsInit ds = ds\<lparr>ds_i := -1\<rparr>"

lemma rpmdsNewDNEVR_keeps:
  "rpmdsNewDNEVR e p ds = ok (ds', d) \<Longrightarrow> \<exists>ns. ds' = ds\<lparr>ds_ns := ns\<rparr>"
  by (auto simp: rpmdsNewDNEVR_def rpmdsNewN_def Let_def c_simps split: prod.splits)

lemma rpmdsNext_cases:
  assumes "rpmdsNext e ds = ok (ds', i)"
  obtains (element) ns d where "ds' = ds\<lparr>ds_i := i, ds_ns := ns, ds_DNEVR := Some d\<rparr>" "i = ds_i ds + 1" "0 \<le> i"
      "i < int (ds_Count ds)"
  | (finished) "i = -1" "ds' = ds\<lparr>ds_i := ds_i ds'\<rparr>" "\<not> (0 \<le> ds_i ds + 1 \<and> ds_i ds + 1 < int (ds_Count ds))"
  using assms
  by (auto simp: rpmdsNext_def Let_def c_simps split: if_splits dest!: rpmdsNewDNEVR_keeps)

text \<open>
  The loop \<open>while (rpmdsNext(ds) >= 0) body\<close> that the operations on sets share. The body
  sees the set at its current element, changes a state of its own and says whether to break.
\<close>

function rpmdsEach ::
    "dsenv \<Rightarrow> (rpmds \<Rightarrow> 's \<Rightarrow> ('s \<times> bool) outcome) \<Rightarrow> rpmds \<Rightarrow> 's \<Rightarrow> (rpmds \<times> 's) outcome" where
  "rpmdsEach e body ds st =
     andThen (rpmdsNext e ds) (\<lambda>(ds', i).
       if i < 0 then ok (ds', st)
       else andThen (body ds' st) (\<lambda>(st', stop). if stop then ok (ds', st') else rpmdsEach e body ds' st'))"
  by pat_completeness auto
termination
  by (relation "measure (\<lambda>(e, body, ds, st). nat (int (ds_Count ds) - ds_i ds))")
    (auto elim!: rpmdsNext_cases)

declare rpmdsEach.simps [simp del]

section \<open>Sorted sets\<close>

definition rpmdsDup :: "rpmds \<Rightarrow> rpmds outcome" where
  "rpmdsDup ods =
     (let ds = rpmdsGetPool\<lparr>ds_Type := ds_Type ods, ds_tagN := ds_tagN ods, ds_Count := ds_Count ods,
                 ds_i := ds_i ods, ds_l := ds_l ods, ds_u := ds_u ods\<rparr> in
      andThen (dup_argv (ds_N ods) (ds_Count ds)) (\<lambda>N.
      guardC AssertFail (ds_EVR ods \<noteq> None) (guardC AssertFail (ds_Flags ods \<noteq> None)
        (andThen (rpmdsDupArgv (ds_EVR ods) (ds_Count ds)) (\<lambda>EVR.
         guardC OutOfBounds (ds_Count ds \<le> length (the (ds_Flags ods)))
           (ok (ds\<lparr>ds_N := N, ds_EVR := EVR, ds_Flags := Some (take (ds_Count ds) (the (ds_Flags ods))),
                   ds_nopromote := ds_nopromote ods, ds_EVRcmp := ds_EVRcmp ods\<rparr>)))))))"

text \<open>The comparison of the current elements: names, then versions, then flags (an unsigned
  difference stored in an \<open>int\<close>).\<close>

definition ds_entry_cmp :: "rpmds \<Rightarrow> rpmds \<Rightarrow> int outcome" where
  "ds_entry_cmp ods ds =
     andThen (str_slot (ds_N ods) (ds_i ods)) (\<lambda>a.
     andThen (str_slot (ds_N ds) (ds_i ds)) (\<lambda>b.
     andThen
       (case (ds_EVR ods, ds_EVR ds) of
          (Some x, Some y) \<Rightarrow>
            if strcmp a b = 0 then
              andThen (str_slot x (ds_i ods)) (\<lambda>v. andThen (str_slot y (ds_i ds)) (\<lambda>w. ok (strcmp v w)))
            else ok (strcmp a b)
        | _ \<Rightarrow> ok (strcmp a b))
       (\<lambda>c. case (ds_Flags ods, ds_Flags ds) of
          (Some x, Some y) \<Rightarrow>
            if c = 0 then
              andThen (slot x (ds_i ods)) (\<lambda>f. andThen (slot y (ds_i ds)) (\<lambda>g. ok (sint (f - g))))
            else ok c
        | _ \<Rightarrow> ok c)))"

function find_loop :: "rpmds \<Rightarrow> rpmds \<Rightarrow> (rpmds \<times> int) outcome" where
  "find_loop ds ods =
     (if ds_l ds < ds_u ds then
        let ds = ds\<lparr>ds_i := int ((ds_l ds + ds_u ds) div 2)\<rparr> in
        andThen (ds_entry_cmp ods ds) (\<lambda>c.
          if c < 0 then find_loop (ds\<lparr>ds_u := nat (ds_i ds)\<rparr>) ods
          else if c > 0 then find_loop (ds\<lparr>ds_l := nat (ds_i ds) + 1\<rparr>) ods
          else ok (ds, ds_i ds))
      else ok (ds, -1))"
  by pat_completeness auto
termination
  by (relation "measure (\<lambda>(ds, ods). ds_u ds - ds_l ds)") (auto simp: nat_add_distrib nat_div_distrib)

declare find_loop.simps [simp del]

definition rpmdsFind :: "rpmds \<Rightarrow> rpmds \<Rightarrow> (rpmds \<times> int) outcome" where
  "rpmdsFind ds ods = find_loop (ds\<lparr>ds_l := 0, ds_u := ds_Count ds\<rparr>) ods"

text \<open>
  The insertion of the current element of \<open>ods\<close> at \<open>ds->u\<close>: the elements from \<open>u\<close> on are
  shifted by one slot in place, which writes the slot \<open>Count\<close>, and the array is copied.
\<close>

definition shift_in :: "string option list \<Rightarrow> nat \<Rightarrow> nat \<Rightarrow> string option \<Rightarrow> string option list outcome" where
  "shift_in av cnt u x =
     guardC OutOfBounds (cnt < length av)
       (dup_argv (take u av @ x # drop u (take cnt av) @ drop (Suc cnt) av) (Suc cnt))"

definition rpmdsInsert :: "rpmds \<Rightarrow> rpmds \<Rightarrow> rpmds outcome" where
  "rpmdsInsert ds ods =
     andThen (slot (ds_N ods) (ds_i ods)) (\<lambda>n.
     andThen (shift_in (ds_N ds) (ds_Count ds) (ds_u ds) n) (\<lambda>N.
     guardC AssertFail (ds_EVR ods \<noteq> None) (guardC AssertFail (ds_Flags ods \<noteq> None) (
     andThen (nonnull (ds_EVR ds)) (\<lambda>EVR.
     andThen (slot (the (ds_EVR ods)) (ds_i ods)) (\<lambda>v.
     andThen (shift_in EVR (ds_Count ds) (ds_u ds) v) (\<lambda>EVR.
     andThen (slot (the (ds_Flags ods)) (ds_i ods)) (\<lambda>f.
     andThen (if ds_Count ds > 0 then nonnull (ds_Flags ds) else ok []) (\<lambda>fl.
     guardC OutOfBounds (ds_Count ds \<le> length fl)
       (ok (ds\<lparr>ds_N := N, ds_EVR := Some EVR,
               ds_Flags := Some (take (ds_u ds) fl @ f # drop (ds_u ds) (take (ds_Count ds) fl)),
               ds_i := -1, ds_Count := ds_Count ds + 1\<rparr>)))))))))))"

definition merge_body :: "rpmds \<Rightarrow> rpmds \<Rightarrow> (rpmds \<times> bool) outcome" where
  "merge_body ods ds =
     andThen (rpmdsFind ds ods) (\<lambda>(ds, r).
       if r \<ge> 0 then ok (ds, False)
       else andThen (rpmdsInsert ds ods) (\<lambda>ds. ok (ds, False)))"

text \<open>\<open>dsp\<close> is not null; \<open>*dsp\<close> and \<open>ods\<close> may be. The index of \<open>ods\<close> is restored at the end.\<close>

definition rpmdsMerge ::
    "dsenv \<Rightarrow> rpmds option \<Rightarrow> rpmds option \<Rightarrow> (rpmds option \<times> rpmds option \<times> int) outcome" where
  "rpmdsMerge e dsp ods =
     (case ods of None \<Rightarrow> ok (dsp, None, -1)
      | Some ods \<Rightarrow>
          andThen (case dsp of Some ds \<Rightarrow> ok ds | None \<Rightarrow> rpmdsDup (ods\<lparr>ds_Count := 1\<rparr>)) (\<lambda>ds.
          andThen (rpmdsEach e merge_body (rpmdsInit ods) ds) (\<lambda>(ods', ds).
          ok (Some ds, Some (ods'\<lparr>ds_i := ds_i ods\<rparr>), 0))))"

section \<open>Comparison\<close>

text \<open>
  The names and architectures. \<open>A - N\<close> is the distance of two pointers into the same buffer;
  the character \<open>BN[AA - AN]\<close> is read from the buffer of the other name.
\<close>

definition ns_char :: "rpmns \<Rightarrow> nat \<Rightarrow> char outcome" where
  "ns_char ns off = andThen (nonnull (ns_str ns)) (\<lambda>buf. slot buf (int off))"

definition arch_cmp :: "rpmns \<Rightarrow> rpmns \<Rightarrow> string option \<Rightarrow> bool outcome" where
  "arch_cmp X Y archY =
     (let off = the (ns_A X) - the (ns_N X) in
      andThen (nonnull (ns_read X (ns_N X))) (\<lambda>XN. andThen (nonnull (ns_read Y (ns_N Y))) (\<lambda>YN.
      andThen
        (if strncmp XN YN off \<noteq> 0 then ok True
         else andThen (ns_char Y (the (ns_N Y) + off)) (\<lambda>c. ok (c \<noteq> NUL)))
        (\<lambda>rc. if rc then ok True
              else andThen (nonnull archY) (\<lambda>a.
                     ok (strcmp (the (ns_read X (ns_A X))) a \<noteq> 0)))))) "

definition rpmdsNAcmp :: "rpmds \<Rightarrow> rpmds \<Rightarrow> bool outcome" where
  "rpmdsNAcmp A B =
     (let AA = ns_A (ds_ns A); BA = ns_A (ds_ns B) in
      if AA \<noteq> None \<and> BA = None then arch_cmp (ds_ns A) (ds_ns B) (ds_A B)
      else if AA = None \<and> BA \<noteq> None then arch_cmp (ds_ns B) (ds_ns A) (ds_A A)
      else andThen (nonnull (ns_read (ds_ns A) (ns_N (ds_ns A)))) (\<lambda>AN.
           andThen (nonnull (ns_read (ds_ns B) (ns_N (ds_ns B)))) (\<lambda>BN. ok (strcmp AN BN \<noteq> 0))))"

definition rpmdsEVRorder :: "dsenv \<Rightarrow> string" where
  "rpmdsEVRorder e = (if evr_tuple_order e = [] then ''EVR'' else evr_tuple_order e)"

text \<open>The loop over the tuple order. An epoch that only \<open>A\<close> has counts as that of \<open>B\<close> too, unless
  \<open>B\<close> is set not to promote epochs.\<close>

definition field_set :: "EVR \<Rightarrow> nat \<Rightarrow> bool" where
  "field_set a ix \<longleftrightarrow> F a ix \<noteq> None \<and> F a ix \<noteq> Some []"

definition epoch_sense :: "bool \<Rightarrow> EVR \<Rightarrow> EVR \<Rightarrow> int \<Rightarrow> int" where
  "epoch_sense nopromote a b sense =
     (if field_set a RPMEVR_E \<and> field_set b RPMEVR_E then sense
      else if field_set a RPMEVR_E \<and> atol (the (F a RPMEVR_E)) > 0 then (if \<not> nopromote then 0 else 1)
      else if field_set b RPMEVR_E \<and> atol (the (F b RPMEVR_E)) > 0 then -1
      else sense)"

fun ds_sense ::
    "(string \<Rightarrow> string \<Rightarrow> int outcome) \<Rightarrow> bool \<Rightarrow> string \<Rightarrow> EVR \<Rightarrow> EVR \<Rightarrow> int \<Rightarrow> int outcome" where
  "ds_sense cmp nopromote [] a b sense = ok sense"
| "ds_sense cmp nopromote (c # s) a b sense =
     (case evr_tuple_index c of None \<Rightarrow> ds_sense cmp nopromote s a b sense
      | Some ix \<Rightarrow>
          let sense = (if ix = RPMEVR_E then epoch_sense nopromote a b sense else sense) in
          andThen (if field_set a ix \<and> field_set b ix then cmp (the (F a ix)) (the (F b ix)) else ok sense)
            (\<lambda>sense. if sense \<noteq> 0 then ok sense else ds_sense cmp nopromote s a b sense))"

text \<open>The text of the debugging message, a copy of \<open>DNEVR+2\<close>. It is released at the end, also where
  it is the literal \<open>""\<close>.\<close>

definition dnevr_tail :: "rpmds \<Rightarrow> string option outcome" where
  "dnevr_tail ds =
     (case ds_DNEVR ds of None \<Rightarrow> ok None
      | Some d \<Rightarrow> guardC OutOfBounds (2 \<le> length d) (ok (Some (drop 2 d))))"

definition ds_overlap :: "dsenv \<Rightarrow> rpmds \<Rightarrow> rpmds \<Rightarrow> bool outcome" where
  "ds_overlap e A B =
     (let aFlags = ns_Flags (ds_ns A); bFlags = ns_Flags (ds_ns B) in
      andThen (rpmdsNAcmp A B) (\<lambda>differ.
      if differ then ok False
      else if \<not> (ds_EVR A \<noteq> None \<and> ds_Flags A \<noteq> None \<and> ds_EVR B \<noteq> None \<and> ds_Flags B \<noteq> None) then ok True
      else if \<not> (aFlags \<noteq> 0 \<and> bFlags \<noteq> 0) then ok True
      else
        andThen (cur_evr A) (\<lambda>va.
        if va = None then ok True
        else andThen (cur_evr B) (\<lambda>vb.
        if vb = None then ok True
        else
          andThen ((case ds_EVRparse A of Some f \<Rightarrow> evr_parsers e f | None \<Rightarrow> rpmEVRparse (evr_regexec e)) (the va)) (\<lambda>a.
          andThen ((case ds_EVRparse B of Some f \<Rightarrow> evr_parsers e f | None \<Rightarrow> rpmEVRparse (evr_regexec e)) (the vb)) (\<lambda>b.
          let cmp = (if ds_EVRcmp A \<noteq> None \<and> ds_EVRcmp B \<noteq> None \<and> ds_EVRcmp A = ds_EVRcmp B
                     then evr_cmps e (the (ds_EVRcmp A)) else rpmEVRcmp) in
          andThen (ds_sense cmp (ds_nopromote B) (rpmdsEVRorder e) a b 0) (\<lambda>sense.
          ok (range_overlap aFlags bFlags sense))))))))"

definition sense_match :: "rpmds \<Rightarrow> bool outcome" where
  "sense_match ds = andThen (rpmdsFlags (Some ds)) (\<lambda>f. ok (f AND RPMSENSE_SENSEMASK = ns_Flags (ds_ns ds)))"

definition rpmdsCompare :: "dsenv \<Rightarrow> rpmds \<Rightarrow> rpmds \<Rightarrow> bool outcome" where
  "rpmdsCompare e A B =
     andThen (dnevr_tail A) (\<lambda>aDepend. andThen (dnevr_tail B) (\<lambda>bDepend.
     andThen (sense_match A) (\<lambda>sa. guardC AssertFail sa (
     andThen (sense_match B) (\<lambda>sb. guardC AssertFail sb (
     andThen (ds_overlap e A B) (\<lambda>result.
     guardC BadFree (aDepend \<noteq> None \<and> bDepend \<noteq> None) (ok result))))))))"

definition rpmdsMatch :: "dsenv \<Rightarrow> rpmds \<Rightarrow> rpmds option \<Rightarrow> (rpmds option \<times> bool) outcome" where
  "rpmdsMatch e A B =
     (case B of None \<Rightarrow> ok (None, False)
      | Some B \<Rightarrow>
          andThen (rpmdsEach e (\<lambda>B' result. andThen (rpmdsCompare e A B') (\<lambda>r. ok (r, r))) (rpmdsInit B) False)
            (\<lambda>(B, result). ok (Some B, result)))"

section \<open>Search\<close>

text \<open>
  The binary search by name in a local index, then the bounds of the run of equal names, then
  the comparison of the members of the run. \<open>name_at\<close> is \<open>strcmp(ods->N[ods->i], ds->N[k])\<close>.
\<close>

definition name_at :: "rpmds \<Rightarrow> rpmds \<Rightarrow> int \<Rightarrow> int outcome" where
  "name_at ods ds k =
     andThen (str_slot (ds_N ods) (ds_i ods)) (\<lambda>a. andThen (str_slot (ds_N ds) k) (\<lambda>b. ok (strcmp a b)))"

fun run_low :: "rpmds \<Rightarrow> rpmds \<Rightarrow> nat \<Rightarrow> nat outcome" where
  "run_low ods ds 0 = ok 0"
| "run_low ods ds (Suc l) = andThen (name_at ods ds (int l)) (\<lambda>c. if c = 0 then run_low ods ds l else ok (Suc l))"

function run_high :: "rpmds \<Rightarrow> rpmds \<Rightarrow> nat \<Rightarrow> nat outcome" where
  "run_high ods ds u =
     (if u + 1 < ds_Count ds then
        andThen (name_at ods ds (int (u + 1))) (\<lambda>c. if c \<noteq> 0 then ok (u + 1) else run_high ods ds (u + 1))
      else ok (u + 1))"
  by pat_completeness auto
termination
  by (relation "measure (\<lambda>(ods, ds, u). ds_Count ds - u)") auto

declare run_high.simps [simp del]

definition search_run :: "rpmds \<Rightarrow> rpmds \<Rightarrow> nat \<Rightarrow> nat \<Rightarrow> nat \<Rightarrow> (nat \<times> nat) outcome" where
  "search_run ods ds i l u =
     andThen (name_at ods ds (int l)) (\<lambda>c. let l = (if c \<noteq> 0 then i else l) in
     andThen (run_low ods ds l) (\<lambda>l.
     andThen (if u \<ge> ds_Count ds then ok True else andThen (name_at ods ds (int u)) (\<lambda>c. ok (c \<noteq> 0)))
       (\<lambda>b. let u = (if b then i else u) in andThen (run_high ods ds u) (\<lambda>u. ok (l, u)))))"

function search_loop :: "rpmds \<Rightarrow> rpmds \<Rightarrow> nat \<Rightarrow> nat \<Rightarrow> (nat \<times> nat) outcome" where
  "search_loop ods ds l u =
     (if l < u then
        let i = (l + u) div 2 in
        andThen (name_at ods ds (int i)) (\<lambda>c.
          if c < 0 then search_loop ods ds l i
          else if c > 0 then search_loop ods ds (i + 1) u
          else search_run ods ds i l u)
      else ok (l, u))"
  by pat_completeness auto
termination
  by (relation "measure (\<lambda>(ods, ds, l, u). u - l)") auto

declare search_loop.simps [simp del]

text \<open>The loop state is the last result of the comparison (\<open>None\<close> before the first).\<close>

definition search_body :: "dsenv \<Rightarrow> rpmds \<Rightarrow> nat \<Rightarrow> rpmds \<Rightarrow> bool option \<Rightarrow> (bool option \<times> bool) outcome" where
  "search_body e ods u ds r =
     (if ds_i ds < int u then andThen (rpmdsCompare e ods ds) (\<lambda>r. ok (Some r, r)) else ok (r, True))"

definition rpmdsSearch ::
    "dsenv \<Rightarrow> rpmds option \<Rightarrow> rpmds option \<Rightarrow> (rpmds option \<times> rpmds option \<times> int) outcome" where
  "rpmdsSearch e ds ods =
     (case (ds, ods) of (Some ds, Some ods) \<Rightarrow>
        andThen (search_loop ods ds 0 (ds_Count ds)) (\<lambda>(l, u).
        if l < u then
          let save = ds_i ds in
          andThen (rpmdsEach e (search_body e ods u) (ds\<lparr>ds_i := int l - 1\<rparr>) None) (\<lambda>(ds, r).
          let (ds, i) = (if r \<noteq> Some False then (ds, ds_i ds) else (ds\<lparr>ds_i := save\<rparr>, -1)) in
          andThen (if ds_Result ods \<noteq> None
                   then andThen (rpmdsSetResult (Some ods) (if i \<noteq> -1 then 1 else 0)) (\<lambda>(o', x). ok o')
                   else ok (Some ods)) (\<lambda>ods'.
          ok (Some ds, ods', i)))
        else ok (Some ds, Some ods, -1))
      | _ \<Rightarrow> ok (ds, ods, -1))"

section \<open>Matching against a header\<close>

text \<open>\<open>nopromote\<close> is the parameter, \<open>dflt\<close> the global default of new sets.\<close>

definition rpmdsAnyMatchesDep :: "dsenv \<Rightarrow> bool \<Rightarrow> hdr \<Rightarrow> rpmds \<Rightarrow> bool \<Rightarrow> bool outcome" where
  "rpmdsAnyMatchesDep e dflt h req nopromote =
     andThen (sense_match req) (\<lambda>sm. guardC AssertFail sm (
     if ds_EVR req = None \<or> ds_Flags req = None then ok True
     else
       andThen (if ns_Type (ds_ns req) = NS_ARCH then ok False
                else if ns_Flags (ds_ns req) = 0 then ok True
                else andThen (cur_evr req) (\<lambda>v. ok (v = None))) (\<lambda>exists_only.
       if exists_only then ok True
       else
         andThen (rpmdsNew e dflt h RPMTAG_PROVIDENAME True) (\<lambda>provides.
         case provides of None \<Rightarrow> ok False
         | Some provides \<Rightarrow>
             let provides = rpmdsInit provides;
                 provides = (if nopromote then provides\<lparr>ds_nopromote := nopromote\<rparr> else provides) in
             if ds_EVR provides = None then ok True
             else
               andThen (rpmdsEach e (\<lambda>P result. andThen (rpmdsCompare e P req) (\<lambda>r. ok (r, r))) provides False)
                 (\<lambda>(P, result). ok result)))))"

definition pkg_evr :: "hdr \<Rightarrow> string" where
  "pkg_evr h =
     (let V = (case h_str h RPMTAG_VERSION of Some s \<Rightarrow> s | None \<Rightarrow> ''V'');
          R = (case h_str h RPMTAG_RELEASE of Some s \<Rightarrow> s | None \<Rightarrow> ''R'')
      in (if h_ui32 h RPMTAG_EPOCH \<noteq> None then dec_int (sint (hdr_u32 h RPMTAG_EPOCH)) @ '':'' else []) @ V @ ''-'' @ R)"

definition rpmdsNVRMatchesDep :: "dsenv \<Rightarrow> hdr \<Rightarrow> u32 \<Rightarrow> rpmds \<Rightarrow> bool \<Rightarrow> bool outcome" where
  "rpmdsNVRMatchesDep e h now req nopromote =
     andThen (sense_match req) (\<lambda>sm. guardC AssertFail sm (
     if ds_EVR req = None \<or> ds_Flags req = None then ok True
     else if ns_Flags (ds_ns req) = 0 then ok True
     else andThen (cur_evr req) (\<lambda>v.
       if v = None then ok True
       else
         let pkgN = (case h_str h RPMTAG_NAME of Some s \<Rightarrow> s | None \<Rightarrow> ''N'') in
         andThen (rpmdsSingle e now RPMTAG_PROVIDENAME (Some pkgN) (Some (pkg_evr h)) RPMSENSE_EQUAL) (\<lambda>pkg.
         let pkg = (if nopromote then pkg\<lparr>ds_nopromote := nopromote\<rparr> else pkg) in
         rpmdsCompare e pkg req))))"

definition rpmdsNegateRC :: "rpmds \<Rightarrow> int \<Rightarrow> int outcome" where
  "rpmdsNegateRC ds rc =
     andThen (nonnull (ns_str (ds_ns ds))) (\<lambda>buf. andThen (slot buf 0) (\<lambda>c.
       ok (if c = CHR ''!'' then (if rc = 0 then 1 else 0) else rc)))"

section \<open>Collections\<close>

text \<open>The collector pointers of an \<open>rpmPRCO\<close> point at its own seven sets.\<close>

record rpmPRCO =
  prco_this :: "rpmds option"
  prco_P :: "rpmds option"
  prco_R :: "rpmds option"
  prco_C :: "rpmds option"
  prco_O :: "rpmds option"
  prco_T :: "rpmds option"
  prco_D :: "rpmds option"
  prco_L :: "rpmds option"

definition rpmdsNewPRCO :: "dsenv \<Rightarrow> bool \<Rightarrow> hdr option \<Rightarrow> rpmPRCO outcome" where
  "rpmdsNewPRCO e dflt hdr =
     (case hdr of None \<Rightarrow> ok \<lparr>prco_this = None, prco_P = None, prco_R = None, prco_C = None, prco_O = None,
          prco_T = None, prco_D = None, prco_L = None\<rparr>
      | Some h \<Rightarrow>
         andThen (rpmdsNew e dflt h RPMTAG_NAME True) (\<lambda>this.
         andThen (rpmdsNew e dflt h RPMTAG_PROVIDENAME True) (\<lambda>P.
         andThen (rpmdsNew e dflt h RPMTAG_REQUIRENAME True) (\<lambda>R.
         andThen (rpmdsNew e dflt h RPMTAG_CONFLICTNAME True) (\<lambda>C.
         andThen (rpmdsNew e dflt h RPMTAG_OBSOLETENAME True) (\<lambda>Ob.
         andThen (rpmdsNew e dflt h RPMTAG_TRIGGERNAME True) (\<lambda>T.
         andThen (rpmdsNew e dflt h RPMTAG_DIRNAMES True) (\<lambda>D.
         andThen (rpmdsNew e dflt h RPMTAG_FILELINKTOS True) (\<lambda>L.
         ok \<lparr>prco_this = this, prco_P = P, prco_R = R, prco_C = C, prco_O = Ob, prco_T = T,
             prco_D = D, prco_L = L\<rparr>)))))))))"

definition rpmdsFromPRCO :: "rpmPRCO option \<Rightarrow> nat \<Rightarrow> rpmds option" where
  "rpmdsFromPRCO PRCO tagN =
     (case PRCO of None \<Rightarrow> None
      | Some p \<Rightarrow>
         if tagN = RPMTAG_NAME then prco_this p
         else if tagN = RPMTAG_PROVIDENAME then prco_P p
         else if tagN = RPMTAG_REQUIRENAME then prco_R p
         else if tagN = RPMTAG_CONFLICTNAME then prco_C p
         else if tagN = RPMTAG_OBSOLETENAME then prco_O p
         else if tagN = RPMTAG_TRIGGERNAME then prco_T p
         else if tagN = RPMTAG_DIRNAMES then prco_D p
         else if tagN = RPMTAG_FILELINKTOS then prco_L p
         else None)"

definition rpmdsMergePRCO :: "dsenv \<Rightarrow> rpmPRCO \<Rightarrow> rpmds option \<Rightarrow> (rpmPRCO \<times> rpmds option \<times> int) outcome" where
  "rpmdsMergePRCO e p ds =
     (let tagN = rpmdsTagN ds;
          into = (\<lambda>dsp upd. andThen (rpmdsMerge e dsp ds) (\<lambda>(dsp, ds, rc). ok (upd dsp, ds, rc))) in
      if tagN = RPMTAG_PROVIDENAME then into (prco_P p) (\<lambda>x. p\<lparr>prco_P := x\<rparr>)
      else if tagN = RPMTAG_REQUIRENAME then into (prco_R p) (\<lambda>x. p\<lparr>prco_R := x\<rparr>)
      else if tagN = RPMTAG_CONFLICTNAME then into (prco_C p) (\<lambda>x. p\<lparr>prco_C := x\<rparr>)
      else if tagN = RPMTAG_OBSOLETENAME then into (prco_O p) (\<lambda>x. p\<lparr>prco_O := x\<rparr>)
      else if tagN = RPMTAG_TRIGGERNAME then into (prco_T p) (\<lambda>x. p\<lparr>prco_T := x\<rparr>)
      else if tagN = RPMTAG_DIRNAMES then into (prco_D p) (\<lambda>x. p\<lparr>prco_D := x\<rparr>)
      else if tagN = RPMTAG_FILELINKTOS then into (prco_L p) (\<lambda>x. p\<lparr>prco_L := x\<rparr>)
      else ok (p, ds, -1))"

end
