(* ===== verification/DsProps.thy ===== *)
theory DsProps
  imports Ds EvrProps
begin

unbundle bit_operations_syntax

text \<open>
  Dependency sets as sorted sets of entries: the order of \<open>rpmdsFind\<close> on entries, what the
  search and the insertion do to the entries of a set, and the properties of \<open>rpmdsMerge\<close>,
  \<open>rpmdsSearch\<close>, \<open>rpmdsCompare\<close> and of the formatted dependency.
\<close>

section \<open>The order on entries\<close>

type_synonym entry = "string \<times> string \<times> u32"

fun flag_cmp :: "u32 \<Rightarrow> u32 \<Rightarrow> int" where
  "flag_cmp f g = sint (f - g)"

fun entry_cmp :: "entry \<Rightarrow> entry \<Rightarrow> int" where
  "entry_cmp e e' = lexcmp strcmp (lexcmp strcmp flag_cmp) e e'"

declare entry_cmp.simps [simp del]

fun entry_dom :: "entry \<Rightarrow> bool" where
  "entry_dom (n, v, f) \<longleftrightarrow> f < 2 ^ 31"

lemma sint_diff:
  fixes f g :: u32
  assumes "f < 2 ^ 31" "g < 2 ^ 31"
  shows "sint (f - g) = uint f - uint g"
proof -
  have b: "uint f < 2147483648" "uint g < 2147483648"
    using assms by (simp_all add: word_less_def)
  have lo: "- 2147483648 \<le> uint f - uint g" using b uint_nonnegative[of f] by linarith
  have hi: "uint f - uint g < 2147483648" using b uint_nonnegative[of g] by linarith
  have "sint (f - g) = signed_take_bit 31 (take_bit 32 (uint f - uint g))"
    by (simp add: sint_uint uint_word_ariths take_bit_eq_mod)
  also have "\<dots> = signed_take_bit 31 (uint f - uint g)" by (simp add: signed_take_bit_take_bit)
  also have "\<dots> = uint f - uint g"
    by (rule signed_take_bit_int_eq_self) (use lo hi in simp_all)
  finally show ?thesis .
qed

interpretation flagc: eq_comparator flag_cmp "\<lambda>f. f < 2 ^ 31"
  by unfold_locales (auto simp: sint_diff word_uint_eqI)

interpretation entry: eq_comparator entry_cmp entry_dom
proof -
  have "eq_comparator (lexcmp strcmp (lexcmp strcmp flag_cmp)) (\<lambda>(a, b). True \<and> (\<lambda>(a, b). True \<and> b < 2 ^ 31) b)"
    by (intro eq_comparator_lexcmp strc.eq_comparator_axioms flagc.eq_comparator_axioms)
  moreover have "entry_cmp = lexcmp strcmp (lexcmp strcmp flag_cmp)" by (simp add: fun_eq_iff entry_cmp.simps)
  moreover have "entry_dom = (\<lambda>(a, b). True \<and> (\<lambda>(a, b). True \<and> b < 2 ^ 31) b)" by auto
  ultimately show "eq_comparator entry_cmp entry_dom" by simp
qed

section \<open>The entries of a set\<close>

definition entry_at :: "rpmds \<Rightarrow> nat \<Rightarrow> entry" where
  "entry_at ds k = (the (ds_N ds ! k), the (the (ds_EVR ds) ! k), the (ds_Flags ds) ! k)"

definition entries :: "rpmds \<Rightarrow> entry list" where
  "entries ds = map (entry_at ds) [0..<ds_Count ds]"

text \<open>A set whose three arrays hold \<open>Count\<close> elements; \<open>merge_target\<close> has the terminating slots too.\<close>

definition ds_wf :: "rpmds \<Rightarrow> bool" where
  "ds_wf ds \<longleftrightarrow> ds_EVR ds \<noteq> None \<and> ds_Flags ds \<noteq> None \<and>
     ds_Count ds \<le> length (ds_N ds) \<and> ds_Count ds \<le> length (the (ds_EVR ds)) \<and>
     ds_Count ds \<le> length (the (ds_Flags ds)) \<and>
     (\<forall>k<ds_Count ds. ds_N ds ! k \<noteq> None \<and> the (ds_EVR ds) ! k \<noteq> None \<and> the (ds_Flags ds) ! k < 2 ^ 31)"

definition merge_target :: "rpmds \<Rightarrow> bool" where
  "merge_target ds \<longleftrightarrow> ds_wf ds \<and> ds_Count ds < length (ds_N ds) \<and> ds_Count ds < length (the (ds_EVR ds))"

definition ds_sorted :: "rpmds \<Rightarrow> bool" where
  "ds_sorted ds \<longleftrightarrow> sorted_wrt (\<lambda>x y. entry_cmp x y < 0) (entries ds)"

lemma length_entries [simp]: "length (entries ds) = ds_Count ds"
  by (simp add: entries_def)

lemma nth_entries [simp]: "k < ds_Count ds \<Longrightarrow> entries ds ! k = entry_at ds k"
  by (simp add: entries_def)

lemma entries_dom: "ds_wf ds \<Longrightarrow> k < ds_Count ds \<Longrightarrow> entry_dom (entry_at ds k)"
  by (simp add: ds_wf_def entry_at_def)

lemma str_slot_Some: "k < length av \<Longrightarrow> av ! k = Some s \<Longrightarrow> str_slot av (int k) = ok s"
  by (simp add: str_slot_def)

lemma ds_wfD:
  assumes "ds_wf ds" "k < ds_Count ds"
  shows "str_slot (ds_N ds) (int k) = ok (fst (entry_at ds k))"
    "\<exists>E. ds_EVR ds = Some E \<and> str_slot E (int k) = ok (fst (snd (entry_at ds k)))"
    "\<exists>fl. ds_Flags ds = Some fl \<and> slot fl (int k) = ok (snd (snd (entry_at ds k)))"
  using assms by (auto simp: ds_wf_def entry_at_def str_slot_Some)

lemma ds_entry_cmp_entries:
  assumes "ds_wf ods" "ds_wf ds" "ds_i ods = int k" "k < ds_Count ods" "ds_i ds = int m" "m < ds_Count ds"
  shows "ds_entry_cmp ods ds = ok (entry_cmp (entry_at ods k) (entry_at ds m))"
proof -
  obtain n v f where a: "entry_at ods k = (n, v, f)" by (cases "entry_at ods k")
  obtain n' v' f' where b: "entry_at ds m = (n', v', f')" by (cases "entry_at ds m")
  obtain E fl where o: "str_slot (ds_N ods) (int k) = ok n" "ds_EVR ods = Some E" "str_slot E (int k) = ok v"
      "ds_Flags ods = Some fl" "slot fl (int k) = ok f"
    using ds_wfD[OF assms(1,4)] a by auto
  obtain E' fl' where d: "str_slot (ds_N ds) (int m) = ok n'" "ds_EVR ds = Some E'" "str_slot E' (int m) = ok v'"
      "ds_Flags ds = Some fl'" "slot fl' (int m) = ok f'"
    using ds_wfD[OF assms(2,6)] b by auto
  show ?thesis
    using assms(3,5) o d a b by (simp add: ds_entry_cmp_def entry_cmp.simps del: slot_nat)
qed

section \<open>The binary search\<close>

abbreviation cursor :: "rpmds \<Rightarrow> int \<Rightarrow> nat \<Rightarrow> nat \<Rightarrow> rpmds" where
  "cursor ds i l u \<equiv> ds\<lparr>ds_i := i, ds_l := l, ds_u := u\<rparr>"

lemma ds_wf_cursor [simp]: "ds_wf (ds\<lparr>ds_i := i\<rparr>) = ds_wf ds" "ds_wf (ds\<lparr>ds_l := l\<rparr>) = ds_wf ds"
  "ds_wf (ds\<lparr>ds_u := u\<rparr>) = ds_wf ds" "ds_wf (ds\<lparr>ds_ns := x\<rparr>) = ds_wf ds" "ds_wf (ds\<lparr>ds_DNEVR := y\<rparr>) = ds_wf ds"
  by (simp_all add: ds_wf_def)

lemma entry_at_cursor [simp]: "entry_at (ds\<lparr>ds_i := i\<rparr>) k = entry_at ds k" "entry_at (ds\<lparr>ds_l := l\<rparr>) k = entry_at ds k"
  "entry_at (ds\<lparr>ds_u := u\<rparr>) k = entry_at ds k" "entry_at (ds\<lparr>ds_ns := x\<rparr>) k = entry_at ds k"
  "entry_at (ds\<lparr>ds_DNEVR := y\<rparr>) k = entry_at ds k"
  by (simp_all add: entry_at_def)

lemma entries_cursor [simp]: "entries (ds\<lparr>ds_i := i\<rparr>) = entries ds" "entries (ds\<lparr>ds_l := l\<rparr>) = entries ds"
  "entries (ds\<lparr>ds_u := u\<rparr>) = entries ds" "entries (ds\<lparr>ds_ns := x\<rparr>) = entries ds"
  "entries (ds\<lparr>ds_DNEVR := y\<rparr>) = entries ds"
  by (simp_all add: entries_def)

lemma ds_sorted_cursor [simp]: "ds_sorted (ds\<lparr>ds_i := i\<rparr>) = ds_sorted ds" "ds_sorted (ds\<lparr>ds_l := l\<rparr>) = ds_sorted ds"
  "ds_sorted (ds\<lparr>ds_u := u\<rparr>) = ds_sorted ds"
  by (simp_all add: ds_sorted_def)

text \<open>\<open>u\<close> is the place of \<open>key\<close> in the set.\<close>

definition place :: "entry \<Rightarrow> rpmds \<Rightarrow> nat \<Rightarrow> bool" where
  "place key ds u \<longleftrightarrow> u \<le> ds_Count ds \<and> (\<forall>k<u. entry_cmp key (entry_at ds k) > 0) \<and>
     (\<forall>k. u \<le> k \<and> k < ds_Count ds \<longrightarrow> entry_cmp key (entry_at ds k) < 0)"

lemma place_cursor [simp]: "place key (ds\<lparr>ds_i := i\<rparr>) = place key ds" "place key (ds\<lparr>ds_l := l\<rparr>) = place key ds"
  "place key (ds\<lparr>ds_u := v\<rparr>) = place key ds"
  by (simp_all add: place_def fun_eq_iff)

lemma find_loop_spec:
  assumes "ds_wf ods" "ds_wf ds" "ds_i ods = int k" "k < ds_Count ods" "ds_sorted ds"
    and "ds_u ds \<le> ds_Count ds" "ds_l ds \<le> ds_u ds"
    and "\<forall>j<ds_l ds. entry_cmp (entry_at ods k) (entry_at ds j) > 0"
    and "\<forall>j. ds_u ds \<le> j \<and> j < ds_Count ds \<longrightarrow> entry_cmp (entry_at ods k) (entry_at ds j) < 0"
  shows "\<exists>i l u r. find_loop ds ods = ok (cursor ds i l u, r) \<and>
    (r \<ge> 0 \<and> nat r < ds_Count ds \<and> entry_at ds (nat r) = entry_at ods k \<or>
     r = -1 \<and> place (entry_at ods k) ds u)"
  using assms
proof (induction ds ods rule: find_loop.induct)
  case (1 ds ods)
  let ?key = "entry_at ods k"
  note sorted = "1.prems"(5)[unfolded ds_sorted_def sorted_wrt_iff_nth_less]
  have dk: "entry_dom ?key" using entries_dom "1.prems" by blast
  show ?case
  proof (cases "ds_l ds < ds_u ds")
    case False
    then have "find_loop ds ods = ok (cursor ds (ds_i ds) (ds_l ds) (ds_u ds), -1)"
      by (subst find_loop.simps) simp
    moreover have "place ?key ds (ds_u ds)" using "1.prems" False by (auto simp: place_def)
    ultimately show ?thesis
      by (intro exI[of _ "ds_i ds"] exI[of _ "ds_l ds"] exI[of _ "ds_u ds"] exI[of _ "-1"]) simp
  next
    case True
    let ?m = "(ds_l ds + ds_u ds) div 2" and ?ds = "ds\<lparr>ds_i := int ((ds_l ds + ds_u ds) div 2)\<rparr>"
    let ?c = "entry_cmp ?key (entry_at ds ?m)"
    have m: "?m < ds_u ds" "ds_l ds \<le> ?m" "?m < ds_Count ds" using True "1.prems"(6) by auto
    have dm: "entry_dom (entry_at ds ?m)" using entries_dom "1.prems"(2) m by blast
    have cmp: "ds_entry_cmp ods ?ds = ok ?c"
      using ds_entry_cmp_entries[of ods ?ds k ?m] "1.prems"(1-4) m by simp
    consider (lt) "?c < 0" | (gt) "?c > 0" | (eq) "?c = 0" by linarith
    then show ?thesis
    proof cases
      case lt
      have above: "entry_cmp ?key (entry_at ds j) < 0" if "?m \<le> j" "j < ds_Count ds" for j
        using lt that sorted[rule_format, of ?m j] dk dm entries_dom[OF "1.prems"(2) that(2)]
          entry.less_le_trans[of ?key "entry_at ds ?m" "entry_at ds j"] m by (cases "j = ?m") auto
      have "\<exists>i l u r. find_loop (?ds\<lparr>ds_u := nat (ds_i ?ds)\<rparr>) ods = ok (cursor (?ds\<lparr>ds_u := nat (ds_i ?ds)\<rparr>) i l u, r) \<and>
          (r \<ge> 0 \<and> nat r < ds_Count ds \<and> entry_at ds (nat r) = ?key \<or> r = -1 \<and> place ?key ds u)"
        using "1.IH"(1)[OF True refl cmp lt] "1.prems" m above by simp
      then show ?thesis
        using True cmp lt by (subst find_loop.simps) auto
    next
      case gt
      have below: "entry_cmp ?key (entry_at ds j) > 0" if "j < Suc ?m" for j
        using gt that sorted[rule_format, of j ?m] dk dm entries_dom[OF "1.prems"(2), of j] m
          entry.trans[of ?key "entry_at ds j" "entry_at ds ?m"] by (cases "j = ?m") force+
      have "\<exists>i l u r. find_loop (?ds\<lparr>ds_l := nat (ds_i ?ds) + 1\<rparr>) ods = ok (cursor (?ds\<lparr>ds_l := nat (ds_i ?ds) + 1\<rparr>) i l u, r) \<and>
          (r \<ge> 0 \<and> nat r < ds_Count ds \<and> entry_at ds (nat r) = ?key \<or> r = -1 \<and> place ?key ds u)"
        using "1.IH"(2)[OF True refl cmp _ gt] gt "1.prems" m below by simp
      then show ?thesis
        using True cmp gt by (subst find_loop.simps) auto
    next
      case eq
      then have "entry_at ds ?m = ?key" using entry.eq[OF dk dm] by simp
      moreover have "find_loop ds ods = ok (cursor ds (int ?m) (ds_l ds) (ds_u ds), int ?m)"
        using True cmp eq by (subst find_loop.simps) simp
      ultimately show ?thesis
        using m by (intro exI[of _ "int ?m"] exI[of _ "ds_l ds"] exI[of _ "ds_u ds"]) simp
    qed
  qed
qed

lemma rpmdsFind_spec:
  assumes "ds_wf ods" "ds_wf ds" "ds_i ods = int k" "k < ds_Count ods" "ds_sorted ds"
  shows "\<exists>i l u r. rpmdsFind ds ods = ok (cursor ds i l u, r) \<and>
    (r \<ge> 0 \<and> nat r < ds_Count ds \<and> entry_at ds (nat r) = entry_at ods k \<or>
     r = -1 \<and> place (entry_at ods k) ds u)"
  unfolding rpmdsFind_def
  using find_loop_spec[of ods "ds\<lparr>ds_l := 0, ds_u := ds_Count ds\<rparr>" k] assms
  by simp

lemma find_decides:
  assumes "ds_wf ds" "ds_wf ods" "k < ds_Count ods" "place (entry_at ods k) ds u"
  shows "entry_at ods k \<notin> set (entries ds)"
proof
  assume "entry_at ods k \<in> set (entries ds)"
  then obtain j where j: "j < ds_Count ds" "entry_at ds j = entry_at ods k"
    by (auto simp: in_set_conv_nth)
  moreover have "entry_cmp (entry_at ods k) (entry_at ods k) = 0"
    using entry.refl_0 entries_dom assms(2,3) by blast
  moreover have "entry_cmp (entry_at ods k) (entry_at ds j) > 0 \<or> entry_cmp (entry_at ods k) (entry_at ds j) < 0"
    using assms(4) j(1) by (cases "j < u") (simp_all add: place_def)
  ultimately show False by auto
qed

section \<open>Insertion\<close>

lemma dup_argv_Some: "n \<le> length av \<Longrightarrow> \<forall>k<n. av ! k \<noteq> None \<Longrightarrow> dup_argv av n = ok (take n av @ [None])"
proof (induction av n rule: dup_argv.induct)
  case (3 av n)
  then show ?case by force
next
  case (4 s av n)
  then show ?case by fastforce
qed auto

definition insert_at :: "nat \<Rightarrow> 'a \<Rightarrow> 'a list \<Rightarrow> 'a list" where
  "insert_at u x xs = take u xs @ x # drop u xs"

lemma nth_insert_at:
  "u \<le> length xs \<Longrightarrow> k \<le> length xs \<Longrightarrow>
     insert_at u x xs ! k = (if k < u then xs ! k else if k = u then x else xs ! (k - 1))"
  by (auto simp: insert_at_def nth_append min_def nth_Cons')

lemma length_insert_at [simp]: "length (insert_at u x xs) = Suc (length xs)"
  by (simp add: insert_at_def)

lemma shift_in_insert:
  assumes "cnt < length av" "u \<le> cnt" "x \<noteq> None" "\<forall>k<cnt. av ! k \<noteq> None"
  shows "shift_in av cnt u x = ok (insert_at u x (take cnt av) @ [None])"
proof -
  let ?l = "take u av @ x # drop u (take cnt av) @ drop (Suc cnt) av"
  have e: "take (Suc cnt) ?l = insert_at u x (take cnt av)"
    using assms by (simp add: insert_at_def min_def Suc_diff_le)
  have "\<forall>k<Suc cnt. ?l ! k \<noteq> None"
  proof (intro allI impI)
    fix k assume k: "k < Suc cnt"
    then have "?l ! k = insert_at u x (take cnt av) ! k" unfolding e[symmetric] by (simp only: nth_take)
    also have "\<dots> \<noteq> None" using k assms by (subst nth_insert_at) auto
    finally show "?l ! k \<noteq> None" .
  qed
  then have "dup_argv ?l (Suc cnt) = ok (take (Suc cnt) ?l @ [None])"
    using assms by (intro dup_argv_Some) auto
  then show ?thesis using assms(1) e by (simp add: shift_in_def)
qed

lemma rpmdsInsert_spec:
  assumes "ds_wf ods" "merge_target ds" "ds_i ods = int k" "k < ds_Count ods" "ds_u ds \<le> ds_Count ds"
  shows "\<exists>ds'. rpmdsInsert ds ods = ok ds' \<and> merge_target ds' \<and>
    entries ds' = insert_at (ds_u ds) (entry_at ods k) (entries ds)"
proof -
  obtain E fl where o: "ds_EVR ods = Some E" "ds_Flags ods = Some fl" "k < length (ds_N ods)" "k < length E" "k < length fl"
      "ds_N ods ! k \<noteq> None" "E ! k \<noteq> None" "fl ! k < 2 ^ 31"
    using assms(1,4) by (fastforce simp: ds_wf_def)
  obtain E' fl' where d: "ds_EVR ds = Some E'" "ds_Flags ds = Some fl'" "ds_Count ds < length (ds_N ds)"
      "ds_Count ds < length E'" "ds_Count ds \<le> length fl'"
      "\<forall>k<ds_Count ds. ds_N ds ! k \<noteq> None" "\<forall>k<ds_Count ds. E' ! k \<noteq> None" "\<forall>k<ds_Count ds. fl' ! k < 2 ^ 31"
    using assms(2) by (fastforce simp: ds_wf_def merge_target_def)
  let ?n = "ds_Count ds" and ?u = "ds_u ds"
  define ds' where "ds' = ds\<lparr>ds_N := insert_at ?u (ds_N ods ! k) (take ?n (ds_N ds)) @ [None],
     ds_EVR := Some (insert_at ?u (E ! k) (take ?n E') @ [None]),
     ds_Flags := Some (insert_at ?u (fl ! k) (take ?n fl')), ds_i := -1, ds_Count := ?n + 1\<rparr>"
  have run: "rpmdsInsert ds ods = ok ds'"
    using assms(3,5) o d
    by (simp add: rpmdsInsert_def shift_in_insert ds'_def insert_at_def min_def drop_take)
  have at: "entry_at ds' j = insert_at ?u (entry_at ods k) (entries ds) ! j" if "j < Suc ?n" for j
    using that assms(5) o d
    by (auto simp: entry_at_def ds'_def nth_append nth_insert_at)
  have ents: "entries ds' = insert_at ?u (entry_at ods k) (entries ds)"
  proof (rule nth_equalityI)
    have cnt: "ds_Count ds' = Suc ?n" by (simp add: ds'_def)
    then show "length (entries ds') = length (insert_at ?u (entry_at ods k) (entries ds))" by simp
    show "entries ds' ! j = insert_at ?u (entry_at ods k) (entries ds) ! j" if "j < length (entries ds')" for j
      using that at[of j] cnt by simp
  qed
  have "merge_target ds'"
    using assms(5) o d by (auto simp: merge_target_def ds_wf_def ds'_def nth_append nth_insert_at)
  then show ?thesis using run ents by blast
qed

lemma place_insert_sorted:
  assumes "ds_sorted ds" "place key ds u" "entry_dom key" "ds_wf ds"
  shows "sorted_wrt (\<lambda>x y. entry_cmp x y < 0) (insert_at u key (entries ds))"
proof -
  have "sorted_wrt (\<lambda>x y. entry_cmp x y < 0) (take u (entries ds))"
    "sorted_wrt (\<lambda>x y. entry_cmp x y < 0) (drop u (entries ds))"
    "\<forall>x\<in>set (take u (entries ds)). \<forall>y\<in>set (drop u (entries ds)). entry_cmp x y < 0"
    using assms(1) sorted_wrt_append[of "\<lambda>x y. entry_cmp x y < 0" "take u (entries ds)" "drop u (entries ds)"]
    by (auto simp: ds_sorted_def)
  moreover have "\<forall>x\<in>set (take u (entries ds)). entry_cmp x key < 0"
  proof
    fix x assume "x \<in> set (take u (entries ds))"
    then obtain j where j: "j < u" "j < ds_Count ds" "x = entry_at ds j" by (auto simp: in_set_conv_nth)
    then have "entry_cmp key x > 0" using assms(2) by (simp add: place_def)
    then show "entry_cmp x key < 0" using entry.anti[OF assms(3) entries_dom[OF assms(4) j(2)]] j(3) by simp
  qed
  moreover have "\<forall>y\<in>set (drop u (entries ds)). entry_cmp key y < 0"
  proof
    fix y assume "y \<in> set (drop u (entries ds))"
    then obtain j where "u \<le> j" "j < ds_Count ds" "y = entry_at ds j"
      using assms(2) by (auto simp: in_set_conv_nth place_def) (metis le_add1 less_diff_conv add.commute)
    then show "entry_cmp key y < 0" using assms(2) by (simp add: place_def)
  qed
  ultimately show ?thesis by (simp add: insert_at_def sorted_wrt_append)
qed

lemma set_insert_at [simp]: "set (insert_at u x xs) = insert x (set xs)"
  by (metis Un_insert_right append_take_drop_id insert_at_def list.simps(15) set_append)

section \<open>Merging\<close>

definition merged :: "rpmds \<Rightarrow> entry set \<Rightarrow> bool" where
  "merged ds E \<longleftrightarrow> merge_target ds \<and> ds_sorted ds \<and> set (entries ds) = E"

lemma merge_body_spec:
  assumes "merged ds E" "ds_wf ods" "ds_i ods = int k" "k < ds_Count ods"
  shows "\<exists>ds'. merge_body ods ds = ok (ds', False) \<and> merged ds' (insert (entry_at ods k) E)"
proof -
  have ds: "ds_wf ds" "merge_target ds" "ds_sorted ds" "set (entries ds) = E"
    using assms(1) by (auto simp: merged_def merge_target_def)
  obtain i l u r where f: "rpmdsFind ds ods = ok (cursor ds i l u, r)"
    and r: "r \<ge> 0 \<and> nat r < ds_Count ds \<and> entry_at ds (nat r) = entry_at ods k \<or> r = -1 \<and> place (entry_at ods k) ds u"
    using rpmdsFind_spec[OF assms(2) ds(1) assms(3,4) ds(3)] by blast
  have wf: "merge_target (cursor ds i l u)" using ds(2) by (simp add: merge_target_def)
  from r show ?thesis
  proof
    assume r0: "r \<ge> 0 \<and> nat r < ds_Count ds \<and> entry_at ds (nat r) = entry_at ods k"
    then have "entry_at ods k \<in> E" using ds(4) by (metis length_entries nth_entries nth_mem)
    then have "merged (cursor ds i l u) (insert (entry_at ods k) E)"
      using ds wf by (simp add: merged_def insert_absorb)
    then show ?thesis using f r0 by (simp add: merge_body_def)
  next
    assume r1: "r = -1 \<and> place (entry_at ods k) ds u"
    then have "ds_u (cursor ds i l u) \<le> ds_Count (cursor ds i l u)" by (simp add: place_def)
    then obtain ds' where ds': "rpmdsInsert (cursor ds i l u) ods = ok ds'" "merge_target ds'"
      "entries ds' = insert_at u (entry_at ods k) (entries ds)"
      using rpmdsInsert_spec[OF assms(2) wf assms(3,4)] by auto
    have "ds_sorted ds'"
      using place_insert_sorted[OF ds(3) _ entries_dom[OF assms(2,4)] ds(1)] r1 ds'(3) by (simp add: ds_sorted_def)
    then have "merged ds' (insert (entry_at ods k) E)" using ds'(2,3) ds(4) by (simp add: merged_def)
    then show ?thesis using f r1 ds'(1) by (simp add: merge_body_def)
  qed
qed

text \<open>The names of a set that the parser of names accepts.\<close>

definition names_parse :: "dsenv \<Rightarrow> rpmds \<Rightarrow> bool" where
  "names_parse e ds \<longleftrightarrow> (\<forall>k<ds_Count ds. \<exists>ns. rpmnsParse (rpmExpand e) (the (ds_N ds ! k)) = ok ns)"

lemma name_fits: "length (name_text p neg NS N A) = name_size p neg NS N A"
  by (cases p; cases NS; cases N; cases A) (simp_all add: name_text_def name_size_def)

lemma sense_fits: "length (sense_text t fl) = sense_size (length t) fl"
  by (simp add: sense_text_def sense_size_def)

lemma evr_fits: "length (evr_text t v) = evr_size (length t) v"
  by (cases v) (simp_all add: evr_text_def evr_size_def)

lemmas dnevr_fits = name_fits sense_fits evr_fits

lemma rpmdsNext_element:
  assumes "ds_wf ds" "names_parse e ds" "ds_i ds + 1 = int k" "k < ds_Count ds"
  shows "\<exists>ns d. rpmdsNext e ds = ok (ds\<lparr>ds_i := int k, ds_ns := ns, ds_DNEVR := d\<rparr>, int k)"
proof -
  obtain ns where ns: "rpmnsParse (rpmExpand e) (fst (entry_at ds k)) = ok ns"
    using assms(2,4) unfolding names_parse_def entry_at_def fst_conv by blast
  note w = ds_wfD[OF assms(1,4)]
  let ?d' = "ds\<lparr>ds_i := int k, ds_DNEVR := None, ds_ns := ns\<rparr>"
  obtain fl x where fl: "ds_Flags ds = Some fl" "slot fl (int k) = ok x" using w(3) by blast
  obtain E y where E: "ds_EVR ds = Some E" "slot E (int k) = ok y"
    using w(2) unfolding str_slot_def andThen_Inr_iff by blast
  have fv: "cur_sense ?d' = ok (x AND RPMSENSE_SENSEMASK)" "cur_evr ?d' = ok (if y = Some [] then None else y)"
    using fl E by (simp_all add: cur_sense_def cur_evr_def del: slot_nat)
  let ?d = "ds\<lparr>ds_i := int k, ds_DNEVR := None, ds_ns := rpmns_zero\<rparr>"
  have "rpmdsNewN e ?d = ok (?d\<lparr>ds_ns := ns\<rparr>, ns_read ns (ns_N ns))"
    using w(1) ns by (simp add: rpmdsNewN_def)
  then have "\<exists>ns' t. rpmdsNewDNEVR e p ?d = ok (?d\<lparr>ds_ns := ns'\<rparr>, t)" for p
    using fv by (simp add: rpmdsNewDNEVR_def Let_def dnevr_fits) blast
  then obtain ns' t where "rpmdsNewDNEVR e (Some (case ds_Type ds of Some ty \<Rightarrow> take 1 ty | None \<Rightarrow> [])) ?d = ok (?d\<lparr>ds_ns := ns'\<rparr>, t)"
    by blast
  then have "rpmdsNext e ds = ok (ds\<lparr>ds_i := int k, ds_ns := ns', ds_DNEVR := Some t\<rparr>, int k)"
    using assms(3,4) by (simp add: rpmdsNext_def Let_def)
  then show ?thesis by blast
qed

lemma rpmdsNext_end:
  "ds_Count ds \<le> k \<Longrightarrow> ds_i ds + 1 = int k \<Longrightarrow> rpmdsNext e ds = ok (ds\<lparr>ds_i := -1\<rparr>, -1)"
  by (simp add: rpmdsNext_def)

lemma merge_loop:
  assumes "merged ds E" "ds_wf ods" "names_parse e ods" "ds_i ods + 1 = int k" "k \<le> ds_Count ods"
  shows "\<exists>ods' ds'. rpmdsEach e merge_body ods ds = ok (ods', ds') \<and>
    merged ds' (E \<union> set (drop k (entries ods))) \<and> entries ods' = entries ods"
  using assms
proof (induction "ds_Count ods - k" arbitrary: k ods ds E)
  case 0
  then have "rpmdsNext e ods = ok (ods\<lparr>ds_i := -1\<rparr>, -1)" by (intro rpmdsNext_end[of _ k]) auto
  then show ?case using 0 by (subst rpmdsEach.simps) simp
next
  case (Suc n)
  then have k: "k < ds_Count ods" by simp
  obtain ns d where nx: "rpmdsNext e ods = ok (ods\<lparr>ds_i := int k, ds_ns := ns, ds_DNEVR := d\<rparr>, int k)"
    using rpmdsNext_element[OF Suc.prems(2-4) k] by blast
  let ?o = "ods\<lparr>ds_i := int k, ds_ns := ns, ds_DNEVR := d\<rparr>"
  have wf: "ds_wf ?o" "names_parse e ?o" using Suc.prems(2,3) by (simp_all add: names_parse_def)
  obtain ds1 where b: "merge_body ?o ds = ok (ds1, False)" "merged ds1 (insert (entry_at ?o k) E)"
    using merge_body_spec[OF Suc.prems(1) wf(1), of k] k by auto
  obtain ods' ds' where r: "rpmdsEach e merge_body ?o ds1 = ok (ods', ds')"
      "merged ds' (insert (entry_at ?o k) E \<union> set (drop (Suc k) (entries ?o)))" "entries ods' = entries ?o"
  proof -
    have "n = ds_Count ?o - Suc k" "ds_i ?o + 1 = int (Suc k)" "Suc k \<le> ds_Count ?o"
      using Suc.hyps(2) k by simp_all
    then show thesis using Suc.hyps(1)[OF _ b(2) wf, of "Suc k"] that by blast
  qed
  have "drop k (entries ods) = entry_at ods k # drop (Suc k) (entries ods)"
    using k by (simp add: last_index_take)
  then have "merged ds' (E \<union> set (drop k (entries ods)))" using r(2) by (simp add: Un_commute)
  moreover have "rpmdsEach e merge_body ods ds = ok (ods', ds')"
    using nx b(1) r(1) by (subst rpmdsEach.simps) simp
  ultimately show ?case using r(3) by auto
qed

lemma dup_first:
  assumes "ds_wf ods" "0 < ds_Count ods"
  shows "\<exists>ds. rpmdsDup (ods\<lparr>ds_Count := 1\<rparr>) = ok ds \<and> merged ds {entry_at ods 0}"
proof -
  obtain E fl where o: "ds_EVR ods = Some E" "ds_Flags ods = Some fl" "0 < length (ds_N ods)" "0 < length E"
      "0 < length fl" "ds_N ods ! 0 \<noteq> None" "E ! 0 \<noteq> None" "fl ! 0 < 2 ^ 31"
    using assms by (fastforce simp: ds_wf_def)
  have d: "dup_argv (ds_N ods) (Suc 0) = ok [ds_N ods ! 0, None]" "dup_argv E (Suc 0) = ok [E ! 0, None]"
    using o dup_argv_Some[of "Suc 0" "ds_N ods"] dup_argv_Some[of "Suc 0" E]
    by (simp_all add: take_Suc_conv_app_nth Suc_le_eq)
  obtain ds where ds: "rpmdsDup (ods\<lparr>ds_Count := 1\<rparr>) = ok ds" "ds_N ds = [ds_N ods ! 0, None]"
      "ds_EVR ds = Some [E ! 0, None]" "ds_Flags ds = Some [fl ! 0]" "ds_Count ds = 1"
    using o d by (simp add: rpmdsDup_def rpmdsDupArgv_def Let_def take_Suc_conv_app_nth Suc_le_eq)
  have "entries ds = [entry_at ods 0]" using ds o by (simp add: entries_def entry_at_def)
  then show ?thesis
    using ds o by (intro exI[of _ ds]) (auto simp: merged_def merge_target_def ds_wf_def ds_sorted_def)
qed

lemma merge_into:
  assumes "merged ds E" "ds_wf ods" "names_parse e ods"
  shows "\<exists>ods' ds'. rpmdsEach e merge_body (rpmdsInit ods) ds = ok (ods', ds') \<and>
    merged ds' (E \<union> set (entries ods)) \<and> entries ods' = entries ods"
  using merge_loop[OF assms(1), of "rpmdsInit ods" e 0] assms(2,3)
  by (simp add: rpmdsInit_def names_parse_def)

section \<open>Loops over a set\<close>

text \<open>What \<open>rpmdsNext\<close> makes of the set at its element \<open>k\<close> does not depend on the element before.\<close>

definition ds_at :: "dsenv \<Rightarrow> rpmds \<Rightarrow> nat \<Rightarrow> rpmds" where
  "ds_at e ds k = (case rpmdsNext e (ds\<lparr>ds_i := int k - 1\<rparr>) of Inr (d, _) \<Rightarrow> d | Inl _ \<Rightarrow> ds)"

lemma rpmdsNext_forgets:
  "k < ds_Count ds \<Longrightarrow>
     rpmdsNext e (ds\<lparr>ds_i := int k - 1, ds_ns := x, ds_DNEVR := y\<rparr>) = rpmdsNext e (ds\<lparr>ds_i := int k - 1\<rparr>)"
  by (simp add: rpmdsNext_def Let_def)

definition same_set :: "rpmds \<Rightarrow> rpmds \<Rightarrow> bool" where
  "same_set ds' ds \<longleftrightarrow> (\<exists>i x y. ds' = ds\<lparr>ds_i := i, ds_ns := x, ds_DNEVR := y\<rparr>)"

lemma same_set_refl [simp]: "same_set ds ds" "same_set (ds\<lparr>ds_i := i\<rparr>) ds"
  unfolding same_set_def
  by (rule exI[of _ "ds_i ds"], rule exI[of _ "ds_ns ds"], rule exI[of _ "ds_DNEVR ds"], simp)
    (rule exI[of _ i], rule exI[of _ "ds_ns ds"], rule exI[of _ "ds_DNEVR ds"], simp)

lemma same_set_index: "same_set ds' ds \<Longrightarrow> same_set (ds'\<lparr>ds_i := j\<rparr>) ds"
proof -
  assume "same_set ds' ds"
  then obtain i x y where "ds' = ds\<lparr>ds_i := i, ds_ns := x, ds_DNEVR := y\<rparr>" by (auto simp: same_set_def)
  then have "ds'\<lparr>ds_i := j\<rparr> = ds\<lparr>ds_i := j, ds_ns := x, ds_DNEVR := y\<rparr>" by simp
  then show ?thesis unfolding same_set_def by blast
qed

lemma same_setD: "same_set ds' ds \<Longrightarrow> ds_Count ds' = ds_Count ds \<and> ds_N ds' = ds_N ds \<and> entries ds' = entries ds"
  by (auto simp: same_set_def)

lemma rpmdsNext_same:
  assumes "ds_wf ds" "names_parse e ds" "same_set ds' ds" "ds_i ds' + 1 = int k" "k < ds_Count ds"
  shows "rpmdsNext e ds' = ok (ds_at e ds k, int k)" "same_set (ds_at e ds k) ds" "ds_i (ds_at e ds k) = int k"
proof -
  obtain ns d where n: "rpmdsNext e (ds\<lparr>ds_i := int k - 1\<rparr>) = ok (ds\<lparr>ds_i := int k, ds_ns := ns, ds_DNEVR := d\<rparr>, int k)"
    using rpmdsNext_element[of "ds\<lparr>ds_i := int k - 1\<rparr>" e k] assms(1,2,5) by (auto simp: names_parse_def)
  then have at: "ds_at e ds k = ds\<lparr>ds_i := int k, ds_ns := ns, ds_DNEVR := d\<rparr>" by (simp add: ds_at_def)
  show "same_set (ds_at e ds k) ds" "ds_i (ds_at e ds k) = int k" unfolding at same_set_def by auto
  obtain i x y where "ds' = ds\<lparr>ds_i := i, ds_ns := x, ds_DNEVR := y\<rparr>" using assms(3) by (auto simp: same_set_def)
  then have "ds' = ds\<lparr>ds_i := int k - 1, ds_ns := x, ds_DNEVR := y\<rparr>" using assms(4) by simp
  then show "rpmdsNext e ds' = ok (ds_at e ds k, int k)"
    using rpmdsNext_forgets[OF assms(5)] n at by simp
qed

text \<open>A loop that breaks at the first element of \<open>[k, u)\<close> that satisfies \<open>P\<close>.\<close>

lemma each_first:
  assumes "ds_wf ds" "names_parse e ds" "same_set ds' ds" "ds_i ds' + 1 = int k" "k \<le> u" "u \<le> ds_Count ds"
    and "\<And>j st. k \<le> j \<Longrightarrow> j < u \<Longrightarrow> body (ds_at e ds j) st = ok (f (P j), P j)"
    and "\<And>st. u < ds_Count ds \<Longrightarrow> body (ds_at e ds u) st = ok (st, True)"
  shows "\<exists>d st'. rpmdsEach e body ds' st = ok (d, st') \<and> same_set d ds \<and>
    (if \<exists>j. k \<le> j \<and> j < u \<and> P j
     then (\<exists>j. k \<le> j \<and> j < u \<and> P j \<and> ds_i d = int j) \<and> st' = f True
     else st' = (if k < u then f False else st))"
  using assms
proof (induction "u - k" arbitrary: k ds' st)
  case 0
  then have k: "k = u" by simp
  show ?case
  proof (cases "u < ds_Count ds")
    case True
    then show ?thesis
      using rpmdsNext_same[OF "0.prems"(1-3), of k] "0.prems" k
      by (subst rpmdsEach.simps) simp
  next
    case False
    have "ds_Count ds' \<le> k" "same_set (ds'\<lparr>ds_i := -1\<rparr>) ds"
      using False k same_setD[OF "0.prems"(3)] same_set_index[OF "0.prems"(3)] by auto
    then show ?thesis
      using rpmdsNext_end[of ds' k e] k "0.prems"(4) by (subst rpmdsEach.simps) simp
  qed
next
  case (Suc n)
  have k: "k < u" "k < ds_Count ds" using Suc by auto
  note nx = rpmdsNext_same[OF Suc.prems(1-4) k(2)]
  have b: "body (ds_at e ds k) st = ok (f (P k), P k)" using Suc.prems(7) k by simp
  show ?case
  proof (cases "P k")
    case True
    then have "rpmdsEach e body ds' st = ok (ds_at e ds k, f True)"
      using nx(1) b by (subst rpmdsEach.simps) simp
    then show ?thesis using nx(2,3) True k by auto
  next
    case False
    then have step: "rpmdsEach e body ds' st = rpmdsEach e body (ds_at e ds k) (f False)"
      using nx(1) b by (subst rpmdsEach.simps) simp
    have "\<exists>d st'. rpmdsEach e body (ds_at e ds k) (f False) = ok (d, st') \<and> same_set d ds \<and>
        (if \<exists>j. Suc k \<le> j \<and> j < u \<and> P j
         then (\<exists>j. Suc k \<le> j \<and> j < u \<and> P j \<and> ds_i d = int j) \<and> st' = f True
         else st' = (if Suc k < u then f False else f False))"
      using Suc.hyps(1)[of "Suc k" "ds_at e ds k" "f False"] Suc.hyps(2) Suc.prems nx k by simp
    moreover have "(\<exists>j. k \<le> j \<and> j < u \<and> P j) \<longleftrightarrow> (\<exists>j. Suc k \<le> j \<and> j < u \<and> P j)"
      using False by (metis Suc_leD le_neq_implies_less Suc_leI)
    ultimately show ?thesis using step k by (auto dest: Suc_leD split: if_splits)
  qed
qed

section \<open>The run of equal names\<close>

abbreviation nm :: "rpmds \<Rightarrow> nat \<Rightarrow> string" where "nm ds k \<equiv> fst (entry_at ds k)"

lemma names_sorted:
  assumes "ds_sorted ds" "j \<le> k" "k < ds_Count ds"
  shows "strcmp (nm ds j) (nm ds k) \<le> 0"
proof (cases "j = k")
  case False
  then have "entry_cmp (entry_at ds j) (entry_at ds k) < 0"
    using assms by (auto simp: ds_sorted_def sorted_wrt_iff_nth_less)
  then show ?thesis
    by (cases "entry_at ds j"; cases "entry_at ds k") (auto simp: entry_cmp.simps split: if_splits)
qed simp

lemma names_between:
  assumes "ds_sorted ds" "j \<le> k" "k \<le> m" "m < ds_Count ds" "nm ds j = key" "nm ds m = key"
  shows "nm ds k = key"
  using names_sorted[OF assms(1,2)] names_sorted[OF assms(1,3,4)] assms strcmp_antisym[of "nm ds k" key]
  by (metis le_less_trans linorder_not_less order_le_less strcmp_eq_0)

lemma name_at_ok:
  assumes "ds_wf ods" "ds_wf ds" "ds_i ods = int o'" "o' < ds_Count ods" "k < ds_Count ds"
  shows "name_at ods ds (int k) = ok (strcmp (nm ods o') (nm ds k))"
  using ds_wfD(1)[OF assms(1,4)] ds_wfD(1)[OF assms(2,5)] assms(3) by (simp add: name_at_def)

definition is_run :: "rpmds \<Rightarrow> string \<Rightarrow> nat \<Rightarrow> nat \<Rightarrow> bool" where
  "is_run ds key l u \<longleftrightarrow> u \<le> ds_Count ds \<and> (\<forall>k<ds_Count ds. nm ds k = key \<longleftrightarrow> l \<le> k \<and> k < u)"

lemma run_low_ok:
  assumes "ds_wf ods" "ds_wf ds" "ds_i ods = int o'" "o' < ds_Count ods" "l \<le> ds_Count ds"
  shows "\<exists>l'\<le>l. run_low ods ds l = ok l' \<and> (\<forall>k. l' \<le> k \<and> k < l \<longrightarrow> nm ds k = nm ods o') \<and>
    (l' = 0 \<or> nm ds (l' - 1) \<noteq> nm ods o')"
  using assms(5)
proof (induction l)
  case (Suc l)
  have at: "name_at ods ds (int l) = ok (strcmp (nm ods o') (nm ds l))"
    using name_at_ok[OF assms(1-4)] Suc.prems by simp
  show ?case
  proof (cases "nm ds l = nm ods o'")
    case True
    obtain l' where l': "l' \<le> l" "run_low ods ds l = ok l'" "\<forall>k. l' \<le> k \<and> k < l \<longrightarrow> nm ds k = nm ods o'"
      "l' = 0 \<or> nm ds (l' - 1) \<noteq> nm ods o'" using Suc by auto
    then show ?thesis using at True by (intro exI[of _ l']) (auto simp: less_Suc_eq)
  next
    case False
    then have "strcmp (nm ods o') (nm ds l) \<noteq> 0" by auto
    then show ?thesis using at False by (intro exI[of _ "Suc l"]) auto
  qed
qed simp

lemma run_high_ok:
  assumes "ds_wf ods" "ds_wf ds" "ds_i ods = int o'" "o' < ds_Count ods" "u < ds_Count ds"
  shows "\<exists>u'>u. run_high ods ds u = ok u' \<and> u' \<le> ds_Count ds \<and> (\<forall>k. u < k \<and> k < u' \<longrightarrow> nm ds k = nm ods o') \<and>
    (u' = ds_Count ds \<or> nm ds u' \<noteq> nm ods o')"
  using assms(5)
proof (induction "ds_Count ds - u" arbitrary: u)
  case (Suc n)
  show ?case
  proof (cases "u + 1 < ds_Count ds")
    case True
    have at: "name_at ods ds (int (u + 1)) = ok (strcmp (nm ods o') (nm ds (u + 1)))"
      using name_at_ok[OF assms(1-4) True] .
    show ?thesis
    proof (cases "nm ds (u + 1) = nm ods o'")
      case eq: True
      obtain u' where u': "u' > u + 1" "run_high ods ds (u + 1) = ok u'" "u' \<le> ds_Count ds"
        "\<forall>k. u + 1 < k \<and> k < u' \<longrightarrow> nm ds k = nm ods o'" "u' = ds_Count ds \<or> nm ds u' \<noteq> nm ods o'"
      proof -
        have "n = ds_Count ds - (u + 1)" using Suc.hyps(2) by simp
        then show thesis using Suc.hyps(1)[OF _ True] that by blast
      qed
      have "run_high ods ds u = ok u'"
        using True at eq u'(2) by (subst run_high.simps) simp
      moreover have "nm ds k = nm ods o'" if "u < k" "k < u'" for k
        using that eq u'(4) by (cases "k = u + 1") simp_all
      ultimately show ?thesis using u' by (intro exI[of _ u']) simp
    next
      case False
      then have "run_high ods ds u = ok (u + 1)"
        using True at by (subst run_high.simps) (auto dest: sym)
      then show ?thesis using True False by (intro exI[of _ "u + 1"]) auto
    qed
  next
    case False
    then have "run_high ods ds u = ok (u + 1)" by (subst run_high.simps) simp
    then show ?thesis using False Suc.prems by (intro exI[of _ "u + 1"]) auto
  qed
qed simp

lemma search_run_ok:
  assumes "ds_wf ods" "ds_wf ds" "ds_i ods = int o'" "o' < ds_Count ods" "ds_sorted ds"
    and "l \<le> i" "i < u" "u \<le> ds_Count ds" "nm ds i = nm ods o'"
    and "\<forall>k<l. nm ds k \<noteq> nm ods o'" "\<forall>k. u \<le> k \<and> k < ds_Count ds \<longrightarrow> nm ds k \<noteq> nm ods o'"
  shows "\<exists>l' u'. search_run ods ds i l u = ok (l', u') \<and> is_run ds (nm ods o') l' u' \<and> l' < u'"
proof -
  let ?key = "nm ods o'"
  note at = name_at_ok[OF assms(1-4)]
  define L where "L = (if strcmp ?key (nm ds l) \<noteq> 0 then i else l)"
  have l: "nm ds L = ?key" "L \<le> i" using assms(6,9) by (auto simp: L_def)
  have "L \<le> ds_Count ds" using l(2) assms(7,8) by linarith
  then obtain l' where l': "l' \<le> L" "run_low ods ds L = ok l'" "\<forall>k. l' \<le> k \<and> k < L \<longrightarrow> nm ds k = ?key"
      "l' = 0 \<or> nm ds (l' - 1) \<noteq> ?key"
    using run_low_ok[OF assms(1-4), of L] by blast
  have first: "nm ds l' = ?key" using l'(1,3) l(1) by (cases "l' = L") simp_all
  have lc: "l' < ds_Count ds" "l' \<le> i" using l'(1) l(2) assms(7,8) by linarith+
  have low: "nm ds k \<noteq> ?key" if "k < l'" for k
  proof
    assume "nm ds k = ?key"
    moreover have "k \<le> l' - 1" "l' - 1 \<le> l'" "l' \<noteq> 0" using that by linarith+
    ultimately show False using names_between[OF assms(5) _ _ lc(1) _ first] l'(4) by blast
  qed
  have u: "(if u \<ge> ds_Count ds then ok True else andThen (name_at ods ds (int u)) (\<lambda>c. ok (c \<noteq> 0))) = ok True"
    using at[of u] assms(11) by (auto dest: sym)
  obtain u' where u': "u' > i" "run_high ods ds i = ok u'" "u' \<le> ds_Count ds"
      "\<forall>k. i < k \<and> k < u' \<longrightarrow> nm ds k = ?key" "u' = ds_Count ds \<or> nm ds u' \<noteq> ?key"
    using run_high_ok[OF assms(1-4), of i] assms(7,8) by auto
  have high: "nm ds k \<noteq> ?key" if "u' \<le> k" "k < ds_Count ds" for k
    using names_between[OF assms(5) _ that(1,2) assms(9)] u' that by fastforce
  have mid: "nm ds k = ?key" if "l' \<le> k" "k < u'" for k
    using names_between[OF assms(5) that(1) _ _ first assms(9)] that(2) u'(4) assms(7,8)
    by (cases "k \<le> i") simp_all
  have "search_run ods ds i l u = ok (l', u')"
    using at[of l] assms(6,7,8) l'(2) u u'(2) by (simp add: search_run_def Let_def L_def)
  moreover have "is_run ds ?key l' u'"
    using low high mid u'(3) unfolding is_run_def by (metis linorder_not_less)
  ultimately show ?thesis using l'(1) l(2) u'(1) by fastforce
qed

lemma search_loop_ok:
  assumes "ds_wf ods" "ds_wf ds" "ds_i ods = int o'" "o' < ds_Count ods" "ds_sorted ds"
    and "u \<le> ds_Count ds" "l \<le> u"
    and "\<forall>k<l. strcmp (nm ods o') (nm ds k) > 0"
    and "\<forall>k. u \<le> k \<and> k < ds_Count ds \<longrightarrow> strcmp (nm ods o') (nm ds k) < 0"
  shows "\<exists>l' u'. search_loop ods ds l u = ok (l', u') \<and> is_run ds (nm ods o') l' u' \<and> l' \<le> u'"
  using assms(6-)
proof (induction "u - l" arbitrary: l u rule: less_induct)
  case less
  let ?key = "nm ods o'" and ?m = "(l + u) div 2"
  show ?case
  proof (cases "l < u")
    case False
    then have "search_loop ods ds l u = ok (l, u)" by (subst search_loop.simps) simp
    moreover have "is_run ds ?key l u"
      using less.prems False unfolding is_run_def
      by (metis le_antisym linorder_not_less order_less_irrefl strcmp_eq_0)
    ultimately show ?thesis using less.prems by auto
  next
    case True
    have m: "l \<le> ?m" "?m < u" using True by auto
    have at: "name_at ods ds (int ?m) = ok (strcmp ?key (nm ds ?m))"
      using name_at_ok[OF assms(1-4)] m less.prems(1) by simp
    consider (lt) "strcmp ?key (nm ds ?m) < 0" | (gt) "strcmp ?key (nm ds ?m) > 0" | (eq) "strcmp ?key (nm ds ?m) = 0"
      by linarith
    then show ?thesis
    proof cases
      case lt
      have "strcmp ?key (nm ds k) < 0" if "?m \<le> k" "k < ds_Count ds" for k
        using lt names_sorted[OF assms(5) that] strc.less_le_trans[of ?key "nm ds ?m" "nm ds k"] by simp
      then have "\<exists>l' u'. search_loop ods ds l ?m = ok (l', u') \<and> is_run ds ?key l' u' \<and> l' \<le> u'"
        using less.hyps[of ?m l] m less.prems by simp
      then show ?thesis using True at lt by (subst search_loop.simps) (simp add: Let_def)
    next
      case gt
      have "strcmp ?key (nm ds k) > 0" if "k < ?m + 1" for k
        using gt names_sorted[OF assms(5), of k ?m] strc.trans[of ?key "nm ds k" "nm ds ?m"] that m less.prems(1)
        by fastforce
      then have "\<exists>l' u'. search_loop ods ds (?m + 1) u = ok (l', u') \<and> is_run ds ?key l' u' \<and> l' \<le> u'"
        using less.hyps[of u "?m + 1"] m less.prems by simp
      then show ?thesis using True at gt by (subst search_loop.simps) (simp add: Let_def)
    next
      case eq
      have ne: "\<forall>k<l. nm ds k \<noteq> ?key" "\<forall>k. u \<le> k \<and> k < ds_Count ds \<longrightarrow> nm ds k \<noteq> ?key"
        using less.prems(3,4) by (metis order_less_irrefl strcmp_refl)+
      have "nm ds ?m = ?key" using eq by simp
      then obtain l' u' where "search_run ods ds ?m l u = ok (l', u')" "is_run ds ?key l' u'" "l' < u'"
        using search_run_ok[OF assms(1-5) m less.prems(1) _ ne] by blast
      then show ?thesis using True at eq by (subst search_loop.simps) (simp add: Let_def)
    qed
  qed
qed

end
