(* ===== verification/DsThms.thy ===== *)
theory DsThms
  imports DsProps
begin

unbundle bit_operations_syntax

text \<open>
  The properties of dependency sets: merging, searching, the formatted dependency, the
  comparison of two dependencies, and the matching of a dependency against a set.
\<close>

section \<open>Comparison of versions\<close>

lemma ds_sense_fields:
  assumes "fields_ok (F a)" "fields_ok (F b)"
    and "\<forall>c\<in>set order. \<forall>ix. evr_tuple_index c = Some ix \<longrightarrow> field_set a ix \<and> field_set b ix"
  shows "ds_sense rpmEVRcmp np order a b 0 = ok (fields_cmp order (F a) (F b))"
  using assms(3)
proof (induction order)
  case (Cons c s)
  show ?case
  proof (cases "evr_tuple_index c")
    case None
    then show ?thesis using Cons assms(1,2) by (simp add: fields_cmp_skip del: evr_tuple_index.simps)
  next
    case (Some ix)
    then have set: "field_set a ix" "field_set b ix" using Cons.prems by auto
    have v: "verstr (the (F a ix))" "verstr (the (F b ix))" using fields_okD assms(1,2) Some by blast+
    show ?thesis
      using Cons set Some assms(1,2) evr_cmp_ok[OF v]
      by (simp add: fields_cmp_field Let_def epoch_sense_def del: evr_tuple_index.simps)
  qed
qed (simp add: fields_cmp_Nil)

text \<open>The state of two sets at elements with the same plain name, and a sense and a version each.\<close>

definition plain_at :: "rpmds \<Rightarrow> string \<Rightarrow> u32 \<Rightarrow> string \<Rightarrow> bool" where
  "plain_at ds name sense evr \<longleftrightarrow>
     ds_DNEVR ds \<noteq> None \<and> 2 \<le> length (the (ds_DNEVR ds)) \<and> ds_valid ds \<and>
     ns_A (ds_ns ds) = None \<and> ns_read (ds_ns ds) (ns_N (ds_ns ds)) = Some name \<and>
     rpmdsFlags (Some ds) = ok sense \<and> ns_Flags (ds_ns ds) = sense AND RPMSENSE_SENSEMASK \<and>
     cur_evr ds = ok (Some evr) \<and> ds_EVR ds \<noteq> None \<and> ds_Flags ds \<noteq> None \<and> ns_Flags (ds_ns ds) \<noteq> 0"

lemma rpmdsCompare_plain:
  assumes "plain_at A name fa va" "plain_at B name fb vb"
    and "ds_EVRparse A = None" "ds_EVRparse B = None" "ds_EVRcmp A = None"
    and "rpmEVRparse (evr_regexec e) va = ok a" "rpmEVRparse (evr_regexec e) vb = ok b"
  shows "rpmdsCompare e A B =
    andThen (ds_sense rpmEVRcmp (ds_nopromote B) (rpmdsEVRorder e) a b 0)
      (\<lambda>s. ok (range_overlap (fa AND RPMSENSE_SENSEMASK) (fb AND RPMSENSE_SENSEMASK) s))"
  using assms
  by (cases "ds_sense rpmEVRcmp (ds_nopromote B) (rpmdsEVRorder e) a b 0")
    (auto simp: plain_at_def rpmdsCompare_def dnevr_tail_def sense_match_def ds_overlap_def rpmdsNAcmp_def Let_def)

lemma ds_sense_nopromote:
  "field_set a RPMEVR_E \<Longrightarrow> field_set b RPMEVR_E \<Longrightarrow>
     ds_sense cmp np s a b sense = ds_sense cmp np' s a b sense"
proof (induction s arbitrary: sense)
  case (Cons c s)
  then have "ds_sense cmp np s a b s' = ds_sense cmp np' s a b s'" for s' by blast
  with Cons.prems show ?case by (simp add: epoch_sense_def Let_def split: option.splits cong: if_cong del: evr_tuple_index.simps)
qed simp

section \<open>Names with an architecture\<close>

lemma strrchr_last: "c \<notin> set r \<Longrightarrow> strrchr (a @ c # r) c = Some (c # r)"
proof (induction a)
  case Nil
  have "c \<notin> set r \<Longrightarrow> strrchr r c = None" by (induction r) auto
  with Nil show ?case by simp
qed simp

lemma starts_bang: "starts ''!'' t \<longleftrightarrow> t \<noteq> [] \<and> hd t = CHR ''!''"
  by (cases t) (auto simp: starts_def)

lemma rpmnsParse_arch:
  assumes "expand t = t" "t = n @ CHR ''.'' # ar" "CHR ''.'' \<notin> set ar" "hd t \<noteq> CHR ''!''" "rpmnsClassify t = ok NS_ARCH"
  shows "rpmnsParse expand t = ok \<lparr>ns_str = Some (n @ NUL # ar @ [NUL]), ns_Type = NS_ARCH, ns_NS = None,
    ns_N = Some 0, ns_A = Some (Suc (length n)), ns_Flags = 0\<rparr>"
proof -
  have "index_of t (strrchr t (CHR ''.'')) = Some (length n)"
    using assms(2,3) by (simp add: index_of_def strrchr_last)
  moreover have "\<not> starts ''!'' t" using assms(4) starts_bang by blast
  ultimately show ?thesis
    using assms(1,2,5) by (simp add: rpmnsParse_def rpmns_N_at_A_def Let_def list_update_append)
qed

lemma rpmnsParse_plain:
  assumes "expand t = t" "hd t \<noteq> CHR ''!''" "t \<noteq> []" "rpmnsClassify t = ok ty" "ty \<noteq> NS_ARCH" "\<not> ns_is_probe ty"
  shows "rpmnsParse expand t = ok \<lparr>ns_str = Some (t @ [NUL]), ns_Type = ty, ns_NS = None, ns_N = Some 0,
    ns_A = None, ns_Flags = 0\<rparr>"
proof -
  have "\<not> starts ''!'' t" using assms(2) starts_bang by blast
  then show ?thesis using assms by (simp add: rpmnsParse_def Let_def)
qed

lemma rpmdsSingle_ns:
  assumes "rpmdsSingle e now tagN (Some N) EVR fl = ok ds" "rpmnsParse (rpmExpand e) N = ok ns"
  shows "\<exists>f. ds_ns ds = ns\<lparr>ns_Flags := f\<rparr>"
  using assms(1)
  by (auto simp: rpmdsSingle_def rpmdsNewDNEVR_def rpmdsNewN_def str_slot_def slot_def assms(2) Let_def c_simps)

lemma rpmnsParse_fault: "rpmnsParse expand s = Inl f \<Longrightarrow> f = OutOfBounds"
proof -
  have scan: "classify_scan b pr str = Inl f \<Longrightarrow> f = OutOfBounds" for b pr str
    by (induction b pr str rule: classify_scan.induct) (auto split: if_splits)
  have cl: "rpmnsClassify str = Inl f \<Longrightarrow> f = OutOfBounds" for str
    using scan by (auto simp: rpmnsClassify_def Let_def split: if_splits)
  show "rpmnsParse expand s = Inl f \<Longrightarrow> f = OutOfBounds"
    using cl[of "expand s"] by (cases "rpmnsClassify (expand s)") (auto simp: rpmnsParse_def Let_def split: if_splits option.splits)
qed

section \<open>An example environment\<close>

text \<open>No macros, the order \<open>EV\<close>, and a pattern that takes the whole string for the version.\<close>

definition example_env :: dsenv where
  "example_env = \<lparr>rpmExpand = (\<lambda>s. s), evr_tuple_order = ''EV'',
     evr_regexec = (\<lambda>s. [(0, int (length s)), (-1, -1), (0, int (length s))]),
     evr_parsers = (\<lambda>_ _. Inl NullDeref), evr_cmps = (\<lambda>_ _ _. ok 0), tagName = (\<lambda>_. ''Unknown''),
     rpmGenPath = (\<lambda>d n. d @ n)\<rparr>"

definition example_ds :: "string \<Rightarrow> string \<Rightarrow> u32 \<Rightarrow> rpmds" where
  "example_ds n v f = (case rpmdsSingle example_env 0 RPMTAG_PROVIDENAME (Some n) (Some v) f of
     Inr ds \<Rightarrow> ds | Inl _ \<Rightarrow> rpmdsGetPool)"

definition example_hdr :: hdr where
  "example_hdr = \<lparr>h_argv = (\<lambda>t. if t = RPMTAG_PROVIDENAME then Some [''bar''] else if t = RPMTAG_PROVIDEVERSION then Some [''1.0''] else None),
     h_ui32 = (\<lambda>t. if t = RPMTAG_PROVIDEFLAGS then Some [8] else None), h_str = (\<lambda>_. None)\<rparr>"

definition example_provides :: rpmds where
  "example_provides = (case rpmdsNew example_env True example_hdr RPMTAG_PROVIDENAME True of
     Inr (Some ds) \<Rightarrow> ds | _ \<Rightarrow> rpmdsGetPool)"

lemmas example_defs = example_env_def example_ds_def example_hdr_def example_provides_def


lemma names_parse_isl: "names_parse e ds \<longleftrightarrow> (\<forall>k<ds_Count ds. \<not> isl (rpmnsParse (rpmExpand e) (the (ds_N ds ! k))))"
proof -
  have "\<not> isl x \<longleftrightarrow> (\<exists>y. x = ok y)" for x :: "rpmns outcome" by (cases x) simp_all
  then show ?thesis by (simp add: names_parse_def)
qed

lemma example_foo:
  "ds_wf (example_ds ''foo'' ''1.0'' 8)" "merge_target (example_ds ''foo'' ''1.0'' 8)"
  "ds_sorted (example_ds ''foo'' ''1.0'' 8)" "names_parse example_env (example_ds ''foo'' ''1.0'' 8)"
  "ds_Count (example_ds ''foo'' ''1.0'' 8) = 1" "ds_i (example_ds ''foo'' ''1.0'' 8) = 0"
  "entries (example_ds ''foo'' ''1.0'' 8) = [(''foo'', ''1.0'', 8)]" "ds_Result (example_ds ''foo'' ''1.0'' 8) = None"
  unfolding names_parse_isl by code_simp+

lemma example_bar:
  "ds_wf (example_ds ''bar'' ''2'' 8)" "merge_target (example_ds ''bar'' ''2'' 8)"
  "ds_sorted (example_ds ''bar'' ''2'' 8)" "entries (example_ds ''bar'' ''2'' 8) = [(''bar'', ''2'', 8)]"
  by code_simp+

section \<open>Properties\<close>

text \<open>C3: merging keeps a dependency set strictly sorted by name, version and flags. The set
  merged in is well formed, is not empty and has names that the parser of names accepts; the set merged
  into is none, or is sorted and has arrays with room for a terminator behind its entries, as the sets
  that a merge leaves do (the arrays of a set made from a header have no such room, and merging into it
  is a fault, see \<open>rpmdsMerge_into_header_set\<close>); flags are below 2^31. Then
  \<open>rpmdsMerge\<close> runs without a fault and leaves a sorted set that holds exactly the entries
  of both, each once, again with room for the terminators; the set merged in keeps its entries and its
  index.\<close>

theorem rpmdsMerge_sorted_union:
  assumes "ds_wf ods" "names_parse e ods" "0 < ds_Count ods"
    and "\<forall>ds. dsp = Some ds \<longrightarrow> merge_target ds \<and> ds_sorted ds"
  shows "\<exists>ds' ods'. rpmdsMerge e dsp (Some ods) = ok (Some ds', Some ods', 0) \<and> merge_target ds' \<and>
    ds_sorted ds' \<and> distinct (entries ds') \<and>
    set (entries ds') = (case dsp of None \<Rightarrow> {} | Some ds \<Rightarrow> set (entries ds)) \<union> set (entries ods) \<and>
    entries ods' = entries ods \<and> ds_i ods' = ds_i ods"
proof -
  have dist: "distinct (entries ds)" if "merged ds E" for ds E
  proof -
    have "entry_cmp x x = 0" if "x \<in> set (entries ds)" for x
    proof -
      obtain j where "j < ds_Count ds" "x = entry_at ds j" using \<open>x \<in> _\<close> by (auto simp: in_set_conv_nth)
      moreover have "ds_wf ds" using \<open>merged ds E\<close> by (simp add: merged_def merge_target_def)
      ultimately show ?thesis using entry.refl_0[OF entries_dom] by blast
    qed
    then show ?thesis
      using that unfolding merged_def ds_sorted_def sorted_wrt_iff_nth_less distinct_conv_nth
      by (metis linorder_neqE_nat nth_mem order_less_irrefl)
  qed
  have "\<exists>ds E. (case dsp of Some ds \<Rightarrow> ok ds | None \<Rightarrow> rpmdsDup (ods\<lparr>ds_Count := 1\<rparr>)) = ok ds \<and> merged ds E \<and>
      E \<union> set (entries ods) = (case dsp of None \<Rightarrow> {} | Some ds \<Rightarrow> set (entries ds)) \<union> set (entries ods)"
  proof (cases dsp)
    case None
    have "entry_at ods 0 \<in> set (entries ods)" using assms(3) by (metis length_entries nth_entries nth_mem)
    then show ?thesis using dup_first[OF assms(1,3)] None by auto
  next
    case (Some ds)
    then show ?thesis using assms(4) by (auto simp: merged_def)
  qed
  then obtain ds E where d: "(case dsp of Some ds \<Rightarrow> ok ds | None \<Rightarrow> rpmdsDup (ods\<lparr>ds_Count := 1\<rparr>)) = ok ds" "merged ds E"
    "E \<union> set (entries ods) = (case dsp of None \<Rightarrow> {} | Some ds \<Rightarrow> set (entries ds)) \<union> set (entries ods)"
    by blast
  obtain ods' ds' where m: "rpmdsEach e merge_body (rpmdsInit ods) ds = ok (ods', ds')"
    "merged ds' (E \<union> set (entries ods))" "entries ods' = entries ods"
    using merge_into[OF d(2) assms(1,2)] by blast
  have "rpmdsMerge e dsp (Some ods) = ok (Some ds', Some (ods'\<lparr>ds_i := ds_i ods\<rparr>), 0)"
    using d(1) m(1) by (simp add: rpmdsMerge_def)
  then show ?thesis using m d(3) dist[OF m(2)] by (simp add: merged_def)
qed

theorem rpmdsMerge_sorted_union_witness:
  "\<exists>ds' ods'. rpmdsMerge example_env (Some (example_ds ''bar'' ''2'' 8)) (Some (example_ds ''foo'' ''1.0'' 8)) =
     ok (Some ds', Some ods', 0) \<and> ds_sorted ds' \<and> set (entries ds') = {(''bar'', ''2'', 8), (''foo'', ''1.0'', 8)}"
  using rpmdsMerge_sorted_union[OF example_foo(1,4), of "Some (example_ds ''bar'' ''2'' 8)"]
  by (auto simp: example_foo(5,7) example_bar insert_commute)



text \<open>C10: \<open>rpmdsSearch\<close> on a sorted set, where the comparison with every element of the same name
  is defined: it returns an element of that name that overlaps, the set left at it, and -1
  exactly when there is none.\<close>

theorem rpmdsSearch_correct:
  assumes "ds_wf ods" "ds_wf ds" "ds_sorted ds" "names_parse e ds" "ds_i ods = int k" "k < ds_Count ods"
    and "ds_Result ods = None"
    and "\<forall>j<ds_Count ds. nm ds j = nm ods k \<longrightarrow> rpmdsCompare e ods (ds_at e ds j) = ok (ovl j)"
  shows "\<exists>d i. rpmdsSearch e (Some ds) (Some ods) = ok (Some d, Some ods, i) \<and>
    (i = -1 \<longleftrightarrow> \<not> (\<exists>j<ds_Count ds. nm ds j = nm ods k \<and> ovl j)) \<and>
    (i \<noteq> -1 \<longrightarrow> ds_i d = i \<and> (\<exists>j<ds_Count ds. i = int j \<and> nm ds j = nm ods k \<and> ovl j))"
proof -
  obtain l u where s: "search_loop ods ds 0 (ds_Count ds) = ok (l, u)" "is_run ds (nm ods k) l u" "l \<le> u"
    using search_loop_ok[OF assms(1,2,5,6,3), of "ds_Count ds" 0] by auto
  have u: "u \<le> ds_Count ds" and run: "\<forall>j<ds_Count ds. nm ds j = nm ods k \<longleftrightarrow> l \<le> j \<and> j < u"
    using s(2) by (auto simp: is_run_def)
  show ?thesis
  proof (cases "l < u")
    case False
    then have "rpmdsSearch e (Some ds) (Some ods) = ok (Some ds, Some ods, -1)"
      using s(1) by (simp add: rpmdsSearch_def)
    then show ?thesis using False run by auto
  next
    case True
    let ?P = "\<lambda>j. ovl j"
    have body: "search_body e ods u (ds_at e ds j) st = ok (Some (ovl j), ovl j)" if "l \<le> j" "j < u" for j st
    proof -
      have "ds_i (ds_at e ds j) = int j"
        using rpmdsNext_same(3)[OF assms(2,4), of "ds\<lparr>ds_i := int j - 1\<rparr>" j] that u by simp
      then show ?thesis using assms(8) run that u by (simp add: search_body_def)
    qed
    have stop: "search_body e ods u (ds_at e ds u) st = ok (st, True)" if "u < ds_Count ds" for st
    proof -
      have "ds_i (ds_at e ds u) = int u"
        using rpmdsNext_same(3)[OF assms(2,4), of "ds\<lparr>ds_i := int u - 1\<rparr>" u] that by simp
      then show ?thesis by (simp add: search_body_def)
    qed
    obtain d st where e: "rpmdsEach e (search_body e ods u) (ds\<lparr>ds_i := int l - 1\<rparr>) None = ok (d, st)"
      and r: "if \<exists>j. l \<le> j \<and> j < u \<and> ovl j
              then (\<exists>j. l \<le> j \<and> j < u \<and> ovl j \<and> ds_i d = int j) \<and> st = Some True
              else st = (if l < u then Some False else None)"
      using each_first[where body = "search_body e ods u" and f = Some and P = ovl and st = None and u = u,
          OF assms(2,4) _ _ s(3) u body stop, of "ds\<lparr>ds_i := int l - 1\<rparr>"] by auto
    have eq: "(\<exists>j<ds_Count ds. nm ds j = nm ods k \<and> ovl j) \<longleftrightarrow> (\<exists>j. l \<le> j \<and> j < u \<and> ovl j)"
      using run u by (meson order_less_le_trans)
    show ?thesis
    proof (cases "\<exists>j. l \<le> j \<and> j < u \<and> ovl j")
      case ov: True
      then obtain j where j: "l \<le> j" "j < u" "ovl j" "ds_i d = int j" "st = Some True" using r by auto
      then have "rpmdsSearch e (Some ds) (Some ods) = ok (Some d, Some ods, int j)"
        using s(1) True e assms(7) by (simp add: rpmdsSearch_def Let_def)
      moreover have "j < ds_Count ds" using j u by linarith
      ultimately show ?thesis using j run eq by (intro exI[of _ d] exI[of _ "int j"]) auto
    next
      case False
      then have "st = Some False" using r True by simp
      then have "rpmdsSearch e (Some ds) (Some ods) = ok (Some (d\<lparr>ds_i := ds_i ds\<rparr>), Some ods, -1)"
        using s(1) True e assms(7) by (simp add: rpmdsSearch_def Let_def)
      then show ?thesis using False eq by simp
    qed
  qed
qed

theorem rpmdsSearch_correct_witness:
  "\<exists>d. rpmdsSearch example_env (Some (example_ds ''foo'' ''1.0'' 8)) (Some (example_ds ''foo'' ''1.0'' 12)) =
     ok (Some d, Some (example_ds ''foo'' ''1.0'' 12), 0)"
proof -
  let ?o = "example_ds ''foo'' ''1.0'' 12"
  have o: "ds_wf ?o" "ds_i ?o = int 0" "0 < ds_Count ?o" "ds_Result ?o = None" by code_simp+
  have n: "nm (example_ds ''foo'' ''1.0'' 8) 0 = nm ?o 0" by code_simp
  have "rpmdsCompare example_env ?o (ds_at example_env (example_ds ''foo'' ''1.0'' 8) 0) = ok True" by code_simp
  then show ?thesis
    using rpmdsSearch_correct[OF o(1) example_foo(1,3,4) o(2,3,4), of "\<lambda>_. True"] n by (auto simp: example_foo(5))
qed

text \<open>The formatted dependency never overruns the buffer that \<open>rpmdsNewDNEVR\<close> allocates after
  adding up the sizes of its parts, whatever the prefix, the name, the sense and the version.\<close>

theorem rpmdsNewDNEVR_fits: "rpmdsNewDNEVR e dspfx ds \<noteq> Inl BufferOverflow"
proof
  assume a: "rpmdsNewDNEVR e dspfx ds = Inl BufferOverflow"
  have sl: "slot xs i \<noteq> Inl BufferOverflow" for xs :: "'b list" and i by (simp add: slot_def)
  have n: "rpmdsNewN e ds \<noteq> Inl BufferOverflow"
    using sl[of "ds_N ds" "ds_i ds"] rpmnsParse_fault
    by (auto simp: rpmdsNewN_def str_slot_def andThen_def nonnull_def split: sum.splits option.splits)
  have c: "cur_sense d \<noteq> Inl BufferOverflow" for d
    by (auto simp: cur_sense_def andThen_def slot_def split: sum.splits option.splits)
  have v: "cur_evr d \<noteq> Inl BufferOverflow" for d
    by (auto simp: cur_evr_def andThen_def slot_def split: sum.splits option.splits)
  show False
    using a n c v
    by (auto simp: rpmdsNewDNEVR_def Let_def dnevr_fits andThen_def guardC_def split: sum.splits)
qed

text \<open>\<open>rpmdsMatch\<close> is a search of the whole set: where the comparison with every element is
  defined, it answers whether some element overlaps.\<close>

theorem rpmdsMatch_exists:
  assumes "ds_wf B" "names_parse e B" "\<forall>j<ds_Count B. rpmdsCompare e A (ds_at e B j) = ok (ovl j)"
  shows "\<exists>B'. rpmdsMatch e A (Some B) = ok (Some B', \<exists>j<ds_Count B. ovl j) \<and> entries B' = entries B"
proof -
  let ?body = "\<lambda>B' result. andThen (rpmdsCompare e A B') (\<lambda>r. ok (r, r))"
  have body: "?body (ds_at e B j) st = ok (ovl j, ovl j)" if "0 \<le> j" "j < ds_Count B" for j st
    using assms(3) that by simp
  obtain d st where r: "rpmdsEach e ?body (rpmdsInit B) False = ok (d, st)" "same_set d B"
    "if \<exists>j. 0 \<le> j \<and> j < ds_Count B \<and> ovl j
     then (\<exists>j. 0 \<le> j \<and> j < ds_Count B \<and> ovl j \<and> ds_i d = int j) \<and> st = True
     else st = (if 0 < ds_Count B then False else False)"
    using each_first[where body = ?body and f = "\<lambda>x. x" and P = ovl and st = False and u = "ds_Count B" and k = 0
        and ds' = "rpmdsInit B", OF assms(1,2)] body
    by (auto simp: rpmdsInit_def)
  then have "st \<longleftrightarrow> (\<exists>j<ds_Count B. ovl j)" by (auto split: if_splits)
  then show ?thesis
    using r(1) same_setD[OF r(2)] by (intro exI[of _ d]) (simp add: rpmdsMatch_def)
qed

theorem rpmdsMatch_exists_witness:
  "\<exists>B'. rpmdsMatch example_env (example_ds ''foo'' ''1.0'' 12) (Some (example_ds ''foo'' ''1.0'' 8)) = ok (Some B', True)"
proof -
  have "rpmdsCompare example_env (example_ds ''foo'' ''1.0'' 12) (ds_at example_env (example_ds ''foo'' ''1.0'' 8) 0) = ok True"
    by code_simp
  then show ?thesis
    using rpmdsMatch_exists[OF example_foo(1,4), of "example_ds ''foo'' ''1.0'' 12" "\<lambda>_. True"] by (auto simp: example_foo(5))
qed

text \<open>C34: no dependency with a version is missed: when two plain dependencies of the same name,
  neither of them with the sense "not equal" (less and greater without equal), have versions in which
  every field that is compared is present and an ordinary version string, and some version lies in both
  of their ranges, \<open>rpmdsCompare\<close> reports an overlap (in the default configuration of the
  parser and the comparison function).\<close>

theorem rpmdsCompare_complete:
  assumes "plain_at A name fa va" "plain_at B name fb vb"
    and "ds_EVRparse A = None" "ds_EVRparse B = None" "ds_EVRcmp A = None"
    and "rpmEVRparse (evr_regexec e) va = ok a" "rpmEVRparse (evr_regexec e) vb = ok b"
    and "fields_ok (F a)" "fields_ok (F b)" "fields_ok (F x)"
    and "\<forall>c\<in>set (rpmdsEVRorder e). \<forall>ix. evr_tuple_index c = Some ix \<longrightarrow> field_set a ix \<and> field_set b ix"
    and "fa AND RPMSENSE_SENSEMASK \<noteq> RPMSENSE_NOTEQUAL" "fb AND RPMSENSE_SENSEMASK \<noteq> RPMSENSE_NOTEQUAL"
    and "in_range (rpmdsEVRorder e) x (fa AND RPMSENSE_SENSEMASK) a"
    and "in_range (rpmdsEVRorder e) x (fb AND RPMSENSE_SENSEMASK) b"
  shows "rpmdsCompare e A B = ok True"
proof -
  have r: "in_range o' x f (c\<lparr>Flags := g\<rparr>) = in_range o' x f c" for o' f c g by (simp add: in_range_def)
  have "range_overlap (fa AND RPMSENSE_SENSEMASK) (fb AND RPMSENSE_SENSEMASK) (fields_cmp (rpmdsEVRorder e) (F a) (F b))"
    using overlap_complete[of "a\<lparr>Flags := fa AND RPMSENSE_SENSEMASK\<rparr>" "b\<lparr>Flags := fb AND RPMSENSE_SENSEMASK\<rparr>" x "rpmdsEVRorder e"]
      assms(8-10,12-15) r by simp
  then show ?thesis
    using rpmdsCompare_plain[OF assms(1-7)] ds_sense_fields[OF assms(8,9,11)] by simp
qed

theorem rpmdsCompare_complete_witness:
  "rpmdsCompare example_env (example_ds ''foo'' ''1.0'' 4) (example_ds ''foo'' ''1.2'' 8) = ok True"
proof -
  let ?e = "\<lambda>v. case rpmEVRparse (evr_regexec example_env) v of Inr a \<Rightarrow> a | Inl _ \<Rightarrow> rpmEVRzero"
  have p: "rpmEVRparse (evr_regexec example_env) ''1.0'' = ok (?e ''1.0'')"
    "rpmEVRparse (evr_regexec example_env) ''1.2'' = ok (?e ''1.2'')"
    by (simp_all add: rpmEVRparse_def example_env_def)
  have ix: "{1..4} = {1, 2, 3, 4::nat}" by auto
  have f: "F (?e ''1.0'') 1 = Some ''0'' \<and> F (?e ''1.0'') 2 = Some ''1.0'' \<and> F (?e ''1.0'') 3 = Some [] \<and> F (?e ''1.0'') 4 = Some []"
    "F (?e ''1.2'') 1 = Some ''0'' \<and> F (?e ''1.2'') 2 = Some ''1.2'' \<and> F (?e ''1.2'') 3 = Some [] \<and> F (?e ''1.2'') 4 = Some []"
    by code_simp+
  have v: "verstr ''0''" "verstr ''1.0''" "verstr ''1.2''" "verstr []" by code_simp+
  have ok': "fields_ok (F (?e ''1.0''))" "fields_ok (F (?e ''1.2''))" 
    unfolding fields_ok_def ix using f v by simp_all
  have o: "rpmdsEVRorder example_env = ''EV''" by code_simp
  have pl: "plain_at (example_ds ''foo'' ''1.0'' 4) ''foo'' 4 ''1.0''" "plain_at (example_ds ''foo'' ''1.2'' 8) ''foo'' 8 ''1.2''"
    by code_simp+
  have nn: "ds_EVRparse (example_ds ''foo'' ''1.0'' 4) = None" "ds_EVRparse (example_ds ''foo'' ''1.2'' 8) = None"
    "ds_EVRcmp (example_ds ''foo'' ''1.0'' 4) = None" by code_simp+
  have fs: "\<forall>c\<in>set (rpmdsEVRorder example_env). \<forall>ix. evr_tuple_index c = Some ix \<longrightarrow> field_set (?e ''1.0'') ix \<and> field_set (?e ''1.2'') ix"
    using f unfolding o by (simp add: field_set_def)
  have r: "in_range (rpmdsEVRorder example_env) (?e ''1.2'') (4 AND RPMSENSE_SENSEMASK) (?e ''1.0'')"
    "in_range (rpmdsEVRorder example_env) (?e ''1.2'') (8 AND RPMSENSE_SENSEMASK) (?e ''1.2'')"
    "4 AND RPMSENSE_SENSEMASK \<noteq> RPMSENSE_NOTEQUAL" "8 AND RPMSENSE_SENSEMASK \<noteq> RPMSENSE_NOTEQUAL" by code_simp+
  show ?thesis by (rule rpmdsCompare_complete[OF pl nn p ok' ok'(2) fs r(3,4,1,2)])
qed

text \<open>the switch against epoch promotion has no effect with the default parser: it fills in the
  epoch \<open>0\<close> where a version has none, so the special case for a missing epoch in
  \<open>rpmdsCompare\<close> is never reached. The hypothesis on the pattern is that it matches a
  non-empty epoch only.\<close>

theorem rpmdsCompare_nopromote:
  assumes "\<forall>s a. rpmEVRparse (evr_regexec e) s = ok a \<longrightarrow> field_set a RPMEVR_E"
    and "ds_EVRparse A = None" "ds_EVRparse B = None"
  shows "rpmdsCompare e A (B\<lparr>ds_nopromote := x\<rparr>) = rpmdsCompare e A B"
proof -
  let ?B = "B\<lparr>ds_nopromote := x\<rparr>"
  have same: "cur_evr ?B = cur_evr B" "rpmdsNAcmp A ?B = rpmdsNAcmp A B"
    by (simp_all add: cur_evr_def rpmdsNAcmp_def Let_def cong: option.case_cong if_cong)
  have sense: "ds_sense cmp x od a b 0 = ds_sense cmp (ds_nopromote B) od a b 0"
    if "rpmEVRparse (evr_regexec e) va = ok a" "rpmEVRparse (evr_regexec e) vb = ok b" for va vb cmp od a b
    using assms(1) that by (intro ds_sense_nopromote) blast+
  have inner: "andThen (rpmEVRparse (evr_regexec e) va) (\<lambda>a. andThen (rpmEVRparse (evr_regexec e) vb) (\<lambda>b.
        andThen (ds_sense cmp x od a b 0) g)) =
      andThen (rpmEVRparse (evr_regexec e) va) (\<lambda>a. andThen (rpmEVRparse (evr_regexec e) vb) (\<lambda>b.
        andThen (ds_sense cmp (ds_nopromote B) od a b 0) g))" for va vb cmp od and g :: "int \<Rightarrow> bool outcome"
    by (cases "rpmEVRparse (evr_regexec e) va"; cases "rpmEVRparse (evr_regexec e) vb") (simp_all add: sense)
  have "ds_overlap e A ?B = ds_overlap e A B"
    unfolding ds_overlap_def Let_def same by (simp add: assms(2,3) inner split del: if_split cong: if_cong)
  moreover have "dnevr_tail ?B = dnevr_tail B" "sense_match ?B = sense_match B"
    by (simp_all add: dnevr_tail_def sense_match_def rpmdsFlags_def ds_valid_def cong: option.case_cong if_cong)
  ultimately show ?thesis by (simp add: rpmdsCompare_def)
qed

theorem rpmdsCompare_nopromote_witness:
  "rpmdsCompare example_env (example_ds ''foo'' ''1.0'' 4) ((example_ds ''foo'' ''1.2'' 8)\<lparr>ds_nopromote := True\<rparr>) =
     rpmdsCompare example_env (example_ds ''foo'' ''1.0'' 4) (example_ds ''foo'' ''1.2'' 8)"
proof (rule rpmdsCompare_nopromote)
  show "\<forall>s a. rpmEVRparse (evr_regexec example_env) s = ok a \<longrightarrow> field_set a RPMEVR_E"
    by (auto simp: rpmEVRparse_def example_env_def field_set_def evr_default_def Let_def)
qed code_simp+

text \<open>comparing a dependency on \<open>name.arch\<close> with one on the plain name reads past the end of the
  buffer of the plain name: when the names are equal up to the architecture, \<open>BN[AA - AN]\<close>
  is the byte after the terminator.\<close>

theorem rpmdsNAcmp_arch_overread:
  assumes "rpmdsSingle e now tagA (Some (n @ CHR ''.'' # ar)) va fa = ok A"
    and "rpmdsSingle e now tagB (Some n) vb fb = ok B"
    and "rpmExpand e n = n" "rpmExpand e (n @ CHR ''.'' # ar) = n @ CHR ''.'' # ar"
    and "n \<noteq> []" "hd n \<noteq> CHR ''!''" "NUL \<notin> set n" "CHR ''.'' \<notin> set ar"
    and "rpmnsClassify (n @ CHR ''.'' # ar) = ok NS_ARCH"
    and "rpmnsClassify n = ok ty" "ty \<noteq> NS_ARCH" "\<not> ns_is_probe ty"
  shows "rpmdsNAcmp A B = Inl OutOfBounds"
proof -
  have h: "hd (n @ CHR ''.'' # ar) \<noteq> CHR ''!''" using assms(5,6) by simp
  obtain f g where ns: "ds_ns A = \<lparr>ns_str = Some (n @ NUL # ar @ [NUL]), ns_Type = NS_ARCH, ns_NS = None,
      ns_N = Some 0, ns_A = Some (Suc (length n)), ns_Flags = f\<rparr>"
    "ds_ns B = \<lparr>ns_str = Some (n @ [NUL]), ns_Type = ty, ns_NS = None, ns_N = Some 0, ns_A = None, ns_Flags = g\<rparr>"
    using rpmdsSingle_ns[OF assms(1) rpmnsParse_arch[of "rpmExpand e" "n @ CHR ''.'' # ar" n ar, OF assms(4) refl assms(8) h assms(9)]]
      rpmdsSingle_ns[OF assms(2) rpmnsParse_plain[of "rpmExpand e" n ty, OF assms(3,6,5,10,11,12)]] by auto
  have c: "cstr_at (n @ NUL # r) 0 = n" for r using cstr_at_sep[OF assms(7), of "[]" r] by simp
  have "strncmp n n (Suc (length n)) = 0" by (simp add: strncmp_take)
  then show ?thesis
    using ns c[of "[]"] c[of "ar @ [NUL]"]
    by (simp add: rpmdsNAcmp_def arch_cmp_def ns_read_def ns_char_def Let_def del: of_nat_Suc)
qed

theorem rpmdsNAcmp_arch_overread_witness:
  "rpmdsNAcmp (example_ds ''foo.i386'' ''1.0'' 8) (example_ds ''foo'' ''1.0'' 8) = Inl OutOfBounds"
proof (rule rpmdsNAcmp_arch_overread[where n = "''foo''" and ar = "''i386''"])
  show "rpmdsSingle example_env 0 RPMTAG_PROVIDENAME (Some (''foo'' @ CHR ''.'' # ''i386'')) (Some ''1.0'') 8 =
      ok (example_ds ''foo.i386'' ''1.0'' 8)"
    "rpmdsSingle example_env 0 RPMTAG_PROVIDENAME (Some ''foo'') (Some ''1.0'') 8 = ok (example_ds ''foo'' ''1.0'' 8)"
    "rpmnsClassify (''foo'' @ CHR ''.'' # ''i386'') = ok NS_ARCH" "rpmnsClassify ''foo'' = ok NS_STRING"
    "\<not> ns_is_probe NS_STRING" by code_simp+
qed (simp_all add: example_env_def)

text \<open>the arrays that \<open>headerGet\<close> returns have no slot for a terminator, so merging a new entry
  into a set that \<open>rpmdsNew\<close> made from a header writes past the end of its name array.\<close>

theorem rpmdsMerge_into_header_set:
  assumes "rpmdsNew e np h RPMTAG_PROVIDENAME True = ok (Some ds)" "ds_wf ds" "ds_sorted ds"
    and "ds_wf ods" "names_parse e ods" "0 < ds_Count ods" "entry_at ods 0 \<notin> set (entries ds)"
  shows "rpmdsMerge e (Some ds) (Some ods) = Inl OutOfBounds"
proof -
  obtain N where "ds_N ds = map Some N" "ds_Count ds = length N"
    using assms(1) by (auto simp: rpmdsNew_def tag_evr_def Let_def split: option.splits if_splits)
  then have full: "length (ds_N ds) = ds_Count ds" by simp
  have same: "same_set (rpmdsInit ods) ods" by (simp add: rpmdsInit_def)
  note nx = rpmdsNext_same[OF assms(4,5) same, of 0]
  let ?o = "ds_at e ods 0"
  have o: "rpmdsNext e (rpmdsInit ods) = ok (?o, 0)" "same_set ?o ods" "ds_i ?o = int 0"
    using nx assms(6) by (simp_all add: rpmdsInit_def)
  have wf: "ds_wf ?o" "ds_Count ?o = ds_Count ods" "entry_at ?o 0 = entry_at ods 0"
    using o(2) assms(4) by (auto simp: same_set_def)
  obtain i l u r where f: "rpmdsFind ds ?o = ok (cursor ds i l u, r)"
    and r: "r \<ge> 0 \<and> nat r < ds_Count ds \<and> entry_at ds (nat r) = entry_at ?o 0 \<or> r = -1 \<and> place (entry_at ?o 0) ds u"
    using rpmdsFind_spec[OF wf(1) assms(2) o(3) _ assms(3)] wf(2) assms(6) by auto
  have "r = -1"
    using r assms(7) wf(3) by (metis length_entries nth_entries nth_mem)
  obtain s where "slot (ds_N ?o) 0 = ok s"
    using ds_wfD(1)[OF wf(1), of 0] wf(2) assms(6) by (auto simp: str_slot_def andThen_Inr_iff)
  then have "rpmdsInsert (cursor ds i l u) ?o = Inl OutOfBounds"
    using o(3) full by (simp add: rpmdsInsert_def shift_in_def)
  then have "merge_body ?o ds = Inl OutOfBounds" using f \<open>r = -1\<close> by (simp add: merge_body_def)
  then have "rpmdsEach e merge_body (rpmdsInit ods) ds = Inl OutOfBounds"
    using o(1) by (subst rpmdsEach.simps) simp
  then show ?thesis by (simp add: rpmdsMerge_def)
qed

theorem rpmdsMerge_into_header_set_witness:
  "rpmdsMerge example_env (Some example_provides) (Some (example_ds ''foo'' ''1.0'' 8)) = Inl OutOfBounds"
proof (rule rpmdsMerge_into_header_set[where h = example_hdr and np = True])
  show "rpmdsNew example_env True example_hdr RPMTAG_PROVIDENAME True = ok (Some example_provides)"
    by (simp add: example_provides_def example_hdr_def rpmdsNew_def tag_evr_def Let_def)
  show "ds_wf example_provides" "ds_sorted example_provides" "entry_at (example_ds ''foo'' ''1.0'' 8) 0 \<notin> set (entries example_provides)"
    by code_simp+
qed (simp_all add: example_foo)

end
