(* ===== verification/Hash.thy ===== *)
theory Hash
  imports CLib
begin

unbundle bit_operations_syntax

text \<open>
  The hash table of \<open>rpmio/rpmhash.c\<close>: chained buckets that map a key to the list of the data
  added under it, the hash function on strings with its loop unrolled eight times, and the
  list of keys. The interface that the callers rely on is the locale \<open>multimap\<close>, which the
  table of strings satisfies.

  A table keeps the hash and the comparison function it was created with. A bucket is its
  key and its data; keys are not null. The chain of a slot is the list of its buckets in the
  order of their \<open>next\<close> pointers.
\<close>

section \<open>The model\<close>

type_synonym ('k, 'd) bucket = "'k \<times> 'd list"

record ('k, 'd) hashTable =
  numBuckets :: nat
  keySize :: nat
  freeData :: bool
  buckets :: "('k, 'd) bucket list list"
  fn :: "u32 \<Rightarrow> 'k \<Rightarrow> u32"
  eq :: "'k \<Rightarrow> 'k \<Rightarrow> int"

definition hashEqualityString :: "string \<Rightarrow> string \<Rightarrow> int" where
  "hashEqualityString k1 k2 = strcmp k1 k2"

text \<open>\<open>h = ((h << 5) + h) + (rpmuint32_t)*key++\<close>, with the character sign-extended.\<close>

definition hash_step :: "u32 \<Rightarrow> char \<Rightarrow> u32" where
  "hash_step h c = (push_bit 5 h + h) + word_of_int (cval c)"

text \<open>The loop takes eight characters at a time, the \<open>switch\<close> falls through the rest.\<close>

fun hash_unrolled :: "u32 \<Rightarrow> string \<Rightarrow> u32" where
  "hash_unrolled h (a # b # c # d # e # f # g # i # key) =
     (let h = hash_step h a; h = hash_step h b; h = hash_step h c; h = hash_step h d;
          h = hash_step h e; h = hash_step h f; h = hash_step h g; h = hash_step h i
      in hash_unrolled h key)"
| "hash_unrolled h [a, b, c, d, e, f, g] =
     hash_step (hash_step (hash_step (hash_step (hash_step (hash_step (hash_step h a) b) c) d) e) f) g"
| "hash_unrolled h [b, c, d, e, f, g] =
     hash_step (hash_step (hash_step (hash_step (hash_step (hash_step h b) c) d) e) f) g"
| "hash_unrolled h [c, d, e, f, g] = hash_step (hash_step (hash_step (hash_step (hash_step h c) d) e) f) g"
| "hash_unrolled h [d, e, f, g] = hash_step (hash_step (hash_step (hash_step h d) e) f) g"
| "hash_unrolled h [e, f, g] = hash_step (hash_step (hash_step h e) f) g"
| "hash_unrolled h [f, g] = hash_step (hash_step h f) g"
| "hash_unrolled h [g] = hash_step h g"
| "hash_unrolled h [] = h"

text \<open>Reading more bytes than the string and its terminator is out of bounds.\<close>

definition hashFunctionString :: "u32 \<Rightarrow> string \<Rightarrow> nat \<Rightarrow> u32 outcome" where
  "hashFunctionString h key len =
     (let len = (if len = 0 then length key else len);
          h = (if h = 0 then 5381 else h)
      in guardC OutOfBounds (len \<le> length key + 1) (ok (hash_unrolled h (take len (key @ [CHR 0x00])))))"

definition htCreate ::
    "nat \<Rightarrow> nat \<Rightarrow> bool \<Rightarrow> (u32 \<Rightarrow> 'k \<Rightarrow> u32) \<Rightarrow> ('k \<Rightarrow> 'k \<Rightarrow> int) \<Rightarrow> ('k, 'd) hashTable" where
  "htCreate n ks fd f e =
     \<lparr>numBuckets = n, keySize = ks, freeData = fd, buckets = replicate n [], fn = f, eq = e\<rparr>"

definition ht_slot :: "('k, 'd) hashTable \<Rightarrow> 'k \<Rightarrow> nat outcome" where
  "ht_slot ht key =
     guardC DivByZero (numBuckets ht \<noteq> 0) (ok (unat (fn ht 0 key mod of_nat (numBuckets ht))))"

fun chain_find :: "('k \<Rightarrow> 'k \<Rightarrow> int) \<Rightarrow> ('k, 'd) bucket list \<Rightarrow> 'k \<Rightarrow> ('k, 'd) bucket option" where
  "chain_find e [] key = None"
| "chain_find e (b # bs) key = (if e (fst b) key \<noteq> 0 then chain_find e bs key else Some b)"

definition ht_findEntry :: "('k, 'd) hashTable \<Rightarrow> 'k \<Rightarrow> ('k, 'd) bucket option outcome" where
  "ht_findEntry ht key =
     andThen (ht_slot ht key) (\<lambda>hash. andThen (slot (buckets ht) (int hash)) (\<lambda>bs.
       ok (chain_find (eq ht) bs key)))"

fun chain_append :: "('k \<Rightarrow> 'k \<Rightarrow> int) \<Rightarrow> ('k, 'd) bucket list \<Rightarrow> 'k \<Rightarrow> 'd \<Rightarrow> ('k, 'd) bucket list" where
  "chain_append e [] key data = []"
| "chain_append e (b # bs) key data =
     (if e (fst b) key \<noteq> 0 then b # chain_append e bs key data else (fst b, snd b @ [data]) # bs)"

text \<open>A table with a key size has copies of its keys, of that many bytes. A size beyond the terminator reads
  behind the key; a copy without the terminator is no string, and since every later comparison with
  it reads on behind the copy, the model reports that when the copy is made.\<close>

definition copy_key :: "nat \<Rightarrow> string \<Rightarrow> string outcome" where
  "copy_key ks key =
     guardC OutOfBounds (ks \<le> length key + 1) (guardC OutOfBounds (length key < ks) (ok (take ks (key @ [NUL]))))"

text \<open>The bytes of the copy up to the terminator are its string.\<close>

definition bucket_key :: "nat \<Rightarrow> string \<Rightarrow> string outcome" where
  "bucket_key ks key =
     (if ks \<noteq> 0 then andThen (copy_key ks key) (\<lambda>k. ok (takeWhile (\<lambda>c. c \<noteq> NUL) k)) else ok key)"

definition htAddEntry :: "(string, 'd) hashTable \<Rightarrow> string \<Rightarrow> 'd \<Rightarrow> (string, 'd) hashTable outcome" where
  "htAddEntry ht key data =
     andThen (ht_slot ht key) (\<lambda>hash. andThen (slot (buckets ht) (int hash)) (\<lambda>bs.
     andThen (if chain_find (eq ht) bs key = None
              then andThen (bucket_key (keySize ht) key) (\<lambda>k. ok ((k, []) # bs)) else ok bs) (\<lambda>bs.
       ok (ht\<lparr>buckets := (buckets ht)[hash := chain_append (eq ht) bs key data]\<rparr>))))"

definition htHasEntry :: "('k, 'd) hashTable \<Rightarrow> 'k \<Rightarrow> bool outcome" where
  "htHasEntry ht key = andThen (ht_findEntry ht key) (\<lambda>b. ok (b \<noteq> None))"

text \<open>\<open>None\<close> is the return value 1; otherwise the data and the key of the table.\<close>

definition htGetEntry :: "('k, 'd) hashTable \<Rightarrow> 'k \<Rightarrow> ('d list \<times> 'k) option outcome" where
  "htGetEntry ht key =
     andThen (ht_findEntry ht key) (\<lambda>b. ok (map_option (\<lambda>(k, ds). (ds, k)) b))"

text \<open>The keys are written one after the other into a zeroed array of \<open>numBuckets + 1\<close> pointers.\<close>

definition htGetKeys :: "('k, 'd) hashTable \<Rightarrow> 'k option list outcome" where
  "htGetKeys ht =
     (let ks = map fst (concat (buckets ht)); n = numBuckets ht + 1 in
      guardC BufferOverflow (length ks \<le> n) (ok (map Some ks @ replicate (n - length ks) None)))"

section \<open>The hash function\<close>

lemma hash_step_33: "hash_step h c = h * 33 + word_of_int (cval c)"
  by (simp add: hash_step_def push_bit_eq_mult algebra_simps)

lemma hash_unrolled_foldl: "hash_unrolled h key = foldl hash_step h key"
  by (induction h key rule: hash_unrolled.induct) (simp_all add: Let_def)

section \<open>The interface\<close>

text \<open>A container that maps a key to the list of the data added under it, in order; it may take some keys
  only.\<close>

locale multimap =
  fixes lookup :: "'t \<Rightarrow> 'k \<Rightarrow> 'd list"
    and add :: "'t \<Rightarrow> 'k \<Rightarrow> 'd \<Rightarrow> 't"
    and inv :: "'t \<Rightarrow> bool"
    and fits :: "'t \<Rightarrow> 'k \<Rightarrow> bool"
  assumes add_inv: "inv t \<Longrightarrow> fits t k \<Longrightarrow> inv (add t k d)"
    and lookup_add: "inv t \<Longrightarrow> fits t k \<Longrightarrow>
      lookup (add t k d) k' = (if k' = k then lookup t k' @ [d] else lookup t k')"
    and fits_add: "fits (add t k d) k' = fits t k'"
begin

definition add_all :: "'t \<Rightarrow> ('k \<times> 'd) list \<Rightarrow> 't" where
  "add_all t kds = foldl (\<lambda>t (k, d). add t k d) t kds"

lemma inv_add_all: "inv t \<Longrightarrow> \<forall>k\<in>fst ` set kds. fits t k \<Longrightarrow> inv (add_all t kds)"
  unfolding add_all_def by (induction kds arbitrary: t) (auto simp: add_inv fits_add)

lemma lookup_add_all: "inv t \<Longrightarrow> \<forall>k\<in>fst ` set kds. fits t k \<Longrightarrow> lookup (add_all t kds) k = lookup t k @ map snd (filter (\<lambda>kd. fst kd = k) kds)"
  unfolding add_all_def by (induction kds arbitrary: t) (auto simp: add_inv lookup_add fits_add)

end

section \<open>Chains\<close>

definition key_eq :: "('k \<Rightarrow> 'k \<Rightarrow> int) \<Rightarrow> bool" where
  "key_eq e \<longleftrightarrow> (\<forall>a b. e a b = 0 \<longleftrightarrow> a = b)"

definition bucket_data :: "('k, 'd) bucket option \<Rightarrow> 'd list" where
  "bucket_data b = (case b of None \<Rightarrow> [] | Some (k, ds) \<Rightarrow> ds)"

lemma chain_find_append:
  assumes "key_eq e" "chain_find e bs k \<noteq> None"
  shows "chain_find e (chain_append e bs k d) k' =
    (if k' = k then Some (k, bucket_data (chain_find e bs k) @ [d]) else chain_find e bs k')"
  using assms by (induction bs) (auto simp: key_eq_def bucket_data_def)

lemma chain_find_None: "key_eq e \<Longrightarrow> chain_find e bs k = None \<longleftrightarrow> k \<notin> fst ` set bs"
  by (induction bs) (auto simp: key_eq_def)

lemma chain_find_Some: "key_eq e \<Longrightarrow> chain_find e bs k = Some (k', ds) \<Longrightarrow> k' = k"
  by (induction bs) (auto simp: key_eq_def split: if_splits)

lemma chain_append_keys: "map fst (chain_append e bs k d) = map fst bs"
  by (induction bs) auto

lemma chain_append_data:
  "key_eq e \<Longrightarrow> distinct (map fst bs) \<Longrightarrow> \<forall>b\<in>set bs. fst b = k \<or> snd b \<noteq> [] \<Longrightarrow>
     \<forall>b\<in>set (chain_append e bs k d). snd b \<noteq> []"
proof (induction bs)
  case (Cons b bs)
  show ?case
  proof (cases "fst b = k")
    case True
    then have "\<forall>c\<in>set bs. fst c \<noteq> k" using Cons.prems(2) by (auto simp: image_iff)
    then show ?thesis using True Cons.prems by (auto simp: key_eq_def)
  qed (use Cons in \<open>auto simp: key_eq_def\<close>)
qed simp

section \<open>Tables of strings\<close>

type_synonym 'd string_table = "(string, 'd) hashTable"

definition string_fn :: "u32 \<Rightarrow> string \<Rightarrow> u32" where
  "string_fn h key = (case hashFunctionString h key 0 of Inr x \<Rightarrow> x | Inl _ \<Rightarrow> 0)"

definition table_inv :: "'d string_table \<Rightarrow> bool" where
  "table_inv ht \<longleftrightarrow> 0 < numBuckets ht \<and> numBuckets ht < 2 ^ 31 \<and> length (buckets ht) = numBuckets ht \<and>
     fn ht = string_fn \<and> eq ht = hashEqualityString \<and>
     (\<forall>i<numBuckets ht. distinct (map fst (buckets ht ! i)) \<and> (\<forall>b\<in>set (buckets ht ! i). snd b \<noteq> []) \<and>
        (\<forall>k\<in>fst ` set (buckets ht ! i). ht_slot ht k = ok i))"

text \<open>Keys of which a table can have a string: any, or those of its key size with the terminator.\<close>

definition key_fits :: "'d string_table \<Rightarrow> string \<Rightarrow> bool" where
  "key_fits ht k \<longleftrightarrow> NUL \<notin> set k \<and> (keySize ht = 0 \<or> keySize ht = length k + 1)"

lemma takeWhile_terminator: "NUL \<notin> set k \<Longrightarrow> takeWhile (\<lambda>c. c \<noteq> NUL) (k @ [NUL]) = k"
  by (induction k) auto

lemma bucket_key_fits: "key_fits ht k \<Longrightarrow> bucket_key (keySize ht) k = ok k"
  by (auto simp: key_fits_def bucket_key_def copy_key_def takeWhile_terminator)

definition string_lookup :: "'d string_table \<Rightarrow> string \<Rightarrow> 'd list" where
  "string_lookup ht k = (case ht_findEntry ht k of Inr b \<Rightarrow> bucket_data b | Inl _ \<Rightarrow> [])"

definition string_add :: "'d string_table \<Rightarrow> string \<Rightarrow> 'd \<Rightarrow> 'd string_table" where
  "string_add ht k d = (case htAddEntry ht k d of Inr t \<Rightarrow> t | Inl _ \<Rightarrow> ht)"

lemma key_eq_string: "key_eq hashEqualityString"
  by (simp add: key_eq_def hashEqualityString_def)

lemma ht_slot_bound:
  assumes "table_inv ht"
  shows "\<exists>i<numBuckets ht. ht_slot ht k = ok i"
proof -
  have n: "0 < numBuckets ht" "numBuckets ht < 2 ^ 31" using assms by (auto simp: table_inv_def)
  then have u: "unat (of_nat (numBuckets ht) :: u32) = numBuckets ht" by (simp add: unat_of_nat)
  then have "unat (fn ht 0 k mod of_nat (numBuckets ht)) < numBuckets ht"
    using n(1) by (simp add: unat_mod)
  then show ?thesis using n(1) by (simp add: ht_slot_def)
qed

lemma ht_slot_buckets [simp]: "ht_slot (ht\<lparr>buckets := bs\<rparr>) k = ht_slot ht k"
  by (simp add: ht_slot_def)

lemma string_add_eq:
  assumes "table_inv ht" "ht_slot ht k = ok i" "key_fits ht k"
  shows "htAddEntry ht k d = ok (ht\<lparr>buckets := (buckets ht)[i := chain_append (eq ht)
    (if chain_find (eq ht) (buckets ht ! i) k = None then (k, []) # buckets ht ! i else buckets ht ! i) k d]\<rparr>)"
proof -
  have "i < length (buckets ht)" using ht_slot_bound[OF assms(1), of k] assms by (auto simp: table_inv_def)
  then show ?thesis using assms(2) bucket_key_fits[OF assms(3)] by (simp add: htAddEntry_def)
qed

lemma string_add_fits: "key_fits (string_add ht k d) k' = key_fits ht k'"
  by (auto simp: string_add_def htAddEntry_def key_fits_def andThen_def split: sum.splits)

lemma string_add_inv: "table_inv ht \<Longrightarrow> key_fits ht k \<Longrightarrow> table_inv (string_add ht k d)"
proof -
  assume inv: "table_inv ht" and fits: "key_fits ht k"
  obtain i where i: "i < numBuckets ht" "ht_slot ht k = ok i" using ht_slot_bound[OF inv] by blast
  let ?bs = "if chain_find (eq ht) (buckets ht ! i) k = None then (k, []) # buckets ht ! i else buckets ht ! i"
  have "chain_find (eq ht) (buckets ht ! i) k = None \<longleftrightarrow> k \<notin> fst ` set (buckets ht ! i)"
    using inv by (simp add: table_inv_def chain_find_None key_eq_string)
  then have new: "distinct (map fst ?bs) \<and> (\<forall>x\<in>set (map fst ?bs). ht_slot ht x = ok i)"
    using inv i by (auto simp: table_inv_def)
  define c where "c = chain_append (eq ht) ?bs k d"
  have "map fst c = map fst ?bs" by (simp add: c_def chain_append_keys)
  then have c: "distinct (map fst c)" "\<forall>x\<in>fst ` set c. ht_slot ht x = ok i"
    using new by (metis list.set_map)+
  have "\<forall>b\<in>set ?bs. fst b = k \<or> snd b \<noteq> []" using inv i(1) by (auto simp: table_inv_def)
  then have d: "\<forall>b\<in>set c. snd b \<noteq> []"
    using chain_append_data[of "eq ht" ?bs k d] new inv by (simp add: c_def table_inv_def key_eq_string)
  have "string_add ht k d = ht\<lparr>buckets := (buckets ht)[i := c]\<rparr>"
    by (simp add: string_add_def string_add_eq[OF inv i(2) fits] c_def)
  then show ?thesis using inv i(1) c d by (simp add: table_inv_def nth_list_update)
qed

lemma string_lookup_add:
  assumes inv: "table_inv ht" and fits: "key_fits ht k"
  shows "string_lookup (string_add ht k d) k' = (if k' = k then string_lookup ht k' @ [d] else string_lookup ht k')"
proof -
  obtain i where i: "i < numBuckets ht" "ht_slot ht k = ok i" using ht_slot_bound[OF inv] by blast
  obtain j where j: "j < numBuckets ht" "ht_slot ht k' = ok j" using ht_slot_bound[OF inv] by blast
  let ?bs = "if chain_find (eq ht) (buckets ht ! i) k = None then (k, []) # buckets ht ! i else buckets ht ! i"
  have len: "length (buckets ht) = numBuckets ht" and e: "key_eq (eq ht)"
    using inv by (simp_all add: table_inv_def key_eq_string)
  have ne: "chain_find (eq ht) ?bs k \<noteq> None" using e by (auto simp: key_eq_def)
  have old: "string_lookup ht k' = bucket_data (chain_find (eq ht) (buckets ht ! j) k')"
    using j len by (simp add: string_lookup_def ht_findEntry_def)
  have new: "string_lookup (string_add ht k d) k' =
      bucket_data (chain_find (eq ht) (if j = i then chain_append (eq ht) ?bs k d else buckets ht ! j) k')"
    using i j len
    by (simp add: string_lookup_def string_add_def string_add_eq[OF inv i(2) fits] ht_findEntry_def nth_list_update)
  show ?thesis
  proof (cases "j = i")
    case True
    then show ?thesis
      using old new chain_find_append[OF e ne, of d k'] e by (auto simp: bucket_data_def key_eq_def)
  next
    case False
    then have "k' \<noteq> k" using i j by auto
    then show ?thesis using old new False by simp
  qed
qed

interpretation ht: multimap string_lookup string_add table_inv key_fits
  by unfold_locales (simp_all add: string_add_inv string_lookup_add string_add_fits)

section \<open>Filling a table\<close>

fun ht_fill :: "'d string_table \<Rightarrow> (string \<times> 'd) list \<Rightarrow> 'd string_table outcome" where
  "ht_fill ht [] = ok ht"
| "ht_fill ht ((k, d) # kds) = andThen (htAddEntry ht k d) (\<lambda>ht. ht_fill ht kds)"

definition ht_keys :: "('k, 'd) hashTable \<Rightarrow> 'k list" where
  "ht_keys ht = map fst (concat (buckets ht))"

lemma string_add_ok: "table_inv ht \<Longrightarrow> key_fits ht k \<Longrightarrow> htAddEntry ht k d = ok (string_add ht k d)"
  using ht_slot_bound[of ht k] by (auto simp: string_add_def string_add_eq)

lemma ht_fill_ok: "table_inv ht \<Longrightarrow> \<forall>k\<in>fst ` set kds. key_fits ht k \<Longrightarrow> ht_fill ht kds = ok (ht.add_all ht kds)"
proof (induction kds arbitrary: ht)
  case (Cons kd kds)
  then show ?case by (cases kd) (simp add: string_add_ok string_add_inv string_add_fits ht.add_all_def)
qed (simp add: ht.add_all_def)

lemma table_inv_create:
  "0 < n \<Longrightarrow> n < 2 ^ 31 \<Longrightarrow> table_inv (htCreate n ks fd string_fn hashEqualityString)"
  by (simp add: table_inv_def htCreate_def)

text \<open>Keys that a table of key size \<open>ks\<close> takes.\<close>

definition sized :: "nat \<Rightarrow> string set \<Rightarrow> bool" where
  "sized ks K \<longleftrightarrow> (\<forall>k\<in>K. NUL \<notin> set k \<and> (ks = 0 \<or> ks = length k + 1))"

lemma sized_create: "sized ks K \<Longrightarrow> \<forall>k\<in>K. key_fits (htCreate n ks fd f e) k"
  by (simp add: sized_def key_fits_def htCreate_def)

lemma string_lookup_create: "string_lookup (htCreate n ks fd string_fn hashEqualityString) k = []"
proof -
  have "slot (replicate n []) (int i) = ok bs \<Longrightarrow> bs = []" for i and bs :: "'a list"
    by (simp split: if_splits)
  then show ?thesis
    by (auto simp: string_lookup_def ht_findEntry_def htCreate_def ht_slot_def andThen_def guardC_def bucket_data_def
        split: sum.splits)
qed

lemma ht_find_chain:
  assumes "table_inv ht" "ht_slot ht k = ok i"
  shows "ht_findEntry ht k = ok (chain_find (eq ht) (buckets ht ! i) k)"
proof -
  have "i < length (buckets ht)" using ht_slot_bound[OF assms(1), of k] assms by (auto simp: table_inv_def)
  then show ?thesis using assms(2) by (simp add: ht_findEntry_def)
qed

lemma ht_get:
  assumes inv: "table_inv ht"
  shows "htGetEntry ht k = ok (if string_lookup ht k = [] then None else Some (string_lookup ht k, k))"
proof -
  obtain i where i: "i < numBuckets ht" "ht_slot ht k = ok i" using ht_slot_bound[OF inv] by blast
  have ne: "\<forall>b\<in>set (buckets ht ! i). snd b \<noteq> []" and e: "key_eq (eq ht)"
    using inv i(1) by (auto simp: table_inv_def key_eq_string)
  have mem: "chain_find e' bs k = Some b \<Longrightarrow> b \<in> set bs" for e' and bs :: "(string \<times> 'a list) list" and b
    by (induction bs) (auto split: if_splits)
  show ?thesis
  proof (cases "chain_find (eq ht) (buckets ht ! i) k")
    case None
    then show ?thesis by (simp add: htGetEntry_def string_lookup_def ht_find_chain[OF inv i(2)] bucket_data_def)
  next
    case (Some b)
    obtain k' ds where b: "b = (k', ds)" by (cases b)
    have "k' = k" using chain_find_Some[OF e] Some b by blast
    moreover have "ds \<noteq> []" using mem[OF Some] ne b by auto
    ultimately show ?thesis
      using Some b by (simp add: htGetEntry_def string_lookup_def ht_find_chain[OF inv i(2)] bucket_data_def)
  qed
qed

lemma ht_key_iff: "table_inv ht \<Longrightarrow> k \<in> set (ht_keys ht) \<longleftrightarrow> string_lookup ht k \<noteq> []"
proof -
  assume inv: "table_inv ht"
  obtain i where i: "i < numBuckets ht" "ht_slot ht k = ok i" using ht_slot_bound[OF inv] by blast
  have len: "length (buckets ht) = numBuckets ht" and e: "key_eq (eq ht)"
    using inv by (auto simp: table_inv_def key_eq_string)
  have "k \<in> set (ht_keys ht) \<longleftrightarrow> (\<exists>j<numBuckets ht. k \<in> fst ` set (buckets ht ! j))"
  proof -
    have "set (buckets ht) = (!) (buckets ht) ` {..<numBuckets ht}"
      by (auto simp: set_conv_nth len[symmetric])
    then show ?thesis by (simp add: ht_keys_def Bex_def image_UN)
  qed
  also have "\<dots> \<longleftrightarrow> k \<in> fst ` set (buckets ht ! i)"
  proof
    assume "\<exists>j<numBuckets ht. k \<in> fst ` set (buckets ht ! j)"
    then obtain j where j: "j < numBuckets ht" "k \<in> fst ` set (buckets ht ! j)" by blast
    then have "ht_slot ht k = ok j" using inv unfolding table_inv_def by blast
    then show "k \<in> fst ` set (buckets ht ! i)" using i(2) j(2) by simp
  qed (use i(1) in blast)
  also have "\<dots> \<longleftrightarrow> chain_find (eq ht) (buckets ht ! i) k \<noteq> None" by (simp only: chain_find_None[OF e] not_not)
  also have "\<dots> \<longleftrightarrow> htGetEntry ht k \<noteq> ok None"
    by (simp add: htGetEntry_def ht_find_chain[OF inv i(2)])
  also have "\<dots> \<longleftrightarrow> string_lookup ht k \<noteq> []" by (simp add: ht_get[OF inv])
  finally show ?thesis .
qed

lemma distinct_slots:
  "\<forall>i<length bs. distinct (map fst (bs ! i)) \<and> (\<forall>k\<in>fst ` set (bs ! i). f k = ok i) \<Longrightarrow>
     distinct (map fst (concat bs))"
proof (induction bs rule: rev_induct)
  case (snoc b bs)
  have "distinct (map fst (bs ! i)) \<and> (\<forall>k\<in>fst ` set (bs ! i). f k = ok i)" if "i < length bs" for i
    using snoc.prems[rule_format, of i] that by (simp add: nth_append)
  moreover have "\<forall>k\<in>fst ` set b. f k = ok (length bs)" "distinct (map fst b)"
    using snoc.prems[rule_format, of "length bs"] by simp_all
  moreover have "\<forall>k\<in>fst ` set (concat bs). \<exists>i<length bs. f k = ok i"
    using calculation(1) by (force simp: in_set_conv_nth[of _ bs])
  ultimately show ?case using snoc.IH by fastforce
qed simp

lemma ht_keys_distinct: "table_inv ht \<Longrightarrow> distinct (ht_keys ht)"
  unfolding ht_keys_def by (rule distinct_slots[of _ "ht_slot ht"]) (auto simp: table_inv_def)

lemma ht_keys_fill:
  assumes "0 < n" "n < 2 ^ 31" "sized ks (fst ` set kds)"
  shows "length (ht_keys (ht.add_all (htCreate n ks fd string_fn hashEqualityString) kds)) = card (fst ` set kds)"
    "set (ht_keys (ht.add_all (htCreate n ks fd string_fn hashEqualityString) kds)) = fst ` set kds"
proof -
  let ?t = "ht.add_all (htCreate n ks fd string_fn hashEqualityString) kds"
  note fits = sized_create[OF assms(3), of n fd string_fn hashEqualityString]
  note inv = ht.inv_add_all[OF table_inv_create[OF assms(1,2)] fits]
  show s: "set (ht_keys ?t) = fst ` set kds"
    by (force simp: ht_key_iff[OF inv] ht.lookup_add_all[OF table_inv_create[OF assms(1,2)] fits] string_lookup_create filter_empty_conv)
  show "length (ht_keys ?t) = card (fst ` set kds)"
    using distinct_card[OF ht_keys_distinct[OF inv]] s by simp
qed

section \<open>Properties\<close>

text \<open>The unrolled loop with its fall-through computes times 33 with addition from the start
  value 5381, over every character of the string.\<close>

theorem hashFunctionString_times33:
  "hashFunctionString h key 0 =
     ok (foldl (\<lambda>h c. h * 33 + word_of_int (cval c)) (if h = 0 then 5381 else h) key)"
proof -
  have "hash_step = (\<lambda>h c. h * 33 + word_of_int (cval c))" by (simp add: fun_eq_iff hash_step_33)
  then show ?thesis by (simp add: hashFunctionString_def Let_def hash_unrolled_foldl)
qed

text \<open>C27: a table of strings filled by \<open>htAddEntry\<close> is a multimap: \<open>htGetEntry\<close> returns exactly the data
  added under the key, in the order of the additions, whatever the number of buckets. The table has the
  key size 0, so that it keeps the pointers to the keys, or copies its keys and all keys have the key size
  with their terminator.\<close>

theorem htAddEntry_multimap:
  assumes "0 < n" "n < 2 ^ 31" "sized ks (fst ` set kds)"
  shows "\<exists>t. ht_fill (htCreate n ks fd string_fn hashEqualityString) kds = ok t \<and>
    (\<forall>k. htGetEntry t k =
       ok (if k \<in> fst ` set kds then Some (map snd (filter (\<lambda>kd. fst kd = k) kds), k) else None))"
proof -
  note inv = table_inv_create[OF assms(1,2), of ks fd]
  note fits = sized_create[OF assms(3), of n fd string_fn hashEqualityString]
  let ?t = "ht.add_all (htCreate n ks fd string_fn hashEqualityString) kds"
  have lk: "string_lookup ?t k = map snd (filter (\<lambda>kd. fst kd = k) kds)" for k
    by (simp add: ht.lookup_add_all[OF inv fits] string_lookup_create)
  have "htGetEntry ?t k = ok (if k \<in> fst ` set kds then Some (map snd (filter (\<lambda>kd. fst kd = k) kds), k) else None)" for k
    by (auto simp: ht_get[OF ht.inv_add_all[OF inv fits]] lk filter_empty_conv)
  then show ?thesis using ht_fill_ok[OF inv fits] by blast
qed

theorem htAddEntry_multimap_witness:
  "\<exists>t. ht_fill (htCreate 3 2 False string_fn hashEqualityString) [(''a'', 1 :: nat), (''b'', 2), (''a'', 3)] = ok t \<and>
     htGetEntry t ''a'' = ok (Some ([1, 3], ''a''))"
  using htAddEntry_multimap[of 3 2 "[(''a'', 1 :: nat), (''b'', 2), (''a'', 3)]" False] by (auto simp: sized_def)

text \<open>\<open>htGetKeys\<close> returns every key once, followed by null pointers, as long as there are at most
  one more keys than buckets; with more keys it writes past the end of its array.\<close>

theorem htGetKeys_capacity:
  assumes "0 < n" "n < 2 ^ 31" "sized ks (fst ` set kds)"
    and "ht_fill (htCreate n ks fd string_fn hashEqualityString) kds = ok t"
  shows "if card (fst ` set kds) \<le> n + 1
    then \<exists>l. htGetKeys t = ok (map Some l @ replicate (n + 1 - length l) None) \<and> distinct l \<and> set l = fst ` set kds
    else htGetKeys t = Inl BufferOverflow"
proof -
  note inv = table_inv_create[OF assms(1,2), of ks fd]
  note fits = sized_create[OF assms(3), of n fd string_fn hashEqualityString]
  have t: "t = ht.add_all (htCreate n ks fd string_fn hashEqualityString) kds"
    using assms(4) by (simp add: ht_fill_ok[OF inv fits])
  have nb: "numBuckets (ht.add_all ht kds) = numBuckets ht" for ht :: "'a string_table"
  proof -
    have one: "numBuckets (string_add t k d) = numBuckets t" for t :: "'a string_table" and k d
      by (auto simp: string_add_def htAddEntry_def andThen_def split: sum.splits)
    show ?thesis unfolding ht.add_all_def by (induction kds arbitrary: ht) (auto simp: one)
  qed
  have n: "numBuckets t = n" using nb t by (simp add: htCreate_def)
  have "distinct (ht_keys t)" using ht_keys_distinct[OF ht.inv_add_all[OF inv fits]] t by simp
  then show ?thesis
    using ht_keys_fill[OF assms(1-3), of fd] t n
    by (auto simp: htGetKeys_def Let_def guardC_def ht_keys_def[symmetric] intro!: exI[of _ "ht_keys t"])
qed

theorem htGetKeys_capacity_witness:
  "\<exists>t. ht_fill (htCreate 1 0 False string_fn hashEqualityString) [(''a'', 1 :: nat), (''b'', 2), (''c'', 3)] = ok t \<and>
     htGetKeys t = Inl BufferOverflow"
proof -
  let ?l = "[(''a'', 1 :: nat), (''b'', 2), (''c'', 3)]"
  obtain t where t: "ht_fill (htCreate 1 0 False string_fn hashEqualityString) ?l = ok t"
    using ht_fill_ok[OF table_inv_create[of 1 0 False], of ?l] by (auto simp: key_fits_def htCreate_def)
  have "card (fst ` set ?l) = 3" by simp
  then show ?thesis using t htGetKeys_capacity[OF _ _ _ t] by (simp add: sized_def)
qed

end
