(* ===== verification/Argv.thy ===== *)
theory Argv
  imports Cmp
begin

unbundle bit_operations_syntax

text \<open>
  Argument vectors and integer vectors: \<open>rpmio/argv.c\<close>. A vector of strings is the list of
  its elements without the terminating null pointer, \<open>None\<close> for a null vector; a vector of
  integers is the list of its \<open>nvals\<close> values. Printing and releasing are not modelled.
\<close>

section \<open>Counting, comparing, sorting, searching\<close>

definition argiCount :: "u32 list option \<Rightarrow> nat" where
  "argiCount argi = (case argi of Some vs \<Rightarrow> length vs | None \<Rightarrow> 0)"

definition argiData :: "u32 list option \<Rightarrow> u32 list option" where
  "argiData argi = (case argi of Some vs \<Rightarrow> if length vs > 0 then Some vs else None | None \<Rightarrow> None)"

definition argvCount :: "string list option \<Rightarrow> nat" where
  "argvCount argv = (case argv of Some av \<Rightarrow> length av | None \<Rightarrow> 0)"

definition argiCmp :: "u32 \<Rightarrow> u32 \<Rightarrow> int" where
  "argiCmp a b = (if a < b then -1 else if a > b then 1 else 0)"

definition argvCmp :: "string \<Rightarrow> string \<Rightarrow> int" where
  "argvCmp a b = strcmp a b"

definition argvStrcasecmp :: "string \<Rightarrow> string \<Rightarrow> int" where
  "argvStrcasecmp a b = xstrcasecmp a b"

definition argiSort :: "u32 list option \<Rightarrow> (u32 \<Rightarrow> u32 \<Rightarrow> int) option \<Rightarrow> u32 list option" where
  "argiSort argi compar =
     (let nvals = argiCount argi; cmp = (case compar of Some c \<Rightarrow> c | None \<Rightarrow> argiCmp) in
      if nvals > 1 then map_option (qsort cmp) argi else argi)"

definition argvSort :: "string list option \<Rightarrow> (string \<Rightarrow> string \<Rightarrow> int) option \<Rightarrow> string list option" where
  "argvSort argv compar =
     (let cmp = (case compar of Some c \<Rightarrow> c | None \<Rightarrow> argvCmp) in map_option (qsort cmp) argv)"

text \<open>The element found, as its index.\<close>

definition argvSearch :: "string list option \<Rightarrow> string \<Rightarrow> (string \<Rightarrow> string \<Rightarrow> int) option \<Rightarrow> nat option" where
  "argvSearch argv val compar =
     (case argv of None \<Rightarrow> None
      | Some av \<Rightarrow> let cmp = (case compar of Some c \<Rightarrow> c | None \<Rightarrow> argvCmp) in bsearch cmp val av)"

section \<open>Adding\<close>

text \<open>An index past the end extends the vector with zeroes; a negative one appends.\<close>

definition argiAdd :: "u32 list option \<Rightarrow> int \<Rightarrow> u32 \<Rightarrow> u32 list outcome" where
  "argiAdd argi ix val =
     (let vals = (case argi of Some vs \<Rightarrow> vs | None \<Rightarrow> []);
          ix = (if ix < 0 then int (length vals) else ix);
          vals = (if ix \<ge> int (length vals) then vals @ replicate (nat ix - length vals) 0 @ [0] else vals)
      in put_slot vals ix val)"

definition argvAdd :: "string list option \<Rightarrow> string \<Rightarrow> string list option" where
  "argvAdd argv val = Some ((case argv of Some av \<Rightarrow> av | None \<Rightarrow> []) @ [val])"

definition argvAppend :: "string list option \<Rightarrow> string list option \<Rightarrow> string list option" where
  "argvAppend argv av =
     (if av \<noteq> None \<and> argvCount av > 0
      then Some ((case argv of Some l \<Rightarrow> l | None \<Rightarrow> []) @ the av) else argv)"

section \<open>Splitting and joining\<close>

abbreviation (input) NULc :: char where "NULc \<equiv> CHR 0x00"

definition split_whitespace :: string where
  "split_whitespace = [CHR '' '', CHR 0x0C, CHR 0x0A, CHR 0x0D, CHR 0x09, CHR 0x0B]"

text \<open>The copy \<open>dest\<close>: separators become NULs, except the colon of \<open>://\<close>.\<close>

fun split_dest :: "string \<Rightarrow> string \<Rightarrow> string" where
  "split_dest seps [] = []"
| "split_dest seps (c # s) =
     (if strchr seps c \<noteq> None \<and> \<not> (c = CHR '':'' \<and> take 2 s = ''//'') then NULc else c) # split_dest seps s"

text \<open>The strings of \<open>dest\<close>, up to its end.\<close>

function dest_fields :: "string \<Rightarrow> string list" where
  "dest_fields s =
     (if s = [] then []
      else takeWhile (\<lambda>c. c \<noteq> NULc) s # dest_fields (drop 1 (dropWhile (\<lambda>c. c \<noteq> NULc) s)))"
  by pat_completeness auto
termination
proof (relation "measure length", goal_cases)
  case (2 s)
  then show ?case using length_dropWhile_le[of "\<lambda>c. c \<noteq> NULc" s] by (cases s) (auto simp: less_Suc_eq_le)
qed simp

declare dest_fields.simps [simp del]

definition argvSplit :: "string \<Rightarrow> string option \<Rightarrow> string list outcome" where
  "argvSplit str seps =
     (let ws = (seps = None); sp = (case seps of Some x \<Rightarrow> x | None \<Rightarrow> split_whitespace);
          dest = split_dest sp str;
          argc = 1 + length (filter (\<lambda>c. c = NULc) dest);
          argv = (if ws then filter (\<lambda>f. f \<noteq> []) (dest_fields dest) else dest_fields dest)
      in guardC BufferOverflow (length argv + 1 \<le> argc + 1) (ok argv))"

fun join_size :: "string list \<Rightarrow> nat" where
  "join_size [] = 0"
| "join_size [s] = length s"
| "join_size (s # s' # av) = length s + 1 + join_size (s' # av)"

fun join_text :: "string list \<Rightarrow> char \<Rightarrow> string" where
  "join_text [] sep = []"
| "join_text [s] sep = s"
| "join_text (s # s' # av) sep = s @ sep # join_text (s' # av) sep"

definition argvJoin :: "string list option \<Rightarrow> char \<Rightarrow> string outcome" where
  "argvJoin argv sep =
     andThen (nonnull argv) (\<lambda>av.
       let nb = join_size av + 1; t = join_text av sep in
       guardC BufferOverflow (length t + 1 \<le> nb) (ok t))"

section \<open>Reading lines\<close>

text \<open>
  \<open>fgets\<close> into a buffer of \<open>bufsiz\<close> bytes: at most \<open>bufsiz - 1\<close> characters, through the first
  newline. The text has no NULs and the stream no errors.
\<close>

function fgets_chunks :: "nat \<Rightarrow> string \<Rightarrow> string list" where
  "fgets_chunks bufsiz s =
     (if s = [] \<or> bufsiz < 2 then []
      else
        let line = takeWhile (\<lambda>c. c \<noteq> CHR 0x0A) s;
            n = min (bufsiz - 1) (if length line < length s then length line + 1 else length line)
        in take n s # fgets_chunks bufsiz (drop n s))"
  by pat_completeness auto
termination
proof (relation "measure (\<lambda>(b, s). length s)", goal_cases)
  case (2 bufsiz s x xa)
  then show ?case using length_takeWhile_le[of "\<lambda>c. c \<noteq> CHR 0x0A" s] by (cases s) auto
qed simp

declare fgets_chunks.simps [simp del]

text \<open>
  The loop that cuts the line end walks back from the last character while it finds a
  carriage return, a newline or (\<open>strchr\<close> finds the terminator of its set) a NUL; on a line
  of nothing else it leaves the buffer.
\<close>

fun cut_back :: "string \<Rightarrow> string outcome" where
  "cut_back [] = Inl OutOfBounds"
| "cut_back (c # r) = (if c = CHR 0x0D \<or> c = CHR 0x0A \<or> c = NULc then cut_back r else ok (rev (c # r)))"

fun add_lines :: "string list option \<Rightarrow> string list \<Rightarrow> string list option outcome" where
  "add_lines av [] = ok av"
| "add_lines av (b # bs) = andThen (cut_back (rev b)) (\<lambda>l. add_lines (argvAdd av l) bs)"

definition argvFgets :: "nat \<Rightarrow> string \<Rightarrow> string list option outcome" where
  "argvFgets bufsiz file = add_lines None (fgets_chunks bufsiz file)"

section \<open>Order\<close>

interpretation argi: eq_comparator argiCmp "\<lambda>_. True"
  by unfold_locales (auto simp: argiCmp_def split: if_splits)

interpretation argvc: eq_comparator argvCmp "\<lambda>_. True"
  by unfold_locales (auto simp: argvCmp_def strcmp_antisym intro: strcmp_trans)

lemma xtolower_0: "xtolower (cval c) = 0 \<longleftrightarrow> c = NULc"
proof -
  have "cval NULc = 0" by (simp add: cval_def)
  moreover have "xisupper (cval c) \<Longrightarrow> cval c OR 32 \<noteq> 0"
    by (metis xisupper_def or_eq_0_iff zero_neq_numeral)
  moreover have "\<not> xisupper 0" by (simp add: xisupper_def)
  ultimately show ?thesis by (metis cval_inject xtolower_def)
qed

definition no_nul :: "string \<Rightarrow> bool" where "no_nul s \<longleftrightarrow> NULc \<notin> set s"

lemma xstrcasecmp_simps [simp]:
  "xstrcasecmp [] [] = 0"
  "xstrcasecmp [] (b # bs) = - xtolower (cval b)"
  "xstrcasecmp (a # as) [] = (if xtolower (cval a) = 0 then xstrcasecmp as [] else xtolower (cval a))"
  "xstrcasecmp (a # as) (b # bs) =
     (if xtolower (cval a) = xtolower (cval b) then xstrcasecmp as bs else xtolower (cval a) - xtolower (cval b))"
  by (subst xstrcasecmp.simps; simp add: Let_def xtolower_def xisupper_def)+

lemma casecmp_anti: "no_nul a \<Longrightarrow> no_nul b \<Longrightarrow> xstrcasecmp b a = - xstrcasecmp a b"
  by (induction a b rule: list_induct2') (auto simp: no_nul_def xtolower_0)

lemma casecmp_trans:
  "no_nul a \<Longrightarrow> no_nul b \<Longrightarrow> no_nul c \<Longrightarrow> xstrcasecmp a b \<le> 0 \<Longrightarrow> xstrcasecmp b c \<le> 0 \<Longrightarrow> xstrcasecmp a c \<le> 0"
proof (induction a b arbitrary: c rule: list_induct2')
  case (2 a as)
  then show ?case by (cases c) (auto simp: no_nul_def xtolower_0 split: if_splits)
next
  case (3 b bs)
  then show ?case by (cases c) (auto simp: no_nul_def xtolower_0 split: if_splits)
next
  case (4 a as b bs)
  then show ?case by (cases c) (auto simp: no_nul_def xtolower_0 split: if_splits)
qed (auto simp: no_nul_def)

interpretation casec: comparator argvStrcasecmp no_nul
proof (unfold_locales, goal_cases)
  case (1 a b)
  then show ?case using casecmp_anti[of a b] by (simp add: argvStrcasecmp_def)
next
  case (2 a b c)
  then show ?case using casecmp_trans unfolding argvStrcasecmp_def by blast
qed

section \<open>Splitting\<close>

lemma length_split_dest [simp]: "length (split_dest seps s) = length s"
  by (induction seps s rule: split_dest.induct) auto

lemma dest_fields_count: "length (dest_fields d) \<le> 1 + length (filter (\<lambda>c. c = NULc) d)"
proof (induction d rule: dest_fields.induct)
  case (1 s)
  show ?case
  proof (cases "s = []")
    case False
    let ?r = "dropWhile (\<lambda>c. c \<noteq> NULc) s"
    have "filter (\<lambda>c. c = NULc) s = filter (\<lambda>c. c = NULc) ?r"
      by (induction s) auto
    moreover have "length (dest_fields (drop 1 ?r)) \<le> length (filter (\<lambda>c. c = NULc) ?r)"
    proof (cases ?r)
      case (Cons c r)
      then have "c = NULc" using dropWhile_hd by fastforce
      then show ?thesis using 1[OF False] Cons by simp
    next
      case Nil
      show ?thesis unfolding Nil by (simp add: dest_fields.simps[of "[]"])
    qed
    ultimately show ?thesis
      using False by (subst dest_fields.simps) simp
  qed (simp add: dest_fields.simps[of "[]"])
qed

lemma split_dest_id:
  "set s \<inter> set seps = {} \<Longrightarrow> split_dest seps (s @ r) = s @ split_dest seps r"
  by (induction s) (auto simp: strchr_None)

lemma dest_fields_word:
  "NULc \<notin> set s \<Longrightarrow> dest_fields (s @ NULc # r) = s # dest_fields r"
  "NULc \<notin> set s \<Longrightarrow> s \<noteq> [] \<Longrightarrow> dest_fields s = [s]"
proof -
  assume n: "NULc \<notin> set s"
  have t: "takeWhile (\<lambda>c. c \<noteq> NULc) (s @ NULc # r) = s" "dropWhile (\<lambda>c. c \<noteq> NULc) (s @ NULc # r) = NULc # r"
    using n by (auto simp: takeWhile_append dropWhile_append)
  show "dest_fields (s @ NULc # r) = s # dest_fields r"
    by (subst dest_fields.simps) (simp add: t)
  have t: "takeWhile (\<lambda>c. c \<noteq> NULc) s = s" "dropWhile (\<lambda>c. c \<noteq> NULc) s = []" using n by auto
  show "s \<noteq> [] \<Longrightarrow> dest_fields s = [s]"
    by (subst dest_fields.simps) (simp add: t dest_fields.simps[of "[]"])
qed

lemma split_join:
  assumes "\<forall>w\<in>set av. NULc \<notin> set w \<and> sep \<notin> set w" "av \<noteq> []" "last av \<noteq> []" "sep \<noteq> CHR '':''"
  shows "dest_fields (split_dest [sep] (join_text av sep)) = av"
  using assms
proof (induction av sep rule: join_text.induct)
  case (2 s sep)
  then have "split_dest [sep] s = s" using split_dest_id[of s "[sep]" "[]"] by simp
  with 2 show ?case by (simp add: dest_fields_word)
next
  case (3 s s' av sep)
  then have "split_dest [sep] (join_text (s # s' # av) sep) = s @ NULc # split_dest [sep] (join_text (s' # av) sep)"
    using split_dest_id[of s "[sep]" "sep # join_text (s' # av) sep"] by simp
  then show ?case using 3 by (simp add: dest_fields_word)
qed simp

lemma argvSplit_value:
  "argvSplit str seps = ok (if seps = None then filter (\<lambda>f. f \<noteq> []) (dest_fields (split_dest split_whitespace str))
     else dest_fields (split_dest (the seps) str))"
proof -
  have "length (filter (\<lambda>f. f \<noteq> []) (dest_fields d)) \<le> 1 + length (filter (\<lambda>c. c = NULc) d)" for d
    using dest_fields_count[of d] length_filter_le le_trans by blast
  then show ?thesis
    using dest_fields_count by (cases seps) (simp_all add: argvSplit_def Let_def guardC_def)
qed

lemma join_fits: "length (join_text av sep) = join_size av"
  by (induction av sep rule: join_text.induct) auto

lemma dest_fields_no_nul: "\<forall>f\<in>set (dest_fields d). NULc \<notin> set f"
proof (induction d rule: dest_fields.induct)
  case (1 s)
  then show ?case by (subst dest_fields.simps) (auto dest: set_takeWhileD)
qed

lemma dest_fields_set: "\<forall>f\<in>set (dest_fields d). set f \<subseteq> set d"
proof (induction d rule: dest_fields.induct)
  case (1 s)
  have "set (drop 1 (dropWhile (\<lambda>c. c \<noteq> NULc) s)) \<subseteq> set s"
    by (meson set_drop_subset set_dropWhileD subsetD subsetI)
  then show ?case using 1 by (subst dest_fields.simps) (auto dest: set_takeWhileD)
qed

lemma split_dest_no_sep:
  "CHR '':'' \<notin> set seps \<Longrightarrow> c \<in> set (split_dest seps s) \<Longrightarrow> c = NULc \<or> (c \<notin> set seps \<and> c \<in> set s)"
  by (induction seps s rule: split_dest.induct) (auto simp: strchr_None split: if_splits)

section \<open>Lines\<close>

abbreviation (input) NL :: char where "NL \<equiv> CHR 0x0A"

lemma fgets_chunks_line:
  assumes "NL \<notin> set l" "length l + 2 \<le> bufsiz"
  shows "fgets_chunks bufsiz (l @ NL # r) = (l @ [NL]) # fgets_chunks bufsiz r"
proof -
  have "takeWhile (\<lambda>c. c \<noteq> NL) (l @ NL # r) = l" using assms(1) by (simp add: takeWhile_append)
  moreover have "min (bufsiz - Suc 0) (Suc (length l)) = Suc (length l)" using assms(2) by simp
  ultimately show ?thesis using assms(2) by (subst fgets_chunks.simps) (simp add: Let_def)
qed

lemma cut_back_line:
  assumes "\<forall>c\<in>set l. c \<noteq> CHR 0x0D \<and> c \<noteq> NL \<and> c \<noteq> NULc"
  shows "cut_back (rev (l @ [NL])) = (if l = [] then Inl OutOfBounds else ok l)"
proof (cases l rule: rev_cases)
  case (snoc xs x)
  then show ?thesis using assms by simp
qed simp

definition plain_line :: "nat \<Rightarrow> string \<Rightarrow> bool" where
  "plain_line bufsiz l \<longleftrightarrow> length l + 2 \<le> bufsiz \<and> (\<forall>c\<in>set l. c \<noteq> CHR 0x0D \<and> c \<noteq> NL \<and> c \<noteq> NULc)"

lemma add_lines_text:
  "\<forall>l\<in>set ls. plain_line bufsiz l \<Longrightarrow>
     add_lines av (fgets_chunks bufsiz (concat (map (\<lambda>l. l @ [NL]) ls))) =
       (if [] \<in> set ls then Inl OutOfBounds
        else ok (if ls = [] then av else Some ((case av of Some a \<Rightarrow> a | None \<Rightarrow> []) @ ls)))"
proof (induction ls arbitrary: av)
  case (Cons l ls)
  have pl: "NL \<notin> set l" "length l + 2 \<le> bufsiz" "\<forall>c\<in>set l. c \<noteq> CHR 0x0D \<and> c \<noteq> NL \<and> c \<noteq> NULc"
    using Cons.prems by (auto simp: plain_line_def)
  show ?case
    using Cons.IH[of "argvAdd av l"] Cons.prems fgets_chunks_line[OF pl(1,2), of "concat (map (\<lambda>l. l @ [NL]) ls)"]
      cut_back_line[OF pl(3)]
    by (auto simp: argvAdd_def)
qed (simp add: fgets_chunks.simps[of _ "[]"])

section \<open>Properties\<close>

text \<open>sorting a vector and then searching it finds a string exactly when the vector holds it, at an
  index that holds it; sorting only permutes the vector.\<close>

theorem argvSort_argvSearch:
  "\<exists>sv. argvSort (Some av) None = Some sv \<and> mset sv = mset av \<and>
    (argvSearch (Some sv) val None \<noteq> None \<longleftrightarrow> val \<in> set av) \<and>
    (\<forall>i. argvSearch (Some sv) val None = Some i \<longrightarrow> i < length sv \<and> sv ! i = val)"
proof -
  let ?sv = "qsort argvCmp av"
  have ord: "argvc.ordered ?sv" by (rule argvc.ordered_qsort) simp
  have found: "argvSearch (Some ?sv) val None = Some i \<Longrightarrow> i < length ?sv \<and> ?sv ! i = val" for i
    using bsearch_Some[of argvCmp val ?sv i] by (simp add: argvSearch_def argvCmp_def)
  have "argvSearch (Some ?sv) val None \<noteq> None \<longleftrightarrow> val \<in> set av"
    using argvc.bsearch_mem[OF _ TrueI ord, of val] by (simp add: argvSearch_def)
  then show ?thesis using found by (intro exI[of _ ?sv]) (simp add: argvSort_def)
qed

theorem argvSort_argvSearch_witness:
  "\<exists>sv. argvSort (Some [''b'', ''a'', ''c'']) None = Some sv \<and> argvSearch (Some sv) ''c'' None \<noteq> None"
  using argvSort_argvSearch[of "[''b'', ''a'', ''c'']" "''c''"] by auto

text \<open>C37: splitting a joined vector at the separator gives the vector back, when no element contains the
  separator and the last one is not empty; the separator is not the colon, which a following
  \<open>//\<close> protects.\<close>

theorem argvSplit_argvJoin:
  assumes "av \<noteq> []" "last av \<noteq> []" "\<forall>w\<in>set av. NULc \<notin> set w \<and> sep \<notin> set w" "sep \<noteq> CHR '':''"
  shows "\<exists>t. argvJoin (Some av) sep = ok t \<and> argvSplit t (Some [sep]) = ok av"
  using split_join[OF assms(3,1,2,4)] by (simp add: argvJoin_def Let_def join_fits argvSplit_value)

theorem argvSplit_argvJoin_witness:
  "\<exists>t. argvJoin (Some [''usr'', [], ''lib'']) (CHR ''/'') = ok t \<and> argvSplit t (Some ''/'') = ok [''usr'', [], ''lib'']"
  by (rule argvSplit_argvJoin) simp_all

text \<open>splitting at white space yields words only: no field is empty and none contains a separator,
  and the number of fields fits the array allocated from the number of separators.\<close>

theorem argvSplit_words:
  assumes "NULc \<notin> set str"
  shows "\<exists>av. argvSplit str None = ok av \<and>
    (\<forall>w\<in>set av. w \<noteq> [] \<and> set w \<subseteq> set str - set split_whitespace)"
proof -
  let ?d = "split_dest split_whitespace str"
  have col: "CHR '':'' \<notin> set split_whitespace" by (simp add: split_whitespace_def)
  have "set w \<subseteq> set str - set split_whitespace" if "w \<in> set (dest_fields ?d)" for w
    using that dest_fields_no_nul[of ?d] dest_fields_set[of ?d] split_dest_no_sep[OF col, of _ str] by blast
  then show ?thesis by (auto simp: argvSplit_value)
qed

theorem argvSplit_words_witness:
  "\<exists>av. argvSplit ''a  b'' None = ok av \<and> (\<forall>w\<in>set av. w \<noteq> [])"
  using argvSplit_words[of "''a  b''"] by auto

text \<open>\<open>argvFgets\<close> reads a text of lines that fit its buffer into the vector of the lines, but runs off
  the front of the buffer at the first empty line: the loop that cuts the line end does not stop
  at the start of the line.\<close>

theorem argvFgets_lines:
  assumes "\<forall>l\<in>set ls. plain_line bufsiz l"
  shows "argvFgets bufsiz (concat (map (\<lambda>l. l @ [NL]) ls)) =
    (if [] \<in> set ls then Inl OutOfBounds else ok (if ls = [] then None else Some ls))"
  using add_lines_text[OF assms, of None] by (auto simp: argvFgets_def)

theorem argvFgets_lines_witness:
  "argvFgets 8192 (''ab'' @ [NL, NL]) = Inl OutOfBounds \<and> argvFgets 8192 (''ab'' @ [NL]) = ok (Some [''ab''])"
  using argvFgets_lines[of "[''ab'', []]" 8192] argvFgets_lines[of "[''ab'']" 8192] by (simp add: plain_line_def)

end
