(* ===== verification/Ps.thy ===== *)
theory Ps
  imports CLib
begin

unbundle bit_operations_syntax

text \<open>
  Problem sets: \<open>lib/rpmps.c\<close> with the structures of \<open>lib/rpmps.h\<close>. A set is the list of its
  problems with the number of elements its array has room for; an iterator is the index it
  stands at, over a set that it refers to. Messages are not translated, and \<open>strerror\<close> is an
  argument. Storage and reference counts are not modelled.
\<close>

section \<open>Types\<close>

datatype rpmProblemType =
    PROB_BADARCH | PROB_BADOS | PROB_PKG_INSTALLED | PROB_BADRELOCATE | PROB_REQUIRES | PROB_CONFLICT
  | PROB_NEW_FILE_CONFLICT | PROB_FILE_CONFLICT | PROB_OLDPACKAGE | PROB_DISKSPACE | PROB_DISKNODES
  | PROB_RDONLY | PROB_BADPRETRANS | PROB_BADPLATFORM | PROB_NOREPACKAGE

record rpmProblem =
  p_pkgNEVR :: "string option"
  p_altNEVR :: "string option"
  p_key :: "nat option"
  p_type :: rpmProblemType
  p_ignore :: bool
  p_str1 :: "string option"
  p_ulong1 :: u64

record rpmps =
  numProblemsAlloced :: nat
  probs :: "rpmProblem list"

text \<open>\<open>numProblems\<close> is the length of the list.\<close>

abbreviation numProblems :: "rpmps \<Rightarrow> nat" where "numProblems ps \<equiv> length (probs ps)"

section \<open>Sets and iterators\<close>

definition rpmpsCreate :: rpmps where
  "rpmpsCreate = \<lparr>numProblemsAlloced = 0, probs = []\<rparr>"

definition rpmpsNumProblems :: "rpmps option \<Rightarrow> nat" where
  "rpmpsNumProblems ps = (case ps of Some p \<Rightarrow> numProblems p | None \<Rightarrow> 0)"

definition rpmpsInitIterator :: "rpmps option \<Rightarrow> int option" where
  "rpmpsInitIterator ps = (case ps of Some p \<Rightarrow> Some (-1) | None \<Rightarrow> None)"

definition rpmpsNextIterator :: "rpmps \<Rightarrow> int \<Rightarrow> int \<times> int" where
  "rpmpsNextIterator ps ix =
     (let ix = ix + 1 in
      if ix \<ge> 0 then (if ix < int (rpmpsNumProblems (Some ps)) then (ix, ix) else (-1, -1)) else (ix, -1))"

definition rpmpsProblem :: "rpmps \<Rightarrow> int \<Rightarrow> rpmProblem option" where
  "rpmpsProblem ps ix =
     (if ix \<ge> 0 \<and> ix < int (rpmpsNumProblems (Some ps)) then Some (probs ps ! nat ix) else None)"

section \<open>Appending\<close>

definition opt_len :: "string option \<Rightarrow> nat" where
  "opt_len s = (case s of Some x \<Rightarrow> length x | None \<Rightarrow> 0)"

definition opt_str :: "string option \<Rightarrow> string" where
  "opt_str s = (case s of Some x \<Rightarrow> x | None \<Rightarrow> [])"

text \<open>The directory and the base name are copied one after the other into a buffer of their sizes.\<close>

definition prob_str1 :: "string option \<Rightarrow> string option \<Rightarrow> string option outcome" where
  "prob_str1 dn bn =
     (if dn \<noteq> None \<or> bn \<noteq> None then
        let nb = opt_len dn + opt_len bn + 1; t = opt_str dn @ opt_str bn in
        guardC BufferOverflow (length t + 1 \<le> nb) (ok (Some t))
      else ok None)"

definition rpmpsAppend ::
    "rpmps option \<Rightarrow> rpmProblemType \<Rightarrow> string option \<Rightarrow> nat option \<Rightarrow> string option \<Rightarrow> string option \<Rightarrow>
       string option \<Rightarrow> u64 \<Rightarrow> rpmps option outcome" where
  "rpmpsAppend ps type pkgNEVR key dn bn altNEVR ulong1 =
     (case ps of None \<Rightarrow> ok None
      | Some ps \<Rightarrow>
          let alloced = (if numProblems ps = numProblemsAlloced ps
                         then (if numProblemsAlloced ps \<noteq> 0 then numProblemsAlloced ps * 2 else 2)
                         else numProblemsAlloced ps) in
          guardC BufferOverflow (numProblems ps < alloced)
            (andThen (prob_str1 dn bn) (\<lambda>s.
              ok (Some \<lparr>numProblemsAlloced = alloced,
                probs = probs ps @ [\<lparr>p_pkgNEVR = pkgNEVR, p_altNEVR = altNEVR, p_key = key, p_type = type,
                                    p_ignore = False, p_str1 = s, p_ulong1 = ulong1\<rparr>]\<rparr>))))"

section \<open>Trimming\<close>

definition trim_match :: "rpmProblem \<Rightarrow> rpmProblem \<Rightarrow> bool" where
  "trim_match f t \<longleftrightarrow> p_type f = p_type t \<and> p_key t = p_key f \<and> p_str1 f = p_str1 t"

text \<open>The inner loop: the problems passed over, and the rest from the match on.\<close>

fun trim_skip :: "rpmProblem \<Rightarrow> rpmProblem list \<Rightarrow> rpmProblem list \<times> rpmProblem list" where
  "trim_skip f [] = ([], [])"
| "trim_skip f (t # ts) =
     (if trim_match f t then ([], t # ts) else (case trim_skip f ts of (a, b) \<Rightarrow> (t # a, b)))"

text \<open>The outer loop over the filter; the result is the trimmed list and \<open>gotProblems\<close>.\<close>

fun trim_loop :: "rpmProblem list \<Rightarrow> rpmProblem list \<Rightarrow> bool \<Rightarrow> rpmProblem list \<times> bool" where
  "trim_loop [] ts got = (ts, got \<or> ts \<noteq> [])"
| "trim_loop (f # fs) ts got =
     (if \<not> p_ignore f then trim_loop fs ts got
      else case trim_skip f ts of (skipped, rest) \<Rightarrow>
        let got = (got \<or> skipped \<noteq> []) in
        case rest of
          [] \<Rightarrow> (skipped, got)
        | t # ts' \<Rightarrow>
            (case trim_loop fs ts' got of (r, g) \<Rightarrow> (skipped @ t\<lparr>p_ignore := p_ignore f\<rparr> # r, g)))"

definition rpmpsTrim :: "rpmps option \<Rightarrow> rpmps option \<Rightarrow> rpmps option \<times> int" where
  "rpmpsTrim ps fil =
     (case ps of None \<Rightarrow> (None, 0)
      | Some ps \<Rightarrow>
          if numProblems ps = 0 then (Some ps, 0)
          else (case fil of
            None \<Rightarrow> (Some ps, if numProblems ps = 0 then 0 else 1)
          | Some f \<Rightarrow>
              (case trim_loop (probs f) (probs ps) False of (ts, got) \<Rightarrow>
                 (Some (ps\<lparr>probs := ts\<rparr>), if got then 1 else 0))))"

section \<open>Messages\<close>

fun type_number :: "rpmProblemType \<Rightarrow> nat" where
  "type_number PROB_BADARCH = 0" | "type_number PROB_BADOS = 1" | "type_number PROB_PKG_INSTALLED = 2"
| "type_number PROB_BADRELOCATE = 3" | "type_number PROB_REQUIRES = 4" | "type_number PROB_CONFLICT = 5"
| "type_number PROB_NEW_FILE_CONFLICT = 6" | "type_number PROB_FILE_CONFLICT = 7"
| "type_number PROB_OLDPACKAGE = 8" | "type_number PROB_DISKSPACE = 9" | "type_number PROB_DISKNODES = 10"
| "type_number PROB_RDONLY = 11" | "type_number PROB_BADPRETRANS = 12" | "type_number PROB_BADPLATFORM = 13"
| "type_number PROB_NOREPACKAGE = 14"

text \<open>The size in the message about disk space, rounded up to kilobytes or megabytes.\<close>

definition disk_amount :: "u64 \<Rightarrow> string" where
  "disk_amount n =
     dec (unat (if n > 1024 * 1024 then (n + 1024 * 1024 - 1) div (1024 * 1024) else (n + 1023) div 1024)) @
     [if n > 1024 * 1024 then CHR ''M'' else CHR ''K'']"

definition prob_text ::
    "(int \<Rightarrow> string) \<Rightarrow> rpmProblemType \<Rightarrow> u64 \<Rightarrow> string \<Rightarrow> string \<Rightarrow> string \<Rightarrow> string outcome" where
  "prob_text strerror type ulong1 pkgNEVR altNEVR str1 =
     (case type of
        PROB_BADPLATFORM \<Rightarrow> ok (''package '' @ pkgNEVR @ '' is intended for a '' @ str1 @ '' platform'')
      | PROB_PKG_INSTALLED \<Rightarrow> ok (''package '' @ pkgNEVR @ '' is already installed'')
      | PROB_NOREPACKAGE \<Rightarrow> ok (''re-packaged package with '' @ str1 @ '': '' @ altNEVR @ '' is missing'')
      | PROB_BADRELOCATE \<Rightarrow> ok (''path '' @ str1 @ '' in package '' @ pkgNEVR @ '' is not relocatable'')
      | PROB_NEW_FILE_CONFLICT \<Rightarrow>
          ok (''file '' @ str1 @ '' conflicts between attempted installs of '' @ pkgNEVR @ '' and '' @ altNEVR)
      | PROB_FILE_CONFLICT \<Rightarrow>
          ok (''file '' @ str1 @ '' from install of '' @ pkgNEVR @ '' conflicts with file from package '' @ altNEVR)
      | PROB_OLDPACKAGE \<Rightarrow> ok (''package '' @ altNEVR @ '' (which is newer than '' @ pkgNEVR @ '') is already installed'')
      | PROB_DISKSPACE \<Rightarrow>
          ok (''installing package '' @ pkgNEVR @ '' needs '' @ disk_amount ulong1 @ ''B on the '' @ str1 @ '' filesystem'')
      | PROB_DISKNODES \<Rightarrow>
          ok (''installing package '' @ pkgNEVR @ '' needs '' @ dec (unat ulong1) @ '' inodes on the '' @ str1 @ '' filesystem'')
      | PROB_BADPRETRANS \<Rightarrow>
          ok (''package '' @ pkgNEVR @ '' pre-transaction syscall(s): '' @ str1 @ '' failed: '' @
              strerror (sint (ucast ulong1 :: u32)))
      | PROB_REQUIRES \<Rightarrow>
          guardC OutOfBounds (2 \<le> length altNEVR)
            (ok (drop 2 altNEVR @ '' is needed by '' @ (if ulong1 \<noteq> 0 then [] else ''(installed) '') @ pkgNEVR))
      | PROB_CONFLICT \<Rightarrow>
          guardC OutOfBounds (2 \<le> length altNEVR)
            (ok (drop 2 altNEVR @ '' conflicts with '' @ (if ulong1 \<noteq> 0 then [] else ''(installed) '') @ pkgNEVR))
      | PROB_RDONLY \<Rightarrow> ok (''installing package '' @ pkgNEVR @ '' on '' @ str1 @ '' rdonly filesystem'')
      | _ \<Rightarrow> ok (''unknown error '' @ dec (type_number type) @ '' encountered while manipulating package '' @ pkgNEVR))"

text \<open>\<open>snprintf\<close> cuts its text to \<open>nb - 1\<close> characters.\<close>

definition prob_nb :: "string \<Rightarrow> string \<Rightarrow> string \<Rightarrow> nat" where
  "prob_nb pkgNEVR altNEVR str1 = length pkgNEVR + length str1 + length altNEVR + 1024"

definition rpmProblemString :: "(int \<Rightarrow> string) \<Rightarrow> rpmProblem \<Rightarrow> string outcome" where
  "rpmProblemString strerror prob =
     (let pkgNEVR = (case p_pkgNEVR prob of Some s \<Rightarrow> s | None \<Rightarrow> ''?pkgNEVR?'');
          altNEVR = (case p_altNEVR prob of Some s \<Rightarrow> s | None \<Rightarrow> ''? ?altNEVR?'');
          str1 = (case p_str1 prob of Some s \<Rightarrow> s | None \<Rightarrow> ''different'');
          nb = prob_nb pkgNEVR altNEVR str1
      in andThen (prob_text strerror (p_type prob) (p_ulong1 prob) pkgNEVR altNEVR str1) (\<lambda>t. ok (take (nb - 1) t)))"

section \<open>Printing\<close>

text \<open>True when the problems differ (the return value 1).\<close>

definition differs :: "string option \<Rightarrow> string option \<Rightarrow> bool" where
  "differs a b \<longleftrightarrow> (case (a, b) of (Some x, Some y) \<Rightarrow> strcmp x y \<noteq> 0 | _ \<Rightarrow> False)"

definition sameProblem :: "rpmProblem \<Rightarrow> rpmProblem \<Rightarrow> bool" where
  "sameProblem ap bp \<longleftrightarrow>
     (if p_type ap \<noteq> p_type bp then True
      else if differs (p_pkgNEVR ap) (p_pkgNEVR bp) then True
      else if differs (p_altNEVR ap) (p_altNEVR bp) then True
      else if differs (p_str1 ap) (p_str1 bp) then True
      else if p_ulong1 ap \<noteq> p_ulong1 bp then True
      else False)"

lemma rpmpsNextIterator_cases:
  assumes "rpmpsNextIterator ps ix = (ix', i)"
  obtains (element) "ix' = ix + 1" "i = ix + 1" "0 \<le> i" "i < int (numProblems ps)" | (finished) "i = -1" "ix' < 0"
  using assms by (auto simp: rpmpsNextIterator_def rpmpsNumProblems_def Let_def split: if_splits)

text \<open>The inner loop of \<open>rpmpsPrint\<close>, up to the index \<open>i\<close> of the problem \<open>p\<close>: the value of \<open>j\<close>.\<close>

function shown_before :: "rpmps \<Rightarrow> rpmProblem \<Rightarrow> int \<Rightarrow> int \<Rightarrow> int outcome" where
  "shown_before ps p i ix =
     (case rpmpsNextIterator ps ix of (ix', j) \<Rightarrow>
        if j < i then
          andThen (nonnull (rpmpsProblem ps ix')) (\<lambda>q.
            if \<not> sameProblem p q then ok j else shown_before ps p i ix')
        else ok j)"
  by pat_completeness auto
termination
  by (relation "measure (\<lambda>(ps, p, i, ix). nat (int (numProblems ps) - ix))")
    (auto simp: rpmpsProblem_def nonnull_def elim!: rpmpsNextIterator_cases dest!: sym[of _ "rpmpsNextIterator _ _"]
      split: option.splits if_splits)

declare shown_before.simps [simp del]

function print_loop :: "(int \<Rightarrow> string) \<Rightarrow> rpmps \<Rightarrow> int \<Rightarrow> string list outcome" where
  "print_loop strerror ps ix =
     (case rpmpsNextIterator ps ix of (ix', i) \<Rightarrow>
        if i \<ge> 0 then
          andThen (nonnull (rpmpsProblem ps ix')) (\<lambda>p.
            if p_ignore p then print_loop strerror ps ix'
            else
              andThen (shown_before ps p i (-1)) (\<lambda>j.
                if j < i then print_loop strerror ps ix'
                else
                  andThen (rpmProblemString strerror p) (\<lambda>msg.
                  andThen (print_loop strerror ps ix') (\<lambda>msgs. ok (msg # msgs)))))
        else ok [])"
  by pat_completeness auto
termination
  by (relation "measure (\<lambda>(se, ps, ix). nat (int (numProblems ps) - ix))")
    (auto elim!: rpmpsNextIterator_cases dest!: sym[of _ "rpmpsNextIterator _ _"])

declare print_loop.simps [simp del]

definition rpmpsPrint :: "(int \<Rightarrow> string) \<Rightarrow> rpmps option \<Rightarrow> string list outcome" where
  "rpmpsPrint strerror ps =
     (case ps of None \<Rightarrow> ok []
      | Some ps \<Rightarrow> if numProblems ps \<le> 0 then ok [] else print_loop strerror ps (-1))"

section \<open>Access\<close>

text \<open>A negative index asks for the last problem; the pointer is \<open>probs + num\<close>.\<close>

definition rpmpsGetProblem :: "rpmps option \<Rightarrow> int \<Rightarrow> rpmProblem option outcome" where
  "rpmpsGetProblem ps num =
     (case ps of None \<Rightarrow> ok None
      | Some ps \<Rightarrow>
          let num = (if num < 0 then int (numProblems ps) - 1 else num) in
          if num \<ge> int (numProblems ps) then ok None
          else andThen (slot (probs ps) num) (\<lambda>p. ok (Some p)))"

definition rpmProblemGetDiskNeed :: "rpmProblem \<Rightarrow> u64" where
  "rpmProblemGetDiskNeed prob = p_ulong1 prob"

section \<open>Lengths of messages\<close>

lemma length_dec: "0 < k \<Longrightarrow> n < 10 ^ k \<Longrightarrow> length (dec n) \<le> k"
proof (induction n arbitrary: k rule: dec.induct)
  case (1 n)
  show ?case
  proof (cases "n < 10")
    case False
    then obtain m where m: "k = Suc m" "0 < m"
      using "1.prems" by (cases k; cases "k - 1") auto
    then have "n div 10 < 10 ^ m" using "1.prems" by (simp add: less_mult_imp_div_less mult.commute)
    then show ?thesis using "1.IH"[OF False m(2)] m False by (subst dec.simps) simp
  qed (use "1.prems" in \<open>simp add: dec.simps\<close>)
qed

lemma length_dec_u64: "length (dec (unat (n :: u64))) \<le> 20"
proof (rule length_dec)
  have "unat n < 2 ^ 64" using unsigned_less[of n] by simp
  also have "(2 :: nat) ^ 64 < 10 ^ 20" by simp
  finally show "unat n < 10 ^ 20" .
qed simp

lemma length_disk_amount: "length (disk_amount n) \<le> 21"
proof -
  define m where "m = (if n > 1024 * 1024 then (n + 1024 * 1024 - 1) div (1024 * 1024) else (n + 1023) div 1024)"
  have "length (disk_amount n) = Suc (length (dec (unat m)))" by (simp add: disk_amount_def m_def)
  then show ?thesis using length_dec_u64[of m] by simp
qed

lemma length_type: "length (dec (type_number t)) \<le> 2"
  by (rule length_dec) (cases t; simp)+

lemma prob_text_length:
  assumes "prob_text strerror type ulong1 pkg alt str = ok t" "\<And>i. length (strerror i) \<le> 900"
  shows "length t < prob_nb pkg alt str"
  using assms(1) assms(2)[of "sint (ucast ulong1 :: u32)"] length_disk_amount[of ulong1] length_dec_u64[of ulong1]
    length_type[of type]
  by (cases type) (auto simp: prob_text_def prob_nb_def guardC_def split: if_splits)

section \<open>Trimming\<close>

lemma trim_loop_got: "snd (trim_loop fs ts True)"
proof (induction fs arbitrary: ts)
  case (Cons f fs)
  obtain a b where ab: "trim_skip f ts = (a, b)" by (cases "trim_skip f ts")
  show ?case
  proof (cases b)
    case (Cons t ts')
    obtain r g where "trim_loop fs ts' True = (r, g)" by (cases "trim_loop fs ts' True")
    with Cons.IH[of ts'] Cons.IH[of ts] ab Cons show ?thesis by simp
  qed (use ab Cons.IH in simp)
qed simp

lemma trim_loop_result:
  "snd (trim_loop fs ts False) \<longleftrightarrow>
     \<not> (length ts \<le> length (filter p_ignore fs) \<and>
        list_all2 trim_match (take (length ts) (filter p_ignore fs)) ts)"
proof (induction fs arbitrary: ts)
  case (Cons f fs)
  show ?case
  proof (cases "p_ignore f")
    case True
    show ?thesis
    proof (cases ts)
      case (Cons t ts')
      show ?thesis
      proof (cases "trim_match f t")
        case match: True
        then show ?thesis using Cons.IH[of ts'] True Cons by (auto split: prod.splits)
      next
        case False
        obtain a b where ab: "trim_skip f ts' = (a, b)" by (cases "trim_skip f ts'")
        then have "snd (trim_loop (f # fs) ts False)"
          using True False Cons trim_loop_got[of fs] by (auto split: list.splits prod.splits) (metis snd_conv)
        then show ?thesis using True False Cons by auto
      qed
    qed (use True in simp)
  qed (use Cons in simp)
qed auto

section \<open>What is printed\<close>

definition hidden :: "rpmps \<Rightarrow> nat \<Rightarrow> bool" where
  "hidden ps i \<longleftrightarrow> (\<exists>j<i. \<not> sameProblem (probs ps ! i) (probs ps ! j))"

lemma shown_before_spec:
  assumes "i < numProblems ps" "ix + 1 = int k" "k \<le> i"
  shows "\<exists>j. shown_before ps p (int i) ix = ok j \<and> (j < int i \<longleftrightarrow> (\<exists>m. k \<le> m \<and> m < i \<and> \<not> sameProblem p (probs ps ! m)))"
  using assms(2,3)
proof (induction "i - k" arbitrary: k ix)
  case 0
  then have "k = i" by simp
  then have "rpmpsNextIterator ps ix = (int i, int i)"
    using 0 assms(1) by (simp add: rpmpsNextIterator_def rpmpsNumProblems_def Let_def)
  then show ?case using \<open>k = i\<close> by (subst shown_before.simps) simp
next
  case (Suc n)
  then have k: "k < i" by simp
  have nx: "rpmpsNextIterator ps ix = (int k, int k)"
    using Suc.prems k assms(1) by (simp add: rpmpsNextIterator_def rpmpsNumProblems_def Let_def)
  have pr: "rpmpsProblem ps (int k) = Some (probs ps ! k)"
    using k assms(1) by (simp add: rpmpsProblem_def rpmpsNumProblems_def)
  show ?case
  proof (cases "sameProblem p (probs ps ! k)")
    case True
    obtain j where j: "shown_before ps p (int i) (int k) = ok j"
      "j < int i \<longleftrightarrow> (\<exists>m. Suc k \<le> m \<and> m < i \<and> \<not> sameProblem p (probs ps ! m))"
    proof -
      have "n = i - Suc k" using Suc.hyps(2) by simp
      then show thesis using Suc.hyps(1)[of "Suc k" "int k"] k that by auto
    qed
    have "(\<exists>m. k \<le> m \<and> m < i \<and> \<not> sameProblem p (probs ps ! m)) \<longleftrightarrow>
        (\<exists>m. Suc k \<le> m \<and> m < i \<and> \<not> sameProblem p (probs ps ! m))"
      using True by (metis Suc_leD Suc_leI le_neq_implies_less)
    then show ?thesis using nx pr True j k by (subst shown_before.simps) simp
  next
    case False
    then show ?thesis using nx pr k by (subst shown_before.simps) auto
  qed
qed

definition printed :: "rpmps \<Rightarrow> nat \<Rightarrow> bool" where
  "printed ps i \<longleftrightarrow> \<not> p_ignore (probs ps ! i) \<and> \<not> hidden ps i"

lemma print_loop_spec:
  assumes "\<forall>i<numProblems ps. rpmProblemString se (probs ps ! i) = ok (msg i)"
  shows "ix + 1 = int k \<Longrightarrow> k \<le> numProblems ps \<Longrightarrow>
    print_loop se ps ix = ok (map msg (filter (printed ps) [k..<numProblems ps]))"
proof (induction "numProblems ps - k" arbitrary: k ix)
  case 0
  then have "rpmpsNextIterator ps ix = (-1, -1)" by (simp add: rpmpsNextIterator_def rpmpsNumProblems_def Let_def)
  then show ?case using 0 by (subst print_loop.simps) simp
next
  case (Suc n)
  then have k: "k < numProblems ps" by simp
  have nx: "rpmpsNextIterator ps ix = (int k, int k)"
    using Suc.prems k by (simp add: rpmpsNextIterator_def rpmpsNumProblems_def Let_def)
  have pr: "rpmpsProblem ps (int k) = Some (probs ps ! k)"
    using k by (simp add: rpmpsProblem_def rpmpsNumProblems_def)
  have ih: "print_loop se ps (int k) = ok (map msg (filter (printed ps) [Suc k..<numProblems ps]))"
    using Suc.hyps(1)[of "Suc k" "int k"] Suc.hyps(2) k by simp
  obtain j where j: "shown_before ps (probs ps ! k) (int k) (-1) = ok j" "j < int k \<longleftrightarrow> hidden ps k"
    using shown_before_spec[OF k, of "-1" 0 "probs ps ! k"] by (auto simp: hidden_def)
  have up: "[k..<numProblems ps] = k # [Suc k..<numProblems ps]" using k by (simp add: upt_conv_Cons)
  show ?case
    using nx pr ih j k assms unfolding up
    by (subst print_loop.simps) (auto simp: printed_def)
qed

section \<open>Properties\<close>

definition ps_inv :: "rpmps \<Rightarrow> bool" where
  "ps_inv ps \<longleftrightarrow> numProblems ps \<le> numProblemsAlloced ps"

text \<open>Appending a problem never writes outside the array or the buffer of its string, whatever the
  arguments, keeps the bound on the array and adds exactly the new problem at the end.\<close>

theorem rpmpsAppend_grows:
  assumes "ps_inv ps"
  shows "\<exists>ps'. rpmpsAppend (Some ps) type pkg key dn bn alt n = ok (Some ps') \<and> ps_inv ps' \<and>
    (\<exists>p. probs ps' = probs ps @ [p] \<and> p_type p = type \<and> p_pkgNEVR p = pkg \<and> p_altNEVR p = alt \<and> p_key p = key \<and>
       \<not> p_ignore p \<and> p_ulong1 p = n \<and> opt_str (p_str1 p) = opt_str dn @ opt_str bn)"
proof -
  have len: "length (opt_str s) = opt_len s" for s by (cases s) (simp_all add: opt_str_def opt_len_def)
  obtain s where "prob_str1 dn bn = ok s" "opt_str s = opt_str dn @ opt_str bn"
    by (cases "dn = None \<and> bn = None") (auto simp: prob_str1_def len opt_str_def[of "Some _"] opt_str_def[of None])
  then show ?thesis using assms by (auto simp: rpmpsAppend_def ps_inv_def Let_def)
qed

theorem rpmpsAppend_grows_witness:
  "\<exists>ps'. rpmpsAppend (Some rpmpsCreate) PROB_FILE_CONFLICT (Some ''a-1'') None (Some ''/bin/'') (Some ''x'') (Some ''b-1'') 0 =
     ok (Some ps') \<and> ps_inv ps'"
  using rpmpsAppend_grows[of rpmpsCreate PROB_FILE_CONFLICT "Some ''a-1''" None "Some ''/bin/''" "Some ''x''" "Some ''b-1''" 0]
  by (auto simp: ps_inv_def rpmpsCreate_def)

text \<open>\<open>rpmpsTrim\<close> returns 0 exactly when the problems of the set, in their order, match the ignored
  problems at the front of the filter one by one (same type, key and string).\<close>

theorem rpmpsTrim_zero:
  "snd (rpmpsTrim (Some ps) (Some fil)) = 0 \<longleftrightarrow>
     (let ig = filter p_ignore (probs fil) in
      numProblems ps \<le> length ig \<and> list_all2 trim_match (take (numProblems ps) ig) (probs ps))"
proof (cases "probs ps")
  case (Cons p l)
  obtain ts got where t: "trim_loop (probs fil) (probs ps) False = (ts, got)"
    by (cases "trim_loop (probs fil) (probs ps) False")
  show ?thesis using trim_loop_result[of "probs fil" "probs ps"] t Cons by (auto simp: rpmpsTrim_def Let_def)
qed (simp add: rpmpsTrim_def)

text \<open>no message of a problem is cut short: the text always fits the buffer that
  \<open>rpmProblemString\<close> sizes by the lengths of its three strings and 1024 bytes, with error strings
  of the system of at most 900 characters.\<close>

theorem rpmProblemString_whole:
  assumes "\<And>i. length (strerror i) \<le> 900"
    and "p_pkgNEVR p = Some pkg" "p_altNEVR p = Some alt" "p_str1 p = Some str" "2 \<le> length alt"
  shows "\<exists>t. prob_text strerror (p_type p) (p_ulong1 p) pkg alt str = ok t \<and> rpmProblemString strerror p = ok t"
proof -
  obtain t where t: "prob_text strerror (p_type p) (p_ulong1 p) pkg alt str = ok t"
    using assms(5) by (cases "p_type p") (auto simp: prob_text_def)
  then have "length t < prob_nb pkg alt str" using prob_text_length assms(1) by blast
  then show ?thesis using t assms(2-4) by (simp add: rpmProblemString_def)
qed

theorem rpmProblemString_whole_witness:
  "\<exists>t. rpmProblemString (\<lambda>_. ''error'') \<lparr>p_pkgNEVR = Some ''a-1'', p_altNEVR = Some ''R b'', p_key = None,
     p_type = PROB_REQUIRES, p_ignore = False, p_str1 = Some [], p_ulong1 = 1\<rparr> = ok t \<and> t = ''b is needed by a-1''"
  using rpmProblemString_whole[of "\<lambda>_. ''error''" "\<lparr>p_pkgNEVR = Some ''a-1'', p_altNEVR = Some ''R b'', p_key = None,
     p_type = PROB_REQUIRES, p_ignore = False, p_str1 = Some [], p_ulong1 = 1\<rparr>" "''a-1''" "''R b''" "[]"]
  by (simp add: prob_text_def)

text \<open>C38: \<open>rpmpsPrint\<close> prints, in order, the messages of the problems that are not ignored and do not
  repeat an earlier problem of the set. Earlier problems that are ignored hide a repetition too,
  although they were not displayed.\<close>

theorem rpmpsPrint_messages:
  assumes "\<forall>i<numProblems ps. rpmProblemString se (probs ps ! i) = ok (msg i)"
  shows "rpmpsPrint se (Some ps) = ok (map msg (filter
    (\<lambda>i. \<not> p_ignore (probs ps ! i) \<and> (\<forall>j<i. sameProblem (probs ps ! i) (probs ps ! j))) [0..<numProblems ps]))"
proof -
  have "printed ps = (\<lambda>i. \<not> p_ignore (probs ps ! i) \<and> (\<forall>j<i. sameProblem (probs ps ! i) (probs ps ! j)))"
    by (auto simp: printed_def hidden_def fun_eq_iff)
  then show ?thesis using print_loop_spec[OF assms, of "-1" 0] by (auto simp: rpmpsPrint_def)
qed

definition example_problem :: "bool \<Rightarrow> rpmProblem" where
  "example_problem ig = \<lparr>p_pkgNEVR = Some ''a'', p_altNEVR = Some ''R b'', p_key = None, p_type = PROB_REQUIRES,
     p_ignore = ig, p_str1 = None, p_ulong1 = 1\<rparr>"

theorem rpmpsPrint_messages_witness:
  "rpmpsPrint (\<lambda>_. []) (Some \<lparr>numProblemsAlloced = 2, probs = [example_problem True, example_problem False]\<rparr>) = ok []"
proof -
  let ?ps = "\<lparr>numProblemsAlloced = 2, probs = [example_problem True, example_problem False]\<rparr>"
  have "rpmProblemString (\<lambda>_. []) (example_problem b) = ok ''b is needed by a''" for b
    by (simp add: rpmProblemString_def prob_text_def prob_nb_def example_problem_def)
  then have m: "\<forall>i<numProblems ?ps. rpmProblemString (\<lambda>_. []) (probs ?ps ! i) = ok ''b is needed by a''"
    by (auto simp: less_Suc_eq)
  have "\<not> sameProblem (example_problem False) (example_problem True)" by code_simp
  then show ?thesis
    using rpmpsPrint_messages[of ?ps "\<lambda>_. []" "\<lambda>_. ''b is needed by a''", OF m] by (simp add: example_problem_def upt_rec)
qed

text \<open>\<open>rpmpsGetProblem\<close> with a negative index returns the last problem, but on a set without
  problems it returns a pointer in front of the array.\<close>

theorem rpmpsGetProblem_last:
  assumes "num < 0"
  shows "rpmpsGetProblem (Some ps) num =
    (if probs ps = [] then Inl OutOfBounds else ok (Some (last (probs ps))))"
proof (cases "probs ps")
  case Nil
  then show ?thesis using assms by (simp add: rpmpsGetProblem_def slot_def)
next
  case (Cons p l)
  then have "int (numProblems ps) - 1 = int (length l)" by simp
  then show ?thesis using assms Cons by (simp add: rpmpsGetProblem_def last_conv_nth)
qed

theorem rpmpsGetProblem_last_witness: "rpmpsGetProblem (Some rpmpsCreate) (-1) = Inl OutOfBounds"
  using rpmpsGetProblem_last[of "-1" rpmpsCreate] by (simp add: rpmpsCreate_def)

end
