(* ===== verification/Expr.thy ===== *)
theory Expr
  imports CLib "HOL-Library.Signed_Division"
begin

unbundle bit_operations_syntax

text \<open>
  The expressions of \<open>%if\<close> and of the expression macro: \<open>build/expression.c\<close>, a recursive
  descent parser that evaluates as it parses. This theory holds the model: values, the parser
  state, the scanner \<open>rdToken\<close>, the five grammar levels and the two entry points.

  The position in the expression is the rest of the string, \<open>None\<close> when it is one past the
  terminating NUL. A function of the parser returns the new state and a value or the null
  pointer. The recursion is bounded by fuel (\<open>None\<close> is running out of it); the theory
  \<open>ExprProps\<close> proves that the fuel the entry points start with is enough for every input.
  \<open>rpmExpand\<close> is the argument \<open>expand\<close>; an \<open>int\<close> outside 32 bits is a fault.
\<close>

section \<open>Values\<close>

datatype Value = VInt int | VStr string

definition valueIsInteger :: "Value \<Rightarrow> bool" where
  "valueIsInteger v = (case v of VInt _ \<Rightarrow> True | VStr _ \<Rightarrow> False)"

definition valueSameType :: "Value \<Rightarrow> Value \<Rightarrow> bool" where
  "valueSameType v1 v2 = (valueIsInteger v1 = valueIsInteger v2)"

definition valueMakeInteger :: "int \<Rightarrow> Value option outcome" where
  "valueMakeInteger i = guardC IntOverflow (- (2 ^ 31) \<le> i \<and> i < 2 ^ 31) (ok (Some (VInt i)))"

section \<open>The scanner\<close>

datatype token =
    TOK_NONE | TOK_EOF | TOK_INTEGER | TOK_STRING | TOK_IDENTIFIER | TOK_ADD | TOK_MINUS | TOK_MULTIPLY
  | TOK_DIVIDE | TOK_OPEN_P | TOK_CLOSE_P | TOK_EQ | TOK_NEQ | TOK_LT | TOK_LE | TOK_GT | TOK_GE | TOK_NOT
  | TOK_LOGICAL_AND | TOK_LOGICAL_OR

record parseState =
  st_p :: "string option"
  nextToken :: token
  tokenValue :: "Value option"

text \<open>\<open>BUFSIZ\<close> of the C library.\<close>

definition EXPRBUFSIZ :: int where "EXPRBUFSIZ = 8192"

text \<open>\<open>atoi\<close> is \<open>strtol\<close> converted to \<open>int\<close>.\<close>

definition atoi :: "string \<Rightarrow> int" where
  "atoi s = sint (word_of_int (atol s) :: u32)"

abbreviation expr_digit :: "char \<Rightarrow> bool" where "expr_digit c \<equiv> xisdigit (cval c)"

definition name_char :: "char \<Rightarrow> bool" where
  "name_char c \<longleftrightarrow> xisalnum (cval c) \<or> c = CHR ''_''"

text \<open>A token of one or two characters; \<open>None\<close> is the return value -1, which leaves the state.\<close>

definition emit :: "token \<Rightarrow> string option \<Rightarrow> Value option \<Rightarrow> parseState option outcome" where
  "emit t p v = ok (Some \<lparr>st_p = p, nextToken = t, tokenValue = v\<rparr>)"

definition followed_by :: "char \<Rightarrow> string \<Rightarrow> bool" where
  "followed_by c r \<longleftrightarrow> r \<noteq> [] \<and> hd r = c"

definition rd_word :: "(string \<Rightarrow> string) \<Rightarrow> string \<Rightarrow> parseState option outcome" where
  "rd_word expand s =
     (let c = hd s; r = tl s in
      if xisdigit (cval c) then
        let t = takeWhile expr_digit s in
        guardC BufferOverflow (int (length t) + 1 \<le> EXPRBUFSIZ)
          (emit TOK_INTEGER (Some (dropWhile expr_digit s)) (Some (VInt (atoi t))))
      else if xisalpha (cval c) then
        let t = takeWhile name_char s in
        guardC BufferOverflow (int (length t) + 1 \<le> EXPRBUFSIZ)
          (emit TOK_IDENTIFIER (Some (dropWhile name_char s)) (Some (VStr t)))
      else if c = CHR 0x22 then
        let t = takeWhile (\<lambda>c. c \<noteq> CHR 0x22) r; rest = dropWhile (\<lambda>c. c \<noteq> CHR 0x22) r in
        guardC BufferOverflow (int (length t) + 1 \<le> EXPRBUFSIZ)
          (emit TOK_STRING (case rest of [] \<Rightarrow> None | _ # r' \<Rightarrow> Some r') (Some (VStr (expand t))))
      else ok None)"

text \<open>The \<open>switch\<close> on the first character that is not a blank; \<open>r\<close> is what follows it.\<close>

definition rd_char :: "(string \<Rightarrow> string) \<Rightarrow> char \<Rightarrow> string \<Rightarrow> parseState option outcome" where
  "rd_char expand c r =
    (if c = CHR ''+'' then emit TOK_ADD (Some r) None
     else if c = CHR ''-'' then emit TOK_MINUS (Some r) None
     else if c = CHR ''*'' then emit TOK_MULTIPLY (Some r) None
     else if c = CHR ''/'' then emit TOK_DIVIDE (Some r) None
     else if c = CHR ''('' then emit TOK_OPEN_P (Some r) None
     else if c = CHR '')'' then emit TOK_CLOSE_P (Some r) None
     else if c = CHR ''='' then
       (if followed_by (CHR ''='') r then emit TOK_EQ (Some (tl r)) None else ok None)
     else if c = CHR ''!'' then
       (if followed_by (CHR ''='') r then emit TOK_NEQ (Some (tl r)) None else emit TOK_NOT (Some r) None)
     else if c = CHR ''<'' then
       (if followed_by (CHR ''='') r then emit TOK_LE (Some (tl r)) None else emit TOK_LT (Some r) None)
     else if c = CHR ''>'' then
       (if followed_by (CHR ''='') r then emit TOK_GE (Some (tl r)) None else emit TOK_GT (Some r) None)
     else if c = CHR ''&'' then
       (if followed_by (CHR ''&'') r then emit TOK_LOGICAL_AND (Some (tl r)) None else ok None)
     else if c = CHR ''|'' then
       (if followed_by (CHR ''|'') r then emit TOK_LOGICAL_OR (Some (tl r)) None else ok None)
     else rd_word expand (c # r))"

definition rdToken :: "(string \<Rightarrow> string) \<Rightarrow> parseState \<Rightarrow> parseState option outcome" where
  "rdToken expand st =
     (case st_p st of None \<Rightarrow> Inl OutOfBounds
      | Some p \<Rightarrow>
        (case dropWhile (\<lambda>c. xisspace (cval c)) p of
           [] \<Rightarrow> emit TOK_EOF (Some []) None
         | c # r \<Rightarrow> rd_char expand c r))"

section \<open>Operators\<close>

text \<open>What the four loops do with the two values: \<open>ok None\<close> is the error return.\<close>

fun apply_mul :: "token \<Rightarrow> Value \<Rightarrow> Value \<Rightarrow> Value option outcome" where
  "apply_mul op (VInt i1) (VInt i2) =
     (if op = TOK_MULTIPLY then valueMakeInteger (i1 * i2)
      else guardC DivByZero (i2 \<noteq> 0) (valueMakeInteger (i1 sdiv i2)))"
| "apply_mul op v1 v2 = ok None"

fun apply_add :: "token \<Rightarrow> Value \<Rightarrow> Value \<Rightarrow> Value option outcome" where
  "apply_add op (VInt i1) (VInt i2) =
     (if op = TOK_ADD then valueMakeInteger (i1 + i2) else valueMakeInteger (i1 - i2))"
| "apply_add op (VStr s1) (VStr s2) = (if op = TOK_MINUS then ok None else ok (Some (VStr (s1 @ s2))))"
| "apply_add op v1 v2 = ok None"

definition rel_int :: "token \<Rightarrow> int \<Rightarrow> int \<Rightarrow> bool" where
  "rel_int op i1 i2 =
     (case op of TOK_EQ \<Rightarrow> i1 = i2 | TOK_NEQ \<Rightarrow> i1 \<noteq> i2 | TOK_LT \<Rightarrow> i1 < i2 | TOK_LE \<Rightarrow> i1 \<le> i2
      | TOK_GT \<Rightarrow> i1 > i2 | TOK_GE \<Rightarrow> i1 \<ge> i2 | _ \<Rightarrow> False)"

fun apply_rel :: "token \<Rightarrow> Value \<Rightarrow> Value \<Rightarrow> Value option outcome" where
  "apply_rel op (VInt i1) (VInt i2) = ok (Some (VInt (if rel_int op i1 i2 then 1 else 0)))"
| "apply_rel op (VStr s1) (VStr s2) = ok (Some (VInt (if rel_int op (strcmp s1 s2) 0 then 1 else 0)))"
| "apply_rel op v1 v2 = ok None"

fun apply_log :: "token \<Rightarrow> Value \<Rightarrow> Value \<Rightarrow> Value option outcome" where
  "apply_log op (VInt i1) (VInt i2) =
     ok (Some (VInt (if op = TOK_LOGICAL_AND then (if i1 \<noteq> 0 \<and> i2 \<noteq> 0 then 1 else 0)
                     else (if i1 \<noteq> 0 \<or> i2 \<noteq> 0 then 1 else 0))))"
| "apply_log op v1 v2 = ok None"

section \<open>The grammar\<close>

type_synonym 'a fueled = "'a outcome option"
type_synonym parse_result = "(parseState \<times> Value option) fueled"

definition bindF :: "'a fueled \<Rightarrow> ('a \<Rightarrow> 'b fueled) \<Rightarrow> 'b fueled" where
  "bindF m f = (case m of None \<Rightarrow> None | Some (Inl e) \<Rightarrow> Some (Inl e) | Some (Inr x) \<Rightarrow> f x)"

lemma bindF_simps [simp]:
  "bindF None f = None"
  "bindF (Some (Inl e)) f = Some (Inl e)"
  "bindF (Some (Inr x)) f = f x"
  by (simp_all add: bindF_def)

lemma bindF_cong [fundef_cong]:
  "m = m' \<Longrightarrow> (\<And>x. m' = Some (Inr x) \<Longrightarrow> f x = g x) \<Longrightarrow> bindF m f = bindF m' g"
  by (simp add: bindF_def split: option.split sum.split)

text \<open>\<open>if (rdToken(state)) return NULL;\<close> and then \<open>k\<close>, from the new state.\<close>

definition next_or_null :: "(string \<Rightarrow> string) \<Rightarrow> parseState \<Rightarrow> (parseState \<Rightarrow> parse_result) \<Rightarrow> parse_result" where
  "next_or_null expand st k =
     bindF (Some (rdToken expand st)) (\<lambda>r. case r of None \<Rightarrow> Some (ok (st, None)) | Some st \<Rightarrow> k st)"

text \<open>The shape of the four binary levels: a first operand, then a loop over the operators.\<close>

fun level_loop ::
    "(string \<Rightarrow> string) \<Rightarrow> (parseState \<Rightarrow> parse_result) \<Rightarrow> (token \<Rightarrow> bool) \<Rightarrow>
       (token \<Rightarrow> Value \<Rightarrow> Value \<Rightarrow> Value option outcome) \<Rightarrow> nat \<Rightarrow> parseState \<Rightarrow> Value \<Rightarrow> parse_result" where
  "level_loop expand sub isop app 0 st v1 = None"
| "level_loop expand sub isop app (Suc n) st v1 =
     (if isop (nextToken st) then
        next_or_null expand st (\<lambda>st'.
          bindF (sub st') (\<lambda>(st'', v2).
            case v2 of None \<Rightarrow> Some (ok (st'', None))
            | Some v2 \<Rightarrow>
                bindF (Some (app (nextToken st) v1 v2)) (\<lambda>v.
                  case v of None \<Rightarrow> Some (ok (st'', None))
                  | Some v \<Rightarrow> level_loop expand sub isop app n st'' v)))
      else Some (ok (st, Some v1)))"

definition level ::
    "(string \<Rightarrow> string) \<Rightarrow> (parseState \<Rightarrow> parse_result) \<Rightarrow> (token \<Rightarrow> bool) \<Rightarrow>
       (token \<Rightarrow> Value \<Rightarrow> Value \<Rightarrow> Value option outcome) \<Rightarrow> nat \<Rightarrow> parseState \<Rightarrow> parse_result" where
  "level expand sub isop app n st =
     bindF (sub st) (\<lambda>(st, v1).
       case v1 of None \<Rightarrow> Some (ok (st, None)) | Some v1 \<Rightarrow> level_loop expand sub isop app n st v1)"

definition is_mul :: "token \<Rightarrow> bool" where "is_mul t \<longleftrightarrow> t \<in> {TOK_MULTIPLY, TOK_DIVIDE}"
definition is_add :: "token \<Rightarrow> bool" where "is_add t \<longleftrightarrow> t \<in> {TOK_ADD, TOK_MINUS}"
definition is_rel :: "token \<Rightarrow> bool" where
  "is_rel t \<longleftrightarrow> t \<in> {TOK_EQ, TOK_NEQ, TOK_LT, TOK_LE, TOK_GT, TOK_GE}"
definition is_log :: "token \<Rightarrow> bool" where "is_log t \<longleftrightarrow> t \<in> {TOK_LOGICAL_AND, TOK_LOGICAL_OR}"

text \<open>The levels over a given parser of primaries.\<close>

definition mulOf :: "(string \<Rightarrow> string) \<Rightarrow> nat \<Rightarrow> (parseState \<Rightarrow> parse_result) \<Rightarrow> parseState \<Rightarrow> parse_result" where
  "mulOf expand n prim = level expand prim is_mul apply_mul n"

definition addOf :: "(string \<Rightarrow> string) \<Rightarrow> nat \<Rightarrow> (parseState \<Rightarrow> parse_result) \<Rightarrow> parseState \<Rightarrow> parse_result" where
  "addOf expand n prim = level expand (mulOf expand n prim) is_add apply_add n"

definition relOf :: "(string \<Rightarrow> string) \<Rightarrow> nat \<Rightarrow> (parseState \<Rightarrow> parse_result) \<Rightarrow> parseState \<Rightarrow> parse_result" where
  "relOf expand n prim = level expand (addOf expand n prim) is_rel apply_rel n"

definition logOf :: "(string \<Rightarrow> string) \<Rightarrow> nat \<Rightarrow> (parseState \<Rightarrow> parse_result) \<Rightarrow> parseState \<Rightarrow> parse_result" where
  "logOf expand n prim = level expand (relOf expand n prim) is_log apply_log n"

definition negate :: "token \<Rightarrow> Value \<Rightarrow> Value option outcome" where
  "negate t v =
     (case v of VInt i \<Rightarrow> if t = TOK_MINUS then valueMakeInteger (- i) else valueMakeInteger (if i = 0 then 1 else 0)
      | VStr _ \<Rightarrow> ok None)"

fun doPrimary :: "(string \<Rightarrow> string) \<Rightarrow> nat \<Rightarrow> parseState \<Rightarrow> parse_result" where
  "doPrimary expand 0 st = None"
| "doPrimary expand (Suc n) st =
     (case nextToken st of
        TOK_OPEN_P \<Rightarrow>
          next_or_null expand st (\<lambda>st.
            bindF (logOf expand n (doPrimary expand n) st) (\<lambda>(st, v).
              if nextToken st \<noteq> TOK_CLOSE_P then Some (ok (st, None))
              else next_or_null expand st (\<lambda>st. Some (ok (st, v)))))
      | TOK_INTEGER \<Rightarrow> next_or_null expand st (\<lambda>st'. Some (ok (st', tokenValue st)))
      | TOK_STRING \<Rightarrow> next_or_null expand st (\<lambda>st'. Some (ok (st', tokenValue st)))
      | TOK_IDENTIFIER \<Rightarrow>
          (case tokenValue st of
             Some (VStr name) \<Rightarrow> next_or_null expand st (\<lambda>st'. Some (ok (st', Some (VStr (expand name)))))
           | _ \<Rightarrow> Some (Inl NullDeref))
      | t \<Rightarrow>
          if t = TOK_MINUS \<or> t = TOK_NOT then
            next_or_null expand st (\<lambda>st.
              bindF (doPrimary expand n st) (\<lambda>(st, v).
                case v of None \<Rightarrow> Some (ok (st, None))
                | Some v \<Rightarrow> bindF (Some (negate t v)) (\<lambda>v. Some (ok (st, v)))))
          else Some (ok (st, None)))"

definition doMultiplyDivide :: "(string \<Rightarrow> string) \<Rightarrow> nat \<Rightarrow> parseState \<Rightarrow> parse_result" where
  "doMultiplyDivide expand n = mulOf expand n (doPrimary expand n)"

definition doAddSubtract :: "(string \<Rightarrow> string) \<Rightarrow> nat \<Rightarrow> parseState \<Rightarrow> parse_result" where
  "doAddSubtract expand n = addOf expand n (doPrimary expand n)"

definition doRelational :: "(string \<Rightarrow> string) \<Rightarrow> nat \<Rightarrow> parseState \<Rightarrow> parse_result" where
  "doRelational expand n = relOf expand n (doPrimary expand n)"

definition doLogical :: "(string \<Rightarrow> string) \<Rightarrow> nat \<Rightarrow> parseState \<Rightarrow> parse_result" where
  "doLogical expand n = logOf expand n (doPrimary expand n)"

section \<open>Entry points\<close>

definition expr_start :: "(string \<Rightarrow> string) \<Rightarrow> string \<Rightarrow> parseState outcome" where
  "expr_start expand expr =
     (let st = \<lparr>st_p = Some expr, nextToken = TOK_NONE, tokenValue = None\<rparr> in
      andThen (rdToken expand st) (\<lambda>r. ok (case r of None \<Rightarrow> st | Some st \<Rightarrow> st)))"

text \<open>The value of a complete expression, \<open>None\<close> after an error message.\<close>

definition expr_value :: "(string \<Rightarrow> string) \<Rightarrow> string \<Rightarrow> Value option fueled" where
  "expr_value expand expr =
     bindF (Some (expr_start expand expr)) (\<lambda>st.
     bindF (doLogical expand (length expr + 2) st) (\<lambda>(st, v).
       case v of None \<Rightarrow> Some (ok None)
       | Some v \<Rightarrow> Some (ok (if nextToken st \<noteq> TOK_EOF then None else Some v))))"

definition parseExpressionBoolean :: "(string \<Rightarrow> string) \<Rightarrow> string \<Rightarrow> int fueled" where
  "parseExpressionBoolean expand expr =
     bindF (expr_value expand expr) (\<lambda>v.
       Some (ok (case v of None \<Rightarrow> -1
                 | Some (VInt i) \<Rightarrow> if i \<noteq> 0 then 1 else 0
                 | Some (VStr s) \<Rightarrow> if s \<noteq> [] then 1 else 0)))"

text \<open>The number is printed into 128 bytes.\<close>

definition parseExpressionString :: "(string \<Rightarrow> string) \<Rightarrow> string \<Rightarrow> string option fueled" where
  "parseExpressionString expand expr =
     bindF (expr_value expand expr) (\<lambda>v.
       Some (case v of None \<Rightarrow> ok None
             | Some (VInt i) \<Rightarrow> guardC BufferOverflow (length (dec_int i) + 1 \<le> 128) (ok (Some (dec_int i)))
             | Some (VStr s) \<Rightarrow> ok (Some s)))"

end
