(* ===== verification/ExprRound.thy ===== *)
theory ExprRound
  imports ExprProps
begin

text \<open>
  The expression parser evaluates a printed expression to the value of the expression. The
  syntax trees and their evaluation are the reference; the printer works on lexemes, each
  followed by a blank, and puts parentheses only where precedence and left associativity need
  them. The value of a tree uses the operators of the parser: what is proved is that the parser
  applies them to the right operands, in the right order, and stops at the first error or fault.
\<close>

section \<open>Trees, lexemes, printing\<close>

datatype ast =
    ENum string | EStr string | EIdent string | ENeg ast | ENot ast | EBin token ast ast

datatype lexeme = LOp token | LNum string | LStr string | LIdent string

definition op_text :: "token \<Rightarrow> string" where
  "op_text t = (case t of TOK_ADD \<Rightarrow> ''+'' | TOK_MINUS \<Rightarrow> ''-'' | TOK_MULTIPLY \<Rightarrow> ''*'' | TOK_DIVIDE \<Rightarrow> ''/''
     | TOK_OPEN_P \<Rightarrow> ''('' | TOK_CLOSE_P \<Rightarrow> '')'' | TOK_EQ \<Rightarrow> ''=='' | TOK_NEQ \<Rightarrow> ''!='' | TOK_LT \<Rightarrow> ''<''
     | TOK_LE \<Rightarrow> ''<='' | TOK_GT \<Rightarrow> ''>'' | TOK_GE \<Rightarrow> ''>='' | TOK_NOT \<Rightarrow> ''!'' | TOK_LOGICAL_AND \<Rightarrow> ''&&''
     | TOK_LOGICAL_OR \<Rightarrow> ''||'' | _ \<Rightarrow> [])"

fun lex_text :: "lexeme \<Rightarrow> string" where
  "lex_text (LOp t) = op_text t"
| "lex_text (LNum d) = d"
| "lex_text (LStr s) = CHR 0x22 # s @ [CHR 0x22]"
| "lex_text (LIdent s) = s"

fun lex_ok :: "lexeme \<Rightarrow> bool" where
  "lex_ok (LOp t) = (op_text t \<noteq> [])"
| "lex_ok (LNum d) = (d \<noteq> [] \<and> list_all expr_digit d \<and> int (length d) + 1 \<le> EXPRBUFSIZ)"
| "lex_ok (LStr s) = (CHR 0x22 \<notin> set s \<and> int (length s) + 1 \<le> EXPRBUFSIZ)"
| "lex_ok (LIdent s) = (s \<noteq> [] \<and> xisalpha (cval (hd s)) \<and> list_all name_char s \<and> int (length s) + 1 \<le> EXPRBUFSIZ)"

fun lex_tok :: "lexeme \<Rightarrow> token" where
  "lex_tok (LOp t) = t"
| "lex_tok (LNum d) = TOK_INTEGER"
| "lex_tok (LStr s) = TOK_STRING"
| "lex_tok (LIdent s) = TOK_IDENTIFIER"

fun lex_val :: "(string \<Rightarrow> string) \<Rightarrow> lexeme \<Rightarrow> Value option" where
  "lex_val expand (LOp t) = None"
| "lex_val expand (LNum d) = Some (VInt (atoi d))"
| "lex_val expand (LStr s) = Some (VStr (expand s))"
| "lex_val expand (LIdent s) = Some (VStr s)"

definition unlex :: "lexeme list \<Rightarrow> string" where
  "unlex ls = concat (map (\<lambda>l. lex_text l @ '' '') ls)"

lemma unlex_simps [simp]: "unlex [] = []" "unlex (l # ls) = lex_text l @ CHR '' '' # unlex ls"
  by (simp_all add: unlex_def)

text \<open>The level of a binary operator: 1 binds loosest.\<close>

definition lv :: "token \<Rightarrow> nat" where
  "lv t = (if is_log t then 1 else if is_rel t then 2 else if is_add t then 3 else if is_mul t then 4 else 0)"

fun wf_ast :: "ast \<Rightarrow> bool" where
  "wf_ast (ENum d) = lex_ok (LNum d)"
| "wf_ast (EStr s) = lex_ok (LStr s)"
| "wf_ast (EIdent s) = lex_ok (LIdent s)"
| "wf_ast (ENeg e) = wf_ast e"
| "wf_ast (ENot e) = wf_ast e"
| "wf_ast (EBin t a b) = (lv t \<noteq> 0 \<and> wf_ast a \<and> wf_ast b)"

fun pr :: "nat \<Rightarrow> ast \<Rightarrow> lexeme list" where
  "pr k (ENum d) = [LNum d]"
| "pr k (EStr s) = [LStr s]"
| "pr k (EIdent s) = [LIdent s]"
| "pr k (ENeg e) = LOp TOK_MINUS # pr 5 e"
| "pr k (ENot e) = LOp TOK_NOT # pr 5 e"
| "pr k (EBin t a b) =
     (let p = pr (lv t) a @ LOp t # pr (Suc (lv t)) b in
      if lv t < k then LOp TOK_OPEN_P # p @ [LOp TOK_CLOSE_P] else p)"

definition bindV :: "Value option outcome \<Rightarrow> (Value \<Rightarrow> Value option outcome) \<Rightarrow> Value option outcome" where
  "bindV m f = (case m of Inl e \<Rightarrow> Inl e | Inr None \<Rightarrow> Inr None | Inr (Some v) \<Rightarrow> f v)"

lemma bindV_simps [simp]: "bindV (Inl e) f = Inl e" "bindV (Inr None) f = Inr None" "bindV (Inr (Some v)) f = f v"
  by (simp_all add: bindV_def)

definition apply_op :: "nat \<Rightarrow> token \<Rightarrow> Value \<Rightarrow> Value \<Rightarrow> Value option outcome" where
  "apply_op k = (if k = 1 then apply_log else if k = 2 then apply_rel else if k = 3 then apply_add else apply_mul)"

fun eval_ast :: "(string \<Rightarrow> string) \<Rightarrow> ast \<Rightarrow> Value option outcome" where
  "eval_ast expand (ENum d) = ok (Some (VInt (atoi d)))"
| "eval_ast expand (EStr s) = ok (Some (VStr (expand s)))"
| "eval_ast expand (EIdent s) = ok (Some (VStr (expand s)))"
| "eval_ast expand (ENeg e) = bindV (eval_ast expand e) (negate TOK_MINUS)"
| "eval_ast expand (ENot e) = bindV (eval_ast expand e) (negate TOK_NOT)"
| "eval_ast expand (EBin t a b) =
     bindV (eval_ast expand a) (\<lambda>x. bindV (eval_ast expand b) (\<lambda>y. apply_op (lv t) t x y))"

section \<open>The scanner reads lexemes\<close>

fun at :: "(string \<Rightarrow> string) \<Rightarrow> lexeme list \<Rightarrow> parseState" where
  "at expand [] = \<lparr>st_p = Some [], nextToken = TOK_EOF, tokenValue = None\<rparr>"
| "at expand (l # ls) = \<lparr>st_p = Some (CHR '' '' # unlex ls), nextToken = lex_tok l, tokenValue = lex_val expand l\<rparr>"

lemma space_facts: "xisspace (cval CHR '' '')" "\<not> expr_digit CHR '' ''" "\<not> name_char CHR '' ''"
  by code_simp+

lemma digit_not_op: "expr_digit c \<Longrightarrow> c \<notin> set ''+-*/()=!<>&|'' \<and> \<not> xisspace (cval c)"
  by (auto simp: xisdigit_def xisspace_def xisblank_def cval_def)

lemma alpha_not_op: "xisalpha (cval c) \<Longrightarrow> c \<notin> set ''+-*/()=!<>&|'' \<and> \<not> xisspace (cval c) \<and> \<not> expr_digit c"
  by (auto simp: xisdigit_def xisalpha_def xislower_def xisupper_def xisspace_def xisblank_def cval_def)

lemma take_while_blank:
  assumes "list_all P s" "\<not> P b"
  shows "takeWhile P (s @ b # r) = s" "dropWhile P (s @ b # r) = b # r"
  using assms by (induction s) auto

lemma quoted:
  assumes "q \<notin> set s"
  shows "takeWhile (\<lambda>c. c \<noteq> q) (s @ q # r) = s" "dropWhile (\<lambda>c. c \<noteq> q) (s @ q # r) = q # r"
  using assms by (induction s) auto

lemma op_space: "op_text t = c # r \<Longrightarrow> \<not> xisspace (cval c)"
  by (cases t; clarsimp simp: op_text_def; code_simp)

lemma rd_op:
  assumes "op_text t = c # r"
  shows "rd_char expand c (r @ CHR '' '' # s) = emit t (Some (CHR '' '' # s)) None \<and> \<not> xisspace (cval c)"
proof -
  have "rd_char expand c (r @ CHR '' '' # s) = emit t (Some (CHR '' '' # s)) None"
    using assms by (cases t; clarsimp simp: op_text_def; simp add: rd_char_def followed_by_def)
  then show ?thesis using op_space[OF assms] by simp
qed

lemma rd_number:
  assumes "lex_ok (LNum (c # d))"
  shows "rd_char expand c (d @ CHR '' '' # s) = emit TOK_INTEGER (Some (CHR '' '' # s)) (Some (VInt (atoi (c # d))))
    \<and> \<not> xisspace (cval c)"
proof -
  have c: "expr_digit c" and d: "list_all expr_digit d" and n: "int (length d) + 2 \<le> EXPRBUFSIZ" using assms by simp_all
  have "rd_char expand c (d @ CHR '' '' # s) = rd_word expand (c # d @ CHR '' '' # s)"
    using digit_not_op[OF c] by (simp add: rd_char_def)
  then show ?thesis
    using c n digit_not_op[OF c] take_while_blank[OF d, of "CHR '' ''" s] space_facts
    by (simp add: rd_word_def guardC_def)
qed

lemma rd_name:
  assumes "lex_ok (LIdent (c # d))"
  shows "rd_char expand c (d @ CHR '' '' # s) = emit TOK_IDENTIFIER (Some (CHR '' '' # s)) (Some (VStr (c # d)))
    \<and> \<not> xisspace (cval c)"
proof -
  have c: "xisalpha (cval c)" "name_char c" and d: "list_all name_char d" and n: "int (length d) + 2 \<le> EXPRBUFSIZ"
    using assms by simp_all
  have "rd_char expand c (d @ CHR '' '' # s) = rd_word expand (c # d @ CHR '' '' # s)"
    using alpha_not_op[OF c(1)] by (simp add: rd_char_def)
  then show ?thesis
    using c n alpha_not_op[OF c(1)] take_while_blank[OF d, of "CHR '' ''" s] space_facts
    by (simp add: rd_word_def guardC_def)
qed

lemma rd_literal:
  assumes "lex_ok (LStr t)"
  shows "rd_char expand (CHR 0x22) ((t @ [CHR 0x22]) @ CHR '' '' # s)
      = emit TOK_STRING (Some (CHR '' '' # s)) (Some (VStr (expand t)))
    \<and> \<not> xisspace (cval (CHR 0x22))"
proof -
  have q: "\<not> xisspace (cval (CHR 0x22))" "\<not> expr_digit (CHR 0x22)" "\<not> xisalpha (cval (CHR 0x22))"
    by code_simp+
  show ?thesis
    using assms q quoted[of "CHR 0x22" t "CHR '' '' # s"]
    by (simp add: rd_char_def rd_word_def guardC_def)
qed

lemma rd_char_lexeme:
  assumes "lex_ok l" "lex_text l = c # r"
  shows "rd_char expand c (r @ CHR '' '' # unlex ls) = ok (Some (at expand (l # ls))) \<and> \<not> xisspace (cval c)"
proof (cases l)
  case (LOp t)
  then show ?thesis using assms rd_op[of t c r expand "unlex ls"] by simp
next
  case (LNum d)
  then show ?thesis using assms rd_number[of c r expand "unlex ls"] by simp
next
  case (LStr t)
  then show ?thesis using assms rd_literal[of t expand "unlex ls"] by auto
next
  case (LIdent t)
  then show ?thesis using assms rd_name[of c r expand "unlex ls"] by simp
qed

lemma lex_text_nonempty: "lex_ok l \<Longrightarrow> lex_text l \<noteq> []"
  by (cases l) simp_all

lemma rdToken_unlex:
  assumes "list_all lex_ok ls" "st_p st = Some p" "p = unlex ls \<or> p = CHR '' '' # unlex ls"
  shows "rdToken expand st = ok (Some (at expand ls))"
proof -
  have "dropWhile (\<lambda>c. xisspace (cval c)) p = dropWhile (\<lambda>c. xisspace (cval c)) (unlex ls)"
    using assms(3) space_facts by auto
  note d = this
  show ?thesis
  proof (cases ls)
    case Nil
    then show ?thesis using d by (subst rdToken_blanks[OF assms(2)]) simp_all
  next
    case (Cons l ls')
    then have l: "lex_ok l" using assms(1) by simp
    then obtain c r where t: "lex_text l = c # r" using lex_text_nonempty by (cases "lex_text l") auto
    note x = rd_char_lexeme[OF l t, of expand ls']
    have "dropWhile (\<lambda>c. xisspace (cval c)) p = c # r @ CHR '' '' # unlex ls'"
      using d x by (simp add: Cons t)
    from rdToken_char[OF assms(2) this, of expand] x show ?thesis by (simp add: Cons)
  qed
qed

lemma next_at:
  assumes "list_all lex_ok ls"
  shows "next_or_null expand (at expand (l # ls)) k = k (at expand ls)"
  using rdToken_unlex[OF assms, of "at expand (l # ls)" "CHR '' '' # unlex ls" expand]
  by (simp add: next_or_null_def)

lemma start_at: "list_all lex_ok ls \<Longrightarrow> expr_start expand (unlex ls) = ok (at expand ls)"
  by (simp add: expr_start_def rdToken_unlex)

section \<open>The parser follows the printer\<close>

definition tok_at :: "lexeme list \<Rightarrow> token" where
  "tok_at ls = (case ls of [] \<Rightarrow> TOK_EOF | l # _ \<Rightarrow> lex_tok l)"

lemma nextToken_at [simp]: "nextToken (at expand ls) = tok_at ls"
  by (cases ls) (simp_all add: tok_at_def)

lemma tok_at_Cons [simp]: "tok_at (l # ls) = lex_tok l"
  by (simp add: tok_at_def)

lemma tokenValue_at [simp]: "tokenValue (at expand (l # ls)) = lex_val expand l"
  by simp

declare at.simps [simp del]

definition parserK :: "(string \<Rightarrow> string) \<Rightarrow> nat \<Rightarrow> nat \<Rightarrow> parseState \<Rightarrow> parse_result" where
  "parserK expand n k =
     (if k = 1 then logOf expand n (doPrimary expand n) else if k = 2 then relOf expand n (doPrimary expand n)
      else if k = 3 then addOf expand n (doPrimary expand n) else if k = 4 then mulOf expand n (doPrimary expand n)
      else doPrimary expand n)"

lemma is_lv: "is_log = (\<lambda>t. lv t = 1)" "is_rel = (\<lambda>t. lv t = 2)" "is_add = (\<lambda>t. lv t = 3)" "is_mul = (\<lambda>t. lv t = 4)"
  by (auto simp: fun_eq_iff lv_def is_log_def is_rel_def is_add_def is_mul_def)

lemma lv_le: "lv t \<le> 4"
  by (simp add: lv_def)

lemma lv_less [simp]: "lv t < 5"
  by (simp add: lv_def)

lemma parserK_level:
  assumes "1 \<le> k" "k \<le> 4"
  shows "parserK expand n k = level expand (parserK expand n (Suc k)) (\<lambda>t. lv t = k) (apply_op k) n"
proof -
  have "k = 1 \<or> k = 2 \<or> k = 3 \<or> k = 4" using assms by linarith
  then show ?thesis
    by (elim disjE)
      (simp_all add: parserK_def apply_op_def logOf_def relOf_def addOf_def mulOf_def is_lv numeral_eq_Suc)
qed

text \<open>\<open>x\<close> is the result \<open>r\<close> with \<open>ls\<close> left to read, or out of fuel.\<close>

definition reads :: "(string \<Rightarrow> string) \<Rightarrow> lexeme list \<Rightarrow> Value option outcome \<Rightarrow> parse_result \<Rightarrow> bool" where
  "reads expand ls r x \<longleftrightarrow> x = None \<or>
     (case r of Inl f \<Rightarrow> x = Some (Inl f)
      | Inr None \<Rightarrow> \<exists>ls'. list_all lex_ok ls' \<and> x = Some (ok (at expand ls', None))
      | Inr (Some v) \<Rightarrow> x = Some (ok (at expand ls, Some v)))"

lemma reads_simps [simp]:
  "reads expand ls r None"
  "reads expand ls r (Some (Inl f)) \<longleftrightarrow> r = Inl f"
  "reads expand ls r (Some (Inr (at expand ls, Some v))) \<longleftrightarrow> r = ok (Some v)"
  "list_all lex_ok ls' \<Longrightarrow> reads expand ls (Inr None) (Some (Inr (at expand ls', None)))"
  by (auto simp: reads_def split: sum.splits option.splits)

lemma reads_bindF:
  assumes "reads expand ls r x"
    and "\<And>v. r = ok (Some v) \<Longrightarrow> reads expand ls' (f v) (g (at expand ls, Some v))"
    and "\<And>ls''. list_all lex_ok ls'' \<Longrightarrow> reads expand ls' (Inr None) (g (at expand ls'', None))"
  shows "reads expand ls' (bindV r f) (bindF x g)"
proof (cases "x = None")
  case False
  show ?thesis
  proof (cases r)
    case (Inr o')
    then show ?thesis
      using assms False by (cases o') (auto simp: reads_def[of expand ls])
  qed (use assms(1) False in \<open>auto simp: reads_def[of expand ls]\<close>)
qed simp

definition parses :: "(string \<Rightarrow> string) \<Rightarrow> nat \<Rightarrow> ast \<Rightarrow> bool" where
  "parses expand k e \<longleftrightarrow> (\<forall>n ls. list_all lex_ok ls \<longrightarrow> lv (tok_at ls) < k \<longrightarrow>
     reads expand ls (eval_ast expand e) (parserK expand n k (at expand (pr k e @ ls))))"

text \<open>The parser of level \<open>k\<close> has read \<open>e\<close> and is in its loop.\<close>

definition in_loop :: "(string \<Rightarrow> string) \<Rightarrow> nat \<Rightarrow> nat \<Rightarrow> lexeme list \<Rightarrow> Value option outcome \<Rightarrow> parse_result \<Rightarrow> bool" where
  "in_loop expand k n ls r x \<longleftrightarrow>
     (case r of Inr (Some v) \<Rightarrow>
        (\<exists>m. x = level_loop expand (parserK expand n (Suc k)) (\<lambda>t. lv t = k) (apply_op k) m (at expand ls) v)
      | _ \<Rightarrow> reads expand [] r x)"

definition loops :: "(string \<Rightarrow> string) \<Rightarrow> nat \<Rightarrow> ast \<Rightarrow> bool" where
  "loops expand k e \<longleftrightarrow> (\<forall>n ls. list_all lex_ok ls \<longrightarrow> lv (tok_at ls) \<le> k \<longrightarrow>
     parserK expand n k (at expand (pr k e @ ls)) = None \<or>
     in_loop expand k n ls (eval_ast expand e) (parserK expand n k (at expand (pr k e @ ls))))"

lemma reads_any: "(\<And>v. r \<noteq> ok (Some v)) \<Longrightarrow> reads expand ls r x = reads expand ls' r x"
  by (auto simp: reads_def split: sum.splits option.splits)

lemma loops_parses:
  assumes "loops expand k e"
  shows "parses expand k e"
  unfolding parses_def
proof (intro allI impI)
  fix n ls
  assume ls: "list_all lex_ok ls" "lv (tok_at ls) < k"
  let ?x = "parserK expand n k (at expand (pr k e @ ls))"
  show "reads expand ls (eval_ast expand e) ?x"
  proof (cases "?x = None")
    case False
    then have i: "in_loop expand k n ls (eval_ast expand e) ?x" using assms ls unfolding loops_def by (meson less_imp_le)
    show ?thesis
    proof (cases "\<exists>v. eval_ast expand e = ok (Some v)")
      case True
      then obtain v m where v: "eval_ast expand e = ok (Some v)"
        and x: "?x = level_loop expand (parserK expand n (Suc k)) (\<lambda>t. lv t = k) (apply_op k) m (at expand ls) v"
        using i by (auto simp: in_loop_def)
      show ?thesis using ls unfolding x v by (cases m) simp_all
    next
      case no: False
      then show ?thesis
        using i reads_any[of "eval_ast expand e" expand ls ?x "[]"]
        by (auto simp: in_loop_def split: sum.splits option.splits)
    qed
  qed simp
qed

lemma parses_loops:
  assumes "parses expand (Suc k) e" "pr k e = pr (Suc k) e" "1 \<le> k" "k \<le> 4"
  shows "loops expand k e"
  unfolding loops_def
proof (intro allI impI)
  fix n ls
  assume ls: "list_all lex_ok ls" "lv (tok_at ls) \<le> k"
  let ?x = "parserK expand n (Suc k) (at expand (pr k e @ ls))"
  have "reads expand ls (eval_ast expand e) ?x" using assms ls by (simp add: parses_def)
  then have "?x = None \<or> in_loop expand k n ls (eval_ast expand e)
      (level expand (parserK expand n (Suc k)) (\<lambda>t. lv t = k) (apply_op k) n (at expand (pr k e @ ls)))"
    by (cases "eval_ast expand e" rule: sum.exhaust)
      ((auto simp: in_loop_def level_def reads_def split: option.splits)[1],
       (auto simp: in_loop_def level_def reads_def split: option.splits)[1], blast)
  then show "parserK expand n k (at expand (pr k e @ ls)) = None \<or>
      in_loop expand k n ls (eval_ast expand e) (parserK expand n k (at expand (pr k e @ ls)))"
    unfolding parserK_level[OF assms(3,4)] by (auto simp: level_def)
qed

lemma op_text_lv: "lv t \<noteq> 0 \<Longrightarrow> op_text t \<noteq> []"
  by (cases t) (simp_all add: lv_def op_text_def is_log_def is_rel_def is_add_def is_mul_def)

lemma op_text_marks: "op_text TOK_MINUS \<noteq> []" "op_text TOK_NOT \<noteq> []" "op_text TOK_OPEN_P \<noteq> []" "op_text TOK_CLOSE_P \<noteq> []"
  by (simp_all add: op_text_def)

lemma pr_ok: "wf_ast e \<Longrightarrow> list_all lex_ok (pr k e)"
  by (induction e arbitrary: k) (simp_all add: Let_def op_text_lv op_text_marks)

lemma loop_step:
  assumes "lv t = k" "1 \<le> k" "k \<le> 4" "parses expand (Suc k) b" "wf_ast b" "list_all lex_ok ls" "lv (tok_at ls) \<le> k"
    and x: "x = level_loop expand (parserK expand n (Suc k)) (\<lambda>t. lv t = k) (apply_op k) m
             (at expand (LOp t # pr (Suc k) b @ ls)) v"
  shows "x = None \<or> in_loop expand k n ls (bindV (eval_ast expand b) (apply_op k t v)) x"
proof (cases m)
  case (Suc m')
  have r: "reads expand ls (eval_ast expand b) (parserK expand n (Suc k) (at expand (pr (Suc k) b @ ls)))"
    using assms by (simp add: parses_def)
  have ok: "list_all lex_ok (pr (Suc k) b @ ls)" using assms pr_ok by simp
  define y where "y = parserK expand n (Suc k) (at expand (pr (Suc k) b @ ls))"
  have x': "x = bindF y (\<lambda>(st'', v2).
            case v2 of None \<Rightarrow> Some (ok (st'', None))
            | Some v2 \<Rightarrow>
                bindF (Some (apply_op k t v v2)) (\<lambda>v.
                  case v of None \<Rightarrow> Some (ok (st'', None))
                  | Some v \<Rightarrow> level_loop expand (parserK expand n (Suc k)) (\<lambda>t. lv t = k) (apply_op k) m' st'' v))"
    using Suc assms(1) unfolding x y_def by (simp add: tok_at_def next_at[OF ok])
  show ?thesis
  proof (cases "\<exists>w. eval_ast expand b = ok (Some w)")
    case True
    then obtain w where w: "eval_ast expand b = ok (Some w)" by blast
    then have "y = None \<or> y = Some (ok (at expand ls, Some w))" using r by (auto simp: reads_def y_def)
    moreover have ?thesis if y: "y = Some (ok (at expand ls, Some w))"
    proof (cases "apply_op k t v w")
      case (Inr o')
      then show ?thesis using assms(6) by (cases o') (auto simp: x' y w in_loop_def)
    qed (auto simp: x' y w in_loop_def)
    ultimately show ?thesis by (auto simp: x')
  next
    case False
    then show ?thesis
      using r unfolding y_def[symmetric] x'
      by (cases "eval_ast expand b" rule: sum.exhaust)
        (auto simp: in_loop_def reads_def bindV_def split: option.splits)
  qed
qed (use x in simp)

lemma bin_loops:
  assumes "lv t = k" "1 \<le> k" "k \<le> 4" "loops expand k a" "parses expand (Suc k) b" "wf_ast b"
  shows "loops expand k (EBin t a b)"
  unfolding loops_def
proof (intro allI impI)
  fix n ls
  assume ls: "list_all lex_ok ls" "lv (tok_at ls) \<le> k"
  let ?rest = "LOp t # pr (Suc k) b @ ls"
  define x where "x = parserK expand n k (at expand (pr k a @ ?rest))"
  have eq: "pr k (EBin t a b) @ ls = pr k a @ ?rest" using assms(1) by simp
  have "list_all lex_ok ?rest" "lv (tok_at ?rest) \<le> k"
    using ls assms pr_ok[of b "Suc k"] op_text_lv[of t] by (simp_all add: tok_at_def)
  then have "x = None \<or> in_loop expand k n ?rest (eval_ast expand a) x"
    using assms(4) by (simp add: loops_def x_def)
  then have "x = None \<or> in_loop expand k n ls (eval_ast expand (EBin t a b)) x"
  proof (elim disjE)
    assume i: "in_loop expand k n ?rest (eval_ast expand a) x"
    show ?thesis
    proof (cases "\<exists>v. eval_ast expand a = ok (Some v)")
      case True
      then obtain v where v: "eval_ast expand a = ok (Some v)" by blast
      from i obtain m where
        "x = level_loop expand (parserK expand n (Suc k)) (\<lambda>t. lv t = k) (apply_op k) m (at expand ?rest) v"
        by (auto simp: in_loop_def v)
      from loop_step[OF assms(1-3,5,6) ls this] show ?thesis by (simp add: v assms(1))
    next
      case False
      then show ?thesis
        using i by (cases "eval_ast expand a" rule: sum.exhaust)
          (auto simp: in_loop_def bindV_def split: option.splits)
    qed
  qed simp
  then show "parserK expand n k (at expand (pr k (EBin t a b) @ ls)) = None \<or>
      in_loop expand k n ls (eval_ast expand (EBin t a b)) (parserK expand n k (at expand (pr k (EBin t a b) @ ls)))"
    unfolding eq x_def .
qed

lemma parses_down:
  assumes "i \<le> j" "1 \<le> i" "j \<le> 5" "\<And>k. i \<le> k \<Longrightarrow> k < j \<Longrightarrow> pr k e = pr (Suc k) e" "parses expand j e"
  shows "parses expand i e"
  using assms(1)
proof (induction rule: inc_induct)
  case (step k)
  show ?case
  proof (rule loops_parses, rule parses_loops)
    show "parses expand (Suc k) e" by (rule step.IH)
    show "pr k e = pr (Suc k) e" using step.hyps by (intro assms(4)) simp_all
  qed (use step.hyps assms(2,3) in simp_all)
qed (rule assms(5))

text \<open>A primary: what \<open>doPrimary\<close> does on each form.\<close>

lemma parses5_iff: "parses expand 5 e \<longleftrightarrow> (\<forall>n ls. list_all lex_ok ls \<longrightarrow>
    reads expand ls (eval_ast expand e) (doPrimary expand n (at expand (pr 5 e @ ls))))"
  by (simp add: parses_def parserK_def)

lemma bindV_ok: "bindV r (\<lambda>v. ok (Some v)) = r"
  by (auto simp: bindV_def split: sum.split option.split)

lemma parses_atom:
  assumes "\<And>k. pr k e = [l]" "\<And>t. l \<noteq> LOp t"
    "eval_ast expand e = ok (case l of LIdent s \<Rightarrow> Some (VStr (expand s)) | _ \<Rightarrow> lex_val expand l)"
  shows "parses expand 5 e"
  unfolding parses5_iff
proof (intro allI impI)
  fix n ls
  assume ls: "list_all lex_ok ls"
  show "reads expand ls (eval_ast expand e) (doPrimary expand n (at expand (pr 5 e @ ls)))"
    using assms by (cases n; cases l) (auto simp: next_at[OF ls])
qed

lemma parses_unary:
  assumes "\<And>k. pr k e = LOp t # pr 5 e'" "t = TOK_MINUS \<or> t = TOK_NOT"
    "eval_ast expand e = bindV (eval_ast expand e') (negate t)" "parses expand 5 e'" "wf_ast e'"
  shows "parses expand 5 e"
  unfolding parses5_iff
proof (intro allI impI)
  fix n ls
  assume ls: "list_all lex_ok ls"
  then have ok: "list_all lex_ok (pr 5 e' @ ls)" using pr_ok[OF assms(5)] by simp
  show "reads expand ls (eval_ast expand e) (doPrimary expand n (at expand (pr 5 e @ ls)))"
  proof (cases n)
    case (Suc m)
    have r: "reads expand ls (eval_ast expand e') (doPrimary expand m (at expand (pr 5 e' @ ls)))"
      using assms(4) ls by (simp add: parses5_iff)
    have "doPrimary expand n (at expand (pr 5 e @ ls)) =
        bindF (doPrimary expand m (at expand (pr 5 e' @ ls))) (\<lambda>(st, v).
          case v of None \<Rightarrow> Some (ok (st, None))
          | Some v \<Rightarrow> bindF (Some (negate t v)) (\<lambda>v. Some (ok (st, v))))"
      using assms(2) next_at[OF ok, of expand "LOp t"] by (auto simp: Suc assms(1))
    moreover have "reads expand ls (negate t v) (bindF (Some (negate t v)) (\<lambda>v. Some (ok (at expand ls, v))))" for v
      using ls by (cases "negate t v" rule: sum.exhaust) (auto simp: reads_def split: option.split)
    ultimately show ?thesis
      unfolding assms(3) by (auto intro!: reads_bindF[OF r])
  qed simp
qed

lemma parses_paren:
  assumes "lv t < 5" "parses expand 1 (EBin t a b)" "wf_ast (EBin t a b)"
  shows "parses expand 5 (EBin t a b)"
  unfolding parses5_iff
proof (intro allI impI)
  fix n ls
  assume ls: "list_all lex_ok ls"
  let ?e = "EBin t a b" and ?rest = "LOp TOK_CLOSE_P # ls"
  have p: "pr 5 ?e @ ls = LOp TOK_OPEN_P # pr 1 ?e @ ?rest"
    using assms(1,3) by (simp add: Let_def)
  have ok: "list_all lex_ok ?rest" "list_all lex_ok (pr 1 ?e @ ?rest)"
    using ls pr_ok[OF assms(3), of 1] op_text_marks by simp_all
  show "reads expand ls (eval_ast expand ?e) (doPrimary expand n (at expand (pr 5 ?e @ ls)))"
  proof (cases n)
    case (Suc m)
    have "lv (tok_at ?rest) < 1" by (simp add: tok_at_def lv_def is_log_def is_rel_def is_add_def is_mul_def)
    then have r: "reads expand ?rest (eval_ast expand ?e) (logOf expand m (doPrimary expand m) (at expand (pr 1 ?e @ ?rest)))"
      using assms(2) ok(1) by (simp add: parses_def parserK_def del: pr.simps eval_ast.simps)
    have u: "doPrimary expand n (at expand (pr 5 ?e @ ls)) =
        bindF (logOf expand m (doPrimary expand m) (at expand (pr 1 ?e @ ?rest))) (\<lambda>(st, v).
              if nextToken st \<noteq> TOK_CLOSE_P then Some (ok (st, None))
              else next_or_null expand st (\<lambda>st. Some (ok (st, v))))"
      unfolding p Suc
      by (simp only: doPrimary.simps nextToken_at tok_at_Cons lex_tok.simps token.case next_at[OF ok(2)])
    have "reads expand ls (bindV (eval_ast expand ?e) (\<lambda>v. ok (Some v))) (doPrimary expand n (at expand (pr 5 ?e @ ls)))"
      unfolding u
    proof (rule reads_bindF[OF r])
      fix ls' assume l: "list_all lex_ok ls'"
      show "reads expand ls (ok None) (case (at expand ls', None) of (st, v) \<Rightarrow>
          if nextToken st \<noteq> TOK_CLOSE_P then Some (ok (st, None))
          else next_or_null expand st (\<lambda>st. Some (ok (st, v))))"
        using l by (cases ls') (auto simp: next_at tok_at_def)
    qed (use next_at[OF ls, of expand "LOp TOK_CLOSE_P"] in \<open>simp add: tok_at_def\<close>)
    then show ?thesis by (simp only: bindV_ok)
  qed simp
qed

lemma all_parse:
  assumes "wf_ast e"
  shows "(\<forall>k. 1 \<le> k \<and> k \<le> 5 \<longrightarrow> parses expand k e) \<and> (\<forall>k. 1 \<le> k \<and> k \<le> 4 \<longrightarrow> loops expand k e)"
proof -
  have spread: "\<forall>k. 1 \<le> k \<and> k \<le> 4 \<longrightarrow> parses expand k e \<and> loops expand k e"
    if "parses expand 5 e" "\<And>k. pr k e = pr (Suc k) e" for e
  proof (intro allI impI)
    fix k :: nat assume k: "1 \<le> k \<and> k \<le> 4"
    have "parses expand (Suc k) e" using k that by (intro parses_down[of "Suc k" 5]) simp_all
    then show "parses expand k e \<and> loops expand k e"
      using k that(2)[of k] by (simp add: parses_loops loops_parses)
  qed
  have five: "(\<forall>k. 1 \<le> k \<and> k \<le> 5 \<longrightarrow> parses expand k e) \<and> (\<forall>k. 1 \<le> k \<and> k \<le> 4 \<longrightarrow> loops expand k e)"
    if "parses expand 5 e" "\<And>k. pr k e = pr (Suc k) e" for e
  proof (intro conjI allI impI)
    fix k :: nat assume "1 \<le> k \<and> k \<le> 5"
    then have "k = 5 \<or> (1 \<le> k \<and> k \<le> 4)" by linarith
    then show "parses expand k e" using spread[OF that] that(1) by blast
  qed (use spread[OF that] in blast)
  show ?thesis
    using assms
  proof (induction e)
    case (ENum d)
    show ?case by (intro five parses_atom[where l = "LNum d"]) simp_all
  next
    case (EStr s)
    show ?case by (intro five parses_atom[where l = "LStr s"]) simp_all
  next
    case (EIdent s)
    show ?case by (intro five parses_atom[where l = "LIdent s"]) simp_all
  next
    case (ENeg e)
    show ?case by (rule five, rule parses_unary[where e' = e and t = TOK_MINUS]) (use ENeg in simp_all)
  next
    case (ENot e)
    show ?case by (rule five, rule parses_unary[where e' = e and t = TOK_NOT]) (use ENot in simp_all)
  next
    case (EBin t a b)
    let ?e = "EBin t a b" and ?l = "lv t"
    have l: "1 \<le> ?l" "?l \<le> 4" using EBin.prems lv_le[of t] by simp_all
    have same: "k \<noteq> ?l \<Longrightarrow> pr k ?e = pr (Suc k) ?e" for k
      by (auto simp: Let_def)
    have "loops expand ?l ?e"
      using EBin l by (intro bin_loops) simp_all
    then have at_l: "parses expand ?l ?e" by (rule loops_parses)
    have low: "parses expand k ?e" if "1 \<le> k" "k \<le> ?l" for k
      using that l same at_l by (intro parses_down[of k ?l]) simp_all
    have p5: "parses expand 5 ?e"
      using low[of 1] l EBin.prems by (intro parses_paren) simp_all
    have high: "parses expand k ?e" if "?l < k" "k \<le> 5" for k
      using that p5 same by (intro parses_down[of k 5]) simp_all
    have all: "parses expand k ?e" if "1 \<le> k" "k \<le> 5" for k
      using that low high by (cases "k \<le> ?l") simp_all
    have "loops expand k ?e" if "1 \<le> k" "k \<le> 4" for k
    proof (cases "k = ?l")
      case False
      then show ?thesis using that all[of "Suc k"] same by (intro parses_loops) simp_all
    qed (use \<open>loops expand ?l ?e\<close> in simp)
    then show ?case using all by blast
  qed
qed

lemma expr_value_pr:
  assumes "wf_ast e"
  shows "expr_value expand (unlex (pr 1 e)) = Some (eval_ast expand e)"
proof -
  let ?s = "unlex (pr 1 e)" and ?n = "length (unlex (pr 1 e)) + 2"
  have ok: "list_all lex_ok (pr 1 e)" by (rule pr_ok[OF assms])
  have "parses expand 1 e" using all_parse[OF assms, of expand] by simp
  then have r: "reads expand [] (eval_ast expand e) (doLogical expand ?n (at expand (pr 1 e @ [])))"
    unfolding parses_def
    by (elim allE[where x = ?n] allE[where x = "[]"])
      (simp add: parserK_def doLogical_def tok_at_def lv_def is_log_def is_rel_def is_add_def is_mul_def)
  have v: "expr_value expand ?s = bindF (doLogical expand ?n (at expand (pr 1 e))) (\<lambda>(st, v).
       case v of None \<Rightarrow> Some (ok None)
       | Some v \<Rightarrow> Some (ok (if nextToken st \<noteq> TOK_EOF then None else Some v)))"
    by (simp add: expr_value_def start_at[OF ok] del: One_nat_def)
  define x where "x = doLogical expand ?n (at expand (pr 1 e))"
  have "x \<noteq> None" using expr_value_total[of expand ?s] unfolding v x_def[symmetric] by (cases x) auto
  then show ?thesis
    using r unfolding v append_Nil2 x_def[symmetric]
    by (cases "eval_ast expand e" rule: sum.exhaust) (auto simp: reads_def tok_at_def split: option.splits)
qed

definition truth :: "Value option \<Rightarrow> int" where
  "truth v = (case v of None \<Rightarrow> -1 | Some (VInt i) \<Rightarrow> if i \<noteq> 0 then 1 else 0
                | Some (VStr s) \<Rightarrow> if s \<noteq> [] then 1 else 0)"

lemma parseExpressionBoolean_value:
  "parseExpressionBoolean expand expr = bindF (expr_value expand expr) (\<lambda>v. Some (ok (truth v)))"
  by (simp add: parseExpressionBoolean_def truth_def)

lemma bindF_not_None: "m \<noteq> None \<Longrightarrow> bindF m (\<lambda>v. Some (f v)) \<noteq> None"
  by (auto simp: bindF_def split: sum.split)

section \<open>Properties\<close>

text \<open>C36: Both entry points of the expression parser return on every input string, whatever text
  macro expansion returns: the recursion through parentheses, unary operators and operator loops ends,
  with a value, an error message or a fault.\<close>

theorem parseExpression_terminates:
  "parseExpressionBoolean expand expr \<noteq> None \<and> parseExpressionString expand expr \<noteq> None"
  unfolding parseExpressionBoolean_def parseExpressionString_def
  by (intro conjI bindF_not_None expr_value_total)

text \<open>C9: A printed expression is parsed to its value: with parentheses only where the precedence
  of the operators (logical, relational, additive, multiplicative, unary) and left associativity
  need them, \<open>parseExpressionBoolean\<close> returns the truth of the tree's value, -1 when its
  evaluation is an error, and has exactly the faults of its evaluation.\<close>

theorem parseExpressionBoolean_roundtrip:
  assumes "wf_ast e"
  shows "parseExpressionBoolean expand (unlex (pr 1 e)) =
    Some (andThen (eval_ast expand e) (\<lambda>v. ok (truth v)))"
  by (cases "eval_ast expand e") (simp_all add: parseExpressionBoolean_value expr_value_pr[OF assms] del: One_nat_def)

theorem parseExpressionBoolean_roundtrip_witness:
  "parseExpressionBoolean id ''( 1 + 2 ) * 3 == 9 && ! 0 '' = Some (ok 1)"
proof -
  let ?e = "EBin TOK_LOGICAL_AND
      (EBin TOK_EQ (EBin TOK_MULTIPLY (EBin TOK_ADD (ENum ''1'') (ENum ''2'')) (ENum ''3'')) (ENum ''9''))
      (ENot (ENum ''0''))"
  have "wf_ast ?e" by code_simp
  note r = parseExpressionBoolean_roundtrip[OF this, of id]
  have "unlex (pr 1 ?e) = ''( 1 + 2 ) * 3 == 9 && ! 0 ''" by code_simp
  moreover have "andThen (eval_ast id ?e) (\<lambda>v. ok (truth v)) = ok 1" by code_simp
  ultimately show ?thesis using r by simp
qed

text \<open>A division by zero is reached, not reported: whenever the operands of a quotient have
  integer values and the divisor is 0, both entry points divide by zero.\<close>

theorem parseExpression_division_by_zero:
  assumes "wf_ast (EBin TOK_DIVIDE a b)" "eval_ast expand a = ok (Some (VInt i))" "eval_ast expand b = ok (Some (VInt 0))"
  shows "parseExpressionBoolean expand (unlex (pr 1 (EBin TOK_DIVIDE a b))) = Some (Inl DivByZero) \<and>
    parseExpressionString expand (unlex (pr 1 (EBin TOK_DIVIDE a b))) = Some (Inl DivByZero)"
proof -
  have "apply_op (lv TOK_DIVIDE) TOK_DIVIDE (VInt i) (VInt 0) = Inl DivByZero"
    by (simp add: apply_op_def lv_def is_log_def is_rel_def is_add_def is_mul_def guardC_def)
  then have "eval_ast expand (EBin TOK_DIVIDE a b) = Inl DivByZero" using assms by simp
  note v = expr_value_pr[OF assms(1), of expand, unfolded this]
  show ?thesis unfolding parseExpressionBoolean_def parseExpressionString_def v by simp
qed

theorem parseExpression_division_by_zero_witness:
  "parseExpressionBoolean id ''7 / ( 2 - 2 ) '' = Some (Inl DivByZero)"
proof -
  let ?a = "ENum ''7''" and ?b = "EBin TOK_MINUS (ENum ''2'') (ENum ''2'')"
  have "wf_ast (EBin TOK_DIVIDE ?a ?b)" "eval_ast id ?a = ok (Some (VInt 7))" "eval_ast id ?b = ok (Some (VInt 0))"
    by code_simp+
  note r = parseExpression_division_by_zero[OF this]
  have "unlex (pr 1 (EBin TOK_DIVIDE ?a ?b)) = ''7 / ( 2 - 2 ) ''" by code_simp
  then show ?thesis using r by simp
qed

lemma unclosed_start:
  assumes "CHR 0x22 \<notin> set s" "int (length s) + 1 \<le> EXPRBUFSIZ"
  shows "expr_start expand (CHR 0x22 # s) =
    ok \<lparr>st_p = None, nextToken = TOK_STRING, tokenValue = Some (VStr (expand s))\<rparr>"
proof -
  have q: "\<not> xisspace (cval (CHR 0x22))" "\<not> expr_digit (CHR 0x22)" "\<not> xisalpha (cval (CHR 0x22))"
    by code_simp+
  have t: "takeWhile (\<lambda>c. c \<noteq> CHR 0x22) s = s" "dropWhile (\<lambda>c. c \<noteq> CHR 0x22) s = []"
    using assms(1) by (auto simp: takeWhile_eq_all_conv dropWhile_eq_Nil_conv)
  show ?thesis
    using q assms(2)
    by (simp add: expr_start_def rdToken_def rd_char_def rd_word_def t guardC_def emit_def)
qed

text \<open>A string literal that is not closed makes the scanner step over the terminating NUL:
  the next token is read outside the buffer.\<close>

theorem parseExpressionBoolean_unclosed_literal:
  assumes "CHR 0x22 \<notin> set s" "int (length s) + 1 \<le> EXPRBUFSIZ"
  shows "parseExpressionBoolean expand (CHR 0x22 # s) = Some (Inl OutOfBounds)"
  unfolding parseExpressionBoolean_def expr_value_def unclosed_start[OF assms]
  by (simp add: doLogical_def logOf_def relOf_def addOf_def mulOf_def level_def next_or_null_def rdToken_def)

theorem parseExpressionBoolean_unclosed_literal_witness:
  "parseExpressionBoolean id (CHR 0x22 # ''abc'') = Some (Inl OutOfBounds)"
  by (rule parseExpressionBoolean_unclosed_literal) code_simp+

end
