(* ===== verification/Hdr.thy ===== *)
theory Hdr
  imports Cmp
begin

text \<open>
  The header, the typed tag store of every package: \<open>rpmdb/header.c\<close> and the declarations of
  \<open>rpmdb/header_internal.h\<close>. This theory holds the model of the in-memory store: the entries,
  the search, adding, appending, modifying, removing and retrieving tags, and iteration.

  Memory is a string of bytes. A data pointer is null, an offset into the header's blob (the
  buffer the header was loaded from), or a buffer of its own; \<open>mem\<close> is what can be read from
  it, up to the end of its object. Numbers in header memory are in network byte order; the host
  is little-endian, so that the byte swapping of \<open>tagSwab\<close> reverses each element. A tag container
  \<open>HE\<close> points to memory, or to a vector of strings.
\<close>

section \<open>Bytes\<close>

definition be_val :: "string \<Rightarrow> nat" where
  "be_val bs = foldl (\<lambda>v c. v * 256 + of_char c) 0 bs"

fun be_bytes :: "nat \<Rightarrow> nat \<Rightarrow> string" where
  "be_bytes 0 v = []"
| "be_bytes (Suc k) v = be_bytes k (v div 256) @ [char_of (v mod 256)]"

text \<open>\<open>memcpy\<close> of \<open>n\<close> bytes at an offset, and \<open>ntohl\<close>, \<open>htonl\<close> of a 32-bit field.\<close>

definition rd_bytes :: "string \<Rightarrow> int \<Rightarrow> nat \<Rightarrow> string outcome" where
  "rd_bytes m off n =
     guardC OutOfBounds (0 \<le> off \<and> nat off + n \<le> length m) (ok (take n (drop (nat off) m)))"

definition ntohl_at :: "string \<Rightarrow> int \<Rightarrow> u32 outcome" where
  "ntohl_at m off = andThen (rd_bytes m off 4) (\<lambda>b. ok (of_nat (be_val b)))"

definition htonl :: "u32 \<Rightarrow> string" where
  "htonl w = be_bytes 4 (unat w)"

text \<open>The C string at the start of memory and what follows its terminator.\<close>

definition next_str :: "string \<Rightarrow> (string \<times> string) outcome" where
  "next_str m = (case dropWhile (\<lambda>c. c \<noteq> NUL) m of [] \<Rightarrow> Inl OutOfBounds
                 | _ # r \<Rightarrow> ok (takeWhile (\<lambda>c. c \<noteq> NUL) m, r))"

fun cut_strs :: "nat \<Rightarrow> string \<Rightarrow> string list outcome" where
  "cut_strs 0 m = ok []"
| "cut_strs (Suc n) m =
     andThen (next_str m) (\<lambda>(s, r). andThen (cut_strs n r) (\<lambda>ss. ok (s # ss)))"

definition cat_strs :: "string list \<Rightarrow> string" where
  "cat_strs ss = concat (map (\<lambda>s. s @ [NUL]) ss)"

section \<open>Types and checks\<close>

definition RPM_UINT8_TYPE :: u32 where "RPM_UINT8_TYPE = 2"
definition RPM_UINT16_TYPE :: u32 where "RPM_UINT16_TYPE = 3"
definition RPM_UINT32_TYPE :: u32 where "RPM_UINT32_TYPE = 4"
definition RPM_UINT64_TYPE :: u32 where "RPM_UINT64_TYPE = 5"
definition RPM_STRING_TYPE :: u32 where "RPM_STRING_TYPE = 6"
definition RPM_BIN_TYPE :: u32 where "RPM_BIN_TYPE = 7"
definition RPM_STRING_ARRAY_TYPE :: u32 where "RPM_STRING_ARRAY_TYPE = 8"
definition RPM_I18NSTRING_TYPE :: u32 where "RPM_I18NSTRING_TYPE = 9"

lemmas rpm_types = RPM_UINT8_TYPE_def RPM_UINT16_TYPE_def RPM_UINT32_TYPE_def RPM_UINT64_TYPE_def
  RPM_STRING_TYPE_def RPM_BIN_TYPE_def RPM_STRING_ARRAY_TYPE_def RPM_I18NSTRING_TYPE_def

definition HEADER_IMAGE :: u32 where "HEADER_IMAGE = 61"
definition HEADER_SIGNATURES :: u32 where "HEADER_SIGNATURES = 62"
definition HEADER_IMMUTABLE :: u32 where "HEADER_IMMUTABLE = 63"
definition HEADER_REGIONS :: u32 where "HEADER_REGIONS = 64"
definition HEADER_I18NTABLE :: u32 where "HEADER_I18NTABLE = 100"
definition HEADER_OLDFILENAMES :: u32 where "HEADER_OLDFILENAMES = 1027"
definition HEADER_BASENAMES :: u32 where "HEADER_BASENAMES = 1117"
definition REGION_TAG_TYPE :: u32 where "REGION_TAG_TYPE = RPM_BIN_TYPE"
definition REGION_TAG_COUNT :: nat where "REGION_TAG_COUNT = 16"
definition INDEX_MALLOC_SIZE :: nat where "INDEX_MALLOC_SIZE = 8"

definition typeSizes :: "int list" where
  "typeSizes = [0, 1, 1, 2, 4, 8, -1, 1, -1, -1, 0, 0, 0, 0, 0, 0]"

definition rpm_typeAlign :: "nat list" where
  "rpm_typeAlign = [1, 1, 1, 2, 4, 8, 1, 1, 1, 1, 0, 0, 0, 0, 0, 0]"

definition type_size :: "u32 \<Rightarrow> int outcome" where
  "type_size t = slot typeSizes (uint t)"

definition hdrchkTags :: "nat \<Rightarrow> bool" where
  "hdrchkTags n \<longleftrightarrow> n div 16777216 mod 256 \<noteq> 0"

definition hdrchkData :: "nat \<Rightarrow> bool" where
  "hdrchkData n \<longleftrightarrow> n div 1073741824 mod 4 \<noteq> 0"

definition hdrchkType :: "u32 \<Rightarrow> bool" where
  "hdrchkType t \<longleftrightarrow> t < 1 \<or> t > 9"

definition hdrchkAlign :: "u32 \<Rightarrow> nat \<Rightarrow> bool" where
  "hdrchkAlign t off \<longleftrightarrow> off mod rpm_typeAlign ! unat t \<noteq> 0"

section \<open>The store\<close>

datatype hptr = HNull | HBlob int | HHeap string

record indexEntry =
  e_tag :: u32
  e_type :: u32
  e_offset :: int
  e_count :: u32
  e_data :: hptr
  e_length :: nat
  e_rdlen :: nat

definition ENTRY_IS_REGION :: "indexEntry \<Rightarrow> bool" where
  "ENTRY_IS_REGION e \<longleftrightarrow> HEADER_IMAGE \<le> e_tag e \<and> e_tag e < HEADER_REGIONS"

definition ENTRY_IN_REGION :: "indexEntry \<Rightarrow> bool" where
  "ENTRY_IN_REGION e \<longleftrightarrow> e_offset e < 0"

text \<open>\<open>h_index\<close> is the used part of the array; \<open>h_blob\<close> is \<open>None\<close> for the null pointer.\<close>

record Header =
  h_magic :: string
  h_blob :: "string option"
  h_origin :: "string option"
  h_baseurl :: "string option"
  h_digest :: "string option"
  h_parent :: "string option"
  h_instance :: u32
  h_startoff :: u32
  h_endoff :: u32
  h_index :: "indexEntry list"
  h_alloced :: nat
  h_sorted :: bool
  h_allocated :: bool
  h_legacy :: bool
  h_mapped :: bool
  h_rdonly :: bool

datatype tagData = PNull | PMem string | PArgv "string list"

record HE =
  he_tag :: u32
  he_t :: u32
  he_p :: tagData
  he_c :: u32
  he_append :: bool
  he_freeData :: bool

definition he_zero :: HE where
  "he_zero = \<lparr>he_tag = 0, he_t = 0, he_p = PNull, he_c = 0, he_append = False, he_freeData = False\<rparr>"

definition header_magic :: string where
  "header_magic = map char_of [0x8e, 0xad, 0xe8, 0x01, 0, 0, 0, 0 :: nat]"

definition headerNew :: Header where
  "headerNew = \<lparr>h_magic = header_magic, h_blob = None, h_origin = None, h_baseurl = None, h_digest = None,
     h_parent = None, h_instance = 0, h_startoff = 0, h_endoff = 0, h_index = [],
     h_alloced = INDEX_MALLOC_SIZE, h_sorted = True, h_allocated = False, h_legacy = False,
     h_mapped = False, h_rdonly = False\<rparr>"

fun mem :: "Header \<Rightarrow> hptr \<Rightarrow> string outcome" where
  "mem h HNull = Inl NullDeref"
| "mem h (HBlob off) =
     (case h_blob h of None \<Rightarrow> Inl NullDeref
      | Some b \<Rightarrow> guardC OutOfBounds (0 \<le> off \<and> nat off \<le> length b) (ok (drop (nat off) b)))"
| "mem h (HHeap bs) = ok bs"

text \<open>The difference of the two tags, unsigned, read as an \<open>int\<close>.\<close>

definition tag_cmp :: "u32 \<Rightarrow> indexEntry \<Rightarrow> int" where
  "tag_cmp t e = sint (t - e_tag e)"

definition indexCmp :: "indexEntry \<Rightarrow> indexEntry \<Rightarrow> int" where
  "indexCmp a b = tag_cmp (e_tag a) b"

definition headerSort :: "Header \<Rightarrow> Header" where
  "headerSort h = (if h_sorted h then h else h\<lparr>h_index := qsort indexCmp (h_index h), h_sorted := True\<rparr>)"

text \<open>Only entries of a region have negative offsets, and their data is in the blob.\<close>

fun ptr_diff :: "hptr \<Rightarrow> hptr \<Rightarrow> int" where
  "ptr_diff (HBlob a) (HBlob b) = a - b"
| "ptr_diff p q = 0"

definition in_blob :: "hptr \<Rightarrow> bool" where
  "in_blob p = (case p of HBlob off \<Rightarrow> True | _ \<Rightarrow> False)"

definition offsetCmp :: "indexEntry \<Rightarrow> indexEntry \<Rightarrow> int" where
  "offsetCmp a b =
     (let rc = e_offset a - e_offset b in
      if rc = 0 then (if e_offset a < 0 then ptr_diff (e_data a) (e_data b) else indexCmp a b) else rc)"

definition headerUnsort :: "Header \<Rightarrow> Header outcome" where
  "headerUnsort h =
     guardC OutOfBounds (\<forall>e\<in>set (h_index h). e_offset e < 0 \<longrightarrow> in_blob (e_data e))
       (ok (h\<lparr>h_index := qsort offsetCmp (h_index h)\<rparr>))"

section \<open>Tag data\<close>

text \<open>The string loops of \<open>dataLength\<close>. With an end pointer, \<open>lim\<close> is its distance from \<open>s\<close>;
  the loop gives up when \<open>s\<close> is past it, which it finds out after reading the byte there.\<close>

definition past_end :: "int option \<Rightarrow> int \<Rightarrow> bool" where
  "past_end lim n = (case lim of None \<Rightarrow> False | Some k \<Rightarrow> n > k)"

fun str_len :: "int option \<Rightarrow> string \<Rightarrow> nat \<Rightarrow> (nat \<times> string \<times> int option) option outcome" where
  "str_len lim [] n = Inl OutOfBounds"
| "str_len lim (c # m) n =
     (let lim' = map_option (\<lambda>k. k - 1) lim in
      if c = NUL then ok (Some (Suc n, m, lim'))
      else if past_end lim' 0 then ok None
      else str_len lim' m (Suc n))"

fun strs_len :: "nat \<Rightarrow> int option \<Rightarrow> string \<Rightarrow> nat \<Rightarrow> nat outcome" where
  "strs_len 0 lim m n = ok n"
| "strs_len (Suc k) lim m n =
     andThen (str_len lim m n) (\<lambda>r.
       case r of None \<Rightarrow> ok 0 | Some (n, m, lim) \<Rightarrow> strs_len k lim m n)"

definition mem_of :: "tagData \<Rightarrow> string outcome" where
  "mem_of p = (case p of PMem m \<Rightarrow> ok m | _ \<Rightarrow> Inl NullDeref)"

definition argv_of :: "tagData \<Rightarrow> nat \<Rightarrow> string list outcome" where
  "argv_of p n = (case p of PArgv av \<Rightarrow> guardC OutOfBounds (n \<le> length av) (ok (take n av)) | _ \<Rightarrow> Inl NullDeref)"

definition dataLength :: "u32 \<Rightarrow> tagData \<Rightarrow> u32 \<Rightarrow> bool \<Rightarrow> int option \<Rightarrow> nat outcome" where
  "dataLength t p cnt onDisk lim =
     (if t = RPM_STRING_TYPE then
        (if cnt \<noteq> 1 then ok 0
         else andThen (mem_of p) (\<lambda>m. strs_len 1 lim m 0))
      else if t = RPM_I18NSTRING_TYPE \<or> t = RPM_STRING_ARRAY_TYPE then
        (if onDisk then andThen (mem_of p) (\<lambda>m. strs_len (unat cnt) lim m 0)
         else andThen (argv_of p (unat cnt)) (\<lambda>av. ok (length (cat_strs av))))
      else
        andThen (type_size t) (\<lambda>ts.
          if ts = -1 then ok 0
          else let len = unat (word_of_int ts * cnt) in
               ok (if past_end lim (int len) then 0 else len)))"

text \<open>Reversal of the bytes of each of \<open>c\<close> elements of \<open>k\<close> bytes.\<close>

fun swab :: "nat \<Rightarrow> nat \<Rightarrow> string \<Rightarrow> string" where
  "swab k 0 m = []"
| "swab k (Suc c) m = rev (take k m) @ swab k c (drop k m)"

text \<open>The elements of a 64-bit tag are swapped by halves through \<open>tt\<close>, a pointer to 32-bit values,
  whose size is also the one in the assertion.\<close>

definition tagSwab :: "HE \<Rightarrow> nat \<Rightarrow> string outcome" where
  "tagSwab he nb =
     (let c = unat (he_c he);
          sw = (\<lambda>sz k. guardC AssertFail (nb = c * sz)
                  (andThen (if c = 0 then ok [] else mem_of (he_p he)) (\<lambda>m.
                   guardC OutOfBounds (c * k \<le> length m) (guardC BufferOverflow (c * k \<le> nb) (ok (swab k c m))))))
      in if he_t he = RPM_UINT64_TYPE then sw 4 8
         else if he_t he = RPM_UINT32_TYPE then sw 4 4
         else if he_t he = RPM_UINT16_TYPE then sw 2 2
         else guardC AssertFail (he_p he \<noteq> PNull)
                (if nb = 0 then ok [] else andThen (mem_of (he_p he)) (\<lambda>m. rd_bytes m 0 nb)))"

definition rpmheRealloc :: "HE \<Rightarrow> (HE \<times> bool) outcome" where
  "rpmheRealloc he =
     (let t = he_t he; c = unat (he_c he) in
      guardC AssertFail (1 \<le> t \<and> t \<le> 9)
       (let he = (if t = RPM_BIN_TYPE then he\<lparr>he_freeData := True\<rparr> else he) in
        andThen
          (if t = RPM_BIN_TYPE \<or> t = 1 \<or> t = RPM_UINT8_TYPE then ok (c, True)
           else if t = RPM_UINT16_TYPE then ok (c * 2, True)
           else if t = RPM_UINT32_TYPE then ok (c * 4, True)
           else if t = RPM_UINT64_TYPE then ok (c * 8, True)
           else if t = RPM_STRING_TYPE then
             (if he_p he = PNull then ok (0, False)
              else andThen (mem_of (he_p he)) (\<lambda>m. andThen (next_str m) (\<lambda>(s, r). ok (length s + 1, True))))
           else ok (0, True))
          (\<lambda>(nb, rc).
            andThen (if he_p he \<noteq> PNull \<and> nb \<noteq> 0 \<and> \<not> he_freeData he
                     then andThen (tagSwab he nb) (\<lambda>m. ok (he\<lparr>he_p := PMem m\<rparr>)) else ok he)
              (\<lambda>he. ok (if rc then he\<lparr>he_freeData := True\<rparr> else he, rc)))))"

text \<open>\<open>copyData\<close>: the strings of a vector with their terminators (the count of remaining bytes is not
  reduced by a terminator), or the swapped data. \<open>copy_str\<close> is the inner loop.\<close>

fun copy_str :: "string \<Rightarrow> nat \<Rightarrow> string \<times> nat" where
  "copy_str [] nb = ([NUL], nb)"
| "copy_str (c # s) nb =
     (if nb - 1 = 0 then ([c], 0) else (let (t, nb) = copy_str s (nb - 1) in (c # t, nb)))"

fun copy_strs :: "string list \<Rightarrow> nat \<Rightarrow> string" where
  "copy_strs [] nb = []"
| "copy_strs (s # ss) nb = (if nb = 0 then [] else let (t, nb) = copy_str s nb in t @ copy_strs ss nb)"

definition copyData :: "HE \<Rightarrow> nat \<Rightarrow> string outcome" where
  "copyData he nb =
     (if he_t he = RPM_I18NSTRING_TYPE \<or> he_t he = RPM_STRING_ARRAY_TYPE then
        andThen (argv_of (he_p he) (unat (he_c he))) (\<lambda>av.
          guardC BufferOverflow (length (copy_strs av nb) \<le> nb) (ok (copy_strs av nb)))
      else tagSwab he nb)"

definition grabData :: "HE \<Rightarrow> (string \<times> nat) option outcome" where
  "grabData he =
     andThen (dataLength (he_t he) (he_p he) (he_c he) False None) (\<lambda>nb.
       if nb = 0 then ok None else andThen (copyData he nb) (\<lambda>t. ok (Some (t, nb))))"

section \<open>Finding entries\<close>

text \<open>
  \<open>findEntry\<close> sorts, then searches the tag. With a type, it walks backwards from the hit; the
  forward walk that follows can only read (up to the slot after the last entry), since the test
  after it looks at the pointer of the backward walk again.
\<close>

fun back_walk :: "indexEntry list \<Rightarrow> u32 \<Rightarrow> u32 \<Rightarrow> nat \<Rightarrow> nat" where
  "back_walk es tag t 0 = 0"
| "back_walk es tag t (Suc i) =
     (if e_tag (es ! Suc i) = tag \<and> e_type (es ! Suc i) \<noteq> t then back_walk es tag t i else Suc i)"

definition fwd_walk_ok :: "Header \<Rightarrow> u32 \<Rightarrow> u32 \<Rightarrow> nat \<Rightarrow> bool" where
  "fwd_walk_ok h tag t i \<longleftrightarrow>
     (\<exists>e\<in>set (drop i (h_index h)). \<not> (e_tag e = tag \<and> e_type e \<noteq> t)) \<or> length (h_index h) < h_alloced h"

definition findEntry :: "Header \<Rightarrow> u32 \<Rightarrow> u32 \<Rightarrow> (Header \<times> nat option) outcome" where
  "findEntry h tag t =
     (let h = headerSort h; es = h_index h in
      case bsearch tag_cmp tag es of
        None \<Rightarrow> ok (h, None)
      | Some i \<Rightarrow>
          if t = 0 then ok (h, Some i)
          else
            let j = back_walk es tag t i in
            if e_tag (es ! j) = tag \<and> e_type (es ! j) = t then ok (h, Some j)
            else guardC OutOfBounds (fwd_walk_ok h tag t i) (ok (h, None)))"

definition headerIsEntry :: "Header \<Rightarrow> u32 \<Rightarrow> (Header \<times> bool) outcome" where
  "headerIsEntry h tag = andThen (findEntry h tag 0) (\<lambda>(h, i). ok (h, i \<noteq> None))"

text \<open>\<open>while (entry > h->index && (entry - 1)->info.tag == tag) entry--;\<close>\<close>

fun first_of :: "indexEntry list \<Rightarrow> u32 \<Rightarrow> nat \<Rightarrow> nat" where
  "first_of es tag 0 = 0"
| "first_of es tag (Suc i) = (if e_tag (es ! i) = tag then first_of es tag i else Suc i)"

text \<open>The result is 0 when an entry was removed, 1 otherwise.\<close>

definition headerRemoveEntry :: "Header \<Rightarrow> u32 \<Rightarrow> (Header \<times> int) outcome" where
  "headerRemoveEntry h tag =
     andThen (findEntry h tag 0) (\<lambda>(h, r).
       case r of None \<Rightarrow> ok (h, 1)
       | Some i \<Rightarrow>
           let es = h_index h; i = first_of es tag i in
           ok (h\<lparr>h_index := take i es @ dropWhile (\<lambda>e. e_tag e = tag) (drop i es)\<rparr>, 0))"

section \<open>Retrieving\<close>

text \<open>
  The data of a region tag is the region itself, as a header of its own: the two counts in front of
  the entries are read through the entry pointer. For the image tag the first entry is left out, but
  not from the size of the buffer, so that the last 16 bytes of the result are not initialised.
\<close>

definition copy_region :: "Header \<Rightarrow> indexEntry \<Rightarrow> (tagData \<times> u32) outcome" where
  "copy_region h e =
     (case e_data e of HBlob off \<Rightarrow>
        andThen (nonnull (h_blob h)) (\<lambda>b.
        andThen (ntohl_at b (off - 8)) (\<lambda>il.
        guardC AssertFail (e_offset e \<le> 0)
          (let dataStart = off + 16 * uint il;
               ril = (word_of_int (- e_offset e) :: u32) div 16;
               rdl = (of_nat (e_rdlen e) :: u32);
               cnt = 8 + ril * 16 + rdl;
               image = (e_tag e = HEADER_IMAGE);
               cnt = (if image then cnt else cnt + 16);
               rdl = (if image then rdl else rdl + 16);
               ril = (if image then ril - 1 else ril);
               off = (if image then off + 16 else off) in
           andThen (rd_bytes b off (unat ril * 16)) (\<lambda>pe.
           andThen (rd_bytes b dataStart (unat rdl)) (\<lambda>d.
           guardC BufferOverflow (8 + unat ril * 16 + unat rdl \<le> unat cnt)
             (ok (PMem (htonl ril @ htonl rdl @ pe @ d), cnt)))))))
      | HHeap m \<Rightarrow> Inl OutOfBounds
      | HNull \<Rightarrow> Inl NullDeref)"

definition copy_argv :: "Header \<Rightarrow> indexEntry \<Rightarrow> tagData outcome" where
  "copy_argv h e =
     andThen (mem h (e_data e)) (\<lambda>m. andThen (rd_bytes m 0 (e_length e)) (\<lambda>t.
     andThen (cut_strs (unat (e_count e)) t) (\<lambda>av. ok (PArgv av))))"

text \<open>\<open>copyEntry\<close> with \<open>minMem\<close> 0, which is how it is called.\<close>

definition copyEntry :: "Header \<Rightarrow> indexEntry \<Rightarrow> HE \<Rightarrow> HE outcome" where
  "copyEntry h e he =
     andThen
       (if e_type e = RPM_BIN_TYPE then
          (if ENTRY_IS_REGION e then copy_region h e
           else andThen (mem h (e_data e)) (\<lambda>m. andThen (rd_bytes m 0 (unat (of_nat (e_length e) :: u32))) (\<lambda>t.
                ok (PMem t, of_nat (e_length e)))))
        else if e_type e = RPM_STRING_TYPE \<and> e_count e = 1 then
          andThen (mem h (e_data e)) (\<lambda>m. ok (PMem m, 1))
        else if e_type e = RPM_STRING_TYPE \<or> e_type e = RPM_I18NSTRING_TYPE \<or> e_type e = RPM_STRING_ARRAY_TYPE then
          andThen (copy_argv h e) (\<lambda>p. ok (p, e_count e))
        else andThen (mem h (e_data e)) (\<lambda>m. ok (PMem m, e_count e)))
       (\<lambda>(p, c). ok (he\<lparr>he_p := p, he_t := e_type e, he_c := c\<rparr>))"

text \<open>Locales: 1 is a match, 2 a weak one (the country code stripped), 0 none. The locale is \<open>[l, le)\<close>.\<close>

definition strip_match :: "string \<Rightarrow> string \<Rightarrow> char \<Rightarrow> bool" where
  "strip_match td l c \<longleftrightarrow>
     c \<in> set l \<and> strncmp td l (length (takeWhile (\<lambda>x. x \<noteq> c) l)) = 0"

definition headerMatchLocale :: "string \<Rightarrow> string \<Rightarrow> int" where
  "headerMatchLocale td l =
     (if length td = length l \<and> strncmp td l (length l) = 0 then 1
      else if strip_match td l (CHR ''@'') then 1
      else if strip_match td l (CHR ''.'') then 1
      else if strip_match td l (CHR ''_'') then 2
      else 0)"

text \<open>The loop over the strings of an entry, in step with the locale table.\<close>

fun i18n_loop :: "nat \<Rightarrow> string \<Rightarrow> string \<Rightarrow> string \<Rightarrow> string option \<Rightarrow> string option outcome" where
  "i18n_loop 0 l td ed weak = ok weak"
| "i18n_loop (Suc n) l td ed weak =
     andThen (next_str td) (\<lambda>(s, td').
       let m = headerMatchLocale s l in
       if m = 1 then ok (Some ed)
       else andThen (next_str ed) (\<lambda>(u, ed').
         i18n_loop n l td' ed' (if m = 2 then Some ed else weak)))"

function lang_loop :: "nat \<Rightarrow> string \<Rightarrow> string \<Rightarrow> string \<Rightarrow> string option outcome" where
  "lang_loop n lang td ed =
     (case dropWhile (\<lambda>c. c = CHR '':'') lang of [] \<Rightarrow> ok None
      | c # l \<Rightarrow>
          andThen (i18n_loop n (takeWhile (\<lambda>c. c \<noteq> CHR '':'') (c # l)) td ed None) (\<lambda>r.
            case r of Some m \<Rightarrow> ok (Some m)
            | None \<Rightarrow> lang_loop n (dropWhile (\<lambda>c. c \<noteq> CHR '':'') (c # l)) td ed))"
  by pat_completeness auto
termination
proof (relation "measure (\<lambda>(n, lang, td, ed). length lang)", simp, goal_cases)
  case (1 n lang td ed c l x)
  have "c \<noteq> CHR '':''" using 1(1) dropWhile_hd by fastforce
  then have "length (dropWhile (\<lambda>c. c \<noteq> CHR '':'') (c # l)) \<le> length l"
    by (simp add: length_dropWhile_le)
  moreover have "length (c # l) \<le> length lang" using 1(1) by (metis length_dropWhile_le)
  ultimately show ?case by simp
qed

declare lang_loop.simps [simp del]

text \<open>\<open>lang\<close> is the first of the environment variables that is set.\<close>

definition headerFindI18NString :: "string option \<Rightarrow> Header \<Rightarrow> indexEntry \<Rightarrow> (Header \<times> string) outcome" where
  "headerFindI18NString lang h e =
     andThen (mem h (e_data e)) (\<lambda>ed.
       case lang of None \<Rightarrow> ok (h, ed)
       | Some lang \<Rightarrow>
           andThen (findEntry h HEADER_I18NTABLE RPM_STRING_ARRAY_TYPE) (\<lambda>(h, r).
             case r of None \<Rightarrow> ok (h, ed)
             | Some i \<Rightarrow>
                 andThen (mem h (e_data (h_index h ! i))) (\<lambda>td.
                 andThen (lang_loop (unat (e_count e)) lang td ed) (\<lambda>m.
                   ok (h, case m of Some ed' \<Rightarrow> ed' | None \<Rightarrow> ed)))))"

definition intGetEntry :: "string option \<Rightarrow> Header \<Rightarrow> HE \<Rightarrow> bool \<Rightarrow> (Header \<times> HE \<times> bool) outcome" where
  "intGetEntry lang h he noi18n =
     andThen (findEntry h (he_tag he) 0) (\<lambda>(h, r).
       case r of None \<Rightarrow> ok (h, he\<lparr>he_t := 0, he_p := PNull, he_c := 0\<rparr>, False)
       | Some i \<Rightarrow>
           let e = h_index h ! i in
           if e_type e = RPM_I18NSTRING_TYPE \<and> \<not> noi18n then
             andThen (headerFindI18NString lang h e) (\<lambda>(h, m).
               ok (h, he\<lparr>he_t := RPM_STRING_TYPE, he_c := 1, he_p := PMem m\<rparr>, True))
           else andThen (copyEntry h e he) (\<lambda>he. ok (h, he, True)))"

section \<open>Adding and changing\<close>

definition headerAddEntry :: "Header \<Rightarrow> HE \<Rightarrow> (Header \<times> bool) outcome" where
  "headerAddEntry h he =
     (if he_c he = 0 \<or> hdrchkType (he_t he) \<or> hdrchkData (unat (he_c he)) then ok (h, False)
      else andThen (grabData he) (\<lambda>r.
        case r of None \<Rightarrow> ok (h, False)
        | Some (d, len) \<Rightarrow>
            let es = h_index h;
                e = \<lparr>e_tag = he_tag he, e_type = he_t he, e_offset = 0, e_count = he_c he,
                     e_data = HHeap d, e_length = len, e_rdlen = 0\<rparr> in
            ok (h\<lparr>h_alloced := (if length es = h_alloced h then h_alloced h + INDEX_MALLOC_SIZE else h_alloced h),
                  h_sorted := (h_sorted h \<and> \<not> (es \<noteq> [] \<and> he_tag he < e_tag (last es))),
                  h_index := es @ [e]\<rparr>, True)))"

text \<open>The memory of an entry of which \<open>length\<close> bytes are kept when it grows.\<close>

definition kept :: "Header \<Rightarrow> indexEntry \<Rightarrow> string outcome" where
  "kept h e = andThen (mem h (e_data e)) (\<lambda>m. rd_bytes m 0 (e_length e))"

definition grown :: "indexEntry \<Rightarrow> string \<Rightarrow> nat \<Rightarrow> indexEntry" where
  "grown e m len = e\<lparr>e_data := HHeap m, e_length := e_length e + len,
                 e_offset := (if ENTRY_IN_REGION e then 0 else e_offset e)\<rparr>"

definition headerAppendEntry :: "Header \<Rightarrow> HE \<Rightarrow> (Header \<times> bool) outcome" where
  "headerAppendEntry h he =
     (if he_t he = RPM_STRING_TYPE \<or> he_t he = RPM_I18NSTRING_TYPE then ok (h, False)
      else andThen (findEntry h (he_tag he) (he_t he)) (\<lambda>(h, r).
        case r of None \<Rightarrow> ok (h, False)
        | Some i \<Rightarrow>
            let e = h_index h ! i in
            andThen (dataLength (he_t he) (he_p he) (he_c he) False None) (\<lambda>len.
              if len = 0 then ok (h, False)
              else andThen (kept h e) (\<lambda>old. andThen (copyData he len) (\<lambda>new.
                ok (h\<lparr>h_index := (h_index h)[i := (grown e (old @ new) len)\<lparr>e_count := e_count e + he_c he\<rparr>]\<rparr>, True))))))"

definition headerAddOrAppendEntry :: "Header \<Rightarrow> HE \<Rightarrow> (Header \<times> bool) outcome" where
  "headerAddOrAppendEntry h he =
     andThen (findEntry h (he_tag he) (he_t he)) (\<lambda>(h, r).
       if r \<noteq> None then headerAppendEntry h he else headerAddEntry h he)"

definition headerModifyEntry :: "Header \<Rightarrow> HE \<Rightarrow> (Header \<times> bool) outcome" where
  "headerModifyEntry h he =
     andThen (findEntry h (he_tag he) (he_t he)) (\<lambda>(h, r).
       case r of None \<Rightarrow> ok (h, False)
       | Some i \<Rightarrow>
           andThen (grabData he) (\<lambda>g.
             case g of None \<Rightarrow> ok (h, False)
             | Some (d, len) \<Rightarrow>
                 let es = h_index h; i = first_of es (he_tag he) i; e = es ! i in
                 ok (h\<lparr>h_index := es[i := e\<lparr>e_count := he_c he, e_type := he_t he, e_data := HHeap d,
                          e_length := len, e_offset := (if ENTRY_IN_REGION e then 0 else e_offset e)\<rparr>]\<rparr>, True)))"

section \<open>The interface\<close>

text \<open>
  \<open>exts\<close> is the table of header extensions: a function for the tags that one overrides, which
  returns the container and success. Tag names are only used to look it up.
\<close>

type_synonym extensions = "u32 \<Rightarrow> (Header \<Rightarrow> HE \<Rightarrow> HE \<times> bool) option"

definition headerGet ::
    "extensions \<Rightarrow> string option \<Rightarrow> Header \<Rightarrow> HE \<Rightarrow> bool \<Rightarrow> bool \<Rightarrow> (Header \<times> HE \<times> bool) outcome" where
  "headerGet exts lang h he noext noi18n =
     (let he = he_zero\<lparr>he_tag := he_tag he\<rparr> in
      andThen (case (if noext then None else exts (he_tag he)) of
                 Some f \<Rightarrow> (let (he, rc) = f h he in ok (h, he, rc))
               | None \<Rightarrow> intGetEntry lang h he noi18n)
        (\<lambda>(h, he, rc).
          if rc then andThen (rpmheRealloc he) (\<lambda>(he, rc). ok (h, he, rc)) else ok (h, he, False)))"

definition headerPut :: "Header \<Rightarrow> HE \<Rightarrow> (Header \<times> bool) outcome" where
  "headerPut h he = (if he_append he then headerAddOrAppendEntry h he else headerAddEntry h he)"

definition headerDel :: "Header \<Rightarrow> HE \<Rightarrow> (Header \<times> int) outcome" where
  "headerDel h he = headerRemoveEntry h (he_tag he)"

definition headerMod :: "Header \<Rightarrow> HE \<Rightarrow> (Header \<times> bool) outcome" where
  "headerMod h he = headerModifyEntry h he"

text \<open>An iterator is the header and the index of the next entry.\<close>

definition headerInit :: "Header \<Rightarrow> Header \<times> nat" where
  "headerInit h = (headerSort h, 0)"

definition headerNext :: "Header \<times> nat \<Rightarrow> ((Header \<times> nat) \<times> HE \<times> bool) outcome" where
  "headerNext hi =
     (let (h, next) = hi;
          skip = takeWhile ENTRY_IS_REGION (drop next (h_index h));
          i = next + length skip in
      if i \<ge> length (h_index h) then ok ((h, i), he_zero, False)
      else let e = h_index h ! i in
        andThen (copyEntry h e (he_zero\<lparr>he_tag := e_tag e\<rparr>)) (\<lambda>he.
        andThen (rpmheRealloc he) (\<lambda>(he, rc). ok ((h, Suc i), he, rc))))"

text \<open>Copying the tags of a list (terminated by 0) that the target does not have.\<close>

fun headerCopyTags ::
    "extensions \<Rightarrow> string option \<Rightarrow> Header \<Rightarrow> Header \<Rightarrow> u32 list \<Rightarrow> (Header \<times> Header) outcome" where
  "headerCopyTags exts lang from to [] = ok (from, to)"
| "headerCopyTags exts lang from to (tag # tags) =
     andThen (headerIsEntry to tag) (\<lambda>(to, there).
       if there then headerCopyTags exts lang from to tags
       else andThen (headerGet exts lang from (he_zero\<lparr>he_tag := tag\<rparr>) False False) (\<lambda>(from, he, rc).
         if \<not> rc then headerCopyTags exts lang from to tags
         else andThen (headerPut to he) (\<lambda>(to, xx). headerCopyTags exts lang from to tags)))"

section \<open>Annotations\<close>

text \<open>What a header is annotated with: null headers are allowed, a null string only where the code tests
  for it (\<open>xstrdup\<close> reads it otherwise).\<close>

definition headerGetMagic :: "Header option \<Rightarrow> string" where
  "headerGetMagic h = (case h of Some h \<Rightarrow> h_magic h | None \<Rightarrow> header_magic)"

definition headerSetMagic :: "Header option \<Rightarrow> string \<Rightarrow> nat \<Rightarrow> Header option outcome" where
  "headerSetMagic h magic nmagic =
     (let n = min nmagic 8 in
      case h of None \<Rightarrow> ok None
      | Some h \<Rightarrow> andThen (rd_bytes magic 0 n) (\<lambda>m. ok (Some (h\<lparr>h_magic := m @ replicate (8 - n) NUL\<rparr>))))"

definition headerGetOrigin :: "Header option \<Rightarrow> string option" where
  "headerGetOrigin h = (case h of Some h \<Rightarrow> h_origin h | None \<Rightarrow> None)"

definition headerSetOrigin :: "Header option \<Rightarrow> string option \<Rightarrow> Header option outcome" where
  "headerSetOrigin h s =
     (case h of None \<Rightarrow> ok None | Some h \<Rightarrow> andThen (nonnull s) (\<lambda>s. ok (Some (h\<lparr>h_origin := Some s\<rparr>))))"

definition headerGetParent :: "Header option \<Rightarrow> string option" where
  "headerGetParent h = (case h of Some h \<Rightarrow> h_parent h | None \<Rightarrow> None)"

definition headerSetParent :: "Header option \<Rightarrow> string option \<Rightarrow> Header option outcome" where
  "headerSetParent h s =
     (case h of None \<Rightarrow> ok None | Some h \<Rightarrow> andThen (nonnull s) (\<lambda>s. ok (Some (h\<lparr>h_parent := Some s\<rparr>))))"

definition headerGetBaseURL :: "Header option \<Rightarrow> string option" where
  "headerGetBaseURL h = (case h of Some h \<Rightarrow> h_baseurl h | None \<Rightarrow> None)"

definition headerSetBaseURL :: "Header option \<Rightarrow> string option \<Rightarrow> Header option outcome" where
  "headerSetBaseURL h s =
     (case h of None \<Rightarrow> ok None | Some h \<Rightarrow> andThen (nonnull s) (\<lambda>s. ok (Some (h\<lparr>h_baseurl := Some s\<rparr>))))"

definition headerGetDigest :: "Header option \<Rightarrow> string option" where
  "headerGetDigest h = (case h of Some h \<Rightarrow> h_digest h | None \<Rightarrow> None)"

definition headerSetDigest :: "Header option \<Rightarrow> string option \<Rightarrow> Header option" where
  "headerSetDigest h s = map_option (\<lambda>h. h\<lparr>h_digest := s\<rparr>) h"

definition headerGetInstance :: "Header option \<Rightarrow> u32" where
  "headerGetInstance h = (case h of Some h \<Rightarrow> h_instance h | None \<Rightarrow> 0)"

definition headerSetInstance :: "Header option \<Rightarrow> u32 \<Rightarrow> Header option \<times> u32" where
  "headerSetInstance h i =
     (case h of None \<Rightarrow> (None, 0) | Some h \<Rightarrow> (Some (h\<lparr>h_instance := i\<rparr>), h_instance h))"

definition headerGetStartOff :: "Header option \<Rightarrow> u32" where
  "headerGetStartOff h = (case h of Some h \<Rightarrow> h_startoff h | None \<Rightarrow> 0)"

definition headerSetStartOff :: "Header option \<Rightarrow> u32 \<Rightarrow> Header option" where
  "headerSetStartOff h n = map_option (\<lambda>h. h\<lparr>h_startoff := n\<rparr>) h"

definition headerGetEndOff :: "Header option \<Rightarrow> u32" where
  "headerGetEndOff h = (case h of Some h \<Rightarrow> h_endoff h | None \<Rightarrow> 0)"

definition headerSetEndOff :: "Header option \<Rightarrow> u32 \<Rightarrow> Header option" where
  "headerSetEndOff h n = map_option (\<lambda>h. h\<lparr>h_endoff := n\<rparr>) h"

end
