(* ===== verification/HdrIO.thy ===== *)
theory HdrIO
  imports Hdr
begin

text \<open>
  The on-disk form of a header (\<open>rpmdb/header.c\<close>, \<open>rpmdb/header_internal.c\<close>): two counts, an array
  of 16-byte entries, and the data, all in network byte order. \<open>headerLoad\<close> checks and indexes such
  a blob, whose data stays in place; \<open>headerUnload\<close> writes one. A region is a run of entries sealed
  by a region tag, whose trailer is the last part of its data; the entries of a loaded region have its
  (negative) offset, entries added to it by a later writer (dribbles) that offset plus one, and
  entries added in memory (drips) the offset 0.
\<close>

section \<open>Sizes\<close>

text \<open>The bytes needed to align a size for a type.\<close>

definition align_diff :: "u32 \<Rightarrow> nat \<Rightarrow> nat outcome" where
  "align_diff t n =
     andThen (type_size t) (\<lambda>ts.
       ok (if ts > 1 \<and> n mod nat ts \<noteq> 0 then nat ts - n mod nat ts else 0))"

fun sizeof_loop :: "bool \<Rightarrow> bool \<Rightarrow> indexEntry list \<Rightarrow> nat \<Rightarrow> nat outcome" where
  "sizeof_loop legacy first [] n = ok n"
| "sizeof_loop legacy first (e # es) n =
     (if ENTRY_IS_REGION e then
        sizeof_loop legacy False es (n + e_length e + (if first \<and> legacy then 16 + unat (e_count e) else 0))
      else if e_offset e < 0 then sizeof_loop legacy False es n
      else andThen (align_diff (e_type e) n) (\<lambda>d. sizeof_loop legacy False es (n + d + 16 + e_length e)))"

definition headerSizeof :: "Header option \<Rightarrow> (Header option \<times> nat) outcome" where
  "headerSizeof h =
     (case h of None \<Rightarrow> ok (None, 0)
      | Some h \<Rightarrow> let h = headerSort h in
          andThen (sizeof_loop (h_legacy h) True (h_index h) (8 + 2 * 4)) (\<lambda>n. ok (Some h, n)))"

section \<open>Loading\<close>

record entryInfo =
  i_tag :: u32
  i_type :: u32
  i_offset :: u32
  i_count :: u32

definition rd_info :: "string \<Rightarrow> int \<Rightarrow> entryInfo outcome" where
  "rd_info b off =
     andThen (ntohl_at b off) (\<lambda>tag. andThen (ntohl_at b (off + 4)) (\<lambda>t.
     andThen (ntohl_at b (off + 8)) (\<lambda>o'. andThen (ntohl_at b (off + 12)) (\<lambda>c.
     ok \<lparr>i_tag = tag, i_type = t, i_offset = o', i_count = c\<rparr>))))"

text \<open>
  \<open>regionSwab\<close> over \<open>il\<close> entries at byte \<open>pe\<close> of the blob, into an array with room for \<open>cap\<close> more
  entries. The data is \<open>[dataStart, dataEnd)\<close>. The result is 0 for an error, else the size of the data;
  the second sum that the code keeps in \<open>tl\<close> is not part of it.
\<close>

fun regionSwab ::
    "string \<Rightarrow> nat \<Rightarrow> nat \<Rightarrow> u32 \<Rightarrow> int \<Rightarrow> int \<Rightarrow> int \<Rightarrow> int \<Rightarrow> indexEntry list \<Rightarrow> (indexEntry list \<times> u32) outcome" where
  "regionSwab b cap 0 dl pe dataStart dataEnd regionid acc = ok (rev acc, dl)"
| "regionSwab b cap (Suc il) dl pe dataStart dataEnd regionid acc =
     andThen (rd_info b pe) (\<lambda>i.
     guardC AssertFail (0 \<le> sint (i_offset i))
      (let off = unat (i_offset i); t = dataStart + int off in
       if hdrchkType (i_type i) \<or> hdrchkData (unat (i_count i)) \<or> hdrchkData off \<or> hdrchkAlign (i_type i) off
       then ok (rev acc, 0)
       else if t \<ge> dataEnd then ok (rev acc, 0)
       else
         andThen
           (if il > 0 then andThen (ntohl_at b (pe + 16 + 8)) (\<lambda>next. ok (unat (next - i_offset i)))
            else andThen (rd_bytes b t (nat (int (length b) - t))) (\<lambda>m.
                   dataLength (i_type i) (PMem m) (i_count i) True (Some (dataEnd - t))))
           (\<lambda>len.
             if len = 0 \<or> hdrchkData len then ok (rev acc, 0)
             else
               guardC BufferOverflow (length acc < cap)
                (let e = \<lparr>e_tag = i_tag i, e_type = i_type i, e_offset = regionid, e_count = i_count i,
                          e_data = HBlob t, e_length = len, e_rdlen = 0\<rparr> in
                 andThen (align_diff (i_type i) (unat dl)) (\<lambda>d.
                 let dl = dl + of_nat d + of_nat len in
                 if dataStart + uint dl > dataEnd then ok (rev (e # acc), 0)
                 else regionSwab b cap il dl (pe + 16) dataStart dataEnd regionid (e # acc))))))"

text \<open>
  Dribbles replace region entries of the same tag: the entries in front of them are searched (the
  header is marked as sorted while they are) and the match removed.
\<close>

fun drop_dups :: "Header \<Rightarrow> indexEntry list \<Rightarrow> Header outcome" where
  "drop_dups h [] = ok h"
| "drop_dups h (e # es) =
     andThen (headerRemoveEntry h (e_tag e)) (\<lambda>(h, xx).
     andThen (if e_tag e = HEADER_BASENAMES then headerRemoveEntry h HEADER_OLDFILENAMES else ok (h, 0)) (\<lambda>(h, xx).
       drop_dups h es))"

definition load_header :: "string \<Rightarrow> nat \<Rightarrow> nat \<Rightarrow> Header" where
  "load_header b il dl =
     headerNew\<lparr>h_blob := Some b, h_endoff := of_nat (8 + 16 * il + dl), h_alloced := il + 1\<rparr>"

text \<open>A header without a region tag at its start is indexed as one legacy region.\<close>

definition load_legacy :: "string \<Rightarrow> nat \<Rightarrow> nat \<Rightarrow> Header option outcome" where
  "load_legacy b il dl =
     (let dataStart = 8 + 16 * int il; rid = - (16 * int il) in
      andThen (regionSwab b il il 0 8 dataStart (dataStart + int dl) rid []) (\<lambda>(es, rdlen).
        let region = \<lparr>e_tag = HEADER_IMAGE, e_type = REGION_TAG_TYPE, e_offset = rid,
              e_count = of_nat REGION_TAG_COUNT, e_data = HBlob 8, e_length = 16 * il + dl,
              e_rdlen = unat rdlen\<rparr>;
            blank = \<lparr>e_tag = 0, e_type = 0, e_offset = 0, e_count = 0, e_data = HNull, e_length = 0, e_rdlen = 0\<rparr> in
        ok (Some (headerSort ((load_header b il dl)\<lparr>h_legacy := True, h_sorted := False,
              h_index := region # es @ replicate (il - length es) blank\<rparr>)))))"

text \<open>The extent of a sealed region: from its trailer, or the whole index when the offset is 0.\<close>

definition region_extent :: "string \<Rightarrow> nat \<Rightarrow> entryInfo \<Rightarrow> (u32 \<times> u32 \<times> u32) option outcome" where
  "region_extent b il i =
     (if i_offset i \<noteq> 0 then
        andThen (rd_bytes b (8 + 16 * int il + uint (i_offset i)) REGION_TAG_COUNT) (\<lambda>stei.
        andThen (ntohl_at stei 8) (\<lambda>x.
          let rdl = - x in
          guardC AssertFail (0 \<le> sint rdl)
           (let ril = rdl div 16 in
            ok (if hdrchkTags (unat ril) \<or> hdrchkData (unat rdl) then None else Some (rdl, ril, i_tag i)))))
      else ok (Some (of_nat (16 * il), of_nat il, HEADER_IMAGE)))"

definition load_sealed :: "string \<Rightarrow> nat \<Rightarrow> nat \<Rightarrow> entryInfo \<Rightarrow> Header option outcome" where
  "load_sealed b il dl i =
     (let dataStart = 8 + 16 * int il; dataEnd = dataStart + int dl in
      if hdrchkType (i_type i) \<or> hdrchkTags (unat (i_count i)) \<or> hdrchkData (unat (i_offset i)) then ok None
      else andThen (region_extent b il i) (\<lambda>x.
        case x of None \<Rightarrow> ok None
        | Some (rdl, ril, tag) \<Rightarrow>
            let rid = - sint rdl in
            andThen (regionSwab b il (unat (ril - 1)) 0 (8 + 16) dataStart dataEnd rid []) (\<lambda>(es, rdlen).
              if rdlen = 0 then ok None
              else
                let region = \<lparr>e_tag = tag, e_type = i_type i, e_offset = rid, e_count = i_count i,
                      e_data = HBlob 8, e_length = 16 * il + dl, e_rdlen = unat rdlen\<rparr>;
                    h = (load_header b il dl)\<lparr>h_legacy := False, h_index := take il (region # es)\<rparr> in
                if unat ril < il then
                  andThen (regionSwab b (il - unat ril) (il - unat ril) 0 (8 + 16 * uint ril) dataStart dataEnd (rid + 1) [])
                    (\<lambda>(ds, rc). if rc = 0 then ok None
                      else andThen (drop_dups h ds) (\<lambda>h.
                        ok (Some (headerSort (h\<lparr>h_index := h_index h @ ds, h_sorted := False\<rparr>)))))
                else ok (Some (headerSort (h\<lparr>h_sorted := False\<rparr>))))))"

definition headerLoad :: "string \<Rightarrow> Header option outcome" where
  "headerLoad b =
     andThen (ntohl_at b 0) (\<lambda>il. andThen (ntohl_at b 4) (\<lambda>dl.
       if hdrchkTags (unat il) \<or> hdrchkData (unat dl) then ok None
       else andThen (ntohl_at b 8) (\<lambda>tag.
         if tag \<ge> HEADER_I18NTABLE then load_legacy b (unat il) (unat dl)
         else andThen (rd_info b 8) (load_sealed b (unat il) (unat dl)))))"

section \<open>Unloading\<close>

text \<open>
  The first pass counts the entries and the bytes, those deleted inside a region included. \<open>us_il\<close> and
  \<open>us_dl\<close> are the 32-bit counters, \<open>us_drlen\<close> and \<open>us_ndribbles\<close> the size and number of the dribbles.
\<close>

record unloadSizes =
  us_il :: u32
  us_dl :: u32
  us_drlen :: nat
  us_ndribbles :: nat

definition size_entry :: "bool \<Rightarrow> indexEntry \<Rightarrow> unloadSizes \<Rightarrow> unloadSizes outcome" where
  "size_entry dribble e s =
     andThen (align_diff (e_type e) (unat (us_dl s))) (\<lambda>d.
       ok (s\<lparr>us_il := us_il s + 1, us_dl := us_dl s + of_nat d + of_nat (e_length e),
             us_drlen := us_drlen s + (if dribble then d + e_length e else 0),
             us_ndribbles := us_ndribbles s + (if dribble then 1 else 0)\<rparr>))"

fun size_dribbles :: "int \<Rightarrow> indexEntry list \<Rightarrow> unloadSizes \<Rightarrow> unloadSizes outcome" where
  "size_dribbles rid [] s = ok s"
| "size_dribbles rid (e # es) s =
     (if e_offset e \<le> rid then size_dribbles rid es s
      else andThen (size_entry True e s) (size_dribbles rid es))"

definition deleted :: "indexEntry \<Rightarrow> bool" where
  "deleted e \<longleftrightarrow> e_data e = HNull \<or> e_length e = 0"

function unload_sizes :: "bool \<Rightarrow> bool \<Rightarrow> indexEntry list \<Rightarrow> unloadSizes \<Rightarrow> unloadSizes outcome" where
  "unload_sizes legacy first [] s = ok s"
| "unload_sizes legacy first (e # es) s =
     (if ENTRY_IS_REGION e then
        guardC AssertFail (e_offset e \<le> 0)
         (let rid = e_offset e;
              ril = (word_of_int (- rid) :: u32) div 16;
              s = s\<lparr>us_il := us_il s + ril + (if first \<and> legacy then 1 else 0),
                    us_dl := us_dl s + of_nat (e_rdlen e) + e_count e\<rparr>;
              inr = (\<lambda>x. e_offset x \<le> rid + 1) in
          andThen (size_dribbles rid (takeWhile inr (e # es)) s)
            (unload_sizes legacy False (dropWhile inr es)))
      else if deleted e then unload_sizes legacy False es s
      else andThen (size_entry False e s) (unload_sizes legacy False es))"
  by pat_completeness auto
termination
  by (relation "measure (\<lambda>(l, f, es, s). length es)") (auto simp: less_Suc_eq_le length_dropWhile_le)

text \<open>
  The second pass writes the entries (\<open>pes\<close>) and the data (\<open>te\<close>). A dribble entry of a legacy region
  is not written, only skipped (its place is filled with NULs here); such a buffer is not returned,
  because its data is too short.
\<close>

definition wr_info :: "u32 \<Rightarrow> u32 \<Rightarrow> u32 \<Rightarrow> u32 \<Rightarrow> string" where
  "wr_info tag t off cnt = htonl tag @ htonl t @ htonl off @ htonl cnt"

definition unload_region ::
    "Header \<Rightarrow> bool \<Rightarrow> unloadSizes \<Rightarrow> indexEntry \<Rightarrow> string \<Rightarrow> string \<Rightarrow> (string \<times> string) outcome" where
  "unload_region h legacy s e pes te =
     guardC AssertFail (e_offset e \<le> 0)
      (let rdl = (word_of_int (- e_offset e) :: u32); ril = rdl div 16 + of_nat (us_ndribbles s) in
       andThen (mem h (e_data e)) (\<lambda>src.
       if legacy then
         andThen (rd_bytes src 0 (unat rdl)) (\<lambda>pe.
         andThen (rd_bytes src (uint rdl) (e_rdlen e)) (\<lambda>d.
           let off = of_nat (length te + e_rdlen e);
               stei = wr_info (e_tag e) (e_type e) (- rdl - e_count e) (e_count e) in
           andThen (rd_bytes stei 0 (unat (e_count e))) (\<lambda>trailer.
             ok (pes @ wr_info (e_tag e) (e_type e) off (e_count e) @ pe
                     @ replicate (16 * unat (ril + 1) - 16 - unat rdl) NUL,
                 te @ d @ trailer))))
       else
         andThen (rd_bytes src 16 (unat (ril - 1) * 16)) (\<lambda>pe.
         andThen (rd_bytes src (16 * uint ril) (e_rdlen e + unat (e_count e) + us_drlen s)) (\<lambda>d.
         andThen (ntohl_at src 8) (\<lambda>off.
           let off = (if off \<noteq> 0 then of_nat (length te + e_rdlen e) else 0) in
           ok (pes @ wr_info (e_tag e) (e_type e) off (e_count e) @ pe, te @ d))))))"

function unload_write ::
    "Header \<Rightarrow> unloadSizes \<Rightarrow> bool \<Rightarrow> indexEntry list \<Rightarrow> string \<Rightarrow> string \<Rightarrow> (string \<times> string) outcome" where
  "unload_write h s first [] pes te = ok (pes, te)"
| "unload_write h s first (e # es) pes te =
     (if deleted e then unload_write h s False es pes te
      else if ENTRY_IS_REGION e then
        andThen (unload_region h (first \<and> h_legacy h) s e pes te) (\<lambda>(pes, te).
          unload_write h s False (dropWhile (\<lambda>x. e_offset x \<le> e_offset e + 1) es) pes te)
      else
        andThen (align_diff (e_type e) (length te)) (\<lambda>d.
        andThen (kept h e) (\<lambda>m.
          let off = length te + d in
          unload_write h s False es
            (pes @ wr_info (e_tag e) (e_type e) (of_nat off) (e_count e))
            (te @ replicate d NUL @ m))))"
  by pat_completeness auto
termination
  by (relation "measure (\<lambda>(h, s, f, es, pes, te). length es)") (auto simp: less_Suc_eq_le length_dropWhile_le)

definition headerUnload :: "Header \<Rightarrow> (Header \<times> string option) outcome" where
  "headerUnload h =
     andThen (headerUnsort h) (\<lambda>h.
     andThen (unload_sizes (h_legacy h) True (h_index h) \<lparr>us_il = 0, us_dl = 0, us_drlen = 0, us_ndribbles = 0\<rparr>) (\<lambda>s.
       let il = unat (us_il s); dl = unat (us_dl s) in
       if hdrchkTags il \<or> hdrchkData dl then ok (h, None)
       else
         andThen (unload_write h s True (h_index h) [] []) (\<lambda>(pes, te).
         guardC BufferOverflow (8 + length pes \<le> 8 + il * 16 + dl \<and> 8 + il * 16 + length te \<le> 8 + il * 16 + dl)
           (if length pes \<noteq> il * 16 \<or> length te \<noteq> dl then ok (h, None)
            else ok (headerSort (h\<lparr>h_sorted := False\<rparr>), Some (htonl (us_il s) @ htonl (us_dl s) @ pes @ te))))))"

section \<open>Reloading and copying\<close>

text \<open>\<open>tag\<close> names the region that the reloaded entries form.\<close>

definition headerReload :: "Header \<Rightarrow> u32 \<Rightarrow> Header option outcome" where
  "headerReload h tag =
     andThen (headerUnload h) (\<lambda>(h', uh).
       case uh of None \<Rightarrow> ok None
       | Some b \<Rightarrow> andThen (headerLoad b) (\<lambda>nh.
           case nh of None \<Rightarrow> ok None
           | Some nh \<Rightarrow>
               let es = (case h_index nh of [] \<Rightarrow> []
                         | e # es \<Rightarrow> (if ENTRY_IS_REGION e \<and> (tag = HEADER_SIGNATURES \<or> tag = HEADER_IMMUTABLE)
                                     then e\<lparr>e_tag := tag\<rparr> else e) # es) in
               ok (Some (nh\<lparr>h_mapped := False, h_rdonly := False, h_allocated := True, h_index := es,
                     h_origin := h_origin h, h_parent := h_parent h, h_baseurl := h_baseurl h,
                     h_digest := h_digest h, h_instance := h_instance h\<rparr>))))"

definition headerMaxbytes :: nat where "headerMaxbytes = 1024 * 1024 * 1024"

definition headerMap :: "string \<Rightarrow> bool \<Rightarrow> Header option outcome" where
  "headerMap uh mapped =
     andThen (ntohl_at uh 0) (\<lambda>il. andThen (ntohl_at uh 4) (\<lambda>dl.
       let pvlen = 8 + 16 * unat il + unat dl in
       if hdrchkTags (unat il) \<or> hdrchkData (unat dl) \<or> pvlen \<ge> headerMaxbytes then ok None
       else andThen (rd_bytes uh 0 pvlen) (\<lambda>nuh. andThen (headerLoad nuh) (\<lambda>nh.
         ok (map_option (\<lambda>h. if mapped then h\<lparr>h_mapped := True, h_rdonly := True\<rparr> else h\<lparr>h_allocated := True\<rparr>) nh)))))"

definition headerCopyLoad :: "string \<Rightarrow> Header option outcome" where
  "headerCopyLoad uh = headerMap uh True"

text \<open>The loop over the tags of a header, adding each to a new one.\<close>

function copy_loop :: "Header \<times> nat \<Rightarrow> Header \<Rightarrow> Header outcome" where
  "copy_loop hi nh =
     (if snd hi < length (h_index (fst hi)) then
        andThen (headerNext hi) (\<lambda>(hi', he, rc).
          if \<not> rc then ok nh
          else andThen (if he_p he \<noteq> PNull then headerAddEntry nh he else ok (nh, False)) (\<lambda>(nh, xx).
            if snd hi < snd hi' \<and> fst hi' = fst hi then copy_loop hi' nh else ok nh))
      else ok nh)"
  by pat_completeness auto
termination
  by (relation "measure (\<lambda>(hi, nh). length (h_index (fst hi)) - snd hi)") auto

declare copy_loop.simps [simp del]

definition headerCopy :: "Header \<Rightarrow> Header option outcome" where
  "headerCopy h = andThen (copy_loop (headerInit h) headerNew) (\<lambda>nh. headerReload nh HEADER_IMAGE)"

section \<open>Checking a raw index\<close>

text \<open>\<open>headerVerifyInfo\<close>: the index of the first bad entry and its contents, or -1 and the last one.\<close>

definition info_offset :: "bool \<Rightarrow> entryInfo \<Rightarrow> int" where
  "info_offset negate i = (if negate then sint (- i_offset i) else sint (i_offset i))"

definition info_bad :: "u32 \<Rightarrow> bool \<Rightarrow> entryInfo \<Rightarrow> bool" where
  "info_bad dl negate i \<longleftrightarrow>
     (let t = (if i_tag i = 1029 \<and> i_type i = 1 then RPM_UINT8_TYPE else i_type i); off = info_offset negate i in
      hdrchkType t \<or> hdrchkAlign t (unat (if negate then - i_offset i else i_offset i)) \<or>
      (\<not> negate \<and> (off < 0 \<or> off > sint dl)) \<or> hdrchkData (unat (i_count i)))"

fun headerVerifyInfo :: "u32 \<Rightarrow> bool \<Rightarrow> string \<Rightarrow> nat \<Rightarrow> nat \<Rightarrow> int outcome" where
  "headerVerifyInfo dl negate pev k 0 = ok (-1)"
| "headerVerifyInfo dl negate pev k (Suc il) =
     andThen (rd_info pev (16 * int k)) (\<lambda>i.
     guardC AssertFail (negate \<or> 0 \<le> sint (i_offset i))
       (if info_bad dl negate i then ok (int k) else headerVerifyInfo dl negate pev (Suc k) il))"

end
