(* ===== verification/HdrProps.thy ===== *)
theory HdrProps
  imports HdrIO
begin

text \<open>
  The facts about the header store that its properties rest on: byte order, strings in memory, the
  order of the index (the comparison of tags meets the contract \<open>comparator\<close> on tags below 2^31),
  and what each kind of data looks like after it was stored and retrieved.
\<close>

section \<open>Byte order\<close>

lemma be_val_snoc: "be_val (bs @ [c]) = be_val bs * 256 + of_char c"
  by (simp add: be_val_def)

lemma be_bytes_val: "v < 256 ^ k \<Longrightarrow> be_val (be_bytes k v) = v"
proof (induction k arbitrary: v)
  case (Suc k)
  then have "v div 256 < 256 ^ k" by (simp add: less_mult_imp_div_less mult.commute)
  then show ?case using Suc.IH by (simp add: be_val_snoc)
qed (simp add: be_val_def)

lemma length_be_bytes [simp]: "length (be_bytes k v) = k"
  by (induction k arbitrary: v) simp_all

lemma length_htonl [simp]: "length (htonl w) = 4"
  by (simp add: htonl_def)

lemma be_val_htonl [simp]: "be_val (htonl w) = unat w"
  using unsigned_less[of w, where 'a = nat] by (simp add: htonl_def be_bytes_val)

lemma rd_bytes_ok: "rd_bytes m (int off) n = (if off + n \<le> length m then ok (take n (drop off m)) else Inl OutOfBounds)"
  by (simp add: rd_bytes_def guardC_def)

lemma rd_bytes_mid: "length p = off \<Longrightarrow> length x = n \<Longrightarrow> rd_bytes (p @ x @ s) (int off) n = ok x"
  by (simp add: rd_bytes_ok)

lemma ntohl_at_mid: "length p = off \<Longrightarrow> ntohl_at (p @ htonl w @ s) (int off) = ok w"
  by (simp add: ntohl_at_def rd_bytes_mid)

lemma length_swab: "c * k \<le> length m \<Longrightarrow> length (swab k c m) = c * k"
  by (induction k c m rule: swab.induct) auto

lemma swab_swab: "c * k \<le> length m \<Longrightarrow> swab k c (swab k c m) = take (c * k) m"
proof (induction k c m rule: swab.induct)
  case (2 k c m)
  then have k: "k \<le> length m" and r: "c * k \<le> length (drop k m)" by auto
  have "take k (rev (take k m) @ x) = rev (take k m)" "drop k (rev (take k m) @ x) = x" for x
    using k by simp_all
  then show ?case using "2.IH"[OF r] k by (simp add: take_add min_def)
qed simp

lemma swab_take: "c * k \<le> n \<Longrightarrow> n \<le> length m \<Longrightarrow> swab k c (take n m) = swab k c m"
proof (induction k c m arbitrary: n rule: swab.induct)
  case (2 k c m)
  then have "swab k c (drop k (take n m)) = swab k c (take (n - k) (drop k m))" by (simp add: drop_take)
  then show ?case using 2 by (simp add: min_def)
qed simp

section \<open>Strings in memory\<close>

lemma next_str_app: "NUL \<notin> set s \<Longrightarrow> next_str (s @ NUL # r) = ok (s, r)"
proof -
  assume "NUL \<notin> set s"
  then have "takeWhile (\<lambda>c. c \<noteq> NUL) (s @ NUL # r) = s" "dropWhile (\<lambda>c. c \<noteq> NUL) (s @ NUL # r) = NUL # r"
    by (induction s) auto
  then show ?thesis by (simp add: next_str_def)
qed

lemma cat_strs_simps [simp]: "cat_strs [] = []" "cat_strs (s # ss) = s @ NUL # cat_strs ss"
  by (simp_all add: cat_strs_def)

lemma cut_cat: "\<forall>s\<in>set ss. NUL \<notin> set s \<Longrightarrow> cut_strs (length ss) (cat_strs ss @ r) = ok ss"
  by (induction ss) (simp_all add: next_str_app)

lemma str_len_app: "NUL \<notin> set s \<Longrightarrow> (\<forall>k. lim = Some k \<longrightarrow> int (length s) \<le> k) \<Longrightarrow>
    str_len lim (s @ NUL # r) n = ok (Some (n + length s + 1, r, map_option (\<lambda>k. k - int (length s) - 1) lim))"
proof (induction s arbitrary: lim n)
  case (Cons c s)
  have "\<not> past_end (map_option (\<lambda>k. k - 1) lim) 0" using Cons.prems(2) by (cases lim) (auto simp: past_end_def)
  moreover have "\<forall>k. map_option (\<lambda>k. k - 1) lim = Some k \<longrightarrow> int (length s) \<le> k"
    using Cons.prems(2) by (cases lim) auto
  ultimately show ?case
    using Cons.prems(1) Cons.IH[of "map_option (\<lambda>k. k - 1) lim" "Suc n"]
    by (cases lim) (auto simp: Let_def algebra_simps)
qed (cases lim; simp add: Let_def)

lemma strs_len_cat: "\<forall>s\<in>set ss. NUL \<notin> set s \<Longrightarrow> (\<forall>k. lim = Some k \<longrightarrow> int (length (cat_strs ss)) \<le> k) \<Longrightarrow>
    strs_len (length ss) lim (cat_strs ss @ r) n = ok (n + length (cat_strs ss))"
proof (induction ss arbitrary: lim n)
  case (Cons s ss)
  have a: "\<forall>k. lim = Some k \<longrightarrow> int (length s) \<le> k" using Cons.prems(2) by auto
  have b: "\<forall>k. map_option (\<lambda>k. k - int (length s) - 1) lim = Some k \<longrightarrow> int (length (cat_strs ss)) \<le> k"
    using Cons.prems(2) by (cases lim) auto
  show ?case using Cons.prems(1) Cons.IH[OF _ b] str_len_app[OF _ a] by (simp add: algebra_simps)
qed simp

lemma copy_str_all: "length s < nb \<Longrightarrow> copy_str s nb = (s @ [NUL], nb - length s)"
  by (induction s nb rule: copy_str.induct) auto

lemma copy_strs_all: "length (cat_strs ss) \<le> nb \<Longrightarrow> copy_strs ss nb = cat_strs ss"
proof (induction ss arbitrary: nb)
  case (Cons s ss)
  then have "length s < nb" "length (cat_strs ss) \<le> nb - length s" by auto
  then show ?case using Cons.IH by (simp add: copy_str_all)
qed simp

section \<open>The order of the index\<close>

definition small_tag :: "u32 \<Rightarrow> bool" where
  "small_tag t \<longleftrightarrow> t < 2 ^ 31"

lemma tag_cmp_diff: "small_tag t \<Longrightarrow> small_tag (e_tag e) \<Longrightarrow> tag_cmp t e = uint t - uint (e_tag e)"
proof -
  assume a: "small_tag t" "small_tag (e_tag e)"
  have b: "uint t < 2 ^ 31" "uint (e_tag e) < 2 ^ 31"
    using a by (simp_all add: small_tag_def word_less_def)
  have w: "t - e_tag e = word_of_int (uint t - uint (e_tag e))" by simp
  have "sint (t - e_tag e) = signed_take_bit 31 (uint t - uint (e_tag e))"
    by (subst w, subst sint_sbintrunc') simp
  also have "\<dots> = uint t - uint (e_tag e)"
  proof (rule signed_take_bit_int_eq_self)
    have "0 \<le> uint t" "0 \<le> uint (e_tag e)" by simp_all
    then show "- (2 ^ 31) \<le> uint t - uint (e_tag e)" "uint t - uint (e_tag e) < 2 ^ 31" using b by linarith+
  qed
  finally show ?thesis by (simp add: tag_cmp_def)
qed

lemma indexCmp_diff: "small_tag (e_tag a) \<Longrightarrow> small_tag (e_tag b) \<Longrightarrow> indexCmp a b = uint (e_tag a) - uint (e_tag b)"
  by (simp add: indexCmp_def tag_cmp_diff)

interpretation idx: comparator indexCmp "\<lambda>e. small_tag (e_tag e)"
  by unfold_locales (auto simp: indexCmp_diff)

text \<open>The invariant of a header: small tags, an array that is large enough, and a sorted index
  where the flag says so.\<close>

definition hdr_inv :: "Header \<Rightarrow> bool" where
  "hdr_inv h \<longleftrightarrow> (\<forall>e\<in>set (h_index h). small_tag (e_tag e)) \<and> length (h_index h) \<le> h_alloced h \<and>
     (h_sorted h \<longrightarrow> idx.ordered (h_index h))"

definition tags :: "Header \<Rightarrow> u32 set" where
  "tags h = e_tag ` set (h_index h)"

lemma headerSort_facts [simp]:
  "mset (h_index (headerSort h)) = mset (h_index h)"
  "set (h_index (headerSort h)) = set (h_index h)"
  "length (h_index (headerSort h)) = length (h_index h)"
  "tags (headerSort h) = tags h"
  "h_sorted (headerSort h)"
  "h_alloced (headerSort h) = h_alloced h"
  "h_blob (headerSort h) = h_blob h"
  "h_legacy (headerSort h) = h_legacy h"
  by (simp_all add: headerSort_def tags_def)

lemma headerSort_inv: "hdr_inv h \<Longrightarrow> hdr_inv (headerSort h)"
  by (auto simp: hdr_inv_def headerSort_def intro: idx.ordered_qsort)

lemma mem_headerSort [simp]: "mem (headerSort h) p = mem h p"
  by (cases p) simp_all

definition key_entry :: "u32 \<Rightarrow> indexEntry" where
  "key_entry t = \<lparr>e_tag = t, e_type = 0, e_offset = 0, e_count = 0, e_data = HNull, e_length = 0, e_rdlen = 0\<rparr>"

lemma bsearch_tag: "bsearch tag_cmp t es = bsearch indexCmp (key_entry t) es"
  by (rule bsearch_cong) (simp_all add: indexCmp_def key_entry_def)

lemma findEntry_any:
  assumes "hdr_inv h" "small_tag t"
  shows "(t \<notin> tags h \<and> findEntry h t 0 = ok (headerSort h, None)) \<or>
    (\<exists>i. findEntry h t 0 = ok (headerSort h, Some i) \<and> i < length (h_index h) \<and> e_tag (h_index (headerSort h) ! i) = t)"
proof -
  let ?es = "h_index (headerSort h)"
  have inv: "hdr_inv (headerSort h)" by (rule headerSort_inv[OF assms(1)])
  have dom: "\<forall>x\<in>set ?es. small_tag (e_tag x)" using inv by (simp add: hdr_inv_def)
  have key: "small_tag (e_tag (key_entry t))" using assms(2) by (simp add: key_entry_def)
  have ord: "idx.ordered ?es" using inv by (simp add: hdr_inv_def)
  have z: "indexCmp (key_entry t) x = 0 \<longleftrightarrow> e_tag x = t" if "x \<in> set ?es" for x
    using that dom key by (auto simp: indexCmp_diff key_entry_def word_uint_eq_iff)
  show ?thesis
  proof (cases "bsearch tag_cmp t ?es")
    case None
    then have "\<not> (\<exists>x\<in>set ?es. indexCmp (key_entry t) x = 0)"
      using idx.bsearch_finds[OF dom key ord] bsearch_tag[of t ?es] by simp
    then have "t \<notin> tags h" using z by (auto simp: tags_def)
    then show ?thesis using None by (simp add: findEntry_def Let_def)
  next
    case (Some i)
    then have "i < length ?es \<and> indexCmp (key_entry t) (?es ! i) = 0" using bsearch_Some bsearch_tag by metis
    then have "i < length (h_index h) \<and> e_tag (?es ! i) = t" using z[of "?es ! i"] nth_mem[of i ?es] by simp
    then show ?thesis using Some by (simp add: findEntry_def Let_def)
  qed
qed

text \<open>Where a tag has one entry, that entry is found.\<close>

lemma findEntry_unique:
  assumes "hdr_inv h" "small_tag (e_tag e)" "e \<in> set (h_index h)" "\<forall>x\<in>set (h_index h). e_tag x = e_tag e \<longrightarrow> x = e"
  obtains i where "findEntry h (e_tag e) 0 = ok (headerSort h, Some i)" "h_index (headerSort h) ! i = e"
proof -
  have "e_tag e \<in> tags h" using assms(3) by (simp add: tags_def)
  then obtain i where i: "findEntry h (e_tag e) 0 = ok (headerSort h, Some i)" "i < length (h_index h)"
      "e_tag (h_index (headerSort h) ! i) = e_tag e"
    using findEntry_any[OF assms(1,2)] by auto
  have "h_index (headerSort h) ! i \<in> set (h_index h)"
    using i(2) nth_mem[of i "h_index (headerSort h)"] by simp
  then show ?thesis using that i assms(4) by blast
qed

section \<open>What is stored\<close>

text \<open>
  The specification of the data of a tag: \<open>wire\<close> is the form in which a header holds the value of a
  container (network byte order, strings with their terminators), where the container is valid for
  its type and count; \<open>value_of\<close> is the value without what lies behind it in memory. A 64-bit value
  has no wire form: the code aborts on it.
\<close>

definition num_size :: "u32 \<Rightarrow> nat" where
  "num_size t = (if t = RPM_UINT16_TYPE then 2 else if t = RPM_UINT32_TYPE then 4 else 1)"

definition numeric :: "u32 \<Rightarrow> bool" where
  "numeric t \<longleftrightarrow> t \<in> {1, RPM_UINT8_TYPE, RPM_UINT16_TYPE, RPM_UINT32_TYPE, RPM_BIN_TYPE}"

definition is_argv :: "u32 \<Rightarrow> bool" where
  "is_argv t \<longleftrightarrow> t \<in> {RPM_STRING_ARRAY_TYPE, RPM_I18NSTRING_TYPE}"

definition wire :: "u32 \<Rightarrow> u32 \<Rightarrow> tagData \<Rightarrow> string option" where
  "wire t c p =
     (case p of
        PMem m \<Rightarrow>
          if numeric t then (if unat c * num_size t \<le> length m then Some (swab (num_size t) (unat c) m) else None)
          else if t = RPM_STRING_TYPE \<and> c = 1 \<and> NUL \<in> set m then Some (takeWhile (\<lambda>x. x \<noteq> NUL) m @ [NUL])
          else None
      | PArgv av \<Rightarrow>
          if is_argv t \<and> unat c \<le> length av \<and> (\<forall>s\<in>set (take (unat c) av). NUL \<notin> set s)
          then Some (cat_strs (take (unat c) av)) else None
      | PNull \<Rightarrow> None)"

definition value_of :: "u32 \<Rightarrow> u32 \<Rightarrow> tagData \<Rightarrow> tagData" where
  "value_of t c p =
     (case p of
        PMem m \<Rightarrow> if numeric t then PMem (take (unat c * num_size t) m)
                  else PMem (takeWhile (\<lambda>x. x \<noteq> NUL) m @ [NUL])
      | PArgv av \<Rightarrow> PArgv (take (unat c) av)
      | PNull \<Rightarrow> PNull)"

definition count_ok :: "u32 \<Rightarrow> bool" where
  "count_ok c \<longleftrightarrow> c \<noteq> 0 \<and> \<not> hdrchkData (unat c)"

lemma count_ok_bounds: "count_ok c \<Longrightarrow> 0 < unat c \<and> unat c < 2 ^ 30"
proof -
  assume a: "count_ok c"
  then have "unat c div 1073741824 mod 4 = 0" "0 < unat c"
    by (auto simp: count_ok_def hdrchkData_def word_gt_0 intro!: unat_gt_0[THEN iffD2])
  moreover have "unat c < 4294967296" using unsigned_less[of c, where 'a = nat] by simp
  ultimately show ?thesis by auto
qed

lemma unat_mult_size: "unat c < 2 ^ 30 \<Longrightarrow> ts \<in> {1, 2, 4} \<Longrightarrow> unat (word_of_int ts * c :: u32) = unat c * nat ts"
  by (auto simp: unat_word_ariths mult.commute)

lemma type_size_num:
  "numeric t \<Longrightarrow> type_size t = ok (int (num_size t))"
  by (auto simp: numeric_def type_size_def typeSizes_def num_size_def rpm_types slot_def)

lemma num_size_cases: "num_size t \<in> {1, 2, 4}"
  by (simp add: num_size_def)

lemma swab_1: "c \<le> length m \<Longrightarrow> swab 1 c m = take c m"
proof (induction c arbitrary: m)
  case (Suc c)
  then obtain x xs where "m = x # xs" by (cases m) auto
  then show ?case using Suc by simp
qed simp

lemma str_facts:
  assumes "NUL \<in> set m"
  obtains r where "m = takeWhile (\<lambda>x. x \<noteq> NUL) m @ NUL # r" "NUL \<notin> set (takeWhile (\<lambda>x. x \<noteq> NUL) m)"
proof -
  obtain y ys where d: "dropWhile (\<lambda>x. x \<noteq> NUL) m = y # ys"
    using assms by (cases "dropWhile (\<lambda>x. x \<noteq> NUL) m") (auto simp: dropWhile_eq_Nil_conv)
  then have "y = NUL" using dropWhile_hd by fastforce
  then have "m = takeWhile (\<lambda>x. x \<noteq> NUL) m @ NUL # ys" using d takeWhile_dropWhile_id by metis
  moreover have "NUL \<notin> set (takeWhile (\<lambda>x. x \<noteq> NUL) m)" using set_takeWhileD by fastforce
  ultimately show ?thesis using that by blast
qed

lemma cat_strs_pos: "ss \<noteq> [] \<Longrightarrow> 0 < length (cat_strs ss)"
  by (cases ss) simp_all

lemma grabData_wire:
  assumes "wire (he_t he) (he_c he) (he_p he) = Some d" "count_ok (he_c he)"
  shows "grabData he = ok (Some (d, length d)) \<and> d \<noteq> []"
proof (cases "he_p he")
  case PNull
  then show ?thesis using assms(1) by (simp add: wire_def)
next
  case (PMem m)
  let ?c = "unat (he_c he)" and ?t = "he_t he"
  have c: "0 < ?c" "?c < 2 ^ 30" using count_ok_bounds[OF assms(2)] by auto
  show ?thesis
  proof (cases "numeric ?t")
    case True
    let ?k = "num_size ?t"
    have d: "d = swab ?k ?c m" and len: "?c * ?k \<le> length m"
      using assms(1) True PMem by (auto simp: wire_def split: if_splits)
    have ld: "length d = ?c * ?k" using d length_swab[OF len] by simp
    have pos: "?k > 0" using num_size_cases[of ?t] by auto
    have "unat (word_of_int (int ?k) * he_c he :: u32) = ?c * nat (int ?k)"
      by (rule unat_mult_size[OF c(2)]) (use num_size_cases[of ?t] in auto)
    then have dl: "dataLength ?t (he_p he) (he_c he) False None = ok (?c * ?k)"
      using True type_size_num[OF True]
      by (auto simp: dataLength_def past_end_def numeric_def rpm_types)
    have "copyData he (?c * ?k) = ok d"
      using True PMem len c d swab_1[of ?c m]
      by (auto simp: copyData_def tagSwab_def numeric_def num_size_def rpm_types mem_of_def rd_bytes_def guardC_def Let_def)
    then show ?thesis using dl ld c pos by (auto simp: grabData_def)
  next
    case False
    then have t: "?t = RPM_STRING_TYPE" "he_c he = 1" "NUL \<in> set m" "d = takeWhile (\<lambda>x. x \<noteq> NUL) m @ [NUL]"
      using assms(1) PMem by (auto simp: wire_def split: if_splits)
    obtain r where r: "m = takeWhile (\<lambda>x. x \<noteq> NUL) m @ NUL # r" "NUL \<notin> set (takeWhile (\<lambda>x. x \<noteq> NUL) m)"
      using str_facts[OF t(3)] .
    define s where "s = takeWhile (\<lambda>x. x \<noteq> NUL) m"
    have m: "m = s @ NUL # r" "NUL \<notin> set s" "d = s @ [NUL]" using r t(4) by (simp_all add: s_def)
    have "dataLength ?t (he_p he) (he_c he) False None = ok (length s + 1)"
      using PMem t m str_len_app[of s None r 0] by (simp add: dataLength_def mem_of_def numeral_eq_Suc)
    moreover have "copyData he (length s + 1) = ok d"
      using PMem t m by (simp add: copyData_def tagSwab_def rpm_types mem_of_def rd_bytes_def guardC_def)
    ultimately show ?thesis using m by (simp add: grabData_def)
  qed
next
  case (PArgv av)
  let ?c = "unat (he_c he)" and ?t = "he_t he"
  have a: "is_argv ?t" "?c \<le> length av" "d = cat_strs (take ?c av)"
    using assms(1) PArgv by (auto simp: wire_def split: if_splits)
  have c: "0 < ?c" using count_ok_bounds[OF assms(2)] by auto
  have "take ?c av \<noteq> []" using c a(2) by auto
  then have pos: "0 < length d" using a(3) cat_strs_pos by simp
  have "dataLength ?t (he_p he) (he_c he) False None = ok (length d)"
    using PArgv a by (auto simp: dataLength_def argv_of_def is_argv_def rpm_types)
  moreover have "copyData he (length d) = ok d"
    using PArgv a copy_strs_all[of "take ?c av" "length d"]
    by (auto simp: copyData_def argv_of_def is_argv_def rpm_types)
  ultimately show ?thesis using pos by (auto simp: grabData_def)
qed

text \<open>An entry holds a value: its memory begins with the wire form.\<close>

definition holds :: "Header \<Rightarrow> indexEntry \<Rightarrow> tagData \<Rightarrow> bool" where
  "holds h e p \<longleftrightarrow>
     (\<exists>d r. wire (e_type e) (e_count e) p = Some d \<and> mem h (e_data e) = ok (d @ r) \<and>
        length d \<le> e_length e \<and> e_length e \<le> length (d @ r) \<and> count_ok (e_count e) \<and>
        (e_type e = RPM_BIN_TYPE \<longrightarrow> e_length e = length d))"

lemma wire_num_length: "wire t c p = Some d \<Longrightarrow> numeric t \<Longrightarrow> length d = unat c * num_size t"
  by (auto simp: wire_def length_swab is_argv_def numeric_def rpm_types split: tagData.splits if_splits)

text \<open>Reading an entry: \<open>copyEntry\<close>, then the conversion to host order in new memory.\<close>

definition get_entry :: "Header \<Rightarrow> indexEntry \<Rightarrow> HE \<Rightarrow> (HE \<times> bool) outcome" where
  "get_entry h e he = andThen (copyEntry h e he) rpmheRealloc"

lemma get_entry_holds:
  assumes "holds h e p" "\<not> ENTRY_IS_REGION e" "\<not> he_freeData he"
  shows "get_entry h e he = ok (he\<lparr>he_p := value_of (e_type e) (e_count e) p, he_t := e_type e,
           he_c := e_count e, he_freeData := True\<rparr>, True)"
proof -
  obtain d r where w: "wire (e_type e) (e_count e) p = Some d" and m: "mem h (e_data e) = ok (d @ r)"
    and l: "length d \<le> e_length e" "e_length e \<le> length (d @ r)" and c: "count_ok (e_count e)"
    and b: "e_type e = RPM_BIN_TYPE \<Longrightarrow> e_length e = length d"
    using assms(1) by (auto simp: holds_def)
  let ?t = "e_type e" and ?c = "unat (e_count e)"
  have cb: "0 < ?c" "?c < 2 ^ 30" using count_ok_bounds[OF c] by auto
  consider (num) x where "numeric ?t" "p = PMem x" "?c * num_size ?t \<le> length x" "d = swab (num_size ?t) ?c x"
    | (str) s x where "?t = RPM_STRING_TYPE" "e_count e = 1" "p = PMem (s @ NUL # x)" "NUL \<notin> set s" "d = s @ [NUL]"
    | (arr) av where "is_argv ?t" "p = PArgv av" "?c \<le> length av" "d = cat_strs (take ?c av)" "\<forall>s\<in>set (take ?c av). NUL \<notin> set s"
  proof (cases p)
    case (PMem x)
    show ?thesis
    proof (cases "numeric ?t")
      case True
      then show ?thesis using num w PMem by (auto simp: wire_def split: if_splits)
    next
      case False
      then have t: "?t = RPM_STRING_TYPE" "e_count e = 1" "NUL \<in> set x" "d = takeWhile (\<lambda>c. c \<noteq> NUL) x @ [NUL]"
        using w PMem by (auto simp: wire_def split: if_splits)
      then show ?thesis using str PMem str_facts[OF t(3)] by metis
    qed
  next
    case (PArgv av)
    then show ?thesis using arr w by (auto simp: wire_def split: if_splits)
  qed (use w in \<open>simp add: wire_def\<close>)
  then show ?thesis
  proof cases
    case num
    let ?k = "num_size ?t"
    have ld: "length d = ?c * ?k" using num length_swab by simp
    have cp: "copyEntry h e he = ok (he\<lparr>he_p := PMem (if ?t = RPM_BIN_TYPE then d else d @ r), he_t := ?t, he_c := e_count e\<rparr>)"
    proof (cases "?t = RPM_BIN_TYPE")
      case True
      have "e_length e = ?c" using b[OF True] ld True by (simp add: num_size_def rpm_types)
      then have "(of_nat (e_length e) :: u32) = e_count e" by simp
      then show ?thesis
        using True m assms(2) l b[OF True] \<open>e_length e = ?c\<close> ld
        by (simp add: copyEntry_def rd_bytes_def guardC_def num_size_def rpm_types)
    next
      case False
      then show ?thesis using num(1) m by (auto simp: copyEntry_def numeric_def rpm_types)
    qed
    have sw: "swab ?k ?c (d @ r) = take (?c * ?k) x"
    proof -
      have "swab ?k ?c (d @ r) = swab ?k ?c (take (?c * ?k) (d @ r))"
        by (rule swab_take[symmetric]) (use ld in simp_all)
      also have "\<dots> = swab ?k ?c (swab ?k ?c x)" using ld num(4) by simp
      finally show ?thesis using swab_swab[OF num(3)] by simp
    qed
    have v: "value_of ?t (e_count e) p = PMem (take (?c * ?k) x)" using num by (simp add: value_of_def)
    show ?thesis
    proof (cases "?t = RPM_BIN_TYPE")
      case True
      have "d = take (?c * ?k) x"
        using num(3,4) True swab_1[of ?c x] by (simp add: num_size_def rpm_types)
      then show ?thesis
        using cp True v by (simp add: get_entry_def rpmheRealloc_def Let_def rpm_types guardC_def)
    next
      case False
      have k0: "0 < ?k" using num_size_cases[of ?t] by auto
      have sw1: "?k = 1 \<Longrightarrow> take ?c (d @ r) = take ?c x"
        using sw swab_1[of ?c "d @ r"] ld by simp
      show ?thesis
        using cp False v num(1) cb k0 ld sw sw1 assms(3)
        by (auto simp: get_entry_def rpmheRealloc_def Let_def guardC_def numeric_def num_size_def rpm_types
            tagSwab_def mem_of_def rd_bytes_def)
    qed
  next
    case str
    have tw: "takeWhile (\<lambda>c. c \<noteq> NUL) (s @ NUL # x) = s" using str(4) by (induction s) auto
    have "copyEntry h e he = ok (he\<lparr>he_p := PMem (s @ NUL # r), he_t := ?t, he_c := 1\<rparr>)"
      using str m by (simp add: copyEntry_def rpm_types)
    moreover have "next_str (s @ NUL # r) = ok (s, r)" by (rule next_str_app[OF str(4)])
    ultimately show ?thesis
      using str tw assms(3)
      by (simp add: get_entry_def rpmheRealloc_def Let_def guardC_def rpm_types mem_of_def tagSwab_def
          rd_bytes_def value_of_def numeric_def)
  next
    case arr
    have "length (take ?c av) = ?c" using arr(3) by simp
    then have "cut_strs ?c (take (e_length e) (d @ r)) = ok (take ?c av)"
      using cut_cat[OF arr(5), of "take (e_length e - length d) r"] arr(4) l(1) by simp
    then have ca: "copy_argv h e = ok (PArgv (take ?c av))"
      using m l(2) by (simp add: copy_argv_def rd_bytes_def guardC_def)
    then have "copyEntry h e he = ok (he\<lparr>he_p := PArgv (take ?c av), he_t := ?t, he_c := e_count e\<rparr>)"
      using arr(1) by (auto simp: copyEntry_def is_argv_def rpm_types)
    then show ?thesis
      using arr by (auto simp: get_entry_def rpmheRealloc_def Let_def guardC_def rpm_types is_argv_def value_of_def)
  qed
qed

end
