(* ===== verification/HdrThms.thy ===== *)
theory HdrThms
  imports HdrProps
begin

text \<open>
  The header as a map from tags to typed values: adding, looking up and deleting tags refine the
  operations of the map. \<open>alpha\<close> is the map of a header whose tags are distinct.
\<close>

section \<open>A header is a map\<close>

definition entry_value :: "Header \<Rightarrow> indexEntry \<Rightarrow> tagData" where
  "entry_value h e = (case get_entry h e he_zero of Inr (he, _) \<Rightarrow> he_p he | Inl _ \<Rightarrow> PNull)"

definition region_tag :: "u32 \<Rightarrow> bool" where
  "region_tag t \<longleftrightarrow> HEADER_IMAGE \<le> t \<and> t < HEADER_REGIONS"

definition user_tag :: "u32 \<Rightarrow> bool" where
  "user_tag t \<longleftrightarrow> small_tag t \<and> \<not> region_tag t"

lemma is_region [simp]: "ENTRY_IS_REGION e = region_tag (e_tag e)"
  by (simp add: ENTRY_IS_REGION_def region_tag_def)

definition alpha :: "Header \<Rightarrow> u32 \<Rightarrow> (u32 \<times> u32 \<times> tagData) option" where
  "alpha h t = (if region_tag t then None
     else map_option (\<lambda>e. (e_type e, e_count e, entry_value h e)) (find (\<lambda>e. e_tag e = t) (h_index h)))"

definition hdr_ok :: "Header \<Rightarrow> bool" where
  "hdr_ok h \<longleftrightarrow> hdr_inv h \<and> distinct (map e_tag (h_index h)) \<and>
     (\<forall>e\<in>set (h_index h). ENTRY_IS_REGION e \<or> (\<exists>p. holds h e p))"

lemma hdr_ok_inv: "hdr_ok h \<Longrightarrow> hdr_inv h"
  by (simp add: hdr_ok_def)

lemma find_tag:
  "distinct (map e_tag es) \<Longrightarrow> e \<in> set es \<Longrightarrow> find (\<lambda>x. e_tag x = e_tag e) es = Some e"
  by (induction es) (auto simp: image_iff)

lemma find_no_tag: "t \<notin> e_tag ` set es \<Longrightarrow> find (\<lambda>x. e_tag x = t) es = None"
  by (induction es) auto

lemma alpha_entry:
  "hdr_ok h \<Longrightarrow> e \<in> set (h_index h) \<Longrightarrow> \<not> region_tag (e_tag e) \<Longrightarrow> alpha h (e_tag e) = Some (e_type e, e_count e, entry_value h e)"
  by (simp add: alpha_def hdr_ok_def find_tag)

lemma alpha_None: "t \<notin> tags h \<Longrightarrow> alpha h t = None"
  by (simp add: alpha_def tags_def find_no_tag)

lemma alpha_dom: "dom (alpha h) = tags h - Collect region_tag"
proof -
  have "find (\<lambda>e. e_tag e = t) (h_index h) = None \<longleftrightarrow> t \<notin> tags h" for t
    by (auto simp: tags_def find_None_iff)
  then show ?thesis by (auto simp: alpha_def dom_def simp flip: not_None_eq)
qed

lemma alpha_tags: "\<not> region_tag t \<Longrightarrow> t \<in> tags h \<longleftrightarrow> alpha h t \<noteq> None"
  using alpha_dom[of h] by (auto simp: dom_def)

lemma get_entry_cong: "mem h (e_data e) = mem h' (e_data e) \<Longrightarrow> \<not> ENTRY_IS_REGION e \<Longrightarrow> get_entry h e he = get_entry h' e he"
  by (simp add: get_entry_def copyEntry_def copy_argv_def)

lemma mem_blob: "h_blob h = h_blob h' \<Longrightarrow> mem h p = mem h' p"
  by (cases p) simp_all

lemma holds_cong: "mem h (e_data e) = mem h' (e_data e) \<Longrightarrow> holds h e p = holds h' e p"
  by (simp add: holds_def)

lemma holds_value: "holds h e p \<Longrightarrow> \<not> ENTRY_IS_REGION e \<Longrightarrow> entry_value h e = value_of (e_type e) (e_count e) p"
  by (simp add: entry_value_def get_entry_holds he_zero_def)

text \<open>The map and the invariant depend on the entries and the blob only.\<close>

lemma alpha_perm:
  assumes "hdr_ok h" "mset (h_index h') = mset (h_index h)" "h_blob h' = h_blob h"
  shows "alpha h' = alpha h"
proof
  fix t
  have s: "set (h_index h') = set (h_index h)" using assms(2) by (metis set_mset_mset)
  have d: "distinct (map e_tag (h_index h'))"
    using assms(1,2) by (metis hdr_ok_def mset_eq_imp_distinct_iff mset_map)
  have v: "entry_value h' e = entry_value h e" if "\<not> region_tag (e_tag e)" for e
  proof -
    have "get_entry h' e he_zero = get_entry h e he_zero"
      by (rule get_entry_cong[OF mem_blob[OF assms(3)]]) (use that in simp)
    then show ?thesis by (simp add: entry_value_def)
  qed
  show "alpha h' t = alpha h t"
  proof (cases "t \<in> tags h \<and> \<not> region_tag t")
    case True
    then obtain e where e: "e \<in> set (h_index h)" "t = e_tag e" "\<not> region_tag (e_tag e)" by (auto simp: tags_def)
    then show ?thesis using s d v[OF e(3)] assms(1) by (simp add: alpha_def find_tag hdr_ok_def)
  next
    case False
    then show ?thesis using s by (cases "region_tag t") (simp_all add: alpha_None tags_def, simp add: alpha_def)
  qed
qed

lemma headerSort_blob: "h_blob (headerSort h) = h_blob h"
  by simp

lemma hdr_ok_sort: "hdr_ok h \<Longrightarrow> hdr_ok (headerSort h)"
proof -
  assume a: "hdr_ok h"
  have "distinct (map e_tag (h_index (headerSort h)))"
    using a by (metis hdr_ok_def mset_eq_imp_distinct_iff mset_map headerSort_facts(1))
  moreover have "holds (headerSort h) e p = holds h e p" for e p by (rule holds_cong) simp
  ultimately show ?thesis using a headerSort_inv by (simp add: hdr_ok_def)
qed

lemma alpha_sort: "hdr_ok h \<Longrightarrow> alpha (headerSort h) = alpha h"
  by (rule alpha_perm) simp_all

lemma entry_value_blob: "h_blob h' = h_blob h \<Longrightarrow> \<not> ENTRY_IS_REGION e \<Longrightarrow> entry_value h' e = entry_value h e"
  unfolding entry_value_def using get_entry_cong[OF mem_blob] by metis

lemma holds_blob: "h_blob h' = h_blob h \<Longrightarrow> holds h' e p = holds h e p"
  by (rule holds_cong) (rule mem_blob)

lemma alpha_cong:
  assumes "hdr_ok h" "h_blob h' = h_blob h" "find (\<lambda>e. e_tag e = t) (h_index h') = find (\<lambda>e. e_tag e = t) (h_index h)"
  shows "alpha h' t = alpha h t"
proof (cases "region_tag t")
  case False
  then show ?thesis
    unfolding alpha_def assms(3) using entry_value_blob[OF assms(2)]
    by (simp, intro option.map_cong0) (auto simp: find_Some_iff)
qed (simp add: alpha_def)

section \<open>Lookup\<close>

lemma findEntry_ok:
  assumes "hdr_ok h" "user_tag t"
  shows "(alpha h t = None \<and> findEntry h t 0 = ok (headerSort h, None)) \<or>
    (\<exists>i e. findEntry h t 0 = ok (headerSort h, Some i) \<and> i < length (h_index h) \<and>
       h_index (headerSort h) ! i = e \<and> e \<in> set (h_index h) \<and> e_tag e = t \<and>
       alpha h t = Some (e_type e, e_count e, entry_value h e))"
proof -
  have s: "small_tag t" and r: "\<not> region_tag t" using assms(2) by (simp_all add: user_tag_def)
  from findEntry_any[OF hdr_ok_inv[OF assms(1)] s] show ?thesis
  proof (elim disjE exE conjE)
    fix i
    assume i: "findEntry h t 0 = ok (headerSort h, Some i)" "i < length (h_index h)" "e_tag (h_index (headerSort h) ! i) = t"
    let ?e = "h_index (headerSort h) ! i"
    have "?e \<in> set (h_index h)" using i(2) nth_mem[of i "h_index (headerSort h)"] by simp
    then show ?thesis using i alpha_entry[OF assms(1), of ?e] r by auto
  qed (simp add: alpha_None)
qed

text \<open>What \<open>headerGet\<close> leaves in the container for a looked-up value.\<close>

definition found :: "u32 \<Rightarrow> u32 \<times> u32 \<times> tagData \<Rightarrow> HE" where
  "found t v = (case v of (ty, c, p) \<Rightarrow>
     \<lparr>he_tag = t, he_t = ty, he_p = p, he_c = c, he_append = False, he_freeData = True\<rparr>)"

lemma headerGet_store:
  "noext \<or> exts (he_tag q) = None \<Longrightarrow> headerGet exts lang h q noext noi18n =
     andThen (intGetEntry lang h (he_zero\<lparr>he_tag := he_tag q\<rparr>) noi18n) (\<lambda>(h, he, rc).
       if rc then andThen (rpmheRealloc he) (\<lambda>(he, rc). ok (h, he, rc)) else ok (h, he, False))"
  by (auto simp: headerGet_def Let_def he_zero_def)

lemma headerGet_alpha:
  assumes "hdr_ok h" "user_tag (he_tag q)" "noext \<or> exts (he_tag q) = None"
    and "\<forall>c p. alpha h (he_tag q) = Some (RPM_I18NSTRING_TYPE, c, p) \<longrightarrow> noi18n"
  shows "headerGet exts lang h q noext noi18n =
    ok (headerSort h, (case alpha h (he_tag q) of None \<Rightarrow> he_zero\<lparr>he_tag := he_tag q\<rparr> | Some v \<Rightarrow> found (he_tag q) v),
        alpha h (he_tag q) \<noteq> None)"
proof -
  note get = headerGet_store[of noext exts q, OF assms(3)]
  show ?thesis
    using findEntry_ok[OF assms(1,2)]
  proof (elim disjE exE conjE)
    fix i e
    assume a: "findEntry h (he_tag q) 0 = ok (headerSort h, Some i)" "h_index (headerSort h) ! i = e"
      "e \<in> set (h_index h)" "e_tag e = he_tag q" "alpha h (he_tag q) = Some (e_type e, e_count e, entry_value h e)"
    obtain p where p: "holds h e p" "\<not> ENTRY_IS_REGION e"
      using assms(1,2) a(3,4) by (auto simp: hdr_ok_def user_tag_def)
    have p': "holds (headerSort h) e p" using p(1) holds_cong[of "headerSort h" e h] by simp
    have n: "\<not> (e_type e = RPM_I18NSTRING_TYPE \<and> \<not> noi18n)" using assms(4) a(5) by auto
    let ?he = "he_zero\<lparr>he_tag := he_tag q\<rparr>"
    have g: "get_entry (headerSort h) e ?he = ok (?he\<lparr>he_p := value_of (e_type e) (e_count e) p, he_t := e_type e,
           he_c := e_count e, he_freeData := True\<rparr>, True)"
      by (rule get_entry_holds[OF p' p(2)]) (simp add: he_zero_def)
    then obtain he1 where c: "copyEntry (headerSort h) e ?he = ok he1" "rpmheRealloc he1 =
        ok (?he\<lparr>he_p := value_of (e_type e) (e_count e) p, he_t := e_type e, he_c := e_count e, he_freeData := True\<rparr>, True)"
      by (auto simp: get_entry_def andThen_Inr_iff)
    have "intGetEntry lang h ?he noi18n = ok (headerSort h, he1, True)"
      using a c(1) by (simp add: intGetEntry_def Let_def he_zero_def n del: de_Morgan_conj)
    then have "headerGet exts lang h q noext noi18n = ok (headerSort h,
        ?he\<lparr>he_p := value_of (e_type e) (e_count e) p, he_t := e_type e, he_c := e_count e, he_freeData := True\<rparr>, True)"
      using c(2) by (simp add: get he_zero_def)
    then show ?thesis
      using a(5) holds_value[OF p] by (simp add: found_def he_zero_def)
  next
    assume a: "alpha h (he_tag q) = None" "findEntry h (he_tag q) 0 = ok (headerSort h, None)"
    show ?thesis using a by (simp add: get intGetEntry_def he_zero_def)
  qed
qed

section \<open>Adding\<close>

lemma ordered_tags:
  "\<forall>e\<in>set es. small_tag (e_tag e) \<Longrightarrow> idx.ordered es \<longleftrightarrow> sorted_wrt (\<lambda>x y. e_tag x \<le> e_tag y) es"
proof (induction es)
  case (Cons e es)
  then show ?case by (auto simp: idx.ordered_def indexCmp_diff word_le_def)
qed (simp add: idx.ordered_def)

lemma ordered_snoc:
  assumes "\<forall>e\<in>set (es @ [x]). small_tag (e_tag e)" "idx.ordered es" "es \<noteq> [] \<Longrightarrow> e_tag (last es) \<le> e_tag x"
  shows "idx.ordered (es @ [x])"
proof -
  have s: "sorted_wrt (\<lambda>x y. e_tag x \<le> e_tag y) es" using assms(1,2) ordered_tags by simp
  have "e_tag e \<le> e_tag x" if "e \<in> set es" for e
  proof (cases "e = last es")
    case False
    have "es \<noteq> []" using that by auto
    then have "es = butlast es @ [last es]" by simp
    then have "e_tag e \<le> e_tag (last es)"
      using s that False sorted_wrt_append[of _ "butlast es" "[last es]"] by (metis UnE empty_iff empty_set list.set(2) set_append singletonD insertI1)
    then show ?thesis using assms(3) \<open>es \<noteq> []\<close> by force
  qed (use assms(3) that in force)
  then have "sorted_wrt (\<lambda>x y. e_tag x \<le> e_tag y) (es @ [x])" using s by (simp add: sorted_wrt_append)
  then show ?thesis using ordered_tags[OF assms(1)] by simp
qed

lemma wire_type: "wire t c p = Some d \<Longrightarrow> 1 \<le> t \<and> t \<le> 9 \<and> t \<noteq> 0"
  by (auto simp: wire_def numeric_def is_argv_def rpm_types split: tagData.splits if_splits)

text \<open>A container that can be stored: a tag that is not a region's, and data that fits its type and count.\<close>

definition storable :: "HE \<Rightarrow> bool" where
  "storable he \<longleftrightarrow> user_tag (he_tag he) \<and>
     count_ok (he_c he) \<and> wire (he_t he) (he_c he) (he_p he) \<noteq> None"

definition val :: "HE \<Rightarrow> u32 \<times> u32 \<times> tagData" where
  "val he = (he_t he, he_c he, value_of (he_t he) (he_c he) (he_p he))"

definition new_entry :: "HE \<Rightarrow> indexEntry" where
  "new_entry he = (let d = the (wire (he_t he) (he_c he) (he_p he)) in
     \<lparr>e_tag = he_tag he, e_type = he_t he, e_offset = 0, e_count = he_c he,
      e_data = HHeap d, e_length = length d, e_rdlen = 0\<rparr>)"

lemma new_entry_simps [simp]:
  "e_tag (new_entry he) = he_tag he" "e_type (new_entry he) = he_t he" "e_count (new_entry he) = he_c he"
  by (simp_all add: new_entry_def Let_def)

lemma new_entry_holds: "storable he \<Longrightarrow> holds h (new_entry he) (he_p he)"
  by (auto simp: holds_def storable_def new_entry_def Let_def)

lemma new_entry_value: "storable he \<Longrightarrow> entry_value h (new_entry he) = value_of (he_t he) (he_c he) (he_p he)"
proof -
  assume a: "storable he"
  then have "\<not> ENTRY_IS_REGION (new_entry he)" by (simp add: storable_def user_tag_def)
  from holds_value[OF new_entry_holds[OF a] this] show ?thesis by simp
qed

lemma headerAddEntry_storable:
  assumes "storable he"
  shows "headerAddEntry h he = ok (h\<lparr>
      h_alloced := (if length (h_index h) = h_alloced h then h_alloced h + INDEX_MALLOC_SIZE else h_alloced h),
      h_sorted := (h_sorted h \<and> \<not> (h_index h \<noteq> [] \<and> he_tag he < e_tag (last (h_index h)))),
      h_index := h_index h @ [new_entry he]\<rparr>, True)"
proof -
  obtain d where d: "wire (he_t he) (he_c he) (he_p he) = Some d" using assms by (auto simp: storable_def)
  have "grabData he = ok (Some (d, length d))" using grabData_wire[OF d] assms by (simp add: storable_def)
  then show ?thesis
    using assms wire_type[OF d] d
    by (auto simp: headerAddEntry_def storable_def count_ok_def hdrchkType_def new_entry_def Let_def)
qed

lemma alpha_snoc:
  assumes "hdr_ok h" "storable he" "he_tag he \<notin> tags h" "h_index h' = h_index h @ [new_entry he]" "h_blob h' = h_blob h"
  shows "alpha h' = (alpha h)(he_tag he \<mapsto> val he)"
proof
  fix t
  have u: "\<not> region_tag (he_tag he)" using assms(2) by (simp add: storable_def user_tag_def)
  have old: "map_option (\<lambda>e. (e_type e, e_count e, entry_value h' e)) (find (\<lambda>e. e_tag e = t) (h_index h)) = alpha h t"
    if "\<not> region_tag t"
    using that entry_value_blob[OF assms(5)] unfolding alpha_def
    by (simp, intro option.map_cong0) (auto simp: find_Some_iff)
  have "find P (xs @ ys) = (case find P xs of None \<Rightarrow> find P ys | Some x \<Rightarrow> Some x)" for P and xs ys :: "indexEntry list"
    by (induction xs) auto
  then have "alpha h' t = (case alpha h t of None \<Rightarrow> (if t = he_tag he then Some (val he) else None) | Some v \<Rightarrow> Some v)"
    using old new_entry_value[OF assms(2), of h'] assms(4) u by (cases "region_tag t") (auto simp: alpha_def val_def split: option.splits)
  then show "alpha h' t = ((alpha h)(he_tag he \<mapsto> val he)) t"
    using assms(3) alpha_tags[OF u, of h] by (auto split: option.splits)
qed

lemma headerAddEntry_alpha:
  assumes "hdr_ok h" "storable he" "he_tag he \<notin> tags h"
  obtains h' where "headerAddEntry h he = ok (h', True)" "hdr_ok h'" "alpha h' = (alpha h)(he_tag he \<mapsto> val he)"
    "h_blob h' = h_blob h"
proof -
  let ?h = "h\<lparr>h_alloced := (if length (h_index h) = h_alloced h then h_alloced h + INDEX_MALLOC_SIZE else h_alloced h),
      h_sorted := (h_sorted h \<and> \<not> (h_index h \<noteq> [] \<and> he_tag he < e_tag (last (h_index h)))),
      h_index := h_index h @ [new_entry he]\<rparr>"
  have small: "\<forall>e\<in>set (h_index h @ [new_entry he]). small_tag (e_tag e)"
    using assms(1,2) by (auto simp: hdr_ok_def hdr_inv_def storable_def user_tag_def)
  have "hdr_inv ?h"
    unfolding hdr_inv_def using small assms(1) ordered_snoc[OF small]
    by (auto simp: hdr_ok_def hdr_inv_def INDEX_MALLOC_SIZE_def)
  moreover have "holds ?h e p = holds h e p" for e p by (rule holds_blob) simp
  ultimately have "hdr_ok ?h"
    using assms new_entry_holds[OF assms(2), of ?h]
    by (auto simp: hdr_ok_def tags_def storable_def)
  moreover have "alpha ?h = (alpha h)(he_tag he \<mapsto> val he)" by (rule alpha_snoc[OF assms]) simp_all
  ultimately show ?thesis using that[of ?h] headerAddEntry_storable[OF assms(2)] by simp
qed

section \<open>Removing\<close>

lemma dropWhile_tag:
  "sorted_wrt (\<lambda>x y. e_tag x \<le> e_tag y) es \<Longrightarrow> \<forall>e\<in>set es. t \<le> e_tag e \<Longrightarrow>
     dropWhile (\<lambda>e. e_tag e = t) es = filter (\<lambda>e. e_tag e \<noteq> t) es"
proof (induction es)
  case (Cons e es)
  show ?case
  proof (cases "e_tag e = t")
    case False
    then have "\<forall>x\<in>set es. e_tag x \<noteq> t" using Cons.prems by force
    then show ?thesis using False by (simp add: filter_True)
  qed (use Cons in simp)
qed simp

lemma first_of_facts:
  "e_tag (es ! i) = t \<Longrightarrow> first_of es t i \<le> i \<and> e_tag (es ! first_of es t i) = t \<and>
     (first_of es t i = 0 \<or> e_tag (es ! (first_of es t i - 1)) \<noteq> t)"
  by (induction es t i rule: first_of.induct) (auto intro: le_SucI)

lemma remove_filter:
  assumes "sorted_wrt (\<lambda>x y. e_tag x \<le> e_tag y) es" "i < length es" "e_tag (es ! i) = t"
  shows "take (first_of es t i) es @ dropWhile (\<lambda>e. e_tag e = t) (drop (first_of es t i) es) =
    filter (\<lambda>e. e_tag e \<noteq> t) es"
proof -
  let ?j = "first_of es t i"
  have j: "?j \<le> i" "e_tag (es ! ?j) = t" "?j = 0 \<or> e_tag (es ! (?j - 1)) \<noteq> t" using first_of_facts[OF assms(3)] by auto
  have le: "a \<le> b \<Longrightarrow> b < length es \<Longrightarrow> e_tag (es ! a) \<le> e_tag (es ! b)" for a b
    using assms(1) by (cases "a = b") (auto simp: sorted_wrt_iff_nth_less)
  have front: "e_tag x \<noteq> t" if "x \<in> set (take ?j es)" for x
  proof -
    have "\<exists>k<?j. x = es ! k" using that unfolding in_set_conv_nth by fastforce
    then obtain k where k: "k < ?j" "x = es ! k" by blast
    then have "e_tag x \<le> e_tag (es ! (?j - 1))" "e_tag (es ! (?j - 1)) \<le> t" "e_tag (es ! (?j - 1)) \<noteq> t"
      using le[of k "?j - 1"] le[of "?j - 1" ?j] j assms(2) by auto
    then show ?thesis by auto
  qed
  have "dropWhile (\<lambda>e. e_tag e = t) (drop ?j es) = filter (\<lambda>e. e_tag e \<noteq> t) (drop ?j es)"
  proof (rule dropWhile_tag)
    show "sorted_wrt (\<lambda>x y. e_tag x \<le> e_tag y) (drop ?j es)"
      using assms(1) by (metis append_take_drop_id sorted_wrt_append)
    show "\<forall>e\<in>set (drop ?j es). t \<le> e_tag e"
      using le[of ?j] j(2) by (force simp: in_set_conv_nth)
  qed
  moreover have "filter (\<lambda>e. e_tag e \<noteq> t) (take ?j es) = take ?j es" using front by (simp add: filter_True)
  ultimately have "take ?j es @ dropWhile (\<lambda>e. e_tag e = t) (drop ?j es) =
      filter (\<lambda>e. e_tag e \<noteq> t) (take ?j es @ drop ?j es)"
    by (simp only: filter_append)
  then show ?thesis by simp
qed

lemma headerRemoveEntry_filter:
  assumes "hdr_inv h" "small_tag t"
  shows "headerRemoveEntry h t =
    ok ((headerSort h)\<lparr>h_index := filter (\<lambda>e. e_tag e \<noteq> t) (h_index (headerSort h))\<rparr>, if t \<in> tags h then 0 else 1)"
  using findEntry_any[OF assms]
proof (elim disjE exE conjE)
  assume a: "t \<notin> tags h" "findEntry h t 0 = ok (headerSort h, None)"
  have "filter (\<lambda>e. e_tag e \<noteq> t) (h_index (headerSort h)) = h_index (headerSort h)"
    using a(1) by (auto simp: filter_id_conv tags_def)
  then show ?thesis using a by (simp add: headerRemoveEntry_def)
next
  fix i assume a: "findEntry h t 0 = ok (headerSort h, Some i)" "i < length (h_index h)"
    "e_tag (h_index (headerSort h) ! i) = t"
  have inv: "hdr_inv (headerSort h)" by (rule headerSort_inv[OF assms(1)])
  then have "sorted_wrt (\<lambda>x y. e_tag x \<le> e_tag y) (h_index (headerSort h))"
    using ordered_tags[of "h_index (headerSort h)"] by (simp add: hdr_inv_def)
  from remove_filter[OF this _ a(3)] have
    "take (first_of (h_index (headerSort h)) t i) (h_index (headerSort h)) @
       dropWhile (\<lambda>e. e_tag e = t) (drop (first_of (h_index (headerSort h)) t i) (h_index (headerSort h))) =
     filter (\<lambda>e. e_tag e \<noteq> t) (h_index (headerSort h))" using a(2) by simp
  moreover have "h_index (headerSort h) ! i \<in> set (h_index h)"
    using a(2) nth_mem[of i "h_index (headerSort h)"] by simp
  then have "t \<in> tags h" using a(3) by (auto simp: tags_def)
  ultimately show ?thesis using a(1) by (simp add: headerRemoveEntry_def Let_def)
qed

lemma hdr_inv_filter: "hdr_inv h \<Longrightarrow> hdr_inv (h\<lparr>h_index := filter P (h_index h)\<rparr>)"
proof -
  assume a: "hdr_inv h"
  have "length (filter P (h_index h)) \<le> h_alloced h" using a le_trans[OF length_filter_le, of "h_index h" "h_alloced h" P] unfolding hdr_inv_def by blast
  then show ?thesis using a sorted_wrt_filter by (auto simp: hdr_inv_def idx.ordered_def)
qed

lemma headerRemoveEntry_alpha:
  assumes "hdr_ok h" "user_tag t"
  obtains h' where "headerRemoveEntry h t = ok (h', if alpha h t = None then 1 else 0)" "hdr_ok h'"
    "alpha h' = (alpha h)(t := None)" "h_blob h' = h_blob h"
proof -
  let ?s = "headerSort h"
  let ?h = "?s\<lparr>h_index := filter (\<lambda>e. e_tag e \<noteq> t) (h_index ?s)\<rparr>"
  have s: "hdr_ok ?s" by (rule hdr_ok_sort[OF assms(1)])
  have "holds ?h e p = holds ?s e p" for e p by (rule holds_blob) simp
  then have ok': "hdr_ok ?h"
    using s hdr_inv_filter[of ?s "\<lambda>e. e_tag e \<noteq> t"] distinct_map_filter[of e_tag "h_index ?s"]
    by (auto simp: hdr_ok_def)
  have f: "find (\<lambda>e. e_tag e = u) (filter (\<lambda>e. e_tag e \<noteq> t) es) = find (\<lambda>e. e_tag e = u) es" if "u \<noteq> t" for u es
    using that by (induction es) auto
  have "alpha ?h u = alpha ?s u" if "u \<noteq> t" for u
    by (rule alpha_cong[OF s]) (use f[OF that] in simp_all)
  moreover have "alpha ?h t = None" by (rule alpha_None) (auto simp: tags_def)
  ultimately have "alpha ?h = (alpha h)(t := None)" using alpha_sort[OF assms(1)] by (intro ext) simp
  moreover have "(t \<in> tags h) = (alpha h t \<noteq> None)" "small_tag t"
    using alpha_tags assms(2) by (simp_all add: user_tag_def)
  ultimately show ?thesis
    using that[of ?h] headerRemoveEntry_filter[OF hdr_ok_inv[OF assms(1)]] ok' by simp
qed

section \<open>Changing\<close>

text \<open>A search by type, where the tag is unique and has that type.\<close>

lemma findEntry_type:
  assumes "hdr_ok h" "e \<in> set (h_index h)" "e_type e \<noteq> 0"
  obtains i where "findEntry h (e_tag e) (e_type e) = ok (headerSort h, Some i)" "i < length (h_index h)"
    "h_index (headerSort h) ! i = e"
proof -
  have s: "small_tag (e_tag e)" using assms(1,2) by (simp add: hdr_ok_def hdr_inv_def)
  have u: "\<forall>x\<in>set (h_index h). e_tag x = e_tag e \<longrightarrow> x = e"
    using assms(1,2) by (auto simp: hdr_ok_def distinct_map inj_on_def)
  obtain i where i: "findEntry h (e_tag e) 0 = ok (headerSort h, Some i)" "h_index (headerSort h) ! i = e"
    by (rule findEntry_unique[OF hdr_ok_inv[OF assms(1)] s assms(2) u])
  then have b: "bsearch tag_cmp (e_tag e) (h_index (headerSort h)) = Some i"
    by (auto simp: findEntry_def Let_def split: option.splits)
  have "back_walk (h_index (headerSort h)) (e_tag e) (e_type e) i = i" using i(2) by (cases i) auto
  then have "findEntry h (e_tag e) (e_type e) = ok (headerSort h, Some i)"
    using b i(2) assms(3) by (simp add: findEntry_def Let_def)
  moreover have "i < length (h_index h)" using bsearch_Some[OF b] by simp
  ultimately show ?thesis using that i(2) by blast
qed

lemma findEntry_absent:
  assumes "hdr_ok h" "small_tag t" "t \<notin> tags h"
  shows "findEntry h t ty = ok (headerSort h, None)"
proof -
  have "findEntry h t 0 = ok (headerSort h, None)"
  proof (rule ccontr)
    assume "findEntry h t 0 \<noteq> ok (headerSort h, None)"
    then obtain i where i: "i < length (h_index (headerSort h))" "e_tag (h_index (headerSort h) ! i) = t"
      using findEntry_any[OF hdr_ok_inv[OF assms(1)] assms(2)] by auto
    then show False using assms(3) nth_mem[OF i(1)] by (auto simp: tags_def)
  qed
  then show ?thesis by (simp add: findEntry_def Let_def split: option.splits)
qed

lemma distinct_first_of:
  "distinct (map e_tag es) \<Longrightarrow> i < length es \<Longrightarrow> first_of es (e_tag (es ! i)) i = i"
  by (cases i) (auto simp: distinct_conv_nth)

text \<open>Replacing an entry by one of the same tag.\<close>

lemma find_update:
  "distinct (map e_tag es) \<Longrightarrow> i < length es \<Longrightarrow> e_tag e = e_tag (es ! i) \<Longrightarrow>
     find (\<lambda>x. e_tag x = t) (es[i := e]) = (if t = e_tag e then Some e else find (\<lambda>x. e_tag x = t) es)"
proof (induction es arbitrary: i)
  case (Cons x xs)
  show ?case
  proof (cases i)
    case (Suc j)
    then have "e_tag e \<in> e_tag ` set xs" using Cons.prems by simp
    then have "e_tag x \<noteq> e_tag e" using Cons.prems(1) by auto
    then show ?thesis using Cons Suc by auto
  qed (use Cons in simp)
qed simp

lemma tags_update: "i < length es \<Longrightarrow> e_tag e = e_tag (es ! i) \<Longrightarrow> map e_tag (es[i := e]) = map e_tag es"
  by (simp add: map_update) (metis list_update_id map_update nth_map length_map)

lemma ordered_map: "map e_tag xs = map e_tag ys \<Longrightarrow> idx.ordered xs = idx.ordered ys"
proof -
  assume a: "map e_tag xs = map e_tag ys"
  have "idx.ordered xs = sorted_wrt (\<lambda>x y. sint (x - y) \<le> 0) (map e_tag xs)" for xs
    by (simp add: idx.ordered_def sorted_wrt_map indexCmp_def tag_cmp_def)
  then show ?thesis using a by simp
qed

lemma hdr_ok_update:
  assumes "hdr_ok h" "h_sorted h" "i < length (h_index h)" "e_tag e = e_tag (h_index h ! i)" "holds h e p"
    and "\<not> region_tag (e_tag e)"
  shows "hdr_ok (h\<lparr>h_index := (h_index h)[i := e]\<rparr>)"
    "alpha (h\<lparr>h_index := (h_index h)[i := e]\<rparr>) =
       (alpha h)(e_tag e \<mapsto> (e_type e, e_count e, value_of (e_type e) (e_count e) p))"
proof -
  let ?h = "h\<lparr>h_index := (h_index h)[i := e]\<rparr>"
  have b: "h_blob ?h = h_blob h" by simp
  have m: "map e_tag (h_index ?h) = map e_tag (h_index h)" using tags_update[OF assms(3,4)] by simp
  have r: "\<not> ENTRY_IS_REGION e" using assms(6) by simp
  have sub: "set (h_index ?h) \<subseteq> insert e (set (h_index h))" by (simp add: set_update_subset_insert)
  have "small_tag (e_tag e)" using assms(1,3,4) by (simp add: hdr_ok_def hdr_inv_def)
  then have "hdr_inv ?h" using assms(1,2) sub ordered_map[OF m] by (auto simp: hdr_ok_def hdr_inv_def)
  moreover have "ENTRY_IS_REGION x \<or> (\<exists>p. holds ?h x p)" if x: "x \<in> set (h_index ?h)" for x
    using subsetD[OF sub x] assms(1,5) holds_blob[OF b] by (auto simp: hdr_ok_def)
  ultimately show ok': "hdr_ok ?h" using assms(1) m by (metis hdr_ok_def)
  have f: "find (\<lambda>x. e_tag x = t) (h_index ?h) = (if t = e_tag e then Some e else find (\<lambda>x. e_tag x = t) (h_index h))" for t
    using find_update[of "h_index h" i e t] assms(1,3,4) by (simp add: hdr_ok_def)
  have "alpha ?h t = alpha h t" if "t \<noteq> e_tag e" for t
    by (rule alpha_cong[OF assms(1) b]) (use f[of t] that in simp)
  moreover have "alpha ?h (e_tag e) = Some (e_type e, e_count e, value_of (e_type e) (e_count e) p)"
    using f[of "e_tag e"] holds_value[OF _ r, of ?h p] assms(5,6) holds_blob[OF b] by (simp add: alpha_def)
  ultimately show "alpha ?h = (alpha h)(e_tag e \<mapsto> (e_type e, e_count e, value_of (e_type e) (e_count e) p))"
    by (intro ext) simp
qed

lemma mod_entry:
  assumes "hdr_ok h" "storable he" "alpha h (he_tag he) = Some (he_t he, c, p)"
  obtains i where "findEntry h (he_tag he) (he_t he) = ok (headerSort h, Some i)" "i < length (h_index h)"
    "e_tag (h_index (headerSort h) ! i) = he_tag he" "e_type (h_index (headerSort h) ! i) = he_t he"
    "e_count (h_index (headerSort h) ! i) = c" "h_index (headerSort h) ! i \<in> set (h_index h)"
    "entry_value h (h_index (headerSort h) ! i) = p"
proof -
  obtain e where e: "e \<in> set (h_index h)" "e_tag e = he_tag he" "e_type e = he_t he" "e_count e = c" "entry_value h e = p"
    using assms(3) by (auto simp: alpha_def find_Some_iff dest: nth_mem split: if_splits)
  have "he_t he \<noteq> 0" using assms(2) wire_type by (auto simp: storable_def)
  then show ?thesis using findEntry_type[OF assms(1) e(1)] e that by metis
qed

text \<open>An entry that was built in memory has its own buffer, of exactly the size of its data.\<close>

definition exact :: "indexEntry \<Rightarrow> tagData \<Rightarrow> bool" where
  "exact e p \<longleftrightarrow> count_ok (e_count e) \<and>
     (\<exists>d. wire (e_type e) (e_count e) p = Some d \<and> e_data e = HHeap d \<and> e_length e = length d)"

lemma exact_holds: "exact e p \<Longrightarrow> holds h e p"
  by (auto simp: exact_def holds_def)

lemma headerModifyEntry_alpha:
  assumes "hdr_ok h" "storable he" "alpha h (he_tag he) = Some (he_t he, c, p)"
  obtains h' where "headerModifyEntry h he = ok (h', True)" "hdr_ok h'" "alpha h' = (alpha h)(he_tag he \<mapsto> val he)"
    "h_blob h' = h_blob h" "\<forall>e\<in>set (h_index h'). e \<in> set (h_index h) \<or> exact e (he_p he)"
proof -
  obtain d where d: "wire (he_t he) (he_c he) (he_p he) = Some d" using assms(2) by (auto simp: storable_def)
  have g: "grabData he = ok (Some (d, length d))" using grabData_wire[OF d] assms(2) by (simp add: storable_def)
  obtain i where i: "findEntry h (he_tag he) (he_t he) = ok (headerSort h, Some i)" "i < length (h_index h)"
      "e_tag (h_index (headerSort h) ! i) = he_tag he"
    using mod_entry[OF assms] by metis
  let ?s = "headerSort h" let ?e = "h_index ?s ! i"
  have s: "hdr_ok ?s" by (rule hdr_ok_sort[OF assms(1)])
  let ?e' = "?e\<lparr>e_count := he_c he, e_type := he_t he, e_data := HHeap d, e_length := length d,
                 e_offset := (if ENTRY_IN_REGION ?e then 0 else e_offset ?e)\<rparr>"
  have "first_of (h_index ?s) (he_tag he) i = i"
    using distinct_first_of[of "h_index ?s" i] s i by (simp add: hdr_ok_def)
  then have m: "headerModifyEntry h he = ok (?s\<lparr>h_index := (h_index ?s)[i := ?e']\<rparr>, True)"
    using i(1) g by (simp add: headerModifyEntry_def Let_def)
  have h': "holds ?s ?e' (he_p he)" using d assms(2) by (simp add: holds_def storable_def)
  have t: "e_tag ?e' = e_tag ?e" "i < length (h_index ?s)" using i(2) by simp_all
  have r: "\<not> region_tag (e_tag ?e')" using assms(2) i(3) by (simp add: storable_def user_tag_def)
  have "alpha (?s\<lparr>h_index := (h_index ?s)[i := ?e']\<rparr>) = (alpha h)(he_tag he \<mapsto> val he)"
    using hdr_ok_update(2)[OF s _ t(2,1) h' r] alpha_sort[OF assms(1)] i(3) by (simp add: val_def)
  moreover have "exact ?e' (he_p he)" using d assms(2) by (simp add: exact_def storable_def)
  then have "\<forall>x\<in>set ((h_index ?s)[i := ?e']). x \<in> set (h_index h) \<or> exact x (he_p he)"
    using set_update_subset_insert[of "h_index ?s" i ?e'] by fastforce
  ultimately show ?thesis using that[OF m hdr_ok_update(1)[OF s _ t(2,1) h' r]] by simp
qed

section \<open>Appending\<close>

definition joined :: "tagData \<Rightarrow> tagData \<Rightarrow> tagData" where
  "joined p q = (case (p, q) of (PMem a, PMem b) \<Rightarrow> PMem (a @ b) | (PArgv a, PArgv b) \<Rightarrow> PArgv (a @ b) | _ \<Rightarrow> PNull)"

lemma swab_append: "length a = c * k \<Longrightarrow> swab k (c + n) (a @ b) = swab k c a @ swab k n b"
proof (induction c arbitrary: a)
  case (Suc c)
  then have "length (drop k a) = c * k" "k \<le> length a" by simp_all
  then show ?case using Suc.IH by simp
qed simp

lemma cat_strs_append [simp]: "cat_strs (a @ b) = cat_strs a @ cat_strs b"
  by (simp add: cat_strs_def)

lemma wire_value: "wire t c p = Some d \<Longrightarrow> wire t c (value_of t c p) = Some d"
proof (cases p)
  case (PMem m)
  assume a: "wire t c p = Some d"
  show ?thesis
  proof (cases "numeric t")
    case True
    then show ?thesis using a PMem swab_take[of "unat c" "num_size t" "unat c * num_size t" m]
      by (auto simp: wire_def value_of_def split: if_splits)
  next
    case False
    have "NUL \<notin> set (takeWhile (\<lambda>x. x \<noteq> NUL) m)" using set_takeWhileD by fastforce
    then have "takeWhile (\<lambda>x. x \<noteq> NUL) (takeWhile (\<lambda>x. x \<noteq> NUL) m @ [NUL]) = takeWhile (\<lambda>x. x \<noteq> NUL) m"
      by (induction m) auto
    then show ?thesis using a PMem False by (auto simp: wire_def value_of_def split: if_splits)
  qed
qed (auto simp: wire_def value_of_def split: if_splits)

text \<open>Appending to the value of a vector or of an array of numbers.\<close>

lemma wire_joined:
  assumes "wire t c p = Some d" "wire t c' p' = Some d'" "t \<noteq> RPM_STRING_TYPE" "unat (c + c') = unat c + unat c'"
  shows "wire t (c + c') (joined (value_of t c p) (value_of t c' p')) = Some (d @ d')"
    "value_of t (c + c') (joined (value_of t c p) (value_of t c' p')) = joined (value_of t c p) (value_of t c' p')"
proof -
  consider (num) a b where "p = PMem a" "p' = PMem b" "numeric t" "unat c * num_size t \<le> length a"
      "unat c' * num_size t \<le> length b" "d = swab (num_size t) (unat c) a" "d' = swab (num_size t) (unat c') b"
    | (arr) a b where "p = PArgv a" "p' = PArgv b" "is_argv t" "unat c \<le> length a" "unat c' \<le> length b"
      "\<forall>s\<in>set (take (unat c) a). NUL \<notin> set s" "\<forall>s\<in>set (take (unat c') b). NUL \<notin> set s"
      "d = cat_strs (take (unat c) a)" "d' = cat_strs (take (unat c') b)"
    using assms(1-3) by (auto simp: wire_def numeric_def is_argv_def rpm_types split: tagData.splits if_splits)
  then have "wire t (c + c') (joined (value_of t c p) (value_of t c' p')) = Some (d @ d') \<and>
      value_of t (c + c') (joined (value_of t c p) (value_of t c' p')) = joined (value_of t c p) (value_of t c' p')"
  proof cases
    case num
    let ?k = "num_size t"
    let ?a = "take (unat c * ?k) a" let ?b = "take (unat c' * ?k) b"
    have la: "length ?a = unat c * ?k" "length ?b = unat c' * ?k" using num by simp_all
    have "swab ?k (unat c + unat c') (?a @ ?b) = d @ d'"
      using swab_append[OF la(1), of "unat c'" ?b] swab_take[of "unat c" ?k "unat c * ?k" a]
        swab_take[of "unat c'" ?k "unat c' * ?k" b] num by simp
    moreover have "length (?a @ ?b) = (unat c + unat c') * ?k" using la by (simp add: algebra_simps)
    ultimately show ?thesis
      using num assms(4) by (simp add: joined_def value_of_def wire_def add_mult_distrib)
  next
    case arr
    then show ?thesis using assms(4) by (auto simp: joined_def value_of_def wire_def)
  qed
  then show "wire t (c + c') (joined (value_of t c p) (value_of t c' p')) = Some (d @ d')"
    "value_of t (c + c') (joined (value_of t c p) (value_of t c' p')) = joined (value_of t c p) (value_of t c' p')"
    by simp_all
qed

lemma count_ok_sum: "count_ok c \<Longrightarrow> count_ok c' \<Longrightarrow> unat (c + c') = unat c + unat c'"
  using count_ok_bounds[of c] count_ok_bounds[of c'] by (simp add: unat_word_ariths)

lemma grabData_parts:
  assumes "wire (he_t he) (he_c he) (he_p he) = Some d" "count_ok (he_c he)"
  shows "dataLength (he_t he) (he_p he) (he_c he) False None = ok (length d)" "copyData he (length d) = ok d" "d \<noteq> []"
  using grabData_wire[OF assms] by (auto simp: grabData_def andThen_Inr_iff split: if_splits)

definition appended :: "u32 \<times> u32 \<times> tagData \<Rightarrow> HE \<Rightarrow> u32 \<times> u32 \<times> tagData" where
  "appended v he = (case v of (t, c, p) \<Rightarrow> (t, c + he_c he, joined p (value_of (he_t he) (he_c he) (he_p he))))"

lemma headerAppendEntry_alpha:
  assumes "hdr_ok h" "storable he" "alpha h (he_tag he) = Some (he_t he, c, p)"
    and "\<forall>e\<in>set (h_index h). \<exists>p. exact e p" "he_t he \<noteq> RPM_STRING_TYPE" "he_t he \<noteq> RPM_I18NSTRING_TYPE"
    and "count_ok (c + he_c he)"
  obtains h' where "headerAppendEntry h he = ok (h', True)" "hdr_ok h'"
    "alpha h' = (alpha h)(he_tag he \<mapsto> appended (he_t he, c, p) he)" "h_blob h' = h_blob h"
    "\<forall>e\<in>set (h_index h'). \<exists>p. exact e p"
proof -
  obtain d where d: "wire (he_t he) (he_c he) (he_p he) = Some d" using assms(2) by (auto simp: storable_def)
  have hc: "count_ok (he_c he)" using assms(2) by (simp add: storable_def)
  obtain i where i: "findEntry h (he_tag he) (he_t he) = ok (headerSort h, Some i)" "i < length (h_index h)"
      "e_tag (h_index (headerSort h) ! i) = he_tag he" "e_type (h_index (headerSort h) ! i) = he_t he"
      "e_count (h_index (headerSort h) ! i) = c" "h_index (headerSort h) ! i \<in> set (h_index h)"
      "entry_value h (h_index (headerSort h) ! i) = p"
    using mod_entry[OF assms(1-3)] by metis
  let ?s = "headerSort h" let ?e = "h_index ?s ! i"
  have s: "hdr_ok ?s" by (rule hdr_ok_sort[OF assms(1)])
  obtain p0 where ex: "exact ?e p0" using assms(4) i(6) by blast
  then obtain d0 where d0: "wire (he_t he) c p0 = Some d0" "e_data ?e = HHeap d0" "e_length ?e = length d0" "count_ok c"
    using i(4,5) by (auto simp: exact_def)
  have p: "p = value_of (he_t he) c p0"
    using holds_value[OF exact_holds[OF ex], of h] i(3-7) assms(2) by (simp add: storable_def user_tag_def)
  let ?e' = "(grown ?e (d0 @ d) (length d))\<lparr>e_count := c + he_c he\<rparr>"
  have m: "headerAppendEntry h he = ok (?s\<lparr>h_index := (h_index ?s)[i := ?e']\<rparr>, True)"
    using i(1,5) grabData_parts[OF d hc] d0(2,3) assms(5,6)
    by (simp add: headerAppendEntry_def Let_def kept_def rd_bytes_def guardC_def)
  have u: "unat (c + he_c he) = unat c + unat (he_c he)" by (rule count_ok_sum[OF d0(4) hc])
  let ?q = "joined (value_of (he_t he) c p0) (value_of (he_t he) (he_c he) (he_p he))"
  have e': "exact ?e' ?q"
    using wire_joined(1)[OF d0(1) d assms(5) u] d0(3) i(4) assms(7) by (simp add: exact_def grown_def)
  have t: "e_tag ?e' = e_tag ?e" "i < length (h_index ?s)" using i(2) by (simp_all add: grown_def)
  have r: "\<not> region_tag (e_tag ?e')" using assms(2) i(3) by (simp add: storable_def user_tag_def grown_def)
  have "alpha (?s\<lparr>h_index := (h_index ?s)[i := ?e']\<rparr>) = (alpha h)(he_tag he \<mapsto> appended (he_t he, c, p) he)"
    using hdr_ok_update(2)[OF s _ t(2,1) exact_holds[OF e'] r] alpha_sort[OF assms(1)] i(3,4) p
      wire_joined(2)[OF d0(1) d assms(5) u] by (simp add: appended_def grown_def)
  moreover have "\<forall>x\<in>set ((h_index ?s)[i := ?e']). \<exists>p. exact x p"
    using set_update_subset_insert[of "h_index ?s" i ?e'] assms(4) e' by fastforce
  ultimately show ?thesis using that[OF m hdr_ok_update(1)[OF s _ t(2,1) exact_holds[OF e'] r]] by simp
qed

end
