(* ===== verification/HdrStore.thy ===== *)
theory HdrStore
  imports HdrThms
begin

text \<open>
  The header store refines a finite map: every sequence of puts, appends, modifications, deletions
  and lookups on a header made by \<open>headerNew\<close> has the results, and leaves the contents, that it has
  on a map from tags to typed values. Also here: copying tags between headers, and what the store
  does outside of that: 64-bit values and appending to padded entries.
\<close>

section \<open>Operations and their meaning on a map\<close>

datatype hdr_op = Put HE | Mod HE | Del u32 | Get u32

datatype hdr_res = RBool bool | RInt int | RGot HE bool

type_synonym store = "u32 \<Rightarrow> (u32 \<times> u32 \<times> tagData) option"

fun run_op :: "extensions \<Rightarrow> string option \<Rightarrow> Header \<Rightarrow> hdr_op \<Rightarrow> (Header \<times> hdr_res) outcome" where
  "run_op exts lang h (Put he) = andThen (headerPut h he) (\<lambda>(h, rc). ok (h, RBool rc))"
| "run_op exts lang h (Mod he) = andThen (headerMod h he) (\<lambda>(h, rc). ok (h, RBool rc))"
| "run_op exts lang h (Del t) = andThen (headerDel h (he_zero\<lparr>he_tag := t\<rparr>)) (\<lambda>(h, rc). ok (h, RInt rc))"
| "run_op exts lang h (Get t) =
     andThen (headerGet exts lang h (he_zero\<lparr>he_tag := t\<rparr>) True True) (\<lambda>(h, he, rc). ok (h, RGot he rc))"

fun run_ops :: "extensions \<Rightarrow> string option \<Rightarrow> Header \<Rightarrow> hdr_op list \<Rightarrow> (Header \<times> hdr_res list) outcome" where
  "run_ops exts lang h [] = ok (h, [])"
| "run_ops exts lang h (x # xs) =
     andThen (run_op exts lang h x) (\<lambda>(h, r). andThen (run_ops exts lang h xs) (\<lambda>(h, rs). ok (h, r # rs)))"

fun spec_op :: "store \<Rightarrow> hdr_op \<Rightarrow> store \<times> hdr_res" where
  "spec_op m (Put he) =
     (m(he_tag he \<mapsto> (case m (he_tag he) of None \<Rightarrow> val he | Some v \<Rightarrow> appended v he)), RBool True)"
| "spec_op m (Mod he) = (m(he_tag he \<mapsto> val he), RBool True)"
| "spec_op m (Del t) = (m(t := None), RInt (if m t = None then 1 else 0))"
| "spec_op m (Get t) =
     (m, case m t of None \<Rightarrow> RGot (he_zero\<lparr>he_tag := t\<rparr>) False | Some v \<Rightarrow> RGot (found t v) True)"

fun spec_ops :: "store \<Rightarrow> hdr_op list \<Rightarrow> store \<times> hdr_res list" where
  "spec_ops m [] = (m, [])"
| "spec_ops m (x # xs) = (let (m, r) = spec_op m x; (m, rs) = spec_ops m xs in (m, r # rs))"

text \<open>
  The operations a client may do. A put of a tag that is there must ask for appending, to a vector of
  strings or numbers of the same type; a modification keeps the type.
\<close>

fun valid_op :: "store \<Rightarrow> hdr_op \<Rightarrow> bool" where
  "valid_op m (Put he) =
     (storable he \<and>
      (case m (he_tag he) of None \<Rightarrow> True
       | Some (t, c, p) \<Rightarrow> he_append he \<and> t = he_t he \<and> t \<noteq> RPM_STRING_TYPE \<and> t \<noteq> RPM_I18NSTRING_TYPE \<and>
           count_ok (c + he_c he)))"
| "valid_op m (Mod he) =
     (storable he \<and> (case m (he_tag he) of None \<Rightarrow> False | Some (t, c, p) \<Rightarrow> t = he_t he))"
| "valid_op m (Del t) = user_tag t"
| "valid_op m (Get t) = user_tag t"

fun valid_ops :: "store \<Rightarrow> hdr_op list \<Rightarrow> bool" where
  "valid_ops m [] = True"
| "valid_ops m (x # xs) = (valid_op m x \<and> valid_ops (fst (spec_op m x)) xs)"

section \<open>The simulation\<close>

definition sim :: "Header \<Rightarrow> store \<Rightarrow> bool" where
  "sim h m \<longleftrightarrow> hdr_ok h \<and> (\<forall>e\<in>set (h_index h). \<exists>p. exact e p) \<and> alpha h = m"

lemma sim_new: "sim headerNew Map.empty"
  by (auto simp: sim_def hdr_ok_def hdr_inv_def headerNew_def alpha_def idx.ordered_def)

lemma sim_sort: "sim h m \<Longrightarrow> sim (headerSort h) m"
  by (simp add: sim_def hdr_ok_sort alpha_sort)

lemma sim_tags: "sim h m \<Longrightarrow> \<not> region_tag t \<Longrightarrow> t \<in> tags h \<longleftrightarrow> m t \<noteq> None"
  using alpha_tags[of t h] by (simp add: sim_def)

lemma new_entry_exact: "storable he \<Longrightarrow> exact (new_entry he) (he_p he)"
  by (auto simp: exact_def storable_def new_entry_def Let_def)

text \<open>What each operation does to the list of entries, as far as \<open>exact\<close> is concerned.\<close>

lemma sim_add:
  assumes "sim h m" "storable he" "m (he_tag he) = None"
  obtains h' where "headerAddEntry h he = ok (h', True)" "sim h' (m(he_tag he \<mapsto> val he))"
proof -
  have t: "he_tag he \<notin> tags h" using sim_tags[OF assms(1)] assms(2,3) by (simp add: storable_def user_tag_def)
  obtain h' where h': "headerAddEntry h he = ok (h', True)" "hdr_ok h'" "alpha h' = (alpha h)(he_tag he \<mapsto> val he)"
    using headerAddEntry_alpha[OF _ assms(2) t] assms(1) by (auto simp: sim_def)
  have "h_index h' = h_index h @ [new_entry he]" using headerAddEntry_storable[OF assms(2), of h] h'(1) by auto
  then show ?thesis using that[OF h'(1)] h'(2,3) assms(1) new_entry_exact[OF assms(2)] by (auto simp: sim_def)
qed

lemma sim_put:
  assumes "sim h m" "valid_op m (Put he)"
  shows "\<exists>h'. headerPut h he = ok (h', True) \<and> sim h' (fst (spec_op m (Put he)))"
proof (cases "m (he_tag he)")
  case None
  have s: "storable he" using assms(2) by simp
  have ok': "hdr_ok h" and t: "he_tag he \<notin> tags h" "small_tag (he_tag he)"
    using assms(1) sim_tags[OF assms(1)] None s by (simp_all add: sim_def storable_def user_tag_def)
  obtain h' where "headerAddEntry h he = ok (h', True)" "sim h' (m(he_tag he \<mapsto> val he))"
    by (rule sim_add[OF assms(1) s None])
  moreover obtain h'' where "headerAddEntry (headerSort h) he = ok (h'', True)" "sim h'' (m(he_tag he \<mapsto> val he))"
    by (rule sim_add[OF sim_sort[OF assms(1)] s None])
  ultimately show ?thesis
    using None findEntry_absent[OF ok' t(2,1)] by (simp add: headerPut_def headerAddOrAppendEntry_def)
next
  case (Some v)
  obtain c p where v: "v = (he_t he, c, p)" "he_append he" "storable he" "he_t he \<noteq> RPM_STRING_TYPE"
      "he_t he \<noteq> RPM_I18NSTRING_TYPE" "count_ok (c + he_c he)"
    using assms(2) Some by (cases v) auto
  have sm: "hdr_ok (headerSort h)" "alpha (headerSort h) (he_tag he) = Some (he_t he, c, p)"
    "\<forall>e\<in>set (h_index (headerSort h)). \<exists>p. exact e p" "alpha (headerSort h) = m"
    using sim_sort[OF assms(1)] Some v(1) by (simp_all add: sim_def)
  obtain h' where h': "headerAppendEntry (headerSort h) he = ok (h', True)" "hdr_ok h'"
      "alpha h' = m(he_tag he \<mapsto> appended (he_t he, c, p) he)" "\<forall>e\<in>set (h_index h'). \<exists>p. exact e p"
    using headerAppendEntry_alpha[OF sm(1) v(3) sm(2,3) v(4-6)] sm(4) by metis
  have "hdr_ok h" "alpha h (he_tag he) = Some (he_t he, c, p)" using assms(1) Some v(1) by (simp_all add: sim_def)
  then obtain i where "findEntry h (he_tag he) (he_t he) = ok (headerSort h, Some i)" using mod_entry v(3) by metis
  then show ?thesis
    using h' v(1,2) Some by (simp add: headerPut_def headerAddOrAppendEntry_def sim_def)
qed

lemma sim_mod:
  assumes "sim h m" "valid_op m (Mod he)"
  shows "\<exists>h'. headerMod h he = ok (h', True) \<and> sim h' (fst (spec_op m (Mod he)))"
proof -
  obtain c p where v: "m (he_tag he) = Some (he_t he, c, p)" "storable he"
    using assms(2) by (auto split: option.splits prod.splits)
  have "hdr_ok h" "alpha h (he_tag he) = Some (he_t he, c, p)" using assms(1) v(1) by (simp_all add: sim_def)
  then obtain h' where h': "headerModifyEntry h he = ok (h', True)" "hdr_ok h'"
      "alpha h' = (alpha h)(he_tag he \<mapsto> val he)" "\<forall>e\<in>set (h_index h'). e \<in> set (h_index h) \<or> exact e (he_p he)"
    using headerModifyEntry_alpha v(2) by blast
  then show ?thesis using assms(1) by (auto simp: headerMod_def sim_def)
qed

lemma sim_del:
  assumes "sim h m" "user_tag t"
  shows "\<exists>h'. headerRemoveEntry h t = ok (h', if m t = None then 1 else 0) \<and> sim h' (m(t := None))"
proof -
  have h: "hdr_ok h" "alpha h = m" using assms(1) by (simp_all add: sim_def)
  obtain h' where h': "headerRemoveEntry h t = ok (h', if alpha h t = None then 1 else 0)" "hdr_ok h'"
      "alpha h' = (alpha h)(t := None)"
    by (rule headerRemoveEntry_alpha[OF h(1) assms(2)])
  then have "set (h_index h') \<subseteq> set (h_index h)"
    using headerRemoveEntry_filter[OF hdr_ok_inv[OF h(1)], of t] assms(2) by (auto simp: user_tag_def)
  then show ?thesis using h' assms(1) h(2) by (auto simp: sim_def)
qed

lemma sim_get:
  assumes "sim h m" "user_tag t"
  shows "\<exists>h'. run_op exts lang h (Get t) = ok (h', snd (spec_op m (Get t))) \<and> sim h' m"
  using headerGet_alpha[of h "he_zero\<lparr>he_tag := t\<rparr>" True exts True lang] assms sim_sort[OF assms(1)]
  by (auto simp: sim_def split: option.splits)

lemma sim_op:
  assumes "sim h m" "valid_op m x"
  shows "\<exists>h'. run_op exts lang h x = ok (h', snd (spec_op m x)) \<and> sim h' (fst (spec_op m x))"
proof (cases x)
  case (Put he)
  then show ?thesis using sim_put[OF assms(1)] assms(2) by fastforce
next
  case (Mod he)
  then show ?thesis using sim_mod[OF assms(1)] assms(2) by fastforce
next
  case (Del t)
  then show ?thesis using sim_del[OF assms(1), of t] assms(2) by (auto simp: headerDel_def he_zero_def)
next
  case (Get t)
  then show ?thesis using sim_get[OF assms(1), of t] assms(2) by simp
qed

lemma sim_ops:
  "sim h m \<Longrightarrow> valid_ops m xs \<Longrightarrow>
     \<exists>h'. run_ops exts lang h xs = ok (h', snd (spec_ops m xs)) \<and> sim h' (fst (spec_ops m xs))"
proof (induction xs arbitrary: h m)
  case (Cons x xs)
  obtain h' where h': "run_op exts lang h x = ok (h', snd (spec_op m x))" "sim h' (fst (spec_op m x))"
    using sim_op[OF Cons.prems(1)] Cons.prems(2) by (meson valid_ops.simps(2))
  then show ?case using Cons.IH[OF h'(2)] Cons.prems(2) by (auto simp: split_beta)
qed simp

text \<open>C4: A header is a map from tags to typed values. The operations are lookups and deletions of
  any tag, puts of a tag that is not there, puts that append to a vector of strings or numbers of the
  type the tag has, and modifications of a tag that is there by a value of its type. Tags are below 2^31
  and not those of regions, and the values are strings and vectors of strings, without a NUL inside,
  binary data and numbers of 8 to 32 bits, up to the size limit of the format. (A second put of a tag
  without appending makes a duplicate, and the header is no map then; a modification of a tag that is
  not there fails; 64-bit values abort the process.) Every sequence of such operations, started on the
  header that \<open>headerNew\<close> makes, runs without a fault, returns what the same operations
  return on a finite map, and ends in a header that holds the entries of the final map; the index stays
  searchable.\<close>

theorem header_refines_map:
  assumes "valid_ops Map.empty xs"
  shows "\<exists>h. run_ops exts lang headerNew xs = ok (h, snd (spec_ops Map.empty xs)) \<and>
     alpha h = fst (spec_ops Map.empty xs) \<and> hdr_inv h"
  using sim_ops[OF sim_new assms, of exts lang] by (auto simp: sim_def hdr_ok_def)

definition demo_ops :: "hdr_op list" where
  "demo_ops =
     [Put \<lparr>he_tag = 1004, he_t = RPM_UINT32_TYPE, he_p = PMem (map char_of [1, 0, 0, 0, 2, 0, 0, 0 :: nat]),
           he_c = 2, he_append = False, he_freeData = False\<rparr>,
      Put \<lparr>he_tag = 1000, he_t = RPM_STRING_TYPE, he_p = PMem (''bash'' @ [NUL]), he_c = 1, he_append = False,
           he_freeData = False\<rparr>,
      Put \<lparr>he_tag = 1117, he_t = RPM_STRING_ARRAY_TYPE, he_p = PArgv [''a'', ''b''], he_c = 2, he_append = True,
           he_freeData = False\<rparr>,
      Put \<lparr>he_tag = 1117, he_t = RPM_STRING_ARRAY_TYPE, he_p = PArgv [''c''], he_c = 1, he_append = True,
           he_freeData = False\<rparr>,
      Mod \<lparr>he_tag = 1000, he_t = RPM_STRING_TYPE, he_p = PMem (''zsh'' @ [NUL]), he_c = 1, he_append = False,
           he_freeData = False\<rparr>,
      Get 1117, Del 1004, Get 1004, Get 1000]"

lemmas demo_simps = demo_ops_def storable_def user_tag_def small_tag_def region_tag_def HEADER_IMAGE_def
  HEADER_REGIONS_def count_ok_def hdrchkData_def wire_def numeric_def is_argv_def num_size_def rpm_types
  val_def appended_def

lemma demo_ops_valid: "valid_ops Map.empty demo_ops"
  by (simp add: demo_simps)

theorem header_refines_map_witness:
  "\<exists>h. run_ops (\<lambda>_. None) None headerNew demo_ops = ok (h, snd (spec_ops Map.empty demo_ops)) \<and>
     alpha h = fst (spec_ops Map.empty demo_ops) \<and> hdr_inv h"
  by (rule header_refines_map) (rule demo_ops_valid)

section \<open>Copying tags\<close>

lemma value_idem: "value_of t c (value_of t c p) = value_of t c p"
proof (cases p)
  case (PMem m)
  have "NUL \<notin> set (takeWhile (\<lambda>x. x \<noteq> NUL) m)" using set_takeWhileD by fastforce
  then have "takeWhile (\<lambda>x. x \<noteq> NUL) (takeWhile (\<lambda>x. x \<noteq> NUL) m @ [NUL]) = takeWhile (\<lambda>x. x \<noteq> NUL) m"
    by (induction m) auto
  then show ?thesis using PMem by (simp add: value_of_def)
qed (simp_all add: value_of_def)

text \<open>What is found can be stored, and is stored as it was.\<close>

lemma found_storable:
  assumes "hdr_ok h" "user_tag t" "alpha h t = Some v"
  shows "storable (found t v)" "val (found t v) = v" "he_append (found t v) = False" "he_tag (found t v) = t"
proof -
  obtain e where e: "e \<in> set (h_index h)" "e_tag e = t" "v = (e_type e, e_count e, entry_value h e)"
    using assms(3) by (auto simp: alpha_def find_Some_iff dest: nth_mem split: if_splits)
  obtain p where p: "holds h e p" "\<not> ENTRY_IS_REGION e"
    using assms(1,2) e(1,2) by (auto simp: hdr_ok_def user_tag_def)
  then have "wire (e_type e) (e_count e) (value_of (e_type e) (e_count e) p) \<noteq> None" "count_ok (e_count e)"
    using wire_value by (auto simp: holds_def)
  then show "storable (found t v)" "val (found t v) = v" "he_append (found t v) = False" "he_tag (found t v) = t"
    using holds_value[OF p] e(3) assms(2) by (simp_all add: storable_def val_def found_def value_idem)
qed

lemma headerIsEntry_alpha:
  "hdr_ok h \<Longrightarrow> user_tag t \<Longrightarrow> headerIsEntry h t = ok (headerSort h, alpha h t \<noteq> None)"
  using findEntry_ok[of h t] by (auto simp: headerIsEntry_def)

text \<open>Copying a list of tags gives the target the tags it does not have, with the types, counts and
  values of the source, and leaves every other tag of the target, and the source, as they were.\<close>

theorem headerCopyTags_copies:
  assumes "hdr_ok from" "hdr_ok to"
    and "\<forall>t\<in>set ts. user_tag t \<and> exts t = None \<and> (\<forall>c p. alpha from t \<noteq> Some (RPM_I18NSTRING_TYPE, c, p))"
  shows "\<exists>from' to'. headerCopyTags exts lang from to ts = ok (from', to') \<and>
     hdr_ok from' \<and> alpha from' = alpha from \<and> hdr_ok to' \<and>
     (\<forall>t. alpha to' t = (if t \<in> set ts \<and> alpha to t = None then alpha from t else alpha to t))"
  using assms
proof (induction ts arbitrary: "from" to)
  case (Cons t ts)
  have t: "user_tag t" "exts t = None" "\<And>c p. alpha from t \<noteq> Some (RPM_I18NSTRING_TYPE, c, p)"
    using Cons.prems(3) by auto
  let ?f = "headerSort from" and ?t = "headerSort to"
  have f: "hdr_ok ?f" "alpha ?f = alpha from" "hdr_ok ?t" "alpha ?t = alpha to"
    using Cons.prems hdr_ok_sort alpha_sort by blast+
  have is_entry: "headerIsEntry to t = ok (?t, alpha to t \<noteq> None)"
    by (rule headerIsEntry_alpha[OF Cons.prems(2) t(1)])
  have get: "headerGet exts lang from (he_zero\<lparr>he_tag := t\<rparr>) False False =
      ok (?f, (case alpha from t of None \<Rightarrow> he_zero\<lparr>he_tag := t\<rparr> | Some v \<Rightarrow> found t v), alpha from t \<noteq> None)"
    using headerGet_alpha[of "from" "he_zero\<lparr>he_tag := t\<rparr>" False exts False lang] Cons.prems(1) t
    by (cases "alpha from t") (simp_all add: he_zero_def)
  consider "alpha to t \<noteq> None" | "alpha to t = None" "alpha from t = None"
    | v where "alpha to t = None" "alpha from t = Some v" by blast
  then show ?case
  proof cases
    case 1
    have "\<forall>u\<in>set ts. user_tag u \<and> exts u = None \<and> (\<forall>c p. alpha from u \<noteq> Some (RPM_I18NSTRING_TYPE, c, p))"
      using Cons.prems(3) by simp
    from Cons.IH[OF Cons.prems(1) f(3) this] show ?thesis using 1 is_entry f(4) by auto
  next
    case 2
    have "\<forall>u\<in>set ts. user_tag u \<and> exts u = None \<and> (\<forall>c p. alpha ?f u \<noteq> Some (RPM_I18NSTRING_TYPE, c, p))"
      using Cons.prems(3) f(2) by simp
    from Cons.IH[OF f(1,3) this] show ?thesis using 2 is_entry get f(2,4) by auto
  next
    case 3
    note v = found_storable[OF Cons.prems(1) t(1) 3(2)]
    have "t \<notin> tags ?t" using alpha_tags[of t ?t] f(4) 3(1) t(1) by (simp add: user_tag_def)
    then obtain to1 where to1: "headerAddEntry ?t (found t v) = ok (to1, True)" "hdr_ok to1"
        "alpha to1 = (alpha to)(t \<mapsto> v)"
      using headerAddEntry_alpha[OF f(3) v(1)] v(2,4) f(4) by metis
    have "\<forall>u\<in>set ts. user_tag u \<and> exts u = None \<and> (\<forall>c p. alpha ?f u \<noteq> Some (RPM_I18NSTRING_TYPE, c, p))"
      using Cons.prems(3) f(2) by simp
    from Cons.IH[OF f(1) to1(2) this] show ?thesis
      using 3 is_entry get f(2) to1(1,3) v(3) by (auto simp: headerPut_def)
  qed
qed auto

definition demo_from :: Header where
  "demo_from = (case run_ops (\<lambda>_. None) None headerNew (take 2 demo_ops) of Inr (h, _) \<Rightarrow> h | Inl _ \<Rightarrow> headerNew)"

lemma demo_from_sim: "sim demo_from (fst (spec_ops Map.empty (take 2 demo_ops)))"
proof -
  have "valid_ops Map.empty (take 2 demo_ops)" by (simp add: demo_simps)
  from sim_ops[OF sim_new this, of "\<lambda>_. None" None] show ?thesis by (auto simp: demo_from_def)
qed

theorem headerCopyTags_copies_witness:
  "\<exists>from' to'. headerCopyTags (\<lambda>_. None) None demo_from headerNew [1000, 1002] = ok (from', to') \<and>
     hdr_ok from' \<and> alpha from' = alpha demo_from \<and> hdr_ok to' \<and>
     (\<forall>t. alpha to' t = (if t \<in> set [1000, 1002] \<and> alpha headerNew t = None then alpha demo_from t else alpha headerNew t))"
proof (rule headerCopyTags_copies)
  show "hdr_ok demo_from" "hdr_ok headerNew" using sim_new demo_from_sim by (simp_all add: sim_def)
  have "alpha demo_from = fst (spec_ops Map.empty (take 2 demo_ops))" using demo_from_sim by (simp add: sim_def)
  then show "\<forall>t\<in>set [1000, 1002]. user_tag t \<and> None = None \<and>
      (\<forall>c p. alpha demo_from t \<noteq> Some (RPM_I18NSTRING_TYPE, c, p))" by (simp add: demo_simps)
qed

section \<open>64-bit values\<close>

text \<open>Storing a value of the 64-bit type aborts: the size of its data is 8 bytes an element, and the
  assertion of the byte swapping asks for 4.\<close>

theorem headerPut_uint64_aborts:
  assumes "he_t he = RPM_UINT64_TYPE" "0 < unat (he_c he)" "unat (he_c he) < 2 ^ 29" "\<not> he_append he"
  shows "headerPut h he = Inl AssertFail"
proof -
  have "unat (word_of_int 8 * he_c he :: u32) = 8 * unat (he_c he)"
    using assms(3) by (auto simp: unat_word_ariths)
  moreover have "he_c he \<noteq> 0" using assms(2) by auto
  moreover have "\<not> hdrchkData (unat (he_c he))" using assms(3) by (simp add: hdrchkData_def)
  ultimately show ?thesis
    using assms
    by (simp add: headerPut_def headerAddEntry_def hdrchkType_def grabData_def dataLength_def type_size_def slot_def
        typeSizes_def rpm_types past_end_def copyData_def tagSwab_def Let_def guardC_def)
qed

theorem headerPut_uint64_aborts_witness:
  "headerPut headerNew (he_zero\<lparr>he_tag := 1009, he_t := RPM_UINT64_TYPE, he_c := 1, he_p := PMem (replicate 8 NUL)\<rparr>) =
     Inl AssertFail"
  by (rule headerPut_uint64_aborts) (simp_all add: he_zero_def)

end
