(* ===== verification/HdrLoad.thy ===== *)
theory HdrLoad
  imports HdrStore
begin

text \<open>
  Writing a header built in memory and loading it again. \<open>infos\<close> and \<open>data_of\<close> are the two parts of
  the image that \<open>headerUnload\<close> writes, \<open>loaded\<close> the entries that \<open>headerLoad\<close> makes of it; the
  loaded header holds the same map.
\<close>

section \<open>The image\<close>

definition pad :: "u32 \<Rightarrow> nat \<Rightarrow> nat" where
  "pad t n = (if n mod num_size t = 0 then 0 else num_size t - n mod num_size t)"

definition ebytes :: "indexEntry \<Rightarrow> string" where
  "ebytes e = (case e_data e of HHeap d \<Rightarrow> d | _ \<Rightarrow> [])"

text \<open>The entries with their offsets, from offset \<open>n\<close> on.\<close>

fun place :: "nat \<Rightarrow> indexEntry list \<Rightarrow> (nat \<times> indexEntry) list" where
  "place n [] = []"
| "place n (e # es) = (n + pad (e_type e) n, e) # place (n + pad (e_type e) n + e_length e) es"

definition info :: "nat \<times> indexEntry \<Rightarrow> string" where
  "info x = wr_info (e_tag (snd x)) (e_type (snd x)) (of_nat (fst x)) (e_count (snd x))"

definition infos :: "(nat \<times> indexEntry) list \<Rightarrow> string" where
  "infos xs = concat (map info xs)"

fun data_of :: "nat \<Rightarrow> indexEntry list \<Rightarrow> string" where
  "data_of n [] = []"
| "data_of n (e # es) =
     replicate (pad (e_type e) n) NUL @ ebytes e @ data_of (n + pad (e_type e) n + e_length e) es"

text \<open>An entry made in memory, and the size of a header of such entries.\<close>

definition drip :: "indexEntry \<Rightarrow> bool" where
  "drip e \<longleftrightarrow> e_offset e = 0 \<and> \<not> region_tag (e_tag e) \<and> (\<exists>p. exact e p)"

definition fits :: "indexEntry list \<Rightarrow> bool" where
  "fits es \<longleftrightarrow> length es < 2 ^ 24 \<and> sum_list (map (\<lambda>e. e_length e + 3) es) < 2 ^ 30"

lemma wire_types:
  assumes "wire t c p = Some d"
  shows "t \<in> {1, 2, 3, 4, 6, 7, 8, 9}"
  using assms by (auto simp: wire_def numeric_def is_argv_def rpm_types split: tagData.splits if_splits)

lemma align_diff_pad: "wire t c p = Some d \<Longrightarrow> align_diff t n = ok (pad t n)"
  using wire_types[of t c p d]
  by (auto simp: align_diff_def type_size_def typeSizes_def slot_def pad_def num_size_def rpm_types)

lemma align_ok: "wire t c p = Some d \<Longrightarrow> hdrchkAlign t n \<longleftrightarrow> n mod num_size t \<noteq> 0"
  using wire_types[of t c p d]
  by (auto simp: hdrchkAlign_def rpm_typeAlign_def num_size_def rpm_types)

lemma drip_facts:
  assumes "drip e"
  obtains d p where "wire (e_type e) (e_count e) p = Some d" "e_data e = HHeap d" "e_length e = length d" "d \<noteq> []"
    "count_ok (e_count e)" "ebytes e = d"
proof -
  obtain p d where p: "wire (e_type e) (e_count e) p = Some d" "e_data e = HHeap d" "e_length e = length d" "count_ok (e_count e)"
    using assms by (auto simp: drip_def exact_def)
  have "d \<noteq> []" using grabData_parts(3)[of "he_zero\<lparr>he_t := e_type e, he_c := e_count e, he_p := p\<rparr>" d] p by (simp add: he_zero_def)
  then show ?thesis using that p by (simp add: ebytes_def)
qed

lemma pad_le: "pad t n \<le> 3"
  by (auto simp: pad_def num_size_def)

lemma pad_aligns: "(n + pad t n) mod num_size t = 0"
proof (cases "n mod num_size t = 0")
  case False
  let ?k = "num_size t"
  have "n mod ?k < ?k" "?k * (n div ?k) + n mod ?k = n" by (simp_all add: num_size_def)
  then have "n + (?k - n mod ?k) = ?k * (n div ?k) + ?k" by linarith
  then show ?thesis using False by (simp add: pad_def)
qed (simp add: pad_def)

lemma pad_aligned: "n mod num_size t = 0 \<Longrightarrow> pad t n = 0"
  by (simp add: pad_def)

lemma drip_length: "drip e \<Longrightarrow> length (ebytes e) = e_length e \<and> 0 < e_length e"
  using drip_facts by (metis length_greater_0_conv)

lemma length_wr_info [simp]: "length (wr_info a b c d) = 16"
  by (simp add: wr_info_def)

lemma length_infos [simp]: "length (infos xs) = 16 * length xs"
  by (induction xs) (simp_all add: infos_def info_def)

lemma length_place [simp]: "length (place n es) = length es"
  by (induction es arbitrary: n) simp_all

lemma infos_Cons [simp]: "infos (x # xs) = info x @ infos xs" "infos [] = []"
  by (simp_all add: infos_def)

lemma data_bound:
  "\<forall>e\<in>set es. drip e \<Longrightarrow> length (data_of n es) \<le> sum_list (map (\<lambda>e. e_length e + 3) es)"
proof (induction es arbitrary: n)
  case (Cons e es)
  then have "length (data_of (n + pad (e_type e) n + e_length e) es) \<le> sum_list (map (\<lambda>e. e_length e + 3) es)" by simp
  moreover have "length (ebytes e) = e_length e" using drip_length Cons.prems by simp
  ultimately show ?case using pad_le[of "e_type e" n] by simp
qed simp

section \<open>Writing\<close>

lemma unload_sizes_drips:
  "\<forall>e\<in>set es. drip e \<Longrightarrow> unat (us_dl s) + length (data_of (unat (us_dl s)) es) < 2 ^ 32 \<Longrightarrow>
     unload_sizes legacy first es s =
       ok (s\<lparr>us_il := us_il s + of_nat (length es), us_dl := us_dl s + of_nat (length (data_of (unat (us_dl s)) es))\<rparr>)"
proof (induction es arbitrary: s first)
  case (Cons e es)
  obtain d p where e: "wire (e_type e) (e_count e) p = Some d" "e_data e = HHeap d" "e_length e = length d" "d \<noteq> []"
    "ebytes e = d" using drip_facts[of e] Cons.prems(1) by (metis list.set_intros(1))
  let ?n = "unat (us_dl s)" let ?p = "pad (e_type e) ?n"
  let ?s = "s\<lparr>us_il := us_il s + 1, us_dl := us_dl s + of_nat ?p + of_nat (length d)\<rparr>"
  have "?n + ?p + length d < 2 ^ 32" using Cons.prems(2) e by simp
  then have u: "unat (us_dl ?s) = ?n + ?p + length d"
    by (simp add: unat_word_ariths unat_of_nat)
  have se: "size_entry False e s = ok ?s"
    by (simp add: size_entry_def align_diff_pad[OF e(1)] e(3))
  have "unload_sizes legacy False es ?s =
      ok (?s\<lparr>us_il := us_il ?s + of_nat (length es), us_dl := us_dl ?s + of_nat (length (data_of (unat (us_dl ?s)) es))\<rparr>)"
    by (rule Cons.IH) (use Cons.prems e u in auto)
  moreover have "\<not> ENTRY_IS_REGION e" "\<not> deleted e"
    using Cons.prems(1) e by (auto simp: drip_def deleted_def)
  ultimately show ?case using se e u by (simp add: algebra_simps)
qed simp

lemma unload_write_drips:
  "\<forall>e\<in>set es. drip e \<Longrightarrow>
     unload_write h s first es pes te = ok (pes @ infos (place (length te) es), te @ data_of (length te) es)"
proof (induction es arbitrary: first pes te)
  case (Cons e es)
  obtain d p where e: "wire (e_type e) (e_count e) p = Some d" "e_data e = HHeap d" "e_length e = length d" "d \<noteq> []"
    "ebytes e = d" using drip_facts[of e] Cons.prems(1) by (metis list.set_intros(1))
  have "\<not> ENTRY_IS_REGION e" "\<not> deleted e"
    using Cons.prems(1) e by (auto simp: drip_def deleted_def)
  then show ?case
    using Cons.IH[of False] Cons.prems e align_diff_pad[OF e(1)]
    by (simp add: kept_def rd_bytes_def guardC_def info_def algebra_simps)
qed simp

text \<open>The image of a header of drips.\<close>

definition image_of :: "indexEntry list \<Rightarrow> string" where
  "image_of es = htonl (of_nat (length es)) @ htonl (of_nat (length (data_of 0 es))) @ infos (place 0 es) @ data_of 0 es"

lemma small_counts:
  assumes "fits es" "\<forall>e\<in>set es. drip e"
  shows "unat (of_nat (length es) :: u32) = length es" "unat (of_nat (length (data_of 0 es)) :: u32) = length (data_of 0 es)"
    "\<not> hdrchkTags (length es)" "\<not> hdrchkData (length (data_of 0 es))" "length (data_of 0 es) < 2 ^ 30"
proof -
  have a: "length es < 2 ^ 24" "length (data_of 0 es) < 2 ^ 30"
    using assms data_bound[of es 0] by (auto simp: fits_def)
  then show "unat (of_nat (length es) :: u32) = length es" "unat (of_nat (length (data_of 0 es)) :: u32) = length (data_of 0 es)"
    "\<not> hdrchkTags (length es)" "\<not> hdrchkData (length (data_of 0 es))" "length (data_of 0 es) < 2 ^ 30"
    by (simp_all add: unat_of_nat hdrchkTags_def hdrchkData_def)
qed

lemma fits_perm: "mset xs = mset ys \<Longrightarrow> fits xs = fits ys"
proof -
  assume a: "mset xs = mset ys"
  have "sum_list (map f xs) = sum_mset (image_mset f (mset xs))" for f :: "indexEntry \<Rightarrow> nat" and xs
    by (simp flip: sum_mset_sum_list)
  then show ?thesis using a mset_eq_length[OF a] by (simp add: fits_def)
qed

lemma headerUnload_drips:
  assumes "\<forall>e\<in>set (h_index h). drip e" "fits (h_index h)"
  defines "es \<equiv> qsort offsetCmp (h_index h)"
  shows "headerUnload h = ok (headerSort (h\<lparr>h_index := es, h_sorted := False\<rparr>), Some (image_of es))"
proof -
  have us: "headerUnsort h = ok (h\<lparr>h_index := es\<rparr>)"
    using assms(1) by (auto simp: headerUnsort_def es_def drip_def)
  have d: "\<forall>e\<in>set es. drip e" using assms(1) by (simp add: es_def)
  have "fits es" using assms(2) fits_perm[of es "h_index h"] by (simp add: es_def)
  note c = small_counts[OF this d]
  let ?s0 = "\<lparr>us_il = 0, us_dl = 0, us_drlen = 0, us_ndribbles = 0\<rparr>"
  have "unload_sizes (h_legacy h) True es ?s0 =
      ok (?s0\<lparr>us_il := us_il ?s0 + of_nat (length es), us_dl := us_dl ?s0 + of_nat (length (data_of (unat (us_dl ?s0)) es))\<rparr>)"
    by (rule unload_sizes_drips[OF d]) (use c(5) in simp)
  then have sz: "unload_sizes (h_legacy h) True es ?s0 =
      ok \<lparr>us_il = of_nat (length es), us_dl = of_nat (length (data_of 0 es)), us_drlen = 0, us_ndribbles = 0\<rparr>"
    by simp
  note wr = unload_write_drips[OF d, of "h\<lparr>h_index := es\<rparr>"]
  show ?thesis
    unfolding headerUnload_def us by (simp add: sz c(1-4) wr image_of_def guardC_def Let_def del: unload_sizes.simps)
qed

section \<open>Loading\<close>

lemma rd_info_mid:
  assumes "length p = off"
  shows "rd_info (p @ wr_info t ty o' c @ s) (int off) = ok \<lparr>i_tag = t, i_type = ty, i_offset = o', i_count = c\<rparr>"
proof -
  have e: "int off + 4 = int (off + 4)" "int off + 8 = int (off + 8)" "int off + 12 = int (off + 12)" by simp_all
  show ?thesis
    unfolding rd_info_def e wr_info_def
    using ntohl_at_mid[of p off t "htonl ty @ htonl o' @ htonl c @ s"]
      ntohl_at_mid[of "p @ htonl t" "off + 4" ty "htonl o' @ htonl c @ s"]
      ntohl_at_mid[of "p @ htonl t @ htonl ty" "off + 8" o' "htonl c @ s"]
      ntohl_at_mid[of "p @ htonl t @ htonl ty @ htonl o'" "off + 12" c s] assms
    by simp
qed

lemma next_offset_mid:
  assumes "length p = off"
  shows "ntohl_at (p @ wr_info t ty o' c @ s) (int off + 8) = ok o'"
proof -
  have "int off + 8 = int (off + 8)" by simp
  then show ?thesis
    using ntohl_at_mid[of "p @ htonl t @ htonl ty" "off + 8" o' "htonl c @ s"] assms by (simp add: wr_info_def)
qed

definition loaded_entry :: "int \<Rightarrow> int \<Rightarrow> nat \<Rightarrow> indexEntry \<Rightarrow> nat \<Rightarrow> indexEntry" where
  "loaded_entry ds rid off e len =
     \<lparr>e_tag = e_tag e, e_type = e_type e, e_offset = rid, e_count = e_count e,
      e_data = HBlob (ds + int off), e_length = len, e_rdlen = 0\<rparr>"

text \<open>The length of a loaded entry reaches to the next one, the alignment of that one included.\<close>

definition start_of :: "nat \<Rightarrow> (nat \<times> indexEntry) list \<Rightarrow> nat" where
  "start_of stop xs = (case xs of [] \<Rightarrow> stop | (off, _) # _ \<Rightarrow> off)"

fun loaded :: "int \<Rightarrow> int \<Rightarrow> nat \<Rightarrow> (nat \<times> indexEntry) list \<Rightarrow> indexEntry list" where
  "loaded ds rid stop [] = []"
| "loaded ds rid stop ((off, e) # xs) = loaded_entry ds rid off e (start_of stop xs - off) # loaded ds rid stop xs"

lemma dataLength_wire:
  assumes "wire t c p = Some d" "count_ok c"
  shows "dataLength t (PMem d) c True (Some (int (length d))) = ok (length d)"
proof (cases "numeric t")
  case True
  have "unat (word_of_int (int (num_size t)) * c :: u32) = unat c * nat (int (num_size t))"
    by (rule unat_mult_size) (use count_ok_bounds[OF assms(2)] num_size_cases[of t] in auto)
  then show ?thesis
    using True type_size_num[OF True] wire_num_length[OF assms(1) True]
    by (auto simp: dataLength_def past_end_def numeric_def rpm_types)
next
  case False
  then consider (str) s where "t = RPM_STRING_TYPE" "c = 1" "NUL \<notin> set s" "d = s @ [NUL]"
    | (arr) ss where "is_argv t" "length ss = unat c" "\<forall>s\<in>set ss. NUL \<notin> set s" "d = cat_strs ss"
  proof (cases p)
    case (PMem m)
    have "NUL \<notin> set (takeWhile (\<lambda>x. x \<noteq> NUL) m)" using set_takeWhileD by fastforce
    then show ?thesis using assms(1) False PMem str by (auto simp: wire_def split: if_splits)
  next
    case (PArgv av)
    then show ?thesis using assms(1) arr[of "take (unat c) av"] by (auto simp: wire_def split: if_splits)
  qed (use assms(1) in \<open>simp add: wire_def\<close>)
  then show ?thesis
  proof cases
    case str
    then show ?thesis
      using str_len_app[of s "Some (1 + int (length s))" "[]" 0] by (simp add: dataLength_def mem_of_def numeral_eq_Suc)
  next
    case arr
    have "strs_len (unat c) (Some (int (length d))) d 0 = ok (length d)"
      using strs_len_cat[OF arr(3), of "Some (int (length d))" "[]" 0] arr(2,4) by simp
    then show ?thesis using arr(1) by (auto simp: dataLength_def is_argv_def mem_of_def rpm_types)
  qed
qed

lemma u32_small: "m < 2 ^ 30 \<Longrightarrow> unat (of_nat m :: u32) = m \<and> uint (of_nat m :: u32) = int m \<and> sint (of_nat m :: u32) = int m"
proof -
  assume a: "m < 2 ^ 30"
  then have u: "unat (of_nat m :: u32) = m" by (simp add: unat_of_nat)
  have "sint (of_nat m :: u32) = signed_take_bit 31 (int m)" by (simp add: signed_of_nat)
  also have "\<dots> = int m" by (rule signed_take_bit_int_eq_self) (use a in auto)
  finally show ?thesis using u by (simp flip: unat_eq_nat_uint) (metis int_nat_eq uint_nat)
qed

lemma place_start: "start_of (n + length (data_of n es)) (place n es) = (case es of [] \<Rightarrow> n | e # _ \<Rightarrow> n + pad (e_type e) n)"
  by (cases es) (simp_all add: start_of_def)

lemma regionSwab_drips:
  assumes "\<forall>e\<in>set es. drip e" "b = pre @ infos (place n es) @ mid @ data_of n es" "length mid = n"
    and "ds = int (length pre + 16 * length es)" "de = int (length b)"
    and "dl = of_nat (start_of (n + length (data_of n es)) (place n es))"
    and "length acc + length es \<le> cap" "n + length (data_of n es) < 2 ^ 30"
  shows "regionSwab b cap (length es) dl (int (length pre)) ds de rid acc =
    ok (rev acc @ loaded ds rid (n + length (data_of n es)) (place n es), of_nat (n + length (data_of n es)))"
  using assms
proof (induction es arbitrary: pre mid n dl acc)
  case Nil
  then show ?case by (simp add: start_of_def)
next
  case (Cons e es)
  obtain d p where e: "wire (e_type e) (e_count e) p = Some d" "e_data e = HHeap d" "e_length e = length d" "d \<noteq> []"
    "count_ok (e_count e)" "ebytes e = d" using drip_facts[of e] Cons.prems(1) by (metis list.set_intros(1))
  let ?t = "e_type e" let ?o = "n + pad ?t n" let ?n2 = "?o + length d"
  let ?stop = "?n2 + length (data_of ?n2 es)"
  let ?o2 = "start_of ?stop (place ?n2 es)"
  have end_eq: "n + length (data_of n (e # es)) = ?stop" using e by simp
  have bnd: "?o < 2 ^ 30" "?stop < 2 ^ 30" "0 < length d" using Cons.prems(8) e end_eq by auto
  have o2: "?n2 \<le> ?o2" "?o2 \<le> ?stop" "es \<noteq> [] \<Longrightarrow> ?o2 < ?stop"
    using Cons.prems(1) drip_length by (auto simp: place_start split: list.splits)
  have dl: "dl = of_nat ?o" using Cons.prems(6) end_eq by (simp add: start_of_def)
  have pi: "b = pre @ wr_info (e_tag e) ?t (of_nat ?o) (e_count e) @ infos (place ?n2 es) @ (mid @ replicate (pad ?t n) NUL @ d) @ data_of ?n2 es"
    using Cons.prems(2) e by (simp add: info_def)
  have ri: "rd_info b (int (length pre)) = ok \<lparr>i_tag = e_tag e, i_type = ?t, i_offset = of_nat ?o, i_count = e_count e\<rparr>"
    unfolding pi by (rule rd_info_mid) simp
  have ds: "ds = int (length pre + 16 + 16 * length es)" "de = ds + int ?stop"
    using Cons.prems(3-5) pi by simp_all
  note u = u32_small[OF bnd(1)]
  have u2: "unat (of_nat ?o2 :: u32) = ?o2" "uint (of_nat ?o2 :: u32) = int ?o2"
    using u32_small[of ?o2] o2(2) bnd(2) by simp_all
  have chk: "\<not> (hdrchkType ?t \<or> hdrchkData (unat (e_count e)) \<or> hdrchkData ?o \<or> hdrchkAlign ?t ?o)"
    using wire_type[OF e(1)] e(5) bnd(1) align_ok[OF e(1)] pad_aligns[of n ?t]
    by (auto simp: hdrchkType_def count_ok_def hdrchkData_def)
  have len: "(if length es > 0 then andThen (ntohl_at b (int (length pre) + 16 + 8)) (\<lambda>next. ok (unat (next - of_nat ?o)))
      else andThen (rd_bytes b (ds + int ?o) (nat (int (length b) - (ds + int ?o)))) (\<lambda>m.
             dataLength ?t (PMem m) (e_count e) True (Some (de - (ds + int ?o))))) = ok (?o2 - ?o)"
  proof (cases es)
    case Nil
    have a: "ds + int ?o = int (length pre + 16 + ?o)" "nat (int (length b) - (ds + int ?o)) = length d"
      "length pre + 16 + ?o + length d = length b"
      using ds Cons.prems(5) Nil by simp_all
    have "drop (length pre + 16 + ?o) b = d" unfolding pi using Cons.prems(3) Nil by simp
    then have "rd_bytes b (ds + int ?o) (nat (int (length b) - (ds + int ?o))) = ok d"
      unfolding a(2) unfolding a(1) unfolding rd_bytes_ok using a(3) by simp
    then show ?thesis
      using dataLength_wire[OF e(1,5)] ds Nil by (simp add: start_of_def)
  next
    case (Cons e2 es2)
    let ?P = "pre @ wr_info (e_tag e) ?t (of_nat ?o) (e_count e)"
    obtain r where b: "b = ?P @ wr_info (e_tag e2) (e_type e2) (of_nat ?o2) (e_count e2) @ r"
      using pi Cons by (simp add: info_def start_of_def)
    have "ntohl_at b (int (length ?P) + 8) = ok (of_nat ?o2)"
      unfolding b by (rule next_offset_mid) (rule refl)
    then have "ntohl_at b (int (length pre) + 16 + 8) = ok (of_nat ?o2)" by simp
    moreover have "unat (of_nat ?o2 - of_nat ?o :: u32) = ?o2 - ?o"
    proof -
      have "(of_nat ?o2 - of_nat ?o :: u32) = of_nat (?o2 - ?o)" using o2(1) by (subst of_nat_diff) simp_all
      then show ?thesis using u32_small[of "?o2 - ?o"] o2(2) bnd(2) by (simp del: of_nat_diff)
    qed
    ultimately show ?thesis using Cons by simp
  qed
  let ?e = "loaded_entry ds rid ?o e (?o2 - ?o)"
  have ad: "align_diff ?t ?o = ok 0" using align_diff_pad[OF e(1)] pad_aligned[OF pad_aligns] by simp
  have dl2: "dl + of_nat 0 + of_nat (?o2 - ?o) = (of_nat ?o2 :: u32)"
    using o2(1) by (simp add: dl)
  have "?o < ?stop" "?o2 - ?o < 2 ^ 30" "?o < ?o2" using bnd(2,3) o2(1,2) by linarith+
  then have t: "\<not> ds + int ?o \<ge> de" "\<not> (?o2 - ?o = 0 \<or> hdrchkData (?o2 - ?o))" "\<not> ds + int ?o2 > de"
    "length acc < cap" "0 \<le> sint (of_nat ?o :: u32)"
    unfolding ds(2) using o2(2) Cons.prems(7) u by (simp_all add: hdrchkData_def del: of_nat_add)
  have "regionSwab b cap (Suc (length es)) dl (int (length pre)) ds de rid acc =
      regionSwab b cap (length es) (of_nat ?o2) (int (length pre) + 16) ds de rid (?e # acc)"
    by (simp only: regionSwab.simps(2) ri andThen_simps entryInfo.simps Let_def guardC_def t(5) if_True
        conjunct1[OF u] chk if_False t(1) len t(2) t(4) dl ad dl2[unfolded dl] u2(2) t(3) loaded_entry_def)
  also have "int (length pre) + 16 = int (length (pre @ wr_info (e_tag e) ?t (of_nat ?o) (e_count e)))" by simp
  also have "regionSwab b cap (length es) (of_nat ?o2) \<dots> ds de rid (?e # acc) =
      ok (rev (?e # acc) @ loaded ds rid ?stop (place ?n2 es), of_nat ?stop)"
  proof (rule Cons.IH[where mid = "mid @ replicate (pad ?t n) NUL @ d"])
    show "\<forall>e\<in>set es. drip e" using Cons.prems(1) by simp
    show "length (mid @ replicate (pad ?t n) NUL @ d) = ?n2" using Cons.prems(3) by simp
    show "length (?e # acc) + length es \<le> cap" using Cons.prems(7) by simp
  qed (use pi ds(1) Cons.prems(5) bnd(2) in simp_all)
  finally show ?case unfolding end_eq using e(3) by simp
qed

text \<open>A loaded entry has the tag, type and count of the one that was written, and holds its value.\<close>

definition same_entry :: "Header \<Rightarrow> indexEntry \<Rightarrow> indexEntry \<Rightarrow> bool" where
  "same_entry h x e \<longleftrightarrow> e_tag x = e_tag e \<and> e_type x = e_type e \<and> e_count x = e_count e \<and>
     (\<forall>p. exact e p \<and> e_type e \<noteq> RPM_BIN_TYPE \<longrightarrow> holds h x p)"

lemma loaded_same:
  "\<forall>e\<in>set es. drip e \<Longrightarrow> h_blob h = Some b \<Longrightarrow> k + n \<le> length b \<Longrightarrow> drop (k + n) b = data_of n es \<Longrightarrow>
     list_all2 (same_entry h) (loaded (int k) rid (n + length (data_of n es)) (place n es)) es"
proof (induction es arbitrary: n)
  case (Cons e es)
  have de: "drip e" using Cons.prems(1) by simp
  let ?t = "e_type e" let ?o = "n + pad ?t n" let ?n2 = "?o + e_length e"
  let ?stop = "?n2 + length (data_of ?n2 es)" let ?o2 = "start_of ?stop (place ?n2 es)"
  have l: "length (ebytes e) = e_length e" using drip_length[OF de] by simp
  have end_eq: "n + length (data_of n (e # es)) = ?stop" using l by simp
  have o2: "?n2 \<le> ?o2" "?o2 \<le> ?stop" by (auto simp: place_start split: list.splits)
  have d: "drop (k + n) b = replicate (pad ?t n) NUL @ ebytes e @ data_of ?n2 es" using Cons.prems(4) by simp
  have "drop (k + ?o) b = drop (pad ?t n) (drop (k + n) b)" by (simp add: add_ac)
  then have do: "drop (k + ?o) b = ebytes e @ data_of ?n2 es" by (simp add: d)
  have "drop (k + ?n2) b = drop (e_length e) (drop (k + ?o) b)" by (simp add: add_ac)
  then have dn: "drop (k + ?n2) b = data_of ?n2 es" by (simp add: do l)
  have "length (drop (k + n) b) = pad ?t n + e_length e + length (data_of ?n2 es)" using d l by simp
  then have kb: "k + ?n2 \<le> length b" using Cons.prems(3) by simp
  let ?x = "loaded_entry (int k) rid ?o e (?o2 - ?o)"
  have m: "mem h (e_data ?x) = ok (ebytes e @ data_of ?n2 es)"
    using kb do Cons.prems(2) by (simp add: loaded_entry_def guardC_def nat_add_distrib)
  have "holds h ?x p" if "exact e p" "?t \<noteq> RPM_BIN_TYPE" for p
    using that m o2 l unfolding holds_def exact_def
    by (auto simp: loaded_entry_def ebytes_def intro!: exI)
  then have "same_entry h ?x e" by (simp add: same_entry_def loaded_entry_def)
  moreover have "list_all2 (same_entry h) (loaded (int k) rid ?stop (place ?n2 es)) es"
    using Cons.IH[OF _ Cons.prems(2) kb dn] Cons.prems(1) by simp
  ultimately show ?case unfolding end_eq by simp
qed simp

definition legacy_region :: "nat \<Rightarrow> nat \<Rightarrow> indexEntry" where
  "legacy_region il dl = \<lparr>e_tag = HEADER_IMAGE, e_type = REGION_TAG_TYPE, e_offset = - (16 * int il),
     e_count = of_nat REGION_TAG_COUNT, e_data = HBlob 8, e_length = 16 * il + dl, e_rdlen = dl\<rparr>"

definition loaded_header :: "indexEntry list \<Rightarrow> Header" where
  "loaded_header es =
     (let il = length es; dl = length (data_of 0 es) in
      (load_header (image_of es) il dl)\<lparr>h_legacy := True, h_sorted := False,
         h_index := legacy_region il dl # loaded (int (8 + 16 * il)) (- (16 * int il)) dl (place 0 es)\<rparr>)"

lemma length_loaded [simp]: "length (loaded ds rid N xs) = length xs"
  by (induction ds rid N xs rule: loaded.induct) simp_all

lemma headerLoad_image:
  assumes "\<forall>e\<in>set es. drip e \<and> HEADER_I18NTABLE \<le> e_tag e" "fits es" "es \<noteq> []"
  shows "headerLoad (image_of es) = ok (Some (headerSort (loaded_header es)))"
proof -
  let ?il = "length es" let ?dl = "length (data_of 0 es)" let ?b = "image_of es"
  have d: "\<forall>e\<in>set es. drip e" using assms(1) by simp
  note c = small_counts[OF assms(2) d]
  have b: "?b = (htonl (of_nat ?il) @ htonl (of_nat ?dl)) @ infos (place 0 es) @ [] @ data_of 0 es"
    by (simp add: image_of_def)
  have n0: "ntohl_at ?b 0 = ok (of_nat ?il)" using ntohl_at_mid[of "[]" 0] by (simp add: image_of_def)
  have n4: "ntohl_at ?b 4 = ok (of_nat ?dl)" using ntohl_at_mid[of "htonl (of_nat ?il)" 4] by (simp add: image_of_def)
  obtain e es' where e: "es = e # es'" using assms(3) by (cases es) auto
  have "?b = (htonl (of_nat ?il) @ htonl (of_nat ?dl)) @ htonl (e_tag e) @
      (htonl (e_type e) @ htonl (of_nat (pad (e_type e) 0)) @ htonl (e_count e)) @
      infos (place (pad (e_type e) 0 + e_length e) es') @ data_of 0 es"
    unfolding b by (simp add: e info_def wr_info_def)
  then have n8: "ntohl_at ?b 8 = ok (e_tag e)"
    using ntohl_at_mid[of "htonl (of_nat ?il) @ htonl (of_nat ?dl)" 8] by simp
  have st: "start_of ?dl (place 0 es) = 0" by (simp add: e start_of_def pad_def)
  have "length ?b = 8 + 16 * ?il + ?dl" by (simp add: image_of_def)
  then have "regionSwab ?b ?il ?il 0 8 (8 + 16 * int ?il) (8 + 16 * int ?il + int ?dl) (- (16 * int ?il)) [] =
      ok (loaded (int (8 + 16 * ?il)) (- (16 * int ?il)) ?dl (place 0 es), of_nat ?dl)"
    using regionSwab_drips[OF d b, of "int (8 + 16 * ?il)" "8 + 16 * int ?il + int ?dl" 0 "[]" ?il "- (16 * int ?il)"] c(5) st
    by simp
  then have "load_legacy ?b ?il ?dl = ok (Some (headerSort (loaded_header es)))"
    using c(2) by (simp add: load_legacy_def loaded_header_def legacy_region_def Let_def)
  moreover have "HEADER_I18NTABLE \<le> e_tag e" using assms(1) e by simp
  ultimately show ?thesis using n0 n4 n8 c by (simp add: headerLoad_def)
qed

section \<open>The round trip\<close>

text \<open>Headers that can be written and read back: at least one entry, all made in memory, with tags above
  those of the header itself, no binary data (whose count is taken from the padded length), and the limits
  of the format: 2^24 entries and 2^30 bytes of data.\<close>

definition plain :: "Header \<Rightarrow> bool" where
  "plain h \<longleftrightarrow> h_index h \<noteq> [] \<and> fits (h_index h) \<and>
     (\<forall>e\<in>set (h_index h). drip e \<and> e_type e \<noteq> RPM_BIN_TYPE \<and> HEADER_I18NTABLE \<le> e_tag e)"

lemma find_same:
  "list_all2 (\<lambda>x e. e_tag x = e_tag e \<and> f x = g e) xs es \<Longrightarrow>
     map_option f (find (\<lambda>x. e_tag x = t) xs) = map_option g (find (\<lambda>x. e_tag x = t) es)"
  by (induction rule: list_all2_induct) auto

lemma loaded_header_map:
  assumes "hdr_ok h" "plain h" "mset es = mset (h_index h)"
  shows "hdr_ok (loaded_header es)" "alpha (loaded_header es) = alpha h"
proof -
  have set_es: "set es = set (h_index h)" using assms(3) by (metis set_mset_mset)
  have es: "\<forall>e\<in>set es. drip e \<and> e_type e \<noteq> RPM_BIN_TYPE \<and> HEADER_I18NTABLE \<le> e_tag e"
    using assms(2) set_es by (simp add: plain_def)
  let ?L = "loaded_header es" let ?dl = "length (data_of 0 es)" let ?k = "8 + 16 * length es"
  let ?xs = "loaded (int ?k) (- (16 * int (length es))) ?dl (place 0 es)"
  have ix: "h_index ?L = legacy_region (length es) ?dl # ?xs" and bl: "h_blob ?L = Some (image_of es)"
    and al: "h_alloced ?L = length es + 1" and so: "\<not> h_sorted ?L"
    by (simp_all add: loaded_header_def load_header_def Let_def)
  have all: "list_all2 (same_entry ?L) ?xs es"
    using loaded_same[of es ?L "image_of es" ?k 0] es bl by (simp add: image_of_def)
  have region: "region_tag (e_tag (legacy_region (length es) ?dl))" "small_tag (e_tag (legacy_region (length es) ?dl))"
    by (simp_all add: legacy_region_def region_tag_def small_tag_def HEADER_IMAGE_def HEADER_REGIONS_def)
  have tags: "map e_tag ?xs = map e_tag es"
    using all by (induction rule: list_all2_induct) (auto simp: same_entry_def)
  have user: "\<forall>e\<in>set es. \<not> region_tag (e_tag e)" using es by (simp add: drip_def)
  have "distinct (map e_tag es)" using assms(1,3) by (metis hdr_ok_def mset_eq_imp_distinct_iff mset_map)
  then have "distinct (map e_tag (h_index ?L))" using ix tags user region(1) by auto
  moreover have "hdr_inv ?L"
  proof -
    have "\<forall>t\<in>set (map e_tag ?xs). small_tag t"
      unfolding tags using assms(1) set_es by (auto simp: hdr_ok_def hdr_inv_def)
    then show ?thesis using ix al so region(2) by (simp add: hdr_inv_def)
  qed
  moreover have "\<exists>p. holds ?L x p" if x: "x \<in> set ?xs" for x
  proof -
    obtain i where i: "i < length ?xs" "x = ?xs ! i" using x by (metis in_set_conv_nth)
    then have "same_entry ?L x (es ! i)" "es ! i \<in> set es"
      using all by (simp_all add: list_all2_conv_all_nth)
    then show ?thesis using es by (auto simp: same_entry_def drip_def)
  qed
  ultimately show "hdr_ok ?L" using ix region(1) by (simp add: hdr_ok_def)
  have "e_tag x = e_tag e \<and> (e_type x, e_count x, entry_value ?L x) = (e_type e, e_count e, entry_value h e)"
    if x: "same_entry ?L x e" "e \<in> set es" for x e
  proof -
    obtain p where p: "exact e p" "\<not> region_tag (e_tag e)" using es x(2) by (auto simp: drip_def)
    then show ?thesis
      using holds_value[of ?L x p] holds_value[OF exact_holds[OF p(1)], of h] x es by (simp add: same_entry_def)
  qed
  then have "list_all2 (\<lambda>x e. e_tag x = e_tag e \<and>
      (e_type x, e_count x, entry_value ?L x) = (e_type e, e_count e, entry_value h e)) ?xs es"
    using all by (auto simp: list_all2_conv_all_nth)
  note f = find_same[OF this]
  show "alpha ?L = alpha h"
  proof
    fix t
    have "alpha ?L t = alpha (h\<lparr>h_index := es\<rparr>) t"
    using f[of t] ix region(1) entry_value_blob[of "h\<lparr>h_index := es\<rparr>" h] user
    by (auto simp: alpha_def find_Some_iff option.map_comp intro!: option.map_cong0)
    also have "\<dots> = alpha h t" using alpha_perm[OF assms(1), of "h\<lparr>h_index := es\<rparr>"] assms(3) by simp
    finally show "alpha ?L t = alpha h t" .
  qed
qed

text \<open>C5: Writing a header built in memory succeeds, and what was written loads again, if the
  header has at least one entry, only tags from 100 on (those below belong to the format), no binary
  data (whose count is taken from the padded length when it is loaded), and is within the limits of the
  format, 2^24 entries and 2^30 bytes of data: the loaded header holds the same map (every tag has the
  type, count and value it had), and is one on which the operations of the store work; the header that
  was written is not changed either.\<close>

theorem headerUnload_headerLoad:
  assumes "hdr_ok h" "plain h"
  shows "\<exists>h' b nh. headerUnload h = ok (h', Some b) \<and> headerLoad b = ok (Some nh) \<and>
     hdr_ok nh \<and> alpha nh = alpha h \<and> hdr_ok h' \<and> alpha h' = alpha h"
proof -
  let ?es = "qsort offsetCmp (h_index h)" let ?u = "h\<lparr>h_index := ?es, h_sorted := False\<rparr>"
  have pl: "\<forall>e\<in>set (h_index h). drip e" "fits (h_index h)" "h_index h \<noteq> []"
    using assms(2) by (simp_all add: plain_def)
  have m: "mset ?es = mset (h_index h)" by simp
  have es: "\<forall>e\<in>set ?es. drip e \<and> HEADER_I18NTABLE \<le> e_tag e" using assms(2) by (simp add: plain_def)
  have "fits ?es" "?es \<noteq> []" using pl(2,3) fits_perm[OF m] by (metis, metis length_qsort length_0_conv)
  note load = headerLoad_image[OF es this]
  note L = loaded_header_map[OF assms m]
  have "distinct (map e_tag ?es)" using assms(1) by (metis hdr_ok_def m mset_eq_imp_distinct_iff mset_map)
  then have u: "hdr_ok ?u" using assms(1) holds_blob[of ?u h] by (simp add: hdr_ok_def hdr_inv_def)
  moreover have "alpha ?u = alpha h" by (rule alpha_perm[OF assms(1)]) simp_all
  ultimately show ?thesis
    using headerUnload_drips[OF pl(1,2)] load L hdr_ok_sort alpha_sort by metis
qed

lemma new_entry_drip: "storable he \<Longrightarrow> drip (new_entry he)"
  using new_entry_exact[of he] by (auto simp: drip_def storable_def user_tag_def new_entry_def Let_def)

lemma new_entries_ok:
  assumes "\<forall>he\<in>set hes. storable he" "distinct (map he_tag hes)" "h_index h = map new_entry hes"
    "\<not> h_sorted h" "length hes \<le> h_alloced h"
  shows "hdr_ok h"
proof -
  have "distinct (map e_tag (h_index h))" using assms(2,3) by (simp add: o_def)
  moreover have "\<forall>he\<in>set hes. small_tag (he_tag he) \<and> holds h (new_entry he) (he_p he)"
    using assms(1) new_entry_holds by (auto simp: storable_def user_tag_def)
  ultimately show ?thesis using assms(2-5) by (auto simp: hdr_ok_def hdr_inv_def)
qed

text \<open>A header with a list of base names, a name and two numbers, not yet sorted.\<close>

definition demo_hes :: "HE list" where
  "demo_hes = [he_zero\<lparr>he_tag := 1117, he_t := RPM_STRING_ARRAY_TYPE, he_p := PArgv [''ls'', ''cp''], he_c := 2\<rparr>,
     he_zero\<lparr>he_tag := 1000, he_t := RPM_STRING_TYPE, he_p := PMem (''bash'' @ [NUL]), he_c := 1\<rparr>,
     he_zero\<lparr>he_tag := 1009, he_t := RPM_UINT32_TYPE, he_p := PMem (map char_of [1, 0, 0, 0, 2, 0, 0, 0 :: nat]), he_c := 2\<rparr>]"

definition demo_header :: Header where
  "demo_header = headerNew\<lparr>h_index := map new_entry demo_hes, h_sorted := False\<rparr>"

lemma demo_storable: "\<forall>he\<in>set demo_hes. storable he"
  by (simp add: demo_hes_def he_zero_def demo_simps)

lemma demo_header_ok: "hdr_ok demo_header"
  by (rule new_entries_ok[OF demo_storable])
    (simp_all add: demo_hes_def he_zero_def demo_header_def headerNew_def INDEX_MALLOC_SIZE_def)

lemma swab_numeral [simp]: "swab k (numeral n) m = rev (take k m) @ swab k (pred_numeral n) (drop k m)"
  by (simp add: numeral_eq_Suc)

lemma demo_header_plain: "plain demo_header"
proof -
  have "\<forall>e\<in>set (h_index demo_header). drip e" using demo_storable new_entry_drip by (auto simp: demo_header_def)
  then show ?thesis
    by (auto simp: plain_def demo_header_def demo_hes_def he_zero_def fits_def new_entry_def demo_simps
        HEADER_I18NTABLE_def)
qed

theorem headerUnload_headerLoad_witness:
  "\<exists>h' b nh. headerUnload demo_header = ok (h', Some b) \<and> headerLoad b = ok (Some nh) \<and>
     hdr_ok nh \<and> alpha nh = alpha demo_header \<and> hdr_ok h' \<and> alpha h' = alpha demo_header"
  by (rule headerUnload_headerLoad[OF demo_header_ok demo_header_plain])

end
