(* ===== verification/HdrCopy.thy ===== *)
theory HdrCopy
  imports HdrLoad
begin

text \<open>
  Iterating over a header and copying it: the iterator gives every tag of the map once, in the order
  of the index, and the copy that \<open>headerCopy\<close> builds, writes and loads again holds the same map.
\<close>

section \<open>The iterator\<close>

definition user_entries :: "indexEntry list \<Rightarrow> indexEntry list" where
  "user_entries es = filter (\<lambda>e. \<not> region_tag (e_tag e)) es"

definition shown :: "Header \<Rightarrow> indexEntry \<Rightarrow> HE" where
  "shown h e = found (e_tag e) (e_type e, e_count e, entry_value h e)"

lemma entry_get:
  assumes "hdr_ok h" "e \<in> set (h_index h)" "\<not> region_tag (e_tag e)"
  obtains he1 where "copyEntry h e (he_zero\<lparr>he_tag := e_tag e\<rparr>) = ok he1" "rpmheRealloc he1 = ok (shown h e, True)"
proof -
  obtain p where p: "holds h e p" using assms by (auto simp: hdr_ok_def)
  have g: "get_entry h e (he_zero\<lparr>he_tag := e_tag e\<rparr>) =
      ok ((he_zero\<lparr>he_tag := e_tag e\<rparr>)\<lparr>he_p := value_of (e_type e) (e_count e) p, he_t := e_type e,
           he_c := e_count e, he_freeData := True\<rparr>, True)"
    by (rule get_entry_holds[OF p]) (use assms(3) in \<open>simp_all add: he_zero_def\<close>)
  have "(he_zero\<lparr>he_tag := e_tag e\<rparr>)\<lparr>he_p := value_of (e_type e) (e_count e) p, he_t := e_type e,
           he_c := e_count e, he_freeData := True\<rparr> = shown h e"
    using holds_value[OF p] assms(3) by (simp add: shown_def found_def he_zero_def)
  then show ?thesis using g that by (auto simp: get_entry_def andThen_Inr_iff)
qed

text \<open>One step: the regions are skipped, then the next entry is shown.\<close>

lemma headerNext_step:
  assumes "hdr_ok h"
  shows "(user_entries (drop k (h_index h)) = [] \<and> (\<exists>hi. headerNext (h, k) = ok (hi, he_zero, False))) \<or>
    (\<exists>i e. k \<le> i \<and> i < length (h_index h) \<and> h_index h ! i = e \<and> \<not> region_tag (e_tag e) \<and>
       user_entries (drop k (h_index h)) = e # user_entries (drop (Suc i) (h_index h)) \<and>
       headerNext (h, k) = ok ((h, Suc i), shown h e, True))"
proof -
  let ?es = "h_index h" let ?d = "drop k ?es" let ?s = "takeWhile ENTRY_IS_REGION ?d" let ?i = "k + length ?s"
  have split_d: "?d = ?s @ drop ?i ?es"
    by (metis add.commute drop_drop dropWhile_eq_drop takeWhile_dropWhile_id)
  have s: "user_entries ?s = []" by (auto simp: user_entries_def filter_empty_conv dest: set_takeWhileD)
  show ?thesis
  proof (cases "?i \<ge> length ?es")
    case True
    then have "user_entries ?d = []" using s split_d by (metis append_Nil2 drop_all)
    then show ?thesis using True by (simp add: headerNext_def Let_def)
  next
    case False
    let ?e = "?es ! ?i"
    have e: "drop ?i ?es = ?e # drop (Suc ?i) ?es" using False by (simp add: Cons_nth_drop_Suc)
    have "dropWhile ENTRY_IS_REGION ?d = ?e # drop (Suc ?i) ?es"
      using e split_d by (metis append_same_eq same_append_eq takeWhile_dropWhile_id)
    then have r: "\<not> region_tag (e_tag ?e)" by (metis dropWhile_eq_Cons_conv is_region)
    have "user_entries ?d = ?e # user_entries (drop (Suc ?i) ?es)"
      using s r e split_d by (metis append_Nil filter.simps(2) filter_append user_entries_def)
    moreover obtain he1 where "copyEntry h ?e (he_zero\<lparr>he_tag := e_tag ?e\<rparr>) = ok he1" "rpmheRealloc he1 = ok (shown h ?e, True)"
      using entry_get[OF assms _ r] False by (metis linorder_not_le nth_mem)
    then have "headerNext (h, k) = ok ((h, Suc ?i), shown h ?e, True)"
      using False by (simp add: headerNext_def Let_def)
    moreover have "k \<le> ?i" "?i < length ?es" using False by simp_all
    ultimately show ?thesis using r by blast
  qed
qed

section \<open>The loop of headerCopy\<close>

lemma shown_facts:
  assumes "hdr_ok h" "e \<in> set (h_index h)" "\<not> region_tag (e_tag e)"
  shows "storable (shown h e)" "he_tag (shown h e) = e_tag e" "he_p (shown h e) \<noteq> PNull"
    "val (shown h e) = (e_type e, e_count e, entry_value h e)"
proof -
  have a: "alpha h (e_tag e) = Some (e_type e, e_count e, entry_value h e)" using alpha_entry assms by simp
  have "user_tag (e_tag e)" using assms by (simp add: user_tag_def hdr_ok_def hdr_inv_def)
  note f = found_storable[OF assms(1) this a]
  show "storable (shown h e)" "he_tag (shown h e) = e_tag e" "val (shown h e) = (e_type e, e_count e, entry_value h e)"
    using f by (simp_all add: shown_def)
  then show "he_p (shown h e) \<noteq> PNull" by (auto simp: storable_def wire_def)
qed

lemma copy_loop_adds:
  assumes "hdr_ok h" "sim nh m" "h_index nh = map new_entry hes"
    "\<forall>e\<in>set (user_entries (drop k (h_index h))). m (e_tag e) = None"
  shows "\<exists>nh'. copy_loop (h, k) nh = ok nh' \<and>
     h_index nh' = map new_entry (hes @ map (shown h) (user_entries (drop k (h_index h)))) \<and>
     sim nh' (\<lambda>t. if t \<in> e_tag ` set (user_entries (drop k (h_index h))) then alpha h t else m t)"
  using assms(2-4)
proof (induction "length (h_index h) - k" arbitrary: k nh m hes rule: less_induct)
  case less
  show ?case
  proof (cases "k < length (h_index h)")
    case False
    then have "copy_loop (h, k) nh = ok nh" by (simp add: copy_loop.simps)
    then show ?thesis using less.prems False by (simp add: user_entries_def)
  next
    case True
    from headerNext_step[OF assms(1), of k] show ?thesis
    proof (elim disjE conjE exE)
      fix hi assume a: "user_entries (drop k (h_index h)) = []" "headerNext (h, k) = ok (hi, he_zero, False)"
      then have "copy_loop (h, k) nh = ok nh" by (subst copy_loop.simps) simp
      then show ?thesis using less.prems a(1) by simp
    next
      fix i e
      assume a: "k \<le> i" "i < length (h_index h)" "h_index h ! i = e" "\<not> region_tag (e_tag e)"
        "user_entries (drop k (h_index h)) = e # user_entries (drop (Suc i) (h_index h))"
        "headerNext (h, k) = ok ((h, Suc i), shown h e, True)"
      have mem: "e \<in> set (h_index h)" using a(2,3) by auto
      note f = shown_facts[OF assms(1) mem a(4)]
      have no: "m (he_tag (shown h e)) = None" using less.prems(3) a(5) f(2) by simp
      obtain nh1 where n1: "headerAddEntry nh (shown h e) = ok (nh1, True)" "sim nh1 (m(e_tag e \<mapsto> val (shown h e)))"
        using sim_add[OF less.prems(1) f(1) no] f(2) by metis
      have ix: "h_index nh1 = map new_entry (hes @ [shown h e])"
        using headerAddEntry_storable[OF f(1), of nh] n1(1) less.prems(2) by auto
      have loop: "copy_loop (h, k) nh = copy_loop (h, Suc i) nh1"
        using True a(1,6) f(3) n1(1) by (subst copy_loop.simps) simp
      let ?r = "user_entries (drop (Suc i) (h_index h))"
      have "e_tag e \<notin> e_tag ` set ?r"
      proof
        assume "e_tag e \<in> e_tag ` set ?r"
        then obtain x where x: "x \<in> set (drop (Suc i) (h_index h))" "e_tag x = e_tag e" by (auto simp: user_entries_def)
        then obtain j where "j < length (drop (Suc i) (h_index h))" "drop (Suc i) (h_index h) ! j = x"
          by (metis in_set_conv_nth)
        then have j: "Suc i + j < length (h_index h)" "h_index h ! (Suc i + j) = x" by simp_all
        have "distinct (map e_tag (h_index h))" using assms(1) by (simp add: hdr_ok_def)
        then show False using nth_eq_iff_index_eq[of "map e_tag (h_index h)" i "Suc i + j"] a(2,3) j x(2) by simp
      qed
      note fresh = this
      have new: "\<forall>x\<in>set ?r. (m(e_tag e \<mapsto> val (shown h e))) (e_tag x) = None"
        using fresh less.prems(3) a(5) by (auto simp: image_iff)
      have "length (h_index h) - Suc i < length (h_index h) - k" using a(1,2) by simp
      from less.hyps[OF this n1(2) ix new] obtain nh2 where n2: "copy_loop (h, Suc i) nh1 = ok nh2"
          "h_index nh2 = map new_entry ((hes @ [shown h e]) @ map (shown h) ?r)"
          "sim nh2 (\<lambda>t. if t \<in> e_tag ` set ?r then alpha h t else (m(e_tag e \<mapsto> val (shown h e))) t)" by blast
      moreover have "(\<lambda>t. if t \<in> e_tag ` set ?r then alpha h t else (m(e_tag e \<mapsto> val (shown h e))) t) =
          (\<lambda>t. if t \<in> e_tag ` set (e # ?r) then alpha h t else m t)"
        using alpha_entry[OF assms(1) mem a(4)] f(4) by auto
      ultimately show ?thesis using loop a(5) by simp
    qed
  qed
qed

section \<open>The copy\<close>

lemma hdr_same:
  assumes "hdr_ok h" "h_index h' = h_index h" "h_blob h' = h_blob h" "h_alloced h' = h_alloced h" "h_sorted h' = h_sorted h"
  shows "hdr_ok h'" "alpha h' = alpha h"
proof -
  show "hdr_ok h'" using assms holds_blob[OF assms(3)] by (simp add: hdr_ok_def hdr_inv_def)
  show "alpha h' = alpha h" by (rule alpha_perm[OF assms(1)]) (simp_all add: assms(2,3))
qed

lemma fits_le: "list_all2 (\<lambda>x y. e_length x \<le> e_length y) xs ys \<Longrightarrow> fits ys \<Longrightarrow> fits xs"
proof -
  assume a: "list_all2 (\<lambda>x y. e_length x \<le> e_length y) xs ys" "fits ys"
  have "sum_list (map (\<lambda>e. e_length e + 3) xs) \<le> sum_list (map (\<lambda>e. e_length e + 3) ys)"
    using a(1) by (induction rule: list_all2_induct) auto
  then show ?thesis using a(2) list_all2_lengthD[OF a(1)] by (simp add: fits_def)
qed

lemma shown_length:
  assumes "hdr_ok h" "e \<in> set (h_index h)" "\<not> region_tag (e_tag e)"
  shows "e_length (new_entry (shown h e)) \<le> e_length e"
proof -
  obtain p where p: "holds h e p" using assms by (auto simp: hdr_ok_def)
  then obtain d where d: "wire (e_type e) (e_count e) p = Some d" "length d \<le> e_length e" by (auto simp: holds_def)
  then show ?thesis
    using holds_value[OF p] wire_value[OF d(1)] assms(3) by (simp add: new_entry_def shown_def found_def Let_def)
qed

text \<open>A header whose entries outside of regions can be written again.\<close>

definition copyable :: "Header \<Rightarrow> bool" where
  "copyable h \<longleftrightarrow> user_entries (h_index h) \<noteq> [] \<and> fits (user_entries (h_index h)) \<and>
     (\<forall>e\<in>set (user_entries (h_index h)). e_type e \<noteq> RPM_BIN_TYPE \<and> HEADER_I18NTABLE \<le> e_tag e)"

lemma copyable_sort: "copyable (headerSort h) = copyable h"
proof -
  have m: "mset (user_entries (h_index (headerSort h))) = mset (user_entries (h_index h))"
    by (simp add: user_entries_def)
  then have "set (user_entries (h_index (headerSort h))) = set (user_entries (h_index h))" by (metis set_mset_mset)
  then show ?thesis using fits_perm[OF m] by (metis copyable_def empty_iff empty_set set_empty)
qed

text \<open>C29: Copying a header succeeds and the copy holds the same map as the original, if the
  entries outside of regions are at least one, have tags from 100 on, no binary data (whose count grows
  by the padding when it is loaded) and are within the limits of the format, 2^24 entries and 2^30
  bytes; entries of the original that lie in a region are copied as well, the regions themselves are
  not.\<close>

theorem headerCopy_same_map:
  assumes "hdr_ok h" "copyable h"
  shows "\<exists>nh. headerCopy h = ok (Some nh) \<and> hdr_ok nh \<and> alpha nh = alpha h"
proof -
  let ?h = "headerSort h" let ?us = "user_entries (h_index ?h)"
  have h: "hdr_ok ?h" "alpha ?h = alpha h" "copyable ?h"
    using hdr_ok_sort[OF assms(1)] alpha_sort[OF assms(1)] assms(2) copyable_sort by blast+
  obtain nh where nh: "copy_loop (?h, 0) headerNew = ok nh" "h_index nh = map new_entry (map (shown ?h) ?us)"
      "sim nh (\<lambda>t. if t \<in> e_tag ` set ?us then alpha ?h t else None)"
    using copy_loop_adds[OF h(1) sim_new, of "[]" 0] by (auto simp: headerNew_def)
  have us: "\<forall>e\<in>set ?us. e \<in> set (h_index ?h) \<and> \<not> region_tag (e_tag e)" by (auto simp: user_entries_def)
  have "alpha ?h t = None" if "t \<notin> e_tag ` set ?us" for t
    using that alpha_dom[of ?h] by (auto simp: user_entries_def tags_def dom_def)
  then have m: "hdr_ok nh" "alpha nh = alpha h" using nh(3) h(2) by (auto simp: sim_def fun_eq_iff)
  have "drip (new_entry (shown ?h e)) \<and> e_type (new_entry (shown ?h e)) \<noteq> RPM_BIN_TYPE \<and>
      HEADER_I18NTABLE \<le> e_tag (new_entry (shown ?h e))" if e: "e \<in> set ?us" for e
    using shown_facts(1,2)[OF h(1), of e] new_entry_drip us e h(3)
    by (simp add: copyable_def shown_def found_def)
  moreover have "fits (h_index nh)"
    unfolding nh(2) map_map
    by (rule fits_le[of _ ?us])
      (use shown_length[OF h(1)] us h(3) in \<open>auto simp: list_all2_map1 copyable_def intro!: list.rel_refl_strong\<close>)
  ultimately have "plain nh" using h(3) by (auto simp: plain_def nh(2) copyable_def)
  from headerUnload_headerLoad[OF m(1) this] obtain h' b lh where l: "headerUnload nh = ok (h', Some b)"
      "headerLoad b = ok (Some lh)" "hdr_ok lh" "alpha lh = alpha nh" by blast
  let ?r = "lh\<lparr>h_mapped := False, h_rdonly := False, h_allocated := True, h_index := h_index lh,
     h_origin := h_origin nh, h_parent := h_parent nh, h_baseurl := h_baseurl nh,
     h_digest := h_digest nh, h_instance := h_instance nh\<rparr>"
  have "(case h_index lh of [] \<Rightarrow> [] | e # es \<Rightarrow>
      (if ENTRY_IS_REGION e \<and> (HEADER_IMAGE = HEADER_SIGNATURES \<or> HEADER_IMAGE = HEADER_IMMUTABLE)
       then e\<lparr>e_tag := HEADER_IMAGE\<rparr> else e) # es) = h_index lh"
    by (simp add: HEADER_IMAGE_def HEADER_SIGNATURES_def HEADER_IMMUTABLE_def split: list.splits)
  then have "headerReload nh HEADER_IMAGE = ok (Some ?r)"
    using l(1,2) by (simp add: headerReload_def)
  then have "headerCopy h = ok (Some ?r)" using nh(1) by (simp add: headerCopy_def headerInit_def)
  moreover have "hdr_ok ?r" "alpha ?r = alpha lh" by (rule hdr_same[OF l(3)]; simp)+
  ultimately show ?thesis using l(4) m(2) by auto
qed

lemma plain_copyable: "plain h \<Longrightarrow> copyable h"
proof -
  assume a: "plain h"
  then have "user_entries (h_index h) = h_index h" by (auto simp: plain_def user_entries_def drip_def filter_id_conv)
  then show ?thesis using a by (simp add: plain_def copyable_def)
qed

theorem headerCopy_same_map_witness:
  "\<exists>nh. headerCopy demo_header = ok (Some nh) \<and> hdr_ok nh \<and> alpha nh = alpha demo_header"
  by (rule headerCopy_same_map[OF demo_header_ok plain_copyable[OF demo_header_plain]])

end
