(* ===== verification/HdrBounds.thy ===== *)
theory HdrBounds
  imports HdrCopy "HOL-Library.Code_Target_Nat"
begin

text \<open>
  Sizes and bounds: \<open>headerSizeof\<close> is the size of what \<open>headerUnload\<close> writes (and the magic), the
  entries of a loaded sealed header lie inside the blob, and those of a legacy header need not.
\<close>

section \<open>Sizes\<close>

lemma insertc_cong: "\<forall>y\<in>set ys. cmp x y = cmp' x y \<Longrightarrow> insertc cmp x ys = insertc cmp' x ys"
  by (induction ys) auto

lemma qsort_cong: "\<forall>x\<in>set xs. \<forall>y\<in>set xs. cmp x y = cmp' x y \<Longrightarrow> qsort cmp xs = qsort cmp' xs"
proof (induction xs)
  case (Cons x xs)
  have q: "qsort c (x # xs) = insertc c x (qsort c xs)" for c by (simp add: qsort_def)
  have "insertc cmp x (qsort cmp' xs) = insertc cmp' x (qsort cmp' xs)" by (rule insertc_cong) (use Cons.prems in simp)
  moreover have "qsort cmp xs = qsort cmp' xs" by (rule Cons.IH) (use Cons.prems in simp)
  ultimately show ?case by (simp add: q)
qed (simp add: qsort_def)

text \<open>Where tags are distinct, the sorted index is unique.\<close>

lemma ordered_sort_key:
  assumes "\<forall>e\<in>set xs. small_tag (e_tag e)" "distinct (map e_tag xs)" "mset ys = mset xs" "idx.ordered ys"
  shows "ys = sort_key e_tag xs"
proof -
  have s: "set ys = set xs" using assms(3) by (metis set_mset_mset)
  have "sorted (map e_tag ys)" using assms(1,4) s ordered_tags[of ys] by (simp add: sorted_wrt_map)
  then show ?thesis using sort_key_inj_key_eq[of xs ys e_tag] assms(2,3) by (simp add: distinct_map)
qed

lemma unload_order:
  assumes "hdr_ok h" "\<forall>e\<in>set (h_index h). drip e"
  shows "qsort offsetCmp (h_index h) = h_index (headerSort h)"
proof -
  have small: "\<forall>e\<in>set (h_index h). small_tag (e_tag e)" and dist: "distinct (map e_tag (h_index h))"
    using assms(1) by (auto simp: hdr_ok_def hdr_inv_def)
  have "qsort offsetCmp (h_index h) = qsort indexCmp (h_index h)"
    by (rule qsort_cong) (use assms(2) in \<open>auto simp: offsetCmp_def drip_def\<close>)
  also have "\<dots> = sort_key e_tag (h_index h)"
    by (rule ordered_sort_key[OF small dist]) (use idx.ordered_qsort[OF small] in simp_all)
  also have "\<dots> = h_index (headerSort h)"
    by (rule sym, rule ordered_sort_key[OF small dist])
      (use headerSort_inv[of h] assms(1) in \<open>simp_all add: hdr_inv_def hdr_ok_def\<close>)
  finally show ?thesis .
qed

lemma pad_cong: "m mod 4 = n mod 4 \<Longrightarrow> pad t m = pad t n"
proof -
  assume a: "m mod 4 = n mod 4"
  have "m mod 2 = m mod 4 mod 2" "n mod 2 = n mod 4 mod 2" by (simp_all add: mod_mod_cancel)
  then show ?thesis using a by (simp add: pad_def num_size_def)
qed

lemma mod4: "m mod 4 = n mod 4 \<Longrightarrow> (m + p + 16 + l) mod 4 = (n + p + l) mod (4 :: nat)"
proof -
  assume a: "m mod 4 = n mod 4"
  have "(p + 16 + l) mod 4 = (p + l + 4 * 4) mod 4" by (simp add: add_ac)
  also have "\<dots> = (p + l) mod 4" by (rule mod_mult_self2)
  finally have "(p + 16 + l) mod 4 = (p + l) mod 4" .
  from mod_add_cong[OF a this] show ?thesis by (simp add: add.assoc)
qed

lemma sizeof_drips:
  "\<forall>e\<in>set es. drip e \<Longrightarrow> m mod 4 = n mod 4 \<Longrightarrow>
     sizeof_loop legacy first es m = ok (m + 16 * length es + length (data_of n es))"
proof (induction es arbitrary: m n first)
  case (Cons e es)
  obtain d p where e: "wire (e_type e) (e_count e) p = Some d" "e_length e = length d" "ebytes e = d"
    using drip_facts[of e] Cons.prems(1) by (metis list.set_intros(1))
  let ?p = "pad (e_type e) n"
  have p: "pad (e_type e) m = ?p" by (rule pad_cong[OF Cons.prems(2)])
  have "(m + ?p + 16 + length d) mod 4 = (n + ?p + length d) mod 4" by (rule mod4[OF Cons.prems(2)])
  then have "sizeof_loop legacy False es (m + ?p + 16 + length d) =
      ok (m + ?p + 16 + length d + 16 * length es + length (data_of (n + ?p + length d) es))"
    using Cons.IH Cons.prems(1) by simp
  moreover have "\<not> ENTRY_IS_REGION e" "\<not> e_offset e < 0" using Cons.prems(1) by (simp_all add: drip_def)
  ultimately show ?case using e p align_diff_pad[OF e(1)] by simp
qed simp

text \<open>For a header built in memory that can be written and read back (\<open>plain\<close>: at least one entry, tags from
  100 on, no binary data, within the limits of the format) the size that \<open>headerSizeof\<close> computes is exactly the number of bytes
  that \<open>headerUnload\<close> writes for it, and the 8 bytes of the magic.\<close>

theorem headerSizeof_unload:
  assumes "hdr_ok h" "plain h"
  shows "\<exists>h' b. headerUnload h = ok (h', Some b) \<and> headerSizeof (Some h) = ok (Some (headerSort h), 8 + length b)"
proof -
  have d: "\<forall>e\<in>set (h_index h). drip e" "fits (h_index h)" using assms(2) by (simp_all add: plain_def)
  let ?es = "h_index (headerSort h)"
  have "sizeof_loop (h_legacy h) True ?es 16 = ok (16 + 16 * length ?es + length (data_of 0 ?es))"
    by (rule sizeof_drips) (use d(1) in simp_all)
  moreover have "length (image_of ?es) = 8 + 16 * length ?es + length (data_of 0 ?es)" by (simp add: image_of_def)
  ultimately have "headerSizeof (Some h) = ok (Some (headerSort h), 8 + length (image_of ?es))"
    by (simp add: headerSizeof_def Let_def)
  then show ?thesis using headerUnload_drips[OF d] unload_order[OF assms(1) d(1)] by metis
qed

theorem headerSizeof_unload_witness:
  "\<exists>h' b. headerUnload demo_header = ok (h', Some b) \<and>
     headerSizeof (Some demo_header) = ok (Some (headerSort demo_header), 8 + length b)"
  by (rule headerSizeof_unload[OF demo_header_ok demo_header_plain])

section \<open>Loaded entries lie in the blob\<close>

definition inside :: "string \<Rightarrow> indexEntry \<Rightarrow> bool" where
  "inside b e \<longleftrightarrow> (\<exists>off. e_data e = HBlob off \<and> 8 \<le> off \<and> off + int (e_length e) \<le> int (length b))"

lemma str_len_bound:
  "str_len lim m n = ok (Some (n', m', lim')) \<Longrightarrow> n' + length m' = n + length m"
  by (induction lim m n rule: str_len.induct) (auto simp: Let_def split: if_splits)

lemma strs_len_bound: "strs_len k lim m n = ok n' \<Longrightarrow> n' \<le> n + length m"
proof (induction k lim m n rule: strs_len.induct)
  case (2 k lim m n)
  then show ?case
    by (auto simp: andThen_Inr_iff split: option.splits dest!: str_len_bound) fastforce
qed simp

text \<open>On disk, data whose length was found is there.\<close>

lemma dataLength_bound:
  "dataLength t (PMem m) c True (Some (int (length m))) = ok n \<Longrightarrow> n \<le> length m"
  by (auto simp: dataLength_def mem_of_def past_end_def andThen_Inr_iff Let_def split: if_splits
      dest!: strs_len_bound simp del: strs_len.simps One_nat_def)

text \<open>A step of \<open>regionSwab\<close> that does not give up.\<close>

lemma regionSwab_step:
  assumes "regionSwab b cap (Suc il) dl pe ds de rid acc = ok (es, r)" "r \<noteq> 0"
  obtains i len dl' where "rd_info b pe = ok i" "\<not> hdrchkData (unat (i_offset i))" "ds + int (unat (i_offset i)) < de"
    "(if il > 0 then andThen (ntohl_at b (pe + 16 + 8)) (\<lambda>next. ok (unat (next - i_offset i)))
      else andThen (rd_bytes b (ds + int (unat (i_offset i))) (nat (int (length b) - (ds + int (unat (i_offset i)))))) (\<lambda>m.
        dataLength (i_type i) (PMem m) (i_count i) True (Some (de - (ds + int (unat (i_offset i))))))) = ok len"
    "\<not> hdrchkData len"
    "regionSwab b cap il dl' (pe + 16) ds de rid
       (\<lparr>e_tag = i_tag i, e_type = i_type i, e_offset = rid, e_count = i_count i,
         e_data = HBlob (ds + int (unat (i_offset i))), e_length = len, e_rdlen = 0\<rparr> # acc) = ok (es, r)"
proof -
  from assms(1) obtain i where i: "rd_info b pe = ok i" by (auto simp: andThen_Inr_iff)
  note a = assms(1)[unfolded regionSwab.simps(2) i andThen_simps Let_def guardC_def]
  have c: "\<not> (hdrchkType (i_type i) \<or> hdrchkData (unat (i_count i)) \<or> hdrchkData (unat (i_offset i)) \<or>
      hdrchkAlign (i_type i) (unat (i_offset i)))" "\<not> ds + int (unat (i_offset i)) \<ge> de"
    using a assms(2) by (auto split: if_splits)
  obtain len where len: "(if il > 0 then andThen (ntohl_at b (pe + 16 + 8)) (\<lambda>next. ok (unat (next - i_offset i)))
      else andThen (rd_bytes b (ds + int (unat (i_offset i))) (nat (int (length b) - (ds + int (unat (i_offset i)))))) (\<lambda>m.
        dataLength (i_type i) (PMem m) (i_count i) True (Some (de - (ds + int (unat (i_offset i))))))) = ok len"
    using a c by (auto simp: andThen_Inr_iff split: if_splits)
  note a' = a[unfolded len andThen_simps]
  have l: "\<not> (len = 0 \<or> hdrchkData len)" using a' c assms(2) by (auto split: if_splits)
  obtain d where d: "align_diff (i_type i) (unat dl) = ok d"
    using a' c l by (auto simp: andThen_Inr_iff split: if_splits)
  let ?dl = "dl + of_nat d + of_nat len"
  have "regionSwab b cap il ?dl (pe + 16) ds de rid
       (\<lparr>e_tag = i_tag i, e_type = i_type i, e_offset = rid, e_count = i_count i,
         e_data = HBlob (ds + int (unat (i_offset i))), e_length = len, e_rdlen = 0\<rparr> # acc) = ok (es, r)"
    using a' c l assms(2) by (simp add: d split: if_splits)
  then show ?thesis using that[OF i _ _ len] c l by auto
qed

lemma hdrchkData_less: "\<not> hdrchkData (unat (w :: u32)) \<Longrightarrow> unat w < 2 ^ 30"
proof -
  assume "\<not> hdrchkData (unat w)"
  then have "unat w div 1073741824 mod 4 = 0" by (simp add: hdrchkData_def)
  moreover have "unat w < 4294967296" using unsigned_less[of w, where 'a = nat] by simp
  ultimately show ?thesis by auto
qed

lemma sub_offset:
  assumes "\<not> hdrchkData (unat (x :: u32))" "\<not> hdrchkData (unat (y - x))"
  shows "unat y = unat x + unat (y - x)"
proof -
  have "unat x < 2 ^ 30" "unat (y - x) < 2 ^ 30" using assms hdrchkData_less by blast+
  then show ?thesis using unat_word_ariths(1)[of x "y - x"] by simp
qed

definition pending :: "string \<Rightarrow> int \<Rightarrow> int \<Rightarrow> indexEntry \<Rightarrow> bool" where
  "pending b ds pe x \<longleftrightarrow> (\<exists>t next. e_data x = HBlob t \<and> 8 \<le> t \<and> ntohl_at b (pe + 8) = ok next \<and>
     t + int (e_length x) = ds + int (unat next))"

lemma regionSwab_inside:
  assumes "regionSwab b cap il dl pe ds de rid acc = ok (es, r)" "r \<noteq> 0"
    and "de = int (length b)" "8 \<le> ds" "\<forall>x\<in>set acc. inside b x \<or> (0 < il \<and> pending b ds pe x)"
  shows "\<forall>x\<in>set es. inside b x"
  using assms(1,5)
proof (induction il arbitrary: dl pe acc)
  case 0
  then show ?case by auto
next
  case (Suc il)
  obtain i len dl' where
    i: "rd_info b pe = ok i" "\<not> hdrchkData (unat (i_offset i))" "ds + int (unat (i_offset i)) < de"
    and len: "(if il > 0 then andThen (ntohl_at b (pe + 16 + 8)) (\<lambda>next. ok (unat (next - i_offset i)))
      else andThen (rd_bytes b (ds + int (unat (i_offset i))) (nat (int (length b) - (ds + int (unat (i_offset i)))))) (\<lambda>m.
        dataLength (i_type i) (PMem m) (i_count i) True (Some (de - (ds + int (unat (i_offset i))))))) = ok len"
    and l: "\<not> hdrchkData len"
    and r: "regionSwab b cap il dl' (pe + 16) ds de rid
       (\<lparr>e_tag = i_tag i, e_type = i_type i, e_offset = rid, e_count = i_count i,
         e_data = HBlob (ds + int (unat (i_offset i))), e_length = len, e_rdlen = 0\<rparr> # acc) = ok (es, r)"
    by (rule regionSwab_step[OF Suc.prems(1) assms(2)])
  let ?t = "ds + int (unat (i_offset i))"
  have t8: "8 \<le> ?t" using assms(4) by linarith
  have off: "ntohl_at b (pe + 8) = ok (i_offset i)" using i(1) by (auto simp: rd_info_def andThen_Inr_iff)
  have old: "inside b x" if x: "x \<in> set acc" for x
    using Suc.prems(2) x off i(3) assms(3) by (auto simp: inside_def pending_def)
  let ?x = "\<lparr>e_tag = i_tag i, e_type = i_type i, e_offset = rid, e_count = i_count i,
         e_data = HBlob ?t, e_length = len, e_rdlen = 0\<rparr>"
  have "inside b ?x \<or> (0 < il \<and> pending b ds (pe + 16) ?x)"
  proof (cases "il > 0")
    case True
    then obtain nx where nx: "ntohl_at b (pe + 16 + 8) = ok nx" "len = unat (nx - i_offset i)"
      using len by (auto simp: andThen_Inr_iff)
    have "unat nx = unat (i_offset i) + len" using sub_offset[OF i(2), of nx] l nx(2) by blast
    then have "?t + int len = ds + int (unat nx)" by linarith
    then have "pending b ds (pe + 16) ?x" unfolding pending_def using nx(1) t8 by auto
    then show ?thesis using True by simp
  next
    case False
    then obtain m where m: "rd_bytes b ?t (nat (int (length b) - ?t)) = ok m"
        "dataLength (i_type i) (PMem m) (i_count i) True (Some (de - ?t)) = ok len"
      using len by (auto simp: andThen_Inr_iff)
    then have "length m = nat (int (length b) - ?t)" by (auto simp: rd_bytes_def guardC_def split: if_splits)
    then have "int (length m) = de - ?t" using i(3) assms(3) by simp
    then have "len \<le> length m" using m(2) dataLength_bound[of "i_type i" m "i_count i" len] by simp
    then have "?t + int len \<le> int (length b)" using \<open>int (length m) = de - ?t\<close> assms(3) by linarith
    then show ?thesis using t8 by (simp add: inside_def)
  qed
  then have "\<forall>x\<in>set (?x # acc). inside b x \<or> (0 < il \<and> pending b ds (pe + 16) x)" using old by auto
  then show ?case by (rule Suc.IH[OF r])
qed

lemma headerRemoveEntry_subset:
  assumes "headerRemoveEntry h t = ok (h', rc)" "h_sorted h"
  shows "set (h_index h') \<subseteq> set (h_index h) \<and> h_sorted h' \<and> h_blob h' = h_blob h"
proof -
  have s: "headerSort h = h" using assms(2) by (simp add: headerSort_def)
  then have "\<exists>r. findEntry h t 0 = ok (h, r)"
    by (cases "bsearch tag_cmp t (h_index h)") (simp_all add: findEntry_def Let_def)
  then obtain r where r: "findEntry h t 0 = ok (h, r)" by blast
  show ?thesis
  proof (cases r)
    case None
    then show ?thesis using assms r by (auto simp: headerRemoveEntry_def)
  next
    case (Some i)
    have sub: "set (take j es @ dropWhile P (drop j es)) \<subseteq> set es" for j P and es :: "indexEntry list"
      by (auto dest: set_dropWhileD in_set_dropD in_set_takeD)
    have "h' = h\<lparr>h_index := take (first_of (h_index h) t i) (h_index h) @
        dropWhile (\<lambda>e. e_tag e = t) (drop (first_of (h_index h) t i) (h_index h))\<rparr>"
      using assms r Some by (auto simp: headerRemoveEntry_def Let_def)
    then show ?thesis using assms(2) by (simp del: set_append) (rule sub)
  qed
qed

lemma drop_dups_subset:
  "drop_dups h ds = ok h' \<Longrightarrow> h_sorted h \<Longrightarrow> set (h_index h') \<subseteq> set (h_index h) \<and> h_sorted h'"
proof (induction ds arbitrary: h)
  case (Cons d ds)
  obtain h1 x1 h2 x2 where h: "headerRemoveEntry h (e_tag d) = ok (h1, x1)"
      "(if e_tag d = HEADER_BASENAMES then headerRemoveEntry h1 HEADER_OLDFILENAMES else ok (h1, 0)) = ok (h2, x2)"
      "drop_dups h2 ds = ok h'"
    using Cons.prems(1) by (auto simp: andThen_Inr_iff)
  have a: "set (h_index h1) \<subseteq> set (h_index h)" "h_sorted h1"
    using headerRemoveEntry_subset[OF h(1) Cons.prems(2)] by simp_all
  have "set (h_index h2) \<subseteq> set (h_index h1) \<and> h_sorted h2"
    using h(2) a(2) headerRemoveEntry_subset[of h1 HEADER_OLDFILENAMES h2 x2] by (auto split: if_splits)
  then show ?case using Cons.IH[OF h(3)] a(1) by auto
qed simp

text \<open>C28: When a sealed header (one whose first entry is a region) loads, in memory that ends with its data,
  every entry of the loaded header refers to memory inside the blob: none of the offsets and lengths that
  the blob claims for its entries, dribbles included, lets an entry begin or end outside of it.\<close>

theorem headerLoad_sealed_inside:
  assumes "headerLoad b = ok (Some h)" "ntohl_at b 0 = ok il" "ntohl_at b 4 = ok dl" "ntohl_at b 8 = ok tag"
    and "length b = 8 + 16 * unat il + unat dl" "tag < HEADER_I18NTABLE"
  shows "\<forall>e\<in>set (h_index h). inside b e"
proof -
  let ?il = "unat il" let ?dl = "unat dl"
  let ?ds = "8 + 16 * int ?il" let ?de = "?ds + int ?dl"
  have de: "?de = int (length b)" using assms(5) by simp
  from assms(1-4,6) obtain i where i: "load_sealed b ?il ?dl i = ok (Some h)"
    by (auto simp: headerLoad_def andThen_Inr_iff linorder_not_le split: if_splits)
  then obtain rdl ril t es rdlen where x: "region_extent b ?il i = ok (Some (rdl, ril, t))"
    and es: "regionSwab b ?il (unat (ril - 1)) 0 (8 + 16) ?ds ?de (- sint rdl) [] = ok (es, rdlen)"
    by (auto simp: load_sealed_def Let_def andThen_Inr_iff split: if_splits option.splits)
  let ?region = "\<lparr>e_tag = t, e_type = i_type i, e_offset = - sint rdl, e_count = i_count i,
                      e_data = HBlob 8, e_length = 16 * ?il + ?dl, e_rdlen = unat rdlen\<rparr>"
  let ?h = "(load_header b ?il ?dl)\<lparr>h_legacy := False, h_index := take ?il (?region # es)\<rparr>"
  have r: "rdlen \<noteq> 0" using i es x by (auto simp: load_sealed_def Let_def andThen_Inr_iff split: if_splits)
  have "inside b ?region" using assms(5) by (simp add: inside_def)
  moreover have "\<forall>x\<in>set es. inside b x" by (rule regionSwab_inside[OF es r de]) simp_all
  ultimately have base: "\<forall>x\<in>set (h_index ?h). inside b x"
    using set_take_subset[of ?il "?region # es"] by auto
  show ?thesis
  proof (cases "unat ril < ?il")
    case False
    then have "h = headerSort (?h\<lparr>h_sorted := False\<rparr>)"
      using i es x r by (auto simp: load_sealed_def Let_def split: if_splits)
    then show ?thesis using base by simp
  next
    case True
    from i es x r True obtain ds rc h1 where
      ds: "regionSwab b (?il - unat ril) (?il - unat ril) 0 (8 + 16 * uint ril) ?ds ?de (- sint rdl + 1) [] = ok (ds, rc)"
      "rc \<noteq> 0" and h1: "drop_dups ?h ds = ok h1" "h = headerSort (h1\<lparr>h_index := h_index h1 @ ds, h_sorted := False\<rparr>)"
      by (auto simp: load_sealed_def Let_def andThen_Inr_iff split: if_splits)
    have "\<forall>x\<in>set ds. inside b x" by (rule regionSwab_inside[OF ds(1,2) de]) simp_all
    moreover have "set (h_index h1) \<subseteq> set (h_index ?h)"
      using drop_dups_subset[OF h1(1)] by (simp add: load_header_def headerNew_def)
    ultimately show ?thesis using base h1(2) by auto
  qed
qed

text \<open>A sealed header with one string: the region entry, the string's entry, the string and the trailer.\<close>

definition sealed_blob :: string where
  "sealed_blob = htonl 2 @ htonl 18 @ wr_info 63 7 2 16 @ wr_info 1000 6 0 1 @ ''a'' @ [NUL] @ wr_info 63 7 (- 32) 16"

definition loads :: "string \<Rightarrow> bool" where
  "loads b = (case headerLoad b of Inr (Some h) \<Rightarrow> True | _ \<Rightarrow> False)"

lemma loads_obtain: "loads b \<Longrightarrow> \<exists>h. headerLoad b = ok (Some h)"
  by (auto simp: loads_def split: sum.splits option.splits)

theorem headerLoad_sealed_inside_witness:
  "\<exists>h. headerLoad sealed_blob = ok (Some h) \<and> (\<forall>e\<in>set (h_index h). inside sealed_blob e)"
proof -
  have "loads sealed_blob" by code_simp
  then obtain h where h: "headerLoad sealed_blob = ok (Some h)" using loads_obtain by blast
  have "ntohl_at sealed_blob 0 = ok 2" "ntohl_at sealed_blob 4 = ok 18" "ntohl_at sealed_blob 8 = ok 63"
    "length sealed_blob = 8 + 16 * unat (2 :: u32) + unat (18 :: u32)" "(63 :: u32) < HEADER_I18NTABLE" by code_simp+
  from headerLoad_sealed_inside[OF h this] h show ?thesis by blast
qed

section \<open>Hostile blobs\<close>

text \<open>
  Two blobs that \<open>headerLoad\<close> takes. In the first, without a region, the second entry's offset is
  outside of the data; the length of the first is computed from it before it is checked, and the result of
  \<open>regionSwab\<close> is not. In the second the trailer claims three entries where the index has one, so that
  the data is read as entries, and these are written behind the end of the array.
\<close>

definition wild_blob :: string where
  "wild_blob = htonl 2 @ htonl 8 @ wr_info 1000 7 4 8 @ wr_info 1001 7 12 1 @ replicate 8 NUL"

definition claim_blob :: string where
  "claim_blob = htonl 1 @ htonl 48 @ wr_info 63 7 32 16 @
     wr_info 1000 7 0 1 @ wr_info 1001 7 4 1 @ wr_info 63 7 (- 48) 16"

definition wild_header :: Header where
  "wild_header = (case headerLoad wild_blob of Inr (Some h) \<Rightarrow> h | _ \<Rightarrow> headerNew)"

lemma wild_loads: "headerLoad wild_blob = ok (Some wild_header)"
proof -
  have "loads wild_blob" by code_simp
  then show ?thesis by (auto simp: wild_header_def loads_def split: sum.splits option.splits)
qed

lemma wild_shape:
  "(h_sorted wild_header, h_blob wild_header = Some wild_blob, length wild_blob,
    map (\<lambda>e. (e_tag e, e_type e, e_data e, e_length e)) (h_index wild_header)) =
   (True, True, 48, [(0, 0, HNull, 0), (61, 7, HBlob 8, 40), (1000, 7, HBlob 44, 8)])"
  by code_simp

lemma wild_facts:
  "h_sorted wild_header" "h_blob wild_header = Some wild_blob" "length wild_blob = 48"
  "map (\<lambda>e. (e_tag e, e_type e, e_data e, e_length e)) (h_index wild_header) =
     [(0, 0, HNull, 0), (61, 7, HBlob 8, 40), (1000, 7, HBlob 44, 8)]"
  using wild_shape by simp_all

text \<open>Two hostile blobs of consistent size. A region trailer that claims more entries than the index has
  makes \<open>headerLoad\<close> write behind its array of entries; a legacy blob whose second entry has an offset
  outside of the data loads, and looking up its first tag reads behind the blob.\<close>

theorem headerLoad_hostile:
  "headerLoad claim_blob = Inl BufferOverflow \<and>
   headerLoad wild_blob = ok (Some wild_header) \<and>
   headerGet exts lang wild_header (he_zero\<lparr>he_tag := 1000\<rparr>) True True = Inl OutOfBounds"
proof -
  have "headerLoad claim_blob = Inl BufferOverflow" by code_simp
  moreover obtain a b c where ix: "h_index wild_header = [a, b, c]" "e_tag a = 0" "e_tag b = 61" "e_tag c = 1000"
      "e_type c = 7" "e_data c = HBlob 44" "e_length c = 8"
    using wild_facts(4) by auto
  have "headerSort wild_header = wild_header" using wild_facts(1) by (simp add: headerSort_def)
  then have "findEntry wild_header 1000 0 = ok (wild_header, Some 2)"
    using ix by (simp add: findEntry_def bsearch_def bsearch_loop.simps tag_cmp_def Let_def)
  moreover have "copyEntry wild_header c (he_zero\<lparr>he_tag := 1000\<rparr>) = Inl OutOfBounds"
    using ix wild_facts(2,3) by (simp add: copyEntry_def rpm_types region_tag_def HEADER_IMAGE_def HEADER_REGIONS_def
        guardC_def rd_bytes_def)
  ultimately show ?thesis
    using wild_loads ix by (simp add: headerGet_store intGetEntry_def he_zero_def rpm_types)
qed

end
