(* ===== verification/HdrI18n.thy ===== *)
theory HdrI18n
  imports HdrStore
begin

text \<open>
  Strings in several languages (\<open>headerAddI18NString\<close> in \<open>rpmdb/header.c\<close>): the header has a table of
  locales, and a tag of the type \<open>RPM_I18NSTRING_TYPE\<close> a string for each. What is added for a locale
  is what a lookup under that locale finds.
\<close>

section \<open>The model\<close>

text \<open>The index of a string among the first \<open>n\<close> in memory, or \<open>n\<close>.\<close>

fun lang_index :: "nat \<Rightarrow> string \<Rightarrow> string \<Rightarrow> nat outcome" where
  "lang_index 0 m lang = ok 0"
| "lang_index (Suc n) m lang =
     andThen (next_str m) (\<lambda>(s, r). if s = lang then ok 0 else andThen (lang_index n r lang) (\<lambda>k. ok (Suc k)))"

text \<open>What follows \<open>n\<close> strings.\<close>

fun skip_strs :: "nat \<Rightarrow> string \<Rightarrow> string outcome" where
  "skip_strs 0 m = ok m"
| "skip_strs (Suc n) m = andThen (next_str m) (\<lambda>(s, r). skip_strs n r)"

definition upd_entry :: "Header \<Rightarrow> nat \<Rightarrow> indexEntry \<Rightarrow> Header" where
  "upd_entry h i e = h\<lparr>h_index := (h_index h)[i := e]\<rparr>"

text \<open>The table of locales of a header that has none: C, and the locale if it is another.\<close>

definition first_table :: "string option \<Rightarrow> HE" where
  "first_table lang =
     (let av = (case lang of None \<Rightarrow> [''C''] | Some l \<Rightarrow> if l = ''C'' then [''C''] else [''C'', l]) in
      he_zero\<lparr>he_tag := HEADER_I18NTABLE, he_t := RPM_STRING_ARRAY_TYPE, he_p := PArgv av, he_c := of_nat (length av)\<rparr>)"

definition i18n_he :: "u32 \<Rightarrow> nat \<Rightarrow> string \<Rightarrow> HE" where
  "i18n_he tag k s = he_zero\<lparr>he_tag := tag, he_t := RPM_I18NSTRING_TYPE, he_p := PArgv (replicate k [] @ [s]),
     he_c := of_nat (k + 1)\<rparr>"

text \<open>The locale is added at the end of the table.\<close>

definition table_add :: "Header \<Rightarrow> nat \<Rightarrow> string \<Rightarrow> Header outcome" where
  "table_add h ti lang =
     (let t = h_index h ! ti in
      andThen (kept h t) (\<lambda>old.
        ok (upd_entry h ti ((grown t (old @ lang @ [NUL]) (length lang + 1))\<lparr>e_count := e_count t + 1\<rparr>))))"

text \<open>A new string behind the last one, with empty strings for the locales between.\<close>

definition i18n_append :: "Header \<Rightarrow> nat \<Rightarrow> nat \<Rightarrow> string \<Rightarrow> Header outcome" where
  "i18n_append h ei k s =
     (let e = h_index h ! ei; ghosts = k - unat (e_count e) in
      andThen (kept h e) (\<lambda>old.
        ok (upd_entry h ei ((grown e (old @ replicate ghosts NUL @ s @ [NUL]) (length s + 1 + ghosts))
              \<lparr>e_count := of_nat (k + 1)\<rparr>))))"

text \<open>The string number \<open>k\<close> replaced, where the code takes the entry to have the \<open>n\<close> strings of the table.\<close>

definition i18n_replace :: "Header \<Rightarrow> nat \<Rightarrow> nat \<Rightarrow> nat \<Rightarrow> string \<Rightarrow> Header outcome" where
  "i18n_replace h ei n k s =
     (let e = h_index h ! ei in
      andThen (mem h (e_data e)) (\<lambda>m.
      andThen (skip_strs k m) (\<lambda>be. andThen (next_str be) (\<lambda>(old, r).
      andThen (skip_strs (n - Suc k) r) (\<lambda>ee.
        let b = take (length m - length be) m; t = take (length r - length ee) r in
        ok (upd_entry h ei (e\<lparr>e_data := HHeap (b @ s @ [NUL] @ t),
              e_length := e_length e - (length old + 1) + (length s + 1),
              e_offset := (if ENTRY_IN_REGION e then 0 else e_offset e)\<rparr>)))))))"

text \<open>The entries of the table, added to a header that has neither, and of the tag. There is no table where
  the code gives up.\<close>

definition i18n_entries :: "Header \<Rightarrow> u32 \<Rightarrow> string option \<Rightarrow> (Header \<times> nat option \<times> nat option) outcome" where
  "i18n_entries h tag lang =
     andThen (findEntry h HEADER_I18NTABLE RPM_STRING_ARRAY_TYPE) (\<lambda>(h, ti).
     andThen (findEntry h tag RPM_I18NSTRING_TYPE) (\<lambda>(h, ei).
       if ti \<noteq> None \<or> ei \<noteq> None then ok (h, ti, ei)
       else andThen (headerAddEntry h (first_table lang)) (\<lambda>(h, rc).
              if rc then andThen (findEntry h HEADER_I18NTABLE RPM_STRING_ARRAY_TYPE) (\<lambda>(h, ti). ok (h, ti, None))
              else ok (h, None, None))))"

text \<open>The result is that of adding an entry; where the entry is there it is 0.\<close>

definition headerAddI18NString :: "Header \<Rightarrow> u32 \<Rightarrow> string \<Rightarrow> string option \<Rightarrow> (Header \<times> bool) outcome" where
  "headerAddI18NString h tag s lang =
     andThen (i18n_entries h tag lang) (\<lambda>(h, ti, ei).
       case ti of None \<Rightarrow> ok (h, False)
       | Some ti \<Rightarrow>
           let l = (case lang of None \<Rightarrow> ''C'' | Some l \<Rightarrow> l); n = unat (e_count (h_index h ! ti)) in
           andThen (mem h (e_data (h_index h ! ti))) (\<lambda>m.
           andThen (lang_index n m l) (\<lambda>k.
           andThen (if k \<ge> n then table_add h ti l else ok h) (\<lambda>h.
             case ei of None \<Rightarrow> headerAddEntry h (i18n_he tag k s)
             | Some ei \<Rightarrow>
                 if k \<ge> unat (e_count (h_index h ! ei)) then andThen (i18n_append h ei k s) (\<lambda>h. ok (h, False))
                 else andThen (i18n_replace h ei (unat (e_count (h_index h ! ti))) k s) (\<lambda>h. ok (h, False))))))"

section \<open>Strings in memory\<close>

definition idx_of :: "string list \<Rightarrow> string \<Rightarrow> nat" where
  "idx_of T l = length (takeWhile (\<lambda>x. x \<noteq> l) T)"

definition no_nul :: "string list \<Rightarrow> bool" where
  "no_nul T \<longleftrightarrow> (\<forall>s\<in>set T. NUL \<notin> set s)"

lemma no_nul_simps [simp]:
  "no_nul []" "no_nul (s # T) \<longleftrightarrow> NUL \<notin> set s \<and> no_nul T" "no_nul (A @ B) \<longleftrightarrow> no_nul A \<and> no_nul B"
  "no_nul (replicate n [])"
  by (auto simp: no_nul_def)

lemma lang_index_cat: "no_nul T \<Longrightarrow> lang_index (length T) (cat_strs T @ r) l = ok (idx_of T l)"
  by (induction T) (auto simp: next_str_app idx_of_def)

lemma skip_cat: "no_nul A \<Longrightarrow> skip_strs (length A) (cat_strs A @ r) = ok r"
  by (induction A) (simp_all add: next_str_app)

lemma cat_ghosts [simp]: "cat_strs (replicate n []) = replicate n NUL"
  by (induction n) simp_all

lemma idx_of_le: "idx_of T l \<le> length T"
  by (simp add: idx_of_def length_takeWhile_le)

lemma idx_of_mem: "idx_of T l < length T \<longleftrightarrow> l \<in> set T"
  by (induction T) (auto simp: idx_of_def)

lemma idx_of_nth: "l \<in> set T \<Longrightarrow> T ! idx_of T l = l"
  by (induction T) (auto simp: idx_of_def)

lemma idx_of_before: "j < idx_of T l \<Longrightarrow> T ! j \<noteq> l"
proof (induction T arbitrary: j)
  case (Cons x T)
  then show ?case by (cases j) (auto simp: idx_of_def split: if_splits)
qed (simp add: idx_of_def)

section \<open>Entries with strings\<close>

definition strs_entry :: "indexEntry \<Rightarrow> string list \<Rightarrow> bool" where
  "strs_entry e T \<longleftrightarrow> is_argv (e_type e) \<and> no_nul T \<and> unat (e_count e) = length T \<and> count_ok (e_count e) \<and>
     e_data e = HHeap (cat_strs T) \<and> e_length e = length (cat_strs T)"

lemma strs_exact: "strs_entry e T \<Longrightarrow> exact e (PArgv T) \<and> value_of (e_type e) (e_count e) (PArgv T) = PArgv T"
  by (auto simp: strs_entry_def exact_def wire_def no_nul_def value_of_def)

lemma exact_strs: "exact e p \<Longrightarrow> is_argv (e_type e) \<Longrightarrow>
    \<exists>T. strs_entry e T \<and> value_of (e_type e) (e_count e) p = PArgv T"
  by (auto simp: exact_def wire_def value_of_def strs_entry_def no_nul_def is_argv_def rpm_types numeric_def
      split: tagData.splits if_splits)

text \<open>The strings of a tag in the map, and the entry that has them.\<close>

definition strs_of :: "store \<Rightarrow> u32 \<Rightarrow> u32 \<Rightarrow> string list \<Rightarrow> bool" where
  "strs_of m t ty T \<longleftrightarrow> (\<exists>c. m t = Some (ty, c, PArgv T))"

lemma sim_strs:
  assumes "sim h m" "strs_of m t ty T" "is_argv ty"
  obtains i where "findEntry h t ty = ok (headerSort h, Some i)" "findEntry h t 0 = ok (headerSort h, Some i)"
    "i < length (h_index h)" "e_tag (h_index (headerSort h) ! i) = t" "e_type (h_index (headerSort h) ! i) = ty"
    "strs_entry (h_index (headerSort h) ! i) T"
proof -
  have h: "hdr_ok h" "alpha h = m" using assms(1) by (simp_all add: sim_def)
  obtain c where c: "alpha h t = Some (ty, c, PArgv T)" using assms(2) h(2) by (auto simp: strs_of_def)
  then obtain e where e: "e \<in> set (h_index h)" "e_tag e = t" "e_type e = ty" "entry_value h e = PArgv T" "\<not> region_tag t"
    by (auto simp: alpha_def find_Some_iff dest: nth_mem split: if_splits)
  have s: "small_tag (e_tag e)" using h(1) e(1) by (simp add: hdr_ok_def hdr_inv_def)
  have u: "\<forall>x\<in>set (h_index h). e_tag x = e_tag e \<longrightarrow> x = e"
    using h(1) e(1) by (auto simp: hdr_ok_def distinct_map inj_on_def)
  obtain j where j: "findEntry h (e_tag e) 0 = ok (headerSort h, Some j)" "h_index (headerSort h) ! j = e"
    by (rule findEntry_unique[OF hdr_ok_inv[OF h(1)] s e(1) u])
  have "ty \<noteq> 0" using assms(3) by (auto simp: is_argv_def rpm_types)
  then obtain i where i: "findEntry h (e_tag e) (e_type e) = ok (headerSort h, Some i)" "i < length (h_index h)"
      "h_index (headerSort h) ! i = e" using findEntry_type[OF h(1) e(1)] e(3) by metis
  have "distinct (map e_tag (h_index (headerSort h)))"
    using hdr_ok_sort[OF h(1)] by (simp add: hdr_ok_def)
  moreover have "j < length (h_index h)"
  proof -
    have "bsearch tag_cmp (e_tag e) (h_index (headerSort h)) = Some j"
      using j(1) by (auto simp: findEntry_def Let_def split: option.splits)
    from bsearch_Some[OF this] show ?thesis by simp
  qed
  ultimately have ji: "j = i"
    using nth_eq_iff_index_eq[of "map e_tag (h_index (headerSort h))" j i] j(2) i(2,3) by simp
  obtain p where p: "exact e p" using assms(1) e(1) by (auto simp: sim_def)
  obtain T' where T': "strs_entry e T'" "value_of (e_type e) (e_count e) p = PArgv T'"
    using exact_strs[OF p] assms(3) e(3) by blast
  have "entry_value h e = PArgv T'" using holds_value[OF exact_holds[OF p], of h] T'(2) e(2,5) by simp
  then have "strs_entry e T" using T'(1) e(4) by simp
  then show ?thesis using that i j ji e(2,3) by simp
qed

lemma sim_absent: "sim h m \<Longrightarrow> user_tag t \<Longrightarrow> m t = None \<Longrightarrow> findEntry h t ty = ok (headerSort h, None)"
  using findEntry_absent[of h t ty] sim_tags[of h m t] by (simp add: sim_def user_tag_def)

text \<open>Replacing the entry of a tag by one with other strings.\<close>

lemma sim_upd:
  assumes "sim h m" "h_sorted h" "i < length (h_index h)" "e_tag e = e_tag (h_index h ! i)" "strs_entry e T"
    "\<not> region_tag (e_tag e)"
  shows "sim (upd_entry h i e) (m(e_tag e \<mapsto> (e_type e, e_count e, PArgv T)))"
proof -
  note x = strs_exact[OF assms(5)]
  have h: "hdr_ok h" using assms(1) by (simp add: sim_def)
  have "\<forall>y\<in>set ((h_index h)[i := e]). \<exists>p. exact y p"
    using set_update_subset_insert[of "h_index h" i e] assms(1) x by (fastforce simp: sim_def)
  then show ?thesis
    using hdr_ok_update[OF h assms(2-4) exact_holds[OF conjunct1[OF x]] assms(6)] x assms(1)
    by (simp add: sim_def upd_entry_def)
qed

section \<open>The steps\<close>

lemma kept_strs: "strs_entry e T \<Longrightarrow> kept h e = ok (cat_strs T)"
  by (simp add: kept_def strs_entry_def rd_bytes_def guardC_def)

lemma count_ok_of_nat: "0 < k \<Longrightarrow> k < 2 ^ 30 \<Longrightarrow> count_ok (of_nat k) \<and> unat (of_nat k :: u32) = k"
proof -
  assume a: "0 < k" "k < 2 ^ 30"
  then have "unat (of_nat k :: u32) = k" by (simp add: unat_of_nat)
  moreover from this have "(of_nat k :: u32) \<noteq> 0" using a(1) by (metis less_numeral_extra(3) unat_0)
  ultimately show ?thesis using a by (simp add: count_ok_def hdrchkData_def)
qed

lemma table_add_strs:
  assumes "strs_entry (h_index h ! i) T" "NUL \<notin> set l" "length T + 1 < 2 ^ 30"
  shows "\<exists>e. table_add h i l = ok (upd_entry h i e) \<and> strs_entry e (T @ [l]) \<and>
     e_tag e = e_tag (h_index h ! i) \<and> e_type e = e_type (h_index h ! i)"
proof -
  let ?t = "h_index h ! i"
  have c: "e_count ?t + 1 = of_nat (length T + 1)"
  proof -
    have u: "unat (e_count ?t) = length T" using assms(1) by (simp add: strs_entry_def)
    show ?thesis unfolding u[symmetric] by simp
  qed
  let ?n = "(grown ?t (cat_strs T @ l @ [NUL]) (length l + 1))\<lparr>e_count := e_count ?t + 1\<rparr>"
  have "strs_entry ?n (T @ [l])"
    using assms count_ok_of_nat[of "length T + 1"] unfolding c by (simp add: strs_entry_def grown_def)
  moreover have "table_add h i l = ok (upd_entry h i ?n)" by (simp add: table_add_def kept_strs[OF assms(1)] Let_def)
  moreover have "e_tag ?n = e_tag ?t" "e_type ?n = e_type ?t" by (simp_all add: grown_def)
  ultimately show ?thesis by blast
qed

definition with_str :: "string list \<Rightarrow> nat \<Rightarrow> string \<Rightarrow> string list" where
  "with_str E k s = (if k < length E then E[k := s] else E @ replicate (k - length E) [] @ [s])"

lemma i18n_append_strs:
  assumes "strs_entry (h_index h ! i) E" "NUL \<notin> set s" "length E \<le> k" "k + 1 < 2 ^ 30"
  shows "\<exists>e. i18n_append h i k s = ok (upd_entry h i e) \<and> strs_entry e (with_str E k s) \<and>
     e_tag e = e_tag (h_index h ! i) \<and> e_type e = e_type (h_index h ! i)"
proof -
  let ?e = "h_index h ! i" let ?g = "k - length E"
  let ?n = "(grown ?e (cat_strs E @ replicate ?g NUL @ s @ [NUL]) (length s + 1 + ?g))\<lparr>e_count := of_nat (k + 1)\<rparr>"
  have "strs_entry ?n (with_str E k s)"
    using assms count_ok_of_nat[of "k + 1"] by (simp add: strs_entry_def grown_def with_str_def)
  moreover have "i18n_append h i k s = ok (upd_entry h i ?n)"
    using assms(1) by (simp add: i18n_append_def kept_strs[OF assms(1)] strs_entry_def Let_def)
  moreover have "e_tag ?n = e_tag ?e" "e_type ?n = e_type ?e" by (simp_all add: grown_def)
  ultimately show ?thesis by blast
qed

lemma i18n_replace_strs:
  assumes "strs_entry (h_index h ! i) E" "NUL \<notin> set s" "k < length E"
  shows "\<exists>e. i18n_replace h i (length E) k s = ok (upd_entry h i e) \<and> strs_entry e (with_str E k s) \<and>
     e_tag e = e_tag (h_index h ! i) \<and> e_type e = e_type (h_index h ! i)"
proof -
  let ?e = "h_index h ! i"
  let ?A = "take k E" let ?B = "drop (Suc k) E"
  have E: "E = ?A @ E ! k # ?B" using assms(3) by (simp add: id_take_nth_drop)
  have n: "no_nul ?A" "no_nul ?B" "NUL \<notin> set (E ! k)"
    using assms(1) E by (metis no_nul_simps(2,3) strs_entry_def)+
  have cE: "cat_strs E = cat_strs ?A @ E ! k @ NUL # cat_strs ?B" by (subst E) simp
  have 1: "skip_strs k (cat_strs E) = ok (E ! k @ NUL # cat_strs ?B)"
    using skip_cat[OF n(1), of "E ! k @ NUL # cat_strs ?B"] assms(3) by (simp add: cE)
  have 2: "skip_strs (length E - Suc k) (cat_strs ?B) = ok []"
    using skip_cat[OF n(2), of "[]"] by simp
  have b: "take (length (cat_strs E) - length (E ! k @ NUL # cat_strs ?B)) (cat_strs E) = cat_strs ?A"
    by (simp add: cE)
  have w: "with_str E k s = ?A @ s # ?B" using assms(3) by (simp add: with_str_def upd_conv_take_nth_drop)
  let ?n = "?e\<lparr>e_data := HHeap (cat_strs ?A @ s @ [NUL] @ cat_strs ?B),
      e_length := e_length ?e - (length (E ! k) + 1) + (length s + 1),
      e_offset := (if ENTRY_IN_REGION ?e then 0 else e_offset ?e)\<rparr>"
  have "length (cat_strs E) = length (cat_strs ?A) + length (E ! k) + 1 + length (cat_strs ?B)" by (simp add: cE)
  moreover have "length (with_str E k s) = length E" using assms(3) by (simp add: with_str_def)
  ultimately have "strs_entry ?n (with_str E k s)"
    using assms(1,2) n w by (simp add: strs_entry_def)
  moreover have "mem h (e_data ?e) = ok (cat_strs E)" using assms(1) by (simp add: strs_entry_def)
  then have "i18n_replace h i (length E) k s = ok (upd_entry h i ?n)"
    using 1 2 b by (simp add: i18n_replace_def next_str_app[OF n(3)] Let_def)
  ultimately show ?thesis by fastforce
qed

text \<open>The table with the locale, and the first table of a header.\<close>

definition with_lang :: "string list \<Rightarrow> string \<Rightarrow> string list" where
  "with_lang T l = (if l \<in> set T then T else T @ [l])"

definition start_table :: "string \<Rightarrow> string list" where
  "start_table l = (if l = ''C'' then [''C''] else [''C'', l])"

lemma idx_with_lang: "idx_of T l < length (with_lang T l) \<and> with_lang T l ! idx_of T l = l"
proof (cases "l \<in> set T")
  case True
  then show ?thesis using idx_of_mem idx_of_nth by (simp add: with_lang_def)
next
  case False
  then have "idx_of T l = length T" using idx_of_mem[of T l] idx_of_le[of T l] by simp
  then show ?thesis using False by (simp add: with_lang_def)
qed

lemma table_step:
  assumes "sim h m" "h_sorted h" "ti < length (h_index h)" "e_tag (h_index h ! ti) = HEADER_I18NTABLE"
    "e_type (h_index h ! ti) = RPM_STRING_ARRAY_TYPE" "strs_entry (h_index h ! ti) T"
    "NUL \<notin> set l" "length T + 1 < 2 ^ 30"
  shows "\<exists>h2 m2. (if idx_of T l \<ge> length T then table_add h ti l else ok h) = ok h2 \<and> sim h2 m2 \<and> h_sorted h2 \<and>
     length (h_index h2) = length (h_index h) \<and> strs_entry (h_index h2 ! ti) (with_lang T l) \<and>
     (\<forall>j. j \<noteq> ti \<longrightarrow> h_index h2 ! j = h_index h ! j) \<and>
     strs_of m2 HEADER_I18NTABLE RPM_STRING_ARRAY_TYPE (with_lang T l) \<and> (\<forall>t. t \<noteq> HEADER_I18NTABLE \<longrightarrow> m2 t = m t)"
proof (cases "l \<in> set T")
  case True
  have r: "\<not> region_tag (e_tag (h_index h ! ti))"
    using assms(4) by (simp add: region_tag_def HEADER_I18NTABLE_def HEADER_IMAGE_def HEADER_REGIONS_def)
  have "alpha h HEADER_I18NTABLE = Some (RPM_STRING_ARRAY_TYPE, e_count (h_index h ! ti), entry_value h (h_index h ! ti))"
    using alpha_entry[OF _ nth_mem[OF assms(3)] r] assms(1,4,5) by (simp add: sim_def)
  moreover have "entry_value h (h_index h ! ti) = PArgv T"
    using strs_exact[OF assms(6)] holds_value[OF exact_holds, of "h_index h ! ti" "PArgv T" h] r by simp
  ultimately have "strs_of m HEADER_I18NTABLE RPM_STRING_ARRAY_TYPE T" using assms(1) by (simp add: strs_of_def sim_def)
  then show ?thesis using True assms idx_of_mem[of T l] by (auto simp: with_lang_def)
next
  case False
  have r: "\<not> region_tag HEADER_I18NTABLE"
    by (simp add: region_tag_def HEADER_I18NTABLE_def HEADER_IMAGE_def HEADER_REGIONS_def)
  obtain e where e: "table_add h ti l = ok (upd_entry h ti e)" "strs_entry e (T @ [l])"
      "e_tag e = e_tag (h_index h ! ti)" "e_type e = e_type (h_index h ! ti)"
    using table_add_strs[OF assms(6-8)] by blast
  have s: "sim (upd_entry h ti e) (m(e_tag e \<mapsto> (e_type e, e_count e, PArgv (T @ [l]))))"
    by (rule sim_upd[OF assms(1-3) e(3,2)]) (use e(3) assms(4) r in simp)
  have "idx_of T l \<ge> length T" using False idx_of_mem[of T l] by simp
  then show ?thesis
    using e s False assms(2,3,4,5)
    by (intro exI[of _ "upd_entry h ti e"] exI[of _ "m(e_tag e \<mapsto> (e_type e, e_count e, PArgv (T @ [l])))"])
      (auto simp: upd_entry_def with_lang_def strs_of_def)
qed

lemma strs_sort: "h_sorted h \<Longrightarrow> headerSort h = h"
  by (simp add: headerSort_def)

text \<open>What the code relies on: a header with strings in several languages has the table, and an entry
  has no string without a locale; a string that is replaced is in an entry with one for each locale.\<close>

definition i18n_ready :: "store \<Rightarrow> u32 \<Rightarrow> string list \<Rightarrow> string list \<Rightarrow> string \<Rightarrow> bool" where
  "i18n_ready m tag T E l \<longleftrightarrow>
     user_tag tag \<and> tag \<noteq> HEADER_I18NTABLE \<and> NUL \<notin> set l \<and> length T + 1 < 2 ^ 30 \<and>
     (if m HEADER_I18NTABLE = None then m tag = None \<and> T = start_table l
      else strs_of m HEADER_I18NTABLE RPM_STRING_ARRAY_TYPE T) \<and>
     (if m tag = None then E = [] else strs_of m tag RPM_I18NSTRING_TYPE E) \<and>
     (idx_of T l < length E \<longrightarrow> length E = length (with_lang T l))"

lemma i18n_he_storable:
  assumes "user_tag tag" "NUL \<notin> set s" "k + 1 < 2 ^ 30"
  shows "storable (i18n_he tag k s)"
    "val (i18n_he tag k s) = (RPM_I18NSTRING_TYPE, of_nat (k + 1), PArgv (with_str [] k s))"
  using assms count_ok_of_nat[of "k + 1"]
  by (auto simp: storable_def i18n_he_def he_zero_def wire_def is_argv_def val_def value_of_def with_str_def)

lemma user_table: "user_tag HEADER_I18NTABLE"
  by (simp add: user_tag_def small_tag_def region_tag_def HEADER_I18NTABLE_def HEADER_IMAGE_def HEADER_REGIONS_def)

lemma first_table_storable:
  assumes "NUL \<notin> set l"
  shows "storable (first_table (Some l))" "he_tag (first_table (Some l)) = HEADER_I18NTABLE"
    "val (first_table (Some l)) = (RPM_STRING_ARRAY_TYPE, of_nat (length (start_table l)), PArgv (start_table l))"
  using assms user_table
  by (auto simp: storable_def first_table_def he_zero_def wire_def is_argv_def val_def value_of_def start_table_def
      count_ok_def hdrchkData_def Let_def)

text \<open>The first half: the header has a table, and the entry of the tag is found where it is there.\<close>

lemma i18n_start:
  assumes "sim h m" "i18n_ready m tag T E l"
  shows "\<exists>h1 m1 ti ei. sim h1 m1 \<and> h_sorted h1 \<and> ti < length (h_index h1) \<and>
     e_tag (h_index h1 ! ti) = HEADER_I18NTABLE \<and> e_type (h_index h1 ! ti) = RPM_STRING_ARRAY_TYPE \<and>
     strs_entry (h_index h1 ! ti) T \<and> (\<forall>t. t \<noteq> HEADER_I18NTABLE \<longrightarrow> m1 t = m t) \<and>
     (case ei of None \<Rightarrow> m tag = None
      | Some i \<Rightarrow> m tag \<noteq> None \<and> i < length (h_index h1) \<and> i \<noteq> ti \<and> e_tag (h_index h1 ! i) = tag \<and>
          e_type (h_index h1 ! i) = RPM_I18NSTRING_TYPE \<and> strs_entry (h_index h1 ! i) E) \<and>
     i18n_entries h tag (Some l) = ok (h1, Some ti, ei)"
proof -
  let ?s = "headerSort h"
  have s: "sim ?s m" "h_sorted ?s" "headerSort ?s = ?s" using sim_sort[OF assms(1)] by (simp_all add: strs_sort)
  have r: "user_tag tag" "tag \<noteq> HEADER_I18NTABLE" "NUL \<notin> set l" using assms(2) by (simp_all add: i18n_ready_def)
  have av: "is_argv RPM_STRING_ARRAY_TYPE" "is_argv RPM_I18NSTRING_TYPE" by (simp_all add: is_argv_def)
  show ?thesis
  proof (cases "m HEADER_I18NTABLE = None")
    case True
    then have t: "m tag = None" "T = start_table l" using assms(2) by (simp_all add: i18n_ready_def)
    note ft = first_table_storable[OF r(3)]
    obtain h1 where h1: "headerAddEntry ?s (first_table (Some l)) = ok (h1, True)"
        "sim h1 (m(HEADER_I18NTABLE \<mapsto> val (first_table (Some l))))"
      using sim_add[OF s(1) ft(1)] True ft(2) by metis
    have "strs_of (m(HEADER_I18NTABLE \<mapsto> val (first_table (Some l)))) HEADER_I18NTABLE RPM_STRING_ARRAY_TYPE T"
      using ft(3) t(2) by (simp add: strs_of_def)
    then obtain ti where ti: "findEntry h1 HEADER_I18NTABLE RPM_STRING_ARRAY_TYPE = ok (headerSort h1, Some ti)"
        "ti < length (h_index h1)" "e_tag (h_index (headerSort h1) ! ti) = HEADER_I18NTABLE"
        "e_type (h_index (headerSort h1) ! ti) = RPM_STRING_ARRAY_TYPE" "strs_entry (h_index (headerSort h1) ! ti) T"
      using sim_strs[OF h1(2) _ av(1)] by metis
    show ?thesis
      using sim_absent[OF assms(1) user_table True] sim_absent[OF s(1) r(1) t(1)] s(3) h1(1) ti t(1) sim_sort[OF h1(2)]
      by (intro exI[of _ "headerSort h1"] exI[of _ "m(HEADER_I18NTABLE \<mapsto> val (first_table (Some l)))"]
          exI[of _ ti] exI[of _ None]) (simp add: i18n_entries_def)
  next
    case False
    then have "strs_of m HEADER_I18NTABLE RPM_STRING_ARRAY_TYPE T" using assms(2) by (simp add: i18n_ready_def)
    then obtain ti where ti: "findEntry h HEADER_I18NTABLE RPM_STRING_ARRAY_TYPE = ok (?s, Some ti)"
        "ti < length (h_index h)" "e_tag (h_index ?s ! ti) = HEADER_I18NTABLE"
        "e_type (h_index ?s ! ti) = RPM_STRING_ARRAY_TYPE" "strs_entry (h_index ?s ! ti) T"
      using sim_strs[OF assms(1) _ av(1)] by metis
    show ?thesis
    proof (cases "m tag = None")
      case True
      then show ?thesis
        using sim_absent[OF s(1) r(1) True] s ti
        by (intro exI[of _ ?s] exI[of _ m] exI[of _ ti] exI[of _ None]) (simp add: i18n_entries_def)
    next
      case False
      then have "strs_of m tag RPM_I18NSTRING_TYPE E" using assms(2) by (simp add: i18n_ready_def)
      then obtain ei where ei: "findEntry ?s tag RPM_I18NSTRING_TYPE = ok (headerSort ?s, Some ei)"
          "ei < length (h_index ?s)" "e_tag (h_index (headerSort ?s) ! ei) = tag"
          "e_type (h_index (headerSort ?s) ! ei) = RPM_I18NSTRING_TYPE" "strs_entry (h_index (headerSort ?s) ! ei) E"
        using sim_strs[OF s(1) _ av(2)] by metis
      have "ei \<noteq> ti" using ti(3) ei(3) s(3) r(2) by auto
      then show ?thesis
        using s ti ei False by (intro exI[of _ ?s] exI[of _ m] exI[of _ ti] exI[of _ "Some ei"]) (simp add: i18n_entries_def)
    qed
  qed
qed

lemma headerAddI18NString_strings:
  assumes "sim h m" "i18n_ready m tag T E l" "NUL \<notin> set s"
  shows "\<exists>h' m'. headerAddI18NString h tag s (Some l) = ok (h', m tag = None) \<and> sim h' m' \<and>
     strs_of m' HEADER_I18NTABLE RPM_STRING_ARRAY_TYPE (with_lang T l) \<and>
     strs_of m' tag RPM_I18NSTRING_TYPE (with_str E (idx_of T l) s) \<and>
     (\<forall>t. t \<noteq> HEADER_I18NTABLE \<and> t \<noteq> tag \<longrightarrow> m' t = m t)"
proof -
  let ?k = "idx_of T l"
  have r: "user_tag tag" "tag \<noteq> HEADER_I18NTABLE" "NUL \<notin> set l" "length T + 1 < 2 ^ 30"
    "?k < length E \<Longrightarrow> length E = length (with_lang T l)" "m tag = None \<Longrightarrow> E = []"
    using assms(2) by (simp_all add: i18n_ready_def)
  have k: "?k + 1 < 2 ^ 30" using idx_of_le[of T l] r(4) by simp
  obtain h1 m1 ti ei where st: "sim h1 m1" "h_sorted h1" "ti < length (h_index h1)"
      "e_tag (h_index h1 ! ti) = HEADER_I18NTABLE" "e_type (h_index h1 ! ti) = RPM_STRING_ARRAY_TYPE"
      "strs_entry (h_index h1 ! ti) T" "\<forall>t. t \<noteq> HEADER_I18NTABLE \<longrightarrow> m1 t = m t"
      and e: "case ei of None \<Rightarrow> m tag = None
      | Some i \<Rightarrow> m tag \<noteq> None \<and> i < length (h_index h1) \<and> i \<noteq> ti \<and> e_tag (h_index h1 ! i) = tag \<and>
          e_type (h_index h1 ! i) = RPM_I18NSTRING_TYPE \<and> strs_entry (h_index h1 ! i) E"
      and start: "i18n_entries h tag (Some l) = ok (h1, Some ti, ei)"
    using i18n_start[OF assms(1,2)] by blast
  have tb: "mem h1 (e_data (h_index h1 ! ti)) = ok (cat_strs T)" "unat (e_count (h_index h1 ! ti)) = length T"
    "lang_index (length T) (cat_strs T) l = ok ?k"
    using st(6) lang_index_cat[of T "[]" l] by (simp_all add: strs_entry_def)
  obtain h2 m2 where h2: "(if ?k \<ge> length T then table_add h1 ti l else ok h1) = ok h2" "sim h2 m2" "h_sorted h2"
     "length (h_index h2) = length (h_index h1)" "strs_entry (h_index h2 ! ti) (with_lang T l)"
     "\<forall>j. j \<noteq> ti \<longrightarrow> h_index h2 ! j = h_index h1 ! j"
     "strs_of m2 HEADER_I18NTABLE RPM_STRING_ARRAY_TYPE (with_lang T l)" "\<forall>t. t \<noteq> HEADER_I18NTABLE \<longrightarrow> m2 t = m1 t"
    using table_step[OF st(1-6) r(3,4)] by blast
  let ?go = "case ei of None \<Rightarrow> headerAddEntry h2 (i18n_he tag ?k s)
     | Some ei \<Rightarrow>
         if ?k \<ge> unat (e_count (h_index h2 ! ei)) then andThen (i18n_append h2 ei ?k s) (\<lambda>h. ok (h, False))
         else andThen (i18n_replace h2 ei (unat (e_count (h_index h2 ! ti))) ?k s) (\<lambda>h. ok (h, False))"
  have run: "headerAddI18NString h tag s (Some l) = ?go"
    using start tb h2(1) by (simp add: headerAddI18NString_def)
  have go: "\<exists>h' m'. ?go = ok (h', m tag = None) \<and> sim h' m' \<and> strs_of m' tag RPM_I18NSTRING_TYPE (with_str E ?k s) \<and>
      (\<forall>t. t \<noteq> tag \<longrightarrow> m' t = m2 t)"
  proof (cases ei)
    case None
    note he = i18n_he_storable[OF r(1) assms(3) k]
    have "he_tag (i18n_he tag ?k s) = tag" by (simp add: i18n_he_def)
    moreover have n: "m tag = None" "m2 tag = None" "E = []" using None e st(7) h2(8) r(2,6) by simp_all
    ultimately obtain h3 where "headerAddEntry h2 (i18n_he tag ?k s) = ok (h3, True)"
        "sim h3 (m2(tag \<mapsto> val (i18n_he tag ?k s)))" using sim_add[OF h2(2) he(1)] by metis
    then show ?thesis using None he(2) n
      by (intro exI[of _ h3] exI[of _ "m2(tag \<mapsto> val (i18n_he tag ?k s))"]) (simp add: strs_of_def)
  next
    case (Some i)
    then have i: "i < length (h_index h2)" "e_tag (h_index h2 ! i) = tag" "e_type (h_index h2 ! i) = RPM_I18NSTRING_TYPE"
      "strs_entry (h_index h2 ! i) E" "unat (e_count (h_index h2 ! i)) = length E"
      using e h2(4,6) by (auto simp: strs_entry_def)
    have p: "m tag \<noteq> None" using e Some by simp
    have n: "unat (e_count (h_index h2 ! ti)) = length (with_lang T l)" using h2(5) by (simp add: strs_entry_def)
    have "\<exists>e. ?go = ok (upd_entry h2 i e, False) \<and> strs_entry e (with_str E ?k s) \<and>
        e_tag e = e_tag (h_index h2 ! i) \<and> e_type e = e_type (h_index h2 ! i)"
    proof (cases "?k < length E")
      case True
      then show ?thesis using i18n_replace_strs[OF i(4) assms(3) True] r(5)[OF True] Some i(5) n by fastforce
    next
      case False
      then show ?thesis using i18n_append_strs[OF i(4) assms(3) _ k] Some i(5) by fastforce
    qed
    then obtain x where x: "?go = ok (upd_entry h2 i x, False)" "strs_entry x (with_str E ?k s)"
        "e_tag x = e_tag (h_index h2 ! i)" "e_type x = e_type (h_index h2 ! i)" by blast
    have "sim (upd_entry h2 i x) (m2(e_tag x \<mapsto> (e_type x, e_count x, PArgv (with_str E ?k s))))"
      by (rule sim_upd[OF h2(2,3) i(1) x(3,2)]) (use x(3) i(2) r(1) in \<open>simp add: user_tag_def\<close>)
    then show ?thesis using x i(2,3) p
      by (intro exI[of _ "upd_entry h2 i x"]
          exI[of _ "m2(e_tag x \<mapsto> (e_type x, e_count x, PArgv (with_str E ?k s)))"]) (simp add: strs_of_def)
  qed
  then obtain h' m' where f: "?go = ok (h', m tag = None)" "sim h' m'" "strs_of m' tag RPM_I18NSTRING_TYPE (with_str E ?k s)"
      "\<forall>t. t \<noteq> tag \<longrightarrow> m' t = m2 t" by blast
  then have "strs_of m' HEADER_I18NTABLE RPM_STRING_ARRAY_TYPE (with_lang T l)" using h2(7) r(2) by (simp add: strs_of_def)
  moreover have "\<forall>t. t \<noteq> HEADER_I18NTABLE \<and> t \<noteq> tag \<longrightarrow> m' t = m t" using f(4) h2(8) st(7) by simp
  ultimately show ?thesis using run f by auto
qed

section \<open>Lookup under a locale\<close>

text \<open>A locale that is a language only: matching is equality.\<close>

definition plain_lang :: "string \<Rightarrow> bool" where
  "plain_lang l \<longleftrightarrow> l \<noteq> [] \<and> NUL \<notin> set l \<and> list_all (\<lambda>c. c \<notin> {CHR '':'', CHR ''@'', CHR ''.'', CHR ''_''}) l"

lemma match_plain: "plain_lang l \<Longrightarrow> headerMatchLocale td l = (if td = l then 1 else 0)"
proof -
  assume a: "plain_lang l"
  then have "\<not> strip_match td l (CHR ''@'')" "\<not> strip_match td l (CHR ''.'')" "\<not> strip_match td l (CHR ''_'')"
    by (auto simp: plain_lang_def strip_match_def list_all_iff)
  moreover have "length td = length l \<and> strncmp td l (length l) = 0 \<longleftrightarrow> td = l"
    using strncmp_full[of td "length l" l] by auto
  ultimately show ?thesis by (simp add: headerMatchLocale_def)
qed

lemma i18n_loop_plain:
  "plain_lang l \<Longrightarrow> no_nul T \<Longrightarrow> no_nul E \<Longrightarrow> idx_of T l < length T \<Longrightarrow> idx_of T l < length E \<Longrightarrow> idx_of T l < n \<Longrightarrow>
     i18n_loop n l (cat_strs T @ r) (cat_strs E @ q) None = ok (Some (cat_strs (drop (idx_of T l) E) @ q))"
proof (induction T arbitrary: E n)
  case (Cons x T)
  obtain n' where n: "n = Suc n'" using Cons.prems(6) by (cases n) auto
  show ?case
  proof (cases "x = l")
    case True
    then show ?thesis using Cons.prems match_plain[OF Cons.prems(1)] n by (simp add: next_str_app idx_of_def)
  next
    case False
    then have i: "idx_of (x # T) l = Suc (idx_of T l)" by (simp add: idx_of_def)
    then obtain y E' where E: "E = y # E'" using Cons.prems(5) by (cases E) auto
    have "i18n_loop n' l (cat_strs T @ r) (cat_strs E' @ q) None = ok (Some (cat_strs (drop (idx_of T l) E') @ q))"
      by (rule Cons.IH) (use Cons.prems i E n in simp_all)
    then show ?thesis using Cons.prems False match_plain[OF Cons.prems(1)] n i E by (simp add: next_str_app Let_def)
  qed
qed simp

lemma lang_loop_plain:
  assumes "plain_lang l" "i18n_loop n l td ed None = ok (Some x)"
  shows "lang_loop n l td ed = ok (Some x)"
proof -
  have c: "CHR '':'' \<notin> set l" "l \<noteq> []" using assms(1) by (auto simp: plain_lang_def list_all_iff)
  then obtain a l' where l: "l = a # l'" "a \<noteq> CHR '':''" by (cases l) auto
  have w: "takeWhile (\<lambda>c. c \<noteq> CHR '':'') l' = l'" using c(1) l(1) by (auto simp: takeWhile_eq_all_conv)
  show ?thesis using assms(2) l by (subst lang_loop.simps) (simp add: w)
qed

lemma realloc_str:
  "NUL \<notin> set s \<Longrightarrow>
     rpmheRealloc (he_zero\<lparr>he_tag := tag, he_t := RPM_STRING_TYPE, he_c := 1, he_p := PMem (s @ NUL # r)\<rparr>) =
       ok (found tag (RPM_STRING_TYPE, 1, PMem (s @ [NUL])), True)"
  by (simp add: next_str_app rpmheRealloc_def he_zero_def Let_def guardC_def rpm_types mem_of_def tagSwab_def
      rd_bytes_def found_def)

lemma get_i18n:
  assumes "sim h m" "user_tag tag" "strs_of m HEADER_I18NTABLE RPM_STRING_ARRAY_TYPE T" "strs_of m tag RPM_I18NSTRING_TYPE E"
    "plain_lang l" "idx_of T l < length T" "idx_of T l < length E"
  shows "headerGet exts (Some l) h (he_zero\<lparr>he_tag := tag\<rparr>) True False =
    ok (headerSort h, found tag (RPM_STRING_TYPE, 1, PMem (E ! idx_of T l @ [NUL])), True)"
proof -
  let ?s = "headerSort h" let ?k = "idx_of T l"
  have s: "sim ?s m" "headerSort ?s = ?s" using sim_sort[OF assms(1)] by (simp_all add: strs_sort)
  obtain i where i: "findEntry h tag 0 = ok (?s, Some i)" "e_type (h_index ?s ! i) = RPM_I18NSTRING_TYPE"
      "strs_entry (h_index ?s ! i) E"
    using sim_strs[OF assms(1,4)] by (auto simp: is_argv_def)
  obtain j where j: "findEntry ?s HEADER_I18NTABLE RPM_STRING_ARRAY_TYPE = ok (?s, Some j)" "strs_entry (h_index ?s ! j) T"
    using sim_strs[OF s(1) assms(3)] s(2) by (auto simp: is_argv_def)
  have n: "no_nul T" "no_nul E" using i(3) j(2) by (simp_all add: strs_entry_def)
  have "i18n_loop (length E) l (cat_strs T) (cat_strs E) None = ok (Some (cat_strs (drop ?k E)))"
    using i18n_loop_plain[OF assms(5) n assms(6,7,7), of "[]" "[]"] by simp
  note loop = lang_loop_plain[OF assms(5) this]
  have m: "mem ?s (e_data (h_index ?s ! i)) = ok (cat_strs E)" "mem ?s (e_data (h_index ?s ! j)) = ok (cat_strs T)"
    "unat (e_count (h_index ?s ! i)) = length E"
    using i(3) j(2) by (simp_all add: strs_entry_def)
  have find: "headerFindI18NString (Some l) ?s (h_index ?s ! i) = ok (?s, cat_strs (drop ?k E))"
    unfolding headerFindI18NString_def m(1) andThen_simps option.case j(1) prod.case m(2,3) loop ..
  have d: "cat_strs (drop ?k E) = E ! ?k @ NUL # cat_strs (drop (Suc ?k) E)"
    using assms(7) by (simp add: Cons_nth_drop_Suc[symmetric])
  have nul: "NUL \<notin> set (E ! ?k)" using n(2) assms(7) by (simp add: no_nul_def)
  let ?he = "he_zero\<lparr>he_tag := tag, he_t := RPM_STRING_TYPE, he_c := 1, he_p := PMem (cat_strs (drop ?k E))\<rparr>"
  have "intGetEntry (Some l) h (he_zero\<lparr>he_tag := tag\<rparr>) False = ok (?s, ?he, True)"
    using i(1,2) find by (simp add: intGetEntry_def he_zero_def)
  moreover have "rpmheRealloc ?he = ok (found tag (RPM_STRING_TYPE, 1, PMem (E ! ?k @ [NUL])), True)"
    unfolding d by (rule realloc_str[OF nul])
  ultimately show ?thesis by (simp add: headerGet_store he_zero_def)
qed

lemma idx_of_with_lang: "idx_of (with_lang T l) l = idx_of T l"
proof (cases "l \<in> set T")
  case False
  then have w: "takeWhile (\<lambda>x. x \<noteq> l) (T @ [l]) = T" "takeWhile (\<lambda>x. x \<noteq> l) T = T"
    by (induction T) auto
  show ?thesis using False by (simp add: with_lang_def idx_of_def w)
qed (simp add: with_lang_def)

lemma with_str_nth: "k < length (with_str E k s) \<and> with_str E k s ! k = s"
  by (auto simp: with_str_def nth_append)

text \<open>C30: A string added for a locale is found under that locale, where the locale is the name of
  a language without territory, code set or modifier (none of the characters _ . @ and colon): after
  \<open>headerAddI18NString\<close>, which extends the table of locales where it has to, a lookup of
  the tag with that locale in the environment returns exactly the string; all other tags of the header
  keep their values. The header has a table of locales if it has strings in several languages, and an
  entry in which a string is replaced has one string for each locale of the table (for a shorter one the
  code reads behind its data). The result is 1 for a new tag only.\<close>

theorem headerAddI18NString_headerGet:
  assumes "sim h m" "i18n_ready m tag T E l" "NUL \<notin> set s" "plain_lang l"
  shows "\<exists>h'. headerAddI18NString h tag s (Some l) = ok (h', m tag = None) \<and>
     headerGet exts (Some l) h' (he_zero\<lparr>he_tag := tag\<rparr>) True False =
       ok (headerSort h', found tag (RPM_STRING_TYPE, 1, PMem (s @ [NUL])), True) \<and>
     (\<forall>t. t \<noteq> HEADER_I18NTABLE \<and> t \<noteq> tag \<longrightarrow> alpha h' t = m t)"
proof -
  obtain h' m' where a: "headerAddI18NString h tag s (Some l) = ok (h', m tag = None)" "sim h' m'"
     "strs_of m' HEADER_I18NTABLE RPM_STRING_ARRAY_TYPE (with_lang T l)"
     "strs_of m' tag RPM_I18NSTRING_TYPE (with_str E (idx_of T l) s)"
     "\<forall>t. t \<noteq> HEADER_I18NTABLE \<and> t \<noteq> tag \<longrightarrow> m' t = m t"
    using headerAddI18NString_strings[OF assms(1-3)] by blast
  have "user_tag tag" using assms(2) by (simp add: i18n_ready_def)
  from get_i18n[OF a(2) this a(3,4) assms(4)] show ?thesis
    using a idx_with_lang[of T l] with_str_nth[of "idx_of T l" E s] by (simp add: idx_of_with_lang sim_def)
qed

theorem headerAddI18NString_headerGet_witness:
  "\<exists>h'. headerAddI18NString headerNew 1004 ''Hallo'' (Some ''de'') = ok (h', True) \<and>
     headerGet (\<lambda>_. None) (Some ''de'') h' (he_zero\<lparr>he_tag := 1004\<rparr>) True False =
       ok (headerSort h', found 1004 (RPM_STRING_TYPE, 1, PMem (''Hallo'' @ [NUL])), True) \<and>
     (\<forall>t. t \<noteq> HEADER_I18NTABLE \<and> t \<noteq> 1004 \<longrightarrow> alpha h' t = None)"
proof -
  have "i18n_ready Map.empty 1004 (start_table ''de'') [] ''de''" "plain_lang ''de''" "NUL \<notin> set ''Hallo''"
    by (simp_all add: i18n_ready_def plain_lang_def demo_simps HEADER_I18NTABLE_def start_table_def idx_of_def)
  from headerAddI18NString_headerGet[OF sim_new this(1,3,2), of "\<lambda>_. None"] show ?thesis by simp
qed

end
