(* ===== verification/Lookup3.thy ===== *)
theory Lookup3
  imports CLib
begin

unbundle bit_operations_syntax

text \<open>
  Bob Jenkins' hash functions of \<open>rpmio/lookup3.c\<close>: \<open>jlu32w\<close> on arrays of 32-bit words,
  \<open>jlu32l\<close> and \<open>jlu32lpair\<close> on bytes read little-endian, \<open>jlu32b\<close> on bytes read big-endian. Each
  of the byte functions chooses one of several loops by the byte order of the machine and the
  alignment of the key, and ends in a \<open>switch\<close> on the number of bytes left.

  Memory from the key on is a list of bytes, of which the key is the first \<open>size\<close>; a pointer that
  advances is the suffix it points at, and a read past the list is out of bounds. What the program
  finds out about the machine is a parameter: \<open>le\<close> is \<open>HASH_LITTLE_ENDIAN\<close> (a machine that is not
  little-endian is \<open>HASH_BIG_ENDIAN\<close>), \<open>addr\<close> the address of the key, \<open>vg\<close> whether the program was
  built \<open>WITH_VALGRIND\<close> and runs under it. The three registers of the hash are a triple.
\<close>

section \<open>The model\<close>

subsection \<open>Mixing\<close>

type_synonym abc = "u32 \<times> u32 \<times> u32"

definition ROTL32 :: "u32 \<Rightarrow> nat \<Rightarrow> u32" where
  "ROTL32 x s = push_bit s x OR drop_bit (32 - s) x"

definition JLU3_INIT :: "u32 \<Rightarrow> nat \<Rightarrow> u32" where
  "JLU3_INIT h sz = 0xdeadbeef + of_nat sz + h"

definition JLU3_MIX :: "abc \<Rightarrow> abc" where
  "JLU3_MIX st = (case st of (a, b, c) \<Rightarrow>
     let a = a - c; a = a XOR ROTL32 c 4; c = c + b;
         b = b - a; b = b XOR ROTL32 a 6; a = a + c;
         c = c - b; c = c XOR ROTL32 b 8; b = b + a;
         a = a - c; a = a XOR ROTL32 c 16; c = c + b;
         b = b - a; b = b XOR ROTL32 a 19; a = a + c;
         c = c - b; c = c XOR ROTL32 b 4; b = b + a
     in (a, b, c))"

definition JLU3_FINAL :: "abc \<Rightarrow> abc" where
  "JLU3_FINAL st = (case st of (a, b, c) \<Rightarrow>
     let c = c XOR b; c = c - ROTL32 b 14;
         a = a XOR c; a = a - ROTL32 c 11;
         b = b XOR a; b = b - ROTL32 a 25;
         c = c XOR b; c = c - ROTL32 b 16;
         a = a XOR c; a = a - ROTL32 c 4;
         b = b XOR a; b = b - ROTL32 a 14;
         c = c XOR b; c = c - ROTL32 b 24
     in (a, b, c))"

subsection \<open>Reading the key\<close>

text \<open>\<open>k[i]\<close> of an array of bytes, shifted; of an array of 16-bit words; \<open>k[i] + (k[i+1] << 16)\<close>;
  \<open>k[i] & mask\<close> of an array of 32-bit words, on a machine of either byte order.\<close>

definition at8 :: "u8 list \<Rightarrow> nat \<Rightarrow> nat \<Rightarrow> u32 outcome" where
  "at8 k i s = andThen (slot k (int i)) (\<lambda>x. ok (push_bit s (ucast x)))"

definition at16 :: "u8 list \<Rightarrow> nat \<Rightarrow> u32 outcome" where
  "at16 k i = andThen (at8 k (2 * i) 0) (\<lambda>x0. andThen (at8 k (2 * i + 1) 8) (\<lambda>x1. ok (x0 OR x1)))"

definition two16 :: "u8 list \<Rightarrow> nat \<Rightarrow> u32 outcome" where
  "two16 k i = andThen (at16 k i) (\<lambda>x0. andThen (at16 k (i + 1)) (\<lambda>x1. ok (x0 + push_bit 16 x1)))"

definition at32le :: "u8 list \<Rightarrow> nat \<Rightarrow> u32 \<Rightarrow> u32 outcome" where
  "at32le k i m =
     andThen (at8 k (4 * i) 0) (\<lambda>x0. andThen (at8 k (4 * i + 1) 8) (\<lambda>x1.
     andThen (at8 k (4 * i + 2) 16) (\<lambda>x2. andThen (at8 k (4 * i + 3) 24) (\<lambda>x3.
       ok ((x0 OR x1 OR x2 OR x3) AND m)))))"

definition at32be :: "u8 list \<Rightarrow> nat \<Rightarrow> u32 \<Rightarrow> u32 outcome" where
  "at32be k i m =
     andThen (at8 k (4 * i) 24) (\<lambda>x0. andThen (at8 k (4 * i + 1) 16) (\<lambda>x1.
     andThen (at8 k (4 * i + 2) 8) (\<lambda>x2. andThen (at8 k (4 * i + 3) 0) (\<lambda>x3.
       ok ((x0 OR x1 OR x2 OR x3) AND m)))))"

text \<open>\<open>a += x\<close>, \<open>b += x\<close>, \<open>c += x\<close>, and a sequence of them.\<close>

definition addA :: "u32 outcome \<Rightarrow> abc \<Rightarrow> abc outcome" where
  "addA x st = andThen x (\<lambda>v. case st of (a, b, c) \<Rightarrow> ok (a + v, b, c))"

definition addB :: "u32 outcome \<Rightarrow> abc \<Rightarrow> abc outcome" where
  "addB x st = andThen x (\<lambda>v. case st of (a, b, c) \<Rightarrow> ok (a, b + v, c))"

definition addC :: "u32 outcome \<Rightarrow> abc \<Rightarrow> abc outcome" where
  "addC x st = andThen x (\<lambda>v. case st of (a, b, c) \<Rightarrow> ok (a, b, c + v))"

fun steps :: "(abc \<Rightarrow> abc outcome) list \<Rightarrow> abc \<Rightarrow> abc outcome" where
  "steps [] st = ok st"
| "steps (f # fs) st = andThen (f st) (steps fs)"

text \<open>A \<open>switch\<close>: its arms in the order of the code, each with its label, its statements and
  whether it ends in \<open>break\<close>.\<close>

type_synonym arm = "nat \<times> (abc \<Rightarrow> abc outcome) list \<times> bool"

fun run_arms :: "arm list \<Rightarrow> abc \<Rightarrow> abc outcome" where
  "run_arms [] st = ok st"
| "run_arms ((n, fs, brk) # arms) st =
     andThen (steps fs st) (if brk then ok else run_arms arms)"

definition c_switch :: "nat \<Rightarrow> arm list \<Rightarrow> abc \<Rightarrow> abc outcome" where
  "c_switch n arms st = run_arms (dropWhile (\<lambda>a. fst a \<noteq> n) arms) st"

subsection \<open>The loop over whole blocks and the last block\<close>

fun jlu_loop :: "(u8 list \<Rightarrow> abc \<Rightarrow> abc outcome) \<Rightarrow> nat \<Rightarrow> u8 list \<Rightarrow> abc \<Rightarrow> (nat \<times> u8 list \<times> abc) outcome" where
  "jlu_loop blk sz k st =
     (if sz > 12
      then andThen (blk k st) (\<lambda>st. jlu_loop blk (sz - 12) (drop 12 k) (JLU3_MIX st))
      else ok (sz, k, st))"

declare jlu_loop.simps [simp del]

text \<open>\<open>case 0: goto exit\<close> skips the final mixing.\<close>

definition jlu_run ::
  "(u8 list \<Rightarrow> abc \<Rightarrow> abc outcome) \<Rightarrow> (u8 list \<Rightarrow> arm list) \<Rightarrow> nat \<Rightarrow> u8 list \<Rightarrow> abc \<Rightarrow> abc outcome" where
  "jlu_run blk arms sz k st =
     andThen (jlu_loop blk sz k st) (\<lambda>(sz, k, st).
       if sz = 0 then ok st
       else andThen (c_switch sz (arms k) st) (\<lambda>st. ok (JLU3_FINAL st)))"

subsection \<open>Little-endian: 32-bit, 16-bit and 8-bit reads\<close>

definition blk32 :: "u8 list \<Rightarrow> abc \<Rightarrow> abc outcome" where
  "blk32 k = steps [addA (at32le k 0 (- 1)), addB (at32le k 1 (- 1)), addC (at32le k 2 (- 1))]"

definition arms32 :: "u8 list \<Rightarrow> arm list" where
  "arms32 k =
    [(12, [addC (at32le k 2 (- 1)), addB (at32le k 1 (- 1)), addA (at32le k 0 (- 1))], True),
     (11, [addC (at32le k 2 0xffffff), addB (at32le k 1 (- 1)), addA (at32le k 0 (- 1))], True),
     (10, [addC (at32le k 2 0xffff), addB (at32le k 1 (- 1)), addA (at32le k 0 (- 1))], True),
     (9, [addC (at32le k 2 0xff), addB (at32le k 1 (- 1)), addA (at32le k 0 (- 1))], True),
     (8, [addB (at32le k 1 (- 1)), addA (at32le k 0 (- 1))], True),
     (7, [addB (at32le k 1 0xffffff), addA (at32le k 0 (- 1))], True),
     (6, [addB (at32le k 1 0xffff), addA (at32le k 0 (- 1))], True),
     (5, [addB (at32le k 1 0xff), addA (at32le k 0 (- 1))], True),
     (4, [addA (at32le k 0 (- 1))], True),
     (3, [addA (at32le k 0 0xffffff)], True),
     (2, [addA (at32le k 0 0xffff)], True),
     (1, [addA (at32le k 0 0xff)], True)]"

definition arms32_vg :: "u8 list \<Rightarrow> arm list" where
  "arms32_vg k =
    [(12, [addC (at32le k 2 (- 1)), addB (at32le k 1 (- 1)), addA (at32le k 0 (- 1))], True),
     (11, [addC (at8 k 10 16)], False),
     (10, [addC (at8 k 9 8)], False),
     (9, [addC (at8 k 8 0)], False),
     (8, [addB (at32le k 1 (- 1)), addA (at32le k 0 (- 1))], True),
     (7, [addB (at8 k 6 16)], False),
     (6, [addB (at8 k 5 8)], False),
     (5, [addB (at8 k 4 0)], False),
     (4, [addA (at32le k 0 (- 1))], True),
     (3, [addA (at8 k 2 16)], False),
     (2, [addA (at8 k 1 8)], False),
     (1, [addA (at8 k 0 0)], True)]"

definition blk16 :: "u8 list \<Rightarrow> abc \<Rightarrow> abc outcome" where
  "blk16 k = steps [addA (two16 k 0), addB (two16 k 2), addC (two16 k 4)]"

definition arms16 :: "u8 list \<Rightarrow> arm list" where
  "arms16 k =
    [(12, [addC (two16 k 4), addB (two16 k 2), addA (two16 k 0)], True),
     (11, [addC (at8 k 10 16)], False),
     (10, [addC (at16 k 4), addB (two16 k 2), addA (two16 k 0)], True),
     (9, [addC (at8 k 8 0)], False),
     (8, [addB (two16 k 2), addA (two16 k 0)], True),
     (7, [addB (at8 k 6 16)], False),
     (6, [addB (at16 k 2), addA (two16 k 0)], True),
     (5, [addB (at8 k 4 0)], False),
     (4, [addA (two16 k 0)], True),
     (3, [addA (at8 k 2 16)], False),
     (2, [addA (at16 k 0)], True),
     (1, [addA (at8 k 0 0)], True)]"

definition blk8 :: "u8 list \<Rightarrow> abc \<Rightarrow> abc outcome" where
  "blk8 k = steps
    [addA (at8 k 0 0), addA (at8 k 1 8), addA (at8 k 2 16), addA (at8 k 3 24),
     addB (at8 k 4 0), addB (at8 k 5 8), addB (at8 k 6 16), addB (at8 k 7 24),
     addC (at8 k 8 0), addC (at8 k 9 8), addC (at8 k 10 16), addC (at8 k 11 24)]"

definition arms8 :: "u8 list \<Rightarrow> arm list" where
  "arms8 k =
    [(12, [addC (at8 k 11 24)], False),
     (11, [addC (at8 k 10 16)], False),
     (10, [addC (at8 k 9 8)], False),
     (9, [addC (at8 k 8 0)], False),
     (8, [addB (at8 k 7 24)], False),
     (7, [addB (at8 k 6 16)], False),
     (6, [addB (at8 k 5 8)], False),
     (5, [addB (at8 k 4 0)], False),
     (4, [addA (at8 k 3 24)], False),
     (3, [addA (at8 k 2 16)], False),
     (2, [addA (at8 k 1 8)], False),
     (1, [addA (at8 k 0 0)], True)]"

subsection \<open>Big-endian: 32-bit and 8-bit reads\<close>

definition blk32_be :: "u8 list \<Rightarrow> abc \<Rightarrow> abc outcome" where
  "blk32_be k = steps [addA (at32be k 0 (- 1)), addB (at32be k 1 (- 1)), addC (at32be k 2 (- 1))]"

definition arms32_be :: "u8 list \<Rightarrow> arm list" where
  "arms32_be k =
    [(12, [addC (at32be k 2 (- 1)), addB (at32be k 1 (- 1)), addA (at32be k 0 (- 1))], True),
     (11, [addC (at32be k 2 0xffffff00), addB (at32be k 1 (- 1)), addA (at32be k 0 (- 1))], True),
     (10, [addC (at32be k 2 0xffff0000), addB (at32be k 1 (- 1)), addA (at32be k 0 (- 1))], True),
     (9, [addC (at32be k 2 0xff000000), addB (at32be k 1 (- 1)), addA (at32be k 0 (- 1))], True),
     (8, [addB (at32be k 1 (- 1)), addA (at32be k 0 (- 1))], True),
     (7, [addB (at32be k 1 0xffffff00), addA (at32be k 0 (- 1))], True),
     (6, [addB (at32be k 1 0xffff0000), addA (at32be k 0 (- 1))], True),
     (5, [addB (at32be k 1 0xff000000), addA (at32be k 0 (- 1))], True),
     (4, [addA (at32be k 0 (- 1))], True),
     (3, [addA (at32be k 0 0xffffff00)], True),
     (2, [addA (at32be k 0 0xffff0000)], True),
     (1, [addA (at32be k 0 0xff000000)], True)]"

definition arms32_be_vg :: "u8 list \<Rightarrow> arm list" where
  "arms32_be_vg k =
    [(12, [addC (at32be k 2 (- 1)), addB (at32be k 1 (- 1)), addA (at32be k 0 (- 1))], True),
     (11, [addC (at8 k 10 8)], False),
     (10, [addC (at8 k 9 16)], False),
     (9, [addC (at8 k 8 24)], False),
     (8, [addB (at32be k 1 (- 1)), addA (at32be k 0 (- 1))], True),
     (7, [addB (at8 k 6 8)], False),
     (6, [addB (at8 k 5 16)], False),
     (5, [addB (at8 k 4 24)], False),
     (4, [addA (at32be k 0 (- 1))], True),
     (3, [addA (at8 k 2 8)], False),
     (2, [addA (at8 k 1 16)], False),
     (1, [addA (at8 k 0 24)], True)]"

definition blk8_be :: "u8 list \<Rightarrow> abc \<Rightarrow> abc outcome" where
  "blk8_be k = steps
    [addA (at8 k 0 24), addA (at8 k 1 16), addA (at8 k 2 8), addA (at8 k 3 0),
     addB (at8 k 4 24), addB (at8 k 5 16), addB (at8 k 6 8), addB (at8 k 7 0),
     addC (at8 k 8 24), addC (at8 k 9 16), addC (at8 k 10 8), addC (at8 k 11 0)]"

definition arms8_be :: "u8 list \<Rightarrow> arm list" where
  "arms8_be k =
    [(12, [addC (at8 k 11 0)], False),
     (11, [addC (at8 k 10 8)], False),
     (10, [addC (at8 k 9 16)], False),
     (9, [addC (at8 k 8 24)], False),
     (8, [addB (at8 k 7 0)], False),
     (7, [addB (at8 k 6 8)], False),
     (6, [addB (at8 k 5 16)], False),
     (5, [addB (at8 k 4 24)], False),
     (4, [addA (at8 k 3 0)], False),
     (3, [addA (at8 k 2 8)], False),
     (2, [addA (at8 k 1 16)], False),
     (1, [addA (at8 k 0 24)], True)]"

subsection \<open>The hash functions\<close>

definition le_paths :: "bool \<Rightarrow> bool \<Rightarrow> nat \<Rightarrow> nat \<Rightarrow> u8 list \<Rightarrow> abc \<Rightarrow> abc outcome" where
  "le_paths le vg addr sz k st =
     (if le \<and> addr AND 3 = 0 then jlu_run blk32 (if vg then arms32_vg else arms32) sz k st
      else if le \<and> addr AND 1 = 0 then jlu_run blk16 arms16 sz k st
      else jlu_run blk8 arms8 sz k st)"

definition be_paths :: "bool \<Rightarrow> bool \<Rightarrow> nat \<Rightarrow> nat \<Rightarrow> u8 list \<Rightarrow> abc \<Rightarrow> abc outcome" where
  "be_paths le vg addr sz k st =
     (if \<not> le \<and> addr AND 3 = 0 then jlu_run blk32_be (if vg then arms32_be_vg else arms32_be) sz k st
      else jlu_run blk8_be arms8_be sz k st)"

definition jlu32l :: "bool \<Rightarrow> bool \<Rightarrow> nat \<Rightarrow> u32 \<Rightarrow> u8 list option \<Rightarrow> nat \<Rightarrow> u32 outcome" where
  "jlu32l le vg addr h key sz =
     (let a = JLU3_INIT h sz; b = a; c = a in
      case key of
        None \<Rightarrow> ok c
      | Some k \<Rightarrow> andThen (le_paths le vg addr sz k (a, b, c)) (\<lambda>(a, b, c). ok c))"

text \<open>The first component of the result is \<open>*pc\<close>, the second \<open>*pb\<close>.\<close>

definition jlu32lpair ::
  "bool \<Rightarrow> bool \<Rightarrow> nat \<Rightarrow> u8 list option \<Rightarrow> nat \<Rightarrow> u32 \<Rightarrow> u32 \<Rightarrow> (u32 \<times> u32) outcome" where
  "jlu32lpair le vg addr key sz pc pb =
     (let a = JLU3_INIT pc sz; b = a; c = a in
      case key of
        None \<Rightarrow> ok (c, b)
      | Some k \<Rightarrow>
          (let c = c + pb in
           andThen (le_paths le vg addr sz k (a, b, c)) (\<lambda>(a, b, c). ok (c, b))))"

definition jlu32b :: "bool \<Rightarrow> bool \<Rightarrow> nat \<Rightarrow> u32 \<Rightarrow> u8 list option \<Rightarrow> nat \<Rightarrow> u32 outcome" where
  "jlu32b le vg addr h key sz =
     (let a = JLU3_INIT h sz; b = a; c = a in
      case key of
        None \<Rightarrow> ok h
      | Some k \<Rightarrow> andThen (be_paths le vg addr sz k (a, b, c)) (\<lambda>(a, b, c). ok c))"

text \<open>\<open>jlu32w\<close>: the key is an array of 32-bit words, \<open>size\<close> counts them.\<close>

definition atw :: "u32 list \<Rightarrow> nat \<Rightarrow> u32 outcome" where
  "atw k i = slot k (int i)"

fun jlu32w_loop :: "nat \<Rightarrow> u32 list \<Rightarrow> abc \<Rightarrow> (nat \<times> u32 list \<times> abc) outcome" where
  "jlu32w_loop sz k st =
     (if sz > 3
      then andThen (steps [addA (atw k 0), addB (atw k 1), addC (atw k 2)] st) (\<lambda>st.
             jlu32w_loop (sz - 3) (drop 3 k) (JLU3_MIX st))
      else ok (sz, k, st))"

declare jlu32w_loop.simps [simp del]

definition armsw :: "u32 list \<Rightarrow> arm list" where
  "armsw k =
    [(3, [addC (atw k 2)], False),
     (2, [addB (atw k 1)], False),
     (1, [addA (atw k 0), (\<lambda>st. ok (JLU3_FINAL st))], False),
     (0, [], True)]"

definition jlu32w :: "u32 \<Rightarrow> u32 list option \<Rightarrow> nat \<Rightarrow> u32 outcome" where
  "jlu32w h k sz =
     (let a = JLU3_INIT h (4 * sz); b = a; c = a in
      case k of
        None \<Rightarrow> ok c
      | Some k \<Rightarrow>
          andThen (jlu32w_loop sz k (a, b, c)) (\<lambda>(sz, k, st).
          andThen (c_switch sz (armsw k) st) (\<lambda>(a, b, c). ok c)))"

end
