(* ===== verification/Lookup3Thms.thy ===== *)
theory Lookup3Thms
  imports Lookup3
begin

unbundle bit_operations_syntax

text \<open>
  The hash functions of \<open>Lookup3\<close> against one reference definition: all of their loops, on
  machines of either byte order and at every alignment, compute the same function of the bytes
  of the key alone. The interface of a loop with its last \<open>switch\<close> is the locale \<open>jlu_path\<close>, which
  each of the seven of them satisfies. The mixing step is a bijection.
\<close>

named_theorems reads \<open>the reads of the key, evaluated\<close>

section \<open>The reference\<close>

text \<open>The bytes of a block, zero past its last one, as three words.\<close>

definition byte_at :: "u8 list \<Rightarrow> nat \<Rightarrow> nat \<Rightarrow> u32" where
  "byte_at k i s = (if i < length k then push_bit s (ucast (k ! i)) else 0)"

definition le_word :: "u8 list \<Rightarrow> nat \<Rightarrow> u32" where
  "le_word k i =
     byte_at k (4 * i) 0 + byte_at k (4 * i + 1) 8 + byte_at k (4 * i + 2) 16 + byte_at k (4 * i + 3) 24"

definition be_word :: "u8 list \<Rightarrow> nat \<Rightarrow> u32" where
  "be_word k i =
     byte_at k (4 * i) 24 + byte_at k (4 * i + 1) 16 + byte_at k (4 * i + 2) 8 + byte_at k (4 * i + 3) 0"

definition add_words :: "(u8 list \<Rightarrow> nat \<Rightarrow> u32) \<Rightarrow> u8 list \<Rightarrow> abc \<Rightarrow> abc" where
  "add_words w k st = (case st of (a, b, c) \<Rightarrow> (a + w k 0, b + w k 1, c + w k 2))"

fun jlu_ref :: "(u8 list \<Rightarrow> nat \<Rightarrow> u32) \<Rightarrow> u8 list \<Rightarrow> abc \<Rightarrow> abc" where
  "jlu_ref w key st =
     (if length key > 12 then jlu_ref w (drop 12 key) (JLU3_MIX (add_words w (take 12 key) st))
      else if key = [] then st
      else JLU3_FINAL (add_words w key st))"

declare jlu_ref.simps [simp del]

section \<open>Reading words\<close>


lemma or_bytes:
  fixes x0 x1 x2 x3 :: u8
  defines "p0 \<equiv> push_bit 0 (ucast x0) :: u32" and "p1 \<equiv> push_bit 8 (ucast x1) :: u32"
    and "p2 \<equiv> push_bit 16 (ucast x2) :: u32" and "p3 \<equiv> push_bit 24 (ucast x3) :: u32"
  shows "p0 OR p1 = p0 + p1" "p0 OR p1 OR p2 = p0 + p1 + p2" "p0 OR p1 OR p2 OR p3 = p0 + p1 + p2 + p3"
proof -
  show 1: "p0 OR p1 = p0 + p1"
    by (rule disjunctive_add_eq_or [symmetric], rule bit_word_eqI)
       (auto simp: p0_def p1_def bit_simps dest: bit_imp_le_length)
  have "(p0 OR p1) AND p2 = 0"
    by (rule bit_word_eqI) (auto simp: p0_def p1_def p2_def bit_simps dest: bit_imp_le_length)
  then have "p0 OR p1 OR p2 = (p0 OR p1) + p2"
    by (simp add: disjunctive_add_eq_or or.assoc)
  then show 2: "p0 OR p1 OR p2 = p0 + p1 + p2"
    by (simp add: 1)
  have "(p0 OR p1 OR p2) AND p3 = 0"
    by (rule bit_word_eqI) (auto simp: p0_def p1_def p2_def p3_def bit_simps dest: bit_imp_le_length)
  then have "p0 OR p1 OR p2 OR p3 = (p0 OR p1 OR p2) + p3"
    by (simp add: disjunctive_add_eq_or or.assoc)
  then show "p0 OR p1 OR p2 OR p3 = p0 + p1 + p2 + p3"
    by (simp add: 2)
qed


lemma or_bytes_be:
  fixes x0 x1 x2 x3 :: u8
  defines "p0 \<equiv> push_bit 24 (ucast x0) :: u32" and "p1 \<equiv> push_bit 16 (ucast x1) :: u32"
    and "p2 \<equiv> push_bit 8 (ucast x2) :: u32" and "p3 \<equiv> push_bit 0 (ucast x3) :: u32"
  shows "p0 OR p1 = p0 + p1" "p0 OR p1 OR p2 = p0 + p1 + p2" "p0 OR p1 OR p2 OR p3 = p0 + p1 + p2 + p3"
proof -
  show 1: "p0 OR p1 = p0 + p1"
    by (rule disjunctive_add_eq_or [symmetric], rule bit_word_eqI)
       (auto simp: p0_def p1_def bit_simps dest: bit_imp_le_length)
  have "(p0 OR p1) AND p2 = 0"
    by (rule bit_word_eqI) (auto simp: p0_def p1_def p2_def bit_simps dest: bit_imp_le_length)
  then have "p0 OR p1 OR p2 = (p0 OR p1) + p2"
    by (simp add: disjunctive_add_eq_or or.assoc)
  then show 2: "p0 OR p1 OR p2 = p0 + p1 + p2"
    by (simp add: 1)
  have "(p0 OR p1 OR p2) AND p3 = 0"
    by (rule bit_word_eqI) (auto simp: p0_def p1_def p2_def p3_def bit_simps dest: bit_imp_le_length)
  then have "p0 OR p1 OR p2 OR p3 = (p0 OR p1 OR p2) + p3"
    by (simp add: disjunctive_add_eq_or or.assoc)
  then show "p0 OR p1 OR p2 OR p3 = p0 + p1 + p2 + p3"
    by (simp add: 2)
qed

text \<open>The masks cut a word down to its first bytes, in either order.\<close>

lemma mask_words:
  "(0xff :: u32) = mask 8" "(0xffff :: u32) = mask 16" "(0xffffff :: u32) = mask 24"
  "(0xff000000 :: u32) = NOT (mask 24)" "(0xffff0000 :: u32) = NOT (mask 16)"
  "(0xffffff00 :: u32) = NOT (mask 8)"
  by (simp_all add: mask_eq_exp_minus_1)

lemma mask_bytes:
  fixes x0 x1 x2 x3 :: u8
  defines "p0 \<equiv> push_bit 0 (ucast x0) :: u32" and "p1 \<equiv> push_bit 8 (ucast x1) :: u32"
    and "p2 \<equiv> push_bit 16 (ucast x2) :: u32" and "p3 \<equiv> push_bit 24 (ucast x3) :: u32"
  shows "(p0 OR p1 OR p2 OR p3) AND 0xff = p0" "(p0 OR p1 OR p2 OR p3) AND 0xffff = p0 + p1"
    "(p0 OR p1 OR p2 OR p3) AND 0xffffff = p0 + p1 + p2"
  unfolding p0_def p1_def p2_def p3_def mask_words or_bytes(2) [symmetric] unfolding or_bytes(1) [symmetric]
  by (rule bit_word_eqI; auto simp: bit_simps dest: bit_imp_le_length)+

lemma mask_bytes_be:
  fixes x0 x1 x2 x3 :: u8
  defines "p0 \<equiv> push_bit 24 (ucast x0) :: u32" and "p1 \<equiv> push_bit 16 (ucast x1) :: u32"
    and "p2 \<equiv> push_bit 8 (ucast x2) :: u32" and "p3 \<equiv> push_bit 0 (ucast x3) :: u32"
  shows "(p0 OR p1 OR p2 OR p3) AND 0xff000000 = p0" "(p0 OR p1 OR p2 OR p3) AND 0xffff0000 = p0 + p1"
    "(p0 OR p1 OR p2 OR p3) AND 0xffffff00 = p0 + p1 + p2"
  unfolding p0_def p1_def p2_def p3_def mask_words or_bytes_be(2) [symmetric] unfolding or_bytes_be(1) [symmetric]
  by (rule bit_word_eqI; auto simp: bit_simps dest: bit_imp_le_length)+


text \<open>Every read inside memory yields bytes of the key, each shifted to its place.\<close>

lemma at8_eval: "i < length k \<Longrightarrow> at8 k i s = ok (push_bit s (ucast (k ! i)))"
  by (simp add: at8_def)

lemma at8_read [reads]: "i < length k \<Longrightarrow> at8 k i s = ok (byte_at k i s)"
  by (simp add: at8_def byte_at_def)

lemma byte_at_take [reads]: "byte_at (take n k) i s = (if i < n then byte_at k i s else 0)"
  by (simp add: byte_at_def)

lemma at16_read [reads]: "2 * i + 1 < length k \<Longrightarrow> at16 k i = ok (byte_at k (2 * i) 0 + byte_at k (2 * i + 1) 8)"
  using or_bytes(1)[of "k ! (2 * i)" "k ! (2 * i + 1)"] by (simp add: at16_def at8_eval byte_at_def)

lemma two16_read [reads]:
  assumes "2 * i + 3 < length k"
  shows "two16 k i = ok (byte_at k (2 * i) 0 + byte_at k (2 * i + 1) 8 + byte_at k (2 * i + 2) 16 + byte_at k (2 * i + 3) 24)"
proof -
  have "push_bit 16 (byte_at k (2 * i + 2) 0) = byte_at k (2 * i + 2) 16"
    "push_bit 16 (byte_at k (2 * i + 3) 8) = byte_at k (2 * i + 3) 24"
    by (simp_all add: byte_at_def)
  then show ?thesis
    using assms by (simp add: two16_def at16_read push_bit_add add.assoc numeral_3_eq_3)
qed

lemma at32le_read [reads]:
  assumes "4 * i + 3 < length k"
  shows "at32le k i (- 1) = ok (byte_at k (4 * i) 0 + byte_at k (4 * i + 1) 8 + byte_at k (4 * i + 2) 16 + byte_at k (4 * i + 3) 24)"
    "at32le k i 0xffffff = ok (byte_at k (4 * i) 0 + byte_at k (4 * i + 1) 8 + byte_at k (4 * i + 2) 16)"
    "at32le k i 0xffff = ok (byte_at k (4 * i) 0 + byte_at k (4 * i + 1) 8)"
    "at32le k i 0xff = ok (byte_at k (4 * i) 0)"
  using or_bytes(3)[of "k ! (4 * i)" "k ! (4 * i + 1)" "k ! (4 * i + 2)" "k ! (4 * i + 3)"]
    mask_bytes[of "k ! (4 * i)" "k ! (4 * i + 1)" "k ! (4 * i + 2)" "k ! (4 * i + 3)"] assms
  by (simp_all add: at32le_def at8_eval byte_at_def del: push_bit_0_id)

lemma at32be_read [reads]:
  assumes "4 * i + 3 < length k"
  shows "at32be k i (- 1) = ok (byte_at k (4 * i) 24 + byte_at k (4 * i + 1) 16 + byte_at k (4 * i + 2) 8 + byte_at k (4 * i + 3) 0)"
    "at32be k i 0xffffff00 = ok (byte_at k (4 * i) 24 + byte_at k (4 * i + 1) 16 + byte_at k (4 * i + 2) 8)"
    "at32be k i 0xffff0000 = ok (byte_at k (4 * i) 24 + byte_at k (4 * i + 1) 16)"
    "at32be k i 0xff000000 = ok (byte_at k (4 * i) 24)"
  using or_bytes_be(3)[of "k ! (4 * i)" "k ! (4 * i + 1)" "k ! (4 * i + 2)" "k ! (4 * i + 3)"]
    mask_bytes_be[of "k ! (4 * i)" "k ! (4 * i + 1)" "k ! (4 * i + 2)" "k ! (4 * i + 3)"] assms
  by (simp_all add: at32be_def at8_eval byte_at_def del: push_bit_0_id)

lemmas path_simps = reads le_word_def be_word_def add_words_def addA_def addB_def addC_def c_switch_def

section \<open>The contract of a loop and its last block\<close>

locale jlu_path =
  fixes blk :: "u8 list \<Rightarrow> abc \<Rightarrow> abc outcome" and arms :: "u8 list \<Rightarrow> arm list"
    and need :: "nat \<Rightarrow> nat" and w :: "u8 list \<Rightarrow> nat \<Rightarrow> u32"
  assumes block: "12 \<le> length k \<Longrightarrow> blk k st = ok (add_words w (take 12 k) st)"
    and last_block: "0 < n \<Longrightarrow> n \<le> 12 \<Longrightarrow> need n \<le> length k \<Longrightarrow>
      c_switch n (arms k) st = ok (add_words w (take n k) st)"
    and need_ge: "n \<le> need n"
    and need_step: "n > 12 \<Longrightarrow> need (n - 12) + 12 \<le> need n"
begin

lemma run_correct: "need n \<le> length k \<Longrightarrow> jlu_run blk arms n k st = ok (jlu_ref w (take n k) st)"
proof (induction n arbitrary: k st rule: less_induct)
  case (less n)
  have len: "length (take n k) = n"
    using less.prems need_ge[of n] by simp
  show ?case
  proof (cases "n > 12")
    case True
    have "take 12 (take n k) = take 12 k" "drop 12 (take n k) = take (n - 12) (drop 12 k)"
      using True by (simp_all add: drop_take min_def)
    moreover have "12 \<le> length k" "need (n - 12) \<le> length (drop 12 k)"
      using True less.prems need_step[OF True] by simp_all
    ultimately show ?thesis
      using True less.IH[of "n - 12" "drop 12 k" "JLU3_MIX (add_words w (take 12 k) st)"] len
      by (simp add: jlu_run_def jlu_loop.simps[of _ n] jlu_ref.simps[of _ "take n k"] block)
  next
    case False
    then show ?thesis
      using len last_block[of n k st] less.prems
      by (auto simp: jlu_run_def jlu_loop.simps[of _ n] jlu_ref.simps[of _ "take n k"] split: prod.splits)
  qed
qed

end


text \<open>Reads of whole words need the key rounded up to words, the others the key.\<close>

definition round4 :: "nat \<Rightarrow> nat" where
  "round4 n = 4 * ((n + 3) div 4)"

lemma round4_ge: "n \<le> round4 n"
  by (simp add: round4_def)

lemma round4_step: "n > 12 \<Longrightarrow> round4 (n - 12) + 12 \<le> round4 n"
  unfolding round4_def by presburger

lemma upto12: "0 < n \<Longrightarrow> n \<le> (12::nat) \<Longrightarrow>
    (n = 12 \<or> n = 11 \<or> n = 10 \<or> n = 9) \<or> (n = 8 \<or> n = 7 \<or> n = 6 \<or> n = 5) \<or> (n = 4 \<or> n = 3 \<or> n = 2 \<or> n = 1)"
  by arith

lemma last_arms32:
  "0 < n \<Longrightarrow> n \<le> 12 \<Longrightarrow> round4 n \<le> length k \<Longrightarrow> c_switch n (arms32 k) st = ok (add_words le_word (take n k) st)"
  by (drule (1) upto12, cases st, elim disjE; simp add: path_simps arms32_def round4_def ac_simps
      del: length_greater_0_conv add_2_eq_Suc add_2_eq_Suc')

lemma last_arms32_vg:
  "0 < n \<Longrightarrow> n \<le> 12 \<Longrightarrow> n \<le> length k \<Longrightarrow> c_switch n (arms32_vg k) st = ok (add_words le_word (take n k) st)"
  by (drule (1) upto12, cases st, elim disjE; simp add: path_simps arms32_vg_def ac_simps
      del: length_greater_0_conv add_2_eq_Suc add_2_eq_Suc')

lemma last_arms16:
  "0 < n \<Longrightarrow> n \<le> 12 \<Longrightarrow> n \<le> length k \<Longrightarrow> c_switch n (arms16 k) st = ok (add_words le_word (take n k) st)"
  by (drule (1) upto12, cases st, elim disjE; simp add: path_simps arms16_def ac_simps
      del: length_greater_0_conv add_2_eq_Suc add_2_eq_Suc')

lemma last_arms8:
  "0 < n \<Longrightarrow> n \<le> 12 \<Longrightarrow> n \<le> length k \<Longrightarrow> c_switch n (arms8 k) st = ok (add_words le_word (take n k) st)"
  by (drule (1) upto12, cases st, elim disjE; simp add: path_simps arms8_def ac_simps
      del: length_greater_0_conv add_2_eq_Suc add_2_eq_Suc')

lemma last_arms32_be:
  "0 < n \<Longrightarrow> n \<le> 12 \<Longrightarrow> round4 n \<le> length k \<Longrightarrow> c_switch n (arms32_be k) st = ok (add_words be_word (take n k) st)"
  by (drule (1) upto12, cases st, elim disjE; simp add: path_simps arms32_be_def round4_def ac_simps
      del: length_greater_0_conv add_2_eq_Suc add_2_eq_Suc')

lemma last_arms32_be_vg:
  "0 < n \<Longrightarrow> n \<le> 12 \<Longrightarrow> n \<le> length k \<Longrightarrow> c_switch n (arms32_be_vg k) st = ok (add_words be_word (take n k) st)"
  by (drule (1) upto12, cases st, elim disjE; simp add: path_simps arms32_be_vg_def ac_simps
      del: length_greater_0_conv add_2_eq_Suc add_2_eq_Suc')

lemma last_arms8_be:
  "0 < n \<Longrightarrow> n \<le> 12 \<Longrightarrow> n \<le> length k \<Longrightarrow> c_switch n (arms8_be k) st = ok (add_words be_word (take n k) st)"
  by (drule (1) upto12, cases st, elim disjE; simp add: path_simps arms8_be_def ac_simps
      del: length_greater_0_conv add_2_eq_Suc add_2_eq_Suc')

lemma block_32:
  "12 \<le> length k \<Longrightarrow> blk32 k st = ok (add_words le_word (take 12 k) st)"
  by (cases st) (simp add: path_simps blk32_def ac_simps del: length_greater_0_conv add_2_eq_Suc add_2_eq_Suc')

lemma block_16:
  "12 \<le> length k \<Longrightarrow> blk16 k st = ok (add_words le_word (take 12 k) st)"
  by (cases st) (simp add: path_simps blk16_def ac_simps del: length_greater_0_conv add_2_eq_Suc add_2_eq_Suc')

lemma block_8:
  "12 \<le> length k \<Longrightarrow> blk8 k st = ok (add_words le_word (take 12 k) st)"
  by (cases st) (simp add: path_simps blk8_def ac_simps del: length_greater_0_conv add_2_eq_Suc add_2_eq_Suc')

lemma block_32_be:
  "12 \<le> length k \<Longrightarrow> blk32_be k st = ok (add_words be_word (take 12 k) st)"
  by (cases st) (simp add: path_simps blk32_be_def ac_simps del: length_greater_0_conv add_2_eq_Suc add_2_eq_Suc')

lemma block_8_be:
  "12 \<le> length k \<Longrightarrow> blk8_be k st = ok (add_words be_word (take 12 k) st)"
  by (cases st) (simp add: path_simps blk8_be_def ac_simps del: length_greater_0_conv add_2_eq_Suc add_2_eq_Suc')

lemmas blocks = block_32 block_16 block_8 block_32_be block_8_be

interpretation le32: jlu_path blk32 arms32 round4 le_word
  by unfold_locales (simp_all add: blocks last_arms32 round4_ge round4_step)

interpretation le32vg: jlu_path blk32 arms32_vg id le_word
  by unfold_locales (simp_all add: blocks last_arms32_vg)

interpretation le16: jlu_path blk16 arms16 id le_word
  by unfold_locales (simp_all add: blocks last_arms16)

interpretation le8: jlu_path blk8 arms8 id le_word
  by unfold_locales (simp_all add: blocks last_arms8)

interpretation be32: jlu_path blk32_be arms32_be round4 be_word
  by unfold_locales (simp_all add: blocks last_arms32_be round4_ge round4_step)

interpretation be32vg: jlu_path blk32_be arms32_be_vg id be_word
  by unfold_locales (simp_all add: blocks last_arms32_be_vg)

interpretation be8: jlu_path blk8_be arms8_be id be_word
  by unfold_locales (simp_all add: blocks last_arms8_be)

text \<open>Only a loop of aligned 32-bit reads outside valgrind reads up to three bytes past the key.\<close>

definition readable :: "bool \<Rightarrow> bool \<Rightarrow> nat \<Rightarrow> nat \<Rightarrow> nat" where
  "readable le vg addr n = (if le \<and> addr AND 3 = 0 \<and> \<not> vg then round4 n else n)"

lemma readable_ge: "n \<le> readable le vg addr n"
  by (simp add: readable_def round4_ge)

lemma le_paths_ref:
  "readable le vg addr n \<le> length k \<Longrightarrow> le_paths le vg addr n k st = ok (jlu_ref le_word (take n k) st)"
  by (auto simp: le_paths_def readable_def le32.run_correct le32vg.run_correct le16.run_correct le8.run_correct
      split: if_splits)

lemma be_paths_ref:
  "readable (\<not> le) vg addr n \<le> length k \<Longrightarrow> be_paths le vg addr n k st = ok (jlu_ref be_word (take n k) st)"
  by (auto simp: be_paths_def readable_def be32.run_correct be32vg.run_correct be8.run_correct
      split: if_splits)


section \<open>The array of words\<close>

fun word_ref :: "u32 list \<Rightarrow> abc \<Rightarrow> abc" where
  "word_ref (x # y # z # w # ws) (a, b, c) = word_ref (w # ws) (JLU3_MIX (a + x, b + y, c + z))"
| "word_ref [x, y, z] (a, b, c) = JLU3_FINAL (a + x, b + y, c + z)"
| "word_ref [x, y] (a, b, c) = JLU3_FINAL (a + x, b + y, c)"
| "word_ref [x] (a, b, c) = JLU3_FINAL (a + x, b, c)"
| "word_ref [] st = st"

lemma jlu32w_ref:
  "andThen (jlu32w_loop (length ws) (ws @ rest) st) (\<lambda>(n, k, st). c_switch n (armsw k) st) = ok (word_ref ws st)"
proof (induction ws st rule: word_ref.induct)
  case (1 x y z w ws a b c)
  then show ?case
    by (subst jlu32w_loop.simps) (simp add: addA_def addB_def addC_def atw_def slot_def)
qed (simp_all add: jlu32w_loop.simps c_switch_def armsw_def addA_def addB_def addC_def atw_def slot_def)

text \<open>The bytes of a word in memory, in either order.\<close>

definition le_bytes :: "u32 \<Rightarrow> u8 list" where
  "le_bytes x = [ucast x, ucast (drop_bit 8 x), ucast (drop_bit 16 x), ucast (drop_bit 24 x)]"

definition be_bytes :: "u32 \<Rightarrow> u8 list" where
  "be_bytes x = rev (le_bytes x)"

lemma bytes_sum:
  fixes x :: u32
  shows "push_bit 0 (ucast (ucast x :: u8)) + push_bit 8 (ucast (ucast (drop_bit 8 x) :: u8)) +
    push_bit 16 (ucast (ucast (drop_bit 16 x) :: u8)) + push_bit 24 (ucast (ucast (drop_bit 24 x) :: u8)) = x"
  unfolding or_bytes(3) [symmetric]
  by (rule bit_word_eqI) (auto simp: bit_simps dest: bit_imp_le_length, rule ccontr, simp)

lemma length_bytes [simp]: "length (le_bytes x) = 4" "length (be_bytes x) = 4"
  by (simp_all add: le_bytes_def be_bytes_def)


lemma le_word_bytes [simp]:
  "le_word (le_bytes x @ r) 0 = x" "le_word (le_bytes x @ r) (Suc i) = le_word r i" "le_word [] i = 0"
proof -
  show "le_word (le_bytes x @ r) 0 = x"
    using bytes_sum[of x] by (simp add: le_word_def byte_at_def le_bytes_def nth_append numeral_2_eq_2 numeral_3_eq_3 del: push_bit_0_id)
  show "le_word (le_bytes x @ r) (Suc i) = le_word r i" "le_word [] i = 0"
    by (simp_all add: le_word_def byte_at_def nth_append add.commute)
qed

lemma be_word_bytes [simp]:
  "be_word (be_bytes x @ r) 0 = x" "be_word (be_bytes x @ r) (Suc i) = be_word r i" "be_word [] i = 0"
proof -
  show "be_word (be_bytes x @ r) 0 = x"
    using bytes_sum[of x]
    by (simp add: be_word_def byte_at_def be_bytes_def le_bytes_def nth_append numeral_2_eq_2 numeral_3_eq_3 ac_simps
        del: push_bit_0_id)
  show "be_word (be_bytes x @ r) (Suc i) = be_word r i" "be_word [] i = 0"
    by (simp_all add: be_word_def byte_at_def nth_append add.commute)
qed

lemma word_ref_bytes:
  assumes len: "\<And>x. length (f x) = 4"
    and word: "\<And>x r. w (f x @ r) 0 = x" "\<And>x r i. w (f x @ r) (Suc i) = w r i" "\<And>i. w [] i = 0"
  shows "jlu_ref w (concat (map f ws)) st = word_ref ws st"
proof -
  have ne: "f x \<noteq> []" for x
    using len[of x] by auto
  have w1: "w (f x) 0 = x" "w (f x) (Suc i) = 0" for x i
    using word(1)[of x "[]"] word(2)[of x "[]" i] word(3) by simp_all
  show ?thesis
  proof (induction ws st rule: word_ref.induct)
    case (1 x y z v ws a b c)
    have "w (f x @ f y @ f z) 0 = x" "w (f x @ f y @ f z) (Suc 0) = y" "w (f x @ f y @ f z) 2 = z"
      by (simp_all add: word w1 numeral_2_eq_2)
    then show ?case
      using 1 by (subst jlu_ref.simps) (simp add: len add_words_def)
  qed (simp_all add: jlu_ref.simps len ne add_words_def word w1 numeral_2_eq_2)
qed

section \<open>The mixing step is reversible\<close>

text \<open>Each line of \<open>_JLU3_MIX\<close> is one round on the registers in another order, and undone by itself.\<close>

definition mix_round :: "nat \<Rightarrow> abc \<Rightarrow> abc" where
  "mix_round s st = (case st of (x, y, z) \<Rightarrow> (y, z + y, (x - z) XOR ROTL32 z s))"

definition unmix_round :: "nat \<Rightarrow> abc \<Rightarrow> abc" where
  "unmix_round s st = (case st of (y, zy, x) \<Rightarrow>
     let z = zy - y in ((x XOR ROTL32 z s) + z, y, z))"

lemma unmix_round_inverse: "unmix_round s (mix_round s st) = st" "mix_round s (unmix_round s st) = st"
  by (cases st; simp add: mix_round_def unmix_round_def Let_def xor.assoc)+

lemma JLU3_MIX_rounds:
  "JLU3_MIX st = mix_round 4 (mix_round 19 (mix_round 16 (mix_round 8 (mix_round 6 (mix_round 4 st)))))"
  by (cases st) (simp only: JLU3_MIX_def mix_round_def Let_def prod.case)

definition JLU3_UNMIX :: "abc \<Rightarrow> abc" where
  "JLU3_UNMIX st =
     unmix_round 4 (unmix_round 6 (unmix_round 8 (unmix_round 16 (unmix_round 19 (unmix_round 4 st)))))"


section \<open>Properties\<close>

lemma readable_words: "readable le vg addr (4 * n) = 4 * n"
  by (simp add: readable_def round4_def)

lemma length_concat_bytes:
  "(\<And>x. length (f x) = 4) \<Longrightarrow> length (concat (map f ws)) = 4 * length ws"
  by (induction ws) simp_all

text \<open>C31: The hash of a key is a function of its bytes. Whatever the byte order of the machine, the
  alignment of the key and the build, \<open>jlu32l\<close>, \<open>jlu32lpair\<close> and \<open>jlu32b\<close> each read inside the memory
  of the key (rounded up to a word, where whole words are read), and return what the reference
  definition gives on the first \<open>size\<close> bytes; the bytes after the key change nothing.\<close>

theorem jlu32_reference:
  "(readable le vg addr n \<le> length k \<longrightarrow>
      jlu32l le vg addr h (Some k) n =
        ok (let i = JLU3_INIT h n in case jlu_ref le_word (take n k) (i, i, i) of (a, b, c) \<Rightarrow> c) \<and>
      jlu32lpair le vg addr (Some k) n h pb =
        ok (let i = JLU3_INIT h n in case jlu_ref le_word (take n k) (i, i, i + pb) of (a, b, c) \<Rightarrow> (c, b))) \<and>
   (readable (\<not> le) vg addr n \<le> length k \<longrightarrow>
      jlu32b le vg addr h (Some k) n =
        ok (let i = JLU3_INIT h n in case jlu_ref be_word (take n k) (i, i, i) of (a, b, c) \<Rightarrow> c))"
  by (auto simp: jlu32l_def jlu32lpair_def jlu32b_def Let_def le_paths_ref be_paths_ref split: prod.splits)

theorem jlu32_reference_witness:
  "jlu32l True False 4096 0 (Some [104, 101, 108, 108, 111, 7, 7, 7]) 5 =
     jlu32l False False 4097 0 (Some [104, 101, 108, 108, 111]) 5 \<and>
   jlu32lpair True False 4096 (Some [104, 101, 108, 108, 111, 7, 7, 7]) 5 0 0 =
     jlu32lpair True False 4098 (Some [104, 101, 108, 108, 111]) 5 0 0 \<and>
   jlu32b False True 4096 0 (Some [104, 101, 108, 108, 111]) 5 =
     jlu32b True False 4096 0 (Some [104, 101, 108, 108, 111]) 5"
  using jlu32_reference[of True False 4096 5 "[104, 101, 108, 108, 111, 7, 7, 7]" 0 0]
    jlu32_reference[of False False 4097 5 "[104, 101, 108, 108, 111]" 0 0]
    jlu32_reference[of True False 4098 5 "[104, 101, 108, 108, 111]" 0 0]
    jlu32_reference[of False True 4096 5 "[104, 101, 108, 108, 111]" 0 0]
    jlu32_reference[of True False 4096 5 "[104, 101, 108, 108, 111]" 0 0]
  by (simp add: readable_def round4_def)

text \<open>On an array of 32-bit words \<open>jlu32w\<close> returns what \<open>jlu32l\<close> returns on the words laid out
  little-endian and what \<open>jlu32b\<close> returns on the words laid out big-endian, on every machine.\<close>

theorem jlu32w_bytes:
  "jlu32w h (Some ws) (length ws) =
     jlu32l le vg addr h (Some (concat (map le_bytes ws))) (4 * length ws) \<and>
   jlu32w h (Some ws) (length ws) =
     jlu32b le vg addr h (Some (concat (map be_bytes ws))) (4 * length ws)"
proof -
  let ?i = "JLU3_INIT h (4 * length ws)"
  have "andThen (jlu32w_loop (length ws) ws st) (\<lambda>(n, k, st). andThen (c_switch n (armsw k) st) f) =
      andThen (ok (word_ref ws st)) f" for st and f :: "abc \<Rightarrow> u32 outcome"
    unfolding jlu32w_ref[of ws "[]", symmetric] andThen_assoc by (simp add: case_prod_beta')
  then have "jlu32w h (Some ws) (length ws) = ok (snd (snd (word_ref ws (?i, ?i, ?i))))"
    by (simp add: jlu32w_def Let_def case_prod_beta')
  then show ?thesis
    by (simp add: jlu32l_def jlu32b_def Let_def le_paths_ref be_paths_ref readable_words length_concat_bytes
        word_ref_bytes case_prod_beta')
qed

text \<open>The mixing step is reversible: \<open>JLU3_UNMIX\<close> undoes it, from either side, so that it loses
  none of the key read so far.\<close>

theorem JLU3_MIX_reversible:
  "JLU3_UNMIX (JLU3_MIX st) = st \<and> JLU3_MIX (JLU3_UNMIX st) = st"
  by (simp add: JLU3_MIX_rounds JLU3_UNMIX_def unmix_round_inverse)

end
