(* ===== verification/Bloom.thy ===== *)
theory Bloom
  imports Lookup3Thms
begin

unbundle bit_operations_syntax

text \<open>
  The Bloom filters of \<open>rpmio/rpmbf.c\<close>: \<open>m\<close> bits in an array of 32-bit words, \<open>k\<close> probes for each
  key, computed from the two hashes of \<open>jlu32lpair\<close>. The bit operations are the \<open>PBM\<close> macros of
  \<open>rpmio/rpmbf.h\<close>; what the filter needs from them is the locale \<open>bit_array\<close>, and what it needs
  from the two is that it behaves as the set of its bits.

  A key is the memory from its first byte on and its length, 0 for a string that ends in a
  zero byte. The byte order of the machine, the build and the address of the key are the parameters
  of \<open>Lookup3\<close>. A null filter is \<open>None\<close>. Allocation does not fail; the usage mutex and the pool of the
  filters are not modelled. \<open>rpmbfParams\<close> computes with floating point and is not modelled.
\<close>

section \<open>The model\<close>

record rpmbf =
  bf_m :: u64
  bf_n :: u64
  bf_k :: u64
  bf_bits :: "u32 list"

subsection \<open>The bit macros of rpmbf.h\<close>

definition PBM_IX :: "u64 \<Rightarrow> nat" where
  "PBM_IX d = unat (d div 32)"

definition PBM_MASK :: "u64 \<Rightarrow> u32" where
  "PBM_MASK d = push_bit (unat ((ucast d :: u32) mod 32)) 1"

definition PBM_SET :: "u64 \<Rightarrow> u32 list \<Rightarrow> u32 list outcome" where
  "PBM_SET d s = andThen (slot s (int (PBM_IX d))) (\<lambda>w. put_slot s (int (PBM_IX d)) (w OR PBM_MASK d))"

definition PBM_CLR :: "u64 \<Rightarrow> u32 list \<Rightarrow> u32 list outcome" where
  "PBM_CLR d s = andThen (slot s (int (PBM_IX d))) (\<lambda>w. put_slot s (int (PBM_IX d)) (w AND NOT (PBM_MASK d)))"

definition PBM_ISSET :: "u64 \<Rightarrow> u32 list \<Rightarrow> bool outcome" where
  "PBM_ISSET d s = andThen (slot s (int (PBM_IX d))) (\<lambda>w. ok (w AND PBM_MASK d \<noteq> 0))"

definition PBM_ALLOC :: "u64 \<Rightarrow> u32 list" where
  "PBM_ALLOC d = replicate (PBM_IX d + 1) 0"

subsection \<open>The operations\<close>

definition rpmbfNew :: "u64 \<Rightarrow> u64 \<Rightarrow> rpmbf" where
  "rpmbfNew m k =
     (let k = (if k = 0 then 16 else k);
          m = (if m = 0 then (3 * 1024 * k) div 2 else m)
      in \<lparr>bf_m = m, bf_n = 0, bf_k = k, bf_bits = PBM_ALLOC (m - 1)\<rparr>)"

text \<open>\<open>if (ns == 0) ns = strlen(s)\<close>.\<close>

definition key_length :: "u8 list \<Rightarrow> nat \<Rightarrow> nat outcome" where
  "key_length s ns =
     (if ns \<noteq> 0 then ok ns
      else if 0 \<in> set s then ok (length (takeWhile (\<lambda>x. x \<noteq> 0) s)) else Inl OutOfBounds)"

text \<open>The bit of one probe: \<open>h = h0 + ns * h1\<close> is computed in 64 bits and cut to 32.\<close>

definition probe :: "u64 \<Rightarrow> u32 \<Rightarrow> u32 \<Rightarrow> nat \<Rightarrow> u64 outcome" where
  "probe m h0 h1 i =
     (let h = (ucast (ucast h0 + of_nat i * ucast h1 :: u64) :: u32) in
      guardC DivByZero (m \<noteq> 0) (ok (ucast (ucast ((ucast h :: u64) mod m) :: u32))))"

fun each_probe :: "(u64 \<Rightarrow> 'b \<Rightarrow> 'b outcome) \<Rightarrow> u64 \<Rightarrow> u32 \<Rightarrow> u32 \<Rightarrow> nat list \<Rightarrow> 'b \<Rightarrow> 'b outcome" where
  "each_probe f m h0 h1 [] s = ok s"
| "each_probe f m h0 h1 (i # is) s =
     andThen (probe m h0 h1 i) (\<lambda>ix. andThen (f ix s) (each_probe f m h0 h1 is))"

definition rpmbfAdd ::
  "bool \<Rightarrow> bool \<Rightarrow> rpmbf option \<Rightarrow> nat \<Rightarrow> u8 list \<Rightarrow> nat \<Rightarrow> (int \<times> rpmbf option) outcome" where
  "rpmbfAdd le vg bf addr s ns =
     (case bf of
        None \<Rightarrow> ok (-1, None)
      | Some bf \<Rightarrow>
          andThen (key_length s ns) (\<lambda>ns.
          andThen (jlu32lpair le vg addr (Some s) ns 0 0) (\<lambda>(h0, h1).
          andThen (each_probe PBM_SET (bf_m bf) h0 h1 [0..<unat (bf_k bf)] (bf_bits bf)) (\<lambda>bits.
            ok (0, Some (bf\<lparr>bf_bits := bits, bf_n := bf_n bf + 1\<rparr>))))))"

fun chk_loop :: "u64 \<Rightarrow> u32 \<Rightarrow> u32 \<Rightarrow> nat list \<Rightarrow> u32 list \<Rightarrow> int outcome" where
  "chk_loop m h0 h1 [] s = ok 1"
| "chk_loop m h0 h1 (i # is) s =
     andThen (probe m h0 h1 i) (\<lambda>ix. andThen (PBM_ISSET ix s) (\<lambda>b.
       if b then chk_loop m h0 h1 is s else ok 0))"

definition rpmbfChk :: "bool \<Rightarrow> bool \<Rightarrow> rpmbf option \<Rightarrow> nat \<Rightarrow> u8 list \<Rightarrow> nat \<Rightarrow> int outcome" where
  "rpmbfChk le vg bf addr s ns =
     (case bf of
        None \<Rightarrow> ok (-1)
      | Some bf \<Rightarrow>
          andThen (key_length s ns) (\<lambda>ns.
          andThen (jlu32lpair le vg addr (Some s) ns 0 0) (\<lambda>(h0, h1).
            chk_loop (bf_m bf) h0 h1 [0..<unat (bf_k bf)] (bf_bits bf))))"

text \<open>\<open>memset\<close> over the first \<open>nw\<close> words.\<close>

definition clear_words :: "nat \<Rightarrow> u32 list \<Rightarrow> u32 list outcome" where
  "clear_words nw s = guardC OutOfBounds (nw \<le> length s) (ok (replicate nw 0 @ drop nw s))"

definition rpmbfClr :: "rpmbf option \<Rightarrow> (int \<times> rpmbf option) outcome" where
  "rpmbfClr bf =
     (case bf of
        None \<Rightarrow> ok (-1, None)
      | Some bf \<Rightarrow>
          andThen (clear_words (PBM_IX (bf_m bf - 1) + 1) (bf_bits bf)) (\<lambda>bits.
            ok (0, Some (bf\<lparr>bf_bits := bits, bf_n := 0\<rparr>))))"

definition rpmbfDel ::
  "bool \<Rightarrow> bool \<Rightarrow> rpmbf option \<Rightarrow> nat \<Rightarrow> u8 list \<Rightarrow> nat \<Rightarrow> (int \<times> rpmbf option) outcome" where
  "rpmbfDel le vg bf addr s ns =
     (case bf of
        None \<Rightarrow> ok (-1, None)
      | Some bf \<Rightarrow>
          andThen (key_length s ns) (\<lambda>ns.
          guardC AssertFail (ns > 0) (
          andThen (jlu32lpair le vg addr (Some s) ns 0 0) (\<lambda>(h0, h1).
          andThen (each_probe PBM_CLR (bf_m bf) h0 h1 [0..<unat (bf_k bf)] (bf_bits bf)) (\<lambda>bits.
            ok (0, Some (bf\<lparr>bf_bits := bits,
                            bf_n := (if bf_n bf \<noteq> 0 then bf_n bf - 1 else bf_n bf)\<rparr>)))))))"

fun word_loop :: "(u32 \<Rightarrow> u32 \<Rightarrow> u32) \<Rightarrow> u32 list \<Rightarrow> nat list \<Rightarrow> u32 list \<Rightarrow> u32 list outcome" where
  "word_loop f bbits [] abits = ok abits"
| "word_loop f bbits (i # is) abits =
     andThen (slot abits (int i)) (\<lambda>x. andThen (slot bbits (int i)) (\<lambda>y.
     andThen (put_slot abits (int i) (f x y)) (word_loop f bbits is)))"

definition rpmbfIntersect :: "rpmbf option \<Rightarrow> rpmbf option \<Rightarrow> (int \<times> rpmbf option) outcome" where
  "rpmbfIntersect a b =
     (case (a, b) of
        (Some a, Some b) \<Rightarrow>
          if \<not> (bf_m a = bf_m b \<and> bf_k a = bf_k b) then ok (-1, Some a)
          else andThen (word_loop (AND) (bf_bits b) [0..<PBM_IX (bf_m a - 1) + 1] (bf_bits a)) (\<lambda>bits.
                 ok (0, Some (a\<lparr>bf_bits := bits, bf_n := 1\<rparr>)))
      | _ \<Rightarrow> ok (-1, a))"

definition rpmbfUnion :: "rpmbf option \<Rightarrow> rpmbf option \<Rightarrow> (int \<times> rpmbf option) outcome" where
  "rpmbfUnion a b =
     (case (a, b) of
        (Some a, Some b) \<Rightarrow>
          if \<not> (bf_m a = bf_m b \<and> bf_k a = bf_k b) then ok (-1, Some a)
          else andThen (word_loop (OR) (bf_bits b) [0..<PBM_IX (bf_m a - 1) + 1] (bf_bits a)) (\<lambda>bits.
                 ok (0, Some (a\<lparr>bf_bits := bits, bf_n := bf_n a + bf_n b\<rparr>)))
      | _ \<Rightarrow> ok (-1, a))"

end
