(* ===== verification/BloomThms.thy ===== *)
theory BloomThms
  imports Bloom
begin

unbundle bit_operations_syntax

text \<open>
  The Bloom filter as the set of its bits: what the bit macros do to the array (\<open>bit_array\<close>), what
  each operation does to the set, that a filter never denies a key that was added to it, and that
  the union of two filters is the filter of both lists of keys.
\<close>

section \<open>Bits in an array of words\<close>

definition test_bit :: "u32 list \<Rightarrow> nat \<Rightarrow> bool" where
  "test_bit s d \<longleftrightarrow> d < 32 * length s \<and> bit (s ! (d div 32)) (d mod 32)"

definition bit_set :: "u32 list \<Rightarrow> nat set" where
  "bit_set s = {d. test_bit s d}"

lemma PBM_MASK_bit: "PBM_MASK d = 2 ^ (unat d mod 32)"
proof -
  have "unat ((ucast d :: u32) mod 32) = unat d mod 2 ^ 32 mod 32"
    by (simp add: unat_mod unsigned_ucast_eq take_bit_eq_mod)
  then show ?thesis
    by (simp add: PBM_MASK_def mod_mod_cancel)
qed

lemma PBM_IX_nat: "PBM_IX d = unat d div 32"
  by (simp add: PBM_IX_def unat_div)

lemma and_mask: "n < 32 \<Longrightarrow> (w :: u32) AND 2 ^ n \<noteq> 0 \<longleftrightarrow> bit w n"
  by (auto simp: and_exp_eq_0_iff_not_bit)

lemma bit_set_update:
  assumes "i < length s"
  shows "bit_set (s[i := w]) = {d \<in> bit_set s. d div 32 \<noteq> i} \<union> {d. d div 32 = i \<and> bit w (d mod 32)}"
  using assms by (auto simp: bit_set_def test_bit_def nth_list_update)

text \<open>The bit of a probe, as a number.\<close>

definition probe_ix :: "u64 \<Rightarrow> u32 \<Rightarrow> u32 \<Rightarrow> nat \<Rightarrow> nat" where
  "probe_ix m h0 h1 i = unat (ucast (ucast h0 + of_nat i * ucast h1 :: u64) :: u32) mod unat m"

lemma probe_eq:
  assumes "m \<noteq> 0"
  shows "\<exists>ix. probe m h0 h1 i = ok ix \<and> unat ix = probe_ix m h0 h1 i"
proof -
  let ?h = "ucast (ucast h0 + of_nat i * ucast h1 :: u64) :: u32"
  have "unat ?h mod unat m < 2 ^ 32"
    using unsigned_less[of ?h, where ?'a = nat] by (simp add: order.strict_trans1[OF mod_less_eq_dividend])
  then have "unat (ucast (ucast ((ucast ?h :: u64) mod m) :: u32) :: u64) = unat ?h mod unat m"
    by (simp add: unsigned_ucast_eq unat_mod take_bit_eq_mod)
  then show ?thesis
    using assms by (simp add: probe_def probe_ix_def Let_def)
qed

lemma probe_ix_less: "m \<noteq> 0 \<Longrightarrow> probe_ix m h0 h1 i < unat m"
  by (simp add: probe_ix_def unat_gt_0)

text \<open>What the filter relies on: each update inside the array changes one bit of it.\<close>

locale bit_array =
  fixes room :: "'b \<Rightarrow> nat" and members :: "'b \<Rightarrow> nat set"
    and upd :: "u64 \<Rightarrow> 'b \<Rightarrow> 'b outcome" and on :: "nat \<Rightarrow> nat set \<Rightarrow> nat set"
  assumes upd_ok: "unat d < room b \<Longrightarrow>
    \<exists>b'. upd d b = ok b' \<and> room b' = room b \<and> members b' = on (unat d) (members b)"
begin

lemma probes_ok:
  assumes "m \<noteq> 0" "unat m \<le> room b"
  shows "\<exists>b'. each_probe upd m h0 h1 is b = ok b' \<and> room b' = room b \<and>
    members b' = fold on (map (probe_ix m h0 h1) is) (members b)"
  using assms(2)
proof (induction "is" arbitrary: b)
  case (Cons i "is")
  obtain ix where ix: "probe m h0 h1 i = ok ix" "unat ix = probe_ix m h0 h1 i"
    using probe_eq[OF assms(1)] by blast
  then have "unat ix < room b"
    using probe_ix_less[OF assms(1), of h0 h1 i] Cons.prems by simp
  then obtain b1 where b1: "upd ix b = ok b1" "room b1 = room b" "members b1 = on (unat ix) (members b)"
    using upd_ok by blast
  then show ?case
    using Cons.IH[of b1] Cons.prems ix by simp
qed simp

end

lemma same_bit: "e div 32 = d div 32 \<Longrightarrow> e mod 32 = d mod 32 \<longleftrightarrow> e = (d :: nat)"
  by (metis div_mult_mod_eq)

lemma word_ix: "d < 32 * n \<Longrightarrow> d div 32 < (n :: nat)"
  by (simp add: less_mult_imp_div_less mult.commute)

lemma bit_set_set:
  assumes "d < 32 * length s"
  shows "bit_set (s[d div 32 := (s ! (d div 32)) OR 2 ^ (d mod 32)]) = insert d (bit_set s)"
proof (rule set_eqI)
  fix e
  show "e \<in> bit_set (s[d div 32 := (s ! (d div 32)) OR 2 ^ (d mod 32)]) \<longleftrightarrow> e \<in> insert d (bit_set s)"
  proof (cases "e div 32 = d div 32")
    case True
    then have "e < 32 * length s"
      using word_ix[OF assms] by simp
    then show ?thesis
      using True same_bit[OF True] word_ix[OF assms]
      by (auto simp: bit_set_update[OF word_ix[OF assms]] bit_or_iff bit_exp_iff bit_set_def test_bit_def)
  next
    case False
    then show ?thesis
      by (auto simp: bit_set_update[OF word_ix[OF assms]])
  qed
qed

lemma bit_set_clr:
  assumes "d < 32 * length s"
  shows "bit_set (s[d div 32 := (s ! (d div 32)) AND NOT (2 ^ (d mod 32))]) = bit_set s - {d}"
proof (rule set_eqI)
  fix e
  show "e \<in> bit_set (s[d div 32 := (s ! (d div 32)) AND NOT (2 ^ (d mod 32))]) \<longleftrightarrow> e \<in> bit_set s - {d}"
  proof (cases "e div 32 = d div 32")
    case True
    then have "e < 32 * length s"
      using word_ix[OF assms] by simp
    then show ?thesis
      using True same_bit[OF True] word_ix[OF assms]
      by (auto simp: bit_set_update[OF word_ix[OF assms]] bit_and_iff bit_not_iff bit_exp_iff bit_set_def test_bit_def)
  next
    case False
    then show ?thesis
      by (auto simp: bit_set_update[OF word_ix[OF assms]])
  qed
qed

lemma PBM_SET_ok:
  "unat d < 32 * length s \<Longrightarrow>
    \<exists>s'. PBM_SET d s = ok s' \<and> 32 * length s' = 32 * length s \<and> bit_set s' = insert (unat d) (bit_set s)"
  using bit_set_set[of "unat d" s] word_ix[of "unat d" "length s"]
  by (simp add: PBM_SET_def PBM_IX_nat PBM_MASK_bit)

lemma PBM_CLR_ok:
  "unat d < 32 * length s \<Longrightarrow>
    \<exists>s'. PBM_CLR d s = ok s' \<and> 32 * length s' = 32 * length s \<and> bit_set s' = bit_set s - {unat d}"
  using bit_set_clr[of "unat d" s] word_ix[of "unat d" "length s"]
  by (simp add: PBM_CLR_def PBM_IX_nat PBM_MASK_bit)

lemma PBM_ISSET_ok:
  "unat d < 32 * length s \<Longrightarrow> PBM_ISSET d s = ok (unat d \<in> bit_set s)"
  using word_ix[of "unat d" "length s"]
  by (simp add: PBM_ISSET_def PBM_IX_nat PBM_MASK_bit and_mask bit_set_def test_bit_def)

interpretation setb: bit_array "\<lambda>s. 32 * length s" bit_set PBM_SET insert
  by unfold_locales (rule PBM_SET_ok)

interpretation clrb: bit_array "\<lambda>s. 32 * length s" bit_set PBM_CLR "\<lambda>d S. S - {d}"
  by unfold_locales (rule PBM_CLR_ok)


lemma bit_set_inject:
  assumes "length s = length t" "bit_set s = bit_set t"
  shows "s = t"
proof (rule nth_equalityI)
  fix i assume i: "i < length s"
  show "s ! i = t ! i"
  proof (rule bit_word_eqI)
    fix n assume "n < LENGTH(32)"
    moreover have "32 * i + n \<in> bit_set s \<longleftrightarrow> 32 * i + n \<in> bit_set t"
      using assms(2) by simp
    ultimately show "bit (s ! i) n = bit (t ! i) n"
      using i assms(1) by (auto simp: bit_set_def test_bit_def)
  qed
qed (fact assms(1))

lemma bit_set_zeros [simp]: "bit_set (replicate n 0) = {}"
  by (auto simp: bit_set_def test_bit_def word_ix)

section \<open>Two arrays, word by word\<close>

lemma word_loop_from:
  assumes "length bs = length as"
  shows "n \<le> length as \<Longrightarrow> word_loop f bs [length as - n..<length as] as =
    ok (take (length as - n) as @ map2 f (drop (length as - n) as) (drop (length as - n) bs))"
  using assms
proof (induction n arbitrary: as)
  case (Suc n)
  define i where "i = length as - Suc n"
  have i: "i < length as" "length as - n = Suc i"
    using Suc.prems by (auto simp: i_def)
  define as' where "as' = as[i := f (as ! i) (bs ! i)]"
  have "[i..<length as] = i # [length as' - n..<length as']"
    using i by (simp add: as'_def upt_rec)
  then have "word_loop f bs [i..<length as] as = word_loop f bs [length as' - n..<length as'] as'"
    using i Suc.prems by (simp add: as'_def)
  also have "\<dots> = ok (take (Suc i) as' @ map2 f (drop (Suc i) as') (drop (Suc i) bs))"
    using Suc.IH[of as'] Suc.prems i by (simp add: as'_def)
  also have "take (Suc i) as' = take i as @ [f (as ! i) (bs ! i)]"
    using i by (simp add: as'_def take_Suc_conv_app_nth)
  also have "drop (Suc i) as' = drop (Suc i) as"
    by (simp add: as'_def)
  also have "(take i as @ [f (as ! i) (bs ! i)]) @ map2 f (drop (Suc i) as) (drop (Suc i) bs) =
      take i as @ map2 f (drop i as) (drop i bs)"
    using i Suc.prems by (simp add: Cons_nth_drop_Suc [symmetric])
  finally show ?case
    by (simp add: i_def)
qed simp

lemma word_loop_all: "length bs = length as \<Longrightarrow> word_loop f bs [0..<length as] as = ok (map2 f as bs)"
  using word_loop_from[of bs as "length as" f] by simp

lemma bit_set_or: "length bs = length as \<Longrightarrow> bit_set (map2 (OR) as bs) = bit_set as \<union> bit_set bs"
  by (auto simp: bit_set_def test_bit_def bit_or_iff word_ix)

lemma bit_set_and: "length bs = length as \<Longrightarrow> bit_set (map2 (AND) as bs) = bit_set as \<inter> bit_set bs"
  by (auto simp: bit_set_def test_bit_def bit_and_iff word_ix)

section \<open>The filter as a set\<close>

definition bf_wf :: "rpmbf \<Rightarrow> bool" where
  "bf_wf bf \<longleftrightarrow> bf_m bf \<noteq> 0 \<and> length (bf_bits bf) = PBM_IX (bf_m bf - 1) + 1"

definition bf_set :: "rpmbf \<Rightarrow> nat set" where
  "bf_set bf = bit_set (bf_bits bf)"

definition key_ok :: "bool \<Rightarrow> bool \<Rightarrow> nat \<times> u8 list \<times> nat \<Rightarrow> bool" where
  "key_ok le vg key = (case key of (addr, s, ns) \<Rightarrow>
     (case key_length s ns of Inl _ \<Rightarrow> False | Inr n \<Rightarrow> readable le vg addr n \<le> length s))"

definition key_bytes :: "nat \<times> u8 list \<times> nat \<Rightarrow> u8 list" where
  "key_bytes key = (case key of (addr, s, ns) \<Rightarrow>
     (case key_length s ns of Inl _ \<Rightarrow> [] | Inr n \<Rightarrow> take n s))"

definition hash2 :: "u8 list \<Rightarrow> u32 \<times> u32" where
  "hash2 key =
     (let i = JLU3_INIT 0 (length key) in case jlu_ref le_word key (i, i, i + 0) of (a, b, c) \<Rightarrow> (c, b))"

definition probes :: "u64 \<Rightarrow> u64 \<Rightarrow> u8 list \<Rightarrow> nat set" where
  "probes m k key = (case hash2 key of (h0, h1) \<Rightarrow> probe_ix m h0 h1 ` {0..<unat k})"

lemma key_hash:
  assumes "key_ok le vg (addr, s, ns)"
  shows "\<exists>n. key_length s ns = ok n \<and> n = length (key_bytes (addr, s, ns)) \<and>
    jlu32lpair le vg addr (Some s) n 0 0 = ok (hash2 (key_bytes (addr, s, ns)))"
proof -
  obtain n where n: "key_length s ns = ok n" "readable le vg addr n \<le> length s"
    using assms by (auto simp: key_ok_def split: sum.splits)
  then have "length (take n s) = n"
    using readable_ge[of n le vg addr] by simp
  with n show ?thesis
    by (auto simp: key_bytes_def hash2_def jlu32lpair_def Let_def le_paths_ref split: prod.splits)
qed

lemma bf_room:
  assumes "bf_wf bf"
  shows "bf_m bf \<noteq> 0" "unat (bf_m bf) \<le> 32 * length (bf_bits bf)"
proof -
  show m: "bf_m bf \<noteq> 0"
    using assms by (simp add: bf_wf_def)
  then have "unat (bf_m bf - 1) = unat (bf_m bf) - 1" "0 < unat (bf_m bf)"
    by (simp_all add: unat_minus_one unat_gt_0)
  then show "unat (bf_m bf) \<le> 32 * length (bf_bits bf)"
    using assms unfolding bf_wf_def PBM_IX_nat by linarith
qed

lemma fold_insert_set: "fold insert xs S = S \<union> set xs"
  by (induction xs arbitrary: S) auto

lemma fold_remove_set: "fold (\<lambda>d S. S - {d}) xs S = S - set xs"
  by (induction xs arbitrary: S) auto

lemma rpmbfNew_wf:
  assumes "m \<noteq> 0"
  shows "bf_wf (rpmbfNew m k)" "bf_set (rpmbfNew m k) = {}" "bf_m (rpmbfNew m k) = m" "bf_n (rpmbfNew m k) = 0"
  using assms by (simp_all add: bf_wf_def bf_set_def rpmbfNew_def Let_def PBM_ALLOC_def del: replicate.simps replicate_Suc)

text \<open>A filter with the bits \<open>S\<close> and the count \<open>n\<close> in the place of those of \<open>bf\<close>.\<close>

definition bf_with :: "rpmbf \<Rightarrow> nat set \<Rightarrow> u64 \<Rightarrow> rpmbf \<Rightarrow> bool" where
  "bf_with bf S n bf' \<longleftrightarrow>
     bf_wf bf' \<and> bf_m bf' = bf_m bf \<and> bf_k bf' = bf_k bf \<and> bf_set bf' = S \<and> bf_n bf' = n"


lemma set_probes: "hash2 key = (h0, h1) \<Longrightarrow> set (map (probe_ix m h0 h1) [0..<unat k]) = probes m k key"
  by (simp add: probes_def)

lemma add_set:
  assumes "bf_wf bf" "key_ok le vg (addr, s, ns)"
  shows "\<exists>bf'. rpmbfAdd le vg (Some bf) addr s ns = ok (0, Some bf') \<and>
    bf_with bf (bf_set bf \<union> probes (bf_m bf) (bf_k bf) (key_bytes (addr, s, ns))) (bf_n bf + 1) bf'"
proof -
  obtain n where n: "key_length s ns = ok n"
      "jlu32lpair le vg addr (Some s) n 0 0 = ok (hash2 (key_bytes (addr, s, ns)))"
    using key_hash[OF assms(2)] by blast
  obtain h0 h1 where h: "hash2 (key_bytes (addr, s, ns)) = (h0, h1)"
    by (rule prod.exhaust)
  obtain bits where "each_probe PBM_SET (bf_m bf) h0 h1 [0..<unat (bf_k bf)] (bf_bits bf) = ok bits"
      "length bits = length (bf_bits bf)"
      "bit_set bits = bf_set bf \<union> probes (bf_m bf) (bf_k bf) (key_bytes (addr, s, ns))"
    using setb.probes_ok[OF bf_room[OF assms(1)], of h0 h1 "[0..<unat (bf_k bf)]"]
    by (auto simp: fold_insert_set set_probes[OF h] bf_set_def simp del: set_map)
  then show ?thesis
    using n h assms(1) by (simp add: rpmbfAdd_def bf_with_def bf_wf_def bf_set_def)
qed

lemma del_set:
  assumes "bf_wf bf" "key_ok le vg (addr, s, ns)" "key_bytes (addr, s, ns) \<noteq> []"
  shows "\<exists>bf'. rpmbfDel le vg (Some bf) addr s ns = ok (0, Some bf') \<and>
    bf_with bf (bf_set bf - probes (bf_m bf) (bf_k bf) (key_bytes (addr, s, ns)))
      (if bf_n bf = 0 then 0 else bf_n bf - 1) bf'"
proof -
  obtain n where n: "key_length s ns = ok n" "n = length (key_bytes (addr, s, ns))"
      "jlu32lpair le vg addr (Some s) n 0 0 = ok (hash2 (key_bytes (addr, s, ns)))"
    using key_hash[OF assms(2)] by blast
  obtain h0 h1 where h: "hash2 (key_bytes (addr, s, ns)) = (h0, h1)"
    by (rule prod.exhaust)
  obtain bits where "each_probe PBM_CLR (bf_m bf) h0 h1 [0..<unat (bf_k bf)] (bf_bits bf) = ok bits"
      "length bits = length (bf_bits bf)"
      "bit_set bits = bf_set bf - probes (bf_m bf) (bf_k bf) (key_bytes (addr, s, ns))"
    using clrb.probes_ok[OF bf_room[OF assms(1)], of h0 h1 "[0..<unat (bf_k bf)]"]
    by (auto simp: fold_remove_set set_probes[OF h] bf_set_def simp del: set_map)
  then show ?thesis
    using n h assms(1,3) by (simp add: rpmbfDel_def bf_with_def bf_wf_def bf_set_def)
qed

lemma chk_loop_set:
  assumes "bf_wf bf"
  shows "chk_loop (bf_m bf) h0 h1 is (bf_bits bf) =
    ok (if probe_ix (bf_m bf) h0 h1 ` set is \<subseteq> bf_set bf then 1 else 0)"
proof (induction "is")
  case (Cons i "is")
  obtain ix where ix: "probe (bf_m bf) h0 h1 i = ok ix" "unat ix = probe_ix (bf_m bf) h0 h1 i"
    using probe_eq[OF bf_room(1)[OF assms]] by blast
  then have "unat ix < 32 * length (bf_bits bf)"
    using probe_ix_less[OF bf_room(1)[OF assms], of h0 h1 i] bf_room(2)[OF assms] by simp
  with ix Cons show ?case
    by (simp add: PBM_ISSET_ok bf_set_def)
qed simp

lemma chk_set:
  assumes "bf_wf bf" "key_ok le vg (addr, s, ns)"
  shows "rpmbfChk le vg (Some bf) addr s ns =
    ok (if probes (bf_m bf) (bf_k bf) (key_bytes (addr, s, ns)) \<subseteq> bf_set bf then 1 else 0)"
proof -
  obtain n where n: "key_length s ns = ok n"
      "jlu32lpair le vg addr (Some s) n 0 0 = ok (hash2 (key_bytes (addr, s, ns)))"
    using key_hash[OF assms(2)] by blast
  obtain h0 h1 where h: "hash2 (key_bytes (addr, s, ns)) = (h0, h1)"
    by (rule prod.exhaust)
  show ?thesis
    using n h by (simp add: rpmbfChk_def chk_loop_set[OF assms(1)] probes_def)
qed

lemma clr_set:
  assumes "bf_wf bf"
  shows "\<exists>bf'. rpmbfClr (Some bf) = ok (0, Some bf') \<and> bf_with bf {} 0 bf'"
  using assms
  by (simp add: rpmbfClr_def clear_words_def bf_with_def bf_wf_def bf_set_def del: replicate.simps replicate_Suc)

lemma union_set:
  assumes "bf_wf a" "bf_wf b" "bf_m a = bf_m b" "bf_k a = bf_k b"
  shows "\<exists>c. rpmbfUnion (Some a) (Some b) = ok (0, Some c) \<and> bf_with a (bf_set a \<union> bf_set b) (bf_n a + bf_n b) c"
  using assms word_loop_all[of "bf_bits b" "bf_bits a" "(OR)"]
  by (simp add: rpmbfUnion_def bf_with_def bf_wf_def bf_set_def bit_set_or del: upt_Suc)

lemma intersect_set:
  assumes "bf_wf a" "bf_wf b" "bf_m a = bf_m b" "bf_k a = bf_k b"
  shows "\<exists>c. rpmbfIntersect (Some a) (Some b) = ok (0, Some c) \<and> bf_with a (bf_set a \<inter> bf_set b) 1 c"
  using assms word_loop_all[of "bf_bits b" "bf_bits a" "(AND)"]
  by (simp add: rpmbfIntersect_def bf_with_def bf_wf_def bf_set_def bit_set_and del: upt_Suc)

lemma bf_with_inject: "bf_with bf S n x \<Longrightarrow> bf_with bf S n y \<Longrightarrow> x = y"
  by (rule rpmbf.equality) (auto simp: bf_with_def bf_wf_def bf_set_def intro: bit_set_inject)

section \<open>Filters filled with keys\<close>

fun bf_fill :: "bool \<Rightarrow> bool \<Rightarrow> rpmbf option \<Rightarrow> (nat \<times> u8 list \<times> nat) list \<Rightarrow> rpmbf option outcome" where
  "bf_fill le vg bf [] = ok bf"
| "bf_fill le vg bf ((addr, s, ns) # keys) =
     andThen (rpmbfAdd le vg bf addr s ns) (\<lambda>(_, bf). bf_fill le vg bf keys)"

lemma bf_fill_set:
  "bf_wf bf \<Longrightarrow> \<forall>key\<in>set keys. key_ok le vg key \<Longrightarrow>
   \<exists>bf'. bf_fill le vg (Some bf) keys = ok (Some bf') \<and>
     bf_with bf (bf_set bf \<union> (\<Union>key\<in>set keys. probes (bf_m bf) (bf_k bf) (key_bytes key)))
       (bf_n bf + of_nat (length keys)) bf'"
proof (induction keys arbitrary: bf)
  case Nil
  then show ?case
    by (simp add: bf_with_def)
next
  case (Cons key keys)
  obtain addr s ns where key: "key = (addr, s, ns)"
    by (rule prod_cases3)
  obtain bf1 where bf1: "rpmbfAdd le vg (Some bf) addr s ns = ok (0, Some bf1)"
      "bf_with bf (bf_set bf \<union> probes (bf_m bf) (bf_k bf) (key_bytes key)) (bf_n bf + 1) bf1"
    using add_set[of bf le vg addr s ns] Cons.prems key by auto
  then obtain bf2 where bf2: "bf_fill le vg (Some bf1) keys = ok (Some bf2)"
      "bf_with bf1 (bf_set bf1 \<union> (\<Union>key\<in>set keys. probes (bf_m bf1) (bf_k bf1) (key_bytes key)))
        (bf_n bf1 + of_nat (length keys)) bf2"
    using Cons.IH[of bf1] Cons.prems by (auto simp: bf_with_def)
  with bf1 show ?case
    by (simp add: key bf_with_def Un_assoc add.assoc)
qed

section \<open>Properties\<close>

text \<open>C33: A filter is the set of its bits: adding a key adds its probes, deleting a key removes them,
  clearing empties the set, the union and the intersection of two filters of one shape are those of
  the sets, filters of different shapes are left alone with -1, and a check says 1 exactly when all
  probes of the key are in the set. Each keeps the shape and the size of the array, and none reads or
  writes outside it.\<close>

theorem rpmbf_refines_set:
  assumes "bf_wf bf" "bf_wf bf2" "key_ok le vg (addr, s, ns)"
  defines "ps \<equiv> probes (bf_m bf) (bf_k bf) (key_bytes (addr, s, ns))"
  shows "(\<exists>bf'. rpmbfAdd le vg (Some bf) addr s ns = ok (0, Some bf') \<and>
            bf_with bf (bf_set bf \<union> ps) (bf_n bf + 1) bf') \<and>
         rpmbfChk le vg (Some bf) addr s ns = ok (if ps \<subseteq> bf_set bf then 1 else 0) \<and>
         (if key_bytes (addr, s, ns) = [] then rpmbfDel le vg (Some bf) addr s ns = Inl AssertFail
          else \<exists>bf'. rpmbfDel le vg (Some bf) addr s ns = ok (0, Some bf') \<and>
            bf_with bf (bf_set bf - ps) (if bf_n bf = 0 then 0 else bf_n bf - 1) bf') \<and>
         (\<exists>bf'. rpmbfClr (Some bf) = ok (0, Some bf') \<and> bf_with bf {} 0 bf') \<and>
         (if bf_m bf = bf_m bf2 \<and> bf_k bf = bf_k bf2
          then (\<exists>c. rpmbfUnion (Some bf) (Some bf2) = ok (0, Some c) \<and>
                  bf_with bf (bf_set bf \<union> bf_set bf2) (bf_n bf + bf_n bf2) c) \<and>
               (\<exists>c. rpmbfIntersect (Some bf) (Some bf2) = ok (0, Some c) \<and>
                  bf_with bf (bf_set bf \<inter> bf_set bf2) 1 c)
          else rpmbfUnion (Some bf) (Some bf2) = ok (-1, Some bf) \<and>
               rpmbfIntersect (Some bf) (Some bf2) = ok (-1, Some bf))"
proof -
  have "key_bytes (addr, s, ns) = [] \<Longrightarrow> rpmbfDel le vg (Some bf) addr s ns = Inl AssertFail"
    using key_hash[OF assms(3)] by (auto simp: rpmbfDel_def)
  moreover have "\<not> (bf_m bf = bf_m bf2 \<and> bf_k bf = bf_k bf2) \<Longrightarrow>
      rpmbfUnion (Some bf) (Some bf2) = ok (-1, Some bf) \<and> rpmbfIntersect (Some bf) (Some bf2) = ok (-1, Some bf)"
    by (auto simp: rpmbfUnion_def rpmbfIntersect_def)
  ultimately show ?thesis
    unfolding ps_def
    using add_set[OF assms(1,3)] chk_set[OF assms(1,3)] del_set[OF assms(1,3)] clr_set[OF assms(1)]
      union_set[OF assms(1,2)] intersect_set[OF assms(1,2)]
    by presburger
qed


lemma demo_keys:
  "key_ok True False (4096, [97, 98, 99, 0], 0)" "key_ok True False (4098, [97, 98, 99], 3)"
  "key_bytes (4096, [97, 98, 99, 0], 0) = [97, 98, 99]" "key_bytes (4098, [97, 98, 99], 3) = [97, 98, 99]"
  by (simp_all add: key_ok_def key_bytes_def key_length_def readable_def round4_def)

theorem rpmbf_refines_set_witness:
  "\<exists>bf'. rpmbfAdd True False (Some (rpmbfNew 64 2)) 4096 [97, 98, 99, 0] 0 = ok (0, Some bf') \<and>
     bf_with (rpmbfNew 64 2) (probes 64 2 [97, 98, 99]) 1 bf'"
proof -
  have "bf_k (rpmbfNew 64 2) = 2"
    by (simp add: rpmbfNew_def)
  then show ?thesis
    using rpmbf_refines_set[of "rpmbfNew 64 2" "rpmbfNew 64 2" True False 4096 "[97, 98, 99, 0]" 0]
    by (simp add: rpmbfNew_wf demo_keys)
qed

text \<open>C32: A filter never denies a key that was added to it: after any keys are added to a new filter,
  none of the additions fails, the population estimate is their number, and the check of any key with
  the bytes of one of them says 1, whatever the address it is read from and the machine.\<close>

theorem rpmbf_no_false_negative:
  assumes "m \<noteq> 0" "\<forall>key\<in>set keys. key_ok le vg key"
    and "key_ok le' vg' (addr, s, ns)" "key_bytes (addr, s, ns) \<in> key_bytes ` set keys"
  shows "\<exists>bf. bf_fill le vg (Some (rpmbfNew m k)) keys = ok (Some bf) \<and>
    bf_n bf = of_nat (length keys) \<and> rpmbfChk le' vg' (Some bf) addr s ns = ok 1"
proof -
  obtain bf where bf: "bf_fill le vg (Some (rpmbfNew m k)) keys = ok (Some bf)"
      "bf_with (rpmbfNew m k) (bf_set (rpmbfNew m k) \<union>
        (\<Union>key\<in>set keys. probes (bf_m (rpmbfNew m k)) (bf_k (rpmbfNew m k)) (key_bytes key)))
        (bf_n (rpmbfNew m k) + of_nat (length keys)) bf"
    using bf_fill_set[OF rpmbfNew_wf(1)[OF assms(1)] assms(2)] by blast
  then have "probes (bf_m bf) (bf_k bf) (key_bytes (addr, s, ns)) \<subseteq> bf_set bf" "bf_wf bf"
    using assms(4) by (auto simp: bf_with_def)
  then show ?thesis
    using bf chk_set[OF _ assms(3)] by (auto simp: bf_with_def rpmbfNew_wf[OF assms(1)])
qed

theorem rpmbf_no_false_negative_witness:
  "\<exists>bf. bf_fill True False (Some (rpmbfNew 64 2)) [(4096, [97, 98, 99, 0], 0), (4098, [97, 98, 99], 3)] = ok (Some bf) \<and>
     bf_n bf = 2 \<and> rpmbfChk True False (Some bf) 4098 [97, 98, 99] 3 = ok 1"
  using rpmbf_no_false_negative[of 64 "[(4096, [97, 98, 99, 0], 0), (4098, [97, 98, 99], 3)]" True False
      True False 4098 "[97, 98, 99]" 3 2]
  by (simp add: demo_keys)

text \<open>The union of the filters of two lists of keys is, bit for bit and in its count, the filter
  of both lists.\<close>

theorem rpmbfUnion_of_fills:
  assumes "m \<noteq> 0" "\<forall>key\<in>set xs. key_ok le vg key" "\<forall>key\<in>set ys. key_ok le vg key"
  shows "\<exists>a b c. bf_fill le vg (Some (rpmbfNew m k)) xs = ok (Some a) \<and>
    bf_fill le vg (Some (rpmbfNew m k)) ys = ok (Some b) \<and>
    rpmbfUnion (Some a) (Some b) = ok (0, Some c) \<and>
    bf_fill le vg (Some (rpmbfNew m k)) (xs @ ys) = ok (Some c)"
proof -
  let ?new = "rpmbfNew m k" and ?ps = "\<lambda>zs. \<Union>key\<in>set zs. probes m (bf_k (rpmbfNew m k)) (key_bytes key)"
  have fill: "\<exists>bf. bf_fill le vg (Some ?new) zs = ok (Some bf) \<and> bf_with ?new (?ps zs) (of_nat (length zs)) bf"
    if "\<forall>key\<in>set zs. key_ok le vg key" for zs
    using bf_fill_set[OF rpmbfNew_wf(1)[OF assms(1)] that] by (simp add: rpmbfNew_wf[OF assms(1)])
  obtain a b where a: "bf_fill le vg (Some ?new) xs = ok (Some a)" "bf_with ?new (?ps xs) (of_nat (length xs)) a"
      and b: "bf_fill le vg (Some ?new) ys = ok (Some b)" "bf_with ?new (?ps ys) (of_nat (length ys)) b"
    using fill[OF assms(2)] fill[OF assms(3)] by blast
  obtain d where d: "bf_fill le vg (Some ?new) (xs @ ys) = ok (Some d)"
      "bf_with ?new (?ps (xs @ ys)) (of_nat (length (xs @ ys))) d"
    using fill[of "xs @ ys"] assms by auto
  obtain c where c: "rpmbfUnion (Some a) (Some b) = ok (0, Some c)"
      "bf_with a (bf_set a \<union> bf_set b) (bf_n a + bf_n b) c"
    using union_set[of a b] a(2) b(2) by (auto simp: bf_with_def)
  then have "bf_with ?new (?ps (xs @ ys)) (of_nat (length (xs @ ys))) c"
    using a(2) b(2) by (simp add: bf_with_def UN_Un)
  then have "c = d"
    using bf_with_inject[OF _ d(2)] by blast
  then show ?thesis
    using a(1) b(1) c(1) d(1) by blast
qed

theorem rpmbfUnion_of_fills_witness:
  "\<exists>a b c. bf_fill True False (Some (rpmbfNew 64 2)) [(4096, [97, 98, 99, 0], 0)] = ok (Some a) \<and>
     bf_fill True False (Some (rpmbfNew 64 2)) [(4098, [97, 98, 99], 3)] = ok (Some b) \<and>
     rpmbfUnion (Some a) (Some b) = ok (0, Some c) \<and>
     bf_fill True False (Some (rpmbfNew 64 2)) [(4096, [97, 98, 99, 0], 0), (4098, [97, 98, 99], 3)] = ok (Some c)"
  using rpmbfUnion_of_fills[of 64 "[(4096, [97, 98, 99, 0], 0)]" True False "[(4098, [97, 98, 99], 3)]" 2]
  by (simp add: demo_keys)

end
