(* ===== verification/Rpmal.thy ===== *)
theory Rpmal
  imports Ds Bloom
begin

text \<open>
  Available packages, \<open>lib/rpmal.c\<close>: the packages of a transaction with an index of what they
  provide, sorted by the lengths of the names and then by the names, which finds the packages that
  satisfy a dependency. A dependency on a path is first looked up in the Bloom filters of the file
  names of the packages.

  The list has a slot for every allocated package. The index is the array of its entries that
  have been written, so that the field \<open>k\<close> is its length; \<open>al_isize\<close> is its size. A package key
  is its number, \<open>RPMAL_NOMATCH\<close> is -1. The key of the caller, a pointer, is a number or null.
  The filter of a package stands for \<open>rpmfiFNBF\<close> of its file info. A set of provides that is
  shared by reference with its package has its position changed there too; nothing relies on the
  position of such a set. The field \<open>type\<close> of an entry has one value only.
\<close>

section \<open>Packages\<close>

type_synonym fnpyKey = "nat option"

record availablePackage =
  alp_provides :: "rpmds option"
  alp_bf :: "rpmbf option"
  alp_tscolor :: u32
  alp_key :: fnpyKey

record availableIndexEntry =
  aie_pkgKey :: int
  aie_entry :: string
  aie_entryLen :: nat
  aie_entryIx :: nat

record rpmal =
  al_list :: "availablePackage list"
  al_index :: "availableIndexEntry list option"
  al_isize :: nat
  al_delta :: nat
  al_size :: nat

text \<open>The byte order, the build, and where a string lies: the hash function of the filters has
  different loops for them.\<close>

record almach =
  am_le :: bool
  am_vg :: bool
  am_addr :: "string \<Rightarrow> nat"

definition RPMAL_NOMATCH :: int where
  "RPMAL_NOMATCH = -1"

definition alp_zero :: availablePackage where
  "alp_zero = \<lparr>alp_provides = None, alp_bf = None, alp_tscolor = 0, alp_key = None\<rparr>"

definition rpmalNew :: "nat \<Rightarrow> rpmal" where
  "rpmalNew delta =
     \<lparr>al_list = replicate delta alp_zero, al_index = None, al_isize = 0, al_delta = delta, al_size = 0\<rparr>"

definition rpmalFreeIndex :: "rpmal \<Rightarrow> rpmal" where
  "rpmalFreeIndex al = (if al_isize al > 0 then al\<lparr>al_index := None, al_isize := 0\<rparr> else al)"

definition rpmalDel :: "rpmal \<Rightarrow> int \<Rightarrow> rpmal outcome" where
  "rpmalDel al pkgKey = andThen (put_slot (al_list al) pkgKey alp_zero) (\<lambda>l. ok (al\<lparr>al_list := l\<rparr>))"

text \<open>A key in use replaces its package, any other adds one.\<close>

definition rpmalAdd ::
  "rpmal option \<Rightarrow> int \<Rightarrow> fnpyKey \<Rightarrow> rpmds option \<Rightarrow> rpmbf option \<Rightarrow> u32 \<Rightarrow> (rpmal \<times> int) outcome" where
  "rpmalAdd alist pkgKey key provides bf tscolor =
     (let al = (case alist of None \<Rightarrow> rpmalNew 5 | Some al \<Rightarrow> al) in
      andThen
        (if 0 \<le> pkgKey \<and> pkgKey < int (al_size al) then andThen (rpmalDel al pkgKey) (\<lambda>al. ok (al, pkgKey))
         else
           let l = (if al_size al = length (al_list al) then al_list al @ replicate (al_delta al) alp_zero
                    else al_list al) in
           ok (al\<lparr>al_list := l, al_size := Suc (al_size al)\<rparr>, int (al_size al)))
        (\<lambda>(al, pkgNum).
          andThen (put_slot (al_list al) pkgNum
                     \<lparr>alp_provides = provides, alp_bf = bf, alp_tscolor = tscolor, alp_key = key\<rparr>)
            (\<lambda>l. ok (rpmalFreeIndex (al\<lparr>al_list := l\<rparr>), pkgNum))))"

section \<open>The index\<close>

definition entry_len :: "string \<Rightarrow> nat" where
  "entry_len s = length s mod 65536"

definition indexcmp :: "availableIndexEntry \<Rightarrow> availableIndexEntry \<Rightarrow> int" where
  "indexcmp a b =
     (let lenchk = int (aie_entryLen a) - int (aie_entryLen b) in
      if lenchk \<noteq> 0 then lenchk else strcmp (aie_entry a) (aie_entry b))"

text \<open>One element of a set: a provide whose color is not one of the transaction is ignored.\<close>

definition out_of_rainbow :: "u32 \<Rightarrow> u32 \<Rightarrow> bool" where
  "out_of_rainbow tscolor dscolor \<longleftrightarrow> tscolor \<noteq> 0 \<and> dscolor \<noteq> 0 \<and> tscolor AND dscolor = 0"

definition add_provide ::
  "u32 \<Rightarrow> int \<Rightarrow> nat \<Rightarrow> rpmds \<Rightarrow> availableIndexEntry list \<Rightarrow> (availableIndexEntry list \<times> bool) outcome" where
  "add_provide tscolor pkgKey room P ix =
     andThen (slot (ds_N P) (ds_i P)) (\<lambda>Name.
       case Name of
         None \<Rightarrow> ok (ix, False)
       | Some n \<Rightarrow>
           andThen (rpmdsColor (Some P)) (\<lambda>dscolor.
             if out_of_rainbow tscolor dscolor then ok (ix, False)
             else
               guardC BufferOverflow (length ix < room)
               (guardC AssertFail (rpmdsIx (Some P) < 65536)
               (ok (ix @ [\<lparr>aie_pkgKey = pkgKey, aie_entry = n, aie_entryLen = entry_len n,
                           aie_entryIx = nat (rpmdsIx (Some P))\<rparr>], False)))))"

definition rpmalAddProvides ::
  "dsenv \<Rightarrow> rpmal \<Rightarrow> int \<Rightarrow> rpmds option \<Rightarrow> u32 \<Rightarrow> (rpmal \<times> rpmds option) outcome" where
  "rpmalAddProvides e al pkgKey provides tscolor =
     (case (provides, al_index al) of
        (Some P, Some ix) \<Rightarrow>
          if 0 \<le> pkgKey \<and> pkgKey < int (al_size al) \<and> length ix < al_isize al then
            andThen (rpmdsEach e (add_provide tscolor pkgKey (al_isize al)) (rpmdsInit P) ix)
              (\<lambda>(P, ix). ok (al\<lparr>al_index := Some ix\<rparr>, Some P))
          else ok (al, provides)
      | _ \<Rightarrow> ok (al, provides))"

fun index_packages :: "dsenv \<Rightarrow> nat list \<Rightarrow> rpmal \<Rightarrow> rpmal outcome" where
  "index_packages e [] al = ok al"
| "index_packages e (i # is) al =
     andThen (slot (al_list al) (int i)) (\<lambda>alp.
     andThen (rpmalAddProvides e al (int i) (alp_provides alp) (alp_tscolor alp)) (\<lambda>(al, P).
       index_packages e is (al\<lparr>al_list := (al_list al)[i := alp\<lparr>alp_provides := P\<rparr>]\<rparr>)))"

definition rpmalMakeIndex :: "dsenv \<Rightarrow> rpmal \<Rightarrow> rpmal outcome" where
  "rpmalMakeIndex e al =
     (let n = sum_list (map (\<lambda>alp. rpmdsCount (alp_provides alp)) (take (al_size al) (al_list al))) in
      if n = 0 then ok (al\<lparr>al_isize := 0\<rparr>)
      else
        andThen (index_packages e [0..<al_size al] (al\<lparr>al_isize := n, al_index := Some []\<rparr>)) (\<lambda>al.
        andThen (nonnull (al_index al)) (\<lambda>ix.
          ok (al\<lparr>al_isize := length ix, al_index := Some (qsort indexcmp ix)\<rparr>))))"

section \<open>Looking up a path\<close>

definition str_bytes :: "string \<Rightarrow> u8 list" where
  "str_bytes s = map of_char s @ [0]"

text \<open>For a package without a filter \<open>rpmbfChk\<close> says -1, which is not 0.\<close>

definition file_satisfies :: "almach \<Rightarrow> string \<Rightarrow> availablePackage \<Rightarrow> bool outcome" where
  "file_satisfies m fn alp =
     andThen (rpmbfChk (am_le m) (am_vg m) (alp_bf alp) (am_addr m fn) (str_bytes fn) (length fn))
       (\<lambda>c. ok (c \<noteq> 0))"

fun all_files ::
  "almach \<Rightarrow> string \<Rightarrow> nat \<Rightarrow> availablePackage list \<Rightarrow> fnpyKey list \<Rightarrow> int \<Rightarrow> (fnpyKey list \<times> int) outcome" where
  "all_files m fn i [] ret key = ok (ret, key)"
| "all_files m fn i (alp # alps) ret key =
     andThen (file_satisfies m fn alp) (\<lambda>b.
       if b then all_files m fn (Suc i) alps (ret @ [alp_key alp]) (int i)
       else all_files m fn (Suc i) alps ret key)"

definition is_path :: "string \<Rightarrow> bool" where
  "is_path s \<longleftrightarrow> s \<noteq> [] \<and> hd s = CHR ''/''"

definition rpmalAllFileSatisfiesDepend ::
  "dsenv \<Rightarrow> almach \<Rightarrow> rpmal option \<Rightarrow> rpmds option \<Rightarrow> (rpmds option \<times> fnpyKey list \<times> int) outcome" where
  "rpmalAllFileSatisfiesDepend e m al ds =
     (case al of
        None \<Rightarrow> ok (ds, [], RPMAL_NOMATCH)
      | Some al \<Rightarrow>
          andThen (rpmdsN e ds) (\<lambda>(ds, N).
            case N of
              None \<Rightarrow> ok (ds, [], RPMAL_NOMATCH)
            | Some fn \<Rightarrow>
                if is_path fn then
                  andThen (all_files m fn 0 (take (al_size al) (al_list al)) [] RPMAL_NOMATCH)
                    (\<lambda>(ret, key). ok (ds, ret, key))
                else ok (ds, [], RPMAL_NOMATCH)))"

section \<open>Looking up a name\<close>

definition index_needle :: "string \<Rightarrow> availableIndexEntry" where
  "index_needle n = \<lparr>aie_pkgKey = 0, aie_entry = n, aie_entryLen = entry_len n, aie_entryIx = 0\<rparr>"

text \<open>Back to the first entry that compares equal.\<close>

fun rewind :: "availableIndexEntry list \<Rightarrow> availableIndexEntry \<Rightarrow> nat \<Rightarrow> nat" where
  "rewind ix needle 0 = 0"
| "rewind ix needle (Suc k) = (if indexcmp (ix ! k) needle = 0 then rewind ix needle k else Suc k)"

definition provide_matches :: "dsenv \<Rightarrow> rpmds \<Rightarrow> rpmds option \<Rightarrow> nat \<Rightarrow> (rpmds option \<times> bool) outcome" where
  "provide_matches e ds provides ix =
     (case fst (rpmdsSetIx provides (int ix - 1)) of
        None \<Rightarrow> ok (None, False)
      | Some P \<Rightarrow>
          andThen (rpmdsNext e P) (\<lambda>(P, i).
            if i \<ge> 0 then andThen (rpmdsCompare e P ds) (\<lambda>rc. ok (Some P, rc)) else ok (Some P, False)))"

fun match_loop ::
  "dsenv \<Rightarrow> rpmds \<Rightarrow> availableIndexEntry \<Rightarrow> availableIndexEntry list \<Rightarrow> availablePackage list \<Rightarrow>
   fnpyKey list \<Rightarrow> int \<Rightarrow> (availablePackage list \<times> fnpyKey list \<times> int) outcome" where
  "match_loop e ds needle [] pkgs ret key = ok (pkgs, ret, key)"
| "match_loop e ds needle (a # as) pkgs ret key =
     (if indexcmp a needle \<noteq> 0 then ok (pkgs, ret, key)
      else
        andThen (slot pkgs (aie_pkgKey a)) (\<lambda>alp.
        andThen (provide_matches e ds (alp_provides alp) (aie_entryIx a)) (\<lambda>(P, rc).
          let pkgs = pkgs[nat (aie_pkgKey a) := alp\<lparr>alp_provides := P\<rparr>] in
          if rc then match_loop e ds needle as pkgs (ret @ [alp_key alp]) (aie_pkgKey a)
          else match_loop e ds needle as pkgs ret key)))"

definition provides_satisfy ::
  "dsenv \<Rightarrow> rpmal \<Rightarrow> rpmds \<Rightarrow> string \<Rightarrow> int \<Rightarrow> (rpmal \<times> fnpyKey list \<times> int) outcome" where
  "provides_satisfy e al ds KName key =
     (case al_index al of
        None \<Rightarrow> ok (al, [], key)
      | Some ix \<Rightarrow>
          let needle = index_needle KName; ix = take (al_isize al) ix in
          if al_isize al = 0 then ok (al, [], key)
          else
            case bsearch indexcmp needle ix of
              None \<Rightarrow> ok (al, [], key)
            | Some i \<Rightarrow>
                andThen (match_loop e ds needle (drop (rewind ix needle i) ix) (al_list al) [] key)
                  (\<lambda>(pkgs, ret, key). ok (al\<lparr>al_list := pkgs\<rparr>, ret, key)))"

definition rpmalAllSatisfiesDepend ::
  "dsenv \<Rightarrow> almach \<Rightarrow> rpmal option \<Rightarrow> rpmds option \<Rightarrow>
   (rpmal option \<times> rpmds option \<times> fnpyKey list \<times> int) outcome" where
  "rpmalAllSatisfiesDepend e m al ds =
     (case (al, ds) of
        (Some al, Some _) \<Rightarrow>
          andThen (rpmdsN e ds) (\<lambda>(ds, N).
            case N of
              None \<Rightarrow> ok (Some al, ds, [], RPMAL_NOMATCH)
            | Some KName \<Rightarrow>
                andThen (if is_path KName then rpmalAllFileSatisfiesDepend e m (Some al) ds
                         else ok (ds, [], RPMAL_NOMATCH)) (\<lambda>(ds, ret, key).
                  if ret \<noteq> [] \<and> hd ret \<noteq> None then ok (Some al, ds, ret, key)
                  else
                    andThen (nonnull ds) (\<lambda>d.
                    andThen (provides_satisfy e al d KName key) (\<lambda>(al, ret, key).
                      ok (Some al, ds, ret, key)))))
      | _ \<Rightarrow> ok (al, ds, [], RPMAL_NOMATCH))"

text \<open>The key of the first package found, and the number of the last one.\<close>

definition rpmalSatisfiesDepend ::
  "dsenv \<Rightarrow> almach \<Rightarrow> rpmal option \<Rightarrow> rpmds option \<Rightarrow>
   (rpmal option \<times> rpmds option \<times> fnpyKey \<times> int) outcome" where
  "rpmalSatisfiesDepend e m al ds =
     andThen (rpmalAllSatisfiesDepend e m al ds) (\<lambda>(al, ds, tmp, key).
       ok (al, ds, case tmp of [] \<Rightarrow> None | k # _ \<Rightarrow> k, key))"

end
