(* ===== verification/Order.thy ===== *)
theory Order
  imports Rpmal
begin

text \<open>
  The order of a transaction, \<open>lib/order.c\<close>: the function that \<open>rpmtsOrder\<close> points to,
  \<open>_rpmtsOrder\<close>, without the parts under \<open>REFERENCE\<close>. Packages are sorted topologically by
  their requirements; where a dependency loop stops the sort, relations of the loop are removed
  and the sort goes on, up to a hundred times.

  A transaction element is its index into \<open>ts->order\<close>. The queue that the code links through
  \<open>tsi_suc\<close> is a list, and \<open>qlen\<close> its length. The pending calls of the recursive \<open>markLoop\<close> are a
  list of pairs. The iterator \<open>rpmtsi\<close> visits the indices in order; the type mask \<open>oType\<close> of
  the sort is always 0, which takes all elements. Log messages, the timers and the sum of the
  file sizes, which is only logged, are not part of the state. The file info of an element is
  represented by its Bloom filter. The dependency sets of an element are read only: every loop over one
  starts with \<open>rpmdsInit\<close>, and the position that it leaves in the set is not kept.
\<close>

section \<open>Elements and relations\<close>

datatype rpmElementType = TR_ADDED | TR_REMOVED

record trel =
  rel_suc :: nat
  rel_tagn :: nat
  rel_reqx :: int

record tsortInfo =
  tsi_next :: "trel list"
  tsi_chain :: "nat option"
  tsi_queued :: int
  tsi_count :: int
  tsi_qcnt :: int

record rpmte =
  te_type :: rpmElementType
  te_name :: string
  te_color :: u32
  te_PRCO :: "rpmPRCO option"
  te_bf :: "rpmbf option"
  te_pkgid :: "string option"
  te_flink :: "string list"
  te_addedKey :: int
  te_npreds :: int
  te_tree :: int
  te_depth :: int
  te_breadth :: int
  te_degree :: int
  te_parent :: "nat option"
  te_tsi :: tsortInfo

record rpmts =
  ts_order :: "rpmte list"
  ts_numAdded :: int
  ts_added :: "rpmal option"
  ts_erased :: "rpmal option"
  ts_color :: u32
  ts_prefcolor :: u32
  ts_anaconda :: bool
  ts_maxDepth :: int
  ts_ntrees :: int
  ts_unordered :: int

text \<open>The parts of the system: the environment of dependency sets, the machine, and
  \<open>poptParseArgvString\<close>.\<close>

record ordenv =
  oe_ds :: dsenv
  oe_mach :: almach
  oe_words :: "string \<Rightarrow> string list option"

definition tsi_zero :: tsortInfo where
  "tsi_zero = \<lparr>tsi_next = [], tsi_chain = None, tsi_queued = 0, tsi_count = 0, tsi_qcnt = 0\<rparr>"

definition rpmteDS :: "rpmte \<Rightarrow> nat \<Rightarrow> rpmds option" where
  "rpmteDS te tag = rpmdsFromPRCO (te_PRCO te) tag"

definition rpmteTSI :: "rpmte list \<Rightarrow> nat \<Rightarrow> tsortInfo" where
  "rpmteTSI tes i = te_tsi (tes ! i)"

definition set_te :: "nat \<Rightarrow> (rpmte \<Rightarrow> rpmte) \<Rightarrow> rpmte list \<Rightarrow> rpmte list" where
  "set_te i f tes = tes[i := f (tes ! i)]"

definition set_tsi :: "nat \<Rightarrow> (tsortInfo \<Rightarrow> tsortInfo) \<Rightarrow> rpmte list \<Rightarrow> rpmte list" where
  "set_tsi i f tes = set_te i (\<lambda>te. te\<lparr>te_tsi := f (te_tsi te)\<rparr>) tes"

section \<open>Recording relations\<close>

text \<open>The pairs \<open>pname>qname\<close> of the macro \<open>_dependency_whiteout\<close>; the list ends at a word without
  the separator.\<close>

definition badDep :: "string \<Rightarrow> string \<times> string option" where
  "badDep w = (takeWhile (\<lambda>c. c \<noteq> CHR ''>'') w, map_option tl (strchr w (CHR ''>'')))"

definition badDeps :: "ordenv \<Rightarrow> (string \<times> string option) list" where
  "badDeps E =
     (let s = rpmExpand (oe_ds E) ''%{?_dependency_whiteout}'' in
      if s = [] then [] else case oe_words E s of None \<Rightarrow> [] | Some av \<Rightarrow> map badDep av)"

fun ignoreDep :: "(string \<times> string option) list \<Rightarrow> string \<Rightarrow> string \<Rightarrow> bool" where
  "ignoreDep [] pN qN = False"
| "ignoreDep ((pname, None) # bad) pN qN = False"
| "ignoreDep ((pname, Some qname) # bad) pN qN =
     (strcmp pN pname = 0 \<and> strcmp qN qname = 0 \<or> ignoreDep bad pN qN)"

definition ignored_ns :: "nsType \<Rightarrow> bool" where
  "ignored_ns t \<longleftrightarrow>
     t \<in> {NS_RPMLIB, NS_CONFIG, NS_CPUINFO, NS_GETCONF, NS_UNAME, NS_SONAME, NS_ACCESS, NS_USER, NS_GROUP,
          NS_MOUNTED, NS_DISKSPACE, NS_DIGEST, NS_GNUPG, NS_MACRO, NS_ENVVAR, NS_RUNNING, NS_SANITY,
          NS_VCHECK, NS_SIGNATURE}"

fun find_added :: "int \<Rightarrow> rpmte list \<Rightarrow> nat option" where
  "find_added key [] = None"
| "find_added key (te # tes) = (if te_addedKey te = key then Some 0 else map_option Suc (find_added key tes))"

text \<open>Relation "q <- p": \<open>p\<close> requires \<open>q\<close>.\<close>

definition record_relation :: "nat \<Rightarrow> nat \<Rightarrow> rpmds \<Rightarrow> rpmts \<Rightarrow> rpmts" where
  "record_relation p q requires ts =
     (let tes = set_tsi p (\<lambda>t. t\<lparr>tsi_count := tsi_count t + 1\<rparr>) (ts_order ts);
          tes = (if te_depth (tes ! p) \<le> te_depth (tes ! q)
                 then set_te p (\<lambda>te. te\<lparr>te_depth := te_depth (tes ! q) + 1\<rparr>) tes else tes);
          maxd = (if te_depth (tes ! p) > ts_maxDepth ts then te_depth (tes ! p) else ts_maxDepth ts);
          r = \<lparr>rel_suc = p, rel_tagn = rpmdsTagN (Some requires), rel_reqx = rpmdsIx (Some requires)\<rparr>;
          tes = set_tsi q (\<lambda>t. t\<lparr>tsi_next := r # tsi_next t, tsi_qcnt := tsi_qcnt t + 1\<rparr>) tes in
      ts\<lparr>ts_order := tes, ts_maxDepth := maxd\<rparr>)"

text \<open>\<open>er\<close>: search the erased packages, not the added ones. \<open>selected\<close> marks the elements to which
  \<open>p\<close> already has a relation.\<close>

definition addRelation ::
  "ordenv \<Rightarrow> (string \<times> string option) list \<Rightarrow> bool \<Rightarrow> nat \<Rightarrow> rpmds \<Rightarrow> rpmts \<times> bool list \<Rightarrow>
   (rpmts \<times> bool list) outcome" where
  "addRelation E bad er p requires st =
     (case st of (ts, selected) \<Rightarrow>
      andThen (rpmdsN (oe_ds E) (Some requires)) (\<lambda>(req, N).
      if ignored_ns (rpmdsNSType req) then ok st
      else
        andThen (nonnull N) (\<lambda>N.
        andThen (if is_path N
                 then rpmbfChk (am_le (oe_mach E)) (am_vg (oe_mach E)) (te_bf (ts_order ts ! p))
                        (am_addr (oe_mach E) N) (str_bytes N) (length N)
                 else ok 0) (\<lambda>own.
        if own > 0 then ok st
        else
          andThen (rpmalSatisfiesDepend (oe_ds E) (oe_mach E) (if er then ts_erased ts else ts_added ts) req)
            (\<lambda>(al, req, key, pkgKey).
              let ts = (if er then ts\<lparr>ts_erased := al\<rparr> else ts\<lparr>ts_added := al\<rparr>);
                  removed = (te_type (ts_order ts ! p) = TR_REMOVED) in
              if pkgKey = RPMAL_NOMATCH then ok (ts, selected)
              else
                case find_added (if removed then pkgKey + ts_numAdded ts else pkgKey) (ts_order ts) of
                  None \<Rightarrow> ok (ts, selected)
                | Some q \<Rightarrow>
                    if ignoreDep bad (te_name (ts_order ts ! p)) (te_name (ts_order ts ! q)) \<or> selected ! q
                    then ok (ts, selected)
                    else
                      ok (if removed then record_relation q p requires ts else record_relation p q requires ts,
                          selected[q := True]))))))"

text \<open>A requirement without any flag is passed over.\<close>

definition autobits :: u32 where
  "autobits = 0xffffffff"

definition isAuto :: "u32 \<Rightarrow> bool" where
  "isAuto f \<longleftrightarrow> f AND autobits \<noteq> 0"

definition require_body ::
  "ordenv \<Rightarrow> (string \<times> string option) list \<Rightarrow> bool \<Rightarrow> bool \<Rightarrow> nat \<Rightarrow> rpmds \<Rightarrow> rpmts \<times> bool list \<Rightarrow>
   ((rpmts \<times> bool list) \<times> bool) outcome" where
  "require_body E bad auto_only er p R st =
     andThen (rpmdsFlags (Some R)) (\<lambda>f.
       if auto_only \<and> \<not> isAuto f then ok (st, False)
       else andThen (addRelation E bad er p R st) (\<lambda>st. ok (st, False)))"

definition add_each ::
  "ordenv \<Rightarrow> (string \<times> string option) list \<Rightarrow> bool \<Rightarrow> bool \<Rightarrow> nat \<Rightarrow> nat \<Rightarrow> rpmts \<times> bool list \<Rightarrow>
   (rpmts \<times> bool list) outcome" where
  "add_each E bad auto_only er p tag st =
     (case rpmteDS (ts_order (fst st) ! p) tag of
        None \<Rightarrow> ok st
      | Some ds \<Rightarrow>
          andThen (rpmdsEach (oe_ds E) (require_body E bad auto_only er p) (rpmdsInit ds) st)
            (\<lambda>(ds, st). ok st))"

text \<open>An erased element requires the packages that replace it; its type is changed meanwhile.\<close>

definition set_type :: "rpmElementType \<Rightarrow> nat \<Rightarrow> rpmts \<Rightarrow> rpmts" where
  "set_type ty p ts = ts\<lparr>ts_order := set_te p (\<lambda>te. te\<lparr>te_type := ty\<rparr>) (ts_order ts)\<rparr>"

fun add_flinks ::
  "ordenv \<Rightarrow> (string \<times> string option) list \<Rightarrow> nat \<Rightarrow> string \<Rightarrow> nat list \<Rightarrow> rpmts \<times> bool list \<Rightarrow>
   (rpmts \<times> bool list) outcome" where
  "add_flinks E bad p pkgid [] st = ok st"
| "add_flinks E bad p pkgid (q # qs) st =
     (let te = ts_order (fst st) ! q in
      if te_type te \<noteq> TR_ADDED then add_flinks E bad p pkgid qs st
      else
        andThen (nonnull (te_pkgid te)) (\<lambda>id.
          if strcmp id pkgid \<noteq> 0 then add_flinks E bad p pkgid qs st
          else
            case rpmteDS te RPMTAG_NAME of
              None \<Rightarrow> add_flinks E bad p pkgid qs st
            | Some requires \<Rightarrow>
                andThen (addRelation E bad False p requires (set_type TR_ADDED p (fst st), snd st))
                  (\<lambda>(ts, sel). add_flinks E bad p pkgid qs (set_type TR_REMOVED p ts, sel))))"

definition add_relations :: "ordenv \<Rightarrow> (string \<times> string option) list \<Rightarrow> nat \<Rightarrow> rpmts \<Rightarrow> rpmts outcome" where
  "add_relations E bad p ts =
     (let n = length (ts_order ts); te = ts_order ts ! p; er = (te_type te = TR_REMOVED) in
      andThen (add_each E bad True er p RPMTAG_REQUIRENAME (ts, (replicate n False)[p := True])) (\<lambda>st.
      andThen (case te_flink te of
                 [] \<Rightarrow> ok st
               | pkgid # _ \<Rightarrow> if er then add_flinks E bad p pkgid [0..<n] st else ok st) (\<lambda>st.
      andThen (add_each E bad False er p RPMTAG_DIRNAMES st) (\<lambda>st.
      andThen (add_each E bad False er p RPMTAG_FILELINKTOS st) (\<lambda>(ts, sel). ok ts)))))"

fun add_all :: "ordenv \<Rightarrow> (string \<times> string option) list \<Rightarrow> nat list \<Rightarrow> rpmts \<Rightarrow> rpmts outcome" where
  "add_all E bad [] ts = ok ts"
| "add_all E bad (p # ps) ts = andThen (add_relations E bad p ts) (add_all E bad ps)"

section \<open>The queue\<close>

text \<open>A package goes behind those of its preferred color, behind the added ones if it is removed,
  behind the earlier generations, and behind those that more packages require.\<close>

definition goes_behind :: "u32 \<Rightarrow> rpmte \<Rightarrow> rpmte \<Rightarrow> bool" where
  "goes_behind prefcolor p q \<longleftrightarrow>
     te_color p \<noteq> prefcolor \<and> te_color p \<noteq> te_color q \<or>
     te_type p = TR_REMOVED \<and> te_type p \<noteq> te_type q \<or>
     tsi_queued (te_tsi p) > tsi_queued (te_tsi q) \<or>
     \<not> tsi_qcnt (te_tsi q) \<le> tsi_qcnt (te_tsi p)"

fun addQ :: "u32 \<Rightarrow> rpmte list \<Rightarrow> nat \<Rightarrow> nat list \<Rightarrow> nat list" where
  "addQ prefcolor tes p [] = [p]"
| "addQ prefcolor tes p (q # qs) =
     (if goes_behind prefcolor (tes ! p) (tes ! q) then q # addQ prefcolor tes p qs else p # q # qs)"

record sortst =
  ss_te :: "rpmte list"
  ss_ordering :: "int list"
  ss_loopcheck :: int
  ss_printed :: bool
  ss_peer :: "int list"
  ss_unordered :: int

text \<open>T4: queue the elements without predecessors.\<close>

fun scan_zeroes :: "u32 \<Rightarrow> bool \<Rightarrow> int \<Rightarrow> nat list \<Rightarrow> rpmte list \<Rightarrow> nat list \<Rightarrow> rpmte list \<times> nat list" where
  "scan_zeroes prefcolor anaconda gen [] tes queue = (tes, queue)"
| "scan_zeroes prefcolor anaconda gen (p # ps) tes queue =
     (let tes = (if anaconda then set_tsi p (\<lambda>t. t\<lparr>tsi_qcnt := int (length tes) - int p\<rparr>) tes else tes) in
      if tsi_count (rpmteTSI tes p) \<noteq> 0 then scan_zeroes prefcolor anaconda gen ps tes queue
      else
        let tes = set_tsi p (\<lambda>t. t\<lparr>tsi_queued := gen\<rparr>) tes in
        scan_zeroes prefcolor anaconda gen ps tes (addQ prefcolor tes p queue))"

text \<open>T6: the relations of an element that has been put out. A successor whose last predecessor it was
  goes into the queue, as a child in the same tree.\<close>

fun erase_relations ::
  "u32 \<Rightarrow> int \<Rightarrow> nat \<Rightarrow> int \<Rightarrow> int \<Rightarrow> trel list \<Rightarrow> rpmte list \<Rightarrow> nat list \<Rightarrow> rpmte list \<times> nat list" where
  "erase_relations prefcolor gen q treex depth [] tes queue = (tes, queue)"
| "erase_relations prefcolor gen q treex depth (r # rs) tes queue =
     (let p = rel_suc r; tes = set_tsi p (\<lambda>t. t\<lparr>tsi_count := tsi_count t - 1\<rparr>) tes in
      if tsi_count (rpmteTSI tes p) \<le> 0 then
        let tes = set_te p (\<lambda>te. te\<lparr>te_tree := treex, te_depth := depth + 1, te_parent := Some q\<rparr>) tes;
            tes = set_te q (\<lambda>te. te\<lparr>te_degree := te_degree te + 1\<rparr>) tes;
            tes = set_tsi p (\<lambda>t. t\<lparr>tsi_queued := gen\<rparr>) tes in
        erase_relations prefcolor gen q treex depth rs tes (addQ prefcolor tes p queue)
      else erase_relations prefcolor gen q treex depth rs tes queue)"

definition npeer :: nat where
  "npeer = 128"

text \<open>T5: put out the head of the queue. The position in the tree counts the elements of the same depth.\<close>

definition emit :: "nat \<Rightarrow> int \<Rightarrow> sortst \<Rightarrow> sortst" where
  "emit q breadth st =
     (let te = ss_te st ! q; depth = te_depth te in
      st\<lparr>ss_te := set_te q (\<lambda>te. te\<lparr>te_tsi := (te_tsi te)\<lparr>tsi_queued := 0\<rparr>, te_breadth := breadth, te_degree := 0\<rparr>)
                    (ss_te st),
         ss_peer := (if depth < int npeer then (ss_peer st)[nat depth := breadth + 1] else ss_peer st),
         ss_ordering := ss_ordering st @ [te_addedKey te],
         ss_loopcheck := ss_loopcheck st - 1\<rparr>)"

definition clear_relations :: "u32 \<Rightarrow> nat \<Rightarrow> sortst \<times> nat list \<Rightarrow> sortst \<times> nat list" where
  "clear_relations prefcolor q sq =
     (case sq of (st, qs) \<Rightarrow>
      let te = ss_te st ! q;
          (tes, qs) = erase_relations prefcolor (int (length (ss_ordering st)) + 1) q (te_tree te) (te_depth te)
                        (tsi_next (te_tsi te)) (set_tsi q (\<lambda>t. t\<lparr>tsi_next := []\<rparr>) (ss_te st)) qs in
      (st\<lparr>ss_te := tes\<rparr>, qs))"

text \<open>Once only elements in the queue are left, they are put out in the order of the transaction.\<close>

definition relink :: "sortst \<times> nat list \<Rightarrow> sortst \<times> nat list" where
  "relink sq =
     (case sq of (st, qs) \<Rightarrow>
      if \<not> ss_printed st \<and> ss_loopcheck st = int (length qs) \<and> qs \<noteq> []
      then (st\<lparr>ss_printed := True, ss_unordered := int (length (ss_ordering st))\<rparr>,
            filter (\<lambda>p. tsi_queued (rpmteTSI (ss_te st) p) \<noteq> 0) [0..<length (ss_te st)])
      else (st, qs))"

definition put_out :: "u32 \<Rightarrow> sortst \<Rightarrow> nat \<Rightarrow> nat list \<Rightarrow> (sortst \<times> nat list) outcome" where
  "put_out prefcolor st q qs =
     (let depth = te_depth (ss_te st ! q) in
      guardC OutOfBounds (q < length (ss_te st))
      (andThen (if depth < int npeer then slot (ss_peer st) depth else ok 0) (\<lambda>breadth.
       guardC BufferOverflow (length (ss_ordering st) < length (ss_te st) + 1)
       (ok (relink (clear_relations prefcolor q (emit q breadth st, qs)))))))"

definition num_rels :: "rpmte list \<Rightarrow> nat" where
  "num_rels tes = sum_list (map (\<lambda>te. length (tsi_next (te_tsi te))) tes)"

lemma length_set_te [simp]: "length (set_te i f tes) = length tes" "length (set_tsi i g tes) = length tes"
  by (simp_all add: set_te_def set_tsi_def)

lemma num_rels_set_te:
  "i < length tes \<Longrightarrow> num_rels (set_te i f tes) + length (tsi_next (te_tsi (tes ! i))) =
     num_rels tes + length (tsi_next (te_tsi (f (tes ! i))))"
  by (induction tes arbitrary: i) (auto simp: num_rels_def set_te_def nth_Cons split: nat.splits)

lemma set_te_beyond: "\<not> i < length tes \<Longrightarrow> set_te i f tes = tes"
  by (simp add: set_te_def list_update_beyond)

lemma num_rels_keep:
  assumes "\<And>te. length (tsi_next (te_tsi (f te))) = length (tsi_next (te_tsi te))"
  shows "num_rels (set_te i f tes) = num_rels tes"
  using num_rels_set_te[of i tes f] assms by (cases "i < length tes") (simp_all add: set_te_beyond)

lemma length_addQ [simp]: "length (addQ c tes p qs) = Suc (length qs)"
  by (induction qs) auto

lemma erase_relations_measure:
  "erase_relations c gen q treex depth rs tes qs = (tes', qs') \<Longrightarrow>
     num_rels tes' = num_rels tes \<and> length tes' = length tes \<and> length qs' \<le> length qs + length rs"
proof (induction rs arbitrary: tes qs)
  case (Cons r rs)
  let ?p = "rel_suc r"
  let ?t1 = "set_tsi ?p (\<lambda>t. t\<lparr>tsi_count := tsi_count t - 1\<rparr>) tes"
  let ?t2 = "set_te ?p (\<lambda>te. te\<lparr>te_tree := treex, te_depth := depth + 1, te_parent := Some q\<rparr>) ?t1"
  let ?t3 = "set_te q (\<lambda>te. te\<lparr>te_degree := te_degree te + 1\<rparr>) ?t2"
  let ?t4 = "set_tsi ?p (\<lambda>t. t\<lparr>tsi_queued := gen\<rparr>) ?t3"
  have t: "num_rels ?t1 = num_rels tes" "num_rels ?t4 = num_rels tes"
    by (simp_all add: num_rels_keep set_tsi_def)
  show ?case
  proof (cases "tsi_count (rpmteTSI ?t1 ?p) \<le> 0")
    case True
    then show ?thesis using Cons.prems Cons.IH[of ?t4 "addQ c ?t4 ?p qs"] t by (simp add: Let_def)
  next
    case False
    then show ?thesis using Cons.prems Cons.IH[of ?t1 qs] t by (fastforce simp: Let_def)
  qed
qed simp

lemma put_out_measure:
  assumes "put_out c st q qs = ok (st', qs')"
  shows "\<not> ss_printed st \<and> ss_printed st' \<or>
    ss_printed st' = ss_printed st \<and> num_rels (ss_te st') + length qs' \<le> num_rels (ss_te st) + length qs"
proof -
  obtain b where q: "q < length (ss_te st)" and r: "(st', qs') = relink (clear_relations c q (emit q b st, qs))"
    using assms by (auto simp: put_out_def Let_def c_simps eq_commute[of _ "(st', qs')"])
  obtain st1 qs1 where c: "clear_relations c q (emit q b st, qs) = (st1, qs1)" by fastforce
  let ?e = "emit q b st"
  have e: "num_rels (ss_te ?e) = num_rels (ss_te st)" "q < length (ss_te ?e)" "ss_printed ?e = ss_printed st"
    using q by (simp_all add: emit_def Let_def num_rels_keep)
  have "num_rels (set_tsi q (\<lambda>t. t\<lparr>tsi_next := []\<rparr>) (ss_te ?e)) + length (tsi_next (te_tsi (ss_te ?e ! q))) = num_rels (ss_te ?e)"
    using num_rels_set_te[of q "ss_te ?e" "\<lambda>te. te\<lparr>te_tsi := (te_tsi te)\<lparr>tsi_next := []\<rparr>\<rparr>"] e(2)
    by (simp add: set_tsi_def)
  then have "ss_printed st1 = ss_printed st" "num_rels (ss_te st1) + length qs1 \<le> num_rels (ss_te st) + length qs"
    using c e by (auto simp: clear_relations_def Let_def split: prod.splits dest!: erase_relations_measure)
  then show ?thesis using r c by (auto simp: relink_def split: if_splits)
qed

function process_queue :: "u32 \<Rightarrow> sortst \<Rightarrow> nat list \<Rightarrow> sortst outcome" where
  "process_queue prefcolor st [] = ok st"
| "process_queue prefcolor st (q # qs) =
     andThen (put_out prefcolor st q qs) (\<lambda>(st, qs). process_queue prefcolor st qs)"
  by pat_completeness auto
termination
  by (relation "measures [\<lambda>(c, st, qs). if ss_printed st then 0 else 1, \<lambda>(c, st, qs). num_rels (ss_te st) + length qs]")
    (auto dest!: put_out_measure)

section \<open>Dependency loops\<close>

text \<open>T9: forget the chains, mark the elements that have been sorted.\<close>

definition reset_te :: "rpmte \<Rightarrow> rpmte" where
  "reset_te te =
     te\<lparr>te_tsi := (te_tsi te)\<lparr>tsi_chain := None, tsi_queued := 0,
          tsi_count := (if tsi_count (te_tsi te) = 0 then -1 else tsi_count (te_tsi te))\<rparr>\<rparr>"

definition sucs :: "rpmte list \<Rightarrow> nat \<Rightarrow> nat list" where
  "sucs tes q = map rel_suc (tsi_next (rpmteTSI tes q))"

definition no_chain :: "rpmte list \<Rightarrow> nat \<Rightarrow> bool" where
  "no_chain tes p \<longleftrightarrow> tsi_chain (rpmteTSI tes p) = None"

definition set_chain :: "nat \<Rightarrow> nat option \<Rightarrow> rpmte list \<Rightarrow> rpmte list" where
  "set_chain p c tes = set_tsi p (\<lambda>t. t\<lparr>tsi_chain := c\<rparr>) tes"

lemma length_set_chain [simp]: "length (set_chain p c tes) = length tes"
  by (simp add: set_chain_def)

lemma no_chain_set_chain: "p < length tes \<Longrightarrow> no_chain (set_chain p c tes) i \<longleftrightarrow> (if i = p then c = None else no_chain tes i)"
  by (simp add: no_chain_def set_chain_def set_tsi_def set_te_def rpmteTSI_def)

text \<open>T10: mark the successors with their predecessors, depth first. The relations of \<open>root\<close> are unlinked
  meanwhile.\<close>

function markLoop :: "nat \<Rightarrow> (nat \<times> nat) list \<Rightarrow> rpmte list \<Rightarrow> rpmte list" where
  "markLoop root [] tes = tes"
| "markLoop root ((p, q) # w) tes =
     (if p < length tes \<and> no_chain tes p then
        markLoop root (map (\<lambda>s. (s, p)) (if p = root then [] else sucs tes p) @ w) (set_chain p (Some q) tes)
      else markLoop root w tes)"
  by pat_completeness auto
termination
proof (relation "measures [\<lambda>(r, w, tes). card {p. p < length tes \<and> no_chain tes p}, \<lambda>(r, w, tes). length w]", goal_cases)
  case (2 root p q w tes)
  then have "{i. i < length (set_chain p (Some q) tes) \<and> no_chain (set_chain p (Some q) tes) i} \<subset>
      {i. i < length tes \<and> no_chain tes i}"
    by (auto simp: no_chain_set_chain)
  then show ?case by (simp add: psubset_card_mono del: length_set_chain)
qed auto

fun mark_all :: "nat list \<Rightarrow> rpmte list \<Rightarrow> rpmte list" where
  "mark_all [] tes = tes"
| "mark_all (q # qs) tes = mark_all qs (markLoop q (map (\<lambda>s. (s, q)) (sucs tes q)) tes)"

text \<open>T12: follow the chain to the first element that has been seen.\<close>

definition set_queued :: "nat \<Rightarrow> int \<Rightarrow> rpmte list \<Rightarrow> rpmte list" where
  "set_queued p v tes = set_tsi p (\<lambda>t. t\<lparr>tsi_queued := v\<rparr>) tes"

definition is_queued :: "rpmte list \<Rightarrow> nat \<Rightarrow> bool" where
  "is_queued tes p \<longleftrightarrow> tsi_queued (rpmteTSI tes p) \<noteq> 0"

lemma length_set_queued [simp]: "length (set_queued p v tes) = length tes"
  by (simp add: set_queued_def)

lemma is_queued_set_queued:
  "p < length tes \<Longrightarrow> is_queued (set_queued p v tes) i \<longleftrightarrow> (if i = p then v \<noteq> 0 else is_queued tes i)"
  by (simp add: is_queued_def set_queued_def set_tsi_def set_te_def rpmteTSI_def)

function find_start :: "nat option \<Rightarrow> rpmte list \<Rightarrow> rpmte list \<times> nat option" where
  "find_start None tes = (tes, None)"
| "find_start (Some q) tes =
     (if q < length tes \<and> \<not> is_queued tes q then
        find_start (tsi_chain (rpmteTSI tes q)) (set_queued q 1 tes)
      else (tes, Some q))"
  by pat_completeness auto
termination
proof (relation "measure (\<lambda>(q, tes). card {p. p < length tes \<and> \<not> is_queued tes p})", goal_cases)
  case (2 q tes)
  then have "{i. i < length (set_queued q 1 tes) \<and> \<not> is_queued (set_queued q 1 tes) i} \<subset>
      {i. i < length tes \<and> \<not> is_queued tes i}"
    by (auto simp: is_queued_set_queued)
  then show ?case by (simp add: psubset_card_mono del: length_set_queued)
qed auto

text \<open>Remove the first relation "q <- p" whose dependency can be found.\<close>

fun zap_first :: "(trel \<Rightarrow> bool) \<Rightarrow> trel list \<Rightarrow> trel list option" where
  "zap_first P [] = None"
| "zap_first P (r # rs) = (if P r then Some rs else map_option ((#) r) (zap_first P rs))"

definition zapRelation :: "nat \<Rightarrow> nat \<Rightarrow> rpmte list \<Rightarrow> rpmte list \<times> nat" where
  "zapRelation q p tes =
     (let owner = tes ! (if te_type (tes ! p) = TR_REMOVED then q else p) in
      case zap_first (\<lambda>r. rel_suc r = p \<and> rpmteDS owner (rel_tagn r) \<noteq> None) (tsi_next (rpmteTSI tes q)) of
        None \<Rightarrow> (tes, 0)
      | Some rs \<Rightarrow>
          (set_tsi q (\<lambda>t. t\<lparr>tsi_next := rs\<rparr>) (set_tsi p (\<lambda>t. t\<lparr>tsi_count := tsi_count t - 1\<rparr>) tes), 1))"

lemma nth_set_te:
  "set_te i f tes ! j = (if j = i \<and> i < length tes then f (tes ! i) else tes ! j)"
  by (cases "i < length tes") (simp_all add: set_te_def nth_list_update list_update_beyond)

lemma rpmteTSI_set_te:
  "rpmteTSI (set_te i f tes) j = (if j = i \<and> i < length tes then te_tsi (f (tes ! i)) else rpmteTSI tes j)"
  by (simp add: rpmteTSI_def nth_set_te)

lemma rpmteTSI_set_tsi:
  "rpmteTSI (set_tsi i f tes) j = (if j = i \<and> i < length tes then f (rpmteTSI tes i) else rpmteTSI tes j)"
  by (simp add: rpmteTSI_def set_tsi_def nth_set_te)

lemma zapRelation_keeps [simp]:
  "length (fst (zapRelation q p tes)) = length tes"
  "tsi_chain (rpmteTSI (fst (zapRelation q p tes)) i) = tsi_chain (rpmteTSI tes i)"
  "is_queued (fst (zapRelation q p tes)) i = is_queued tes i"
  by (simp_all add: zapRelation_def Let_def is_queued_def rpmteTSI_set_tsi split: option.splits)

text \<open>T13: go round the loop, remove its relations. Then the same for the chain that led to it, without
  removing anything.\<close>

lemma chained_less:
  assumes "p < length tes" "tsi_chain (rpmteTSI tes p) = Some q"
    and "\<And>i. no_chain tes' i \<longleftrightarrow> i = p \<or> no_chain tes i" "length tes' = length tes"
  shows "card {i. i < length tes' \<and> \<not> no_chain tes' i} < card {i. i < length tes \<and> \<not> no_chain tes i}"
proof (rule psubset_card_mono)
  have "p \<in> {i. i < length tes \<and> \<not> no_chain tes i}" using assms(1,2) by (simp add: no_chain_def)
  then show "{i. i < length tes' \<and> \<not> no_chain tes' i} \<subset> {i. i < length tes \<and> \<not> no_chain tes i}"
    using assms(3,4) by auto
qed simp

function unchain_loop :: "nat \<Rightarrow> rpmte list \<Rightarrow> rpmte list \<times> nat" where
  "unchain_loop p tes =
     (if p < length tes then
        case tsi_chain (rpmteTSI tes p) of
          None \<Rightarrow> (tes, 0)
        | Some q \<Rightarrow>
            let (tes, z) = zapRelation q p (set_chain p None tes); (tes, zs) = unchain_loop q tes in (tes, z + zs)
      else (tes, 0))"
  by pat_completeness auto
termination
proof (relation "measure (\<lambda>(p, tes). card {i. i < length tes \<and> \<not> no_chain tes i})", goal_cases)
  case (2 p tes q x tes' z)
  have "tes' = fst (zapRelation q p (set_chain p None tes))" using 2(3,4) by (metis fst_conv)
  then have "no_chain tes' i \<longleftrightarrow> i = p \<or> no_chain tes i" "length tes' = length tes" for i
    using no_chain_set_chain[OF 2(1), of None i] by (simp_all add: no_chain_def)
  then show ?case unfolding in_measure prod.case by (rule chained_less[OF 2(1,2)])
qed simp

declare unchain_loop.simps [simp del]

function unchain_path :: "nat \<Rightarrow> rpmte list \<Rightarrow> rpmte list" where
  "unchain_path p tes =
     (if p < length tes then
        case tsi_chain (rpmteTSI tes p) of
          None \<Rightarrow> tes
        | Some q \<Rightarrow> unchain_path q (set_queued p 0 (set_chain p None tes))
      else tes)"
  by pat_completeness auto
termination
proof (relation "measure (\<lambda>(p, tes). card {i. i < length tes \<and> \<not> no_chain tes i})", goal_cases)
  case (2 p tes q)
  have "no_chain (set_queued p 0 t) i \<longleftrightarrow> no_chain t i" for t i
    by (simp add: no_chain_def set_queued_def rpmteTSI_set_tsi)
  then have "no_chain (set_queued p 0 (set_chain p None tes)) i \<longleftrightarrow> i = p \<or> no_chain tes i" for i
    using no_chain_set_chain[OF 2(1), of None i] by simp
  then show ?case unfolding in_measure prod.case by (rule chained_less[OF 2(1,2)]) simp
qed simp

declare unchain_path.simps [simp del]

fun break_chains :: "nat list \<Rightarrow> rpmte list \<Rightarrow> rpmte list \<times> nat" where
  "break_chains [] tes = (tes, 0)"
| "break_chains (r # rs) tes =
     (let (tes, q) = find_start (tsi_chain (rpmteTSI tes r)) tes;
          (tes, z) = (case q of None \<Rightarrow> (tes, 0) | Some p \<Rightarrow> unchain_loop p tes);
          (tes, zs) = break_chains rs (unchain_path r tes) in
      (tes, z + zs))"

definition break_loops :: "rpmte list \<Rightarrow> rpmte list \<times> nat" where
  "break_loops tes =
     (let ixs = [0..<length tes] in break_chains ixs (mark_all ixs (map reset_te tes)))"

section \<open>The sort\<close>

definition sort_pass :: "u32 \<Rightarrow> bool \<Rightarrow> sortst \<Rightarrow> sortst outcome" where
  "sort_pass prefcolor anaconda st =
     (let (tes, queue) = scan_zeroes prefcolor anaconda (int (length (ss_ordering st)) + 1)
                           [0..<length (ss_te st)] (ss_te st) [] in
      process_queue prefcolor (st\<lparr>ss_te := tes\<rparr>) queue)"

text \<open>The first argument is the number of rescans left.\<close>

primrec tsort :: "nat \<Rightarrow> u32 \<Rightarrow> bool \<Rightarrow> sortst \<Rightarrow> sortst outcome" where
  "tsort 0 prefcolor anaconda st =
     andThen (sort_pass prefcolor anaconda st) (\<lambda>st.
       if ss_loopcheck st = 0 then ok st else ok (st\<lparr>ss_te := fst (break_loops (ss_te st))\<rparr>))"
| "tsort (Suc k) prefcolor anaconda st =
     andThen (sort_pass prefcolor anaconda st) (\<lambda>st.
       if ss_loopcheck st = 0 then ok st
       else
         let (tes, nzaps) = break_loops (ss_te st) in
         if nzaps \<noteq> 0 then tsort k prefcolor anaconda (st\<lparr>ss_te := tes\<rparr>) else ok (st\<lparr>ss_te := tes\<rparr>))"

text \<open>The difference of two longs, returned as an int.\<close>

definition orderListIndexCmp :: "int \<times> nat \<Rightarrow> int \<times> nat \<Rightarrow> int" where
  "orderListIndexCmp a b = sint (word_of_int (fst a - fst b) :: u32)"

fun pick_elements :: "(int \<times> nat) list \<Rightarrow> int list \<Rightarrow> rpmte option list \<Rightarrow> rpmte list" where
  "pick_elements orderList [] order = []"
| "pick_elements orderList (key # keys) order =
     (case bsearch orderListIndexCmp (key, 0) orderList of
        None \<Rightarrow> pick_elements orderList keys order
      | Some i \<Rightarrow>
          let j = snd (orderList ! i) in
          case order ! j of
            None \<Rightarrow> pick_elements orderList keys order
          | Some te \<Rightarrow>
              if fst (orderList ! i) = RPMAL_NOMATCH then pick_elements orderList keys order
              else te # pick_elements orderList keys (order[j := None]))"

definition new_order :: "rpmte list \<Rightarrow> int list \<Rightarrow> rpmte list" where
  "new_order tes keys =
     (let orderList = qsort orderListIndexCmp (zip (map te_addedKey tes) [0..<length tes]) in
      pick_elements orderList keys (map Some tes))"

fun add_erased :: "nat list \<Rightarrow> rpmts \<Rightarrow> rpmts outcome" where
  "add_erased [] ts = ok ts"
| "add_erased (p # ps) ts =
     (let te = ts_order ts ! p in
      if te_type te \<noteq> TR_REMOVED then add_erased ps ts
      else
        andThen (rpmalAdd (ts_erased ts) RPMAL_NOMATCH (Some p) (rpmteDS te RPMTAG_PROVIDENAME) (te_bf te) (ts_color ts))
          (\<lambda>(al, pkgKey).
            add_erased ps
              (ts\<lparr>ts_erased := Some al,
                  ts_order := set_te p (\<lambda>te. te\<lparr>te_addedKey := pkgKey + ts_numAdded ts\<rparr>) (ts_order ts)\<rparr>)))"

fun save_preds :: "nat list \<Rightarrow> int \<Rightarrow> rpmte list \<Rightarrow> rpmte list \<times> int" where
  "save_preds [] treex tes = (tes, treex)"
| "save_preds (p # ps) treex tes =
     (let npreds = tsi_count (rpmteTSI tes p);
          tes = set_te p (\<lambda>te. te\<lparr>te_npreds := npreds, te_depth := 0\<rparr>) tes in
      if npreds = 0
      then save_preds ps (treex + 1) (set_te p (\<lambda>te. te\<lparr>te_tree := treex + 1, te_breadth := treex + 1\<rparr>) tes)
      else save_preds ps treex (set_te p (\<lambda>te. te\<lparr>te_tree := -1\<rparr>) tes))"

definition nrescans :: nat where
  "nrescans = 100"

definition start_sort :: "rpmts \<Rightarrow> rpmte list \<Rightarrow> sortst" where
  "start_sort ts tes =
     \<lparr>ss_te = tes, ss_ordering = [], ss_loopcheck = int (length tes), ss_printed = False,
      ss_peer = replicate npeer 0, ss_unordered = ts_unordered ts\<rparr>"

definition opt_index :: "dsenv \<Rightarrow> rpmal option \<Rightarrow> rpmal option outcome" where
  "opt_index e al = (case al of None \<Rightarrow> ok None | Some al \<Rightarrow> andThen (rpmalMakeIndex e al) (\<lambda>al. ok (Some al)))"

text \<open>T1 to T3: the index of the erased packages, and the relations of all elements.\<close>

definition record_relations :: "ordenv \<Rightarrow> rpmts \<Rightarrow> rpmts outcome" where
  "record_relations E ts =
     (let ixs = [0..<length (ts_order ts)] in
      andThen (add_erased ixs ts) (\<lambda>ts.
      andThen (opt_index (oe_ds E) (ts_erased ts)) (\<lambda>erased.
        add_all E (badDeps E) ixs
          (ts\<lparr>ts_erased := erased, ts_order := map (\<lambda>te. te\<lparr>te_tsi := tsi_zero\<rparr>) (ts_order ts)\<rparr>))))"

text \<open>0, or the number of elements that could not be ordered. In that case the elements keep what the
  sort has stored in them.\<close>

definition rpmtsOrder :: "ordenv \<Rightarrow> rpmts \<Rightarrow> (int \<times> rpmts) outcome" where
  "rpmtsOrder E ts =
     andThen (record_relations E ts) (\<lambda>ts.
      let (tes, treex) = save_preds [0..<length (ts_order ts)] 0 (ts_order ts);
          ts = ts\<lparr>ts_order := tes, ts_ntrees := treex\<rparr> in
      andThen (tsort nrescans (ts_prefcolor ts) (ts_anaconda ts) (start_sort ts tes)) (\<lambda>st.
      let ts = ts\<lparr>ts_order := ss_te st, ts_unordered := ss_unordered st\<rparr> in
      if ss_loopcheck st \<noteq> 0 then ok (ss_loopcheck st, ts)
      else
        let new = new_order (map (\<lambda>te. te\<lparr>te_tsi := tsi_zero\<rparr>) (ss_te st)) (ss_ordering st) in
        guardC AssertFail (length new = length (ss_te st)) (ok (0, ts\<lparr>ts_order := new\<rparr>))))"

end
