(* ===== verification/OrderSort.thy ===== *)
theory OrderSort
  imports Order
begin

text \<open>
  The invariant of the topological sort of \<open>Order\<close>. The abstraction of an array of elements is the set
  \<open>rels\<close> of its pairs "\<open>p\<close> requires \<open>q\<close>" with the number \<open>incoming\<close> of relations that lead to an
  element. A pass of the sort takes the elements in an order \<open>out\<close>: no element is put out twice, the
  counts are right for the ones left, and an element is put out behind those that it requires, as far
  as they are not in a loop with it. The last part has the removal of relations from loops: every
  relation removed is in a loop, and one is removed whenever elements are left.
\<close>

section \<open>The abstraction\<close>

text \<open>What the sort does not change in an element.\<close>

definition te_core :: "rpmte \<Rightarrow> rpmte" where
  "te_core te = te\<lparr>te_npreds := 0, te_tree := 0, te_depth := 0, te_breadth := 0, te_degree := 0,
     te_parent := None, te_tsi := tsi_zero\<rparr>"

definition rels :: "rpmte list \<Rightarrow> (nat \<times> nat) set" where
  "rels tes = {(q, p). q < length tes \<and> p \<in> set (sucs tes q)}"

definition incoming :: "rpmte list \<Rightarrow> nat \<Rightarrow> nat" where
  "incoming tes p = (\<Sum>q<length tes. count_list (sucs tes q) p)"

text \<open>The relations that lie on a loop of \<open>R\<close>.\<close>

definition looped :: "(nat \<times> nat) set \<Rightarrow> rpmte list \<Rightarrow> nat" where
  "looped R tes = (\<Sum>q<length tes. length (filter (\<lambda>p. (p, q) \<in> R\<^sup>*) (sucs tes q)))"

definition precedes :: "nat list \<Rightarrow> nat \<Rightarrow> nat \<Rightarrow> bool" where
  "precedes out q p \<longleftrightarrow> (\<exists>xs ys. out = xs @ p # ys \<and> q \<in> set xs)"

lemma precedes_append: "precedes out q p \<Longrightarrow> precedes (out @ xs) q p"
  unfolding precedes_def by (metis append.assoc append_Cons)

lemma precedes_last: "q \<in> set out \<Longrightarrow> precedes (out @ [p]) q p"
  unfolding precedes_def by blast

definition view :: "rpmte \<Rightarrow> rpmte \<times> trel list \<times> int" where
  "view te = (te_core te, tsi_next (te_tsi te), tsi_count (te_tsi te))"

lemma views_length: "map view tes' = map view tes \<Longrightarrow> length tes' = length tes"
  using map_eq_imp_length_eq by blast

lemma views_nth: "map view tes' = map view tes \<Longrightarrow> i < length tes \<Longrightarrow> view (tes' ! i) = view (tes ! i)"
  by (metis nth_map views_length)

lemma view_set_te:
  assumes "\<And>te. view (f te) = view te"
  shows "map view (set_te i f tes) = map view tes"
  using assms by (auto simp: list_eq_iff_nth_eq nth_set_te)

lemma view_simps:
  "view te = view te' \<longleftrightarrow>
     te_core te = te_core te' \<and> tsi_next (te_tsi te) = tsi_next (te_tsi te') \<and>
     tsi_count (te_tsi te) = tsi_count (te_tsi te')"
  by (auto simp: view_def)

lemma te_core_keeps [simp]:
  "te_core (te\<lparr>te_tsi := t\<rparr>) = te_core te" "te_core (te\<lparr>te_depth := d\<rparr>) = te_core te"
  "te_core (te\<lparr>te_tree := d\<rparr>) = te_core te" "te_core (te\<lparr>te_breadth := d\<rparr>) = te_core te"
  "te_core (te\<lparr>te_degree := d\<rparr>) = te_core te" "te_core (te\<lparr>te_parent := o'\<rparr>) = te_core te"
  "te_core (te\<lparr>te_npreds := d\<rparr>) = te_core te" "te_core (te_core te) = te_core te"
  by (simp_all add: te_core_def)

lemma te_core_fields:
  "te_core te = te_core te' \<Longrightarrow> te_addedKey te = te_addedKey te' \<and> te_type te = te_type te' \<and> te_PRCO te = te_PRCO te'"
  unfolding te_core_def by (metis (no_types, lifting) rpmte.ext_inject rpmte.surjective rpmte.update_convs)

text \<open>Relations depend on the lists of successors only.\<close>

lemma rels_cong:
  assumes "length tes' = length tes" "\<And>q. q < length tes \<Longrightarrow> sucs tes' q = sucs tes q"
  shows "rels tes' = rels tes" "incoming tes' = incoming tes" "looped R tes' = looped R tes"
  using assms by (auto simp: rels_def incoming_def looped_def fun_eq_iff)

lemma incoming_0: "incoming tes p = 0 \<longleftrightarrow> (\<forall>q. (q, p) \<notin> rels tes)"
  by (auto simp: incoming_def rels_def count_list_0_iff)

text \<open>Changing the list of one element.\<close>

lemma incoming_update:
  assumes "q < length tes" "length tes' = length tes" "\<And>x. x < length tes \<Longrightarrow> x \<noteq> q \<Longrightarrow> sucs tes' x = sucs tes x"
  shows "incoming tes' p + count_list (sucs tes q) p = incoming tes p + count_list (sucs tes' q) p"
proof -
  have "(\<Sum>x\<in>{..<length tes} - {q}. count_list (sucs tes' x) p) = (\<Sum>x\<in>{..<length tes} - {q}. count_list (sucs tes x) p)"
    using assms(3) by (intro sum.cong) auto
  then show ?thesis
    using assms(1,2) by (simp add: incoming_def sum.remove[of "{..<length tes}" q])
qed

lemma looped_mono:
  assumes "length tes' = length tes" "\<And>q. q < length tes \<Longrightarrow> sucs tes' q = sucs tes q \<or> sucs tes' q = []"
  shows "looped R tes' \<le> looped R tes"
  unfolding looped_def assms(1) by (rule sum_mono) (use assms(2) in force)

section \<open>The invariant\<close>

text \<open>\<open>T\<close> are the elements as the relations were recorded, \<open>out\<close> those that have been put out.\<close>

definition rel_inv :: "rpmte list \<Rightarrow> nat list \<Rightarrow> rpmte list \<Rightarrow> bool" where
  "rel_inv T out tes \<longleftrightarrow>
     map te_core tes = map te_core T \<and>
     (\<forall>q<length T. set (tsi_next (rpmteTSI tes q)) \<subseteq> set (tsi_next (rpmteTSI T q))) \<and>
     (\<forall>(q, p)\<in>rels tes. p < length T \<and> q \<notin> set out \<and> p \<notin> set out) \<and>
     (\<forall>p<length T. p \<notin> set out \<longrightarrow> tsi_count (rpmteTSI tes p) = int (incoming tes p)) \<and>
     (\<forall>p\<in>set out. tsi_count (rpmteTSI tes p) \<le> 0) \<and>
     (\<forall>(q, p)\<in>rels T. (p, q) \<notin> (rels T)\<^sup>* \<longrightarrow> (q, p) \<in> rels tes \<or> q \<in> set out)"

definition out_inv :: "rpmte list \<Rightarrow> nat list \<Rightarrow> sortst \<Rightarrow> bool" where
  "out_inv T out st \<longleftrightarrow>
     distinct out \<and> set out \<subseteq> {..<length T} \<and> ss_ordering st = map (\<lambda>i. te_addedKey (T ! i)) out \<and>
     ss_loopcheck st = int (length T) - int (length out) \<and> length (ss_peer st) = npeer \<and>
     (\<forall>te\<in>set (ss_te st). te_depth te \<ge> 0) \<and>
     (\<forall>(q, p)\<in>rels T. (p, q) \<notin> (rels T)\<^sup>* \<longrightarrow> p \<in> set out \<longrightarrow> precedes out q p)"

definition queue_inv :: "rpmte list \<Rightarrow> nat list \<Rightarrow> rpmte list \<Rightarrow> nat list \<Rightarrow> bool" where
  "queue_inv T out tes qs \<longleftrightarrow>
     distinct qs \<and> set qs = {p. p < length T \<and> p \<notin> set out \<and> tsi_count (rpmteTSI tes p) = 0} \<and>
     (\<forall>p\<in>set qs. tsi_queued (rpmteTSI tes p) \<noteq> 0) \<and> (\<forall>p\<in>set out. tsi_queued (rpmteTSI tes p) = 0)"

lemma rel_inv_length: "rel_inv T out tes \<Longrightarrow> length tes = length T"
  unfolding rel_inv_def by (metis length_map)

lemma sucs_view: "map view tes' = map view tes \<Longrightarrow> q < length tes \<Longrightarrow> sucs tes' q = sucs tes q"
  using views_nth[of tes' tes q] by (simp add: view_simps sucs_def rpmteTSI_def)

lemma rels_view:
  assumes "map view tes' = map view tes"
  shows "rels tes' = rels tes" "incoming tes' = incoming tes" "looped R tes' = looped R tes"
  using rels_cong[of tes' tes] views_length[OF assms] sucs_view[OF assms] by auto

lemma rel_inv_view:
  assumes "map view tes' = map view tes" "rel_inv T out tes" "set out \<subseteq> {..<length T}"
  shows "rel_inv T out tes'"
proof -
  note l = rel_inv_length[OF assms(2)]
  have v: "te_core (tes' ! i) = te_core (tes ! i)" "tsi_next (rpmteTSI tes' i) = tsi_next (rpmteTSI tes i)"
    "tsi_count (rpmteTSI tes' i) = tsi_count (rpmteTSI tes i)" if "i < length T" for i
    using views_nth[OF assms(1), of i] that l by (simp_all add: view_simps rpmteTSI_def)
  have "map te_core tes' = map te_core tes"
    using v(1) views_length[OF assms(1)] l by (auto simp: list_eq_iff_nth_eq)
  then show ?thesis using assms(2,3) v(2,3) rels_view(1,2)[OF assms(1)] unfolding rel_inv_def by auto
qed

lemma set_addQ [simp]: "set (addQ c tes p qs) = insert p (set qs)"
  by (induction qs) auto

lemma distinct_addQ: "distinct (addQ c tes p qs) \<longleftrightarrow> distinct qs \<and> p \<notin> set qs"
  by (induction qs) auto

section \<open>A pass of the sort\<close>

text \<open>T6: while the relations \<open>rs\<close> of the element put out last are erased.\<close>

definition erasing :: "rpmte list \<Rightarrow> nat list \<Rightarrow> (nat \<Rightarrow> nat) \<Rightarrow> trel list \<Rightarrow> rpmte list \<Rightarrow> nat list \<Rightarrow> bool" where
  "erasing T out inc rs tes qs \<longleftrightarrow>
     length tes = length T \<and> (\<forall>r\<in>set rs. rel_suc r < length T \<and> rel_suc r \<notin> set out) \<and>
     (\<forall>p<length T. p \<notin> set out \<longrightarrow>
        tsi_count (rpmteTSI tes p) = int (inc p) + int (count_list (map rel_suc rs) p)) \<and>
     (\<forall>i<length T. te_depth (tes ! i) \<ge> 0) \<and> queue_inv T out tes qs"

text \<open>What erasing keeps: the data of the elements, their lists, the counts of elements put out.\<close>

definition erased_from :: "rpmte list \<Rightarrow> nat list \<Rightarrow> rpmte list \<Rightarrow> rpmte list \<Rightarrow> bool" where
  "erased_from T out tes tes' \<longleftrightarrow>
     map te_core tes' = map te_core tes \<and>
     (\<forall>i<length T. tsi_next (rpmteTSI tes' i) = tsi_next (rpmteTSI tes i)) \<and>
     (\<forall>i\<in>set out. tsi_count (rpmteTSI tes' i) = tsi_count (rpmteTSI tes i))"

lemma map_core_set_te:
  assumes "\<And>te. te_core (f te) = te_core te"
  shows "map te_core (set_te i f tes) = map te_core tes"
  using assms by (auto simp: list_eq_iff_nth_eq nth_set_te)

lemma map_core_set_tsi [simp]: "map te_core (set_tsi i f tes) = map te_core tes"
  unfolding set_tsi_def by (rule map_core_set_te) simp

lemma erase_step:
  fixes tes q r gen treex depth
  defines "p \<equiv> rel_suc r"
  defines "t1 \<equiv> set_tsi p (\<lambda>t. t\<lparr>tsi_count := tsi_count t - 1\<rparr>) tes"
  defines "t2 \<equiv> set_te p (\<lambda>te. te\<lparr>te_tree := treex, te_depth := depth + 1, te_parent := Some q\<rparr>) t1"
  defines "t3 \<equiv> set_te q (\<lambda>te. te\<lparr>te_degree := te_degree te + 1\<rparr>) t2"
  defines "t4 \<equiv> set_tsi p (\<lambda>t. t\<lparr>tsi_queued := gen\<rparr>) t3"
  assumes e: "erasing T out inc (r # rs) tes qs" and gen: "gen \<noteq> 0" and depth: "depth \<ge> 0"
  shows "tsi_count (rpmteTSI t1 p) \<le> 0 \<Longrightarrow> erasing T out inc rs t4 (addQ c t4 p qs) \<and> erased_from T out tes t4"
    and "\<not> tsi_count (rpmteTSI t1 p) \<le> 0 \<Longrightarrow> erasing T out inc rs t1 qs \<and> erased_from T out tes t1"
proof -
  have p: "p < length tes" "p \<notin> set out" "length tes = length T" using e by (auto simp: erasing_def p_def)
  have t1: "rpmteTSI t1 i = (if i = p then (rpmteTSI tes p)\<lparr>tsi_count := tsi_count (rpmteTSI tes p) - 1\<rparr> else rpmteTSI tes i)"
    "te_depth (t1 ! i) = te_depth (tes ! i)" "length t1 = length tes" "map te_core t1 = map te_core tes" for i
    using p by (simp_all add: t1_def rpmteTSI_set_tsi) (simp add: set_tsi_def nth_set_te)
  have t4: "rpmteTSI t4 i = (if i = p then (rpmteTSI t1 p)\<lparr>tsi_queued := gen\<rparr> else rpmteTSI t1 i)"
    "te_depth (t4 ! i) = (if i = p then depth + 1 else te_depth (tes ! i))" "length t4 = length tes"
    "map te_core t4 = map te_core tes" for i
    using p t1(2,3,4) by (auto simp: t2_def t3_def t4_def set_tsi_def nth_set_te rpmteTSI_set_te map_core_set_te rpmteTSI_def)
  have cnt: "tsi_count (rpmteTSI t1 p) = int (inc p) + int (count_list (map rel_suc rs) p)"
    using e p t1(1)[of p] by (auto simp: erasing_def p_def)
  have new: "p \<notin> set qs" using e p by (auto simp: erasing_def queue_inv_def p_def)
  have base: "length t1 = length T" "\<forall>r\<in>set rs. rel_suc r < length T \<and> rel_suc r \<notin> set out"
    "\<forall>x<length T. x \<notin> set out \<longrightarrow> tsi_count (rpmteTSI t1 x) = int (inc x) + int (count_list (map rel_suc rs) x)"
    "\<forall>i<length T. te_depth (t1 ! i) \<ge> 0"
    using e cnt t1 p by (auto simp: erasing_def p_def split: if_splits)
  have fr: "erased_from T out tes t1" "erased_from T out tes t4"
    using t1 t4 p by (auto simp: erased_from_def)
  { assume "tsi_count (rpmteTSI t1 p) \<le> 0"
    then have z: "tsi_count (rpmteTSI t1 p) = 0" using cnt by simp
    have "queue_inv T out t4 (addQ c t4 p qs)"
      using e new z p t1(1) t4(1) gen by (auto simp: erasing_def queue_inv_def distinct_addQ split: if_splits)
    then show "erasing T out inc rs t4 (addQ c t4 p qs) \<and> erased_from T out tes t4"
      using base t4 t1(2) p depth fr by (auto simp: erasing_def) }
  { assume nz: "\<not> tsi_count (rpmteTSI t1 p) \<le> 0"
    have "queue_inv T out t1 qs"
      using e new nz p t1(1) by (auto simp: erasing_def queue_inv_def split: if_splits)
    then show "erasing T out inc rs t1 qs \<and> erased_from T out tes t1"
      using base fr by (auto simp: erasing_def) }
qed

lemma erase_relations_inv:
  "erase_relations c gen q treex depth rs tes qs = (tes', qs') \<Longrightarrow> gen \<noteq> 0 \<Longrightarrow> depth \<ge> 0 \<Longrightarrow>
     erasing T out inc rs tes qs \<Longrightarrow> erasing T out inc [] tes' qs' \<and> erased_from T out tes tes'"
proof (induction rs arbitrary: tes qs)
  case Nil
  then show ?case by (simp add: erased_from_def)
next
  case (Cons r rs)
  let ?p = "rel_suc r"
  let ?t1 = "set_tsi ?p (\<lambda>t. t\<lparr>tsi_count := tsi_count t - 1\<rparr>) tes"
  let ?t2 = "set_te ?p (\<lambda>te. te\<lparr>te_tree := treex, te_depth := depth + 1, te_parent := Some q\<rparr>) ?t1"
  let ?t3 = "set_te q (\<lambda>te. te\<lparr>te_degree := te_degree te + 1\<rparr>) ?t2"
  let ?t4 = "set_tsi ?p (\<lambda>t. t\<lparr>tsi_queued := gen\<rparr>) ?t3"
  note step = erase_step(1)[OF Cons.prems(4,2,3), where treex = treex and q = q and c = c] erase_step(2)[OF Cons.prems(4,2,3)]
  show ?case
  proof (cases "tsi_count (rpmteTSI ?t1 ?p) \<le> 0")
    case True
    then have "erase_relations c gen q treex depth rs ?t4 (addQ c ?t4 ?p qs) = (tes', qs')"
      using Cons.prems(1) by (simp add: Let_def)
    then show ?thesis using Cons.IH step(1)[OF True] Cons.prems(2,3) by (fastforce simp: erased_from_def)
  next
    case False
    then have "erase_relations c gen q treex depth rs ?t1 qs = (tes', qs')"
      using Cons.prems(1) by (simp add: Let_def)
    then show ?thesis using Cons.IH step(2)[OF False] Cons.prems(2,3) by (fastforce simp: erased_from_def)
  qed
qed

lemma relink_inv:
  assumes "relink (st, qs) = (st', qs')" "out_inv T out st" "queue_inv T out (ss_te st) qs" "length (ss_te st) = length T"
  shows "ss_te st' = ss_te st \<and> out_inv T out st' \<and> queue_inv T out (ss_te st) qs'"
proof (cases "\<not> ss_printed st \<and> ss_loopcheck st = int (length qs) \<and> qs \<noteq> []")
  case True
  then have r: "st' = st\<lparr>ss_printed := True, ss_unordered := int (length (ss_ordering st))\<rparr>"
    "qs' = filter (\<lambda>p. tsi_queued (rpmteTSI (ss_te st) p) \<noteq> 0) [0..<length T]"
    using assms(1,4) by (auto simp: relink_def)
  note q = assms(3)[unfolded queue_inv_def] and o = assms(2)[unfolded out_inv_def]
  have sub: "set qs \<subseteq> {..<length T} - set out" using q by auto
  have "card ({..<length T} - set out) = length T - length out"
    using o by (simp add: card_Diff_subset distinct_card)
  moreover have "card (set qs) = length T - length out" using q o True distinct_card[of qs] by linarith
  ultimately have "card (set qs) = card ({..<length T} - set out)" by simp
  then have "set qs = {..<length T} - set out" using sub by (simp add: card_subset_eq)
  then have "set qs' = set qs" using q r(2) by auto
  then show ?thesis using r q assms(2) by (auto simp: queue_inv_def out_inv_def)
next
  case False
  then show ?thesis using assms by (auto simp: relink_def split: if_splits)
qed

lemma put_out_inv:
  assumes rel: "rel_inv T out (ss_te st)" and out: "out_inv T out st" and queue: "queue_inv T out (ss_te st) (q # qs)"
  shows "\<exists>st' qs'. put_out c st q qs = ok (st', qs') \<and> rel_inv T (out @ [q]) (ss_te st') \<and>
    out_inv T (out @ [q]) st' \<and> queue_inv T (out @ [q]) (ss_te st') qs' \<and>
    looped R (ss_te st') \<le> looped R (ss_te st)"
proof -
  let ?tes = "ss_te st" and ?d = "te_depth (ss_te st ! q)"
  note l = rel_inv_length[OF rel] and o = out[unfolded out_inv_def] and r = rel[unfolded rel_inv_def]
  have q: "q < length T" "q \<notin> set out" "tsi_count (rpmteTSI ?tes q) = 0" using queue by (auto simp: queue_inv_def)
  then have no_in: "(x, q) \<notin> rels ?tes" for x using r incoming_0[of ?tes q] by auto
  have d: "?d \<ge> 0" using o q l by auto
  obtain b where b: "(if ?d < int npeer then slot (ss_peer st) ?d else ok 0) = ok b"
  proof (cases "?d < int npeer")
    case True
    then have "slot (ss_peer st) ?d = ok (ss_peer st ! nat ?d)" using d o slot_nat[of "ss_peer st" "nat ?d"] by simp
    then show ?thesis using that True by simp
  qed (use that in simp)
  have "length out \<le> length T" using o by (metis card_lessThan card_mono distinct_card finite_lessThan)
  then have po: "put_out c st q qs = ok (relink (clear_relations c q (emit q b st, qs)))"
    using b q l o by (simp add: put_out_def Let_def)
  let ?e = "emit q b st"
  let ?t2 = "set_tsi q (\<lambda>t. t\<lparr>tsi_next := []\<rparr>) (ss_te ?e)"
  have e: "ss_te ?e ! q = (?tes ! q)\<lparr>te_tsi := (te_tsi (?tes ! q))\<lparr>tsi_queued := 0\<rparr>, te_breadth := b, te_degree := 0\<rparr>"
    using q l by (simp add: emit_def Let_def nth_set_te)
  obtain tes3 qs3 where er: "erase_relations c (int (length (ss_ordering ?e)) + 1) q (te_tree (?tes ! q)) ?d
      (tsi_next (rpmteTSI ?tes q)) ?t2 qs = (tes3, qs3)" by fastforce
  have cl: "clear_relations c q (?e, qs) = (?e\<lparr>ss_te := tes3\<rparr>, qs3)"
    using er e by (simp add: clear_relations_def rpmteTSI_def)
  have t2: "rpmteTSI ?t2 i = (if i = q then (rpmteTSI ?tes q)\<lparr>tsi_queued := 0, tsi_next := []\<rparr> else rpmteTSI ?tes i)"
    "te_depth (?t2 ! i) = te_depth (?tes ! i)" "length ?t2 = length T" "map te_core ?t2 = map te_core ?tes" for i
    using q l by (auto simp: emit_def Let_def rpmteTSI_set_tsi rpmteTSI_set_te rpmteTSI_def map_core_set_te)
      (auto simp: set_tsi_def nth_set_te)
  have sucs2: "sucs ?t2 i = (if i = q then [] else sucs ?tes i)" for i by (simp add: sucs_def t2(1))
  have inc: "incoming ?t2 p + count_list (sucs ?tes q) p = incoming ?tes p" for p
    using incoming_update[of q ?tes ?t2 p] q l t2(3) sucs2 by simp
  have suc: "rel_suc x < length T \<and> rel_suc x \<notin> set (out @ [q])" if "x \<in> set (tsi_next (rpmteTSI ?tes q))" for x
  proof -
    have "(q, rel_suc x) \<in> rels ?tes" using that q l by (simp add: rels_def sucs_def)
    then show ?thesis using r no_in[of q] by (auto simp: rels_def)
  qed
  have "erasing T (out @ [q]) (incoming ?t2) (tsi_next (rpmteTSI ?tes q)) ?t2 qs"
    unfolding erasing_def
  proof (intro conjI allI impI)
    fix p assume p: "p < length T" "p \<notin> set (out @ [q])"
    then show "tsi_count (rpmteTSI ?t2 p) = int (incoming ?t2 p) + int (count_list (map rel_suc (tsi_next (rpmteTSI ?tes q))) p)"
      using r inc[of p] t2(1)[of p] by (auto simp: sucs_def)
  next
    show "queue_inv T (out @ [q]) ?t2 qs" using queue t2(1) by (auto simp: queue_inv_def)
  qed (use o l t2 suc in auto)
  then have E: "erasing T (out @ [q]) (incoming ?t2) [] tes3 qs3" "erased_from T (out @ [q]) ?t2 tes3"
    using erase_relations_inv[OF er] d by auto
  have l3: "length tes3 = length T" using E(1) by (simp add: erasing_def)
  have sucs3: "sucs tes3 i = (if i = q then [] else sucs ?tes i)" if "i < length T" for i
    using E(2) that sucs2[of i] by (simp add: erased_from_def sucs_def)
  have rels3: "rels tes3 = {(x, y) \<in> rels ?tes. x \<noteq> q}" using sucs3 l3 l by (auto simp: rels_def split: if_splits)
  have inc3: "incoming tes3 = incoming ?t2" using rels_cong(2)[of tes3 ?t2] sucs3 sucs2 l3 t2(3) by simp
  have rel3: "rel_inv T (out @ [q]) tes3"
    unfolding rel_inv_def
  proof (intro conjI allI ballI impI)
    show "map te_core tes3 = map te_core T" using E(2) t2(4) r by (simp add: erased_from_def)
  next
    fix i assume "i < length T"
    then show "set (tsi_next (rpmteTSI tes3 i)) \<subseteq> set (tsi_next (rpmteTSI T i))"
      using E(2) t2(1)[of i] r by (auto simp: erased_from_def)
  next
    fix i assume "i \<in> set (out @ [q])"
    then show "tsi_count (rpmteTSI tes3 i) \<le> 0"
      using E(2) t2(1)[of i] r q by (auto simp: erased_from_def)
  next
    fix p assume "p < length T" "p \<notin> set (out @ [q])"
    then show "tsi_count (rpmteTSI tes3 p) = int (incoming tes3 p)" using E(1) inc3 by (simp add: erasing_def)
  next
    fix x assume x: "x \<in> rels tes3"
    obtain a b where ab: "x = (a, b)" by fastforce
    then have m: "(a, b) \<in> rels ?tes" "a \<noteq> q" using x unfolding rels3 by simp_all
    then have "b < length T" "a \<notin> set out" "b \<notin> set out" using r by blast+
    moreover have "b \<noteq> q" using m(1) no_in by blast
    ultimately show "case x of (q', p) \<Rightarrow> p < length T \<and> q' \<notin> set (out @ [q]) \<and> p \<notin> set (out @ [q])"
      using ab m(2) by simp
  next
    fix x assume x: "x \<in> rels T"
    obtain a b where ab: "x = (a, b)" by fastforce
    then have "(b, a) \<notin> (rels T)\<^sup>* \<longrightarrow> (a, b) \<in> rels ?tes \<or> a \<in> set out" using r x by blast
    then show "case x of (q', p) \<Rightarrow> (p, q') \<notin> (rels T)\<^sup>* \<longrightarrow> (q', p) \<in> rels tes3 \<or> q' \<in> set (out @ [q])"
      using ab unfolding rels3 by auto
  qed
  have out3: "out_inv T (out @ [q]) (?e\<lparr>ss_te := tes3\<rparr>)"
  proof -
    have "te_addedKey (?tes ! q) = te_addedKey (T ! q)" 
    proof -
      have "map te_core ?tes ! q = map te_core T ! q" using r by simp
      then have "te_core (?tes ! q) = te_core (T ! q)" using q l by simp
      then show ?thesis by (rule te_core_fields[THEN conjunct1])
    qed
    moreover have "precedes (out @ [q]) x p" if "(x, p) \<in> rels T" "(p, x) \<notin> (rels T)\<^sup>*" "p \<in> set (out @ [q])" for x p
    proof (cases "p = q")
      case True
      then have "(x, p) \<in> rels ?tes \<or> x \<in> set out" using that(1,2) r by blast
      then have "x \<in> set out" using True no_in by blast
      then show ?thesis using True precedes_last by simp
    next
      case False
      then have "p \<in> set out" using that(3) by simp
      then have "precedes out x p" using that(1,2) o by blast
      then show ?thesis by (rule precedes_append)
    qed
    moreover have "\<forall>te\<in>set tes3. te_depth te \<ge> 0" using E(1) by (auto simp: erasing_def in_set_conv_nth)
    ultimately show ?thesis using o q by (auto simp: out_inv_def emit_def Let_def)
  qed
  obtain st' qs' where rl: "relink (?e\<lparr>ss_te := tes3\<rparr>, qs3) = (st', qs')" by fastforce
  have "ss_te st' = tes3 \<and> out_inv T (out @ [q]) st' \<and> queue_inv T (out @ [q]) tes3 qs'"
    using relink_inv[OF rl out3] E(1) l3 by (simp add: erasing_def)
  moreover have "looped R tes3 \<le> looped R ?tes" using looped_mono[of tes3 ?tes R] sucs3 l3 l by auto
  ultimately show ?thesis using po cl rl rel3 by simp
qed

lemma process_queue_inv:
  assumes "rel_inv T out (ss_te st)" "out_inv T out st" "queue_inv T out (ss_te st) qs"
  shows "\<exists>st' out'. process_queue c st qs = ok st' \<and> rel_inv T out' (ss_te st') \<and> out_inv T out' st' \<and>
    queue_inv T out' (ss_te st') [] \<and> looped R (ss_te st') \<le> looped R (ss_te st)"
  using assms
proof (induction c st qs arbitrary: out rule: process_queue.induct)
  case (2 c st q qs)
  obtain st1 qs1 where p: "put_out c st q qs = ok (st1, qs1)" "rel_inv T (out @ [q]) (ss_te st1)"
    "out_inv T (out @ [q]) st1" "queue_inv T (out @ [q]) (ss_te st1) qs1" "looped R (ss_te st1) \<le> looped R (ss_te st)"
    using put_out_inv[OF 2(2-4)] by blast
  then show ?case using 2(1)[OF p(1) refl p(2-4)] by (simp, meson order_trans)
qed auto

text \<open>T4: all elements without predecessors are queued.\<close>

lemma scan_zeroes_inv:
  "scan_zeroes c ana gen ps tes qs = (tes', qs') \<Longrightarrow> gen \<noteq> 0 \<Longrightarrow> distinct ps \<Longrightarrow> set ps \<subseteq> {..<length tes} \<Longrightarrow>
     distinct qs \<Longrightarrow> set qs = {p. p < length tes \<and> p \<notin> set ps \<and> tsi_count (rpmteTSI tes p) = 0} \<Longrightarrow>
     \<forall>p\<in>set qs. tsi_queued (rpmteTSI tes p) \<noteq> 0 \<Longrightarrow>
     map view tes' = map view tes \<and> map te_depth tes' = map te_depth tes \<and> distinct qs' \<and>
     set qs' = {p. p < length tes \<and> tsi_count (rpmteTSI tes p) = 0} \<and>
     (\<forall>p\<in>set qs'. tsi_queued (rpmteTSI tes' p) \<noteq> 0) \<and>
     (\<forall>p. tsi_count (rpmteTSI tes p) \<noteq> 0 \<longrightarrow> tsi_queued (rpmteTSI tes' p) = tsi_queued (rpmteTSI tes p))"
proof (induction ps arbitrary: tes qs)
  case (Cons p ps)
  define t1 where "t1 = (if ana then set_tsi p (\<lambda>t. t\<lparr>tsi_qcnt := int (length tes) - int p\<rparr>) tes else tes)"
  have p: "p < length tes" "p \<notin> set ps" using Cons.prems(3,4) by auto
  have t1: "map view t1 = map view tes" "map te_depth t1 = map te_depth tes" "length t1 = length tes"
    "tsi_count (rpmteTSI t1 i) = tsi_count (rpmteTSI tes i)" "tsi_queued (rpmteTSI t1 i) = tsi_queued (rpmteTSI tes i)" for i
    by (auto simp: t1_def set_tsi_def view_set_te view_simps rpmteTSI_set_te list_eq_iff_nth_eq nth_set_te)
      (auto simp: view_def rpmteTSI_def)
  show ?case
  proof (cases "tsi_count (rpmteTSI tes p) = 0")
    case False
    then have e: "scan_zeroes c ana gen ps t1 qs = (tes', qs')" using Cons.prems(1) t1(4) by (simp add: t1_def[symmetric])
    have "set qs = {x. x < length t1 \<and> x \<notin> set ps \<and> tsi_count (rpmteTSI t1 x) = 0}"
      using Cons.prems(6) False t1 by auto
    then show ?thesis
      using Cons.IH[OF e Cons.prems(2) _ _ Cons.prems(5)] Cons.prems(3,4,7) t1 by simp
  next
    case True
    define t2 where "t2 = set_tsi p (\<lambda>t. t\<lparr>tsi_queued := gen\<rparr>) t1"
    have e: "scan_zeroes c ana gen ps t2 (addQ c t2 p qs) = (tes', qs')"
      using Cons.prems(1) True t1(4) by (simp add: t1_def[symmetric] t2_def Let_def)
    have t2: "map view t2 = map view tes" "map te_depth t2 = map te_depth tes" "length t2 = length tes"
      "tsi_count (rpmteTSI t2 i) = tsi_count (rpmteTSI tes i)"
      "tsi_queued (rpmteTSI t2 i) = (if i = p then gen else tsi_queued (rpmteTSI tes i))" for i
      using t1 p
      by (auto simp: t2_def set_tsi_def view_set_te view_simps rpmteTSI_set_te list_eq_iff_nth_eq nth_set_te rpmteTSI_def)
    have new: "p \<notin> set qs" using Cons.prems(6) by simp
    have "set (addQ c t2 p qs) = {x. x < length t2 \<and> x \<notin> set ps \<and> tsi_count (rpmteTSI t2 x) = 0}"
      using Cons.prems(6) True p t2 by auto
    moreover have "\<forall>x\<in>set (addQ c t2 p qs). tsi_queued (rpmteTSI t2 x) \<noteq> 0"
      using Cons.prems(2,7) t2(5) by auto
    moreover have "distinct (addQ c t2 p qs)" using Cons.prems(5) new by (simp add: distinct_addQ)
    ultimately show ?thesis
      using Cons.IH[OF e Cons.prems(2)] Cons.prems(3,4) True t2 by (auto split: if_splits)
  qed
qed simp

definition all_out :: "rpmte list \<Rightarrow> nat list \<Rightarrow> rpmte list \<Rightarrow> bool" where
  "all_out T out tes \<longleftrightarrow> (\<forall>p<length T. p \<notin> set out \<longrightarrow> incoming tes p \<noteq> 0)"

definition marked_out :: "nat list \<Rightarrow> rpmte list \<Rightarrow> bool" where
  "marked_out out tes \<longleftrightarrow> (\<forall>p\<in>set out. tsi_count (rpmteTSI tes p) < 0 \<and> tsi_queued (rpmteTSI tes p) = 0)"

lemma sort_pass_inv:
  assumes rel: "rel_inv T out (ss_te st)" and out: "out_inv T out st" and marked: "marked_out out (ss_te st)"
  shows "\<exists>st' out'. sort_pass c ana st = ok st' \<and> rel_inv T out' (ss_te st') \<and> out_inv T out' st' \<and> all_out T out' (ss_te st') \<and>
    looped R (ss_te st') \<le> looped R (ss_te st)"
proof -
  obtain tes qs where s: "scan_zeroes c ana (int (length (ss_ordering st)) + 1) [0..<length (ss_te st)] (ss_te st) [] = (tes, qs)"
    by fastforce
  note l = rel_inv_length[OF rel]
  have sub: "set out \<subseteq> {..<length T}" using out by (simp add: out_inv_def)
  have sc: "map view tes = map view (ss_te st)" "map te_depth tes = map te_depth (ss_te st)" "distinct qs"
    "set qs = {p. p < length T \<and> tsi_count (rpmteTSI (ss_te st) p) = 0}"
    "\<forall>p\<in>set qs. tsi_queued (rpmteTSI tes p) \<noteq> 0"
    "\<forall>p. tsi_count (rpmteTSI (ss_te st) p) \<noteq> 0 \<longrightarrow> tsi_queued (rpmteTSI tes p) = tsi_queued (rpmteTSI (ss_te st) p)"
  proof -
    have "{0..<length T} \<subseteq> {..<length T}" by auto
    then show "map view tes = map view (ss_te st)" "map te_depth tes = map te_depth (ss_te st)" "distinct qs"
      "set qs = {p. p < length T \<and> tsi_count (rpmteTSI (ss_te st) p) = 0}"
      "\<forall>p\<in>set qs. tsi_queued (rpmteTSI tes p) \<noteq> 0"
      "\<forall>p. tsi_count (rpmteTSI (ss_te st) p) \<noteq> 0 \<longrightarrow> tsi_queued (rpmteTSI tes p) = tsi_queued (rpmteTSI (ss_te st) p)"
      using scan_zeroes_inv[OF s] l by simp_all
  qed
  let ?st = "st\<lparr>ss_te := tes\<rparr>"
  have rel1: "rel_inv T out (ss_te ?st)" using rel_inv_view[OF sc(1) rel sub] by simp
  have "te_depth ` set tes = te_depth ` set (ss_te st)" using sc(2) by (metis set_map)
  moreover have "\<forall>d\<in>te_depth ` set (ss_te st). d \<ge> 0" using out by (simp add: out_inv_def)
  ultimately have "\<forall>te\<in>set tes. te_depth te \<ge> 0" by (metis imageI)
  then have out1: "out_inv T out ?st" using out by (simp add: out_inv_def)
  have "tsi_count (rpmteTSI tes p) = tsi_count (rpmteTSI (ss_te st) p)" if "p < length T" for p
    using views_nth[OF sc(1), of p] that l by (simp add: view_simps rpmteTSI_def)
  then have "queue_inv T out (ss_te ?st) qs"
    using sc marked sub by (auto simp: queue_inv_def marked_out_def)
  then obtain st' out' where p: "process_queue c ?st qs = ok st'" "rel_inv T out' (ss_te st')" "out_inv T out' st'"
    "queue_inv T out' (ss_te st') []" "looped R (ss_te st') \<le> looped R tes"
    using process_queue_inv[OF rel1 out1, of qs c R] by auto
  have "all_out T out' (ss_te st')"
    unfolding all_out_def
  proof (intro allI impI)
    fix x assume x: "x < length T" "x \<notin> set out'"
    then have "tsi_count (rpmteTSI (ss_te st') x) = int (incoming (ss_te st') x)" using p(2) by (simp add: rel_inv_def)
    moreover have "tsi_count (rpmteTSI (ss_te st') x) \<noteq> 0" using p(4) x by (auto simp: queue_inv_def)
    ultimately show "incoming (ss_te st') x \<noteq> 0" by simp
  qed
  then show ?thesis using p s rels_view(3)[OF sc(1)] by (auto simp: sort_pass_def)
qed

end
