(* ===== verification/OrderLoops.thy ===== *)
theory OrderLoops
  imports OrderSort
begin

text \<open>
  The treatment of dependency loops in \<open>Order\<close>, steps T9 to T13 of the sort. The chain of an element
  is a pointer to a predecessor; the pointers form a graph in which every element has at most one
  successor, so that a walk along them ends in a loop or at an element without a chain. It is shown
  that all elements with a predecessor are chained, that a relation is removed only from a loop,
  and that one is removed whenever elements are left and the relations can be traced back to their
  dependencies.
\<close>

section \<open>Chains\<close>

definition chain_of :: "rpmte list \<Rightarrow> nat \<Rightarrow> nat option" where
  "chain_of tes x = (if x < length tes then tsi_chain (rpmteTSI tes x) else None)"

definition chain_rel :: "(nat \<Rightarrow> nat option) \<Rightarrow> (nat \<times> nat) set" where
  "chain_rel c = {(x, y). c x = Some y}"

definition unchained :: "nat \<Rightarrow> (nat \<Rightarrow> nat option) \<Rightarrow> nat \<Rightarrow> nat option" where
  "unchained p c x = (if (p, x) \<in> (chain_rel c)\<^sup>* then None else c x)"

lemma chain_rel_iff [simp]: "(x, y) \<in> chain_rel c \<longleftrightarrow> c x = Some y"
  by (simp add: chain_rel_def)

lemma reach_step:
  assumes "c p = Some q"
  shows "(p, x) \<in> (chain_rel c)\<^sup>* \<longleftrightarrow> x = p \<or> (q, x) \<in> (chain_rel (c(p := None)))\<^sup>*"
proof
  assume "(p, x) \<in> (chain_rel c)\<^sup>*"
  then show "x = p \<or> (q, x) \<in> (chain_rel (c(p := None)))\<^sup>*"
  proof (induction rule: rtrancl_induct)
    case (step y z)
    show ?case
    proof (cases "y = p")
      case True
      then show ?thesis using step.hyps(2) assms by simp
    next
      case False
      then have "(y, z) \<in> chain_rel (c(p := None))" using step.hyps(2) by simp
      then show ?thesis using False step.IH by (metis rtrancl.rtrancl_into_rtrancl)
    qed
  qed simp
next
  assume r: "x = p \<or> (q, x) \<in> (chain_rel (c(p := None)))\<^sup>*"
  have "chain_rel (c(p := None)) \<subseteq> chain_rel c" by (auto simp: chain_rel_def split: if_splits)
  then have "(q, x) \<in> (chain_rel (c(p := None)))\<^sup>* \<Longrightarrow> (q, x) \<in> (chain_rel c)\<^sup>*" using rtrancl_mono by blast
  then show "(p, x) \<in> (chain_rel c)\<^sup>*" using r assms by (metis chain_rel_iff converse_rtrancl_into_rtrancl rtrancl.rtrancl_refl)
qed

lemma unchained_step: "c p = Some q \<Longrightarrow> unchained p c = unchained q (c(p := None))"
  using reach_step[of c p q] by (auto simp: unchained_def fun_eq_iff)

lemma unchained_None: "c p = None \<Longrightarrow> unchained p c = c"
  by (auto simp: unchained_def fun_eq_iff elim: converse_rtranclE)

text \<open>On a cycle of a graph of functional edges everything that can be reached leads back.\<close>

lemma cycle_back:
  assumes "(p, p) \<in> (chain_rel c)\<^sup>+" "(p, x) \<in> (chain_rel c)\<^sup>*"
  shows "(x, p) \<in> (chain_rel c)\<^sup>*"
  using assms(2)
proof (induction rule: rtrancl_induct)
  case (step y z)
  have "(y, p) \<in> (chain_rel c)\<^sup>+" using step.IH assms(1) by (metis rtrancl_trancl_trancl)
  then obtain w where "(y, w) \<in> chain_rel c" "(w, p) \<in> (chain_rel c)\<^sup>*" by (meson tranclD)
  then show ?case using step.hyps(2) by simp
qed simp

text \<open>Removing the chain_rel behind \<open>s\<close>, then those behind \<open>r\<close>, leaves nothing behind \<open>r\<close>.\<close>

lemma unchained_all:
  assumes "(r, x) \<in> (chain_rel c)\<^sup>*"
  shows "unchained r (unchained s c) x = None"
  using assms
proof (induction rule: rtrancl_induct)
  case (step y z)
  show ?case
  proof (cases "(s, y) \<in> (chain_rel c)\<^sup>*")
    case True
    then have "(s, z) \<in> (chain_rel c)\<^sup>*" using step.hyps(2) by (rule rtrancl_into_rtrancl)
    then show ?thesis by (simp add: unchained_def)
  next
    case False
    then have yz: "(y, z) \<in> chain_rel (unchained s c)" using step.hyps(2) by (simp add: unchained_def)
    then have "(r, y) \<in> (chain_rel (unchained s c))\<^sup>*" using step.IH unfolding unchained_def[of r] by (auto split: if_splits)
    then have "(r, z) \<in> (chain_rel (unchained s c))\<^sup>*" using yz by (rule rtrancl_into_rtrancl)
    then show ?thesis by (simp add: unchained_def[of r])
  qed
qed (simp add: unchained_def)

lemma unchained_Some: "unchained p c x = Some y \<Longrightarrow> c x = Some y"
  by (simp add: unchained_def split: if_splits)

section \<open>Removing a relation\<close>

lemma zap_first_Some:
  "zap_first P rs = Some rs' \<Longrightarrow> \<exists>xs r ys. rs = xs @ r # ys \<and> rs' = xs @ ys \<and> P r"
proof (induction rs arbitrary: rs')
  case (Cons a rs)
  show ?case
  proof (cases "P a")
    case True
    then show ?thesis using Cons.prems by (metis append_Nil option.inject zap_first.simps(2))
  next
    case False
    then obtain rs1 where "zap_first P rs = Some rs1" "rs' = a # rs1" using Cons.prems by auto
    then show ?thesis using Cons.IH by (metis append_Cons)
  qed
qed simp

lemma zap_first_None: "zap_first P rs = None \<longleftrightarrow> (\<forall>r\<in>set rs. \<not> P r)"
  by (induction rs) auto

text \<open>A relation that can be traced back to its dependency.\<close>

definition traceable :: "rpmte list \<Rightarrow> bool" where
  "traceable T \<longleftrightarrow> (\<forall>q<length T. \<forall>r\<in>set (tsi_next (rpmteTSI T q)).
     rpmteDS (T ! (if te_type (T ! rel_suc r) = TR_REMOVED then q else rel_suc r)) (rel_tagn r) \<noteq> None)"

lemma looped_update:
  assumes "q < length tes" "length tes' = length tes" "\<And>x. x < length tes \<Longrightarrow> x \<noteq> q \<Longrightarrow> sucs tes' x = sucs tes x"
    and "length (filter (\<lambda>p. (p, q) \<in> R\<^sup>*) (sucs tes' q)) + k = length (filter (\<lambda>p. (p, q) \<in> R\<^sup>*) (sucs tes q))"
  shows "looped R tes' + k = looped R tes"
proof -
  have "(\<Sum>x\<in>{..<length tes} - {q}. length (filter (\<lambda>p. (p, x) \<in> R\<^sup>*) (sucs tes' x))) =
      (\<Sum>x\<in>{..<length tes} - {q}. length (filter (\<lambda>p. (p, x) \<in> R\<^sup>*) (sucs tes x)))"
    using assms(3) by (intro sum.cong) auto
  then show ?thesis using assms(1,2,4) by (simp add: looped_def sum.remove[of "{..<length tes}" q])
qed

lemma rel_inv_core:
  assumes "rel_inv T out tes" "i < length T"
  shows "te_core (tes ! i) = te_core (T ! i)" "te_type (tes ! i) = te_type (T ! i)" "te_PRCO (tes ! i) = te_PRCO (T ! i)"
proof -
  have "map te_core tes = map te_core T" using assms(1) by (simp add: rel_inv_def)
  then have "map te_core tes ! i = map te_core T ! i" by simp
  then show c: "te_core (tes ! i) = te_core (T ! i)" using assms rel_inv_length[OF assms(1)] by simp
  show "te_type (tes ! i) = te_type (T ! i)" "te_PRCO (tes ! i) = te_PRCO (T ! i)"
    using te_core_fields[OF c] by blast+
qed

lemma zapRelation_inv:
  assumes rel: "rel_inv T out tes" and qp: "(q, p) \<in> rels tes" "(p, q) \<in> (rels T)\<^sup>*"
    and z: "zapRelation q p tes = (tes', z)"
  shows "rel_inv T out tes'" "looped (rels T) tes' + z = looped (rels T) tes"
    "\<And>x y. (x, y) \<in> rels tes \<Longrightarrow> (x, y) \<noteq> (q, p) \<Longrightarrow> (x, y) \<in> rels tes'"
    "\<And>x. x \<in> set out \<Longrightarrow> tsi_count (rpmteTSI tes' x) = tsi_count (rpmteTSI tes x)"
    "map te_depth tes' = map te_depth tes" "traceable T \<Longrightarrow> z = 1"
proof -
  note l = rel_inv_length[OF rel] and r = rel[unfolded rel_inv_def]
  have q: "q < length T" "q \<notin> set out" using r qp(1) l by (auto simp: rels_def)
  have p: "p < length T" "p \<notin> set out" using r qp(1) by auto
  let ?owner = "if te_type (tes ! p) = TR_REMOVED then q else p"
  let ?P = "\<lambda>r. rel_suc r = p \<and> rpmteDS (tes ! ?owner) (rel_tagn r) \<noteq> None"
  let ?goal = "rel_inv T out tes' \<and> looped (rels T) tes' + z = looped (rels T) tes \<and>
    (\<forall>x y. (x, y) \<in> rels tes \<longrightarrow> (x, y) \<noteq> (q, p) \<longrightarrow> (x, y) \<in> rels tes') \<and>
    (\<forall>x. x \<in> set out \<longrightarrow> tsi_count (rpmteTSI tes' x) = tsi_count (rpmteTSI tes x)) \<and>
    map te_depth tes' = map te_depth tes \<and> (traceable T \<longrightarrow> z = 1)"
  have ?goal
  proof (cases "zap_first ?P (tsi_next (rpmteTSI tes q))")
    case None
    then have e: "tes' = tes" "z = 0" using z by (simp_all add: zapRelation_def Let_def)
    have "\<not> traceable T"
    proof
      assume t: "traceable T"
      obtain x where x: "x \<in> set (tsi_next (rpmteTSI tes q))" "rel_suc x = p" using qp(1) by (auto simp: rels_def sucs_def)
      then have "x \<in> set (tsi_next (rpmteTSI T q))" using r q by blast
      then have "rpmteDS (T ! (if te_type (T ! p) = TR_REMOVED then q else p)) (rel_tagn x) \<noteq> None"
        using t[unfolded traceable_def, rule_format, OF q(1)] x(2) by metis
      moreover have "te_type (tes ! p) = te_type (T ! p)" "te_PRCO (tes ! p) = te_PRCO (T ! p)"
        "te_PRCO (tes ! q) = te_PRCO (T ! q)" using rel_inv_core[OF rel] p(1) q(1) by blast+
      ultimately have "?P x" using x(2) by (simp add: rpmteDS_def split: if_splits)
      then show False using None x(1) by (auto simp: zap_first_None)
    qed
    then show ?thesis using e rel by simp
  next
    case (Some rs)
    then obtain xs s ys where s: "tsi_next (rpmteTSI tes q) = xs @ s # ys" "rs = xs @ ys" "rel_suc s = p"
      using zap_first_Some by blast
    have e: "tes' = set_tsi q (\<lambda>t. t\<lparr>tsi_next := rs\<rparr>) (set_tsi p (\<lambda>t. t\<lparr>tsi_count := tsi_count t - 1\<rparr>) tes)" "z = 1"
      using z Some by (simp_all add: zapRelation_def Let_def)
    have l': "length tes' = length tes" by (simp add: e)
    have nx: "tsi_next (rpmteTSI tes' i) = (if i = q then rs else tsi_next (rpmteTSI tes i))"
      "tsi_count (rpmteTSI tes' i) = tsi_count (rpmteTSI tes i) - (if i = p then 1 else 0)" for i
      using q p l by (auto simp: e rpmteTSI_set_tsi)
    have su: "sucs tes' i = (if i = q then map rel_suc rs else sucs tes i)" for i by (simp add: sucs_def nx)
    have sq: "sucs tes q = map rel_suc xs @ p # map rel_suc ys" using s by (simp add: sucs_def)
    have inc: "incoming tes' x + (if x = p then 1 else 0) = incoming tes x" for x
      using incoming_update[of q tes tes' x] q l l' su sq s(2) by (auto split: if_splits)
    have lp: "looped (rels T) tes' + 1 = looped (rels T) tes"
      by (rule looped_update[of q]) (use q l l' su sq s(2) qp(2) in auto)
    have sub: "rels tes' \<subseteq> rels tes" using su sq s(2) l' by (auto simp: rels_def split: if_splits)
    have keep: "(x, y) \<in> rels tes'" if "(x, y) \<in> rels tes" "(x, y) \<noteq> (q, p)" for x y
      using that su sq s(2) l' by (auto simp: rels_def split: if_splits)
    have dp: "map te_depth tes' = map te_depth tes"
      by (auto simp: e list_eq_iff_nth_eq set_tsi_def nth_set_te)
    have "rel_inv T out tes'"
      unfolding rel_inv_def
    proof (intro conjI allI ballI impI)
      show "map te_core tes' = map te_core T" using r by (simp add: e)
    next
      fix i assume "i < length T"
      then have "set (tsi_next (rpmteTSI tes i)) \<subseteq> set (tsi_next (rpmteTSI T i))" using r by blast
      then show "set (tsi_next (rpmteTSI tes' i)) \<subseteq> set (tsi_next (rpmteTSI T i))" using nx(1)[of i] s(1,2) by auto
    next
      fix x assume "x \<in> rels tes'"
      then show "case x of (q, p) \<Rightarrow> p < length T \<and> q \<notin> set out \<and> p \<notin> set out" using r sub by blast
    next
      fix x assume "x < length T" "x \<notin> set out"
      then have "tsi_count (rpmteTSI tes x) = int (incoming tes x)" using r by blast
      then show "tsi_count (rpmteTSI tes' x) = int (incoming tes' x)" using nx(2)[of x] inc[of x] by (auto split: if_splits)
    next
      fix x assume "x \<in> set out"
      then show "tsi_count (rpmteTSI tes' x) \<le> 0" using r nx(2)[of x] by fastforce
    next
      fix x assume x: "x \<in> rels T"
      obtain a b where ab: "x = (a, b)" by fastforce
      then have "(b, a) \<notin> (rels T)\<^sup>* \<longrightarrow> (a, b) \<in> rels tes \<or> a \<in> set out" using r x by blast
      then show "case x of (q', p) \<Rightarrow> (p, q') \<notin> (rels T)\<^sup>* \<longrightarrow> (q', p) \<in> rels tes' \<or> q' \<in> set out"
        using ab keep[of a b] qp(2) by auto
    qed
    moreover have "\<forall>x. x \<in> set out \<longrightarrow> tsi_count (rpmteTSI tes' x) = tsi_count (rpmteTSI tes x)"
      using nx(2) p(2) by auto
    ultimately show ?thesis using lp keep dp e(2) by simp
  qed
  then show "rel_inv T out tes'" "looped (rels T) tes' + z = looped (rels T) tes"
    "\<And>x y. (x, y) \<in> rels tes \<Longrightarrow> (x, y) \<noteq> (q, p) \<Longrightarrow> (x, y) \<in> rels tes'"
    "\<And>x. x \<in> set out \<Longrightarrow> tsi_count (rpmteTSI tes' x) = tsi_count (rpmteTSI tes x)"
    "map te_depth tes' = map te_depth tes" "traceable T \<Longrightarrow> z = 1" by blast+
qed

section \<open>Walking along the chains\<close>

definition loop_inv :: "rpmte list \<Rightarrow> nat list \<Rightarrow> rpmte list \<Rightarrow> bool" where
  "loop_inv T out tes \<longleftrightarrow>
     rel_inv T out tes \<and> set out \<subseteq> {..<length T} \<and> marked_out out tes \<and> (\<forall>te\<in>set tes. te_depth te \<ge> 0) \<and>
     (\<forall>x y. chain_of tes x = Some y \<longrightarrow> (y, x) \<in> rels tes)"

text \<open>Changes of the chain and of the mark of an element.\<close>

lemma set_chain_facts:
  "map view (set_chain p c tes) = map view tes" "map te_depth (set_chain p c tes) = map te_depth tes"
  "tsi_count (rpmteTSI (set_chain p c tes) x) = tsi_count (rpmteTSI tes x)"
  "is_queued (set_chain p c tes) x = is_queued tes x"
  "p < length tes \<Longrightarrow> chain_of (set_chain p c tes) = (chain_of tes)(p := c)"
  by (auto simp: set_chain_def set_tsi_def view_set_te view_simps list_eq_iff_nth_eq nth_set_te rpmteTSI_set_te
      is_queued_def rpmteTSI_def chain_of_def fun_eq_iff)

lemma set_queued_facts:
  "map view (set_queued p v tes) = map view tes" "map te_depth (set_queued p v tes) = map te_depth tes"
  "tsi_count (rpmteTSI (set_queued p v tes) x) = tsi_count (rpmteTSI tes x)"
  "chain_of (set_queued p v tes) = chain_of tes"
  by (auto simp: set_queued_def set_tsi_def view_set_te view_simps list_eq_iff_nth_eq nth_set_te rpmteTSI_set_te
      rpmteTSI_def chain_of_def fun_eq_iff)

lemma depths_ok:
  assumes "map te_depth tes' = map te_depth tes" "\<forall>te\<in>set tes. te_depth te \<ge> 0"
  shows "\<forall>te\<in>set tes'. te_depth te \<ge> 0"
proof -
  have "te_depth ` set tes' = te_depth ` set tes" using assms(1) by (metis set_map)
  moreover have "\<forall>d\<in>te_depth ` set tes. d \<ge> 0" using assms(2) by simp
  ultimately show ?thesis by (metis imageI)
qed

lemma marked_out_queued: "marked_out out tes \<longleftrightarrow> (\<forall>p\<in>set out. tsi_count (rpmteTSI tes p) < 0 \<and> \<not> is_queued tes p)"
  by (simp add: marked_out_def is_queued_def)

lemma chain_target:
  assumes "loop_inv T out tes" "chain_of tes x = Some y"
  shows "y < length T" "y \<notin> set out"
proof -
  have rel: "rel_inv T out tes" and yx: "(y, x) \<in> rels tes" using assms by (simp_all add: loop_inv_def)
  show "y < length T" using yx rel_inv_length[OF rel] by (simp add: rels_def)
  show "y \<notin> set out" using yx rel unfolding rel_inv_def by blast
qed

lemma loop_inv_step:
  assumes "loop_inv T out tes" "map view tes' = map view tes" "map te_depth tes' = map te_depth tes"
    and "\<And>x. tsi_count (rpmteTSI tes' x) = tsi_count (rpmteTSI tes x)"
    and "\<And>x. x \<in> set out \<Longrightarrow> is_queued tes' x \<Longrightarrow> is_queued tes x"
    and "\<And>x y. chain_of tes' x = Some y \<Longrightarrow> chain_of tes x = Some y"
  shows "loop_inv T out tes'"
proof -
  have "rel_inv T out tes'" using rel_inv_view[OF assms(2)] assms(1) by (simp add: loop_inv_def)
  moreover have "\<forall>te\<in>set tes'. te_depth te \<ge> 0" using depths_ok[OF assms(3)] assms(1) by (simp add: loop_inv_def)
  moreover have "marked_out out tes'" using assms(1,4,5) by (auto simp: loop_inv_def marked_out_queued)
  moreover have "(y, x) \<in> rels tes'" if "chain_of tes' x = Some y" for x y
    using assms(1) assms(6)[OF that] rels_view(1)[OF assms(2)] by (simp add: loop_inv_def)
  ultimately show ?thesis using assms(1) by (simp add: loop_inv_def)
qed

lemma zap_chain_inv:
  assumes inv: "loop_inv T out tes" and c: "chain_of tes p = Some q" and cyc: "(p, q) \<in> (rels T)\<^sup>*"
    and z: "zapRelation q p (set_chain p None tes) = (tes1, z)"
  shows "loop_inv T out tes1" "looped (rels T) tes1 + z = looped (rels T) tes" "chain_of tes1 = (chain_of tes)(p := None)"
    "length tes1 = length tes" "is_queued tes1 x = is_queued tes x" "traceable T \<Longrightarrow> z = 1"
proof -
  let ?t0 = "set_chain p None tes"
  have p: "p < length tes" using c by (simp add: chain_of_def split: if_splits)
  note f = set_chain_facts[where p = p and c = None and tes = tes]
  have i0: "loop_inv T out ?t0"
    by (rule loop_inv_step[OF inv f(1,2,3)]) (use f(4) f(5)[OF p] in \<open>auto split: if_splits\<close>)
  have r0: "rel_inv T out ?t0" using i0 by (simp add: loop_inv_def)
  have qp: "(q, p) \<in> rels ?t0" using inv c rels_view(1)[OF f(1)] by (simp add: loop_inv_def)
  note zi = zapRelation_inv[OF r0 qp cyc z]
  have t1: "tes1 = fst (zapRelation q p ?t0)" by (simp add: z)
  show l1: "length tes1 = length tes" by (simp add: t1)
  show q1: "is_queued tes1 x = is_queued tes x" for x by (simp add: t1 f(4))
  have "chain_of tes1 = chain_of ?t0" by (simp add: chain_of_def t1 fun_eq_iff)
  then show c1: "chain_of tes1 = (chain_of tes)(p := None)" using f(5)[OF p] by simp
  show "looped (rels T) tes1 + z = looped (rels T) tes" using zi(2) rels_view(3)[OF f(1)] by simp
  show "traceable T \<Longrightarrow> z = 1" by (rule zi(6))
  have "(y, x) \<in> rels tes1" if "chain_of tes1 x = Some y" for x y
  proof -
    have "x \<noteq> p" "chain_of tes x = Some y" using that c1 by (auto split: if_splits)
    moreover from this have "(y, x) \<in> rels ?t0" using inv rels_view(1)[OF f(1)] by (simp add: loop_inv_def)
    ultimately show ?thesis using zi(3) by simp
  qed
  moreover have "marked_out out tes1" using inv zi(4) f(3) q1 by (simp add: loop_inv_def marked_out_queued)
  moreover have "\<forall>te\<in>set tes1. te_depth te \<ge> 0" using depths_ok[OF zi(5)] i0 by (simp add: loop_inv_def)
  ultimately show "loop_inv T out tes1" using zi(1) inv by (simp add: loop_inv_def)
qed

lemma unchain_loop_inv:
  "unchain_loop p tes = (tes', z) \<Longrightarrow> loop_inv T out tes \<Longrightarrow>
   \<forall>x y. (p, x) \<in> (chain_rel (chain_of tes))\<^sup>* \<longrightarrow> chain_of tes x = Some y \<longrightarrow> (x, y) \<in> (rels T)\<^sup>* \<Longrightarrow>
   loop_inv T out tes' \<and> chain_of tes' = unchained p (chain_of tes) \<and>
   looped (rels T) tes' + z = looped (rels T) tes \<and> length tes' = length tes \<and>
   (\<forall>x. is_queued tes' x = is_queued tes x) \<and> (traceable T \<longrightarrow> chain_of tes p \<noteq> None \<longrightarrow> z \<noteq> 0)"
proof (induction p tes arbitrary: tes' z rule: unchain_loop.induct)
  case (1 p tes)
  show ?case
  proof (cases "chain_of tes p")
    case None
    then have "tes' = tes \<and> z = 0"
      using "1.prems"(1) by (subst (asm) unchain_loop.simps) (auto simp: chain_of_def split: if_splits)
    then show ?thesis using None "1.prems"(2) unchained_None by simp
  next
    case (Some q)
    then have p: "p < length tes" "tsi_chain (rpmteTSI tes p) = Some q" by (auto simp: chain_of_def split: if_splits)
    obtain t1 z1 where z1: "zapRelation q p (set_chain p None tes) = (t1, z1)" by fastforce
    obtain zs where u: "unchain_loop q t1 = (tes', zs)" "z = z1 + zs"
      using "1.prems"(1) p z1 by (subst (asm) unchain_loop.simps) (auto simp: Let_def split: prod.splits)
    have "(p, q) \<in> (rels T)\<^sup>*" using "1.prems"(3) Some by simp
    note zi = zap_chain_inv[OF "1.prems"(2) Some this z1]
    have on_loop: "\<forall>x y. (q, x) \<in> (chain_rel (chain_of t1))\<^sup>* \<longrightarrow> chain_of t1 x = Some y \<longrightarrow> (x, y) \<in> (rels T)\<^sup>*"
    proof (intro allI impI)
      fix x y assume a: "(q, x) \<in> (chain_rel (chain_of t1))\<^sup>*" "chain_of t1 x = Some y"
      then have "(p, x) \<in> (chain_rel (chain_of tes))\<^sup>*" using reach_step[where c = "chain_of tes" and p = p, OF Some, of x] zi(3) by simp
      moreover have "chain_of tes x = Some y" using a(2) zi(3) by (simp split: if_splits)
      ultimately show "(x, y) \<in> (rels T)\<^sup>*" using "1.prems"(3) by blast
    qed
    have ih: "loop_inv T out tes' \<and> chain_of tes' = unchained q (chain_of t1) \<and>
       looped (rels T) tes' + zs = looped (rels T) t1 \<and> length tes' = length t1 \<and>
       (\<forall>x. is_queued tes' x = is_queued t1 x)"
      using "1.IH"[OF p z1[symmetric] refl u(1) zi(1) on_loop] by blast
    have "chain_of tes' = unchained p (chain_of tes)" using ih zi(3) unchained_step[where c = "chain_of tes" and p = p, OF Some] by simp
    then show ?thesis using ih zi(2,4,5,6) u(2) by auto
  qed
qed

lemma unchain_path_inv:
  "loop_inv T out tes \<Longrightarrow>
   loop_inv T out (unchain_path p tes) \<and> chain_of (unchain_path p tes) = unchained p (chain_of tes) \<and>
   map view (unchain_path p tes) = map view tes \<and> (\<forall>x. is_queued (unchain_path p tes) x \<longrightarrow> is_queued tes x)"
proof (induction p tes rule: unchain_path.induct)
  case (1 p tes)
  show ?case
  proof (cases "chain_of tes p")
    case None
    then have "unchain_path p tes = tes"
      by (subst unchain_path.simps) (auto simp: chain_of_def split: if_splits)
    then show ?thesis using None "1.prems" unchained_None by simp
  next
    case (Some q)
    then have p: "p < length tes" "tsi_chain (rpmteTSI tes p) = Some q" by (auto simp: chain_of_def split: if_splits)
    let ?t = "set_queued p 0 (set_chain p None tes)"
    have u: "unchain_path p tes = unchain_path q ?t" using p by (subst unchain_path.simps) simp
    note f = set_chain_facts[where p = p and c = None and tes = tes]
    note g = set_queued_facts[where p = p and v = 0 and tes = "set_chain p None tes"]
    have q: "is_queued ?t x \<Longrightarrow> is_queued tes x" for x using p by (simp add: is_queued_set_queued f(4) split: if_splits)
    have c: "chain_of ?t = (chain_of tes)(p := None)" using f(5)[OF p(1)] g(4) by simp
    have cs: "chain_of ?t x = Some y \<Longrightarrow> chain_of tes x = Some y" for x y unfolding c by (simp split: if_splits)
    have "loop_inv T out ?t"
      by (rule loop_inv_step[OF "1.prems"]) (use f(1-3) g(1-3) q cs in auto)
    note ih = "1.IH"[OF p this]
    then have "chain_of (unchain_path p tes) = unchained q (chain_of ?t)" unfolding u by blast
    then have "chain_of (unchain_path p tes) = unchained p (chain_of tes)"
      unfolding c unchained_step[where c = "chain_of tes" and p = p, OF Some] .
    then show ?thesis using ih u q f(1) g(1) by auto
  qed
qed

text \<open>T12: the walk stops at an element seen before, or at one that it has marked itself: that one is on
  a cycle.\<close>

lemma find_start_inv:
  "find_start q tes = (tes', s) \<Longrightarrow> loop_inv T out tes \<Longrightarrow> (\<forall>p. q = Some p \<longrightarrow> p < length T \<and> p \<notin> set out) \<Longrightarrow>
   (\<forall>p x. q = Some p \<longrightarrow> is_queued tes x \<longrightarrow> seen x \<or> (x, p) \<in> (chain_rel (chain_of tes))\<^sup>+) \<Longrightarrow>
   loop_inv T out tes' \<and> chain_of tes' = chain_of tes \<and> map view tes' = map view tes \<and>
   (\<forall>x. is_queued tes' x \<longrightarrow> is_queued tes x \<or> (\<exists>p. q = Some p \<and> (p, x) \<in> (chain_rel (chain_of tes))\<^sup>*)) \<and>
   (\<forall>p. s = Some p \<longrightarrow> seen p \<or> (p, p) \<in> (chain_rel (chain_of tes))\<^sup>+)"
proof (induction q tes rule: find_start.induct)
  case (2 q tes)
  show ?case
  proof (cases "q < length tes \<and> \<not> is_queued tes q")
    case False
    have "q < length tes" using "2.prems"(2,3) rel_inv_length by (auto simp: loop_inv_def)
    then have "is_queued tes q" using False by simp
    then show ?thesis using False "2.prems" by auto
  next
    case True
    let ?t = "set_queued q 1 tes"
    have e: "find_start (tsi_chain (rpmteTSI tes q)) ?t = (tes', s)" using "2.prems"(1) True by simp
    note f = set_queued_facts[where p = q and v = 1 and tes = tes]
    have qd: "is_queued ?t x \<longleftrightarrow> x = q \<or> is_queued tes x" for x using True by (simp add: is_queued_set_queued)
    have i: "loop_inv T out ?t"
      by (rule loop_inv_step[OF "2.prems"(2) f(1,2,3)]) (use f(4) qd "2.prems"(3) in auto)
    have cq: "tsi_chain (rpmteTSI tes q) = chain_of tes q" using True by (simp add: chain_of_def)
    have nx: "\<forall>p. tsi_chain (rpmteTSI tes q) = Some p \<longrightarrow> p < length T \<and> p \<notin> set out"
      using chain_target[OF "2.prems"(2)] cq by simp
    have sn: "\<forall>p x. tsi_chain (rpmteTSI tes q) = Some p \<longrightarrow> is_queued ?t x \<longrightarrow>
        seen x \<or> (x, p) \<in> (chain_rel (chain_of ?t))\<^sup>+"
    proof (intro allI impI)
      fix p x assume a: "tsi_chain (rpmteTSI tes q) = Some p" "is_queued ?t x"
      then have "(q, p) \<in> chain_rel (chain_of tes)" using cq by simp
      then show "seen x \<or> (x, p) \<in> (chain_rel (chain_of ?t))\<^sup>+"
        using a(2) qd[of x] "2.prems"(4) f(4) by (metis r_into_trancl' trancl.trancl_into_trancl)
    qed
    have ih: "loop_inv T out tes' \<and> chain_of tes' = chain_of ?t \<and> map view tes' = map view ?t \<and>
      (\<forall>x. is_queued tes' x \<longrightarrow> is_queued ?t x \<or>
        (\<exists>p. tsi_chain (rpmteTSI tes q) = Some p \<and> (p, x) \<in> (chain_rel (chain_of ?t))\<^sup>*)) \<and>
      (\<forall>p. s = Some p \<longrightarrow> seen p \<or> (p, p) \<in> (chain_rel (chain_of ?t))\<^sup>+)"
      using "2.IH"[OF True e i nx sn] .
    have "is_queued tes x \<or> (q, x) \<in> (chain_rel (chain_of tes))\<^sup>*" if "is_queued tes' x" for x
      using ih that qd[of x] cq f(4) by (metis chain_rel_iff converse_rtrancl_into_rtrancl rtrancl.rtrancl_refl)
    then show ?thesis using ih f(1,4) by simp
  qed
qed simp

lemma rels_sub:
  assumes "rel_inv T out tes"
  shows "rels tes \<subseteq> rels T"
proof
  fix x assume x: "x \<in> rels tes"
  obtain q p where qp: "x = (q, p)" by fastforce
  then obtain r where r: "r \<in> set (tsi_next (rpmteTSI tes q))" "rel_suc r = p" "q < length T"
    using x rel_inv_length[OF assms] by (auto simp: rels_def sucs_def)
  then have "r \<in> set (tsi_next (rpmteTSI T q))" using assms unfolding rel_inv_def by blast
  then show "x \<in> rels T" using qp r by (auto simp: rels_def sucs_def)
qed

lemma chain_reach:
  assumes "loop_inv T out tes" "(y, x) \<in> (chain_rel (chain_of tes))\<^sup>*"
  shows "(x, y) \<in> (rels T)\<^sup>*"
proof -
  have "rel_inv T out tes" using assms(1) by (simp add: loop_inv_def)
  then have "chain_rel (chain_of tes) \<subseteq> (rels T)\<inverse>" using assms(1) rels_sub by (fastforce simp: loop_inv_def chain_rel_def)
  then have "(y, x) \<in> ((rels T)\<inverse>)\<^sup>*" using assms(2) rtrancl_mono by blast
  then show ?thesis by (simp add: rtrancl_converse)
qed

text \<open>T12 and T13 for one element.\<close>

definition seen_unchained :: "rpmte list \<Rightarrow> bool" where
  "seen_unchained tes \<longleftrightarrow> (\<forall>x. is_queued tes x \<longrightarrow> chain_of tes x = None)"

lemma break_chain_inv:
  assumes inv: "loop_inv T out tes" and seen: "seen_unchained tes" and r: "r < length T"
    and s: "find_start (tsi_chain (rpmteTSI tes r)) tes = (tes1, s)"
    and u: "(case s of None \<Rightarrow> (tes1, 0) | Some p \<Rightarrow> unchain_loop p tes1) = (tes2, z)"
  shows "loop_inv T out (unchain_path r tes2)" "seen_unchained (unchain_path r tes2)"
    "looped (rels T) (unchain_path r tes2) + z = looped (rels T) tes"
    "traceable T \<Longrightarrow> s = Some p \<Longrightarrow> \<not> is_queued tes p \<Longrightarrow> z \<noteq> 0"
proof -
  have rel: "rel_inv T out tes" using inv by (simp add: loop_inv_def)
  note l = rel_inv_length[OF rel]
  have c: "tsi_chain (rpmteTSI tes r) = chain_of tes r" using r l by (simp add: chain_of_def)
  have start: "\<forall>p. chain_of tes r = Some p \<longrightarrow> p < length T \<and> p \<notin> set out"
    using chain_target[OF inv] by blast
  have f: "loop_inv T out tes1" "chain_of tes1 = chain_of tes" "map view tes1 = map view tes"
    "\<forall>x. is_queued tes1 x \<longrightarrow> is_queued tes x \<or> (\<exists>p. chain_of tes r = Some p \<and> (p, x) \<in> (chain_rel (chain_of tes))\<^sup>*)"
    "\<forall>p. s = Some p \<longrightarrow> is_queued tes p \<or> (p, p) \<in> (chain_rel (chain_of tes))\<^sup>+"
    using find_start_inv[OF s inv, of "is_queued tes"] start c by auto
  have loop: "loop_inv T out tes2 \<and> chain_of tes2 = (case s of None \<Rightarrow> chain_of tes | Some p \<Rightarrow> unchained p (chain_of tes)) \<and>
      looped (rels T) tes2 + z = looped (rels T) tes \<and> (\<forall>x. is_queued tes2 x = is_queued tes1 x) \<and>
      (traceable T \<longrightarrow> (\<forall>p. s = Some p \<longrightarrow> chain_of tes p \<noteq> None \<longrightarrow> z \<noteq> 0))"
  proof (cases s)
    case None
    then show ?thesis using u f rels_view(3)[OF f(3)] by simp
  next
    case (Some p)
    have "\<forall>x y. (p, x) \<in> (chain_rel (chain_of tes1))\<^sup>* \<longrightarrow> chain_of tes1 x = Some y \<longrightarrow> (x, y) \<in> (rels T)\<^sup>*"
    proof (intro allI impI)
      fix x y assume a: "(p, x) \<in> (chain_rel (chain_of tes1))\<^sup>*" "chain_of tes1 x = Some y"
      have "chain_of tes p \<noteq> None" using a f(2) by (auto elim: converse_rtranclE)
      then have "\<not> is_queued tes p" using seen by (auto simp: seen_unchained_def)
      then have cyc: "(p, p) \<in> (chain_rel (chain_of tes))\<^sup>+" using f(5) Some by blast
      have "(p, y) \<in> (chain_rel (chain_of tes))\<^sup>*" using a f(2) by (metis chain_rel_iff rtrancl.rtrancl_into_rtrancl)
      then have "(y, p) \<in> (chain_rel (chain_of tes))\<^sup>*" by (rule cycle_back[OF cyc])
      then have "(y, x) \<in> (chain_rel (chain_of tes))\<^sup>*" using a(1) f(2) by (simp add: rtrancl_trans)
      then show "(x, y) \<in> (rels T)\<^sup>*" by (rule chain_reach[OF inv])
    qed
    then show ?thesis using unchain_loop_inv[of p tes1 tes2 z T out] u Some f(1,2) rels_view(3)[OF f(3)] by simp
  qed
  note path = unchain_path_inv[OF loop[THEN conjunct1], of r]
  then show "loop_inv T out (unchain_path r tes2)" by blast
  show "looped (rels T) (unchain_path r tes2) + z = looped (rels T) tes"
    using loop path rels_view(3)[of "unchain_path r tes2" tes2] by simp
  show "seen_unchained (unchain_path r tes2)"
    unfolding seen_unchained_def
  proof (intro allI impI)
    fix x assume "is_queued (unchain_path r tes2) x"
    then have "is_queued tes1 x" using path loop by blast
    then consider "is_queued tes x" | q where "chain_of tes r = Some q" "(q, x) \<in> (chain_rel (chain_of tes))\<^sup>*"
      using f(4) by blast
    then show "chain_of (unchain_path r tes2) x = None"
    proof cases
      case 1
      then have "chain_of tes x = None" using seen by (simp add: seen_unchained_def)
      then have "chain_of tes2 x = None" using loop by (simp add: unchained_def split: option.splits)
      then show ?thesis using path by (simp add: unchained_def)
    next
      case 2
      then have rx: "(r, x) \<in> (chain_rel (chain_of tes))\<^sup>*" by (metis chain_rel_iff converse_rtrancl_into_rtrancl)
      show ?thesis
      proof (cases s)
        case None
        then have "chain_of (unchain_path r tes2) = unchained r (chain_of tes)" using path loop by simp
        then show ?thesis using rx by (simp add: unchained_def)
      next
        case (Some p)
        then have "chain_of (unchain_path r tes2) = unchained r (unchained p (chain_of tes))" using path loop by simp
        then show ?thesis using unchained_all[OF rx] by simp
      qed
    qed
  qed
  assume t: "traceable T" and p: "s = Some p" "\<not> is_queued tes p"
  then have "(p, p) \<in> (chain_rel (chain_of tes))\<^sup>+" using f(5) by blast
  then have "chain_of tes p \<noteq> None" by (auto dest: tranclD)
  then show "z \<noteq> 0" using loop t p(1) by blast
qed

lemma break_chains_inv:
  "break_chains rs tes = (tes', z) \<Longrightarrow> loop_inv T out tes \<Longrightarrow> seen_unchained tes \<Longrightarrow> set rs \<subseteq> {..<length T} \<Longrightarrow>
     loop_inv T out tes' \<and> looped (rels T) tes' + z = looped (rels T) tes"
proof (induction rs arbitrary: tes z)
  case (Cons r rs)
  obtain tes1 s where s: "find_start (tsi_chain (rpmteTSI tes r)) tes = (tes1, s)" by fastforce
  obtain tes2 z1 where u: "(case s of None \<Rightarrow> (tes1, 0) | Some p \<Rightarrow> unchain_loop p tes1) = (tes2, z1)" by fastforce
  obtain zs where b: "break_chains rs (unchain_path r tes2) = (tes', zs)" "z = z1 + zs"
    using Cons.prems(1) s u by (auto simp: Let_def split: prod.splits)
  note one = break_chain_inv[OF Cons.prems(2,3) _ s u]
  show ?case using Cons.IH[OF b(1)] one(1-3) Cons.prems(4) b(2) by auto
qed simp

text \<open>Where every chained element leads to another one, the walk ends in a loop.\<close>

lemma find_start_total:
  "find_start q tes = (tes', s) \<Longrightarrow> q = Some p \<Longrightarrow> p \<in> S \<Longrightarrow> \<forall>x\<in>S. \<exists>y\<in>S. chain_of tes x = Some y \<Longrightarrow>
     \<exists>y\<in>S. s = Some y"
proof (induction q tes arbitrary: p rule: find_start.induct)
  case (2 q tes)
  show ?case
  proof (cases "q < length tes \<and> \<not> is_queued tes q")
    case True
    obtain y where y: "y \<in> S" "chain_of tes q = Some y" using "2.prems"(2-4) by blast
    then have e: "find_start (tsi_chain (rpmteTSI tes q)) (set_queued q 1 tes) = (tes', s)" "tsi_chain (rpmteTSI tes q) = Some y"
      using "2.prems"(1) True by (simp_all add: chain_of_def)
    show ?thesis using "2.IH"[OF True e y(1)] "2.prems"(4) set_queued_facts(4) by simp
  next
    case False
    then show ?thesis using "2.prems" by auto
  qed
qed simp

lemma break_chains_progress:
  assumes "break_chains rs tes = (tes', z)" "loop_inv T out tes" "set rs \<subseteq> {..<length T}"
    and "\<forall>x<length T. \<not> is_queued tes x" "traceable T" "r \<in> set rs" "chain_of tes r \<noteq> None"
    and "\<forall>x y. chain_of tes x = Some y \<longrightarrow> chain_of tes y \<noteq> None"
  shows "z \<noteq> 0"
  using assms(1,3,6)
proof (induction rs arbitrary: z)
  case (Cons a rs)
  have rel: "rel_inv T out tes" using assms(2) by (simp add: loop_inv_def)
  have l: "length tes = length T" by (rule rel_inv_length[OF rel])
  have ca: "tsi_chain (rpmteTSI tes a) = chain_of tes a" using Cons.prems(2) l by (simp add: chain_of_def)
  obtain tes1 s where s: "find_start (tsi_chain (rpmteTSI tes a)) tes = (tes1, s)" by fastforce
  obtain tes2 z1 where u: "(case s of None \<Rightarrow> (tes1, 0) | Some p \<Rightarrow> unchain_loop p tes1) = (tes2, z1)" by fastforce
  obtain zs where b: "break_chains rs (unchain_path a tes2) = (tes', zs)" "z = z1 + zs"
    using Cons.prems(1) s u by (auto simp: Let_def split: prod.splits)
  show ?case
  proof (cases "chain_of tes a")
    case None
    have "unchain_path a tes = tes" using None by (subst unchain_path.simps) (auto simp: chain_of_def split: if_splits)
    then have "break_chains rs tes = (tes', z)" using b s u ca None by simp
    moreover have "r \<in> set rs" using Cons.prems(3) assms(7) None by auto
    ultimately show ?thesis using Cons.IH Cons.prems(2) by simp
  next
    case (Some q)
    let ?S = "{x. chain_of tes x \<noteq> None}"
    obtain p where p: "s = Some p" "p \<in> ?S"
    proof -
      have "\<forall>x\<in>?S. \<exists>y\<in>?S. chain_of tes x = Some y" using assms(8) by blast
      moreover have "q \<in> ?S" using assms(8) Some by blast
      ultimately show ?thesis using find_start_total[OF s, of q ?S] Some ca that by auto
    qed
    then have "p < length T" using l by (simp add: chain_of_def split: if_splits)
    moreover have "seen_unchained tes" using assms(4) l by (auto simp: seen_unchained_def chain_of_def)
    moreover have "a < length T" using Cons.prems(2) by simp
    ultimately have "z1 \<noteq> 0" using break_chain_inv(4)[OF assms(2) _ _ s u assms(5) p(1)] assms(4) by blast
    then show ?thesis using b(2) by simp
  qed
qed simp

section \<open>Marking\<close>

lemma markLoop_inv:
  "loop_inv T out tes \<Longrightarrow> \<forall>(p, q)\<in>set w. (q, p) \<in> rels tes \<Longrightarrow>
     loop_inv T out (markLoop root w tes) \<and> map view (markLoop root w tes) = map view tes \<and>
     (\<forall>x. is_queued (markLoop root w tes) x = is_queued tes x) \<and>
     (\<forall>x. chain_of tes x \<noteq> None \<longrightarrow> chain_of (markLoop root w tes) x \<noteq> None) \<and>
     (\<forall>(p, q)\<in>set w. chain_of (markLoop root w tes) p \<noteq> None)"
proof (induction root w tes rule: markLoop.induct)
  case (2 root p q w tes)
  have rel: "rel_inv T out tes" using "2.prems"(1) by (simp add: loop_inv_def)
  note l = rel_inv_length[OF rel]
  have qp: "(q, p) \<in> rels tes" using "2.prems"(2) by simp
  then have p: "p < length tes" using rel l unfolding rel_inv_def by auto
  show ?case
  proof (cases "no_chain tes p")
    case False
    then have e: "markLoop root ((p, q) # w) tes = markLoop root w tes" by simp
    have "chain_of tes p \<noteq> None" using False p by (simp add: no_chain_def chain_of_def)
    then show ?thesis using "2.IH"(2)[OF _ "2.prems"(1)] False "2.prems"(2) unfolding e by auto
  next
    case True
    let ?w = "map (\<lambda>s. (s, p)) (if p = root then [] else sucs tes p) @ w" and ?t = "set_chain p (Some q) tes"
    have e: "markLoop root ((p, q) # w) tes = markLoop root ?w ?t" using True p by simp
    note f = set_chain_facts[where p = p and c = "Some q" and tes = tes]
    have r: "rels ?t = rels tes" by (rule rels_view(1)[OF f(1)])
    have "rel_inv T out ?t" using rel_inv_view[OF f(1) rel] "2.prems"(1) by (simp add: loop_inv_def)
    moreover have "marked_out out ?t" using "2.prems"(1) f(3,4) by (simp add: loop_inv_def marked_out_queued)
    moreover have "\<forall>te\<in>set ?t. te_depth te \<ge> 0" using depths_ok[OF f(2)] "2.prems"(1) by (simp add: loop_inv_def)
    moreover have "(y, x) \<in> rels ?t" if "chain_of ?t x = Some y" for x y
      using that f(5)[OF p] r qp "2.prems"(1) by (auto simp: loop_inv_def split: if_splits)
    ultimately have i: "loop_inv T out ?t" using "2.prems"(1) by (simp add: loop_inv_def)
    have w: "\<forall>(p, q)\<in>set ?w. (q, p) \<in> rels ?t" using "2.prems"(2) p unfolding r by (auto simp: rels_def)
    note ih = "2.IH"(1)[OF conjI[OF p True] i w]
    show ?thesis using ih f(1,4) f(5)[OF p] unfolding e by auto
  qed
qed simp

lemma mark_all_inv:
  "loop_inv T out tes \<Longrightarrow> set qs \<subseteq> {..<length T} \<Longrightarrow>
     loop_inv T out (mark_all qs tes) \<and> map view (mark_all qs tes) = map view tes \<and>
     (\<forall>x. is_queued (mark_all qs tes) x = is_queued tes x) \<and>
     (\<forall>x. chain_of tes x \<noteq> None \<longrightarrow> chain_of (mark_all qs tes) x \<noteq> None) \<and>
     (\<forall>q\<in>set qs. \<forall>p\<in>set (sucs tes q). chain_of (mark_all qs tes) p \<noteq> None)"
proof (induction qs arbitrary: tes)
  case (Cons q qs)
  let ?w = "map (\<lambda>s. (s, q)) (sucs tes q)"
  let ?t = "markLoop q ?w tes"
  have l: "length tes = length T" using Cons.prems(1) rel_inv_length by (auto simp: loop_inv_def)
  have w: "\<forall>(p, q)\<in>set ?w. (q, p) \<in> rels tes" using Cons.prems(2) l by (auto simp: rels_def)
  note m = markLoop_inv[OF Cons.prems(1) w, of q]
  have su: "sucs ?t x = sucs tes x" if "x < length T" for x using sucs_view[of ?t tes x] m that l by simp
  note ih = Cons.IH[of ?t]
  have ih: "loop_inv T out (mark_all qs ?t) \<and> map view (mark_all qs ?t) = map view ?t \<and>
     (\<forall>x. is_queued (mark_all qs ?t) x = is_queued ?t x) \<and>
     (\<forall>x. chain_of ?t x \<noteq> None \<longrightarrow> chain_of (mark_all qs ?t) x \<noteq> None) \<and>
     (\<forall>q\<in>set qs. \<forall>p\<in>set (sucs ?t q). chain_of (mark_all qs ?t) p \<noteq> None)"
    using Cons.IH[of ?t] m Cons.prems(2) by simp
  have "\<forall>x\<in>set (q # qs). \<forall>p\<in>set (sucs tes x). chain_of (mark_all qs ?t) p \<noteq> None"
  proof (intro ballI)
    fix x p assume a: "x \<in> set (q # qs)" "p \<in> set (sucs tes x)"
    show "chain_of (mark_all qs ?t) p \<noteq> None"
    proof (cases "x \<in> set qs")
      case True
      then show ?thesis using ih su[of x] a(2) Cons.prems(2) by auto
    next
      case False
      then have "chain_of ?t p \<noteq> None" using a m by auto
      then show ?thesis using ih by blast
    qed
  qed
  then show ?case using ih m by simp
qed simp

section \<open>Breaking loops\<close>

theorem break_loops_inv:
  assumes rel: "rel_inv T out tes" and out: "set out \<subseteq> {..<length T}" and all: "all_out T out tes"
    and dep: "\<forall>te\<in>set tes. te_depth te \<ge> 0" and b: "break_loops tes = (tes', z)"
  shows "loop_inv T out tes'" "looped (rels T) tes' + z = looped (rels T) tes"
    "traceable T \<Longrightarrow> p < length T \<Longrightarrow> p \<notin> set out \<Longrightarrow> z \<noteq> 0"
proof -
  let ?t = "map reset_te tes" and ?ixs = "[0..<length tes]"
  note l = rel_inv_length[OF rel] and r = rel[unfolded rel_inv_def]
  have ix: "set ?ixs \<subseteq> {..<length T}" using l by auto
  have t: "rpmteTSI ?t i = te_tsi (reset_te (tes ! i))" if "i < length T" for i
    using that l by (simp add: rpmteTSI_def)
  then have t: "tsi_next (rpmteTSI ?t i) = tsi_next (rpmteTSI tes i)" "chain_of ?t i = None" "\<not> is_queued ?t i"
    "tsi_count (rpmteTSI ?t i) = (if tsi_count (rpmteTSI tes i) = 0 then -1 else tsi_count (rpmteTSI tes i))"
    if "i < length T" for i
    using that by (simp_all add: reset_te_def rpmteTSI_def chain_of_def is_queued_def l)
  have su: "sucs ?t i = sucs tes i" if "i < length tes" for i using t(1) that l by (simp add: sucs_def)
  note rc = rels_cong[of ?t tes, OF length_map su]
  have cnt: "tsi_count (rpmteTSI ?t x) = int (incoming ?t x)" if "x < length T" "x \<notin> set out" for x
  proof -
    have "tsi_count (rpmteTSI tes x) = int (incoming tes x)" using r that by blast
    then show ?thesis using all that t(4)[of x] rc(2) by (simp add: all_out_def)
  qed
  have co: "tsi_count (rpmteTSI ?t x) < 0" if "x \<in> set out" for x
  proof -
    have "tsi_count (rpmteTSI tes x) \<le> 0" using r that by blast
    then show ?thesis using t(4)[of x] out that by auto
  qed
  have "rel_inv T out ?t"
    unfolding rel_inv_def
  proof (intro conjI)
    show "map te_core ?t = map te_core T" using r by (simp add: reset_te_def comp_def)
    show "\<forall>q<length T. set (tsi_next (rpmteTSI ?t q)) \<subseteq> set (tsi_next (rpmteTSI T q))" using r t(1) by metis
    show "\<forall>(q, p)\<in>rels ?t. p < length T \<and> q \<notin> set out \<and> p \<notin> set out" using r rc(1) by presburger
    show "\<forall>p<length T. p \<notin> set out \<longrightarrow> tsi_count (rpmteTSI ?t p) = int (incoming ?t p)" using cnt by blast
    show "\<forall>p\<in>set out. tsi_count (rpmteTSI ?t p) \<le> 0" using co by fastforce
    show "\<forall>(q, p)\<in>rels T. (p, q) \<notin> (rels T)\<^sup>* \<longrightarrow> (q, p) \<in> rels ?t \<or> q \<in> set out" using r rc(1) by presburger
  qed
  moreover have "marked_out out ?t" using co t(3) out by (auto simp: marked_out_queued)
  moreover have "\<forall>te\<in>set ?t. te_depth te \<ge> 0" using dep by (auto simp: reset_te_def)
  moreover have cn: "chain_of ?t x = None" for x using t(2)[of x] l by (cases "x < length T") (simp_all add: chain_of_def)
  ultimately have i: "loop_inv T out ?t" using out by (simp add: loop_inv_def)
  let ?m = "mark_all ?ixs ?t"
  note m = mark_all_inv[OF i ix]
  have lm: "looped (rels T) ?m = looped (rels T) tes" using rels_view(3)[of ?m ?t] m rc(3) by simp
  have e: "break_chains ?ixs ?m = (tes', z)" using b by (simp add: break_loops_def Let_def)
  have seen: "seen_unchained ?m"
    unfolding seen_unchained_def
  proof (intro allI impI)
    fix x assume "is_queued ?m x"
    then have "\<not> x < length T" using m t(3) by blast
    moreover have "length ?m = length T" using m rel_inv_length by (auto simp: loop_inv_def)
    ultimately show "chain_of ?m x = None" by (simp add: chain_of_def)
  qed
  show "loop_inv T out tes'" "looped (rels T) tes' + z = looped (rels T) tes"
    using break_chains_inv[OF e m[THEN conjunct1] seen ix] lm by simp_all
  assume tr: "traceable T" and p: "p < length T" "p \<notin> set out"
  have rels_m: "rels ?m = rels tes" using rels_view(1)[of ?m ?t] m rc(1) by simp
  have chained: "chain_of ?m x \<noteq> None" if x: "x < length T" "x \<notin> set out" for x
  proof -
    have "incoming tes x \<noteq> 0" using all x by (simp add: all_out_def)
    then obtain q where q: "(q, x) \<in> rels tes" using incoming_0[of tes x] by auto
    then have q': "q \<in> set ?ixs" "x \<in> set (sucs tes q)" by (auto simp: rels_def)
    have qn: "q < length tes" using q'(1) by simp
    have "x \<in> set (sucs ?t q)" using su[OF qn] q'(2) by simp
    then show ?thesis using m q'(1) by blast
  qed
  have "chain_of ?m y \<noteq> None" if "chain_of ?m x = Some y" for x y
  proof -
    have "(y, x) \<in> rels tes" using that m rels_m by (simp add: loop_inv_def)
    then have "y < length T \<and> y \<notin> set out" using r l by (auto simp: rels_def)
    then show ?thesis using chained by blast
  qed
  moreover have "p \<in> set ?ixs" using p l by simp
  ultimately show "z \<noteq> 0"
    using break_chains_progress[OF e m[THEN conjunct1] ix _ tr _ chained[OF p]] m t(3) by simp
qed

end
