(* ===== verification/RpmalThms.thy ===== *)
theory RpmalThms
  imports Rpmal DsThms BloomThms
begin

text \<open>
  The index of available packages is complete and correct: after \<open>rpmalMakeIndex\<close> the packages
  found for a name are those with a provide of that name, of a color of the transaction, that
  overlaps the dependency.
\<close>

section \<open>The order of the index\<close>

interpretation aidx: comparator indexcmp "\<lambda>_. True"
  by unfold_locales (auto simp: indexcmp_def strcmp_antisym intro: strcmp_trans split: if_splits)

definition entry_plain :: "availableIndexEntry \<Rightarrow> bool" where
  "entry_plain a \<longleftrightarrow> aie_entryLen a = entry_len (aie_entry a)"

lemma indexcmp_needle: "entry_plain a \<Longrightarrow> indexcmp a (index_needle n) = 0 \<longleftrightarrow> aie_entry a = n"
  by (auto simp: indexcmp_def entry_plain_def index_needle_def)

lemma needle_indexcmp: "entry_plain a \<Longrightarrow> indexcmp (index_needle n) a = 0 \<longleftrightarrow> aie_entry a = n"
  by (auto simp: indexcmp_def entry_plain_def index_needle_def)

lemma bsearch_needle:
  assumes "aidx.ordered ix" "\<And>a. a \<in> set ix \<Longrightarrow> entry_plain a"
  shows "(\<exists>b. bsearch indexcmp (index_needle n) ix = Some b) \<longleftrightarrow> (\<exists>a\<in>set ix. aie_entry a = n)"
  using aidx.bsearch_finds[of ix "index_needle n"] assms needle_indexcmp by auto

lemma rewind_spec:
  "k \<le> length ix \<Longrightarrow> rewind ix needle k \<le> k \<and>
     (\<forall>j. rewind ix needle k \<le> j \<and> j < k \<longrightarrow> indexcmp (ix ! j) needle = 0) \<and>
     (rewind ix needle k = 0 \<or> indexcmp (ix ! (rewind ix needle k - 1)) needle \<noteq> 0)"
  by (induction k) (auto simp: less_Suc_eq)

text \<open>The run of equal entries around a hit are all the equal entries.\<close>

lemma run_complete:
  assumes "aidx.ordered ix" "i < length ix" "indexcmp needle (ix ! i) = 0"
  shows "set (takeWhile (\<lambda>a. indexcmp a needle = 0) (drop (rewind ix needle i) ix)) =
    {a \<in> set ix. indexcmp a needle = 0}" (is "set ?run = ?all")
proof
  show "set ?run \<subseteq> ?all" by (auto dest: set_takeWhileD in_set_dropD)
next
  let ?r = "rewind ix needle i"
  note r = rewind_spec[of i ix needle, OF less_imp_le[OF assms(2)]]
  have sorted: "indexcmp (ix ! a) (ix ! b) \<le> 0" if "a < b" "b < length ix" for a b
    using assms(1) that by (auto simp: aidx.ordered_def sorted_wrt_iff_nth_less)
  have hit: "indexcmp (ix ! i) needle = 0" using aidx.eq_sym[OF _ _ assms(3)] by simp
  show "?all \<subseteq> set ?run"
  proof
    fix a
    assume "a \<in> ?all"
    then obtain k where k: "k < length ix" "ix ! k = a" "indexcmp (ix ! k) needle = 0" by (auto simp: in_set_conv_nth)
    have ge: "?r \<le> k"
    proof (rule ccontr)
      assume lt: "\<not> ?r \<le> k"
      then have p: "?r \<noteq> 0" "k \<le> ?r - 1" "?r - 1 < i" using r by auto
      have "indexcmp (ix ! k) (ix ! (?r - 1)) \<le> 0"
        using sorted[of k "?r - 1"] aidx.refl_0[of "ix ! k"] p assms(2) by (cases "k = ?r - 1") auto
      then have "indexcmp needle (ix ! (?r - 1)) \<le> 0"
        using aidx.trans[of needle "ix ! k" "ix ! (?r - 1)"] aidx.eq_sym[OF _ _ k(3)] by simp
      moreover have "indexcmp (ix ! (?r - 1)) needle \<le> 0"
        using aidx.trans[of "ix ! (?r - 1)" "ix ! i" needle] sorted[of "?r - 1" i] p(3) assms(2) hit by simp
      ultimately have "indexcmp (ix ! (?r - 1)) needle = 0"
        using aidx.anti[of "ix ! (?r - 1)" needle] by simp
      then show False using r p(1) by simp
    qed
    have between: "indexcmp (ix ! j) needle = 0" if "?r \<le> j" "j \<le> k" for j
    proof (cases "j < i")
      case True
      then show ?thesis using r that by blast
    next
      case False
      have "indexcmp (ix ! i) (ix ! j) \<le> 0"
        using sorted[of i j] aidx.refl_0[of "ix ! i"] False that k(1) by (cases "i = j") auto
      then have "indexcmp needle (ix ! j) \<le> 0"
        using aidx.trans[of needle "ix ! i" "ix ! j"] assms(3) by simp
      moreover have "indexcmp (ix ! j) needle \<le> 0"
        using aidx.trans[of "ix ! j" "ix ! k" needle] sorted[of j k] aidx.refl_0[of "ix ! j"] that k(1,3)
        by (cases "j = k") auto
      ultimately show ?thesis using aidx.anti[of "ix ! j" needle] by simp
    qed
    have "a = drop ?r ix ! (k - ?r)" "k - ?r < length (drop ?r ix)" using ge k by auto
    moreover have "k - ?r < length ?run"
    proof (rule ccontr)
      assume "\<not> k - ?r < length ?run"
      then have le: "length ?run \<le> k - ?r" by simp
      then have "length ?run < length (drop ?r ix)" using k(1) ge by simp
      then have "indexcmp (drop ?r ix ! length ?run) needle \<noteq> 0"
        using nth_length_takeWhile by blast
      moreover have "indexcmp (ix ! (?r + length ?run)) needle = 0"
        using between[of "?r + length ?run"] le ge by simp
      ultimately show False using k(1) ge le by simp
    qed
    ultimately show "a \<in> set ?run" by (metis nth_mem takeWhile_nth)
  qed
qed

section \<open>Sets of provides\<close>

definition color_at :: "rpmds \<Rightarrow> nat \<Rightarrow> u32" where
  "color_at P j = (case ds_Color P of None \<Rightarrow> 0 | Some c \<Rightarrow> c ! j)"

definition pkg_ok :: "dsenv \<Rightarrow> availablePackage \<Rightarrow> bool" where
  "pkg_ok e alp \<longleftrightarrow>
     (\<forall>P. alp_provides alp = Some P \<longrightarrow>
        ds_wf P \<and> names_parse e P \<and> ds_Count P \<le> 65536 \<and>
        (\<forall>c. ds_Color P = Some c \<longrightarrow> ds_Count P \<le> length c))"

definition al_ok :: "dsenv \<Rightarrow> rpmal \<Rightarrow> bool" where
  "al_ok e al \<longleftrightarrow> al_size al \<le> length (al_list al) \<and> (\<forall>i<al_size al. pkg_ok e (al_list al ! i))"

definition entry_for :: "int \<Rightarrow> rpmds \<Rightarrow> nat \<Rightarrow> availableIndexEntry" where
  "entry_for key P j =
     \<lparr>aie_pkgKey = key, aie_entry = nm P j, aie_entryLen = entry_len (nm P j), aie_entryIx = j\<rparr>"

definition rainbow :: "u32 \<Rightarrow> rpmds \<Rightarrow> nat \<Rightarrow> nat list" where
  "rainbow ts P k = filter (\<lambda>j. \<not> out_of_rainbow ts (color_at P j)) [k..<ds_Count P]"

lemma length_rainbow: "length (rainbow ts P k) \<le> ds_Count P - k"
  unfolding rainbow_def by (metis length_filter_le length_upt)

lemma same_set_color: "same_set d P \<Longrightarrow> ds_Color d = ds_Color P"
  by (auto simp: same_set_def)

lemma add_provide_at:
  assumes "pkg_ok e alp" "alp_provides alp = Some P" "k < ds_Count P" "length ix + length (rainbow ts P k) \<le> room"
  shows "add_provide ts key room (ds_at e P k) ix =
    ok (ix @ (if out_of_rainbow ts (color_at P k) then [] else [entry_for key P k]), False)"
proof -
  have w: "ds_wf P" "names_parse e P" "ds_Count P \<le> 65536" "\<forall>c. ds_Color P = Some c \<longrightarrow> ds_Count P \<le> length c"
    using assms(1,2) by (auto simp: pkg_ok_def)
  note nx = rpmdsNext_same[OF w(1,2) same_set_refl(2), of "int k - 1" k, simplified, OF assms(3)]
  note same = same_setD[OF nx(2)] same_set_color[OF nx(2)]
  obtain n where n: "ds_N P ! k = Some n" "k < length (ds_N P)" "nm P k = n"
    using w(1) assms(3) by (auto simp: ds_wf_def entry_at_def)
  have "lazy_get (ds_Color P) (ds_at e P k) = ok (color_at P k)"
    using w(4) assms(3) same nx(3) by (auto simp: lazy_get_def ds_valid_def color_at_def split: option.splits)
  then have col: "rpmdsColor (Some (ds_at e P k)) = ok (color_at P k)" using same by (simp add: rpmdsColor_def)
  have room: "length ix < room" if "\<not> out_of_rainbow ts (color_at P k)"
  proof -
    have "rainbow ts P k = k # rainbow ts P (Suc k)"
      using assms(3) that by (simp add: rainbow_def upt_conv_Cons)
    then show ?thesis using assms(4) by simp
  qed
  have "rpmdsIx (Some (ds_at e P k)) = int k" using nx(3) by (simp add: rpmdsIx_def)
  then show ?thesis
    using n same nx(3) col room w(3) assms(3)
    by (auto simp: add_provide_def entry_for_def)
qed

lemma each_adds:
  assumes "pkg_ok e alp" "alp_provides alp = Some P" "same_set P' P" "ds_i P' + 1 = int k" "k \<le> ds_Count P"
    and "length ix + length (rainbow ts P k) \<le> room"
  shows "\<exists>d. rpmdsEach e (add_provide ts key room) P' ix = ok (d, ix @ map (entry_for key P) (rainbow ts P k)) \<and>
    same_set d P"
  using assms(3-)
proof (induction "ds_Count P - k" arbitrary: k P' ix)
  case 0
  then have k: "k = ds_Count P" "ds_Count P' = ds_Count P" using same_setD by auto
  then show ?case
    using rpmdsNext_end[of P' k e] "0.prems" same_set_index
    by (subst rpmdsEach.simps) (simp add: rainbow_def)
next
  case (Suc n)
  have w: "ds_wf P" "names_parse e P" using assms(1,2) by (auto simp: pkg_ok_def)
  have k: "k < ds_Count P" using Suc by simp
  note nx = rpmdsNext_same[OF w Suc.prems(1,2) k]
  let ?new = "if out_of_rainbow ts (color_at P k) then [] else [entry_for key P k]"
  have split: "map (entry_for key P) (rainbow ts P k) = ?new @ map (entry_for key P) (rainbow ts P (Suc k))"
    using k by (simp add: rainbow_def upt_conv_Cons)
  then have len: "length (rainbow ts P k) = length ?new + length (rainbow ts P (Suc k))"
    by (metis length_append length_map)
  have "rpmdsEach e (add_provide ts key room) P' ix = rpmdsEach e (add_provide ts key room) (ds_at e P k) (ix @ ?new)"
    using nx(1) add_provide_at[OF assms(1,2) k Suc.prems(4)]
    by (subst rpmdsEach.simps) simp
  moreover have "\<exists>d. rpmdsEach e (add_provide ts key room) (ds_at e P k) (ix @ ?new) =
      ok (d, (ix @ ?new) @ map (entry_for key P) (rainbow ts P (Suc k))) \<and> same_set d P"
    using Suc.hyps(1)[of "Suc k" "ds_at e P k" "ix @ ?new"] Suc.hyps(2) Suc.prems(4) len nx(2,3) k by simp
  ultimately show ?case using split by simp
qed

section \<open>Building the index\<close>

definition same_pkg :: "availablePackage \<Rightarrow> availablePackage \<Rightarrow> bool" where
  "same_pkg a b \<longleftrightarrow> alp_key a = alp_key b \<and> alp_tscolor a = alp_tscolor b \<and> alp_bf a = alp_bf b \<and>
     rel_option same_set (alp_provides a) (alp_provides b)"

lemma same_pkg_refl [simp]: "same_pkg a a"
  by (cases "alp_provides a") (auto simp: same_pkg_def)

definition pkg_entries :: "availablePackage list \<Rightarrow> nat \<Rightarrow> availableIndexEntry list" where
  "pkg_entries L i =
     (case alp_provides (L ! i) of None \<Rightarrow> []
      | Some P \<Rightarrow> map (entry_for (int i) P) (rainbow (alp_tscolor (L ! i)) P 0))"

definition counts :: "availablePackage list \<Rightarrow> nat list \<Rightarrow> nat" where
  "counts L js = sum_list (map (\<lambda>i. rpmdsCount (alp_provides (L ! i))) js)"

lemma pkg_entries_le: "length (pkg_entries L i) \<le> rpmdsCount (alp_provides (L ! i))"
  using length_rainbow[of _ _ 0] by (auto simp: pkg_entries_def rpmdsCount_def split: option.splits)

lemma addProvides_ok:
  assumes "pkg_ok e (L ! i)" "i < al_size al" "al_index al = Some ix"
    and "length ix + counts L [i] \<le> al_isize al"
  shows "\<exists>P. rpmalAddProvides e al (int i) (alp_provides (L ! i)) (alp_tscolor (L ! i)) =
      ok (al\<lparr>al_index := Some (ix @ pkg_entries L i)\<rparr>, P) \<and> rel_option same_set P (alp_provides (L ! i))"
proof (cases "alp_provides (L ! i)")
  case None
  then show ?thesis using assms(3) by (simp add: rpmalAddProvides_def pkg_entries_def)
next
  case (Some P)
  have same: "al\<lparr>al_index := Some ix\<rparr> = al" using assms(3) by simp
  have c: "length ix + ds_Count P \<le> al_isize al" using assms(4) Some by (simp add: counts_def rpmdsCount_def)
  show ?thesis
  proof (cases "length ix < al_isize al")
    case True
    obtain d where "rpmdsEach e (add_provide (alp_tscolor (L ! i)) (int i) (al_isize al)) (rpmdsInit P) ix =
        ok (d, ix @ pkg_entries L i)" "same_set d P"
      using each_adds[OF assms(1) Some, of "rpmdsInit P" 0 ix "alp_tscolor (L ! i)" "al_isize al" "int i"] c
        length_rainbow[of "alp_tscolor (L ! i)" P 0] Some
      by (auto simp: rpmdsInit_def pkg_entries_def)
    then show ?thesis using Some assms(2,3) True by (simp add: rpmalAddProvides_def)
  next
    case False
    then have "ds_Count P = 0" using c by simp
    then have "pkg_entries L i = []"
      using pkg_entries_le[of L i] Some by (simp add: rpmdsCount_def)
    then show ?thesis using Some assms(3) False same by (simp add: rpmalAddProvides_def)
  qed
qed

lemma index_packages_ok:
  assumes "distinct js" "\<forall>i\<in>set js. i < al_size al \<and> i < length L \<and> pkg_ok e (L ! i) \<and> al_list al ! i = L ! i"
    and "list_all2 same_pkg (al_list al) L" "al_index al = Some ix" "length ix + counts L js \<le> al_isize al"
  shows "\<exists>l. index_packages e js al =
      ok (al\<lparr>al_list := l, al_index := Some (ix @ concat (map (pkg_entries L) js))\<rparr>) \<and> list_all2 same_pkg l L"
  using assms
proof (induction js arbitrary: al ix)
  case Nil
  then show ?case by (intro exI[of _ "al_list al"]) simp
next
  case (Cons i js)
  have i: "i < al_size al" "i < length L" "pkg_ok e (L ! i)" "al_list al ! i = L ! i" "i < length (al_list al)"
    using Cons.prems(2,3) list_all2_lengthD by fastforce+
  have c: "length ix + counts L [i] \<le> al_isize al" "length ix + counts L [i] + counts L js \<le> al_isize al"
    using Cons.prems(5) by (auto simp: counts_def)
  obtain P where P: "rpmalAddProvides e al (int i) (alp_provides (L ! i)) (alp_tscolor (L ! i)) =
      ok (al\<lparr>al_index := Some (ix @ pkg_entries L i)\<rparr>, P)" "rel_option same_set P (alp_provides (L ! i))"
    using addProvides_ok[OF i(3,1) Cons.prems(4) c(1)] by blast
  let ?al = "al\<lparr>al_index := Some (ix @ pkg_entries L i), al_list := (al_list al)[i := (L ! i)\<lparr>alp_provides := P\<rparr>]\<rparr>"
  have sp: "same_pkg ((L ! i)\<lparr>alp_provides := P\<rparr>) (L ! i)" using P(2) by (simp add: same_pkg_def)
  have keep: "(al_list al)[i := x] ! j = al_list al ! j" if "j \<in> set js" for j x
    using that Cons.prems(1) by (metis distinct.simps(2) nth_list_update_neq)
  have "list_all2 same_pkg (al_list ?al) L"
    using list_all2_update_cong[OF Cons.prems(3) sp, of i] by simp
  moreover have "length (ix @ pkg_entries L i) + counts L js \<le> al_isize ?al"
    using c(2) pkg_entries_le[of L i] by (simp add: counts_def)
  moreover have "\<forall>j\<in>set js. j < al_size ?al \<and> j < length L \<and> pkg_ok e (L ! j) \<and> al_list ?al ! j = L ! j"
    using Cons.prems(1,2) by (auto simp: keep)
  ultimately obtain l where "index_packages e js ?al =
      ok (?al\<lparr>al_list := l, al_index := Some ((ix @ pkg_entries L i) @ concat (map (pkg_entries L) js))\<rparr>)"
      "list_all2 same_pkg l L"
    using Cons.IH[of ?al "ix @ pkg_entries L i"] Cons.prems(1) by auto
  then show ?case using i P(1) by (intro exI[of _ l]) simp
qed

definition indexed :: "rpmal \<Rightarrow> rpmal \<Rightarrow> bool" where
  "indexed al al1 \<longleftrightarrow> list_all2 same_pkg (al_list al1) (al_list al) \<and> al_size al1 = al_size al \<and>
     (\<exists>ix. mset ix = mset (concat (map (pkg_entries (al_list al)) [0..<al_size al])) \<and> aidx.ordered ix \<and>
        al_isize al1 = length ix \<and> (ix \<noteq> [] \<longrightarrow> al_index al1 = Some ix))"

lemma rpmalMakeIndex_ok:
  assumes "al_ok e al"
  shows "\<exists>al1. rpmalMakeIndex e al = ok al1 \<and> indexed al al1"
proof -
  let ?L = "al_list al" and ?js = "[0..<al_size al]"
  let ?n = "sum_list (map (\<lambda>alp. rpmdsCount (alp_provides alp)) (take (al_size al) ?L))"
  let ?ix = "concat (map (pkg_entries ?L) ?js)"
  have sz: "al_size al \<le> length ?L" "\<forall>i<al_size al. pkg_ok e (?L ! i)" using assms by (auto simp: al_ok_def)
  have "take (al_size al) ?L = map ((!) ?L) ?js" using sz(1) by (auto intro!: nth_equalityI)
  then have n: "?n = counts ?L ?js" by (simp add: counts_def comp_def)
  have le: "length ?ix \<le> ?n"
    unfolding n counts_def length_concat by (simp add: comp_def sum_list_mono pkg_entries_le)
  have refl: "list_all2 same_pkg ?L ?L" by (simp add: list_all2_same)
  show ?thesis
  proof (cases "?n = 0")
    case True
    then have "length ?ix = 0" using le by (metis le_zero_eq)
    then have "?ix = []" by (metis length_0_conv)
    then show ?thesis using True refl
      by (auto simp: rpmalMakeIndex_def indexed_def aidx.ordered_def)
  next
    case False
    let ?al = "al\<lparr>al_isize := ?n, al_index := Some []\<rparr>"
    obtain l where "index_packages e ?js ?al = ok (?al\<lparr>al_list := l, al_index := Some ?ix\<rparr>)" "list_all2 same_pkg l ?L"
      using index_packages_ok[of ?js ?al ?L e "[]"] sz refl n by auto
    then have "rpmalMakeIndex e al =
        ok (?al\<lparr>al_list := l, al_isize := length ?ix, al_index := Some (qsort indexcmp ?ix)\<rparr>)"
      using False by (auto simp: rpmalMakeIndex_def Let_def length_concat)
    moreover have "indexed al (?al\<lparr>al_list := l, al_isize := length ?ix, al_index := Some (qsort indexcmp ?ix)\<rparr>)"
      unfolding indexed_def using \<open>list_all2 same_pkg l ?L\<close> aidx.ordered_qsort[of ?ix]
      by (auto intro!: exI[of _ "qsort indexcmp ?ix"] simp del: map_append)
    ultimately show ?thesis by blast
  qed
qed


section \<open>Lookup by name\<close>

text \<open>The provides that a lookup of the name \<open>n\<close> has to compare.\<close>

definition provider :: "rpmal \<Rightarrow> string \<Rightarrow> nat \<Rightarrow> rpmds \<Rightarrow> nat \<Rightarrow> bool" where
  "provider al n i P j \<longleftrightarrow> i < al_size al \<and> alp_provides (al_list al ! i) = Some P \<and> j < ds_Count P \<and>
     nm P j = n \<and> \<not> out_of_rainbow (alp_tscolor (al_list al ! i)) (color_at P j)"

lemma provider_entry:
  "a \<in> set (concat (map (pkg_entries (al_list al)) [0..<al_size al])) \<and> aie_entry a = n \<longleftrightarrow>
     (\<exists>i P j. provider al n i P j \<and> a = entry_for (int i) P j)"
proof -
  have mem: "a \<in> set (pkg_entries (al_list al) i) \<longleftrightarrow>
      (\<exists>P j. alp_provides (al_list al ! i) = Some P \<and> j < ds_Count P \<and>
        \<not> out_of_rainbow (alp_tscolor (al_list al ! i)) (color_at P j) \<and> a = entry_for (int i) P j)" for i
    by (cases "alp_provides (al_list al ! i)") (auto simp: pkg_entries_def rainbow_def)
  have "a \<in> set (concat (map (pkg_entries (al_list al)) [0..<al_size al])) \<longleftrightarrow>
      (\<exists>i<al_size al. a \<in> set (pkg_entries (al_list al) i))" by auto
  moreover have "aie_entry (entry_for k P j) = nm P j" for k P j by (simp add: entry_for_def)
  ultimately show ?thesis unfolding mem provider_def by metis
qed

lemma entries_plain: "a \<in> set (concat (map (pkg_entries L) js)) \<Longrightarrow> entry_plain a"
  by (auto simp: pkg_entries_def entry_for_def entry_plain_def split: option.splits)

lemma provide_matches_ok:
  assumes "pkg_ok e alp" "alp_provides alp = Some P" "same_set P' P" "j < ds_Count P"
    and "rpmdsCompare e (ds_at e P j) ds = ok r"
  shows "provide_matches e ds (Some P') j = ok (Some (ds_at e P j), r)" "same_set (ds_at e P j) P"
  using rpmdsNext_same[of P e "P'\<lparr>ds_i := int j - 1\<rparr>" j] assms same_set_index[OF assms(3)]
  by (auto simp: provide_matches_def rpmdsSetIx_def pkg_ok_def)

text \<open>The hits of a list of entries, by what the comparisons say.\<close>

definition hits :: "(int \<Rightarrow> nat \<Rightarrow> bool) \<Rightarrow> availableIndexEntry list \<Rightarrow> availableIndexEntry list" where
  "hits ovl xs = filter (\<lambda>a. ovl (aie_pkgKey a) (aie_entryIx a)) xs"

definition last_key :: "int \<Rightarrow> availableIndexEntry list \<Rightarrow> int" where
  "last_key key xs = (if xs = [] then key else aie_pkgKey (last xs))"

lemma match_loop_ok:
  assumes "list_all2 same_pkg l (al_list al)" "al_ok e al"
    and "\<forall>a\<in>set xs. entry_plain a \<and> (aie_entry a = n \<longrightarrow> (\<exists>i P j. provider al n i P j \<and> a = entry_for (int i) P j))"
    and "\<And>i P j. provider al n i P j \<Longrightarrow> rpmdsCompare e (ds_at e P j) ds = ok (ovl (int i) j)"
  shows "\<exists>l'. match_loop e ds (index_needle n) xs l ret key =
    (let h = hits ovl (takeWhile (\<lambda>a. indexcmp a (index_needle n) = 0) xs) in
     ok (l', ret @ map (\<lambda>a. alp_key (al_list al ! nat (aie_pkgKey a))) h, last_key key h)) \<and>
    list_all2 same_pkg l' (al_list al)"
  using assms(1,3)
proof (induction xs arbitrary: l ret key)
  case Nil
  then show ?case by (simp add: hits_def last_key_def)
next
  case (Cons a xs)
  show ?case
  proof (cases "aie_entry a = n")
    case False
    then have "indexcmp a (index_needle n) \<noteq> 0" using Cons.prems(2) indexcmp_needle by simp
    then show ?thesis using Cons.prems(1) by (simp add: hits_def last_key_def)
  next
    case True
    then have eq: "indexcmp a (index_needle n) = 0" using Cons.prems(2) indexcmp_needle by simp
    obtain i P j where p: "provider al n i P j" "a = entry_for (int i) P j" using Cons.prems(2) True by auto
    have i: "i < al_size al" "i < length (al_list al)" "pkg_ok e (al_list al ! i)" "i < length l"
      "alp_provides (al_list al ! i) = Some P" "j < ds_Count P"
      using p(1) assms(2) list_all2_lengthD[OF Cons.prems(1)] by (auto simp: provider_def al_ok_def)
    have sp: "same_pkg (l ! i) (al_list al ! i)" using list_all2_nthD[OF Cons.prems(1) i(4)] .
    then obtain P' where P': "alp_provides (l ! i) = Some P'" "same_set P' P"
      using i(5) by (auto simp: same_pkg_def option_rel_Some2)
    note m = provide_matches_ok[OF i(3,5) P'(2) i(6) assms(4)[OF p(1)]]
    let ?l = "l[i := (l ! i)\<lparr>alp_provides := Some (ds_at e P j)\<rparr>]"
    have "same_pkg ((l ! i)\<lparr>alp_provides := Some (ds_at e P j)\<rparr>) (al_list al ! i)"
      using sp m(2) i(5) by (simp add: same_pkg_def)
    then have l2: "list_all2 same_pkg ?l (al_list al)"
      using list_all2_update_cong[OF Cons.prems(1), of _ "al_list al ! i" i] by simp
    have k: "alp_key (l ! i) = alp_key (al_list al ! i)" using sp by (simp add: same_pkg_def)
    let ?ret = "if ovl (int i) j then ret @ [alp_key (al_list al ! i)] else ret"
    and ?key = "if ovl (int i) j then int i else key"
    have step: "match_loop e ds (index_needle n) (a # xs) l ret key = match_loop e ds (index_needle n) xs ?l ?ret ?key"
      using eq m(1) P'(1) i(4) p(2) k by (simp add: entry_for_def)
    obtain l' where "match_loop e ds (index_needle n) xs ?l ?ret ?key =
       (let h = hits ovl (takeWhile (\<lambda>a. indexcmp a (index_needle n) = 0) xs) in
        ok (l', ?ret @ map (\<lambda>a. alp_key (al_list al ! nat (aie_pkgKey a))) h, last_key ?key h))"
      "list_all2 same_pkg l' (al_list al)"
      using Cons.IH[OF l2] Cons.prems(2) by fastforce
    then show ?thesis using step eq p(2)
      by (intro exI[of _ l']) (auto simp: Let_def hits_def last_key_def entry_for_def)
  qed
qed

lemma provides_satisfy_ok:
  assumes "al_ok e al" "indexed al al1"
    and "\<And>i P j. provider al n i P j \<Longrightarrow> rpmdsCompare e (ds_at e P j) ds = ok (ovl (int i) j)"
  shows "\<exists>al2 h. provides_satisfy e al1 ds n key =
      ok (al2, map (\<lambda>a. alp_key (al_list al ! nat (aie_pkgKey a))) h, last_key key h) \<and>
    set h = {entry_for (int i) P j | i P j. provider al n i P j \<and> ovl (int i) j} \<and> indexed al al2"
proof -
  obtain ix where ix: "mset ix = mset (concat (map (pkg_entries (al_list al)) [0..<al_size al]))" "aidx.ordered ix"
    "al_isize al1 = length ix" "ix \<noteq> [] \<longrightarrow> al_index al1 = Some ix"
    and al1: "list_all2 same_pkg (al_list al1) (al_list al)" "al_size al1 = al_size al"
    using assms(2) by (auto simp: indexed_def)
  have sx: "set ix = set (concat (map (pkg_entries (al_list al)) [0..<al_size al]))" using ix(1) mset_eq_setD by blast
  have plain: "entry_plain a" if "a \<in> set ix" for a using that entries_plain sx by blast
  have prov: "a \<in> set ix \<and> aie_entry a = n \<longleftrightarrow> (\<exists>i P j. provider al n i P j \<and> a = entry_for (int i) P j)" for a
    unfolding sx by (rule provider_entry)
  have ovl: "ovl (aie_pkgKey (entry_for (int i) P j)) (aie_entryIx (entry_for (int i) P j)) = ovl (int i) j" for i P j
    by (simp add: entry_for_def)
  show ?thesis
  proof (cases "\<exists>a\<in>set ix. aie_entry a = n")
    case False
    then have "\<not> provider al n i P j" for i P j using prov by blast
    moreover have "ix \<noteq> [] \<Longrightarrow> bsearch indexcmp (index_needle n) ix = None"
      using False bsearch_needle[OF ix(2) plain, of n] by auto
    ultimately show ?thesis using ix(3,4) assms(2)
      by (intro exI[of _ al1] exI[of _ "[]"])
        (cases "ix = []"; auto simp: provides_satisfy_def Let_def last_key_def split: option.splits)
  next
    case True
    then have ne: "ix \<noteq> []" by auto
    obtain b where b: "bsearch indexcmp (index_needle n) ix = Some b"
      using True bsearch_needle[OF ix(2) plain, of n] by auto
    note bs = bsearch_Some[OF b]
    let ?run = "drop (rewind ix (index_needle n) b) ix"
    let ?h = "hits ovl (takeWhile (\<lambda>a. indexcmp a (index_needle n) = 0) ?run)"
    have run: "set (takeWhile (\<lambda>a. indexcmp a (index_needle n) = 0) ?run) = {a \<in> set ix. aie_entry a = n}"
      using run_complete[OF ix(2), of b "index_needle n"] bs plain indexcmp_needle by blast
    have "\<forall>a\<in>set ?run. entry_plain a \<and> (aie_entry a = n \<longrightarrow> (\<exists>i P j. provider al n i P j \<and> a = entry_for (int i) P j))"
      using plain prov by (meson in_set_dropD)
    then obtain l' where l': "match_loop e ds (index_needle n) ?run (al_list al1) [] key =
        ok (l', map (\<lambda>a. alp_key (al_list al ! nat (aie_pkgKey a))) ?h, last_key key ?h)"
        "list_all2 same_pkg l' (al_list al)"
      using match_loop_ok[OF al1(1) assms(1), of ?run n ds ovl "[]" key] assms(3) by (auto simp: Let_def)
    have "provides_satisfy e al1 ds n key = ok (al1\<lparr>al_list := l'\<rparr>,
        map (\<lambda>a. alp_key (al_list al ! nat (aie_pkgKey a))) ?h, last_key key ?h)"
      using ix(3,4) ne b l'(1) by (simp add: provides_satisfy_def Let_def)
    moreover have "set ?h = {entry_for (int i) P j | i P j. provider al n i P j \<and> ovl (int i) j}"
    proof -
      have "x \<in> set ?h \<longleftrightarrow> (\<exists>i P j. provider al n i P j \<and> x = entry_for (int i) P j) \<and> ovl (aie_pkgKey x) (aie_entryIx x)" for x
        unfolding hits_def set_filter run mem_Collect_eq prov by (rule refl)
      then show ?thesis using ovl by (intro set_eqI) (simp only: mem_Collect_eq, metis)
    qed
    moreover have "indexed al (al1\<lparr>al_list := l'\<rparr>)"
      using ix al1(2) l'(2) by (auto simp: indexed_def)
    ultimately show ?thesis by blast
  qed
qed

text \<open>C21: the lookup of a name is complete and correct. When the index has been built over packages with
  well-formed provides, the packages that \<open>rpmalAllSatisfiesDepend\<close> finds for a dependency on a name
  are exactly those with a provide of that name, not excluded by its color, that overlaps the
  dependency; the number it hands back is that of one of them, and \<open>RPMAL_NOMATCH\<close> where
  there is none.\<close>

theorem rpmalAllSatisfiesDepend_correct:
  assumes "al_ok e al" "rpmdsN e (Some ds) = ok (Some ds', Some n)" "\<not> is_path n"
    and "\<And>i P j. provider al n i P j \<Longrightarrow> rpmdsCompare e (ds_at e P j) ds' = ok (ovl (int i) j)"
  shows "\<exists>al1 al2 ret key. rpmalMakeIndex e al = ok al1 \<and>
    rpmalAllSatisfiesDepend e m (Some al1) (Some ds) = ok (Some al2, Some ds', ret, key) \<and>
    set ret = {alp_key (al_list al ! i) | i P j. provider al n i P j \<and> ovl (int i) j} \<and>
    (key = RPMAL_NOMATCH \<and> ret = [] \<or> (\<exists>i P j. key = int i \<and> provider al n i P j \<and> ovl (int i) j))"
proof -
  obtain al1 where al1: "rpmalMakeIndex e al = ok al1" "indexed al al1" using rpmalMakeIndex_ok[OF assms(1)] by blast
  obtain al2 h where r: "provides_satisfy e al1 ds' n RPMAL_NOMATCH =
      ok (al2, map (\<lambda>a. alp_key (al_list al ! nat (aie_pkgKey a))) h, last_key RPMAL_NOMATCH h)"
    "set h = {entry_for (int i) P j | i P j. provider al n i P j \<and> ovl (int i) j}"
    using provides_satisfy_ok[OF assms(1) al1(2), of n ds' ovl RPMAL_NOMATCH] assms(4) by blast
  let ?ret = "map (\<lambda>a. alp_key (al_list al ! nat (aie_pkgKey a))) h"
  have "set ?ret = {alp_key (al_list al ! i) | i P j. provider al n i P j \<and> ovl (int i) j}"
  proof -
    have "(\<lambda>a. alp_key (al_list al ! nat (aie_pkgKey a))) (entry_for (int i) P j) = alp_key (al_list al ! i)" for i P j
      by (simp add: entry_for_def)
    then show ?thesis unfolding set_map r(2) by (auto simp: image_def) (metis (lifting))+
  qed
  moreover have "last_key RPMAL_NOMATCH h = RPMAL_NOMATCH \<and> ?ret = [] \<or>
      (\<exists>i P j. last_key RPMAL_NOMATCH h = int i \<and> provider al n i P j \<and> ovl (int i) j)"
  proof (cases "h = []")
    case False
    then have "last h \<in> set h" by simp
    then obtain i P j where "last h = entry_for (int i) P j" and p: "provider al n i P j" "ovl (int i) j"
      unfolding r(2) by blast
    then have "last_key RPMAL_NOMATCH h = int i" using False by (simp add: last_key_def entry_for_def)
    then show ?thesis using p by blast
  qed (simp add: last_key_def)
  moreover have "rpmalAllSatisfiesDepend e m (Some al1) (Some ds) =
      ok (Some al2, Some ds', ?ret, last_key RPMAL_NOMATCH h)"
    using assms(2,3) r(1) by (simp add: rpmalAllSatisfiesDepend_def)
  ultimately show ?thesis using al1(1) by blast
qed


definition demo_pkg :: "fnpyKey \<Rightarrow> rpmds \<Rightarrow> availablePackage" where
  "demo_pkg key P = \<lparr>alp_provides = Some P, alp_bf = None, alp_tscolor = 0, alp_key = key\<rparr>"

definition demo_al :: "availablePackage list \<Rightarrow> rpmal" where
  "demo_al L = \<lparr>al_list = L, al_index = None, al_isize = 0, al_delta = 5, al_size = length L\<rparr>"

definition demo_mach :: almach where
  "demo_mach = \<lparr>am_le = True, am_vg = True, am_addr = (\<lambda>_. 4096)\<rparr>"

theorem rpmalAllSatisfiesDepend_correct_witness:
  "\<exists>al1 al2 ret key.
     rpmalMakeIndex example_env (demo_al [demo_pkg (Some 7) (example_ds ''foo'' ''1.0'' 8)]) = ok al1 \<and>
     rpmalAllSatisfiesDepend example_env demo_mach (Some al1) (Some (example_ds ''foo'' ''1.0'' 12)) =
       ok (Some al2, Some (example_ds ''foo'' ''1.0'' 12), ret, key) \<and> set ret = {Some 7} \<and> key = 0"
proof -
  let ?P = "example_ds ''foo'' ''1.0'' 8" and ?d = "example_ds ''foo'' ''1.0'' 12"
  let ?al = "demo_al [demo_pkg (Some 7) ?P]"
  have cc: "ds_Color ?P = None" by code_simp
  have nm: "nm ?P 0 = ''foo''" by code_simp
  have n: "rpmdsN example_env (Some ?d) = ok (Some ?d, Some ''foo'')" by code_simp
  have cmp: "rpmdsCompare example_env (ds_at example_env ?P 0) ?d = ok True" by code_simp
  have "al_ok example_env ?al"
    using example_foo cc by (simp add: al_ok_def pkg_ok_def demo_al_def demo_pkg_def)
  moreover have prov: "provider ?al ''foo'' i P j \<longleftrightarrow> i = 0 \<and> P = ?P \<and> j = 0" for i P j
    using example_foo(5) nm by (auto simp: provider_def demo_al_def demo_pkg_def out_of_rainbow_def)
  moreover have "\<not> is_path ''foo''" by (simp add: is_path_def)
  ultimately have "\<exists>al1 al2 ret key. rpmalMakeIndex example_env ?al = ok al1 \<and>
    rpmalAllSatisfiesDepend example_env demo_mach (Some al1) (Some ?d) = ok (Some al2, Some ?d, ret, key) \<and>
    set ret = {alp_key (al_list ?al ! i) | i P j. provider ?al ''foo'' i P j \<and> True} \<and>
    (key = RPMAL_NOMATCH \<and> ret = [] \<or> (\<exists>i P j. key = int i \<and> provider ?al ''foo'' i P j \<and> True))"
    using rpmalAllSatisfiesDepend_correct[of example_env ?al ?d ?d "''foo''" "\<lambda>_ _. True" demo_mach] n cmp
    by simp
  moreover have "alp_key (al_list ?al ! 0) = Some 7" by (simp add: demo_al_def demo_pkg_def)
  ultimately show ?thesis unfolding prov by auto
qed

section \<open>Lookup by path\<close>

lemma file_satisfies_ok:
  assumes "\<forall>bf. alp_bf alp = Some bf \<longrightarrow> bf_wf bf" "key_ok (am_le m) (am_vg m) (am_addr m fn, str_bytes fn, length fn)"
  shows "file_satisfies m fn alp = ok (case alp_bf alp of None \<Rightarrow> True
    | Some bf \<Rightarrow> probes (bf_m bf) (bf_k bf) (key_bytes (am_addr m fn, str_bytes fn, length fn)) \<subseteq> bf_set bf)"
proof (cases "alp_bf alp")
  case None
  then show ?thesis by (simp add: file_satisfies_def rpmbfChk_def)
next
  case (Some bf)
  then show ?thesis using chk_set[OF _ assms(2), of bf] assms(1) by (simp add: file_satisfies_def)
qed

lemma all_files_ok:
  assumes "\<forall>alp\<in>set L. file_satisfies m fn alp = ok (P alp)"
  shows "\<exists>key'. all_files m fn i L ret key = ok (ret @ map alp_key (filter P L), key')"
  using assms
proof (induction L arbitrary: i ret key)
  case (Cons alp L)
  then show ?case
    using Cons.IH[of "Suc i" "ret @ [alp_key alp]" "int i"] Cons.IH[of "Suc i" ret key] by (cases "P alp") simp_all
qed simp

text \<open>C22: a path is not missed: every package whose filter was filled with keys that include the path is
  among those that \<open>rpmalAllFileSatisfiesDepend\<close> finds, and so is every package without a filter.\<close>

theorem rpmal_path_not_missed:
  assumes "al_size al \<le> length (al_list al)" "\<forall>i<al_size al. \<forall>bf. alp_bf (al_list al ! i) = Some bf \<longrightarrow> bf_wf bf"
    and "rpmdsN e (Some ds) = ok (ds', Some fn)" "is_path fn"
    and "key_ok (am_le m) (am_vg m) (am_addr m fn, str_bytes fn, length fn)"
    and "i < al_size al" "alp_bf (al_list al ! i) = None \<or>
      bits \<noteq> 0 \<and> (\<forall>key\<in>set keys. key_ok le vg key) \<and>
      key_bytes (am_addr m fn, str_bytes fn, length fn) \<in> key_bytes ` set keys \<and>
      bf_fill le vg (Some (rpmbfNew bits k)) keys = ok (alp_bf (al_list al ! i))"
  shows "\<exists>ret key. rpmalAllFileSatisfiesDepend e m (Some al) (Some ds) = ok (ds', ret, key) \<and>
    alp_key (al_list al ! i) \<in> set ret"
proof -
  let ?L = "take (al_size al) (al_list al)"
  let ?P = "\<lambda>alp. case alp_bf alp of None \<Rightarrow> True
    | Some bf \<Rightarrow> probes (bf_m bf) (bf_k bf) (key_bytes (am_addr m fn, str_bytes fn, length fn)) \<subseteq> bf_set bf"
  have nth: "?L ! i = al_list al ! i" "i < length ?L" using assms(1,6) by auto
  have "\<forall>alp\<in>set ?L. file_satisfies m fn alp = ok (?P alp)"
  proof
    fix alp
    assume "alp \<in> set ?L"
    then have "\<forall>bf. alp_bf alp = Some bf \<longrightarrow> bf_wf bf" using assms(1,2) by (auto simp: in_set_conv_nth)
    then show "file_satisfies m fn alp = ok (?P alp)" by (rule file_satisfies_ok[OF _ assms(5)])
  qed
  from all_files_ok[OF this]
  obtain key where "all_files m fn 0 ?L [] RPMAL_NOMATCH = ok ([] @ map alp_key (filter ?P ?L), key)" by blast
  then have r: "all_files m fn 0 ?L [] RPMAL_NOMATCH = ok (map alp_key (filter ?P ?L), key)"
    by (simp only: append_Nil)
  have "?P (al_list al ! i)"
  proof (cases "alp_bf (al_list al ! i)")
    case (Some bf)
    then have f: "bits \<noteq> 0" "\<forall>key\<in>set keys. key_ok le vg key"
      "key_bytes (am_addr m fn, str_bytes fn, length fn) \<in> key_bytes ` set keys"
      "bf_fill le vg (Some (rpmbfNew bits k)) keys = ok (Some bf)" using assms(7) by auto
    have "bf_with (rpmbfNew bits k) (bf_set (rpmbfNew bits k) \<union>
        (\<Union>key\<in>set keys. probes (bf_m (rpmbfNew bits k)) (bf_k (rpmbfNew bits k)) (key_bytes key)))
        (bf_n (rpmbfNew bits k) + of_nat (length keys)) bf"
      using bf_fill_set[OF rpmbfNew_wf(1)[OF f(1), of k] f(2)] f(4) by auto
    then have "bf_m bf = bf_m (rpmbfNew bits k)" "bf_k bf = bf_k (rpmbfNew bits k)"
      "(\<Union>key\<in>set keys. probes (bf_m bf) (bf_k bf) (key_bytes key)) \<subseteq> bf_set bf"
      by (auto simp: bf_with_def)
    moreover obtain key where "key \<in> set keys" "key_bytes (am_addr m fn, str_bytes fn, length fn) = key_bytes key"
      using f(3) by auto
    ultimately have "probes (bf_m bf) (bf_k bf) (key_bytes (am_addr m fn, str_bytes fn, length fn)) \<subseteq> bf_set bf"
      by (metis UN_subset_iff)
    then show ?thesis using Some by simp
  qed simp
  then have "al_list al ! i \<in> set (filter ?P ?L)" using nth_mem[OF nth(2)] unfolding nth(1) by simp
  then have "alp_key (al_list al ! i) \<in> set (map alp_key (filter ?P ?L))"
    unfolding set_map by (rule imageI)
  moreover have "rpmalAllFileSatisfiesDepend e m (Some al) (Some ds) = ok (ds', map alp_key (filter ?P ?L), key)"
    using assms(3,4) r by (simp add: rpmalAllFileSatisfiesDepend_def)
  ultimately show ?thesis by blast
qed

lemma demo_path:
  "length ''/bin/sh'' = 7"
  "str_bytes ''/bin/sh'' = [47, 98, 105, 110, 47, 115, 104, 0]"
  "key_ok True False (0, [47, 98, 105, 110, 47, 115, 104, 0], 0)"
  "key_ok True True (4096, [47, 98, 105, 110, 47, 115, 104, 0], 7)"
  "key_bytes (0, [47, 98, 105, 110, 47, 115, 104, 0], 0) = [47, 98, 105, 110, 47, 115, 104]"
  "key_bytes (4096, [47, 98, 105, 110, 47, 115, 104, 0], 7) = [47, 98, 105, 110, 47, 115, 104]"
  by (simp_all add: str_bytes_def key_ok_def key_bytes_def key_length_def readable_def round4_def)

theorem rpmal_path_not_missed_witness:
  "\<exists>bf ret key. bf_fill True False (Some (rpmbfNew 64 2)) [(4096, [97, 98, 99, 0], 0), (0, str_bytes ''/bin/sh'', 0)] = ok (Some bf) \<and>
     rpmalAllFileSatisfiesDepend example_env demo_mach
     (Some (demo_al [(demo_pkg (Some 7) (example_ds ''foo'' ''1.0'' 8))\<lparr>alp_bf := Some bf\<rparr>])) (Some (example_ds ''/bin/sh'' [] 0)) =
     ok (Some (example_ds ''/bin/sh'' [] 0), ret, key) \<and> Some 7 \<in> set ret"
proof -
  let ?d = "example_ds ''/bin/sh'' [] 0" and ?keys = "[(4096, [97, 98, 99, 0], 0), (0, str_bytes ''/bin/sh'', 0)]"
  have k: "\<forall>key\<in>set ?keys. key_ok True False key" by (simp add: demo_keys demo_path)
  obtain bf where bf: "bf_fill True False (Some (rpmbfNew 64 2)) ?keys = ok (Some bf)" "bf_wf bf"
  proof -
    have "(64::u64) \<noteq> 0" by simp
    then show ?thesis using bf_fill_set[OF rpmbfNew_wf(1) k] that unfolding bf_with_def by blast
  qed
  let ?al = "demo_al [(demo_pkg (Some 7) (example_ds ''foo'' ''1.0'' 8))\<lparr>alp_bf := Some bf\<rparr>]"
  have al: "al_size ?al = 1" "al_list ?al ! 0 = (demo_pkg (Some 7) (example_ds ''foo'' ''1.0'' 8))\<lparr>alp_bf := Some bf\<rparr>"
    "length (al_list ?al) = 1" by (simp_all add: demo_al_def)
  have n: "rpmdsN example_env (Some ?d) = ok (Some ?d, Some ''/bin/sh'')" by code_simp
  have m: "am_le demo_mach = True" "am_vg demo_mach = True" "am_addr demo_mach ''/bin/sh'' = 4096"
    by (simp_all add: demo_mach_def)
  have "key_ok True True (4096, str_bytes ''/bin/sh'', length ''/bin/sh'')" by (simp only: demo_path)
  moreover have "key_bytes (4096, str_bytes ''/bin/sh'', length ''/bin/sh'') \<in> key_bytes ` set ?keys"
    by (simp only: demo_path list.set image_insert insert_iff simp_thms)
  moreover have "is_path ''/bin/sh''" by code_simp
  moreover have "alp_bf (al_list ?al ! 0) = Some bf" "alp_key (al_list ?al ! 0) = Some 7" by (simp_all add: demo_al_def demo_pkg_def)
  ultimately show ?thesis
    using rpmal_path_not_missed[of ?al example_env ?d "Some ?d" "''/bin/sh''" demo_mach 0 64 ?keys True False 2] n k bf
    unfolding m al(1,3) by auto
qed

end
