(* ===== verification/OrderThms.thy ===== *)
theory OrderThms
  imports OrderLoops RpmalThms
begin

text \<open>
  The order of a transaction. The sort returns with every element put out, or with the number of those
  left; the array is then rebuilt from the keys in the order in which they were put out. The relations
  recorded before the sort are well formed, so that the whole of \<open>rpmtsOrder\<close> yields a permutation of
  the elements in which an element follows those that it requires, as far as they are not in a loop
  with it; and it yields one whenever at most \<open>nrescans\<close> of the relations are in loops.
\<close>

section \<open>The sort\<close>

lemma out_inv_te:
  "out_inv T out st \<Longrightarrow> \<forall>te\<in>set tes. te_depth te \<ge> 0 \<Longrightarrow> out_inv T out (st\<lparr>ss_te := tes\<rparr>)"
  by (simp add: out_inv_def)

lemma out_inv_sub:
  assumes "out_inv T out st"
  shows "set out \<subseteq> {..<length T}" "\<forall>te\<in>set (ss_te st). te_depth te \<ge> 0" "distinct out"
  using assms by (simp_all add: out_inv_def)

lemma left_over:
  assumes "out_inv T out st" "ss_loopcheck st \<noteq> 0"
  shows "\<exists>x<length T. x \<notin> set out"
proof (rule ccontr)
  assume "\<not> ?thesis"
  then have "set out = {..<length T}" using assms(1) by (auto simp: out_inv_def)
  then have "length out = length T" using assms(1) distinct_card[of out] by (simp add: out_inv_def)
  then show False using assms by (simp add: out_inv_def)
qed

lemma tsort_inv:
  "rel_inv T out (ss_te st) \<Longrightarrow> out_inv T out st \<Longrightarrow> marked_out out (ss_te st) \<Longrightarrow>
   \<exists>st' out'. tsort k c ana st = ok st' \<and> rel_inv T out' (ss_te st') \<and> out_inv T out' st' \<and>
     (traceable T \<longrightarrow> looped (rels T) (ss_te st) \<le> k \<longrightarrow> ss_loopcheck st' = 0)"
proof (induction k arbitrary: st out)
  case (0 st)
  obtain st1 out1 where p: "sort_pass c ana st = ok st1" "rel_inv T out1 (ss_te st1)" "out_inv T out1 st1"
    "all_out T out1 (ss_te st1)" "looped (rels T) (ss_te st1) \<le> looped (rels T) (ss_te st)"
    using sort_pass_inv[OF 0(1-3)] by blast
  show ?case
  proof (cases "ss_loopcheck st1 = 0")
    case True
    then show ?thesis using p by auto
  next
    case False
    obtain tes z where b: "break_loops (ss_te st1) = (tes, z)" by fastforce
    obtain x where x: "x < length T" "x \<notin> set out1" using left_over[OF p(3) False] by blast
    note bl = break_loops_inv[OF p(2) out_inv_sub(1)[OF p(3)] p(4) out_inv_sub(2)[OF p(3)] b]
    have "\<not> (traceable T \<and> looped (rels T) (ss_te st) \<le> 0)"
      using bl(2) bl(3)[OF _ x] p(5) by linarith
    then show ?thesis
      using bl(1) p(1,3) False b out_inv_te by (auto simp: loop_inv_def)
  qed
next
  case (Suc k st)
  obtain st1 out1 where p: "sort_pass c ana st = ok st1" "rel_inv T out1 (ss_te st1)" "out_inv T out1 st1"
    "all_out T out1 (ss_te st1)" "looped (rels T) (ss_te st1) \<le> looped (rels T) (ss_te st)"
    using sort_pass_inv[OF Suc.prems] by blast
  show ?case
  proof (cases "ss_loopcheck st1 = 0")
    case True
    then show ?thesis using p by auto
  next
    case False
    obtain tes z where b: "break_loops (ss_te st1) = (tes, z)" by fastforce
    obtain x where x: "x < length T" "x \<notin> set out1" using left_over[OF p(3) False] by blast
    note bl = break_loops_inv[OF p(2) out_inv_sub(1)[OF p(3)] p(4) out_inv_sub(2)[OF p(3)] b]
    let ?st = "st1\<lparr>ss_te := tes\<rparr>"
    have i: "rel_inv T out1 (ss_te ?st)" "out_inv T out1 ?st" "marked_out out1 (ss_te ?st)"
      using bl(1) out_inv_te[OF p(3)] by (simp_all add: loop_inv_def)
    show ?thesis
    proof (cases "z = 0")
      case True
      then have "\<not> traceable T" using bl(3)[OF _ x] by blast
      then show ?thesis using i p(1) False b True by (auto simp: Let_def)
    next
      case nz: False
      then have "tsort (Suc k) c ana st = tsort k c ana ?st" using p(1) False b by (simp add: Let_def)
      moreover have "looped (rels T) (ss_te ?st) \<le> k" if "looped (rels T) (ss_te st) \<le> Suc k"
        using that nz bl(2) p(5) by simp
      ultimately show ?thesis using Suc.IH[OF i] by metis
    qed
  qed
qed

section \<open>The new array\<close>

lemma orderListIndexCmp_diff:
  assumes "0 \<le> fst a" "fst a < 2 ^ 31" "0 \<le> fst b" "fst b < 2 ^ 31"
  shows "orderListIndexCmp a b = fst a - fst b"
proof -
  have "sint (word_of_int (fst a - fst b) :: u32) = signed_take_bit 31 (fst a - fst b)" by (simp add: signed_of_int del: of_int_diff)
  also have "\<dots> = fst a - fst b" by (rule signed_take_bit_int_eq_self) (use assms in simp_all)
  finally show ?thesis by (simp add: orderListIndexCmp_def)
qed

interpretation order_keys: comparator orderListIndexCmp "\<lambda>a. 0 \<le> fst a \<and> fst a < 2 ^ 31"
  by unfold_locales (simp_all add: orderListIndexCmp_diff)

lemma find_key:
  assumes "distinct (map te_addedKey tes)" "\<forall>te\<in>set tes. 0 \<le> te_addedKey te \<and> te_addedKey te < 2 ^ 31" "j < length tes"
  defines "L \<equiv> qsort orderListIndexCmp (zip (map te_addedKey tes) [0..<length tes])"
  shows "\<exists>i. bsearch orderListIndexCmp (te_addedKey (tes ! j), 0) L = Some i \<and> L ! i = (te_addedKey (tes ! j), j)"
proof -
  let ?Z = "zip (map te_addedKey tes) [0..<length tes]" and ?k = "(te_addedKey (tes ! j), 0::nat)"
  have set_L: "set L = set ?Z" by (simp add: L_def)
  have mem: "x \<in> set ?Z \<longleftrightarrow> (\<exists>i<length tes. x = (te_addedKey (tes ! i), i))" for x
    by (cases x) (auto simp: in_set_zip intro!: exI[where x = "snd x"])
  have dom: "\<forall>x\<in>set L. 0 \<le> fst x \<and> fst x < 2 ^ 31" using assms(2) set_L mem by auto
  have dk: "0 \<le> fst ?k \<and> fst ?k < 2 ^ 31" using assms(2,3) by simp
  have ord: "order_keys.ordered L" unfolding L_def using dom set_L by (intro order_keys.ordered_qsort) simp
  have "(te_addedKey (tes ! j), j) \<in> set L" using set_L mem assms(3) by blast
  moreover have "orderListIndexCmp ?k (te_addedKey (tes ! j), j) = 0" using dk by (simp add: orderListIndexCmp_diff)
  ultimately obtain i where i: "bsearch orderListIndexCmp ?k L = Some i" using order_keys.bsearch_finds[OF dom dk ord] by blast
  then have il: "i < length L" "orderListIndexCmp ?k (L ! i) = 0" using bsearch_Some[OF i] by simp_all
  then have "L ! i \<in> set ?Z" using set_L nth_mem by blast
  then obtain x where x: "x < length tes" "L ! i = (te_addedKey (tes ! x), x)" using mem by blast
  then have "te_addedKey (tes ! x) = te_addedKey (tes ! j)"
    using il dk assms(2) by (simp add: orderListIndexCmp_diff)
  then have "x = j" using assms(1,3) x(1) by (simp add: distinct_conv_nth) (metis)
  then show ?thesis using i x by simp
qed

lemma pick_elements_map:
  assumes "\<And>j. j \<in> set out \<Longrightarrow> \<exists>i. bsearch orderListIndexCmp (key j, 0) L = Some i \<and> L ! i = (key j, j) \<and> key j \<noteq> RPMAL_NOMATCH"
    and "distinct out" "\<forall>j\<in>set out. j < length order \<and> order ! j = Some (tes ! j)"
  shows "pick_elements L (map key out) order = map ((!) tes) out"
  using assms
proof (induction out arbitrary: order)
  case (Cons j out)
  obtain i where i: "bsearch orderListIndexCmp (key j, 0) L = Some i" "L ! i = (key j, j)" "key j \<noteq> RPMAL_NOMATCH"
    using Cons.prems(1)[of j] by auto
  have "pick_elements L (map key out) (order[j := None]) = map ((!) tes) out"
    using Cons.prems by (intro Cons.IH) (auto simp: nth_list_update)
  then show ?case using i Cons.prems(3) by simp
qed simp

lemma new_order_map:
  assumes "distinct (map te_addedKey tes)" "\<forall>te\<in>set tes. 0 \<le> te_addedKey te \<and> te_addedKey te < 2 ^ 31"
    and "distinct out" "set out \<subseteq> {..<length tes}"
  shows "new_order tes (map (\<lambda>i. te_addedKey (tes ! i)) out) = map ((!) tes) out"
  unfolding new_order_def Let_def
proof (rule pick_elements_map)
  fix j assume "j \<in> set out"
  then have j: "j < length tes" using assms(4) by auto
  then have "te_addedKey (tes ! j) \<noteq> RPMAL_NOMATCH" using assms(2) nth_mem[OF j] by (fastforce simp: RPMAL_NOMATCH_def)
  then show "\<exists>i. bsearch orderListIndexCmp (te_addedKey (tes ! j), 0)
      (qsort orderListIndexCmp (zip (map te_addedKey tes) [0..<length tes])) = Some i \<and>
    qsort orderListIndexCmp (zip (map te_addedKey tes) [0..<length tes]) ! i = (te_addedKey (tes ! j), j) \<and>
    te_addedKey (tes ! j) \<noteq> RPMAL_NOMATCH"
    using find_key[OF assms(1,2) j] by blast
qed (use assms in auto)

section \<open>The relations recorded\<close>

definition recorded :: "rpmte list \<Rightarrow> bool" where
  "recorded tes \<longleftrightarrow> (\<forall>(q, p)\<in>rels tes. p < length tes) \<and>
     (\<forall>p<length tes. tsi_count (rpmteTSI tes p) = int (incoming tes p))"

lemma recorded_cong:
  assumes "recorded tes" "length tes' = length tes" "\<And>i. i < length tes \<Longrightarrow> te_tsi (tes' ! i) = te_tsi (tes ! i)"
  shows "recorded tes'" "rels tes' = rels tes" "incoming tes' = incoming tes"
proof -
  have "sucs tes' q = sucs tes q" if "q < length tes" for q using assms(3)[OF that] by (simp add: sucs_def rpmteTSI_def)
  note c = rels_cong[OF assms(2) this]
  then show "rels tes' = rels tes" "incoming tes' = incoming tes" by blast+
  show "recorded tes'" using assms c by (simp add: recorded_def rpmteTSI_def)
qed

lemma find_added_less: "find_added key tes = Some q \<Longrightarrow> q < length tes \<and> te_addedKey (tes ! q) = key"
  by (induction tes arbitrary: q) (auto split: if_splits)

text \<open>One relation more: from \<open>q\<close> to \<open>p\<close>.\<close>

lemma record_relation_rels:
  fixes p q requires ts
  defines "ts' \<equiv> record_relation p q requires ts"
  assumes "p < length (ts_order ts)" "q < length (ts_order ts)"
  shows "length (ts_order ts') = length (ts_order ts)" "rels (ts_order ts') = insert (q, p) (rels (ts_order ts))"
    "recorded (ts_order ts) \<Longrightarrow> recorded (ts_order ts')" "map te_core (ts_order ts') = map te_core (ts_order ts)"
    "ts_numAdded ts' = ts_numAdded ts"
proof -
  let ?tes = "ts_order ts" and ?tes' = "ts_order ts'"
  let ?r = "\<lparr>rel_suc = p, rel_tagn = rpmdsTagN (Some requires), rel_reqx = rpmdsIx (Some requires)\<rparr>"
  have t: "tsi_next (rpmteTSI ?tes' i) = (if i = q then ?r # tsi_next (rpmteTSI ?tes i) else tsi_next (rpmteTSI ?tes i))"
    "tsi_count (rpmteTSI ?tes' i) = tsi_count (rpmteTSI ?tes i) + (if i = p then 1 else 0)" for i
    using assms(2,3) unfolding ts'_def
    by (auto simp: record_relation_def Let_def rpmteTSI_set_tsi rpmteTSI_set_te) (auto simp: rpmteTSI_def set_tsi_def nth_set_te)
  show l: "length ?tes' = length ?tes" by (simp add: ts'_def record_relation_def Let_def)
  show "ts_numAdded ts' = ts_numAdded ts" by (simp add: ts'_def record_relation_def Let_def)
  have su: "sucs ?tes' i = (if i = q then p # sucs ?tes i else sucs ?tes i)" for i by (simp add: sucs_def t)
  show r: "rels ?tes' = insert (q, p) (rels ?tes)" using su l assms by (auto simp: rels_def split: if_splits)
  show "map te_core ?tes' = map te_core ?tes"
    by (simp add: ts'_def record_relation_def Let_def map_core_set_te)
  assume rec: "recorded ?tes"
  have "incoming ?tes' x = incoming ?tes x + (if x = p then 1 else 0)" for x
    using incoming_update[of q ?tes ?tes' x] assms l su by (auto split: if_splits)
  then show "recorded ?tes'" using rec r t(2) l assms(2) by (auto simp: recorded_def)
qed

definition recording :: "rpmts \<Rightarrow> rpmts \<Rightarrow> bool" where
  "recording ts ts' \<longleftrightarrow> length (ts_order ts') = length (ts_order ts) \<and>
     (recorded (ts_order ts) \<longrightarrow> recorded (ts_order ts')) \<and> rels (ts_order ts) \<subseteq> rels (ts_order ts')"

lemma recording_refl: "recording ts ts"
  by (simp add: recording_def)

lemma recording_trans: "recording ts1 ts2 \<Longrightarrow> recording ts2 ts3 \<Longrightarrow> recording ts1 ts3"
  by (auto simp: recording_def)

lemma recording_order: "ts_order ts' = ts_order ts \<Longrightarrow> recording ts ts'"
  by (simp add: recording_def)

lemma record_relation_recording:
  "p < length (ts_order ts) \<Longrightarrow> q < length (ts_order ts) \<Longrightarrow> recording ts (record_relation p q requires ts)"
  using record_relation_rels[of p ts q requires] by (auto simp: recording_def)

text \<open>What holds of the result of a computation, if it has one.\<close>

definition yields :: "'a outcome \<Rightarrow> ('a \<Rightarrow> bool) \<Rightarrow> bool" where
  "yields m P \<longleftrightarrow> (\<forall>x. m = ok x \<longrightarrow> P x)"

lemma yields_ok [simp]: "yields (ok x) P \<longleftrightarrow> P x"
  by (simp add: yields_def)

lemma yields_andThen: "(\<And>x. m = ok x \<Longrightarrow> yields (f x) P) \<Longrightarrow> yields (andThen m f) P"
  by (auto simp: yields_def andThen_Inr_iff)

lemma yields_bind: "yields m Q \<Longrightarrow> (\<And>x. m = ok x \<Longrightarrow> Q x \<Longrightarrow> yields (f x) P) \<Longrightarrow> yields (andThen m f) P"
  by (auto simp: yields_def andThen_Inr_iff)

lemma addRelation_recording:
  assumes "p < length (ts_order ts)"
  shows "yields (addRelation E bad er p R (ts, sel)) (\<lambda>(ts', _). recording ts ts')"
proof -
  have rr: "recording ts (record_relation a b R' ts1)"
    if "ts_order ts1 = ts_order ts" "a < length (ts_order ts)" "b < length (ts_order ts)" for a b R' ts1
    using record_relation_recording[of a ts1 b R'] that recording_order[OF that(1)] recording_trans by auto
  show ?thesis
    unfolding addRelation_def prod.case
    apply (rule yields_andThen)
    apply (simp only: split_beta)
    apply (rule if_split[THEN iffD2], intro conjI impI)
     apply (simp add: recording_refl)
    apply (rule yields_andThen)+
    apply (rule if_split[THEN iffD2], intro conjI impI)
     apply (simp add: recording_refl)
    apply (rule yields_andThen)
    apply (auto simp: Let_def recording_order rr assms dest!: find_added_less split: option.splits)
    done
qed

lemma rpmdsEach_yields:
  "(\<And>d s. I s \<Longrightarrow> yields (body d s) (\<lambda>(s', _). I s')) \<Longrightarrow> I s \<Longrightarrow>
     yields (rpmdsEach e body ds s) (\<lambda>(_, s'). I s')"
proof (induction e body ds s rule: rpmdsEach.induct)
  case (1 e body ds s)
  have "yields (if i < 0 then ok (d, s)
      else andThen (body d s) (\<lambda>(st', stop). if stop then ok (d, st') else rpmdsEach e body d st')) (\<lambda>(_, s'). I s')"
    if n: "rpmdsNext e ds = ok (d, i)" for d i
  proof (cases "i < 0")
    case False
    have "yields (case x of (st', stop) \<Rightarrow> if stop then ok (d, st') else rpmdsEach e body d st') (\<lambda>(_, s'). I s')"
      if b: "body d s = ok x" "case x of (s', _) \<Rightarrow> I s'" for x
    proof -
      obtain s1 stop where x: "x = (s1, stop)" by fastforce
      then have i1: "I s1" using b(2) by simp
      show ?thesis
      proof (cases stop)
        case go: False
        have "yields (rpmdsEach e body d s1) (\<lambda>(_, s'). I s')"
          by (rule "1.IH"[OF n refl False b(1) x[symmetric] go "1.prems"(1) i1])
        then show ?thesis using go x by simp
      qed (use x i1 in simp)
    qed
    then show ?thesis using False by (simp only: if_False) (rule yields_bind[OF "1.prems"(1)[OF "1.prems"(2)]])
  qed (use "1.prems"(2) in simp)
  then have "yields (andThen (rpmdsNext e ds) (\<lambda>(d, i). if i < 0 then ok (d, s)
      else andThen (body d s) (\<lambda>(st', stop). if stop then ok (d, st') else rpmdsEach e body d st'))) (\<lambda>(_, s'). I s')"
    by (intro yields_andThen) (simp add: split_beta)
  then show ?case by (subst rpmdsEach.simps)
qed

lemma require_body_recording:
  assumes "recording ts0 (fst st)" "p < length (ts_order ts0)"
  shows "yields (require_body E bad a er p R st) (\<lambda>(st', _). recording ts0 (fst st'))"
proof -
  have p: "p < length (ts_order (fst st))" using assms by (simp add: recording_def)
  have "yields (addRelation E bad er p R st) (\<lambda>(ts', _). recording (fst st) ts')"
    using addRelation_recording[OF p, of E bad er R "snd st"] by simp
  then show ?thesis
    unfolding require_body_def
    by (intro yields_andThen) (auto simp: assms(1) intro!: yields_bind[of "addRelation E bad er p R st"] dest: recording_trans[OF assms(1)])
qed

lemma add_each_recording:
  assumes "recording ts0 (fst st)" "p < length (ts_order ts0)"
  shows "yields (add_each E bad a er p tag st) (\<lambda>st'. recording ts0 (fst st'))"
proof (cases "rpmteDS (ts_order (fst st) ! p) tag")
  case (Some ds)
  have "yields (rpmdsEach (oe_ds E) (require_body E bad a er p) (rpmdsInit ds) st) (\<lambda>(_, st'). recording ts0 (fst st'))"
    by (rule rpmdsEach_yields) (auto intro: require_body_recording assms)
  then show ?thesis using Some by (auto simp: add_each_def intro!: yields_bind[of "rpmdsEach (oe_ds E) (require_body E bad a er p) (rpmdsInit ds) st"])
qed (simp add: add_each_def assms(1))

lemma set_type_recording: "recording ts (set_type ty p ts)"
proof -
  have "te_tsi (ts_order (set_type ty p ts) ! i) = te_tsi (ts_order ts ! i)" "length (ts_order (set_type ty p ts)) = length (ts_order ts)" for i
    by (simp_all add: set_type_def nth_set_te)
  then show ?thesis
    using recorded_cong[of "ts_order ts" "ts_order (set_type ty p ts)"]
      rels_cong(1)[of "ts_order (set_type ty p ts)" "ts_order ts"] by (auto simp: recording_def sucs_def rpmteTSI_def)
qed

lemma add_flinks_recording:
  "recording ts0 (fst st) \<Longrightarrow> p < length (ts_order ts0) \<Longrightarrow>
     yields (add_flinks E bad p pkgid qs st) (\<lambda>st'. recording ts0 (fst st'))"
proof (induction qs arbitrary: st)
  case (Cons q qs)
  have step: "yields (andThen (addRelation E bad False p R (set_type TR_ADDED p (fst st), snd st))
      (\<lambda>(ts, sel). add_flinks E bad p pkgid qs (set_type TR_REMOVED p ts, sel))) (\<lambda>st'. recording ts0 (fst st'))" for R
  proof -
    have r: "recording ts0 (set_type TR_ADDED p (fst st))" using recording_trans[OF Cons.prems(1) set_type_recording] .
    then have p: "p < length (ts_order (set_type TR_ADDED p (fst st)))" using Cons.prems(2) by (simp add: recording_def)
    show ?thesis
      by (rule yields_bind[OF addRelation_recording[OF p]])
        (auto intro!: Cons.IH Cons.prems(2) intro: recording_trans[OF recording_trans[OF r] set_type_recording])
  qed
  show ?case
    by (auto simp: Let_def Cons.prems intro!: yields_andThen Cons.IH step split: option.splits)
qed simp

lemma add_relations_recording:
  assumes "p < length (ts_order ts)"
  shows "yields (add_relations E bad p ts) (recording ts)"
proof -
  have e: "yields (add_each E bad a er p tag st) (\<lambda>st'. recording ts (fst st'))" if "recording ts (fst st)" for a er tag st
    by (rule add_each_recording[OF that assms])
  have f: "yields (case te_flink te of [] \<Rightarrow> ok st | pkgid # _ \<Rightarrow> if er then add_flinks E bad p pkgid qs st else ok st)
      (\<lambda>st'. recording ts (fst st'))" if "recording ts (fst st)" for te er qs st
    using add_flinks_recording[OF that assms] that by (auto split: list.split)
  show ?thesis
    unfolding add_relations_def Let_def
    by (rule yields_bind[OF e] yields_bind[OF f] | simp add: recording_refl | assumption)+ (auto simp: split_beta)
qed

lemma add_all_recording:
  "set ps \<subseteq> {..<length (ts_order ts)} \<Longrightarrow> yields (add_all E bad ps ts) (recording ts)"
proof (induction ps arbitrary: ts)
  case (Cons p ps)
  have p: "p < length (ts_order ts)" using Cons.prems by simp
  show ?case
    unfolding add_all.simps
  proof (rule yields_bind[OF add_relations_recording[OF p]])
    fix t assume r: "recording ts t"
    then have "yields (add_all E bad ps t) (recording t)" using Cons.prems by (intro Cons.IH) (simp add: recording_def)
    then show "yields (add_all E bad ps t) (recording ts)" using recording_trans[OF r] by (auto simp: yields_def)
  qed
qed (simp add: recording_refl)

lemma add_erased_length: "yields (add_erased ps ts) (\<lambda>ts'. length (ts_order ts') = length (ts_order ts))"
proof (induction ps arbitrary: ts)
  case (Cons p ps)
  have "yields (add_erased ps t) (\<lambda>ts'. length (ts_order ts') = length (ts_order ts))"
    if "length (ts_order t) = length (ts_order ts)" for t
    using Cons.IH[of t] that by (auto simp: yields_def)
  then show ?case by (auto simp: Let_def intro!: yields_andThen)
qed simp

lemma recorded_start: "recorded (map (\<lambda>te. te\<lparr>te_tsi := tsi_zero\<rparr>) tes)"
proof -
  let ?t = "map (\<lambda>te. te\<lparr>te_tsi := tsi_zero\<rparr>) tes"
  have "sucs ?t q = []" if "q < length tes" for q using that by (simp add: sucs_def rpmteTSI_def tsi_zero_def)
  then have "rels ?t = {}" by (auto simp: rels_def)
  then show ?thesis using incoming_0[of ?t] by (simp add: recorded_def rpmteTSI_def tsi_zero_def)
qed

lemma record_relations_recorded: "yields (record_relations E ts) (\<lambda>ts'. recorded (ts_order ts'))"
  unfolding record_relations_def Let_def
proof (rule yields_bind[OF add_erased_length], rule yields_andThen)
  fix t :: rpmts and erased assume l: "length (ts_order t) = length (ts_order ts)"
  let ?s = "t\<lparr>ts_erased := erased, ts_order := map (\<lambda>te. te\<lparr>te_tsi := tsi_zero\<rparr>) (ts_order t)\<rparr>"
  have "{0..<length (ts_order t)} \<subseteq> {..<length (ts_order t)}" by auto
  then have "yields (add_all E (badDeps E) [0..<length (ts_order ts)] ?s) (recording ?s)"
    using add_all_recording[of "[0..<length (ts_order ts)]" ?s E "badDeps E"] unfolding l[symmetric] by simp
  moreover have "recorded (ts_order ?s)" using recorded_start[of "ts_order t"] by simp
  ultimately show "yields (add_all E (badDeps E) [0..<length (ts_order ts)] ?s) (\<lambda>ts'. recorded (ts_order ts'))"
    unfolding yields_def recording_def by blast
qed

lemma save_preds_keeps:
  "save_preds ps treex tes = (tes', t') \<Longrightarrow> length tes' = length tes \<and> map te_core tes' = map te_core tes \<and>
     (\<forall>i<length tes. te_tsi (tes' ! i) = te_tsi (tes ! i) \<and>
       te_depth (tes' ! i) = (if i \<in> set ps then 0 else te_depth (tes ! i)))"
proof (induction ps arbitrary: treex tes)
  case (Cons p ps)
  let ?f = "\<lambda>te. te\<lparr>te_npreds := tsi_count (rpmteTSI tes p), te_depth := 0\<rparr>"
  let ?t1 = "set_te p ?f tes"
  let ?t2 = "if tsi_count (rpmteTSI tes p) = 0 then set_te p (\<lambda>te. te\<lparr>te_tree := treex + 1, te_breadth := treex + 1\<rparr>) ?t1
    else set_te p (\<lambda>te. te\<lparr>te_tree := -1\<rparr>) ?t1"
  have t: "length ?t2 = length tes" "map te_core ?t2 = map te_core tes"
    "\<forall>i<length tes. te_tsi (?t2 ! i) = te_tsi (tes ! i) \<and> te_depth (?t2 ! i) = (if i = p then 0 else te_depth (tes ! i))"
    by (auto simp: nth_set_te map_core_set_te)
  have "save_preds ps (if tsi_count (rpmteTSI tes p) = 0 then treex + 1 else treex) ?t2 = (tes', t')"
    using Cons.prems by (auto simp: Let_def split: if_splits)
  from Cons.IH[OF this] show ?case using t by auto
qed simp

section \<open>The order of a transaction\<close>

text \<open>The keys under which the sort puts elements out.\<close>

definition keys_ok :: "rpmte list \<Rightarrow> bool" where
  "keys_ok tes \<longleftrightarrow> distinct (map te_addedKey tes) \<and> (\<forall>te\<in>set tes. 0 \<le> te_addedKey te \<and> te_addedKey te < 2 ^ 31)"

lemma keys_ok_core: "map te_core tes' = map te_core tes \<Longrightarrow> keys_ok tes' = keys_ok tes"
proof -
  assume a: "map te_core tes' = map te_core tes"
  have "te_addedKey (te_core te) = te_addedKey te" for te by (simp add: te_core_def)
  then have "map te_addedKey xs = map te_addedKey (map te_core xs)" for xs by simp
  then have m: "map te_addedKey tes' = map te_addedKey tes" using a by metis
  have "keys_ok xs \<longleftrightarrow> distinct (map te_addedKey xs) \<and> (\<forall>k\<in>set (map te_addedKey xs). 0 \<le> k \<and> k < 2 ^ 31)" for xs
    by (simp add: keys_ok_def)
  then show ?thesis using m by metis
qed

lemma traceable_core:
  assumes "map te_core T = map te_core tes" "\<forall>i<length tes. te_tsi (T ! i) = te_tsi (tes ! i)" "recorded tes"
  shows "traceable T \<longleftrightarrow> traceable tes"
proof -
  have l: "length T = length tes" using assms(1) map_eq_imp_length_eq by blast
  have c: "te_type (T ! i) = te_type (tes ! i)" "te_PRCO (T ! i) = te_PRCO (tes ! i)" if "i < length tes" for i
  proof -
    have "map te_core T ! i = map te_core tes ! i" using assms(1) by simp
    then have "te_core (T ! i) = te_core (tes ! i)" using that l by simp
    from te_core_fields[OF this] show "te_type (T ! i) = te_type (tes ! i)" "te_PRCO (T ! i) = te_PRCO (tes ! i)" by blast+
  qed
  have s: "rel_suc r < length tes" if "q < length tes" "r \<in> set (tsi_next (rpmteTSI tes q))" for q r
  proof -
    have "(q, rel_suc r) \<in> rels tes" using that by (auto simp: rels_def sucs_def)
    then show ?thesis using assms(3) by (auto simp: recorded_def)
  qed
  have n: "tsi_next (rpmteTSI T q) = tsi_next (rpmteTSI tes q)" if "q < length tes" for q
    using assms(2) that by (simp add: rpmteTSI_def)
  have e: "rpmteDS (T ! (if te_type (T ! rel_suc r) = TR_REMOVED then q else rel_suc r)) (rel_tagn r) =
      rpmteDS (tes ! (if te_type (tes ! rel_suc r) = TR_REMOVED then q else rel_suc r)) (rel_tagn r)"
    if "q < length tes" "r \<in> set (tsi_next (rpmteTSI tes q))" for q r
    using c(1)[OF s[OF that]] c(2)[OF s[OF that]] c(2)[OF that(1)] by (simp add: rpmteDS_def)
  show ?thesis unfolding traceable_def l
    by (intro all_cong) (simp add: n e cong: ball_cong)
qed

lemma rpmtsOrder_result:
  assumes r: "record_relations E ts = ok ts1" and k: "keys_ok (ts_order ts1)"
  shows "\<exists>rc ts'. rpmtsOrder E ts = ok (rc, ts') \<and> 0 \<le> rc \<and>
    (rc = 0 \<longrightarrow> (\<exists>out. distinct out \<and> set out = {..<length (ts_order ts1)} \<and>
       map te_core (ts_order ts') = map (\<lambda>i. te_core (ts_order ts1 ! i)) out \<and>
       (\<forall>(q, p)\<in>rels (ts_order ts1). (p, q) \<notin> (rels (ts_order ts1))\<^sup>* \<longrightarrow> precedes out q p))) \<and>
    (traceable (ts_order ts1) \<longrightarrow> looped (rels (ts_order ts1)) (ts_order ts1) \<le> nrescans \<longrightarrow> rc = 0)"
proof -
  let ?tes = "ts_order ts1" let ?n = "length ?tes"
  have rec: "recorded ?tes" using record_relations_recorded[of E ts] r by (simp add: yields_def)
  obtain T tr where sp: "save_preds [0..<?n] 0 ?tes = (T, tr)" by fastforce
  note s = save_preds_keeps[OF sp]
  have T: "recorded T" "rels T = rels ?tes" "length T = ?n" "looped (rels T) T = looped (rels ?tes) ?tes"
    using recorded_cong[OF rec, of T] s rels_cong(3)[of T ?tes] by (auto simp: sucs_def rpmteTSI_def)
  let ?st = "start_sort (ts1\<lparr>ts_order := T, ts_ntrees := tr\<rparr>) T"
  have "rel_inv T [] (ss_te ?st)" using T(1) by (auto simp: rel_inv_def start_sort_def recorded_def)
  moreover have "out_inv T [] ?st" using s T(3) by (auto simp: out_inv_def start_sort_def in_set_conv_nth)
  moreover have "marked_out [] (ss_te ?st)" by (simp add: marked_out_def)
  ultimately obtain st out where st: "tsort nrescans (ts_prefcolor ts1) (ts_anaconda ts1) ?st = ok st"
    "rel_inv T out (ss_te st)" "out_inv T out st"
    "traceable T \<longrightarrow> looped (rels T) (ss_te ?st) \<le> nrescans \<longrightarrow> ss_loopcheck st = 0"
    using tsort_inv[of T "[]" ?st nrescans "ts_prefcolor ts1" "ts_anaconda ts1"] by blast
  have live: "traceable ?tes \<longrightarrow> looped (rels ?tes) ?tes \<le> nrescans \<longrightarrow> ss_loopcheck st = 0"
    using st(4) traceable_core[of T ?tes] s rec T(4) by (simp add: start_sort_def)
  note o = st(3)[unfolded out_inv_def]
  let ?new = "map (\<lambda>te. te\<lparr>te_tsi := tsi_zero\<rparr>) (ss_te st)"
  have core: "map te_core ?new = map te_core ?tes" using st(2) s by (simp add: rel_inv_def comp_def)
  have kk: "keys_ok ?new" using keys_ok_core[OF core] k by simp
  have ln: "length ?new = ?n" using core map_eq_imp_length_eq by blast
  have key: "te_addedKey (T ! i) = te_addedKey (?new ! i)" if "i < ?n" for i
  proof -
    have "map te_core ?new ! i = map te_core T ! i" using core s by simp
    then have "te_core (?new ! i) = te_core (T ! i)" using that ln T(3) by simp
    from te_core_fields[OF this] show ?thesis by simp
  qed
  have sub: "set out \<subseteq> {..<?n}" using o T(3) by simp
  have ok: "ss_ordering st = map (\<lambda>i. te_addedKey (?new ! i)) out"
    using o key sub by (auto intro!: map_cong)
  have "set out \<subseteq> {..<length ?new}" using sub ln by simp
  then have no: "new_order ?new (ss_ordering st) = map ((!) ?new) out"
    unfolding ok using kk[unfolded keys_ok_def] o by (intro new_order_map) blast+
  have lo: "length out \<le> ?n" using o sub by (metis card_lessThan card_mono distinct_card finite_lessThan)
  show ?thesis
  proof (cases "ss_loopcheck st = 0")
    case False
    then have "rpmtsOrder E ts =
        ok (ss_loopcheck st, ts1\<lparr>ts_order := ss_te st, ts_ntrees := tr, ts_unordered := ss_unordered st\<rparr>)"
      using r sp st(1) by (simp add: rpmtsOrder_def)
    then show ?thesis using False live o lo T(3) by auto
  next
    case True
    then have len: "length out = ?n" using o T(3) by simp
    then have all: "set out = {..<?n}" using o sub by (metis card_lessThan card_subset_eq distinct_card finite_lessThan)
    let ?ts = "ts1\<lparr>ts_order := map ((!) ?new) out, ts_ntrees := tr, ts_unordered := ss_unordered st\<rparr>"
    have run: "rpmtsOrder E ts = ok (0, ts1\<lparr>ts_order := map ((!) ?new) out, ts_ntrees := tr, ts_unordered := ss_unordered st\<rparr>)"
      using r sp st(1) True no len ln by (simp add: rpmtsOrder_def)
    have cores: "map te_core (map ((!) ?new) out) = map (\<lambda>i. te_core (?tes ! i)) out"
    proof -
      have "te_core (?new ! i) = te_core (?tes ! i)" if "i < ?n" for i
      proof -
        have "map te_core ?new ! i = map te_core ?tes ! i" using core by simp
        then show ?thesis using that ln by simp
      qed
      then show ?thesis using sub by auto
    qed
    have before: "\<forall>(q, p)\<in>rels ?tes. (p, q) \<notin> (rels ?tes)\<^sup>* \<longrightarrow> p \<in> set out \<longrightarrow> precedes out q p"
      using st(3) unfolding out_inv_def T(2) by (elim conjE)
    have prec: "\<forall>(q, p)\<in>rels ?tes. (p, q) \<notin> (rels ?tes)\<^sup>* \<longrightarrow> precedes out q p"
    proof (intro ballI, clarify)
      fix q p assume qp: "(q, p) \<in> rels ?tes" "(p, q) \<notin> (rels ?tes)\<^sup>*"
      then have "p \<in> set out" using rec all by (auto simp: recorded_def)
      then show "precedes out q p" using before qp by blast
    qed
    have "distinct out" using o by blast
    with all cores prec have "\<exists>out. distinct out \<and> set out = {..<?n} \<and>
       map te_core (ts_order ?ts) = map (\<lambda>i. te_core (?tes ! i)) out \<and>
       (\<forall>(q, p)\<in>rels ?tes. (p, q) \<notin> (rels ?tes)\<^sup>* \<longrightarrow> precedes out q p)" by auto
    then show ?thesis using run by blast
  qed
qed

section \<open>The order\<close>

text \<open>C23: The transaction is put in an order that respects the recorded relations. Let the index of the
  erased packages and the relations of all elements have been recorded without a fault, and let the
  keys of the elements be different numbers below 2 ^ 31 (the keys that the indexes of the added and the
  erased packages give out; \<open>orderListIndexCmp\<close> returns their difference as an int). Then
  \<open>_rpmtsOrder\<close> returns. When it returns 0, the new \<open>ts->order\<close> has each element exactly once,
  unchanged but for the fields that the sort fills in (predecessors, tree, depth, breadth, degree, parent,
  sort data), and for every recorded relation "p requires q"
  that is not part of a dependency loop q stands before p. (A relation is part of a loop if p is
  required, directly or through others, by q.)\<close>

theorem rpmtsOrder_sorted:
  assumes "record_relations E ts = ok ts1" "keys_ok (ts_order ts1)"
  shows "\<exists>rc ts'. rpmtsOrder E ts = ok (rc, ts') \<and>
    (rc = 0 \<longrightarrow> (\<exists>out. distinct out \<and> set out = {..<length (ts_order ts1)} \<and>
       map te_core (ts_order ts') = map (\<lambda>i. te_core (ts_order ts1 ! i)) out \<and>
       (\<forall>(q, p)\<in>rels (ts_order ts1). (p, q) \<notin> (rels (ts_order ts1))\<^sup>* \<longrightarrow> precedes out q p)))"
  using rpmtsOrder_result[OF assms] by blast

text \<open>C24: The order is found, whatever dependency loops there are, as long as the relations that lie
  on loops are not more than the 100 rescans. Under the conditions of the previous property, and if the
  dependency set in which \<open>zapRelation\<close> looks a relation up (that of the requiring element, of the
  required one if that is removed) exists for every recorded relation, \<open>_rpmtsOrder\<close> returns 0:
  each rescan removes a relation, only relations on loops are removed, and no element is left
  over when none is on a loop. (Each rescan may remove more than one relation, so the bound is
  sufficient, not necessary.)\<close>

theorem rpmtsOrder_succeeds:
  assumes "record_relations E ts = ok ts1" "keys_ok (ts_order ts1)" "traceable (ts_order ts1)"
    and "looped (rels (ts_order ts1)) (ts_order ts1) \<le> nrescans"
  shows "\<exists>ts'. rpmtsOrder E ts = ok (0, ts')"
  using rpmtsOrder_result[OF assms(1,2)] assms(3,4) by blast

section \<open>An example\<close>

text \<open>Three packages: \<open>foo\<close> requires \<open>bar\<close>; \<open>bar\<close> and \<open>baz\<close> require each other.\<close>

definition demo_set :: "string \<Rightarrow> nat \<Rightarrow> u32 \<Rightarrow> string \<Rightarrow> rpmds" where
  "demo_set ty t fl n =
     rpmdsGetPool\<lparr>ds_Type := Some ty, ds_N := [Some n, None],
       ds_DNEVR := Some (take 1 ty @ '' '' @ n @ '' '' @ (if fl = 12 then ''>='' else ''='') @ '' 1.0''),
       ds_EVR := Some [Some ''1.0'', None], ds_Flags := Some [fl], ds_tagN := t, ds_Count := 1,
       ds_ns := \<lparr>ns_str = Some (n @ [NUL]), ns_Type = NS_STRING, ns_NS = None, ns_N = Some 0, ns_A = None,
         ns_Flags = fl\<rparr>\<rparr>"

definition demo_req :: "string \<Rightarrow> rpmds" where
  "demo_req = demo_set ''Requires'' RPMTAG_REQUIRENAME 12"

definition demo_provides :: "string \<Rightarrow> rpmds" where
  "demo_provides = demo_set ''Provides'' RPMTAG_PROVIDENAME 8"

definition demo_entry :: "int \<Rightarrow> string \<Rightarrow> availableIndexEntry" where
  "demo_entry k n = \<lparr>aie_pkgKey = k, aie_entry = n, aie_entryLen = 3, aie_entryIx = 0\<rparr>"

definition demo_index :: "availableIndexEntry list" where
  "demo_index = [demo_entry 1 ''bar'', demo_entry 2 ''baz'', demo_entry 0 ''foo'']"

definition demo_added :: rpmal where
  "demo_added =
     \<lparr>al_list = map (\<lambda>n. demo_pkg None (demo_provides n)) [''foo'', ''bar'', ''baz''],
      al_index = Some demo_index, al_isize = 3, al_delta = 5, al_size = 3\<rparr>"

lemma demo_entry_simps [simp]:
  "aie_pkgKey (demo_entry k n) = k" "aie_entry (demo_entry k n) = n" "aie_entryLen (demo_entry k n) = 3"
  "aie_entryIx (demo_entry k n) = 0"
  by (simp_all add: demo_entry_def)

lemma demo_needle: "length n = 3 \<Longrightarrow> indexcmp (demo_entry k m) (index_needle n) = strcmp m n"
  by (simp add: indexcmp_def index_needle_def entry_len_def)

lemma demo_search:
  "bsearch indexcmp (index_needle ''bar'') demo_index = Some 0"
  "bsearch indexcmp (index_needle ''baz'') demo_index = Some (Suc 0)"
  by (simp_all add: bsearch_def bsearch_loop.simps index_needle_def indexcmp_def demo_index_def entry_len_def uval_def)

lemma demo_rewind:
  "rewind demo_index (index_needle ''bar'') 0 = 0"
  "rewind demo_index (index_needle ''baz'') (Suc 0) = Suc 0"
  by (simp_all add: demo_index_def demo_needle uval_def)

lemma slot_at: "i < length xs \<Longrightarrow> slot xs (int i) = ok (xs ! i)"
  by (simp add: slot_def)

lemma demo_match:
  assumes "provide_matches example_env (demo_req n) (Some (demo_provides n)) 0 = ok (Some (demo_provides n), True)"
    "L ! k = demo_pkg None (demo_provides n)" "k < length L" "length n = 3" "m \<noteq> n"
  shows "match_loop example_env (demo_req n) (index_needle n) (demo_entry (int k) n # demo_entry j m # es) L [] key0 =
       ok (L, [None], int k)"
proof -
  have "L[k := demo_pkg None (demo_provides n)] = L" using assms(2,3) by (simp add: list_update_same_conv)
  then show ?thesis using assms by (simp add: demo_needle slot_at demo_pkg_def)
qed

lemma demo_added_simps [simp]:
  "al_list demo_added = map (\<lambda>n. demo_pkg None (demo_provides n)) [''foo'', ''bar'', ''baz'']"
  "al_index demo_added = Some demo_index" "al_isize demo_added = 3" "take 3 demo_index = demo_index"
  "demo_added\<lparr>al_list := al_list demo_added\<rparr> = demo_added"
  by (simp_all add: demo_added_def demo_index_def)

lemma demo_facts:
  assumes "n \<in> {''bar'', ''baz''}"
  shows "rpmdsN example_env (Some (demo_set ty t fl n)) = ok (Some (demo_set ty t fl n), Some n)"
    and "rpmdsCompare example_env (demo_set ''Provides'' t 8 n) (demo_set ''Requires'' u 12 n) = ok True"
    and "rpmdsNext example_env (rpmdsInit (demo_set ''Requires'' t 12 n)) = ok (demo_set ''Requires'' t 12 n, 0)"
    and "rpmdsNext example_env (rpmdsInit (demo_set ''Provides'' t 8 n)) = ok (demo_set ''Provides'' t 8 n, 0)"
  using assms by (elim insertE emptyE; simp only:; code_simp)+

lemma demo_end:
  "ds_i d = 0 \<Longrightarrow> ds_Count d = 1 \<Longrightarrow> rpmdsNext e d = ok (d\<lparr>ds_i := -1\<rparr>, -1)"
  by (simp add: rpmdsNext_def)

lemma demo_matches:
  assumes "n \<in> {''bar'', ''baz''}"
  shows "provide_matches example_env (demo_req n) (Some (demo_provides n)) 0 = ok (Some (demo_provides n), True)"
  using demo_facts(2)[OF assms] demo_facts(4)[OF assms]
  by (simp add: provide_matches_def rpmdsSetIx_def rpmdsInit_def demo_provides_def demo_req_def)

lemma demo_provides_satisfy:
  "provides_satisfy example_env demo_added (demo_req ''bar'') ''bar'' key = ok (demo_added, [None], 1)"
   "provides_satisfy example_env demo_added (demo_req ''baz'') ''baz'' key = ok (demo_added, [None], 2)"
proof -
  note m = demo_match[OF demo_matches, where L = "al_list demo_added"]
  have "match_loop example_env (demo_req ''bar'') (index_needle ''bar'') demo_index (al_list demo_added) [] key =
      ok (al_list demo_added, [None], 1)"
    using m[of "''bar''" 1] by (simp add: demo_index_def)
  then show "provides_satisfy example_env demo_added (demo_req ''bar'') ''bar'' key = ok (demo_added, [None], 1)"
    by (simp add: provides_satisfy_def demo_search demo_rewind Let_def del: demo_added_simps(1) rewind.simps)
  have "match_loop example_env (demo_req ''baz'') (index_needle ''baz'') (drop (Suc 0) demo_index) (al_list demo_added) [] key =
      ok (al_list demo_added, [None], 2)"
    using m[of "''baz''" 2] by (simp add: demo_index_def)
  then show "provides_satisfy example_env demo_added (demo_req ''baz'') ''baz'' key = ok (demo_added, [None], 2)"
    by (simp add: provides_satisfy_def demo_search demo_rewind Let_def del: demo_added_simps(1) rewind.simps)
qed

lemma demo_N:
  assumes "n \<in> {''bar'', ''baz''}"
  shows "rpmdsN example_env (Some (demo_req n)) = ok (Some (demo_req n), Some n)"
  using demo_facts(1)[OF assms] by (simp add: demo_req_def)

lemma demo_sat:
  "rpmalSatisfiesDepend example_env demo_mach (Some demo_added) (Some (demo_req ''bar'')) =
     ok (Some demo_added, Some (demo_req ''bar''), None, 1)"
  "rpmalSatisfiesDepend example_env demo_mach (Some demo_added) (Some (demo_req ''baz'')) =
     ok (Some demo_added, Some (demo_req ''baz''), None, 2)"
  by (simp_all add: rpmalSatisfiesDepend_def rpmalAllSatisfiesDepend_def is_path_def demo_provides_satisfy nonnull_def demo_N
    del: demo_added_simps(1))

definition demo_ord :: ordenv where
  "demo_ord = \<lparr>oe_ds = example_env, oe_mach = demo_mach, oe_words = (\<lambda>_. None)\<rparr>"

definition demo_te :: "string \<Rightarrow> string \<Rightarrow> int \<Rightarrow> rpmte" where
  "demo_te n r key =
     \<lparr>te_type = TR_ADDED, te_name = n, te_color = 0,
      te_PRCO = Some \<lparr>prco_this = None, prco_P = Some (demo_provides n), prco_R = Some (demo_req r),
        prco_C = None, prco_O = None, prco_T = None, prco_D = None, prco_L = None\<rparr>,
      te_bf = None, te_pkgid = None, te_flink = [], te_addedKey = key, te_npreds = 0, te_tree = 0,
      te_depth = 0, te_breadth = 0, te_degree = 0, te_parent = None, te_tsi = tsi_zero\<rparr>"

definition demo_ts :: rpmts where
  "demo_ts =
     \<lparr>ts_order = [demo_te ''foo'' ''bar'' 0, demo_te ''bar'' ''baz'' 1, demo_te ''baz'' ''bar'' 2], ts_numAdded = 3,
      ts_added = Some demo_added, ts_erased = None, ts_color = 0, ts_prefcolor = 0, ts_anaconda = False,
      ts_maxDepth = 0, ts_ntrees = 0, ts_unordered = 0\<rparr>"

lemma demo_types:
  assumes "n \<in> {''bar'', ''baz''}"
  shows "ignored_ns (rpmdsNSType (Some (demo_req n))) = False" "is_path n = False" "rpmdsFlags (Some (demo_req n)) = ok 12"
  using assms by (auto simp: ignored_ns_def rpmdsNSType_def demo_req_def demo_set_def is_path_def rpmdsFlags_def ds_valid_def
    rpmdsGetPool_def slot_def)

lemma demo_addRelation:
  assumes "n \<in> {''bar'', ''baz''}" "ts_added ts = Some demo_added" "te_type (ts_order ts ! p) = TR_ADDED"
    and "find_added (if n = ''bar'' then 1 else 2) (ts_order ts) = Some q" "\<not> sel ! q"
  shows "addRelation demo_ord [] False p (demo_req n) (ts, sel) = ok (record_relation p q (demo_req n) ts, sel[q := True])"
proof -
  have "record_relation p q (demo_req n) (ts\<lparr>ts_added := Some demo_added\<rparr>) = record_relation p q (demo_req n) ts"
    using assms(2) by (metis rpmts.surjective rpmts.update_convs(3))
  then show ?thesis using assms
    by (auto simp: addRelation_def demo_ord_def demo_N demo_types demo_sat nonnull_def RPMAL_NOMATCH_def)
qed

lemma demo_each:
  assumes "n \<in> {''bar'', ''baz''}" "ts_added ts = Some demo_added" "te_type (ts_order ts ! p) = TR_ADDED"
    and "find_added (if n = ''bar'' then 1 else 2) (ts_order ts) = Some q" "\<not> sel ! q"
    and "rpmteDS (ts_order ts ! p) RPMTAG_REQUIRENAME = Some (demo_req n)"
  shows "add_each demo_ord [] True False p RPMTAG_REQUIRENAME (ts, sel) = ok (record_relation p q (demo_req n) ts, sel[q := True])"
proof -
  have b: "require_body demo_ord [] True False p (demo_req n) (ts, sel) =
      ok ((record_relation p q (demo_req n) ts, sel[q := True]), False)"
    using demo_addRelation[OF assms(1-5)] demo_types[OF assms(1)] by (simp add: require_body_def isAuto_def autobits_def)
  have "rpmdsNext example_env (rpmdsInit (demo_req n)) = ok (demo_req n, 0)"
    using demo_facts(3)[OF assms(1)] by (simp add: demo_req_def)
  moreover have "rpmdsNext example_env (demo_req n) = ok ((demo_req n)\<lparr>ds_i := -1\<rparr>, -1)"
    by (rule demo_end) (simp_all add: demo_req_def demo_set_def rpmdsGetPool_def)
  ultimately have "rpmdsEach example_env (require_body demo_ord [] True False p) (rpmdsInit (demo_req n)) (ts, sel) =
      ok ((demo_req n)\<lparr>ds_i := -1\<rparr>, record_relation p q (demo_req n) ts, sel[q := True])"
    using b by (simp add: rpmdsEach.simps[of _ _ "rpmdsInit d" for d] rpmdsEach.simps[of _ _ "demo_req n"])
  then show ?thesis using assms(6) by (simp add: add_each_def demo_ord_def)
qed

lemma record_relation_keeps [simp]:
  "te_PRCO (ts_order (record_relation p q d ts) ! i) = te_PRCO (ts_order ts ! i)"
  "te_type (ts_order (record_relation p q d ts) ! i) = te_type (ts_order ts ! i)"
  "te_flink (ts_order (record_relation p q d ts) ! i) = te_flink (ts_order ts ! i)"
  "te_addedKey (ts_order (record_relation p q d ts) ! i) = te_addedKey (ts_order ts ! i)"
  "length (ts_order (record_relation p q d ts)) = length (ts_order ts)"
  "ts_added (record_relation p q d ts) = ts_added ts"
  by (simp_all add: record_relation_def Let_def set_tsi_def nth_set_te)

lemma find_added_keys: "find_added k tes = find_added k tes'" if "map te_addedKey tes = map te_addedKey tes'"
  using that
proof (induction tes arbitrary: tes')
  case (Cons te tes)
  then show ?case by (cases tes') auto
qed simp

lemma demo_add_relations:
  assumes "n \<in> {''bar'', ''baz''}" "ts_added ts = Some demo_added" "te_PRCO (ts_order ts ! p) = te_PRCO (demo_te m n 0)"
    and t: "te_type (ts_order ts ! p) = TR_ADDED" and "te_flink (ts_order ts ! p) = []"
    and "map te_addedKey (ts_order ts) = [0, 1, 2]" "p < 3" "q = (if n = ''bar'' then 1 else 2)" "p \<noteq> q"
  shows "add_relations demo_ord [] p ts = ok (record_relation p q (demo_req n) ts)"
proof -
  have l: "length (ts_order ts) = 3" using assms(6) by (metis length_Cons length_map list.size(3) numeral_3_eq_3)
  have f: "find_added (if n = ''bar'' then 1 else 2) (ts_order ts) = Some q"
    using assms(8) find_added_keys[of "ts_order ts" "[demo_te ''a'' ''b'' 0, demo_te ''a'' ''b'' 1, demo_te ''a'' ''b'' 2]"] assms(6)
    by (simp add: demo_te_def)
  have s: "\<not> (replicate 3 False)[p := True] ! q" using assms(7-9) by (auto simp: nth_list_update)
  have "rpmteDS (ts_order ts ! p) RPMTAG_REQUIRENAME = Some (demo_req n)"
    by (simp add: rpmteDS_def assms(3) rpmdsFromPRCO_def demo_te_def)
  note e = demo_each[OF assms(1,2) t f s this]
  show ?thesis unfolding add_relations_def
    by (simp add: l t e assms(5)) (simp add: add_each_def rpmteDS_def assms(3) demo_te_def rpmdsFromPRCO_def)
qed

lemma record_relation_map_keys: "map te_addedKey (ts_order (record_relation p q d ts)) = map te_addedKey (ts_order ts)"
  by (rule nth_equalityI) simp_all

definition demo_ts1 :: rpmts where
  "demo_ts1 = record_relation 2 1 (demo_req ''bar'') (record_relation 1 2 (demo_req ''baz'')
     (record_relation 0 1 (demo_req ''bar'') demo_ts))"

lemma demo_recorded: "record_relations demo_ord demo_ts = ok demo_ts1"
proof -
  have b: "badDeps demo_ord = []" by (simp add: badDeps_def demo_ord_def example_env_def)
  have o: "demo_ts\<lparr>ts_order := map (\<lambda>te. te\<lparr>te_tsi := tsi_zero\<rparr>) (ts_order demo_ts)\<rparr> = demo_ts"
    by (simp add: demo_ts_def demo_te_def)
  have ts: "ts_erased demo_ts = None" "ts_added demo_ts = Some demo_added" "length (ts_order demo_ts) = 3"
      "map te_addedKey (ts_order demo_ts) = [0, 1, 2]"
    by (simp_all add: demo_ts_def demo_te_def)
  have e: "add_erased [0..<3] demo_ts = ok demo_ts" "demo_ts\<lparr>ts_erased := None\<rparr> = demo_ts"
    by (simp_all add: demo_ts_def demo_te_def upt_rec)
  have te: "te_PRCO (ts_order demo_ts ! 0) = te_PRCO (demo_te ''foo'' ''bar'' 0)"
    "te_PRCO (ts_order demo_ts ! 1) = te_PRCO (demo_te ''bar'' ''baz'' 0)"
    "te_PRCO (ts_order demo_ts ! 2) = te_PRCO (demo_te ''baz'' ''bar'' 0)"
    "\<forall>i<3. te_type (ts_order demo_ts ! i) = TR_ADDED \<and> te_flink (ts_order demo_ts ! i) = []"
    by (simp_all add: demo_ts_def demo_te_def less_Suc_eq numeral_3_eq_3 numeral_2_eq_2 all_conj_distrib)
  let ?r1 = "record_relation 0 1 (demo_req ''bar'') demo_ts" and ?b = "demo_req ''bar''" and ?z = "demo_req ''baz''"
  have a1: "add_relations demo_ord [] 0 demo_ts = ok ?r1" by (rule demo_add_relations) (use te ts in \<open>simp_all add: record_relation_map_keys\<close>)
  have a2: "add_relations demo_ord [] 1 ?r1 = ok (record_relation 1 2 ?z ?r1)"
    by (rule demo_add_relations) (use te ts in \<open>simp_all add: record_relation_map_keys\<close>)
  have a3: "add_relations demo_ord [] 2 (record_relation 1 2 ?z ?r1) = ok (record_relation 2 1 ?b (record_relation 1 2 ?z ?r1))"
    by (rule demo_add_relations) (use te ts in \<open>simp_all add: record_relation_map_keys\<close>)
  have "[0..<3] = [0, 1, 2::nat]" by (simp add: upt_rec)
  then have "add_all demo_ord [] [0..<3] demo_ts = ok demo_ts1"
    using a1 a2 a3 by (simp add: demo_ts1_def)
  then show ?thesis by (simp add: record_relations_def ts b e o opt_index_def)
qed

lemma record_relation_next:
  "q < length (ts_order ts) \<Longrightarrow> tsi_next (rpmteTSI (ts_order (record_relation p q d ts)) i) =
     (if i = q then [\<lparr>rel_suc = p, rel_tagn = rpmdsTagN (Some d), rel_reqx = rpmdsIx (Some d)\<rparr>] else []) @
     tsi_next (rpmteTSI (ts_order ts) i)"
  by (simp add: record_relation_def Let_def rpmteTSI_set_tsi rpmteTSI_set_te)
    (simp add: rpmteTSI_def set_tsi_def nth_set_te)

lemma demo_next:
  "length (ts_order demo_ts1) = 3" "map te_addedKey (ts_order demo_ts1) = [0, 1, 2]"
  "map (\<lambda>i. map (\<lambda>r. (rel_suc r, rel_tagn r)) (tsi_next (rpmteTSI (ts_order demo_ts1) i))) [0, 1, 2] =
     [[], [(2, RPMTAG_REQUIRENAME), (0, RPMTAG_REQUIRENAME)], [(1, RPMTAG_REQUIRENAME)]]"
  "i < 3 \<Longrightarrow> te_type (ts_order demo_ts1 ! i) = TR_ADDED \<and> rpmteDS (ts_order demo_ts1 ! i) RPMTAG_REQUIRENAME \<noteq> None"
proof -
  have "length (ts_order demo_ts) = 3" "map (\<lambda>i. tsi_next (rpmteTSI (ts_order demo_ts) i)) [0, 1, 2] = [[], [], []]"
    "map te_addedKey (ts_order demo_ts) = [0, 1, 2]"
    by (simp_all add: demo_ts_def rpmteTSI_def demo_te_def tsi_zero_def)
  moreover have "rpmdsTagN (Some (demo_req n)) = RPMTAG_REQUIRENAME" for n
    by (simp add: rpmdsTagN_def demo_req_def demo_set_def)
  ultimately show "length (ts_order demo_ts1) = 3" "map te_addedKey (ts_order demo_ts1) = [0, 1, 2]"
    "map (\<lambda>i. map (\<lambda>r. (rel_suc r, rel_tagn r)) (tsi_next (rpmteTSI (ts_order demo_ts1) i))) [0, 1, 2] =
     [[], [(2, RPMTAG_REQUIRENAME), (0, RPMTAG_REQUIRENAME)], [(1, RPMTAG_REQUIRENAME)]]"
    by (simp_all add: demo_ts1_def record_relation_next record_relation_map_keys)
  show "te_type (ts_order demo_ts1 ! i) = TR_ADDED \<and> rpmteDS (ts_order demo_ts1 ! i) RPMTAG_REQUIRENAME \<noteq> None" if "i < 3"
    using that by (auto simp: demo_ts1_def rpmteDS_def rpmdsFromPRCO_def)
      (auto simp: demo_ts_def demo_te_def nth_Cons less_Suc_eq numeral_3_eq_3 split: nat.splits)
qed

lemma demo_rels:
  "keys_ok (ts_order demo_ts1)" "rels (ts_order demo_ts1) = {(1, 2), (1, 0), (2, 1)}"
  "traceable (ts_order demo_ts1)" "looped R (ts_order demo_ts1) \<le> nrescans"
  "map te_core (ts_order demo_ts1) = map te_core (ts_order demo_ts)"
proof -
  let ?T = "ts_order demo_ts1"
  have su: "sucs ?T 0 = []" "sucs ?T 1 = [2, 0]" "sucs ?T 2 = [1]"
    using arg_cong[OF demo_next(3), of "map (map fst)"] by (simp_all add: sucs_def comp_def)
  have lt: "i < length ?T \<longleftrightarrow> i = 0 \<or> i = 1 \<or> i = 2" for i by (auto simp: demo_next(1))
  show "rels ?T = {(1, 2), (1, 0), (2, 1)}" unfolding rels_def lt using su by auto
  have "keys_ok ?T \<longleftrightarrow> distinct (map te_addedKey ?T) \<and> (\<forall>k\<in>set (map te_addedKey ?T). 0 \<le> k \<and> k < 2 ^ 31)"
    by (simp add: keys_ok_def)
  then show "keys_ok ?T" unfolding demo_next(2) by simp
  have "looped R ?T \<le> (\<Sum>q<length ?T. length (sucs ?T q))"
    unfolding looped_def by (rule sum_mono) simp
  also have "{..<length ?T} = {0, 1, 2}" unfolding lessThan_def lt by auto
  also have "(\<Sum>q\<in>{0, 1, 2}. length (sucs ?T q)) \<le> nrescans" using su by (simp add: nrescans_def)
  finally show "looped R ?T \<le> nrescans" .
  have "rel_suc r < 3 \<and> rel_tagn r = RPMTAG_REQUIRENAME" if "q < length ?T" "r \<in> set (tsi_next (rpmteTSI ?T q))" for q r
  proof -
    have "(rel_suc r, rel_tagn r) \<in> set (map (\<lambda>r. (rel_suc r, rel_tagn r)) (tsi_next (rpmteTSI ?T q)))" using that(2) by force
    then show ?thesis using that(1) demo_next(3) lt[of q] by auto
  qed
  then show "traceable ?T" using demo_next(4) by (auto simp: traceable_def demo_next(1))
  show "map te_core ?T = map te_core (ts_order demo_ts)"
    by (simp add: demo_ts1_def record_relation_def Let_def map_core_set_te)
qed

theorem rpmtsOrder_sorted_witness:
  "\<exists>rc ts'. rpmtsOrder demo_ord demo_ts = ok (rc, ts') \<and> (rc = 0 \<longrightarrow> (\<exists>out. distinct out \<and> set out = {0, 1, 2} \<and>
     map te_name (ts_order ts') = map (\<lambda>i. te_name (ts_order demo_ts ! i)) out \<and> precedes out 1 0))"
proof -
  let ?T = "ts_order demo_ts1"
  obtain rc ts' where o: "rpmtsOrder demo_ord demo_ts = ok (rc, ts')"
    "rc = 0 \<longrightarrow> (\<exists>out. distinct out \<and> set out = {..<length ?T} \<and>
       map te_core (ts_order ts') = map (\<lambda>i. te_core (?T ! i)) out \<and>
       (\<forall>(q, p)\<in>rels ?T. (p, q) \<notin> (rels ?T)\<^sup>* \<longrightarrow> precedes out q p))"
    using rpmtsOrder_sorted[OF demo_recorded demo_rels(1)] by blast
  have "0 \<notin> Domain (rels ?T)" unfolding demo_rels(2) by simp
  then have l: "(0, 1) \<notin> (rels ?T)\<^sup>*" by (simp add: Not_Domain_rtrancl)
  have n: "map te_name xs = map te_name (map te_core xs)" for xs by (simp add: te_core_def comp_def)
  have nm: "map te_name (ts_order ts') = map (\<lambda>i. te_name (ts_order demo_ts ! i)) out"
    if "map te_core (ts_order ts') = map (\<lambda>i. te_core (?T ! i)) out" "set out = {..<length ?T}" for out
  proof -
    have "te_name (?T ! i) = te_name (ts_order demo_ts ! i)" if "i < length ?T" for i
      using arg_cong[OF demo_rels(5), of "\<lambda>xs. map te_name xs ! i"] that demo_rels(5)[THEN map_eq_imp_length_eq]
      by (simp add: te_core_def)
    then show ?thesis using n[of "ts_order ts'"] that by (auto simp: te_core_def)
  qed
  have d: "{..<length ?T} = {0, 1, 2}" unfolding demo_next(1) by auto
  have pr: "precedes out 1 0" if "\<forall>(q, p)\<in>rels ?T. (p, q) \<notin> (rels ?T)\<^sup>* \<longrightarrow> precedes out q p" for out
    using that l unfolding demo_rels(2) by blast
  show ?thesis using o nm pr unfolding d by blast
qed

theorem rpmtsOrder_succeeds_witness: "\<exists>ts'. rpmtsOrder demo_ord demo_ts = ok (0, ts')"
  using demo_recorded demo_rels(1,3,4) by (rule rpmtsOrder_succeeds)

end
