(* ===== verification/Iosm.thy ===== *)
theory Iosm
  imports CLib
begin

unbundle bit_operations_syntax

text \<open>
  The payload stages of \<open>rpmio/iosm.c\<close>: the state that the readers and writers of cpio, tar and ar
  archives share, the stages that read, write, align and pad the payload, the loops that copy the
  data of a file, and the number fields of archive headers.

  \<open>IOSM_t\<close> is the record \<open>iosm\<close>. Of the payload file \<open>cfd\<close> the model keeps the bytes that are still to
  be read, the bytes written so far, the position, the error flag and how many bytes the sink still
  takes; a file in error yields no bytes. The buffers \<open>rdbuf\<close> and \<open>wrbuf\<close> are their contents, their
  lengths are \<open>rdsize\<close> and \<open>wrsize\<close>. A stage returns its code beside the state; reading past a buffer
  or writing behind it is a fault. Stages do not run on threads of their own; logging is left out.
\<close>

section \<open>Error codes\<close>

abbreviation IOSMERR_CHECK_ERRNO :: int where "IOSMERR_CHECK_ERRNO \<equiv> 0x8000"
definition IOSMERR_BAD_MAGIC :: int where "IOSMERR_BAD_MAGIC = 2"
definition IOSMERR_BAD_HEADER :: int where "IOSMERR_BAD_HEADER = 3"
definition IOSMERR_WRITE_FAILED :: int where "IOSMERR_WRITE_FAILED = 7 + IOSMERR_CHECK_ERRNO"
definition IOSMERR_READ_FAILED :: int where "IOSMERR_READ_FAILED = 20 + IOSMERR_CHECK_ERRNO"
definition IOSMERR_HDR_TRAILER :: int where "IOSMERR_HDR_TRAILER = 24"

lemmas iosm_errors = IOSMERR_BAD_MAGIC_def IOSMERR_BAD_HEADER_def IOSMERR_WRITE_FAILED_def
  IOSMERR_READ_FAILED_def IOSMERR_HDR_TRAILER_def

section \<open>The state\<close>

record stat =
  st_dev :: u64
  st_ino :: u64
  st_nlink :: u64
  st_mode :: u32
  st_uid :: u32
  st_gid :: u32
  st_rdev :: u64
  st_size :: u64
  st_atime :: u64
  st_mtime :: u64
  st_ctime :: u64

text \<open>\<open>st_size\<close> and the times are signed: their sign is read with \<open>sint\<close>.\<close>

record iosm =
  io_path :: "string option"
  io_lpath :: "string option"
  cfd_in :: string
  cfd_out :: string
  cfd_pos :: nat
  cfd_err :: bool
  cfd_room :: nat
  rfd :: string
  wfd :: string
  rdbuf :: string
  wrbuf :: string
  rdlen :: nat
  rdnb :: nat
  wrlen :: nat
  wrnb :: nat
  io_rc :: int
  blksize :: nat
  lmtab :: "string option"
  lmtablen :: nat
  lmtaboff :: nat

abbreviation rdsize :: "iosm \<Rightarrow> nat" where "rdsize s \<equiv> length (rdbuf s)"
abbreviation wrsize :: "iosm \<Rightarrow> nat" where "wrsize s \<equiv> length (wrbuf s)"

definition S_ISLNK :: "u32 \<Rightarrow> bool" where "S_ISLNK m \<longleftrightarrow> m AND 0xf000 = 0xa000"
definition S_ISREG :: "u32 \<Rightarrow> bool" where "S_ISREG m \<longleftrightarrow> m AND 0xf000 = 0x8000"
definition S_ISDIR :: "u32 \<Rightarrow> bool" where "S_ISDIR m \<longleftrightarrow> m AND 0xf000 = 0x4000"
definition S_ISCHR :: "u32 \<Rightarrow> bool" where "S_ISCHR m \<longleftrightarrow> m AND 0xf000 = 0x2000"
definition S_ISBLK :: "u32 \<Rightarrow> bool" where "S_ISBLK m \<longleftrightarrow> m AND 0xf000 = 0x6000"
definition S_ISFIFO :: "u32 \<Rightarrow> bool" where "S_ISFIFO m \<longleftrightarrow> m AND 0xf000 = 0x1000"

lemmas S_IS_defs = S_ISLNK_def S_ISREG_def S_ISDIR_def S_ISCHR_def S_ISBLK_def S_ISFIFO_def

text \<open>Storing bytes into \<open>rdbuf\<close> from an offset on.\<close>

definition put_rdbuf :: "nat \<Rightarrow> string \<Rightarrow> iosm \<Rightarrow> iosm outcome" where
  "put_rdbuf off bs s =
     guardC BufferOverflow (off + length bs \<le> rdsize s)
       (ok (s\<lparr>rdbuf := take off (rdbuf s) @ bs @ drop (off + length bs) (rdbuf s)\<rparr>))"

section \<open>The stages\<close>

definition Fread :: "nat \<Rightarrow> iosm \<Rightarrow> string" where
  "Fread n s = (if cfd_err s then [] else take n (cfd_in s))"

definition IOSM_DREAD :: "iosm \<Rightarrow> (int \<times> iosm) outcome" where
  "IOSM_DREAD s =
     (let bs = Fread (wrlen s) s; nb = length bs in
      guardC BufferOverflow (nb \<le> wrsize s)
       (ok (if nb \<noteq> wrlen s \<or> cfd_err s then IOSMERR_READ_FAILED else io_rc s,
            s\<lparr>wrbuf := bs @ drop nb (wrbuf s), cfd_in := drop nb (cfd_in s), rdnb := nb,
              cfd_pos := (if nb > 0 then cfd_pos s + nb else cfd_pos s)\<rparr>)))"

definition IOSM_DWRITE :: "iosm \<Rightarrow> (int \<times> iosm) outcome" where
  "IOSM_DWRITE s =
     guardC OutOfBounds (rdnb s \<le> rdsize s)
      (let nb = (if cfd_err s then 0 else min (rdnb s) (cfd_room s)) in
       ok (if rdnb s \<noteq> nb \<or> cfd_err s then IOSMERR_WRITE_FAILED else io_rc s,
           s\<lparr>cfd_out := cfd_out s @ take nb (rdbuf s), cfd_room := cfd_room s - nb, wrnb := nb,
             cfd_pos := (if nb > 0 then cfd_pos s + nb else cfd_pos s)\<rparr>))"

definition block_left :: "iosm \<Rightarrow> nat" where
  "block_left s = (blksize s - cfd_pos s mod blksize s) mod blksize s"

definition IOSM_POS :: "iosm \<Rightarrow> (int \<times> iosm) outcome" where
  "IOSM_POS s =
     guardC DivByZero (blksize s \<noteq> 0)
      (let left = block_left s in
       if left \<noteq> 0 then andThen (IOSM_DREAD (s\<lparr>wrlen := left\<rparr>)) (\<lambda>(_, s). ok (io_rc s, s))
       else ok (io_rc s, s))"

definition IOSM_PAD :: "iosm \<Rightarrow> (int \<times> iosm) outcome" where
  "IOSM_PAD s =
     guardC DivByZero (blksize s \<noteq> 0)
      (let left = block_left s in
       if left \<noteq> 0
       then andThen (put_rdbuf 0 (if blksize s = 2 then [CHR 0x0A] else replicate left NUL) s) (\<lambda>s.
            andThen (IOSM_DWRITE (s\<lparr>rdnb := left\<rparr>)) (\<lambda>(_, s). ok (io_rc s, s)))
       else ok (io_rc s, s))"

text \<open>The loop of \<open>IOSM_EAT\<close> makes no progress where the buffer is empty; it has \<open>fuel\<close>.\<close>

fun eat_loop :: "nat \<Rightarrow> nat \<Rightarrow> int \<Rightarrow> iosm \<Rightarrow> (int \<times> iosm) outcome option" where
  "eat_loop 0 left rc s = None"
| "eat_loop (Suc fuel) left rc s =
     (if left = 0 then Some (ok (rc, s))
      else (case IOSM_DREAD (s\<lparr>wrlen := (if left > wrsize s then wrsize s else left)\<rparr>) of
              Inl e \<Rightarrow> Some (Inl e)
            | Inr (rc, s) \<Rightarrow> if rc \<noteq> 0 then Some (ok (rc, s)) else eat_loop fuel (left - rdnb s) rc s))"

definition IOSM_EAT :: "nat \<Rightarrow> stat \<Rightarrow> iosm \<Rightarrow> (int \<times> iosm) outcome option" where
  "IOSM_EAT fuel st s = eat_loop fuel (unat (st_size st)) (io_rc s) s"

text \<open>Data of a file on disk, read into \<open>rdbuf\<close> and written from \<open>wrbuf\<close>.\<close>

definition IOSM_READ :: "iosm \<Rightarrow> (int \<times> iosm) outcome" where
  "IOSM_READ s =
     (let bs = take (rdlen s) (rfd s); nb = length bs in
      guardC BufferOverflow (nb \<le> rdsize s)
       (ok (if nb \<noteq> rdlen s then IOSMERR_READ_FAILED else io_rc s,
            s\<lparr>rdbuf := bs @ drop nb (rdbuf s), rfd := drop nb (rfd s), rdnb := nb\<rparr>)))"

definition IOSM_WRITE :: "iosm \<Rightarrow> (int \<times> iosm) outcome" where
  "IOSM_WRITE s =
     guardC OutOfBounds (rdnb s \<le> wrsize s)
       (ok (io_rc s, s\<lparr>wfd := wfd s @ take (rdnb s) (wrbuf s), wrnb := rdnb s\<rparr>))"

text \<open>The data loop of \<open>extractRegular\<close>, and the one of \<open>writeFile\<close> for a file that is read through
  the buffer.\<close>

fun extract_loop :: "nat \<Rightarrow> nat \<Rightarrow> int \<Rightarrow> iosm \<Rightarrow> (int \<times> iosm) outcome option" where
  "extract_loop 0 left rc s = None"
| "extract_loop (Suc fuel) left rc s =
     (if left = 0 then Some (ok (rc, s))
      else (case IOSM_DREAD (s\<lparr>wrlen := (if left > wrsize s then wrsize s else left)\<rparr>) of
              Inl e \<Rightarrow> Some (Inl e)
            | Inr (rc, s) \<Rightarrow>
                if rc \<noteq> 0 then Some (ok (rc, s))
                else (case IOSM_WRITE s of
                        Inl e \<Rightarrow> Some (Inl e)
                      | Inr (rc, s) \<Rightarrow>
                          if rc \<noteq> 0 then Some (ok (rc, s)) else extract_loop fuel (left - wrnb s) rc s)))"

fun write_loop :: "nat \<Rightarrow> nat \<Rightarrow> int \<Rightarrow> iosm \<Rightarrow> (int \<times> iosm) outcome option" where
  "write_loop 0 left rc s = None"
| "write_loop (Suc fuel) left rc s =
     (if left = 0 then Some (ok (rc, s))
      else (case IOSM_READ (s\<lparr>rdlen := (if left > rdsize s then rdsize s else left)\<rparr>) of
              Inl e \<Rightarrow> Some (Inl e)
            | Inr (rc, s) \<Rightarrow>
                if rc \<noteq> 0 then Some (ok (rc, s))
                else (case IOSM_DWRITE s of
                        Inl e \<Rightarrow> Some (Inl e)
                      | Inr (rc, s) \<Rightarrow>
                          if rc \<noteq> 0 then Some (ok (rc, s)) else write_loop fuel (left - wrnb s) rc s)))"

section \<open>Reading and writing runs of bytes\<close>

text \<open>\<open>cpioRead\<close>, \<open>tarRead\<close> and \<open>arRead\<close> differ in the test for the end of the file only (\<open>eof\<close>).
  The result is the number of bytes, or the negative of an error code, with the bytes.\<close>

lemma IOSM_DREAD_wrlen: "IOSM_DREAD s = Inr (rc, s') \<Longrightarrow> wrlen s' = wrlen s"
  by (auto simp: IOSM_DREAD_def Let_def guardC_Inr_iff)

function io_read :: "bool \<Rightarrow> nat \<Rightarrow> string \<Rightarrow> iosm \<Rightarrow> ((int \<times> string) \<times> iosm) outcome" where
  "io_read eof cnt acc s =
     (if cnt = 0 then ok ((int (length acc), acc), s)
      else andThen (IOSM_DREAD (s\<lparr>wrlen := cnt\<rparr>)) (\<lambda>(rc, s).
        if rc = 0 \<and> rdnb s \<noteq> wrlen s \<and> eof \<and> rdnb s = 0 then ok ((- IOSMERR_HDR_TRAILER, acc), s)
        else let rc = (if rc = 0 \<and> rdnb s \<noteq> wrlen s then IOSMERR_READ_FAILED else rc) in
        if rc \<noteq> 0 then ok ((- rc, acc), s)
        else let n = (if cnt > rdnb s then rdnb s else cnt) in
          io_read eof (cnt - n) (acc @ take n (wrbuf s)) s))"
  by pat_completeness auto

termination
  by (relation "measure (\<lambda>(_, cnt, _, _). cnt)")
     (auto dest!: IOSM_DREAD_wrlen simp: IOSMERR_READ_FAILED_def split: if_splits)

declare io_read.simps [simp del]

definition cpioRead :: "nat \<Rightarrow> iosm \<Rightarrow> ((int \<times> string) \<times> iosm) outcome" where
  "cpioRead cnt s = io_read False cnt [] s"

definition tarRead :: "nat \<Rightarrow> iosm \<Rightarrow> ((int \<times> string) \<times> iosm) outcome" where
  "tarRead cnt s = io_read False cnt [] s"

definition arRead :: "nat \<Rightarrow> iosm \<Rightarrow> ((int \<times> string) \<times> iosm) outcome" where
  "arRead cnt s = io_read True cnt [] s"

text \<open>A read that succeeds takes bytes away, so the search for a header ends.\<close>

lemma DREAD_in: "IOSM_DREAD s = Inr (rc, s') \<Longrightarrow> length (cfd_in s') + rdnb s' = length (cfd_in s)"
  by (auto simp: IOSM_DREAD_def Fread_def Let_def guardC_Inr_iff split: if_splits)

lemma DREAD_full: "IOSM_DREAD s = Inr (rc, s') \<Longrightarrow> rc \<noteq> IOSMERR_READ_FAILED \<Longrightarrow> rdnb s' = wrlen s'"
  by (auto simp: IOSM_DREAD_def Let_def guardC_Inr_iff split: if_splits)

lemma io_read_in: "io_read eof cnt acc s = Inr ((rc, bs), s') \<Longrightarrow> rc > 0 \<Longrightarrow> acc = [] \<Longrightarrow>
    length (cfd_in s') < length (cfd_in s)"
proof (induction eof cnt acc s arbitrary: rule: io_read.induct)
  case (1 eof cnt acc s)
  show ?case
  proof (cases "cnt = 0")
    case True
    then show ?thesis
      using 1 by (simp add: io_read.simps)
  next
    case False
    then obtain rc1 s1 where d: "IOSM_DREAD (s\<lparr>wrlen := cnt\<rparr>) = Inr (rc1, s1)"
      using 1(2) by (subst (asm) io_read.simps) (auto simp: andThen_Inr_iff)
    have w: "wrlen s1 = cnt" "length (cfd_in s1) + rdnb s1 = length (cfd_in s)"
      using IOSM_DREAD_wrlen[OF d] DREAD_in[OF d] by simp_all
    have full: "rc1 \<noteq> IOSMERR_READ_FAILED \<Longrightarrow> rdnb s1 = cnt"
      using DREAD_full[OF d] w by simp
    show ?thesis
      using 1(2,3,4) d False w full
      by (subst (asm) io_read.simps)
         (auto simp: io_read.simps [of _ 0] IOSMERR_HDR_TRAILER_def IOSMERR_READ_FAILED_def Let_def split: if_splits)
  qed
qed

text \<open>Writing: the bytes are moved to \<open>rdbuf\<close>, unless they are there already (\<open>None\<close>). A write that
  is not complete is an error, so that a round that succeeds is the last.\<close>

definition io_write :: "string option \<Rightarrow> nat \<Rightarrow> iosm \<Rightarrow> (int \<times> iosm) outcome" where
  "io_write buf cnt s =
     (if cnt = 0 then ok (0, s)
      else andThen (case buf of None \<Rightarrow> ok s | Some bs \<Rightarrow> put_rdbuf 0 (take cnt bs) s) (\<lambda>s.
        andThen (IOSM_DWRITE (s\<lparr>rdnb := cnt\<rparr>)) (\<lambda>(rc, s).
        let rc = (if rc = 0 \<and> rdnb s \<noteq> wrnb s then IOSMERR_WRITE_FAILED else rc) in
        if rc \<noteq> 0 then ok (- rc, s) else ok (int (rdnb s), s))))"

text \<open>\<open>_IOSMRC(rc)\<close>: leave with an error, or with the end of the archive where nothing was read.\<close>

definition IOSMRC :: "int \<Rightarrow> 'a \<Rightarrow> (int \<times> 'a) outcome \<Rightarrow> (int \<times> 'a) outcome" where
  "IOSMRC rc s k = (if rc \<le> 0 then ok (if rc \<noteq> 0 then - rc else IOSMERR_HDR_TRAILER, s) else k)"

section \<open>Number fields\<close>

text \<open>\<open>strtoul\<close> in a base from 8 to 16: the value and the number of characters consumed.\<close>

definition digit_of :: "char \<Rightarrow> nat" where
  "digit_of c =
     (let v = cval c in
      if xisdigit v then nat (v - 48)
      else if 97 \<le> v \<and> v \<le> 102 then nat (v - 87)
      else if 65 \<le> v \<and> v \<le> 70 then nat (v - 55) else 99)"

definition base_val :: "nat \<Rightarrow> string \<Rightarrow> nat" where
  "base_val base ds = foldl (\<lambda>acc c. acc * base + digit_of c) 0 ds"

definition strtoul :: "nat \<Rightarrow> string \<Rightarrow> u64 \<times> nat" where
  "strtoul base s =
     (let s1 = dropWhile (\<lambda>c. xisspace (cval c)) s;
          (neg, s2) = (case s1 of
                         [] \<Rightarrow> (False, [])
                       | c # cs \<Rightarrow> if c = CHR ''-'' then (True, cs)
                                  else if c = CHR ''+'' then (False, cs) else (False, s1));
          s3 = (case s2 of
                  c # x # h # r \<Rightarrow>
                    if base = 16 \<and> c = CHR ''0'' \<and> (x = CHR ''x'' \<or> x = CHR ''X'') \<and> digit_of h < 16
                    then h # r else s2
                | _ \<Rightarrow> s2);
          ds = takeWhile (\<lambda>c. digit_of c < base) s3; v = base_val base ds in
      if ds = [] then (0, 0)
      else (if v \<ge> 2 ^ 64 then - 1 else if neg then - of_nat v else of_nat v,
            length s - length s3 + length ds))"

text \<open>\<open>strntoul\<close>: the value as an \<open>int\<close>, and how far the conversion came.\<close>

definition strntoul :: "string \<Rightarrow> nat \<Rightarrow> nat \<Rightarrow> 32 word \<times> nat" where
  "strntoul str base num =
     (let buf = takeWhile (\<lambda>c. c \<noteq> NUL) (take num str); (ret, off) = strtoul base buf in
      (ucast ret, off))"

text \<open>The digits that \<open>printf\<close> writes in a base, with a least number of digits.\<close>

fun base_digits :: "nat \<Rightarrow> nat \<Rightarrow> string" where
  "base_digits base n =
     (if base < 2 \<or> n < base then [''0123456789abcdef'' ! n]
      else base_digits base (n div base) @ [''0123456789abcdef'' ! (n mod base)])"

declare base_digits.simps [simp del]

definition padded :: "nat \<Rightarrow> nat \<Rightarrow> nat \<Rightarrow> string" where
  "padded base k n =
     (let ds = base_digits base n in replicate (k - length ds) CHR ''0'' @ ds)"

end
