(* ===== verification/Cpio.thy ===== *)
theory Cpio
  imports Iosm
begin

unbundle bit_operations_syntax

text \<open>
  Archives in the cpio format, \<open>rpmio/cpio.c\<close>: reading and writing the header of a file and the
  trailer, over the payload stages of \<open>Iosm\<close>, and the stage that finds the next file.

  A header is 110 bytes: the magic and thirteen numbers of eight hexadecimal digits. The reader
  parses it in \<open>wrbuf\<close>, the writer composes it in \<open>rdbuf\<close>. \<open>strntoul\<close> returns an \<open>int\<close>, whatever it is
  stored in. \<open>major\<close>, \<open>minor\<close> and \<open>makedev\<close> are those of the C library.
\<close>

section \<open>Device numbers\<close>

definition gnu_major :: "u64 \<Rightarrow> u32" where
  "gnu_major dev = ucast ((drop_bit 8 dev AND 0xfff) OR (drop_bit 32 dev AND NOT 0xfff))"

definition gnu_minor :: "u64 \<Rightarrow> u32" where
  "gnu_minor dev = ucast ((dev AND 0xff) OR (drop_bit 12 dev AND NOT 0xff))"

definition Makedev :: "u32 \<Rightarrow> u32 \<Rightarrow> u64" where
  "Makedev mjr mnr =
     (let mjr = ucast mjr :: u64; mnr = ucast mnr :: u64 in
      (mnr AND 0xff) OR push_bit 8 (mjr AND 0xfff) OR push_bit 12 (mnr AND NOT 0xff) OR
      push_bit 32 (mjr AND NOT 0xfff))"

text \<open>\<open>major((unsigned)dev)\<close>, \<open>minor((unsigned)dev)\<close>.\<close>

definition dev_major :: "u64 \<Rightarrow> u64" where
  "dev_major dev = ucast (gnu_major (ucast (ucast dev :: u32)))"

definition dev_minor :: "u64 \<Rightarrow> u64" where
  "dev_minor dev = ucast (gnu_minor (ucast (ucast dev :: u32)))"

section \<open>Reading\<close>

definition CPIO_NEWC_MAGIC :: string where "CPIO_NEWC_MAGIC = ''070701''"
definition CPIO_CRC_MAGIC :: string where "CPIO_CRC_MAGIC = ''070702''"
definition CPIO_TRAILER :: string where "CPIO_TRAILER = ''TRAILER!!!''"
definition PHYS_HDR_SIZE :: nat where "PHYS_HDR_SIZE = 110"

text \<open>\<open>GET_NUM_FIELD\<close>: all eight characters of the field belong to the number, or the header is bad.\<close>

definition GET_NUM_FIELD :: "string \<Rightarrow> nat \<Rightarrow> 'a \<Rightarrow> (32 word \<Rightarrow> (int \<times> 'a) outcome) \<Rightarrow> (int \<times> 'a) outcome" where
  "GET_NUM_FIELD hdr off s k =
     (let (v, n) = strntoul (drop off hdr) 16 8 in if n \<noteq> 8 then ok (IOSMERR_BAD_HEADER, s) else k v)"

text \<open>The name: a name that cannot be read leaves a null path, and no error.\<close>

definition cpio_name :: "nat \<Rightarrow> iosm \<Rightarrow> (iosm \<Rightarrow> (int \<times> (stat \<times> iosm)) outcome) \<Rightarrow> stat \<Rightarrow> (int \<times> (stat \<times> iosm)) outcome" where
  "cpio_name nb s k st =
     andThen (cpioRead nb s) (\<lambda>((rc, t), s).
       if rc < 0 then k (s\<lparr>io_path := None\<rparr>)
       else IOSMRC rc (st, s) (k (s\<lparr>io_path := Some (takeWhile (\<lambda>c. c \<noteq> NUL) t)\<rparr>)))"

definition cpio_link :: "stat \<Rightarrow> iosm \<Rightarrow> (int \<times> (stat \<times> iosm)) outcome" where
  "cpio_link st s =
     (if S_ISLNK (st_mode st)
      then andThen (IOSM_POS s) (\<lambda>(rc, s).
        if rc \<noteq> 0 then ok (- rc, (st, s))
        else andThen (cpioRead (unat (st_size st)) s) (\<lambda>((rc, t), s).
          if rc < 0 then ok (0, (st, s\<lparr>io_lpath := None\<rparr>))
          else IOSMRC rc (st, s) (ok (0, (st, s\<lparr>io_lpath := Some (takeWhile (\<lambda>c. c \<noteq> NUL) t)\<rparr>)))))
      else ok (0, (st, s)))"

definition cpioHeaderRead :: "stat \<Rightarrow> iosm \<Rightarrow> (int \<times> (stat \<times> iosm)) outcome" where
  "cpioHeaderRead st s =
     andThen (cpioRead PHYS_HDR_SIZE s) (\<lambda>((rc, _), s).
     IOSMRC rc (st, s) (
     let hdr = take PHYS_HDR_SIZE (wrbuf s) in
     if strncmp CPIO_CRC_MAGIC hdr 6 \<noteq> 0 \<and> strncmp CPIO_NEWC_MAGIC hdr 6 \<noteq> 0
     then ok (IOSMERR_BAD_MAGIC, (st, s))
     else
       GET_NUM_FIELD hdr 6 (st, s) (\<lambda>v. let st = st\<lparr>st_ino := scast v\<rparr> in
       GET_NUM_FIELD hdr 14 (st, s) (\<lambda>v. let st = st\<lparr>st_mode := v\<rparr> in
       GET_NUM_FIELD hdr 22 (st, s) (\<lambda>v. let st = st\<lparr>st_uid := v\<rparr> in
       GET_NUM_FIELD hdr 30 (st, s) (\<lambda>v. let st = st\<lparr>st_gid := v\<rparr> in
       GET_NUM_FIELD hdr 38 (st, s) (\<lambda>v. let st = st\<lparr>st_nlink := scast v\<rparr> in
       GET_NUM_FIELD hdr 46 (st, s) (\<lambda>v. let st = st\<lparr>st_mtime := scast v\<rparr> in
       GET_NUM_FIELD hdr 54 (st, s) (\<lambda>v. let st = st\<lparr>st_size := scast v\<rparr> in
       GET_NUM_FIELD hdr 62 (st, s) (\<lambda>mjr.
       GET_NUM_FIELD hdr 70 (st, s) (\<lambda>mnr. let st = st\<lparr>st_dev := Makedev mjr mnr\<rparr> in
       GET_NUM_FIELD hdr 78 (st, s) (\<lambda>mjr.
       GET_NUM_FIELD hdr 86 (st, s) (\<lambda>mnr. let st = st\<lparr>st_rdev := Makedev mjr mnr\<rparr> in
       GET_NUM_FIELD hdr 94 (st, s) (\<lambda>v. let nb = unat (scast v :: u64) in
       if nb \<ge> wrsize s then ok (IOSMERR_BAD_HEADER, (st, s))
       else cpio_name nb s (cpio_link st) st))))))))))))))"

section \<open>Writing\<close>

text \<open>\<open>SET_NUM_FIELD\<close>: the first eight of the digits of \<open>%8.8lx\<close>.\<close>

definition SET_NUM_FIELD :: "u64 \<Rightarrow> string" where
  "SET_NUM_FIELD v = take 8 (padded 16 8 (unat v))"

definition cpio_header :: "stat \<Rightarrow> nat \<Rightarrow> string" where
  "cpio_header st nb =
     CPIO_NEWC_MAGIC @ SET_NUM_FIELD (st_ino st) @ SET_NUM_FIELD (ucast (st_mode st)) @
     SET_NUM_FIELD (ucast (st_uid st)) @ SET_NUM_FIELD (ucast (st_gid st)) @ SET_NUM_FIELD (st_nlink st) @
     SET_NUM_FIELD (st_mtime st) @ SET_NUM_FIELD (st_size st) @
     SET_NUM_FIELD (dev_major (st_dev st)) @ SET_NUM_FIELD (dev_minor (st_dev st)) @
     SET_NUM_FIELD (dev_major (st_rdev st)) @ SET_NUM_FIELD (dev_minor (st_rdev st)) @
     SET_NUM_FIELD (of_nat nb) @ ''00000000''"

definition cpioWrite :: "string option \<Rightarrow> nat \<Rightarrow> iosm \<Rightarrow> (int \<times> iosm) outcome" where
  "cpioWrite buf cnt s = io_write buf cnt s"

definition or_empty_str :: "string option \<Rightarrow> string" where
  "or_empty_str p = (case p of None \<Rightarrow> [] | Some t \<Rightarrow> t)"

lemma or_empty_str_Some [simp]: "or_empty_str (Some t) = t"
  by (simp add: or_empty_str_def)

definition cpioHeaderWrite :: "stat \<Rightarrow> iosm \<Rightarrow> (int \<times> iosm) outcome" where
  "cpioHeaderWrite st s =
     (let path = or_empty_str (io_path s); lpath = or_empty_str (io_lpath s); nb = length path + 1 in
      andThen (put_rdbuf 0 (cpio_header st nb) s) (\<lambda>s.
      andThen (put_rdbuf PHYS_HDR_SIZE (path @ [NUL]) s) (\<lambda>s.
      andThen (cpioWrite None (nb + PHYS_HDR_SIZE) s) (\<lambda>(rc, s).
      IOSMRC rc s (
        if S_ISLNK (st_mode st)
        then andThen (IOSM_PAD s) (\<lambda>(rc, s).
          if rc \<noteq> 0 then ok (rc, s)
          else andThen (cpioWrite (Some lpath) (length lpath) s) (\<lambda>(rc, s).
            IOSMRC rc s (IOSM_PAD s)))
        else IOSM_PAD s)))))"

definition cpio_trailer :: string where
  "cpio_trailer =
     CPIO_NEWC_MAGIC @ replicate 32 CHR ''0'' @ ''00000001'' @ replicate 48 CHR ''0'' @ ''0000000b'' @
     replicate 8 CHR ''0''"

definition cpioTrailerWrite :: "iosm \<Rightarrow> (int \<times> iosm) outcome" where
  "cpioTrailerWrite s =
     andThen (put_rdbuf 0 cpio_trailer s) (\<lambda>s.
     andThen (put_rdbuf PHYS_HDR_SIZE (CPIO_TRAILER @ [NUL]) s) (\<lambda>s.
     andThen (cpioWrite None (length CPIO_TRAILER + 1 + PHYS_HDR_SIZE) s) (\<lambda>(rc, s).
     IOSMRC rc s (andThen (IOSM_PAD s) (\<lambda>(_, s). ok (0, s))))))"

section \<open>The next file of a payload\<close>

text \<open>\<open>IOSM_HREAD\<close> and \<open>IOSM_NEXT\<close>, which compares the path it read with the name of the trailer.\<close>

definition IOSM_HREAD ::
  "(stat \<Rightarrow> iosm \<Rightarrow> (int \<times> (stat \<times> iosm)) outcome) \<Rightarrow> stat \<Rightarrow> iosm \<Rightarrow> (int \<times> (stat \<times> iosm)) outcome" where
  "IOSM_HREAD headerRead st s =
     andThen (IOSM_POS s) (\<lambda>(rc, s). if rc = 0 then headerRead st s else ok (rc, (st, s)))"

definition IOSM_NEXT ::
  "(stat \<Rightarrow> iosm \<Rightarrow> (int \<times> (stat \<times> iosm)) outcome) \<Rightarrow> stat \<Rightarrow> iosm \<Rightarrow> (int \<times> (stat \<times> iosm)) outcome" where
  "IOSM_NEXT headerRead st s =
     andThen (IOSM_HREAD headerRead st s) (\<lambda>(rc, (st, s)).
       if rc \<noteq> 0 then ok (rc, (st, s))
       else andThen (nonnull (io_path s)) (\<lambda>path.
         if strcmp path CPIO_TRAILER = 0 then ok (IOSMERR_HDR_TRAILER, (st, s\<lparr>io_path := None\<rparr>))
         else andThen (IOSM_POS s) (\<lambda>(rc, s). ok (rc, (st, s)))))"

text \<open>\<open>writeFile\<close> from the header on, for a file whose data is read through the buffer: the header, the
  data of a regular file, the padding.\<close>

definition writeFile_tail ::
  "nat \<Rightarrow> (stat \<Rightarrow> iosm \<Rightarrow> (int \<times> iosm) outcome) \<Rightarrow> bool \<Rightarrow> stat \<Rightarrow> iosm \<Rightarrow> (int \<times> iosm) outcome option" where
  "writeFile_tail fuel headerWrite writeData st s =
     (case headerWrite st s of
        Inl e \<Rightarrow> Some (Inl e)
      | Inr (rc, s) \<Rightarrow>
          if rc \<noteq> 0 then Some (ok (rc, s))
          else (case (if writeData \<and> S_ISREG (st_mode st) then write_loop fuel (unat (st_size st)) 0 s
                      else Some (ok (0, s))) of
                  None \<Rightarrow> None
                | Some (Inl e) \<Rightarrow> Some (Inl e)
                | Some (Inr (rc, s)) \<Rightarrow> if rc \<noteq> 0 then Some (ok (rc, s)) else Some (IOSM_PAD s)))"

end
