(* ===== verification/Tar.thy ===== *)
theory Tar
  imports Cpio
begin

unbundle bit_operations_syntax

text \<open>
  Archives in the ustar format, \<open>rpmio/tar.c\<close>: reading and writing headers, long names and the
  trailer, over the payload stages of \<open>Iosm\<close>.

  A header is a block of 512 bytes with fields at fixed offsets. The writer clears the block and
  stores into each field; the model composes the same bytes from the fields (\<open>field\<close>). The
  checksum is computed with its own field blank. The names of users and groups are parameters.
\<close>

section \<open>Headers\<close>

definition TAR_BLOCK_SIZE :: nat where "TAR_BLOCK_SIZE = 512"
definition TAR_NAME_SIZE :: nat where "TAR_NAME_SIZE = 100"
definition TAR_MAGIC :: string where "TAR_MAGIC = ''ustar''"
definition TAR_VERSION :: string where "TAR_VERSION = ''  ''"

text \<open>\<open>strncpy\<close> of a string into a cleared field: cut at the size of the field, without a NUL then.\<close>

definition field :: "nat \<Rightarrow> string \<Rightarrow> string" where
  "field n t = take n (t @ replicate n NUL)"

text \<open>\<open>sprintf(field, "%0<k>o", v)\<close>: the digits and a NUL.\<close>

definition octal :: "nat \<Rightarrow> nat \<Rightarrow> string" where
  "octal k v = padded 8 k v @ [NUL]"

definition char_sum :: "string \<Rightarrow> nat" where
  "char_sum bs = sum_list (map (\<lambda>c. of_char c) bs)"

text \<open>What the checksum field holds: six digits, a NUL, and a blank left from clearing the field.\<close>

definition tar_checksum :: "string \<Rightarrow> string \<Rightarrow> string" where
  "tar_checksum front back =
     octal 6 ((char_sum front + 8 * 32 + char_sum back) mod 8 ^ 7) @ '' ''"

definition tar_front :: "string \<Rightarrow> nat \<Rightarrow> nat \<Rightarrow> nat \<Rightarrow> nat \<Rightarrow> nat \<Rightarrow> string" where
  "tar_front name mode uid gid fsize mtime =
     field 100 name @ field 8 (octal 7 mode) @ field 8 (octal 7 uid) @ field 8 (octal 7 gid) @
     field 12 (octal 11 fsize) @ field 12 (octal 11 mtime)"

definition tar_back :: "char \<Rightarrow> string \<Rightarrow> string \<Rightarrow> string \<Rightarrow> string \<Rightarrow> string \<Rightarrow> string" where
  "tar_back typeflag linkname uname gname dmajor dminor =
     [typeflag] @ field 100 linkname @ field 8 (TAR_MAGIC @ TAR_VERSION) @ field 32 uname @ field 32 gname @
     field 8 dmajor @ field 8 dminor @ replicate 155 NUL @ replicate 12 NUL"

section \<open>Writing\<close>

definition tarWrite :: "string option \<Rightarrow> nat \<Rightarrow> iosm \<Rightarrow> (int \<times> iosm) outcome" where
  "tarWrite buf cnt s = io_write buf cnt s"

definition tarHeaderWriteName :: "string \<Rightarrow> iosm \<Rightarrow> (int \<times> iosm) outcome" where
  "tarHeaderWriteName path s =
     andThen (tarWrite (Some path) (length path) s) (\<lambda>(rc, s).
       if rc \<ge> 0
       then andThen (IOSM_PAD s) (\<lambda>(rc, s). ok (if rc \<noteq> 0 then - rc else rc, s))
       else ok (rc, s))"

definition tarHeaderWriteBlock :: "string \<Rightarrow> string \<Rightarrow> iosm \<Rightarrow> (int \<times> iosm) outcome" where
  "tarHeaderWriteBlock front back s =
     andThen (put_rdbuf 0 (front @ tar_checksum front back @ back) s) (\<lambda>s. tarWrite None TAR_BLOCK_SIZE s)"

definition llname :: string where
  "llname = ''././@LongLink''"

text \<open>The block in front of a long name (\<open>'L'\<close>) or a long link name (\<open>'K'\<close>), the name, and what follows.\<close>

definition tar_long ::
  "char \<Rightarrow> nat \<Rightarrow> string \<Rightarrow> (iosm \<Rightarrow> (int \<times> iosm) outcome) \<Rightarrow> iosm \<Rightarrow> (int \<times> iosm) outcome" where
  "tar_long typeflag nb path k s =
     andThen
       (tarHeaderWriteBlock
         (tar_front (if typeflag = CHR ''L'' then llname else []) 0 0 0 (nb mod 2 ^ 32) 0)
         (tar_back typeflag (if typeflag = CHR ''K'' then llname else []) ''root'' ''root'' [] []) s) (\<lambda>(rc, s).
     IOSMRC rc s (
     andThen (tarHeaderWriteName path s) (\<lambda>(rc, s).
     IOSMRC rc s (k s))))"

definition tar_typeflag :: "u32 \<Rightarrow> string \<Rightarrow> char" where
  "tar_typeflag mode lpath =
     (if S_ISLNK mode then CHR ''2'' else if S_ISCHR mode then CHR ''3'' else if S_ISBLK mode then CHR ''4''
      else if S_ISDIR mode then CHR ''5'' else if S_ISFIFO mode then CHR ''6''
      else if S_ISREG mode then (if lpath \<noteq> [] then CHR ''1'' else CHR ''0'') else CHR ''0'')"

text \<open>Values of the fields: \<open>st->st_mode & 00007777\<close>, \<open>st->st_uid & 07777777\<close>,
  \<open>(unsigned) (st->st_size & 037777777777)\<close>.\<close>

definition tar_file_front :: "stat \<Rightarrow> string \<Rightarrow> string" where
  "tar_file_front st path =
     tar_front path (unat (st_mode st AND 0xfff)) (unat (st_uid st AND 0x1fffff)) (unat (st_gid st AND 0x1fffff))
       (unat (ucast (st_size st AND 0x1ffffffff) :: u32)) (unat (ucast (st_mtime st AND 0x1ffffffff) :: u32))"

definition tar_file_back ::
  "(u32 \<Rightarrow> string option) \<Rightarrow> (u32 \<Rightarrow> string option) \<Rightarrow> stat \<Rightarrow> string \<Rightarrow> string" where
  "tar_file_back uname gname st lpath =
     tar_back (tar_typeflag (st_mode st) lpath) lpath
       (case uname (st_uid st) of None \<Rightarrow> ''root'' | Some t \<Rightarrow> t) (case gname (st_gid st) of None \<Rightarrow> ''root'' | Some t \<Rightarrow> t)
       (octal 7 (unat (dev_major (st_dev st) AND 0x1fffff))) (octal 7 (unat (dev_minor (st_dev st) AND 0x1fffff)))"

definition tarHeaderWrite ::
  "(u32 \<Rightarrow> string option) \<Rightarrow> (u32 \<Rightarrow> string option) \<Rightarrow> stat \<Rightarrow> iosm \<Rightarrow> (int \<times> iosm) outcome" where
  "tarHeaderWrite uname gname st s =
     (let path = or_empty_str (io_path s); lpath = or_empty_str (io_lpath s);
          main = (\<lambda>s.
            andThen (tarHeaderWriteBlock (tar_file_front st path) (tar_file_back uname gname st lpath) s) (\<lambda>(rc, s).
            IOSMRC rc s (IOSM_PAD s)));
          link = (\<lambda>s.
            if \<not> (lpath \<noteq> [] \<and> hd lpath = CHR ''0'') \<and> length lpath > TAR_NAME_SIZE
            then tar_long CHR ''K'' (length lpath) path main s
            else main s)
      in if length path > TAR_NAME_SIZE
         then tar_long CHR ''L'' (length path) path link s
         else link s)"

definition tarTrailerWrite :: "iosm \<Rightarrow> (int \<times> iosm) outcome" where
  "tarTrailerWrite s =
     andThen (IOSM_PAD (s\<lparr>blksize := blksize s * 20\<rparr>)) (\<lambda>(rc, s).
       ok (- rc, s\<lparr>blksize := blksize s div 20\<rparr>))"

section \<open>Reading\<close>

text \<open>The loop for a header: two zero blocks end the archive, and one of them makes the loop skip
  every block up to the second. \<open>None\<close> means that a header is in \<open>wrbuf\<close>.\<close>

function tar_next :: "nat \<Rightarrow> iosm \<Rightarrow> (int option \<times> iosm) outcome" where
  "tar_next zblk s =
     andThen (tarRead TAR_BLOCK_SIZE s) (\<lambda>(r, s).
       if fst r \<le> 0 then ok (Some (if fst r \<noteq> 0 then - fst r else IOSMERR_HDR_TRAILER), s)
       else let hdr = take TAR_BLOCK_SIZE (wrbuf s); zero = (hdr ! 0 = NUL \<and> hdr ! 148 = NUL);
                zblk = (if zero then zblk + 1 else zblk) in
            if zero \<and> zblk = 2 then ok (Some IOSMERR_HDR_TRAILER, s)
            else if zblk > 0 then tar_next zblk s
            else ok (None, s))"
  by pat_completeness auto

termination
  by (relation "measure (\<lambda>(_, s). length (cfd_in s))")
     (auto simp: tarRead_def intro: io_read_in)

declare tar_next.simps [simp del]

definition tar_sum_ok :: "string \<Rightarrow> bool" where
  "tar_sum_ok hdr \<longleftrightarrow>
     take 8 (drop 148 hdr) = tar_checksum (take 148 hdr) (drop 156 hdr)"

text \<open>\<open>tarHeaderReadName\<close>: the buffer has \<open>len + 1\<close> bytes, and so many are read into it; the NUL
  behind them is stored outside.\<close>

definition tarHeaderReadName :: "nat \<Rightarrow> iosm \<Rightarrow> ((int \<times> string option) \<times> iosm) outcome" where
  "tarHeaderReadName len s =
     (let nb = (len + 1) mod 2 ^ 64 in
      andThen (tarRead nb s) (\<lambda>((rc, t), s).
        if rc > 0 then guardC BufferOverflow (nat rc < nb) (ok ((rc, Some (takeWhile (\<lambda>c. c \<noteq> NUL) t)), s))
        else ok ((rc, None), s)))"

definition tar_mode :: "char \<Rightarrow> u32 \<Rightarrow> u32" where
  "tar_mode typeflag m =
     (let m = m AND NOT 0xf000 in
      if typeflag = CHR ''7'' \<or> typeflag = NUL \<or> typeflag = CHR ''0'' then m OR 0x8000
      else if typeflag = CHR ''1'' then m OR 0x8000
      else if typeflag = CHR ''2'' then m OR 0xa000
      else if typeflag = CHR ''3'' then m OR 0x2000
      else if typeflag = CHR ''4'' then m OR 0x6000
      else if typeflag = CHR ''5'' then m OR 0x4000
      else if typeflag = CHR ''6'' then m OR 0x1000
      else m)"

text \<open>\<open>strlen\<close> of a name in the block: it runs on in \<open>wrbuf\<close> where the field has no NUL.\<close>

definition tar_name :: "nat \<Rightarrow> iosm \<Rightarrow> string option \<Rightarrow> string option outcome" where
  "tar_name off s old =
     (let t = drop off (wrbuf s) in
      if old = None \<and> t ! 0 \<noteq> NUL
      then guardC OutOfBounds (NUL \<in> set t) (ok (Some (takeWhile (\<lambda>c. c \<noteq> NUL) t)))
      else ok old)"

definition tar_num :: "string \<Rightarrow> nat \<Rightarrow> nat \<Rightarrow> 32 word" where
  "tar_num hdr off n = fst (strntoul (drop off hdr) 8 n)"

lemma tar_next_in: "tar_next zblk s = Inr (None, s') \<Longrightarrow> length (cfd_in s') < length (cfd_in s)"
proof (induction zblk s rule: tar_next.induct)
  case (1 zblk s)
  then obtain rc bs s1 where r: "tarRead TAR_BLOCK_SIZE s = Inr ((rc, bs), s1)"
    by (subst (asm) tar_next.simps) (auto simp: andThen_Inr_iff)
  have "rc > 0"
    using 1(2) r by (subst (asm) tar_next.simps) (auto split: if_splits)
  then have "length (cfd_in s1) < length (cfd_in s)"
    using r io_read_in[of False TAR_BLOCK_SIZE "[]" s rc bs s1] by (simp add: tarRead_def)
  moreover have "length (cfd_in s') \<le> length (cfd_in s1)"
    using 1(2) r \<open>rc > 0\<close> 1(1)[OF r refl]
    by (subst (asm) tar_next.simps) (fastforce simp: Let_def split: if_splits)
  ultimately show ?case by simp
qed

lemma tar_next_le: "tar_next zblk s = Inr (r, s') \<Longrightarrow> r = None \<Longrightarrow> length (cfd_in s') < length (cfd_in s)"
  using tar_next_in by simp

lemma ReadName_in: "tarHeaderReadName len s = Inr ((rc, t), s') \<Longrightarrow> rc > 0 \<Longrightarrow> length (cfd_in s') < length (cfd_in s)"
  by (auto simp: tarHeaderReadName_def tarRead_def Let_def andThen_Inr_iff guardC_Inr_iff
      split: if_splits intro: io_read_in)

text \<open>The checksum is computed over the block in the buffer, where its own field is blank from then on.\<close>

definition blank_checksum :: "iosm \<Rightarrow> iosm" where
  "blank_checksum s = s\<lparr>wrbuf := take 148 (wrbuf s) @ replicate 8 CHR '' '' @ drop 156 (wrbuf s)\<rparr>"

lemma blank_checksum_in [simp]: "cfd_in (blank_checksum s) = cfd_in s"
  by (simp add: blank_checksum_def)

text \<open>The rest of the header, after the type.\<close>

definition tar_finish :: "string \<Rightarrow> stat \<Rightarrow> iosm \<Rightarrow> (int \<times> (stat \<times> iosm)) outcome" where
  "tar_finish hdr st s =
     (let dev = Makedev (tar_num hdr 329 8) (tar_num hdr 337 8); mtime = scast (tar_num hdr 136 12);
          st = st\<lparr>st_uid := tar_num hdr 108 8, st_gid := tar_num hdr 116 8, st_mtime := mtime, st_atime := mtime,
                  st_ctime := mtime, st_dev := dev, st_rdev := dev\<rparr> in
      andThen (tar_name 0 s (io_path s)) (\<lambda>path.
      andThen (tar_name 157 s (io_lpath s)) (\<lambda>lpath.
        ok (0, (st, s\<lparr>io_path := path, io_lpath := lpath\<rparr>)))))"

lemma ReadName_next_in:
  "tar_next zblk s = Inr (None, s1) \<Longrightarrow> tarHeaderReadName len (blank_checksum s1) = Inr (r, s2) \<Longrightarrow> \<not> fst r \<le> 0 \<Longrightarrow>
   length (cfd_in s2) < length (cfd_in s)"
  using tar_next_in[of zblk s s1] ReadName_in[of len "blank_checksum s1" "fst r" "snd r" s2] by simp

function tarHeaderRead :: "stat \<Rightarrow> iosm \<Rightarrow> (int \<times> (stat \<times> iosm)) outcome" where
  "tarHeaderRead st s =
     andThen (tar_next 0 s) (\<lambda>(r, s).
     case r of
       Some rc \<Rightarrow> ok (rc, (st, s))
     | None \<Rightarrow>
         let hdr = take TAR_BLOCK_SIZE (wrbuf s); typeflag = hdr ! 156; s = blank_checksum s in
         if \<not> tar_sum_ok hdr then ok (IOSMERR_BAD_HEADER, (st, s))
         else if strncmp TAR_MAGIC (drop 257 hdr) 5 \<noteq> 0 then ok (IOSMERR_BAD_MAGIC, (st, s))
         else let st = st\<lparr>st_size := scast (tar_num hdr 124 12),
                          st_nlink := (if typeflag = CHR ''5'' then 2 else 1),
                          st_mode := tar_mode typeflag (tar_num hdr 100 8)\<rparr> in
           if typeflag = CHR ''K'' then
             andThen (tarHeaderReadName (unat (st_size st)) s) (\<lambda>(r, s).
               if fst r \<le> 0 then ok (if fst r \<noteq> 0 then - fst r else IOSMERR_HDR_TRAILER, (st, s\<lparr>io_lpath := snd r\<rparr>))
               else tarHeaderRead st (s\<lparr>io_lpath := snd r\<rparr>))
           else if typeflag = CHR ''L'' then
             andThen (tarHeaderReadName (unat (st_size st)) s) (\<lambda>(r, s).
               if fst r \<le> 0 then ok (if fst r \<noteq> 0 then - fst r else IOSMERR_HDR_TRAILER, (st, s\<lparr>io_path := snd r\<rparr>))
               else tarHeaderRead st (s\<lparr>io_path := snd r\<rparr>))
           else tar_finish hdr st s)"
  by pat_completeness auto

termination
  by (relation "measure (\<lambda>(_, s). length (cfd_in s))") (auto simp: ReadName_next_in)

declare tarHeaderRead.simps [simp del]

end
