(* ===== verification/IosmProps.thy ===== *)
theory IosmProps
  imports Iosm
begin

unbundle bit_operations_syntax

text \<open>
  Facts of the payload stages that every archive format uses: numbers printed into the fields of a
  header are read back, and what the reads, the writes, the alignment and the data loops do to a
  payload that holds enough bytes.
\<close>

section \<open>Digits\<close>

lemma digit_of_char: "d < 16 \<Longrightarrow> digit_of (''0123456789abcdef'' ! d) = d"
proof -
  assume "d < 16"
  moreover have "\<forall>d \<in> {..<16}. digit_of (''0123456789abcdef'' ! d) = d"
    by code_simp
  ultimately show ?thesis by simp
qed

lemma base_digits_digits:
  "2 \<le> base \<Longrightarrow> base \<le> 16 \<Longrightarrow> c \<in> set (base_digits base n) \<Longrightarrow> digit_of c < base"
proof (induction n rule: less_induct)
  case (less n)
  show ?case
  proof (cases "n < base")
    case True
    then show ?thesis
      using less.prems by (simp add: base_digits.simps digit_of_char)
  next
    case False
    then have "c \<in> set (base_digits base (n div base)) \<or> c = ''0123456789abcdef'' ! (n mod base)"
      using less.prems by (auto simp: base_digits.simps [of base n])
    moreover have nb: "n div base < n" "n mod base < base"
      using False less.prems by simp_all
    moreover have "n mod base < 16"
      using nb(2) less.prems by linarith
    ultimately show ?thesis
      using less.IH[of "n div base"] less.prems digit_of_char[of "n mod base"] by auto
  qed
qed

lemma base_val_snoc: "base_val base (ds @ [c]) = base_val base ds * base + digit_of c"
  by (simp add: base_val_def)

lemma base_val_digits: "2 \<le> base \<Longrightarrow> base \<le> 16 \<Longrightarrow> base_val base (base_digits base n) = n"
proof (induction n rule: less_induct)
  case (less n)
  show ?case
  proof (cases "n < base")
    case True
    then show ?thesis
      using less.prems by (simp add: base_digits.simps base_val_def digit_of_char)
  next
    case False
    then have "n div base < n" "n mod base < 16"
      using less.prems by (simp_all add: order.strict_trans2[OF mod_less_divisor])
    then show ?thesis
      using less False by (simp add: base_digits.simps [of base n] base_val_snoc digit_of_char del: One_nat_def)
  qed
qed

lemma length_base_digits: "2 \<le> base \<Longrightarrow> n < base ^ k \<Longrightarrow> 0 < k \<Longrightarrow> length (base_digits base n) \<le> k"
proof (induction k arbitrary: n)
  case (Suc k)
  show ?case
  proof (cases "n < base")
    case True
    then show ?thesis by (simp add: base_digits.simps)
  next
    case False
    then have "0 < k"
      using Suc.prems by (cases k) simp_all
    moreover have "n div base < base ^ k"
      using Suc.prems by (simp add: less_mult_imp_div_less mult.commute)
    ultimately show ?thesis
      using Suc.IH[of "n div base"] Suc.prems False by (simp add: base_digits.simps [of base n])
  qed
qed simp

lemma base_val_zeros: "base_val base (replicate k CHR ''0'' @ ds) = base_val base ds"
proof -
  have "digit_of CHR ''0'' = 0"
    by (simp add: digit_of_def cval_def xisdigit_def of_char_def)
  then have "foldl (\<lambda>acc c. acc * base + digit_of c) 0 (replicate k CHR ''0'') = 0"
    by (induction k) simp_all
  then show ?thesis
    by (simp add: base_val_def)
qed

lemma padded_facts:
  assumes "2 \<le> base" "base \<le> 16" "n < base ^ k" "0 < k"
  shows "length (padded base k n) = k" "base_val base (padded base k n) = n"
    "\<forall>c\<in>set (padded base k n). digit_of c < base"
proof -
  have "digit_of CHR ''0'' = 0"
    by (simp add: digit_of_def cval_def xisdigit_def of_char_def)
  then show "length (padded base k n) = k" "base_val base (padded base k n) = n"
    "\<forall>c\<in>set (padded base k n). digit_of c < base"
    using assms length_base_digits[of base n k]
    by (auto simp: padded_def Let_def base_val_zeros base_val_digits base_digits_digits)
qed

lemma digit_not_special:
  assumes "digit_of c < 16"
  shows "\<not> xisspace (cval c)" "c \<noteq> CHR ''-''" "c \<noteq> CHR ''+''" "c \<noteq> CHR ''x''" "c \<noteq> CHR ''X''" "c \<noteq> NUL"
proof -
  have "xisdigit (cval c) \<or> 97 \<le> cval c \<and> cval c \<le> 102 \<or> 65 \<le> cval c \<and> cval c \<le> 70"
    using assms by (auto simp: digit_of_def Let_def split: if_splits)
  then show "\<not> xisspace (cval c)" "c \<noteq> CHR ''-''" "c \<noteq> CHR ''+''" "c \<noteq> CHR ''x''" "c \<noteq> CHR ''X''" "c \<noteq> NUL"
    by (auto simp: xis_defs) (simp_all add: cval_def of_char_def)
qed

text \<open>The number that a field starts with, where white space, a sign or a prefix cannot be read into it.\<close>

lemma strtoul_digits:
  assumes ds: "ds \<noteq> []" "\<forall>c\<in>set ds. digit_of c < base" "base \<le> 16" "base_val base ds < 2 ^ 64"
    and rest: "rest = [] \<or> \<not> digit_of (hd rest) < base \<and> hd rest \<notin> {CHR ''x'', CHR ''X''}"
  shows "strtoul base (ds @ rest) = (of_nat (base_val base ds), length ds)"
proof -
  obtain c cs where c: "ds = c # cs"
    using ds(1) by (cases ds) auto
  have "digit_of c < 16"
    using ds c by auto
  note c1 = digit_not_special[OF this]
  have x: "y \<noteq> CHR ''x'' \<and> y \<noteq> CHR ''X''" if "cs @ rest = y # r" for y r
  proof (cases cs)
    case Nil
    then show ?thesis using rest that by auto
  next
    case (Cons d ds')
    then have "digit_of d < 16"
      using ds c by auto
    then show ?thesis
      using Cons that digit_not_special(4,5)[of d] by simp
  qed
  have "takeWhile (\<lambda>c. digit_of c < base) (ds @ rest) = ds"
    using ds(2) rest by (cases rest) (auto simp: takeWhile_append)
  moreover have "dropWhile (\<lambda>c. xisspace (cval c)) (ds @ rest) = ds @ rest"
    using c c1 by simp
  moreover have "(case ds @ rest of c # x # h # r \<Rightarrow>
      if base = 16 \<and> c = CHR ''0'' \<and> (x = CHR ''x'' \<or> x = CHR ''X'') \<and> digit_of h < 16 then h # r else ds @ rest
      | _ \<Rightarrow> ds @ rest) = ds @ rest"
    using x c by (auto split: list.splits)
  moreover have "(case ds @ rest of [] \<Rightarrow> (False, [])
      | c # cs \<Rightarrow> if c = CHR ''-'' then (True, cs) else if c = CHR ''+'' then (False, cs) else (False, ds @ rest))
      = (False, ds @ rest)"
    using c c1 by simp
  ultimately show ?thesis
    using ds by (simp add: strtoul_def Let_def)
qed

lemma strntoul_digits:
  assumes "ds \<noteq> []" "\<forall>c\<in>set ds. digit_of c < base" "base \<le> 16" "base_val base ds < 2 ^ 64"
    and "length ds \<le> num" and "rest = [] \<or> num = length ds \<or> hd rest = NUL \<or> hd rest = CHR '' ''"
  shows "strntoul (ds @ rest) base num = (of_nat (base_val base ds), length ds)"
proof -
  have nul: "\<forall>c\<in>set ds. c \<noteq> NUL"
    using assms(2,3) digit_not_special(6) by (meson order.strict_trans2)
  define rest' where "rest' = takeWhile (\<lambda>c. c \<noteq> NUL) (take (num - length ds) rest)"
  have "takeWhile (\<lambda>c. c \<noteq> NUL) (take num (ds @ rest)) = ds @ rest'"
    using nul assms(5) by (simp add: rest'_def takeWhile_append)
  moreover have "digit_of CHR '' '' = 99"
    by (simp add: digit_of_def cval_def xisdigit_def of_char_def)
  then have "rest' = [] \<or> \<not> digit_of (hd rest') < base \<and> hd rest' \<notin> {CHR ''x'', CHR ''X''}"
    using assms(3,6) by (cases rest; cases "num - length ds") (auto simp: rest'_def)
  ultimately have "strtoul base (takeWhile (\<lambda>c. c \<noteq> NUL) (take num (ds @ rest))) = (of_nat (base_val base ds), length ds)"
    using strtoul_digits[OF assms(1-4), of rest'] by simp
  then show ?thesis
    using assms(4) by (simp add: strntoul_def Let_def unsigned_of_nat take_bit_nat_eq_self)
qed

section \<open>A payload that is read\<close>

text \<open>A reader in good order, before \<open>inp\<close>, at \<open>pos\<close>.\<close>

definition reading :: "string \<Rightarrow> nat \<Rightarrow> iosm \<Rightarrow> bool" where
  "reading inp pos s \<longleftrightarrow> cfd_in s = inp \<and> cfd_pos s = pos \<and> \<not> cfd_err s \<and> io_rc s = 0"

text \<open>What a read leaves alone.\<close>

definition same_files :: "iosm \<Rightarrow> iosm \<Rightarrow> bool" where
  "same_files s s' \<longleftrightarrow> io_path s' = io_path s \<and> io_lpath s' = io_lpath s \<and> wfd s' = wfd s \<and>
     wrsize s' = wrsize s \<and> blksize s' = blksize s \<and>
     lmtab s' = lmtab s \<and> lmtablen s' = lmtablen s \<and> lmtaboff s' = lmtaboff s"

lemma same_files_refl [simp]: "same_files s s"
  by (simp add: same_files_def)

lemma same_files_trans: "same_files s s' \<Longrightarrow> same_files s' s'' \<Longrightarrow> same_files s s''"
  by (simp add: same_files_def)

lemma DREAD_reading:
  assumes "reading (bs @ rest) pos s" "wrlen s = length bs" "length bs \<le> wrsize s"
  shows "\<exists>s'. IOSM_DREAD s = ok (0, s') \<and> reading rest (pos + length bs) s' \<and> same_files s s' \<and>
    rdnb s' = length bs \<and> wrlen s' = length bs \<and> take (length bs) (wrbuf s') = bs"
  using assms by (simp add: reading_def IOSM_DREAD_def Fread_def Let_def same_files_def)

lemma io_read_reading:
  assumes "reading (bs @ rest) pos s" "length bs \<le> wrsize s"
  shows "\<exists>s'. io_read eof (length bs) acc s = ok ((int (length acc + length bs), acc @ bs), s') \<and>
    reading rest (pos + length bs) s' \<and> same_files s s' \<and> (bs \<noteq> [] \<longrightarrow> take (length bs) (wrbuf s') = bs)"
proof (cases "bs = []")
  case True
  then show ?thesis
    using assms by (simp add: io_read.simps)
next
  case False
  have "reading (bs @ rest) pos (s\<lparr>wrlen := length bs\<rparr>)"
    using assms by (simp add: reading_def)
  then obtain s' where "IOSM_DREAD (s\<lparr>wrlen := length bs\<rparr>) = ok (0, s')" "reading rest (pos + length bs) s'"
      "same_files (s\<lparr>wrlen := length bs\<rparr>) s'" "rdnb s' = length bs" "wrlen s' = length bs"
      "take (length bs) (wrbuf s') = bs"
    using DREAD_reading[of bs rest pos "s\<lparr>wrlen := length bs\<rparr>"] assms(2) by auto
  then show ?thesis
    using False by (subst io_read.simps) (simp add: io_read.simps [of _ 0] same_files_def)
qed

text \<open>A read that asks for more than there is.\<close>

lemma io_read_short:
  assumes "reading part pos s" "length part < cnt" "length part \<le> wrsize s"
  shows "\<exists>bs s'. io_read False cnt [] s = ok ((- IOSMERR_READ_FAILED, bs), s') \<and> same_files s s'"
proof -
  have "IOSM_DREAD (s\<lparr>wrlen := cnt\<rparr>) = ok (IOSMERR_READ_FAILED,
      s\<lparr>wrlen := cnt, wrbuf := part @ drop (length part) (wrbuf s), cfd_in := [], rdnb := length part,
        cfd_pos := (if length part > 0 then pos + length part else pos)\<rparr>)"
    using assms by (simp add: IOSM_DREAD_def Fread_def reading_def Let_def)
  then show ?thesis
    using assms by (subst io_read.simps) (auto simp: IOSMERR_READ_FAILED_def same_files_def)
qed

lemma block_left_less: "blksize s \<noteq> 0 \<Longrightarrow> block_left s < blksize s"
  by (simp add: block_left_def)

lemma POS_reading:
  assumes "reading (pad @ rest) pos s" "blksize s \<noteq> 0" "length pad = block_left s" "blksize s \<le> wrsize s"
  shows "\<exists>s'. IOSM_POS s = ok (0, s') \<and> reading rest (pos + length pad) s' \<and> same_files s s'"
proof (cases "pad = []")
  case True
  then show ?thesis
    using assms by (auto simp: IOSM_POS_def reading_def)
next
  case False
  have "reading (pad @ rest) pos (s\<lparr>wrlen := length pad\<rparr>)"
    using assms by (simp add: reading_def)
  then obtain s' where "IOSM_DREAD (s\<lparr>wrlen := length pad\<rparr>) = ok (0, s')" "reading rest (pos + length pad) s'"
      "same_files (s\<lparr>wrlen := length pad\<rparr>) s'"
    using DREAD_reading[of pad rest pos "s\<lparr>wrlen := length pad\<rparr>"] assms block_left_less[of s] by auto
  moreover have "block_left s \<noteq> 0"
    using False assms(3) by (cases pad) auto
  ultimately show ?thesis
    using assms by (auto simp: IOSM_POS_def Let_def reading_def same_files_def)
qed

text \<open>The data of a file, in pieces of the size of the buffer.\<close>

lemma extract_reading:
  "reading (data @ rest) pos s \<Longrightarrow> 0 < wrsize s \<Longrightarrow> length data < fuel \<Longrightarrow>
   \<exists>s'. extract_loop fuel (length data) 0 s = Some (ok (0, s')) \<and> reading rest (pos + length data) s' \<and>
     same_files (s\<lparr>wfd := wfd s @ data\<rparr>) s'"
proof (induction fuel arbitrary: data pos s)
  case (Suc fuel)
  show ?case
  proof (cases "data = []")
    case True
    then show ?thesis
      using Suc.prems by (auto simp: same_files_def)
  next
    case False
    define n where "n = (if length data > wrsize s then wrsize s else length data)"
    have n: "0 < n" "n \<le> length data" "n \<le> wrsize s"
      using False Suc.prems by (auto simp: n_def)
    have "reading (take n data @ drop n data @ rest) pos (s\<lparr>wrlen := n\<rparr>)"
      using Suc.prems by (simp add: reading_def flip: append.assoc)
    then obtain s1 where s1: "IOSM_DREAD (s\<lparr>wrlen := n\<rparr>) = ok (0, s1)" "reading (drop n data @ rest) (pos + n) s1"
        "same_files (s\<lparr>wrlen := n\<rparr>) s1" "rdnb s1 = n" "take n (wrbuf s1) = take n data"
      using DREAD_reading[of "take n data" "drop n data @ rest" pos "s\<lparr>wrlen := n\<rparr>"] n by auto
    define s2 where "s2 = s1\<lparr>wfd := wfd s1 @ take n data, wrnb := n\<rparr>"
    have w: "IOSM_WRITE s1 = ok (0, s2)"
      using s1 n by (auto simp: IOSM_WRITE_def s2_def reading_def same_files_def)
    have "reading (drop n data @ rest) (pos + n) s2" and "wrsize s2 = wrsize s"
      using s1 by (simp_all add: s2_def reading_def same_files_def)
    moreover have "length (drop n data) < fuel" "0 < wrsize s2"
      using Suc.prems n \<open>wrsize s2 = wrsize s\<close> by simp_all
    ultimately obtain s3 where "extract_loop fuel (length (drop n data)) 0 s2 = Some (ok (0, s3))"
        "reading rest (pos + n + length (drop n data)) s3" "same_files (s2\<lparr>wfd := wfd s2 @ drop n data\<rparr>) s3"
      using Suc.IH[of "drop n data" "pos + n" s2] by blast
    then show ?thesis
      using s1 w n False by (simp add: n_def [symmetric] s2_def same_files_def)
  qed
qed simp

section \<open>A payload that is written\<close>

definition writing :: "string \<Rightarrow> nat \<Rightarrow> nat \<Rightarrow> iosm \<Rightarrow> bool" where
  "writing out pos room s \<longleftrightarrow> cfd_out s = out \<and> cfd_pos s = pos \<and> cfd_room s = room \<and> \<not> cfd_err s \<and> io_rc s = 0"

definition same_input :: "iosm \<Rightarrow> iosm \<Rightarrow> bool" where
  "same_input s s' \<longleftrightarrow> io_path s' = io_path s \<and> io_lpath s' = io_lpath s \<and> rfd s' = rfd s \<and>
     rdsize s' = rdsize s \<and> blksize s' = blksize s \<and>
     lmtab s' = lmtab s \<and> lmtablen s' = lmtablen s \<and> lmtaboff s' = lmtaboff s"

lemma same_input_trans: "same_input s s' \<Longrightarrow> same_input s' s'' \<Longrightarrow> same_input s s''"
  by (simp add: same_input_def)

lemma DWRITE_writing:
  assumes "writing out pos (n + room) s" "rdnb s = n" "n \<le> rdsize s"
  shows "\<exists>s'. IOSM_DWRITE s = ok (0, s') \<and> writing (out @ take n (rdbuf s)) (pos + n) room s' \<and>
    same_input s s' \<and> rdnb s' = n \<and> wrnb s' = n \<and> rdbuf s' = rdbuf s"
  using assms by (simp add: writing_def IOSM_DWRITE_def Let_def same_input_def)

lemma put_rdbuf_ok:
  assumes "off + length bs \<le> rdsize s"
  shows "put_rdbuf off bs s = ok (s\<lparr>rdbuf := take off (rdbuf s) @ bs @ drop (off + length bs) (rdbuf s)\<rparr>)"
  using assms by (simp add: put_rdbuf_def)

lemma io_write_writing:
  assumes "writing out pos (length bs + room) s" "length bs \<le> rdsize s"
    and "case buf of None \<Rightarrow> take (length bs) (rdbuf s) = bs | Some b \<Rightarrow> b = bs"
  shows "\<exists>s'. io_write buf (length bs) s = ok (int (length bs), s') \<and>
    writing (out @ bs) (pos + length bs) room s' \<and> same_input s s'"
proof (cases "bs = []")
  case True
  then show ?thesis
    using assms by (simp add: io_write_def same_input_def)
next
  case False
  define s1 where "s1 = (case buf of None \<Rightarrow> s | Some b \<Rightarrow> s\<lparr>rdbuf := bs @ drop (length bs) (rdbuf s)\<rparr>)"
  have s1: "(case buf of None \<Rightarrow> ok s | Some b \<Rightarrow> put_rdbuf 0 (take (length bs) b) s) = ok s1"
      "take (length bs) (rdbuf s1) = bs" "same_input s s1" "writing out pos (length bs + room) (s1\<lparr>rdnb := length bs\<rparr>)"
      "length bs \<le> rdsize s1"
    using assms by (auto simp: s1_def put_rdbuf_ok same_input_def writing_def split: option.splits)
  then obtain s2 where "IOSM_DWRITE (s1\<lparr>rdnb := length bs\<rparr>) = ok (0, s2)" "writing (out @ bs) (pos + length bs) room s2"
      "same_input (s1\<lparr>rdnb := length bs\<rparr>) s2" "rdnb s2 = length bs" "wrnb s2 = length bs"
    using DWRITE_writing[of out pos "length bs" room "s1\<lparr>rdnb := length bs\<rparr>"] by auto
  then show ?thesis
    using s1 False by (simp add: io_write_def same_input_def)
qed

lemma PAD_writing:
  assumes "writing out pos (length pad + room) s" "blksize s \<noteq> 0" "blksize s \<le> rdsize s"
    and "pad = (if blksize s = 2 \<and> block_left s \<noteq> 0 then [CHR 0x0A] else replicate (block_left s) NUL)"
  shows "\<exists>s'. IOSM_PAD s = ok (0, s') \<and> writing (out @ pad) (pos + length pad) room s' \<and> same_input s s'"
proof (cases "block_left s = 0")
  case True
  then show ?thesis
    using assms by (simp add: IOSM_PAD_def writing_def same_input_def)
next
  case False
  have len: "length pad = block_left s" "block_left s < blksize s"
    using assms False block_left_less[of s] by auto
  define s1 where "s1 = s\<lparr>rdbuf := pad @ drop (length pad) (rdbuf s)\<rparr>"
  have "put_rdbuf 0 pad s = ok s1"
    using put_rdbuf_ok[of 0 pad s] len assms(3) by (simp add: s1_def)
  moreover obtain s2 where "IOSM_DWRITE (s1\<lparr>rdnb := length pad\<rparr>) = ok (0, s2)"
      "writing (out @ pad) (pos + length pad) room s2" "same_input (s1\<lparr>rdnb := length pad\<rparr>) s2"
    using DWRITE_writing[of out pos "length pad" room "s1\<lparr>rdnb := length pad\<rparr>"] assms(1,3) len
    by (auto simp: s1_def writing_def)
  ultimately show ?thesis
    using False assms len
    by (auto simp: IOSM_PAD_def Let_def same_input_def s1_def writing_def)
qed

end
