(* ===== verification/Payload.thy ===== *)
theory Payload
  imports Cpio IosmProps
begin

text \<open>
  Whole payloads in any of the formats: the drivers that pack and unpack a list of files, and the
  contract \<open>archive_format\<close> of a header writer, a header reader and a trailer writer under which
  unpacking returns what was packed.

  \<open>pack\<close> and \<open>unpack\<close> stand for the loops of \<open>IOSM_PKGBUILD\<close> and \<open>IOSM_PKGINSTALL\<close> over the files,
  without the effects on the file system: the data of a file comes from \<open>rfd\<close> and ends in \<open>wfd\<close>. A
  hard link is a regular file that has a link target and no data.
\<close>

section \<open>Drivers\<close>

type_synonym pfile = "stat \<times> string \<times> string option \<times> string"
type_synonym header_writer = "stat \<Rightarrow> iosm \<Rightarrow> (int \<times> iosm) outcome"
type_synonym header_reader = "stat \<Rightarrow> iosm \<Rightarrow> (int \<times> (stat \<times> iosm)) outcome"

fun pack :: "header_writer \<Rightarrow> (iosm \<Rightarrow> (int \<times> iosm) outcome) \<Rightarrow> pfile list \<Rightarrow> iosm \<Rightarrow> (int \<times> iosm) outcome option" where
  "pack hw tw [] s = Some (tw s)"
| "pack hw tw ((st, path, lpath, data) # files) s =
     (case writeFile_tail (Suc (length data)) hw True st
             (s\<lparr>io_path := Some path, io_lpath := lpath, rfd := data\<rparr>) of
        None \<Rightarrow> None
      | Some (Inl e) \<Rightarrow> Some (Inl e)
      | Some (Inr (rc, s)) \<Rightarrow> if rc \<noteq> 0 then Some (ok (rc, s)) else pack hw tw files s)"

text \<open>\<open>IOSM_PROCESS\<close> for the payload: a regular file that has a link target is linked to that one, and no
  data are read; any other regular file is not there yet (\<open>IOSM_VERIFY\<close> says so) and its data are extracted.\<close>

definition process_data :: "stat \<Rightarrow> iosm \<Rightarrow> (int \<times> iosm) outcome option" where
  "process_data st s =
     (if S_ISREG (st_mode st) \<and> io_lpath s \<noteq> None then Some (ok (0, s))
      else if S_ISREG (st_mode st) then extract_loop (Suc (unat (st_size st))) (unat (st_size st)) 0 s
      else Some (ok (0, s)))"

text \<open>Unpacking takes at most \<open>fuel\<close> files; \<open>IOSM_INIT\<close> forgets the names of the last one.\<close>

fun unpack :: "header_reader \<Rightarrow> nat \<Rightarrow> stat \<Rightarrow> iosm \<Rightarrow> (int \<times> pfile list) outcome option" where
  "unpack hr 0 st s = None"
| "unpack hr (Suc fuel) st s =
     (case IOSM_NEXT hr st (s\<lparr>io_path := None, io_lpath := None, wfd := []\<rparr>) of
        Inl e \<Rightarrow> Some (Inl e)
      | Inr (rc, (st', s)) \<Rightarrow>
          if rc = IOSMERR_HDR_TRAILER then Some (ok (0, []))
          else if rc \<noteq> 0 then Some (ok (rc, []))
          else (case process_data st' s of
                  None \<Rightarrow> None
                | Some (Inl e) \<Rightarrow> Some (Inl e)
                | Some (Inr (rc, s)) \<Rightarrow>
                    if rc \<noteq> 0 then Some (ok (rc, []))
                    else (case unpack hr fuel st s of
                            None \<Rightarrow> None
                          | Some (Inl e) \<Rightarrow> Some (Inl e)
                          | Some (Inr (rc, files)) \<Rightarrow>
                              Some (ok (rc, (st', the (io_path s), io_lpath s, wfd s) # files)))))"

section \<open>Padding\<close>

definition padding :: "nat \<Rightarrow> nat \<Rightarrow> string" where
  "padding b n =
     (let left = (b - n mod b) mod b in if b = 2 \<and> left \<noteq> 0 then [CHR 0x0A] else replicate left NUL)"

lemma length_padding: "length (padding b n) = (b - n mod b) mod b"
proof (cases "b = 2")
  case True
  then show ?thesis by (cases "n mod 2 = 0") (auto simp: padding_def Let_def)
qed (simp add: padding_def Let_def)

lemma padding_aligned [simp]: "n mod b = 0 \<Longrightarrow> padding b n = []"
  by (simp add: padding_def Let_def)

lemma padding_aligns: "0 < b \<Longrightarrow> (n + length (padding b n)) mod b = 0"
proof (cases "n mod b = 0")
  case False
  assume b: "0 < b"
  have lt: "b - n mod b < b" "n mod b < b"
    using False b by (auto intro: diff_less)
  have "n = b * (n div b) + n mod b"
    by simp
  then have "n + (b - n mod b) = b * (n div b) + b"
    using lt(2) by linarith
  then have "(n + (b - n mod b)) mod b = 0"
    by simp
  then show ?thesis
    using lt by (simp add: length_padding)
qed simp

lemma PAD_padding:
  assumes "writing out pos (length (padding b pos) + room) s" "blksize s = b" "0 < b" "b \<le> rdsize s"
  shows "\<exists>s'. IOSM_PAD s = ok (0, s') \<and> writing (out @ padding b pos) (pos + length (padding b pos)) room s' \<and>
    same_input s s'"
proof -
  have left: "block_left s = (b - pos mod b) mod b"
    using assms by (simp add: block_left_def writing_def)
  have "padding b pos = (if blksize s = 2 \<and> block_left s \<noteq> 0 then [CHR 0x0A] else replicate (block_left s) NUL)"
    unfolding left assms(2) padding_def Let_def ..
  from PAD_writing[OF assms(1) _ _ this] show ?thesis
    using assms(2-4) by simp
qed

lemma POS_padding:
  assumes "reading (padding b pos @ rest) pos s" "blksize s = b" "0 < b" "b \<le> wrsize s"
  shows "\<exists>s'. IOSM_POS s = ok (0, s') \<and> reading rest (pos + length (padding b pos)) s' \<and> same_files s s'"
  using POS_reading[OF assms(1)] assms by (simp add: length_padding block_left_def reading_def)

section \<open>The data of a file\<close>

lemma write_loop_writing:
  "writing out pos (length data + room) s \<Longrightarrow> rfd s = data \<Longrightarrow> 0 < rdsize s \<Longrightarrow> length data < fuel \<Longrightarrow>
   \<exists>s'. write_loop fuel (length data) 0 s = Some (ok (0, s')) \<and> writing (out @ data) (pos + length data) room s' \<and>
     same_input (s\<lparr>rfd := []\<rparr>) s'"
proof (induction fuel arbitrary: out pos data s)
  case (Suc fuel)
  show ?case
  proof (cases "data = []")
    case True
    then show ?thesis
      using Suc.prems by (auto simp: same_input_def)
  next
    case False
    define n where "n = (if length data > rdsize s then rdsize s else length data)"
    have n: "0 < n" "n \<le> length data" "n \<le> rdsize s"
      using False Suc.prems by (auto simp: n_def)
    define s1 where "s1 = s\<lparr>rdlen := n, rdbuf := take n data @ drop n (rdbuf s), rfd := drop n data, rdnb := n\<rparr>"
    have r: "IOSM_READ (s\<lparr>rdlen := n\<rparr>) = ok (0, s1)"
      using n Suc.prems by (simp add: IOSM_READ_def Let_def s1_def writing_def)
    have w1: "writing out pos (n + (length (drop n data) + room)) s1" "rdnb s1 = n" "n \<le> rdsize s1"
      using Suc.prems n by (simp_all add: s1_def writing_def)
    obtain s2 where s2: "IOSM_DWRITE s1 = ok (0, s2)"
        "writing (out @ take n data) (pos + n) (length (drop n data) + room) s2" "same_input s1 s2" "wrnb s2 = n"
      using DWRITE_writing[OF w1] n by (auto simp: s1_def)
    have "rfd s2 = drop n data" "0 < rdsize s2" "length (drop n data) < fuel"
      using s2(3) Suc.prems n by (auto simp: same_input_def s1_def)
    then obtain s3 where "write_loop fuel (length (drop n data)) 0 s2 = Some (ok (0, s3))"
        "writing (out @ take n data @ drop n data) (pos + n + length (drop n data)) room s3"
        "same_input (s2\<lparr>rfd := []\<rparr>) s3"
      using Suc.IH[OF s2(2)] by auto
    then show ?thesis
      using r s2 n False by (simp add: n_def [symmetric] s1_def same_input_def)
  qed
qed simp

section \<open>The contract of a format\<close>

text \<open>An archive: for each file its header, its data and padding, then the trailer.\<close>

fun archive ::
  "nat \<Rightarrow> (nat \<Rightarrow> stat \<Rightarrow> string \<Rightarrow> string option \<Rightarrow> string) \<Rightarrow> (nat \<Rightarrow> string) \<Rightarrow> nat \<Rightarrow> pfile list \<Rightarrow> string"
where
  "archive b hb tb pos [] = tb pos"
| "archive b hb tb pos ((st, path, lpath, data) # files) =
     (let h = hb pos st path lpath; q = pos + length h + length data in
      h @ data @ padding b q @ archive b hb tb (q + length (padding b q)) files)"

text \<open>Where the trailer begins.\<close>

fun archive_end :: "nat \<Rightarrow> (nat \<Rightarrow> stat \<Rightarrow> string \<Rightarrow> string option \<Rightarrow> string) \<Rightarrow> nat \<Rightarrow> pfile list \<Rightarrow> nat" where
  "archive_end b hb pos [] = pos"
| "archive_end b hb pos ((st, path, lpath, data) # files) =
     (let q = pos + length (hb pos st path lpath) + length data in
      archive_end b hb (q + length (padding b q)) files)"

definition file_ok :: "(nat \<Rightarrow> stat \<Rightarrow> string \<Rightarrow> string option \<Rightarrow> bool) \<Rightarrow> nat \<Rightarrow> pfile \<Rightarrow> bool" where
  "file_ok entry_ok w f = (case f of (st, path, lpath, data) \<Rightarrow>
     entry_ok w st path lpath \<and> (if S_ISREG (st_mode st) then unat (st_size st) = length data else data = []) \<and>
     (S_ISREG (st_mode st) \<and> lpath \<noteq> None \<longrightarrow> data = []))"

definition unpacked :: "(stat \<Rightarrow> stat \<Rightarrow> stat) \<Rightarrow> stat \<Rightarrow> pfile list \<Rightarrow> pfile list" where
  "unpacked rstat st0 = map (\<lambda>(st, path, lpath, data). (rstat st0 st, path, lpath, data))"

text \<open>The code at the end of a payload: \<open>IOSMERR_HDR_TRAILER\<close> is no error.\<close>

definition ends :: "int \<Rightarrow> int" where
  "ends rc = (if rc = IOSMERR_HDR_TRAILER then 0 else rc)"

locale archive_format =
  fixes hw :: header_writer and hr :: header_reader and tw :: "iosm \<Rightarrow> (int \<times> iosm) outcome"
    and b :: nat and least :: nat
    and hb :: "nat \<Rightarrow> stat \<Rightarrow> string \<Rightarrow> string option \<Rightarrow> string" and tb :: "nat \<Rightarrow> string"
    and entry_ok :: "nat \<Rightarrow> stat \<Rightarrow> string \<Rightarrow> string option \<Rightarrow> bool" and end_rc :: "nat \<Rightarrow> int"
    and rstat :: "stat \<Rightarrow> stat \<Rightarrow> stat"
  assumes block: "0 < b" "b \<le> least"
    and header_written:
      "writing out pos (length (hb pos st path lpath) + room) s \<Longrightarrow> pos mod b = 0 \<Longrightarrow> blksize s = b \<Longrightarrow>
       least \<le> rdsize s \<Longrightarrow> io_path s = Some path \<Longrightarrow> io_lpath s = lpath \<Longrightarrow> entry_ok (rdsize s) st path lpath \<Longrightarrow>
       \<exists>s'. hw st s = ok (0, s') \<and> writing (out @ hb pos st path lpath) (pos + length (hb pos st path lpath)) room s' \<and>
         same_input s s'"
    and trailer_written:
      "writing out pos (length (tb pos) + room) s \<Longrightarrow> pos mod b = 0 \<Longrightarrow> blksize s = b \<Longrightarrow> least \<le> rdsize s \<Longrightarrow>
       \<exists>s'. tw s = ok (0, s') \<and> writing (out @ tb pos) (pos + length (tb pos)) room s'"
    and header_read:
      "reading (padding b pos @ hb (pos + length (padding b pos)) st path lpath @ rest) pos s \<Longrightarrow> blksize s = b \<Longrightarrow>
       least \<le> wrsize s \<Longrightarrow> io_path s = None \<Longrightarrow> io_lpath s = None \<Longrightarrow> entry_ok (wrsize s) st path lpath \<Longrightarrow>
       \<exists>s'. IOSM_NEXT hr st0 s = ok (0, (rstat st0 st, s')) \<and>
         reading rest (pos + length (padding b pos) + length (hb (pos + length (padding b pos)) st path lpath)) s' \<and>
         same_files (s\<lparr>io_path := Some path, io_lpath := lpath\<rparr>) s'"
    and trailer_read:
      "reading (padding b pos @ tb (pos + length (padding b pos))) pos s \<Longrightarrow> blksize s = b \<Longrightarrow> least \<le> wrsize s \<Longrightarrow>
       \<exists>st' s'. IOSM_NEXT hr st0 s = ok (end_rc (pos + length (padding b pos)), (st', s'))"
    and end_rc: "end_rc pos \<noteq> 0"
    and kept: "st_mode (rstat st0 st) = st_mode st" "st_size (rstat st0 st) = st_size st"
begin

lemma file_written:
  assumes s: "writing out pos (length (hb pos st path lpath) + length data +
        length (padding b (pos + length (hb pos st path lpath) + length data)) + room) s"
      "pos mod b = 0" "blksize s = b" "least \<le> rdsize s" "io_path s = Some path" "io_lpath s = lpath" "rfd s = data"
    and ok: "file_ok entry_ok (rdsize s) (st, path, lpath, data)"
  defines "h \<equiv> hb pos st path lpath"
  defines "q \<equiv> pos + length h + length data"
  shows "\<exists>s'. writeFile_tail (Suc (length data)) hw True st s = Some (ok (0, s')) \<and>
    writing (out @ h @ data @ padding b q) (q + length (padding b q)) room s' \<and> rdsize s' = rdsize s \<and> blksize s' = b"
proof -
  have "writing out pos (length h + (length data + (length (padding b q) + room))) s"
    using s(1) by (simp add: h_def q_def add.assoc)
  then obtain s1 where s1: "hw st s = ok (0, s1)"
      "writing (out @ h) (pos + length h) (length data + (length (padding b q) + room)) s1" "same_input s s1"
    using header_written[of out pos st path lpath "length data + (length (padding b q) + room)" s] s ok
    unfolding h_def by (auto simp: file_ok_def)
  have d: "rfd s1 = data" "0 < rdsize s1" "length data < Suc (length data)"
    using s1(3) s block by (auto simp: same_input_def)
  obtain s2 where s2: "(if S_ISREG (st_mode st) then write_loop (Suc (length data)) (unat (st_size st)) 0 s1
        else Some (ok (0, s1))) = Some (ok (0, s2))"
      "writing (out @ h @ data) q (length (padding b q) + room) s2" "rdsize s2 = rdsize s" "blksize s2 = b"
  proof (cases "S_ISREG (st_mode st)")
    case True
    obtain s2 where "write_loop (Suc (length data)) (length data) 0 s1 = Some (ok (0, s2))"
        "writing ((out @ h) @ data) (pos + length h + length data) (length (padding b q) + room) s2"
        "same_input (s1\<lparr>rfd := []\<rparr>) s2"
      using write_loop_writing[OF s1(2) d] by blast
    then show ?thesis
      using that[of s2] True ok s(3) s1(3) by (simp add: file_ok_def q_def same_input_def del: write_loop.simps)
  next
    case False
    then show ?thesis
      using that[of s1] ok s(3) s1(2,3) by (simp add: file_ok_def q_def same_input_def)
  qed
  obtain s3 where "IOSM_PAD s2 = ok (0, s3)" "writing ((out @ h @ data) @ padding b q) (q + length (padding b q)) room s3"
      "same_input s2 s3"
    using PAD_padding[OF s2(2,4)] s2(3) s(4) block by auto
  then show ?thesis
    using s1(1) s2 by (auto simp: writeFile_tail_def same_input_def)
qed

lemma packed:
  "writing out pos (length (archive b hb tb pos files) + room) s \<Longrightarrow> pos mod b = 0 \<Longrightarrow> blksize s = b \<Longrightarrow>
   least \<le> rdsize s \<Longrightarrow> \<forall>f\<in>set files. file_ok entry_ok (rdsize s) f \<Longrightarrow>
   \<exists>s'. pack hw tw files s = Some (ok (0, s')) \<and>
     writing (out @ archive b hb tb pos files) (pos + length (archive b hb tb pos files)) room s'"
proof (induction files arbitrary: out pos s)
  case Nil
  then show ?case
    using trailer_written[of out pos room s] by auto
next
  case (Cons f files)
  obtain st path lpath data where f: "f = (st, path, lpath, data)"
    by (cases f)
  define h where "h = hb pos st path lpath"
  define q where "q = pos + length h + length data"
  define s0 where "s0 = s\<lparr>io_path := Some path, io_lpath := lpath, rfd := data\<rparr>"
  let ?a = "archive b hb tb (q + length (padding b q)) files"
  have arch: "archive b hb tb pos (f # files) = h @ data @ padding b q @ ?a"
    by (simp add: f h_def q_def Let_def)
  have "writing out pos (length h + length data + length (padding b q) + (length ?a + room)) s0"
    using Cons.prems(1) unfolding arch by (simp add: s0_def writing_def add.assoc)
  moreover have "blksize s0 = b" "io_path s0 = Some path" "io_lpath s0 = lpath" "rfd s0 = data" "least \<le> rdsize s0"
      "file_ok entry_ok (rdsize s0) (st, path, lpath, data)" "rdsize s0 = rdsize s"
    using Cons.prems f by (simp_all add: s0_def)
  ultimately obtain s1 where s1: "writeFile_tail (Suc (length data)) hw True st s0 = Some (ok (0, s1))"
      "writing (out @ h @ data @ padding b q) (q + length (padding b q)) (length ?a + room) s1"
      "rdsize s1 = rdsize s" "blksize s1 = b"
    using file_written[of out pos st path lpath data "length ?a + room" s0] Cons.prems(2) unfolding h_def q_def by metis
  then obtain s2 where "pack hw tw files s1 = Some (ok (0, s2))"
      "writing ((out @ h @ data @ padding b q) @ ?a) (q + length (padding b q) + length ?a) room s2"
    using Cons.IH[OF s1(2)] Cons.prems padding_aligns[OF block(1), of q] by auto
  then show ?case
    using s1(1) unfolding arch by (simp add: f s0_def q_def add.assoc)
qed

lemma same_process: "st_mode st' = st_mode st \<Longrightarrow> st_size st' = st_size st \<Longrightarrow> process_data st' s = process_data st s"
  by (simp add: process_data_def)

lemma file_read:
  assumes s: "reading (padding b pos @ hb (pos + length (padding b pos)) st path lpath @ data @ rest) pos s"
      "blksize s = b" "least \<le> wrsize s" "io_path s = None" "io_lpath s = None" "wfd s = []"
    and ok: "file_ok entry_ok (wrsize s) (st, path, lpath, data)"
  defines "q \<equiv> pos + length (padding b pos) + length (hb (pos + length (padding b pos)) st path lpath) + length data"
  shows "\<exists>s1 s2. IOSM_NEXT hr st0 s = ok (0, (rstat st0 st, s1)) \<and>
    process_data st s1 = Some (ok (0, s2)) \<and>
    reading rest q s2 \<and> io_path s2 = Some path \<and> io_lpath s2 = lpath \<and> wfd s2 = data \<and>
    wrsize s2 = wrsize s \<and> blksize s2 = b"
proof -
  have entry: "entry_ok (wrsize s) st path lpath" using ok by (simp add: file_ok_def)
  obtain s1 where s1: "IOSM_NEXT hr st0 s = ok (0, (rstat st0 st, s1))" "reading (data @ rest) (q - length data) s1"
      "io_path s1 = Some path" "io_lpath s1 = lpath" "wfd s1 = []" "wrsize s1 = wrsize s" "blksize s1 = b"
    using header_read[OF s(1-5) entry] s by (auto simp: same_files_def q_def)
  have q: "q - length data + length data = q"
    by (simp add: q_def)
  have d: "if S_ISREG (st_mode st) then unat (st_size st) = length data else data = []"
    "S_ISREG (st_mode st) \<and> lpath \<noteq> None \<Longrightarrow> data = []"
    using ok by (simp_all add: file_ok_def)
  show ?thesis
  proof (cases "S_ISREG (st_mode st) \<and> lpath = None")
    case True
    have "0 < wrsize s1" "length data < Suc (length data)"
      using s1(6) s(3) block by auto
    then obtain s2 where "extract_loop (Suc (length data)) (length data) 0 s1 = Some (ok (0, s2))"
        "reading rest q s2" "same_files (s1\<lparr>wfd := wfd s1 @ data\<rparr>) s2"
      using extract_reading[OF s1(2)] unfolding q by blast
    then show ?thesis
      using True d s1 by (auto simp: process_data_def same_files_def simp del: extract_loop.simps)
  next
    case False
    then have "data = []" using d by (auto split: if_splits)
    then show ?thesis
      using False s1 q by (auto simp: process_data_def)
  qed
qed

lemma unpacked_files:
  "reading (padding b pos @ archive b hb tb (pos + length (padding b pos)) files) pos s \<Longrightarrow> blksize s = b \<Longrightarrow>
   least \<le> wrsize s \<Longrightarrow> \<forall>f\<in>set files. file_ok entry_ok (wrsize s) f \<Longrightarrow> length files < fuel \<Longrightarrow>
   unpack hr fuel st0 s =
     Some (ok (ends (end_rc (archive_end b hb (pos + length (padding b pos)) files)), unpacked rstat st0 files))"
proof (induction fuel arbitrary: pos files s)
  case (Suc fuel)
  let ?s = "s\<lparr>io_path := None, io_lpath := None, wfd := []\<rparr>"
  have r: "reading (padding b pos @ archive b hb tb (pos + length (padding b pos)) files) pos ?s" "blksize ?s = b"
      "least \<le> wrsize ?s" "io_path ?s = None" "io_lpath ?s = None" "wfd ?s = []"
    using Suc.prems by (simp_all add: reading_def)
  show ?case
  proof (cases files)
    case Nil
    then show ?thesis
      using trailer_read[of pos ?s st0] r end_rc[of "pos + length (padding b pos)"] by (auto simp: unpacked_def ends_def)
  next
    case (Cons f fs)
    obtain st path lpath data where f: "f = (st, path, lpath, data)"
      by (cases f)
    define p where "p = pos + length (padding b pos)"
    define h where "h = hb p st path lpath"
    define q where "q = p + length h + length data"
    have arch: "archive b hb tb p files = h @ data @ padding b q @ archive b hb tb (q + length (padding b q)) fs"
      by (simp add: Cons f h_def q_def Let_def)
    have r1: "reading (padding b pos @ hb (pos + length (padding b pos)) st path lpath @ data @ padding b q @
        archive b hb tb (q + length (padding b q)) fs) pos ?s"
      using r(1) arch by (simp add: p_def [symmetric] h_def [symmetric])
    have "file_ok entry_ok (wrsize ?s) (st, path, lpath, data)"
      using Suc.prems(4) Cons f by simp
    then obtain s1 s2 where s12: "IOSM_NEXT hr st0 ?s = ok (0, (rstat st0 st, s1))"
        "process_data st s1 = Some (ok (0, s2))"
        "reading (padding b q @ archive b hb tb (q + length (padding b q)) fs) q s2"
        "io_path s2 = Some path" "io_lpath s2 = lpath" "wfd s2 = data" "wrsize s2 = wrsize ?s" "blksize s2 = b"
      using file_read[OF r1 r(2-6), of st0] unfolding p_def [symmetric] h_def [symmetric] q_def [symmetric] by blast
    have "archive_end b hb p files = archive_end b hb (q + length (padding b q)) fs"
      by (simp add: Cons f p_def [symmetric] h_def [symmetric] q_def Let_def)
    then have "unpack hr fuel st0 s2 = Some (ok (ends (end_rc (archive_end b hb p files)), unpacked rstat st0 fs))"
      using Suc.IH[OF s12(3,8)] s12(7) Suc.prems Cons by simp
    then show ?thesis
      unfolding p_def unfolding Cons
      using s12 same_process[of "rstat st0 st" st s1]
      by (simp add: f kept IOSMERR_HDR_TRAILER_def unpacked_def p_def del: extract_loop.simps)
  qed
qed simp

text \<open>Packing and unpacking with drivers at the start of the payload.\<close>

lemma roundtrip:
  assumes "writing [] 0 (length (archive b hb tb 0 files) + room) s" "blksize s = b" "least \<le> rdsize s"
    and "\<forall>f\<in>set files. file_ok entry_ok (rdsize s) f"
    and "reading inp 0 r" "blksize r = b" "wrsize r = rdsize s" "length files < fuel"
  shows "\<exists>s'. pack hw tw files s = Some (ok (0, s')) \<and>
    (inp = cfd_out s' \<longrightarrow>
       unpack hr fuel st0 r = Some (ok (ends (end_rc (archive_end b hb 0 files)), unpacked rstat st0 files)))"
proof -
  obtain s' where s': "pack hw tw files s = Some (ok (0, s'))" "cfd_out s' = archive b hb tb 0 files"
    using packed[OF assms(1)] assms(2-4) by (auto simp: writing_def)
  then have "inp = archive b hb tb 0 files \<Longrightarrow>
      unpack hr fuel st0 r = Some (ok (ends (end_rc (archive_end b hb 0 files)), unpacked rstat st0 files))"
    using unpacked_files[of 0 files r fuel st0] assms(3-8) by simp
  then show ?thesis
    using s' by auto
qed

end

section \<open>Examples\<close>

definition demo_stat :: "u32 \<Rightarrow> u64 \<Rightarrow> stat" where
  "demo_stat mode sz = \<lparr>st_dev = 2049, st_ino = 7, st_nlink = 1, st_mode = mode, st_uid = 0, st_gid = 10,
     st_rdev = 0, st_size = sz, st_atime = 0, st_mtime = 1234567890, st_ctime = 0\<rparr>"

definition demo_files :: "pfile list" where
  "demo_files = [(demo_stat 0x41ed 0, ''./d'', None, []), (demo_stat 0x81a4 5, ''./d/a'', None, ''hello''),
     (demo_stat 0xa1ff 1, ''./l'', Some ''d'', [])]"

definition demo_io :: "string \<Rightarrow> nat \<Rightarrow> iosm" where
  "demo_io inp room = \<lparr>io_path = None, io_lpath = None, cfd_in = inp, cfd_out = [], cfd_pos = 0, cfd_err = False,
     cfd_room = room, rfd = [], wfd = [], rdbuf = replicate 200 NUL, wrbuf = replicate 200 NUL, rdlen = 0,
     rdnb = 0, wrlen = 0, wrnb = 0, io_rc = 0, blksize = 4, lmtab = None, lmtablen = 0, lmtaboff = 0\<rparr>"

lemma demo_io_simps:
  "writing [] 0 room (demo_io inp room)" "reading inp 0 (demo_io inp room)" "blksize (demo_io inp room) = 4"
  "length (rdbuf (demo_io inp room)) = 200" "length (wrbuf (demo_io inp room)) = 200"
  by (simp_all add: demo_io_def writing_def reading_def)

end
