(* ===== verification/CpioProps.thy ===== *)
theory CpioProps
  imports Payload
begin

unbundle bit_operations_syntax

text \<open>
  The number fields of a cpio header and the device numbers: what is written is read back, for
  values in the range of the fields and of \<open>int\<close>; and the fields of a whole header.
\<close>

section \<open>Widths\<close>

lemma bit_below:
  fixes d :: "'a::len word"
  assumes "unat d < 2 ^ k" "bit d n"
  shows "n < k"
proof -
  have "unat (take_bit k d) = unat d"
    using assms(1) by (simp add: unsigned_take_bit_eq take_bit_nat_eq_self)
  then have "take_bit k d = d"
    by (rule word_unat_eq_iff [THEN iffD2])
  then show ?thesis
    using assms(2) by (metis bit_take_bit_iff)
qed

lemma scast_ucast_small:
  fixes v :: u64
  assumes "unat v < 2 ^ 31"
  shows "scast (ucast v :: 32 word) = v"
proof (rule bit_word_eqI)
  fix n assume "n < LENGTH(64)"
  then show "bit (scast (ucast v :: 32 word) :: u64) n = bit v n"
    using bit_below[OF assms, of n] bit_below[OF assms, of 31]
    by (cases "n < 31") (auto simp: bit_signed_iff bit_unsigned_iff min_def)
qed

lemma ucast_ucast_32: "ucast (ucast (x :: u32) :: u64) = x"
  by (rule bit_word_eqI) (simp add: bit_unsigned_iff)

lemma unat_ucast_32: "unat (ucast (x :: u32) :: u64) < 2 ^ 32"
proof -
  have "unat x < 2 ^ 32"
    using unsigned_less[of x, where ?'a = nat] by simp
  then show ?thesis
    by (simp add: unsigned_ucast_eq take_bit_nat_eq_self)
qed

lemma dev_masks: "(0xfff :: u64) = mask 12" "(0xff :: u64) = mask 8"
  by (simp_all add: mask_eq_exp_minus_1)

lemma bit_gnu_major: "bit (gnu_major d) i \<longleftrightarrow> i < 32 \<and> (if i < 12 then bit d (8 + i) else bit d (32 + i))"
  unfolding gnu_major_def dev_masks by (auto simp: bit_simps)

lemma bit_gnu_minor: "bit (gnu_minor d) i \<longleftrightarrow> i < 32 \<and> (if i < 8 then bit d i else bit d (12 + i))"
  unfolding gnu_minor_def dev_masks by (auto simp: bit_simps)

lemma bit_Makedev:
  "bit (Makedev mjr mnr) n \<longleftrightarrow> n < 64 \<and>
     (n < 8 \<and> bit mnr n \<or> 8 \<le> n \<and> n < 20 \<and> bit mjr (n - 8) \<or> 20 \<le> n \<and> bit mnr (n - 12) \<or>
      44 \<le> n \<and> bit mjr (n - 32))"
  unfolding Makedev_def dev_masks Let_def
  by (cases "n < 8"; cases "n < 12"; cases "n < 20"; cases "n < 32"; cases "n < 44"; simp add: bit_simps; auto)

lemma Makedev_dev:
  assumes "unat d < 2 ^ 32"
  shows "Makedev (ucast (dev_major d)) (ucast (dev_minor d)) = d"
proof (rule bit_word_eqI)
  have "(ucast (ucast d :: u32) :: u64) = d"
    by (rule bit_word_eqI) (auto simp: bit_unsigned_iff dest: bit_below[OF assms])
  then have d: "ucast (dev_major d) = gnu_major d" "ucast (dev_minor d) = gnu_minor d"
    by (simp_all add: dev_major_def dev_minor_def ucast_ucast_32)
  fix n assume n: "n < LENGTH(64)"
  have "bit d n \<Longrightarrow> n < 32" "\<not> bit d (32 + k)" for k
    using bit_below[OF assms] by (auto dest: bit_below[OF assms])
  then show "bit (Makedev (ucast (dev_major d)) (ucast (dev_minor d))) n = bit d n"
    using n unfolding d bit_Makedev bit_gnu_major bit_gnu_minor
    by (cases "n < 8"; cases "n < 20"; cases "n < 32"; cases "n < 44") auto
qed

section \<open>Fields\<close>

lemma SET_NUM_FIELD_length [simp]: "length (SET_NUM_FIELD v) = 8"
  by (simp add: SET_NUM_FIELD_def padded_def Let_def min_def)

lemma SET_NUM_FIELD_padded: "unat v < 2 ^ 32 \<Longrightarrow> SET_NUM_FIELD v = padded 16 8 (unat v)"
  using padded_facts(1)[of 16 "unat v" 8] by (simp add: SET_NUM_FIELD_def)

lemma strntoul_SET_NUM_FIELD:
  assumes "unat v < 2 ^ 32"
  shows "strntoul (SET_NUM_FIELD v @ r) 16 8 = (ucast v, 8)"
proof -
  have "length (padded 16 8 (unat v)) = 8" "base_val 16 (padded 16 8 (unat v)) = unat v"
    "\<forall>c\<in>set (padded 16 8 (unat v)). digit_of c < 16"
    using padded_facts[of 16 "unat v" 8] assms by simp_all
  moreover from this(1) have "padded 16 8 (unat v) \<noteq> []"
    by auto
  moreover have "(of_nat (unat v) :: 32 word) = ucast v"
    by (simp add: word_unat_eq_iff unsigned_of_nat unsigned_ucast_eq)
  ultimately show ?thesis
    using strntoul_digits[of "padded 16 8 (unat v)" 16 8 r] assms
    by (simp add: SET_NUM_FIELD_padded)
qed

lemma GET_SET:
  "unat v < 2 ^ 32 \<Longrightarrow> drop off hdr = SET_NUM_FIELD v @ r \<Longrightarrow> GET_NUM_FIELD hdr off s k = k (ucast v)"
  by (simp add: GET_NUM_FIELD_def strntoul_SET_NUM_FIELD)

end
