(* ===== verification/TarThms.thy ===== *)
theory TarThms
  imports Tar CpioProps
begin

unbundle bit_operations_syntax

text \<open>
  The header of a file in a tar payload: its bytes, and that \<open>tarHeaderRead\<close> reads from them what
  \<open>tarHeaderWrite\<close> was given, for names of less than 100 characters.
\<close>

section \<open>The block\<close>

lemma length_field [simp]: "length (field n t) = n"
  by (simp add: field_def)

lemma field_exact: "length t = n \<Longrightarrow> field n t = t"
  by (simp add: field_def)

lemma field_short: "length t \<le> n \<Longrightarrow> field n t = t @ replicate (n - length t) NUL"
  by (simp add: field_def)

lemma length_octal: "v < 8 ^ k \<Longrightarrow> 0 < k \<Longrightarrow> length (octal k v) = Suc k"
  by (simp add: octal_def padded_facts(1))

definition tar_block :: "string \<Rightarrow> string \<Rightarrow> string" where
  "tar_block front rear = front @ tar_checksum front rear @ rear"

lemma length_tar_front [simp]: "length (tar_front name mode uid gid fsize mtime) = 148"
  by (simp add: tar_front_def)

lemma length_tar_back [simp]: "length (tar_back typeflag linkname uname gname dmajor dminor) = 356"
  by (simp add: tar_back_def)

lemma char_sum_le: "char_sum bs \<le> 255 * length bs"
proof (induction bs)
  case (Cons c bs)
  have "of_char c \<le> (255 :: nat)"
    using of_char_mod_256[of c, where ?'a = nat] mod_less_divisor[of 256 "of_char c :: nat"] by linarith
  from add_mono[OF this Cons[unfolded char_sum_def]] show ?case
    by (simp add: char_sum_def)
qed (simp add: char_sum_def)

lemma length_tar_checksum:
  assumes "length front + length rear \<le> 1000"
  shows "length (tar_checksum front rear) = 8"
proof -
  have "char_sum front + 8 * 32 + char_sum rear < 8 ^ 6"
    using char_sum_le[of front] char_sum_le[of rear] assms by simp
  then show ?thesis
    by (simp add: tar_checksum_def length_octal)
qed

lemma length_tar_block: "length front = 148 \<Longrightarrow> length rear = 356 \<Longrightarrow> length (tar_block front rear) = 512"
  by (simp add: tar_block_def length_tar_checksum)

section \<open>Writing a block\<close>

lemma tarHeaderWriteBlock_writes:
  assumes "writing out pos (512 + room) s" "512 \<le> rdsize s" "length front = 148" "length rear = 356"
  shows "\<exists>s'. tarHeaderWriteBlock front rear s = ok (512, s') \<and>
    writing (out @ tar_block front rear) (pos + 512) room s' \<and> same_input s s'"
proof -
  let ?b = "tar_block front rear"
  define s1 where "s1 = s\<lparr>rdbuf := ?b @ drop 512 (rdbuf s)\<rparr>"
  have len: "length ?b = 512"
    using assms by (simp add: length_tar_block)
  have "put_rdbuf 0 ?b s = ok s1"
    using assms len by (simp add: put_rdbuf_ok s1_def)
  moreover have "writing out pos (length ?b + room) s1" "length ?b \<le> rdsize s1" "take (length ?b) (rdbuf s1) = ?b"
    using assms len by (simp_all add: s1_def writing_def)
  then obtain s2 where "io_write None (length ?b) s1 = ok (int (length ?b), s2)"
      "writing (out @ ?b) (pos + length ?b) room s2" "same_input s1 s2"
    using io_write_writing[of out pos ?b room s1 None] by auto
  moreover have "same_input s s1"
    using assms(2) len by (simp add: s1_def same_input_def)
  moreover have "tarHeaderWriteBlock front rear s = andThen (put_rdbuf 0 ?b s) (\<lambda>s. tarWrite None 512 s)"
    by (simp add: tarHeaderWriteBlock_def tar_block_def TAR_BLOCK_SIZE_def)
  ultimately show ?thesis
    using len by (auto simp: tarWrite_def intro: same_input_trans)
qed

definition tar_bytes ::
  "(u32 \<Rightarrow> string option) \<Rightarrow> (u32 \<Rightarrow> string option) \<Rightarrow> nat \<Rightarrow> stat \<Rightarrow> string \<Rightarrow> string option \<Rightarrow> string" where
  "tar_bytes uname gname pos st path lpath =
     tar_block (tar_file_front st path) (tar_file_back uname gname st (or_empty_str lpath))"

lemma length_tar_file [simp]: "length (tar_file_front st path) = 148" "length (tar_file_back uname gname st lpath) = 356"
  by (simp_all add: tar_file_front_def tar_file_back_def)

lemma length_tar_bytes [simp]: "length (tar_bytes uname gname pos st path lpath) = 512"
  by (simp add: tar_bytes_def length_tar_block)

lemma tarHeaderWrite_writes:
  assumes "writing out pos (512 + room) s" "pos mod 512 = 0" "blksize s = 512" "512 \<le> rdsize s"
    and "io_path s = Some path" "io_lpath s = lpath" "length path \<le> 100" "length (or_empty_str lpath) \<le> 100"
  shows "\<exists>s'. tarHeaderWrite uname gname st s = ok (0, s') \<and>
    writing (out @ tar_bytes uname gname pos st path lpath) (pos + 512) room s' \<and> same_input s s'"
proof -
  obtain s1 where s1: "tarHeaderWriteBlock (tar_file_front st path) (tar_file_back uname gname st (or_empty_str lpath)) s
        = ok (512, s1)"
      "writing (out @ tar_bytes uname gname pos st path lpath) (pos + 512) room s1" "same_input s s1"
    using tarHeaderWriteBlock_writes[OF assms(1,4), of "tar_file_front st path"
        "tar_file_back uname gname st (or_empty_str lpath)"] by (auto simp: tar_bytes_def)
  have "padding 512 (pos + 512) = []"
    using assms(2) by simp
  then obtain s2 where "IOSM_PAD s1 = ok (0, s2)"
      "writing (out @ tar_bytes uname gname pos st path lpath) (pos + 512) room s2" "same_input s1 s2"
    using PAD_padding[of "out @ tar_bytes uname gname pos st path lpath" "pos + 512" 512 room s1] s1 assms
    by (auto simp: same_input_def)
  then show ?thesis
    using s1 assms by (auto simp: tarHeaderWrite_def TAR_NAME_SIZE_def IOSMRC_def Let_def same_input_def)
qed

section \<open>The fields of a block\<close>

lemma tar_num_octal:
  assumes "drop off hdr = field n (octal k v) @ r" "n = Suc k" "v < 8 ^ k" "0 < k" "v < 2 ^ 64"
  shows "tar_num hdr off n = of_nat v"
proof -
  have p: "length (padded 8 k v) = k" "base_val 8 (padded 8 k v) = v" "\<forall>c\<in>set (padded 8 k v). digit_of c < 8"
    using padded_facts[of 8 v k] assms by simp_all
  have "drop off hdr = padded 8 k v @ NUL # r"
    using assms length_octal[of v k] by (simp add: field_exact octal_def)
  moreover have "padded 8 k v \<noteq> []"
    using p(1) assms(4) by auto
  ultimately show ?thesis
    using strntoul_digits[of "padded 8 k v" 8 n "NUL # r"] p assms by (simp add: tar_num_def)
qed

lemma tar_front_num:
  assumes "mode < 8 ^ 7" "uid < 8 ^ 7" "gid < 8 ^ 7" "fsize < 8 ^ 11" "mtime < 8 ^ 11"
    and hdr: "hdr = tar_front name mode uid gid fsize mtime @ r"
  shows "tar_num hdr 100 8 = of_nat mode" "tar_num hdr 108 8 = of_nat uid" "tar_num hdr 116 8 = of_nat gid"
    "tar_num hdr 124 12 = of_nat fsize" "tar_num hdr 136 12 = of_nat mtime"
proof -
  show "tar_num hdr 100 8 = of_nat mode" "tar_num hdr 108 8 = of_nat uid" "tar_num hdr 116 8 = of_nat gid"
    using assms(1-5) by (auto intro!: tar_num_octal [where k = 7] simp: hdr tar_front_def)
  show "tar_num hdr 124 12 = of_nat fsize" "tar_num hdr 136 12 = of_nat mtime"
    using assms(1-5) by (auto intro!: tar_num_octal [where k = 11] simp: hdr tar_front_def)
qed

lemma tar_back_type:
  assumes "length front = 148" "length chk = 8"
    and hdr: "hdr = front @ chk @ tar_back typeflag linkname uname gname dmajor dminor @ r"
  shows "hdr ! 156 = typeflag" "strncmp TAR_MAGIC (drop 257 hdr) 5 = 0"
proof -
  show "hdr ! 156 = typeflag"
    using assms(1,2) by (simp add: hdr tar_back_def nth_append)
  have "drop 257 hdr = field 8 (TAR_MAGIC @ TAR_VERSION) @ drop 265 hdr"
    using assms(1,2) by (simp add: hdr tar_back_def)
  then show "strncmp TAR_MAGIC (drop 257 hdr) 5 = 0"
    by (simp add: strncmp_take TAR_MAGIC_def TAR_VERSION_def field_def)
qed

lemma tar_back_num:
  assumes "length front = 148" "length chk = 8" "dmajor < 8 ^ 7" "dminor < 8 ^ 7"
    and hdr: "hdr = front @ chk @ tar_back typeflag linkname uname gname (octal 7 dmajor) (octal 7 dminor) @ r"
  shows "tar_num hdr 329 8 = of_nat dmajor" "tar_num hdr 337 8 = of_nat dminor"
  using assms(1-4) by (auto intro!: tar_num_octal [where k = 7] simp: hdr tar_back_def)

section \<open>Widths\<close>

lemma octal_mask: "(0x1fffff :: 'a::len word) = mask 21" "(0x1ffffffff :: u64) = mask 33" "(0xfff :: u32) = mask 12"
  by (simp_all add: mask_eq_exp_minus_1)

lemma and_mask_small:
  fixes v :: "'a::len word"
  assumes "unat v < 2 ^ k"
  shows "v AND mask k = v"
  by (rule bit_word_eqI) (use bit_below[OF assms] in \<open>auto simp: bit_simps\<close>)

lemma tar_mode_less: "unat (m AND 0xfff :: u32) < 8 ^ 7"
  unfolding octal_mask take_bit_eq_mask [symmetric] unsigned_take_bit_eq
  using take_bit_nat_less_exp[of 12 "unat m"] by simp

lemma tar_size_small:
  assumes "unat (v :: u64) < 2 ^ 31"
  shows "unat (ucast (v AND 0x1ffffffff) :: u32) = unat v"
    "scast (of_nat (unat (ucast (v AND 0x1ffffffff) :: u32)) :: 32 word) = v"
proof -
  have "v AND 0x1ffffffff = v"
    using and_mask_small[of v 33] assms unfolding octal_mask by simp
  then show "unat (ucast (v AND 0x1ffffffff) :: u32) = unat v"
    "scast (of_nat (unat (ucast (v AND 0x1ffffffff) :: u32)) :: 32 word) = v"
    using assms scast_ucast_small[OF assms] by (simp_all add: unsigned_ucast_eq take_bit_nat_eq_self)
qed

lemma dev_below:
  assumes "unat d < 2 ^ 32"
  shows "unat (dev_major d AND 0x1fffff) < 8 ^ 7" "unat (dev_minor d AND 0x1fffff) < 8 ^ 7"
    "of_nat (unat (dev_major d AND 0x1fffff)) = (ucast (dev_major d) :: 32 word)"
    "of_nat (unat (dev_minor d AND 0x1fffff)) = (ucast (dev_minor d) :: 32 word)"
proof -
  have m: "unat (w AND mask 21 :: u64) < 2 ^ 21" for w
    unfolding take_bit_eq_mask [symmetric] unsigned_take_bit_eq by (rule take_bit_nat_less_exp)
  then show "unat (dev_major d AND 0x1fffff) < 8 ^ 7" "unat (dev_minor d AND 0x1fffff) < 8 ^ 7"
    unfolding octal_mask by (simp_all add: order.strict_trans1[OF _ m])
  have "(ucast (ucast d :: u32) :: u64) = d"
    by (rule bit_word_eqI) (auto simp: bit_unsigned_iff dest: bit_below[OF assms])
  moreover have "\<not> bit d (32 + n)" "bit d (12 + n) \<Longrightarrow> n < 20" for n
    using bit_below[OF assms, of "32 + n"] bit_below[OF assms, of "12 + n"] by auto
  ultimately have "dev_major d AND mask 21 = dev_major d" "dev_minor d AND mask 21 = dev_minor d"
    unfolding dev_major_def dev_minor_def
    by (auto intro!: bit_word_eqI simp: bit_simps bit_gnu_major bit_gnu_minor split: if_splits) force
  then show "of_nat (unat (dev_major d AND 0x1fffff)) = (ucast (dev_major d) :: 32 word)"
    "of_nat (unat (dev_minor d AND 0x1fffff)) = (ucast (dev_minor d) :: 32 word)"
    unfolding octal_mask by simp_all
qed

definition tar_type_ok :: "u32 \<Rightarrow> bool" where
  "tar_type_ok m \<longleftrightarrow> unat m < 2 ^ 16 \<and>
     (S_ISLNK m \<or> S_ISREG m \<or> S_ISDIR m \<or> S_ISCHR m \<or> S_ISBLK m \<or> S_ISFIFO m)"

lemma tar_mode_typeflag:
  assumes "tar_type_ok m"
  shows "tar_mode (tar_typeflag m lpath) (of_nat (unat (m AND 0xfff))) = m"
    "tar_typeflag m lpath = CHR ''5'' \<longleftrightarrow> S_ISDIR m" "tar_typeflag m lpath \<notin> {CHR ''K'', CHR ''L''}"
proof -
  have f: "(0xf000 :: u32) = push_bit 12 (mask 4)"
    by (simp add: mask_eq_exp_minus_1)
  have m16: "n < 16" if "bit m n" for n
    using bit_below[of m 16] assms that by (auto simp: tar_type_ok_def)
  have "((m AND 0xfff) AND NOT 0xf000) OR (m AND 0xf000) = m"
    unfolding f octal_mask by (rule bit_word_eqI) (auto simp: bit_simps dest: m16)
  then have "m AND 0xf000 = t \<Longrightarrow> ((m AND 0xfff) AND - 61441) OR t = m" for t
    by simp
  then show "tar_mode (tar_typeflag m lpath) (of_nat (unat (m AND 0xfff))) = m"
    using assms by (auto simp: tar_mode_def tar_typeflag_def tar_type_ok_def S_IS_defs Let_def)
  show "tar_typeflag m lpath = CHR ''5'' \<longleftrightarrow> S_ISDIR m" "tar_typeflag m lpath \<notin> {CHR ''K'', CHR ''L''}"
    by (auto simp: tar_typeflag_def S_IS_defs)
qed

section \<open>Reading a block\<close>

lemma tarRead_block:
  assumes "reading (blk @ rest) pos s" "length blk = 512" "512 \<le> wrsize s"
  shows "\<exists>s'. tarRead TAR_BLOCK_SIZE s = ok ((512, blk), s') \<and> reading rest (pos + 512) s' \<and> same_files s s' \<and>
    take TAR_BLOCK_SIZE (wrbuf s') = blk"
proof -
  have "blk \<noteq> []"
    using assms(2) by auto
  then show ?thesis
    using io_read_reading[OF assms(1), of False "[]"] assms(2,3) by (auto simp: tarRead_def TAR_BLOCK_SIZE_def)
qed

lemma tar_next_reads:
  assumes "reading (blk @ rest) pos s" "length blk = 512" "512 \<le> wrsize s" "blk ! 0 \<noteq> NUL"
  shows "\<exists>s'. tar_next 0 s = ok (None, s') \<and> reading rest (pos + 512) s' \<and> same_files s s' \<and>
    take TAR_BLOCK_SIZE (wrbuf s') = blk"
  using tarRead_block[OF assms(1-3)] assms(4) by (subst tar_next.simps) auto

text \<open>The end of an archive: two blocks of zeroes, or too few.\<close>

lemma tar_next_zero:
  assumes "reading (replicate 512 NUL @ rest) pos s" "512 \<le> wrsize s"
  shows "\<exists>s'. tar_next z s = (if z = 1 then ok (Some IOSMERR_HDR_TRAILER, s') else tar_next (Suc z) s') \<and>
    reading rest (pos + 512) s' \<and> same_files s s'"
  using tarRead_block[OF assms(1) _ assms(2)] by (subst tar_next.simps) auto

lemma tar_next_short:
  assumes "reading part pos s" "length part < 512" "512 \<le> wrsize s"
  shows "\<exists>s'. tar_next z s = ok (Some IOSMERR_READ_FAILED, s')"
  using io_read_short[of part pos s 512] assms
  by (subst tar_next.simps) (auto simp: tarRead_def TAR_BLOCK_SIZE_def IOSMERR_READ_FAILED_def)

section \<open>Reading a header\<close>

lemma tar_name_field:
  assumes "drop off (wrbuf s) = field 100 p @ r" "length p < 100" "NUL \<notin> set p"
  shows "tar_name off s old = ok (if old = None \<and> p \<noteq> [] then Some p else old)"
proof -
  have f: "field 100 p @ r = p @ NUL # (replicate (99 - length p) NUL @ r)"
    using assms(2) by (simp add: field_short Suc_diff_Suc flip: replicate_Suc)
  have "p = [] \<or> (\<exists>c cs. p = c # cs \<and> c \<noteq> NUL)"
    using assms(3) by (cases p) auto
  moreover have "takeWhile (\<lambda>c. c \<noteq> NUL) (p @ NUL # r') = p" for r'
    using assms(3) by (auto simp: takeWhile_append)
  ultimately show ?thesis
    unfolding tar_name_def assms(1) f by auto
qed

text \<open>The name that the reader finds: one of 100 characters runs on into the next field, the mode.\<close>

definition tar_path :: "stat \<Rightarrow> string \<Rightarrow> string" where
  "tar_path st path =
     (if length path < 100 then path else path @ padded 8 7 (unat (st_mode st AND 0xfff)))"

lemma tar_name_mode:
  assumes "drop 0 (wrbuf s) = field 100 p @ field 8 (octal 7 m) @ r" "p \<noteq> []" "length p \<le> 100" "NUL \<notin> set p" "m < 8 ^ 7"
  shows "tar_name 0 s None = ok (Some (if length p < 100 then p else p @ padded 8 7 m))"
proof (cases "length p < 100")
  case True
  then show ?thesis
    using tar_name_field[OF assms(1) True assms(4)] assms(2) by simp
next
  case False
  then have f: "wrbuf s = p @ padded 8 7 m @ NUL # r"
    using assms length_octal[of m 7] by (simp add: field_exact octal_def)
  have p: "\<forall>c\<in>set (padded 8 7 m). digit_of c < 8"
    using padded_facts(3)[of 8 m 7] assms(5) by simp
  then have "\<forall>c\<in>set (padded 8 7 m). c \<noteq> NUL"
    by (auto dest!: bspec digit_not_special(6)[OF order.strict_trans])
  then have "takeWhile (\<lambda>c. c \<noteq> NUL) ((p @ padded 8 7 m) @ NUL # r) = p @ padded 8 7 m"
    using assms(4) by (subst takeWhile_append2) auto
  moreover have "wrbuf s ! 0 \<noteq> NUL"
    using assms(2,4) unfolding f by (cases p) auto
  moreover have "NUL \<in> set (wrbuf s)"
    unfolding f by simp
  ultimately show ?thesis
    using False by (simp add: tar_name_def f)
qed

definition tar_ok :: "stat \<Rightarrow> string \<Rightarrow> string option \<Rightarrow> bool" where
  "tar_ok st path lpath \<longleftrightarrow>
     path \<noteq> [] \<and> NUL \<notin> set path \<and> length path \<le> 100 \<and>
     (case lpath of None \<Rightarrow> True | Some l \<Rightarrow> l \<noteq> [] \<and> NUL \<notin> set l \<and> length l < 100) \<and>
     unat (st_size st) < 2 ^ 31 \<and> unat (st_mtime st) < 2 ^ 31 \<and> unat (st_uid st) < 2 ^ 21 \<and>
     unat (st_gid st) < 2 ^ 21 \<and> unat (st_dev st) < 2 ^ 32 \<and> tar_type_ok (st_mode st)"

text \<open>What a tar header does not hold: the inode, the number of links, the special device, two times.\<close>

definition tar_stat :: "stat \<Rightarrow> stat \<Rightarrow> stat" where
  "tar_stat st0 st = st\<lparr>st_ino := st_ino st0, st_nlink := (if S_ISDIR (st_mode st) then 2 else 1),
     st_rdev := st_dev st, st_atime := st_mtime st, st_ctime := st_mtime st\<rparr>"

lemma tar_bytes_nums:
  assumes ok: "tar_ok st path lpath" and hdr: "hdr = tar_bytes uname gname pos st path lpath"
  shows "scast (tar_num hdr 124 12) = st_size st" "scast (tar_num hdr 136 12) = st_mtime st"
    "tar_num hdr 108 8 = st_uid st" "tar_num hdr 116 8 = st_gid st"
    "Makedev (tar_num hdr 329 8) (tar_num hdr 337 8) = st_dev st"
    "tar_mode (hdr ! 156) (tar_num hdr 100 8) = st_mode st" "hdr ! 156 = tar_typeflag (st_mode st) (or_empty_str lpath)"
    "strncmp TAR_MAGIC (drop 257 hdr) 5 = 0" "tar_sum_ok hdr" "hdr ! 0 \<noteq> NUL"
proof -
  define front where "front = tar_file_front st path"
  define rear where "rear = tar_file_back uname gname st (or_empty_str lpath)"
  define chk where "chk = tar_checksum front rear"
  have len: "length front = 148" "length rear = 356" "length chk = 8"
    by (simp_all add: front_def rear_def chk_def length_tar_checksum)
  have b: "hdr = front @ chk @ rear"
    by (simp add: hdr tar_bytes_def tar_block_def front_def rear_def chk_def)
  note small = tar_size_small[of "st_size st"] tar_size_small[of "st_mtime st"]
  have id: "st_uid st AND 0x1fffff = st_uid st" "st_gid st AND 0x1fffff = st_gid st"
    using ok and_mask_small[of "st_uid st" 21] and_mask_small[of "st_gid st" 21] unfolding octal_mask
    by (simp_all add: tar_ok_def)
  note m = tar_mode_less[of "st_mode st"]
  have lim: "unat (ucast (st_size st AND 0x1ffffffff) :: u32) < 8 ^ 11"
    "unat (ucast (st_mtime st AND 0x1ffffffff) :: u32) < 8 ^ 11" "unat (st_uid st) < 8 ^ 7" "unat (st_gid st) < 8 ^ 7"
    using ok small by (simp_all add: tar_ok_def)
  note n = tar_front_num[OF m lim(3,4,1,2) b[unfolded front_def tar_file_front_def id], folded front_def]
  show "scast (tar_num hdr 124 12) = st_size st" "scast (tar_num hdr 136 12) = st_mtime st"
    unfolding n using ok by (intro small; simp add: tar_ok_def)+
  show "tar_num hdr 108 8 = st_uid st" "tar_num hdr 116 8 = st_gid st"
    using n by simp_all
  have d: "unat (st_dev st) < 2 ^ 32"
    using ok by (simp add: tar_ok_def)
  have b2: "hdr = front @ chk @ rear @ []"
    using b by simp
  note n2 = tar_back_num[OF len(1,3) dev_below(1,2)[OF d] b2[unfolded rear_def tar_file_back_def], folded rear_def]
  show "Makedev (tar_num hdr 329 8) (tar_num hdr 337 8) = st_dev st"
    unfolding n2 dev_below[OF d] by (rule Makedev_dev[OF d])
  show t: "hdr ! 156 = tar_typeflag (st_mode st) (or_empty_str lpath)" "strncmp TAR_MAGIC (drop 257 hdr) 5 = 0"
    by (rule tar_back_type[OF len(1,3) b2[unfolded rear_def tar_file_back_def]])+
  show "tar_mode (hdr ! 156) (tar_num hdr 100 8) = st_mode st"
    unfolding t(1) n(1) using tar_mode_typeflag ok by (simp add: tar_ok_def)
  show "tar_sum_ok hdr"
    using len by (simp add: tar_sum_ok_def b chk_def)
  show "hdr ! 0 \<noteq> NUL"
    using ok by (cases path) (auto simp: b front_def tar_file_front_def tar_front_def field_def tar_ok_def nth_append)
qed

lemma tar_stat_read:
  "st0\<lparr>st_size := st_size st, st_nlink := (if S_ISDIR (st_mode st) then 2 else 1), st_mode := st_mode st,
     st_uid := st_uid st, st_gid := st_gid st, st_mtime := st_mtime st, st_atime := st_mtime st,
     st_ctime := st_mtime st, st_dev := st_dev st, st_rdev := st_dev st\<rparr> = tar_stat st0 st"
  by (cases st0; cases st) (simp add: tar_stat_def)

lemma tar_blanked:
  assumes "take TAR_BLOCK_SIZE (wrbuf s) = tar_bytes uname gname pos st path lpath"
  shows "\<exists>r r'. drop 0 (wrbuf (blank_checksum s)) = field 100 path @ field 8 (octal 7 (unat (st_mode st AND 0xfff))) @ r \<and>
    drop 157 (wrbuf (blank_checksum s)) = field 100 (or_empty_str lpath) @ r'"
proof -
  have w: "wrbuf s = tar_bytes uname gname pos st path lpath @ drop TAR_BLOCK_SIZE (wrbuf s)"
    using assms by (metis append_take_drop_id)
  have c: "length (tar_checksum (tar_file_front st path) (tar_file_back uname gname st (or_empty_str lpath))) = 8"
    by (rule length_tar_checksum) simp
  have "wrbuf (blank_checksum s) = tar_file_front st path @ replicate 8 CHR '' '' @
      tar_file_back uname gname st (or_empty_str lpath) @ drop TAR_BLOCK_SIZE (wrbuf s)"
    unfolding blank_checksum_def by (subst (1 2) w) (simp add: tar_bytes_def tar_block_def c)
  then show ?thesis
    by (auto simp: tar_file_front_def tar_front_def tar_file_back_def tar_back_def)
qed

lemma tarHeaderRead_reads:
  assumes "reading (tar_bytes uname gname p st path lpath @ rest) pos s" "512 \<le> wrsize s"
    and io: "io_path s = None" "io_lpath s = None" and ok: "tar_ok st path lpath"
  shows "\<exists>s'. tarHeaderRead st0 s = ok (0, (tar_stat st0 st, s')) \<and> reading rest (pos + 512) s' \<and>
    same_files (s\<lparr>io_path := Some (tar_path st path), io_lpath := lpath\<rparr>) s'"
proof -
  let ?h = "tar_bytes uname gname p st path lpath"
  note nums = tar_bytes_nums[OF ok refl, of uname gname p]
  obtain s1 where s1: "tar_next 0 s = ok (None, s1)" "reading rest (pos + 512) s1" "same_files s s1"
      "take TAR_BLOCK_SIZE (wrbuf s1) = ?h"
    using tar_next_reads[OF assms(1) _ assms(2) nums(10)] by auto
  obtain r r' where "drop 0 (wrbuf (blank_checksum s1)) = field 100 path @ field 8 (octal 7 (unat (st_mode st AND 0xfff))) @ r"
      "drop 157 (wrbuf (blank_checksum s1)) = field 100 (or_empty_str lpath) @ r'"
    using tar_blanked[OF s1(4)] by blast
  moreover have "length (or_empty_str lpath) < 100" "NUL \<notin> set (or_empty_str lpath)"
      "lpath = (if or_empty_str lpath \<noteq> [] then Some (or_empty_str lpath) else None)"
    using ok by (auto simp: tar_ok_def or_empty_str_def split: option.splits)
  moreover have "io_path (blank_checksum s1) = None" "io_lpath (blank_checksum s1) = None"
    using s1(3) io by (simp_all add: same_files_def blank_checksum_def)
  moreover have mode: "unat (st_mode st AND 0xfff) < 8 ^ 7"
    by (rule tar_mode_less)
  ultimately have names: "tar_name 0 (blank_checksum s1) (io_path (blank_checksum s1)) = ok (Some (tar_path st path))"
      "tar_name 157 (blank_checksum s1) (io_lpath (blank_checksum s1)) = ok lpath"
    using tar_name_mode[of "blank_checksum s1" path _ r] mode tar_name_field[of 157 "blank_checksum s1" "or_empty_str lpath" r']
      ok by (auto simp: tar_ok_def tar_path_def)
  define s2 where "s2 = (blank_checksum s1)\<lparr>io_path := Some (tar_path st path), io_lpath := lpath\<rparr>"
  have t: "tar_typeflag (st_mode st) (or_empty_str lpath) \<noteq> CHR ''K''"
      "tar_typeflag (st_mode st) (or_empty_str lpath) \<noteq> CHR ''L''"
      "tar_typeflag (st_mode st) (or_empty_str lpath) = CHR ''5'' \<longleftrightarrow> S_ISDIR (st_mode st)"
    using tar_mode_typeflag[of "st_mode st" "or_empty_str lpath"] ok by (auto simp: tar_ok_def)
  have "tarHeaderRead st0 s = ok (0, (tar_stat st0 st, s2))"
    using s1(1,4) nums t
    by (subst tarHeaderRead.simps)
       (simp add: tar_finish_def names Let_def s2_def tar_stat_read)
  moreover have "reading rest (pos + 512) s2" "same_files (s\<lparr>io_path := Some (tar_path st path), io_lpath := lpath\<rparr>) s2"
    using s1(2,3,4) assms(2) by (auto simp: reading_def same_files_def s2_def blank_checksum_def TAR_BLOCK_SIZE_def)
  ultimately show ?thesis
    by blast
qed

end
