(* ===== verification/CpioThms.thy ===== *)
theory CpioThms
  imports CpioProps
begin

unbundle bit_operations_syntax

text \<open>
  The header of a file in a cpio payload: the bytes that \<open>cpioHeaderWrite\<close> writes, and that
  \<open>cpioHeaderRead\<close> reads the same attributes, name and link target from them.
\<close>

section \<open>The fields of a header\<close>

definition cpio_values :: "stat \<Rightarrow> nat \<Rightarrow> u64 list" where
  "cpio_values st nb =
     [st_ino st, ucast (st_mode st), ucast (st_uid st), ucast (st_gid st), st_nlink st, st_mtime st, st_size st,
      dev_major (st_dev st), dev_minor (st_dev st), dev_major (st_rdev st), dev_minor (st_rdev st), of_nat nb]"

lemma cpio_header_values:
  "cpio_header st nb = CPIO_NEWC_MAGIC @ concat (map SET_NUM_FIELD (cpio_values st nb)) @ ''00000000''"
  by (simp add: cpio_header_def cpio_values_def)

lemma length_fields: "length (concat (map SET_NUM_FIELD vs)) = 8 * length vs"
  by (induction vs) simp_all

lemma drop_fields: "i < length vs \<Longrightarrow>
    drop (8 * i) (concat (map SET_NUM_FIELD vs) @ t) = SET_NUM_FIELD (vs ! i) @ concat (map SET_NUM_FIELD (drop (Suc i) vs)) @ t"
proof (induction i arbitrary: vs)
  case 0
  then show ?case by (cases vs) simp_all
next
  case (Suc i)
  then show ?case by (cases vs) simp_all
qed

lemma length_cpio_header [simp]: "length (cpio_header st nb) = 110"
  unfolding cpio_header_values by (simp add: length_fields cpio_values_def CPIO_NEWC_MAGIC_def)

lemma GET_value:
  assumes "i < 12" "unat (cpio_values st nb ! i) < 2 ^ 32"
  shows "GET_NUM_FIELD (cpio_header st nb) (6 + 8 * i) s k = k (ucast (cpio_values st nb ! i))"
proof -
  have "drop (6 + n) (CPIO_NEWC_MAGIC @ xs) = drop n xs" for n xs
    unfolding add.commute[of 6 n] drop_drop [symmetric] by (simp add: CPIO_NEWC_MAGIC_def)
  then have "drop (6 + 8 * i) (cpio_header st nb) =
      drop (8 * i) (concat (map SET_NUM_FIELD (cpio_values st nb)) @ ''00000000'')"
    unfolding cpio_header_values .
  moreover have "i < length (cpio_values st nb)"
    using assms(1) by (simp add: cpio_values_def)
  ultimately show ?thesis
    using GET_SET[OF assms(2)] drop_fields by metis
qed

lemma unat_dev: "unat (dev_major d) < 2 ^ 32" "unat (dev_minor d) < 2 ^ 32"
  unfolding dev_major_def dev_minor_def by (rule unat_ucast_32)+

text \<open>The files that the format can hold, for a reader with a buffer of \<open>w\<close> bytes.\<close>

definition cpio_fields_ok :: "nat \<Rightarrow> stat \<Rightarrow> string \<Rightarrow> bool" where
  "cpio_fields_ok w st path \<longleftrightarrow>
     unat (st_ino st) < 2 ^ 31 \<and> unat (st_nlink st) < 2 ^ 31 \<and> unat (st_mtime st) < 2 ^ 31 \<and>
     unat (st_size st) < 2 ^ 31 \<and> unat (st_dev st) < 2 ^ 32 \<and> unat (st_rdev st) < 2 ^ 32 \<and>
     length path + 1 < 2 ^ 31 \<and> length path + 1 < w \<and> NUL \<notin> set path"

definition cpio_ok :: "nat \<Rightarrow> stat \<Rightarrow> string \<Rightarrow> string option \<Rightarrow> bool" where
  "cpio_ok w st path lpath \<longleftrightarrow> cpio_fields_ok w st path \<and>
     (if S_ISLNK (st_mode st)
      then (case lpath of
              None \<Rightarrow> False
            | Some l \<Rightarrow> l \<noteq> [] \<and> NUL \<notin> set l \<and> unat (st_size st) = length l \<and> length l \<le> w)
      else lpath = None)"

text \<open>What the reader makes of a file: the access and change times are not in the archive.\<close>

definition cpio_stat :: "stat \<Rightarrow> stat \<Rightarrow> stat" where
  "cpio_stat st0 st = st\<lparr>st_atime := st_atime st0, st_ctime := st_ctime st0\<rparr>"

lemma cpio_fields_read:
  assumes "cpio_fields_ok w st path" and nb: "nb = length path + 1"
    and hdr: "hdr = cpio_header st nb"
  shows "GET_NUM_FIELD hdr 6 s k = k (ucast (st_ino st))" "GET_NUM_FIELD hdr 14 s k = k (st_mode st)"
    "GET_NUM_FIELD hdr 22 s k = k (st_uid st)" "GET_NUM_FIELD hdr 30 s k = k (st_gid st)"
    "GET_NUM_FIELD hdr 38 s k = k (ucast (st_nlink st))" "GET_NUM_FIELD hdr 46 s k = k (ucast (st_mtime st))"
    "GET_NUM_FIELD hdr 54 s k = k (ucast (st_size st))"
    "GET_NUM_FIELD hdr 62 s k = k (ucast (dev_major (st_dev st)))"
    "GET_NUM_FIELD hdr 70 s k = k (ucast (dev_minor (st_dev st)))"
    "GET_NUM_FIELD hdr 78 s k = k (ucast (dev_major (st_rdev st)))"
    "GET_NUM_FIELD hdr 86 s k = k (ucast (dev_minor (st_rdev st)))"
    "GET_NUM_FIELD hdr 94 s k = k (ucast (of_nat nb :: u64))"
proof -
  have "nb < 2 ^ 31"
    using assms(1) nb by (simp add: cpio_fields_ok_def)
  then have "unat (of_nat nb :: u64) < 2 ^ 32"
    by (simp add: unsigned_of_nat take_bit_nat_eq_self)
  moreover have "unat (st_ino st) < 2 ^ 32" "unat (st_nlink st) < 2 ^ 32" "unat (st_mtime st) < 2 ^ 32"
    "unat (st_size st) < 2 ^ 32"
    using assms(1) by (simp_all add: cpio_fields_ok_def)
  ultimately have "list_all (\<lambda>v. unat v < 2 ^ 32) (cpio_values st nb)"
    unfolding cpio_values_def list.pred_inject by (intro conjI unat_ucast_32 unat_dev; (assumption | simp))
  then have v: "i < 12 \<Longrightarrow> unat (cpio_values st nb ! i) < 2 ^ 32" for i
    by (simp add: list_all_length cpio_values_def)
  note g = GET_value[of _ st nb, folded hdr]
  show "GET_NUM_FIELD hdr 6 s k = k (ucast (st_ino st))" "GET_NUM_FIELD hdr 14 s k = k (st_mode st)"
    "GET_NUM_FIELD hdr 22 s k = k (st_uid st)" "GET_NUM_FIELD hdr 30 s k = k (st_gid st)"
    "GET_NUM_FIELD hdr 38 s k = k (ucast (st_nlink st))" "GET_NUM_FIELD hdr 46 s k = k (ucast (st_mtime st))"
    "GET_NUM_FIELD hdr 54 s k = k (ucast (st_size st))"
    "GET_NUM_FIELD hdr 62 s k = k (ucast (dev_major (st_dev st)))"
    "GET_NUM_FIELD hdr 70 s k = k (ucast (dev_minor (st_dev st)))"
    "GET_NUM_FIELD hdr 78 s k = k (ucast (dev_major (st_rdev st)))"
    "GET_NUM_FIELD hdr 86 s k = k (ucast (dev_minor (st_rdev st)))"
    "GET_NUM_FIELD hdr 94 s k = k (ucast (of_nat nb :: u64))"
    using g[OF _ v, of 0] g[OF _ v, of 1] g[OF _ v, of 2] g[OF _ v, of 3] g[OF _ v, of 4] g[OF _ v, of 5]
      g[OF _ v, of 6] g[OF _ v, of 7] g[OF _ v, of 8] g[OF _ v, of 9] g[OF _ v, of 10] g[OF _ v, of 11]
    by (simp_all add: cpio_values_def ucast_ucast_32)
qed

section \<open>The bytes of a file in the archive\<close>

abbreviation pad4 :: "nat \<Rightarrow> string" where
  "pad4 n \<equiv> padding 4 n"

definition cpio_name_bytes :: "stat \<Rightarrow> string \<Rightarrow> string" where
  "cpio_name_bytes st path = cpio_header st (length path + 1) @ path @ [NUL]"

definition cpio_link_bytes :: "nat \<Rightarrow> stat \<Rightarrow> string option \<Rightarrow> string" where
  "cpio_link_bytes pos st lpath =
     (if S_ISLNK (st_mode st) then pad4 pos @ or_empty_str lpath else [])"

text \<open>The header as \<open>cpioHeaderWrite\<close> leaves it, padded.\<close>

definition cpio_bytes :: "nat \<Rightarrow> stat \<Rightarrow> string \<Rightarrow> string option \<Rightarrow> string" where
  "cpio_bytes pos st path lpath =
     (let n = cpio_name_bytes st path; l = cpio_link_bytes (pos + length n) st lpath in
      n @ l @ pad4 (pos + length n + length l))"

lemma length_name_bytes: "length (cpio_name_bytes st path) = 111 + length path"
  by (simp add: cpio_name_bytes_def)

lemmas PAD4 = PAD_padding [where b = 4, simplified]
lemmas POS4 = POS_padding [where b = 4, simplified]

section \<open>Writing a header\<close>

lemma cpioHeaderWrite_writes:
  assumes s: "writing out pos (length (cpio_bytes pos st path lpath) + room) s" "blksize s = 4"
    and io: "io_path s = Some path" "io_lpath s = lpath"
    and buf: "111 + length path \<le> rdsize s" "length (or_empty_str lpath) \<le> rdsize s"
    and link: "S_ISLNK (st_mode st) \<Longrightarrow> or_empty_str lpath \<noteq> []"
  shows "\<exists>s'. cpioHeaderWrite st s = ok (0, s') \<and>
    writing (out @ cpio_bytes pos st path lpath) (pos + length (cpio_bytes pos st path lpath)) room s' \<and>
    same_input s s'"
proof -
  let ?n = "cpio_name_bytes st path"
  let ?l = "cpio_link_bytes (pos + length ?n) st lpath"
  let ?p = "pad4 (pos + length ?n + length ?l)"
  have bytes: "cpio_bytes pos st path lpath = ?n @ ?l @ ?p"
    by (simp add: cpio_bytes_def Let_def)
  define s1 where "s1 = s\<lparr>rdbuf := cpio_header st (length path + 1) @ drop 110 (rdbuf s)\<rparr>"
  define s2 where "s2 = s1\<lparr>rdbuf := ?n @ drop (111 + length path) (rdbuf s1)\<rparr>"
  have p1: "put_rdbuf 0 (cpio_header st (length path + 1)) s = ok s1"
    using buf(1) by (simp add: put_rdbuf_ok s1_def)
  have p2: "put_rdbuf 110 (path @ [NUL]) s1 = ok s2"
    using buf(1) by (simp add: put_rdbuf_ok s1_def s2_def cpio_name_bytes_def)
  have s2: "writing out pos (length ?n + (length ?l + length ?p + room)) s2" "same_input s s2"
      "length ?n \<le> rdsize s2" "take (length ?n) (rdbuf s2) = ?n"
    using s(1) buf(1) unfolding bytes
    by (auto simp: s1_def s2_def writing_def same_input_def length_name_bytes ac_simps)
  obtain s3 where s3: "io_write None (length ?n) s2 = ok (int (length ?n), s3)"
      "writing (out @ ?n) (pos + length ?n) (length ?l + length ?p + room) s3" "same_input s2 s3"
    using io_write_writing[OF s2(1,3), of None] s2(4) by auto
  have io3: "same_input s s3"
    using s2(2) s3(3) by (rule same_input_trans)
  have start: "cpioHeaderWrite st s =
      (if S_ISLNK (st_mode st)
       then andThen (IOSM_PAD s3) (\<lambda>(rc, s).
          if rc \<noteq> 0 then ok (rc, s)
          else andThen (cpioWrite (Some (or_empty_str lpath)) (length (or_empty_str lpath)) s) (\<lambda>(rc, s).
            IOSMRC rc s (IOSM_PAD s)))
       else IOSM_PAD s3)"
    using p1 p2 s3(1) io
    by (simp add: cpioHeaderWrite_def cpioWrite_def Let_def PHYS_HDR_SIZE_def length_name_bytes
        IOSMRC_def add.commute)
  have blk: "blksize s3 = 4" "4 \<le> rdsize s3" "length (or_empty_str lpath) \<le> rdsize s3"
    using io3 s(2) buf by (simp_all add: same_input_def)
  show ?thesis
  proof (cases "S_ISLNK (st_mode st)")
    case False
    then have "?l = []"
      by (simp add: cpio_link_bytes_def)
    then obtain s4 where "IOSM_PAD s3 = ok (0, s4)" "writing (out @ ?n @ ?p) (pos + length ?n + length ?p) room s4"
        "same_input s3 s4"
      using PAD4[of "out @ ?n" "pos + length ?n" room s3] s3(2) blk by auto
    then show ?thesis
      using start False io3 \<open>?l = []\<close> unfolding bytes by (auto simp: add.assoc intro: same_input_trans)
  next
    case True
    let ?p1 = "pad4 (pos + length ?n)" and ?k = "or_empty_str lpath"
    have l: "?l = ?p1 @ ?k"
      using True by (simp add: cpio_link_bytes_def)
    obtain s4 where s4: "IOSM_PAD s3 = ok (0, s4)" "same_input s3 s4"
        "writing (out @ ?n @ ?p1) (pos + length ?n + length ?p1) (length ?k + (length ?p + room)) s4"
      using PAD4[of "out @ ?n" "pos + length ?n" "length ?k + (length ?p + room)" s3] s3(2) blk
      by (auto simp: l ac_simps)
    then have "length ?k \<le> rdsize s4"
      using blk by (simp add: same_input_def)
    then obtain s5 where s5: "io_write (Some ?k) (length ?k) s4 = ok (int (length ?k), s5)" "same_input s4 s5"
        "writing (out @ ?n @ ?l) (pos + length ?n + length ?l) (length ?p + room) s5"
      using io_write_writing[OF s4(3), of "Some ?k"] by (auto simp: l ac_simps)
    obtain s6 where s6: "IOSM_PAD s5 = ok (0, s6)" "same_input s5 s6"
        "writing (out @ ?n @ ?l @ ?p) (pos + length ?n + length ?l + length ?p) room s6"
      using PAD4[OF s5(3)] s4(2) s5(2) blk by (auto simp: same_input_def)
    have "cpioHeaderWrite st s = ok (0, s6)"
      using start True link s4(1) s5(1) s6(1) by (simp add: cpioWrite_def IOSMRC_def)
    then show ?thesis
      using s6 s5(2) s4(2) io3 unfolding bytes by (auto simp: add.assoc same_input_def)
  qed
qed

section \<open>Reading a header\<close>

lemma takeWhile_path: "NUL \<notin> set t \<Longrightarrow> takeWhile (\<lambda>c. c \<noteq> NUL) (t @ [NUL]) = t"
  "NUL \<notin> set t \<Longrightarrow> takeWhile (\<lambda>c. c \<noteq> NUL) t = t"
  by (auto simp: takeWhile_append takeWhile_eq_all_conv)

lemma cpio_magic_ok: "strncmp CPIO_NEWC_MAGIC (cpio_header st nb) 6 = 0"
  unfolding cpio_header_def CPIO_NEWC_MAGIC_def strncmp_take by simp

lemma cpio_link_reads:
  assumes s: "reading (cpio_link_bytes pos st lpath @ rest) pos s" "blksize s = 4" "4 \<le> wrsize s"
    and ok: "cpio_ok (wrsize s) st path lpath" and st': "st_mode st' = st_mode st" "st_size st' = st_size st"
  shows "\<exists>s'. cpio_link st' s = ok (0, (st', s')) \<and>
    reading rest (pos + length (cpio_link_bytes pos st lpath)) s' \<and>
    same_files (s\<lparr>io_lpath := if S_ISLNK (st_mode st) then lpath else io_lpath s\<rparr>) s'"
proof (cases "S_ISLNK (st_mode st)")
  case False
  then show ?thesis
    using s st' by (simp add: cpio_link_def cpio_link_bytes_def)
next
  case True
  then obtain l where l: "lpath = Some l" "l \<noteq> []" "NUL \<notin> set l" "unat (st_size st) = length l" "length l \<le> wrsize s"
    using ok by (auto simp: cpio_ok_def split: option.splits)
  have bytes: "cpio_link_bytes pos st (Some l) = pad4 pos @ l"
    using True by (simp add: cpio_link_bytes_def)
  obtain s1 where s1: "IOSM_POS s = ok (0, s1)" "reading (l @ rest) (pos + length (pad4 pos)) s1" "same_files s s1"
    using POS4[of pos "l @ rest" s] s by (auto simp: l(1) bytes)
  then have "length l \<le> wrsize s1"
    using l by (simp add: same_files_def)
  then obtain s2 where s2: "io_read False (length l) [] s1 = ok ((int (length l), l), s2)"
      "reading rest (pos + length (pad4 pos) + length l) s2" "same_files s1 s2"
    using io_read_reading[OF s1(2), of False "[]"] by auto
  have "same_files (s\<lparr>io_lpath := Some l\<rparr>) (s2\<lparr>io_lpath := Some l\<rparr>)"
    using s1(3) s2(3) by (simp add: same_files_def)
  moreover have "reading rest (pos + length (pad4 pos) + length l) (s2\<lparr>io_lpath := Some l\<rparr>)"
    using s2(2) by (simp add: reading_def)
  ultimately show ?thesis
    using True l s1(1) s2(1) st'
    by (simp add: cpio_link_def cpioRead_def bytes IOSMRC_def takeWhile_path add.assoc)
qed

lemma cpio_stat_read:
  "st0\<lparr>st_ino := st_ino st, st_mode := st_mode st, st_uid := st_uid st, st_gid := st_gid st,
     st_nlink := st_nlink st, st_mtime := st_mtime st, st_size := st_size st, st_dev := st_dev st,
     st_rdev := st_rdev st\<rparr> = cpio_stat st0 st"
  by (cases st0; cases st) (simp add: cpio_stat_def)

lemma cpio_fields_eval:
  assumes s: "reading (cpio_header st nb @ rest) pos s" "110 \<le> wrsize s"
    and ok: "cpio_fields_ok (wrsize s) st path" and nb: "nb = length path + 1"
  shows "\<exists>s1. cpioHeaderRead st0 s = cpio_name nb s1 (cpio_link (cpio_stat st0 st)) (cpio_stat st0 st) \<and>
    reading rest (pos + 110) s1 \<and> same_files s s1"
proof -
  let ?h = "cpio_header st nb"
  have "?h \<noteq> []"
    by (metis length_cpio_header list.size(3) zero_neq_numeral)
  then obtain s1 where s1: "io_read False 110 [] s = ok ((110, ?h), s1)"
      "reading rest (pos + 110) s1" "same_files s s1" "take 110 (wrbuf s1) = ?h"
    using io_read_reading[OF s(1), of False "[]"] s(2) by auto
  then have w1: "wrsize s1 = wrsize s"
    by (simp add: same_files_def)
  have nbs: "nb < 2 ^ 31" "nb < wrsize s"
    using ok by (auto simp: cpio_fields_ok_def nb)
  have small: "scast (ucast (st_ino st) :: 32 word) = st_ino st" "scast (ucast (st_nlink st) :: 32 word) = st_nlink st"
    "scast (ucast (st_mtime st) :: 32 word) = st_mtime st" "scast (ucast (st_size st) :: 32 word) = st_size st"
    using ok by (simp_all add: cpio_fields_ok_def scast_ucast_small)
  have dev: "Makedev (ucast (dev_major (st_dev st))) (ucast (dev_minor (st_dev st))) = st_dev st"
    "Makedev (ucast (dev_major (st_rdev st))) (ucast (dev_minor (st_rdev st))) = st_rdev st"
    using ok by (simp_all add: cpio_fields_ok_def Makedev_dev)
  have unat_nb: "unat (of_nat nb :: u64) = nb"
    using nbs(1) by (subst unsigned_of_nat) (simp add: take_bit_nat_eq_self)
  then have size_nb: "unat (scast (ucast (of_nat nb :: u64) :: 32 word) :: u64) = nb"
    using nbs(1) scast_ucast_small[of "of_nat nb"] by simp
  note fields = cpio_fields_read[OF ok nb refl]
  have "cpioHeaderRead st0 s = cpio_name nb s1 (cpio_link (cpio_stat st0 st)) (cpio_stat st0 st)"
    using s1(1,4) nbs(2) w1
    by (simp add: cpioHeaderRead_def cpioRead_def PHYS_HDR_SIZE_def IOSMRC_def cpio_magic_ok fields small dev size_nb
        cpio_stat_read Let_def)
  then show ?thesis
    using s1 by blast
qed

lemma cpio_name_reads:
  assumes s: "reading ((path @ [NUL]) @ rest) pos s" "length path + 1 \<le> wrsize s" and nul: "NUL \<notin> set path"
  shows "\<exists>s'. cpio_name (length path + 1) s k st = k s' \<and> reading rest (pos + (length path + 1)) s' \<and>
    same_files (s\<lparr>io_path := Some path\<rparr>) s'"
proof -
  have len: "length (path @ [NUL]) = length path + 1"
    by simp
  obtain s2 where s2: "io_read False (length path + 1) [] s = ok ((int (length path + 1), path @ [NUL]), s2)"
      "reading rest (pos + (length path + 1)) s2" "same_files s s2"
    using io_read_reading[OF s(1), of False "[]"] s(2) unfolding len by auto
  then have "cpio_name (length path + 1) s k st = k (s2\<lparr>io_path := Some path\<rparr>)"
    using nul by (simp add: cpio_name_def cpioRead_def IOSMRC_def takeWhile_path)
  then show ?thesis
    using s2 by (intro exI[of _ "s2\<lparr>io_path := Some path\<rparr>"]) (simp add: reading_def same_files_def)
qed

lemma cpioHeaderRead_reads:
  assumes s: "reading (cpio_name_bytes st path @ cpio_link_bytes (pos + length (cpio_name_bytes st path)) st lpath @ rest) pos s"
      "blksize s = 4" "110 \<le> wrsize s"
    and ok: "cpio_ok (wrsize s) st path lpath"
  shows "\<exists>s'. cpioHeaderRead st0 s = ok (0, (cpio_stat st0 st, s')) \<and>
    reading rest (pos + length (cpio_name_bytes st path) +
      length (cpio_link_bytes (pos + length (cpio_name_bytes st path)) st lpath)) s' \<and>
    same_files (s\<lparr>io_path := Some path, io_lpath := if S_ISLNK (st_mode st) then lpath else io_lpath s\<rparr>) s'"
proof -
  let ?l = "cpio_link_bytes (pos + length (cpio_name_bytes st path)) st lpath"
  have r0: "reading (cpio_header st (length path + 1) @ (path @ [NUL]) @ ?l @ rest) pos s"
    using s(1) by (simp add: cpio_name_bytes_def)
  have fok: "cpio_fields_ok (wrsize s) st path"
    using ok by (simp add: cpio_ok_def)
  obtain s1 where s1: "cpioHeaderRead st0 s =
        cpio_name (length path + 1) s1 (cpio_link (cpio_stat st0 st)) (cpio_stat st0 st)"
      "reading ((path @ [NUL]) @ ?l @ rest) (pos + 110) s1" "same_files s s1"
    using cpio_fields_eval[OF r0 s(3) fok refl] by blast
  have "length path + 1 \<le> wrsize s1" "NUL \<notin> set path"
    using fok s1(3) by (auto simp: cpio_fields_ok_def same_files_def)
  then obtain s2 where s2: "cpioHeaderRead st0 s = cpio_link (cpio_stat st0 st) s2"
      "reading (?l @ rest) (pos + 110 + (length path + 1)) s2" "same_files (s1\<lparr>io_path := Some path\<rparr>) s2"
    using cpio_name_reads[OF s1(2), of "cpio_link (cpio_stat st0 st)" "cpio_stat st0 st"] unfolding s1(1) by auto
  have "reading (?l @ rest) (pos + length (cpio_name_bytes st path)) s2" "blksize s2 = 4" "4 \<le> wrsize s2"
      "cpio_ok (wrsize s2) st path lpath"
    using s2 s1(3) s(2,3) ok by (auto simp: same_files_def length_name_bytes ac_simps)
  from cpio_link_reads[OF this, of "cpio_stat st0 st"] show ?thesis
    using s2 s1(3) by (auto simp: cpio_stat_def same_files_def)
qed

lemma IOSM_NEXT_reads:
  assumes s: "reading (pad4 pos @ cpio_bytes (pos + length (pad4 pos)) st path lpath @ rest) pos s"
      "blksize s = 4" "110 \<le> wrsize s"
    and ok: "cpio_ok (wrsize s) st path lpath" and name: "path \<noteq> CPIO_TRAILER"
  shows "\<exists>s'. IOSM_NEXT cpioHeaderRead st0 s = ok (0, (cpio_stat st0 st, s')) \<and>
    reading rest (pos + length (pad4 pos) + length (cpio_bytes (pos + length (pad4 pos)) st path lpath)) s' \<and>
    same_files (s\<lparr>io_path := Some path, io_lpath := if S_ISLNK (st_mode st) then lpath else io_lpath s\<rparr>) s'"
proof -
  let ?q = "pos + length (pad4 pos)" and ?n = "cpio_name_bytes st path"
  let ?l = "cpio_link_bytes (?q + length ?n) st lpath"
  let ?p = "pad4 (?q + length ?n + length ?l)"
  have bytes: "cpio_bytes ?q st path lpath = ?n @ ?l @ ?p"
    by (simp add: cpio_bytes_def Let_def)
  obtain s1 where s1: "IOSM_POS s = ok (0, s1)" "reading (?n @ ?l @ (?p @ rest)) ?q s1" "same_files s s1"
    using POS4[OF s(1)] s(2,3) by (auto simp: bytes)
  then have w1: "blksize s1 = 4" "110 \<le> wrsize s1" "cpio_ok (wrsize s1) st path lpath"
    using s(2,3) ok by (auto simp: same_files_def)
  obtain s2 where s2: "cpioHeaderRead st0 s1 = ok (0, (cpio_stat st0 st, s2))"
      "reading (?p @ rest) (?q + length ?n + length ?l) s2"
      "same_files (s1\<lparr>io_path := Some path, io_lpath := if S_ISLNK (st_mode st) then lpath else io_lpath s1\<rparr>) s2"
    using cpioHeaderRead_reads[OF s1(2) w1] by blast
  then have p2: "io_path s2 = Some path" and w2: "blksize s2 = 4" "4 \<le> wrsize s2"
    using w1 by (auto simp: same_files_def)
  obtain s3 where s3: "IOSM_POS s2 = ok (0, s3)" "reading rest (?q + length ?n + length ?l + length ?p) s3"
      "same_files s2 s3"
    using POS4[OF s2(2) w2] by blast
  show ?thesis
    using s1(1,3) s2(1,3) s3 name p2
    by (auto simp: IOSM_NEXT_def IOSM_HREAD_def bytes add.assoc same_files_def)
qed

end
