(* ===== verification/CpioArchive.thy ===== *)
theory CpioArchive
  imports CpioThms
begin

unbundle bit_operations_syntax

text \<open>
  Whole cpio payloads: the format meets the contract of \<open>Payload\<close>, so that unpacking returns what
  was packed; and where the format ends: values beyond \<open>int\<close>, and archives that are cut off or
  hostile.
\<close>

section \<open>The trailer\<close>

text \<open>The trailer is the header of an empty file with a name of its own.\<close>

definition trailer_stat :: stat where
  "trailer_stat = \<lparr>st_dev = 0, st_ino = 0, st_nlink = 1, st_mode = 0, st_uid = 0, st_gid = 0, st_rdev = 0,
     st_size = 0, st_atime = 0, st_mtime = 0, st_ctime = 0\<rparr>"

definition cpio_tail :: "nat \<Rightarrow> string" where
  "cpio_tail pos = cpio_bytes pos trailer_stat CPIO_TRAILER None"

lemma S_ISLNK_0 [simp]: "\<not> S_ISLNK 0"
  by (simp add: S_ISLNK_def)

lemma SET_NUM_FIELD_small: "SET_NUM_FIELD 0 = ''00000000''" "SET_NUM_FIELD 1 = ''00000001''" "SET_NUM_FIELD 11 = ''0000000b''"
  by code_simp+

lemma trailer_header: "cpio_trailer = cpio_header trailer_stat 11"
proof -
  have "dev_major 0 = 0" "dev_minor 0 = 0"
    by (simp_all add: dev_major_def dev_minor_def gnu_major_def gnu_minor_def)
  then show ?thesis
    by (simp add: cpio_trailer_def cpio_header_def trailer_stat_def SET_NUM_FIELD_small CPIO_NEWC_MAGIC_def
        numeral_eq_Suc)
qed

lemma trailer_name: "cpio_name_bytes trailer_stat CPIO_TRAILER = cpio_trailer @ CPIO_TRAILER @ [NUL]"
proof -
  have "length CPIO_TRAILER + 1 = 11"
    by (simp add: CPIO_TRAILER_def)
  then show ?thesis
    unfolding cpio_name_bytes_def trailer_header by (simp only:)
qed

lemma cpioTrailerWrite_writes:
  assumes s: "writing out pos (length (cpio_tail pos) + room) s" "blksize s = 4" "121 \<le> rdsize s"
  shows "\<exists>s'. cpioTrailerWrite s = ok (0, s') \<and>
    writing (out @ cpio_tail pos) (pos + length (cpio_tail pos)) room s'"
proof -
  let ?n = "cpio_name_bytes trailer_stat CPIO_TRAILER"
  have len: "length ?n = 121" "length CPIO_TRAILER = 10" "length cpio_trailer = 110"
    unfolding trailer_header by (simp_all add: length_name_bytes CPIO_TRAILER_def)
  have bytes: "cpio_tail pos = ?n @ pad4 (pos + length ?n)"
    by (simp add: cpio_tail_def cpio_bytes_def cpio_link_bytes_def trailer_stat_def Let_def)
  define s1 where "s1 = s\<lparr>rdbuf := cpio_trailer @ drop 110 (rdbuf s)\<rparr>"
  define s2 where "s2 = s1\<lparr>rdbuf := ?n @ drop 121 (rdbuf s1)\<rparr>"
  have p: "put_rdbuf 0 cpio_trailer s = ok s1" "put_rdbuf 110 (CPIO_TRAILER @ [NUL]) s1 = ok s2"
    using s(3) len by (simp_all add: put_rdbuf_ok s1_def s2_def trailer_name)
  have "writing out pos (length ?n + (length (pad4 (pos + length ?n)) + room)) s2" "length ?n \<le> rdsize s2"
      "take (length ?n) (rdbuf s2) = ?n"
    using s len unfolding bytes by (auto simp: s1_def s2_def writing_def ac_simps)
  then obtain s3 where s3: "io_write None (length ?n) s2 = ok (int (length ?n), s3)"
      "writing (out @ ?n) (pos + length ?n) (length (pad4 (pos + length ?n)) + room) s3" "same_input s2 s3"
    using io_write_writing[of out pos ?n "length (pad4 (pos + length ?n)) + room" s2 None] by auto
  then have "blksize s3 = 4" "4 \<le> rdsize s3"
    using s len by (auto simp: s1_def s2_def same_input_def)
  then obtain s4 where "IOSM_PAD s3 = ok (0, s4)"
      "writing ((out @ ?n) @ pad4 (pos + length ?n)) (pos + length ?n + length (pad4 (pos + length ?n))) room s4"
    using PAD4[OF s3(2)] by blast
  then show ?thesis
    using p s3(1) unfolding bytes
    by (simp add: cpioTrailerWrite_def cpioWrite_def PHYS_HDR_SIZE_def IOSMRC_def len add.assoc)
qed

lemma cpio_trailer_ok: "110 \<le> w \<Longrightarrow> cpio_ok w trailer_stat CPIO_TRAILER None"
  by (simp add: cpio_ok_def cpio_fields_ok_def trailer_stat_def CPIO_TRAILER_def)

lemma NEXT_trailer:
  assumes s: "reading (pad4 pos @ cpio_tail (pos + length (pad4 pos))) pos s" "blksize s = 4" "110 \<le> wrsize s"
  shows "\<exists>st' s'. IOSM_NEXT cpioHeaderRead st0 s = ok (IOSMERR_HDR_TRAILER, (st', s'))"
proof -
  let ?q = "pos + length (pad4 pos)" and ?n = "cpio_name_bytes trailer_stat CPIO_TRAILER"
  have l: "cpio_link_bytes (?q + length ?n) trailer_stat None = []"
    by (simp add: cpio_link_bytes_def trailer_stat_def)
  obtain s1 where s1: "IOSM_POS s = ok (0, s1)" "same_files s s1"
      "reading (?n @ cpio_link_bytes (?q + length ?n) trailer_stat None @ pad4 (?q + length ?n)) ?q s1"
    using POS4[OF s(1,2)] s(3) by (auto simp: cpio_tail_def cpio_bytes_def l Let_def)
  then have w: "blksize s1 = 4" "110 \<le> wrsize s1" "cpio_ok (wrsize s1) trailer_stat CPIO_TRAILER None"
    using s(2,3) cpio_trailer_ok by (auto simp: same_files_def)
  obtain s2 where "cpioHeaderRead st0 s1 = ok (0, (cpio_stat st0 trailer_stat, s2))" "io_path s2 = Some CPIO_TRAILER"
    using cpioHeaderRead_reads[OF s1(3) w, of st0] by (auto simp: same_files_def)
  then show ?thesis
    using s1(1) by (auto simp: IOSM_NEXT_def IOSM_HREAD_def)
qed

section \<open>The format\<close>

definition cpio_entry :: "nat \<Rightarrow> stat \<Rightarrow> string \<Rightarrow> string option \<Rightarrow> bool" where
  "cpio_entry w st path lpath \<longleftrightarrow> cpio_ok w st path lpath \<and> path \<noteq> CPIO_TRAILER \<and> 111 + length path \<le> w"

interpretation cpio: archive_format cpioHeaderWrite cpioHeaderRead cpioTrailerWrite 4 121 cpio_bytes cpio_tail
  cpio_entry "\<lambda>_. IOSMERR_HDR_TRAILER" cpio_stat
proof unfold_locales
  show "0 < (4 :: nat)" "(4 :: nat) \<le> 121"
    by simp_all
next
  fix out pos st path lpath room s
  assume s: "writing out pos (length (cpio_bytes pos st path lpath) + room) s" "blksize s = 4" "121 \<le> rdsize s"
    "io_path s = Some path" "io_lpath s = lpath" "cpio_entry (rdsize s) st path lpath"
  then have "111 + length path \<le> rdsize s" "length (or_empty_str lpath) \<le> rdsize s"
      "S_ISLNK (st_mode st) \<Longrightarrow> or_empty_str lpath \<noteq> []"
    by (auto simp: cpio_entry_def cpio_ok_def cpio_fields_ok_def or_empty_str_def split: option.splits if_splits)
  then show "\<exists>s'. cpioHeaderWrite st s = ok (0, s') \<and>
      writing (out @ cpio_bytes pos st path lpath) (pos + length (cpio_bytes pos st path lpath)) room s' \<and> same_input s s'"
    using cpioHeaderWrite_writes[OF s(1,2,4,5)] by blast
next
  fix out pos room s
  assume "writing out pos (length (cpio_tail pos) + room) s" "blksize s = 4" "121 \<le> rdsize s"
  then show "\<exists>s'. cpioTrailerWrite s = ok (0, s') \<and> writing (out @ cpio_tail pos) (pos + length (cpio_tail pos)) room s'"
    by (rule cpioTrailerWrite_writes)
next
  fix pos st path lpath rest s st0
  assume s: "reading (pad4 pos @ cpio_bytes (pos + length (pad4 pos)) st path lpath @ rest) pos s" "blksize s = 4"
    "121 \<le> wrsize s" "io_lpath s = None" "cpio_entry (wrsize s) st path lpath"
  then have "(if S_ISLNK (st_mode st) then lpath else io_lpath s) = lpath"
    by (simp add: cpio_entry_def cpio_ok_def split: if_splits)
  then show "\<exists>s'. IOSM_NEXT cpioHeaderRead st0 s = ok (0, (cpio_stat st0 st, s')) \<and>
      reading rest (pos + length (pad4 pos) + length (cpio_bytes (pos + length (pad4 pos)) st path lpath)) s' \<and>
      same_files (s\<lparr>io_path := Some path, io_lpath := lpath\<rparr>) s'"
    using IOSM_NEXT_reads[OF s(1,2), of st0] s(3,5) by (simp add: cpio_entry_def)
next
  fix pos s st0
  assume "reading (pad4 pos @ cpio_tail (pos + length (pad4 pos))) pos s" "blksize s = 4" "121 \<le> wrsize s"
  then show "\<exists>st' s'. IOSM_NEXT cpioHeaderRead st0 s = ok (IOSMERR_HDR_TRAILER, (st', s'))"
    using NEXT_trailer[of pos s st0] by simp
qed (simp_all add: cpio_stat_def IOSMERR_HDR_TRAILER_def)

section \<open>Properties\<close>

text \<open>C11: A cpio payload is unpacked to the files it was packed from: for any list of regular files,
  directories, devices and symbolic links within the limits of the format, with both drivers at the
  start of the payload and buffers of one size, packing succeeds, and unpacking the bytes written gives
  the same files in the same order with their attributes, names, link targets and data.\<close>

theorem cpio_roundtrip:
  assumes "writing [] 0 (length (archive 4 cpio_bytes cpio_tail 0 files) + room) s" "blksize s = 4" "121 \<le> rdsize s"
    and "\<forall>f\<in>set files. file_ok cpio_entry (rdsize s) f"
    and "reading inp 0 r" "blksize r = 4" "wrsize r = rdsize s" "length files < fuel"
  shows "\<exists>s'. pack cpioHeaderWrite cpioTrailerWrite files s = Some (ok (0, s')) \<and>
    (inp = cfd_out s' \<longrightarrow> unpack cpioHeaderRead fuel st0 r = Some (ok (0, unpacked cpio_stat st0 files)))"
  using cpio.roundtrip[OF assms] by (simp add: ends_def)

lemma demo_files_ok: "\<forall>f\<in>set demo_files. file_ok cpio_entry 200 f"
proof -
  have "\<not> S_ISLNK 0x41ed" "\<not> S_ISREG 0x41ed" "\<not> S_ISLNK 0x81a4" "S_ISREG 0x81a4" "S_ISLNK 0xa1ff" "\<not> S_ISREG 0xa1ff"
    by (simp_all add: S_ISLNK_def S_ISREG_def)
  then show ?thesis
    by (simp add: demo_files_def file_ok_def cpio_entry_def cpio_ok_def cpio_fields_ok_def demo_stat_def CPIO_TRAILER_def)
qed

theorem cpio_roundtrip_witness:
  "\<exists>s'. pack cpioHeaderWrite cpioTrailerWrite demo_files
         (demo_io [] (length (archive 4 cpio_bytes cpio_tail 0 demo_files))) = Some (ok (0, s')) \<and>
     (archive 4 cpio_bytes cpio_tail 0 demo_files = cfd_out s' \<longrightarrow>
        unpack cpioHeaderRead 4 (demo_stat 0 0) (demo_io (archive 4 cpio_bytes cpio_tail 0 demo_files) 0) =
        Some (ok (0, unpacked cpio_stat (demo_stat 0 0) demo_files)))"
proof -
  have "length demo_files < 4"
    by (simp add: demo_files_def)
  then show ?thesis
    using cpio_roundtrip[of demo_files 0 "demo_io [] (length (archive 4 cpio_bytes cpio_tail 0 demo_files))"
        "archive 4 cpio_bytes cpio_tail 0 demo_files" "demo_io (archive 4 cpio_bytes cpio_tail 0 demo_files) 0" 4
        "demo_stat 0 0"]
    by (simp add: demo_io_simps demo_files_ok)
qed

text \<open>C48: A number field keeps a value below 2^31 and turns one from there to 2^32 into a negative
  number: the reader goes through an \<open>int\<close>. A file of 2 GiB or more comes back with a negative size.\<close>

theorem cpio_field_limits:
  "(unat v < 2 ^ 31 \<longrightarrow> (scast (fst (strntoul (SET_NUM_FIELD v @ r) 16 8)) :: u64) = v) \<and>
   (2 ^ 31 \<le> unat v \<and> unat v < 2 ^ 32 \<longrightarrow>
      (scast (fst (strntoul (SET_NUM_FIELD v @ r) 16 8)) :: u64) = v OR 0xffffffff00000000 \<and>
      sint (scast (fst (strntoul (SET_NUM_FIELD v @ r) 16 8)) :: u64) < 0)"
proof (intro conjI impI; (elim conjE)?)
  assume "unat v < 2 ^ 31"
  then show "(scast (fst (strntoul (SET_NUM_FIELD v @ r) 16 8)) :: u64) = v"
    by (simp add: strntoul_SET_NUM_FIELD scast_ucast_small)
next
  assume v: "2 ^ 31 \<le> unat v" "unat v < 2 ^ 32"
  have "bit v 31"
  proof (rule ccontr)
    assume no: "\<not> bit v 31"
    have "take_bit 31 v = v"
    proof (rule bit_word_eqI)
      fix n show "bit (take_bit 31 v) n = bit v n"
        using bit_below[OF v(2), of n] no by (cases "n = 31") (auto simp: bit_take_bit_iff)
    qed
    then have "take_bit 31 (unat v) = unat v"
      by (metis unsigned_take_bit_eq)
    then show False
      using v(1) by (simp add: take_bit_nat_eq_self_iff)
  qed
  have hi: "(0xffffffff00000000 :: u64) = NOT (mask 32)"
    by (simp add: mask_eq_exp_minus_1)
  show eq: "(scast (fst (strntoul (SET_NUM_FIELD v @ r) 16 8)) :: u64) = v OR 0xffffffff00000000"
    unfolding strntoul_SET_NUM_FIELD[OF v(2)] fst_conv hi
  proof (rule bit_word_eqI)
    fix n assume "n < LENGTH(64)"
    then show "bit (scast (ucast v :: 32 word) :: u64) n = bit (v OR NOT (mask 32)) n"
      using \<open>bit v 31\<close> bit_below[OF v(2), of n]
      by (cases "n < 31"; cases "n = 31") (auto simp: bit_simps min_def)
  qed
  have "bit (v OR 0xffffffff00000000 :: u64) 63"
    unfolding hi by (simp add: bit_simps)
  then show "sint (scast (fst (strntoul (SET_NUM_FIELD v @ r) 16 8)) :: u64) < 0"
    unfolding eq using bit_last_iff[of "v OR 0xffffffff00000000 :: u64"] by simp
qed

theorem cpio_field_limits_witness:
  "(scast (fst (strntoul (SET_NUM_FIELD 5 @ []) 16 8)) :: u64) = 5 \<and>
   sint (scast (fst (strntoul (SET_NUM_FIELD 0x80000000 @ []) 16 8)) :: u64) < 0"
  using cpio_field_limits [where v = 5 and r = "[]"] cpio_field_limits [where v = "0x80000000" and r = "[]"]
  by simp

text \<open>An archive that ends inside a file name crashes the reader: the name that cannot be read
  leaves a null path but no error, and \<open>IOSM_NEXT\<close> compares that path with the trailer's name.\<close>

theorem cpio_truncated_name:
  assumes "reading (cpio_header st (length path + 1) @ part) pos s" "pad4 pos = []" "blksize s = 4"
    and "110 \<le> wrsize s" "cpio_fields_ok (wrsize s) st path" "length part < length path + 1"
    and "\<not> S_ISLNK (st_mode st)"
  shows "IOSM_NEXT cpioHeaderRead st0 s = Inl NullDeref"
proof -
  have "4 \<le> wrsize s" "reading (pad4 pos @ cpio_header st (length path + 1) @ part) pos s"
    using assms(1,2,4) by simp_all
  then obtain s1 where s1: "IOSM_POS s = ok (0, s1)" "reading (cpio_header st (length path + 1) @ part) pos s1"
      "same_files s s1"
    using POS4[of pos _ s] assms(2,3) by fastforce
  then have w1: "110 \<le> wrsize s1" "cpio_fields_ok (wrsize s1) st path"
    using assms(4,5) by (simp_all add: same_files_def)
  obtain s2 where s2: "cpioHeaderRead st0 s1 =
        cpio_name (length path + 1) s2 (cpio_link (cpio_stat st0 st)) (cpio_stat st0 st)"
      "reading part (pos + 110) s2" "same_files s1 s2"
    using cpio_fields_eval[OF s1(2) w1 refl] by blast
  have "length part \<le> wrsize s2"
    using assms(6) w1(2) s2(3) by (auto simp: cpio_fields_ok_def same_files_def)
  then obtain bs s3 where "io_read False (length path + 1) [] s2 = ok ((- IOSMERR_READ_FAILED, bs), s3)"
    using io_read_short[OF s2(2) assms(6)] by blast
  then have "cpioHeaderRead st0 s1 = ok (0, (cpio_stat st0 st, s3\<lparr>io_path := None\<rparr>))"
    using s2(1) assms(7)
    by (simp add: cpio_name_def cpioRead_def cpio_link_def cpio_stat_def IOSMERR_READ_FAILED_def)
  then show ?thesis
    using s1(1) by (simp add: IOSM_NEXT_def IOSM_HREAD_def)
qed

lemma demo_fields: "cpio_fields_ok 200 (demo_stat m 5) ''./a''" "\<not> S_ISLNK 0x81a4" "S_ISLNK 0xa1ff"
  by (simp_all add: cpio_fields_ok_def demo_stat_def S_ISLNK_def)

theorem cpio_truncated_name_witness:
  "IOSM_NEXT cpioHeaderRead (demo_stat 0 0) (demo_io (cpio_header (demo_stat 0x81a4 5) 4 @ ''./'') 0) = Inl NullDeref"
proof -
  have len: "length ''./a'' + 1 = 4" and "pad4 0 = []" "st_mode (demo_stat 0x81a4 5) = 0x81a4"
    by (simp_all add: demo_stat_def)
  then show ?thesis
    using cpio_truncated_name[of "demo_stat 0x81a4 5" "''./a''" "''./''" 0
        "demo_io (cpio_header (demo_stat 0x81a4 5) 4 @ ''./'') 0" "demo_stat 0 0"]
    unfolding len by (simp add: demo_io_simps demo_fields)
qed

text \<open>C40: The length of a link target is not compared with the buffer: an archive with a symbolic link
  whose size exceeds the buffer, and as many bytes behind it, overruns \<open>wrbuf\<close>.\<close>

theorem cpio_link_overflow:
  assumes "reading (cpio_name_bytes st path @ pad4 (pos + length (cpio_name_bytes st path)) @ data) pos s"
    and "blksize s = 4" "110 \<le> wrsize s" "cpio_fields_ok (wrsize s) st path" "S_ISLNK (st_mode st)"
    and "wrsize s < unat (st_size st)" "wrsize s < length data"
  shows "cpioHeaderRead st0 s = Inl BufferOverflow"
proof -
  let ?q = "pos + length (cpio_name_bytes st path)"
  have r0: "reading (cpio_header st (length path + 1) @ (path @ [NUL]) @ pad4 ?q @ data) pos s"
    using assms(1) by (simp add: cpio_name_bytes_def)
  obtain s1 where s1: "cpioHeaderRead st0 s =
        cpio_name (length path + 1) s1 (cpio_link (cpio_stat st0 st)) (cpio_stat st0 st)"
      "reading ((path @ [NUL]) @ pad4 ?q @ data) (pos + 110) s1" "same_files s s1"
    using cpio_fields_eval[OF r0 assms(3,4) refl] by blast
  have "length path + 1 \<le> wrsize s1" "NUL \<notin> set path"
    using assms(4) s1(3) by (auto simp: cpio_fields_ok_def same_files_def)
  then obtain s2 where s2: "cpioHeaderRead st0 s = cpio_link (cpio_stat st0 st) s2"
      "reading (pad4 ?q @ data) ?q s2" "same_files (s1\<lparr>io_path := Some path\<rparr>) s2"
    using cpio_name_reads[OF s1(2), of "cpio_link (cpio_stat st0 st)" "cpio_stat st0 st"] unfolding s1(1)
    by (auto simp: length_name_bytes ac_simps)
  then have "blksize s2 = 4" "4 \<le> wrsize s2"
    using s1(3) assms(2,3) by (auto simp: same_files_def)
  then obtain s3 where s3: "IOSM_POS s2 = ok (0, s3)" "reading data (?q + length (pad4 ?q)) s3" "same_files s2 s3"
    using POS4[OF s2(2)] by blast
  have "wrsize s3 < unat (st_size st)" "wrsize s3 < length data" "unat (st_size st) \<noteq> 0"
    using s1(3) s2(3) s3(3) assms(6,7) by (auto simp: same_files_def)
  then have "IOSM_DREAD (s3\<lparr>wrlen := unat (st_size st)\<rparr>) = Inl BufferOverflow"
    using s3(2) by (simp add: IOSM_DREAD_def Fread_def reading_def Let_def)
  then have "io_read False (unat (st_size st)) [] s3 = Inl BufferOverflow"
    using \<open>unat (st_size st) \<noteq> 0\<close> by (subst io_read.simps) simp
  then show ?thesis
    using s2(1) s3(1) assms(5) by (simp add: cpio_link_def cpioRead_def cpio_stat_def)
qed

theorem cpio_link_overflow_witness:
  "cpioHeaderRead (demo_stat 0 0)
     (demo_io (cpio_name_bytes (demo_stat 0xa1ff 300) ''./a'' @ pad4 114 @ replicate 300 CHR ''x'') 0) =
   Inl BufferOverflow"
proof -
  have "cpio_fields_ok 200 (demo_stat 0xa1ff 300) ''./a''" "st_mode (demo_stat 0xa1ff 300) = 0xa1ff"
      "st_size (demo_stat 0xa1ff 300) = 300" "length (cpio_name_bytes (demo_stat 0xa1ff 300) ''./a'') = 114"
    by (simp_all add: cpio_fields_ok_def demo_stat_def length_name_bytes)
  then show ?thesis
    using cpio_link_overflow[of "demo_stat 0xa1ff 300" "''./a''" 0 "replicate 300 CHR ''x''"
        "demo_io (cpio_name_bytes (demo_stat 0xa1ff 300) ''./a'' @ pad4 114 @ replicate 300 CHR ''x'') 0" "demo_stat 0 0"]
    by (simp add: demo_io_simps demo_fields)
qed

end
