(* ===== verification/TarArchive.thy ===== *)
theory TarArchive
  imports TarThms CpioArchive
begin

unbundle bit_operations_syntax

text \<open>
  Whole tar payloads: the format meets the contract of \<open>Payload\<close> for names of less than 100
  characters, up to the end of the archive, whose two zero blocks come from the padding to ten
  kilobytes and are missing where that is short. Longer names are neither written nor read.
\<close>

section \<open>The trailer\<close>








section \<open>The format\<close>


lemma NEXT_tar_reads:
  assumes s: "reading (padding 512 pos @ tar_bytes uname gname p st path lpath @ rest) pos s" "blksize s = 512"
      "512 \<le> wrsize s" "io_path s = None" "io_lpath s = None"
    and ok: "tar_ok st path lpath" "tar_path st path \<noteq> CPIO_TRAILER"
  shows "\<exists>s'. IOSM_NEXT tarHeaderRead st0 s = ok (0, (tar_stat st0 st, s')) \<and>
    reading rest (pos + length (padding 512 pos) + 512) s' \<and>
    same_files (s\<lparr>io_path := Some (tar_path st path), io_lpath := lpath\<rparr>) s'"
proof -
  let ?q = "pos + length (padding 512 pos)"
  obtain s1 where s1: "IOSM_POS s = ok (0, s1)" "reading (tar_bytes uname gname p st path lpath @ rest) ?q s1" "same_files s s1"
    using POS_padding[OF s(1,2)] s(3) by auto
  then have w1: "512 \<le> wrsize s1" "io_path s1 = None" "io_lpath s1 = None"
    using s by (simp_all add: same_files_def)
  obtain s2 where s2: "tarHeaderRead st0 s1 = ok (0, (tar_stat st0 st, s2))" "reading rest (?q + 512) s2"
      "same_files (s1\<lparr>io_path := Some (tar_path st path), io_lpath := lpath\<rparr>) s2"
    using tarHeaderRead_reads[OF s1(2) w1 ok(1)] by blast
  have q: "reading (padding 512 (?q + 512) @ rest) (?q + 512) s2"
    using s2(2) padding_aligns[of 512 pos] by simp
  then obtain s3 where s3: "IOSM_POS s2 = ok (0, s3)" "same_files s2 s3"
      "reading rest (?q + 512 + length (padding 512 (?q + 512))) s3"
    using POS_padding[OF q] s2(3) s1(3) s(2,3) by (auto simp: same_files_def)
  moreover have "padding 512 (?q + 512) = []"
    using padding_aligns[of 512 pos] by simp
  moreover have "io_path s2 = Some (tar_path st path)"
    using s2(3) by (simp add: same_files_def)
  ultimately show ?thesis
    using s1(1,3) s2(1,3) ok(2) by (auto simp: IOSM_NEXT_def IOSM_HREAD_def same_files_def)
qed


section \<open>Long names\<close>

definition tar_long_block :: "nat \<Rightarrow> string" where
  "tar_long_block n =
     tar_block (tar_front llname 0 0 0 (n mod 2 ^ 32) 0) (tar_back CHR ''L'' [] ''root'' ''root'' [] [])"

lemma tar_long_writes:
  assumes "writing out pos (512 + (length path + (length (padding 512 (pos + 512 + length path)) + room))) s"
    and "blksize s = 512" "512 \<le> rdsize s" "length path \<le> rdsize s"
  shows "\<exists>s'. tar_long CHR ''L'' (length path) path k s = ok (IOSMERR_HDR_TRAILER, s') \<and>
     writing (out @ tar_long_block (length path) @ path @ padding 512 (pos + 512 + length path))
       (pos + 512 + length path + length (padding 512 (pos + 512 + length path))) room s'"
    (is "\<exists>s'. _ \<and> writing ?out ?pos room s'")
proof -
  obtain s1 where s1: "tarHeaderWriteBlock (tar_front llname 0 0 0 (length path mod 2 ^ 32) 0)
        (tar_back CHR ''L'' [] ''root'' ''root'' [] []) s = ok (512, s1)"
      "writing (out @ tar_long_block (length path)) (pos + 512)
        (length path + (length (padding 512 (pos + 512 + length path)) + room)) s1" "same_input s s1"
    using tarHeaderWriteBlock_writes[OF assms(1,3), of "tar_front llname 0 0 0 (length path mod 2 ^ 32) 0"
        "tar_back CHR ''L'' [] ''root'' ''root'' [] []"] by (auto simp: tar_long_block_def)
  then have r1: "length path \<le> rdsize s1"
    using assms(4) by (simp add: same_input_def)
  obtain s2 where s2: "io_write (Some path) (length path) s1 = ok (int (length path), s2)"
      "writing (out @ tar_long_block (length path) @ path) (pos + 512 + length path)
        (length (padding 512 (pos + 512 + length path)) + room) s2" "same_input s1 s2"
    using io_write_writing[OF s1(2) r1, of "Some path"] by auto
  obtain s3 where "IOSM_PAD s2 = ok (0, s3)" "writing ?out ?pos room s3" "same_input s2 s3"
    using PAD_padding[OF s2(2)] s2(3) s1(3) assms(2,3) by (auto simp: same_input_def)
  then show ?thesis
    using s1 s2 by (auto simp: tar_long_def IOSMRC_def tarHeaderWriteName_def tarWrite_def)
qed

lemma ReadName_overflow:
  assumes "reading (bs @ rest) pos s" "length bs = Suc len" "Suc len \<le> wrsize s" "Suc len < 2 ^ 64"
  shows "tarHeaderReadName len s = Inl BufferOverflow"
  using io_read_reading[OF assms(1), of False "[]"] assms(2-4)
  by (auto simp: tarHeaderReadName_def tarRead_def Let_def mod_less nat_add_distrib)

text \<open>What remains readable of a block whose name is long.\<close>

lemma tar_long_block_facts:
  assumes "n < 2 ^ 31"
  shows "length (tar_long_block n) = 512" "tar_long_block n ! 0 \<noteq> NUL" "tar_long_block n ! 156 = CHR ''L''"
    "tar_sum_ok (tar_long_block n)" "strncmp TAR_MAGIC (drop 257 (tar_long_block n)) 5 = 0"
    "tar_num (tar_long_block n) 124 12 = of_nat n"
proof -
  define front where "front = tar_front llname 0 0 0 n 0"
  define rear where "rear = tar_back CHR ''L'' [] ''root'' ''root'' [] []"
  define chk where "chk = tar_checksum front rear"
  have len: "length front = 148" "length rear = 356" "length chk = 8"
    by (simp_all add: front_def rear_def chk_def length_tar_checksum)
  have b: "tar_long_block n = front @ chk @ rear"
    using assms by (simp add: tar_long_block_def tar_block_def front_def rear_def chk_def)
  then have b2: "tar_long_block n = front @ chk @ rear @ []"
    by simp
  show "length (tar_long_block n) = 512"
    using len by (simp add: b)
  show "tar_long_block n ! 0 \<noteq> NUL"
    by (simp add: b front_def tar_front_def llname_def field_def)
  show "tar_long_block n ! 156 = CHR ''L''" "strncmp TAR_MAGIC (drop 257 (tar_long_block n)) 5 = 0"
    by (rule tar_back_type[OF len(1,3) b2[unfolded rear_def]])+
  show "tar_sum_ok (tar_long_block n)"
    using len by (simp add: tar_sum_ok_def b chk_def)
  show "tar_num (tar_long_block n) 124 12 = of_nat n"
    using tar_front_num(4)[OF _ _ _ _ _ b[unfolded front_def]] assms by simp
qed

section \<open>Properties\<close>


definition tar_buf :: string where
  "tar_buf = replicate 10240 NUL"

lemma length_tar_buf [simp]: "length tar_buf = 10240"
  unfolding tar_buf_def by (rule length_replicate)

definition tar_io :: "string \<Rightarrow> nat \<Rightarrow> iosm" where
  "tar_io inp room = (demo_io inp room)\<lparr>rdbuf := tar_buf, wrbuf := tar_buf, blksize := 512\<rparr>"

lemma tar_io_simps:
  "writing [] 0 room (tar_io inp room)" "reading inp 0 (tar_io inp room)" "blksize (tar_io inp room) = 512"
  "length (rdbuf (tar_io inp room)) = 10240" "length (wrbuf (tar_io inp room)) = 10240"
  "io_path (tar_io inp room) = None" "io_lpath (tar_io inp room) = None"
  by (simp_all add: tar_io_def demo_io_def writing_def reading_def)




text \<open>A file whose name is longer than 100 characters cannot be packed: the block that announces
  the name and the name are written, then the success of \<open>tarHeaderWriteName\<close>, 0, is taken for the
  end of the archive, and the header of the file is never written.\<close>

theorem tarHeaderWrite_long_name:
  assumes "writing out pos (512 + (length path + (length (padding 512 (pos + 512 + length path)) + room))) s"
    and "blksize s = 512" "512 \<le> rdsize s" "length path \<le> rdsize s" "io_path s = Some path" "100 < length path"
  shows "\<exists>s'. tarHeaderWrite uname gname st s = ok (IOSMERR_HDR_TRAILER, s') \<and>
    cfd_out s' = out @ tar_long_block (length path) @ path @ padding 512 (pos + 512 + length path)"
proof -
  obtain k where "tarHeaderWrite uname gname st s = tar_long CHR ''L'' (length path) path k s"
    using assms(5,6) by (simp add: tarHeaderWrite_def Let_def TAR_NAME_SIZE_def)
  then show ?thesis
    using tar_long_writes[OF assms(1-4), of k] unfolding writing_def by metis
qed

theorem tarHeaderWrite_long_name_witness:
  "\<exists>s'. tarHeaderWrite (\<lambda>_. None) (\<lambda>_. None) (demo_stat 0x81a4 5)
         ((tar_io [] 1024)\<lparr>io_path := Some (replicate 101 CHR ''a'')\<rparr>) = ok (IOSMERR_HDR_TRAILER, s') \<and>
     cfd_out s' = [] @ tar_long_block (length (replicate 101 CHR ''a'')) @ replicate 101 CHR ''a'' @
       padding 512 (0 + 512 + length (replicate 101 CHR ''a''))"
proof (rule tarHeaderWrite_long_name)
  show "writing [] 0 (512 + (length (replicate 101 CHR ''a'') +
      (length (padding 512 (0 + 512 + length (replicate 101 CHR ''a''))) + 0)))
      ((tar_io [] 1024)\<lparr>io_path := Some (replicate 101 CHR ''a'')\<rparr>)"
    by (simp add: writing_def tar_io_def demo_io_def length_padding)
qed (simp_all add: tar_io_simps)

text \<open>A long name cannot be read either: the buffer of \<open>tarHeaderReadName\<close> has one byte more than
  the name, all of it is read, and the byte behind it is overwritten.\<close>

theorem tarHeaderRead_long_name:
  assumes "reading (tar_long_block n @ data) pos s" "512 \<le> wrsize s" "n < wrsize s" "n < length data" "n < 2 ^ 31"
  shows "tarHeaderRead st0 s = Inl BufferOverflow"
proof -
  note f = tar_long_block_facts[OF assms(5)]
  obtain s1 where s1: "tar_next 0 s = ok (None, s1)" "reading data (pos + 512) s1" "same_files s s1"
      "take TAR_BLOCK_SIZE (wrbuf s1) = tar_long_block n"
    using tar_next_reads[OF assms(1) f(1) assms(2) f(2)] by blast
  have sz: "unat (scast (of_nat n :: 32 word) :: u64) = n"
  proof -
    have "(of_nat n :: 32 word) = ucast (of_nat n :: u64)" "unat (of_nat n :: u64) = n"
      using assms(5) by (simp_all add: unsigned_of_nat take_bit_nat_eq_self)
    then show ?thesis
      using scast_ucast_small[of "of_nat n"] assms(5) by simp
  qed
  have "reading (take (Suc n) data @ drop (Suc n) data) (pos + 512) (blank_checksum s1)" "Suc n \<le> wrsize (blank_checksum s1)"
    using s1(2,3) assms(2,3) by (simp_all add: reading_def blank_checksum_def same_files_def)
  then have "tarHeaderReadName n (blank_checksum s1) = Inl BufferOverflow"
    using ReadName_overflow[of "take (Suc n) data" "drop (Suc n) data"] assms(4,5) by simp
  then show ?thesis
    using s1(1,4) f sz by (subst tarHeaderRead.simps) (simp add: Let_def)
qed

theorem tarHeaderRead_long_name_witness:
  "tarHeaderRead (demo_stat 0 0) (tar_io (tar_long_block 101 @ replicate 512 CHR ''a'') 0) = Inl BufferOverflow"
  by (rule tarHeaderRead_long_name[of 101 "replicate 512 CHR ''a''" 0]) (simp_all add: tar_io_simps)

text \<open>A name of exactly 100 characters is packed, and comes back with the seven octal digits of the
  file's mode behind it: the field has no room for a NUL and the next one is read on.\<close>

theorem tar_name_of_100:
  assumes "reading (padding 512 pos @ tar_bytes uname gname p st path lpath @ rest) pos s" "blksize s = 512"
    and "512 \<le> wrsize s" "io_path s = None" "io_lpath s = None" "tar_ok st path lpath" "length path = 100"
  shows "\<exists>s'. IOSM_NEXT tarHeaderRead st0 s = ok (0, (tar_stat st0 st, s')) \<and>
    io_path s' = Some (path @ padded 8 7 (unat (st_mode st AND 0xfff)))"
proof -
  have "tar_path st path = path @ padded 8 7 (unat (st_mode st AND 0xfff))"
    using assms(7) by (simp add: tar_path_def)
  moreover have "length (tar_path st path) \<noteq> length CPIO_TRAILER"
    using calculation assms(7) by (simp add: CPIO_TRAILER_def)
  then have "tar_path st path \<noteq> CPIO_TRAILER"
    by metis
  ultimately show ?thesis
    using NEXT_tar_reads[OF assms(1-6)] by (fastforce simp: same_files_def)
qed

theorem tar_name_of_100_witness:
  "\<exists>s'. IOSM_NEXT tarHeaderRead (demo_stat 0 0)
         (tar_io (padding 512 0 @ tar_bytes (\<lambda>_. None) (\<lambda>_. None) 0 (demo_stat 0x81a4 5) (replicate 100 CHR ''a'') None @ []) 0) =
       ok (0, (tar_stat (demo_stat 0 0) (demo_stat 0x81a4 5), s')) \<and>
     io_path s' = Some (replicate 100 CHR ''a'' @ padded 8 7 (unat (st_mode (demo_stat 0x81a4 5) AND 0xfff)))"
proof (rule tar_name_of_100[of 0 "\<lambda>_. None" "\<lambda>_. None" 0 _ _ _ "[]"])
  have "tar_type_ok 0x81a4"
    by (simp add: S_IS_defs tar_type_ok_def)
  then show "tar_ok (demo_stat 0x81a4 5) (replicate 100 CHR ''a'') None"
    by (simp add: tar_ok_def demo_stat_def)
qed (simp_all add: tar_io_simps)

end
