(* ===== verification/Ar.thy ===== *)
theory Ar
  imports Iosm
begin

unbundle bit_operations_syntax

text \<open>
  Archives in the ar format, \<open>rpmio/ar.c\<close>: reading and writing headers, and the table of long member
  names, which \<open>arSetup\<close> of \<open>rpmio/iosm.c\<close> builds for the writer.

  A header has 60 bytes in seven fields, cleared to blanks and filled in order; \<open>sprintf\<close> runs over
  the end of a field into the next, which is stored after it, so that a field keeps its first
  characters (\<open>blank_field\<close>). \<open>lmtab\<close> is the memory of the table without its last NUL.
\<close>

definition AR_MAGIC :: string where "AR_MAGIC = ''!<arch>'' @ [CHR 0x0A]"
definition AR_MARKER :: string where "AR_MARKER = [CHR 0x60, CHR 0x0A]"
definition AR_HDR_SIZE :: nat where "AR_HDR_SIZE = 60"
definition AR_NAME_SIZE :: nat where "AR_NAME_SIZE = 16"

definition blank_field :: "nat \<Rightarrow> string \<Rightarrow> string" where
  "blank_field n t = take n (t @ replicate n CHR '' '')"

section \<open>The table of long names\<close>

definition arSetup :: "string list \<Rightarrow> iosm \<Rightarrow> iosm" where
  "arSetup names s =
     (let t = concat (map (\<lambda>bn. bn @ [CHR 0x0A]) (filter (\<lambda>bn. \<not> length bn < 15) names)) in
      if t = [] then s else s\<lparr>lmtab := Some t, lmtablen := length t, lmtaboff := 0\<rparr>)"

text \<open>The reader replaces each newline after the first byte, and a slash in front of it, by NULs.\<close>

fun ar_split :: "nat \<Rightarrow> nat \<Rightarrow> string \<Rightarrow> string outcome" where
  "ar_split 0 i t = ok t"
| "ar_split (Suc n) i t =
     andThen (slot (t @ [NUL]) (int i)) (\<lambda>c.
       if c \<noteq> CHR 0x0A then ar_split n (Suc i) t
       else let t = t[i := NUL] in ar_split n (Suc i) (if t ! (i - 1) = CHR ''/'' then t[i - 1 := NUL] else t))"

section \<open>Writing\<close>

definition arWrite :: "string option \<Rightarrow> nat \<Rightarrow> iosm \<Rightarrow> (int \<times> iosm) outcome" where
  "arWrite buf cnt s = io_write buf cnt s"

text \<open>The digits of \<open>"%-10d"\<close> for the length of the table, an \<open>int\<close> there.\<close>

definition ar_int :: "nat \<Rightarrow> string" where
  "ar_int n =
     (let v = sint (of_nat n :: 32 word) in
      if v < 0 then CHR ''-'' # base_digits 10 (nat (- v)) else base_digits 10 (nat v))"

definition ar_table_header :: "nat \<Rightarrow> string" where
  "ar_table_header n =
     blank_field 16 ''//'' @ replicate 32 CHR '' '' @ blank_field 10 (ar_int n) @ AR_MARKER"

definition ar_start :: "iosm \<Rightarrow> (iosm \<Rightarrow> (int \<times> iosm) outcome) \<Rightarrow> (int \<times> iosm) outcome" where
  "ar_start s k =
     (if cfd_pos s \<noteq> 0 then k s
      else andThen (arWrite (Some AR_MAGIC) (length AR_MAGIC) s) (\<lambda>(rc, s).
        IOSMRC rc s (
        case lmtab s of
          None \<Rightarrow> k s
        | Some t \<Rightarrow>
            andThen (put_rdbuf 0 (ar_table_header (lmtablen s)) s) (\<lambda>s.
            andThen (arWrite None AR_HDR_SIZE s) (\<lambda>(rc, s).
            IOSMRC rc s (
            andThen (guardC OutOfBounds (lmtablen s \<le> length t + 1) (arWrite (Some (t @ [NUL])) (lmtablen s) s)) (\<lambda>(rc, s).
            IOSMRC rc s (
            andThen (IOSM_PAD s) (\<lambda>(rc, s). if rc \<noteq> 0 then ok (rc, s) else k s)))))))))"

text \<open>The name in the header, and where the next long name is in the table.\<close>

definition ar_name :: "string \<Rightarrow> iosm \<Rightarrow> (string \<times> nat) outcome" where
  "ar_name path s =
     (if length path \<ge> AR_NAME_SIZE
      then (case lmtab s of
              None \<Rightarrow> Inl AssertFail
            | Some tab \<Rightarrow>
                guardC OutOfBounds (lmtaboff s \<le> length tab)
                 (let t = takeWhile (\<lambda>c. c \<noteq> NUL) (drop (lmtaboff s) tab) in
                  ok (blank_field 16 (CHR ''/'' # base_digits 10 (lmtaboff s mod 2 ^ 32)),
                      if CHR 0x0A \<in> set t then lmtaboff s + length (takeWhile (\<lambda>c. c \<noteq> CHR 0x0A) t) + 1
                      else lmtaboff s)))
      else ok (blank_field 16 (path @ ''/''), lmtaboff s))"

definition ar_fields :: "stat \<Rightarrow> string" where
  "ar_fields st =
     blank_field 12 (base_digits 10 (unat (ucast (st_mtime st AND 0x1ffffffff) :: u32))) @
     blank_field 6 (base_digits 10 (unat (st_uid st AND 0x1fffff))) @
     blank_field 6 (base_digits 10 (unat (st_gid st AND 0x1fffff))) @
     blank_field 8 (base_digits 8 (unat (st_mode st AND 0x1fffff))) @
     blank_field 10 (base_digits 10 (unat (ucast (st_size st AND 0x1ffffffff) :: u32))) @ AR_MARKER"

definition arHeaderWrite :: "stat \<Rightarrow> iosm \<Rightarrow> (int \<times> iosm) outcome" where
  "arHeaderWrite st s =
     (let path = (case io_path s of None \<Rightarrow> [] | Some t \<Rightarrow> t) in
      ar_start s (\<lambda>s.
      andThen (guardC BufferOverflow (AR_HDR_SIZE \<le> rdsize s) (ar_name path s)) (\<lambda>(name, off).
      andThen (put_rdbuf 0 (name @ ar_fields st) (s\<lparr>lmtaboff := off\<rparr>)) (\<lambda>s.
      andThen (arWrite None AR_HDR_SIZE s) (\<lambda>(rc, s).
      IOSMRC rc s (ok (0, s)))))))"

definition arTrailerWrite :: "iosm \<Rightarrow> (int \<times> iosm) outcome" where
  "arTrailerWrite s = IOSM_PAD s"

section \<open>Reading\<close>

definition ar_num :: "string \<Rightarrow> nat \<Rightarrow> nat \<Rightarrow> nat \<Rightarrow> 32 word" where
  "ar_num hdr off base n = fst (strntoul (drop off hdr) base n)"

text \<open>A short name: blanks at the end go, then a slash.\<close>

definition ar_short_name :: "string \<Rightarrow> string" where
  "ar_short_name hdr =
     (let t = rev (dropWhile (\<lambda>c. c = CHR '' '') (rev (take 16 hdr)));
          t = (if t \<noteq> [] \<and> last t = CHR ''/'' then butlast t else t) in
      takeWhile (\<lambda>c. c \<noteq> NUL) t)"

text \<open>A long name: a string of the table, from the offset on. The character behind the number is a blank.\<close>

definition ar_long_name :: "string \<Rightarrow> iosm \<Rightarrow> string option outcome" where
  "ar_long_name hdr s =
     (let (v, n) = strntoul (drop 1 hdr) 10 14; i = sint v in
      case lmtab s of
        None \<Rightarrow> ok (io_path s)
      | Some t \<Rightarrow>
          if hdr ! (1 + n) = CHR '' '' \<and> i < sint (of_nat (lmtablen s) :: 32 word)
          then guardC OutOfBounds (0 \<le> i \<and> nat i \<le> length t)
                 (ok (Some (takeWhile (\<lambda>c. c \<noteq> NUL) (drop (nat i) t))))
          else ok (io_path s))"

definition ar_read_name :: "string \<Rightarrow> iosm \<Rightarrow> string option outcome" where
  "ar_read_name hdr s =
     (if hdr ! 0 = CHR ''/''
      then if xisdigit (cval (hdr ! 1)) then ar_long_name hdr s else ok (io_path s)
      else if hdr ! 0 \<noteq> CHR '' '' then ok (Some (ar_short_name hdr)) else ok (io_path s))"

definition ar_stat :: "string \<Rightarrow> stat \<Rightarrow> stat" where
  "ar_stat hdr st =
     (let mtime = scast (ar_num hdr 16 10 12) in
      st\<lparr>st_mtime := mtime, st_atime := mtime, st_ctime := mtime, st_uid := ar_num hdr 28 10 6,
         st_gid := ar_num hdr 34 10 6, st_mode := ar_num hdr 40 8 8, st_nlink := 1\<rparr>)"

lemma POS_in: "IOSM_POS s = Inr (rc, s') \<Longrightarrow> length (cfd_in s') \<le> length (cfd_in s)"
  by (auto simp: IOSM_POS_def Let_def guardC_Inr_iff andThen_Inr_iff dest!: DREAD_in split: if_splits)

lemma io_read_le: "io_read eof cnt acc s = Inr ((rc, bs), s') \<Longrightarrow> length (cfd_in s') \<le> length (cfd_in s)"
proof (induction eof cnt acc s arbitrary: rule: io_read.induct)
  case (1 eof cnt acc s)
  show ?case
  proof (cases "cnt = 0")
    case True
    then show ?thesis
      using 1 by (simp add: io_read.simps)
  next
    case False
    then obtain rc1 s1 where d: "IOSM_DREAD (s\<lparr>wrlen := cnt\<rparr>) = Inr (rc1, s1)"
      using 1(2) by (subst (asm) io_read.simps) (auto simp: andThen_Inr_iff)
    have w: "wrlen s1 = cnt" "length (cfd_in s1) + rdnb s1 = length (cfd_in s)"
      using IOSM_DREAD_wrlen[OF d] DREAD_in[OF d] by simp_all
    have full: "rc1 \<noteq> IOSMERR_READ_FAILED \<Longrightarrow> rdnb s1 = cnt"
      using DREAD_full[OF d] w by simp
    show ?thesis
      using 1(2) d False w full
      by (subst (asm) io_read.simps)
         (auto simp: io_read.simps [of _ 0] IOSMERR_HDR_TRAILER_def IOSMERR_READ_FAILED_def Let_def split: if_splits)
  qed
qed

lemma arRead_in: "arRead n s = Inr (r, s') \<Longrightarrow> \<not> fst r \<le> 0 \<Longrightarrow> length (cfd_in s') < length (cfd_in s)"
  using io_read_in[of True n "[]" s "fst r" "snd r" s'] by (simp add: arRead_def)

lemma arRead_le: "arRead n s = Inr (r, s') \<Longrightarrow> length (cfd_in s') \<le> length (cfd_in s)"
  using io_read_le[of True n "[]" s "fst r" "snd r" s'] by (simp add: arRead_def)

text \<open>From the label \<open>top\<close> on.\<close>

function arHeaderRead_top :: "stat \<Rightarrow> iosm \<Rightarrow> (int \<times> (stat \<times> iosm)) outcome" where
  "arHeaderRead_top st s =
     andThen (IOSM_POS s) (\<lambda>(rc, s).
     if rc \<noteq> 0 then ok (rc, (st, s))
     else andThen (arRead AR_HDR_SIZE s) (\<lambda>(r, s).
     if fst r \<le> 0 then ok (if fst r \<noteq> 0 then - fst r else IOSMERR_HDR_TRAILER, (st, s))
     else let hdr = take AR_HDR_SIZE (wrbuf s) in
       if strncmp AR_MARKER (drop 58 hdr) 2 \<noteq> 0 then ok (IOSMERR_BAD_MAGIC, (st, s))
       else let st = st\<lparr>st_size := scast (ar_num hdr 48 10 10)\<rparr> in
         if hdr ! 0 = CHR ''/'' \<and> hdr ! 1 = CHR ''/'' \<and> hdr ! 2 = CHR '' ''
         then andThen (arRead (unat (st_size st)) s) (\<lambda>(r, s).
           if fst r \<le> 0 then ok (if fst r \<noteq> 0 then - fst r else IOSMERR_HDR_TRAILER, (st, s))
           else andThen (guardC BufferOverflow (nat (fst r) < wrsize s) (ok ())) (\<lambda>_.
             andThen (ar_split (nat (fst r) - 1) 1 (takeWhile (\<lambda>c. c \<noteq> NUL) (take (nat (fst r)) (wrbuf s)))) (\<lambda>t.
             arHeaderRead_top st
               (s\<lparr>wrbuf := (wrbuf s)[nat (fst r) := NUL], lmtab := Some t, lmtablen := nat (fst r), lmtaboff := 0\<rparr>))))
         else if hdr ! 0 = CHR ''/'' \<and> hdr ! 1 = CHR '' ''
         then andThen (arRead (unat (st_size st)) s) (\<lambda>(r, s).
           if fst r \<le> 0 then ok (if fst r \<noteq> 0 then - fst r else IOSMERR_HDR_TRAILER, (st, s))
           else arHeaderRead_top st s)
         else andThen (ar_read_name hdr s) (\<lambda>path. ok (0, (ar_stat hdr st, s\<lparr>io_path := path\<rparr>)))))"
  by pat_completeness auto

termination
  by (relation "measure (\<lambda>(_, s). length (cfd_in s))")
     (fastforce dest: POS_in arRead_in arRead_le)+

declare arHeaderRead_top.simps [simp del]

definition arHeaderRead :: "stat \<Rightarrow> iosm \<Rightarrow> (int \<times> (stat \<times> iosm)) outcome" where
  "arHeaderRead st s =
     (if cfd_pos s \<noteq> 0 then arHeaderRead_top st s
      else andThen (arRead (length AR_MAGIC) s) (\<lambda>((rc, _), s).
        IOSMRC rc (st, s) (
        if strncmp AR_MAGIC (take (length AR_MAGIC) (wrbuf s)) 8 \<noteq> 0 then ok (IOSMERR_BAD_MAGIC, (st, s))
        else arHeaderRead_top st s)))"

end
