(* ===== verification/ArThms.thy ===== *)
theory ArThms
  imports Ar Payload CpioProps
begin

unbundle bit_operations_syntax

text \<open>
  What the ar format guarantees: headers of files with short names come back as they were written,
  and the table of long names maps each header to its name, unless a name has exactly 15 characters.
\<close>

section \<open>Fields\<close>

lemma length_blank_field [simp]: "length (blank_field n t) = n"
  by (simp add: blank_field_def)

lemma blank_field_short: "length t \<le> n \<Longrightarrow> blank_field n t = t @ replicate (n - length t) CHR '' ''"
  by (simp add: blank_field_def)

lemma base_digits_nonempty [simp]: "base_digits b n \<noteq> []"
  by (subst base_digits.simps) simp

lemma ar_num_field:
  assumes "drop off hdr = blank_field n (base_digits b v) @ r" "v < b ^ n" "0 < n" "2 \<le> b" "b \<le> 16" "v < 2 ^ 64"
  shows "ar_num hdr off b n = of_nat v"
proof -
  have len: "length (base_digits b v) \<le> n"
    using length_base_digits assms by simp
  have "drop off hdr = base_digits b v @ replicate (n - length (base_digits b v)) CHR '' '' @ r"
    using assms(1) len by (simp add: blank_field_short)
  moreover have "\<forall>c\<in>set (base_digits b v). digit_of c < b"
    using base_digits_digits assms(4,5) by blast
  moreover have "n = length (base_digits b v) \<or> hd (replicate (n - length (base_digits b v)) CHR '' '' @ r) = CHR '' ''"
    using len by (cases "n - length (base_digits b v)") auto
  ultimately show ?thesis
    using strntoul_digits[of "base_digits b v" b n] len assms(4-6) base_val_digits[of b v] by (auto simp: ar_num_def)
qed

lemma length_ar_fields [simp]: "length (ar_fields st) = 44"
  by (simp add: ar_fields_def AR_MARKER_def)

section \<open>Names\<close>

definition ar_name_ok :: "string \<Rightarrow> bool" where
  "ar_name_ok p \<longleftrightarrow> p \<noteq> [] \<and> NUL \<notin> set p \<and> CHR 0x0A \<notin> set p \<and> hd p \<notin> {CHR ''/'', CHR '' ''} \<and> last p \<noteq> CHR ''/''"

lemma dropWhile_blanks: "dropWhile (\<lambda>c. c = CHR '' '') (replicate k CHR '' '' @ CHR ''/'' # t) = CHR ''/'' # t"
  by (induction k) simp_all

lemma ar_read_short:
  assumes "ar_name_ok p" "length p < 16"
  shows "ar_read_name (blank_field 16 (p @ ''/'') @ r) s = ok (Some p)"
proof -
  have f: "blank_field 16 (p @ ''/'') = p @ CHR ''/'' # replicate (15 - length p) CHR '' ''"
    using assms(2) by (simp add: blank_field_short)
  obtain c cs where p: "p = c # cs" "c \<noteq> CHR ''/''" "c \<noteq> CHR '' ''"
    using assms(1) by (cases p) (auto simp: ar_name_ok_def)
  have "rev (dropWhile (\<lambda>c. c = CHR '' '') (rev (blank_field 16 (p @ ''/'')))) = p @ ''/''"
    by (simp add: f dropWhile_blanks)
  moreover have "takeWhile (\<lambda>c. c \<noteq> NUL) p = p"
    using assms(1) by (auto simp: ar_name_ok_def takeWhile_eq_all_conv)
  ultimately have "ar_short_name (blank_field 16 (p @ ''/'') @ r) = p"
    by (simp add: ar_short_name_def Let_def)
  moreover have "(blank_field 16 (p @ ''/'') @ r) ! 0 = c"
    unfolding f by (simp add: p)
  ultimately show ?thesis
    using p by (simp add: ar_read_name_def)
qed

text \<open>A number behind a slash is looked up in the table.\<close>

lemma digit_char: "digit_of c < 10 \<Longrightarrow> xisdigit (cval c)"
  by (auto simp: digit_of_def Let_def split: if_splits)

lemma ar_read_long:
  assumes "off < 2 ^ 31" "lmtab s = Some t" "off < lmtablen s" "lmtablen s < 2 ^ 31" "off \<le> length t"
  shows "ar_read_name (blank_field 16 (CHR ''/'' # base_digits 10 off) @ r) s =
    ok (Some (takeWhile (\<lambda>c. c \<noteq> NUL) (drop off t)))"
proof -
  let ?d = "base_digits 10 off"
  have "off < 10 ^ 10"
    using assms(1) by simp
  then have len: "length ?d \<le> 10"
    using length_base_digits[of 10 off 10] by simp
  then have f: "blank_field 16 (CHR ''/'' # ?d) = CHR ''/'' # ?d @ CHR '' '' # replicate (14 - length ?d) CHR '' ''"
    by (simp add: blank_field_short Suc_diff_le flip: replicate_Suc)
  define h where "h = blank_field 16 (CHR ''/'' # ?d) @ r"
  have dig: "\<forall>c\<in>set ?d. digit_of c < 10"
    using base_digits_digits[of 10] by simp
  have n: "strntoul (drop 1 h) 10 14 = (of_nat off, length ?d)"
    using strntoul_digits[of ?d 10 14 "CHR '' '' # replicate (14 - length ?d) CHR '' '' @ r"] dig len assms(1)
      base_val_digits[of 10 off] by (simp add: h_def f)
  have "h ! (1 + length ?d) = CHR '' ''" "h ! 0 = CHR ''/''" "xisdigit (cval (h ! 1))"
    using dig digit_char[of "hd ?d"] by (simp_all add: h_def f nth_append hd_conv_nth)
  moreover have "sint (of_nat off :: 32 word) = int off" "sint (of_nat (lmtablen s) :: 32 word) = int (lmtablen s)"
    using assms(1,4) by (simp_all add: signed_of_nat signed_take_bit_int_eq_self)
  ultimately have "ar_read_name h s = ok (Some (takeWhile (\<lambda>c. c \<noteq> NUL) (drop off t)))"
    using n assms by (simp add: ar_read_name_def ar_long_name_def)
  then show ?thesis
    by (simp add: h_def)
qed

section \<open>The table of long names\<close>

definition name_table :: "string list \<Rightarrow> string" where
  "name_table names = concat (map (\<lambda>bn. bn @ [CHR 0x0A]) names)"

definition split_table :: "string list \<Rightarrow> string" where
  "split_table names = concat (map (\<lambda>bn. bn @ [NUL]) names)"

lemma table_simps [simp]:
  "name_table [] = []" "name_table (n # ns) = n @ CHR 0x0A # name_table ns"
  "name_table (ms @ ns) = name_table ms @ name_table ns"
  "split_table [] = []" "split_table (n # ns) = n @ NUL # split_table ns"
  "split_table (ms @ ns) = split_table ms @ split_table ns"
  by (simp_all add: name_table_def split_table_def)

lemma length_split_table: "length (split_table names) = length (name_table names)"
  by (induction names) simp_all

lemma ar_split_skip:
  "CHR 0x0A \<notin> set xs \<Longrightarrow>
   ar_split (length xs + m) (length pre) (pre @ xs @ rest) = ar_split m (length pre + length xs) (pre @ xs @ rest)"
proof (induction xs arbitrary: pre)
  case (Cons x xs)
  have "(pre @ x # xs @ rest @ [NUL]) ! length pre = x" "x \<noteq> CHR 0x0A"
    using Cons(2) by (auto simp: nth_append)
  then show ?case
    using Cons(1)[of "pre @ [x]"] Cons(2) by simp
qed simp

lemma ar_split_names:
  "\<forall>n\<in>set names. ar_name_ok n \<Longrightarrow>
   ar_split (length (name_table names)) (length pre) (pre @ name_table names) = ok (pre @ split_table names)"
proof (induction names arbitrary: pre)
  case (Cons n ns)
  let ?q = "length pre + length n"
  have n: "CHR 0x0A \<notin> set n" "n \<noteq> []" "last n \<noteq> CHR ''/''"
    using Cons.prems by (auto simp: ar_name_ok_def)
  let ?t = "pre @ n @ CHR 0x0A # name_table ns"
  have at: "slot (?t @ [NUL]) (int ?q) = ok (CHR 0x0A)" "?t[?q := NUL] = pre @ n @ NUL # name_table ns"
    "(pre @ n @ NUL # name_table ns) ! (?q - 1) = last n"
    using n(2) by (cases n rule: rev_cases; simp only: slot_nat; simp add: nth_append list_update_append)+
  have "ar_split (length (name_table (n # ns))) (length pre) (pre @ name_table (n # ns)) =
      ar_split (Suc (length (name_table ns))) ?q ?t"
    using ar_split_skip[OF n(1), of "Suc (length (name_table ns))" pre "CHR 0x0A # name_table ns"] by (simp add: add.assoc)
  also have "\<dots> = ar_split (length (name_table ns)) (Suc ?q) (pre @ n @ NUL # name_table ns)"
    unfolding ar_split.simps(2) at(1) andThen_simps using at(2,3) n by (simp add: Let_def)
  also have "\<dots> = ok (pre @ split_table (n # ns))"
    using Cons.IH[of "pre @ n @ [NUL]"] Cons.prems by simp
  finally show ?case .
qed simp

text \<open>The reader starts behind the first character.\<close>

lemma ar_split_table:
  assumes "\<forall>n\<in>set names. ar_name_ok n" "names \<noteq> []"
  shows "ar_split (length (name_table names) - 1) 1 (name_table names) = ok (split_table names)"
proof -
  obtain c cs where c: "name_table names = c # cs" "c \<noteq> CHR 0x0A"
    using assms by (cases names; cases "hd names") (auto simp: ar_name_ok_def)
  have "ar_split (Suc (length cs)) 0 (c # cs) = ar_split (length cs) 1 (c # cs)"
    using c(2) by (subst ar_split.simps) (simp add: slot_def)
  then show ?thesis
    using ar_split_names[OF assms(1), of "[]"] by (simp add: c)
qed

lemma table_lookup:
  assumes "NUL \<notin> set n"
  shows "takeWhile (\<lambda>c. c \<noteq> NUL) (drop (length (name_table pre)) (split_table (pre @ n # post))) = n"
  using assms by (auto simp: takeWhile_append simp flip: length_split_table)

section \<open>A sequence of headers\<close>

text \<open>The names in the headers of a list of files, as the writer goes through its table.\<close>

fun ar_names :: "string list \<Rightarrow> iosm \<Rightarrow> string list outcome" where
  "ar_names [] s = ok []"
| "ar_names (n # ns) s =
     andThen (ar_name n s) (\<lambda>(f, off). andThen (ar_names ns (s\<lparr>lmtaboff := off\<rparr>)) (\<lambda>fs. ok (f # fs)))"

text \<open>A reader that has the table in front of it finds the name.\<close>

definition reads_name :: "string list \<Rightarrow> string \<Rightarrow> string \<Rightarrow> bool" where
  "reads_name longs f n \<longleftrightarrow>
     (\<forall>rest r. lmtab r = Some (split_table longs) \<and> lmtablen r = length (name_table longs) \<longrightarrow>
        ar_read_name (f @ rest) r = ok (Some n))"

lemma no_nul_table: "\<forall>n\<in>set names. ar_name_ok n \<Longrightarrow> NUL \<notin> set (name_table names)"
  by (induction names) (auto simp: ar_name_ok_def)

lemma ar_name_next:
  assumes "lmtab s = Some (name_table (pre @ m # post))" "lmtaboff s = length (name_table pre)" "16 \<le> length n"
    and ok: "\<forall>k\<in>set (pre @ m # post). ar_name_ok k" and small: "length (name_table (pre @ m # post)) < 2 ^ 31"
  shows "\<exists>f. ar_name n s = ok (f, length (name_table (pre @ [m]))) \<and> reads_name (pre @ m # post) f m"
proof -
  let ?o = "length (name_table pre)"
  have t: "takeWhile (\<lambda>c. c \<noteq> NUL) (drop ?o (name_table (pre @ m # post))) = m @ CHR 0x0A # name_table post"
    using no_nul_table[of "m # post"] ok by (simp add: takeWhile_eq_all_conv) auto
  have tp: "takeWhile (\<lambda>c. c \<noteq> NUL) (name_table post) = name_table post"
    using no_nul_table[of post] ok by (auto simp: takeWhile_eq_all_conv)
  have "CHR 0x0A \<notin> set m"
    using ok by (auto simp: ar_name_ok_def)
  then have "takeWhile (\<lambda>c. c \<noteq> CHR 0x0A) (m @ CHR 0x0A # name_table post) = m"
    by (subst takeWhile_append2) auto
  then have "ar_name n s = ok (blank_field 16 (CHR ''/'' # base_digits 10 ?o), length (name_table (pre @ [m])))"
    using assms(1-3) small by (simp add: ar_name_def AR_NAME_SIZE_def t [simplified] tp Let_def)
  moreover have "reads_name (pre @ m # post) (blank_field 16 (CHR ''/'' # base_digits 10 ?o)) m"
    using ar_read_long[of ?o] small table_lookup[of m pre post] ok
    by (auto simp: reads_name_def ar_name_ok_def length_split_table)
  ultimately show ?thesis by blast
qed

lemma ar_names_read:
  "\<forall>n\<in>set (pre @ names). ar_name_ok n \<Longrightarrow> lmtab s = Some (name_table (pre @ filter (\<lambda>n. 16 \<le> length n) names)) \<Longrightarrow>
   lmtaboff s = length (name_table pre) \<Longrightarrow>
   length (name_table (pre @ filter (\<lambda>n. 16 \<le> length n) names)) < 2 ^ 31 \<Longrightarrow>
   \<exists>fs. ar_names names s = ok fs \<and> list_all2 (reads_name (pre @ filter (\<lambda>n. 16 \<le> length n) names)) fs names"
proof (induction names arbitrary: pre s)
  case (Cons n ns)
  show ?case
  proof (cases "16 \<le> length n")
    case True
    let ?l = "filter (\<lambda>n. 16 \<le> length n) ns"
    have l: "filter (\<lambda>n. 16 \<le> length n) (n # ns) = n # ?l"
      using True by simp
    obtain f where f: "ar_name n s = ok (f, length (name_table (pre @ [n])))" "reads_name (pre @ n # ?l) f n"
      using ar_name_next[of s pre n ?l n] Cons.prems True unfolding l by auto
    obtain fs where "ar_names ns (s\<lparr>lmtaboff := length (name_table (pre @ [n]))\<rparr>) = ok fs"
        "list_all2 (reads_name ((pre @ [n]) @ ?l)) fs ns"
      using Cons.IH[of "pre @ [n]" "s\<lparr>lmtaboff := length (name_table (pre @ [n]))\<rparr>"] Cons.prems unfolding l by auto
    then show ?thesis
      using f True by (simp add: l)
  next
    case False
    have "reads_name longs (blank_field 16 (n @ ''/'')) n" for longs
      using ar_read_short[of n] Cons.prems(1) False by (simp add: reads_name_def)
    moreover have "ar_name n s = ok (blank_field 16 (n @ ''/''), lmtaboff s)"
      using False by (simp add: ar_name_def AR_NAME_SIZE_def)
    moreover have "s\<lparr>lmtaboff := length (name_table pre)\<rparr> = s"
      using Cons.prems(3) by (cases s) simp
    then have "ar_names ns (s\<lparr>lmtaboff := length (name_table pre)\<rparr>) = ar_names ns s"
      by (rule arg_cong)
    ultimately show ?thesis
      using Cons.IH[of pre s] Cons.prems False by auto
  qed
qed simp

lemma arSetup_table:
  assumes "lmtab s = None" "lmtab (arSetup names s) = Some tab"
  shows "tab = name_table (filter (\<lambda>n. 15 \<le> length n) names)" "tab \<noteq> []" "lmtaboff (arSetup names s) = 0"
    "lmtablen (arSetup names s) = length tab"
  using assms by (auto simp: arSetup_def name_table_def Let_def not_less split: if_splits)

section \<open>A header with a short name\<close>

definition ar_ok :: "stat \<Rightarrow> bool" where
  "ar_ok st \<longleftrightarrow> unat (st_mtime st) < 2 ^ 31 \<and> unat (st_uid st) < 10 ^ 6 \<and> unat (st_gid st) < 10 ^ 6 \<and>
     unat (st_mode st) < 2 ^ 21 \<and> unat (st_size st) < 2 ^ 31"

definition ar_rstat :: "stat \<Rightarrow> stat \<Rightarrow> stat" where
  "ar_rstat st0 st = st0\<lparr>st_size := st_size st, st_mtime := st_mtime st, st_atime := st_mtime st,
     st_ctime := st_mtime st, st_uid := st_uid st, st_gid := st_gid st, st_mode := st_mode st, st_nlink := 1\<rparr>"

definition ar_bytes :: "stat \<Rightarrow> string \<Rightarrow> string" where
  "ar_bytes st path = blank_field 16 (path @ ''/'') @ ar_fields st"

lemma length_ar_bytes [simp]: "length (ar_bytes st path) = 60"
  by (simp add: ar_bytes_def)

lemma ar_masks: "(0x1fffff :: u32) = mask 21" "(0x1ffffffff :: u64) = mask 33"
  by (simp_all add: mask_eq_exp_minus_1)

lemma and_mask_id:
  fixes v :: "'a::len word"
  assumes "unat v < 2 ^ k"
  shows "v AND mask k = v"
  by (rule bit_word_eqI) (use bit_below[OF assms] in \<open>auto simp: bit_simps\<close>)

lemma ar_big_field:
  assumes "unat (v :: u64) < 2 ^ 31"
  shows "unat (ucast (v AND 0x1ffffffff) :: u32) = unat v" "scast (of_nat (unat v) :: 32 word) = v"
proof -
  have "v AND 0x1ffffffff = v"
    using and_mask_id[of v 33] assms unfolding ar_masks by simp
  then show "unat (ucast (v AND 0x1ffffffff) :: u32) = unat v"
    using assms by (simp add: unsigned_ucast_eq take_bit_nat_eq_self)
  show "scast (of_nat (unat v) :: 32 word) = v"
    using scast_ucast_small[OF assms] by simp
qed

lemma ar_bytes_read:
  assumes "ar_ok st"
  shows "ar_stat (ar_bytes st path) (st0\<lparr>st_size := scast (ar_num (ar_bytes st path) 48 10 10)\<rparr>) = ar_rstat st0 st"
    "strncmp AR_MARKER (drop 58 (ar_bytes st path)) 2 = 0"
proof -
  let ?h = "ar_bytes st path"
  have id: "st_uid st AND 0x1fffff = st_uid st" "st_gid st AND 0x1fffff = st_gid st" "st_mode st AND 0x1fffff = st_mode st"
    using assms and_mask_id[of "st_uid st" 21] and_mask_id[of "st_gid st" 21] and_mask_id[of "st_mode st" 21]
    unfolding ar_masks by (simp_all add: ar_ok_def)
  have b: "unat (ucast (st_mtime st AND 0x1ffffffff) :: u32) = unat (st_mtime st)" "scast (of_nat (unat (st_mtime st)) :: 32 word) = st_mtime st"
    "unat (ucast (st_size st AND 0x1ffffffff) :: u32) = unat (st_size st)" "scast (of_nat (unat (st_size st)) :: 32 word) = st_size st"
    using assms ar_big_field[of "st_mtime st"] ar_big_field[of "st_size st"] by (simp_all add: ar_ok_def)
  have h: "?h = blank_field 16 (path @ ''/'') @ blank_field 12 (base_digits 10 (unat (st_mtime st))) @
      blank_field 6 (base_digits 10 (unat (st_uid st))) @ blank_field 6 (base_digits 10 (unat (st_gid st))) @
      blank_field 8 (base_digits 8 (unat (st_mode st))) @ blank_field 10 (base_digits 10 (unat (st_size st))) @ AR_MARKER"
    unfolding ar_bytes_def ar_fields_def id b ..
  have "ar_num ?h 16 10 12 = of_nat (unat (st_mtime st))" "ar_num ?h 28 10 6 = of_nat (unat (st_uid st))"
    "ar_num ?h 34 10 6 = of_nat (unat (st_gid st))" "ar_num ?h 40 8 8 = of_nat (unat (st_mode st))"
    "ar_num ?h 48 10 10 = of_nat (unat (st_size st))"
    by (rule ar_num_field; use assms in \<open>simp add: h ar_ok_def\<close>)+
  then show "ar_stat ?h (st0\<lparr>st_size := scast (ar_num ?h 48 10 10)\<rparr>) = ar_rstat st0 st"
    using b(2,4) by (simp add: ar_stat_def ar_rstat_def Let_def)
  have "drop 58 ?h = AR_MARKER"
    unfolding h by simp
  then show "strncmp AR_MARKER (drop 58 ?h) 2 = 0"
    by (simp add: strncmp_take)
qed

lemma arHeaderRead_reads:
  assumes "reading (ar_bytes st path @ rest) pos s" "pos \<noteq> 0" "pos mod 2 = 0" "blksize s = 2" "60 \<le> wrsize s"
    and ok: "ar_ok st" "ar_name_ok path" "length path < 16"
  shows "\<exists>s'. arHeaderRead st0 s = ok (0, (ar_rstat st0 st, s')) \<and> io_path s' = Some path"
proof -
  let ?h = "ar_bytes st path"
  have "IOSM_POS s = ok (0, s)" "cfd_pos s \<noteq> 0"
    using assms(1-4) by (simp_all add: IOSM_POS_def block_left_def reading_def)
  moreover have "?h \<noteq> []"
    by (metis length_ar_bytes list.size(3) zero_neq_numeral)
  then obtain s1 where "arRead AR_HDR_SIZE s = ok ((60, ?h), s1)" "take AR_HDR_SIZE (wrbuf s1) = ?h"
    using io_read_reading[OF assms(1), of True "[]"] assms(5) by (auto simp: arRead_def AR_HDR_SIZE_def)
  moreover have "ar_read_name ?h s1 = ok (Some path)"
    unfolding ar_bytes_def by (rule ar_read_short[OF ok(2,3)])
  moreover have "?h ! 0 \<noteq> CHR ''/''"
    using ok(2,3) by (cases path) (auto simp: ar_bytes_def ar_name_ok_def blank_field_def nth_append)
  ultimately show ?thesis
    using ar_bytes_read(1)[OF ok(1), of path st0] ar_bytes_read(2)[OF ok(1), of path]
    by (subst arHeaderRead_def, subst arHeaderRead_top.simps) (simp add: Let_def)
qed

lemma arHeaderWrite_writes:
  assumes "writing out pos (60 + room) s" "pos \<noteq> 0" "60 \<le> rdsize s" "io_path s = Some path" "length path < 16"
  shows "\<exists>s'. arHeaderWrite st s = ok (0, s') \<and> cfd_out s' = out @ ar_bytes st path"
proof -
  let ?h = "ar_bytes st path"
  define s1 where "s1 = s\<lparr>rdbuf := ?h @ drop 60 (rdbuf s)\<rparr>"
  have "put_rdbuf 0 ?h (s\<lparr>lmtaboff := lmtaboff s\<rparr>) = ok s1"
    using assms(3) by (simp add: put_rdbuf_ok s1_def)
  moreover have "ar_name path s = ok (blank_field 16 (path @ ''/''), lmtaboff s)"
    using assms(5) by (simp add: ar_name_def AR_NAME_SIZE_def)
  moreover have "cfd_pos s \<noteq> 0"
    using assms(1,2) by (simp add: writing_def)
  moreover have "writing out pos (length ?h + room) s1" "length ?h \<le> rdsize s1" "take (length ?h) (rdbuf s1) = ?h"
    using assms(1,3) by (simp_all add: s1_def writing_def)
  then obtain s2 where "io_write None (length ?h) s1 = ok (int (length ?h), s2)" "cfd_out s2 = out @ ?h"
    using io_write_writing[of out pos ?h room s1 None] by (auto simp: writing_def)
  ultimately show ?thesis
    using assms(3,4)
    by (simp add: arHeaderWrite_def ar_start_def arWrite_def AR_HDR_SIZE_def ar_bytes_def IOSMRC_def)
qed

section \<open>Properties\<close>

text \<open>C39: A header with a short name is read back as it was written: name, owner, mode, time and size,
  for numbers that fit their fields.\<close>

theorem ar_header_roundtrip:
  assumes "writing out pos (60 + room) s" "pos \<noteq> 0" "60 \<le> rdsize s" "io_path s = Some path"
    and "ar_ok st" "ar_name_ok path" "length path < 16"
    and "reading (h @ rest) p r" "p \<noteq> 0" "p mod 2 = 0" "blksize r = 2" "60 \<le> wrsize r"
  shows "\<exists>s'. arHeaderWrite st s = ok (0, s') \<and>
    (cfd_out s' = out @ h \<longrightarrow>
       (\<exists>r'. arHeaderRead st0 r = ok (0, (ar_rstat st0 st, r')) \<and> io_path r' = Some path))"
proof -
  obtain s' where "arHeaderWrite st s = ok (0, s')" "cfd_out s' = out @ ar_bytes st path"
    using arHeaderWrite_writes[OF assms(1-4,7)] by blast
  moreover have "\<exists>r'. arHeaderRead st0 r = ok (0, (ar_rstat st0 st, r')) \<and> io_path r' = Some path"
    if "h = ar_bytes st path"
    using arHeaderRead_reads[of st path rest p r st0] assms(5-12) that by simp
  ultimately show ?thesis
    by auto
qed

definition ar_io :: "string \<Rightarrow> nat \<Rightarrow> iosm" where
  "ar_io inp room = (demo_io inp room)\<lparr>cfd_pos := 8, blksize := 2\<rparr>"

lemma ar_io_simps:
  "writing [] 8 room (ar_io inp room)" "reading inp 8 (ar_io inp room)" "blksize (ar_io inp room) = 2"
  "length (rdbuf (ar_io inp room)) = 200" "length (wrbuf (ar_io inp room)) = 200" "lmtab (ar_io inp room) = None"
  by (simp_all add: ar_io_def demo_io_def writing_def reading_def)

theorem ar_header_roundtrip_witness:
  "\<exists>s'. arHeaderWrite (demo_stat 0x81a4 5) ((ar_io [] 60)\<lparr>io_path := Some ''abc''\<rparr>) = ok (0, s') \<and>
    (cfd_out s' = [] @ ar_bytes (demo_stat 0x81a4 5) ''abc'' \<longrightarrow>
       (\<exists>r'. arHeaderRead (demo_stat 0 0) (ar_io (ar_bytes (demo_stat 0x81a4 5) ''abc'' @ []) 0) =
          ok (0, (ar_rstat (demo_stat 0 0) (demo_stat 0x81a4 5), r')) \<and> io_path r' = Some ''abc''))"
proof (rule ar_header_roundtrip)
  show "writing [] 8 (60 + 0) ((ar_io [] 60)\<lparr>io_path := Some ''abc''\<rparr>)"
    by (simp add: ar_io_def demo_io_def writing_def)
  show "reading (ar_bytes (demo_stat 0x81a4 5) ''abc'' @ []) 8 (ar_io (ar_bytes (demo_stat 0x81a4 5) ''abc'' @ []) 0)"
    by (rule ar_io_simps)
qed (simp_all add: ar_io_simps ar_ok_def ar_name_ok_def demo_stat_def)

text \<open>C13: The long names of an ar archive: where no name has exactly 15 characters, is empty,
  starts with a slash or blank, ends with a slash or has a newline, the headers written for the files
  one after the other and the table that \<open>arSetup\<close> makes from their names give, when they
  are read, each file its name.\<close>

theorem ar_long_names:
  assumes "lmtab s = None" "lmtab (arSetup names s) = Some tab" "length tab < 2 ^ 31"
    and "\<forall>n\<in>set names. ar_name_ok n \<and> length n \<noteq> 15"
  shows "\<exists>tab' fs. ar_split (length tab - 1) 1 tab = ok tab' \<and> ar_names names (arSetup names s) = ok fs \<and>
    list_all2 (\<lambda>f n. \<forall>rest r. lmtab r = Some tab' \<and> lmtablen r = length tab \<longrightarrow>
      ar_read_name (f @ rest) r = ok (Some n)) fs names"
proof -
  define longs where "longs = filter (\<lambda>n. 15 \<le> length n) names"
  have l: "longs = filter (\<lambda>n. 16 \<le> length n) names"
    unfolding longs_def using assms(4) by (intro filter_cong) (auto simp: le_eq_less_or_eq)
  note tab = arSetup_table[OF assms(1,2), folded longs_def]
  have "longs \<noteq> []" "\<forall>n\<in>set longs. ar_name_ok n"
    using tab(1,2) assms(4) by (auto simp: longs_def)
  then have "ar_split (length tab - 1) 1 tab = ok (split_table longs)"
    unfolding tab(1) by (rule ar_split_table [rotated])
  moreover obtain fs where "ar_names names (arSetup names s) = ok fs" "list_all2 (reads_name longs) fs names"
    using ar_names_read[of "[]" names "arSetup names s"] assms(2,3,4) tab unfolding l [symmetric] by auto
  ultimately show ?thesis
    using tab(1) unfolding reads_name_def by blast
qed

definition ar_demo_names :: "string list" where
  "ar_demo_names = [''short'', ''a-name-of-twenty-one'', ''b'', ''another-long-one.txt'']"

theorem ar_long_names_witness:
  "\<exists>tab' fs. ar_split (length (name_table [''a-name-of-twenty-one'', ''another-long-one.txt'']) - 1) 1
        (name_table [''a-name-of-twenty-one'', ''another-long-one.txt'']) = ok tab' \<and>
    ar_names ar_demo_names (arSetup ar_demo_names (ar_io [] 0)) = ok fs \<and>
    list_all2 (\<lambda>f n. \<forall>rest r. lmtab r = Some tab' \<and>
        lmtablen r = length (name_table [''a-name-of-twenty-one'', ''another-long-one.txt'']) \<longrightarrow>
      ar_read_name (f @ rest) r = ok (Some n)) fs ar_demo_names"
proof (rule ar_long_names)
  show "lmtab (ar_io [] 0) = None"
    by (rule ar_io_simps)
  show "lmtab (arSetup ar_demo_names (ar_io [] 0)) = Some (name_table [''a-name-of-twenty-one'', ''another-long-one.txt''])"
    by (simp add: arSetup_def ar_demo_names_def name_table_def)
qed (simp_all add: ar_demo_names_def ar_name_ok_def)

text \<open>A name of exactly 15 characters is in the table but has a short header, so that the next long
  name is written with the place of the former: it is read back as the name of the other file.\<close>

theorem ar_name_of_15:
  assumes "lmtab s = None" "length a = 15" "16 \<le> length b" "ar_name_ok a" "ar_name_ok b" "length b < 2 ^ 30"
  shows "\<exists>tab tab' fa fb. lmtab (arSetup [a, b] s) = Some tab \<and> ar_split (length tab - 1) 1 tab = ok tab' \<and>
    ar_names [a, b] (arSetup [a, b] s) = ok [fa, fb] \<and>
    (\<forall>rest r. lmtab r = Some tab' \<and> lmtablen r = length tab \<longrightarrow> ar_read_name (fb @ rest) r = ok (Some a))"
proof -
  let ?s = "arSetup [a, b] s" and ?tab = "name_table [a, b]"
  have s: "lmtab ?s = Some ?tab" "lmtaboff ?s = 0"
    using assms(2,3) by (simp_all add: arSetup_def name_table_def)
  have "ar_split (length ?tab - 1) 1 ?tab = ok (split_table [a, b])"
    using assms(4,5) by (intro ar_split_table) auto
  moreover obtain fb where "ar_name b ?s = ok (fb, length (name_table [a]))" "reads_name [a, b] fb a"
    using ar_name_next[of ?s "[]" a "[b]" b] s assms by auto
  moreover have "ar_name a ?s = ok (blank_field 16 (a @ ''/''), lmtaboff ?s)"
    using assms(2) by (simp add: ar_name_def AR_NAME_SIZE_def)
  moreover have "ar_names [b] (?s\<lparr>lmtaboff := lmtaboff ?s\<rparr>) = ar_names [b] ?s"
    by simp
  ultimately show ?thesis
    using s(1) by (auto simp: reads_name_def)
qed

theorem ar_name_of_15_witness:
  "\<exists>tab tab' fa fb. lmtab (arSetup [''fifteen-chars.c'', ''another-long-one.txt''] (ar_io [] 0)) = Some tab \<and>
    ar_split (length tab - 1) 1 tab = ok tab' \<and>
    ar_names [''fifteen-chars.c'', ''another-long-one.txt'']
      (arSetup [''fifteen-chars.c'', ''another-long-one.txt''] (ar_io [] 0)) = ok [fa, fb] \<and>
    (\<forall>rest r. lmtab r = Some tab' \<and> lmtablen r = length tab \<longrightarrow>
       ar_read_name (fb @ rest) r = ok (Some ''fifteen-chars.c''))"
  by (rule ar_name_of_15) (simp_all add: ar_io_simps ar_name_ok_def)

text \<open>C57: The end of an ar archive is an error: the branch of \<open>arRead\<close> for it is never taken, since
  \<open>IOSM_DREAD\<close> has set a code for the read that found nothing.\<close>

theorem ar_no_end:
  assumes "reading [] pos s" "pos \<noteq> 0" "pos mod 2 = 0" "blksize s = 2"
  shows "\<exists>s'. arHeaderRead st s = ok (IOSMERR_READ_FAILED, (st, s'))"
proof -
  have "IOSM_POS s = ok (0, s)"
    using assms by (simp add: IOSM_POS_def block_left_def reading_def)
  moreover have "\<exists>bs s'. arRead AR_HDR_SIZE s = ok ((- IOSMERR_READ_FAILED, bs), s')"
    using assms(1) by (subst arRead_def, subst io_read.simps)
      (simp add: IOSM_DREAD_def Fread_def reading_def AR_HDR_SIZE_def IOSMERR_READ_FAILED_def Let_def)
  moreover have "cfd_pos s \<noteq> 0"
    using assms by (simp add: reading_def)
  ultimately show ?thesis
    by (subst arHeaderRead_def, subst arHeaderRead_top.simps) (auto simp: IOSMERR_READ_FAILED_def)
qed

theorem ar_no_end_witness:
  "\<exists>s'. arHeaderRead (demo_stat 0 0) (ar_io [] 0) = ok (IOSMERR_READ_FAILED, (demo_stat 0 0, s'))"
  by (rule ar_no_end) (rule ar_io_simps | simp)+

end
