(* ===== verification/MacroTable.thy ===== *)
theory MacroTable
  imports Cmp
begin

text \<open>
  The macro tables of \<open>rpmio/macro.c\<close>: a sorted array of slots, each holding the stack of
  the definitions of one name, searched with \<open>bsearch\<close> and re-sorted when a name comes or
  goes.

  A slot is the chain of the entries linked by \<open>prev\<close>, the newest first; the null pointer is
  the empty chain. The empty table pointer is the empty array. The messages to \<open>rpmlog\<close> are
  not part of the model. The cells of a grown array that its \<open>memset\<close> does not reach are
  taken as null too; the table only grows when it is full, so there are none.
\<close>

section \<open>The table\<close>

record MacroEntry =
  me_name :: string
  me_opts :: "string option"
  me_body :: string
  me_used :: int
  me_level :: int
  me_flags :: bool

record MacroContext =
  macroTable :: "MacroEntry list list"
  macrosAllocated :: nat
  firstFree :: nat

definition MACRO_CHUNK_SIZE :: nat where
  "MACRO_CHUNK_SIZE = 16"

text \<open>The level is stored in a \<open>short\<close>.\<close>

definition to_short :: "int \<Rightarrow> int" where
  "to_short l = sint (word_of_int l :: u16)"

fun compareMacroName :: "MacroEntry list \<Rightarrow> MacroEntry list \<Rightarrow> int" where
  "compareMacroName [] [] = 0"
| "compareMacroName [] (b # bs) = 1"
| "compareMacroName (a # as) [] = -1"
| "compareMacroName (a # as) (b # bs) = strcmp (me_name a) (me_name b)"

definition expandMacroTable :: "MacroContext \<Rightarrow> MacroContext" where
  "expandMacroTable mc =
     (if macroTable mc = [] then
        \<lparr> macroTable = replicate MACRO_CHUNK_SIZE [], macrosAllocated = MACRO_CHUNK_SIZE, firstFree = 0 \<rparr>
      else
        let t = macroTable mc @ replicate MACRO_CHUNK_SIZE [] in
        mc\<lparr> macrosAllocated := macrosAllocated mc + MACRO_CHUNK_SIZE,
            macroTable := take (firstFree mc) t @ replicate MACRO_CHUNK_SIZE [] @
                          drop (firstFree mc + MACRO_CHUNK_SIZE) t \<rparr>)"

definition sortMacroTable :: "MacroContext \<Rightarrow> MacroContext" where
  "sortMacroTable mc =
     (if macroTable mc = [] then mc
      else
        let t = qsort compareMacroName (take (firstFree mc) (macroTable mc)) in
        mc\<lparr> macroTable := t @ drop (firstFree mc) (macroTable mc),
            firstFree := length (takeWhile (\<lambda>c. c \<noteq> []) t) \<rparr>)"

definition macro_key :: "string \<Rightarrow> MacroEntry" where
  "macro_key name =
     \<lparr> me_name = name, me_opts = None, me_body = [], me_used = 0, me_level = 0, me_flags = False \<rparr>"

text \<open>The index of the slot, or \<open>None\<close>; \<open>namelen = 0\<close> takes the whole name.\<close>

definition macro_findEntry :: "MacroContext \<Rightarrow> string \<Rightarrow> nat \<Rightarrow> nat option" where
  "macro_findEntry mc name namelen =
     (if macroTable mc = [] \<or> firstFree mc = 0 then None
      else
        let name' = (if namelen > 0 then take namelen name else name) in
        bsearch compareMacroName [macro_key name'] (take (firstFree mc) (macroTable mc)))"

text \<open>The entry that a use of the name refers to.\<close>

definition current_def :: "MacroContext \<Rightarrow> string \<Rightarrow> nat \<Rightarrow> MacroEntry list" where
  "current_def mc name namelen =
     (case macro_findEntry mc name namelen of None \<Rightarrow> [] | Some i \<Rightarrow> macroTable mc ! i)"

text \<open>The leading dots of a name, at most two, mark a readonly macro.\<close>

definition skip_dot :: "string \<Rightarrow> string" where
  "skip_dot n = (case n of c # cs \<Rightarrow> if c = CHR ''.'' then cs else n | [] \<Rightarrow> n)"

definition plain_name :: "string \<Rightarrow> string" where
  "plain_name n = skip_dot (skip_dot n)"

definition pushMacro ::
  "MacroEntry list \<Rightarrow> string \<Rightarrow> string option \<Rightarrow> string option \<Rightarrow> int \<Rightarrow> MacroEntry list" where
  "pushMacro chain n o' b level =
     (let name = plain_name n in
      \<lparr> me_name = (case chain of [] \<Rightarrow> name | prev # _ \<Rightarrow> me_name prev),
        me_opts = o',
        me_body = (case b of None \<Rightarrow> [] | Some t \<Rightarrow> t),
        me_used = 0,
        me_level = to_short level,
        me_flags = (name \<noteq> n) \<rparr> # chain)"

definition popMacro :: "MacroEntry list \<Rightarrow> MacroEntry list" where
  "popMacro chain = (case chain of [] \<Rightarrow> [] | me # prev \<Rightarrow> prev)"

text \<open>A readonly entry yields to a name that is written with two dots only.\<close>

definition readonly_blocks :: "MacroEntry list \<Rightarrow> string \<Rightarrow> bool" where
  "readonly_blocks chain n \<longleftrightarrow>
     (case chain of [] \<Rightarrow> False | me # _ \<Rightarrow> me_flags me \<and> \<not> (take 2 n = ''..''))"

definition addMacro ::
  "MacroContext \<Rightarrow> string \<Rightarrow> string option \<Rightarrow> string option \<Rightarrow> int \<Rightarrow> MacroContext" where
  "addMacro mc n o' b level =
     (let (mc1, i) =
        (case macro_findEntry mc (plain_name n) 0 of
           Some i \<Rightarrow> (mc, i)
         | None \<Rightarrow>
             let mc' = (if firstFree mc = macrosAllocated mc then expandMacroTable mc else mc) in
             (mc'\<lparr> firstFree := Suc (firstFree mc') \<rparr>, firstFree mc'));
        chain = macroTable mc1 ! i in
      if readonly_blocks chain n then mc1
      else
        let mc2 = mc1\<lparr> macroTable := (macroTable mc1)[i := pushMacro chain n o' b level] \<rparr> in
        if chain = [] then sortMacroTable mc2 else mc2)"

definition delMacro :: "MacroContext \<Rightarrow> string \<Rightarrow> MacroContext" where
  "delMacro mc n =
     (case macro_findEntry mc n 0 of
        None \<Rightarrow> mc
      | Some i \<Rightarrow>
          let chain = popMacro (macroTable mc ! i);
              mc1 = mc\<lparr> macroTable := (macroTable mc)[i := chain] \<rparr> in
          if chain = [] then sortMacroTable mc1 else mc1)"

text \<open>\<open>freeArgs\<close> pops one definition of every name whose newest one is at the given depth or
  deeper; \<open>skiptest\<close> guards a message only.\<close>

definition free_slot :: "int \<Rightarrow> MacroEntry list \<Rightarrow> MacroEntry list" where
  "free_slot depth chain =
     (case chain of [] \<Rightarrow> [] | me # _ \<Rightarrow> if me_level me < depth then chain else popMacro chain)"

definition freeArgs :: "MacroContext \<Rightarrow> int \<Rightarrow> MacroContext" where
  "freeArgs mc depth =
     (if macroTable mc = [] then mc
      else
        let old = take (firstFree mc) (macroTable mc);
            new = map (free_slot depth) old;
            mc1 = mc\<lparr> macroTable := new @ drop (firstFree mc) (macroTable mc) \<rparr> in
        if (\<exists>(c, d) \<in> set (zip old new). c \<noteq> [] \<and> me_level (hd c) \<ge> depth \<and> d = [])
        then sortMacroTable mc1 else mc1)"

text \<open>Copy the newest definition of every name of one context into another.\<close>

definition rpmLoadMacros :: "MacroContext \<Rightarrow> MacroContext \<Rightarrow> int \<Rightarrow> MacroContext" where
  "rpmLoadMacros mc glob level =
     fold (\<lambda>c g. case c of
             [] \<Rightarrow> g
           | me # _ \<Rightarrow> addMacro g (me_name me) (me_opts me) (Some (me_body me)) (level - 1))
       (take (firstFree mc) (macroTable mc)) glob"

definition rpmFreeMacros :: "MacroContext \<Rightarrow> MacroContext" where
  "rpmFreeMacros mc = \<lparr> macroTable = [], macrosAllocated = 0, firstFree = 0 \<rparr>"

section \<open>Listings of a table\<close>

definition dupMacroEntry :: "MacroEntry \<Rightarrow> string" where
  "dupMacroEntry me =
     ''%'' @ me_name me @
     (case me_opts me of None \<Rightarrow> [] | Some o' \<Rightarrow> ''('' @ o' @ '')'') @
     CHR 0x09 # me_body me"

text \<open>\<open>used > 0\<close>: the entries expanded so often at least; \<open>used = 0\<close>: those never expanded;
  negative: all. The pattern \<open>mire\<close> is a predicate on names.\<close>

fun get_entries :: "(string \<Rightarrow> bool) \<Rightarrow> int \<Rightarrow> MacroEntry list list \<Rightarrow> string list outcome" where
  "get_entries mire used [] = Inr []"
| "get_entries mire used ([] # cs) = Inl NullDeref"
| "get_entries mire used ((me # prev) # cs) =
     (if used > 0 \<and> me_used me < used \<or> used = 0 \<and> me_used me \<noteq> 0 \<or> \<not> mire (me_name me)
      then get_entries mire used cs
      else andThen (get_entries mire used cs) (\<lambda>r. Inr (dupMacroEntry me # r)))"

definition rpmGetMacroEntries ::
  "MacroContext \<Rightarrow> (string \<Rightarrow> bool) \<Rightarrow> int \<Rightarrow> string list outcome" where
  "rpmGetMacroEntries mc mire used = get_entries mire used (take (firstFree mc) (macroTable mc))"

text \<open>The field \<open>%3d\<close>.\<close>

definition pad3 :: "int \<Rightarrow> string" where
  "pad3 i = (let s = dec_int i in replicate (3 - length s) CHR '' '' @ s)"

definition dump_entry :: "MacroEntry \<Rightarrow> string" where
  "dump_entry me =
     pad3 (me_level me) @ (if me_used me > 0 then ''='' else '':'') @ '' '' @ me_name me @
     (case me_opts me of Some (c # cs) \<Rightarrow> ''('' @ (c # cs) @ '')'' | _ \<Rightarrow> []) @
     (if me_body me = [] then [] else CHR 0x09 # me_body me) @ [CHR 0x0A]"

definition rpmDumpMacroTable :: "MacroContext \<Rightarrow> string" where
  "rpmDumpMacroTable mc =
     (let cs = take (firstFree mc) (macroTable mc);
          live = filter (\<lambda>c. c \<noteq> []) cs in
      ''========================'' @ [CHR 0x0A] @
      concat (map (\<lambda>c. dump_entry (hd c)) live) @
      ''======================== active '' @ dec (length live) @ '' empty '' @
      dec (length cs - length live) @ [CHR 0x0A])"

end
