(* ===== verification/MacroText.thy ===== *)
theory MacroText
  imports CLib
begin

text \<open>
  The scanning done by \<open>rpmio/macro.c\<close> on its texts: matching brackets, reading a line of a
  macro file with its continuations, the parts of a definition, and the forms that follow a
  \<open>%\<close>. None of these functions touches the macro table.

  A pointer into a text is the suffix that it points at; the terminating NUL is the end of
  the list, and a step beyond it is the fault \<open>OutOfBounds\<close>.
\<close>

section \<open>Characters and brackets\<close>

definition iseol :: "char \<Rightarrow> bool" where
  "iseol c \<longleftrightarrow> c = CHR 0x0A \<or> c = CHR 0x0D"

definition isblank :: "char \<Rightarrow> bool" where
  "isblank c \<longleftrightarrow> c = CHR '' '' \<or> c = CHR 0x09"

definition macro_char :: "char \<Rightarrow> bool" where
  "macro_char c \<longleftrightarrow> xisalnum (cval c) \<or> c = CHR ''_''"

definition SKIPBLANK :: "string \<Rightarrow> string" where
  "SKIPBLANK s = dropWhile isblank s"

definition skip_eol :: "string \<Rightarrow> string" where
  "skip_eol s = dropWhile iseol s"

text \<open>The characters before the terminating NUL of a buffer.\<close>

definition cstr :: "string \<Rightarrow> string" where
  "cstr t = takeWhile (\<lambda>c. c \<noteq> NUL) t"

text \<open>The suffix at the matching right bracket. An escape at the very end steps over the
  terminating NUL.\<close>

fun matchchar :: "nat \<Rightarrow> char \<Rightarrow> char \<Rightarrow> string \<Rightarrow> string option outcome" where
  "matchchar lvl pl pr [] = Inr None"
| "matchchar lvl pl pr (c # cs) =
     (if c = CHR 0x5C then (case cs of [] \<Rightarrow> Inl OutOfBounds | d # ds \<Rightarrow> matchchar lvl pl pr ds)
      else if c = pr then (if lvl \<le> 1 then Inr (Some (c # cs)) else matchchar (lvl - 1) pl pr cs)
      else if c = pl then matchchar (Suc lvl) pl pr cs
      else matchchar lvl pl pr cs)"

section \<open>Lines of a macro file\<close>

text \<open>\<open>fgets\<close> into \<open>n\<close> bytes: the characters up to a newline, \<open>n - 1\<close> at most.\<close>

fun fgets_line :: "nat \<Rightarrow> string \<Rightarrow> string \<times> string" where
  "fgets_line 0 f = ([], f)"
| "fgets_line (Suc n) [] = ([], [])"
| "fgets_line (Suc n) (c # cs) =
     (if c = CHR 0x0A then ([c], cs) else let (l, r) = fgets_line n cs in (c # l, r))"

definition fgets :: "nat \<Rightarrow> string \<Rightarrow> (string \<times> string) option" where
  "fgets n f = (if n \<ge> 2 \<and> f = [] then None else Some (fgets_line (n - 1) f))"

text \<open>The scan of a line for brackets opened by a macro: \<open>bc\<close> counts braces, \<open>pc\<close> parentheses.\<close>

fun rdcl_scan :: "nat \<Rightarrow> nat \<Rightarrow> string \<Rightarrow> nat \<times> nat" where
  "rdcl_scan bc pc [] = (bc, pc)"
| "rdcl_scan bc pc (c # cs) =
     (if c = CHR 0x5C then (case cs of [] \<Rightarrow> (bc, pc) | d # ds \<Rightarrow> rdcl_scan bc pc ds)
      else if c = CHR ''%'' then
        (case cs of
           [] \<Rightarrow> (bc, pc)
         | d # ds \<Rightarrow>
             if d = CHR ''{'' then rdcl_scan (Suc bc) pc ds
             else if d = CHR ''('' then rdcl_scan bc (Suc pc) ds
             else if d = CHR ''%'' then rdcl_scan bc pc ds
             else rdcl_scan bc pc cs)
      else if c = CHR ''{'' then rdcl_scan (if bc > 0 then Suc bc else bc) pc cs
      else if c = CHR ''}'' then rdcl_scan (bc - 1) pc cs
      else if c = CHR ''('' then rdcl_scan bc (if pc > 0 then Suc pc else pc) cs
      else if c = CHR '')'' then rdcl_scan bc (pc - 1) cs
      else rdcl_scan bc pc cs)"

definition trim_eol :: "string \<Rightarrow> string" where
  "trim_eol s = rev (dropWhile iseol (rev s))"

lemma fgets_shorter: "fgets n f = Some (l, r) \<Longrightarrow> l \<noteq> [] \<Longrightarrow> length r < length f"
proof -
  have le: "fgets_line k f = (l, r) \<Longrightarrow> f = l @ r" for k l r
    by (induction k f arbitrary: l rule: fgets_line.induct) (auto split: if_splits prod.splits)
  show "fgets n f = Some (l, r) \<Longrightarrow> l \<noteq> [] \<Longrightarrow> length r < length f"
    using le by (fastforce simp: fgets_def split: if_splits)
qed

lemma trim_eol_nil: "trim_eol [] = []"
  by (simp add: trim_eol_def)

text \<open>The loop of \<open>rdcl\<close>: the text read so far, the counts and the room left.\<close>

function rdcl_loop :: "string \<Rightarrow> nat \<Rightarrow> nat \<Rightarrow> nat \<Rightarrow> string \<Rightarrow> string \<times> string" where
  "rdcl_loop acc bc pc room file =
     (case fgets room file of
        None \<Rightarrow> (acc, file)
      | Some (raw, rest) \<Rightarrow>
          let chunk = cstr raw; line = trim_eol chunk; nb = length line;
              (bc', pc') = rdcl_scan bc pc line; nxt = drop nb chunk in
          if nb = 0 \<or> (last line \<noteq> CHR 0x5C \<and> bc' = 0 \<and> pc' = 0) \<or> nxt = []
          then (acc @ line, rest)
          else rdcl_loop (acc @ line @ [CHR 0x0A]) bc' pc' (room - Suc nb) rest)"
  by pat_completeness auto
termination
  by (relation "measure (\<lambda>(acc, bc, pc, room, file). length file)")
     (auto dest!: fgets_shorter simp: cstr_def trim_eol_def split: prod.splits)

declare rdcl_loop.simps [simp del]

text \<open>\<open>None\<close> at the end of the file.\<close>

definition rdcl :: "nat \<Rightarrow> string \<Rightarrow> (string \<times> string) option" where
  "rdcl bufn file =
     (case fgets bufn file of
        None \<Rightarrow> None
      | Some (raw, rest) \<Rightarrow> if cstr raw = [] then None else Some (rdcl_loop [] 0 0 bufn file))"

section \<open>Definitions\<close>

text \<open>The free-field body of a definition: the copied text, the open brackets and the rest.
  A backslash protects the character behind it and is dropped.\<close>

fun define_body :: "nat \<Rightarrow> nat \<Rightarrow> string \<Rightarrow> string \<times> nat \<times> nat \<times> string" where
  "define_body bc pc [] = ([], bc, pc, [])"
| "define_body bc pc (c # cs) =
     (if bc = 0 \<and> pc = 0 \<and> iseol c then ([], bc, pc, c # cs)
      else if c = CHR 0x5C then
        (case cs of
           [] \<Rightarrow> ([c], bc, pc, [])
         | d # ds \<Rightarrow> let (b, r) = define_body bc pc ds in (d # b, r))
      else if c = CHR ''%'' then
        (case cs of
           [] \<Rightarrow> ([c], bc, pc, [])
         | d # ds \<Rightarrow>
             if d = CHR ''{'' then let (b, r) = define_body (Suc bc) pc ds in (c # d # b, r)
             else if d = CHR ''('' then let (b, r) = define_body bc (Suc pc) ds in (c # d # b, r)
             else if d = CHR ''%'' then let (b, r) = define_body bc pc ds in (c # d # b, r)
             else let (b, r) = define_body bc pc cs in (c # b, r))
      else
        let bc' = (if c = CHR ''{'' \<and> bc > 0 then Suc bc else if c = CHR ''}'' then bc - 1 else bc);
            pc' = (if c = CHR ''('' \<and> pc > 0 then Suc pc else if c = CHR '')'' then pc - 1 else pc);
            (b, r) = define_body bc' pc' cs in
        (c # b, r))"

definition trim_body :: "string \<Rightarrow> string" where
  "trim_body b = rev (dropWhile (\<lambda>c. isblank c \<or> iseol c) (rev b))"

text \<open>The start of a name: after a dot, the next character is taken whatever it is, because
  \<open>c\<close> still holds the dot. At the end of the text this steps over the NUL.\<close>

definition name_dots :: "string \<Rightarrow> (string \<times> string) outcome" where
  "name_dots s =
     (case s of
        [] \<Rightarrow> Inr ([], s)
      | c # cs \<Rightarrow>
          if c = CHR ''.'' then (case cs of [] \<Rightarrow> Inl OutOfBounds | d # ds \<Rightarrow> Inr ([c, d], ds))
          else Inr ([], s))"

definition COPYNAME :: "string \<Rightarrow> string \<times> string" where
  "COPYNAME s =
     (let s' = SKIPBLANK s in (takeWhile macro_char s', dropWhile macro_char s'))"

text \<open>The optional parameter list; an unterminated one steps over the NUL.\<close>

definition COPYOPTS :: "string \<Rightarrow> (string option \<times> string) outcome" where
  "COPYOPTS s =
     (case s of
        [] \<Rightarrow> Inr (None, s)
      | c # cs \<Rightarrow>
          if c \<noteq> CHR ''('' then Inr (None, s)
          else (case dropWhile (\<lambda>d. d \<noteq> CHR '')'') cs of
                  [] \<Rightarrow> Inl OutOfBounds
                | _ # r \<Rightarrow> Inr (Some (takeWhile (\<lambda>d. d \<noteq> CHR '')'') cs), r)))"

text \<open>Names start with a letter or an underscore and have at least three characters.\<close>

definition legal_name :: "string \<Rightarrow> bool" where
  "legal_name n \<longleftrightarrow>
     n \<noteq> [] \<and> (xisalpha (cval (hd n)) \<or> hd n = CHR ''_'') \<and> length n > 2"

text \<open>What the parse of a definition yields: the text to continue at, and, if the definition is
  accepted, the dots, the name, the parameters and the body. The parts share one buffer of
  \<open>bufn\<close> bytes, each with its NUL.\<close>

record mdef =
  d_dots :: string
  d_name :: string
  d_opts :: "string option"
  d_body :: string

definition body_at :: "string \<Rightarrow> string \<Rightarrow> string option \<Rightarrow> nat" where
  "body_at dots n o' = length dots + length n + 2 + (case o' of None \<Rightarrow> 0 | Some t \<Rightarrow> length t)"

definition parse_body :: "nat \<Rightarrow> nat \<Rightarrow> string \<Rightarrow> (string \<times> string \<times> bool) outcome" where
  "parse_body bufn at s =
     (case s of
        c # cs \<Rightarrow>
          if c = CHR ''{'' then
            andThen (matchchar 0 (CHR ''{'') (CHR ''}'') s) (\<lambda>m.
              case m of
                None \<Rightarrow> Inr ([], s, False)
              | Some e \<Rightarrow>
                  let b = take (length cs - length e) cs in
                  guardC BufferOverflow (at + length b < bufn) (Inr (b, tl e, True)))
          else
            let (b, bc, pc, r) = define_body 0 0 s in
            guardC BufferOverflow (at + length b < bufn)
              (Inr (trim_body b, r, bc = 0 \<and> pc = 0))
      | [] \<Rightarrow> guardC BufferOverflow (at < bufn) (Inr ([], [], True)))"

definition parse_define :: "nat \<Rightarrow> string \<Rightarrow> (mdef option \<times> string) outcome" where
  "parse_define bufn se =
     andThen (name_dots (SKIPBLANK se)) (\<lambda>(dots, s1).
       let (n, s2) = COPYNAME s1 in
       guardC BufferOverflow (length dots + length n < bufn)
       (andThen (COPYOPTS s2) (\<lambda>(o', s3).
       guardC BufferOverflow (o' = None \<or> body_at dots n o' \<le> bufn)
       (andThen (parse_body bufn (body_at dots n o') (SKIPBLANK s3)) (\<lambda>(b, s4, closed).
         if \<not> closed then Inr (None, s4)
         else
           let rest = skip_eol s4 in
           if \<not> legal_name n \<or> b = [] then Inr (None, rest)
           else Inr (Some \<lparr> d_dots = dots, d_name = n, d_opts = o', d_body = b \<rparr>, rest))))))"

section \<open>The forms after a percent sign\<close>

text \<open>The modifiers \<open>! ? @\<close> before a name: negation, test for existence, stack of values.\<close>

fun scan_flags :: "bool \<Rightarrow> bool \<Rightarrow> bool \<Rightarrow> string \<Rightarrow> (bool \<times> bool \<times> bool) \<times> string" where
  "scan_flags neg chk stk [] = ((neg, chk, stk), [])"
| "scan_flags neg chk stk (c # cs) =
     (if c = CHR ''!'' then scan_flags (\<not> neg) chk stk cs
      else if c = CHR ''?'' then scan_flags neg True stk cs
      else if c = CHR ''@'' then scan_flags neg chk (\<not> stk) cs
      else ((neg, chk, stk), c # cs))"

text \<open>A use of a macro: the field \<open>f\<close> with its length, the field \<open>g\<close> behind a colon, the
  length from \<open>f\<close> to \<open>lastc\<close> where arguments follow, the text behind the use (\<open>se\<close>) and the
  text where the scan resumes when the name is not defined (\<open>s\<close>).\<close>

record mcall =
  c_f :: string
  c_fn :: nat
  c_g :: "string option"
  c_last :: "nat option"
  c_se :: string
  c_s :: string
  c_negate :: bool
  c_chkexist :: bool
  c_stackarray :: bool

text \<open>The extent of a name without braces.\<close>

definition name_len :: "string \<Rightarrow> nat" where
  "name_len f =
     (let d = (if f \<noteq> [] \<and> hd f = CHR ''-'' then 1 else 0);
          n = d + length (takeWhile macro_char (drop d f)) in
      case drop n f of
        c # cs \<Rightarrow>
          if c = CHR ''*'' then (if cs \<noteq> [] \<and> hd cs = CHR ''*'' then n + 2 else n + 1)
          else if c = CHR ''#'' then n + 1 else n
      | [] \<Rightarrow> n)"

definition parse_plain :: "string \<Rightarrow> mcall" where
  "parse_plain s =
     (let ((neg, chk, stk), f) = scan_flags False False False s;
          n = name_len f; fe = drop n f in
      \<lparr> c_f = f, c_fn = n, c_g = None,
        c_last = (if fe \<noteq> [] \<and> isblank (hd fe)
                  then Some (n + length (takeWhile (\<lambda>c. c \<noteq> CHR 0x0A) fe)) else None),
        c_se = fe, c_s = f, c_negate = neg, c_chkexist = chk, c_stackarray = stk \<rparr>)"

definition field_end :: "char \<Rightarrow> bool" where
  "field_end c \<longleftrightarrow> c = CHR '' '' \<or> c = CHR '':'' \<or> c = CHR ''}''"

text \<open>\<open>s\<close> is at the opening brace, \<open>cl\<close> at the closing one.\<close>

definition parse_braced :: "string \<Rightarrow> string \<Rightarrow> mcall" where
  "parse_braced s cl =
     (let ((neg, chk, stk), f) = scan_flags False False False (tl s);
          n = length (takeWhile (\<lambda>c. \<not> field_end c) f); fe = drop n f in
      \<lparr> c_f = f, c_fn = n,
        c_g = (if fe \<noteq> [] \<and> hd fe = CHR '':'' then Some (take (length (tl fe) - length cl) (tl fe)) else None),
        c_last = (if fe \<noteq> [] \<and> hd fe = CHR '' '' then Some (length f - length cl) else None),
        c_se = tl cl, c_s = s, c_negate = neg, c_chkexist = chk, c_stackarray = stk \<rparr>)"

text \<open>\<open>None\<close>: an unterminated brace.\<close>

definition parse_call :: "string \<Rightarrow> mcall option outcome" where
  "parse_call s =
     (if s \<noteq> [] \<and> hd s = CHR ''{'' then
        andThen (matchchar 0 (CHR ''{'') (CHR ''}'') s) (\<lambda>m.
          case m of None \<Rightarrow> Inr None | Some cl \<Rightarrow> Inr (Some (parse_braced s cl)))
      else Inr (Some (parse_plain s)))"

definition STREQ :: "string \<Rightarrow> string \<Rightarrow> nat \<Rightarrow> bool" where
  "STREQ t f fn \<longleftrightarrow> fn = length t \<and> take fn f = t"

end
