(* ===== verification/Macro.thy ===== *)
theory Macro
  imports MacroTable MacroText Url
begin

text \<open>
  The macro expander of \<open>rpmio/macro.c\<close>: \<open>expandMacro\<close> with everything that it calls, on
  texts, the macro table and the target buffer.

  The nesting of \<open>expandMacro\<close> is bounded by \<open>max_macro_depth\<close>. Each of the functions below
  gets the expander of the next level as an argument, and \<open>expandMacro\<close> is defined by
  recursion on the levels that are left. The loop over the text is a recursion on its length.

  What the code asks of the system is the record \<open>menv\<close>: the output of shell commands, the
  parse of options by \<open>popt\<close>, the environment, files. A call whose answer may differ from
  one time to the next gets the number of such calls made so far. The embedded interpreters
  (Lua and others), which a build may leave out, are left out. The trace output, and the
  messages about malformed input, are not part of the state; what \<open>%{echo}\<close>, \<open>%{warn}\<close>,
  \<open>%{error}\<close> and \<open>%{dump}\<close> print is. All contexts of one expansion are the same table.

  An entry whose body is being read is in \<open>mb_live\<close>, with its height in the stack of its
  name; releasing it is the fault \<open>UseAfterFree\<close>, because the expander goes on to read the
  body and the entry when the nested expansion returns.
\<close>

section \<open>State and environment\<close>

record MacroBuf =
  mb_t :: string
  mb_nb :: nat
  mb_depth :: int
  mb_macro_trace :: int
  mb_expand_trace :: int
  mb_mc :: MacroContext
  mb_live :: "(string \<times> nat) list"
  mb_clock :: nat
  mb_msgs :: "(bool \<times> string) list"
  mb_print :: "int \<times> int"

record menv =
  env_popen :: "nat \<Rightarrow> string \<Rightarrow> string option"
  env_popt :: "string \<Rightarrow> bool \<Rightarrow> string list \<Rightarrow> (char \<times> string option) list \<times> bool \<times> string list"
  env_getenv :: "string \<Rightarrow> string option"
  env_realpath :: "nat \<Rightarrow> string \<Rightarrow> string option"
  env_verbose :: bool
  env_compressed :: "nat \<Rightarrow> string \<Rightarrow> nat"
  env_mkstemp :: "nat \<Rightarrow> string \<Rightarrow> string"
  env_mkdtemp :: "nat \<Rightarrow> string \<Rightarrow> string"
  env_uuid :: "nat \<Rightarrow> int \<Rightarrow> string option \<Rightarrow> string option \<Rightarrow> string option"
  env_file :: "nat \<Rightarrow> string \<Rightarrow> string option"
  env_glob :: "nat \<Rightarrow> string \<Rightarrow> string list option"
  env_sane :: "nat \<Rightarrow> string \<Rightarrow> bool"

type_synonym expander = "MacroBuf \<Rightarrow> string \<Rightarrow> (int \<times> MacroBuf) outcome"
type_synonym loader = "MacroBuf \<Rightarrow> string \<Rightarrow> (int \<times> MacroBuf) outcome"

definition max_macro_depth :: nat where
  "max_macro_depth = 16"

definition macro_BUFSIZ :: nat where
  "macro_BUFSIZ = 16 * 1024"

definition SAVECHAR :: "MacroBuf \<Rightarrow> char \<Rightarrow> MacroBuf" where
  "SAVECHAR mb c = mb\<lparr> mb_t := mb_t mb @ [c], mb_nb := mb_nb mb - 1 \<rparr>"

definition tick :: "MacroBuf \<Rightarrow> MacroBuf" where
  "tick mb = mb\<lparr> mb_clock := Suc (mb_clock mb) \<rparr>"

section \<open>Nested expansions\<close>

text \<open>Expand a copy of the field into the target.\<close>

definition expandT :: "expander \<Rightarrow> MacroBuf \<Rightarrow> string \<Rightarrow> (int \<times> MacroBuf) outcome" where
  "expandT rec mb f = rec mb f"

text \<open>Expand the text of a buffer of \<open>ulen\<close> bytes into itself. An expansion that fills the
  buffer is copied back with its NUL, one byte too many; an empty one leaves the text as it
  was.\<close>

definition expandU :: "expander \<Rightarrow> MacroBuf \<Rightarrow> string \<Rightarrow> nat \<Rightarrow> (int \<times> MacroBuf \<times> string) outcome" where
  "expandU rec mb u ulen =
     andThen (rec (mb\<lparr> mb_t := [], mb_nb := ulen \<rparr>) u) (\<lambda>(rc, mb2).
       guardC BufferOverflow (mb_nb mb2 > 0)
         (Inr (rc, mb2\<lparr> mb_t := mb_t mb, mb_nb := mb_nb mb \<rparr>,
               if ulen > mb_nb mb2 then cstr (mb_t mb2) else u)))"

text \<open>The output of a shell command. The line ends at the end of the target are deleted, those
  that were there before the command included; at the start of the target buffer the loop
  reads before it.\<close>

definition doShellEscape :: "menv \<Rightarrow> expander \<Rightarrow> MacroBuf \<Rightarrow> string \<Rightarrow> (int \<times> MacroBuf) outcome" where
  "doShellEscape E rec mb cmd =
     andThen (expandU rec mb cmd (macro_BUFSIZ + length cmd)) (\<lambda>(rc, mb1, buf).
       if rc \<noteq> 0 then Inr (rc, mb1)
       else
         case env_popen E (mb_clock mb1) buf of
           None \<Rightarrow> Inr (1, tick mb1)
         | Some out \<Rightarrow>
             let t1 = mb_t mb1 @ take (mb_nb mb1) out;
                 nb1 = mb_nb mb1 - length out;
                 t2 = trim_eol t1 in
             guardC OutOfBounds (t2 \<noteq> [])
               (Inr (0, tick (mb1\<lparr> mb_t := t2, mb_nb := nb1 + (length t1 - length t2) \<rparr>))))"

section \<open>Definitions in a text\<close>

definition doDefine ::
  "expander \<Rightarrow> MacroBuf \<Rightarrow> string \<Rightarrow> int \<Rightarrow> bool \<Rightarrow> (MacroBuf \<times> string) outcome" where
  "doDefine rec mb se level expandbody =
     andThen (parse_define macro_BUFSIZ se) (\<lambda>(d, rest).
       case d of
         None \<Rightarrow> Inr (mb, rest)
       | Some d \<Rightarrow>
           let n = d_dots d @ d_name d in
           if expandbody then
             andThen (expandU rec mb (d_body d) (macro_BUFSIZ - body_at (d_dots d) (d_name d) (d_opts d)))
               (\<lambda>(rc, mb1, b).
                 if rc \<noteq> 0 then Inr (mb1, rest)
                 else Inr (mb1\<lparr> mb_mc := addMacro (mb_mc mb1) n (d_opts d) (Some b) (level - 1) \<rparr>, rest))
           else Inr (mb\<lparr> mb_mc := addMacro (mb_mc mb) n (d_opts d) (Some (d_body d)) (level - 1) \<rparr>, rest))"

definition pop_live :: "MacroBuf \<Rightarrow> string \<Rightarrow> bool" where
  "pop_live mb n \<longleftrightarrow> (n, length (current_def (mb_mc mb) n 0)) \<in> set (mb_live mb)"

definition doUndefine :: "MacroBuf \<Rightarrow> string \<Rightarrow> (MacroBuf \<times> string) outcome" where
  "doUndefine mb se =
     (let (n, s) = COPYNAME se; rest = skip_eol s in
      guardC BufferOverflow (length n < macro_BUFSIZ)
        (if \<not> legal_name n then Inr (mb, rest)
         else guardC UseAfterFree (\<not> pop_live mb n)
                (Inr (mb\<lparr> mb_mc := delMacro (mb_mc mb) n \<rparr>, rest))))"

text \<open>One more expansion of the entry at height \<open>h\<close> of the stack of \<open>n\<close>.\<close>

definition use_entry :: "MacroContext \<Rightarrow> string \<Rightarrow> nat \<Rightarrow> MacroContext" where
  "use_entry mc n h =
     (case macro_findEntry mc n 0 of
        None \<Rightarrow> mc
      | Some i \<Rightarrow>
          let c = macroTable mc ! i; k = length c - h in
          mc\<lparr> macroTable := (macroTable mc)[i := c[k := (c ! k)\<lparr> me_used := me_used (c ! k) + 1 \<rparr>]] \<rparr>)"

section \<open>Arguments\<close>

fun split_words :: "string \<Rightarrow> string \<Rightarrow> string list" where
  "split_words w [] = (if w = [] then [] else [w])"
| "split_words w (c # cs) =
     (if isblank c then (if w = [] then split_words [] cs else w # split_words [] cs)
      else split_words (w @ [c]) cs)"

definition join_args :: "string list \<Rightarrow> string" where
  "join_args ws = foldl (\<lambda>acc a. (if acc = [] then [] else acc @ '' '') @ a) [] ws"

definition option_text :: "char \<times> string option \<Rightarrow> string" where
  "option_text x = (case x of (c, None) \<Rightarrow> [CHR ''-'', c] | (c, Some a) \<Rightarrow> [CHR ''-'', c, CHR '' ''] @ a)"

definition option_defs :: "char \<times> string option \<Rightarrow> (string \<times> string) list" where
  "option_defs x =
     ([CHR ''-'', fst x], option_text x) #
     (case snd x of None \<Rightarrow> [] | Some a \<Rightarrow> [([CHR ''-'', fst x, CHR ''*''], a)])"

definition numbered_args :: "string list \<Rightarrow> (string \<times> string) list" where
  "numbered_args ws = zip (map (\<lambda>i. dec (Suc i)) [0..<length ws]) ws"

text \<open>The macros that stand for the arguments: the unparsed ones, the options, the count, each
  argument, all arguments. An unknown option stops after the options before it.\<close>

definition arg_defs ::
  "string \<Rightarrow> string list \<Rightarrow> (char \<times> string option) list \<times> bool \<times> string list \<Rightarrow> (string \<times> string) list" where
  "arg_defs name ws p =
     (case p of (opts, bad, rest) \<Rightarrow>
        [(''0'', name), (''**'', join_args ws)] @ concat (map option_defs opts) @
        (if bad then []
         else (''#'', dec (length rest)) # numbered_args rest @ [(''*'', join_args rest)]))"

definition add_defs :: "MacroContext \<Rightarrow> int \<Rightarrow> (string \<times> string) list \<Rightarrow> MacroContext" where
  "add_defs mc depth ds = fold (\<lambda>(n, b) mc. addMacro mc n None (Some b) depth) ds mc"

text \<open>\<open>fe\<close> is the text behind the name, \<open>n\<close> the length up to \<open>lastc\<close>. The words, the text of
  an option and the joined arguments share one buffer.\<close>

definition grabArgs :: "menv \<Rightarrow> MacroBuf \<Rightarrow> MacroEntry \<Rightarrow> string \<Rightarrow> nat \<Rightarrow> (MacroBuf \<times> string) outcome" where
  "grabArgs E mb me fe n =
     andThen (nonnull (me_opts me)) (\<lambda>opts.
       let ws = split_words [] (take n fe);
           used = length (me_name me) + 1 + sum_list (map (\<lambda>w. length w + 1) ws);
           plus = (opts \<noteq> [] \<and> hd opts = CHR ''+'');
           p = env_popt E (if plus then tl opts else opts) plus (me_name me # ws);
           texts = map option_text (fst p) @ (if fst (snd p) then [] else [join_args (snd (snd p))]) in
       guardC BufferOverflow (used < macro_BUFSIZ \<and> (\<forall>t\<in>set texts. used + length t < macro_BUFSIZ))
         (Inr (mb\<lparr> mb_mc := add_defs (mb_mc mb) (mb_depth mb) (arg_defs (me_name me) ws p) \<rparr>,
               drop (Suc n) fe)))"

text \<open>A call without arguments of a macro with parameters.\<close>

definition no_args :: "string \<Rightarrow> (string \<times> string) list" where
  "no_args name = [(''**'', []), (''*'', []), (''#'', ''0''), (''0'', name)]"

definition free_live :: "MacroBuf \<Rightarrow> bool" where
  "free_live mb \<longleftrightarrow>
     (\<exists>c \<in> set (take (firstFree (mb_mc mb)) (macroTable (mb_mc mb))).
        c \<noteq> [] \<and> me_level (hd c) \<ge> mb_depth mb \<and> (me_name (hd c), length c) \<in> set (mb_live mb))"

definition mb_freeArgs :: "MacroBuf \<Rightarrow> MacroBuf outcome" where
  "mb_freeArgs mb =
     guardC UseAfterFree (\<not> free_live mb) (Inr (mb\<lparr> mb_mc := freeArgs (mb_mc mb) (mb_depth mb) \<rparr>))"

section \<open>The primitives with an argument\<close>

definition doOutput :: "expander \<Rightarrow> MacroBuf \<Rightarrow> bool \<Rightarrow> string \<Rightarrow> MacroBuf outcome" where
  "doOutput rec mb waserror msg =
     andThen (expandU rec mb msg (macro_BUFSIZ + length msg)) (\<lambda>(rc, mb1, buf).
       Inr (mb1\<lparr> mb_msgs := mb_msgs mb1 @ [(waserror, if waserror then buf @ [CHR 0x0A] else buf)] \<rparr>))"

text \<open>\<open>%{shrink:...}\<close>: blanks are remembered and written as one space before the next other
  character, unless nothing has been written yet.\<close>

fun shrink :: "bool \<Rightarrow> string \<Rightarrow> string \<Rightarrow> string" where
  "shrink was_space out [] = out"
| "shrink was_space out (c # cs) =
     (if xisspace (cval c) then shrink True out cs
      else shrink False ((if was_space \<and> out \<noteq> [] then out @ '' '' else out) @ [c]) cs)"

definition foo_names :: "string list" where
  "foo_names =
     [''basename'', ''dirname'', ''realpath'', ''getenv'', ''shrink'', ''suffix'', ''expand'', ''verbose'',
      ''uncompress'', ''mkstemp'', ''mkdtemp'', ''uuid'', ''url2path'', ''u2p'', ''S'', ''P'', ''F'']"

definition is_patch :: "string \<Rightarrow> nat \<Rightarrow> bool" where
  "is_patch f fn \<longleftrightarrow> fn > 5 \<and> STREQ ''patch'' f 5 \<and> xisdigit (deref_at f 5)"

text \<open>\<open>%patch007 -p1\<close> becomes \<open>%patch -P 7 -p1\<close>: the leading zeros that another digit follows
  are skipped.\<close>

fun skip_zeros :: "string \<Rightarrow> string" where
  "skip_zeros (c # d # cs) =
     (if c = CHR ''0'' \<and> xisdigit (cval d) then skip_zeros (d # cs) else c # d # cs)"
| "skip_zeros cs = cs"

definition patch_text :: "string \<Rightarrow> nat \<Rightarrow> string" where
  "patch_text f fn = ''%patch -P '' @ skip_zeros (take (fn - 5) (drop 5 f))"

text \<open>The command for \<open>%{uncompress:...}\<close> by the kind of the file.\<close>

definition uncompress_text :: "nat \<Rightarrow> string \<Rightarrow> string" where
  "uncompress_text k b =
     (if k = 1 then ''%__gzip -dc '' @ CHR 0x27 # b @ [CHR 0x27]
      else if k = 2 then ''%__bzip2 -dc '' @ CHR 0x27 # b @ [CHR 0x27]
      else if k = 3 then ''%__unzip -qq '' @ CHR 0x27 # b @ [CHR 0x27]
      else if k = 4 then ''%__lzop -dc '' @ CHR 0x27 # b @ [CHR 0x27]
      else if k = 5 then ''%__lzma -dc '' @ CHR 0x27 # b @ [CHR 0x27]
      else if k = 6 then ''%__xz -dc '' @ CHR 0x27 # b @ [CHR 0x27]
      else ''%__cat '' @ b)"

definition uuid_blank :: "char \<Rightarrow> bool" where
  "uuid_blank c \<longleftrightarrow> c = CHR '' '' \<or> c = CHR 0x09 \<or> c = CHR 0x0A"

text \<open>The arguments of \<open>%{uuid:...}\<close>: a version, a name space, a name. The NUL that ends the name
  space is written over the character behind it and the scan goes on after that: behind the
  end of the text, when nothing follows.\<close>

definition uuid_args :: "string \<Rightarrow> (int \<times> string option \<times> string option) outcome" where
  "uuid_args buf =
     (let w = (\<lambda>s. takeWhile (\<lambda>c. \<not> uuid_blank c) s);
          nxt = (\<lambda>s. dropWhile uuid_blank (dropWhile (\<lambda>c. \<not> uuid_blank c) s));
          s1 = dropWhile uuid_blank buf in
      if s1 = [] then Inr (1, None, None)
      else
        let v = sint (word_of_int (atol s1) :: u32); s2 = nxt s1 in
        if s2 = [] then Inr (v, None, None)
        else case dropWhile (\<lambda>c. \<not> uuid_blank c) s2 of
          [] \<Rightarrow> Inl OutOfBounds
        | _ # s3 \<Rightarrow>
            let s4 = dropWhile uuid_blank s3 in
            Inr (v, Some (w s2), if s4 = [] then None else Some (w s4)))"

definition index_text :: "string \<Rightarrow> string \<Rightarrow> nat \<Rightarrow> string option outcome" where
  "index_text lead buf bufn =
     (if list_all (\<lambda>c. xisdigit (cval c)) buf
      then guardC BufferOverflow (2 * length buf + length lead + 2 \<le> bufn) (Inr (Some (lead @ buf)))
      else Inr (Some buf))"

text \<open>The text that a primitive leaves to be expanded, or none. \<open>buf\<close> is its expanded argument.\<close>

definition foo_text ::
  "menv \<Rightarrow> MacroBuf \<Rightarrow> bool \<Rightarrow> string \<Rightarrow> nat \<Rightarrow> string \<Rightarrow> nat \<Rightarrow> (MacroBuf \<times> string option) outcome" where
  "foo_text E mb negate f fn buf bufn =
     (let pure = (\<lambda>b. Inr (mb, b)); w = takeWhile (\<lambda>c. \<not> isblank c) (SKIPBLANK buf) in
      if is_patch f fn then pure (Some (patch_text f fn))
      else if STREQ ''basename'' f fn then
        pure (Some (case strrchr buf (CHR ''/'') of None \<Rightarrow> buf | Some p \<Rightarrow> tl p))
      else if STREQ ''dirname'' f fn then
        pure (Some (case strrchr buf (CHR ''/'') of None \<Rightarrow> buf | Some p \<Rightarrow> take (length buf - length p) buf))
      else if STREQ ''realpath'' f fn then
        (case env_realpath E (mb_clock mb) buf of
           None \<Rightarrow> Inr (tick mb, None)
         | Some p \<Rightarrow> Inr (tick mb, if length p + 1 \<le> bufn then Some p else None))
      else if STREQ ''getenv'' f fn then pure (env_getenv E buf)
      else if STREQ ''shrink'' f fn then pure (Some (shrink False [] buf))
      else if STREQ ''suffix'' f fn then pure (map_option tl (strrchr buf (CHR ''.'')))
      else if STREQ ''expand'' f fn then pure (Some buf)
      else if STREQ ''verbose'' f fn then pure (if env_verbose E \<noteq> negate then Some buf else None)
      else if STREQ ''url2path'' f fn \<or> STREQ ''u2p'' f fn then
        pure (Some (case urlPath buf of None \<Rightarrow> ''/'' | Some p \<Rightarrow> if p = [] then ''/'' else p))
      else if STREQ ''uncompress'' f fn then
        let k = env_compressed E (mb_clock mb) w; b = uncompress_text k w in
        guardC BufferOverflow (length buf - length (SKIPBLANK buf) + length w + 1 + length b + 1 \<le> bufn)
          (Inr (tick mb, Some b))
      else if STREQ ''mkstemp'' f fn then
        Inr (tick mb, Some (env_mkstemp E (mb_clock mb) (SKIPBLANK buf)))
      else if STREQ ''mkdtemp'' f fn then
        Inr (tick mb, Some (env_mkdtemp E (mb_clock mb) (SKIPBLANK buf)))
      else if STREQ ''uuid'' f fn then
        andThen (uuid_args buf) (\<lambda>(v, ns, data). Inr (tick mb, env_uuid E (mb_clock mb) v ns data))
      else if STREQ ''S'' f fn then andThen (index_text ''%SOURCE'' buf bufn) pure
      else if STREQ ''P'' f fn then andThen (index_text ''%PATCH'' buf bufn) pure
      else if STREQ ''F'' f fn then
        guardC BufferOverflow (2 * length buf + 11 \<le> bufn) (pure (Some (''file'' @ buf @ ''.file'')))
      else pure None)"

definition doFoo ::
  "menv \<Rightarrow> expander \<Rightarrow> MacroBuf \<Rightarrow> bool \<Rightarrow> string \<Rightarrow> nat \<Rightarrow> string option \<Rightarrow> MacroBuf outcome" where
  "doFoo E rec mb negate f fn g =
     (let bufn = macro_BUFSIZ + fn + (case g of None \<Rightarrow> 0 | Some t \<Rightarrow> length t) in
      andThen (case g of
                 None \<Rightarrow> Inr (mb, [])
               | Some t \<Rightarrow> andThen (expandU rec mb t bufn) (\<lambda>(rc, mb1, u). Inr (mb1, u)))
        (\<lambda>(mb1, buf).
          andThen (foo_text E mb1 negate f fn buf bufn) (\<lambda>(mb2, b).
            case b of
              None \<Rightarrow> Inr mb2
            | Some t \<Rightarrow> andThen (expandT rec mb2 t) (\<lambda>(rc, mb3). Inr mb3))))"

section \<open>Uses of defined macros\<close>

text \<open>The stack of values, the oldest first, with the separator between them. The result is that
  of the last expansion. The entries above the one being expanded must stay.\<close>

fun expandFIFO :: "expander \<Rightarrow> MacroBuf \<Rightarrow> MacroEntry list \<Rightarrow> string \<Rightarrow> (int \<times> MacroBuf) outcome" where
  "expandFIFO rec mb [] g = Inr (0, mb)"
| "expandFIFO rec mb (me # prev) g =
     andThen
       (if prev = [] then Inr mb
        else
          andThen (expandFIFO rec (mb\<lparr> mb_live := (me_name me, Suc (length prev)) # mb_live mb \<rparr>) prev g)
            (\<lambda>(rc, mb1). andThen (expandT rec mb1 g) (\<lambda>(rc, mb2). Inr (mb2\<lparr> mb_live := mb_live mb \<rparr>))))
       (\<lambda>mb3. expandT rec mb3 (me_body me))"

text \<open>What a conditional use expands to.\<close>

definition expand_cond :: "expander \<Rightarrow> MacroBuf \<Rightarrow> mcall \<Rightarrow> MacroEntry list \<Rightarrow> (int \<times> MacroBuf) outcome" where
  "expand_cond rec mb k st =
     (if (st = []) \<noteq> c_negate k then Inr (0, mb)
      else
        case c_g k of
          Some (c # cs) \<Rightarrow> expandT rec mb (c # cs)
        | _ \<Rightarrow>
            (case st of
               [] \<Rightarrow> Inr (0, mb)
             | me # _ \<Rightarrow> if me_body me = [] then Inr (0, mb) else expandT rec mb (me_body me)))"

definition setup_args :: "menv \<Rightarrow> MacroBuf \<Rightarrow> mcall \<Rightarrow> MacroEntry \<Rightarrow> (MacroBuf \<times> string) outcome" where
  "setup_args E mb k me =
     (if me_opts me = None then Inr (mb, c_se k)
      else
        case c_last k of
          Some n \<Rightarrow> grabArgs E mb me (drop (c_fn k) (c_f k)) (n - c_fn k)
        | None \<Rightarrow>
            Inr (mb\<lparr> mb_mc := add_defs (mb_mc mb) (mb_depth mb) (no_args (me_name me)) \<rparr>, c_se k))"

definition expand_body :: "expander \<Rightarrow> MacroBuf \<Rightarrow> string \<Rightarrow> MacroEntry \<Rightarrow> nat \<Rightarrow> (int \<times> MacroBuf) outcome" where
  "expand_body rec mb name me h =
     (if me_body me = [] then Inr (0, mb)
      else
        andThen (rec (mb\<lparr> mb_live := (name, h) # mb_live mb \<rparr>) (me_body me)) (\<lambda>(rc, mb1).
          let mb2 = mb1\<lparr> mb_live := mb_live mb \<rparr> in
          Inr (rc, if rc = 0 then mb2\<lparr> mb_mc := use_entry (mb_mc mb2) name h \<rparr> else mb2)))"

definition expand_defined ::
  "menv \<Rightarrow> expander \<Rightarrow> MacroBuf \<Rightarrow> mcall \<Rightarrow> (int \<times> MacroBuf \<times> string) outcome" where
  "expand_defined E rec mb k =
     (let name = take (c_fn k) (c_f k); st = current_def (mb_mc mb) (c_f k) (c_fn k);
          ret = (\<lambda>(rc, mb'). Inr (rc, mb', c_se k)) in
      if hd (c_f k) = CHR ''-'' then
        let mb1 = (if st = [] then mb else mb\<lparr> mb_mc := use_entry (mb_mc mb) name (length st) \<rparr>) in
        andThen (expand_cond rec mb1 k st) ret
      else if c_chkexist k then andThen (expand_cond rec mb k st) ret
      else
        case st of
          [] \<Rightarrow> Inr (0, SAVECHAR mb (CHR ''%''), c_s k)
        | me # prev \<Rightarrow>
            if c_stackarray k then
              let g = (case c_g k of Some (c # cs) \<Rightarrow> c # cs | _ \<Rightarrow> [CHR 0x0A]) in
              andThen (expandFIFO rec mb st g) ret
            else
              andThen (setup_args E mb k me) (\<lambda>(mb1, se).
              andThen (expand_body rec mb1 name me (length st)) (\<lambda>(rc, mb2).
              andThen (if me_opts me = None then Inr mb2 else mb_freeArgs mb2) (\<lambda>mb3.
                Inr (rc, mb3, se)))))"

section \<open>The loop\<close>

definition expand_call ::
  "menv \<Rightarrow> loader \<Rightarrow> expander \<Rightarrow> MacroBuf \<Rightarrow> mcall \<Rightarrow> (int \<times> MacroBuf \<times> string) outcome" where
  "expand_call E load rec mb k =
     (let f = c_f k; fn = c_fn k; se = c_se k; is = (\<lambda>t. STREQ t f fn) in
      if fn = 0 then Inr (0, SAVECHAR mb (CHR ''%''), se)
      else if is ''load'' then
        (case c_g k of
           None \<Rightarrow> Inr (0, mb, se)
         | Some mfn \<Rightarrow> andThen (load mb mfn) (\<lambda>(xx, mb1). Inr (0, mb1, se)))
      else if is ''global'' then andThen (doDefine rec mb se 0 True) (\<lambda>(mb1, s). Inr (0, mb1, s))
      else if is ''define'' then
        andThen (doDefine rec mb se (mb_depth mb) False) (\<lambda>(mb1, s). Inr (0, mb1, s))
      else if is ''undefine'' then andThen (doUndefine mb se) (\<lambda>(mb1, s). Inr (0, mb1, s))
      else if is ''echo'' \<or> is ''warn'' \<or> is ''error'' then
        andThen (doOutput rec mb (is ''error'')
                   (case c_g k of Some (c # cs) \<Rightarrow> c # cs | _ \<Rightarrow> take fn f))
          (\<lambda>mb1. Inr (if is ''error'' then 1 else 0, mb1, se))
      else if is ''trace'' then
        let d = (if c_negate k then 0 else mb_depth mb);
            mb1 = mb\<lparr> mb_expand_trace := d, mb_macro_trace := d \<rparr> in
        Inr (0, if mb_depth mb = 1 then mb1\<lparr> mb_print := (d, d) \<rparr> else mb1, se)
      else if is ''dump'' then
        Inr (0, mb\<lparr> mb_msgs := mb_msgs mb @ [(False, rpmDumpMacroTable (mb_mc mb))] \<rparr>, skip_eol se)
      else if c_last k \<noteq> None \<and> is_patch f fn then
        andThen (doFoo E rec mb (c_negate k) f (the (c_last k)) None) (\<lambda>mb1. Inr (0, mb1, drop (the (c_last k)) f))
      else if list_ex is foo_names then
        andThen (doFoo E rec mb (c_negate k) f fn (c_g k)) (\<lambda>mb1. Inr (0, mb1, se))
      else expand_defined E rec mb k)"

definition expand_step ::
  "menv \<Rightarrow> loader \<Rightarrow> expander \<Rightarrow> MacroBuf \<Rightarrow> string \<Rightarrow> (int \<times> MacroBuf \<times> string) outcome" where
  "expand_step E load rec mb s =
     (case s of
        [] \<Rightarrow> Inr (0, mb, [])
      | c # s1 \<Rightarrow>
          if c \<noteq> CHR ''%'' then Inr (0, SAVECHAR mb c, s1)
          else
            case s1 of
              [] \<Rightarrow> Inr (0, SAVECHAR mb c, [])
            | d # s2 \<Rightarrow>
                if d = CHR ''%'' then Inr (0, SAVECHAR mb c, s2)
                else if d = CHR ''('' then
                  andThen (matchchar 0 (CHR ''('') (CHR '')'') s1) (\<lambda>m.
                    case m of
                      None \<Rightarrow> Inr (1, mb, s1)
                    | Some cl \<Rightarrow>
                        andThen (doShellEscape E rec mb (take (length s2 - length cl) s2))
                          (\<lambda>(rc, mb1). Inr (rc, mb1, tl cl)))
                else
                  andThen (parse_call s1) (\<lambda>m.
                    case m of
                      None \<Rightarrow> Inr (1, mb, s1)
                    | Some k \<Rightarrow> expand_call E load rec mb k))"

end
