(* ===== verification/MacroExpand.thy ===== *)
theory MacroExpand
  imports Macro
begin

text \<open>
  \<open>expandMacro\<close> itself, the entry points around it (\<open>expandMacros\<close>, \<open>rpmMCExpand\<close>), the
  reading of macro files and the set-up of the tables, from \<open>rpmio/macro.c\<close>.

  The loop over a text ends because every step leaves a shorter rest; the nesting of
  expansions is bounded by the depth limit. What bounds neither is \<open>%{load:...}\<close>: the name of
  a file to load inside a file is itself expanded, at depth 0 again. The recursion of
  \<open>rpmLoadMacroFile\<close> has a bound of its own for this, at which the model stops with
  \<open>StackOverflow\<close>.
\<close>

section \<open>Every step consumes text\<close>

lemma matchchar_suffix:
  "matchchar l pl pr s = Inr (Some e) \<Longrightarrow> (\<exists>q. s = q @ e) \<and> e \<noteq> [] \<and> hd e = pr"
proof (induction l pl pr s rule: matchchar.induct)
  case (2 lvl pl pr c cs)
  show ?case
  proof (cases "c = CHR 0x5C")
    case True
    with 2 obtain d ds where cs: "cs = d # ds" "matchchar lvl pl pr ds = Inr (Some e)"
      by (auto split: list.splits)
    from "2.IH"(1)[OF True cs] obtain q where "ds = q @ e" "e \<noteq> []" "hd e = pr" by blast
    then show ?thesis using cs(1) by (metis append_Cons)
  next
    case False
    then show ?thesis
      using 2 by (auto split: if_splits)
  qed
qed simp

lemma matchchar_le: "matchchar l pl pr s = Inr (Some e) \<Longrightarrow> e \<noteq> [] \<and> length e \<le> length s"
  using matchchar_suffix by fastforce

lemma scan_flags_le: "scan_flags a b d s = (x, r) \<Longrightarrow> length r \<le> length s"
  by (induction a b d s arbitrary: x rule: scan_flags.induct) (auto split: if_splits)

lemma COPYNAME_le: "COPYNAME s = (n, r) \<Longrightarrow> length r \<le> length s"
proof -
  have "length (dropWhile macro_char (dropWhile isblank s)) \<le> length s"
    using length_dropWhile_le le_trans by blast
  then show "COPYNAME s = (n, r) \<Longrightarrow> length r \<le> length s"
    by (auto simp: COPYNAME_def SKIPBLANK_def Let_def)
qed

lemma name_dots_le: "name_dots s = Inr (n, r) \<Longrightarrow> length r \<le> length s"
  by (auto simp: name_dots_def split: list.splits if_splits)

lemma COPYOPTS_le: "COPYOPTS s = Inr (n, r) \<Longrightarrow> length r \<le> length s"
proof -
  assume a: "COPYOPTS s = Inr (n, r)"
  show ?thesis
  proof (cases "s \<noteq> [] \<and> hd s = CHR ''(''")
    case True
    then obtain cs where s: "s = CHR ''('' # cs" by (cases s) auto
    let ?d = "dropWhile (\<lambda>d. d \<noteq> CHR '')'') cs"
    have "length ?d \<le> length cs" by (rule length_dropWhile_le)
    moreover have "\<exists>y. ?d = y # r"
      using a unfolding s COPYOPTS_def by (cases ?d) simp_all
    ultimately show ?thesis by (auto simp: s)
  next
    case False
    then show ?thesis using a by (cases s) (auto simp: COPYOPTS_def)
  qed
qed

lemma define_body_le': "length (snd (snd (snd (define_body bc pc s)))) \<le> length s"
proof (induction s arbitrary: bc pc rule: length_induct)
  case (1 s)
  show ?case
  proof (cases s)
    case (Cons c cs)
    have le: "length (snd (snd (snd (define_body b p t)))) \<le> Suc (length cs)" if "length t \<le> length cs" for b p t
      using "1.IH" Cons that by (metis le_imp_less_Suc le_SucI le_trans length_Cons)
    show ?thesis
      unfolding Cons by (subst define_body.simps(2))
        (use le in \<open>cases cs; simp add: Let_def split_beta del: define_body.simps\<close>)
  qed simp
qed

lemma define_body_le: "define_body bc pc s = (b, bc', pc', r) \<Longrightarrow> length r \<le> length s"
  using define_body_le'[of bc pc s] by simp

lemma parse_body_le: "parse_body n a s = Inr (b, r, x) \<Longrightarrow> length r \<le> length s"
proof -
  assume p: "parse_body n a s = Inr (b, r, x)"
  show ?thesis
  proof (cases "s \<noteq> [] \<and> hd s = CHR ''{''")
    case True
    then obtain cs where s: "s = CHR ''{'' # cs" by (cases s) auto
    obtain m where m: "matchchar 0 (CHR ''{'') (CHR ''}'') s = Inr m"
      using p by (auto simp: parse_body_def s c_simps)
    show ?thesis
    proof (cases m)
      case None
      then show ?thesis using p m by (simp add: parse_body_def s)
    next
      case (Some e)
      then have "r = tl e" using p m by (simp add: parse_body_def s c_simps Let_def)
      moreover have "length e \<le> length s" using m Some matchchar_le by blast
      ultimately show ?thesis by simp
    qed
  next
    case False
    then show ?thesis
      using p define_body_le'[of 0 0 s]
      by (cases s) (auto simp: parse_body_def c_simps split_beta)
  qed
qed

lemma skip_le: "length (SKIPBLANK s) \<le> length s" "length (skip_eol s) \<le> length s"
  by (simp_all add: SKIPBLANK_def skip_eol_def length_dropWhile_le)

lemma parse_define_le: "parse_define n s = Inr (d, r) \<Longrightarrow> length r \<le> length s"
proof -
  assume p: "parse_define n s = Inr (d, r)"
  obtain dots s1 where s1: "name_dots (SKIPBLANK s) = Inr (dots, s1)"
    using p by (auto simp: parse_define_def c_simps)
  obtain nm s2 where s2: "COPYNAME s1 = (nm, s2)" by (cases "COPYNAME s1")
  note q = p[unfolded parse_define_def s1 andThen_simps prod.case s2 Let_def]
  then obtain o' s3 where s3: "COPYOPTS s2 = Inr (o', s3)" by (auto simp: c_simps)
  note q' = q[unfolded s3 andThen_simps prod.case]
  then obtain b s4 x where s4: "parse_body n (body_at dots nm o') (SKIPBLANK s3) = Inr (b, s4, x)"
    by (auto simp: c_simps)
  have r: "r = s4 \<or> r = skip_eol s4"
    using q'[unfolded s4 andThen_simps prod.case] by (simp add: c_simps split: if_splits)
  have "length s4 \<le> length s"
    using name_dots_le[OF s1] COPYNAME_le[OF s2] COPYOPTS_le[OF s3] parse_body_le[OF s4] skip_le
    by (meson le_trans)
  then show ?thesis using r skip_le(2) le_trans by blast
qed

lemma doDefine_le: "doDefine rec mb s l x = Inr (mb', r) \<Longrightarrow> length r \<le> length s"
  using parse_define_le[of _ s]
  by (fastforce simp: doDefine_def c_simps Let_def split: prod.splits option.splits if_splits)

lemma doUndefine_le: "doUndefine mb s = Inr (mb', r) \<Longrightarrow> length r \<le> length s"
proof -
  assume a: "doUndefine mb s = Inr (mb', r)"
  obtain n s2 where c: "COPYNAME s = (n, s2)" by (cases "COPYNAME s")
  then have "r = skip_eol s2" using a by (auto simp: doUndefine_def c_simps Let_def split: if_splits)
  then show ?thesis using COPYNAME_le[OF c] skip_le(2) le_trans by blast
qed

lemma parse_plain_le:
  "length (c_f (parse_plain s)) \<le> length s" "length (c_se (parse_plain s)) \<le> length s"
  "length (c_s (parse_plain s)) \<le> length s"
  using scan_flags_le[of False False False s]
  by (cases "scan_flags False False False s"; auto simp: parse_plain_def Let_def)+

lemma parse_braced_le:
  "length (c_f (parse_braced s cl)) \<le> length s" "length (c_se (parse_braced s cl)) \<le> length cl"
  "length (c_s (parse_braced s cl)) \<le> length s"
  using scan_flags_le[of False False False "tl s"]
  by (cases "scan_flags False False False (tl s)"; fastforce simp: parse_braced_def Let_def)+

lemma parse_call_le:
  assumes "parse_call s = Inr (Some k)"
  shows "length (c_f k) \<le> length s" "length (c_se k) \<le> length s" "length (c_s k) \<le> length s"
proof -
  have "length (c_f k) \<le> length s \<and> length (c_se k) \<le> length s \<and> length (c_s k) \<le> length s"
  proof (cases "s \<noteq> [] \<and> hd s = CHR ''{''")
    case True
    then obtain cl where "matchchar 0 (CHR ''{'') (CHR ''}'') s = Inr (Some cl)" "k = parse_braced s cl"
      using assms by (auto simp: parse_call_def c_simps split: option.splits)
    then show ?thesis using parse_braced_le[of s cl] matchchar_le le_trans by blast
  next
    case False
    then show ?thesis using assms parse_plain_le[of s] by (auto simp: parse_call_def)
  qed
  then show "length (c_f k) \<le> length s" "length (c_se k) \<le> length s" "length (c_s k) \<le> length s" by auto
qed

lemma setup_args_le:
  assumes "setup_args E mb k me = Inr (mb', r)" "length (c_f k) \<le> m" "length (c_se k) \<le> m"
  shows "length r \<le> m"
  using assms by (auto simp: setup_args_def grabArgs_def Let_def c_simps split: option.splits if_splits)

lemma expand_defined_le:
  assumes "expand_defined E rec mb k = Inr (rc, mb', r)"
    and le: "length (c_f k) \<le> m" "length (c_se k) \<le> m" "length (c_s k) \<le> m"
  shows "length r \<le> m"
  using assms(1)[unfolded expand_defined_def Let_def] le setup_args_le[OF _ le(1,2)]
  by (auto simp: c_simps split: if_splits list.splits option.splits)

lemma expand_call_le:
  assumes "expand_call E load rec mb k = Inr (rc, mb', r)"
    and le: "length (c_f k) \<le> m" "length (c_se k) \<le> m" "length (c_s k) \<le> m"
  shows "length r \<le> m"
proof -
  have a: "length (skip_eol (c_se k)) \<le> m" using skip_le(2) le(2) le_trans by blast
  have b: "length (drop i (c_f k)) \<le> m" for i using le(1) by simp
  have d: "doDefine rec mb (c_se k) l x = Inr (mb', r) \<Longrightarrow> length r \<le> m" for l x
    using doDefine_le le(2) le_trans by blast
  have u: "doUndefine mb (c_se k) = Inr (mb', r) \<Longrightarrow> length r \<le> m"
    using doUndefine_le le(2) le_trans by blast
  show ?thesis
    using assms(1)[unfolded expand_call_def Let_def] le a b d u expand_defined_le[OF _ le]
    by (auto simp: c_simps split: if_splits option.splits)
qed

lemma expand_step_shorter:
  assumes "expand_step E load rec mb s = Inr (rc, mb', r)" "s \<noteq> []"
  shows "length r < length s"
proof -
  obtain c s1 where s: "s = c # s1" using assms(2) by (cases s) auto
  have call: "parse_call s1 = Inr (Some k) \<Longrightarrow> expand_call E load rec mb k = Inr (rc, mb', r) \<Longrightarrow> length r \<le> length s1" for k
    using expand_call_le parse_call_le by blast
  have "length r \<le> length s1"
    using assms(1)[unfolded expand_step_def s] call
    by (fastforce simp: c_simps dest: matchchar_le split: if_splits list.splits option.splits)
  then show ?thesis by (simp add: s)
qed

section \<open>The main recursion\<close>

function expand_loop ::
  "menv \<Rightarrow> loader \<Rightarrow> expander \<Rightarrow> MacroBuf \<Rightarrow> string \<Rightarrow> (int \<times> MacroBuf) outcome" where
  "expand_loop E load rec mb s =
     (if mb_nb mb = 0 \<or> s = [] then Inr (0, mb)
      else
        case expand_step E load rec mb s of
          Inl e \<Rightarrow> Inl e
        | Inr (rc, mb', s') \<Rightarrow> if rc \<noteq> 0 then Inr (rc, mb') else expand_loop E load rec mb' s')"
  by pat_completeness auto
termination
  by (relation "measure (\<lambda>(E, load, rec, mb, s). length s)") (auto dest: expand_step_shorter)

declare expand_loop.simps [simp del]

text \<open>The first argument is the number of levels left, \<open>max_macro_depth - mb_depth\<close>. At none, the
  trace of the expansions is switched on and the call fails.\<close>

primrec expandMacro :: "nat \<Rightarrow> menv \<Rightarrow> loader \<Rightarrow> expander" where
  "expandMacro 0 E load mb s = Inr (1, mb\<lparr> mb_expand_trace := 1 \<rparr>)"
| "expandMacro (Suc n) E load mb s =
     andThen (expand_loop E load (expandMacro n E load) (mb\<lparr> mb_depth := mb_depth mb + 1 \<rparr>) s)
       (\<lambda>(rc, mb'). Inr (rc, mb'\<lparr> mb_depth := mb_depth mb' - 1 \<rparr>))"

text \<open>The buffer \<open>sbuf\<close> has \<open>slen\<close> bytes; its new text comes last in the result. The state of an
  expansion around this one is kept.\<close>

definition expandMacros ::
  "menv \<Rightarrow> loader \<Rightarrow> MacroBuf \<Rightarrow> string \<Rightarrow> nat \<Rightarrow> (int \<times> MacroBuf \<times> string) outcome" where
  "expandMacros E load mb sbuf slen =
     (if slen = 0 then Inr (0, mb, sbuf)
      else
        andThen (expandMacro max_macro_depth E load
                   (mb\<lparr> mb_t := [], mb_nb := slen, mb_depth := 0,
                        mb_macro_trace := fst (mb_print mb), mb_expand_trace := snd (mb_print mb) \<rparr>) sbuf)
          (\<lambda>(rc, mb1).
            Inr (rc,
                 mb1\<lparr> mb_t := mb_t mb, mb_nb := mb_nb mb, mb_depth := mb_depth mb,
                      mb_macro_trace := mb_macro_trace mb, mb_expand_trace := mb_expand_trace mb \<rparr>,
                 if mb_nb mb1 = 0 then sbuf else cstr (mb_t mb1))))"

text \<open>\<open>rpmExpand\<close> and \<open>rpmMCExpand\<close>: the concatenation of the arguments, expanded.\<close>

definition rpmMCExpand ::
  "menv \<Rightarrow> loader \<Rightarrow> MacroBuf \<Rightarrow> string list \<Rightarrow> (MacroBuf \<times> string) outcome" where
  "rpmMCExpand E load mb args =
     (case args of
        [] \<Rightarrow> Inr (mb, [])
      | _ \<Rightarrow>
          let t = concat args; bufn = 8 * macro_BUFSIZ in
          andThen (expandMacros E load mb t (length t + bufn + 1)) (\<lambda>(rc, mb1, r).
            Inr (mb1, take (length t + bufn) r)))"

section \<open>Macro files\<close>

lemma rdcl_loop_le: "rdcl_loop acc bc pc room f = (l, r) \<Longrightarrow> length r \<le> length f"
proof (induction acc bc pc room f arbitrary: l r rule: rdcl_loop.induct)
  case (1 acc bc pc room f)
  show ?case
  proof (cases "fgets room f")
    case None
    with "1.prems" show ?thesis by (subst (asm) rdcl_loop.simps) simp
  next
    case (Some x)
    then obtain raw rest where x: "fgets room f = Some (raw, rest)" by (cases x) simp
    have le: "length rest \<le> length f"
    proof (cases "raw = []")
      case True
      have "fgets_line k f = ([], rest) \<Longrightarrow> rest = f" for k
        by (cases "(k, f)" rule: fgets_line.cases) (auto split: if_splits prod.splits)
      then show ?thesis using x True by (auto simp: fgets_def split: if_splits)
    next
      case False
      then show ?thesis using fgets_shorter[OF x] by simp
    qed
    obtain bc' pc' where sc: "rdcl_scan bc pc (trim_eol (cstr raw)) = (bc', pc')"
      by (cases "rdcl_scan bc pc (trim_eol (cstr raw))")
    note IH = "1.IH"[OF x refl refl refl refl sc[symmetric] refl refl]
    show ?thesis
      using "1.prems" IH le x sc
      by (subst (asm) rdcl_loop.simps) (fastforce simp: Let_def split: if_splits)
  qed
qed

lemma rdcl_shorter: "rdcl n f = Some (l, r) \<Longrightarrow> length r < length f"
proof -
  assume a: "rdcl n f = Some (l, r)"
  then obtain raw rest where x: "fgets n f = Some (raw, rest)" "cstr raw \<noteq> []"
    and l: "rdcl_loop [] 0 0 n f = (l, r)"
    by (auto simp: rdcl_def split: option.splits if_splits)
  obtain bc' pc' where sc: "rdcl_scan 0 0 (trim_eol (cstr raw)) = (bc', pc')"
    by (cases "rdcl_scan 0 0 (trim_eol (cstr raw))")
  have "raw \<noteq> []" using x(2) by (auto simp: cstr_def)
  then have lt: "length rest < length f" using fgets_shorter[OF x(1)] by simp
  show ?thesis
    using l lt x(1) sc rdcl_loop_le
    by (subst (asm) rdcl_loop.simps) (fastforce simp: Let_def split: if_splits)
qed

text \<open>\<open>rpmDefineMacro\<close> parses with a fresh buffer and expands nothing.\<close>

definition rpmDefineMacro :: "MacroBuf \<Rightarrow> string \<Rightarrow> int \<Rightarrow> MacroBuf outcome" where
  "rpmDefineMacro mb macro level =
     andThen (doDefine (\<lambda>m s. Inr (0, m)) mb macro level False) (\<lambda>(mb1, s). Inr mb1)"

definition rpmUndefineMacro :: "MacroBuf \<Rightarrow> string \<Rightarrow> MacroBuf outcome" where
  "rpmUndefineMacro mb macro = andThen (doUndefine mb macro) (\<lambda>(mb1, s). Inr mb1)"

text \<open>One line of a macro file; \<open>self\<close> loads another file. A failed load ends the file.\<close>

definition load_line ::
  "menv \<Rightarrow> loader \<Rightarrow> (MacroBuf \<Rightarrow> string \<Rightarrow> int \<Rightarrow> (int \<times> MacroBuf) outcome) \<Rightarrow> int \<Rightarrow> MacroBuf \<Rightarrow> string \<Rightarrow>
   (int \<times> MacroBuf) outcome" where
  "load_line E load self nesting mb buf =
     (let s = SKIPBLANK buf in
      if s = [] \<or> hd s \<noteq> CHR ''%'' then Inr (0, mb)
      else if take 6 (drop 1 s) = ''{load:'' then
        andThen (matchchar 0 (CHR ''{'') (CHR ''}'') s) (\<lambda>m.
          case m of
            None \<Rightarrow> Inr (0, mb)
          | Some se \<Rightarrow>
              let s' = SKIPBLANK (drop 7 s); fn = take (length s' - length se) s' in
              if nesting \<le> 0 then Inr (0, mb)
              else andThen (rpmMCExpand E load mb [fn]) (\<lambda>(mb1, fn'). self mb1 fn' (nesting - 1)))
      else andThen (rpmDefineMacro mb (tl s) (-13)) (\<lambda>mb1. Inr (0, mb1)))"

function load_lines ::
  "menv \<Rightarrow> loader \<Rightarrow> (MacroBuf \<Rightarrow> string \<Rightarrow> int \<Rightarrow> (int \<times> MacroBuf) outcome) \<Rightarrow> int \<Rightarrow> MacroBuf \<Rightarrow> string \<Rightarrow>
   (int \<times> MacroBuf) outcome" where
  "load_lines E load self nesting mb file =
     (case rdcl macro_BUFSIZ file of
        None \<Rightarrow> Inr (0, mb)
      | Some (buf, rest) \<Rightarrow>
          (case load_line E load self nesting mb buf of
             Inl e \<Rightarrow> Inl e
           | Inr (rc, mb1) \<Rightarrow> if rc \<noteq> 0 then Inr (rc, mb1) else load_lines E load self nesting mb1 rest))"
  by pat_completeness auto
termination
  by (relation "measure (\<lambda>(E, load, self, nesting, mb, file). length file)") (auto dest: rdcl_shorter)

declare load_lines.simps [simp del]

definition max_load_depth :: int where
  "max_load_depth = 2"

primrec rpmLoadMacroFile :: "nat \<Rightarrow> menv \<Rightarrow> MacroBuf \<Rightarrow> string \<Rightarrow> int \<Rightarrow> (int \<times> MacroBuf) outcome" where
  "rpmLoadMacroFile 0 E mb fn nesting = Inl StackOverflow"
| "rpmLoadMacroFile (Suc k) E mb fn nesting =
     (case env_file E (mb_clock mb) fn of
        None \<Rightarrow> Inr (-1, tick mb)
      | Some text \<Rightarrow>
          load_lines E (\<lambda>m f. rpmLoadMacroFile k E m f max_load_depth) (rpmLoadMacroFile k E) nesting
            (tick mb) text)"

definition load_macro :: "nat \<Rightarrow> menv \<Rightarrow> loader" where
  "load_macro k E mb fn = rpmLoadMacroFile k E mb fn max_load_depth"

section \<open>Reading the macro files of a path list\<close>

text \<open>The elements of a colon separated list; the colon of \<open>://\<close> does not separate.\<close>

fun split_colon :: "string \<Rightarrow> string \<times> string" where
  "split_colon [] = ([], [])"
| "split_colon (c # cs) =
     (if c = CHR '':'' \<and> take 2 cs \<noteq> ''//'' then ([], cs)
      else let (a, r) = split_colon cs in (c # a, r))"

lemma split_colon_le: "length (snd (split_colon s)) \<le> length s"
  by (induction s) (auto split: prod.splits)

function path_list :: "string \<Rightarrow> string list" where
  "path_list m = (if m = [] then [] else fst (split_colon m) # path_list (snd (split_colon m)))"
  by pat_completeness auto
termination
proof (relation "measure length", goal_cases)
  case (2 m)
  then show ?case
    using split_colon_le[of "tl m"] by (cases m) (auto split: prod.splits simp: less_Suc_eq_le)
qed simp

declare path_list.simps [simp del]

text \<open>Backup files and left-over files of packages are skipped.\<close>

definition has_suffix :: "string \<Rightarrow> nat \<Rightarrow> string \<Rightarrow> bool" where
  "has_suffix fn slen x \<longleftrightarrow> slen \<ge> length x + 1 \<and> drop (slen - length x) fn = x"

definition skip_file :: "string \<Rightarrow> nat \<Rightarrow> bool" where
  "skip_file fn slen \<longleftrightarrow>
     has_suffix fn slen ''~'' \<or> has_suffix fn slen ''.rpmnew'' \<or>
     has_suffix fn slen ''.rpmorig'' \<or> has_suffix fn slen ''.rpmsave''"

text \<open>One file of an element; \<open>@\<close> asks for a check of its owner and mode. The length is that of
  the name with the \<open>@\<close>.\<close>

definition init_file :: "nat \<Rightarrow> menv \<Rightarrow> MacroBuf \<Rightarrow> string \<Rightarrow> MacroBuf outcome" where
  "init_file k E mb av =
     (let at = (av \<noteq> [] \<and> hd av = CHR ''@''); fn = (if at then tl av else av);
          mb1 = (if at then tick mb else mb) in
      if at \<and> \<not> env_sane E (mb_clock mb) fn then Inr mb1
      else if skip_file fn (length av) then Inr mb1
      else andThen (rpmLoadMacroFile k E mb1 fn max_load_depth) (\<lambda>(rc, mb2). Inr mb2))"

fun init_files :: "nat \<Rightarrow> menv \<Rightarrow> MacroBuf \<Rightarrow> string list \<Rightarrow> MacroBuf outcome" where
  "init_files k E mb [] = Inr mb"
| "init_files k E mb (av # avs) = andThen (init_file k E mb av) (\<lambda>mb1. init_files k E mb1 avs)"

fun init_paths :: "nat \<Rightarrow> menv \<Rightarrow> MacroBuf \<Rightarrow> string list \<Rightarrow> MacroBuf outcome" where
  "init_paths k E mb [] = Inr mb"
| "init_paths k E mb (m # ms) =
     andThen
       (case env_glob E (mb_clock mb) m of
          None \<Rightarrow> Inr (tick mb)
        | Some avs \<Rightarrow> init_files k E (tick mb) avs)
       (\<lambda>mb1. init_paths k E mb1 ms)"

text \<open>The macros of the command line are copied over those of the files.\<close>

definition rpmInitMacros :: "nat \<Rightarrow> menv \<Rightarrow> MacroBuf \<Rightarrow> MacroContext \<Rightarrow> string \<Rightarrow> MacroBuf outcome" where
  "rpmInitMacros k E mb cli macrofiles =
     andThen (init_paths k E mb (path_list macrofiles)) (\<lambda>mb1.
       Inr (mb1\<lparr> mb_mc := rpmLoadMacros cli (mb_mc mb1) (-7) \<rparr>))"

end
