(* ===== verification/MacroTableThms.thy ===== *)
theory MacroTableThms
  imports MacroTable
begin

text \<open>
  What a macro table promises: it behaves like a map from names to stacks of definitions.
  The locale \<open>def_stacks\<close> is the contract that the expander relies on; it is discharged for
  the sorted array of \<open>rpmio/macro.c\<close> under the invariant \<open>mc_wf\<close>, which every
  operation keeps.
\<close>

section \<open>The contract\<close>

locale def_stacks =
  fixes inv :: "'m \<Rightarrow> bool"
    and defs :: "'m \<Rightarrow> string \<Rightarrow> 'e list"
    and push :: "'m \<Rightarrow> string \<Rightarrow> 'a \<Rightarrow> 'm"
    and pop :: "'m \<Rightarrow> string \<Rightarrow> 'm"
    and sweep :: "'m \<Rightarrow> int \<Rightarrow> 'm"
    and key :: "string \<Rightarrow> string"
    and mk :: "'e list \<Rightarrow> string \<Rightarrow> 'a \<Rightarrow> 'e"
    and blocked :: "'e list \<Rightarrow> string \<Rightarrow> bool"
    and lvl :: "'e \<Rightarrow> int"
  assumes inv_push: "inv m \<Longrightarrow> inv (push m n a)"
    and inv_pop: "inv m \<Longrightarrow> inv (pop m n)"
    and inv_sweep: "inv m \<Longrightarrow> inv (sweep m d)"
    and defs_push: "inv m \<Longrightarrow> defs (push m n a) =
          (if blocked (defs m (key n)) n then defs m
           else (defs m)(key n := mk (defs m (key n)) n a # defs m (key n)))"
    and defs_pop: "inv m \<Longrightarrow> defs (pop m n) = (defs m)(n := tl (defs m n))"
    and defs_sweep: "inv m \<Longrightarrow> defs (sweep m d) k =
          (if defs m k \<noteq> [] \<and> lvl (hd (defs m k)) \<ge> d then tl (defs m k) else defs m k)"
begin

lemma pop_push:
  "inv m \<Longrightarrow> \<not> blocked (defs m (key n)) n \<Longrightarrow> defs (pop (push m n a) (key n)) = defs m"
  by (simp add: defs_pop inv_push defs_push)

lemma push_other: "inv m \<Longrightarrow> k \<noteq> key n \<Longrightarrow> defs (push m n a) k = defs m k"
  by (simp add: defs_push)

definition push_all :: "(string \<times> 'a) list \<Rightarrow> 'm \<Rightarrow> 'm" where
  "push_all xs m = fold (\<lambda>(n, a) m. push m n a) xs m"

lemma inv_push_all: "inv m \<Longrightarrow> inv (push_all xs m)"
  by (induction xs arbitrary: m) (auto simp: push_all_def inv_push)

lemma push_all_Cons [simp]: "push_all ((n, a) # xs) m = push_all xs (push m n a)"
  by (simp add: push_all_def)

lemma push_all_Nil [simp]: "push_all [] m = m"
  by (simp add: push_all_def)

lemma defs_push_all_other:
  "inv m \<Longrightarrow> k \<notin> key ` fst ` set xs \<Longrightarrow> defs (push_all xs m) k = defs m k"
proof (induction xs arbitrary: m)
  case (Cons x xs)
  then show ?case by (cases x) (simp add: inv_push push_other)
qed simp

lemma defs_push_all:
  "inv m \<Longrightarrow> distinct (map (key \<circ> fst) xs) \<Longrightarrow> (n, a) \<in> set xs \<Longrightarrow>
   \<not> blocked (defs m (key n)) n \<Longrightarrow>
   defs (push_all xs m) (key n) = mk (defs m (key n)) n a # defs m (key n)"
proof (induction xs arbitrary: m)
  case (Cons x xs)
  obtain n' a' where x: "x = (n', a')" by (cases x)
  show ?case
  proof (cases "n' = n \<and> a' = a")
    case True
    with Cons.prems show ?thesis
      by (simp add: x defs_push_all_other inv_push defs_push image_comp o_def)
  next
    case False
    then have "(n, a) \<in> set xs" using Cons.prems(3) x by auto
    moreover have "key n \<noteq> key n'" using Cons.prems(2) calculation x by (force simp: image_iff)
    ultimately show ?thesis
      using Cons.IH[of "push m n' a'"] Cons.prems x by (simp add: inv_push push_other)
  qed
qed simp

text \<open>Definitions made at a level under which nothing was defined before disappear again in
  one sweep, if no name was defined twice.\<close>

lemma sweep_push_all:
  assumes "inv m" "distinct (map (key \<circ> fst) xs)"
    and "\<And>n a. (n, a) \<in> set xs \<Longrightarrow>
          \<not> blocked (defs m (key n)) n \<and> lvl (mk (defs m (key n)) n a) \<ge> d"
    and "\<And>k. defs m k \<noteq> [] \<Longrightarrow> lvl (hd (defs m k)) < d"
  shows "defs (sweep (push_all xs m) d) = defs m"
proof
  fix k
  show "defs (sweep (push_all xs m) d) k = defs m k"
  proof (cases "k \<in> key ` fst ` set xs")
    case True
    then obtain n a where na: "(n, a) \<in> set xs" "k = key n" by auto
    then show ?thesis
      using defs_push_all[OF assms(1,2) na(1)] assms(3)[OF na(1)]
      by (simp add: defs_sweep inv_push_all assms(1))
  next
    case False
    then show ?thesis
      using assms(4)[of k] by (auto simp: defs_sweep inv_push_all assms(1) defs_push_all_other)
  qed
qed

end

section \<open>Looking up a name in a list of slots\<close>

definition slots :: "MacroContext \<Rightarrow> MacroEntry list list" where
  "slots mc = take (firstFree mc) (macroTable mc)"

definition slot_name :: "MacroEntry list \<Rightarrow> string" where
  "slot_name c = me_name (hd c)"

definition lookup_chain :: "MacroEntry list list \<Rightarrow> string \<Rightarrow> MacroEntry list" where
  "lookup_chain cs n =
     (case List.find (\<lambda>c. c \<noteq> [] \<and> slot_name c = n) cs of None \<Rightarrow> [] | Some c \<Rightarrow> c)"

definition defs_of :: "MacroContext \<Rightarrow> string \<Rightarrow> MacroEntry list" where
  "defs_of mc = lookup_chain (slots mc)"

definition chain_ok :: "MacroEntry list \<Rightarrow> bool" where
  "chain_ok c \<longleftrightarrow> (\<forall>e\<in>set c. me_name e = slot_name c)"

definition chains_ok :: "MacroEntry list list \<Rightarrow> bool" where
  "chains_ok cs \<longleftrightarrow> (\<forall>c\<in>set cs. chain_ok c) \<and> distinct (map slot_name (filter (\<lambda>c. c \<noteq> []) cs))"

interpretation mname: comparator compareMacroName "\<lambda>_. True"
proof (unfold_locales, goal_cases)
  case (1 a b)
  show ?case by (cases a; cases b) (simp_all add: strcmp_antisym)
next
  case (2 a b c)
  then show ?case by (cases a; cases b; cases c) (auto intro: strcmp_trans)
qed

text \<open>The invariant: full length, a whole number of chunks, null behind \<open>firstFree\<close>, and
  before it sorted non-empty chains, one for each name.\<close>

definition mc_wf :: "MacroContext \<Rightarrow> bool" where
  "mc_wf mc \<longleftrightarrow>
     length (macroTable mc) = macrosAllocated mc \<and> firstFree mc \<le> macrosAllocated mc \<and>
     MACRO_CHUNK_SIZE dvd macrosAllocated mc \<and>
     (\<forall>c\<in>set (drop (firstFree mc) (macroTable mc)). c = []) \<and>
     [] \<notin> set (slots mc) \<and> chains_ok (slots mc) \<and> mname.ordered (slots mc)"

lemma lookup_chain_Nil [simp]: "lookup_chain [] n = []"
  by (simp add: lookup_chain_def)

lemma lookup_chain_Cons [simp]:
  "lookup_chain (c # cs) n = (if c \<noteq> [] \<and> slot_name c = n then c else lookup_chain cs n)"
  by (simp add: lookup_chain_def)

lemma lookup_chain_filter: "lookup_chain (filter (\<lambda>c. c \<noteq> []) cs) n = lookup_chain cs n"
  by (induction cs) auto

lemma lookup_chain_append:
  "lookup_chain (xs @ ys) n = (if lookup_chain xs n = [] then lookup_chain ys n else lookup_chain xs n)"
  by (induction xs) auto

lemma lookup_chain_in: "lookup_chain cs n \<noteq> [] \<Longrightarrow> lookup_chain cs n \<in> set cs \<and> slot_name (lookup_chain cs n) = n"
  by (induction cs) (auto split: if_splits)

lemma lookup_chain_mem:
  "chains_ok cs \<Longrightarrow> c \<in> set cs \<Longrightarrow> c \<noteq> [] \<Longrightarrow> lookup_chain cs (slot_name c) = c"
proof (induction cs)
  case (Cons d ds)
  show ?case
  proof (cases "d \<noteq> [] \<and> slot_name d = slot_name c")
    case True
    have "c = d"
    proof (rule ccontr)
      assume "c \<noteq> d"
      then have "slot_name c \<in> slot_name ` set (filter (\<lambda>c. c \<noteq> []) ds)" using Cons.prems by auto
      then show False using Cons.prems(1) True by (auto simp: chains_ok_def)
    qed
    with True show ?thesis by simp
  next
    case False
    with Cons show ?thesis by (auto simp: chains_ok_def split: if_splits)
  qed
qed simp

lemma lookup_chain_empty_iff: "lookup_chain cs n = [] \<longleftrightarrow> (\<forall>c\<in>set cs. c \<noteq> [] \<longrightarrow> slot_name c \<noteq> n)"
  by (induction cs) auto

text \<open>The lookup depends on the set of the non-empty chains only.\<close>

lemma lookup_chain_cong:
  assumes "chains_ok xs" "chains_ok ys" "set xs - {[]} = set ys - {[]}"
  shows "lookup_chain xs n = lookup_chain ys n"
proof (cases "lookup_chain xs n = []")
  case True
  have "lookup_chain ys n = []"
  proof (rule ccontr)
    assume ne: "lookup_chain ys n \<noteq> []"
    then have "lookup_chain ys n \<in> set xs" "slot_name (lookup_chain ys n) = n"
      using lookup_chain_in[OF ne] assms(3) by auto
    then show False using True ne by (metis lookup_chain_empty_iff)
  qed
  with True show ?thesis by simp
next
  case False
  then have "lookup_chain xs n \<in> set ys" "slot_name (lookup_chain xs n) = n"
    using lookup_chain_in[OF False] assms(3) by auto
  then show ?thesis using lookup_chain_mem[OF assms(2), of "lookup_chain xs n"] False by simp
qed

lemma chains_ok_mset: "mset xs = mset ys \<Longrightarrow> chains_ok xs \<Longrightarrow> chains_ok ys"
proof -
  assume m: "mset xs = mset ys" and ok: "chains_ok xs"
  have "mset (map slot_name (filter (\<lambda>c. c \<noteq> []) ys)) = mset (map slot_name (filter (\<lambda>c. c \<noteq> []) xs))"
    by (simp add: m)
  then have "distinct (map slot_name (filter (\<lambda>c. c \<noteq> []) ys))"
    using ok unfolding chains_ok_def by (metis mset_eq_imp_distinct_iff)
  then show ?thesis
    using ok m unfolding chains_ok_def by (metis mset_eq_setD)
qed

lemma chains_ok_filter: "chains_ok xs \<Longrightarrow> chains_ok (filter (\<lambda>c. c \<noteq> []) xs)"
  by (simp add: chains_ok_def)

lemma defs_of_chain: "defs_of mc n \<noteq> [] \<Longrightarrow> slot_name (defs_of mc n) = n"
  using lookup_chain_in by (auto simp: defs_of_def)

lemma defs_of_names:
  assumes "mc_wf mc" "e \<in> set (defs_of mc n)"
  shows "me_name e = n"
proof -
  have ne: "defs_of mc n \<noteq> []" using assms(2) by auto
  then have "defs_of mc n \<in> set (slots mc)" "slot_name (defs_of mc n) = n"
    using lookup_chain_in[of "slots mc" n] by (simp_all add: defs_of_def)
  then show ?thesis using assms by (auto simp: mc_wf_def chains_ok_def chain_ok_def)
qed

section \<open>Sorting a table\<close>

lemma takeWhile_ordered: "mname.ordered cs \<Longrightarrow> takeWhile (\<lambda>c. c \<noteq> []) cs = filter (\<lambda>c. c \<noteq> []) cs"
proof (induction cs)
  case (Cons c cs)
  have "c = [] \<Longrightarrow> filter (\<lambda>c. c \<noteq> []) cs = []"
  proof -
    assume "c = []"
    then have "\<forall>d\<in>set cs. compareMacroName [] d \<le> 0" using Cons.prems by (simp add: mname.ordered_def)
    moreover have "\<And>d. compareMacroName [] d \<le> 0 \<Longrightarrow> d = []" by (case_tac d) auto
    ultimately show ?thesis by (auto simp: filter_empty_conv)
  qed
  with Cons show ?case by (auto simp: mname.ordered_def)
qed simp

lemma takeWhile_filter_rest: "takeWhile P xs = filter P xs \<Longrightarrow> x \<in> set (dropWhile P xs) \<Longrightarrow> \<not> P x"
proof (induction xs)
  case (Cons y ys)
  then show ?case by (cases "P y") (auto simp: filter_empty_conv eq_commute[of "[]"])
qed simp

lemma ordered_filter: "mname.ordered cs \<Longrightarrow> mname.ordered (filter P cs)"
  by (simp add: mname.ordered_def sorted_wrt_filter)

text \<open>The shape of a table between a change of its slots and the sort that follows.\<close>

definition presorted :: "MacroContext \<Rightarrow> bool" where
  "presorted mc \<longleftrightarrow>
     length (macroTable mc) = macrosAllocated mc \<and> firstFree mc \<le> macrosAllocated mc \<and>
     MACRO_CHUNK_SIZE dvd macrosAllocated mc \<and>
     (\<forall>c\<in>set (drop (firstFree mc) (macroTable mc)). c = []) \<and> chains_ok (slots mc)"

lemma mc_wf_presorted: "mc_wf mc \<Longrightarrow> presorted mc"
  by (simp add: mc_wf_def presorted_def)

lemma sortMacroTable_ok:
  assumes "presorted mc"
  shows "mc_wf (sortMacroTable mc) \<and> defs_of (sortMacroTable mc) = defs_of mc"
proof (cases "macroTable mc = []")
  case True
  then have "slots mc = []" by (simp add: slots_def)
  with True assms show ?thesis
    by (simp add: sortMacroTable_def mc_wf_def presorted_def mname.ordered_def)
next
  case False
  let ?t = "qsort compareMacroName (slots mc)"
  let ?r = "drop (firstFree mc) (macroTable mc)"
  let ?f = "filter (\<lambda>c. c \<noteq> []) ?t"
  have rn: "\<forall>c\<in>set ?r. c = []" using assms unfolding presorted_def by blast
  have ord: "mname.ordered ?t" by (rule mname.ordered_qsort) simp
  have tw: "takeWhile (\<lambda>c. c \<noteq> []) ?t = ?f" using takeWhile_ordered[OF ord] .
  have len: "length ?t = firstFree mc" using assms by (simp add: slots_def presorted_def)
  have s: "sortMacroTable mc = mc\<lparr> macroTable := ?t @ ?r, firstFree := length ?f \<rparr>"
    using False by (simp add: sortMacroTable_def slots_def[symmetric] Let_def tw)
  have lf: "length ?f \<le> length ?t" by (rule length_filter_le)
  have pre: "take (length ?f) ?t = ?f" using tw takeWhile_eq_take[of "\<lambda>c. c \<noteq> []" ?t] by simp
  have dr: "drop (length ?f) ?t = dropWhile (\<lambda>c. c \<noteq> []) ?t"
    using tw dropWhile_eq_drop[of "\<lambda>c. c \<noteq> []" ?t] by simp
  have sl: "slots (sortMacroTable mc) = ?f" using s pre lf by (simp add: slots_def)
  have ok: "chains_ok ?t" using assms chains_ok_mset[of "slots mc" ?t] by (simp add: presorted_def)
  have nils: "\<forall>c\<in>set (dropWhile (\<lambda>c. c \<noteq> []) ?t). c = []"
    using takeWhile_filter_rest[OF tw] by blast
  have dt: "drop (firstFree (sortMacroTable mc)) (macroTable (sortMacroTable mc)) =
      dropWhile (\<lambda>c. c \<noteq> []) ?t @ ?r"
    using s lf dr by simp
  have "\<forall>c\<in>set (drop (firstFree (sortMacroTable mc)) (macroTable (sortMacroTable mc))). c = []"
    unfolding dt set_append using nils rn by blast
  moreover have "length (macroTable (sortMacroTable mc)) = macrosAllocated mc"
    using s len assms by (simp add: presorted_def)
  moreover have "macrosAllocated (sortMacroTable mc) = macrosAllocated mc" using s by simp
  moreover have "firstFree (sortMacroTable mc) \<le> macrosAllocated mc"
    using s lf len assms by (simp add: presorted_def)
  ultimately have wf: "mc_wf (sortMacroTable mc)"
    using assms sl ordered_filter[OF ord] chains_ok_filter[OF ok] by (auto simp: mc_wf_def presorted_def)
  have "lookup_chain ?f n = lookup_chain (slots mc) n" for n
    using assms by (intro lookup_chain_cong chains_ok_filter[OF ok]) (auto simp: presorted_def)
  then show ?thesis using wf sl by (auto simp: defs_of_def)
qed

section \<open>Finding a name\<close>

lemma compare_key: "c \<noteq> [] \<Longrightarrow> compareMacroName [macro_key n] c = 0 \<longleftrightarrow> slot_name c = n"
  by (cases c) (auto simp: macro_key_def slot_name_def)

lemma macro_findEntry_Some:
  assumes "mc_wf mc" "macro_findEntry mc n 0 = Some i"
  shows "i < firstFree mc \<and> i < length (macroTable mc) \<and> macroTable mc ! i = defs_of mc n \<and> defs_of mc n \<noteq> []"
proof -
  from assms(2) have b: "bsearch compareMacroName [macro_key n] (slots mc) = Some i"
    by (auto simp: macro_findEntry_def slots_def split: if_splits)
  from bsearch_Some[OF b] have i: "i < length (slots mc)" "compareMacroName [macro_key n] (slots mc ! i) = 0"
    by auto
  have mem: "slots mc ! i \<in> set (slots mc)" using i(1) by simp
  then have ne: "slots mc ! i \<noteq> []" using assms(1) unfolding mc_wf_def by metis
  then have "slot_name (slots mc ! i) = n" using i(2) compare_key by blast
  then have "slots mc ! i = defs_of mc n"
    using lookup_chain_mem[of "slots mc" "slots mc ! i"] mem ne assms(1) by (simp add: mc_wf_def defs_of_def)
  then show ?thesis using i(1) ne by (auto simp: slots_def)
qed

lemma macro_findEntry_None:
  assumes "mc_wf mc"
  shows "macro_findEntry mc n 0 = None \<longleftrightarrow> defs_of mc n = []"
proof -
  have "bsearch compareMacroName [macro_key n] (slots mc) = None \<longleftrightarrow> defs_of mc n = []"
  proof -
    have o': "mname.ordered (slots mc)" using assms by (simp add: mc_wf_def)
    have "(\<exists>i. bsearch compareMacroName [macro_key n] (slots mc) = Some i) \<longleftrightarrow>
        (\<exists>c\<in>set (slots mc). compareMacroName [macro_key n] c = 0)"
      using mname.bsearch_finds[of "slots mc" "[macro_key n]", OF _ _ o'] by auto
    also have "\<dots> \<longleftrightarrow> (\<exists>c\<in>set (slots mc). slot_name c = n)"
      using assms compare_key unfolding mc_wf_def by metis
    also have "\<dots> \<longleftrightarrow> defs_of mc n \<noteq> []"
      using assms unfolding mc_wf_def defs_of_def by (metis lookup_chain_empty_iff)
    finally show ?thesis by auto
  qed
  then show ?thesis by (auto simp: macro_findEntry_def slots_def defs_of_def)
qed

lemma macro_findEntry_take: "n > 0 \<Longrightarrow> macro_findEntry mc s n = macro_findEntry mc (take n s) 0"
  by (simp add: macro_findEntry_def)

lemma current_def_eq: "mc_wf mc \<Longrightarrow> current_def mc n 0 = defs_of mc n"
  using macro_findEntry_Some macro_findEntry_None by (auto simp: current_def_def split: option.splits)

lemma current_def_take: "mc_wf mc \<Longrightarrow> k > 0 \<Longrightarrow> current_def mc n k = defs_of mc (take k n)"
  using current_def_eq[of mc "take k n"] by (simp add: current_def_def macro_findEntry_take)


section \<open>Replacing one slot\<close>

lemma chains_ok_notin:
  assumes "chains_ok (a @ c # b)" "c \<noteq> []" "x \<in> set a \<union> set b" "x \<noteq> []"
  shows "slot_name x \<noteq> slot_name c"
proof -
  have "x \<in> {y \<in> set a. y \<noteq> []} \<union> {y \<in> set b. y \<noteq> []}" using assms(3,4) by blast
  then have "slot_name x \<in> set (map slot_name (filter (\<lambda>c. c \<noteq> []) a)) \<union> set (map slot_name (filter (\<lambda>c. c \<noteq> []) b))"
    by auto
  moreover have "distinct (map slot_name (filter (\<lambda>c. c \<noteq> []) a) @ slot_name c # map slot_name (filter (\<lambda>c. c \<noteq> []) b))"
    using assms(1,2) unfolding chains_ok_def by simp
  ultimately show ?thesis by (auto simp del: set_map)
qed

lemma split_at:
  assumes "i < length xs"
  shows "\<exists>a b. xs = a @ (xs ! i) # b \<and> xs[i := y] = a @ y # b"
  using assms id_take_nth_drop[of i xs] upd_conv_take_nth_drop[of i xs] by blast

lemma lookup_chain_update:
  assumes ok: "chains_ok xs" and i: "i < length xs" "xs ! i \<noteq> []"
    and c': "c' = [] \<or> slot_name c' = slot_name (xs ! i)"
  shows "lookup_chain (xs[i := c']) = (lookup_chain xs)(slot_name (xs ! i) := c')"
proof
  fix k
  obtain a b where xs: "xs = a @ (xs ! i) # b" "xs[i := c'] = a @ c' # b"
    using split_at[OF i(1)] by metis
  let ?c = "xs ! i"
  have ok': "chains_ok (a @ ?c # b)" using ok unfolding xs(1)[symmetric] .
  have notin: "lookup_chain a (slot_name ?c) = []" "lookup_chain b (slot_name ?c) = []"
    using chains_ok_notin[OF ok' i(2)] by (auto simp: lookup_chain_empty_iff)
  have "lookup_chain (a @ c' # b) k = ((lookup_chain (a @ ?c # b))(slot_name ?c := c')) k"
    using c' notin by (auto simp: lookup_chain_append)
  then show "lookup_chain (xs[i := c']) k = ((lookup_chain xs)(slot_name (xs ! i) := c')) k"
    unfolding xs(2) xs(1)[symmetric] .
qed

lemma chains_ok_update:
  assumes ok: "chains_ok xs" and i: "i < length xs" "xs ! i \<noteq> []"
    and c': "c' = [] \<or> slot_name c' = slot_name (xs ! i)" "chain_ok c'"
  shows "chains_ok (xs[i := c'])"
proof -
  obtain a b where xs: "xs = a @ (xs ! i) # b" "xs[i := c'] = a @ c' # b"
    using split_at[OF i(1)] by metis
  let ?c = "xs ! i"
  have ok': "chains_ok (a @ ?c # b)" using ok unfolding xs(1)[symmetric] .
  show ?thesis unfolding xs(2)
    using ok' c' i(2) by (cases "c' = []") (simp_all add: chains_ok_def)
qed

lemma ordered_update:
  assumes "mname.ordered xs" "i < length xs" "xs ! i \<noteq> []" "c' \<noteq> []" "slot_name c' = slot_name (xs ! i)"
  shows "mname.ordered (xs[i := c'])"
proof -
  have "compareMacroName x c' = compareMacroName x (xs ! i)"
    "compareMacroName c' x = compareMacroName (xs ! i) x" for x
    using assms(3-5) by (cases c'; cases "xs ! i"; cases x; simp add: slot_name_def)+
  then show ?thesis
    using assms(1,2) by (auto simp: mname.ordered_def sorted_wrt_iff_nth_less nth_list_update)
qed

definition put_chain :: "MacroContext \<Rightarrow> nat \<Rightarrow> MacroEntry list \<Rightarrow> MacroContext" where
  "put_chain mc i c = mc\<lparr> macroTable := (macroTable mc)[i := c] \<rparr>"

lemma slots_put_chain: "i < firstFree mc \<Longrightarrow> slots (put_chain mc i c) = (slots mc)[i := c]"
  by (simp add: slots_def put_chain_def take_update_swap)

lemma put_chain_presorted:
  assumes "mc_wf mc" "macro_findEntry mc n 0 = Some i" "c = [] \<or> slot_name c = n" "chain_ok c"
  shows "presorted (put_chain mc i c) \<and> defs_of (put_chain mc i c) = (defs_of mc)(n := c) \<and>
     (c \<noteq> [] \<longrightarrow> mc_wf (put_chain mc i c))"
proof -
  from macro_findEntry_Some[OF assms(1,2)] have f: "i < firstFree mc" "i < length (macroTable mc)"
    "macroTable mc ! i = defs_of mc n" "defs_of mc n \<noteq> []" by auto
  then have i: "i < length (slots mc)" "slots mc ! i = defs_of mc n"
    using assms(1) by (auto simp: slots_def mc_wf_def)
  have nm: "slot_name (slots mc ! i) = n" using defs_of_chain f(4) i(2) by simp
  have ok: "chains_ok (slots mc)" "mname.ordered (slots mc)" "[] \<notin> set (slots mc)"
    using assms(1) by (simp_all add: mc_wf_def)
  have sl: "slots (put_chain mc i c) = (slots mc)[i := c]" using slots_put_chain[OF f(1)] .
  have ok': "chains_ok ((slots mc)[i := c])"
    using chains_ok_update[OF ok(1) i(1)] i f(4) assms(3,4) nm by auto
  have look: "lookup_chain ((slots mc)[i := c]) = (lookup_chain (slots mc))(n := c)"
    using lookup_chain_update[OF ok(1) i(1), of c] i f(4) assms(3) nm by auto
  have ps: "presorted (put_chain mc i c)"
    using assms(1) ok' sl f(1) by (simp add: presorted_def mc_wf_def put_chain_def)
  have "mc_wf (put_chain mc i c)" if "c \<noteq> []"
  proof -
    have "mname.ordered ((slots mc)[i := c])"
      using ordered_update[OF ok(2) i(1) _ that] i f(4) assms(3) nm that by auto
    moreover have "[] \<notin> set ((slots mc)[i := c])"
      using ok(3) that set_update_subset_insert[of "slots mc" i c] by auto
    ultimately show ?thesis using ps sl by (simp add: mc_wf_def presorted_def)
  qed
  then show ?thesis using ps look sl by (simp add: defs_of_def)
qed

section \<open>The operations\<close>

lemma plain_name_skip: "skip_dot n = n \<Longrightarrow> plain_name n = n"
  by (simp add: plain_name_def)

lemma chain_ok_push:
  "chain_ok c \<Longrightarrow> chain_ok (pushMacro c n o' b l)"
  "slot_name (pushMacro c n o' b l) = (if c = [] then plain_name n else slot_name c)"
  "pushMacro c n o' b l \<noteq> []"
  by (cases c; auto simp: pushMacro_def Let_def chain_ok_def slot_name_def)+

lemma chain_ok_pop:
  "chain_ok c \<Longrightarrow> chain_ok (popMacro c)"
  "chain_ok c \<Longrightarrow> popMacro c = [] \<or> slot_name (popMacro c) = slot_name c"
proof -
  assume "chain_ok c"
  then show "chain_ok (popMacro c)" "popMacro c = [] \<or> slot_name (popMacro c) = slot_name c"
    by (cases c rule: remdups_adj.cases; simp add: chain_ok_def popMacro_def slot_name_def)+
qed

lemma popMacro_tl: "popMacro c = tl c"
  by (cases c) (simp_all add: popMacro_def)

lemma defs_of_chain_ok: "mc_wf mc \<Longrightarrow> chain_ok (defs_of mc n)"
  using defs_of_names[of mc] defs_of_chain[of mc n] by (cases "defs_of mc n = []") (auto simp: chain_ok_def)

lemma expandMacroTable_ok:
  assumes "mc_wf mc" "firstFree mc = macrosAllocated mc"
  shows "mc_wf (expandMacroTable mc)" "slots (expandMacroTable mc) = slots mc"
    "firstFree (expandMacroTable mc) < macrosAllocated (expandMacroTable mc)"
    "firstFree (expandMacroTable mc) = firstFree mc"
proof -
  have len: "length (macroTable mc) = macrosAllocated mc" using assms by (simp add: mc_wf_def)
  let ?m = "expandMacroTable mc"
  have t: "macroTable ?m = macroTable mc @ replicate MACRO_CHUNK_SIZE []"
    "macrosAllocated ?m = macrosAllocated mc + MACRO_CHUNK_SIZE" "firstFree ?m = firstFree mc"
    using assms(2) len by (auto simp: expandMacroTable_def Let_def)
  then show s: "slots ?m = slots mc" using assms(2) len by (simp add: slots_def)
  show "firstFree ?m < macrosAllocated ?m" using t assms(2) by (simp add: MACRO_CHUNK_SIZE_def)
  show "firstFree ?m = firstFree mc" by (rule t)
  show "mc_wf ?m" using assms s t len by (auto simp: mc_wf_def)
qed

lemma addMacro_found:
  assumes "mc_wf mc" "macro_findEntry mc (plain_name n) 0 = Some i"
  shows "addMacro mc n o' b l =
    (if readonly_blocks (defs_of mc (plain_name n)) n then mc
     else put_chain mc i (pushMacro (defs_of mc (plain_name n)) n o' b l))"
  using macro_findEntry_Some[OF assms] assms(2) by (simp add: addMacro_def put_chain_def)

definition grown_table :: "MacroContext \<Rightarrow> MacroContext" where
  "grown_table mc = (if firstFree mc = macrosAllocated mc then expandMacroTable mc else mc)"

lemma grown_table_ok:
  assumes "mc_wf mc"
  shows "mc_wf (grown_table mc)" "slots (grown_table mc) = slots mc" "firstFree (grown_table mc) < macrosAllocated (grown_table mc)"
  using assms expandMacroTable_ok[OF assms] by (auto simp: grown_table_def mc_wf_def[of mc])

lemma addMacro_new:
  assumes "mc_wf mc" "macro_findEntry mc (plain_name n) 0 = None"
  shows "addMacro mc n o' b l =
    sortMacroTable ((grown_table mc)\<lparr> firstFree := Suc (firstFree (grown_table mc)),
       macroTable := (macroTable (grown_table mc))[firstFree (grown_table mc) := pushMacro [] n o' b l] \<rparr>)"
proof -
  have "macroTable (grown_table mc) ! firstFree (grown_table mc) \<in> set (drop (firstFree (grown_table mc)) (macroTable (grown_table mc)))"
    using grown_table_ok[OF assms(1)] by (metis Cons_nth_drop_Suc list.set_intros(1) mc_wf_def)
  then have "macroTable (grown_table mc) ! firstFree (grown_table mc) = []"
    using grown_table_ok(1)[OF assms(1)] by (simp add: mc_wf_def)
  then show ?thesis
    using assms(2) by (simp add: addMacro_def grown_table_def[symmetric] Let_def readonly_blocks_def)
qed

lemma addMacro_new_ok:
  assumes "mc_wf mc" "macro_findEntry mc (plain_name n) 0 = None"
  shows "mc_wf (addMacro mc n o' b l) \<and>
    defs_of (addMacro mc n o' b l) = (defs_of mc)(plain_name n := pushMacro [] n o' b l)"
proof -
  let ?g = "grown_table mc" and ?c = "pushMacro [] n o' b l"
  let ?m = "?g\<lparr> firstFree := Suc (firstFree ?g), macroTable := (macroTable ?g)[firstFree ?g := ?c] \<rparr>"
  note g = grown_table_ok[OF assms(1)]
  have len: "firstFree ?g < length (macroTable ?g)" using g by (simp add: mc_wf_def)
  have "take (Suc k) (t[k := x]) = take k t @ [x]" if "k < length t" for k and t :: "MacroEntry list list" and x
    using that by (simp add: take_Suc_conv_app_nth)
  then have sl: "slots ?m = slots mc @ [?c]"
    using len g(2) by (simp add: slots_def)
  have none: "lookup_chain (slots mc) (plain_name n) = []"
    using macro_findEntry_None[OF assms(1)] assms(2) by (simp add: defs_of_def)
  have nm: "slot_name ?c = plain_name n" "?c \<noteq> []" "chain_ok ?c"
    using chain_ok_push[of "[]"] by (auto simp: chain_ok_def)
  have ok: "chains_ok (slots mc @ [?c])"
    using assms(1) none nm unfolding lookup_chain_empty_iff by (auto simp: chains_ok_def mc_wf_def)
  have rest: "\<forall>c\<in>set (drop (Suc (firstFree ?g)) (macroTable ?g)). c = []"
    using g(1) unfolding mc_wf_def by (metis Suc_n_not_le_n in_set_dropD le_cases drop_drop plus_1_eq_Suc)
  have "presorted ?m"
    using g(1) len ok sl rest by (simp add: presorted_def mc_wf_def)
  moreover have "defs_of ?m = (defs_of mc)(plain_name n := ?c)"
    using sl nm none by (auto simp: defs_of_def lookup_chain_append)
  ultimately show ?thesis
    using sortMacroTable_ok[of ?m] addMacro_new[OF assms] by simp
qed

theorem addMacro_ok:
  assumes "mc_wf mc"
  shows "mc_wf (addMacro mc n o' b l) \<and>
    defs_of (addMacro mc n o' b l) =
      (if readonly_blocks (defs_of mc (plain_name n)) n then defs_of mc
       else (defs_of mc)(plain_name n := pushMacro (defs_of mc (plain_name n)) n o' b l))"
proof (cases "macro_findEntry mc (plain_name n) 0")
  case None
  then have "defs_of mc (plain_name n) = []" using macro_findEntry_None[OF assms] by simp
  then show ?thesis using addMacro_new_ok[OF assms None] by (simp add: readonly_blocks_def)
next
  case (Some i)
  let ?c = "pushMacro (defs_of mc (plain_name n)) n o' b l"
  have "defs_of mc (plain_name n) \<noteq> []" using macro_findEntry_Some[OF assms Some] by simp
  then have "slot_name ?c = plain_name n" "?c \<noteq> []" "chain_ok ?c"
    using chain_ok_push[of "defs_of mc (plain_name n)"] defs_of_chain defs_of_chain_ok[OF assms] by auto
  then show ?thesis
    using put_chain_presorted[OF assms Some, of ?c] addMacro_found[OF assms Some] assms by simp
qed

theorem delMacro_ok:
  assumes "mc_wf mc"
  shows "mc_wf (delMacro mc n) \<and> defs_of (delMacro mc n) = (defs_of mc)(n := tl (defs_of mc n))"
proof (cases "macro_findEntry mc n 0")
  case None
  then have "defs_of mc n = []" using macro_findEntry_None[OF assms] by simp
  then show ?thesis using None assms by (auto simp: delMacro_def)
next
  case (Some i)
  let ?c = "popMacro (defs_of mc n)"
  have ne: "defs_of mc n \<noteq> []" "macroTable mc ! i = defs_of mc n"
    using macro_findEntry_Some[OF assms Some] by simp_all
  have ok: "?c = [] \<or> slot_name ?c = n" "chain_ok ?c"
    using chain_ok_pop[OF defs_of_chain_ok[OF assms]] defs_of_chain[OF ne(1)] by metis+
  show ?thesis
    using put_chain_presorted[OF assms Some ok] sortMacroTable_ok[of "put_chain mc i ?c"] Some ne
    by (auto simp: delMacro_def put_chain_def[symmetric] Let_def popMacro_tl)
qed

lemma free_slot_ok:
  "chain_ok c \<Longrightarrow> chain_ok (free_slot d c)"
  "chain_ok c \<Longrightarrow> free_slot d c = [] \<or> slot_name (free_slot d c) = slot_name c"
  "free_slot d [] = []"
  using chain_ok_pop[of c] by (auto simp: free_slot_def split: list.splits)

lemma free_slot_eq:
  "free_slot d c = (if c \<noteq> [] \<and> me_level (hd c) \<ge> d then tl c else c)"
  by (cases c) (auto simp: free_slot_def popMacro_def)

lemma lookup_map_free:
  "\<forall>c\<in>set cs. chain_ok c \<Longrightarrow> distinct (map slot_name (filter (\<lambda>c. c \<noteq> []) cs)) \<Longrightarrow>
   lookup_chain (map (free_slot d) cs) n = free_slot d (lookup_chain cs n)"
proof (induction cs)
  case (Cons c cs)
  have IH: "lookup_chain (map (free_slot d) cs) n = free_slot d (lookup_chain cs n)"
    using Cons by (auto split: if_splits)
  show ?case
  proof (cases "c \<noteq> [] \<and> slot_name c = n")
    case True
    then have "lookup_chain cs n = []"
      using Cons.prems chains_ok_notin[of "[]" c cs] by (auto simp: lookup_chain_empty_iff chains_ok_def)
    then show ?thesis
      using True IH free_slot_ok(2)[of c d] Cons.prems(1) by (auto simp: free_slot_ok(3))
  next
    case False
    then show ?thesis using IH free_slot_ok(2)[of c d] Cons.prems(1) by (cases "c = []") (auto simp: free_slot_ok(3))
  qed
qed (simp add: free_slot_ok(3))

lemma chains_ok_map_free: "chains_ok cs \<Longrightarrow> chains_ok (map (free_slot d) cs)"
proof (induction cs)
  case (Cons c cs)
  then have IH: "chains_ok (map (free_slot d) cs)" and c: "chain_ok c" by (auto simp: chains_ok_def split: if_splits)
  have "slot_name c \<notin> slot_name ` {x \<in> free_slot d ` set cs. x \<noteq> []}" if "c \<noteq> []"
  proof
    assume "slot_name c \<in> slot_name ` {x \<in> free_slot d ` set cs. x \<noteq> []}"
    then obtain x where x: "x \<in> set cs" "free_slot d x \<noteq> []" "slot_name (free_slot d x) = slot_name c" by auto
    then have "x \<noteq> []" "slot_name x = slot_name c"
      using Cons.prems free_slot_ok(2)[of x d] free_slot_ok(3)[of d] by (auto simp: chains_ok_def)
    with x(1) show False using chains_ok_notin[of "[]" c cs x] Cons.prems that by simp
  qed
  then show ?case
    using IH c free_slot_ok(1)[OF c, of d] free_slot_ok(2)[OF c, of d] by (cases "c = []") (auto simp: chains_ok_def free_slot_ok(3))
qed (simp add: chains_ok_def)

theorem freeArgs_ok:
  assumes "mc_wf mc"
  shows "mc_wf (freeArgs mc d) \<and> defs_of (freeArgs mc d) n =
    (if defs_of mc n \<noteq> [] \<and> me_level (hd (defs_of mc n)) \<ge> d then tl (defs_of mc n) else defs_of mc n)"
proof (cases "macroTable mc = []")
  case True
  then have "defs_of mc = (\<lambda>_. [])" by (auto simp: defs_of_def slots_def)
  then show ?thesis using True assms by (simp add: freeArgs_def)
next
  case False
  let ?new = "map (free_slot d) (slots mc)"
  let ?m = "mc\<lparr> macroTable := ?new @ drop (firstFree mc) (macroTable mc) \<rparr>"
  have len: "length (slots mc) = firstFree mc" using assms by (simp add: slots_def mc_wf_def)
  have sl: "slots ?m = ?new" using len by (simp add: slots_def)
  have old: "chains_ok (slots mc)" "mname.ordered (slots mc)" "[] \<notin> set (slots mc)"
    using assms by (simp_all add: mc_wf_def)
  have ps: "presorted ?m"
    using assms len sl chains_ok_map_free[OF old(1)] by (simp add: presorted_def mc_wf_def)
  have d: "defs_of ?m n = free_slot d (defs_of mc n)"
    unfolding defs_of_def sl using old(1) by (intro lookup_map_free) (auto simp: chains_ok_def)
  have keep: "mc_wf ?m" if "[] \<notin> set ?new"
  proof -
    have "mname.ordered ?new"
    proof -
      have "compareMacroName (free_slot d a) (free_slot d b) = compareMacroName a b"
        if ab: "a \<in> set (slots mc)" "b \<in> set (slots mc)" for a b
      proof -
        have "a \<noteq> []" "b \<noteq> []" "free_slot d a \<noteq> []" "free_slot d b \<noteq> []"
          using ab old(3) \<open>[] \<notin> set ?new\<close> by force+
        moreover have "slot_name (free_slot d a) = slot_name a" "slot_name (free_slot d b) = slot_name b"
          using ab old(1) free_slot_ok(2)[of a d] free_slot_ok(2)[of b d] calculation
          by (auto simp: chains_ok_def)
        ultimately show ?thesis
          by (cases a; cases b; cases "free_slot d a"; cases "free_slot d b") (simp_all add: slot_name_def)
      qed
      then show ?thesis using old(2) by (simp add: mname.ordered_def sorted_wrt_iff_nth_less)
    qed
    then show ?thesis using ps sl that by (simp add: mc_wf_def presorted_def)
  qed
  have cond: "(\<exists>(c, e) \<in> set (zip (slots mc) ?new). c \<noteq> [] \<and> me_level (hd c) \<ge> d \<and> e = []) \<longleftrightarrow> [] \<in> set ?new"
    (is "?l = ?r")
  proof
    assume ?l
    then show ?r by (auto dest: set_zip_rightD)
  next
    assume ?r
    then obtain c where "c \<in> set (slots mc)" "free_slot d c = []" by auto
    moreover from this have "c \<noteq> []" using old(3) by metis
    moreover from calculation have "me_level (hd c) \<ge> d" by (auto simp: free_slot_eq split: if_splits)
    moreover have "(c, free_slot d c) \<in> set (zip (slots mc) ?new)"
      using \<open>c \<in> set (slots mc)\<close> by (auto simp: zip_map2 zip_same_conv_map)
    ultimately show ?l by force
  qed
  have "freeArgs mc d = (if [] \<in> set ?new then sortMacroTable ?m else ?m)"
    using False unfolding freeArgs_def by (simp only: slots_def[symmetric] Let_def cond if_False)
  then show ?thesis
    using sortMacroTable_ok[OF ps] keep d by (simp add: free_slot_eq)
qed

section \<open>The contract holds\<close>

definition push_def :: "MacroContext \<Rightarrow> string \<Rightarrow> string option \<times> string option \<times> int \<Rightarrow> MacroContext" where
  "push_def mc n a = (case a of (o', b, l) \<Rightarrow> addMacro mc n o' b l)"

definition mk_def :: "MacroEntry list \<Rightarrow> string \<Rightarrow> string option \<times> string option \<times> int \<Rightarrow> MacroEntry" where
  "mk_def c n a = (case a of (o', b, l) \<Rightarrow> hd (pushMacro c n o' b l))"

lemma push_mk: "pushMacro c n o' b l = mk_def c n (o', b, l) # c"
  by (simp add: mk_def_def pushMacro_def Let_def)

interpretation mt: def_stacks mc_wf defs_of push_def delMacro freeArgs plain_name mk_def readonly_blocks me_level
proof (unfold_locales, goal_cases)
  case (1 m n a)
  then show ?case by (cases a) (simp add: push_def_def addMacro_ok)
next
  case (2 m n)
  then show ?case by (simp add: delMacro_ok)
next
  case (3 m d)
  then show ?case by (simp add: freeArgs_ok)
next
  case (4 m n a)
  then show ?case by (cases a) (simp add: push_def_def addMacro_ok push_mk)
next
  case (5 m n)
  then show ?case by (simp add: delMacro_ok)
next
  case (6 m d k)
  then show ?case by (simp add: freeArgs_ok)
qed

text \<open>Any sequence of operations, on the array and on the map from names to stacks.\<close>

datatype table_op =
    Add string "string option" "string option" int
  | Del string
  | Sweep int

definition empty_mc :: MacroContext where
  "empty_mc = rpmFreeMacros \<lparr> macroTable = [], macrosAllocated = 0, firstFree = 0 \<rparr>"

fun mtab_step :: "MacroContext \<Rightarrow> table_op \<Rightarrow> MacroContext" where
  "mtab_step mc (Add n o' b l) = addMacro mc n o' b l"
| "mtab_step mc (Del n) = delMacro mc n"
| "mtab_step mc (Sweep d) = freeArgs mc d"

fun stacks_step :: "(string \<Rightarrow> MacroEntry list) \<Rightarrow> table_op \<Rightarrow> string \<Rightarrow> MacroEntry list" where
  "stacks_step m (Add n o' b l) =
     (let k = plain_name n in
      if readonly_blocks (m k) n then m else m(k := mk_def (m k) n (o', b, l) # m k))"
| "stacks_step m (Del n) = m(n := tl (m n))"
| "stacks_step m (Sweep d) = (\<lambda>k. if m k \<noteq> [] \<and> me_level (hd (m k)) \<ge> d then tl (m k) else m k)"

lemma mc_wf_empty: "mc_wf empty_mc"
  by (simp add: empty_mc_def rpmFreeMacros_def mc_wf_def slots_def chains_ok_def mname.ordered_def)

lemma defs_of_empty [simp]: "defs_of empty_mc = (\<lambda>_. [])"
  by (auto simp: empty_mc_def rpmFreeMacros_def defs_of_def slots_def)

lemma mtab_step_ok:
  "mc_wf mc \<Longrightarrow> mc_wf (mtab_step mc x) \<and> defs_of (mtab_step mc x) = stacks_step (defs_of mc) x"
  by (cases x) (auto simp: addMacro_ok delMacro_ok freeArgs_ok push_mk Let_def)

lemma table_run_ok:
  "mc_wf mc \<Longrightarrow> mc_wf (foldl mtab_step mc xs) \<and>
     defs_of (foldl mtab_step mc xs) = foldl stacks_step (defs_of mc) xs"
  by (induction xs arbitrary: mc) (simp_all add: mtab_step_ok)

text \<open>C7: the macro table refines a map from names to stacks of definitions. After any sequence of
  \<open>addMacro\<close>, \<open>delMacro\<close> and \<open>freeArgs\<close> from the empty context, the array is sorted, holds one
  non-empty chain for each defined name and nulls behind \<open>firstFree\<close>, and the binary search finds
  under every name exactly the stack that the same operations leave in the map.\<close>

theorem macroTable_refines:
  "mc_wf (foldl mtab_step empty_mc ops) \<and>
   current_def (foldl mtab_step empty_mc ops) n 0 = foldl stacks_step (\<lambda>_. []) ops n"
  using table_run_ok[OF mc_wf_empty, of ops] by (simp add: current_def_eq)

text \<open>\<open>freeArgs\<close> removes only one definition of a name in a call: of an option that the caller gave
  twice (two definitions at the same depth), the first stays behind when the expansion is over.\<close>

theorem freeArgs_keeps_duplicate:
  assumes "mc_wf mc" "\<not> readonly_blocks (defs_of mc (plain_name n)) n" "plain_name n = n"
    and "to_short d = d"
  shows "defs_of (freeArgs (addMacro (addMacro mc n o1 b1 d) n o2 b2 d) d) n =
    mk_def (defs_of mc n) n (o1, b1, d) # defs_of mc n"
proof -
  have nb: "\<not> readonly_blocks (mk_def c n (o1, b1, d) # c) n" for c
    using assms(3) by (simp add: readonly_blocks_def mk_def_def pushMacro_def)
  have lv: "me_level (mk_def c n (o2, b2, d)) = d" for c
    using assms(4) by (simp add: mk_def_def pushMacro_def Let_def)
  show ?thesis
    using assms(1,2,3) nb lv by (simp add: freeArgs_ok addMacro_ok push_mk)
qed

end
