(* ===== verification/MacroInv.thy ===== *)
theory MacroInv
  imports MacroExpand MacroTableThms
begin

text \<open>
  The invariant of an expansion. Whatever the text, the definitions and the answers of the
  system, a call of \<open>expandMacro\<close> that returns leaves a well-formed macro table, the entries
  whose bodies are still being read at their place in it, the nesting depth as it was, and
  every byte of the target buffer accounted for.
\<close>

section \<open>What an expansion keeps\<close>

definition live_ok :: "MacroContext \<Rightarrow> (string \<times> nat) list \<Rightarrow> bool" where
  "live_ok mc live \<longleftrightarrow> (\<forall>(n, h) \<in> set live. 0 < h \<and> h \<le> length (defs_of mc n))"

definition mb_ok :: "MacroBuf \<Rightarrow> bool" where
  "mb_ok mb \<longleftrightarrow> mc_wf (mb_mc mb) \<and> live_ok (mb_mc mb) (mb_live mb)"

definition keeps :: "MacroBuf \<Rightarrow> MacroBuf \<Rightarrow> bool" where
  "keeps mb mb' \<longleftrightarrow>
     (mb_ok mb \<longrightarrow> mb_ok mb') \<and> mb_depth mb' = mb_depth mb \<and> mb_live mb' = mb_live mb \<and>
     mb_nb mb' + length (mb_t mb') = mb_nb mb + length (mb_t mb)"

definition keeps_all :: "expander \<Rightarrow> bool" where
  "keeps_all rec \<longleftrightarrow> (\<forall>mb s rc mb'. rec mb s = Inr (rc, mb') \<longrightarrow> keeps mb mb')"

lemma keeps_allD: "keeps_all rec \<Longrightarrow> rec mb s = Inr (rc, mb') \<Longrightarrow> keeps mb mb'"
  by (auto simp: keeps_all_def)

lemma keeps_refl [simp]: "keeps mb mb"
  by (simp add: keeps_def)

lemma keeps_trans: "keeps a b \<Longrightarrow> keeps b c \<Longrightarrow> keeps a c"
  by (simp add: keeps_def)

text \<open>Changes that touch the table only, and changes that do not touch it.\<close>

lemma keeps_mc:
  "(mb_ok mb \<Longrightarrow> mc_wf mc \<and> live_ok mc (mb_live mb)) \<Longrightarrow> keeps mb (mb\<lparr> mb_mc := mc \<rparr>)"
  by (simp add: keeps_def mb_ok_def)

lemma keeps_tick [simp]: "keeps mb (tick mb)"
  by (simp add: keeps_def mb_ok_def tick_def)

lemma keeps_msgs [simp]: "keeps mb (mb\<lparr> mb_msgs := x \<rparr>)"
  by (simp add: keeps_def mb_ok_def)

lemma keeps_trace [simp]:
  "keeps mb (mb\<lparr> mb_expand_trace := x \<rparr>)" "keeps mb (mb\<lparr> mb_macro_trace := y \<rparr>)" "keeps mb (mb\<lparr> mb_print := z \<rparr>)"
  "keeps mb (mb\<lparr> mb_expand_trace := x, mb_macro_trace := y \<rparr>)"
  "keeps mb (mb\<lparr> mb_expand_trace := x, mb_macro_trace := y, mb_print := z \<rparr>)"
  by (simp_all add: keeps_def mb_ok_def)

lemma keeps_save: "mb_nb mb > 0 \<Longrightarrow> keeps mb (SAVECHAR mb c)"
  by (simp add: keeps_def mb_ok_def SAVECHAR_def)

section \<open>The table\<close>

lemma live_ok_mono:
  "live_ok mc live \<Longrightarrow> (\<And>n. length (defs_of mc n) \<le> length (defs_of mc' n)) \<Longrightarrow> live_ok mc' live"
  unfolding live_ok_def by (fastforce intro: le_trans)

lemma keeps_mono:
  assumes "mc_wf (mb_mc mb) \<Longrightarrow> mc_wf mc"
    and "\<And>n. mc_wf (mb_mc mb) \<Longrightarrow> length (defs_of (mb_mc mb) n) \<le> length (defs_of mc n)"
  shows "keeps mb (mb\<lparr> mb_mc := mc \<rparr>)"
  using assms live_ok_mono[of "mb_mc mb" "mb_live mb" mc] by (intro keeps_mc) (auto simp: mb_ok_def)

lemma defs_add_mono: "mc_wf mc \<Longrightarrow> length (defs_of mc k) \<le> length (defs_of (addMacro mc n o' b l) k)"
  by (simp add: addMacro_ok push_mk)

lemma keeps_add: "keeps mb (mb\<lparr> mb_mc := addMacro (mb_mc mb) n o' b l \<rparr>)"
  by (rule keeps_mono) (simp add: addMacro_ok, rule defs_add_mono)

lemma add_defs_ok:
  "mc_wf mc \<Longrightarrow> mc_wf (add_defs mc d ds) \<and> length (defs_of mc k) \<le> length (defs_of (add_defs mc d ds) k)"
proof (induction ds arbitrary: mc)
  case (Cons x ds)
  obtain n b where x: "x = (n, b)" by (cases x)
  have "mc_wf (addMacro mc n None (Some b) d)" using addMacro_ok[OF Cons.prems] by blast
  from Cons.IH[OF this] defs_add_mono[OF Cons.prems] show ?case
    by (simp add: x add_defs_def) (meson le_trans)
qed (simp add: add_defs_def)

lemma keeps_add_defs: "keeps mb (mb\<lparr> mb_mc := add_defs (mb_mc mb) d ds \<rparr>)"
  by (rule keeps_mono) (simp_all add: add_defs_ok)

lemma keeps_del:
  assumes "\<not> pop_live mb n"
  shows "keeps mb (mb\<lparr> mb_mc := delMacro (mb_mc mb) n \<rparr>)"
proof (rule keeps_mc)
  assume ok: "mb_ok mb"
  then have wf: "mc_wf (mb_mc mb)" by (simp add: mb_ok_def)
  have nl: "(n, length (defs_of (mb_mc mb) n)) \<notin> set (mb_live mb)"
    using assms wf by (simp add: pop_live_def current_def_eq)
  have "live_ok (delMacro (mb_mc mb) n) (mb_live mb)"
    unfolding live_ok_def
  proof (clarify)
    fix k h assume kh: "(k, h) \<in> set (mb_live mb)"
    then have "0 < h" "h \<le> length (defs_of (mb_mc mb) k)" using ok by (auto simp: mb_ok_def live_ok_def)
    moreover have "k = n \<Longrightarrow> h \<noteq> length (defs_of (mb_mc mb) n)" using kh nl by auto
    ultimately show "0 < h \<and> h \<le> length (defs_of (delMacro (mb_mc mb) n) k)"
      using delMacro_ok[OF wf, of n] by auto
  qed
  then show "mc_wf (delMacro (mb_mc mb) n) \<and> live_ok (delMacro (mb_mc mb) n) (mb_live mb)"
    using delMacro_ok[OF wf] by simp
qed

lemma defs_of_in_slots: "mc_wf mc \<Longrightarrow> defs_of mc n \<noteq> [] \<Longrightarrow> defs_of mc n \<in> set (slots mc)"
  using lookup_chain_in[of "slots mc" n] by (simp add: defs_of_def)

lemma keeps_freeArgs:
  assumes "mb_freeArgs mb = Inr mb'"
  shows "keeps mb mb'"
proof -
  have nf: "\<not> free_live mb" and mb': "mb' = mb\<lparr> mb_mc := freeArgs (mb_mc mb) (mb_depth mb) \<rparr>"
    using assms by (auto simp: mb_freeArgs_def c_simps)
  show ?thesis unfolding mb'
  proof (rule keeps_mc)
    assume ok: "mb_ok mb"
    then have wf: "mc_wf (mb_mc mb)" by (simp add: mb_ok_def)
    have "live_ok (freeArgs (mb_mc mb) (mb_depth mb)) (mb_live mb)"
      unfolding live_ok_def
    proof (clarify)
      fix k h assume kh: "(k, h) \<in> set (mb_live mb)"
      let ?c = "defs_of (mb_mc mb) k"
      have h: "0 < h" "h \<le> length ?c" using kh ok by (auto simp: mb_ok_def live_ok_def)
      have "\<not> (me_level (hd ?c) \<ge> mb_depth mb \<and> h = length ?c)"
      proof
        assume a: "me_level (hd ?c) \<ge> mb_depth mb \<and> h = length ?c"
        have ne: "?c \<noteq> []" using h by auto
        have "me_name (hd ?c) = k" using defs_of_names[OF wf, of "hd ?c" k] ne by simp
        moreover have "?c \<in> set (take (firstFree (mb_mc mb)) (macroTable (mb_mc mb)))"
          using defs_of_in_slots[OF wf ne] by (simp add: slots_def)
        ultimately show False using nf kh ne a unfolding free_live_def by metis
      qed
      then show "0 < h \<and> h \<le> length (defs_of (freeArgs (mb_mc mb) (mb_depth mb)) k)"
        using h freeArgs_ok[OF wf, of "mb_depth mb" k] by auto
    qed
    then show "mc_wf (freeArgs (mb_mc mb) (mb_depth mb)) \<and>
        live_ok (freeArgs (mb_mc mb) (mb_depth mb)) (mb_live mb)"
      using freeArgs_ok[OF wf] by simp
  qed
qed

lemma in_set_updateD: "e \<in> set (xs[j := y]) \<Longrightarrow> e \<in> set xs \<or> j < length xs \<and> e = y"
  by (metis list_update_beyond linorder_not_le set_update_subset_insert insertE subsetD)

lemma use_entry_ok:
  assumes "mc_wf mc"
  shows "mc_wf (use_entry mc n h) \<and> length (defs_of (use_entry mc n h) k) = length (defs_of mc k)"
proof (cases "macro_findEntry mc n 0")
  case None
  then show ?thesis using assms by (simp add: use_entry_def)
next
  case (Some i)
  note f = macro_findEntry_Some[OF assms Some]
  let ?c = "defs_of mc n"
  let ?j = "length ?c - h"
  let ?d = "?c[?j := (?c ! ?j)\<lparr> me_used := me_used (?c ! ?j) + 1 \<rparr>]"
  have u: "use_entry mc n h = put_chain mc i ?d"
    using Some f by (simp add: use_entry_def put_chain_def Let_def)
  have nm: "\<forall>e\<in>set ?d. me_name e = n"
  proof
    fix e assume "e \<in> set ?d"
    then have "e \<in> set ?c \<or> (?j < length ?c \<and> e = (?c ! ?j)\<lparr> me_used := me_used (?c ! ?j) + 1 \<rparr>)"
      by (rule in_set_updateD)
    then show "me_name e = n"
    proof
      assume "?j < length ?c \<and> e = (?c ! ?j)\<lparr> me_used := me_used (?c ! ?j) + 1 \<rparr>"
      then have "me_name e = me_name (?c ! ?j)" "?c ! ?j \<in> set ?c" by (simp_all del: length_greater_0_conv)
      then show "me_name e = n" using defs_of_names[OF assms] by metis
    qed (rule defs_of_names[OF assms])
  qed
  have ne: "?d \<noteq> []" using f by simp
  then have "slot_name ?d = n" using nm by (simp add: slot_name_def)
  moreover from this nm have "chain_ok ?d" by (simp add: chain_ok_def)
  ultimately show ?thesis
    using put_chain_presorted[OF assms Some, of ?d] ne u by simp
qed

lemma keeps_use: "keeps mb (mb\<lparr> mb_mc := use_entry (mb_mc mb) n h \<rparr>)"
  by (rule keeps_mono) (simp_all add: use_entry_ok)

section \<open>The pieces of a step\<close>

lemma keeps_expandU:
  assumes "keeps_all rec" "expandU rec mb u ulen = Inr (rc, mb', r)"
  shows "keeps mb mb'"
proof -
  obtain mb2 where r: "rec (mb\<lparr> mb_t := [], mb_nb := ulen \<rparr>) u = Inr (rc, mb2)"
    and mb': "mb' = mb2\<lparr> mb_t := mb_t mb, mb_nb := mb_nb mb \<rparr>"
    using assms(2) by (auto simp: expandU_def c_simps)
  show ?thesis using keeps_allD[OF assms(1) r] unfolding mb' by (auto simp: keeps_def mb_ok_def)
qed

lemma trim_eol_length: "length (trim_eol t) \<le> length t"
  unfolding trim_eol_def using length_dropWhile_le[of iseol "rev t"] by simp

lemma keeps_shell:
  assumes "keeps_all rec" "doShellEscape E rec mb cmd = Inr (rc, mb')"
  shows "keeps mb mb'"
proof -
  obtain rc1 mb1 buf where u: "expandU rec mb cmd (macro_BUFSIZ + length cmd) = Inr (rc1, mb1, buf)"
    using assms(2) by (auto simp: doShellEscape_def c_simps)
  note k = keeps_expandU[OF assms(1) u]
  note q = assms(2)[unfolded doShellEscape_def u andThen_simps prod.case]
  show ?thesis
  proof (cases "rc1 = 0 \<and> env_popen E (mb_clock mb1) buf \<noteq> None")
    case False
    then have "mb' = mb1 \<or> mb' = tick mb1" using q by (auto split: if_splits)
    then show ?thesis using k keeps_trans[OF k keeps_tick] by blast
  next
    case True
    then obtain out where o': "env_popen E (mb_clock mb1) buf = Some out" by auto
    let ?t1 = "mb_t mb1 @ take (mb_nb mb1) out"
    have mb': "mb' = tick (mb1\<lparr> mb_t := trim_eol ?t1,
        mb_nb := mb_nb mb1 - length out + (length ?t1 - length (trim_eol ?t1)) \<rparr>)"
      using q True o' by (auto simp: Let_def c_simps)
    have "keeps mb1 mb'"
      unfolding mb' using trim_eol_length[of ?t1] by (auto simp: keeps_def mb_ok_def tick_def)
    then show ?thesis using k keeps_trans by blast
  qed
qed

lemma keeps_define:
  assumes "keeps_all rec" "doDefine rec mb s l x = Inr (mb', r)"
  shows "keeps mb mb'"
proof -
  obtain d rest where p: "parse_define macro_BUFSIZ s = Inr (d, rest)"
    using assms(2) by (auto simp: doDefine_def c_simps)
  note q = assms(2)[unfolded doDefine_def p andThen_simps prod.case]
  show ?thesis
  proof (cases d)
    case None
    then show ?thesis using q by simp
  next
    case (Some m)
    show ?thesis
    proof (cases x)
      case False
      then show ?thesis using q Some keeps_add[of mb] by (auto simp: Let_def)
    next
      case True
      then obtain rc mb1 b where u: "expandU rec mb (d_body m)
          (macro_BUFSIZ - body_at (d_dots m) (d_name m) (d_opts m)) = Inr (rc, mb1, b)"
        using q Some by (auto simp: Let_def c_simps)
      have "mb' = mb1 \<or> (\<exists>n o' c l. mb' = mb1\<lparr> mb_mc := addMacro (mb_mc mb1) n o' c l \<rparr>)"
        using q Some True u by (auto simp: Let_def split: if_splits)
      then show ?thesis using keeps_expandU[OF assms(1) u] keeps_add keeps_trans by blast
    qed
  qed
qed

lemma keeps_undefine: "doUndefine mb s = Inr (mb', r) \<Longrightarrow> keeps mb mb'"
  using keeps_del[of mb] by (cases "COPYNAME s") (auto simp: doUndefine_def c_simps Let_def split: if_splits)

lemma keeps_output: "keeps_all rec \<Longrightarrow> doOutput rec mb e m = Inr mb' \<Longrightarrow> keeps mb mb'"
  by (auto simp: doOutput_def c_simps intro: keeps_trans[OF keeps_expandU])

lemma foo_text_state: "foo_text E mb neg f fn buf bufn = Inr (mb', b) \<Longrightarrow> mb' = mb \<or> mb' = tick mb"
  by (simp add: foo_text_def Let_def c_simps split: if_splits option.splits) (auto simp: c_simps)

lemma keeps_foo_tail:
  assumes "keeps_all rec"
    and "andThen (foo_text E mb neg f fn buf bufn) (\<lambda>(mb2, b).
      case b of None \<Rightarrow> Inr mb2 | Some t \<Rightarrow> andThen (expandT rec mb2 t) (\<lambda>(rc, mb3). Inr mb3)) = Inr mb'"
  shows "keeps mb mb'"
proof -
  obtain mb2 b where f: "foo_text E mb neg f fn buf bufn = Inr (mb2, b)"
    using assms(2) by (auto simp: c_simps)
  have k2: "keeps mb mb2" using foo_text_state[OF f] keeps_tick by auto
  show ?thesis
  proof (cases b)
    case None
    then show ?thesis using assms(2) f k2 by simp
  next
    case (Some t)
    then obtain rc where "rec mb2 t = Inr (rc, mb')" using assms(2) f by (auto simp: c_simps expandT_def)
    then show ?thesis using keeps_allD[OF assms(1)] k2 keeps_trans by blast
  qed
qed

lemma keeps_foo:
  assumes "keeps_all rec" "doFoo E rec mb neg f fn g = Inr mb'"
  shows "keeps mb mb'"
proof (cases g)
  case None
  then show ?thesis using assms(2) keeps_foo_tail[OF assms(1)] by (simp add: doFoo_def)
next
  case (Some t)
  then obtain rc mb1 u where u: "expandU rec mb t (macro_BUFSIZ + fn + length t) = Inr (rc, mb1, u)"
    using assms(2) by (auto simp: doFoo_def Let_def c_simps)
  then have "keeps mb1 mb'"
    using assms(2) Some keeps_foo_tail[OF assms(1)] by (simp add: doFoo_def Let_def)
  then show ?thesis using keeps_expandU[OF assms(1) u] keeps_trans by blast
qed


section \<open>Uses of defined macros\<close>

lemma keeps_push_live:
  assumes "keeps (mb\<lparr> mb_live := x # mb_live mb \<rparr>) mb'" "mb_ok mb \<Longrightarrow> 0 < snd x \<and> snd x \<le> length (defs_of (mb_mc mb) (fst x))"
  shows "keeps mb (mb'\<lparr> mb_live := mb_live mb \<rparr>)"
    and "mb_ok mb \<Longrightarrow> snd x \<le> length (defs_of (mb_mc mb') (fst x))"
proof -
  have ok: "mb_ok mb \<Longrightarrow> mb_ok (mb\<lparr> mb_live := x # mb_live mb \<rparr>)"
    using assms(2) by (cases x) (simp add: mb_ok_def live_ok_def)
  have ok': "mb_ok mb \<Longrightarrow> mb_ok mb' \<and> mb_live mb' = x # mb_live mb"
    using assms(1) ok by (simp add: keeps_def)
  then have "mb_ok mb \<Longrightarrow> mb_ok (mb'\<lparr> mb_live := mb_live mb \<rparr>)"
    by (auto simp: mb_ok_def live_ok_def)
  then show "keeps mb (mb'\<lparr> mb_live := mb_live mb \<rparr>)"
    using assms(1) by (simp add: keeps_def)
  show "mb_ok mb \<Longrightarrow> snd x \<le> length (defs_of (mb_mc mb') (fst x))"
    using ok' by (cases x) (auto simp: mb_ok_def live_ok_def)
qed

text \<open>The chain that is expanded consists of definitions of one name, no more than there are.\<close>

lemma keeps_FIFO:
  assumes "keeps_all rec" "expandFIFO rec mb st g = Inr (rc, mb')"
    and "mb_ok mb \<Longrightarrow> (\<forall>e\<in>set st. me_name e = n) \<and> length st \<le> length (defs_of (mb_mc mb) n)"
  shows "keeps mb mb'"
  using assms(2,3)
proof (induction st arbitrary: mb rc mb')
  case (Cons me prev)
  note q = Cons.prems(1)
  show ?case
  proof (cases "prev = []")
    case True
    then show ?thesis using q keeps_allD[OF assms(1)] by (simp add: expandT_def)
  next
    case False
    let ?mbl = "mb\<lparr> mb_live := (me_name me, Suc (length prev)) # mb_live mb \<rparr>"
    from False q obtain rc1 mb1 rc2 mb2 where
      f: "expandFIFO rec ?mbl prev g = Inr (rc1, mb1)" and t: "expandT rec mb1 g = Inr (rc2, mb2)"
      and e: "expandT rec (mb2\<lparr> mb_live := mb_live mb \<rparr>) (me_body me) = Inr (rc, mb')"
      by (auto simp: c_simps)
    have h: "mb_ok mb \<Longrightarrow> 0 < snd (me_name me, Suc (length prev)) \<and>
        snd (me_name me, Suc (length prev)) \<le> length (defs_of (mb_mc mb) (fst (me_name me, Suc (length prev))))"
      using Cons.prems(2) by auto
    have okl: "mb_ok ?mbl \<Longrightarrow> (\<forall>e\<in>set prev. me_name e = me_name me) \<and> length prev \<le> length (defs_of (mb_mc ?mbl) (me_name me))"
    proof -
      assume a: "mb_ok ?mbl"
      then have "mb_ok mb" by (simp add: mb_ok_def live_ok_def)
      then show ?thesis using Cons.prems(2) by auto
    qed
    have ok: "mb_ok ?mbl \<Longrightarrow> (\<forall>e\<in>set prev. me_name e = n) \<and> length prev \<le> length (defs_of (mb_mc ?mbl) n)"
    proof -
      assume a: "mb_ok ?mbl"
      then have "mb_ok mb" by (simp add: mb_ok_def live_ok_def)
      then show ?thesis using Cons.prems(2) by auto
    qed
    have k1: "keeps ?mbl mb1" using Cons.IH[OF f ok] .
    have k2: "keeps ?mbl mb2" using keeps_trans[OF k1 keeps_allD[OF assms(1)]] t by (simp add: expandT_def)
    have "keeps mb (mb2\<lparr> mb_live := mb_live mb \<rparr>)" by (rule keeps_push_live(1)[OF k2 h])
    then show ?thesis using keeps_allD[OF assms(1)] e keeps_trans by (simp add: expandT_def)
  qed
qed simp

lemma keeps_cond:
  assumes "keeps_all rec" "expand_cond rec mb k st = Inr (rc, mb')"
  shows "keeps mb mb'"
  using assms(2) keeps_allD[OF assms(1)]
  by (auto simp: expand_cond_def expandT_def split: if_splits option.splits list.splits)

lemma keeps_setup_args:
  assumes "setup_args E mb k me = Inr (mb', se)"
  shows "keeps mb mb'" "mc_wf (mb_mc mb) \<Longrightarrow> length (defs_of (mb_mc mb) n) \<le> length (defs_of (mb_mc mb') n)"
proof -
  have "mb' = mb \<or> (\<exists>d ds. mb' = mb\<lparr> mb_mc := add_defs (mb_mc mb) d ds \<rparr>)"
    using assms by (auto simp: setup_args_def grabArgs_def Let_def c_simps split: if_splits option.splits)
  then show "keeps mb mb'" "mc_wf (mb_mc mb) \<Longrightarrow> length (defs_of (mb_mc mb) n) \<le> length (defs_of (mb_mc mb') n)"
    using keeps_add_defs[of mb] add_defs_ok[of "mb_mc mb"] by auto
qed

lemma keeps_body:
  assumes "keeps_all rec" "expand_body rec mb name me h = Inr (rc, mb')"
    and "mb_ok mb \<Longrightarrow> 0 < h \<and> h \<le> length (defs_of (mb_mc mb) name)"
  shows "keeps mb mb'"
proof (cases "me_body me = []")
  case True
  then show ?thesis using assms(2) by (simp add: expand_body_def)
next
  case False
  then obtain mb1 where r: "rec (mb\<lparr> mb_live := (name, h) # mb_live mb \<rparr>) (me_body me) = Inr (rc, mb1)"
    and mb': "mb' = (let mb2 = mb1\<lparr> mb_live := mb_live mb \<rparr> in
        if rc = 0 then mb2\<lparr> mb_mc := use_entry (mb_mc mb2) name h \<rparr> else mb2)"
    using assms(2) by (auto simp: expand_body_def Let_def c_simps)
  have "keeps mb (mb1\<lparr> mb_live := mb_live mb \<rparr>)"
    by (rule keeps_push_live(1)[OF keeps_allD[OF assms(1) r]]) (use assms(3) in simp)
  then show ?thesis
    unfolding mb' Let_def using keeps_trans keeps_use[of "mb1\<lparr> mb_live := mb_live mb \<rparr>"] by auto
qed

lemma keeps_defined:
  assumes "keeps_all rec" "expand_defined E rec mb k = Inr (rc, mb', s)" "c_fn k > 0" "mb_nb mb > 0"
  shows "keeps mb mb'"
proof -
  let ?name = "take (c_fn k) (c_f k)" and ?st = "current_def (mb_mc mb) (c_f k) (c_fn k)"
  have st: "mb_ok mb \<Longrightarrow> ?st = defs_of (mb_mc mb) ?name"
    using assms(3) by (simp add: mb_ok_def current_def_take)
  note q = assms(2)[unfolded expand_defined_def Let_def]
  consider (flag) "hd (c_f k) = CHR ''-''" | (chk) "hd (c_f k) \<noteq> CHR ''-''" "c_chkexist k"
    | (none) "hd (c_f k) \<noteq> CHR ''-''" "\<not> c_chkexist k" "?st = []"
    | (arr) "hd (c_f k) \<noteq> CHR ''-''" "\<not> c_chkexist k" "?st \<noteq> []" "c_stackarray k"
    | (body) "hd (c_f k) \<noteq> CHR ''-''" "\<not> c_chkexist k" "?st \<noteq> []" "\<not> c_stackarray k"
    by blast
  then show ?thesis
  proof cases
    case flag
    then have "expand_cond rec (if ?st = [] then mb else mb\<lparr> mb_mc := use_entry (mb_mc mb) ?name (length ?st) \<rparr>) k ?st
        = Inr (rc, mb')"
      using q by (auto simp: c_simps)
    from keeps_cond[OF assms(1) this] keeps_use[of mb] show ?thesis
      using keeps_trans by (auto split: if_splits) blast
  next
    case chk
    then show ?thesis using q keeps_cond[OF assms(1)] by (auto simp: c_simps)
  next
    case none
    then show ?thesis using q keeps_save[OF assms(4)] by auto
  next
    case arr
    then obtain me prev where mp: "?st = me # prev" by (cases ?st) auto
    from arr obtain g where f: "expandFIFO rec mb ?st g = Inr (rc, mb')"
      using q unfolding mp by (auto simp: c_simps)
    show ?thesis
      by (rule keeps_FIFO[OF assms(1) f, where n = ?name])
        (use st defs_of_names[of "mb_mc mb"] in \<open>auto simp: mb_ok_def\<close>)
  next
    case body
    then obtain me prev where mp: "?st = me # prev" by (cases ?st) auto
    from body obtain mb1 se rc1 mb2 where
      sa: "setup_args E mb k me = Inr (mb1, se)"
      and eb: "expand_body rec mb1 ?name me (length ?st) = Inr (rc1, mb2)"
      and fa: "(if me_opts me = None then Inr mb2 else mb_freeArgs mb2) = Inr mb'"
      using q unfolding mp by (auto simp: c_simps)
    note k1 = keeps_setup_args[OF sa]
    have "keeps mb1 mb2 \<or> \<not> mb_ok mb"
    proof (cases "mb_ok mb")
      case True
      have "length ?st \<le> length (defs_of (mb_mc mb1) ?name)" "0 < length ?st"
        using st[OF True] k1(2) True mp by (auto simp: mb_ok_def)
      then have "keeps mb1 mb2" by (intro keeps_body[OF assms(1) eb]) simp
      then show ?thesis ..
    qed simp
    moreover have "\<not> mb_ok mb \<Longrightarrow> keeps mb mb2"
    proof -
      assume nok: "\<not> mb_ok mb"
      have "mb_depth mb2 = mb_depth mb1 \<and> mb_live mb2 = mb_live mb1 \<and>
          mb_nb mb2 + length (mb_t mb2) = mb_nb mb1 + length (mb_t mb1)"
      proof (cases "me_body me = []")
        case True
        then show ?thesis using eb by (simp add: expand_body_def)
      next
        case False
        then obtain mb3 where r: "rec (mb1\<lparr> mb_live := (?name, length ?st) # mb_live mb1 \<rparr>) (me_body me) = Inr (rc1, mb3)"
          and mb2: "mb2 = (let mb2 = mb3\<lparr> mb_live := mb_live mb1 \<rparr> in
            if rc1 = 0 then mb2\<lparr> mb_mc := use_entry (mb_mc mb2) ?name (length ?st) \<rparr> else mb2)"
          using eb by (auto simp: expand_body_def Let_def c_simps)
        show ?thesis using keeps_allD[OF assms(1) r] by (simp add: mb2 Let_def keeps_def)
      qed
      then show ?thesis using k1(1) nok by (simp add: keeps_def)
    qed
    ultimately have "keeps mb mb2" using k1(1) keeps_trans by blast
    moreover have "keeps mb2 mb'" using fa keeps_freeArgs by (auto split: if_splits)
    ultimately show ?thesis using keeps_trans by blast
  qed
qed

section \<open>The whole expansion\<close>

lemma keeps_call:
  assumes "keeps_all load" "keeps_all rec" "expand_call E load rec mb k = Inr (rc, mb', s)" "mb_nb mb > 0"
  shows "keeps mb mb'"
  using assms(3) keeps_save[OF assms(4)] keeps_define[OF assms(2)] keeps_undefine
    keeps_output[OF assms(2)] keeps_foo[OF assms(2)] keeps_defined[OF assms(2) _ _ assms(4)] keeps_allD[OF assms(1)]
  unfolding expand_call_def Let_def
  by (simp add: c_simps split: if_splits option.splits) (auto simp: c_simps)

lemma keeps_step:
  assumes "keeps_all load" "keeps_all rec" "expand_step E load rec mb s = Inr (rc, mb', s')" "mb_nb mb > 0"
  shows "keeps mb mb'"
  using assms(3) keeps_save[OF assms(4)] keeps_shell[OF assms(2)] keeps_call[OF assms(1,2) _ assms(4)]
  unfolding expand_step_def
  by (simp add: c_simps split: if_splits option.splits list.splits) (auto simp: c_simps split: option.splits)

lemma keeps_loop:
  assumes "keeps_all load" "keeps_all rec" "expand_loop E load rec mb s = Inr (rc, mb')"
  shows "keeps mb mb'"
  using assms
proof (induction E load rec mb s arbitrary: rc mb' rule: expand_loop.induct)
  case (1 E load rec mb s)
  show ?case
  proof (cases "mb_nb mb = 0 \<or> s = []")
    case True
    then show ?thesis using "1.prems"(3) by (subst (asm) expand_loop.simps) auto
  next
    case False
    then obtain rc1 mb1 s1 where st: "expand_step E load rec mb s = Inr (rc1, mb1, s1)"
      using "1.prems"(3) by (subst (asm) expand_loop.simps) (auto split: sum.splits)
    have k: "keeps mb mb1" using keeps_step[OF "1.prems"(1,2) st] False by simp
    show ?thesis
    proof (cases "rc1 = 0")
      case True
      then have "expand_loop E load rec mb1 s1 = Inr (rc, mb')"
        using "1.prems"(3) False st by (subst (asm) expand_loop.simps) simp
      from "1.IH"[OF False st refl refl _ "1.prems"(1,2) this] True k show ?thesis
        using keeps_trans by simp
    next
      case False2: False
      then show ?thesis using "1.prems"(3) False st k by (subst (asm) expand_loop.simps) simp
    qed
  qed
qed

lemma keeps_all_expandMacro: "keeps_all load \<Longrightarrow> keeps_all (expandMacro n E load)"
proof (induction n)
  case 0
  then show ?case by (simp add: keeps_all_def)
next
  case (Suc n)
  show ?case unfolding keeps_all_def
  proof (intro allI impI)
    fix mb s rc mb'
    assume "expandMacro (Suc n) E load mb s = Inr (rc, mb')"
    then obtain mb1 where l: "expand_loop E load (expandMacro n E load) (mb\<lparr> mb_depth := mb_depth mb + 1 \<rparr>) s = Inr (rc, mb1)"
      and mb': "mb' = mb1\<lparr> mb_depth := mb_depth mb1 - 1 \<rparr>"
      by (auto simp: c_simps)
    from keeps_loop[OF Suc.prems Suc.IH[OF Suc.prems] l] show "keeps mb mb'"
      by (auto simp: keeps_def mb_ok_def mb')
  qed
qed

lemma keeps_expandMacros:
  assumes "keeps_all load" "expandMacros E load mb s n = Inr (rc, mb', r)"
  shows "keeps mb mb'"
proof (cases "n = 0")
  case True
  then show ?thesis using assms(2) by (simp add: expandMacros_def)
next
  case False
  let ?m = "mb\<lparr> mb_t := [], mb_nb := n, mb_depth := 0,
      mb_macro_trace := fst (mb_print mb), mb_expand_trace := snd (mb_print mb) \<rparr>"
  obtain mb1 where e: "expandMacro max_macro_depth E load ?m s = Inr (rc, mb1)"
    and mb': "mb' = mb1\<lparr> mb_t := mb_t mb, mb_nb := mb_nb mb, mb_depth := mb_depth mb,
                      mb_macro_trace := mb_macro_trace mb, mb_expand_trace := mb_expand_trace mb \<rparr>"
    using assms(2) False by (auto simp: expandMacros_def c_simps)
  from keeps_allD[OF keeps_all_expandMacro[OF assms(1)] e] show ?thesis
    by (auto simp: keeps_def mb_ok_def mb')
qed

lemma keeps_MCExpand: "keeps_all load \<Longrightarrow> rpmMCExpand E load mb args = Inr (mb', r) \<Longrightarrow> keeps mb mb'"
  using keeps_expandMacros by (auto simp: rpmMCExpand_def Let_def c_simps split: list.splits)

lemma keeps_defineMacro: "rpmDefineMacro mb t l = Inr mb' \<Longrightarrow> keeps mb mb'"
  using keeps_define[of "\<lambda>m s. Inr (0, m)"] by (auto simp: rpmDefineMacro_def keeps_all_def c_simps)

section \<open>Macro files\<close>

lemma keeps_line:
  assumes "keeps_all load" "\<And>m f n rc m'. self m f n = Inr (rc, m') \<Longrightarrow> keeps m m'"
    and "load_line E load self nesting mb buf = Inr (rc, mb')"
  shows "keeps mb mb'"
  using assms(3) keeps_MCExpand[OF assms(1)] keeps_defineMacro assms(2) keeps_trans
  unfolding load_line_def Let_def
  by (simp add: c_simps split: if_splits) (fastforce simp: c_simps split: option.splits if_splits)+

lemma keeps_lines:
  assumes "keeps_all load" "\<And>m f n rc m'. self m f n = Inr (rc, m') \<Longrightarrow> keeps m m'"
    and "load_lines E load self nesting mb fl = Inr (rc, mb')"
  shows "keeps mb mb'"
  using assms(3)
proof (induction fl arbitrary: mb rc mb' rule: measure_induct_rule[of length])
  case (less fl)
  show ?case
  proof (cases "rdcl macro_BUFSIZ fl")
    case None
    then show ?thesis using less.prems by (subst (asm) load_lines.simps) simp
  next
    case (Some x)
    then obtain buf rest where x: "rdcl macro_BUFSIZ fl = Some (buf, rest)" by (cases x) simp
    then obtain rc1 mb1 where l: "load_line E load self nesting mb buf = Inr (rc1, mb1)"
      using less.prems by (subst (asm) load_lines.simps) (auto split: sum.splits)
    have k: "keeps mb mb1" by (rule keeps_line[OF assms(1) assms(2) l])
    show ?thesis
    proof (cases "rc1 = 0")
      case True
      then have "load_lines E load self nesting mb1 rest = Inr (rc, mb')"
        using less.prems x l by (subst (asm) load_lines.simps) simp
      then show ?thesis using less.IH rdcl_shorter[OF x] k keeps_trans by blast
    next
      case False
      then show ?thesis using less.prems x l k by (subst (asm) load_lines.simps) simp
    qed
  qed
qed

lemma keeps_load: "rpmLoadMacroFile k E mb fn nesting = Inr (rc, mb') \<Longrightarrow> keeps mb mb'"
proof (induction k arbitrary: mb fn nesting rc mb')
  case (Suc k)
  have g: "keeps_all (\<lambda>m f. rpmLoadMacroFile k E m f max_load_depth)" using Suc.IH by (auto simp: keeps_all_def)
  show ?case
  proof (cases "env_file E (mb_clock mb) fn")
    case None
    then show ?thesis using Suc.prems by auto
  next
    case (Some t)
    then show ?thesis
      using Suc.prems keeps_lines[OF g Suc.IH] keeps_trans[OF keeps_tick] by simp
  qed
qed simp

lemma keeps_all_load: "keeps_all (load_macro k E)"
  using keeps_load by (auto simp: keeps_all_def load_macro_def)

end
