(* ===== verification/MacroThms.thy ===== *)
theory MacroThms
  imports MacroInv
begin

text \<open>
  What an expansion computes: texts without macros, escaped percent signs, a definition and
  its use, conditional uses, names that are not defined, a definition that refers to itself,
  and the arguments of a macro with parameters.
\<close>

section \<open>Names and plain texts\<close>

lemma macro_char_not [simp]:
  "\<not> macro_char (CHR ''{'')" "\<not> macro_char (CHR ''}'')" "\<not> macro_char (CHR '':'')" "\<not> macro_char (CHR '' '')"
  "\<not> macro_char (CHR ''!'')" "\<not> macro_char (CHR ''?'')" "\<not> macro_char (CHR ''@'')" "\<not> macro_char (CHR ''-'')"
  "\<not> macro_char (CHR ''.'')" "\<not> macro_char (CHR ''%'')" "\<not> macro_char (CHR ''('')" "\<not> macro_char (CHR 0x5C)"
  "\<not> macro_char (CHR 0x09)" "\<not> macro_char (CHR 0x0A)" "\<not> macro_char (CHR ''*'')" "\<not> macro_char (CHR ''#'')"
  by (simp_all add: macro_char_def xis_defs cval_def)

definition plain_macro_name :: "string \<Rightarrow> bool" where
  "plain_macro_name n \<longleftrightarrow> n \<noteq> [] \<and> list_all macro_char n"

text \<open>The names that \<open>expandMacro\<close> handles itself.\<close>

definition builtin_names :: "string list" where
  "builtin_names =
     [''load'', ''global'', ''define'', ''undefine'', ''echo'', ''warn'', ''error'', ''trace'', ''dump''] @ foo_names"

text \<open>A text that the bracket matching and the expander pass over.\<close>

definition plain_char :: "char \<Rightarrow> bool" where
  "plain_char c \<longleftrightarrow> c \<noteq> CHR ''%'' \<and> c \<noteq> CHR 0x5C \<and> c \<noteq> CHR ''{'' \<and> c \<noteq> CHR ''}'' \<and> c \<noteq> NUL"

lemma name_plain: "macro_char c \<Longrightarrow> plain_char c"
  by (auto simp: plain_char_def macro_char_def xis_defs cval_def)

lemma STREQ_append [simp]: "STREQ t (n @ x) (length n) \<longleftrightarrow> n = t"
  by (auto simp: STREQ_def)

lemma matchchar_plain:
  "list_all plain_char w \<Longrightarrow> matchchar l (CHR ''{'') (CHR ''}'') (w @ r) = matchchar l (CHR ''{'') (CHR ''}'') r"
  by (induction w) (auto simp: plain_char_def)

lemma cstr_plain: "NUL \<notin> set t \<Longrightarrow> cstr t = t"
  by (auto simp: cstr_def takeWhile_eq_all_conv)

lemma takeWhile_name: "list_all macro_char n \<Longrightarrow> \<not> macro_char c \<Longrightarrow> takeWhile macro_char (n @ c # r) = n"
  by (induction n) auto

lemma takeWhile_field: "list_all macro_char n \<Longrightarrow> field_end c \<Longrightarrow> takeWhile (\<lambda>c. \<not> field_end c) (n @ c # r) = n"
proof (induction n)
  case (Cons a n)
  then have "\<not> field_end a" by (auto simp: field_end_def)
  with Cons show ?case by simp
qed simp

lemma scan_flags_name: "n \<noteq> [] \<Longrightarrow> list_all macro_char n \<Longrightarrow> scan_flags a b d (n @ r) = ((a, b, d), n @ r)"
  by (cases n) auto

lemma list_all_name_plain: "list_all macro_char n \<Longrightarrow> list_all plain_char n"
  by (auto simp: list_all_iff name_plain)

section \<open>Parsing the forms of a use\<close>

lemma parse_braced_name:
  assumes "plain_macro_name n"
  shows "parse_call (''{'' @ n @ ''}'' @ r) = Inr (Some
    \<lparr> c_f = n @ ''}'' @ r, c_fn = length n, c_g = None, c_last = None, c_se = r,
      c_s = ''{'' @ n @ ''}'' @ r, c_negate = False, c_chkexist = False, c_stackarray = False \<rparr>)"
  using assms takeWhile_field[of n "CHR ''}''" r] scan_flags_name[of n False False False "''}'' @ r"]
    matchchar_plain[OF list_all_name_plain[of n], of "Suc 0" "CHR ''}'' # r"]
  by (simp add: parse_call_def plain_macro_name_def parse_braced_def Let_def field_end_def)

definition flags_of :: "bool \<Rightarrow> string" where
  "flags_of neg = (if neg then ''!?'' else ''?'')"

lemma parse_cond_name:
  assumes "plain_macro_name n" "list_all plain_char x"
  shows "parse_call (''{'' @ flags_of neg @ n @ '':'' @ x @ ''}'' @ r) = Inr (Some
    \<lparr> c_f = n @ '':'' @ x @ ''}'' @ r, c_fn = length n, c_g = Some x, c_last = None, c_se = r,
      c_s = ''{'' @ flags_of neg @ n @ '':'' @ x @ ''}'' @ r,
      c_negate = neg, c_chkexist = True, c_stackarray = False \<rparr>)"
proof -
  have "list_all plain_char (flags_of neg @ n @ '':'' @ x)"
    using assms list_all_name_plain[of n] by (auto simp: plain_macro_name_def flags_of_def plain_char_def)
  from matchchar_plain[OF this, of "Suc 0" "CHR ''}'' # r"]
  have m: "matchchar 0 (CHR ''{'') (CHR ''}'') (''{'' @ flags_of neg @ n @ '':'' @ x @ ''}'' @ r) =
      Inr (Some (CHR ''}'' # r))" by simp
  have f: "scan_flags False False False (flags_of neg @ n @ '':'' @ x @ ''}'' @ r) =
      ((neg, True, False), n @ '':'' @ x @ ''}'' @ r)"
    using assms(1) scan_flags_name[of n _ True False "'':'' @ x @ ''}'' @ r"]
    by (auto simp: flags_of_def plain_macro_name_def)
  show ?thesis
    using m f assms(1) takeWhile_field[of n "CHR '':''" "x @ CHR ''}'' # r"]
    by (simp add: parse_call_def plain_macro_name_def parse_braced_def Let_def field_end_def)
qed

section \<open>Texts without macros\<close>

definition put_text :: "MacroBuf \<Rightarrow> string \<Rightarrow> MacroBuf" where
  "put_text mb s = mb\<lparr> mb_t := mb_t mb @ s, mb_nb := mb_nb mb - length s \<rparr>"

lemma put_text_simps [simp]:
  "put_text mb [] = mb" "mb_nb (put_text mb s) = mb_nb mb - length s" "mb_t (put_text mb s) = mb_t mb @ s"
  "put_text (put_text mb s) s' = put_text mb (s @ s')" "mb_mc (put_text mb s) = mb_mc mb"
  "mb_depth (put_text mb s) = mb_depth mb" "mb_live (put_text mb s) = mb_live mb"
  "mb_print (put_text mb s) = mb_print mb"
  by (simp_all add: put_text_def)

lemma SAVECHAR_put: "SAVECHAR mb c = put_text mb [c]"
  by (simp add: SAVECHAR_def put_text_def)

fun pct_escape :: "string \<Rightarrow> string" where
  "pct_escape [] = []"
| "pct_escape (c # cs) = (if c = CHR ''%'' then ''%%'' else [c]) @ pct_escape cs"

lemma expand_loop_stop: "mb_nb mb = 0 \<or> s = [] \<Longrightarrow> expand_loop E load rec mb s = Inr (0, mb)"
  by (subst expand_loop.simps) auto

lemma expand_loop_step:
  "mb_nb mb > 0 \<Longrightarrow> s \<noteq> [] \<Longrightarrow> expand_step E load rec mb s = Inr (0, mb', s') \<Longrightarrow>
   expand_loop E load rec mb s = expand_loop E load rec mb' s'"
  by (subst expand_loop.simps) simp

lemma expand_loop_fail:
  "mb_nb mb > 0 \<Longrightarrow> s \<noteq> [] \<Longrightarrow> expand_step E load rec mb s = Inr (rc, mb', s') \<Longrightarrow> rc \<noteq> 0 \<Longrightarrow>
   expand_loop E load rec mb s = Inr (rc, mb')"
  by (subst expand_loop.simps) simp

lemma loop_escape:
  "length s \<le> mb_nb mb \<Longrightarrow>
   expand_loop E load rec mb (pct_escape s @ r) = expand_loop E load rec (put_text mb s) r"
proof (induction s arbitrary: mb)
  case (Cons c cs)
  have st: "expand_step E load rec mb (pct_escape (c # cs) @ r) = Inr (0, put_text mb [c], pct_escape cs @ r)"
    by (simp add: expand_step_def SAVECHAR_put)
  have "expand_loop E load rec mb (pct_escape (c # cs) @ r) = expand_loop E load rec (put_text mb [c]) (pct_escape cs @ r)"
    by (rule expand_loop_step[OF _ _ st]) (use Cons.prems in auto)
  then show ?case using Cons.IH[of "put_text mb [c]"] Cons.prems by simp
qed simp

lemma escape_plain: "CHR ''%'' \<notin> set s \<Longrightarrow> pct_escape s = s"
  by (induction s) auto

lemma loop_plain:
  "CHR ''%'' \<notin> set s \<Longrightarrow> length s \<le> mb_nb mb \<Longrightarrow>
   expand_loop E load rec mb (s @ r) = expand_loop E load rec (put_text mb s) r"
  using loop_escape[of s mb E load rec r] by (simp add: escape_plain)

lemma expandMacro_escape:
  "length s \<le> mb_nb mb \<Longrightarrow> expandMacro (Suc n) E load mb (pct_escape s) = Inr (0, put_text mb s)"
  using loop_escape[of s "mb\<lparr> mb_depth := mb_depth mb + 1 \<rparr>" E load "expandMacro n E load" "[]"]
  by (simp add: expand_loop_stop put_text_def)

lemma expandMacro_plain:
  "CHR ''%'' \<notin> set s \<Longrightarrow> length s \<le> mb_nb mb \<Longrightarrow> expandMacro (Suc n) E load mb s = Inr (0, put_text mb s)"
  using expandMacro_escape[of s mb n E load] by (simp add: escape_plain)

text \<open>The buffer of \<open>expandMacros\<close> around one call of \<open>expandMacro\<close>.\<close>

definition fresh_buf :: "MacroBuf \<Rightarrow> nat \<Rightarrow> MacroBuf" where
  "fresh_buf mb slen = mb\<lparr> mb_t := [], mb_nb := slen, mb_depth := 0,
     mb_macro_trace := fst (mb_print mb), mb_expand_trace := snd (mb_print mb) \<rparr>"

lemma max_depth: "max_macro_depth = Suc 15"
  by (simp add: max_macro_depth_def)

lemma expandMacros_text:
  assumes l: "expand_loop E load (expandMacro 15 E load) ((fresh_buf mb slen)\<lparr> mb_depth := 1 \<rparr>) s =
      Inr (0, (put_text ((fresh_buf mb slen)\<lparr> mb_depth := 1 \<rparr>) t)\<lparr> mb_mc := mc \<rparr>)"
    and t: "length t < slen" "NUL \<notin> set t"
  shows "expandMacros E load mb s slen = Inr (0, mb\<lparr> mb_mc := mc \<rparr>, t)"
proof -
  have "mb_depth (fresh_buf mb slen) + 1 = 1" by (simp add: fresh_buf_def)
  then have "expandMacro max_macro_depth E load (fresh_buf mb slen) s =
      Inr (0, (put_text (fresh_buf mb slen) t)\<lparr> mb_mc := mc \<rparr>)"
    unfolding max_depth expandMacro.simps using l by (simp add: fresh_buf_def put_text_def)
  then show ?thesis
    unfolding expandMacros_def using t by (simp add: fresh_buf_def put_text_def cstr_plain)
qed

lemma expandMacros_text_same:
  assumes "expand_loop E load (expandMacro 15 E load) ((fresh_buf mb slen)\<lparr> mb_depth := 1 \<rparr>) s =
      Inr (0, put_text ((fresh_buf mb slen)\<lparr> mb_depth := 1 \<rparr>) t)"
    and "length t < slen" "NUL \<notin> set t"
  shows "expandMacros E load mb s slen = Inr (0, mb, t)"
proof -
  have m: "m\<lparr> mb_mc := mb_mc m \<rparr> = m" for m :: MacroBuf by simp
  have "(put_text ((fresh_buf mb slen)\<lparr> mb_depth := 1 \<rparr>) t)\<lparr> mb_mc := mb_mc mb \<rparr> =
      put_text ((fresh_buf mb slen)\<lparr> mb_depth := 1 \<rparr>) t"
    by (simp add: fresh_buf_def put_text_def)
  then show ?thesis
    using expandMacros_text[of E load mb slen s "mb_mc mb" t] assms m[of mb] by metis
qed

lemma map_update_same: "f y = f (xs ! i) \<Longrightarrow> map f (xs[i := y]) = map f xs"
  by (metis list_update_beyond list_update_id linorder_not_le map_update nth_map)

text \<open>C17: an escaped text expands to the text. Doubling every percent sign protects any text without
  NUL bytes that is shorter than the buffer: its expansion succeeds, gives the text back and
  changes nothing else.\<close>

theorem expandMacros_escape:
  assumes "NUL \<notin> set s" "length s < slen"
  shows "expandMacros E load mb (pct_escape s) slen = Inr (0, mb, s)"
  using assms expandMacro_escape[of s "fresh_buf mb slen" 15 E load]
  by (simp add: expandMacros_def max_depth fresh_buf_def put_text_def cstr_plain)

text \<open>A system that answers nothing, and an expansion that has not started, with the empty table.\<close>

definition demo_env :: menv where
  "demo_env =
     \<lparr> env_popen = (\<lambda>_ _. None), env_popt = (\<lambda>_ _ av. ([], False, tl av)), env_getenv = (\<lambda>_. None),
       env_realpath = (\<lambda>_ _. None), env_verbose = False, env_compressed = (\<lambda>_ _. 0),
       env_mkstemp = (\<lambda>_ s. s), env_mkdtemp = (\<lambda>_ s. s), env_uuid = (\<lambda>_ _ _ _. None),
       env_file = (\<lambda>_ _. None), env_glob = (\<lambda>_ _. None), env_sane = (\<lambda>_ _. False) \<rparr>"

definition demo_buf :: MacroBuf where
  "demo_buf =
     \<lparr> mb_t = [], mb_nb = 0, mb_depth = 0, mb_macro_trace = 0, mb_expand_trace = 0, mb_mc = empty_mc,
       mb_live = [], mb_clock = 0, mb_msgs = [], mb_print = (0, 0) \<rparr>"

lemma demo_buf_simps [simp]: "mb_mc demo_buf = empty_mc" "mb_live demo_buf = []"
  by (simp_all add: demo_buf_def)

theorem expandMacros_escape_witness:
  "expandMacros demo_env (load_macro 1 demo_env) demo_buf ''100%%'' 5 = Inr (0, demo_buf, ''100%'')"
  using expandMacros_escape[of "''100%''" 5 demo_env "load_macro 1 demo_env" demo_buf] by simp

section \<open>The invariant\<close>

text \<open>C6: the invariant of an expansion. Whatever the text, the definitions, the answers of the
  system and the bound on nested loads: when \<open>expandMacro\<close> returns, with success or failure, the
  macro table is well formed if it was, the entries whose bodies callers are still reading are at
  their place in it, the depth is as before, and the bytes written and the bytes left of the target
  buffer add up to its size.\<close>

theorem expandMacro_invariant:
  assumes "expandMacro n E (load_macro k E) mb s = Inr (rc, mb')"
    and "mc_wf (mb_mc mb)" "live_ok (mb_mc mb) (mb_live mb)"
  shows "mc_wf (mb_mc mb') \<and> live_ok (mb_mc mb') (mb_live mb') \<and> mb_live mb' = mb_live mb \<and>
    mb_depth mb' = mb_depth mb \<and> mb_nb mb' + length (mb_t mb') = mb_nb mb + length (mb_t mb)"
  using keeps_allD[OF keeps_all_expandMacro[OF keeps_all_load] assms(1)] assms(2,3)
  by (auto simp: keeps_def mb_ok_def)

theorem expandMacro_invariant_witness:
  "\<exists>rc mb'. expandMacro 1 demo_env (load_macro 1 demo_env) (demo_buf\<lparr> mb_nb := 10 \<rparr>) (pct_escape ''5%'') = Inr (rc, mb') \<and>
     mc_wf (mb_mc mb') \<and> mb_nb mb' + length (mb_t mb') = 10"
proof -
  let ?m = "demo_buf\<lparr> mb_nb := 10 \<rparr>"
  have e: "expandMacro 1 demo_env (load_macro 1 demo_env) ?m (pct_escape ''5%'') = Inr (0, put_text ?m ''5%'')"
    using expandMacro_escape[of "''5%''" ?m 0 demo_env "load_macro 1 demo_env"] by simp
  have "mc_wf (mb_mc ?m)" "live_ok (mb_mc ?m) (mb_live ?m)" by (simp_all add: mc_wf_empty live_ok_def)
  from expandMacro_invariant[OF e this] show ?thesis using e by (simp add: demo_buf_def)
qed

section \<open>A definition and its use\<close>

text \<open>A body that \<open>%define\<close> takes over as it is.\<close>

definition plain_body :: "string \<Rightarrow> bool" where
  "plain_body b \<longleftrightarrow>
     b \<noteq> [] \<and> list_all plain_char b \<and> list_all (\<lambda>c. \<not> iseol c) b \<and> \<not> isblank (hd b) \<and> \<not> isblank (last b)"

lemma define_body_plain:
  "list_all plain_char b \<Longrightarrow> list_all (\<lambda>c. \<not> iseol c) b \<Longrightarrow> define_body 0 0 b = (b, 0, 0, [])"
  by (induction b) (auto simp: plain_char_def)

lemma trim_body_plain: "plain_body b \<Longrightarrow> trim_body b = b"
proof -
  assume b: "plain_body b"
  then obtain x xs where r: "rev b = x # xs" by (cases "rev b") (auto simp: plain_body_def)
  then have "x = last b" "x \<in> set b" by (metis hd_rev list.sel(1), metis list.set_intros(1) set_rev)
  then have "\<not> (isblank x \<or> iseol x)" using b by (auto simp: plain_body_def list_all_iff)
  then have "rev (dropWhile (\<lambda>c. isblank c \<or> iseol c) (rev b)) = rev (rev b)" by (simp add: r)
  then show ?thesis by (simp add: trim_body_def)
qed

lemma name_not_blank: "macro_char c \<Longrightarrow> \<not> isblank c"
  by (auto simp: isblank_def)

lemma parse_define_plain:
  assumes "legal_name n" "list_all macro_char n" "plain_body b" "length n + 2 + length b < N"
  shows "parse_define N (n @ '' '' @ b) =
    Inr (Some \<lparr> d_dots = [], d_name = n, d_opts = None, d_body = b \<rparr>, [])"
proof -
  obtain c cs where n: "n = c # cs" using assms(1) by (cases n) (auto simp: legal_name_def)
  obtain d ds where b: "b = d # ds" using assms(3) by (cases b) (auto simp: plain_body_def)
  have c: "macro_char c" "\<not> isblank c" "c \<noteq> CHR ''.''" using assms(2) n name_not_blank[of c] by auto
  have d: "\<not> isblank d" "d \<noteq> CHR ''{''" using assms(3) b by (auto simp: plain_body_def plain_char_def)
  have sk: "SKIPBLANK (n @ '' '' @ b) = n @ '' '' @ b" using n c by (simp add: SKIPBLANK_def)
  have nd: "name_dots (n @ '' '' @ b) = Inr ([], n @ '' '' @ b)" using n c by (simp add: name_dots_def)
  have cn: "COPYNAME (n @ '' '' @ b) = (n, '' '' @ b)"
    using sk takeWhile_name[OF assms(2), of "CHR '' ''" b] assms(2)
    by (simp add: COPYNAME_def Let_def) (simp add: list_all_iff dropWhile_append)
  have co: "COPYOPTS ('' '' @ b) = Inr (None, '' '' @ b)" by (simp add: COPYOPTS_def)
  have sb: "SKIPBLANK ('' '' @ b) = b" using b d by (simp add: SKIPBLANK_def isblank_def)
  have at: "body_at [] n None = length n + 2" by (simp add: body_at_def)
  have db: "define_body 0 0 b = (b, 0, 0, [])" using assms(3) define_body_plain by (simp add: plain_body_def)
  have pb: "parse_body N (length n + 2) b = Inr (b, [], True)"
    using d assms(4) db trim_body_plain[OF assms(3)] unfolding parse_body_def b by simp
  show ?thesis
    using sk nd cn co sb at pb assms(1,4) b by (simp add: parse_define_def skip_eol_def)
qed

lemma legal_not_dot: "legal_name n \<Longrightarrow> list_all macro_char n \<Longrightarrow> plain_name n = n"
  by (cases n) (auto simp: legal_name_def plain_name_def skip_dot_def)

lemma rpmDefineMacro_plain:
  assumes "legal_name n" "list_all macro_char n" "plain_body b" "length n + 2 + length b < macro_BUFSIZ"
  shows "rpmDefineMacro mb (n @ '' '' @ b) level =
    Inr (mb\<lparr> mb_mc := addMacro (mb_mc mb) n None (Some b) (level - 1) \<rparr>)"
  using parse_define_plain[OF assms] by (simp add: rpmDefineMacro_def doDefine_def)

text \<open>The use of a defined macro without parameters.\<close>

lemma not_builtin:
  assumes "n \<notin> set builtin_names"
  shows "list_ex (\<lambda>t. STREQ t (n @ x) (length n)) foo_names = False"
    "n \<noteq> ''load''" "n \<noteq> ''global''" "n \<noteq> ''define''" "n \<noteq> ''undefine''" "n \<noteq> ''echo''" "n \<noteq> ''warn''"
    "n \<noteq> ''error''" "n \<noteq> ''trace''" "n \<noteq> ''dump''"
  using assms by (auto simp: builtin_names_def list_ex_iff)

lemma call_defined:
  assumes "plain_macro_name n" "n \<notin> set builtin_names" "c_f k = n @ x" "c_fn k = length n" "c_last k = None"
  shows "expand_call E load rec mb k = expand_defined E rec mb k"
  using assms(1,3,4,5) not_builtin(1)[OF assms(2), of x] not_builtin(2-)[OF assms(2)]
  by (simp add: expand_call_def plain_macro_name_def)

lemma hd_name: "plain_macro_name n \<Longrightarrow> hd (n @ x) \<noteq> CHR ''-''"
  by (cases n) (auto simp: plain_macro_name_def)

lemma step_use:
  assumes "plain_macro_name n" "n \<notin> set builtin_names" "mc_wf (mb_mc mb)"
    and "defs_of (mb_mc mb) n = me # prev" "me_opts me = None"
  shows "expand_step E load rec mb (''%{'' @ n @ ''}'' @ r) =
    andThen (expand_body rec mb n me (Suc (length prev))) (\<lambda>(rc, mb1). Inr (rc, mb1, r))"
proof -
  let ?k = "\<lparr> c_f = n @ ''}'' @ r, c_fn = length n, c_g = None, c_last = None, c_se = r,
      c_s = ''{'' @ n @ ''}'' @ r, c_negate = False, c_chkexist = False, c_stackarray = False \<rparr>"
  have cd: "current_def (mb_mc mb) (n @ ''}'' @ r) (length n) = me # prev"
    using assms(1,3,4) current_def_take[OF assms(3), of "length n" "n @ ''}'' @ r"]
    by (simp add: plain_macro_name_def)
  have "expand_defined E rec mb ?k =
      andThen (expand_body rec mb n me (Suc (length prev))) (\<lambda>(rc, mb1). Inr (rc, mb1, r))"
    using cd hd_name[OF assms(1), of "''}'' @ r"] assms(5) by (simp add: expand_defined_def setup_args_def)
  moreover have "expand_call E load rec mb ?k = expand_defined E rec mb ?k"
    by (rule call_defined[OF assms(1,2)]) simp_all
  ultimately show ?thesis
    using parse_braced_name[OF assms(1), of r] by (simp add: expand_step_def)
qed

definition expands_to :: "menv \<Rightarrow> loader \<Rightarrow> MacroBuf \<Rightarrow> string \<Rightarrow> nat \<Rightarrow> string \<Rightarrow> bool" where
  "expands_to E load mb s slen t \<longleftrightarrow>
     (\<exists>mb'. expandMacros E load mb s slen = Inr (0, mb', t) \<and> mc_wf (mb_mc mb') \<and>
        (\<forall>k. map me_body (defs_of (mb_mc mb') k) = map me_body (defs_of (mb_mc mb) k)))"


lemma use_entry_bodies:
  assumes "mc_wf mc"
  shows "map me_body (defs_of (use_entry mc n h) k) = map me_body (defs_of mc k)"
proof (cases "macro_findEntry mc n 0")
  case None
  then show ?thesis by (simp add: use_entry_def)
next
  case (Some i)
  note f = macro_findEntry_Some[OF assms Some]
  let ?c = "defs_of mc n"
  let ?j = "length ?c - h"
  let ?d = "?c[?j := (?c ! ?j)\<lparr> me_used := me_used (?c ! ?j) + 1 \<rparr>]"
  have u: "use_entry mc n h = put_chain mc i ?d"
    using Some f by (simp add: use_entry_def put_chain_def Let_def)
  have ne: "?d \<noteq> []" using f by simp
  have same: "map me_body ?d = map me_body ?c" "map me_name ?d = map me_name ?c"
    by (rule map_update_same; simp)+
  have "\<forall>x\<in>set (map me_name ?d). x = n" unfolding same(2) using defs_of_names[OF assms] by auto
  then have nm: "\<forall>e\<in>set ?d. me_name e = n" by simp
  then have sn: "slot_name ?d = n" using ne by (simp add: slot_name_def)
  then have "chain_ok ?d" using nm by (simp add: chain_ok_def)
  then show ?thesis
    using put_chain_presorted[OF assms Some, of ?d] sn u same(1) by (simp add: fun_upd_def)
qed

lemma expand_body_plain:
  assumes "CHR ''%'' \<notin> set (me_body me)" "length (me_body me) \<le> mb_nb mb"
  shows "\<exists>mc. expand_body (expandMacro (Suc i) E load) mb n me h = Inr (0, (put_text mb (me_body me))\<lparr> mb_mc := mc \<rparr>) \<and>
    (mc = mb_mc mb \<or> mc = use_entry (mb_mc mb) n h)"
proof (cases "me_body me = []")
  case True
  then show ?thesis by (intro exI[of _ "mb_mc mb"]) (simp add: expand_body_def put_text_def)
next
  case False
  have "expandMacro (Suc i) E load (mb\<lparr> mb_live := (n, h) # mb_live mb \<rparr>) (me_body me) =
      Inr (0, put_text (mb\<lparr> mb_live := (n, h) # mb_live mb \<rparr>) (me_body me))"
    by (rule expandMacro_plain) (use assms in simp_all)
  then show ?thesis
    using False
    by (intro exI[of _ "use_entry (mb_mc mb) n h"])
      (simp add: expand_body_def Let_def put_text_def del: expandMacro.simps)
qed

lemma expands_to_use:
  assumes "plain_macro_name n" "n \<notin> set builtin_names" "mc_wf (mb_mc mb)"
    and "defs_of (mb_mc mb) n = me # prev" "me_opts me = None"
    and "list_all plain_char (me_body me)" "length (me_body me) < slen"
  shows "expands_to E load mb (''%{'' @ n @ ''}'') slen (me_body me)"
proof -
  let ?b = "me_body me" and ?m = "(fresh_buf mb slen)\<lparr> mb_depth := 1 \<rparr>"
  have np: "CHR ''%'' \<notin> set ?b" "NUL \<notin> set ?b" using assms(6) by (auto simp: list_all_iff plain_char_def)
  obtain mc where b: "expand_body (expandMacro 15 E load) ?m n me (Suc (length prev)) =
      Inr (0, (put_text ?m ?b)\<lparr> mb_mc := mc \<rparr>)" and mc: "mc = mb_mc ?m \<or> mc = use_entry (mb_mc ?m) n (Suc (length prev))"
    using expand_body_plain[of me ?m 14 E load n "Suc (length prev)"] np(1) assms(7)
    by (auto simp: fresh_buf_def numeral_eq_Suc)
  have st: "expand_step E load (expandMacro 15 E load) ?m (''%{'' @ n @ ''}'' @ []) =
      Inr (0, (put_text ?m ?b)\<lparr> mb_mc := mc \<rparr>, [])"
    using step_use[OF assms(1,2), of ?m me prev E load "expandMacro 15 E load" "[]"] assms(3,4,5) b
    by (simp add: fresh_buf_def)
  have "expand_loop E load (expandMacro 15 E load) ?m (''%{'' @ n @ ''}'' @ []) =
      Inr (0, (put_text ?m ?b)\<lparr> mb_mc := mc \<rparr>)"
    using expand_loop_step[OF _ _ st] assms(7) by (simp add: fresh_buf_def expand_loop_stop)
  then have e: "expandMacros E load mb (''%{'' @ n @ ''}'') slen = Inr (0, mb\<lparr> mb_mc := mc \<rparr>, ?b)"
    using expandMacros_text[of E load mb slen "''%{'' @ n @ ''}''" mc ?b] assms(7) np(2) by simp
  have "mc_wf mc" "map me_body (defs_of mc k) = map me_body (defs_of (mb_mc mb) k)" for k
    using mc assms(3) use_entry_ok[OF assms(3)] use_entry_bodies[OF assms(3)] by (auto simp: fresh_buf_def)
  then show ?thesis unfolding expands_to_def using e by auto
qed

text \<open>C8: a definition is what a use expands to. After \<open>rpmDefineMacro\<close> with a legal
  name that is not one of the primitives and not readonly, and a body that is not empty, does not start
  or end with a blank, has no brackets, escapes, percent signs and line ends, and fits into the buffers,
  \<open>%{name}\<close> expands to exactly that body, and the bodies of all definitions are as they
  were after the definition.\<close>

theorem define_then_expand:
  assumes "legal_name n" "list_all macro_char n" "n \<notin> set builtin_names" "plain_body b"
    and "length n + 2 + length b < macro_BUFSIZ" "length b < slen"
    and "mc_wf (mb_mc mb)" "\<not> readonly_blocks (defs_of (mb_mc mb) n) n"
  shows "\<exists>mb1. rpmDefineMacro mb (n @ '' '' @ b) level = Inr mb1 \<and>
    expands_to E load mb1 (''%{'' @ n @ ''}'') slen b"
proof -
  let ?mc = "addMacro (mb_mc mb) n None (Some b) (level - 1)"
  let ?mb1 = "mb\<lparr> mb_mc := ?mc \<rparr>"
  have d: "rpmDefineMacro mb (n @ '' '' @ b) level = Inr ?mb1"
    using rpmDefineMacro_plain[OF assms(1,2,4,5)] by simp
  have pn: "plain_name n = n" using legal_not_dot[OF assms(1,2)] .
  have df: "mc_wf ?mc" "defs_of ?mc n = mk_def (defs_of (mb_mc mb) n) n (None, Some b, level - 1) # defs_of (mb_mc mb) n"
    using addMacro_ok[OF assms(7), of n None "Some b" "level - 1"] assms(8) pn by (simp_all add: push_mk)
  let ?e = "mk_def (defs_of (mb_mc mb) n) n (None, Some b, level - 1)"
  have e: "me_opts ?e = None" "me_body ?e = b" by (simp_all add: mk_def_def pushMacro_def Let_def)
  have "expands_to E load ?mb1 (''%{'' @ n @ ''}'') slen (me_body ?e)"
    by (rule expands_to_use[where prev = "defs_of (mb_mc mb) n"])
      (use assms df e in \<open>auto simp: plain_macro_name_def legal_name_def plain_body_def\<close>)
  then show ?thesis using d e by auto
qed

section \<open>Names without a definition\<close>

lemma call_undefined:
  assumes "plain_macro_name n" "mc_wf (mb_mc mb)" "defs_of (mb_mc mb) n = []"
  shows "current_def (mb_mc mb) (n @ x) (length n) = []"
  using assms current_def_take[OF assms(2), of "length n" "n @ x"] by (simp add: plain_macro_name_def)

lemma step_unknown:
  assumes "plain_macro_name n" "n \<notin> set builtin_names" "mc_wf (mb_mc mb)" "defs_of (mb_mc mb) n = []"
  shows "expand_step E load rec mb (''%{'' @ n @ ''}'' @ r) = Inr (0, put_text mb ''%'', ''{'' @ n @ ''}'' @ r)"
proof -
  let ?k = "\<lparr> c_f = n @ ''}'' @ r, c_fn = length n, c_g = None, c_last = None, c_se = r,
      c_s = ''{'' @ n @ ''}'' @ r, c_negate = False, c_chkexist = False, c_stackarray = False \<rparr>"
  have "expand_defined E rec mb ?k = Inr (0, put_text mb ''%'', ''{'' @ n @ ''}'' @ r)"
    using call_undefined[OF assms(1,3,4), of "''}'' @ r"] hd_name[OF assms(1), of "''}'' @ r"]
    by (simp add: expand_defined_def SAVECHAR_put)
  moreover have "expand_call E load rec mb ?k = expand_defined E rec mb ?k"
    by (rule call_defined[OF assms(1,2)]) simp_all
  ultimately show ?thesis using parse_braced_name[OF assms(1), of r] by (simp add: expand_step_def)
qed

text \<open>A name without a definition is left as it is: \<open>%{name}\<close> expands to itself.\<close>

theorem expandMacros_unknown:
  assumes "plain_macro_name n" "n \<notin> set builtin_names" "mc_wf (mb_mc mb)" "defs_of (mb_mc mb) n = []"
    and "length n + 3 < slen"
  shows "expandMacros E load mb (''%{'' @ n @ ''}'') slen = Inr (0, mb, ''%{'' @ n @ ''}'')"
proof -
  let ?m = "(fresh_buf mb slen)\<lparr> mb_depth := 1 \<rparr>"
  let ?t = "''{'' @ n @ ''}''"
  have np: "CHR ''%'' \<notin> set n" "NUL \<notin> set n"
    using assms(1) name_plain by (auto simp: plain_macro_name_def list_all_iff plain_char_def)
  have st: "expand_step E load (expandMacro 15 E load) ?m (''%{'' @ n @ ''}'' @ []) = Inr (0, put_text ?m ''%'', ?t @ [])"
    using step_unknown[OF assms(1,2), of ?m E load "expandMacro 15 E load" "[]"] assms(3,4) by (simp add: fresh_buf_def)
  have "expand_loop E load (expandMacro 15 E load) ?m (''%{'' @ n @ ''}'' @ []) =
      expand_loop E load (expandMacro 15 E load) (put_text ?m ''%'') (?t @ [])"
    by (rule expand_loop_step[OF _ _ st]) (use assms(5) in \<open>simp_all add: fresh_buf_def\<close>)
  also have "\<dots> = expand_loop E load (expandMacro 15 E load) (put_text (put_text ?m ''%'') ?t) []"
    by (rule loop_plain) (use np assms(5) in \<open>simp_all add: fresh_buf_def\<close>)
  finally have "expand_loop E load (expandMacro 15 E load) ?m (''%{'' @ n @ ''}'') =
      Inr (0, put_text ?m (''%'' @ ?t))" by (simp add: expand_loop_stop)
  then show ?thesis
    using expandMacros_text_same[of E load mb slen "''%{'' @ n @ ''}''" "''%{'' @ n @ ''}''"] assms(5) np(2)
    by simp
qed

section \<open>Conditional uses\<close>

lemma step_cond:
  assumes "plain_macro_name n" "n \<notin> set builtin_names" "mc_wf (mb_mc mb)"
    and "list_all plain_char x" "x \<noteq> []"
  shows "expand_step E load rec mb (''%{'' @ flags_of neg @ n @ '':'' @ x @ ''}'' @ r) =
    (if (defs_of (mb_mc mb) n = []) = neg then andThen (rec mb x) (\<lambda>(rc, mb1). Inr (rc, mb1, r)) else Inr (0, mb, r))"
proof -
  let ?y = "'':'' @ x @ ''}'' @ r"
  let ?k = "\<lparr> c_f = n @ ?y, c_fn = length n, c_g = Some x, c_last = None, c_se = r,
      c_s = ''{'' @ flags_of neg @ n @ ?y, c_negate = neg, c_chkexist = True, c_stackarray = False \<rparr>"
  have cd: "current_def (mb_mc mb) (n @ ?y) (length n) = defs_of (mb_mc mb) n"
    using assms(1,3) current_def_take[OF assms(3), of "length n" "n @ ?y"] by (simp add: plain_macro_name_def)
  obtain c cs where x: "x = c # cs" using assms(5) by (cases x) auto
  have "expand_defined E rec mb ?k =
      (if (defs_of (mb_mc mb) n = []) = neg then andThen (rec mb x) (\<lambda>(rc, mb1). Inr (rc, mb1, r)) else Inr (0, mb, r))"
    using cd hd_name[OF assms(1), of ?y] by (simp add: expand_defined_def expand_cond_def expandT_def x)
  moreover have "expand_call E load rec mb ?k = expand_defined E rec mb ?k"
    by (rule call_defined[OF assms(1,2)]) simp_all
  ultimately show ?thesis using parse_cond_name[OF assms(1,4), of neg r] by (simp add: expand_step_def)
qed

text \<open>C15: a conditional use of a name that is not built in, with a text that is not empty and has
  no percent sign, bracket, backslash or NUL: \<open>%{?name:text}\<close> expands to the text if the
  name is defined and to nothing if it is not, \<open>%{!?name:text}\<close> the other way round, and
  neither changes anything else.\<close>

theorem expandMacros_cond:
  assumes "plain_macro_name n" "n \<notin> set builtin_names" "mc_wf (mb_mc mb)"
    and "list_all plain_char x" "x \<noteq> []" "length x < slen"
  shows "expandMacros E load mb (''%{'' @ flags_of neg @ n @ '':'' @ x @ ''}'') slen =
    Inr (0, mb, if (defs_of (mb_mc mb) n = []) = neg then x else [])"
proof -
  let ?m = "(fresh_buf mb slen)\<lparr> mb_depth := 1 \<rparr>"
  let ?u = "if (defs_of (mb_mc mb) n = []) = neg then x else []"
  let ?s = "''%{'' @ flags_of neg @ n @ '':'' @ x @ ''}'' @ []"
  have np: "CHR ''%'' \<notin> set x" "NUL \<notin> set x" using assms(4) by (auto simp: list_all_iff plain_char_def)
  have "expandMacro 15 E load ?m x = Inr (0, put_text ?m x)"
    using expandMacro_plain[of x ?m 14 E load] np assms(6) by (simp add: fresh_buf_def numeral_eq_Suc)
  then have st: "expand_step E load (expandMacro 15 E load) ?m ?s = Inr (0, put_text ?m ?u, [])"
    using step_cond[OF assms(1,2), of ?m x E load "expandMacro 15 E load" neg "[]"] assms(3-5)
    by (simp add: fresh_buf_def)
  have "expand_loop E load (expandMacro 15 E load) ?m ?s = Inr (0, put_text ?m ?u)"
    using expand_loop_step[OF _ _ st] assms(6) by (simp add: fresh_buf_def expand_loop_stop)
  then show ?thesis
    using expandMacros_text_same[of E load mb slen ?s ?u] assms(6) np(2) by simp
qed

section \<open>Recursion\<close>

text \<open>A macro that refers to itself runs into the depth limit at every level.\<close>

lemma expandMacro_self:
  assumes "plain_macro_name n" "n \<notin> set builtin_names"
  shows "mc_wf (mb_mc mb) \<Longrightarrow> defs_of (mb_mc mb) n = me # prev \<Longrightarrow> me_opts me = None \<Longrightarrow>
    me_body me = ''%{'' @ n @ ''}'' \<Longrightarrow> mb_nb mb > 0 \<Longrightarrow>
    expandMacro i E load mb (''%{'' @ n @ ''}'') = Inr (1, mb\<lparr> mb_expand_trace := 1 \<rparr>)"
proof (induction i arbitrary: mb)
  case (Suc i)
  let ?s = "''%{'' @ n @ ''}'' @ []"
  let ?m = "mb\<lparr> mb_depth := mb_depth mb + 1 \<rparr>"
  let ?l = "?m\<lparr> mb_live := (n, Suc (length prev)) # mb_live ?m \<rparr>"
  have "expandMacro i E load ?l (me_body me) = Inr (1, ?l\<lparr> mb_expand_trace := 1 \<rparr>)"
    unfolding Suc.prems(4) by (rule Suc.IH) (use Suc.prems in simp_all)
  then have b: "expand_body (expandMacro i E load) ?m n me (Suc (length prev)) = Inr (1, ?m\<lparr> mb_expand_trace := 1 \<rparr>)"
    using Suc.prems(4) by (simp add: expand_body_def Let_def)
  have st: "expand_step E load (expandMacro i E load) ?m ?s = Inr (1, ?m\<lparr> mb_expand_trace := 1 \<rparr>, [])"
    using step_use[OF assms, of ?m me prev E load "expandMacro i E load" "[]"] Suc.prems b by simp
  have "expand_loop E load (expandMacro i E load) ?m ?s = Inr (1, ?m\<lparr> mb_expand_trace := 1 \<rparr>)"
    by (rule expand_loop_fail[OF _ _ st]) (use Suc.prems in simp_all)
  then show ?case by simp
qed simp

text \<open>C16: infinite recursion is cut off. A macro whose body is a use of itself makes the expansion
  return with an error, by the limit on the depth: the state is unchanged, and the text of the
  buffer is lost.\<close>

theorem expandMacros_recursion:
  assumes "plain_macro_name n" "n \<notin> set builtin_names" "mc_wf (mb_mc mb)"
    and "defs_of (mb_mc mb) n = me # prev" "me_opts me = None" "me_body me = ''%{'' @ n @ ''}''" "slen > 0"
  shows "expandMacros E load mb (''%{'' @ n @ ''}'') slen = Inr (1, mb, [])"
proof -
  have "expandMacro max_macro_depth E load (fresh_buf mb slen) (''%{'' @ n @ ''}'') =
      Inr (1, (fresh_buf mb slen)\<lparr> mb_expand_trace := 1 \<rparr>)"
    by (rule expandMacro_self[OF assms(1,2)]) (use assms(3-7) in \<open>simp_all add: fresh_buf_def\<close>)
  then show ?thesis using assms(7) by (simp add: expandMacros_def fresh_buf_def cstr_def)
qed

section \<open>Arguments\<close>

lemma add_defs_push_all:
  "add_defs mc d ds = mt.push_all (map (\<lambda>(n, b). (n, (None, Some b, d))) ds) mc"
  by (induction ds arbitrary: mc) (auto simp: add_defs_def push_def_def)

text \<open>The names that stand for arguments.\<close>

definition arg_names :: "(string \<times> string) list \<Rightarrow> string list" where
  "arg_names ds = map fst ds"

text \<open>C18: the arguments of a call go as they came. If the names under which they are defined differ,
  have no leading dot and are not readonly, and nothing in the table was defined at this depth or
  deeper, then \<open>freeArgs\<close> after the definitions of the arguments restores every stack.\<close>

theorem args_roundtrip:
  assumes "mc_wf mc" "distinct (arg_names ds)" "to_short d = d"
    and "\<And>n. n \<in> set (arg_names ds) \<Longrightarrow> plain_name n = n \<and> \<not> readonly_blocks (defs_of mc n) n"
    and "\<And>k. defs_of mc k \<noteq> [] \<Longrightarrow> me_level (hd (defs_of mc k)) < d"
  shows "mc_wf (freeArgs (add_defs mc d ds) d) \<and> defs_of (freeArgs (add_defs mc d ds) d) = defs_of mc"
proof -
  let ?xs = "map (\<lambda>(n, b). (n, (None :: string option, Some b, d))) ds"
  have k: "plain_name (fst x) = fst x" "\<not> readonly_blocks (defs_of mc (fst x)) (fst x)" if "x \<in> set ds" for x
    using assms(4)[of "fst x"] that by (auto simp: arg_names_def)
  have "map (plain_name \<circ> fst) ?xs = arg_names ds"
    using k by (auto simp: arg_names_def)
  then have dist: "distinct (map (plain_name \<circ> fst) ?xs)" using assms(2) by simp
  have "defs_of (freeArgs (mt.push_all ?xs mc) d) = defs_of mc"
  proof (rule mt.sweep_push_all[OF assms(1) dist _ assms(5)])
    fix n a assume "(n, a) \<in> set ?xs"
    then obtain b where b: "(n, b) \<in> set ds" "a = (None, Some b, d)" by auto
    then show "\<not> readonly_blocks (defs_of mc (plain_name n)) n \<and> me_level (mk_def (defs_of mc (plain_name n)) n a) \<ge> d"
      using k[OF b(1)] assms(3) by (simp add: mk_def_def pushMacro_def Let_def)
  qed
  then show ?thesis
    using mt.inv_sweep[OF mt.inv_push_all[OF assms(1)], of ?xs d] by (simp add: add_defs_push_all)
qed


section \<open>Witnesses\<close>

lemma demo_plain_foo: "plain_macro_name ''foo''" "''foo'' \<notin> set builtin_names" "legal_name ''foo''" "list_all macro_char ''foo''"
  by code_simp+

theorem define_then_expand_witness:
  "\<exists>mb1. rpmDefineMacro demo_buf (''foo'' @ '' '' @ ''bar'') 0 = Inr mb1 \<and>
     expands_to demo_env (load_macro 1 demo_env) mb1 (''%{'' @ ''foo'' @ ''}'') 100 ''bar''"
proof (rule define_then_expand)
  show "plain_body ''bar''" "list_all macro_char ''foo''" by code_simp+
qed (simp_all add: demo_plain_foo macro_BUFSIZ_def mc_wf_empty readonly_blocks_def)

theorem expandMacros_unknown_witness:
  "expandMacros demo_env (load_macro 1 demo_env) demo_buf (''%{'' @ ''foo'' @ ''}'') 100 =
    Inr (0, demo_buf, ''%{'' @ ''foo'' @ ''}'')"
  by (rule expandMacros_unknown) (simp_all add: demo_plain_foo mc_wf_empty)

theorem expandMacros_cond_witness:
  "expandMacros demo_env (load_macro 1 demo_env) demo_buf (''%{'' @ flags_of True @ ''foo'' @ '':'' @ ''none'' @ ''}'') 100 =
    Inr (0, demo_buf, ''none'')"
proof -
  have "list_all plain_char ''none''" by code_simp
  then show ?thesis
    using expandMacros_cond[of "''foo''" demo_buf "''none''" 100 demo_env "load_macro 1 demo_env" True]
    by (simp add: demo_plain_foo mc_wf_empty)
qed

definition demo_loop :: MacroBuf where
  "demo_loop = demo_buf\<lparr> mb_mc := addMacro empty_mc ''foo'' None (Some ''%{foo}'') 0 \<rparr>"

lemma demo_loop_defs:
  "mc_wf (mb_mc demo_loop)"
  "defs_of (mb_mc demo_loop) ''foo'' = mk_def [] ''foo'' (None, Some ''%{foo}'', 0) # []"
  using addMacro_ok[OF mc_wf_empty, of "''foo''" None "Some ''%{foo}''" 0]
  by (simp_all add: demo_loop_def readonly_blocks_def plain_name_def skip_dot_def push_mk)

theorem expandMacros_recursion_witness:
  "expandMacros demo_env (load_macro 1 demo_env) demo_loop (''%{'' @ ''foo'' @ ''}'') 100 = Inr (1, demo_loop, [])"
  by (rule expandMacros_recursion[OF demo_plain_foo(1,2) demo_loop_defs])
    (simp_all add: mk_def_def pushMacro_def Let_def)

theorem args_roundtrip_witness:
  "mc_wf (freeArgs (add_defs empty_mc 1 (no_args ''foo'')) 1) \<and>
   defs_of (freeArgs (add_defs empty_mc 1 (no_args ''foo'')) 1) = defs_of empty_mc"
proof (rule args_roundtrip[OF mc_wf_empty])
  show "distinct (arg_names (no_args ''foo''))" by code_simp
  show "to_short 1 = 1" by code_simp
next
  fix n assume "n \<in> set (arg_names (no_args ''foo''))"
  then show "plain_name n = n \<and> \<not> readonly_blocks (defs_of empty_mc n) n"
    by (auto simp: arg_names_def no_args_def plain_name_def skip_dot_def readonly_blocks_def)
qed simp

end
