(* ===== verification/MacroFile.thy ===== *)
theory MacroFile
  imports MacroThms
begin

text \<open>
  Reading macro files: lines and continuations as \<open>rdcl\<close> sees them, and the table that a file of
  definitions leaves.
\<close>

section \<open>Plain lines\<close>

lemma fgets_line_nl:
  "CHR 0x0A \<notin> set l \<Longrightarrow> length l < k \<Longrightarrow> fgets_line k (l @ CHR 0x0A # r) = (l @ [CHR 0x0A], r)"
proof (induction l arbitrary: k)
  case Nil
  then show ?case by (cases k) auto
next
  case (Cons a l)
  then show ?case by (cases k) auto
qed

lemma fgets_nl:
  "CHR 0x0A \<notin> set l \<Longrightarrow> Suc (length l) < k \<Longrightarrow> fgets k (l @ CHR 0x0A # r) = Some (l @ [CHR 0x0A], r)"
  using fgets_line_nl[of l "k - 1" r] by (simp add: fgets_def)

lemma trim_eol_snoc: "l \<noteq> [] \<Longrightarrow> \<not> iseol (last l) \<Longrightarrow> trim_eol (l @ [CHR 0x0A]) = l"
  by (cases l rule: rev_cases) (auto simp: trim_eol_def iseol_def)

text \<open>A line that opens no bracket, holds no escape and does not go on.\<close>

definition plain_file_line :: "string \<Rightarrow> bool" where
  "plain_file_line l \<longleftrightarrow> l \<noteq> [] \<and> list_all (\<lambda>c. \<not> iseol c \<and> c \<noteq> CHR 0x5C \<and> c \<noteq> NUL) l \<and> rdcl_scan 0 0 l = (0, 0)"

lemma rdcl_plain:
  assumes "plain_file_line l" "Suc (length l) < N"
  shows "rdcl N (l @ CHR 0x0A # r) = Some (l, r)"
proof -
  have l: "l \<noteq> []" "\<not> iseol (last l)" "last l \<noteq> CHR 0x5C" "CHR 0x0A \<notin> set l" "NUL \<notin> set l"
    using assms(1) last_in_set[of l] by (auto simp: plain_file_line_def list_all_iff iseol_def)
  have f: "fgets N (l @ CHR 0x0A # r) = Some (l @ [CHR 0x0A], r)" by (rule fgets_nl[OF l(4) assms(2)])
  have c: "cstr (l @ [CHR 0x0A]) = l @ [CHR 0x0A]" using l(5) cstr_plain[of "l @ [CHR 0x0A]"] by simp
  have t: "trim_eol (l @ [CHR 0x0A]) = l" by (rule trim_eol_snoc[OF l(1,2)])
  have s: "rdcl_scan 0 0 l = (0, 0)" using assms(1) by (simp add: plain_file_line_def)
  have "rdcl_loop [] 0 0 N (l @ CHR 0x0A # r) = (l, r)"
    by (subst rdcl_loop.simps) (simp add: f c t s l)
  then show ?thesis by (simp add: rdcl_def f c)
qed

lemma scan_snoc_escape: "CHR 0x5C \<notin> set x \<Longrightarrow> rdcl_scan a b (x @ [CHR 0x5C]) = rdcl_scan a b x"
proof (induction x arbitrary: a b rule: length_induct)
  case (1 x)
  show ?case
  proof (cases x)
    case (Cons c cs)
    have IH: "rdcl_scan a b (y @ [CHR 0x5C]) = rdcl_scan a b y" if "y = cs \<or> y = tl cs" for a b y
    proof -
      have "length y < length x" "CHR 0x5C \<notin> set y" using "1.prems" Cons that by (cases cs; auto)+
      then show ?thesis using "1.IH" by blast
    qed
    have c: "c \<noteq> CHR 0x5C" using "1.prems" Cons by auto
    show ?thesis
    proof (cases cs)
      case Nil
      then show ?thesis using c Cons by simp
    next
      case (Cons d ds)
      then show ?thesis
        unfolding \<open>x = c # cs\<close> append_Cons using c IH[of cs] IH[of ds]
        by (subst (1 2) rdcl_scan.simps(2)) (simp del: rdcl_scan.simps)
    qed
  qed simp
qed

text \<open>A backslash at the end of a line joins the next one to it; both stay, for \<open>doDefine\<close>.\<close>

lemma rdcl_continued:
  assumes "plain_file_line l" "plain_file_line m" "length l + length m + 4 < N"
  shows "rdcl N (l @ CHR 0x5C # CHR 0x0A # m @ CHR 0x0A # r) = Some (l @ CHR 0x5C # CHR 0x0A # m, r)"
proof -
  let ?l = "l @ [CHR 0x5C]"
  have l: "CHR 0x0A \<notin> set ?l" "NUL \<notin> set ?l"
    using assms(1) by (auto simp: plain_file_line_def list_all_iff iseol_def)
  have m: "m \<noteq> []" "\<not> iseol (last m)" "last m \<noteq> CHR 0x5C" "CHR 0x0A \<notin> set m" "NUL \<notin> set m"
    using assms(2) last_in_set[of m] by (auto simp: plain_file_line_def list_all_iff iseol_def)
  have f: "fgets N (?l @ CHR 0x0A # m @ CHR 0x0A # r) = Some (?l @ [CHR 0x0A], m @ CHR 0x0A # r)"
    by (rule fgets_nl[OF l(1)]) (use assms(3) in simp)
  have c: "cstr (?l @ [CHR 0x0A]) = ?l @ [CHR 0x0A]" using l(2) cstr_plain[of "?l @ [CHR 0x0A]"] by simp
  have t: "trim_eol (?l @ [CHR 0x0A]) = ?l" by (rule trim_eol_snoc) (simp_all add: iseol_def)
  have s: "rdcl_scan 0 0 ?l = (0, 0)"
    by (subst scan_snoc_escape) (use assms(1) in \<open>auto simp: plain_file_line_def list_all_iff\<close>)
  let ?N = "N - Suc (length ?l)"
  have f2: "fgets ?N (m @ CHR 0x0A # r) = Some (m @ [CHR 0x0A], r)"
    by (rule fgets_nl[OF m(4)]) (use assms(3) in simp)
  have c2: "cstr (m @ [CHR 0x0A]) = m @ [CHR 0x0A]" using m(5) cstr_plain[of "m @ [CHR 0x0A]"] by simp
  have t2: "trim_eol (m @ [CHR 0x0A]) = m" by (rule trim_eol_snoc[OF m(1,2)])
  have s2: "rdcl_scan 0 0 m = (0, 0)" using assms(2) by (simp add: plain_file_line_def)
  have two: "rdcl_loop (?l @ [CHR 0x0A]) 0 0 ?N (m @ CHR 0x0A # r) = (?l @ [CHR 0x0A] @ m, r)"
    by (subst rdcl_loop.simps) (simp only: f2 option.case prod.case, simp add: c2 t2 s2 m)
  have "rdcl_loop [] 0 0 N (?l @ CHR 0x0A # m @ CHR 0x0A # r) = (?l @ [CHR 0x0A] @ m, r)"
    by (subst rdcl_loop.simps) (simp only: f option.case prod.case, use two c t s in \<open>simp add: Let_def\<close>)
  then show ?thesis using f c by (simp add: rdcl_def)
qed

section \<open>Files of definitions\<close>

definition def_line :: "string \<times> string \<Rightarrow> string" where
  "def_line d = ''%'' @ fst d @ '' '' @ snd d"

definition def_file :: "(string \<times> string) list \<Rightarrow> string" where
  "def_file ds = concat (map (\<lambda>d. def_line d @ [CHR 0x0A]) ds)"

definition plain_def :: "string \<times> string \<Rightarrow> bool" where
  "plain_def d \<longleftrightarrow>
     legal_name (fst d) \<and> list_all macro_char (fst d) \<and> plain_body (snd d) \<and>
     length (fst d) + 4 + length (snd d) < macro_BUFSIZ"

lemma scan_plain_body: "list_all plain_char b \<Longrightarrow> rdcl_scan 0 0 b = (0, 0)"
  by (induction b) (auto simp: plain_char_def)

lemma scan_name: "list_all macro_char n \<Longrightarrow> rdcl_scan 0 0 (n @ r) = rdcl_scan 0 0 r"
proof (induction n)
  case (Cons c cs)
  then have "c \<noteq> CHR 0x5C" "c \<noteq> CHR ''%''" "c \<noteq> CHR ''{''" "c \<noteq> CHR ''}''" "c \<noteq> CHR ''(''" "c \<noteq> CHR '')''"
    by (auto simp: macro_char_def xis_defs cval_def)
  with Cons show ?case by simp
qed simp

lemma plain_def_line: "plain_def d \<Longrightarrow> plain_file_line (def_line d) \<and> Suc (length (def_line d)) < macro_BUFSIZ"
proof -
  assume a: "plain_def d"
  obtain c cs where n: "fst d = c # cs" using a by (cases "fst d") (auto simp: plain_def_def legal_name_def)
  have c: "c \<noteq> CHR ''{''" "c \<noteq> CHR ''(''" "c \<noteq> CHR ''%''"
    using a n by (auto simp: plain_def_def macro_char_def xis_defs cval_def)
  have "list_all plain_char ('' '' @ snd d)" using a by (simp add: plain_def_def plain_body_def plain_char_def)
  then have "rdcl_scan 0 0 (fst d @ '' '' @ snd d) = (0, 0)"
    using scan_name[of "fst d" "'' '' @ snd d"] scan_plain_body a by (simp add: plain_def_def)
  then have "rdcl_scan 0 0 (def_line d) = (0, 0)" using c by (simp add: def_line_def n)
  moreover have "list_all (\<lambda>c. \<not> iseol c \<and> c \<noteq> CHR 0x5C \<and> c \<noteq> NUL) (fst d)"
    using a by (auto simp: plain_def_def list_all_iff macro_char_def iseol_def xis_defs cval_def)
  moreover have "list_all (\<lambda>c. \<not> iseol c \<and> c \<noteq> CHR 0x5C \<and> c \<noteq> NUL) (snd d)"
    using a by (auto simp: plain_def_def plain_body_def list_all_iff plain_char_def)
  ultimately show ?thesis using a by (simp add: plain_file_line_def def_line_def plain_def_def iseol_def)
qed

lemma load_def_line:
  assumes "plain_def d"
  shows "load_line E load self nesting mb (def_line d) =
    Inr (0, mb\<lparr> mb_mc := addMacro (mb_mc mb) (fst d) None (Some (snd d)) (-14) \<rparr>)"
proof -
  obtain c cs where n: "fst d = c # cs" using assms by (cases "fst d") (auto simp: plain_def_def legal_name_def)
  have c: "c \<noteq> CHR ''{''" using assms n by (auto simp: plain_def_def macro_char_def xis_defs cval_def)
  have "rpmDefineMacro mb (fst d @ '' '' @ snd d) (-13) =
      Inr (mb\<lparr> mb_mc := addMacro (mb_mc mb) (fst d) None (Some (snd d)) (-13 - 1) \<rparr>)"
    by (rule rpmDefineMacro_plain) (use assms in \<open>auto simp: plain_def_def\<close>)
  then show ?thesis
    using c by (simp add: load_line_def def_line_def SKIPBLANK_def isblank_def n numeral_eq_Suc)
qed

lemma load_def_lines:
  "\<forall>d\<in>set ds. plain_def d \<Longrightarrow>
   load_lines E load self nesting mb (def_file ds) =
     Inr (0, mb\<lparr> mb_mc := fold (\<lambda>d mc. addMacro mc (fst d) None (Some (snd d)) (-14)) ds (mb_mc mb) \<rparr>)"
proof (induction ds arbitrary: mb)
  case Nil
  show ?case by (subst load_lines.simps) (simp add: def_file_def rdcl_def fgets_def macro_BUFSIZ_def)
next
  case (Cons d ds)
  have d: "plain_def d" using Cons.prems by simp
  have r: "rdcl macro_BUFSIZ (def_file (d # ds)) = Some (def_line d, def_file ds)"
    using rdcl_plain[of "def_line d" macro_BUFSIZ "def_file ds"] plain_def_line[OF d] by (simp add: def_file_def)
  show ?case
    using Cons by (subst load_lines.simps) (simp add: r load_def_line[OF d])
qed

text \<open>C14: a macro file defines what it says. Reading a file of lines \<open>%name body\<close>,
  with names that \<open>%define\<close> accepts, bodies that are not empty, do not start or end with a
  blank and have no brackets, escapes, percent signs and NUL bytes, and lines that fit into the buffer,
  succeeds and pushes exactly these definitions, in the order of the file, at the level of macro files;
  no other part of the state changes but the count of calls.\<close>

theorem rpmLoadMacroFile_defines:
  assumes "\<forall>d\<in>set ds. plain_def d" "env_file E (mb_clock mb) fn = Some (def_file ds)"
  shows "rpmLoadMacroFile (Suc k) E mb fn nesting =
    Inr (0, (tick mb)\<lparr> mb_mc := fold (\<lambda>d mc. addMacro mc (fst d) None (Some (snd d)) (-14)) ds (mb_mc mb) \<rparr>)"
  using load_def_lines[OF assms(1)] assms(2) by (simp add: tick_def)

definition demo_file_env :: menv where
  "demo_file_env = demo_env\<lparr> env_file := (\<lambda>_ _. Some (def_file [(''foo'', ''bar''), (''_libdir'', ''/usr/lib'')])) \<rparr>"

theorem rpmLoadMacroFile_defines_witness:
  "rpmLoadMacroFile 1 demo_file_env demo_buf ''macros'' 2 =
    Inr (0, (tick demo_buf)\<lparr> mb_mc := addMacro (addMacro empty_mc ''foo'' None (Some ''bar'') (-14))
      ''_libdir'' None (Some ''/usr/lib'') (-14) \<rparr>)"
proof -
  have "\<forall>d\<in>set [(''foo'', ''bar''), (''_libdir'', ''/usr/lib'')]. plain_def d" by code_simp
  then show ?thesis
    using rpmLoadMacroFile_defines[of "[(''foo'', ''bar''), (''_libdir'', ''/usr/lib'')]" demo_file_env demo_buf "''macros''" 0 2]
    by (simp add: demo_file_env_def)
qed

end
