(* ===== verification/MacroPath.thy ===== *)
theory MacroPath
  imports MacroExpand
begin

text \<open>
  The users of the expander in \<open>rpmio/macro.c\<close>: expansion to a number, and to canonical paths.
  \<open>rpmCleanPath\<close> works in place; the written text never gets ahead of the read one, so the
  model keeps the written part and the unread rest, with \<open>te\<close> an index into the former.
\<close>

section \<open>Numbers\<close>

text \<open>The value of a digit in bases up to 16, and \<open>strtol\<close> with base 0: the value, and the rest
  behind the digits, the whole text where there are none.\<close>

definition digit_val :: "char \<Rightarrow> nat option" where
  "digit_val c =
     (let v = cval c in
      if xisdigit v then Some (nat (v - 48))
      else if 97 \<le> v \<and> v \<le> 102 then Some (nat (v - 87))
      else if 65 \<le> v \<and> v \<le> 70 then Some (nat (v - 55))
      else None)"

definition digit_in :: "nat \<Rightarrow> char \<Rightarrow> bool" where
  "digit_in base c = (case digit_val c of None \<Rightarrow> False | Some d \<Rightarrow> d < base)"

definition digits_in :: "nat \<Rightarrow> string \<Rightarrow> nat" where
  "digits_in base ds = foldl (\<lambda>acc c. acc * base + the (digit_val c)) 0 ds"

definition strtol0 :: "string \<Rightarrow> int \<times> string" where
  "strtol0 s =
     (let (neg, t) = strip_sign s;
          hex = (take 1 t = ''0'' \<and> length t > 2 \<and> (t ! 1 = CHR ''x'' \<or> t ! 1 = CHR ''X'') \<and> digit_in 16 (t ! 2));
          base = (if hex then 16 else if take 1 t = ''0'' then 8 else 10);
          u = (if hex then drop 2 t else t);
          ds = takeWhile (digit_in base) u; v = int (digits_in base ds) in
      if ds = [] then (0, s)
      else (if neg then max (- v) (- (2 ^ 63)) else min v (2 ^ 63 - 1), dropWhile (digit_in base) u))"

text \<open>The number that an expanded text stands for.\<close>

definition numeric_value :: "string \<Rightarrow> int" where
  "numeric_value val =
     (case val of
        [] \<Rightarrow> 0
      | c # cs \<Rightarrow>
          if c = CHR ''%'' then 0
          else if c = CHR ''Y'' \<or> c = CHR ''y'' then 1
          else if c = CHR ''N'' \<or> c = CHR ''n'' then 0
          else
            let (v, end') = strtol0 val in
            if end' = [] then sint (word_of_int v :: u32) else 0)"

definition rpmExpandNumeric :: "menv \<Rightarrow> loader \<Rightarrow> MacroBuf \<Rightarrow> string \<Rightarrow> (MacroBuf \<times> int) outcome" where
  "rpmExpandNumeric E load mb arg =
     andThen (rpmMCExpand E load mb [arg]) (\<lambda>(mb1, val). Inr (mb1, numeric_value val))"

section \<open>Canonical paths\<close>

definition at_end_or_slash :: "string \<Rightarrow> bool" where
  "at_end_or_slash s \<longleftrightarrow> s = [] \<or> hd s = CHR ''/''"

text \<open>\<open>..\<close> as a whole component, from its first dot.\<close>

definition dotdot :: "string \<Rightarrow> bool" where
  "dotdot s \<longleftrightarrow> take 2 s = ''..'' \<and> at_end_or_slash (drop 2 s)"

definition ends_slash :: "string \<Rightarrow> bool" where
  "ends_slash out \<longleftrightarrow> out \<noteq> [] \<and> last out = CHR ''/''"

text \<open>Where \<open>te\<close> goes at a slash, and when a component is taken back.\<close>

definition te_forward :: "string \<Rightarrow> nat \<Rightarrow> nat" where
  "te_forward out te =
     (let se = Suc te + length (takeWhile (\<lambda>c. c \<noteq> CHR ''/'') (drop (Suc te) out)) in
      if se < length out then se else te)"

definition te_back :: "string \<Rightarrow> nat \<Rightarrow> nat" where
  "te_back out te = length (dropWhile (\<lambda>c. c \<noteq> CHR ''/'') (rev (take te out))) - 1"

fun strip_slashes :: "nat \<Rightarrow> string \<Rightarrow> string" where
  "strip_slashes te out =
     (if length out > te \<and> ends_slash out then strip_slashes te (butlast out) else out)"

declare strip_slashes.simps [simp del]

function clean_loop :: "bool \<Rightarrow> string \<Rightarrow> nat \<Rightarrow> string \<Rightarrow> string outcome" where
  "clean_loop beg out te [] = Inr out"
| "clean_loop beg out te (c # cs) =
     (if c = CHR '':'' then
        if take 2 cs = ''//'' then
          (case drop 2 cs of
             [] \<Rightarrow> Inl OutOfBounds
           | d # ds \<Rightarrow> clean_loop beg (out @ ''://'' @ [d]) (length out + 3) ds)
        else clean_loop True (out @ [c]) te cs
      else if c = CHR ''/'' then
        let te' = te_forward out te in
        clean_loop beg (strip_slashes te' out @ [c]) te' (dropWhile (\<lambda>d. d = CHR ''/'') cs)
      else if c = CHR ''.'' then
        if beg \<and> dotdot (c # cs) then clean_loop beg (out @ ''..'') te (tl cs)
        else if beg \<and> cs = [] then clean_loop beg (out @ [c]) te cs
        else if ends_slash out \<and> at_end_or_slash cs then clean_loop beg out te (tl cs)
        else if \<not> beg \<and> ends_slash out \<and> dotdot (c # cs) then
          clean_loop beg (take te out) (te_back out te) (tl cs)
        else clean_loop beg (out @ [c]) te cs
      else clean_loop False (out @ [c]) te cs)"
  by pat_completeness auto
termination
proof (relation "measure (\<lambda>(beg, out, te, s). length s)", goal_cases)
  case (2 beg out te c cs d ds)
  from arg_cong[OF this(3), of length] show ?case by simp
qed (auto simp: le_imp_less_Suc length_dropWhile_le)

definition rpmCleanPath :: "string \<Rightarrow> string outcome" where
  "rpmCleanPath path =
     andThen (clean_loop True [] 0 path) (\<lambda>out.
       Inr (if length out > 1 \<and> last out = CHR ''/'' then butlast out else out))"

text \<open>The arguments are concatenated in a buffer of fixed size.\<close>

definition rpmGetPath :: "menv \<Rightarrow> loader \<Rightarrow> MacroBuf \<Rightarrow> string list \<Rightarrow> (MacroBuf \<times> string) outcome" where
  "rpmGetPath E load mb args =
     (case args of
        [] \<Rightarrow> Inr (mb, [])
      | p # ps \<Rightarrow>
          guardC BufferOverflow (length (concat args) < macro_BUFSIZ)
          (andThen (expandMacros E load mb (concat args) macro_BUFSIZ) (\<lambda>(rc, mb1, t).
          andThen (rpmCleanPath t) (\<lambda>buf.
            if ps \<noteq> [] \<and> last ps = ''/'' then
              guardC OutOfBounds (buf \<noteq> [])
                (if last buf = CHR ''/'' then Inr (mb1, buf)
                 else guardC BufferOverflow (length buf + 1 < macro_BUFSIZ) (Inr (mb1, buf @ ''/'')))
            else Inr (mb1, buf)))))"

text \<open>Three parts, each of which may be a URL: the first URL among them gives the lead of the result.\<close>

definition url_lead :: "string \<Rightarrow> string option" where
  "url_lead x =
     (if urlIsURL x > 1
      then Some (case urlPath x of None \<Rightarrow> x | Some p \<Rightarrow> take (length x - length p) x)
      else None)"

definition path_part :: "string \<Rightarrow> string" where
  "path_part x = (case urlPath x of None \<Rightarrow> [] | Some p \<Rightarrow> p)"

definition nonempty_or_root :: "string \<Rightarrow> string" where
  "nonempty_or_root p = (if p = [] then ''/'' else p)"

definition first_lead :: "string list \<Rightarrow> string" where
  "first_lead xs = (case List.find (\<lambda>x. url_lead x \<noteq> None) xs of None \<Rightarrow> [] | Some x \<Rightarrow> the (url_lead x))"

definition rpmGenPath ::
  "menv \<Rightarrow> loader \<Rightarrow> MacroBuf \<Rightarrow> string \<Rightarrow> string \<Rightarrow> string \<Rightarrow> (MacroBuf \<times> string) outcome" where
  "rpmGenPath E load mb urlroot urlmdir urlfile =
     andThen (rpmGetPath E load mb [urlroot]) (\<lambda>(mb1, xroot).
     andThen (rpmGetPath E load mb1 [urlmdir]) (\<lambda>(mb2, xmdir).
     andThen (rpmGetPath E load mb2 [urlfile]) (\<lambda>(mb3, xfile).
       rpmGetPath E load mb3
         [first_lead [xroot, xmdir, xfile], nonempty_or_root (path_part xroot), ''/'',
          nonempty_or_root (path_part xmdir), ''/'', path_part xfile])))"

end
