(* ===== verification/MacroPathThms.thy ===== *)
theory MacroPathThms
  imports MacroPath "HOL-Library.Sublist"
begin

text \<open>
  What \<open>rpmCleanPath\<close> does: it stays inside the path it is given, does not lengthen it, and
  brings paths without dots and colons into their canonical form.
\<close>

section \<open>Bounds\<close>

lemma strip_slashes_le: "length (strip_slashes te out) \<le> length out"
proof (induction te out rule: strip_slashes.induct)
  case (1 te out)
  show ?case
  proof (cases "length out > te \<and> ends_slash out")
    case True
    then have "strip_slashes te out = strip_slashes te (butlast out)" by (subst strip_slashes.simps) simp
    moreover have "length (strip_slashes te (butlast out)) \<le> length out" using 1 True by fastforce
    ultimately show ?thesis by simp
  next
    case False
    then show ?thesis by (subst strip_slashes.simps) auto
  qed
qed

lemma not_suffix_drop: "\<not> suffix t s \<Longrightarrow> suffix r s \<Longrightarrow> \<not> suffix t r"
  using suffix_order.trans by blast

lemma clean_loop_bounded:
  "\<not> suffix ''://'' s \<Longrightarrow> \<exists>r. clean_loop beg out te s = Inr r \<and> length r \<le> length out + length s"
proof (induction s arbitrary: beg out te rule: length_induct)
  case (1 s)
  show ?case
  proof (cases s)
    case Nil
    then show ?thesis by simp
  next
    case s: (Cons c cs)
    have step: "\<exists>r. clean_loop b o' t u = Inr r \<and> length r \<le> length out + length s"
      if "suffix u cs" "length o' + length u \<le> length out + length s" for b o' t u
    proof -
      have "length u < length s" "\<not> suffix ''://'' u"
        using that(1) not_suffix_drop[OF "1.prems", of u] suffix_length_le[OF that(1)] s
        by (auto simp: suffix_ConsI)
      then show ?thesis using "1.IH" that(2) by (meson le_trans)
    qed
    have tl: "suffix (tl cs) cs" "length (tl cs) \<le> length cs" by (simp_all add: suffix_tl)
    have dd: "dotdot (c # cs) \<Longrightarrow> length cs \<ge> 1" by (cases cs) (auto simp: dotdot_def)
    consider (url) "c = CHR '':''" "take 2 cs = ''//''" | (colon) "c = CHR '':''" "take 2 cs \<noteq> ''//''"
      | (slash) "c = CHR ''/''" | (dot) "c = CHR ''.''"
      | (other) "c \<noteq> CHR '':''" "c \<noteq> CHR ''/''" "c \<noteq> CHR ''.''" by blast
    then show ?thesis
    proof cases
      case url
      obtain d ds where d: "drop 2 cs = d # ds"
      proof (cases "drop 2 cs")
        case Nil
        then have "cs = ''//''" using url(2) append_take_drop_id[of 2 cs] by simp
        then show ?thesis using "1.prems" s url(1) by simp
      qed blast
      then have cs: "cs = CHR ''/'' # CHR ''/'' # d # ds"
        using url(2) append_take_drop_id[of 2 cs] by simp
      show ?thesis using step[of ds "out @ ''://'' @ [d]" beg "length out + 3"] url s
        by (simp add: cs suffix_ConsI)
    next
      case colon
      then show ?thesis using step[of cs "out @ [c]" True te] s by simp
    next
      case slash
      let ?te = "te_forward out te" and ?r = "dropWhile (\<lambda>d. d = CHR ''/'') cs"
      have "length (strip_slashes ?te out @ [c]) + length ?r \<le> length out + length s"
        using strip_slashes_le[of ?te out] length_dropWhile_le[of "\<lambda>d. d = CHR ''/''" cs] s by simp
      then show ?thesis using step[of ?r "strip_slashes ?te out @ [c]" beg ?te] slash s
        by (simp add: Let_def suffix_dropWhile)
    next
      case dot
      have a: "dotdot (c # cs) \<Longrightarrow> length (out @ ''..'') + length (tl cs) \<le> length out + length s"
        using dd s by (cases cs) auto
      show ?thesis
        using step[of "tl cs" "out @ ''..''" beg te] step[of cs "out @ [c]" beg te]
          step[of "tl cs" out beg te] step[of "tl cs" "take te out" beg "te_back out te"] tl a dot s
        by auto
    next
      case other
      then show ?thesis using step[of cs "out @ [c]" False te] s by simp
    qed
  qed
qed

text \<open>C19: \<open>rpmCleanPath\<close> is safe on every path that does not end with \<open>://\<close>: it reads nothing behind
  the end of the path, and the result fits into its place.\<close>

theorem rpmCleanPath_bounded:
  assumes "\<not> suffix ''://'' path"
  shows "\<exists>r. rpmCleanPath path = Inr r \<and> length r \<le> length path"
proof -
  obtain r where "clean_loop True [] 0 path = Inr r" "length r \<le> length path"
    using clean_loop_bounded[OF assms, of True "[]" 0] by auto
  then show ?thesis by (auto simp: rpmCleanPath_def)
qed

theorem rpmCleanPath_bounded_witness:
  "\<exists>r. rpmCleanPath ''http://host/a/../b'' = Inr r \<and> length r \<le> length ''http://host/a/../b''"
  using rpmCleanPath_bounded[of "''http://host/a/../b''"] by (simp add: suffix_def)

text \<open>A path that ends with \<open>://\<close> is read behind its end.\<close>

lemma rpmCleanPath_bare_url: "rpmCleanPath ''http://'' = Inl OutOfBounds"
  by code_simp

section \<open>Canonical form\<close>

text \<open>A path as a list of components, each with the number of slashes before it less one, and the
  number of slashes at its end.\<close>

fun messy :: "(nat \<times> string) list \<Rightarrow> string" where
  "messy [] = []"
| "messy ((k, c) # cs) = replicate (Suc k) (CHR ''/'') @ c @ messy cs"

definition canonical :: "string list \<Rightarrow> string" where
  "canonical cs = concat (map (\<lambda>c. CHR ''/'' # c) cs)"

definition plain_component :: "string \<Rightarrow> bool" where
  "plain_component c \<longleftrightarrow> c \<noteq> [] \<and> (\<forall>x\<in>set c. x \<noteq> CHR ''/'' \<and> x \<noteq> CHR '':'' \<and> x \<noteq> CHR ''.'')"

lemma clean_component:
  "\<forall>x\<in>set c. x \<noteq> CHR ''/'' \<and> x \<noteq> CHR '':'' \<and> x \<noteq> CHR ''.'' \<Longrightarrow>
   clean_loop beg out te (c @ r) = clean_loop (beg \<and> c = []) (out @ c) te r"
  by (induction c arbitrary: beg out) auto

lemma strip_slashes_stop: "\<not> ends_slash out \<Longrightarrow> strip_slashes te out = out"
  by (subst strip_slashes.simps) simp

lemma clean_slashes:
  "\<not> ends_slash out \<Longrightarrow> r = [] \<or> hd r \<noteq> CHR ''/'' \<Longrightarrow>
   \<exists>te'. clean_loop beg out te (replicate (Suc k) (CHR ''/'') @ r) = clean_loop beg (out @ ''/'') te' r"
proof -
  assume a: "\<not> ends_slash out" "r = [] \<or> hd r \<noteq> CHR ''/''"
  have "dropWhile (\<lambda>d. d = CHR ''/'') (replicate k (CHR ''/'') @ r) = r"
    using a(2) by (induction k) (auto simp: dropWhile_eq_self_iff)
  then show ?thesis using a(1) by (auto simp: Let_def strip_slashes_stop)
qed

lemma hd_messy: "cs \<noteq> [] \<Longrightarrow> hd (messy cs @ r) = CHR ''/''"
  by (cases cs) (auto split: prod.splits)

lemma ends_component: "plain_component c \<Longrightarrow> \<not> ends_slash (out @ c)"
  by (auto simp: plain_component_def ends_slash_def)

lemma clean_messy:
  "\<forall>x\<in>set cs. plain_component (snd x) \<Longrightarrow> \<not> ends_slash out \<Longrightarrow>
   \<exists>b te'. clean_loop beg out te (messy cs @ replicate m (CHR ''/'')) =
     Inr (out @ canonical (map snd cs) @ (if m = 0 then [] else ''/''))"
proof (induction cs arbitrary: beg out te)
  case Nil
  show ?case
  proof (cases m)
    case (Suc m')
    obtain te' where "clean_loop beg out te (replicate (Suc m') (CHR ''/'') @ []) = clean_loop beg (out @ ''/'') te' []"
      using clean_slashes[OF Nil(2), of "[]" beg te m'] by auto
    then show ?thesis using Suc by (simp add: canonical_def)
  qed (simp add: canonical_def)
next
  case (Cons x cs)
  obtain k c where x: "x = (k, c)" by (cases x)
  let ?r = "messy cs @ replicate m (CHR ''/'')"
  have c: "plain_component c" using Cons.prems(1) x by simp
  then have "hd (c @ ?r) \<noteq> CHR ''/''" by (cases c) (auto simp: plain_component_def)
  then obtain te' where "clean_loop beg out te (replicate (Suc k) (CHR ''/'') @ c @ ?r) = clean_loop beg (out @ ''/'') te' (c @ ?r)"
    using clean_slashes[OF Cons.prems(2), of "c @ ?r" beg te k] by auto
  also have "\<dots> = clean_loop (beg \<and> c = []) ((out @ ''/'') @ c) te' ?r"
    by (rule clean_component) (use c in \<open>auto simp: plain_component_def\<close>)
  finally have e: "clean_loop beg out te (messy (x # cs) @ replicate m (CHR ''/'')) =
      clean_loop (beg \<and> c = []) ((out @ ''/'') @ c) te' ?r" by (simp add: x)
  have "\<not> ends_slash ((out @ ''/'') @ c)" using ends_component[OF c] by blast
  from Cons.IH[OF _ this, of "beg \<and> c = []" te'] Cons.prems(1) show ?case
    unfolding e by (simp add: x canonical_def)
qed

text \<open>C20: runs of slashes become one and those at the end go. A path given by its components, none of
  which contains a dot or a colon, with any number of slashes before each and at the end, is
  cleaned to the components with one slash before each.\<close>

theorem rpmCleanPath_canonical:
  assumes "\<forall>x\<in>set cs. plain_component (snd x)" "cs \<noteq> []"
  shows "rpmCleanPath (messy cs @ replicate m (CHR ''/'')) = Inr (canonical (map snd cs))"
proof -
  have cl: "clean_loop True [] 0 (messy cs @ replicate m (CHR ''/'')) =
      Inr (canonical (map snd cs) @ (if m = 0 then [] else ''/''))"
    using clean_messy[OF assms(1), of "[]" True 0 m] by (simp add: ends_slash_def)
  obtain ds d where snoc: "map snd cs = ds @ [d]" using assms(2) by (cases "map snd cs" rule: rev_cases) auto
  then have "d \<in> set (map snd cs)" by simp
  then have d: "plain_component d" using assms(1) by auto
  have can: "canonical (map snd cs) = canonical ds @ CHR ''/'' # d" by (simp add: snoc canonical_def)
  then have "last (canonical (map snd cs)) \<noteq> CHR ''/''" "length (canonical (map snd cs)) > 1"
    using d by (cases d; auto simp: plain_component_def)+
  then show ?thesis using cl by (cases "m = 0") (auto simp: rpmCleanPath_def)
qed

theorem rpmCleanPath_canonical_witness:
  "rpmCleanPath ''//usr///lib//'' = Inr ''/usr/lib''"
  using rpmCleanPath_canonical[of "[(1, ''usr''), (2, ''lib'')]" 2]
  by (simp add: plain_component_def canonical_def numeral_eq_Suc)

text \<open>A parent component at the start of a relative path makes the path absolute; above a
  first component of an absolute path, nothing is left.\<close>

lemma rpmCleanPath_parent:
  "rpmCleanPath ''a/../b'' = Inr ''/b''" "rpmCleanPath ''/a/..'' = Inr []"
  by code_simp+

end
