(* ===== verification/Spec2Isabelle.thy ===== *)
theory Spec2Isabelle
  imports EvrProps Ns DsThms Hash Argv Ps ExprRound HdrBounds HdrI18n BloomThms OrderThms TarArchive
    ArThms MacroFile MacroPathThms
begin

text \<open>
  A verification development for rpm 5 (the C sources under \<open>src/\<close>): the data structures and
  decision procedures on which package selection rests. The header says what each theory models,
  how the model corresponds to the code, and what is left out.

  \<^bold>\<open>Conventions.\<close> A function of the source is a HOL function of the same name. It returns an
  \<open>outcome\<close>: \<open>ok x\<close>, or \<open>Inl\<close> of a fault (null dereference, access outside an array or a
  string, failed \<open>assert\<close>, buffer overflow, signed overflow, division by zero, release of memory
  that was not allocated) where the C code has no defined behaviour left. A C string is a
  \<open>string\<close> without its NUL; a pointer into a string is the suffix it points at, or an index
  where two pointers into one buffer are subtracted. An array is a list of its allocated slots,
  indexed by \<open>slot\<close>, which faults outside; a pointer that may be NULL is an \<open>option\<close>; an
  unsigned field keeps its width as a word. Pool allocation, reference counts, logging and release
  of memory are not modelled, except where a release is itself a defect.

  \<^bold>\<open>Theories.\<close>
  \<^item> \<open>Prelude\<close>: faults, outcomes, slots, shared list lemmas.
  \<^item> \<open>CLib\<close>: the C library and \<open>rpmio/rpmiotypes.h\<close>, \<open>rpmio/strcasecmp.c\<close>: characters,
    comparison, search, numbers.
  \<^item> \<open>Cmp\<close>: \<open>qsort\<close> and \<open>bsearch\<close>, and the contract \<open>comparator\<close> of a comparison function
    under which they sort and search; interpreted on \<open>strcmp\<close> here and on the comparison
    functions of \<open>Argv\<close> and \<open>DsProps\<close>.
  \<^item> \<open>Evr\<close>, \<open>EvrOrder\<close>, \<open>EvrProps\<close>: \<open>rpmdb/rpmevr.c\<close>. The model of version comparison, parsing
    and range overlap; a specification by token lists; the segment loop refines it, so on version
    strings it is a total preorder, it compares digits as numbers, and overlap misses nothing.
  \<^item> \<open>Ns\<close>: \<open>rpmdb/rpmns.c\<close>, the classification and parsing of dependency names. \<open>rpmExpand\<close> is
    a parameter.
  \<^item> \<open>Ds\<close>, \<open>DsProps\<close>, \<open>DsThms\<close>: \<open>lib/rpmds.c\<close>, dependency sets, over \<open>Evr\<close> and \<open>Ns\<close>. A set is
    the record \<open>rpmds\<close> with its parallel arrays, its index \<open>i\<close> and the bounds \<open>l\<close>, \<open>u\<close> of its
    binary search. \<open>dsenv\<close> holds what the code takes from elsewhere (macro expansion, path
    composition, the regular expression engine, configured parsers and comparators). The loop
    \<open>while (rpmdsNext(ds) >= 0)\<close> is the function \<open>rpmdsEach\<close>. The entries of a well-formed set are
    its abstraction: \<open>rpmdsFind\<close> decides membership, \<open>rpmdsMerge\<close> is the sorted union.
  \<^item> \<open>Hash\<close>: \<open>rpmio/rpmhash.c\<close>. The table refines a multimap (the locale \<open>multimap\<close>).
  \<^item> \<open>Argv\<close>: \<open>rpmio/argv.c\<close>, string vectors.
  \<^item> \<open>Ps\<close>: \<open>lib/rpmps.c\<close>, problem sets and their messages.
  \<^item> \<open>Expr\<close>, \<open>ExprProps\<close>, \<open>ExprRound\<close>: \<open>build/expression.c\<close>. The scanner and the recursive
    descent parser with fuel; it is proved that the fuel of the entry points, two more than the
    length of the text, is never used up, and that a printed syntax tree is parsed to its value.
  \<^item> \<open>Hdr\<close>, \<open>HdrIO\<close>: \<open>rpmdb/header.c\<close> and \<open>rpmdb/header_internal.[ch]\<close>, the typed tag store of a package.
    \<open>Header\<close> is \<open>struct headerToken_s\<close>, its \<open>h_index\<close> the used part of the array of \<open>indexEntry\<close>; a data
    pointer is null, an offset into the blob the header was loaded from, or a buffer of its own. \<open>Hdr\<close>
    has the operations in memory, \<open>HdrIO\<close> loading (\<open>regionSwab\<close>, \<open>headerLoad\<close>), unloading, copying and
    the check of a raw index. The table of header extensions and the locale are parameters.
  \<^item> \<open>HdrProps\<close>, \<open>HdrThms\<close>, \<open>HdrStore\<close>: byte order and strings in memory, the order of the index
    (an interpretation of \<open>comparator\<close>), the specification \<open>wire\<close> of stored data, and the abstraction
    \<open>alpha\<close> of a header to a map from tags to typed values, which all operations refine.
  \<^item> \<open>HdrLoad\<close>, \<open>HdrCopy\<close>, \<open>HdrBounds\<close>: the image of a header (\<open>image_of\<close>) is what \<open>headerUnload\<close>
    writes, it loads to the same map, so a copy is equal; \<open>headerSizeof\<close> is its size; the entries of a
    sealed header stay inside its blob, and two blobs for which the code leaves its memory.
  \<^item> \<open>HdrI18n\<close>: \<open>headerAddI18NString\<close>, the strings of a tag in several languages, and their lookup.

  \<^item> \<open>Lookup3\<close>, \<open>Lookup3Thms\<close>: \<open>rpmio/lookup3.c\<close>, four hash functions, each with a loop for every
    alignment of the key; one reference definition by bytes for all of them. Byte order, alignment and
    the build under valgrind are arguments.
  \<^item> \<open>Bloom\<close>, \<open>BloomThms\<close>: \<open>rpmio/rpmbf.c\<close>, Bloom filters over \<open>Lookup3\<close>: a set of bit positions, no
    false negatives, union of filters.
  \<^item> \<open>Rpmal\<close>, \<open>RpmalThms\<close>: \<open>lib/rpmal.c\<close>, the packages of a transaction with the sorted index of what they
    provide (an interpretation of \<open>comparator\<close>), over \<open>Ds\<close> and \<open>Bloom\<close>: the lookup of a dependency finds
    exactly the packages that satisfy it, the lookup of a path misses none.
  \<^item> \<open>Order\<close>: \<open>lib/order.c\<close>, the order of a transaction (\<open>_rpmtsOrder\<close> without its parts under
    \<open>REFERENCE\<close>), over \<open>Rpmal\<close> and \<open>Ds\<close>. The record \<open>rpmts\<close> has the array of elements; an element is its index,
    \<open>tsortInfo\<close> its relations, counts and chain, the queue a list of indices. \<open>record_relations\<close> is the code up
    to "Record all relations", \<open>sort_pass\<close> one topological sort, \<open>break_loops\<close> the removal of relations that
    lie on loops, \<open>tsort\<close> the two in turn, \<open>new_order\<close> the array rebuilt from the keys.
  \<^item> \<open>OrderSort\<close>, \<open>OrderLoops\<close>, \<open>OrderThms\<close>: the abstraction of the elements to the set \<open>rels\<close> of
    relations and the counts of incoming ones, the invariant of a pass; only relations on loops are
    removed, and one is whenever elements are left; so the result is a permutation in which what is required
    comes first. \<open>orderListIndexCmp\<close> is another interpretation of \<open>comparator\<close>.
  \<^item> \<open>Iosm\<close>, \<open>IosmProps\<close>: the payload stages of \<open>rpmio/iosm.c\<close> (\<open>IOSM_DREAD\<close>, \<open>IOSM_POS\<close>, ...), the data
    loops and the number fields that the archive formats share.
  \<^item> \<open>Cpio\<close>, \<open>Tar\<close>, \<open>Ar\<close>: \<open>rpmio/cpio.c\<close>, \<open>rpmio/tar.c\<close>, \<open>rpmio/ar.c\<close>, the readers and writers of
    headers; \<open>Cpio\<close> has the stages that call them (\<open>IOSM_NEXT\<close>, the end of \<open>writeFile\<close>).
  \<^item> \<open>Payload\<close>: drivers over a list of files, and the contract \<open>archive_format\<close> under which unpacking
    returns what was packed. \<open>CpioProps\<close>, \<open>CpioThms\<close>, \<open>CpioArchive\<close> and \<open>TarThms\<close>, \<open>TarArchive\<close> show that
    the two formats meet it, and what happens beyond their limits; \<open>ArThms\<close> has the headers of ar and
    its table of long names, which does not fit the contract: a header depends on the ones before.

  \<^item> \<open>Url\<close>: \<open>urlPath\<close> and \<open>urlIsURL\<close> of \<open>rpmio/url.c\<close>.
  \<^item> \<open>MacroTable\<close>, \<open>MacroTableThms\<close>: the tables of \<open>rpmio/macro.c\<close>. A \<open>MacroContext\<close> is the sorted array of
    slots, a slot the chain of the definitions of a name, linked by \<open>prev\<close>. The contract \<open>def_stacks\<close> (what
    is found after an operation) is proved for \<open>addMacro\<close>, \<open>delMacro\<close> and \<open>freeArgs\<close>, so that the table
    refines a map from names to stacks of definitions.
  \<^item> \<open>MacroText\<close>: the scanners of the same file: matching brackets, continued lines (\<open>rdcl\<close>), the parts of a
    definition, the forms behind a percent sign.
  \<^item> \<open>Macro\<close>, \<open>MacroExpand\<close>: the expander. \<open>MacroBuf\<close> is \<open>struct MacroBuf_s\<close> without the text that is read,
    which is an argument; it also has the messages, the entries whose bodies are being read (\<open>mb_live\<close>,
    so that a release of one is the fault \<open>UseAfterFree\<close>) and a count of the calls to the system. Shell,
    files, environment and option parser are the record \<open>menv\<close>. \<open>expandMacro\<close> and everything it calls
    get the expander of the next level as an argument. \<open>MacroExpand\<close> has the entry points and the loading
    of macro files, \<open>MacroPath\<close> expansion to numbers and to canonical paths.
  \<^item> \<open>MacroInv\<close>, \<open>MacroThms\<close>, \<open>MacroFile\<close>, \<open>MacroPathThms\<close>: the invariant that every operation of the
    expander keeps (\<open>keeps\<close>); a definition and its use, conditional uses, arguments of a call, recursion
    without end; macro files define what they say; \<open>rpmCleanPath\<close> stays in its buffer and is canonical.

  \<^bold>\<open>Bounds and fuel.\<close> The expression parser has fuel: every token that is read shortens the
  rest of the text, so the nesting depth and the number of operators at one level are below its
  length. The data loops of the payload have fuel, since they make no progress over an empty buffer;
  the drivers give them one more than the bytes of the file, and the round trips show that this is
  enough. \<open>unpack\<close> takes at most as many files as its fuel. \<open>expandMacro\<close> recurses on the levels left of
  \<open>max_macro_depth\<close>, at most 16. A macro file may load itself while its lines are expanded, and nothing in the
  code stops that: the loader has a bound on the nesting of files, beyond which the result is the
  fault \<open>StackOverflow\<close>; the theorems hold for every bound. \<open>tsort\<close> recurses on
  the rescans left of the 100 that the code allows itself. All other loops are structural or have a termination proof by a measure. \<open>BUFSIZ\<close> is
  8192, the value of the C library; \<open>argvFgets\<close> takes it as an argument.

  \<^bold>\<open>Not modelled.\<close> The interpreters embedded in \<open>expandMacro\<close> (Lua and others, which a build may leave
  out), its trace output, \<open>rpmGlob\<close> and \<open>isCompressed\<close>; the check of dependencies against the database
  (\<open>lib/depends.c\<close>), the execution of a transaction and the build drivers, the
  stages of the payload that act on the file system (links among them: the drivers of \<open>Payload\<close> take a hard
  link without data, as the reader does, and never write one), the database back ends, input and output, digests and signatures, the bindings to scripting languages
  and the vendored libraries. They are effects on files, processes and services, or parameters here.
\<close>

end
